(* ===== verification/Domain_Events.thy ===== *)
theory Domain_Events
  imports Prelude "HOL-Library.Word"
begin

text \<open>
  The canonical event vocabulary of \<^verbatim>\<open>crates/domain/src/events.rs\<close>: the typed domain events, the
  event envelope with its identity columns, and the integrity hash that seals an envelope.

  Conventions used throughout: an enum variant \<open>E::V\<close> whose name would clash carries a short tag
  (\<open>Agg_Session\<close> for \<open>AggregateType::Session\<close>), and so do record fields (\<open>ev_sequence\<close> for
  \<open>EventEnvelope.sequence\<close>). Identities (\<open>SessionId\<close>, \<open>TaskId\<close>, ...) wrap a UUID; they are represented by
  their canonical text, which is what \<open>to_string\<close> produces and what the database stores. The
  \<open>f64\<close> cost carried by \<open>RunCostRecorded\<close> is only transported, so it is its 64-bit pattern.

  SHA-256 and JSON serialisation come from third-party crates: the composition that turns an
  envelope into its hash text is the parameter \<open>hash_env\<close>.
\<close>

type_synonym uuid = string

datatype aggregate_type = Agg_Session | Agg_Task | Agg_Run | Agg_Turn | Agg_RunStep

fun aggregate_as_str :: "aggregate_type \<Rightarrow> string" where
  "aggregate_as_str Agg_Session = ''session''"
| "aggregate_as_str Agg_Task = ''task''"
| "aggregate_as_str Agg_Run = ''run''"
| "aggregate_as_str Agg_Turn = ''turn''"
| "aggregate_as_str Agg_RunStep = ''run_step''"

datatype actor_type = Actor_System | Actor_User | Actor_Agent

record actor =
  actor_kind :: actor_type
  actor_name :: string

fun actor_as_str :: "actor_type \<Rightarrow> string" where
  "actor_as_str Actor_System = ''system''"
| "actor_as_str Actor_User = ''user''"
| "actor_as_str Actor_Agent = ''agent''"

definition actor_parse :: "string \<Rightarrow> actor_type option" where
  "actor_parse s =
     (if s = ''system'' then Some Actor_System
      else if s = ''user'' then Some Actor_User
      else if s = ''agent'' then Some Actor_Agent
      else None)"

datatype waiting_reason = Wr_UserInput | Wr_Approval | Wr_Capacity | Wr_External | Wr_Provider

datatype step_type =
    St_ContextCompile | St_ModelInvoke | St_ToolCall | St_ProcedureRun | St_ApprovalWait
  | St_Verification | St_Checkpoint | St_Handoff | St_UserQuestion

fun step_as_str :: "step_type \<Rightarrow> string" where
  "step_as_str St_ContextCompile = ''context_compile''"
| "step_as_str St_ModelInvoke = ''model_invoke''"
| "step_as_str St_ToolCall = ''tool_call''"
| "step_as_str St_ProcedureRun = ''procedure_run''"
| "step_as_str St_ApprovalWait = ''approval_wait''"
| "step_as_str St_Verification = ''verification''"
| "step_as_str St_Checkpoint = ''checkpoint''"
| "step_as_str St_Handoff = ''handoff''"
| "step_as_str St_UserQuestion = ''user_question''"

text \<open>\<open>InputMode\<close> of \<^verbatim>\<open>input_queue.rs\<close>; declared here because an event carries it.\<close>

datatype input_mode = Im_Steer | Im_Collect | Im_FollowUp | Im_SideQuestion

datatype domain_event =
    SessionCreated string
  | TaskCreated uuid string string "string option" "string option" "string option"
  | TaskQueued
  | TaskStarted
  | TaskWaiting waiting_reason
  | TaskReadyForReview
  | TaskCompleted string
  | TaskFailed string string
  | TaskCancelled string
  | TaskSteered string
  | ReviewHunkResolved string nat bool string
  | ReviewCommentAdded string nat string string
  | RunStarted uuid nat
  | RunCompleted
  | RunCostRecorded string string nat nat nat "64 word" nat
  | RunFailed string
  | TurnPrepared uuid nat
  | TurnCompleted
  | TurnFailed string
  | RunStepPrepared uuid step_type nat
  | RunStepCompleted
  | RunStepFailed string
  | CompactionApplied uuid string nat nat string
  | ConversationCheckpointed nat string
  | WorktreeCheckpointed nat string
  | ToolOutputChunk string nat nat string
  | SessionForked uuid nat "string list" "string list"
  | SessionRewound nat nat string
  | GoalSet string "string list"
  | TaskInputQueued string input_mode string
  | SideQuestionAsked string string nat
  | IndexUpdated string nat nat string "string list" bool

fun event_type_of :: "domain_event \<Rightarrow> string" where
  "event_type_of (SessionCreated _) = ''session_created''"
| "event_type_of (TaskCreated _ _ _ _ _ _) = ''task_created''"
| "event_type_of TaskQueued = ''task_queued''"
| "event_type_of TaskStarted = ''task_started''"
| "event_type_of (TaskWaiting _) = ''task_waiting''"
| "event_type_of TaskReadyForReview = ''task_ready_for_review''"
| "event_type_of (TaskCompleted _) = ''task_completed''"
| "event_type_of (TaskFailed _ _) = ''task_failed''"
| "event_type_of (TaskCancelled _) = ''task_cancelled''"
| "event_type_of (TaskSteered _) = ''task_steered''"
| "event_type_of (ReviewHunkResolved _ _ _ _) = ''review_hunk_resolved''"
| "event_type_of (ReviewCommentAdded _ _ _ _) = ''review_comment_added''"
| "event_type_of (RunStarted _ _) = ''run_started''"
| "event_type_of RunCompleted = ''run_completed''"
| "event_type_of (RunCostRecorded _ _ _ _ _ _ _) = ''run_cost_recorded''"
| "event_type_of (RunFailed _) = ''run_failed''"
| "event_type_of (TurnPrepared _ _) = ''turn_prepared''"
| "event_type_of TurnCompleted = ''turn_completed''"
| "event_type_of (TurnFailed _) = ''turn_failed''"
| "event_type_of (RunStepPrepared _ _ _) = ''run_step_prepared''"
| "event_type_of RunStepCompleted = ''run_step_completed''"
| "event_type_of (RunStepFailed _) = ''run_step_failed''"
| "event_type_of (CompactionApplied _ _ _ _ _) = ''compaction_applied''"
| "event_type_of (ConversationCheckpointed _ _) = ''conversation_checkpointed''"
| "event_type_of (ToolOutputChunk _ _ _ _) = ''tool_output_chunk''"
| "event_type_of (WorktreeCheckpointed _ _) = ''worktree_checkpointed''"
| "event_type_of (SessionForked _ _ _ _) = ''session_forked''"
| "event_type_of (SessionRewound _ _ _) = ''session_rewound''"
| "event_type_of (GoalSet _ _) = ''goal_set''"
| "event_type_of (TaskInputQueued _ _ _) = ''task_input_queued''"
| "event_type_of (SideQuestionAsked _ _ _) = ''side_question_asked''"
| "event_type_of (IndexUpdated _ _ _ _ _ _) = ''index_updated''"

section \<open>Envelopes\<close>

record event_envelope =
  ev_event_id :: string
  ev_session_id :: uuid
  ev_task_id :: "uuid option"
  ev_run_id :: "uuid option"
  ev_turn_id :: "uuid option"
  ev_step_id :: "uuid option"
  ev_aggregate_type :: aggregate_type
  ev_aggregate_id :: string
  ev_sequence :: nat
  ev_event_type :: string
  ev_schema_version :: "nat \<times> nat"
  ev_occurred_at :: string
  ev_actor :: actor
  ev_causation_id :: "string option"
  ev_correlation_id :: "string option"
  ev_payload :: domain_event
  ev_payload_object_hash :: "string option"
  ev_integrity_hash :: string

definition SCHEMA_VERSION :: "nat \<times> nat" where
  "SCHEMA_VERSION = (1, 0)"

text \<open>
  \<open>canonical_bytes\<close> serialises a copy whose hash field is blank; the copy determines the bytes,
  so the hash is a function of the copy.
\<close>

definition canonical_copy :: "event_envelope \<Rightarrow> event_envelope" where
  "canonical_copy e = e\<lparr>ev_integrity_hash := []\<rparr>"

definition compute_integrity_hash :: "(event_envelope \<Rightarrow> string) \<Rightarrow> event_envelope \<Rightarrow> string" where
  "compute_integrity_hash hash_env e = hash_env (canonical_copy e)"

definition seal :: "(event_envelope \<Rightarrow> string) \<Rightarrow> event_envelope \<Rightarrow> event_envelope" where
  "seal hash_env e = e\<lparr>ev_integrity_hash := compute_integrity_hash hash_env e\<rparr>"

definition verify_integrity :: "(event_envelope \<Rightarrow> string) \<Rightarrow> event_envelope \<Rightarrow> bool" where
  "verify_integrity hash_env e = (ev_integrity_hash e = compute_integrity_hash hash_env e)"

section \<open>Field names of the JSON encoding\<close>

text \<open>
  The internally tagged enum serialises as one JSON object holding the tag \<open>event\<close> and the
  variant's fields. The envelope deserialiser requires every field that is neither optional
  nor defaulted.
\<close>

fun event_json_keys :: "domain_event \<Rightarrow> string list" where
  "event_json_keys (SessionCreated _) = [''event'', ''display_name'']"
| "event_json_keys (TaskCreated _ _ _ _ _ _) =
     [''event'', ''session_id'', ''title'', ''prompt'', ''repo_id'', ''base_branch'', ''parent_task_id'']"
| "event_json_keys TaskQueued = [''event'']"
| "event_json_keys TaskStarted = [''event'']"
| "event_json_keys (TaskWaiting _) = [''event'', ''reason'']"
| "event_json_keys TaskReadyForReview = [''event'']"
| "event_json_keys (TaskCompleted _) = [''event'', ''summary'']"
| "event_json_keys (TaskFailed _ _) = [''event'', ''failure_code'', ''message'']"
| "event_json_keys (TaskCancelled _) = [''event'', ''reason'']"
| "event_json_keys (TaskSteered _) = [''event'', ''steer_note'']"
| "event_json_keys (ReviewHunkResolved _ _ _ _) =
     [''event'', ''path'', ''new_start'', ''accepted'', ''revision'']"
| "event_json_keys (ReviewCommentAdded _ _ _ _) =
     [''event'', ''path'', ''new_start'', ''body'', ''revision'']"
| "event_json_keys (RunStarted _ _) = [''event'', ''task_id'', ''attempt'']"
| "event_json_keys RunCompleted = [''event'']"
| "event_json_keys (RunCostRecorded _ _ _ _ _ _ _) =
     [''event'', ''task_id'', ''model'', ''invocations'', ''input_tokens'', ''output_tokens'', ''cost_usd'',
      ''unpriced_invocations'']"
| "event_json_keys (RunFailed _) = [''event'', ''failure_code'']"
| "event_json_keys (TurnPrepared _ _) = [''event'', ''run_id'', ''ordinal'']"
| "event_json_keys TurnCompleted = [''event'']"
| "event_json_keys (TurnFailed _) = [''event'', ''failure_code'']"
| "event_json_keys (RunStepPrepared _ _ _) = [''event'', ''turn_id'', ''step_type'', ''ordinal'']"
| "event_json_keys RunStepCompleted = [''event'']"
| "event_json_keys (RunStepFailed _) = [''event'', ''failure_code'']"
| "event_json_keys (CompactionApplied _ _ _ _ _) =
     [''event'', ''turn_id'', ''epoch_id'', ''affected_messages'', ''reclaimed_tokens'', ''manifest_digest'']"
| "event_json_keys (ConversationCheckpointed _ _) = [''event'', ''turn_ordinal'', ''conversation_json'']"
| "event_json_keys (WorktreeCheckpointed _ _) = [''event'', ''epoch'', ''journal_json'']"
| "event_json_keys (ToolOutputChunk _ _ _ _) =
     [''event'', ''broker_run_id'', ''offset'', ''byte_length'', ''preview'']"
| "event_json_keys (SessionForked _ _ _ _) =
     [''event'', ''source_session'', ''at_sequence'', ''carried_decisions'', ''carried_evidence_refs'']"
| "event_json_keys (SessionRewound _ _ _) =
     [''event'', ''to_sequence'', ''reverted_event_count'', ''previous_last_hash'']"
| "event_json_keys (GoalSet _ _) = [''event'', ''objective'', ''acceptance_criteria'']"
| "event_json_keys (TaskInputQueued _ _ _) = [''event'', ''input_id'', ''mode'', ''text'']"
| "event_json_keys (SideQuestionAsked _ _ _) =
     [''event'', ''question_id'', ''question'', ''context_event_count'']"
| "event_json_keys (IndexUpdated _ _ _ _ _ _) =
     [''event'', ''reason'', ''workspace_revision'', ''file_count'', ''root_digest'', ''recomputed'',
      ''recomputed_truncated'']"

definition envelope_required_keys :: "string list" where
  "envelope_required_keys =
     [''event_id'', ''session_id'', ''aggregate_type'', ''aggregate_id'', ''sequence'', ''event_type'',
      ''schema_version'', ''occurred_at'', ''actor'', ''payload'', ''integrity_hash'']"

section \<open>Lemmas\<close>

lemma actor_parse_as_str [simp]: "actor_parse (actor_as_str a) = Some a"
  by (cases a) (simp_all add: actor_parse_def)

lemma aggregate_as_str_inject [simp]: "aggregate_as_str a = aggregate_as_str b \<longleftrightarrow> a = b"
  by (cases a; cases b) simp_all

lemma canonical_copy_idem [simp]: "canonical_copy (canonical_copy e) = canonical_copy e"
  by (simp add: canonical_copy_def)

lemma canonical_copy_hash [simp]: "canonical_copy (e\<lparr>ev_integrity_hash := h\<rparr>) = canonical_copy e"
  by (simp add: canonical_copy_def)

lemma canonical_copy_seal [simp]: "canonical_copy (seal H e) = canonical_copy e"
  by (simp add: seal_def)

lemma verify_seal [simp, intro]: "verify_integrity H (seal H e)"
  by (simp add: verify_integrity_def seal_def compute_integrity_hash_def)

lemma seal_fields [simp]:
  "ev_event_id (seal H e) = ev_event_id e"
  "ev_session_id (seal H e) = ev_session_id e"
  "ev_task_id (seal H e) = ev_task_id e"
  "ev_run_id (seal H e) = ev_run_id e"
  "ev_turn_id (seal H e) = ev_turn_id e"
  "ev_step_id (seal H e) = ev_step_id e"
  "ev_aggregate_type (seal H e) = ev_aggregate_type e"
  "ev_aggregate_id (seal H e) = ev_aggregate_id e"
  "ev_sequence (seal H e) = ev_sequence e"
  "ev_event_type (seal H e) = ev_event_type e"
  "ev_schema_version (seal H e) = ev_schema_version e"
  "ev_occurred_at (seal H e) = ev_occurred_at e"
  "ev_actor (seal H e) = ev_actor e"
  "ev_payload (seal H e) = ev_payload e"
  by (simp_all add: seal_def)

lemma canonical_copy_eq_iff:
  "canonical_copy a = canonical_copy b \<longleftrightarrow> a = b\<lparr>ev_integrity_hash := ev_integrity_hash a\<rparr>"
  by (cases a; cases b) (simp add: canonical_copy_def)

lemma payload_is_no_envelope: "''integrity_hash'' \<notin> set (event_json_keys e)"
  by (cases e) simp_all

end
