(* ===== verification/Task_Machine.thy ===== *)
theory Task_Machine
  imports Domain_Events
begin

text \<open>
  The task, turn and input-queue state machines of \<^verbatim>\<open>crates/domain/src\<close>: \<^verbatim>\<open>task.rs\<close> (the lifecycle
  and its fold over an event stream), \<^verbatim>\<open>turn.rs\<close> (legal turn transitions) and \<^verbatim>\<open>input_queue.rs\<close>
  (which input modes a task accepts in which state). The abstract contract is the relation
  \<open>lifecycle\<close>, the table of state changes; the lemmas relate the executable functions to it.
\<close>

section \<open>Tasks\<close>

datatype task_state =
    Created | Queued | Running | Waiting waiting_reason | ReadyForReview | Completed | Failed | Cancelled

fun debug_waiting_reason :: "waiting_reason \<Rightarrow> string" where
  "debug_waiting_reason Wr_UserInput = ''UserInput''"
| "debug_waiting_reason Wr_Approval = ''Approval''"
| "debug_waiting_reason Wr_Capacity = ''Capacity''"
| "debug_waiting_reason Wr_External = ''External''"
| "debug_waiting_reason Wr_Provider = ''Provider''"

text \<open>The derived \<open>Debug\<close> rendering, and the hand-written \<open>Display\<close>.\<close>

fun debug_task_state :: "task_state \<Rightarrow> string" where
  "debug_task_state Created = ''Created''"
| "debug_task_state Queued = ''Queued''"
| "debug_task_state Running = ''Running''"
| "debug_task_state (Waiting r) = ''Waiting('' @ debug_waiting_reason r @ '')''"
| "debug_task_state ReadyForReview = ''ReadyForReview''"
| "debug_task_state Completed = ''Completed''"
| "debug_task_state Failed = ''Failed''"
| "debug_task_state Cancelled = ''Cancelled''"

fun show_task_state :: "task_state \<Rightarrow> string" where
  "show_task_state (Waiting r) = ''waiting('' @ debug_waiting_reason r @ '')''"
| "show_task_state s = debug_task_state s"

record transition_error =
  te_from :: task_state
  te_event :: string

definition show_transition_error :: "transition_error \<Rightarrow> string" where
  "show_transition_error e =
     ''illegal task transition: '' @ show_task_state (te_from e) @ '' cannot accept '' @ te_event e"

definition reject :: "task_state \<Rightarrow> string \<Rightarrow> (transition_error, task_state) result" where
  "reject s ev = Inl \<lparr>te_from = s, te_event = ev\<rparr>"

fun resume_reason_of :: "domain_event \<Rightarrow> waiting_reason" where
  "resume_reason_of (TaskWaiting r) = r"
| "resume_reason_of _ = Wr_External"

fun apply_task_event :: "task_state \<Rightarrow> domain_event \<Rightarrow> (transition_error, task_state) result" where
  "apply_task_event s TaskQueued =
     (case s of Created \<Rightarrow> Inr Queued | _ \<Rightarrow> reject s ''task_queued'')"
| "apply_task_event s TaskStarted =
     (case s of Queued \<Rightarrow> Inr Running | Waiting _ \<Rightarrow> Inr Running | _ \<Rightarrow> reject s ''task_started'')"
| "apply_task_event s (TaskWaiting r) =
     (case s of Running \<Rightarrow> Inr (Waiting (resume_reason_of (TaskWaiting r)))
      | _ \<Rightarrow> reject s ''task_waiting'')"
| "apply_task_event s TaskReadyForReview =
     (case s of Running \<Rightarrow> Inr ReadyForReview | Waiting _ \<Rightarrow> Inr ReadyForReview
      | _ \<Rightarrow> reject s ''task_ready_for_review'')"
| "apply_task_event s (TaskCompleted _) =
     (case s of ReadyForReview \<Rightarrow> Inr Completed | _ \<Rightarrow> reject s ''task_completed'')"
| "apply_task_event s (TaskFailed _ _) =
     (case s of Running \<Rightarrow> Inr Failed | Waiting _ \<Rightarrow> Inr Failed | ReadyForReview \<Rightarrow> Inr Failed
      | _ \<Rightarrow> reject s ''task_failed'')"
| "apply_task_event s (TaskCancelled _) =
     (case s of Created \<Rightarrow> Inr Cancelled | Queued \<Rightarrow> Inr Cancelled | Running \<Rightarrow> Inr Cancelled
      | Waiting _ \<Rightarrow> Inr Cancelled | _ \<Rightarrow> reject s ''task_cancelled'')"
| "apply_task_event s (TaskSteered _) =
     (case s of Running \<Rightarrow> Inr s | Waiting _ \<Rightarrow> Inr s | _ \<Rightarrow> reject s ''task_steered'')"
| "apply_task_event s (GoalSet _ _) = Inr s"
| "apply_task_event s (TaskInputQueued _ _ _) =
     (case s of Created \<Rightarrow> Inr s | Queued \<Rightarrow> Inr s | Running \<Rightarrow> Inr s | Waiting _ \<Rightarrow> Inr s
      | ReadyForReview \<Rightarrow> Inr s | _ \<Rightarrow> reject s ''task_input_queued'')"
| "apply_task_event s (ReviewHunkResolved _ _ _ _) =
     (case s of Running \<Rightarrow> Inr s | Waiting _ \<Rightarrow> Inr s | ReadyForReview \<Rightarrow> Inr s | Completed \<Rightarrow> Inr s
      | _ \<Rightarrow> reject s ''review_hunk_resolved'')"
| "apply_task_event s (ReviewCommentAdded _ _ _ _) =
     (case s of Running \<Rightarrow> Inr s | Waiting _ \<Rightarrow> Inr s | ReadyForReview \<Rightarrow> Inr s | Completed \<Rightarrow> Inr s
      | _ \<Rightarrow> reject s ''review_comment_added'')"
| "apply_task_event s (TaskCreated _ _ _ _ _ _) =
     (case s of Created \<Rightarrow> Inr Created | _ \<Rightarrow> reject s ''task_created'')"
| "apply_task_event s _ = reject s ''non-task event''"

text \<open>\<open>fold_task\<close>: the loop body, then the loop. \<^term>\<open>None\<close> before the first event.\<close>

fun fold_task_step ::
  "(transition_error, task_state) result option \<Rightarrow> domain_event \<Rightarrow>
   (transition_error, task_state) result option" where
  "fold_task_step None e =
     Some (case e of
             TaskCreated _ _ _ _ _ _ \<Rightarrow> Inr Created
           | _ \<Rightarrow> Inl \<lparr>te_from = Created, te_event = ''non-creation event first''\<rparr>)"
| "fold_task_step (Some (Inr s)) e = Some (apply_task_event s e)"
| "fold_task_step (Some (Inl x)) e = Some (Inl x)"

definition fold_task :: "domain_event list \<Rightarrow> (transition_error, task_state) result option" where
  "fold_task es = foldl fold_task_step None es"

section \<open>Turns\<close>

datatype turn_state =
    Tn_Prepared | Tn_Streaming | Tn_Executing | Tn_Verifying | Tn_Completed | Tn_Interrupted | Tn_Failed

fun can_transition :: "turn_state \<Rightarrow> turn_state \<Rightarrow> bool" where
  "can_transition Tn_Prepared Tn_Streaming = True"
| "can_transition Tn_Streaming Tn_Executing = True"
| "can_transition Tn_Executing Tn_Streaming = True"
| "can_transition Tn_Executing Tn_Executing = True"
| "can_transition Tn_Executing Tn_Verifying = True"
| "can_transition Tn_Verifying Tn_Completed = True"
| "can_transition Tn_Verifying Tn_Executing = True"
| "can_transition _ Tn_Interrupted = True"
| "can_transition _ Tn_Failed = True"
| "can_transition _ _ = False"

section \<open>Queued input\<close>

datatype steering_policy =
    InterruptAndReplace | CoalesceAfterCurrent | OrderedSeparateTurns | NonDisruptiveSnapshot

fun input_policy :: "input_mode \<Rightarrow> steering_policy" where
  "input_policy Im_Steer = InterruptAndReplace"
| "input_policy Im_Collect = CoalesceAfterCurrent"
| "input_policy Im_FollowUp = OrderedSeparateTurns"
| "input_policy Im_SideQuestion = NonDisruptiveSnapshot"

fun input_as_str :: "input_mode \<Rightarrow> string" where
  "input_as_str Im_Steer = ''steer''"
| "input_as_str Im_Collect = ''collect''"
| "input_as_str Im_FollowUp = ''follow_up''"
| "input_as_str Im_SideQuestion = ''side_question''"

datatype input_effect_kind = RedirectsTask | QueuedAfterCurrent | SessionLevelOnly

fun input_effect :: "task_state \<Rightarrow> input_mode \<Rightarrow> (string, input_effect_kind) result" where
  "input_effect s Im_Steer =
     (case s of Running \<Rightarrow> Inr RedirectsTask | Waiting _ \<Rightarrow> Inr RedirectsTask | Queued \<Rightarrow> Inr RedirectsTask
      | other \<Rightarrow> Inl (''steer requires an active task, task is '' @ debug_task_state other
                    @ '' (interrupt-and-replace)''))"
| "input_effect s Im_Collect =
     (case s of Running \<Rightarrow> Inr QueuedAfterCurrent | Waiting _ \<Rightarrow> Inr QueuedAfterCurrent
      | other \<Rightarrow> Inl (''collect requires a running/waiting task, task is '' @ debug_task_state other
                    @ '' (coalesce-after-current)''))"
| "input_effect s Im_FollowUp =
     (case s of Queued \<Rightarrow> Inr QueuedAfterCurrent | Running \<Rightarrow> Inr QueuedAfterCurrent
      | Waiting _ \<Rightarrow> Inr QueuedAfterCurrent | ReadyForReview \<Rightarrow> Inr QueuedAfterCurrent
      | other \<Rightarrow> Inl (''follow-up requires an open task, task is '' @ debug_task_state other
                    @ '' (ordered separate turns)''))"
| "input_effect s Im_SideQuestion =
     (if s = Created \<or> s = Completed \<or> s = Cancelled
      then Inl (''side question requires a live task, task is '' @ debug_task_state s)
      else Inr SessionLevelOnly)"

section \<open>The abstract lifecycle\<close>

inductive lifecycle :: "task_state \<Rightarrow> task_state \<Rightarrow> bool" where
  queue: "lifecycle Created Queued"
| start: "lifecycle Queued Running"
| wait: "lifecycle Running (Waiting r)"
| resume: "lifecycle (Waiting r) Running"
| review: "s = Running \<or> s = Waiting r \<Longrightarrow> lifecycle s ReadyForReview"
| complete: "lifecycle ReadyForReview Completed"
| fail: "s = Running \<or> s = Waiting r \<or> s = ReadyForReview \<Longrightarrow> lifecycle s Failed"
| cancel: "s = Created \<or> s = Queued \<or> s = Running \<or> s = Waiting r \<Longrightarrow> lifecycle s Cancelled"

definition terminal :: "task_state \<Rightarrow> bool" where
  "terminal s = (s \<in> {Completed, Failed, Cancelled})"

text \<open>How far a task has come; waiting and running are the same phase.\<close>

fun phase :: "task_state \<Rightarrow> nat" where
  "phase Created = 0"
| "phase Queued = 1"
| "phase Running = 2"
| "phase (Waiting _) = 2"
| "phase ReadyForReview = 3"
| "phase Completed = 4"
| "phase Failed = 4"
| "phase Cancelled = 4"

text \<open>The events a stream must have seen, in this order, before its task can be in a state.\<close>

fun milestones :: "task_state \<Rightarrow> domain_event list" where
  "milestones Created = []"
| "milestones Queued = [TaskQueued]"
| "milestones Running = [TaskQueued, TaskStarted]"
| "milestones (Waiting _) = [TaskQueued, TaskStarted]"
| "milestones ReadyForReview = [TaskQueued, TaskStarted, TaskReadyForReview]"
| "milestones Completed = [TaskQueued, TaskStarted, TaskReadyForReview]"
| "milestones Failed = [TaskQueued, TaskStarted]"
| "milestones Cancelled = []"

section \<open>Lemmas\<close>

inductive_simps lifecycle_from_terminal:
  "lifecycle Completed s" "lifecycle Failed s" "lifecycle Cancelled s"

inductive_cases lifecycle_to_completed: "lifecycle s Completed"

lemma apply_task_event_sound:
  "apply_task_event s e = Inr s' \<Longrightarrow> s' = s \<or> lifecycle s s'"
  by (cases e) (auto simp: reject_def split: task_state.splits intro: lifecycle.intros)

lemma lifecycle_realised: "lifecycle s s' \<Longrightarrow> \<exists>e. apply_task_event s e = Inr s'"
proof (induction rule: lifecycle.induct)
  case queue
  show ?case by (rule exI [of _ TaskQueued]) simp
next
  case start
  show ?case by (rule exI [of _ TaskStarted]) simp
next
  case (wait r)
  show ?case by (rule exI [of _ "TaskWaiting r"]) simp
next
  case (resume r)
  show ?case by (rule exI [of _ TaskStarted]) simp
next
  case (review s r)
  then show ?case by (intro exI [of _ TaskReadyForReview]) auto
next
  case complete
  show ?case by (rule exI [of _ "TaskCompleted []"]) simp
next
  case (fail s r)
  then show ?case by (intro exI [of _ "TaskFailed [] []"]) auto
next
  case (cancel s r)
  then show ?case by (intro exI [of _ "TaskCancelled []"]) auto
qed

lemma self_step_realised: "\<exists>e. apply_task_event s e = Inr s"
  by (rule exI [of _ "GoalSet [] []"]) simp

lemma lifecycle_phase: "lifecycle s s' \<Longrightarrow> phase s \<le> phase s'"
  by (induction rule: lifecycle.induct) auto

lemma apply_task_event_phase: "apply_task_event s e = Inr s' \<Longrightarrow> phase s \<le> phase s'"
  using apply_task_event_sound lifecycle_phase by fastforce

lemma terminal_no_lifecycle: "terminal s \<Longrightarrow> \<not> lifecycle s s'"
  by (auto simp: terminal_def lifecycle_from_terminal)

lemma fold_task_Nil [simp]: "fold_task [] = None"
  by (simp add: fold_task_def)

lemma fold_task_snoc [simp]: "fold_task (es @ [e]) = fold_task_step (fold_task es) e"
  by (simp add: fold_task_def)

lemma fold_task_append: "fold_task (es @ fs) = foldl fold_task_step (fold_task es) fs"
  by (simp add: fold_task_def)

lemma fold_task_step_Some [simp]: "fold_task_step r e \<noteq> None"
  by (cases "(r, e)" rule: fold_task_step.cases) auto

lemma foldl_fold_task_step_error:
  "foldl fold_task_step (Some (Inl x)) fs = Some (Inl x)"
  by (induction fs) auto

lemma foldl_fold_task_step_terminal:
  "terminal s \<Longrightarrow>
   foldl fold_task_step (Some (Inr s)) fs = Some (Inr s) \<or>
   (\<exists>x. foldl fold_task_step (Some (Inr s)) fs = Some (Inl x))"
proof (induction fs)
  case Nil
  then show ?case by simp
next
  case (Cons e fs)
  show ?case
  proof (cases "apply_task_event s e")
    case (Inl x)
    then show ?thesis by (simp add: foldl_fold_task_step_error)
  next
    case (Inr s')
    with Cons.prems have "s' = s"
      using apply_task_event_sound terminal_no_lifecycle by blast
    with Inr Cons show ?thesis by simp
  qed
qed

lemma subseq_snoc_right: "subseq xs ys \<Longrightarrow> subseq xs (ys @ [y])"
  by (meson prefixI prefix_imp_subseq subseq_order.trans)

lemma subseq_snoc_both: "subseq xs ys \<Longrightarrow> subseq (xs @ [y]) (ys @ [y])"
  by simp

lemma apply_task_event_milestones:
  assumes "apply_task_event s e = Inr s'" and "subseq (milestones s) es"
  shows "subseq (milestones s') (es @ [e])"
proof (cases "milestones s' = milestones s")
  case True
  with assms(2) show ?thesis by (simp add: subseq_snoc_right)
next
  case False
  with assms(1) consider (grow) "milestones s' = milestones s @ [e]" | (drop) "milestones s' = []"
    | (fail) "milestones s' = [TaskQueued, TaskStarted]" "s = ReadyForReview"
    by (cases e) (auto simp: reject_def split: task_state.splits if_splits)
  then show ?thesis
  proof cases
    case grow
    with assms(2) show ?thesis by (simp only: subseq_snoc_both)
  next
    case drop
    then show ?thesis by simp
  next
    case fail
    with assms(2) have "subseq ([TaskQueued, TaskStarted] @ [TaskReadyForReview]) es" by simp
    then have "subseq [TaskQueued, TaskStarted] es"
      by (meson prefixI prefix_imp_subseq subseq_order.trans)
    with fail show ?thesis by (simp add: subseq_snoc_right)
  qed
qed

lemma fold_task_milestones: "fold_task es = Some (Inr s) \<Longrightarrow> subseq (milestones s) es"
proof (induction es arbitrary: s rule: rev_induct)
  case Nil
  then show ?case by simp
next
  case (snoc e es)
  show ?case
  proof (cases "fold_task es")
    case None
    with snoc.prems have "s = Created" by (auto split: domain_event.splits)
    then show ?thesis by simp
  next
    case (Some r)
    with snoc.prems obtain s0 where "fold_task es = Some (Inr s0)" "apply_task_event s0 e = Inr s"
      by (cases r) auto
    then show ?thesis using snoc.IH apply_task_event_milestones by blast
  qed
qed

lemma fold_task_first_created:
  "fold_task es = Some (Inr s) \<Longrightarrow> \<exists>a b c d f g es'. es = TaskCreated a b c d f g # es'"
proof (cases es)
  case Nil
  then show "fold_task es = Some (Inr s) \<Longrightarrow> ?thesis" by simp
next
  case (Cons e es')
  then show "fold_task es = Some (Inr s) \<Longrightarrow> ?thesis"
    by (cases e) (simp_all add: fold_task_def foldl_fold_task_step_error)
qed

lemma input_effect_accepts_queue_event:
  assumes "input_effect s m = Inr k"
  shows "is_ok (apply_task_event s (TaskInputQueued i m' t)) \<longleftrightarrow> s \<noteq> Failed"
  using assms by (cases m) (auto simp: reject_def split: task_state.splits if_splits)

lemma input_effect_redirects:
  "input_effect s m = Inr RedirectsTask \<longleftrightarrow> m = Im_Steer \<and> (s = Running \<or> s = Queued \<or> (\<exists>r. s = Waiting r))"
  by (cases m) (auto split: task_state.splits)


text \<open>Turn paths: what a turn has been through when it is in a state.\<close>

fun turn_milestones :: "turn_state \<Rightarrow> turn_state list" where
  "turn_milestones Tn_Prepared = []"
| "turn_milestones Tn_Streaming = [Tn_Streaming]"
| "turn_milestones Tn_Executing = [Tn_Streaming, Tn_Executing]"
| "turn_milestones Tn_Verifying = [Tn_Streaming, Tn_Executing, Tn_Verifying]"
| "turn_milestones Tn_Completed = [Tn_Streaming, Tn_Executing, Tn_Verifying, Tn_Completed]"
| "turn_milestones _ = []"

lemma can_transition_milestones:
  assumes "can_transition s t" and "subseq (turn_milestones s) ts"
  shows "subseq (turn_milestones t) (ts @ [t])"
proof -
  from assms(1) have "prefix (turn_milestones t) (turn_milestones s)
      \<or> turn_milestones t = turn_milestones s @ [t]"
    by (cases "(s, t)" rule: can_transition.cases) auto
  then show ?thesis
  proof
    assume "prefix (turn_milestones t) (turn_milestones s)"
    with assms(2) show ?thesis
      by (meson prefix_imp_subseq subseq_order.trans subseq_snoc_right)
  next
    assume "turn_milestones t = turn_milestones s @ [t]"
    with assms(2) show ?thesis by simp
  qed
qed

lemma turn_path_milestones:
  "successively can_transition (Tn_Prepared # ts) \<Longrightarrow>
   subseq (turn_milestones (last (Tn_Prepared # ts))) ts"
proof (induction ts rule: rev_induct)
  case Nil
  show ?case by simp
next
  case (snoc t ts)
  have path: "successively can_transition ((Tn_Prepared # ts) @ [t])"
    using snoc.prems by simp
  then have "successively can_transition (Tn_Prepared # ts)"
    and "can_transition (last (Tn_Prepared # ts)) t"
    by (simp_all only: successively_append_iff) auto
  then show ?case
    using snoc.IH can_transition_milestones by simp
qed

section \<open>Properties\<close>

text \<open>C1: the task machine refines the lifecycle table exactly: a task in state \<open>s\<close> can be moved to \<open>s'\<close>
  by some event if and only if \<open>s'\<close> is \<open>s\<close> itself (audit and input events) or the table has the edge.\<close>
theorem task_changes_exactly_lifecycle:
  "(\<exists>e. apply_task_event s e = Inr s') \<longleftrightarrow> s' = s \<or> lifecycle s s'"
  using apply_task_event_sound lifecycle_realised self_step_realised by blast

text \<open>Terminal states are final: once the stream of a task folds to Completed, Failed or Cancelled,
  every longer stream either folds to the same state or is rejected as illegal.\<close>

lemma terminal_stream_is_final:
  assumes "fold_task es = Some (Inr s)" and "terminal s"
  shows "fold_task (es @ fs) = Some (Inr s) \<or> (\<exists>x. fold_task (es @ fs) = Some (Inl x))"
  using assms foldl_fold_task_step_terminal by (simp add: fold_task_append)

lemma terminal_stream_is_final_witness:
  "fold_task [TaskCreated ''s'' ''t'' ''p'' None None None, TaskCancelled ''r''] = Some (Inr Cancelled)
   \<and> (\<exists>x. fold_task ([TaskCreated ''s'' ''t'' ''p'' None None None, TaskCancelled ''r''] @ [TaskStarted])
          = Some (Inl x))"
  using terminal_stream_is_final [of "[TaskCreated ''s'' ''t'' ''p'' None None None, TaskCancelled ''r'']"
      Cancelled "[TaskStarted]"]
  by (simp add: fold_task_def terminal_def reject_def)

text \<open>C2: a completed task was reviewed: a stream that folds to Completed starts with the creation event and
  contains, in this order, its queueing, its start and its hand-over to review.\<close>
theorem completed_task_was_reviewed:
  assumes "fold_task es = Some (Inr Completed)"
  shows "\<exists>a b c d f g rest. es = TaskCreated a b c d f g # rest
           \<and> subseq [TaskQueued, TaskStarted, TaskReadyForReview] rest"
proof -
  obtain a b c d f g rest where es: "es = TaskCreated a b c d f g # rest"
    using fold_task_first_created [OF assms] by blast
  moreover have "subseq [TaskQueued, TaskStarted, TaskReadyForReview] es"
    using fold_task_milestones [OF assms] by simp
  ultimately show ?thesis by auto
qed

theorem completed_task_was_reviewed_witness:
  "\<exists>a b c d f g rest.
     [TaskCreated ''s'' ''t'' ''p'' None None None, TaskQueued, TaskStarted, TaskReadyForReview, TaskCompleted ''ok'']
       = TaskCreated a b c d f g # rest \<and> subseq [TaskQueued, TaskStarted, TaskReadyForReview] rest"
  by (rule completed_task_was_reviewed) (simp add: fold_task_def)

text \<open>Every path of legal turn transitions from Prepared that ends in Completed has streamed, executed and
  verified, in that order.\<close>

lemma completed_turn_was_verified:
  assumes "successively can_transition (Tn_Prepared # ts)" and "last (Tn_Prepared # ts) = Tn_Completed"
  shows "subseq [Tn_Streaming, Tn_Executing, Tn_Verifying, Tn_Completed] ts"
  using turn_path_milestones [OF assms(1)] assms(2) by simp

lemma completed_turn_was_verified_witness:
  "subseq [Tn_Streaming, Tn_Executing, Tn_Verifying, Tn_Completed]
     [Tn_Streaming, Tn_Executing, Tn_Streaming, Tn_Executing, Tn_Verifying, Tn_Completed]"
  by (rule completed_turn_was_verified) simp_all

end
