(* ===== verification/Domain_Commands.thy ===== *)
theory Domain_Commands
  imports Task_Machine
begin

text \<open>
  The mutating commands of \<^verbatim>\<open>crates/domain/src/commands.rs\<close>. A command whose variant has the name of a
  domain event carries the suffix \<open>Cmd\<close>.
\<close>

datatype command_payload =
    CreateSession string
  | CreateTask uuid string string "string option" "string option" "string option"
  | QueueTask uuid
  | StartTask uuid
  | TaskWaitingCmd uuid waiting_reason
  | TaskReadyForReviewCmd uuid
  | CompleteTask uuid string bool
  | FailTask uuid string string
  | CancelTask uuid string
  | SteerTask uuid string
  | ForkSession uuid nat "string list" "string list"
  | RewindSession uuid nat string
  | SetGoal uuid string "string list"
  | QueueTaskInput uuid string input_mode string
  | AskSideQuestion uuid string string nat
  | ResolveReviewHunk uuid string nat bool string
  | AddReviewComment uuid string nat string string

record command =
  cmd_id :: string
  cmd_actor :: actor
  cmd_payload :: command_payload

fun target_aggregate :: "command_payload \<Rightarrow> string option" where
  "target_aggregate (QueueTask t) = Some t"
| "target_aggregate (StartTask t) = Some t"
| "target_aggregate (TaskWaitingCmd t _) = Some t"
| "target_aggregate (TaskReadyForReviewCmd t) = Some t"
| "target_aggregate (CompleteTask t _ _) = Some t"
| "target_aggregate (FailTask t _ _) = Some t"
| "target_aggregate (CancelTask t _) = Some t"
| "target_aggregate (SteerTask t _) = Some t"
| "target_aggregate (ForkSession s _ _ _) = Some s"
| "target_aggregate (RewindSession s _ _) = Some s"
| "target_aggregate (QueueTaskInput t _ _ _) = Some t"
| "target_aggregate (SetGoal t _ _) = Some t"
| "target_aggregate (ResolveReviewHunk t _ _ _ _) = Some t"
| "target_aggregate (AddReviewComment t _ _ _ _) = Some t"
| "target_aggregate (AskSideQuestion s _ _ _) = Some s"
| "target_aggregate (CreateSession _) = None"
| "target_aggregate (CreateTask _ _ _ _ _ _) = None"

fun command_kind :: "command_payload \<Rightarrow> string" where
  "command_kind (SetGoal _ _ _) = ''set_goal''"
| "command_kind (QueueTaskInput _ _ _ _) = ''queue_task_input''"
| "command_kind (AskSideQuestion _ _ _ _) = ''ask_side_question''"
| "command_kind (ForkSession _ _ _ _) = ''fork_session''"
| "command_kind (RewindSession _ _ _) = ''rewind_session''"
| "command_kind (CreateSession _) = ''create_session''"
| "command_kind (CreateTask _ _ _ _ _ _) = ''create_task''"
| "command_kind (QueueTask _) = ''queue_task''"
| "command_kind (StartTask _) = ''start_task''"
| "command_kind (TaskWaitingCmd _ _) = ''task_waiting''"
| "command_kind (TaskReadyForReviewCmd _) = ''task_ready_for_review''"
| "command_kind (CompleteTask _ _ _) = ''complete_task''"
| "command_kind (FailTask _ _ _) = ''fail_task''"
| "command_kind (CancelTask _ _) = ''cancel_task''"
| "command_kind (SteerTask _ _) = ''steer_task''"
| "command_kind (ResolveReviewHunk _ _ _ _ _) = ''resolve_review_hunk''"
| "command_kind (AddReviewComment _ _ _ _ _) = ''add_review_comment''"

text \<open>
  \<open>lifecycle_event\<close> of \<^verbatim>\<open>crates/event-store/src/commands.rs\<close>: the event a lifecycle command appends.
  \<^term>\<open>None\<close> is the \<open>unreachable!\<close> arm.
\<close>

fun lifecycle_event :: "command_payload \<Rightarrow> domain_event option" where
  "lifecycle_event (QueueTask _) = Some TaskQueued"
| "lifecycle_event (StartTask _) = Some TaskStarted"
| "lifecycle_event (TaskWaitingCmd _ r) = Some (TaskWaiting r)"
| "lifecycle_event (TaskReadyForReviewCmd _) = Some TaskReadyForReview"
| "lifecycle_event (CompleteTask _ m _) = Some (TaskCompleted m)"
| "lifecycle_event (FailTask _ c m) = Some (TaskFailed c m)"
| "lifecycle_event (CancelTask _ r) = Some (TaskCancelled r)"
| "lifecycle_event (SteerTask _ n) = Some (TaskSteered n)"
| "lifecycle_event (ResolveReviewHunk _ p n a r) = Some (ReviewHunkResolved p n a r)"
| "lifecycle_event (AddReviewComment _ p n b r) = Some (ReviewCommentAdded p n b r)"
| "lifecycle_event _ = None"

end
