(* ===== verification/Event_Database.thy ===== *)
theory Event_Database
  imports Domain_Commands
begin

text \<open>
  The SQLite schema of \<^verbatim>\<open>crates/event-store/src/migrations.rs\<close> as a record of tables, and the transactional
  projections of \<^verbatim>\<open>projections.rs\<close>. A table is the list of its rows in \<open>rowid\<close> order, so the \<open>rowid\<close>
  of an event is its position counted from one (the table is never deleted from). A statement
  either runs or fails on a declared \<open>PRIMARY KEY\<close>, \<open>UNIQUE\<close> or \<open>REFERENCES\<close> constraint
  (\<open>foreign_keys=ON\<close>); disk failures of the SQLite library are outside the model. The tables
  \<open>runs\<close>, \<open>turns\<close> and \<open>run_steps\<close> have no writer in the sources and are left out.
  Columns that no statement writes are left out of the rows.

  The JSON text of a payload has the type \<open>'p\<close> of a parameter; the record \<open>ext\<close> collects what
  the code takes from third-party crates (serde, uuid, SHA-256) and the texts of library
  errors.
\<close>

section \<open>Tables\<close>

record 'p event_row =
  row_event_id :: string
  row_session_id :: string
  row_aggregate_type :: string
  row_aggregate_id :: string
  row_sequence :: nat
  row_event_type :: string
  row_schema_version :: string
  row_occurred_at :: string
  row_actor_type :: string
  row_actor_id :: string
  row_causation_id :: "string option"
  row_correlation_id :: "string option"
  row_payload :: 'p
  row_payload_object_hash :: "string option"
  row_integrity_hash :: string

record command_row =
  cl_command_id :: string
  cl_command_type :: string
  cl_status :: string
  cl_event_ids :: "string list"
  cl_error :: "string option"
  cl_processed_at :: string

record session_row =
  se_session_id :: string
  se_state :: string
  se_generation :: nat
  se_created_at :: string
  se_updated_at :: string
  se_last_sequence :: nat

record task_row =
  tk_task_id :: string
  tk_session_id :: string
  tk_goal_text :: string
  tk_state :: string
  tk_generation :: nat
  tk_created_at :: string
  tk_started_at :: "string option"
  tk_completed_at :: "string option"
  tk_failure_code :: "string option"
  tk_parent :: "string option"

record task_input_row =
  in_input_id :: string
  in_task_id :: string
  in_mode :: string
  in_text :: string
  in_sequence :: nat
  in_state :: string

record lease_row =
  ls_session_id :: string
  ls_lease_id :: string
  ls_owner :: string
  ls_generation :: nat
  ls_acquired_at :: string

record scope_row =
  ws_task_id :: string
  ws_repo_key :: string
  ws_path :: string

record approval_row =
  ap_approval_id :: string
  ap_task_id :: string
  ap_intent_hash :: string
  ap_tool :: string
  ap_scope :: string
  ap_state :: string
  ap_created_at :: string
  ap_resolved_at :: string
  ap_resolved_by :: string

record automation_row =
  au_automation_id :: string
  au_name :: string
  au_trigger :: string
  au_cron :: string
  au_event_pattern :: string
  au_objective :: string
  au_enabled :: bool
  au_last_fire_key :: string

record 'p db =
  t_events :: "'p event_row list"
  t_command_log :: "command_row list"
  t_sessions :: "session_row list"
  t_tasks :: "task_row list"
  t_task_inputs :: "task_input_row list"
  t_leases :: "lease_row list"
  t_scopes :: "scope_row list"
  t_approvals :: "approval_row list"
  t_automations :: "automation_row list"

definition empty_db :: "'p db" where
  "empty_db = \<lparr>t_events = [], t_command_log = [], t_sessions = [], t_tasks = [], t_task_inputs = [],
     t_leases = [], t_scopes = [], t_approvals = [], t_automations = []\<rparr>"

datatype sql_error = PrimaryKeyViolation string | UniqueViolation string | ForeignKeyViolation string

record 'p ext =
  x_ser_event :: "domain_event \<Rightarrow> 'p"
  x_de_event :: "'p \<Rightarrow> domain_event option"
  x_de_envelope :: "'p \<Rightarrow> event_envelope option"
  x_parse_uuid :: "string \<Rightarrow> uuid option"
  x_hash_env :: "event_envelope \<Rightarrow> string"
  x_show_sql :: "sql_error \<Rightarrow> string"
  x_serde_error :: "'p \<Rightarrow> string"
  x_uuid_error :: "string \<Rightarrow> string"
  x_parse_int_error :: "string \<Rightarrow> string"

section \<open>Constrained statements\<close>

definition insert_event_row :: "'p event_row \<Rightarrow> 'p db \<Rightarrow> (sql_error, 'p db) result" where
  "insert_event_row r d =
     (if row_event_id r \<in> row_event_id ` set (t_events d) then Inl (PrimaryKeyViolation ''events'')
      else if (row_aggregate_id r, row_sequence r)
                \<in> (\<lambda>q. (row_aggregate_id q, row_sequence q)) ` set (t_events d)
      then Inl (UniqueViolation ''events'')
      else Inr (d\<lparr>t_events := t_events d @ [r]\<rparr>))"

definition insert_session_row :: "session_row \<Rightarrow> 'p db \<Rightarrow> (sql_error, 'p db) result" where
  "insert_session_row r d =
     (if se_session_id r \<in> se_session_id ` set (t_sessions d) then Inl (PrimaryKeyViolation ''sessions'')
      else Inr (d\<lparr>t_sessions := t_sessions d @ [r]\<rparr>))"

definition insert_task_row :: "task_row \<Rightarrow> 'p db \<Rightarrow> (sql_error, 'p db) result" where
  "insert_task_row r d =
     (if tk_task_id r \<in> tk_task_id ` set (t_tasks d) then Inl (PrimaryKeyViolation ''tasks'')
      else if tk_session_id r \<notin> se_session_id ` set (t_sessions d) then Inl (ForeignKeyViolation ''tasks'')
      else Inr (d\<lparr>t_tasks := t_tasks d @ [r]\<rparr>))"

definition insert_task_input_row :: "task_input_row \<Rightarrow> 'p db \<Rightarrow> (sql_error, 'p db) result" where
  "insert_task_input_row r d =
     (if in_input_id r \<in> in_input_id ` set (t_task_inputs d) then Inl (PrimaryKeyViolation ''task_inputs'')
      else if (in_task_id r, in_sequence r) \<in> (\<lambda>q. (in_task_id q, in_sequence q)) ` set (t_task_inputs d)
      then Inl (UniqueViolation ''task_inputs'')
      else if in_task_id r \<notin> tk_task_id ` set (t_tasks d) then Inl (ForeignKeyViolation ''task_inputs'')
      else Inr (d\<lparr>t_task_inputs := t_task_inputs d @ [r]\<rparr>))"

text \<open>\<open>DELETE FROM tasks\<close>: refused while a queued input still references a task.\<close>

definition delete_all_tasks :: "'p db \<Rightarrow> (sql_error, 'p db) result" where
  "delete_all_tasks d =
     (if \<exists>i \<in> set (t_task_inputs d). in_task_id i \<in> tk_task_id ` set (t_tasks d)
      then Inl (ForeignKeyViolation ''tasks'')
      else Inr (d\<lparr>t_tasks := []\<rparr>))"

definition delete_all_sessions :: "'p db \<Rightarrow> (sql_error, 'p db) result" where
  "delete_all_sessions d =
     (if \<exists>t \<in> set (t_tasks d). tk_session_id t \<in> se_session_id ` set (t_sessions d)
      then Inl (ForeignKeyViolation ''sessions'')
      else Inr (d\<lparr>t_sessions := []\<rparr>))"

definition update_task :: "string \<Rightarrow> (task_row \<Rightarrow> task_row) \<Rightarrow> 'p db \<Rightarrow> 'p db" where
  "update_task tid f d =
     d\<lparr>t_tasks := map (\<lambda>r. if tk_task_id r = tid then f r else r) (t_tasks d)\<rparr>"

section \<open>Projections\<close>

text \<open>\<open>format!("waiting_{:?}", reason).to_lowercase()\<close>.\<close>

fun waiting_state_text :: "waiting_reason \<Rightarrow> string" where
  "waiting_state_text Wr_UserInput = ''waiting_userinput''"
| "waiting_state_text Wr_Approval = ''waiting_approval''"
| "waiting_state_text Wr_Capacity = ''waiting_capacity''"
| "waiting_state_text Wr_External = ''waiting_external''"
| "waiting_state_text Wr_Provider = ''waiting_provider''"

definition project_session :: "event_envelope \<Rightarrow> 'p db \<Rightarrow> (sql_error, 'p db) result" where
  "project_session e d =
     (case ev_payload e of
        SessionCreated _ \<Rightarrow>
          insert_session_row
            \<lparr>se_session_id = ev_aggregate_id e, se_state = ''active'', se_generation = ev_sequence e,
             se_created_at = ev_occurred_at e, se_updated_at = ev_occurred_at e,
             se_last_sequence = ev_sequence e\<rparr> d
      | _ \<Rightarrow> Inr d)"

definition project_state :: "event_envelope \<Rightarrow> string \<Rightarrow> 'p db \<Rightarrow> 'p db" where
  "project_state e st = update_task (ev_aggregate_id e)
     (\<lambda>r. r\<lparr>tk_state := st, tk_generation := ev_sequence e\<rparr>)"

definition project_state_with_completion :: "event_envelope \<Rightarrow> string \<Rightarrow> 'p db \<Rightarrow> 'p db" where
  "project_state_with_completion e st = update_task (ev_aggregate_id e)
     (\<lambda>r. r\<lparr>tk_state := st, tk_completed_at := Some (ev_occurred_at e), tk_generation := ev_sequence e\<rparr>)"

text \<open>
  \<open>TaskStarted\<close>: the second statement (\<open>task_state\<close> when no row changed) is kept although it
  then changes no row either.
\<close>

definition project_started :: "event_envelope \<Rightarrow> 'p db \<Rightarrow> 'p db" where
  "project_started e d =
     (let d' = update_task (ev_aggregate_id e)
                 (\<lambda>r. r\<lparr>tk_state := ''running'',
                      tk_started_at := (case tk_started_at r of None \<Rightarrow> Some (ev_occurred_at e) | Some t \<Rightarrow> Some t),
                      tk_generation := ev_sequence e\<rparr>) d
      in if ev_aggregate_id e \<notin> tk_task_id ` set (t_tasks d) then project_state e ''running'' d' else d')"

definition project_task :: "event_envelope \<Rightarrow> 'p db \<Rightarrow> (sql_error, 'p db) result" where
  "project_task e d =
     (case ev_payload e of
        TaskCreated _ title prompt _ _ parent \<Rightarrow>
          insert_task_row
            \<lparr>tk_task_id = ev_aggregate_id e, tk_session_id = ev_session_id e,
             tk_goal_text = title @ [CHR 0x0A] @ prompt, tk_state = ''created'',
             tk_generation = ev_sequence e, tk_created_at = ev_occurred_at e, tk_started_at = None,
             tk_completed_at = None, tk_failure_code = None, tk_parent = parent\<rparr> d
      | TaskQueued \<Rightarrow> Inr (project_state e ''queued'' d)
      | TaskStarted \<Rightarrow> Inr (project_started e d)
      | TaskWaiting reason \<Rightarrow> Inr (project_state e (waiting_state_text reason) d)
      | TaskReadyForReview \<Rightarrow> Inr (project_state e ''ready_for_review'' d)
      | TaskCompleted _ \<Rightarrow> Inr (project_state_with_completion e ''completed'' d)
      | TaskFailed code _ \<Rightarrow>
          Inr (update_task (ev_aggregate_id e) (\<lambda>r. r\<lparr>tk_failure_code := Some code\<rparr>)
                 (project_state_with_completion e ''failed'' d))
      | TaskCancelled _ \<Rightarrow> Inr (project_state_with_completion e ''cancelled'' d)
      | TaskSteered _ \<Rightarrow>
          Inr (update_task (ev_aggregate_id e) (\<lambda>r. r\<lparr>tk_generation := ev_sequence e\<rparr>) d)
      | TaskInputQueued i m txt \<Rightarrow>
          insert_task_input_row
            \<lparr>in_input_id = i, in_task_id = ev_aggregate_id e, in_mode = input_as_str m, in_text = txt,
             in_sequence = ev_sequence e, in_state = ''pending''\<rparr> d
      | _ \<Rightarrow> Inr d)"

definition project :: "event_envelope \<Rightarrow> 'p db \<Rightarrow> (sql_error, 'p db) result" where
  "project e d =
     (case ev_aggregate_type e of
        Agg_Session \<Rightarrow> project_session e d
      | Agg_Task \<Rightarrow> project_task e d
      | _ \<Rightarrow> Inr d)"

section \<open>Streams\<close>

definition stream :: "'p db \<Rightarrow> string \<Rightarrow> 'p event_row list" where
  "stream d agg = filter (\<lambda>r. row_aggregate_id r = agg) (t_events d)"

text \<open>The store's central invariant: each aggregate's sequence numbers are 1, 2, 3, ... in commit order.\<close>

definition gapless :: "'p db \<Rightarrow> bool" where
  "gapless d = (\<forall>agg. map row_sequence (stream d agg) = [1..<Suc (length (stream d agg))])"

definition event_ids_distinct :: "'p db \<Rightarrow> bool" where
  "event_ids_distinct d = distinct (map row_event_id (t_events d))"

section \<open>Lemmas\<close>

lemma update_task_frame [frames, simp]:
  "t_events (update_task tid f d) = t_events d"
  "t_command_log (update_task tid f d) = t_command_log d"
  "t_sessions (update_task tid f d) = t_sessions d"
  "t_task_inputs (update_task tid f d) = t_task_inputs d"
  "t_leases (update_task tid f d) = t_leases d"
  "t_scopes (update_task tid f d) = t_scopes d"
  "t_approvals (update_task tid f d) = t_approvals d"
  "t_automations (update_task tid f d) = t_automations d"
  by (simp_all add: update_task_def)

lemma insert_event_row_Inr:
  "insert_event_row r d = Inr d' \<Longrightarrow>
   d' = d\<lparr>t_events := t_events d @ [r]\<rparr> \<and> row_event_id r \<notin> row_event_id ` set (t_events d)"
  by (auto simp: insert_event_row_def split: if_splits)

lemmas project_defs = project_def project_session_def project_task_def project_state_def
  project_state_with_completion_def project_started_def insert_session_row_def insert_task_row_def
  insert_task_input_row_def Let_def

lemma project_frame [frames]:
  assumes "project e d = Inr d'"
  shows "t_events d' = t_events d" "t_command_log d' = t_command_log d" "t_leases d' = t_leases d"
    "t_scopes d' = t_scopes d" "t_approvals d' = t_approvals d" "t_automations d' = t_automations d"
  using assms
  by (auto simp: project_defs split: aggregate_type.splits domain_event.splits if_splits)

lemma stream_snoc:
  "stream (d\<lparr>t_events := t_events d @ [r]\<rparr>) agg
     = stream d agg @ (if row_aggregate_id r = agg then [r] else [])"
  by (simp add: stream_def)

lemma stream_cong: "t_events d = t_events d' \<Longrightarrow> stream d agg = stream d' agg"
  by (simp add: stream_def)

lemma gapless_cong: "t_events d = t_events d' \<Longrightarrow> gapless d \<longleftrightarrow> gapless d'"
  by (simp add: gapless_def stream_def)

lemma event_ids_distinct_cong:
  "t_events d = t_events d' \<Longrightarrow> event_ids_distinct d \<longleftrightarrow> event_ids_distinct d'"
  by (simp add: event_ids_distinct_def)

lemma gapless_insert [invs]:
  assumes "gapless d" and "insert_event_row r d = Inr d'"
    and "row_sequence r = Suc (length (stream d (row_aggregate_id r)))"
  shows "gapless d'"
proof -
  have d': "d' = d\<lparr>t_events := t_events d @ [r]\<rparr>"
    using assms(2) insert_event_row_Inr by blast
  show ?thesis
    using assms(1,3) by (auto simp: gapless_def d' stream_snoc)
qed

lemma distinct_insert [invs]:
  assumes "event_ids_distinct d" and "insert_event_row r d = Inr d'"
  shows "event_ids_distinct d'"
  using assms insert_event_row_Inr [OF assms(2)] by (auto simp: event_ids_distinct_def)

lemma gapless_empty [simp]: "gapless empty_db"
  by (simp add: gapless_def stream_def empty_db_def)

lemma event_ids_distinct_empty [simp]: "event_ids_distinct empty_db"
  by (simp add: event_ids_distinct_def empty_db_def)

end
