(* ===== verification/Event_Store.thy ===== *)
theory Event_Store
  imports Event_Database
begin

text \<open>
  The append-only event store of \<^verbatim>\<open>crates/event-store/src/store.rs\<close> and the session leases of \<^verbatim>\<open>leases.rs\<close>:
  atomic append with optimistic sequence numbers, lease-fenced append, loading and verifying a
  stream, the two offset-keyed readers, the rewind preview and the rebuild of the projections.

  An operation that runs in a transaction returns an error or the committed database; on an error
  the caller keeps the old database, which is the rollback. \<open>rebuild\<close> runs outside a transaction, so
  it returns a database in both cases. Sequence numbers are natural numbers: they start at one
  and grow by one per event, far below the signed 64-bit column.
\<close>

datatype store_error =
    Sqlite sql_error
  | SequenceConflict string nat nat
  | IntegrityMismatch string
  | IoError string
  | UuidError string
  | StaleLease string string

section \<open>Rows and envelopes\<close>

definition schema_text :: "nat \<times> nat \<Rightarrow> string" where
  "schema_text v = show_nat (fst v) @ ''.'' @ show_nat (snd v)"

definition row_of :: "'p ext \<Rightarrow> event_envelope \<Rightarrow> 'p event_row" where
  "row_of X e =
     \<lparr>row_event_id = ev_event_id e, row_session_id = ev_session_id e,
      row_aggregate_type = aggregate_as_str (ev_aggregate_type e), row_aggregate_id = ev_aggregate_id e,
      row_sequence = ev_sequence e, row_event_type = ev_event_type e,
      row_schema_version = schema_text (ev_schema_version e), row_occurred_at = ev_occurred_at e,
      row_actor_type = actor_as_str (actor_kind (ev_actor e)), row_actor_id = actor_name (ev_actor e),
      row_causation_id = ev_causation_id e, row_correlation_id = ev_correlation_id e,
      row_payload = x_ser_event X (ev_payload e), row_payload_object_hash = ev_payload_object_hash e,
      row_integrity_hash = ev_integrity_hash e\<rparr>"

definition insert_event :: "'p ext \<Rightarrow> event_envelope \<Rightarrow> 'p db \<Rightarrow> (store_error, 'p db) result" where
  "insert_event X e d =
     (if \<not> verify_integrity (x_hash_env X) e then Inl (IntegrityMismatch (ev_event_id e))
      else map_err Sqlite (insert_event_row (row_of X e) d))"

definition parse_aggregate :: "string \<Rightarrow> (store_error, aggregate_type) result" where
  "parse_aggregate s =
     (if s = ''session'' then Inr Agg_Session
      else if s = ''task'' then Inr Agg_Task
      else if s = ''run'' then Inr Agg_Run
      else if s = ''turn'' then Inr Agg_Turn
      else if s = ''run_step'' then Inr Agg_RunStep
      else Inl (IoError (''unknown aggregate_type '' @ s)))"

definition parse_id :: "'p ext \<Rightarrow> string \<Rightarrow> (store_error, uuid) result" where
  "parse_id X s = ok_or (UuidError (x_uuid_error X s)) (x_parse_uuid X s)"

definition aggregate_ids ::
  "'p ext \<Rightarrow> aggregate_type \<Rightarrow> string \<Rightarrow>
   (store_error, uuid option \<times> uuid option \<times> uuid option \<times> uuid option) result" where
  "aggregate_ids X ty s =
     (case ty of
        Agg_Task \<Rightarrow> and_then (parse_id X s) (\<lambda>u. Inr (Some u, None, None, None))
      | Agg_Run \<Rightarrow> and_then (parse_id X s) (\<lambda>u. Inr (None, Some u, None, None))
      | Agg_Turn \<Rightarrow> and_then (parse_id X s) (\<lambda>u. Inr (None, None, Some u, None))
      | Agg_RunStep \<Rightarrow> and_then (parse_id X s) (\<lambda>u. Inr (None, None, None, Some u))
      | Agg_Session \<Rightarrow> Inr (None, None, None, None))"

definition parse_version :: "'p ext \<Rightarrow> string \<Rightarrow> (store_error, nat) result" where
  "parse_version X s = ok_or (IoError (x_parse_int_error X s)) (parse_unsigned 32 s)"

definition reconstruct_envelope :: "'p ext \<Rightarrow> 'p event_row \<Rightarrow> (store_error, event_envelope) result" where
  "reconstruct_envelope X r =
     and_then (parse_aggregate (row_aggregate_type r)) (\<lambda>ty.
     and_then (aggregate_ids X ty (row_aggregate_id r)) (\<lambda>(task, run, turn, step).
     and_then (ok_or (IoError (''bad schema_version '' @ row_schema_version r))
                (split_once CHR ''.'' (row_schema_version r))) (\<lambda>(major, minor).
     and_then (ok_or (IntegrityMismatch (row_event_id r)) (x_de_event X (row_payload r))) (\<lambda>payload.
     and_then (parse_id X (row_session_id r)) (\<lambda>session.
     and_then (parse_version X major) (\<lambda>mj.
     and_then (parse_version X minor) (\<lambda>mn.
     and_then (ok_or (IoError (''bad actor_type '' @ row_actor_type r)) (actor_parse (row_actor_type r))) (\<lambda>ak.
       Inr \<lparr>ev_event_id = row_event_id r, ev_session_id = session, ev_task_id = task, ev_run_id = run,
            ev_turn_id = turn, ev_step_id = step, ev_aggregate_type = ty,
            ev_aggregate_id = row_aggregate_id r, ev_sequence = row_sequence r,
            ev_event_type = row_event_type r, ev_schema_version = (mj, mn),
            ev_occurred_at = row_occurred_at r,
            ev_actor = \<lparr>actor_kind = ak, actor_name = row_actor_id r\<rparr>,
            ev_causation_id = row_causation_id r, ev_correlation_id = row_correlation_id r,
            ev_payload = payload, ev_payload_object_hash = row_payload_object_hash r,
            ev_integrity_hash = row_integrity_hash r\<rparr>))))))))"

definition envelope_for ::
  "aggregate_type \<Rightarrow> string \<Rightarrow> uuid \<Rightarrow> domain_event \<Rightarrow> string \<Rightarrow> string \<Rightarrow> event_envelope" where
  "envelope_for ty agg sess payload fresh_event_id now =
     \<lparr>ev_event_id = fresh_event_id, ev_session_id = sess, ev_task_id = None, ev_run_id = None,
      ev_turn_id = None, ev_step_id = None, ev_aggregate_type = ty, ev_aggregate_id = agg,
      ev_sequence = 0, ev_event_type = event_type_of payload, ev_schema_version = SCHEMA_VERSION,
      ev_occurred_at = now, ev_actor = \<lparr>actor_kind = Actor_System, actor_name = ''core''\<rparr>,
      ev_causation_id = None, ev_correlation_id = None, ev_payload = payload,
      ev_payload_object_hash = None, ev_integrity_hash = []\<rparr>"

section \<open>Append\<close>

text \<open>\<open>SELECT MAX(sequence)\<close> over an aggregate; NULL when it has no events.\<close>

definition max_sequence :: "'p db \<Rightarrow> string \<Rightarrow> nat option" where
  "max_sequence d agg =
     (case map row_sequence (stream d agg) of [] \<Rightarrow> None | n # ns \<Rightarrow> Some (foldl max n ns))"

definition next_sequence :: "'p db \<Rightarrow> string \<Rightarrow> nat" where
  "next_sequence d agg = (case max_sequence d agg of None \<Rightarrow> 1 | Some v \<Rightarrow> v + 1)"

fun append_loop ::
  "'p ext \<Rightarrow> (string \<rightharpoonup> nat) \<Rightarrow> event_envelope list \<Rightarrow> 'p db \<Rightarrow> (store_error, 'p db) result" where
  "append_loop X seqs [] d = Inr d"
| "append_loop X seqs (e # es) d =
     (let agg = ev_aggregate_id e;
          expected = (case seqs agg of Some n \<Rightarrow> n | None \<Rightarrow> next_sequence d agg)
      in if ev_sequence e \<noteq> expected
         then Inl (SequenceConflict agg (ev_sequence e) (next_sequence d agg))
         else and_then (insert_event X e d) (\<lambda>d1.
              and_then (map_err Sqlite (project e d1)) (\<lambda>d2.
              append_loop X (seqs(agg \<mapsto> expected + 1)) es d2)))"

definition append :: "'p ext \<Rightarrow> event_envelope list \<Rightarrow> 'p db \<Rightarrow> (store_error, 'p db) result" where
  "append X es d = (if es = [] then Inr d else append_loop X Map.empty es d)"

section \<open>Leases\<close>

record lease =
  le_lease_id :: string
  le_generation :: nat

definition lease_current :: "'p db \<Rightarrow> string \<Rightarrow> lease option" where
  "lease_current d sid =
     map_option (\<lambda>r. \<lparr>le_lease_id = ls_lease_id r, le_generation = ls_generation r\<rparr>)
       (find (\<lambda>r. ls_session_id r = sid) (t_leases d))"

definition lease_is_current :: "'p db \<Rightarrow> string \<Rightarrow> string \<Rightarrow> bool" where
  "lease_is_current d sid lid =
     (case lease_current d sid of None \<Rightarrow> False | Some l \<Rightarrow> le_lease_id l = lid)"

text \<open>\<open>INSERT ... ON CONFLICT(session_id) DO UPDATE\<close>.\<close>

definition upsert_lease :: "lease_row \<Rightarrow> 'p db \<Rightarrow> 'p db" where
  "upsert_lease r d =
     (if ls_session_id r \<in> ls_session_id ` set (t_leases d)
      then d\<lparr>t_leases := map (\<lambda>q. if ls_session_id q = ls_session_id r then r else q) (t_leases d)\<rparr>
      else d\<lparr>t_leases := t_leases d @ [r]\<rparr>)"

definition lease_acquire ::
  "string \<Rightarrow> string \<Rightarrow> string \<Rightarrow> string \<Rightarrow> 'p db \<Rightarrow> lease \<times> 'p db" where
  "lease_acquire sid lid owner now d =
     (let g = (case find (\<lambda>r. ls_session_id r = sid) (t_leases d) of
                 None \<Rightarrow> 1 | Some r \<Rightarrow> ls_generation r + 1)
      in (\<lparr>le_lease_id = lid, le_generation = g\<rparr>,
          upsert_lease \<lparr>ls_session_id = sid, ls_lease_id = lid, ls_owner = owner, ls_generation = g,
                        ls_acquired_at = now\<rparr> d))"

definition append_with_lease ::
  "'p ext \<Rightarrow> string \<Rightarrow> string \<Rightarrow> event_envelope list \<Rightarrow> 'p db \<Rightarrow> (store_error, 'p db) result" where
  "append_with_lease X sid lid es d =
     (if es = [] then Inr d
      else if \<not> lease_is_current d sid lid then Inl (StaleLease sid lid)
      else append_loop X Map.empty es d)"

section \<open>Readers\<close>

definition load :: "'p ext \<Rightarrow> 'p db \<Rightarrow> string \<Rightarrow> (store_error, event_envelope list) result" where
  "load X d agg = collect_results (reconstruct_envelope X) (sort_key row_sequence (stream d agg))"

fun verify_loop ::
  "'p ext \<Rightarrow> string \<Rightarrow> nat \<Rightarrow> event_envelope list \<Rightarrow> (store_error, unit) result" where
  "verify_loop X agg idx [] = Inr ()"
| "verify_loop X agg idx (e # es) =
     (if ev_sequence e \<noteq> idx + 1 then Inl (SequenceConflict agg (idx + 1) (ev_sequence e))
      else if \<not> verify_integrity (x_hash_env X) e then Inl (IntegrityMismatch (ev_event_id e))
      else verify_loop X agg (idx + 1) es)"

definition verify_stream :: "'p ext \<Rightarrow> 'p db \<Rightarrow> string \<Rightarrow> (store_error, unit) result" where
  "verify_stream X d agg = and_then (load X d agg) (verify_loop X agg 0)"

text \<open>Rows with their \<open>rowid\<close>.\<close>

definition numbered :: "'p db \<Rightarrow> (nat \<times> 'p event_row) list" where
  "numbered d = zip [1..<Suc (length (t_events d))] (t_events d)"

definition session_events_since ::
  "'p ext \<Rightarrow> 'p db \<Rightarrow> string \<Rightarrow> nat \<Rightarrow> nat \<Rightarrow> (store_error, event_envelope list \<times> nat) result" where
  "session_events_since X d sid after_offset limit =
     (let rows = take limit (filter (\<lambda>(i, r). row_session_id r = sid \<and> after_offset < i) (numbered d))
      in and_then (collect_results (\<lambda>(i, r). reconstruct_envelope X r) rows) (\<lambda>es.
           Inr (map (\<lambda>e. e\<lparr>ev_payload_object_hash := None\<rparr>) es,
                if rows = [] then after_offset else fst (last rows))))"

definition events_since_global ::
  "'p ext \<Rightarrow> 'p db \<Rightarrow> nat \<Rightarrow> nat \<Rightarrow> (store_error, event_envelope list \<times> nat) result" where
  "events_since_global X d after_offset limit =
     (let rows = take limit (filter (\<lambda>(i, r). after_offset < i) (numbered d))
      in and_then (collect_results (\<lambda>(i, r). reconstruct_envelope X r) rows) (\<lambda>es.
           Inr (es, if rows = [] then after_offset else fst (last rows))))"

definition preview_rewind ::
  "'p db \<Rightarrow> string \<Rightarrow> nat \<Rightarrow> (store_error, string list) result" where
  "preview_rewind d sid to_sequence =
     collect_results
       (\<lambda>r. if row_sequence r \<le> to_sequence then Inl (SequenceConflict sid to_sequence (row_sequence r))
            else Inr (row_event_id r))
       (sort_key row_sequence
          (filter (\<lambda>r. row_aggregate_id r = sid \<and> to_sequence < row_sequence r) (t_events d)))"

section \<open>Rebuild\<close>

fun rebuild_loop :: "'p ext \<Rightarrow> 'p event_row list \<Rightarrow> nat \<Rightarrow> 'p db \<Rightarrow> (store_error, nat) result \<times> 'p db" where
  "rebuild_loop X [] applied d = (Inr applied, d)"
| "rebuild_loop X (r # rs) applied d =
     (case reconstruct_envelope X r of
        Inl e \<Rightarrow> (Inl e, d)
      | Inr env \<Rightarrow> (case project env d of
                     Inl e \<Rightarrow> (Inl (Sqlite e), d)
                   | Inr d' \<Rightarrow> rebuild_loop X rs (applied + 1) d'))"

definition rebuild :: "'p ext \<Rightarrow> 'p db \<Rightarrow> (store_error, nat) result \<times> 'p db" where
  "rebuild X d =
     (case delete_all_tasks d of
        Inl e \<Rightarrow> (Inl (Sqlite e), d)
      | Inr d1 \<Rightarrow> (case delete_all_sessions d1 of
                     Inl e \<Rightarrow> (Inl (Sqlite e), d1)
                   | Inr d2 \<Rightarrow> rebuild_loop X (t_events d) 0 d2))"


section \<open>Invariants\<close>

text \<open>
  What an envelope must satisfy to survive a round trip through the table: its identity columns
  agree with its aggregate (they are recomputed on load), its ids are canonical UUID texts, and
  the JSON codec returns the payload it was given.
\<close>

definition ids_consistent :: "'p ext \<Rightarrow> event_envelope \<Rightarrow> bool" where
  "ids_consistent X e =
     (x_parse_uuid X (ev_session_id e) = Some (ev_session_id e)
      \<and> aggregate_ids X (ev_aggregate_type e) (ev_aggregate_id e)
          = Inr (ev_task_id e, ev_run_id e, ev_turn_id e, ev_step_id e))"

definition wf_envelope :: "'p ext \<Rightarrow> event_envelope \<Rightarrow> bool" where
  "wf_envelope X e =
     (verify_integrity (x_hash_env X) e \<and> ids_consistent X e
      \<and> fst (ev_schema_version e) < 2 ^ 32 \<and> snd (ev_schema_version e) < 2 ^ 32
      \<and> x_de_event X (x_ser_event X (ev_payload e)) = Some (ev_payload e))"

text \<open>Every stored row was written from a well-formed envelope.\<close>

definition rows_sound :: "'p ext \<Rightarrow> 'p db \<Rightarrow> bool" where
  "rows_sound X d = (\<forall>r \<in> set (t_events d). \<exists>e. r = row_of X e \<and> wf_envelope X e)"

definition store_inv :: "'p db \<Rightarrow> bool" where
  "store_inv d = (gapless d \<and> event_ids_distinct d)"

section \<open>Lemmas on rows\<close>

lemma split_once_digits:
  "(\<And>c. c \<in> set a \<Longrightarrow> c \<noteq> d) \<Longrightarrow> split_once d (a @ d # b) = Some (a, b)"
  by (induction a) auto

lemma split_once_schema_text:
  "split_once CHR ''.'' (schema_text v) = Some (show_nat (fst v), show_nat (snd v))"
proof -
  have "\<And>c. c \<in> set (show_nat (fst v)) \<Longrightarrow> c \<noteq> CHR ''.''"
    using show_nat_digits [of "CHR ''.''" "fst v"] by (auto simp: is_digit_def)
  then have "split_once CHR ''.'' (show_nat (fst v) @ CHR ''.'' # show_nat (snd v))
      = Some (show_nat (fst v), show_nat (snd v))"
    by (rule split_once_digits)
  then show ?thesis by (simp add: schema_text_def)
qed

lemma parse_aggregate_as_str [simp]: "parse_aggregate (aggregate_as_str ty) = Inr ty"
  by (cases ty) (simp_all add: parse_aggregate_def)

lemma row_of_fields [simp]:
  "row_event_id (row_of X e) = ev_event_id e"
  "row_session_id (row_of X e) = ev_session_id e"
  "row_aggregate_id (row_of X e) = ev_aggregate_id e"
  "row_sequence (row_of X e) = ev_sequence e"
  "row_payload (row_of X e) = x_ser_event X (ev_payload e)"
  by (simp_all add: row_of_def)

lemma reconstruct_row_of:
  assumes "wf_envelope X e"
  shows "reconstruct_envelope X (row_of X e) = Inr e"
proof -
  have ids: "aggregate_ids X (ev_aggregate_type e) (ev_aggregate_id e)
      = Inr (ev_task_id e, ev_run_id e, ev_turn_id e, ev_step_id e)"
    and sess: "parse_id X (ev_session_id e) = Inr (ev_session_id e)"
    and de: "x_de_event X (x_ser_event X (ev_payload e)) = Some (ev_payload e)"
    using assms by (simp_all add: wf_envelope_def ids_consistent_def parse_id_def)
  have mj: "parse_version X (show_nat (fst (ev_schema_version e))) = Inr (fst (ev_schema_version e))"
    and mn: "parse_version X (show_nat (snd (ev_schema_version e))) = Inr (snd (ev_schema_version e))"
    using assms by (simp_all add: wf_envelope_def parse_version_def parse_unsigned_show_nat)
  show ?thesis
    by (cases e) (use ids sess de mj mn in
        \<open>simp add: reconstruct_envelope_def row_of_def split_once_schema_text\<close>)
qed

section \<open>Lemmas on append\<close>

lemma foldl_max_upt: "m \<le> k \<Longrightarrow> foldl max m [Suc m..<Suc k] = k"
  by (induction k) (auto simp: le_Suc_eq)

lemma next_sequence_gapless:
  assumes "gapless d"
  shows "next_sequence d agg = Suc (length (stream d agg))"
proof (cases "stream d agg")
  case Nil
  then show ?thesis by (simp add: next_sequence_def max_sequence_def)
next
  case (Cons r rs)
  have "map row_sequence (stream d agg) = [1..<Suc (length (stream d agg))]"
    using assms by (simp only: gapless_def)
  also have "\<dots> = 1 # [Suc 1..<Suc (length (stream d agg))]"
    using Cons by (intro upt_conv_Cons) simp
  finally have "max_sequence d agg = Some (foldl max 1 [Suc 1..<Suc (length (stream d agg))])"
    by (simp add: max_sequence_def del: upt_Suc)
  then have "max_sequence d agg = Some (length (stream d agg))"
    using Cons foldl_max_upt [of 1 "length (stream d agg)"] by simp
  then show ?thesis by (simp add: next_sequence_def)
qed

definition seqs_agree :: "(string \<rightharpoonup> nat) \<Rightarrow> 'p db \<Rightarrow> bool" where
  "seqs_agree seqs d = (\<forall>agg n. seqs agg = Some n \<longrightarrow> n = Suc (length (stream d agg)))"

lemma seqs_agree_empty [simp]: "seqs_agree Map.empty d"
  by (simp add: seqs_agree_def)

lemma insert_event_Inr:
  assumes "insert_event X e d = Inr d'"
  shows "insert_event_row (row_of X e) d = Inr d'" and "verify_integrity (x_hash_env X) e"
    and "t_events d' = t_events d @ [row_of X e]"
  using assms insert_event_row_Inr [of "row_of X e" d d']
  by (auto simp: insert_event_def split: if_splits)

lemma append_step:
  assumes "append_loop X seqs (e # es) d = Inr d'" and "gapless d" and "seqs_agree seqs d"
  obtains d1 d2 where "insert_event X e d = Inr d1" and "project e d1 = Inr d2"
    and "append_loop X (seqs(ev_aggregate_id e \<mapsto> ev_sequence e + 1)) es d2 = Inr d'"
    and "ev_sequence e = Suc (length (stream d (ev_aggregate_id e)))"
    and "gapless d2" and "seqs_agree (seqs(ev_aggregate_id e \<mapsto> ev_sequence e + 1)) d2"
    and "t_events d2 = t_events d @ [row_of X e]"
proof -
  let ?agg = "ev_aggregate_id e"
  have expected: "(case seqs ?agg of Some n \<Rightarrow> n | None \<Rightarrow> next_sequence d ?agg)
      = Suc (length (stream d ?agg))"
    using assms(2,3) by (auto simp: next_sequence_gapless seqs_agree_def split: option.splits)
  obtain d1 d2 where ins: "insert_event X e d = Inr d1" and pr: "project e d1 = Inr d2"
    and rest: "append_loop X (seqs(?agg \<mapsto> ev_sequence e + 1)) es d2 = Inr d'"
    and seq: "ev_sequence e = Suc (length (stream d ?agg))"
    using assms(1) unfolding append_loop.simps Let_def expected
    by (auto simp: and_then_Inr_iff split: if_splits)
  have ev: "t_events d2 = t_events d @ [row_of X e]"
    using insert_event_Inr(3) [OF ins] project_frame(1) [OF pr] by simp
  have "gapless d1"
    using gapless_insert [OF assms(2) insert_event_Inr(1) [OF ins]] seq by simp
  then have "gapless d2"
    using gapless_cong [OF project_frame(1) [OF pr]] by simp
  moreover have "seqs_agree (seqs(?agg \<mapsto> ev_sequence e + 1)) d2"
    using assms(3) seq by (auto simp: seqs_agree_def stream_def ev)
  ultimately show ?thesis using that ins pr rest seq ev by blast
qed

lemma append_loop_events:
  assumes "append_loop X seqs es d = Inr d'" and "gapless d" and "seqs_agree seqs d"
  shows "gapless d' \<and> t_events d' = t_events d @ map (row_of X) es
         \<and> (\<forall>e \<in> set es. verify_integrity (x_hash_env X) e)"
  using assms
proof (induction es arbitrary: seqs d)
  case Nil
  then show ?case by simp
next
  case (Cons e es)
  obtain d1 d2 where ins: "insert_event X e d = Inr d1"
    and rest: "append_loop X (seqs(ev_aggregate_id e \<mapsto> ev_sequence e + 1)) es d2 = Inr d'"
    and g2: "gapless d2" and s2: "seqs_agree (seqs(ev_aggregate_id e \<mapsto> ev_sequence e + 1)) d2"
    and ev: "t_events d2 = t_events d @ [row_of X e]"
    using append_step [OF Cons.prems] by metis
  from Cons.IH [OF rest g2 s2] insert_event_Inr(2) [OF ins] ev show ?case by simp
qed

lemma append_loop_distinct:
  assumes "append_loop X seqs es d = Inr d'" and "event_ids_distinct d"
  shows "event_ids_distinct d'"
  using assms
proof (induction es arbitrary: seqs d)
  case Nil
  then show ?case by simp
next
  case (Cons e es)
  then obtain d1 d2 seqs' where ins: "insert_event X e d = Inr d1" and pr: "project e d1 = Inr d2"
    and rest: "append_loop X seqs' es d2 = Inr d'"
    by (auto simp: and_then_Inr_iff Let_def split: if_splits)
  have "event_ids_distinct d1"
    using distinct_insert [OF Cons.prems(2) insert_event_Inr(1) [OF ins]] .
  then have "event_ids_distinct d2"
    using event_ids_distinct_cong [OF project_frame(1) [OF pr]] by simp
  with rest show ?case by (rule Cons.IH)
qed

lemma append_store_inv [invs]: "append X es d = Inr d' \<Longrightarrow> store_inv d \<Longrightarrow> store_inv d'"
  using append_loop_events [OF _ _ seqs_agree_empty] append_loop_distinct
  by (auto simp: append_def store_inv_def split: if_splits)

lemma append_with_lease_eq_append:
  "append_with_lease X sid lid es d = Inr d' \<Longrightarrow> append X es d = Inr d'"
  by (auto simp: append_with_lease_def append_def split: if_splits)

lemma append_events: "append X es d = Inr d' \<Longrightarrow> gapless d \<Longrightarrow> t_events d' = t_events d @ map (row_of X) es"
  using append_loop_events [OF _ _ seqs_agree_empty] by (fastforce simp: append_def split: if_splits)

lemma stream_sorted: "gapless d \<Longrightarrow> sort_key row_sequence (stream d agg) = stream d agg"
proof (rule sort_key_id_if_sorted)
  assume "gapless d"
  then have "map row_sequence (stream d agg) = [1..<Suc (length (stream d agg))]"
    by (simp only: gapless_def)
  then show "sorted (map row_sequence (stream d agg))"
    by (simp only: sorted_upt)
qed

lemma load_rows_sound:
  assumes "gapless d" and "rows_sound X d"
  shows "\<exists>es. load X d agg = Inr es \<and> map (row_of X) es = stream d agg \<and> (\<forall>e \<in> set es. wf_envelope X e)"
proof -
  define g where "g r = (SOME e. r = row_of X e \<and> wf_envelope X e)" for r
  have g: "r = row_of X (g r) \<and> wf_envelope X (g r)" if "r \<in> set (stream d agg)" for r
  proof -
    from that have "r \<in> set (t_events d)" by (simp add: stream_def)
    with assms(2) have "\<exists>e. r = row_of X e \<and> wf_envelope X e" by (simp add: rows_sound_def)
    then show ?thesis unfolding g_def by (rule someI_ex)
  qed
  have "reconstruct_envelope X r = Inr (g r)" if "r \<in> set (stream d agg)" for r
    using g [OF that] reconstruct_row_of [of X "g r"] by simp
  then have "collect_results (reconstruct_envelope X) (stream d agg) = Inr (map g (stream d agg))"
    by (rule collect_results_all_ok)
  moreover have "map (row_of X) (map g (stream d agg)) = stream d agg"
    using g by (simp add: map_idI)
  ultimately show ?thesis
    using g stream_sorted [OF assms(1)] by (auto simp: load_def)
qed

lemma verify_loop_ok:
  assumes "map ev_sequence es = [Suc idx..<Suc (idx + length es)]"
    and "\<forall>e \<in> set es. verify_integrity (x_hash_env X) e"
  shows "verify_loop X agg idx es = Inr ()"
  using assms
proof (induction es arbitrary: idx)
  case Nil
  show ?case by simp
next
  case (Cons e es)
  then show ?case by (simp add: upt_conv_Cons del: upt_Suc)
qed

end
