(* ===== verification/Command_Processor.thy ===== *)
theory Command_Processor
  imports Event_Store
begin

text \<open>
  Idempotent command processing of \<^verbatim>\<open>crates/event-store/src/commands.rs\<close>. \<open>execute\<close> runs one command in one
  transaction: it looks the command id up in \<open>command_log\<close>, plans the events of the command,
  checks their sequence numbers, inserts and projects them one by one, and records the outcome.

  The transaction is committed for a rejected command too (the rejection is logged), and a failing
  statement undoes only itself, so the insertion loop returns the database it has reached also when it
  stops with an error. Generated identifiers and the clock are the argument \<open>fresh\<close>.
\<close>

datatype outcome =
    Applied "string list"
  | Replayed "string list"
  | Rejected string

record fresh =
  fr_aggregate :: uuid
  fr_event1 :: string
  fr_event2 :: string
  fr_now :: string

section \<open>Queries\<close>

definition aggregate_exists :: "'p db \<Rightarrow> string \<Rightarrow> bool" where
  "aggregate_exists d agg = (0 < length (stream d agg))"

definition task_exists :: "'p db \<Rightarrow> uuid \<Rightarrow> bool" where
  "task_exists d t = (0 < length (stream d t))"

definition goal_stream_len :: "'p db \<Rightarrow> uuid \<Rightarrow> nat" where
  "goal_stream_len d t = length (stream d t)"

definition session_stream :: "'p db \<Rightarrow> string \<Rightarrow> 'p event_row list" where
  "session_stream d s = filter (\<lambda>r. row_aggregate_type r = ''session'') (stream d s)"

definition session_sequence :: "'p db \<Rightarrow> string \<Rightarrow> nat" where
  "session_sequence d s =
     (case map row_sequence (session_stream d s) of [] \<Rightarrow> 0 | n # ns \<Rightarrow> foldl max n ns)"

definition source_stream_len :: "'p db \<Rightarrow> string \<Rightarrow> nat" where
  "source_stream_len d s = length (session_stream d s)"

definition load_task_events :: "'p ext \<Rightarrow> 'p db \<Rightarrow> uuid \<Rightarrow> (string, domain_event list) result" where
  "load_task_events X d t =
     collect_results (\<lambda>r. ok_or (x_serde_error X (row_payload r)) (x_de_event X (row_payload r)))
       (sort_key row_sequence (stream d t))"

definition load_session_envelopes :: "'p ext \<Rightarrow> 'p db \<Rightarrow> string \<Rightarrow> (string, event_envelope list) result" where
  "load_session_envelopes X d s =
     collect_results (\<lambda>r. ok_or (x_serde_error X (row_payload r)) (x_de_envelope X (row_payload r)))
       (sort_key row_sequence (stream d s))"

definition task_session :: "'p ext \<Rightarrow> 'p db \<Rightarrow> uuid \<Rightarrow> (string, uuid) result" where
  "task_session X d t =
     (case sort_key row_sequence (stream d t) of
        [] \<Rightarrow> Inl (''task '' @ t @ '' does not exist'')
      | r # _ \<Rightarrow> ok_or (x_uuid_error X (row_session_id r)) (x_parse_uuid X (row_session_id r)))"

text \<open>The current state of a task: fold of its decoded history.\<close>

definition task_current :: "uuid \<Rightarrow> domain_event list \<Rightarrow> (string, task_state) result" where
  "task_current t hist =
     and_then (ok_or (''task '' @ t @ '' does not exist'') (fold_task hist)) (map_err show_transition_error)"

section \<open>Planning\<close>

definition sealed_at :: "'p ext \<Rightarrow> nat \<Rightarrow> event_envelope \<Rightarrow> event_envelope" where
  "sealed_at X n e = seal (x_hash_env X) (e\<lparr>ev_sequence := n\<rparr>)"

definition task_envelope ::
  "'p ext \<Rightarrow> uuid \<Rightarrow> uuid \<Rightarrow> domain_event \<Rightarrow> string \<Rightarrow> string \<Rightarrow> nat \<Rightarrow> event_envelope" where
  "task_envelope X t sess payload eid now n =
     sealed_at X n ((envelope_for Agg_Task t sess payload eid now)\<lparr>ev_task_id := Some t\<rparr>)"

definition session_envelope ::
  "'p ext \<Rightarrow> uuid \<Rightarrow> domain_event \<Rightarrow> string \<Rightarrow> string \<Rightarrow> nat \<Rightarrow> event_envelope" where
  "session_envelope X s payload eid now n = sealed_at X n (envelope_for Agg_Session s s payload eid now)"

definition plan_create_session ::
  "'p ext \<Rightarrow> fresh \<Rightarrow> string \<Rightarrow> (string, event_envelope list) result" where
  "plan_create_session X f name =
     Inr [session_envelope X (fr_aggregate f) (SessionCreated name) (fr_event1 f) (fr_now f) 1]"

definition plan_create_task ::
  "'p ext \<Rightarrow> fresh \<Rightarrow> 'p db \<Rightarrow> uuid \<Rightarrow> string \<Rightarrow> string \<Rightarrow> string option \<Rightarrow> string option \<Rightarrow> string option \<Rightarrow>
   (string, event_envelope list) result" where
  "plan_create_task X f d s title prompt repo branch parent =
     (if \<not> aggregate_exists d s then Inl (''session '' @ s @ '' does not exist'')
      else Inr [task_envelope X (fr_aggregate f) s (TaskCreated s title prompt repo branch parent)
                  (fr_event1 f) (fr_now f) 1])"

definition plan_queue_task_input ::
  "'p ext \<Rightarrow> fresh \<Rightarrow> 'p db \<Rightarrow> uuid \<Rightarrow> string \<Rightarrow> input_mode \<Rightarrow> string \<Rightarrow>
   (string, event_envelope list) result" where
  "plan_queue_task_input X f d t iid mode txt =
     and_then (load_task_events X d t) (\<lambda>hist.
     and_then (task_current t hist) (\<lambda>cur.
     and_then (input_effect cur mode) (\<lambda>eff.
     and_then (task_session X d t) (\<lambda>sess.
       Inr (task_envelope X t sess (TaskInputQueued iid mode txt) (fr_event1 f) (fr_now f) (length hist + 1)
            # (if eff = RedirectsTask
               then [task_envelope X t sess (TaskSteered txt) (fr_event2 f) (fr_now f) (length hist + 2)]
               else []))))))"

definition plan_side_question ::
  "'p ext \<Rightarrow> fresh \<Rightarrow> 'p db \<Rightarrow> uuid \<Rightarrow> string \<Rightarrow> string \<Rightarrow> nat \<Rightarrow> (string, event_envelope list) result" where
  "plan_side_question X f d s qid q n =
     (if \<not> aggregate_exists d s then Inl (''session '' @ s @ '' does not exist'')
      else Inr [session_envelope X s (SideQuestionAsked qid q n) (fr_event1 f) (fr_now f)
                  (session_sequence d s + 1)])"

definition plan_set_goal ::
  "'p ext \<Rightarrow> fresh \<Rightarrow> 'p db \<Rightarrow> uuid \<Rightarrow> string \<Rightarrow> string list \<Rightarrow> (string, event_envelope list) result" where
  "plan_set_goal X f d t objective criteria =
     (if \<not> task_exists d t then Inl (''task '' @ t @ '' does not exist'')
      else and_then (task_session X d t) (\<lambda>sess.
             Inr [task_envelope X t sess (GoalSet objective criteria) (fr_event1 f) (fr_now f)
                    (goal_stream_len d t + 1)]))"

definition plan_fork_session ::
  "'p ext \<Rightarrow> fresh \<Rightarrow> 'p db \<Rightarrow> uuid \<Rightarrow> nat \<Rightarrow> string list \<Rightarrow> string list \<Rightarrow>
   (string, event_envelope list) result" where
  "plan_fork_session X f d src at decisions refs =
     (let n = source_stream_len d src
      in if at = 0 \<or> n < at
         then Inl (''cannot fork '' @ src @ '' at sequence '' @ show_nat at @ '' (stream has '' @ show_nat n
                   @ '' events)'')
         else Inr [session_envelope X (fr_aggregate f) (SessionForked src at decisions refs)
                     (fr_event1 f) (fr_now f) 1])"

definition plan_rewind_session ::
  "'p ext \<Rightarrow> fresh \<Rightarrow> 'p db \<Rightarrow> uuid \<Rightarrow> nat \<Rightarrow> string \<Rightarrow> (string, event_envelope list) result" where
  "plan_rewind_session X f d s to_seq expected_hash =
     and_then (load_session_envelopes X d s) (\<lambda>es.
       if es = [] then Inl (''session '' @ s @ '' has no events'')
       else let lst = last es in
         if ev_integrity_hash lst \<noteq> expected_hash
         then Inl (''rewind rejected: stream ends with hash '' @ ev_integrity_hash lst
                   @ '', caller expected '' @ expected_hash)
         else if to_seq = 0 \<or> ev_sequence lst \<le> to_seq
         then Inl (''cannot rewind session '' @ s @ '' to sequence '' @ show_nat to_seq
                   @ '' (stream ends at '' @ show_nat (ev_sequence lst) @ '')'')
         else Inr [session_envelope X s
                     (SessionRewound to_seq (ev_sequence lst - to_seq) (ev_integrity_hash lst))
                     (fr_event1 f) (fr_now f) (ev_sequence lst + 1)])"

definition is_goal_set :: "domain_event \<Rightarrow> bool" where
  "is_goal_set e = (case e of GoalSet _ _ \<Rightarrow> True | _ \<Rightarrow> False)"

definition unverified_completion :: "command_payload \<Rightarrow> bool" where
  "unverified_completion p = (case p of CompleteTask _ _ verified \<Rightarrow> \<not> verified | _ \<Rightarrow> False)"

definition goal_mode_refusal :: string where
  "goal_mode_refusal =
     ''goal mode: completion requires host-verified acceptance criteria;                              the model cannot self-certify''"

definition plan_lifecycle ::
  "'p ext \<Rightarrow> fresh \<Rightarrow> 'p db \<Rightarrow> command_payload \<Rightarrow> (string, event_envelope list) result" where
  "plan_lifecycle X f d p =
     (case target_aggregate p of
        None \<Rightarrow> Inl ''lifecycle commands target a task''
      | Some agg \<Rightarrow>
          and_then (ok_or (''bad task id: '' @ x_uuid_error X agg) (x_parse_uuid X agg)) (\<lambda>t.
          and_then (load_task_events X d t) (\<lambda>hist.
          and_then (task_current t hist) (\<lambda>cur.
            if unverified_completion p \<and> list_ex is_goal_set hist then Inl goal_mode_refusal
            else (case lifecycle_event p of
                    None \<Rightarrow> Inl ''unreachable''
                  | Some ev \<Rightarrow>
                      and_then (map_err show_transition_error (apply_task_event cur ev)) (\<lambda>_.
                      and_then (task_session X d t) (\<lambda>sess.
                        Inr [task_envelope X t sess ev (fr_event1 f) (fr_now f) (length hist + 1)])))))))"

fun plan ::
  "'p ext \<Rightarrow> fresh \<Rightarrow> 'p db \<Rightarrow> command_payload \<Rightarrow> (string, event_envelope list) result" where
  "plan X f d (CreateSession name) = plan_create_session X f name"
| "plan X f d (CreateTask s title prompt repo branch parent) =
     plan_create_task X f d s title prompt repo branch parent"
| "plan X f d (QueueTaskInput t iid mode txt) = plan_queue_task_input X f d t iid mode txt"
| "plan X f d (AskSideQuestion s qid q n) = plan_side_question X f d s qid q n"
| "plan X f d (SetGoal t objective criteria) = plan_set_goal X f d t objective criteria"
| "plan X f d (ForkSession src at decisions refs) = plan_fork_session X f d src at decisions refs"
| "plan X f d (RewindSession s to_seq h) = plan_rewind_session X f d s to_seq h"
| "plan X f d p = plan_lifecycle X f d p"

section \<open>Insertion\<close>

fun check_continuity ::
  "'p db \<Rightarrow> (string \<rightharpoonup> nat) \<Rightarrow> event_envelope list \<Rightarrow> (string, unit) result" where
  "check_continuity d exp [] = Inr ()"
| "check_continuity d exp (e # es) =
     (let agg = ev_aggregate_id e;
          expected = (case exp agg of Some n \<Rightarrow> n | None \<Rightarrow> next_sequence d agg)
      in if ev_sequence e \<noteq> expected
         then Inl (''sequence conflict on '' @ agg @ '': expected '' @ show_nat expected @ '', got ''
                   @ show_nat (ev_sequence e))
         else check_continuity d (exp(agg \<mapsto> ev_sequence e + 1)) es)"

text \<open>The row written here takes the schema version from the constant, not from the envelope.\<close>

definition command_row_of :: "'p ext \<Rightarrow> event_envelope \<Rightarrow> 'p event_row" where
  "command_row_of X e = (row_of X e)\<lparr>row_schema_version := schema_text SCHEMA_VERSION\<rparr>"

fun insert_planned ::
  "'p ext \<Rightarrow> event_envelope list \<Rightarrow> string list \<Rightarrow> 'p db \<Rightarrow> (string, string list) result \<times> 'p db" where
  "insert_planned X [] ids d = (Inr ids, d)"
| "insert_planned X (e # es) ids d =
     (if \<not> verify_integrity (x_hash_env X) e
      then (Inl (''integrity mismatch on event '' @ ev_event_id e), d)
      else (case insert_event_row (command_row_of X e) d of
              Inl err \<Rightarrow> (Inl (x_show_sql X err), d)
            | Inr d1 \<Rightarrow> (case project e d1 of
                           Inl err \<Rightarrow> (Inl (x_show_sql X err), d1)
                         | Inr d2 \<Rightarrow> insert_planned X es (ids @ [ev_event_id e]) d2)))"

definition plan_and_append ::
  "'p ext \<Rightarrow> fresh \<Rightarrow> command \<Rightarrow> 'p db \<Rightarrow> (string, string list) result \<times> 'p db" where
  "plan_and_append X f c d =
     (case plan X f d (cmd_payload c) of
        Inl reason \<Rightarrow> (Inl reason, d)
      | Inr es \<Rightarrow> (case check_continuity d Map.empty es of
                     Inl reason \<Rightarrow> (Inl reason, d)
                   | Inr _ \<Rightarrow> insert_planned X es [] d))"

definition log_command ::
  "command \<Rightarrow> string \<Rightarrow> string list \<Rightarrow> string option \<Rightarrow> string \<Rightarrow> 'p db \<Rightarrow> 'p db" where
  "log_command c status ids err now d =
     d\<lparr>t_command_log := t_command_log d @
        [\<lparr>cl_command_id = cmd_id c, cl_command_type = command_kind (cmd_payload c), cl_status = status,
          cl_event_ids = ids, cl_error = err, cl_processed_at = now\<rparr>]\<rparr>"

definition execute :: "'p ext \<Rightarrow> fresh \<Rightarrow> command \<Rightarrow> 'p db \<Rightarrow> outcome \<times> 'p db" where
  "execute X f c d =
     (case find (\<lambda>r. cl_command_id r = cmd_id c) (t_command_log d) of
        Some r \<Rightarrow>
          (if cl_status r = ''APPLIED'' then Replayed (cl_event_ids r)
           else Rejected ''previously rejected (idempotent replay)'', d)
      | None \<Rightarrow>
          (case plan_and_append X f c d of
             (Inr ids, d') \<Rightarrow> (Applied ids, log_command c ''APPLIED'' ids None (fr_now f) d')
           | (Inl reason, d') \<Rightarrow> (Rejected reason, log_command c ''REJECTED'' [] (Some reason) (fr_now f) d')))"

section \<open>Lemmas: events and the invariant\<close>

lemma check_continuity_Cons:
  assumes "check_continuity d exp (e # es) = Inr ()" and "gapless d" and "seqs_agree exp d"
  shows "ev_sequence e = Suc (length (stream d (ev_aggregate_id e)))"
    and "check_continuity d (exp(ev_aggregate_id e \<mapsto> ev_sequence e + 1)) es = Inr ()"
  using assms
  by (auto simp: Let_def next_sequence_gapless seqs_agree_def split: option.splits if_splits)

lemma command_row_of_fields [simp]:
  "row_event_id (command_row_of X e) = ev_event_id e"
  "row_aggregate_id (command_row_of X e) = ev_aggregate_id e"
  "row_sequence (command_row_of X e) = ev_sequence e"
  "row_payload (command_row_of X e) = x_ser_event X (ev_payload e)"
  "row_session_id (command_row_of X e) = ev_session_id e"
  by (simp_all add: command_row_of_def)


lemma check_continuity_cong:
  assumes "\<And>agg. exp agg = None \<Longrightarrow> stream d agg = stream d' agg"
  shows "check_continuity d exp es = check_continuity d' exp es"
  using assms
proof (induction es arbitrary: exp)
  case Nil
  show ?case by simp
next
  case (Cons e es)
  let ?agg = "ev_aggregate_id e"
  have next_eq: "exp ?agg = None \<Longrightarrow> next_sequence d ?agg = next_sequence d' ?agg"
    using Cons.prems [of ?agg] by (simp add: next_sequence_def max_sequence_def)
  have "check_continuity d (exp(?agg \<mapsto> n)) es = check_continuity d' (exp(?agg \<mapsto> n)) es" for n
    using Cons.prems by (intro Cons.IH) (auto split: if_splits)
  with next_eq show ?case by (auto simp: Let_def split: option.splits)
qed

text \<open>One insertion of the loop: the database after it, whether or not the projection succeeds.\<close>

lemma insert_planned_step:
  assumes "check_continuity d exp (e # es) = Inr ()" and "gapless d" and "seqs_agree exp d"
    and "insert_event_row (command_row_of X e) d = Inr d1" and "t_events d2 = t_events d1"
  shows "gapless d2" and "t_events d2 = t_events d @ [command_row_of X e]"
    and "seqs_agree (exp(ev_aggregate_id e \<mapsto> ev_sequence e + 1)) d2"
    and "check_continuity d2 (exp(ev_aggregate_id e \<mapsto> ev_sequence e + 1)) es = Inr ()"
proof -
  note c = check_continuity_Cons [OF assms(1-3)]
  show ev: "t_events d2 = t_events d @ [command_row_of X e]"
    using insert_event_row_Inr [OF assms(4)] assms(5) by simp
  show "gapless d2"
    using gapless_insert [OF assms(2,4)] c(1) gapless_cong [OF assms(5)] by simp
  show "seqs_agree (exp(ev_aggregate_id e \<mapsto> ev_sequence e + 1)) d2"
    using assms(3) c(1) by (auto simp: seqs_agree_def stream_def ev)
  have "stream d agg = stream d2 agg" if "(exp(ev_aggregate_id e \<mapsto> ev_sequence e + 1)) agg = None" for agg
    using that by (auto simp: stream_def ev split: if_splits)
  then show "check_continuity d2 (exp(ev_aggregate_id e \<mapsto> ev_sequence e + 1)) es = Inr ()"
    using c(2) check_continuity_cong by metis
qed

lemma insert_planned_inv:
  assumes "check_continuity d exp es = Inr ()" and "gapless d" and "seqs_agree exp d"
    and "insert_planned X es ids d = (res, d')"
  shows "gapless d' \<and> prefix (t_events d) (t_events d')
         \<and> (\<forall>ids'. res = Inr ids' \<longrightarrow>
              ids' = ids @ map ev_event_id es \<and> t_events d' = t_events d @ map (command_row_of X) es)"
  using assms
proof (induction es arbitrary: exp ids d)
  case Nil
  then show ?case by auto
next
  case (Cons e es)
  show ?case
  proof (cases "verify_integrity (x_hash_env X) e \<and> is_ok (insert_event_row (command_row_of X e) d)")
    case False
    with Cons.prems have "d' = d \<and> (\<exists>x. res = Inl x)" by (auto split: sum.splits if_splits)
    with Cons.prems(2) show ?thesis by auto
  next
    case True
    then obtain d1 where ins: "insert_event_row (command_row_of X e) d = Inr d1"
      by (auto simp: is_ok_iff)
    show ?thesis
    proof (cases "project e d1")
      case (Inl err)
      with True ins Cons.prems(4) have "d' = d1" "\<exists>x. res = Inl x" by auto
      then show ?thesis
        using insert_planned_step(1,2) [OF Cons.prems(1-3) ins refl] by auto
    next
      case (Inr d2)
      have ev: "t_events d2 = t_events d1" using project_frame(1) [OF Inr] .
      note st = insert_planned_step [OF Cons.prems(1-3) ins ev]
      have rest: "insert_planned X es (ids @ [ev_event_id e]) d2 = (res, d')"
        using True ins Inr Cons.prems(4) by simp
      have IH: "gapless d' \<and> prefix (t_events d2) (t_events d')
         \<and> (\<forall>ids'. res = Inr ids' \<longrightarrow> ids' = (ids @ [ev_event_id e]) @ map ev_event_id es
              \<and> t_events d' = t_events d2 @ map (command_row_of X) es)"
        using st(4,1,3) rest by (rule Cons.IH)
      then show ?thesis using st(2) by (auto simp: prefix_def)
    qed
  qed
qed

lemma insert_planned_distinct:
  "event_ids_distinct d \<Longrightarrow> event_ids_distinct (snd (insert_planned X es ids d))"
proof (induction es arbitrary: ids d)
  case Nil
  then show ?case by simp
next
  case (Cons e es)
  show ?case
  proof (cases "insert_event_row (command_row_of X e) d")
    case (Inl err)
    with Cons.prems show ?thesis by simp
  next
    case (Inr d1)
    have d1: "event_ids_distinct d1" using distinct_insert [OF Cons.prems Inr] .
    have "event_ids_distinct d2" if "project e d1 = Inr d2" for d2
      using d1 event_ids_distinct_cong [OF project_frame(1) [OF that]] by simp
    with Inr d1 Cons show ?thesis by (auto split: sum.splits)
  qed
qed

lemma insert_planned_frame:
  "t_command_log (snd (insert_planned X es ids d)) = t_command_log d
   \<and> t_leases (snd (insert_planned X es ids d)) = t_leases d
   \<and> t_scopes (snd (insert_planned X es ids d)) = t_scopes d"
proof (induction es arbitrary: ids d)
  case Nil
  show ?case by simp
next
  case (Cons e es)
  have "insert_event_row (command_row_of X e) d = Inr d1 \<Longrightarrow>
      t_command_log d1 = t_command_log d \<and> t_leases d1 = t_leases d \<and> t_scopes d1 = t_scopes d" for d1
    using insert_event_row_Inr by fastforce
  with Cons.IH show ?case by (auto split: sum.splits dest: project_frame)
qed

lemma plan_and_append_inv [invs]:
  assumes "store_inv d" and "plan_and_append X f c d = (res, d')"
  shows "store_inv d'" and "prefix (t_events d) (t_events d')" and "t_command_log d' = t_command_log d"
proof -
  have "store_inv d' \<and> prefix (t_events d) (t_events d') \<and> t_command_log d' = t_command_log d"
  proof (cases "plan X f d (cmd_payload c)")
    case (Inl r)
    with assms show ?thesis by (auto simp: plan_and_append_def)
  next
    case (Inr es)
    show ?thesis
    proof (cases "check_continuity d Map.empty es")
      case (Inl r)
      with assms Inr show ?thesis by (auto simp: plan_and_append_def)
    next
      case okc: (Inr u)
      with assms(2) Inr have ins: "insert_planned X es [] d = (res, d')"
        by (simp add: plan_and_append_def)
      have g: "gapless d" and dis: "event_ids_distinct d" using assms(1) by (simp_all add: store_inv_def)
      have "gapless d' \<and> prefix (t_events d) (t_events d')"
        using insert_planned_inv [OF _ g _ ins] okc by simp
      moreover have "event_ids_distinct d'"
        using insert_planned_distinct [OF dis, of X es "[]"] ins by simp
      moreover have "t_command_log d' = t_command_log d"
        using insert_planned_frame [of X es "[]" d] ins by simp
      ultimately show ?thesis by (simp add: store_inv_def)
    qed
  qed
  then show "store_inv d'" "prefix (t_events d) (t_events d')" "t_command_log d' = t_command_log d"
    by simp_all
qed

lemma log_command_frame [simp, frames]:
  "t_events (log_command c st ids err now d) = t_events d"
  "t_sessions (log_command c st ids err now d) = t_sessions d"
  "t_tasks (log_command c st ids err now d) = t_tasks d"
  "t_task_inputs (log_command c st ids err now d) = t_task_inputs d"
  by (simp_all add: log_command_def)

lemma store_inv_cong: "t_events d = t_events d' \<Longrightarrow> store_inv d \<longleftrightarrow> store_inv d'"
  using gapless_cong event_ids_distinct_cong by (metis store_inv_def)

lemma execute_cases:
  obtains (seen) r where "find (\<lambda>r. cl_command_id r = cmd_id c) (t_command_log d) = Some r"
      and "snd (execute X f c d) = d"
  | (run) res d' where "find (\<lambda>r. cl_command_id r = cmd_id c) (t_command_log d) = None"
      and "plan_and_append X f c d = (res, d')"
      and "t_events (snd (execute X f c d)) = t_events d'"
      and "\<exists>r. t_command_log (snd (execute X f c d)) = t_command_log d' @ [r]"
  by (cases "find (\<lambda>r. cl_command_id r = cmd_id c) (t_command_log d)";
      cases "plan_and_append X f c d"; cases "fst (plan_and_append X f c d)")
     (auto simp: execute_def log_command_def)

lemma execute_inv [invs]:
  assumes "store_inv d"
  shows "store_inv (snd (execute X f c d))"
    and "prefix (t_events d) (t_events (snd (execute X f c d)))"
    and "prefix (t_command_log d) (t_command_log (snd (execute X f c d)))"
proof -
  have "store_inv (snd (execute X f c d)) \<and> prefix (t_events d) (t_events (snd (execute X f c d)))
      \<and> prefix (t_command_log d) (t_command_log (snd (execute X f c d)))"
  proof (cases rule: execute_cases [of c d X f])
    case (seen r)
    with assms show ?thesis by simp
  next
    case (run res d')
    note p = plan_and_append_inv [OF assms run(2)]
    from run(3) p(1) have "store_inv (snd (execute X f c d))" using store_inv_cong by metis
    with run p show ?thesis by auto
  qed
  then show "store_inv (snd (execute X f c d))" "prefix (t_events d) (t_events (snd (execute X f c d)))"
    "prefix (t_command_log d) (t_command_log (snd (execute X f c d)))" by simp_all
qed

section \<open>The store as a machine\<close>

text \<open>Every operation that changes the event store's tables, one after another.\<close>

datatype store_op =
    Op_Append "event_envelope list"
  | Op_AppendWithLease string string "event_envelope list"
  | Op_Execute fresh command
  | Op_AcquireLease string string string string
  | Op_Rebuild

fun store_step :: "'p ext \<Rightarrow> 'p db \<Rightarrow> store_op \<Rightarrow> 'p db" where
  "store_step X d (Op_Append es) = (case append X es d of Inl _ \<Rightarrow> d | Inr d' \<Rightarrow> d')"
| "store_step X d (Op_AppendWithLease sid lid es) =
     (case append_with_lease X sid lid es d of Inl _ \<Rightarrow> d | Inr d' \<Rightarrow> d')"
| "store_step X d (Op_Execute f c) = snd (execute X f c d)"
| "store_step X d (Op_AcquireLease sid lid owner now) = snd (lease_acquire sid lid owner now d)"
| "store_step X d Op_Rebuild = snd (rebuild X d)"

lemma append_loop_command_log: "append_loop X seqs es d = Inr d' \<Longrightarrow> t_command_log d' = t_command_log d"
proof (induction es arbitrary: seqs d)
  case Nil
  then show ?case by simp
next
  case (Cons e es)
  then obtain d1 d2 seqs' where ins: "insert_event X e d = Inr d1" and pr: "project e d1 = Inr d2"
    and rest: "append_loop X seqs' es d2 = Inr d'"
    by (auto simp: and_then_Inr_iff Let_def split: if_splits)
  have "t_command_log d1 = t_command_log d"
    using insert_event_row_Inr [OF insert_event_Inr(1) [OF ins]] by simp
  with Cons.IH [OF rest] project_frame(2) [OF pr] show ?case by simp
qed

lemma append_command_log: "append X es d = Inr d' \<Longrightarrow> t_command_log d' = t_command_log d"
  using append_loop_command_log by (auto simp: append_def split: if_splits)

lemma lease_acquire_frame [frames]:
  "t_events (snd (lease_acquire sid lid owner now d)) = t_events d"
  "t_command_log (snd (lease_acquire sid lid owner now d)) = t_command_log d"
  by (simp_all add: lease_acquire_def upsert_lease_def Let_def)

lemma rebuild_loop_frame:
  "t_events (snd (rebuild_loop X rs n d)) = t_events d
   \<and> t_command_log (snd (rebuild_loop X rs n d)) = t_command_log d"
proof (induction rs arbitrary: n d)
  case Nil
  show ?case by simp
next
  case (Cons r rs)
  then show ?case by (auto split: sum.splits dest: project_frame)
qed

lemma rebuild_frame [frames]:
  "t_events (snd (rebuild X d)) = t_events d" "t_command_log (snd (rebuild X d)) = t_command_log d"
  by (auto simp: rebuild_def delete_all_tasks_def delete_all_sessions_def rebuild_loop_frame
      split: sum.splits if_splits)

lemma store_step_inv [invs]:
  assumes "store_inv d"
  shows "store_inv (store_step X d x)" and "prefix (t_events d) (t_events (store_step X d x))"
    and "prefix (t_command_log d) (t_command_log (store_step X d x))"
proof -
  have g: "gapless d" using assms by (simp add: store_inv_def)
  have app: "store_inv d' \<and> prefix (t_events d) (t_events d') \<and> prefix (t_command_log d) (t_command_log d')"
    if "append X es d = Inr d'" for es d'
    using append_store_inv [OF that assms] append_events [OF that g] append_command_log [OF that] by simp
  have "store_inv (store_step X d x) \<and> prefix (t_events d) (t_events (store_step X d x))
      \<and> prefix (t_command_log d) (t_command_log (store_step X d x))"
  proof (cases x)
    case (Op_Append es)
    with assms app show ?thesis by (auto split: sum.splits)
  next
    case (Op_AppendWithLease sid lid es)
    with assms app append_with_lease_eq_append show ?thesis by (fastforce split: sum.splits)
  next
    case (Op_Execute f c)
    with assms show ?thesis by (simp add: execute_inv)
  next
    case (Op_AcquireLease sid lid owner now)
    with assms show ?thesis
      using store_inv_cong [of d "snd (lease_acquire sid lid owner now d)"] by (simp add: lease_acquire_frame)
  next
    case Op_Rebuild
    with assms show ?thesis
      using store_inv_cong [of d "snd (rebuild X d)"] by (simp add: rebuild_frame)
  qed
  then show "store_inv (store_step X d x)" "prefix (t_events d) (t_events (store_step X d x))"
    "prefix (t_command_log d) (t_command_log (store_step X d x))" by simp_all
qed

interpretation ev_log: append_only "store_step X" store_inv t_events for X :: "'p ext"
  by unfold_locales (auto intro: store_step_inv)

interpretation cmd_log: append_only "store_step X" store_inv t_command_log for X :: "'p ext"
  by unfold_locales (auto intro: store_step_inv)

end
