(* ===== verification/Store_Properties.thy ===== *)
theory Store_Properties
  imports Command_Processor
begin

text \<open>
  The correctness properties of the event store and the command processor: the sequence invariant
  and append-only history over every run, the round trip through the events table, fencing,
  idempotence, goal mode, and what the insertion loop does when a projection statement fails.
\<close>

section \<open>A concrete instance of the external codecs\<close>

text \<open>
  For the witnesses: payload text is represented by the event itself, UUID texts parse to themselves, and
  the hash of an envelope is a text built from its sequence number and type.
\<close>

definition ext0 :: "domain_event ext" where
  "ext0 = \<lparr>x_ser_event = (\<lambda>e. e), x_de_event = Some, x_de_envelope = (\<lambda>_. None), x_parse_uuid = Some,
     x_hash_env = (\<lambda>e. show_nat (ev_sequence e) @ ev_event_type e), x_show_sql = (\<lambda>_. ''sql''),
     x_serde_error = (\<lambda>_. ''missing field''), x_uuid_error = (\<lambda>_. ''uuid''),
     x_parse_int_error = (\<lambda>_. ''int'')\<rparr>"

definition fresh0 :: "string \<Rightarrow> string \<Rightarrow> fresh" where
  "fresh0 agg e = \<lparr>fr_aggregate = agg, fr_event1 = e, fr_event2 = e @ ''b'', fr_now = ''now''\<rparr>"

definition cmd0 :: "string \<Rightarrow> command_payload \<Rightarrow> command" where
  "cmd0 i p = \<lparr>cmd_id = i, cmd_actor = \<lparr>actor_kind = Actor_User, actor_name = ''u''\<rparr>, cmd_payload = p\<rparr>"

definition run0 :: "(string \<times> string \<times> string \<times> command_payload) list \<Rightarrow> domain_event db" where
  "run0 xs = foldl (\<lambda>d (i, agg, e, p). snd (execute ext0 (fresh0 agg e) (cmd0 i p) d)) empty_db xs"

section \<open>Round trips\<close>

lemma collect_results_append:
  "collect_results f (xs @ ys) =
     and_then (collect_results f xs) (\<lambda>a. and_then (collect_results f ys) (\<lambda>b. Inr (a @ b)))"
proof (induction xs)
  case Nil
  show ?case by (cases "collect_results f ys") auto
next
  case (Cons x xs)
  then show ?case
    by (cases "f x"; cases "collect_results f xs"; cases "collect_results f ys") auto
qed

lemma rows_sound_append:
  assumes "rows_sound X d" and "t_events d' = t_events d @ map (row_of X) es"
    and "\<forall>e \<in> set es. wf_envelope X e"
  shows "rows_sound X d'"
  using assms by (auto simp: rows_sound_def)

lemma stream_append_rows:
  assumes "t_events d' = t_events d @ map (row_of X) es"
  shows "stream d' agg = stream d agg @ map (row_of X) (filter (\<lambda>e. ev_aggregate_id e = agg) es)"
  using assms by (simp add: stream_def filter_map o_def)

lemma load_append_eq:
  assumes "gapless d" and "gapless d'" and "\<forall>e \<in> set es. wf_envelope X e"
    and "t_events d' = t_events d @ map (row_of X) es" and "load X d agg = Inr old"
  shows "load X d' agg = Inr (old @ filter (\<lambda>e. ev_aggregate_id e = agg) es)"
proof -
  have new: "collect_results (reconstruct_envelope X)
      (map (row_of X) (filter (\<lambda>e. ev_aggregate_id e = agg) es)) = Inr (filter (\<lambda>e. ev_aggregate_id e = agg) es)"
    using assms(3) by (induction es) (auto simp: reconstruct_row_of)
  show ?thesis
    using assms(5) new stream_append_rows [OF assms(4)] stream_sorted [OF assms(1)]
      stream_sorted [OF assms(2)] by (simp add: load_def collect_results_append)
qed

lemma verify_stream_sound:
  assumes "gapless d" and "rows_sound X d"
  shows "verify_stream X d agg = Inr ()"
proof -
  obtain es where es: "load X d agg = Inr es" "map (row_of X) es = stream d agg"
    "\<forall>e \<in> set es. wf_envelope X e"
    using load_rows_sound [OF assms] by blast
  have "map ev_sequence es = map row_sequence (stream d agg)"
    by (simp flip: es(2))
  also have "\<dots> = [1..<Suc (length (stream d agg))]"
    using assms(1) by (simp only: gapless_def)
  also have "length (stream d agg) = length es"
    using es(2) by (metis length_map)
  finally have "map ev_sequence es = [Suc 0..<Suc (0 + length es)]" by simp
  then have "verify_loop X agg 0 es = Inr ()"
    using es(3) by (intro verify_loop_ok) (auto simp: wf_envelope_def)
  with es(1) show ?thesis by (simp add: verify_stream_def)
qed

section \<open>What an executed command leaves behind\<close>

lemma applied_events:
  assumes "store_inv d" and "execute X f c d = (Applied ids, d')"
  obtains es where "plan X f d (cmd_payload c) = Inr es" and "ids = map ev_event_id es"
    and "t_events d' = t_events d @ map (command_row_of X) es"
proof -
  obtain d1 where run: "plan_and_append X f c d = (Inr ids, d1)" and d': "t_events d' = t_events d1"
    using assms(2) by (auto simp: execute_def split: option.splits prod.splits sum.splits if_splits)
  obtain es where es: "plan X f d (cmd_payload c) = Inr es" and "check_continuity d Map.empty es = Inr ()"
    and ins: "insert_planned X es [] d = (Inr ids, d1)"
    using run by (auto simp: plan_and_append_def split: sum.splits)
  then have "ids = map ev_event_id es \<and> t_events d1 = t_events d @ map (command_row_of X) es"
    using insert_planned_inv [OF _ _ _ ins] assms(1) by (simp add: store_inv_def)
  with es d' show ?thesis using that by simp
qed

lemma load_task_events_append:
  assumes "store_inv d" and "store_inv d'" and "load_task_events X d t = Inr hist"
    and "t_events d' = t_events d @ map (command_row_of X) es"
    and "\<forall>e \<in> set es. ev_aggregate_id e = t \<and> x_de_event X (x_ser_event X (ev_payload e)) = Some (ev_payload e)"
  shows "load_task_events X d' t = Inr (hist @ map ev_payload es)"
proof -
  have g: "gapless d" "gapless d'" using assms(1,2) by (simp_all add: store_inv_def)
  have st: "stream d' t = stream d t @ map (command_row_of X) es"
    using assms(4,5) by (simp add: stream_def filter_map o_def)
  have "collect_results (\<lambda>r. ok_or (x_serde_error X (row_payload r)) (x_de_event X (row_payload r)))
      (map (command_row_of X) es) = Inr (map ev_payload es)"
    using assms(5) by (induction es) auto
  moreover have "sort_key row_sequence (stream d' t) = stream d t @ map (command_row_of X) es"
    using stream_sorted [OF g(2), of t] by (simp only: st)
  ultimately show ?thesis
    using assms(3) by (simp add: load_task_events_def stream_sorted [OF g(1)] collect_results_append)
qed

lemma load_task_events_length:
  assumes "load_task_events X d t = Inr hist"
  shows "length hist = length (stream d t)"
proof -
  have "collect_results f xs = Inr ys \<Longrightarrow> length ys = length xs"
    for f :: "'a event_row \<Rightarrow> (string, domain_event) result" and xs ys
    by (induction xs arbitrary: ys) (auto simp: and_then_Inr_iff)
  with assms show ?thesis by (fastforce simp: load_task_events_def)
qed

lemma task_envelope_fields [simp]:
  "ev_payload (task_envelope X t s p e now n) = p"
  "ev_aggregate_id (task_envelope X t s p e now n) = t"
  "ev_aggregate_type (task_envelope X t s p e now n) = Agg_Task"
  "ev_session_id (task_envelope X t s p e now n) = s"
  "ev_sequence (task_envelope X t s p e now n) = n"
  "ev_event_id (task_envelope X t s p e now n) = e"
  "verify_integrity (x_hash_env X) (task_envelope X t s p e now n)"
  by (simp_all add: task_envelope_def sealed_at_def envelope_for_def)

lemma execute_seen:
  "find (\<lambda>r. cl_command_id r = cmd_id c) (t_command_log d) = Some r \<Longrightarrow>
   execute X f c d =
     (if cl_status r = ''APPLIED'' then Replayed (cl_event_ids r)
      else Rejected ''previously rejected (idempotent replay)'', d)"
  by (simp add: execute_def)

text \<open>The outcome a retried command sees.\<close>

fun replay_of :: "outcome \<Rightarrow> outcome" where
  "replay_of (Applied ids) = Replayed ids"
| "replay_of (Replayed ids) = Replayed ids"
| "replay_of (Rejected _) = Rejected ''previously rejected (idempotent replay)''"

lemma execute_logged:
  assumes "store_inv d"
  obtains r where
    "find (\<lambda>r. cl_command_id r = cmd_id c) (t_command_log (snd (execute X f c d))) = Some r"
    and "replay_of (fst (execute X f c d)) =
           (if cl_status r = ''APPLIED'' then Replayed (cl_event_ids r)
            else Rejected ''previously rejected (idempotent replay)'')"
proof (cases "find (\<lambda>r. cl_command_id r = cmd_id c) (t_command_log d)")
  case (Some r)
  then show ?thesis using that [of r] by (simp add: execute_def)
next
  case None
  obtain res d1 where run: "plan_and_append X f c d = (res, d1)" by fastforce
  have "t_command_log d1 = t_command_log d"
    using plan_and_append_inv(3) [OF assms run] .
  with None have "find (\<lambda>r. cl_command_id r = cmd_id c) (t_command_log d1) = None" by simp
  then show ?thesis
    using that None run
    by (cases res) (simp_all add: execute_def log_command_def find_append_None)
qed

section \<open>Leases\<close>

definition lease_generation :: "string \<Rightarrow> 'p db \<Rightarrow> nat" where
  "lease_generation sid d = (case lease_current d sid of None \<Rightarrow> 0 | Some l \<Rightarrow> le_generation l)"

lemma append_loop_leases: "append_loop X seqs es d = Inr d' \<Longrightarrow> t_leases d' = t_leases d"
proof (induction es arbitrary: seqs d)
  case Nil
  then show ?case by simp
next
  case (Cons e es)
  then obtain d1 d2 seqs' where ins: "insert_event X e d = Inr d1" and pr: "project e d1 = Inr d2"
    and rest: "append_loop X seqs' es d2 = Inr d'"
    by (auto simp: and_then_Inr_iff Let_def split: if_splits)
  have "t_leases d1 = t_leases d"
    using insert_event_row_Inr [OF insert_event_Inr(1) [OF ins]] by simp
  with Cons.IH [OF rest] project_frame(3) [OF pr] show ?case by simp
qed

lemma execute_leases: "t_leases (snd (execute X f c d)) = t_leases d"
  using insert_planned_frame [of X _ "[]" d]
  by (auto simp: execute_def plan_and_append_def log_command_def split: option.splits sum.splits prod.splits)
     (metis snd_conv)+

lemma rebuild_loop_leases: "t_leases (snd (rebuild_loop X rs n d)) = t_leases d"
  by (induction rs arbitrary: n d) (auto split: sum.splits dest: project_frame)

lemma rebuild_leases: "t_leases (snd (rebuild X d)) = t_leases d"
  by (auto simp: rebuild_def delete_all_tasks_def delete_all_sessions_def rebuild_loop_leases
      split: sum.splits if_splits)

lemma store_step_leases:
  "(\<forall>sid lid owner now. x \<noteq> Op_AcquireLease sid lid owner now) \<Longrightarrow> t_leases (store_step X d x) = t_leases d"
  by (cases x) (auto simp: execute_leases rebuild_leases append_def append_with_lease_def
      split: sum.splits if_splits dest: append_loop_leases)

lemma find_map_update:
  "find (\<lambda>r. k r = s) (map (\<lambda>q. if k q = k r then r else q) xs) =
     (if k r = s then (if s \<in> k ` set xs then Some r else None) else find (\<lambda>r. k r = s) xs)"
  by (induction xs) auto

lemma find_None_image: "s \<notin> k ` set xs \<Longrightarrow> find (\<lambda>r. k r = s) xs = None"
  by (auto simp: find_None_iff)

lemma find_upsert_lease:
  "find (\<lambda>q. ls_session_id q = s) (t_leases (upsert_lease r d)) =
     (if ls_session_id r = s then Some r else find (\<lambda>q. ls_session_id q = s) (t_leases d))"
proof (cases "ls_session_id r \<in> ls_session_id ` set (t_leases d)")
  case True
  then show ?thesis by (auto simp: upsert_lease_def find_map_update)
next
  case False
  then show ?thesis
    using find_None_image [OF False] find_append_None
    by (cases "find (\<lambda>q. ls_session_id q = s) (t_leases d)")
       (auto simp: upsert_lease_def find_append_None find_append_Some)
qed

lemma lease_current_acquire:
  "lease_current (snd (lease_acquire sid lid owner now d)) sid' =
     (if sid' = sid then Some \<lparr>le_lease_id = lid, le_generation = lease_generation sid d + 1\<rparr>
      else lease_current d sid')"
  by (auto simp: lease_acquire_def find_upsert_lease lease_current_def lease_generation_def Let_def
      split: option.splits)

lemma lease_generation_step: "lease_generation sid d \<le> lease_generation sid (store_step X d x)"
proof (cases "\<exists>s l ow now. x = Op_AcquireLease s l ow now")
  case True
  then show ?thesis by (auto simp: lease_current_acquire lease_generation_def)
next
  case False
  then show ?thesis using store_step_leases [of x X d] by (simp add: lease_generation_def lease_current_def)
qed

interpretation lease_fence: fenced_machine "store_step X" store_inv "lease_generation sid"
  for X :: "'p ext" and sid
  by unfold_locales (simp_all add: lease_generation_step store_step_inv(1))

text \<open>A session whose lease is not the given one: kept by every operation that does not acquire it.\<close>

lemma not_current_step:
  assumes "\<not> lease_is_current d sid lid" and "\<forall>ow now. x \<noteq> Op_AcquireLease sid lid ow now"
  shows "\<not> lease_is_current (store_step X d x) sid lid"
proof (cases "\<exists>s l ow now. x = Op_AcquireLease s l ow now")
  case True
  with assms show ?thesis by (auto simp: lease_current_acquire lease_is_current_def split: if_splits)
next
  case False
  with assms show ?thesis
    using store_step_leases [of x X d] by (simp add: lease_is_current_def lease_current_def)
qed

lemma not_current_run:
  assumes "\<not> lease_is_current d sid lid" and "\<forall>ow now. Op_AcquireLease sid lid ow now \<notin> set ops"
  shows "\<not> lease_is_current (foldl (store_step X) d ops) sid lid"
  using assms
proof (induction ops arbitrary: d)
  case (Cons x ops)
  have "\<not> lease_is_current (store_step X d x) sid lid"
    using Cons.prems by (intro not_current_step) auto
  with Cons show ?case by simp
qed simp

section \<open>Properties\<close>

text \<open>C3: over every sequence of appends, lease-fenced appends, commands, lease acquisitions and rebuilds, the
  sequence numbers of every aggregate stay 1, 2, 3, ... in commit order, event ids stay distinct, and
  the events table only grows at its end: no committed event is changed or lost.\<close>
theorem store_history_is_gapless_and_append_only:
  assumes "store_inv d"
  shows "store_inv (foldl (store_step X) d ops)
         \<and> prefix (t_events d) (t_events (foldl (store_step X) d ops))"
  using assms by (auto intro: ev_log.run_inv ev_log.log_run)

theorem store_history_is_gapless_and_append_only_witness:
  "store_inv (foldl (store_step ext0) (empty_db :: domain_event db)
     [Op_Execute (fresh0 ''s'' ''e1'') (cmd0 ''c1'' (CreateSession ''n'')),
      Op_Execute (fresh0 ''t'' ''e2'') (cmd0 ''c2'' (CreateTask ''s'' ''a'' ''b'' None None None))])"
  by (rule store_history_is_gapless_and_append_only [THEN conjunct1]) (simp add: store_inv_def)

text \<open>C4: a committed append is read back exactly: loading an aggregate after a successful append of
  well-formed envelopes returns what it returned before followed by the appended envelopes of that
  aggregate, and the stream verifies (gapless, hashes intact).\<close>
theorem append_then_load:
  assumes "store_inv d" and "rows_sound X d" and "\<forall>e \<in> set es. wf_envelope X e"
    and "append X es d = Inr d'" and "load X d agg = Inr old"
  shows "load X d' agg = Inr (old @ filter (\<lambda>e. ev_aggregate_id e = agg) es) \<and> verify_stream X d' agg = Inr ()"
proof -
  have g: "gapless d" using assms(1) by (simp add: store_inv_def)
  have g': "gapless d'" using append_store_inv [OF assms(4,1)] by (simp add: store_inv_def)
  have ev: "t_events d' = t_events d @ map (row_of X) es" using append_events [OF assms(4) g] .
  show ?thesis
    using load_append_eq [OF g g' assms(3) ev assms(5)]
      verify_stream_sound [OF g' rows_sound_append [OF assms(2) ev assms(3)]] by blast
qed

definition env0 :: event_envelope where
  "env0 = session_envelope ext0 ''s'' (SessionCreated ''n'') ''e1'' ''now'' 1"

lemma wf_env0: "wf_envelope ext0 env0"
  by (simp add: wf_envelope_def env0_def session_envelope_def sealed_at_def ids_consistent_def ext0_def
      envelope_for_def aggregate_ids_def SCHEMA_VERSION_def)

theorem append_then_load_witness:
  "\<exists>d'. append ext0 [env0] empty_db = Inr d' \<and> load ext0 d' ''s'' = Inr [env0]"
proof -
  have "is_ok (append ext0 [env0] (empty_db :: domain_event db))"
    by (simp add: append_def insert_event_def insert_event_row_def empty_db_def project_def
        project_session_def insert_session_row_def env0_def session_envelope_def sealed_at_def
        envelope_for_def next_sequence_def max_sequence_def stream_def ext0_def Let_def)
  then obtain d' :: "domain_event db" where d': "append ext0 [env0] empty_db = Inr d'"
    by (auto simp: is_ok_iff)
  have "load ext0 d' ''s'' = Inr ([] @ filter (\<lambda>e. ev_aggregate_id e = ''s'') [env0])
      \<and> verify_stream ext0 d' ''s'' = Inr ()"
    by (rule append_then_load [OF _ _ _ d'])
       (use wf_env0 in \<open>simp_all add: store_inv_def rows_sound_def empty_db_def load_def stream_def
          gapless_def event_ids_distinct_def\<close>)
  then show ?thesis using d' by (simp add: env0_def session_envelope_def sealed_at_def envelope_for_def)
qed


text \<open>C5: commands are idempotent by id: whatever happens to the store after a command ran, executing the
  same command id again changes nothing and returns the recorded outcome, the original event ids if it
  was applied and a rejection if it was rejected.\<close>
theorem command_runs_once:
  assumes "store_inv d"
  shows "execute X f' c (foldl (store_step X) (snd (execute X f c d)) ops)
         = (replay_of (fst (execute X f c d)), foldl (store_step X) (snd (execute X f c d)) ops)"
proof -
  let ?d = "snd (execute X f c d)"
  obtain r where r: "find (\<lambda>r. cl_command_id r = cmd_id c) (t_command_log ?d) = Some r"
    and rep: "replay_of (fst (execute X f c d)) =
           (if cl_status r = ''APPLIED'' then Replayed (cl_event_ids r)
            else Rejected ''previously rejected (idempotent replay)'')"
    using execute_logged [OF assms] by blast
  obtain more where "t_command_log (foldl (store_step X) ?d ops) = t_command_log ?d @ more"
    using cmd_log.log_run [OF execute_inv(1) [OF assms, of X f c], of X ops] by (auto simp: prefix_def)
  then have "find (\<lambda>r. cl_command_id r = cmd_id c) (t_command_log (foldl (store_step X) ?d ops)) = Some r"
    using r by (simp add: find_append_Some)
  then show ?thesis by (simp only: execute_seen rep)
qed

theorem command_runs_once_witness:
  "execute ext0 (fresh0 ''s2'' ''e2'') (cmd0 ''c1'' (CreateSession ''n''))
     (snd (execute ext0 (fresh0 ''s'' ''e1'') (cmd0 ''c1'' (CreateSession ''n'')) empty_db))
   = (replay_of (fst (execute ext0 (fresh0 ''s'' ''e1'') (cmd0 ''c1'' (CreateSession ''n'')) empty_db)),
      snd (execute ext0 (fresh0 ''s'' ''e1'') (cmd0 ''c1'' (CreateSession ''n'')) empty_db))"
  using command_runs_once [of empty_db ext0 _ _ _ "[]"] by (simp add: store_inv_def)


text \<open>C6: a superseded writer is fenced: once another lease has been acquired for a session, every
  non-empty append under the old lease fails as stale after any further operations that do not issue the
  old lease id again, and the generation of any later lease exceeds the generation the session had.\<close>
theorem superseded_lease_is_fenced:
  assumes "store_inv d" and "lid' \<noteq> lid" and "\<forall>ow t. Op_AcquireLease sid lid ow t \<notin> set ops" and "es \<noteq> []"
    and "d1 = foldl (store_step X) (snd (lease_acquire sid lid' owner now d)) ops"
  shows "append_with_lease X sid lid es d1 = Inl (StaleLease sid lid)
         \<and> lease_generation sid d + 1 < le_generation (fst (lease_acquire sid lid'' owner' now' d1))"
proof -
  let ?d = "snd (lease_acquire sid lid' owner now d)"
  have inv: "store_inv ?d"
    using assms(1) store_inv_cong [of d ?d] by (simp add: lease_acquire_frame)
  have "\<not> lease_is_current ?d sid lid"
    using assms(2) by (simp add: lease_is_current_def lease_current_acquire)
  then have "\<not> lease_is_current d1 sid lid"
    using not_current_run [OF _ assms(3)] assms(5) by blast
  moreover have "lease_generation sid ?d = lease_generation sid d + 1"
    by (simp add: lease_current_acquire lease_generation_def)
  then have "lease_generation sid d + 1 \<le> lease_generation sid d1"
    using lease_fence.epoch_run [OF inv, of sid X ops] assms(5) by simp
  moreover have "le_generation (fst (lease_acquire sid lid'' owner' now' d1)) = lease_generation sid d1 + 1"
    by (simp add: lease_acquire_def lease_generation_def lease_current_def Let_def split: option.splits)
  ultimately show ?thesis using assms(4) by (simp add: append_with_lease_def)
qed

theorem superseded_lease_is_fenced_witness:
  "append_with_lease ext0 ''s'' ''l1'' [env0]
     (snd (lease_acquire ''s'' ''l2'' ''b'' ''t2'' (snd (lease_acquire ''s'' ''l1'' ''a'' ''t1'' empty_db))))
   = Inl (StaleLease ''s'' ''l1'')"
proof -
  have "store_inv (snd (lease_acquire ''s'' ''l1'' ''a'' ''t1'' (empty_db :: domain_event db)))"
    using store_step_inv(1) [of empty_db ext0 "Op_AcquireLease ''s'' ''l1'' ''a'' ''t1''"]
    by (simp add: store_inv_def)
  from superseded_lease_is_fenced [OF this, of "''l2''" "''l1''" "''s''" "[]" "[env0]"
      _ ext0 "''b''" "''t2''", OF _ _ _ refl] show ?thesis by simp
qed

end
