(* ===== verification/Command_Properties.thy ===== *)
theory Command_Properties
  imports Store_Properties
begin

text \<open>
  What the command processor promises per command: the exact outcome of a lifecycle command, goal
  mode, and the behaviours of \<open>QueueTaskInput\<close>, \<open>CreateTask\<close> and \<open>RewindSession\<close> that follow from the way
  the code plans and inserts events.
\<close>

section \<open>Histories only grow\<close>

lemma collect_results_prefix:
  assumes "collect_results f xs = Inr ys" and "collect_results f (xs @ zs) = Inr ws"
  shows "prefix ys ws"
  using assms by (auto simp: collect_results_append and_then_Inr_iff)

lemma stream_run:
  assumes "store_inv d"
  obtains more where "stream (foldl (store_step X) d ops) t = stream d t @ more"
proof -
  obtain more where "t_events (foldl (store_step X) d ops) = t_events d @ more"
    using ev_log.log_run [OF assms, of X ops] by (auto simp: prefix_def)
  then show ?thesis using that by (simp add: stream_def)
qed

lemma load_task_events_gapless:
  assumes "store_inv d"
  shows "load_task_events X d t =
    collect_results (\<lambda>r. ok_or (x_serde_error X (row_payload r)) (x_de_event X (row_payload r))) (stream d t)"
  using assms by (simp add: load_task_events_def store_inv_def stream_sorted)

lemma load_task_events_run:
  assumes "store_inv d" and "load_task_events X d t = Inr h"
    and "load_task_events X (foldl (store_step X) d ops) t = Inr h'"
  shows "prefix h h'"
proof -
  have inv': "store_inv (foldl (store_step X) d ops)" using assms(1) by (rule ev_log.run_inv)
  obtain more where "stream (foldl (store_step X) d ops) t = stream d t @ more"
    using stream_run [OF assms(1)] by blast
  with assms(2,3) show ?thesis
    by (auto simp: load_task_events_gapless [OF assms(1)] load_task_events_gapless [OF inv']
        intro: collect_results_prefix)
qed

lemma fold_task_error_prefix:
  assumes "fold_task h = Some (Inl x)" and "prefix h h'"
  shows "fold_task h' = Some (Inl x)"
  using assms by (auto simp: prefix_def fold_task_append foldl_fold_task_step_error)

section \<open>Rejections and applications\<close>

lemma execute_plan_error:
  assumes "plan X f d (cmd_payload c) = Inl r"
    and "find (\<lambda>r. cl_command_id r = cmd_id c) (t_command_log d) = None"
  shows "execute X f c d = (Rejected r, log_command c ''REJECTED'' [] (Some r) (fr_now f) d)"
  using assms by (simp add: execute_def plan_and_append_def)

lemma execute_not_applied:
  assumes "plan X f d (cmd_payload c) = Inl r"
  shows "fst (execute X f c d) \<noteq> Applied ids" and "t_events (snd (execute X f c d)) = t_events d"
  using assms by (cases "find (\<lambda>r. cl_command_id r = cmd_id c) (t_command_log d)";
      simp add: execute_def plan_and_append_def)+

text \<open>The plan of a lifecycle command, for a task with a readable history.\<close>

lemma plan_lifecycle_eq:
  assumes "lifecycle_event p = Some ev"
  shows "plan X f d p = plan_lifecycle X f d p"
  using assms by (cases p) simp_all

lemma lifecycle_event_target: "lifecycle_event p = Some ev \<Longrightarrow> \<exists>t. target_aggregate p = Some t"
  by (cases p) simp_all

lemma lifecycle_needs_foldable_history:
  assumes "lifecycle_event p = Some ev" and "target_aggregate p = Some t" and "x_parse_uuid X t = Some t"
    and "\<And>hist s. load_task_events X d t = Inr hist \<Longrightarrow> fold_task hist \<noteq> Some (Inr s)"
  shows "\<exists>r. plan X f d p = Inl r"
proof (cases "load_task_events X d t")
  case (Inl r)
  with assms show ?thesis by (simp add: plan_lifecycle_eq plan_lifecycle_def)
next
  case (Inr hist)
  then have "fold_task hist = None \<or> (\<exists>x. fold_task hist = Some (Inl x))"
    using assms(4) by (cases "fold_task hist"; cases "the (fold_task hist)") auto
  with Inr assms(1-3) show ?thesis
    by (auto simp: plan_lifecycle_eq plan_lifecycle_def task_current_def)
qed

text \<open>Events of lifecycle commands only update the task row, so their projection cannot fail.\<close>

lemma lifecycle_projects:
  assumes "lifecycle_event p = Some ev"
  shows "is_ok (project (task_envelope X t s ev e now n) d)"
  using assms
  by (cases p) (auto simp: project_def project_task_def)

lemma insert_fresh_event:
  assumes "store_inv d" and "row_event_id r \<notin> row_event_id ` set (t_events d)"
    and "row_sequence r = Suc (length (stream d (row_aggregate_id r)))"
  shows "insert_event_row r d = Inr (d\<lparr>t_events := t_events d @ [r]\<rparr>)"
proof -
  have "row_sequence q \<le> length (stream d (row_aggregate_id r))"
    if "q \<in> set (t_events d)" "row_aggregate_id q = row_aggregate_id r" for q
  proof -
    have "row_sequence q \<in> set (map row_sequence (stream d (row_aggregate_id r)))"
      using that by (auto simp: stream_def)
    also have "map row_sequence (stream d (row_aggregate_id r)) = [1..<Suc (length (stream d (row_aggregate_id r)))]"
      using assms(1) by (simp only: store_inv_def gapless_def)
    finally show ?thesis by auto
  qed
  then have "(row_aggregate_id r, row_sequence r)
      \<notin> (\<lambda>q. (row_aggregate_id q, row_sequence q)) ` set (t_events d)"
    using assms(3) by force
  with assms(2) show ?thesis by (simp add: insert_event_row_def)
qed

lemma execute_single:
  assumes "store_inv d" and "find (\<lambda>r. cl_command_id r = cmd_id c) (t_command_log d) = None"
    and "plan X f d (cmd_payload c) = Inr [e]" and "ev_sequence e = Suc (length (stream d (ev_aggregate_id e)))"
    and "verify_integrity (x_hash_env X) e" and "ev_event_id e \<notin> row_event_id ` set (t_events d)"
  shows "fst (execute X f c d) =
      (case project e (d\<lparr>t_events := t_events d @ [command_row_of X e]\<rparr>) of
         Inl err \<Rightarrow> Rejected (x_show_sql X err) | Inr _ \<Rightarrow> Applied [ev_event_id e])"
    and "t_events (snd (execute X f c d)) = t_events d @ [command_row_of X e]"
proof -
  have "insert_event_row (command_row_of X e) d = Inr (d\<lparr>t_events := t_events d @ [command_row_of X e]\<rparr>)"
    using assms by (intro insert_fresh_event) simp_all
  moreover have "next_sequence d (ev_aggregate_id e) = ev_sequence e"
    using assms(1,4) by (simp add: next_sequence_gapless store_inv_def)
  ultimately show "fst (execute X f c d) =
      (case project e (d\<lparr>t_events := t_events d @ [command_row_of X e]\<rparr>) of
         Inl err \<Rightarrow> Rejected (x_show_sql X err) | Inr _ \<Rightarrow> Applied [ev_event_id e])"
    and "t_events (snd (execute X f c d)) = t_events d @ [command_row_of X e]"
    using assms by (simp_all add: execute_def plan_and_append_def Let_def split: sum.splits)
     (auto dest: project_frame)
qed

section \<open>Concrete databases\<close>

lemma store_inv_empty [simp]: "store_inv empty_db"
  by (simp add: store_inv_def)

lemma run0_inv [simp]: "store_inv (run0 xs)"
proof -
  have "store_inv d \<Longrightarrow>
      store_inv (foldl (\<lambda>d (i, agg, e, p). snd (execute ext0 (fresh0 agg e) (cmd0 i p) d)) d xs)" for d
    by (induction xs arbitrary: d) (auto intro: execute_inv(1))
  then show ?thesis by (simp add: run0_def)
qed

text \<open>A session with one created task, and the same task queued.\<close>

definition db_created :: "domain_event db" where
  "db_created = run0 [(''c1'', ''s'', ''e1'', CreateSession ''n''),
                      (''c2'', ''t'', ''e2'', CreateTask ''s'' ''a'' ''b'' None None None)]"

definition db_queued :: "domain_event db" where
  "db_queued = run0 [(''c1'', ''s'', ''e1'', CreateSession ''n''),
                     (''c2'', ''t'', ''e2'', CreateTask ''s'' ''a'' ''b'' None None None),
                     (''c3'', ''x'', ''e3'', QueueTask ''t'')]"

lemma db_created_tables:
  "load_task_events ext0 db_created ''t'' = Inr [TaskCreated ''s'' ''a'' ''b'' None None None]"
  "map cl_command_id (t_command_log db_created) = [''c1'', ''c2'']"
  "map row_event_id (t_events db_created) = [''e1'', ''e2'']"
  "task_session ext0 db_created ''t'' = Inr ''s''"
  by code_simp+

lemma db_queued_tables:
  "load_task_events ext0 db_queued ''t'' = Inr [TaskCreated ''s'' ''a'' ''b'' None None None, TaskQueued]"
  "map cl_command_id (t_command_log db_queued) = [''c1'', ''c2'', ''c3'']"
  "map row_event_id (t_events db_queued) = [''e1'', ''e2'', ''e3'']"
  "task_session ext0 db_queued ''t'' = Inr ''s''"
  by code_simp+

lemma db_inv [simp]: "store_inv db_created" "store_inv db_queued"
  by (simp_all add: db_created_def db_queued_def)

lemma ext0_sel [simp]:
  "x_parse_uuid ext0 = Some" "x_de_event ext0 = Some" "x_ser_event ext0 = (\<lambda>e. e)"
  "x_de_envelope ext0 = (\<lambda>_. None)"
  by (simp_all add: ext0_def)

lemma not_logged:
  "i \<notin> set (map cl_command_id (t_command_log d)) \<Longrightarrow>
   find (\<lambda>r. cl_command_id r = i) (t_command_log d) = None"
  by (auto simp: find_None_iff)

section \<open>Properties\<close>

lemma task_current_ok: "fold_task hist = Some (Inr s) \<Longrightarrow> task_current t hist = Inr s"
  by (simp add: task_current_def)

lemma stream_empty [simp]: "stream empty_db t = []"
  by (simp add: stream_def empty_db_def)

lemma execute_task_event:
  assumes "store_inv d" and "find (\<lambda>r. cl_command_id r = cmd_id c) (t_command_log d) = None"
    and "load_task_events X d t = Inr hist" and "fr_event1 f \<notin> row_event_id ` set (t_events d)"
    and "plan X f d (cmd_payload c) = Inr [task_envelope X t sess ev (fr_event1 f) now (length hist + 1)]"
    and "is_ok (project (task_envelope X t sess ev (fr_event1 f) now (length hist + 1))
           (d\<lparr>t_events := t_events d @ [command_row_of X (task_envelope X t sess ev (fr_event1 f) now (length hist + 1))]\<rparr>))"
    and "x_de_event X (x_ser_event X ev) = Some ev"
  shows "fst (execute X f c d) = Applied [fr_event1 f]"
    and "load_task_events X (snd (execute X f c d)) t = Inr (hist @ [ev])"
proof -
  let ?e = "task_envelope X t sess ev (fr_event1 f) now (length hist + 1)"
  have len: "length hist = length (stream d t)" using load_task_events_length [OF assms(3)] .
  note ex = execute_single [OF assms(1,2,5)]
  have ids: "ev_event_id ?e \<notin> row_event_id ` set (t_events d)" using assms(4) by simp
  have sq: "ev_sequence ?e = Suc (length (stream d (ev_aggregate_id ?e)))" using len by simp
  show "fst (execute X f c d) = Applied [fr_event1 f]"
    using ex(1) [OF sq _ ids] assms(6) by (auto simp: is_ok_iff)
  have ev: "t_events (snd (execute X f c d)) = t_events d @ map (command_row_of X) [?e]"
    using ex(2) [OF sq _ ids] by simp
  show "load_task_events X (snd (execute X f c d)) t = Inr (hist @ [ev])"
    using load_task_events_append [OF assms(1) execute_inv(1) [OF assms(1)] assms(3) ev] assms(7) by simp
qed

text \<open>The verdict on a lifecycle event, in words of the task machine and the goal gate only: an unverified completion of a task with a
  goal is refused, everything else is up to the machine.\<close>

definition lifecycle_verdict ::
  "domain_event list \<Rightarrow> task_state \<Rightarrow> command_payload \<Rightarrow> domain_event \<Rightarrow> (string, task_state) result" where
  "lifecycle_verdict hist s p ev =
     (if (\<exists>t m. p = CompleteTask t m False) \<and> (\<exists>g a. GoalSet g a \<in> set hist) then Inl goal_mode_refusal
      else map_err show_transition_error (apply_task_event s ev))"

lemma goal_gate_iff:
  "unverified_completion p \<and> list_ex is_goal_set hist \<longleftrightarrow>
   (\<exists>t m. p = CompleteTask t m False) \<and> (\<exists>g a. GoalSet g a \<in> set hist)"
proof -
  have "unverified_completion p \<longleftrightarrow> (\<exists>t m. p = CompleteTask t m False)"
    by (cases p) (auto simp: unverified_completion_def)
  moreover have "is_goal_set e \<longleftrightarrow> (\<exists>g a. e = GoalSet g a)" for e
    by (cases e) (auto simp: is_goal_set_def)
  ultimately show ?thesis by (auto simp: list_ex_iff)
qed

lemma plan_by_verdict:
  assumes "lifecycle_event p = Some ev" and "target_aggregate p = Some t" and "x_parse_uuid X t = Some t"
    and "load_task_events X d t = Inr hist" and "fold_task hist = Some (Inr s)" and "task_session X d t = Inr sess"
  shows "plan X f d p = (case lifecycle_verdict hist s p ev of
           Inl reason \<Rightarrow> Inl reason
         | Inr s' \<Rightarrow> Inr [task_envelope X t sess ev (fr_event1 f) (fr_now f) (length hist + 1)])"
  using assms goal_gate_iff [of p hist]
  by (auto simp: plan_lifecycle_eq plan_lifecycle_def task_current_ok lifecycle_verdict_def
      split: sum.splits)

text \<open>C7: the complete outcome of a lifecycle command with a new id on a task whose history reads and folds to \<open>s\<close>: if the command is an
  unverified completion and the history has a goal, or the task machine refuses its event in \<open>s\<close>, the command is rejected
  with that message, and the whole database is as before but for the one row of the command log that records the refusal;
  otherwise it is applied, the history of the task ends with its event and folds to the machine's new state.\<close>
theorem lifecycle_command_follows_machine:
  assumes "store_inv d" and "find (\<lambda>r. cl_command_id r = cmd_id c) (t_command_log d) = None"
    and "lifecycle_event (cmd_payload c) = Some ev" and "target_aggregate (cmd_payload c) = Some t"
    and "x_parse_uuid X t = Some t" and "load_task_events X d t = Inr hist"
    and "fold_task hist = Some (Inr s)" and "task_session X d t = Inr sess"
    and "fr_event1 f \<notin> row_event_id ` set (t_events d)" and "x_de_event X (x_ser_event X ev) = Some ev"
  shows "case lifecycle_verdict hist s (cmd_payload c) ev of
           Inr s' \<Rightarrow> fst (execute X f c d) = Applied [fr_event1 f]
                    \<and> load_task_events X (snd (execute X f c d)) t = Inr (hist @ [ev])
                    \<and> fold_task (hist @ [ev]) = Some (Inr s')
         | Inl reason \<Rightarrow> execute X f c d =
             (Rejected reason,
              d\<lparr>t_command_log := t_command_log d @
                 [\<lparr>cl_command_id = cmd_id c, cl_command_type = command_kind (cmd_payload c), cl_status = ''REJECTED'',
                   cl_event_ids = [], cl_error = Some reason, cl_processed_at = fr_now f\<rparr>]\<rparr>)"
proof (cases "lifecycle_verdict hist s (cmd_payload c) ev")
  case (Inl reason)
  then have "plan X f d (cmd_payload c) = Inl reason" using plan_by_verdict [OF assms(3-8)] by simp
  with Inl show ?thesis using execute_plan_error [OF _ assms(2)] by (simp add: log_command_def)
next
  case (Inr s')
  then have pl: "plan X f d (cmd_payload c) =
      Inr [task_envelope X t sess ev (fr_event1 f) (fr_now f) (length hist + 1)]"
    using plan_by_verdict [OF assms(3-8)] by simp
  have "apply_task_event s ev = Inr s'"
    using Inr by (cases "apply_task_event s ev") (auto simp: lifecycle_verdict_def split: if_splits)
  with execute_task_event [OF assms(1,2,6,9) pl lifecycle_projects [OF assms(3)] assms(10)] Inr assms(7)
  show ?thesis by simp
qed

text \<open>A task with a goal under review, whose completion the task machine alone would accept.\<close>

definition db_goal :: "domain_event db" where
  "db_goal = run0 [(''c1'', ''s'', ''e1'', CreateSession ''n''),
                   (''c2'', ''t'', ''e2'', CreateTask ''s'' ''a'' ''b'' None None None),
                   (''c3'', ''x'', ''e3'', SetGoal ''t'' ''g'' [''a'']),
                   (''c4'', ''x'', ''e4'', QueueTask ''t''), (''c5'', ''x'', ''e5'', StartTask ''t''),
                   (''c6'', ''x'', ''e6'', TaskReadyForReviewCmd ''t'')]"

theorem lifecycle_command_follows_machine_witness:
  "fst (execute ext0 (fresh0 ''x'' ''e9'') (cmd0 ''c9'' (QueueTask ''t'')) db_created) = Applied [''e9'']
   \<and> fst (execute ext0 (fresh0 ''x'' ''e9'') (cmd0 ''c9'' (CompleteTask ''t'' ''m'' False)) db_goal) = Rejected goal_mode_refusal"
proof
  let ?c = "cmd0 ''c9'' (QueueTask ''t'')" and ?f = "fresh0 ''x'' ''e9''"
  have "case lifecycle_verdict [TaskCreated ''s'' ''a'' ''b'' None None None] Created (cmd_payload ?c) TaskQueued of
      Inr s' \<Rightarrow> fst (execute ext0 ?f ?c db_created) = Applied [fr_event1 ?f]
        \<and> load_task_events ext0 (snd (execute ext0 ?f ?c db_created)) ''t''
            = Inr ([TaskCreated ''s'' ''a'' ''b'' None None None] @ [TaskQueued])
        \<and> fold_task ([TaskCreated ''s'' ''a'' ''b'' None None None] @ [TaskQueued]) = Some (Inr s')
    | Inl reason \<Rightarrow> execute ext0 ?f ?c db_created = (Rejected reason, db_created\<lparr>t_command_log := t_command_log db_created @
         [\<lparr>cl_command_id = cmd_id ?c, cl_command_type = command_kind (cmd_payload ?c), cl_status = ''REJECTED'',
           cl_event_ids = [], cl_error = Some reason, cl_processed_at = fr_now ?f\<rparr>]\<rparr>)"
    by (rule lifecycle_command_follows_machine [where sess = "''s''"])
       (simp_all add: db_created_tables not_logged cmd0_def fresh0_def fold_task_def flip: set_map)
  then show "fst (execute ext0 ?f ?c db_created) = Applied [''e9'']"
    by (simp add: fresh0_def cmd0_def lifecycle_verdict_def)
next
  let ?c = "cmd0 ''c9'' (CompleteTask ''t'' ''m'' False)" and ?f = "fresh0 ''x'' ''e9''"
  let ?h = "[TaskCreated ''s'' ''a'' ''b'' None None None, GoalSet ''g'' [''a''], TaskQueued, TaskStarted, TaskReadyForReview]"
  have h: "load_task_events ext0 db_goal ''t'' = Inr ?h" "map cl_command_id (t_command_log db_goal) = [''c1'', ''c2'', ''c3'', ''c4'', ''c5'', ''c6'']"
    "map row_event_id (t_events db_goal) = [''e1'', ''e2'', ''e3'', ''e4'', ''e5'', ''e6'']" "task_session ext0 db_goal ''t'' = Inr ''s''"
    by code_simp+
  have "case lifecycle_verdict ?h ReadyForReview (cmd_payload ?c) (the (lifecycle_event (cmd_payload ?c))) of
      Inr s' \<Rightarrow> fst (execute ext0 ?f ?c db_goal) = Applied [fr_event1 ?f]
        \<and> load_task_events ext0 (snd (execute ext0 ?f ?c db_goal)) ''t'' = Inr (?h @ [the (lifecycle_event (cmd_payload ?c))])
        \<and> fold_task (?h @ [the (lifecycle_event (cmd_payload ?c))]) = Some (Inr s')
    | Inl reason \<Rightarrow> execute ext0 ?f ?c db_goal = (Rejected reason, db_goal\<lparr>t_command_log := t_command_log db_goal @
         [\<lparr>cl_command_id = cmd_id ?c, cl_command_type = command_kind (cmd_payload ?c), cl_status = ''REJECTED'',
           cl_event_ids = [], cl_error = Some reason, cl_processed_at = fr_now ?f\<rparr>]\<rparr>)"
    by (rule lifecycle_command_follows_machine [where sess = "''s''"])
       (simp_all add: db_goal_def h [unfolded db_goal_def] not_logged cmd0_def fresh0_def fold_task_def flip: set_map)
  then show "fst (execute ext0 ?f ?c db_goal) = Rejected goal_mode_refusal"
    by (simp add: cmd0_def lifecycle_verdict_def)
qed

section \<open>Goal mode\<close>

lemma goal_in_history:
  assumes "store_inv d" and "r \<in> set (stream d t)" and "x_de_event X (row_payload r) = Some (GoalSet g a)"
    and "load_task_events X d t = Inr hist"
  shows "list_ex is_goal_set hist"
proof -
  have "collect_results h xs = Inr ys \<Longrightarrow> x \<in> set xs \<Longrightarrow> \<exists>y. h x = Inr y \<and> y \<in> set ys"
    for h :: "'a event_row \<Rightarrow> (string, domain_event) result" and xs ys x
    by (induction xs arbitrary: ys) (auto simp: and_then_Inr_iff)
  from this [OF assms(4) [unfolded load_task_events_gapless [OF assms(1)]] assms(2)] assms(3)
  show ?thesis by (auto simp: list_ex_iff is_goal_set_def intro!: bexI [where x = "GoalSet g a"])
qed

lemma unverified_completion_refused:
  assumes "store_inv d" and "r \<in> set (stream d t)" and "x_de_event X (row_payload r) = Some (GoalSet g a)"
    and "x_parse_uuid X t = Some t"
  shows "\<exists>why. plan X f d (CompleteTask t m False) = Inl why"
proof (cases "load_task_events X d t")
  case (Inl why)
  with assms(4) show ?thesis by (simp add: plan_lifecycle_def)
next
  case (Inr hist)
  have "list_ex is_goal_set hist" using goal_in_history [OF assms(1-3) Inr] .
  with Inr assms(4) show ?thesis
    by (cases "task_current t hist") (simp_all add: plan_lifecycle_def unverified_completion_def)
qed

text \<open>C8: goal mode cannot be escaped: once a goal was set on a task, an unverified completion of that task is
  never applied and writes no event, whatever operations happen in between.\<close>
theorem goal_needs_verified_completion:
  assumes "store_inv d" and "execute X f c d = (Applied ids, d1)" and "cmd_payload c = SetGoal t g a"
    and "x_parse_uuid X t = Some t" and "x_de_event X (x_ser_event X (GoalSet g a)) = Some (GoalSet g a)"
    and "d2 = foldl (store_step X) d1 ops" and "cmd_payload c' = CompleteTask t m False"
  shows "fst (execute X f' c' d2) \<noteq> Applied ids' \<and> t_events (snd (execute X f' c' d2)) = t_events d2"
proof -
  obtain es where es: "plan X f d (cmd_payload c) = Inr es"
    and ev: "t_events d1 = t_events d @ map (command_row_of X) es"
    using applied_events [OF assms(1,2)] by blast
  from es obtain e where e: "es = [e]" "ev_payload e = GoalSet g a" "ev_aggregate_id e = t"
    by (auto simp: assms(3) plan_set_goal_def and_then_Inr_iff split: if_splits)
  have inv1: "store_inv d1" using execute_inv(1) [OF assms(1), of X f c] assms(2) by simp
  have inv2: "store_inv d2" unfolding assms(6) by (rule ev_log.run_inv [OF inv1])
  obtain more where "stream d2 t = stream d1 t @ more"
    using stream_run [OF inv1] assms(6) by blast
  then have "command_row_of X e \<in> set (stream d2 t)"
    using ev e by (simp add: stream_def)
  moreover have "x_de_event X (row_payload (command_row_of X e)) = Some (GoalSet g a)"
    using assms(5) e by simp
  ultimately obtain why where "plan X f' d2 (cmd_payload c') = Inl why"
    using unverified_completion_refused [OF inv2 _ _ assms(4)] assms(7) by metis
  then show ?thesis using execute_not_applied by blast
qed

theorem goal_needs_verified_completion_witness:
  "\<exists>ids d1. execute ext0 (fresh0 ''x'' ''e9'') (cmd0 ''c9'' (SetGoal ''t'' ''g'' [''a''])) db_created = (Applied ids, d1)
     \<and> fst (execute ext0 (fresh0 ''x'' ''f9'') (cmd0 ''f9'' (CompleteTask ''t'' ''m'' False)) d1) \<noteq> Applied []
     \<and> t_events (snd (execute ext0 (fresh0 ''x'' ''f9'') (cmd0 ''f9'' (CompleteTask ''t'' ''m'' False)) d1)) = t_events d1"
proof -
  have "fst (execute ext0 (fresh0 ''x'' ''e9'') (cmd0 ''c9'' (SetGoal ''t'' ''g'' [''a''])) db_created) = Applied [''e9'']"
    by code_simp
  then obtain d1 where ex: "execute ext0 (fresh0 ''x'' ''e9'') (cmd0 ''c9'' (SetGoal ''t'' ''g'' [''a''])) db_created
      = (Applied [''e9''], d1)"
    by (metis prod.collapse)
  from goal_needs_verified_completion [OF db_inv(1) ex, of "''t''" "''g''" "[''a'']" d1 "[]"
      "cmd0 ''f9'' (CompleteTask ''t'' ''m'' False)" "''m''"]
  show ?thesis using ex by (auto simp: cmd0_def)
qed

section \<open>Steering a queued task\<close>

lemma steered_queued_folds_to_error:
  "fold_task hist = Some (Inr Queued) \<Longrightarrow>
   fold_task (hist @ [TaskInputQueued i Im_Steer txt, TaskSteered txt])
     = Some (Inl \<lparr>te_from = Queued, te_event = ''task_steered''\<rparr>)"
  by (simp add: fold_task_append reject_def)

text \<open>Steering a task that is still queued is applied, but the \<open>task_steered\<close> event it appends is illegal
  in that state, so the history of the task no longer folds: from then on no lifecycle command on the
  task is ever applied, whatever happens in between.\<close>

lemma steering_queued_task_blocks_it:
  assumes "store_inv d" and "execute X f c d = (Applied ids, d1)"
    and "cmd_payload c = QueueTaskInput t i Im_Steer txt" and "load_task_events X d t = Inr hist"
    and "fold_task hist = Some (Inr Queued)" and "x_parse_uuid X t = Some t"
    and "\<forall>ev. x_de_event X (x_ser_event X ev) = Some ev"
    and "d2 = foldl (store_step X) d1 ops"
    and "lifecycle_event (cmd_payload c') = Some ev'" and "target_aggregate (cmd_payload c') = Some t"
  shows "fst (execute X f' c' d2) \<noteq> Applied ids' \<and> t_events (snd (execute X f' c' d2)) = t_events d2"
proof -
  obtain es where es: "plan X f d (cmd_payload c) = Inr es"
    and ev: "t_events d1 = t_events d @ map (command_row_of X) es"
    using applied_events [OF assms(1,2)] by blast
  from es obtain sess where es': "es =
     [task_envelope X t sess (TaskInputQueued i Im_Steer txt) (fr_event1 f) (fr_now f) (length hist + 1),
      task_envelope X t sess (TaskSteered txt) (fr_event2 f) (fr_now f) (length hist + 2)]"
    using assms(4,5) by (auto simp: assms(3) plan_queue_task_input_def and_then_Inr_iff task_current_ok)
  have inv1: "store_inv d1" using execute_inv(1) [OF assms(1), of X f c] assms(2) by simp
  have h1: "load_task_events X d1 t = Inr (hist @ [TaskInputQueued i Im_Steer txt, TaskSteered txt])"
    using load_task_events_append [OF assms(1) inv1 assms(4) ev] es' assms(7) by simp
  have "fold_task h2 \<noteq> Some (Inr s)" if "load_task_events X d2 t = Inr h2" for h2 s
  proof -
    from that have "load_task_events X (foldl (store_step X) d1 ops) t = Inr h2" by (simp only: assms(8))
    from load_task_events_run [OF inv1 h1 this]
      fold_task_error_prefix [OF steered_queued_folds_to_error [OF assms(5)]]
    show ?thesis by simp
  qed
  then obtain why where "plan X f' d2 (cmd_payload c') = Inl why"
    using lifecycle_needs_foldable_history [OF assms(9,10,6)] by blast
  then show ?thesis using execute_not_applied by blast
qed

lemma steering_queued_task_blocks_it_witness:
  "\<exists>ids d1. execute ext0 (fresh0 ''x'' ''e9'') (cmd0 ''c9'' (QueueTaskInput ''t'' ''i'' Im_Steer ''go'')) db_queued
       = (Applied ids, d1)
     \<and> fst (execute ext0 (fresh0 ''x'' ''f9'') (cmd0 ''f9'' (StartTask ''t'')) d1) \<noteq> Applied [''f9'']"
proof -
  have "fst (execute ext0 (fresh0 ''x'' ''e9'') (cmd0 ''c9'' (QueueTaskInput ''t'' ''i'' Im_Steer ''go'')) db_queued)
      = Applied [''e9'', ''e9b'']"
    by code_simp
  then obtain d1 where ex: "execute ext0 (fresh0 ''x'' ''e9'')
      (cmd0 ''c9'' (QueueTaskInput ''t'' ''i'' Im_Steer ''go'')) db_queued = (Applied [''e9'', ''e9b''], d1)"
    by (metis prod.collapse)
  from steering_queued_task_blocks_it [OF db_inv(2) ex, of "''t''" "''i''" "''go''" _ d1 "[]"
      "cmd0 ''f9'' (StartTask ''t'')" TaskStarted, OF _ db_queued_tables(1)]
  show ?thesis using ex by (auto simp: cmd0_def fold_task_def)
qed

section \<open>Rejected commands that leave events\<close>

text \<open>A rejected command can leave its event committed: creating a task in a session that has events but no
  row in the sessions projection (a forked session) is rejected by the foreign key of the tasks table,
  and yet the creation event stays in the events table.\<close>

lemma rejected_create_task_leaves_event:
  assumes "store_inv d" and "find (\<lambda>r. cl_command_id r = cmd_id c) (t_command_log d) = None"
    and "cmd_payload c = CreateTask s title prompt repo branch parent" and "aggregate_exists d s"
    and "s \<notin> se_session_id ` set (t_sessions d)" and "fr_aggregate f \<notin> tk_task_id ` set (t_tasks d)"
    and "stream d (fr_aggregate f) = []" and "fr_event1 f \<notin> row_event_id ` set (t_events d)"
  shows "fst (execute X f c d) = Rejected (x_show_sql X (ForeignKeyViolation ''tasks''))
         \<and> map row_event_id (t_events (snd (execute X f c d))) = map row_event_id (t_events d) @ [fr_event1 f]"
proof -
  let ?e = "task_envelope X (fr_aggregate f) s (TaskCreated s title prompt repo branch parent)
              (fr_event1 f) (fr_now f) 1"
  have pl: "plan X f d (cmd_payload c) = Inr [?e]"
    using assms(3,4) by (simp add: plan_create_task_def)
  have pr: "project ?e (d\<lparr>t_events := t_events d @ [command_row_of X ?e]\<rparr>) = Inl (ForeignKeyViolation ''tasks'')"
    using assms(5,6) by (simp add: project_def project_task_def insert_task_row_def)
  note ex = execute_single [OF assms(1,2) pl]
  have "ev_sequence ?e = Suc (length (stream d (ev_aggregate_id ?e)))"
    and "ev_event_id ?e \<notin> row_event_id ` set (t_events d)"
    using assms(7,8) by simp_all
  with ex pr show ?thesis by simp
qed

definition db_forked :: "domain_event db" where
  "db_forked = run0 [(''c1'', ''s'', ''e1'', CreateSession ''n''), (''c2'', ''f'', ''e2'', ForkSession ''s'' 1 [] [])]"

lemma rejected_create_task_leaves_event_witness:
  "fst (execute ext0 (fresh0 ''t'' ''e3'') (cmd0 ''c3'' (CreateTask ''f'' ''a'' ''b'' None None None)) db_forked)
     = Rejected (x_show_sql ext0 (ForeignKeyViolation ''tasks''))
   \<and> map row_event_id (t_events (snd (execute ext0 (fresh0 ''t'' ''e3'')
        (cmd0 ''c3'' (CreateTask ''f'' ''a'' ''b'' None None None)) db_forked)))
     = map row_event_id (t_events db_forked) @ [fr_event1 (fresh0 ''t'' ''e3'')]"
proof -
  have facts: "map cl_command_id (t_command_log db_forked) = [''c1'', ''c2'']"
    "map row_event_id (t_events db_forked) = [''e1'', ''e2'']" "aggregate_exists db_forked ''f''"
    "stream db_forked ''t'' = []" "map se_session_id (t_sessions db_forked) = [''s'']" "t_tasks db_forked = []"
    by code_simp+
  have inv: "store_inv db_forked" by (simp add: db_forked_def)
  show ?thesis
    by (rule rejected_create_task_leaves_event [where s = "''f''"])
       (simp_all add: facts not_logged inv cmd0_def fresh0_def flip: set_map)
qed

section \<open>Rewind\<close>

text \<open>Every stored payload was written by the event serialiser.\<close>

definition payloads_written :: "'p ext \<Rightarrow> 'p db \<Rightarrow> bool" where
  "payloads_written X d = (store_inv d \<and> (\<forall>r \<in> set (t_events d). row_payload r \<in> range (x_ser_event X)))"

lemma insert_planned_payloads:
  "\<forall>r \<in> set (t_events d). row_payload r \<in> range (x_ser_event X) \<Longrightarrow>
   \<forall>r \<in> set (t_events (snd (insert_planned X es ids d))). row_payload r \<in> range (x_ser_event X)"
proof (induction es arbitrary: ids d)
  case Nil
  then show ?case by simp
next
  case (Cons e es)
  show ?case
  proof (cases "insert_event_row (command_row_of X e) d")
    case (Inl err)
    with Cons.prems show ?thesis by simp
  next
    case (Inr d1)
    have d1: "\<forall>r \<in> set (t_events d1). row_payload r \<in> range (x_ser_event X)"
      using insert_event_row_Inr [OF Inr] Cons.prems by auto
    then have "\<forall>r \<in> set (t_events d2). row_payload r \<in> range (x_ser_event X)" if "project e d1 = Inr d2" for d2
      using project_frame(1) [OF that] by simp
    with Inr d1 Cons show ?thesis by (auto split: sum.splits)
  qed
qed

lemma payloads_written_execute:
  assumes "payloads_written X d"
  shows "payloads_written X (snd (execute X f c d))"
proof -
  have "\<forall>r \<in> set (t_events d'). row_payload r \<in> range (x_ser_event X)"
    if "plan_and_append X f c d = (res, d')" for res d'
    using that assms insert_planned_payloads [of d X _ "[]"]
    by (auto simp: plan_and_append_def payloads_written_def split: sum.splits) (metis snd_conv)
  then show ?thesis
    using assms execute_inv(1) [of d X f c]
    by (cases rule: execute_cases [of c d X f]) (auto simp: payloads_written_def)
qed

lemma payloads_written_step [invs]: "payloads_written X d \<Longrightarrow> payloads_written X (store_step X d x)"
proof -
  assume pw: "payloads_written X d"
  then have inv: "store_inv d" and g: "gapless d" by (simp_all add: payloads_written_def store_inv_def)
  have app: "payloads_written X d'" if "append X es d = Inr d'" for es d'
    using pw append_store_inv [OF that inv] append_events [OF that g] by (auto simp: payloads_written_def)
  have same: "payloads_written X d'" if "t_events d' = t_events d" for d'
    using pw store_inv_cong [OF that] that by (simp add: payloads_written_def)
  show ?thesis
    using pw app same
    by (cases x) (auto simp: lease_acquire_frame rebuild_frame split: sum.splits
        dest: append_with_lease_eq_append intro: payloads_written_execute)
qed

interpretation written: machine "store_step X" "payloads_written X" for X :: "'p ext"
  by unfold_locales (rule payloads_written_step)

lemma load_session_envelopes_fails:
  assumes "payloads_written X d" and "\<And>e. x_de_envelope X (x_ser_event X e) = None"
  shows "load_session_envelopes X d s = Inr [] \<or> (\<exists>r. load_session_envelopes X d s = Inl r)"
proof (cases "sort_key row_sequence (stream d s)")
  case Nil
  then show ?thesis by (simp add: load_session_envelopes_def)
next
  case (Cons r rs)
  then have "r \<in> set (stream d s)" by (metis list.set_intros(1) set_sort)
  then have "row_payload r \<in> range (x_ser_event X)"
    using assms(1) by (simp add: payloads_written_def stream_def)
  with assms(2) have "x_de_envelope X (row_payload r) = None" by auto
  with Cons show ?thesis by (simp add: load_session_envelopes_def)
qed

text \<open>A session can never be rewound. The stream is decoded as envelopes although the payload column holds
  domain events; a decoder that needs the envelope's required fields finds no \<open>integrity_hash\<close> in any
  of them. So from an empty store, after any operations, \<open>RewindSession\<close> is never applied.\<close>

lemma rewind_is_never_applied:
  assumes "\<forall>j env. x_de_envelope X j = Some env \<longrightarrow> set envelope_required_keys \<subseteq> json_keys j"
    and "\<forall>e. json_keys (x_ser_event X e) = set (event_json_keys e)"
    and "d = foldl (store_step X) empty_db ops" and "cmd_payload c = RewindSession s n h"
  shows "fst (execute X f c d) \<noteq> Applied ids \<and> t_events (snd (execute X f c d)) = t_events d"
proof -
  have "payloads_written X empty_db" by (simp add: payloads_written_def empty_db_def [of] store_inv_def
        gapless_def event_ids_distinct_def stream_def)
  then have "payloads_written X d" unfolding assms(3) by (rule written.run_inv)
  moreover have "x_de_envelope X (x_ser_event X e) = None" for e
  proof (cases "x_de_envelope X (x_ser_event X e)")
    case (Some env)
    with assms(1,2) have "set envelope_required_keys \<subseteq> set (event_json_keys e)" by metis
    then have "''integrity_hash'' \<in> set (event_json_keys e)" by (simp add: envelope_required_keys_def)
    with payload_is_no_envelope show ?thesis by simp
  qed
  ultimately have "\<exists>r. plan X f d (cmd_payload c) = Inl r"
    using load_session_envelopes_fails [of X d s] by (auto simp: assms(4) plan_rewind_session_def)
  then show ?thesis using execute_not_applied by blast
qed

text \<open>A codec that can represent both kinds of JSON objects, events and envelopes.\<close>

definition ext1 :: "(domain_event + event_envelope) ext" where
  "ext1 = \<lparr>x_ser_event = Inl, x_de_event = case_sum Some (\<lambda>_. None), x_de_envelope = case_sum (\<lambda>_. None) Some,
     x_parse_uuid = Some, x_hash_env = (\<lambda>e. show_nat (ev_sequence e) @ ev_event_type e),
     x_show_sql = (\<lambda>_. ''sql''), x_serde_error = (\<lambda>_. ''missing field''), x_uuid_error = (\<lambda>_. ''uuid''),
     x_parse_int_error = (\<lambda>_. ''int'')\<rparr>"

definition json_keys1 :: "domain_event + event_envelope \<Rightarrow> string set" where
  "json_keys1 j = (case j of Inl e \<Rightarrow> set (event_json_keys e) | Inr _ \<Rightarrow> set envelope_required_keys)"

lemma rewind_is_never_applied_witness:
  "fst (execute ext1 (fresh0 ''x'' ''e2'') (cmd0 ''c2'' (RewindSession ''s'' 1 ''h''))
     (foldl (store_step ext1) empty_db [Op_Execute (fresh0 ''s'' ''e1'') (cmd0 ''c1'' (CreateSession ''n''))])) \<noteq> Applied []"
  by (rule rewind_is_never_applied [where json_keys = json_keys1, OF _ _ refl, THEN conjunct1])
     (auto simp: ext1_def json_keys1_def cmd0_def split: sum.splits)

end
