(* ===== verification/Projection_Properties.thy ===== *)
theory Projection_Properties
  imports Command_Properties
begin

text \<open>
  The read models of \<^verbatim>\<open>projections.rs\<close> against the event stream: rebuilding them from the committed events,
  and the simulation between the state column of a task row and the fold of the task's history.
\<close>

section \<open>Rebuild\<close>

definition cleared :: "'p db \<Rightarrow> 'p db" where
  "cleared d = d\<lparr>t_sessions := [], t_tasks := [], t_task_inputs := []\<rparr>"

text \<open>The projection tables are what replaying the events from empty tables gives.\<close>

definition projected :: "'p ext \<Rightarrow> 'p db \<Rightarrow> bool" where
  "projected X d = (store_inv d \<and> rows_sound X d
     \<and> rebuild_loop X (t_events d) 0 (cleared d) = (Inr (length (t_events d)), d)
     \<and> (\<forall>i \<in> set (t_task_inputs d). in_task_id i \<in> tk_task_id ` set (t_tasks d)))"

lemma update_task_events:
  "update_task t f (d\<lparr>t_events := x\<rparr>) = (update_task t f d)\<lparr>t_events := x\<rparr>"
  by (simp add: update_task_def)

lemma project_ignores_events:
  "project e (d\<lparr>t_events := x\<rparr>) = map_sum id (\<lambda>d. d\<lparr>t_events := x\<rparr>) (project e d)"
  by (auto simp: project_defs update_task_events split: aggregate_type.splits domain_event.splits)

lemma rebuild_loop_ignores_events:
  "rebuild_loop X rs n (d\<lparr>t_events := x\<rparr>) = map_prod id (\<lambda>d. d\<lparr>t_events := x\<rparr>) (rebuild_loop X rs n d)"
proof (induction rs arbitrary: n d)
  case Nil
  show ?case by simp
next
  case (Cons r rs)
  then show ?case by (auto simp: project_ignores_events split: sum.splits)
qed

lemma rebuild_loop_append:
  "rebuild_loop X (rs @ qs) n d =
     (case rebuild_loop X rs n d of (Inl e, d') \<Rightarrow> (Inl e, d') | (Inr m, d') \<Rightarrow> rebuild_loop X qs m d')"
  by (induction rs arbitrary: n d) (auto split: sum.splits)

lemma cleared_after_project:
  assumes "project e d = Inr d'"
  shows "cleared d' = (cleared d)"
  using project_frame [OF assms] by (cases d; cases d') (simp add: cleared_def)

lemma update_task_ids [simp]:
  assumes "\<And>r. tk_task_id (f r) = tk_task_id r"
  shows "tk_task_id ` set (t_tasks (update_task t f d)) = tk_task_id ` set (t_tasks d)"
proof -
  have "map tk_task_id (t_tasks (update_task t f d)) = map tk_task_id (t_tasks d)"
    using assms by (simp add: update_task_def)
  then have "set (map tk_task_id (t_tasks (update_task t f d))) = set (map tk_task_id (t_tasks d))"
    by (rule arg_cong)
  then show ?thesis by simp
qed

lemma project_inputs_reference_tasks:
  assumes "project e d = Inr d'" and "\<forall>i \<in> set (t_task_inputs d). in_task_id i \<in> tk_task_id ` set (t_tasks d)"
  shows "\<forall>i \<in> set (t_task_inputs d'). in_task_id i \<in> tk_task_id ` set (t_tasks d')"
proof -
  have "tk_task_id ` set (t_tasks d) \<subseteq> tk_task_id ` set (t_tasks d')"
    using assms(1) by (auto simp: project_defs split: aggregate_type.splits domain_event.splits if_splits)
  moreover have "set (t_task_inputs d') \<subseteq> set (t_task_inputs d)
      \<union> {i. in_task_id i \<in> tk_task_id ` set (t_tasks d)}"
    using assms(1) by (auto simp: project_defs split: aggregate_type.splits domain_event.splits if_splits)
  ultimately show ?thesis using assms(2) by blast
qed

lemma projected_append_loop:
  assumes "append_loop X seqs es d = Inr d'" and "projected X d" and "seqs_agree seqs d"
    and "\<forall>e \<in> set es. wf_envelope X e"
  shows "projected X d'"
  using assms
proof (induction es arbitrary: seqs d)
  case Nil
  then show ?case by simp
next
  case (Cons e es)
  have inv: "store_inv d" and rs: "rows_sound X d" and wf: "wf_envelope X e"
    and fk: "\<forall>i \<in> set (t_task_inputs d). in_task_id i \<in> tk_task_id ` set (t_tasks d)"
    and loop: "rebuild_loop X (t_events d) 0 (cleared d) = (Inr (length (t_events d)), d)"
    using Cons.prems by (simp_all add: projected_def)
  then have g: "gapless d" by (simp add: store_inv_def)
  obtain d1 d2 where ins: "insert_event X e d = Inr d1" and pr: "project e d1 = Inr d2"
    and rest: "append_loop X (seqs(ev_aggregate_id e \<mapsto> ev_sequence e + 1)) es d2 = Inr d'"
    and g2: "gapless d2" and s2: "seqs_agree (seqs(ev_aggregate_id e \<mapsto> ev_sequence e + 1)) d2"
    and ev: "t_events d2 = t_events d @ [row_of X e]"
    using append_step [OF Cons.prems(1) g Cons.prems(3)] by metis
  have d1: "d1 = d\<lparr>t_events := t_events d @ [row_of X e]\<rparr>"
    using insert_event_row_Inr [OF insert_event_Inr(1) [OF ins]] by simp
  have "event_ids_distinct d2"
    using distinct_insert [OF _ insert_event_Inr(1) [OF ins]] inv
      event_ids_distinct_cong [OF project_frame(1) [OF pr]] by (simp add: store_inv_def)
  moreover have "rows_sound X d2" using rows_sound_append [OF rs, of d2 "[e]"] ev wf by simp
  moreover have "cleared d2 = (cleared d)\<lparr>t_events := t_events d2\<rparr>"
    using cleared_after_project [OF pr] ev by (simp add: d1 cleared_def)
  then have "rebuild_loop X (t_events d) 0 (cleared d2) = (Inr (length (t_events d)), d1)"
    using loop ev by (simp add: rebuild_loop_ignores_events d1)
  then have "rebuild_loop X (t_events d2) 0 (cleared d2) = (Inr (length (t_events d2)), d2)"
    using pr reconstruct_row_of [OF wf] ev by (simp add: rebuild_loop_append)
  moreover have "\<forall>i \<in> set (t_task_inputs d2). in_task_id i \<in> tk_task_id ` set (t_tasks d2)"
    using project_inputs_reference_tasks [OF pr] fk by (simp add: d1)
  ultimately have "projected X d2" using g2 by (simp add: projected_def store_inv_def)
  with Cons.IH [OF rest _ s2] Cons.prems(4) show ?case by simp
qed

text \<open>A sequence of committed batches.\<close>

fun append_all :: "'p ext \<Rightarrow> event_envelope list list \<Rightarrow> 'p db \<Rightarrow> (store_error, 'p db) result" where
  "append_all X [] d = Inr d"
| "append_all X (b # bs) d = and_then (append X b d) (append_all X bs)"

lemma projected_append_all:
  assumes "append_all X bs d = Inr d'" and "projected X d" and "\<forall>b \<in> set bs. \<forall>e \<in> set b. wf_envelope X e"
  shows "projected X d'"
  using assms
proof (induction bs arbitrary: d)
  case Nil
  then show ?case by simp
next
  case (Cons b bs)
  then obtain d1 where ap: "append X b d = Inr d1" and rest: "append_all X bs d1 = Inr d'"
    by (auto simp: and_then_Inr_iff)
  from ap Cons.prems have "projected X d1"
    by (auto simp: append_def split: if_splits intro: projected_append_loop [OF _ _ seqs_agree_empty])
  with rest Cons show ?case by simp
qed

text \<open>Projections are derived state: for a store built by committed appends, rebuilding replays every
  event and ends in exactly the same tables, unless an input was ever queued for a task; then the
  rebuild is refused by the foreign key of \<open>task_inputs\<close>, which it does not clear, and nothing changes.\<close>

lemma rebuild_restores_projections:
  assumes "append_all X bs empty_db = Inr d" and "\<forall>b \<in> set bs. \<forall>e \<in> set b. wf_envelope X e"
  shows "rebuild X d = (if t_task_inputs d = [] then (Inr (length (t_events d)), d)
                        else (Inl (Sqlite (ForeignKeyViolation ''tasks'')), d))"
proof -
  have "projected X empty_db"
    by (simp add: projected_def rows_sound_def cleared_def) (simp add: empty_db_def)
  from projected_append_all [OF assms(1) this assms(2)] have p: "projected X d" .
  show ?thesis
  proof (cases "t_task_inputs d")
    case Nil
    then have "cleared d = d\<lparr>t_tasks := [], t_sessions := []\<rparr>" by (simp add: cleared_def)
    moreover have "rebuild_loop X (t_events d) 0 (cleared d) = (Inr (length (t_events d)), d)"
      using p by (simp add: projected_def)
    ultimately show ?thesis
      using Nil by (simp add: rebuild_def delete_all_tasks_def delete_all_sessions_def)
  next
    case (Cons i rest)
    with p have "\<exists>i \<in> set (t_task_inputs d). in_task_id i \<in> tk_task_id ` set (t_tasks d)"
      by (simp add: projected_def)
    with Cons show ?thesis by (simp only: rebuild_def delete_all_tasks_def if_True) simp
  qed
qed

lemma rebuild_restores_projections_witness:
  "\<exists>d. append_all ext0 [[env0]] empty_db = Inr d \<and> t_sessions d \<noteq> [] \<and> rebuild ext0 d = (Inr 1, d)"
proof -
  have "is_ok (append_all ext0 [[env0]] empty_db)" by code_simp
  then obtain d where d: "append_all ext0 [[env0]] empty_db = Inr d" by (auto simp: is_ok_iff)
  have t: "map_sum id (\<lambda>d. (t_task_inputs d, length (t_events d), length (t_sessions d))) (append_all ext0 [[env0]] empty_db)
      = Inr ([], 1, 1)"
    by code_simp
  have "rebuild ext0 d = (if t_task_inputs d = [] then (Inr (length (t_events d)), d)
      else (Inl (Sqlite (ForeignKeyViolation ''tasks'')), d))"
    by (intro rebuild_restores_projections [OF d]) (simp add: wf_env0)
  with t d show ?thesis by auto
qed

section \<open>Task rows simulate the task machine\<close>

fun task_state_text :: "task_state \<Rightarrow> string" where
  "task_state_text Created = ''created''"
| "task_state_text Queued = ''queued''"
| "task_state_text Running = ''running''"
| "task_state_text (Waiting r) = waiting_state_text r"
| "task_state_text ReadyForReview = ''ready_for_review''"
| "task_state_text Completed = ''completed''"
| "task_state_text Failed = ''failed''"
| "task_state_text Cancelled = ''cancelled''"

definition row_matches :: "'p ext \<Rightarrow> 'p db \<Rightarrow> task_row \<Rightarrow> bool" where
  "row_matches X d r = (\<forall>hist s. load_task_events X d (tk_task_id r) = Inr hist \<longrightarrow>
     fold_task hist = Some (Inr s) \<longrightarrow> tk_state r = task_state_text s)"

definition rows_simulate :: "'p ext \<Rightarrow> 'p db \<Rightarrow> bool" where
  "rows_simulate X d = (store_inv d
     \<and> (\<forall>r \<in> set (t_tasks d). stream d (tk_task_id r) \<noteq> [] \<and> row_matches X d r))"

text \<open>An envelope whose payload is a task event belongs to a task aggregate.\<close>

definition task_typed :: "event_envelope \<Rightarrow> bool" where
  "task_typed e = (ev_aggregate_type e = Agg_Task \<or>
     (\<forall>r s. fold_task_step r (ev_payload e) \<noteq> Some (Inr s)))"

text \<open>What the projection of an event does to a row of its task.\<close>

fun row_state_after :: "domain_event \<Rightarrow> string \<Rightarrow> string" where
  "row_state_after TaskQueued st = ''queued''"
| "row_state_after TaskStarted st = ''running''"
| "row_state_after (TaskWaiting r) st = waiting_state_text r"
| "row_state_after TaskReadyForReview st = ''ready_for_review''"
| "row_state_after (TaskCompleted _) st = ''completed''"
| "row_state_after (TaskFailed _ _) st = ''failed''"
| "row_state_after (TaskCancelled _) st = ''cancelled''"
| "row_state_after _ st = st"

lemma apply_row_state:
  "apply_task_event s p = Inr s' \<Longrightarrow> row_state_after p (task_state_text s) = task_state_text s'"
  by (cases p) (auto simp: reject_def split: task_state.splits)

lemma update_task_rows:
  assumes "r' \<in> set (t_tasks (update_task t f d))"
  obtains r where "r \<in> set (t_tasks d)" and "r' = (if tk_task_id r = t then f r else r)"
  using assms by (auto simp: update_task_def)

lemma update_task_absent:
  "t \<notin> tk_task_id ` set (t_tasks d) \<Longrightarrow> update_task t f d = d"
  unfolding update_task_def by (cases d) (auto intro!: map_idI)

lemma project_started_eq:
  "project_started e d = update_task (ev_aggregate_id e)
     (\<lambda>r. r\<lparr>tk_state := ''running'',
          tk_started_at := (case tk_started_at r of None \<Rightarrow> Some (ev_occurred_at e) | Some t \<Rightarrow> Some t),
          tk_generation := ev_sequence e\<rparr>) d"
  by (simp add: project_started_def project_state_def Let_def update_task_absent)

lemmas project_task_defs = project_def project_task_def project_state_def project_state_with_completion_def
  project_started_eq insert_task_row_def insert_task_input_row_def

lemma project_rows:
  assumes "project e d = Inr d'" and "ev_aggregate_type e = Agg_Task" and "r' \<in> set (t_tasks d')"
  shows "(\<exists>r \<in> set (t_tasks d). tk_task_id r' = tk_task_id r \<and>
            tk_state r' = (if tk_task_id r = ev_aggregate_id e then row_state_after (ev_payload e) (tk_state r)
                           else tk_state r))
         \<or> (tk_task_id r' = ev_aggregate_id e \<and> tk_state r' = ''created''
            \<and> (\<exists>a b c d f g. ev_payload e = TaskCreated a b c d f g))"
  using assms
  by (cases "ev_payload e")
     (simp_all add: project_task_defs split: if_splits, (fastforce elim!: update_task_rows)+)

lemma project_fails_silently:
  assumes "project e d = Inl err"
  shows "row_state_after (ev_payload e) st = st"
  using assms by (cases "ev_payload e") (auto simp: project_defs split: aggregate_type.splits)

lemma project_other_tasks:
  assumes "project e d = Inr d'" and "ev_aggregate_type e \<noteq> Agg_Task"
  shows "t_tasks d' = t_tasks d"
  using assms by (auto simp: project_defs split: aggregate_type.splits domain_event.splits if_splits)

lemma load_task_events_snoc:
  assumes "store_inv d" and "store_inv d'" and "t_events d' = t_events d @ [command_row_of X e]"
    and "load_task_events X d' t = Inr hist'" and "x_de_event X (x_ser_event X (ev_payload e)) = Some (ev_payload e)"
  obtains hist where "load_task_events X d t = Inr hist"
    and "hist' = (if ev_aggregate_id e = t then hist @ [ev_payload e] else hist)"
    and "hist = [] \<longleftrightarrow> stream d t = []"
proof -
  have st: "stream d' t = stream d t @ (if ev_aggregate_id e = t then [command_row_of X e] else [])"
    by (simp add: stream_def assms(3))
  obtain hist where h: "load_task_events X d t = Inr hist"
    and h': "hist' = (if ev_aggregate_id e = t then hist @ [ev_payload e] else hist)"
    using assms(4,5) st
    by (auto simp: load_task_events_gapless [OF assms(1)] load_task_events_gapless [OF assms(2)]
        collect_results_append and_then_Inr_iff split: if_splits)
  with load_task_events_length [OF h] that show ?thesis by fastforce
qed

text \<open>One inserted event, its projection done or failed.\<close>

lemma rows_simulate_insert:
  assumes "rows_simulate X d" and "store_inv d2" and "task_typed e"
    and "x_de_event X (x_ser_event X (ev_payload e)) = Some (ev_payload e)"
    and "t_events d2 = t_events d @ [command_row_of X e]"
    and "project e d1 = Inr d2 \<or> (d2 = d1 \<and> (\<exists>err. project e d1 = Inl err))" and "t_tasks d1 = t_tasks d"
  shows "rows_simulate X d2"
proof -
  have inv: "store_inv d" using assms(1) by (simp add: rows_simulate_def)
  have "stream d2 (tk_task_id r') \<noteq> [] \<and> row_matches X d2 r'" if r': "r' \<in> set (t_tasks d2)" for r'
  proof -
    have st2: "stream d2 t = stream d t @ (if ev_aggregate_id e = t then [command_row_of X e] else [])" for t
      by (simp add: stream_def assms(5))
    consider (old) r where "r \<in> set (t_tasks d)" "tk_task_id r' = tk_task_id r"
        "ev_aggregate_type e = Agg_Task \<Longrightarrow>
         tk_state r' = (if tk_task_id r = ev_aggregate_id e then row_state_after (ev_payload e) (tk_state r)
                        else tk_state r)"
        "ev_aggregate_type e \<noteq> Agg_Task \<Longrightarrow> tk_state r' = tk_state r"
      | (new) a b c d f g where "tk_task_id r' = ev_aggregate_id e" "tk_state r' = ''created''"
        "ev_payload e = TaskCreated a b c d f g"
      using assms(6)
    proof
      assume pr: "project e d1 = Inr d2"
      show ?thesis
      proof (cases "ev_aggregate_type e = Agg_Task")
        case True
        from project_rows [OF pr True r'] old new True assms(7) show ?thesis by auto
      next
        case False
        with project_other_tasks [OF pr False] r' old assms(7) show ?thesis by simp
      qed
    next
      assume "d2 = d1 \<and> (\<exists>err. project e d1 = Inl err)"
      with r' old project_fails_silently assms(7) show ?thesis by fastforce
    qed
    then show ?thesis
    proof cases
      case old
      then have ne: "stream d (tk_task_id r) \<noteq> []" and m: "row_matches X d r"
        using assms(1) by (auto simp: rows_simulate_def)
      have "tk_state r' = task_state_text s'"
        if h2: "load_task_events X d2 (tk_task_id r') = Inr hist'" and f2: "fold_task hist' = Some (Inr s')" for hist' s'
      proof -
        obtain hist where h: "load_task_events X d (tk_task_id r) = Inr hist" "hist \<noteq> []"
          and hist': "hist' = (if ev_aggregate_id e = tk_task_id r then hist @ [ev_payload e] else hist)"
          using load_task_events_snoc [OF inv assms(2,5) h2 assms(4)] ne old(2) by metis
        show ?thesis
        proof (cases "ev_aggregate_id e = tk_task_id r")
          case False
          with m h hist' f2 old show ?thesis by (fastforce simp: row_matches_def)
        next
          case True
          with f2 hist' have fs: "fold_task_step (fold_task hist) (ev_payload e) = Some (Inr s')" by simp
          with assms(3) have ty: "ev_aggregate_type e = Agg_Task" by (auto simp: task_typed_def)
          from h(2) have "fold_task hist \<noteq> None"
            by (metis append_butlast_last_id fold_task_snoc fold_task_step_Some)
          with fs obtain s where "fold_task hist = Some (Inr s)" "apply_task_event s (ev_payload e) = Inr s'"
            by (cases "fold_task hist"; cases "the (fold_task hist)") auto
          with m h True old ty apply_row_state show ?thesis by (auto simp: row_matches_def)
        qed
      qed
      with ne old(2) st2 show ?thesis by (simp add: row_matches_def)
    next
      case new
      have "tk_state r' = task_state_text s'"
        if h2: "load_task_events X d2 (tk_task_id r') = Inr hist'" and f2: "fold_task hist' = Some (Inr s')" for hist' s'
      proof -
        obtain hist where "hist' = hist @ [ev_payload e]"
          using load_task_events_snoc [OF inv assms(2,5) h2 assms(4)] new(1) by metis
        with f2 new(3) have fs: "fold_task_step (fold_task hist) (TaskCreated a b c d f g) = Some (Inr s')" by simp
        then have "s' = Created"
          by (cases "(fold_task hist, TaskCreated a b c d f g)" rule: fold_task_step.cases)
             (auto simp: reject_def split: task_state.splits)
        with new show ?thesis by simp
      qed
      with new st2 show ?thesis by (auto simp: row_matches_def)
    qed
  qed
  with assms(2) show ?thesis by (simp add: rows_simulate_def)
qed

lemma rows_simulate_insert_planned:
  assumes "check_continuity d exp es = Inr ()" and "seqs_agree exp d" and "rows_simulate X d"
    and "\<forall>e \<in> set es. task_typed e" and "\<forall>ev. x_de_event X (x_ser_event X ev) = Some ev"
  shows "rows_simulate X (snd (insert_planned X es ids d))"
  using assms
proof (induction es arbitrary: exp ids d)
  case Nil
  then show ?case by simp
next
  case (Cons e es)
  have inv: "gapless d" "event_ids_distinct d" using Cons.prems(3) by (simp_all add: rows_simulate_def store_inv_def)
  show ?case
  proof (cases "verify_integrity (x_hash_env X) e \<and> is_ok (insert_event_row (command_row_of X e) d)")
    case False
    with Cons.prems(3) show ?thesis by (auto split: sum.splits)
  next
    case True
    then obtain d1 where ins: "insert_event_row (command_row_of X e) d = Inr d1" by (auto simp: is_ok_iff)
    have tasks: "t_tasks d1 = t_tasks d" using insert_event_row_Inr [OF ins] by simp
    have sim: "rows_simulate X d2"
      if "project e d1 = Inr d2 \<or> (d2 = d1 \<and> (\<exists>err. project e d1 = Inl err))" for d2
    proof -
      have ev: "t_events d2 = t_events d1" using that project_frame(1) by blast
      note st = insert_planned_step(1,2) [OF Cons.prems(1) inv(1) Cons.prems(2) ins ev]
      have "event_ids_distinct d2"
        using distinct_insert [OF inv(2) ins] event_ids_distinct_cong [OF ev] by simp
      with st(1) have "store_inv d2" by (simp add: store_inv_def)
      from rows_simulate_insert [OF Cons.prems(3) this _ _ st(2) that tasks] Cons.prems(4,5)
      show ?thesis by simp
    qed
    show ?thesis
    proof (cases "project e d1")
      case (Inl err)
      with True ins sim show ?thesis by simp
    next
      case (Inr d2)
      note st = insert_planned_step(3,4) [OF Cons.prems(1) inv(1) Cons.prems(2) ins project_frame(1) [OF Inr]]
      have "rows_simulate X (snd (insert_planned X es (ids @ [ev_event_id e]) d2))"
        using Cons.IH [OF st(2,1) sim] Inr Cons.prems(4,5) by simp
      with True ins Inr show ?thesis by simp
    qed
  qed
qed

lemma session_envelope_fields [simp]:
  "ev_payload (session_envelope X s p e now n) = p"
  "ev_aggregate_type (session_envelope X s p e now n) = Agg_Session"
  by (simp_all add: session_envelope_def sealed_at_def envelope_for_def)

lemma fold_task_step_non_task:
  "(\<And>s s'. apply_task_event s p \<noteq> Inr s') \<Longrightarrow> \<forall>a b c d f g. p \<noteq> TaskCreated a b c d f g \<Longrightarrow>
   fold_task_step r p \<noteq> Some (Inr s)"
  by (cases "(r, p)" rule: fold_task_step.cases) (auto split: domain_event.splits)

lemma task_typed_task_envelope [simp]: "task_typed (task_envelope X t s p e now n)"
  by (simp add: task_typed_def)

lemma task_typed_session_envelope [simp]:
  "task_typed (session_envelope X s (SessionCreated a) e now n)"
  "task_typed (session_envelope X s (SideQuestionAsked q w k) e now n)"
  "task_typed (session_envelope X s (SessionForked u k ds rs) e now n)"
  "task_typed (session_envelope X s (SessionRewound k m h) e now n)"
  by (simp_all add: task_typed_def reject_def fold_task_step_non_task)

lemma plan_lifecycle_typed: "plan_lifecycle X f d p = Inr es \<Longrightarrow> \<forall>e \<in> set es. task_typed e"
  by (auto simp: plan_lifecycle_def and_then_Inr_iff split: option.splits if_splits)

lemma plan_typed: "plan X f d p = Inr es \<Longrightarrow> \<forall>e \<in> set es. task_typed e"
  by (cases p)
     (auto simp: plan_create_session_def plan_create_task_def plan_queue_task_input_def plan_side_question_def
       plan_set_goal_def plan_fork_session_def plan_rewind_session_def and_then_Inr_iff Let_def
       split: if_splits dest: plan_lifecycle_typed)

lemma rows_simulate_cong:
  "t_events d = t_events d' \<Longrightarrow> t_tasks d = t_tasks d' \<Longrightarrow> rows_simulate X d \<longleftrightarrow> rows_simulate X d'"
  using store_inv_cong [of d d'] stream_cong [of d d']
  by (simp add: rows_simulate_def row_matches_def load_task_events_def)

lemma rows_simulate_execute [invs]:
  assumes "rows_simulate X d" and "\<forall>ev. x_de_event X (x_ser_event X ev) = Some ev"
  shows "rows_simulate X (snd (execute X f c d))"
proof -
  have "rows_simulate X (snd (plan_and_append X f c d))"
    using assms plan_typed [of X f d "cmd_payload c"]
      rows_simulate_insert_planned [OF _ seqs_agree_empty assms(1) _ assms(2)]
    by (auto simp: plan_and_append_def split: sum.splits)
  moreover have "t_events (snd (execute X f c d)) = t_events (snd (plan_and_append X f c d))
      \<and> t_tasks (snd (execute X f c d)) = t_tasks (snd (plan_and_append X f c d))"
    if "find (\<lambda>r. cl_command_id r = cmd_id c) (t_command_log d) = None"
    using that by (simp add: execute_def split: prod.splits sum.splits)
  ultimately show ?thesis
    using assms(1) rows_simulate_cong [of "snd (execute X f c d)" "snd (plan_and_append X f c d)"]
    by (cases "find (\<lambda>r. cl_command_id r = cmd_id c) (t_command_log d)") (simp_all add: execute_seen)
qed

text \<open>C9: the task list the surfaces read agrees with the event history: after any sequence of commands on an
  empty store, whenever the history of a task in the list folds to a state, the row shows that state.\<close>
theorem task_rows_show_folded_state:
  assumes "\<forall>ev. x_de_event X (x_ser_event X ev) = Some ev"
    and "d = foldl (\<lambda>d (f, c). snd (execute X f c d)) empty_db cs"
    and "r \<in> set (t_tasks d)" and "load_task_events X d (tk_task_id r) = Inr hist"
    and "fold_task hist = Some (Inr s)"
  shows "tk_state r = task_state_text s"
proof -
  have "rows_simulate X d0 \<Longrightarrow> rows_simulate X (foldl (\<lambda>d (f, c). snd (execute X f c d)) d0 cs)" for d0
    using assms(1) by (induction cs arbitrary: d0) (auto intro: rows_simulate_execute)
  moreover have "rows_simulate X empty_db"
    by (simp add: rows_simulate_def) (simp add: empty_db_def)
  ultimately have "rows_simulate X d" using assms(2) by blast
  with assms(3-5) show ?thesis by (simp add: rows_simulate_def row_matches_def)
qed

theorem task_rows_show_folded_state_witness:
  "\<exists>r \<in> set (t_tasks (foldl (\<lambda>d (f, c). snd (execute ext0 f c d)) empty_db
       [(fresh0 ''s'' ''e1'', cmd0 ''c1'' (CreateSession ''n'')),
        (fresh0 ''t'' ''e2'', cmd0 ''c2'' (CreateTask ''s'' ''a'' ''b'' None None None)),
        (fresh0 ''x'' ''e3'', cmd0 ''c3'' (QueueTask ''t''))])).
     tk_state r = task_state_text Queued"
proof -
  let ?cs = "[(fresh0 ''s'' ''e1'', cmd0 ''c1'' (CreateSession ''n'')),
        (fresh0 ''t'' ''e2'', cmd0 ''c2'' (CreateTask ''s'' ''a'' ''b'' None None None)),
        (fresh0 ''x'' ''e3'', cmd0 ''c3'' (QueueTask ''t''))]"
  have db: "foldl (\<lambda>d (f, c). snd (execute ext0 f c d)) empty_db ?cs = db_queued"
    by (simp add: db_queued_def run0_def)
  have "map tk_task_id (t_tasks db_queued) = [''t'']" by code_simp
  then obtain r where r: "r \<in> set (t_tasks db_queued)" "tk_task_id r = ''t''" by auto
  have "load_task_events ext0 db_queued (tk_task_id r) = Inr [TaskCreated ''s'' ''a'' ''b'' None None None, TaskQueued]"
    using db_queued_tables(1) r(2) by simp
  from task_rows_show_folded_state [OF _ db [symmetric] r(1) this, of Queued]
  have "tk_state r = task_state_text Queued" by (simp add: fold_task_def)
  with r(1) show ?thesis unfolding db by blast
qed

end
