(* ===== verification/Store_Registries.thy ===== *)
theory Store_Registries
  imports Event_Database "HOL-Library.Char_ord" "HOL-Library.List_Lexorder"
begin

text \<open>
  The three registries that live in the same database beside the event log: declared write scopes
  (\<^verbatim>\<open>write_scopes.rs\<close>), pending approvals (\<^verbatim>\<open>approvals.rs\<close>) and automations (\<^verbatim>\<open>automations.rs\<close>) of
  \<^verbatim>\<open>crates/event-store/src\<close>. A \<open>SELECT\<close> without \<open>ORDER BY\<close> returns rows in table order;
  text columns sort bytewise (the \<open>BINARY\<close> collation), which is the lexicographic order on strings.
\<close>

section \<open>Write scopes\<close>

record held_scope =
  hs_task_id :: string
  hs_path :: string

definition TERMINAL_STATES :: "string list" where
  "TERMINAL_STATES = [''completed'', ''failed'', ''cancelled'']"

definition active_states :: "string list" where
  "active_states = [''created'', ''queued'', ''running'', ''ready_for_review'']"

definition scope_covers :: "string \<Rightarrow> string \<Rightarrow> bool" where
  "scope_covers a b =
     (let a' = trim_end_matches CHR ''/'' a; b' = trim_end_matches CHR ''/'' b
      in a' = b' \<or> starts_with b' (a' @ ''/''))"

definition parse_scope :: "string \<Rightarrow> string list" where
  "parse_scope spec = filter (\<lambda>s. s \<noteq> []) (map str_trim (str_split (\<lambda>c. c = CHR '','') spec))"

datatype acquire_outcome = Acquired | Denied string string

definition delete_scopes :: "(scope_row \<Rightarrow> bool) \<Rightarrow> 'p db \<Rightarrow> 'p db" where
  "delete_scopes P d = d\<lparr>t_scopes := filter (\<lambda>s. \<not> P s) (t_scopes d)\<rparr>"

definition release_terminal :: "'p db \<Rightarrow> 'p db" where
  "release_terminal d =
     delete_scopes
       (\<lambda>s. ws_task_id s \<in> tk_task_id ` set (filter (\<lambda>t. tk_state t \<in> set TERMINAL_STATES) (t_tasks d))) d"

definition scope_release :: "string \<Rightarrow> 'p db \<Rightarrow> 'p db" where
  "scope_release tid d = delete_scopes (\<lambda>s. ws_task_id s = tid) d"

definition is_active_task :: "'p db \<Rightarrow> string \<Rightarrow> bool" where
  "is_active_task d tid = list_ex (\<lambda>t. tk_task_id t = tid \<and> tk_state t \<in> set active_states) (t_tasks d)"

definition held_scopes :: "'p db \<Rightarrow> string \<Rightarrow> held_scope list" where
  "held_scopes d repo =
     map (\<lambda>s. \<lparr>hs_task_id = ws_task_id s, hs_path = ws_path s\<rparr>)
       (filter (\<lambda>s. ws_repo_key s = repo \<and> is_active_task d (ws_task_id s)) (t_scopes d))"

text \<open>The nested loops over declared paths and held scopes: the first overlap.\<close>

definition overlaps :: "string \<Rightarrow> string \<Rightarrow> bool" where
  "overlaps p q = (scope_covers q p \<or> scope_covers p q)"

fun first_conflict :: "string list \<Rightarrow> held_scope list \<Rightarrow> (string \<times> string) option" where
  "first_conflict [] held = None"
| "first_conflict (p # ps) held =
     (case find (\<lambda>h. overlaps p (hs_path h)) held of
        Some h \<Rightarrow> Some (hs_task_id h, p)
      | None \<Rightarrow> first_conflict ps held)"

definition scope_acquire :: "string \<Rightarrow> string \<Rightarrow> string \<Rightarrow> 'p db \<Rightarrow> acquire_outcome \<times> 'p db" where
  "scope_acquire tid repo spec d =
     (let paths = parse_scope spec
      in if paths = [] then (Acquired, d)
         else let d1 = release_terminal d
              in (case first_conflict paths (held_scopes d1 repo) of
                    Some (holder, p) \<Rightarrow> (Denied holder p, d1)
                  | None \<Rightarrow>
                      (let d2 = delete_scopes (\<lambda>s. ws_task_id s = tid) d1
                       in (Acquired, d2\<lparr>t_scopes := t_scopes d2 @
                            map (\<lambda>p. \<lparr>ws_task_id = tid, ws_repo_key = repo, ws_path = p\<rparr>) paths\<rparr>))))"

section \<open>Approvals\<close>

record pending_approval =
  pa_approval_id :: string
  pa_task_id :: string
  pa_intent_hash :: string
  pa_tool :: string
  pa_scope :: string
  pa_state :: string
  pa_created_at :: string

text \<open>\<open>INSERT OR IGNORE\<close>; the two defaulted columns start empty.\<close>

definition approval_insert :: "pending_approval \<Rightarrow> 'p db \<Rightarrow> 'p db" where
  "approval_insert a d =
     (if pa_approval_id a \<in> ap_approval_id ` set (t_approvals d) then d
      else d\<lparr>t_approvals := t_approvals d @
        [\<lparr>ap_approval_id = pa_approval_id a, ap_task_id = pa_task_id a, ap_intent_hash = pa_intent_hash a,
          ap_tool = pa_tool a, ap_scope = pa_scope a, ap_state = pa_state a, ap_created_at = pa_created_at a,
          ap_resolved_at = [], ap_resolved_by = []\<rparr>]\<rparr>)"

definition resolvable :: "string \<Rightarrow> approval_row \<Rightarrow> bool" where
  "resolvable i r = (ap_approval_id r = i \<and> ap_state r = ''pending'')"

definition approval_resolve :: "string \<Rightarrow> string \<Rightarrow> string \<Rightarrow> string \<Rightarrow> 'p db \<Rightarrow> bool \<times> 'p db" where
  "approval_resolve i st resolved_by now d =
     (list_ex (resolvable i) (t_approvals d),
      d\<lparr>t_approvals := map (\<lambda>r. if resolvable i r
          then r\<lparr>ap_state := st, ap_resolved_at := now, ap_resolved_by := resolved_by\<rparr> else r) (t_approvals d)\<rparr>)"

text \<open>\<open>ORDER BY CASE state ..., created_at LIMIT 1\<close>: two stable sorts, the less significant key first.\<close>

definition decision_rank :: "string \<Rightarrow> nat" where
  "decision_rank st = (if st = ''approved'' then 0 else if st = ''pending'' then 1 else 2)"

definition decision_for :: "'p db \<Rightarrow> string \<Rightarrow> string \<Rightarrow> string option" where
  "decision_for d task intent =
     (case sort_key (\<lambda>r. decision_rank (ap_state r))
             (sort_key ap_created_at
               (filter (\<lambda>r. ap_task_id r = task \<and> ap_intent_hash r = intent) (t_approvals d))) of
        [] \<Rightarrow> None
      | r # _ \<Rightarrow> Some (ap_state r))"

definition pending_view :: "approval_row \<Rightarrow> pending_approval" where
  "pending_view r =
     \<lparr>pa_approval_id = ap_approval_id r, pa_task_id = ap_task_id r, pa_intent_hash = ap_intent_hash r,
      pa_tool = ap_tool r, pa_scope = ap_scope r, pa_state = ap_state r, pa_created_at = ap_created_at r\<rparr>"

definition list_pending :: "'p db \<Rightarrow> pending_approval list" where
  "list_pending d =
     map (\<lambda>r. (pending_view r)\<lparr>pa_state := ''pending''\<rparr>)
       (sort_key ap_created_at
         (sort_key ap_approval_id
           (filter (\<lambda>r. ap_state r = ''pending'') (t_approvals d))))"

definition pending_for_task :: "'p db \<Rightarrow> string \<Rightarrow> pending_approval list" where
  "pending_for_task d task =
     map pending_view
       (sort_key ap_created_at
         (filter (\<lambda>r. ap_task_id r = task \<and> ap_state r = ''pending'') (t_approvals d)))"

section \<open>Automations\<close>

record automation =
  at_automation_id :: string
  at_name :: string
  at_cron :: string
  at_event_pattern :: string
  at_objective :: string
  at_enabled :: bool
  at_last_fire_key :: string

definition trigger_of :: "automation \<Rightarrow> string" where
  "trigger_of a = (if at_event_pattern a = [] then ''cron'' else ''event'')"

text \<open>The generated suffix of a missing id is the argument \<open>fresh\<close>; \<open>show_sql\<close> renders library errors.\<close>

definition automation_create ::
  "(sql_error \<Rightarrow> string) \<Rightarrow> string \<Rightarrow> automation \<Rightarrow> 'p db \<Rightarrow> (string, automation) result \<times> 'p db" where
  "automation_create show_sql fresh a0 d =
     (let a = (if at_automation_id a0 = [] then a0\<lparr>at_automation_id := ''auto-'' @ fresh\<rparr> else a0)
      in if at_cron a = [] \<and> at_event_pattern a = []
         then (Inl ''automation needs a cron spec or an event pattern'', d)
         else if str_trim (at_objective a) = [] then (Inl ''automation needs an objective'', d)
         else if at_automation_id a \<in> au_automation_id ` set (t_automations d)
         then (Inl (''automations: '' @ show_sql (PrimaryKeyViolation ''automations'')), d)
         else (Inr a, d\<lparr>t_automations := t_automations d @
                [\<lparr>au_automation_id = at_automation_id a, au_name = at_name a, au_trigger = trigger_of a,
                  au_cron = at_cron a, au_event_pattern = at_event_pattern a, au_objective = at_objective a,
                  au_enabled = at_enabled a, au_last_fire_key = at_last_fire_key a\<rparr>]\<rparr>))"

definition automation_view :: "automation_row \<Rightarrow> automation" where
  "automation_view r =
     \<lparr>at_automation_id = au_automation_id r, at_name = au_name r, at_cron = au_cron r,
      at_event_pattern = au_event_pattern r, at_objective = au_objective r, at_enabled = au_enabled r,
      at_last_fire_key = au_last_fire_key r\<rparr>"

definition automation_list :: "'p db \<Rightarrow> automation list" where
  "automation_list d = map automation_view (t_automations d)"

definition update_automation :: "string \<Rightarrow> (automation_row \<Rightarrow> automation_row) \<Rightarrow> 'p db \<Rightarrow> 'p db" where
  "update_automation i f d =
     d\<lparr>t_automations := map (\<lambda>r. if au_automation_id r = i then f r else r) (t_automations d)\<rparr>"

definition automation_missing :: "string \<Rightarrow> string" where
  "automation_missing i = ''automation '' @ i @ '' does not exist''"

definition automation_set_enabled :: "string \<Rightarrow> bool \<Rightarrow> 'p db \<Rightarrow> (string, unit) result \<times> 'p db" where
  "automation_set_enabled i b d =
     (if i \<in> au_automation_id ` set (t_automations d)
      then (Inr (), update_automation i (\<lambda>r. r\<lparr>au_enabled := b\<rparr>) d)
      else (Inl (automation_missing i), d))"

definition automation_delete :: "string \<Rightarrow> 'p db \<Rightarrow> (string, unit) result \<times> 'p db" where
  "automation_delete i d =
     (if i \<in> au_automation_id ` set (t_automations d)
      then (Inr (), d\<lparr>t_automations := filter (\<lambda>r. au_automation_id r \<noteq> i) (t_automations d)\<rparr>)
      else (Inl (automation_missing i), d))"

definition record_fire :: "string \<Rightarrow> string \<Rightarrow> 'p db \<Rightarrow> 'p db" where
  "record_fire i boundary d = update_automation i (\<lambda>r. r\<lparr>au_last_fire_key := boundary\<rparr>) d"

section \<open>Lemmas: scopes\<close>

definition scopes_exclusive :: "'p db \<Rightarrow> bool" where
  "scopes_exclusive d = (\<forall>a \<in> set (t_scopes d). \<forall>b \<in> set (t_scopes d).
     ws_repo_key a = ws_repo_key b \<and> ws_task_id a \<noteq> ws_task_id b
       \<and> is_active_task d (ws_task_id a) \<and> is_active_task d (ws_task_id b)
     \<longrightarrow> \<not> overlaps (ws_path a) (ws_path b))"

lemma overlaps_sym: "overlaps p q \<longleftrightarrow> overlaps q p"
  by (auto simp: overlaps_def)

lemma overlaps_refl [simp]: "overlaps p p"
  by (simp add: overlaps_def scope_covers_def)

lemma first_conflict_None:
  "first_conflict ps held = None \<longleftrightarrow> (\<forall>p \<in> set ps. \<forall>h \<in> set held. \<not> overlaps p (hs_path h))"
  by (induction ps) (auto simp: find_None_iff split: option.splits dest!: find_SomeD)

lemma first_conflict_Some:
  "first_conflict ps held = Some (t, p) \<Longrightarrow>
   p \<in> set ps \<and> (\<exists>h \<in> set held. hs_task_id h = t \<and> overlaps p (hs_path h))"
proof (induction ps)
  case Nil
  then show ?case by simp
next
  case (Cons q ps)
  show ?case
  proof (cases "find (\<lambda>h. overlaps q (hs_path h)) held")
    case None
    with Cons show ?thesis by simp
  next
    case (Some h)
    then have "h \<in> set held" "overlaps q (hs_path h)" by (auto simp: find_Some_iff)
    with Some Cons.prems show ?thesis by auto
  qed
qed

lemma held_scopes_iff:
  "h \<in> set (held_scopes d repo) \<longleftrightarrow>
   (\<exists>s \<in> set (t_scopes d). ws_repo_key s = repo \<and> is_active_task d (ws_task_id s)
      \<and> h = \<lparr>hs_task_id = ws_task_id s, hs_path = ws_path s\<rparr>)"
  by (auto simp: held_scopes_def)

lemma delete_scopes_simps [simp]:
  "t_scopes (delete_scopes P d) = filter (\<lambda>s. \<not> P s) (t_scopes d)"
  "t_tasks (delete_scopes P d) = t_tasks d"
  by (simp_all add: delete_scopes_def)

lemma release_terminal_simps [simp]:
  "t_tasks (release_terminal d) = t_tasks d"
  "set (t_scopes (release_terminal d)) \<subseteq> set (t_scopes d)"
  by (auto simp: release_terminal_def)

lemma is_active_task_cong: "t_tasks d = t_tasks d' \<Longrightarrow> is_active_task d t = is_active_task d' t"
  by (simp add: is_active_task_def)

lemma scopes_exclusive_subset:
  "scopes_exclusive d \<Longrightarrow> set (t_scopes d') \<subseteq> set (t_scopes d) \<Longrightarrow> t_tasks d' = t_tasks d \<Longrightarrow> scopes_exclusive d'"
  using is_active_task_cong [of d' d] unfolding scopes_exclusive_def by blast

lemma scope_acquire_cases:
  obtains (none) "parse_scope spec = []" and "scope_acquire tid repo spec d = (Acquired, d)"
  | (denied) h p where "parse_scope spec \<noteq> []"
      and "first_conflict (parse_scope spec) (held_scopes (release_terminal d) repo) = Some (h, p)"
      and "scope_acquire tid repo spec d = (Denied h p, release_terminal d)"
  | (granted) d' where "first_conflict (parse_scope spec) (held_scopes (release_terminal d) repo) = None"
      and "scope_acquire tid repo spec d = (Acquired, d')" and "t_tasks d' = t_tasks d"
      and "t_scopes d' = filter (\<lambda>s. ws_task_id s \<noteq> tid) (t_scopes (release_terminal d))
             @ map (\<lambda>p. \<lparr>ws_task_id = tid, ws_repo_key = repo, ws_path = p\<rparr>) (parse_scope spec)"
  by (cases "parse_scope spec = []";
      cases "first_conflict (parse_scope spec) (held_scopes (release_terminal d) repo)")
     (auto simp: scope_acquire_def Let_def)

lemma scopes_exclusive_granted:
  assumes "scopes_exclusive d1" and "first_conflict ps (held_scopes d1 repo) = None" and "t_tasks d' = t_tasks d1"
    and "t_scopes d' = filter (\<lambda>s. ws_task_id s \<noteq> tid) (t_scopes d1)
           @ map (\<lambda>p. \<lparr>ws_task_id = tid, ws_repo_key = repo, ws_path = p\<rparr>) ps"
  shows "scopes_exclusive d'"
proof -
  have act: "is_active_task d' t = is_active_task d1 t" for t
    using assms(3) by (rule is_active_task_cong)
  have free: "\<not> overlaps p (ws_path s)"
    if "p \<in> set ps" "s \<in> set (t_scopes d1)" "ws_repo_key s = repo" "is_active_task d1 (ws_task_id s)" for p s
  proof -
    have "\<lparr>hs_task_id = ws_task_id s, hs_path = ws_path s\<rparr> \<in> set (held_scopes d1 repo)"
      using that by (auto simp: held_scopes_iff)
    with assms(2) that(1) show ?thesis by (force simp: first_conflict_None)
  qed
  have "\<not> overlaps (ws_path a) (ws_path b)"
    if ab: "a \<in> set (t_scopes d')" "b \<in> set (t_scopes d')" "ws_repo_key a = ws_repo_key b"
      "ws_task_id a \<noteq> ws_task_id b" "is_active_task d' (ws_task_id a)" "is_active_task d' (ws_task_id b)" for a b
  proof -
    from ab(1,2,4) assms(4) consider "a \<in> set (t_scopes d1)" "b \<in> set (t_scopes d1)"
      | p where "a \<in> set (t_scopes d1)" "p \<in> set ps" "b = \<lparr>ws_task_id = tid, ws_repo_key = repo, ws_path = p\<rparr>"
      | p where "b \<in> set (t_scopes d1)" "p \<in> set ps" "a = \<lparr>ws_task_id = tid, ws_repo_key = repo, ws_path = p\<rparr>"
      by auto
    then show ?thesis
    proof cases
      case 1
      with assms(1) ab act show ?thesis unfolding scopes_exclusive_def by blast
    next
      case 2
      with ab act free [of _ a] show ?thesis by (simp add: overlaps_sym [of "ws_path a"])
    next
      case 3
      with ab act free [of _ b] show ?thesis by simp
    qed
  qed
  then show ?thesis by (auto simp: scopes_exclusive_def)
qed

section \<open>Lemmas: approvals\<close>

datatype approval_op = Ap_Insert pending_approval | Ap_Resolve string string string string

fun approval_step :: "'p db \<Rightarrow> approval_op \<Rightarrow> 'p db" where
  "approval_step d (Ap_Insert a) = approval_insert a d"
| "approval_step d (Ap_Resolve i st who now) = snd (approval_resolve i st who now d)"

definition approval_ids_distinct :: "'p db \<Rightarrow> bool" where
  "approval_ids_distinct d = distinct (map ap_approval_id (t_approvals d))"

lemma approval_step_inv [invs]: "approval_ids_distinct d \<Longrightarrow> approval_ids_distinct (approval_step d x)"
proof (cases x)
  case (Ap_Insert a)
  assume "approval_ids_distinct d"
  with Ap_Insert show ?thesis by (auto simp: approval_ids_distinct_def approval_insert_def)
next
  case (Ap_Resolve i st who now)
  have "map ap_approval_id (t_approvals (approval_step d x)) = map ap_approval_id (t_approvals d)"
    using Ap_Resolve by (simp add: approval_resolve_def)
  moreover assume "approval_ids_distinct d"
  ultimately show ?thesis by (simp add: approval_ids_distinct_def)
qed

interpretation approvals: machine approval_step approval_ids_distinct
  by unfold_locales (rule approval_step_inv)

text \<open>A resolved row is never touched again.\<close>

lemma resolved_row_stays:
  assumes "r \<in> set (t_approvals d)" and "ap_state r \<noteq> ''pending''"
  shows "r \<in> set (t_approvals (foldl approval_step d xs))"
proof -
  have "r \<in> set (t_approvals d) \<Longrightarrow> r \<in> set (t_approvals (approval_step d x))" for d x
    using assms(2) by (cases x) (auto simp: approval_insert_def approval_resolve_def resolvable_def image_iff)
  with assms(1) show ?thesis by (induction xs arbitrary: d) auto
qed

lemma unique_approval_row:
  "approval_ids_distinct d \<Longrightarrow> r \<in> set (t_approvals d) \<Longrightarrow> q \<in> set (t_approvals d) \<Longrightarrow>
   ap_approval_id r = ap_approval_id q \<Longrightarrow> r = q"
  by (simp add: approval_ids_distinct_def distinct_map inj_on_def)

lemma decision_approved_iff:
  "decision_for d task intent = Some ''approved'' \<longleftrightarrow>
   (\<exists>r \<in> set (t_approvals d). ap_task_id r = task \<and> ap_intent_hash r = intent \<and> ap_state r = ''approved'')"
proof -
  let ?q = "filter (\<lambda>r. ap_task_id r = task \<and> ap_intent_hash r = intent) (t_approvals d)"
  let ?s = "sort_key (\<lambda>r. decision_rank (ap_state r)) (sort_key ap_created_at ?q)"
  have set_s: "set ?s = set ?q" by simp
  have sorted_s: "sorted (map (\<lambda>r. decision_rank (ap_state r)) ?s)" by (rule sorted_sort_key)
  show ?thesis
  proof (cases ?s)
    case Nil
    have "set ?q = {}" unfolding set_s [symmetric] Nil by simp
    with Nil show ?thesis by (auto simp: decision_for_def)
  next
    case (Cons r rs)
    have least: "decision_rank (ap_state r) \<le> decision_rank (ap_state q)" if "q \<in> set ?q" for q
    proof -
      have "q \<in> set (r # rs)" using that unfolding set_s [symmetric] Cons .
      with sorted_s [unfolded Cons] show ?thesis by auto
    qed
    have r: "r \<in> set ?q" unfolding set_s [symmetric] Cons by simp
    have "decision_for d task intent = Some (ap_state r)" using Cons by (simp add: decision_for_def)
    moreover have "ap_state r = ''approved''" if "q \<in> set ?q" "ap_state q = ''approved''" for q
      using least [OF that(1)] that(2) by (simp add: decision_rank_def split: if_splits)
    ultimately show ?thesis using r by auto
  qed
qed

section \<open>Properties\<close>

text \<open>C10: write scopes of active tasks on one repository never overlap: whatever a task declares, acquiring keeps
  the scopes of different active tasks disjoint; a granted acquisition records every declared path, and a
  denied one names a declared path and an active task that already holds an overlapping scope.\<close>
theorem scope_acquire_keeps_exclusive:
  assumes "scopes_exclusive d" and "scope_acquire tid repo spec d = (res, d')"
  shows "scopes_exclusive d'
    \<and> (case res of
         Acquired \<Rightarrow> \<forall>p \<in> set (parse_scope spec). \<lparr>ws_task_id = tid, ws_repo_key = repo, ws_path = p\<rparr> \<in> set (t_scopes d')
       | Denied h p \<Rightarrow> p \<in> set (parse_scope spec) \<and> is_active_task d h
           \<and> (\<exists>s \<in> set (t_scopes d). ws_task_id s = h \<and> ws_repo_key s = repo \<and> overlaps p (ws_path s)))"
proof -
  let ?d = "release_terminal d"
  have ex: "scopes_exclusive ?d" by (rule scopes_exclusive_subset [OF assms(1)]) simp_all
  show ?thesis
  proof (cases rule: scope_acquire_cases [of spec tid repo d])
    case none
    with assms show ?thesis by simp
  next
    case (denied h p)
    from first_conflict_Some [OF denied(2)] obtain s where "p \<in> set (parse_scope spec)" "s \<in> set (t_scopes ?d)"
      "ws_repo_key s = repo" "is_active_task ?d (ws_task_id s)" "ws_task_id s = h" "overlaps p (ws_path s)"
      by (auto simp: held_scopes_iff)
    moreover have "s \<in> set (t_scopes d)" using \<open>s \<in> set (t_scopes ?d)\<close> release_terminal_simps(2) by blast
    ultimately show ?thesis
      using denied(3) assms(2) ex is_active_task_cong [of ?d d h] by auto
  next
    case (granted d1)
    have "scopes_exclusive d1"
      using scopes_exclusive_granted [OF ex granted(1) _ granted(4)] granted(3) by simp
    with granted assms(2) show ?thesis by auto
  qed
qed

text \<open>A repository with a running task holding \<open>src\<close> and a second, created task.\<close>

definition task0 :: "string \<Rightarrow> string \<Rightarrow> task_row" where
  "task0 i st = \<lparr>tk_task_id = i, tk_session_id = ''s'', tk_goal_text = [], tk_state = st, tk_generation = 1,
     tk_created_at = [], tk_started_at = None, tk_completed_at = None, tk_failure_code = None, tk_parent = None\<rparr>"

definition db_scopes :: "string \<Rightarrow> unit db" where
  "db_scopes st = empty_db\<lparr>t_tasks := [task0 ''t1'' st, task0 ''t2'' ''created''],
     t_scopes := [\<lparr>ws_task_id = ''t1'', ws_repo_key = ''r'', ws_path = ''src/''\<rparr>]\<rparr>"

theorem scope_acquire_keeps_exclusive_witness:
  "\<exists>s \<in> set (t_scopes (db_scopes ''running'')).
     ws_task_id s = ''t1'' \<and> ws_repo_key s = ''r'' \<and> overlaps ''src/api.rs'' (ws_path s)"
proof -
  have "scopes_exclusive (db_scopes ''running'')" by (simp add: scopes_exclusive_def db_scopes_def)
  moreover have "fst (scope_acquire ''t2'' ''r'' ''docs, src/api.rs'' (db_scopes ''running'')) = Denied ''t1'' ''src/api.rs''"
    by code_simp
  then have "scope_acquire ''t2'' ''r'' ''docs, src/api.rs'' (db_scopes ''running'')
      = (Denied ''t1'' ''src/api.rs'', snd (scope_acquire ''t2'' ''r'' ''docs, src/api.rs'' (db_scopes ''running'')))"
    by (metis prod.collapse)
  ultimately show ?thesis using scope_acquire_keeps_exclusive by fastforce
qed

lemma not_exclusiveI:
  assumes "a \<in> set (t_scopes d)" and "b \<in> set (t_scopes d)" and "ws_repo_key a = ws_repo_key b"
    and "ws_task_id a \<noteq> ws_task_id b" and "is_active_task d (ws_task_id a)" and "is_active_task d (ws_task_id b)"
    and "overlaps (ws_path a) (ws_path b)"
  shows "\<not> scopes_exclusive d"
  using assms unfolding scopes_exclusive_def by blast

lemma is_active_update_task:
  assumes "h \<in> set (t_tasks d)" and "st \<in> set active_states"
  shows "is_active_task (update_task (tk_task_id h) (\<lambda>r. r\<lparr>tk_state := st\<rparr>) d) (tk_task_id h)"
proof -
  have "h\<lparr>tk_state := st\<rparr> \<in> set (t_tasks (update_task (tk_task_id h) (\<lambda>r. r\<lparr>tk_state := st\<rparr>) d))"
    using assms(1) by (force simp: update_task_def)
  then show ?thesis
    unfolding is_active_task_def list_ex_iff by (rule bexI [rotated]) (simp add: assms(2))
qed

lemma waiting_not_listed [simp]:
  "waiting_state_text w \<notin> set active_states" "waiting_state_text w \<notin> set TERMINAL_STATES"
  by (cases w; simp add: active_states_def TERMINAL_STATES_def)+

lemma unique_task_row:
  "distinct (map tk_task_id (t_tasks d)) \<Longrightarrow> r \<in> set (t_tasks d) \<Longrightarrow> q \<in> set (t_tasks d) \<Longrightarrow>
   tk_task_id r = tk_task_id q \<Longrightarrow> r = q"
  by (simp add: distinct_map inj_on_def)

text \<open>A waiting task loses the exclusivity of its write scope without releasing it: the waiting states are
  neither active nor terminal, so while a holder waits, another task acquires an overlapping scope, and
  when the holder runs again two active tasks hold overlapping scopes.\<close>

lemma waiting_holder_is_not_protected:
  assumes "distinct (map tk_task_id (t_tasks d))"
    and "s \<in> set (t_scopes d)" and "ws_repo_key s = repo" and "ws_task_id s \<noteq> tid"
    and "h \<in> set (t_tasks d)" and "tk_task_id h = ws_task_id s" and "tk_state h = waiting_state_text w"
    and "is_active_task d tid" and "p \<in> set (parse_scope spec)" and "overlaps p (ws_path s)"
    and "first_conflict (parse_scope spec) (held_scopes (release_terminal d) repo) = None"
    and "scope_acquire tid repo spec d = (res, d')"
  shows "res = Acquired
    \<and> \<not> scopes_exclusive (update_task (ws_task_id s) (\<lambda>r. r\<lparr>tk_state := ''running''\<rparr>) d')"
proof -
  have ne: "parse_scope spec \<noteq> []" using assms(9) by auto
  from assms(11,12) ne obtain "res = Acquired" and tasks: "t_tasks d' = t_tasks d"
    and sc: "t_scopes d' = filter (\<lambda>s. ws_task_id s \<noteq> tid) (t_scopes (release_terminal d))
             @ map (\<lambda>p. \<lparr>ws_task_id = tid, ws_repo_key = repo, ws_path = p\<rparr>) (parse_scope spec)"
    by (cases rule: scope_acquire_cases [of spec tid repo d]) auto
  let ?d = "update_task (ws_task_id s) (\<lambda>r. r\<lparr>tk_state := ''running''\<rparr>) d'"
  let ?n = "\<lparr>ws_task_id = tid, ws_repo_key = repo, ws_path = p\<rparr>"
  have "tk_state t \<notin> set TERMINAL_STATES" if "t \<in> set (t_tasks d)" "tk_task_id t = ws_task_id s" for t
    using unique_task_row [OF assms(1) that(1) assms(5)] that(2) assms(6,7) by simp
  then have "s \<in> set (t_scopes (release_terminal d))"
    using assms(2) by (fastforce simp: release_terminal_def)
  then have held: "s \<in> set (t_scopes ?d)" "?n \<in> set (t_scopes ?d)"
    using sc assms(4,9) by auto
  have "is_active_task ?d (ws_task_id s)"
    using is_active_update_task [of h d' "''running''"] assms(5,6) tasks by (simp add: active_states_def)
  moreover have "is_active_task ?d tid"
    using assms(4,8) tasks by (auto simp: is_active_task_def list_ex_iff update_task_def)
  ultimately show ?thesis
    using \<open>res = Acquired\<close> held assms(3,4,10) not_exclusiveI [of ?n ?d s] by simp
qed

lemma waiting_holder_is_not_protected_witness:
  "\<not> scopes_exclusive (update_task ''t1'' (\<lambda>r. r\<lparr>tk_state := ''running''\<rparr>)
       (snd (scope_acquire ''t2'' ''r'' ''src/api.rs'' (db_scopes ''waiting_approval''))))"
proof -
  let ?d = "db_scopes ''waiting_approval''" and ?s = "\<lparr>ws_task_id = ''t1'', ws_repo_key = ''r'', ws_path = ''src/''\<rparr>"
  have "parse_scope ''src/api.rs'' = [''src/api.rs'']" "overlaps ''src/api.rs'' ''src/''"
    "first_conflict (parse_scope ''src/api.rs'') (held_scopes (release_terminal ?d) ''r'') = None"
    "is_active_task ?d ''t2''"
    by code_simp+
  with waiting_holder_is_not_protected [of ?d ?s "''r''" "''t2''" "task0 ''t1'' ''waiting_approval''" Wr_Approval
      "''src/api.rs''" "''src/api.rs''" "fst (scope_acquire ''t2'' ''r'' ''src/api.rs'' ?d)"
      "snd (scope_acquire ''t2'' ''r'' ''src/api.rs'' ?d)"]
  show ?thesis by (simp add: db_scopes_def task0_def)
qed

text \<open>The first decision on an approval wins: once a pending approval was resolved, no later insertion or
  resolution changes it, every later attempt to resolve it reports that it did nothing, and if it was
  approved, the decision for its task and intent stays approved.\<close>

lemma first_approval_decision_wins:
  assumes "approval_ids_distinct d" and "approval_resolve i st who now d = (True, d1)" and "st \<noteq> ''pending''"
    and "d2 = foldl approval_step d1 ops"
  shows "\<exists>r \<in> set (t_approvals d2). ap_approval_id r = i \<and> ap_state r = st \<and> ap_resolved_by r = who
    \<and> approval_resolve i st' who' now' d2 = (False, d2)
    \<and> (st = ''approved'' \<longrightarrow> decision_for d2 (ap_task_id r) (ap_intent_hash r) = Some ''approved'')"
proof -
  from assms(2) obtain q where q: "q \<in> set (t_approvals d)" "resolvable i q"
    and d1: "d1 = snd (approval_resolve i st who now d)"
    by (auto simp: approval_resolve_def list_ex_iff)
  let ?r = "q\<lparr>ap_state := st, ap_resolved_at := now, ap_resolved_by := who\<rparr>"
  have "?r \<in> set (t_approvals d1)" using q by (force simp: d1 approval_resolve_def)
  then have r2: "?r \<in> set (t_approvals d2)" unfolding assms(4) using assms(3) by (intro resolved_row_stays) simp_all
  have "approval_ids_distinct d1" using approval_step_inv [OF assms(1), of "Ap_Resolve i st who now"] d1 by simp
  then have inv: "approval_ids_distinct d2" unfolding assms(4) by (rule approvals.run_inv)
  have no: "\<not> resolvable i x" if "x \<in> set (t_approvals d2)" for x
    using unique_approval_row [OF inv r2 that] q(2) assms(3) by (auto simp: resolvable_def)
  then have "approval_resolve i st' who' now' d2 = (False, d2)"
    by (simp add: approval_resolve_def list_ex_iff map_idI)
  moreover have "st = ''approved'' \<longrightarrow> decision_for d2 (ap_task_id ?r) (ap_intent_hash ?r) = Some ''approved''"
    unfolding decision_approved_iff using r2 by (metis approval_row.select_convs(2,3,6) approval_row.surjective
        approval_row.update_convs(6,8,9))
  ultimately show ?thesis using r2 q(2) by (intro bexI [OF _ r2]) (simp add: resolvable_def)
qed

definition approval0 :: "string \<Rightarrow> pending_approval" where
  "approval0 i = \<lparr>pa_approval_id = i, pa_task_id = ''t'', pa_intent_hash = ''h'', pa_tool = ''shell'', pa_scope = [],
     pa_state = ''pending'', pa_created_at = ''1''\<rparr>"

lemma first_approval_decision_wins_witness:
  "\<exists>d1. approval_resolve ''a'' ''denied'' ''u'' ''2'' (approval_insert (approval0 ''a'') (empty_db :: unit db)) = (True, d1)
     \<and> (\<exists>r \<in> set (t_approvals (foldl approval_step d1 [Ap_Resolve ''a'' ''approved'' ''v'' ''3''])).
          ap_approval_id r = ''a'' \<and> ap_state r = ''denied'')"
proof -
  let ?d = "approval_insert (approval0 ''a'') (empty_db :: unit db)"
  have "fst (approval_resolve ''a'' ''denied'' ''u'' ''2'' ?d)" by code_simp
  then obtain d1 where d1: "approval_resolve ''a'' ''denied'' ''u'' ''2'' ?d = (True, d1)"
    by (metis (full_types) prod.collapse)
  have "approval_ids_distinct ?d" by code_simp
  from first_approval_decision_wins [OF this d1 _ refl, of "[Ap_Resolve ''a'' ''approved'' ''v'' ''3'']" "[]" "[]" "[]"]
  have "\<exists>r \<in> set (t_approvals (foldl approval_step d1 [Ap_Resolve ''a'' ''approved'' ''v'' ''3''])).
      ap_approval_id r = ''a'' \<and> ap_state r = ''denied''" by auto
  with d1 show ?thesis by blast
qed

end
