(* ===== verification/Cron.thy ===== *)
theory Cron
  imports Domain_Events
begin

text \<open>
  Cron specifications and the civil calendar of \<^verbatim>\<open>crates/core-runtime/src/automation.rs\<close>, and the RFC 3339
  clock text of \<^verbatim>\<open>crates/event-store/src/commands.rs\<close>. A parsed field is the set of its values. The
  expansion loop adds the step with the wrap-around of \<open>u32\<close> (a build with overflow checks panics
  there instead). Times are seconds since the epoch; civil dates are computed on integers, where
  \<open>div\<close> and \<open>mod\<close> are the Euclidean operations of the code.
\<close>

section \<open>Fields\<close>

text \<open>
  \<open>while v <= hi { insert(v); v += step }\<close>. The caller's \<open>step\<close> is positive and below \<open>2 ^ 32\<close> and
  its \<open>hi\<close> is at most 59; the first test keeps the function total on other arguments.
\<close>

function (sequential) expand_field :: "nat \<Rightarrow> nat \<Rightarrow> nat \<Rightarrow> nat list" where
  "expand_field step hi v =
     (if step = 0 \<or> 2 ^ 32 \<le> step \<or> 2 ^ 31 \<le> hi then []
      else if v \<le> hi then v # expand_field step hi ((v + step) mod 2 ^ 32)
      else [])"
  by pat_completeness auto
termination
proof (relation "measure (\<lambda>(step, hi, v). if step + hi < 2 ^ 32 then Suc hi - v else if v \<le> hi then Suc v else 0)")
  show "wf (measure (\<lambda>(step, hi, v). if step + hi < 2 ^ 32 then Suc hi - v else if v \<le> hi then Suc v else 0))"
    by simp
next
  fix step hi v :: nat
  assume a: "\<not> (step = 0 \<or> 2 ^ 32 \<le> step \<or> 2 ^ 31 \<le> hi)" and v: "v \<le> hi"
  show "((step, hi, (v + step) mod 2 ^ 32), step, hi, v)
      \<in> measure (\<lambda>(step, hi, v). if step + hi < 2 ^ 32 then Suc hi - v else if v \<le> hi then Suc v else 0)"
  proof (cases "v + step < 2 ^ 32")
    case True
    with a v show ?thesis by auto
  next
    case False
    then have "(v + step) mod 2 ^ 32 = v + step - 2 ^ 32"
      using a v by (auto simp: mod_if)
    with a v False show ?thesis by auto
  qed
qed

declare expand_field.simps [simp del]

type_synonym field = "nat set"

text \<open>The bounds of one part: \<open>*\<close>, \<open>a-b\<close> or a single value.\<close>

definition field_range :: "nat \<Rightarrow> nat \<Rightarrow> string \<Rightarrow> (nat \<times> nat) option" where
  "field_range mn mx rng =
     (if rng = ''*'' then Some (mn, mx)
      else case split_once CHR ''-'' rng of
             Some (a, b) \<Rightarrow>
               (case parse_unsigned 32 a of
                  None \<Rightarrow> None
                | Some lo \<Rightarrow> map_option (\<lambda>hi. (lo, hi)) (parse_unsigned 32 b))
           | None \<Rightarrow> map_option (\<lambda>v. (v, v)) (parse_unsigned 32 rng))"

definition field_step :: "string \<Rightarrow> (string \<times> nat) option" where
  "field_step part =
     (case split_once CHR ''/'' part of
        Some (r, s) \<Rightarrow>
          (case parse_unsigned 32 s of
             None \<Rightarrow> None
           | Some n \<Rightarrow> if 0 < n then Some (r, n) else None)
      | None \<Rightarrow> Some (part, 1))"

definition field_part :: "nat \<Rightarrow> nat \<Rightarrow> string \<Rightarrow> nat list option" where
  "field_part mn mx part =
     (case field_step part of
        None \<Rightarrow> None
      | Some (rng, step) \<Rightarrow>
          (case field_range mn mx rng of
             None \<Rightarrow> None
           | Some (lo, hi) \<Rightarrow>
               if lo < mn \<or> mx < hi \<or> hi < lo then None else Some (expand_field step hi lo)))"

fun field_parts :: "nat \<Rightarrow> nat \<Rightarrow> string list \<Rightarrow> field \<Rightarrow> field option" where
  "field_parts mn mx [] acc = Some acc"
| "field_parts mn mx (p # ps) acc =
     (case field_part mn mx p of
        None \<Rightarrow> None
      | Some vs \<Rightarrow> field_parts mn mx ps (acc \<union> set vs))"

definition field_parse :: "string \<Rightarrow> nat \<Rightarrow> nat \<Rightarrow> field option" where
  "field_parse spec mn mx = field_parts mn mx (str_split (\<lambda>c. c = CHR '','') spec) {}"

section \<open>The calendar\<close>

definition yoe_of :: "int \<Rightarrow> int" where
  "yoe_of doe = (doe - doe div 1460 + doe div 36524 - doe div 146096) div 365"

definition year_start :: "int \<Rightarrow> int" where
  "year_start yoe = 365 * yoe + yoe div 4 - yoe div 100"

text \<open>Year, month and day of a day number: the computation both functions of the code share.\<close>

definition civil_from_days :: "int \<Rightarrow> int \<times> int \<times> int" where
  "civil_from_days days =
     (let z = days + 719468;
          era = z div 146097;
          doe = z mod 146097;
          yoe = yoe_of doe;
          y = yoe + era * 400;
          doy = doe - year_start yoe;
          mp = (5 * doy + 2) div 153;
          d = doy - (153 * mp + 2) div 5 + 1;
          m = (if mp < 10 then mp + 3 else mp - 9)
      in (if m \<le> 2 then y + 1 else y, m, d))"

definition civil_from_epoch :: "nat \<Rightarrow> nat \<times> nat \<times> nat \<times> nat \<times> nat \<times> nat" where
  "civil_from_epoch epoch_secs =
     (let days = int (epoch_secs div 86400);
          secs = epoch_secs mod 86400;
          (y, m, d) = civil_from_days days
      in (nat y, nat m, nat d, secs div 3600, (secs mod 3600) div 60, nat ((days + 4) mod 7)))"

definition show_padded :: "nat \<Rightarrow> nat \<Rightarrow> string" where
  "show_padded w n = pad_zero w (show_nat n)"

definition minute_key :: "nat \<Rightarrow> string" where
  "minute_key now =
     (let (y, mo, d, h, mi, _) = civil_from_epoch (now - now mod 60)
      in show_padded 4 y @ show_padded 2 mo @ show_padded 2 d @ show_padded 2 h @ show_padded 2 mi)"

text \<open>The timestamp text; for the non-negative times of \<open>utc_now_rfc3339\<close>.\<close>

definition utc_millis_to_rfc3339 :: "nat \<Rightarrow> string" where
  "utc_millis_to_rfc3339 millis =
     (let secs = millis div 1000; ms = millis mod 1000;
          days = int (secs div 86400); sod = secs mod 86400;
          (y, m, d) = civil_from_days days
      in show_padded 4 (nat y) @ ''-'' @ show_padded 2 (nat m) @ ''-'' @ show_padded 2 (nat d) @ ''T''
         @ show_padded 2 (sod div 3600) @ '':'' @ show_padded 2 ((sod mod 3600) div 60) @ '':''
         @ show_padded 2 (sod mod 60) @ ''.'' @ show_padded 3 ms @ ''Z'')"

section \<open>Specifications\<close>

record cron_spec =
  cs_minute :: field
  cs_hour :: field
  cs_day :: field
  cs_month :: field
  cs_weekday :: field

definition cron_parse :: "string \<Rightarrow> cron_spec option" where
  "cron_parse spec =
     (case split_whitespace spec of
        [p0, p1, p2, p3, p4] \<Rightarrow>
          (case field_parse p0 0 59 of None \<Rightarrow> None | Some mi \<Rightarrow>
          (case field_parse p1 0 23 of None \<Rightarrow> None | Some h \<Rightarrow>
          (case field_parse p2 1 31 of None \<Rightarrow> None | Some d \<Rightarrow>
          (case field_parse p3 1 12 of None \<Rightarrow> None | Some mo \<Rightarrow>
          (case field_parse p4 0 7 of None \<Rightarrow> None | Some wd \<Rightarrow>
             Some \<lparr>cs_minute = mi, cs_hour = h, cs_day = d, cs_month = mo, cs_weekday = wd\<rparr>)))))
      | _ \<Rightarrow> None)"

definition matches_minute :: "cron_spec \<Rightarrow> nat \<Rightarrow> bool" where
  "matches_minute c epoch_secs =
     (let (_, mo, d, h, mi, dow) = civil_from_epoch (epoch_secs - epoch_secs mod 60);
          month_ok = mo \<in> cs_month c;
          day_restricted = card (cs_day c) \<noteq> 31 \<or> card (cs_month c) \<noteq> 12;
          day_ok = d \<in> cs_day c;
          dow_ok = dow \<in> cs_weekday c \<or> (dow = 0 \<and> 7 \<in> cs_weekday c);
          dom_dow = (if day_restricted \<and> card (cs_day c) < 31 \<and> card (cs_weekday c) < 7
                     then day_ok \<or> dow_ok else day_ok \<and> dow_ok)
      in month_ok \<and> dom_dow \<and> h \<in> cs_hour c \<and> mi \<in> cs_minute c)"

section \<open>Lemmas: expansion\<close>

lemma expand_field_set:
  assumes "0 < step" and "step + hi < 2 ^ 32" and "hi < 2 ^ 31"
  shows "set (expand_field step hi v) = {x. v \<le> x \<and> x \<le> hi \<and> step dvd x - v}"
  using assms
proof (induction step hi v rule: expand_field.induct)
  case (1 step hi v)
  have "\<not> (step = 0 \<or> 2 ^ 32 \<le> step \<or> 2 ^ 31 \<le> hi)" using "1.prems" by simp
  note ok = this
  show ?case
  proof (cases "v \<le> hi")
    case True
    with "1.prems" have m: "(v + step) mod 2 ^ 32 = v + step" by simp
    have "set (expand_field step hi (v + step)) = {x. v + step \<le> x \<and> x \<le> hi \<and> step dvd x - (v + step)}"
      using "1.IH" [OF ok True "1.prems"] by (simp only: m)
    moreover have "{x. v \<le> x \<and> x \<le> hi \<and> step dvd x - v}
        = insert v {x. v + step \<le> x \<and> x \<le> hi \<and> step dvd x - (v + step)}"
    proof -
      have "step dvd x - v \<longleftrightarrow> x = v \<or> (v + step \<le> x \<and> step dvd x - (v + step))" if "v \<le> x" for x
      proof (cases "v + step \<le> x")
        case True
        then have "x - v = (x - (v + step)) + step" by simp
        then have "step dvd x - v \<longleftrightarrow> step dvd x - (v + step)" by (simp only: dvd_add_triv_right_iff)
        with True "1.prems"(1) show ?thesis by auto
      next
        case False
        with that have "x - v < step" by simp
        then have "step dvd x - v \<longleftrightarrow> x - v = 0" using nat_dvd_not_less [of "x - v" step] by auto
        with False that show ?thesis by auto
      qed
      with True show ?thesis by auto
    qed
    ultimately show ?thesis using ok True m by (simp add: expand_field.simps [of step hi v])
  next
    case False
    with ok show ?thesis by (auto simp: expand_field.simps [of step hi v])
  qed
qed

section \<open>Lemmas: the calendar\<close>

text \<open>Within a century of an era: \<open>r\<close> days after its start, \<open>k\<close> is the year.\<close>

lemma year_of_century_day:
  fixes c r :: int
  assumes c: "0 \<le> c" "c \<le> 3" and r: "0 \<le> r" "r < 36524 \<or> (c = 3 \<and> r = 36524)"
  defines "k \<equiv> (r - (24 * c + r) div 1460) div 365"
  shows "0 \<le> k \<and> k \<le> 99 \<and> 0 \<le> r - 365 * k - k div 4
    \<and> r - 365 * k - k div 4 < 365 + (if 4 dvd k + 1 \<and> (k = 99 \<longrightarrow> c = 3) then 1 else 0)"
proof -
  define m where "m = (24 * c + r) div 1460"
  define t where "t = (24 * c + r) mod 1460"
  define u where "u = t - 24 * c - m"
  define e where "e = u div 365"
  define v where "v = u mod 365"
  have t: "0 \<le> t" "t < 1460" and rt: "r = 1460 * m + t - 24 * c"
    using div_mult_mod_eq [of "24 * c + r" 1460] by (simp_all add: t_def m_def)
  have m: "0 \<le> m" "m \<le> 25" using rt t c r by linarith+
  have v: "0 \<le> v" "v < 365" and u: "u = 365 * e + v"
    using div_mult_mod_eq [of u 365] by (simp_all add: e_def v_def)
  have "r - m = u + 365 * (4 * m)" using rt by (simp add: u_def)
  then have k: "k = 4 * m + e"
    unfolding k_def m_def [symmetric] e_def by (simp only: div_mult_self2)
  have "- 97 \<le> u" "u \<le> 1459" using c t m by (simp_all add: u_def)
  then have "- 1 \<le> e" "e \<le> 3" using u v by linarith+
  then have e: "e = -1 \<or> e = 0 \<or> e = 1 \<or> e = 2 \<or> e = 3" by linarith
  have kd: "k div 4 = (if e = -1 then m - 1 else m)"
  proof -
    have "k div 4 = m + e div 4" unfolding k by simp
    with e show ?thesis by auto
  qed
  have doy: "r - 365 * k - k div 4 = (if e = -1 then v + 1 else v)"
    using kd k rt u by (simp add: u_def split: if_splits)
  have ru: "365 * e + v = r - 1461 * m" using u rt by (simp add: u_def)
  have "1 \<le> m" if "e = -1" using that ru v r(1) m by linarith
  moreover have "m \<le> 24" if "0 \<le> e" using that ru v r by linarith
  moreover have "c = 3" if "e = -1" "v = 364" "m = 25" using that ru r by simp
  moreover have "4 dvd k + 1" if "e = -1" using that k by simp
  ultimately show ?thesis using k m e v doy by (cases "v = 364") auto
qed

definition leap_year :: "int \<Rightarrow> bool" where
  "leap_year y = (4 dvd y \<and> (\<not> 100 dvd y \<or> 400 dvd y))"

text \<open>The length of the year that starts on the first of March of year \<open>y\<close>.\<close>

definition march_year :: "int \<Rightarrow> int" where
  "march_year y = 365 + (if leap_year (y + 1) then 1 else 0)"

lemma year_of_day:
  assumes "0 \<le> doe" and "doe < 146097"
  shows "0 \<le> yoe_of doe \<and> yoe_of doe \<le> 399 \<and> 0 \<le> doe - year_start (yoe_of doe)
    \<and> doe - year_start (yoe_of doe) < march_year (yoe_of doe)"
proof -
  define c where "c = (if doe = 146096 then 3 else doe div 36524)"
  define r where "r = doe - 36524 * c"
  have c: "0 \<le> c" "c \<le> 3" and r: "0 \<le> r" "r < 36524 \<or> (c = 3 \<and> r = 36524)"
    using assms by (auto simp: c_def r_def)
  define k where "k = (r - (24 * c + r) div 1460) div 365"
  have doe: "doe = 36524 * c + r" by (simp add: r_def)
  have bc: "doe div 36524 - doe div 146096 = c"
    using assms by (auto simp: c_def)
  have a: "doe div 1460 = 25 * c + (24 * c + r) div 1460"
  proof -
    have "doe = (24 * c + r) + 1460 * (25 * c)" by (simp add: doe)
    then show ?thesis by (simp only: div_mult_self2)
  qed
  have "doe - doe div 1460 + doe div 36524 - doe div 146096 = (r - (24 * c + r) div 1460) + 365 * (100 * c)"
    using a bc doe by simp
  then have y: "yoe_of doe = 100 * c + k"
    unfolding yoe_of_def k_def by (simp only: div_mult_self2)
  have k: "0 \<le> k" "k \<le> 99" and d: "0 \<le> r - 365 * k - k div 4"
    and len: "r - 365 * k - k div 4 < 365 + (if 4 dvd k + 1 \<and> (k = 99 \<longrightarrow> c = 3) then 1 else 0)"
    using year_of_century_day [OF c r] by (simp_all add: k_def)
  have "year_start (100 * c + k) = 36524 * c + 365 * k + k div 4"
  proof -
    have "(100 * c + k) div 4 = 25 * c + k div 4" by simp
    moreover have "(100 * c + k) div 100 = c" using k by simp
    ultimately show ?thesis by (simp add: year_start_def)
  qed
  moreover have "leap_year (100 * c + k + 1)" if "4 dvd k + 1" "k = 99 \<longrightarrow> c = 3"
  proof -
    have "4 dvd 100 * c + (k + 1)" using that(1) by (rule dvd_add [rotated]) simp
    moreover have "\<not> 100 dvd 100 * c + (k + 1)" if "k \<noteq> 99"
      using k that zdvd_not_zless [of "k + 1" 100] by (simp add: dvd_add_right_iff)
    ultimately show ?thesis using that(2) by (cases "k = 99") (auto simp: leap_year_def add.assoc)
  qed
  ultimately show ?thesis using y k c d len doe by (auto simp: march_year_def split: if_splits)
qed

lemma leap_year_period: "leap_year (y + 400 * n) \<longleftrightarrow> leap_year y"
proof -
  have "(4 :: int) dvd y + 400 * n \<longleftrightarrow> 4 dvd y" "(100 :: int) dvd y + 400 * n \<longleftrightarrow> 100 dvd y"
    "(400 :: int) dvd y + 400 * n \<longleftrightarrow> 400 dvd y"
    by (simp_all add: dvd_add_left_iff)
  then show ?thesis by (simp add: leap_year_def)
qed

lemma march_year_period: "march_year (y + 400 * n) = march_year y"
  using leap_year_period [of "y + 1" n] by (simp add: march_year_def algebra_simps)

lemma year_start_succ:
  assumes "0 \<le> y" and "y < 399"
  shows "year_start (y + 1) = year_start y + march_year y"
proof -
  have succ: "(y + 1) div k = y div k + (if k dvd y + 1 then 1 else 0)" if "0 < k" for k :: int
  proof -
    obtain n m where y: "y = int n" and k: "k = int m"
      using assms(1) \<open>0 < k\<close> by (metis less_imp_le nonneg_int_cases)
    have y1: "y + 1 = int (Suc n)" by (simp add: y)
    show ?thesis
      unfolding y1 unfolding y k by (simp add: div_Suc dvd_eq_mod_eq_0 flip: zdiv_int zmod_int of_nat_Suc)
  qed
  have "\<not> 400 dvd y + 1" using assms zdvd_not_zless [of "y + 1" 400] by simp
  moreover have "(4 :: int) dvd y + 1" if "100 dvd y + 1" using that by (rule dvd_trans [rotated]) simp
  ultimately show ?thesis
    using succ [of 4] succ [of 100] by (auto simp: year_start_def march_year_def leap_year_def)
qed

lemma year_start_mono:
  assumes "0 \<le> a" and "a < b" and "b \<le> 399"
  shows "year_start a + march_year a \<le> year_start b"
  using assms(2,1,3)
proof (induction b rule: int_gr_induct)
  case base
  then show ?case using year_start_succ [of a] by simp
next
  case (step b)
  then have "year_start a + march_year a \<le> year_start b" "year_start (b + 1) = year_start b + march_year b"
    using year_start_succ [of b] by simp_all
  moreover have "0 < march_year b" by (simp add: march_year_def)
  ultimately show ?case by simp
qed

lemma yoe_of_unique:
  assumes "0 \<le> doe" and "doe < 146097" and "0 \<le> y" and "y \<le> 399"
    and "year_start y \<le> doe" and "doe < year_start y + march_year y"
  shows "yoe_of doe = y"
  using year_of_day [OF assms(1,2)] year_start_mono [of "yoe_of doe" y] year_start_mono [of y "yoe_of doe"] assms
  by linarith

section \<open>Days as a March year and a day of it\<close>

definition march_coords :: "int \<Rightarrow> int \<times> int" where
  "march_coords days =
     (let z = days + 719468; doe = z mod 146097
      in (yoe_of doe + 400 * (z div 146097), doe - year_start (yoe_of doe)))"

definition march_date :: "int \<times> int \<Rightarrow> int \<times> int \<times> int" where
  "march_date = (\<lambda>(y, doy).
     let mp = (5 * doy + 2) div 153; m = (if mp < 10 then mp + 3 else mp - 9)
     in (if m \<le> 2 then y + 1 else y, m, doy - (153 * mp + 2) div 5 + 1))"

lemma civil_from_days_march: "civil_from_days n = march_date (march_coords n)"
  by (simp add: civil_from_days_def march_date_def march_coords_def Let_def mult.commute)

lemma march_coords_bounds:
  assumes "march_coords n = (y, doy)"
  shows "0 \<le> doy \<and> doy < march_year y"
  using year_of_day [of "(n + 719468) mod 146097"] assms
  by (auto simp: march_coords_def Let_def march_year_period)

lemma march_coords_next:
  assumes "march_coords n = (y, doy)"
  shows "march_coords (n + 1) = (if doy + 1 < march_year y then (y, doy + 1) else (y + 1, 0))"
proof -
  define z where "z = n + 719468"
  define era where "era = z div 146097"
  define doe where "doe = z mod 146097"
  define yoe where "yoe = yoe_of doe"
  have y: "y = yoe + 400 * era" and doy: "doy = doe - year_start yoe"
    using assms by (auto simp: march_coords_def Let_def z_def era_def doe_def yoe_def)
  have doe: "0 \<le> doe" "doe < 146097" by (simp_all add: doe_def)
  have yoe: "0 \<le> yoe" "yoe \<le> 399" "year_start yoe \<le> doe" "doe < year_start yoe + march_year yoe"
    using year_of_day [OF doe] by (simp_all add: yoe_def)
  have my: "march_year y = march_year yoe" by (simp add: y march_year_period)
  have nxt: "march_coords (n + 1) =
      (yoe_of ((z + 1) mod 146097) + 400 * ((z + 1) div 146097),
       (z + 1) mod 146097 - year_start (yoe_of ((z + 1) mod 146097)))"
    by (simp add: march_coords_def Let_def z_def add.commute add.left_commute)
  have zd: "z = 146097 * era + doe" by (simp add: era_def doe_def)
  have last: "year_start 399 + march_year 399 = 146097"
    by (simp add: year_start_def march_year_def leap_year_def)
  show ?thesis
  proof (cases "doe + 1 < 146097")
    case True
    have z1: "z + 1 = (doe + 1) + 146097 * era" using zd by simp
    have m: "(z + 1) mod 146097 = doe + 1" and d: "(z + 1) div 146097 = era"
      unfolding z1 using doe True by simp_all
    show ?thesis
    proof (cases "doy + 1 < march_year y")
      case in_year: True
      have "yoe_of (doe + 1) = yoe"
        using yoe doe True in_year doy my by (intro yoe_of_unique) simp_all
      with nxt m d in_year show ?thesis by (simp add: y doy)
    next
      case False
      with doy my yoe have e: "doe + 1 = year_start yoe + march_year yoe" by simp
      with True last yoe have "yoe < 399" by (cases "yoe = 399") simp_all
      then have s: "year_start (yoe + 1) = doe + 1" using year_start_succ [of yoe] yoe e by simp
      moreover have "0 < march_year (yoe + 1)" by (simp add: march_year_def)
      ultimately have "yoe_of (doe + 1) = yoe + 1"
        using yoe doe True \<open>yoe < 399\<close> by (intro yoe_of_unique) simp_all
      with nxt m d False s show ?thesis by (simp add: y)
    qed
  next
    case False
    with doe have de: "doe = 146096" by simp
    have "yoe = 399"
      unfolding yoe_def using de last by (intro yoe_of_unique) (simp_all add: year_start_def march_year_def leap_year_def)
    have z1: "z + 1 = 0 + 146097 * (era + 1)" using zd de by simp
    have "(z + 1) mod 146097 = 0" and "(z + 1) div 146097 = era + 1" unfolding z1 by simp_all
    moreover have "yoe_of 0 = 0" "year_start 0 = 0" by (simp_all add: yoe_of_def year_start_def)
    moreover have "\<not> doy + 1 < march_year y" using my doy de last \<open>yoe = 399\<close> by simp
    ultimately show ?thesis using nxt y \<open>yoe = 399\<close> by simp
  qed
qed

section \<open>The Gregorian calendar\<close>

definition days_in_month :: "int \<Rightarrow> int \<Rightarrow> int" where
  "days_in_month y m =
     (if m = 2 then (if leap_year y then 29 else 28) else if m \<in> {4, 6, 9, 11} then 30 else 31)"

definition next_day :: "int \<times> int \<times> int \<Rightarrow> int \<times> int \<times> int" where
  "next_day = (\<lambda>(y, m, d).
     if d < days_in_month y m then (y, m, d + 1) else if m < 12 then (y, m + 1, 1) else (y + 1, 1, 1))"

lemma div153: "153 * j \<le> x \<Longrightarrow> x < 153 * j + 153 \<Longrightarrow> x div 153 = j" for x j :: int
  by linarith

lemma le_div5: "5 * a \<le> x \<Longrightarrow> a \<le> x div 5" for a x :: int
  by linarith

lemma div5_eq: "5 * a \<le> x \<Longrightarrow> x < 5 * a + 5 \<Longrightarrow> x div 5 = a" for a x :: int
  by linarith

lemma month_range:
  fixes doy :: int
  assumes "0 \<le> doy" and "doy \<le> 365"
  obtains j where "(5 * doy + 2) div 153 = j" and "153 * j \<le> 5 * doy + 2" and "5 * doy + 2 < 153 * j + 153"
    and "j \<in> {0, 1, 2, 3, 4, 5, 6, 7, 8, 9, 10, 11}"
proof -
  define j where "j = (5 * doy + 2) div 153"
  have b: "153 * j \<le> 5 * doy + 2" "5 * doy + 2 < 153 * j + 153"
    unfolding j_def by linarith+
  then have "0 \<le> j" "j \<le> 11" using assms by linarith+
  then have "j \<in> {0, 1, 2, 3, 4, 5, 6, 7, 8, 9, 10, 11}" by simp presburger
  with b that show ?thesis by (simp add: j_def)
qed

text \<open>First day of the \<open>j\<close>-th month of a March year, and its number in the civil year.\<close>

definition month_start :: "int \<Rightarrow> int" where
  "month_start j = (153 * j + 2) div 5"

definition civil_month :: "int \<Rightarrow> int" where
  "civil_month j = (if j < 10 then j + 3 else j - 9)"

lemma march_date_eq:
  assumes "0 \<le> doy" and "(5 * doy + 2) div 153 = j"
  shows "march_date (y, doy) = (if civil_month j \<le> 2 then y + 1 else y, civil_month j, doy - month_start j + 1)"
  using assms by (simp add: march_date_def Let_def month_start_def civil_month_def)

lemma month_length:
  assumes "j \<in> {0, 1, 2, 3, 4, 5, 6, 7, 8, 9, 10 :: int}"
  shows "days_in_month y (civil_month j) = month_start (j + 1) - month_start j"
  using assms by (elim insertE) (simp_all add: days_in_month_def civil_month_def month_start_def)

lemma february_length: "days_in_month (y + 1) 2 = march_year y - month_start 11"
  by (simp add: days_in_month_def march_year_def month_start_def)

lemma march_date_next:
  assumes "0 \<le> doy" and "doy + 1 < march_year y"
  shows "march_date (y, doy + 1) = next_day (march_date (y, doy))"
proof -
  have le: "doy \<le> 364" using assms(2) by (simp add: march_year_def split: if_splits)
  then have "doy \<le> 365" by simp
  then obtain j where j: "(5 * doy + 2) div 153 = j" "153 * j \<le> 5 * doy + 2" "5 * doy + 2 < 153 * j + 153"
    and js: "j \<in> {0, 1, 2, 3, 4, 5, 6, 7, 8, 9, 10, 11}"
    using month_range [OF assms(1)] by blast
  show ?thesis
  proof (cases "5 * (doy + 1) + 2 < 153 * j + 153")
    case True
    then have up: "(5 * (doy + 1) + 2) div 153 = j" using j(2) by (intro div153) simp_all
    have "doy + 2 \<le> month_start (j + 1)" using True unfolding month_start_def by (intro le_div5) simp
    then have "doy - month_start j + 1 < days_in_month (if civil_month j \<le> 2 then y + 1 else y) (civil_month j)"
      using month_length [of j] js february_length [of y] assms(2) by (cases "j = 11") (auto simp: civil_month_def)
    with assms(1) show ?thesis
      by (simp add: march_date_eq [OF _ j(1)] march_date_eq [OF _ up] next_day_def)
  next
    case False
    then have up: "(5 * (doy + 1) + 2) div 153 = j + 1" using j(3) by (intro div153) simp_all
    have s: "month_start (j + 1) = doy + 1" using False j(3) unfolding month_start_def by (intro div5_eq) simp_all
    then have "j \<noteq> 11" using le by (auto simp: month_start_def)
    with js have js': "j \<in> {0, 1, 2, 3, 4, 5, 6, 7, 8, 9, 10}" by blast
    have "\<not> doy - month_start j + 1 < days_in_month (if civil_month j \<le> 2 then y + 1 else y) (civil_month j)"
      using month_length [OF js'] s by simp
    moreover have "civil_month (j + 1) = (if civil_month j < 12 then civil_month j + 1 else 1)"
      and "civil_month j < 12 \<Longrightarrow> civil_month (j + 1) \<le> 2 \<longleftrightarrow> civil_month j \<le> 2"
      and "\<not> civil_month j < 12 \<Longrightarrow> \<not> civil_month j \<le> 2"
      using js' by (elim insertE; simp add: civil_month_def)+
    ultimately show ?thesis
      using assms(1) s by (simp add: march_date_eq [OF _ j(1)] march_date_eq [OF _ up] next_day_def)
  qed
qed

lemma march_date_new_year:
  assumes "doy = march_year y - 1"
  shows "march_date (y + 1, 0) = next_day (march_date (y, doy))"
  using assms
  by (cases "leap_year (y + 1)")
     (simp_all add: march_date_def Let_def next_day_def days_in_month_def march_year_def)

lemma civil_next: "civil_from_days (n + 1) = next_day (civil_from_days n)"
proof -
  obtain y doy where c: "march_coords n = (y, doy)" by fastforce
  note b = march_coords_bounds [OF c]
  show ?thesis
  proof (cases "doy + 1 < march_year y")
    case True
    with b c march_coords_next [OF c] show ?thesis
      by (simp add: civil_from_days_march march_date_next)
  next
    case False
    with b have "doy = march_year y - 1" by simp
    from march_date_new_year [OF this] False c march_coords_next [OF c] show ?thesis
      by (simp add: civil_from_days_march)
  qed
qed

section \<open>The day number of a date\<close>

definition days_from_civil :: "int \<times> int \<times> int \<Rightarrow> int" where
  "days_from_civil = (\<lambda>(y, m, d).
     let y' = (if m \<le> 2 then y - 1 else y); j = (if m \<le> 2 then m + 9 else m - 3)
     in 146097 * (y' div 400) + year_start (y' mod 400) + (month_start j + d - 1) - 719468)"

lemma march_date_inverse:
  assumes "0 \<le> doy" and "doy \<le> 365" and "march_date (y, doy) = (y1, m, d)"
  shows "(if m \<le> 2 then y1 - 1 else y1) = y" and "month_start (if m \<le> 2 then m + 9 else m - 3) + d - 1 = doy"
    and "1 \<le> m" "m \<le> 12" "1 \<le> d" "d \<le> 31" "y \<le> y1"
proof -
  obtain j where j: "(5 * doy + 2) div 153 = j" "153 * j \<le> 5 * doy + 2" "5 * doy + 2 < 153 * j + 153"
    and js: "j \<in> {0, 1, 2, 3, 4, 5, 6, 7, 8, 9, 10, 11}"
    using month_range [OF assms(1,2)] by blast
  have e: "y1 = (if m \<le> 2 then y + 1 else y)" "m = civil_month j" "d = doy - month_start j + 1"
    using assms(3) by (auto simp: march_date_eq [OF assms(1) j(1)])
  have bk: "(if civil_month j \<le> 2 then civil_month j + 9 else civil_month j - 3) = j"
    and "1 \<le> civil_month j" "civil_month j \<le> 12"
    using js by (elim insertE; simp add: civil_month_def)+
  then show "1 \<le> m" "m \<le> 12" "y \<le> y1" "(if m \<le> 2 then y1 - 1 else y1) = y" by (simp_all add: e)
  show "month_start (if m \<le> 2 then m + 9 else m - 3) + d - 1 = doy" unfolding e(2) bk using e(3) by simp
  show "1 \<le> d" "d \<le> 31" using j(2,3) unfolding e(3) month_start_def by linarith+
qed

lemma days_from_civil_inverse: "days_from_civil (civil_from_days n) = n"
proof -
  obtain y doy where c: "march_coords n = (y, doy)" by fastforce
  have b: "0 \<le> doy" "doy \<le> 365"
    using march_coords_bounds [OF c] by (auto simp: march_year_def split: if_splits)
  obtain y1 m d where md: "march_date (y, doy) = (y1, m, d)" using prod_cases3 by blast
  note inv = march_date_inverse [OF b md]
  let ?z = "n + 719468"
  have yoe: "0 \<le> yoe_of (?z mod 146097)" "yoe_of (?z mod 146097) \<le> 399"
    using year_of_day [of "?z mod 146097"] by simp_all
  then have "y div 400 = ?z div 146097" "y mod 400 = yoe_of (?z mod 146097)"
    using c by (auto simp: march_coords_def Let_def)
  moreover have "doy = ?z mod 146097 - year_start (yoe_of (?z mod 146097))"
    using c by (auto simp: march_coords_def Let_def)
  ultimately have "146097 * (y div 400) + year_start (y mod 400) + doy - 719468 = n"
    by (simp add: minus_mod_eq_mult_div [symmetric])
  then show ?thesis
    using inv(1,2) c by (simp add: civil_from_days_march md days_from_civil_def Let_def)
qed

lemma civil_from_days_range:
  assumes "0 \<le> n" and "civil_from_days n = (y, m, d)"
  shows "0 \<le> y" "1 \<le> m" "m \<le> 12" "1 \<le> d" "d \<le> 31"
proof -
  obtain y0 doy where c: "march_coords n = (y0, doy)" by fastforce
  have b: "0 \<le> doy" "doy \<le> 365"
    using march_coords_bounds [OF c] by (auto simp: march_year_def split: if_splits)
  have "0 \<le> (n + 719468) div 146097" using assms(1) by simp
  moreover have "0 \<le> yoe_of ((n + 719468) mod 146097)" using year_of_day [of "(n + 719468) mod 146097"] by simp
  ultimately have "0 \<le> y0" using c by (auto simp: march_coords_def Let_def)
  moreover have md: "march_date (y0, doy) = (y, m, d)" using assms(2) c by (simp add: civil_from_days_march)
  ultimately show "0 \<le> y" "1 \<le> m" "m \<le> 12" "1 \<le> d" "d \<le> 31"
    using march_date_inverse(3-7) [OF b md] by simp_all
qed

section \<open>Minute keys\<close>

lemma parse_digits_zeros: "parse_digits 0 (replicate k CHR ''0'' @ s) = parse_digits 0 s"
  by (induction k) (simp_all add: is_digit_def digit_val_def)

lemma show_padded_inject [simp]: "show_padded w a = show_padded w b \<longleftrightarrow> a = b"
  unfolding show_padded_def pad_zero_def by (metis option.inject parse_digits_show_nat parse_digits_zeros)

lemma show_padded_two: "n < 100 \<Longrightarrow> length (show_padded 2 n) = 2"
proof -
  assume "n < 100"
  then have "length (show_nat n) \<le> 2"
    by (subst show_nat.simps, subst show_nat.simps) auto
  then show ?thesis by (simp add: show_padded_def pad_zero_def)
qed

definition minute_fields :: "nat \<Rightarrow> nat \<times> nat \<times> nat \<times> nat \<times> nat" where
  "minute_fields now = (let (y, mo, d, h, mi, _) = civil_from_epoch (now - now mod 60) in (y, mo, d, h, mi))"

lemma minute_fields_bounds:
  assumes "minute_fields now = (y, mo, d, h, mi)"
  shows "mo < 100" "d < 100" "h < 100" "mi < 100"
proof -
  let ?e = "now - now mod 60"
  obtain y1 m1 d1 where c: "civil_from_days (int (?e div 86400)) = (y1, m1, d1)" using prod_cases3 by blast
  have hm: "(?e mod 86400) div 3600 < 100" "(?e mod 86400) mod 3600 div 60 < 100"
    by (rule less_mult_imp_div_less; rule less_le_trans [OF mod_less_divisor]; simp)+
  have f: "mo = nat m1" "d = nat d1" "h = (?e mod 86400) div 3600" "mi = (?e mod 86400) mod 3600 div 60"
    using assms c unfolding minute_fields_def civil_from_epoch_def Let_def by simp_all
  have "0 \<le> m1" "0 \<le> d1" "m1 \<le> 12" "d1 \<le> 31" using civil_from_days_range [OF _ c] by simp_all
  then have "nat m1 < 100" "nat d1 < 100" by (simp_all add: nat_less_iff)
  with hm show "mo < 100" "d < 100" "h < 100" "mi < 100" unfolding f by blast+
qed

lemma minute_fields_inject:
  assumes "minute_fields a = minute_fields b"
  shows "a div 60 = b div 60"
proof -
  define f where "f n = n - n mod 60" for n :: nat
  have f: "f n = 60 * (n div 60)" for n by (simp add: f_def minus_mod_eq_mult_div)
  have parts: "f n = 86400 * (f n div 86400) + (3600 * (f n mod 86400 div 3600) + 60 * (f n mod 86400 mod 3600 div 60))" for n
  proof -
    have "f n mod 60 = 0" by (simp add: f)
    then have "f n mod 86400 mod 3600 mod 60 = 0" by (simp add: mod_mod_cancel)
    then have "f n mod 86400 mod 3600 = 60 * (f n mod 86400 mod 3600 div 60)" by auto
    with mult_div_mod_eq [of 86400 "f n"] mult_div_mod_eq [of 3600 "f n mod 86400"]
    show ?thesis by linarith
  qed
  obtain y m d where ca: "civil_from_days (int (f a div 86400)) = (y, m, d)" using prod_cases3 by blast
  obtain y' m' d' where cb: "civil_from_days (int (f b div 86400)) = (y', m', d')" using prod_cases3 by blast
  have eq: "nat y = nat y'" "nat m = nat m'" "nat d = nat d'" "f a mod 86400 div 3600 = f b mod 86400 div 3600"
    "f a mod 86400 mod 3600 div 60 = f b mod 86400 mod 3600 div 60"
    using assms ca cb by (auto simp: minute_fields_def civil_from_epoch_def Let_def f_def)
  have "0 \<le> y \<and> 0 \<le> m \<and> 0 \<le> d \<and> 0 \<le> y' \<and> 0 \<le> m' \<and> 0 \<le> d'"
    using civil_from_days_range [OF _ ca] civil_from_days_range [OF _ cb] by simp
  then have "(y, m, d) = (y', m', d')" using eq(1-3) by (simp only: eq_nat_nat_iff)
  then have "int (f a div 86400) = int (f b div 86400)"
    using ca cb days_from_civil_inverse by metis
  then have "f a div 86400 = f b div 86400" by (simp only: of_nat_eq_iff)
  then have "f a = f b" using parts [of a] parts [of b] eq(4,5) by metis
  then show ?thesis by (simp add: f)
qed

lemma minute_key_fields:
  "minute_key now = (case minute_fields now of (y, mo, d, h, mi) \<Rightarrow>
     show_padded 4 y @ show_padded 2 mo @ show_padded 2 d @ show_padded 2 h @ show_padded 2 mi)"
  by (simp add: minute_key_def minute_fields_def Let_def split: prod.splits)

lemma minute_key_inject: "minute_key a = minute_key b \<longleftrightarrow> a div 60 = b div 60"
proof
  assume k: "minute_key a = minute_key b"
  obtain y mo d h mi where fa: "minute_fields a = (y, mo, d, h, mi)" using prod_cases5 by blast
  obtain y' mo' d' h' mi' where fb: "minute_fields b = (y', mo', d', h', mi')" using prod_cases5 by blast
  note ba = minute_fields_bounds [OF fa] and bb = minute_fields_bounds [OF fb]
  have "minute_fields a = minute_fields b"
    using k unfolding minute_key_fields fa fb by (simp add: show_padded_two ba bb append_eq_append_conv)
  then show "a div 60 = b div 60" by (rule minute_fields_inject)
next
  assume "a div 60 = b div 60"
  then have "a - a mod 60 = b - b mod 60" by (simp add: minus_mod_eq_mult_div)
  then show "minute_key a = minute_key b" by (simp add: minute_key_def)
qed

section \<open>Properties\<close>

text \<open>The day computation is the Gregorian calendar: day 0 is the first of January 1970, and the date of
  every next day is the calendar successor (month lengths, leap years and century rule) of the date
  before it, for all days before and after.\<close>

lemma civil_days_follow_calendar:
  "civil_from_days 0 = (1970, 1, 1) \<and> civil_from_days (n + 1) = next_day (civil_from_days n)"
proof
  show "civil_from_days 0 = (1970, 1, 1)" by code_simp
  show "civil_from_days (n + 1) = next_day (civil_from_days n)" by (rule civil_next)
qed

text \<open>A boundary key identifies its minute: two times have the same key if and only if they lie in the same
  minute, so comparing keys is comparing minutes, in every year.\<close>
lemma minute_key_identifies_minute:
  "minute_key a = minute_key b \<longleftrightarrow> a div 60 = b div 60"
  by (rule minute_key_inject)

text \<open>A cron part \<open>lo-hi/step\<close> inside its bounds expands to exactly the values from \<open>lo\<close> to \<open>hi\<close> that are a
  multiple of the step away from \<open>lo\<close>, as long as the step does not reach the top of the \<open>u32\<close> range.\<close>

lemma field_part_expands:
  assumes "field_step part = Some (rng, step)" and "field_range mn mx rng = Some (lo, hi)"
    and "mn \<le> lo" and "lo \<le> hi" and "hi \<le> mx" and "mx \<le> 59" and "step < 2 ^ 32 - 59"
  shows "\<exists>vs. field_part mn mx part = Some vs \<and> set vs = {x. lo \<le> x \<and> x \<le> hi \<and> step dvd x - lo}"
proof -
  have "0 < step" using assms(1) by (auto simp: field_step_def split: option.splits if_splits)
  then have "set (expand_field step hi lo) = {x. lo \<le> x \<and> x \<le> hi \<and> step dvd x - lo}"
    using assms by (intro expand_field_set) simp_all
  with assms show ?thesis by (simp add: field_part_def)
qed

lemma field_part_expands_witness:
  "\<exists>vs. field_part 0 59 ''5-20/5'' = Some vs \<and> set vs = {x. 5 \<le> x \<and> x \<le> 20 \<and> 5 dvd x - (5 :: nat)}"
  by (rule field_part_expands [where rng = "''5-20''"])
     (simp_all add: field_step_def field_range_def parse_unsigned_def is_digit_def digit_val_def)

text \<open>A step at the top of the \<open>u32\<close> range wraps around in the expansion loop: the day field \<open>5-10/4294967295\<close>

  is accepted and contains the values 4 down to 0, which are outside the range the specification gave, and
  0 is not a day of the month at all.\<close>

lemma huge_step_wraps_around:
  "field_parse ''5-10/4294967295'' 1 31 = Some {5, 4, 3, 2, 1, 0}"
  by (simp add: field_parse_def field_part_def field_step_def field_range_def parse_unsigned_def is_digit_def
      digit_val_def expand_field.simps)

text \<open>The usual reading of a cron specification: when both the day of the month and the day of the week are
  restricted either may match, otherwise both must; 0 and 7 are Sunday.\<close>

definition cron_reference :: "cron_spec \<Rightarrow> nat \<Rightarrow> bool" where
  "cron_reference c epoch_secs =
     (let (_, mo, d, h, mi, dow) = civil_from_epoch (epoch_secs - epoch_secs mod 60);
          weekdays = (\<lambda>w. w mod 7) ` cs_weekday c
      in mo \<in> cs_month c \<and> h \<in> cs_hour c \<and> mi \<in> cs_minute c
         \<and> (if cs_day c \<noteq> {1..31} \<and> weekdays \<noteq> {0..6} then d \<in> cs_day c \<or> dow \<in> weekdays
            else d \<in> cs_day c \<and> dow \<in> weekdays))"

lemma weekday_seven:
  assumes "wd \<subseteq> {0..7 :: nat}" and "dow < 7"
  shows "dow \<in> (\<lambda>w. w mod 7) ` wd \<longleftrightarrow> dow \<in> wd \<or> (dow = 0 \<and> 7 \<in> wd)"
proof -
  have "w mod 7 = (if w = 7 then 0 else w)" if "w \<in> wd" for w
    using that assms(1) by (cases "w = 7") auto
  then have "(\<lambda>w. w mod 7) ` wd = (\<lambda>w. if w = 7 then 0 else w) ` wd" by (rule image_cong [OF refl])
  with assms(2) show ?thesis by (auto simp: image_iff)
qed

lemma weekday_restricted:
  assumes "wd \<subseteq> {0..7 :: nat}" and "\<not> (0 \<in> wd \<and> 7 \<in> wd)"
  shows "(\<lambda>w. w mod 7) ` wd \<noteq> {0..6} \<longleftrightarrow> card wd < 7"
proof -
  have fin: "finite wd" using assms(1) finite_subset by blast
  have "inj_on (\<lambda>w. w mod 7) wd"
  proof (rule inj_onI)
    fix x y assume xy: "x \<in> wd" "y \<in> wd" "x mod 7 = y mod 7"
    with assms(1) have "x \<le> 7" "y \<le> 7" by auto
    with xy assms(2) show "x = y" by (cases "x = 7"; cases "y = 7") auto
  qed
  then have c: "card ((\<lambda>w. w mod 7) ` wd) = card wd" by (rule card_image)
  have sub: "(\<lambda>w. w mod 7) ` wd \<subseteq> {0..6}" by (auto simp: less_Suc_eq_le [symmetric])
  then have "card wd \<le> 7" using card_mono [OF _ sub] c by simp
  moreover have "(\<lambda>w. w mod 7) ` wd = {0..6} \<longleftrightarrow> card wd = 7"
    using card_subset_eq [OF _ sub] c by auto
  ultimately show ?thesis by auto
qed

text \<open>Matching agrees with the usual cron rule for every specification with values in range that does not
  list both 0 and 7 for Sunday.\<close>

lemma matches_minute_is_cron:
  assumes "cs_day c \<subseteq> {1..31}" and "cs_weekday c \<subseteq> {0..7}" and "\<not> (0 \<in> cs_weekday c \<and> 7 \<in> cs_weekday c)"
  shows "matches_minute c t = cron_reference c t"
proof -
  obtain y mo d h mi dow where e: "civil_from_epoch (t - t mod 60) = (y, mo, d, h, mi, dow)"
    using prod_cases6 by blast
  then have "dow = nat ((int ((t - t mod 60) div 86400) + 4) mod 7)"
    unfolding civil_from_epoch_def Let_def by (simp split: prod.splits)
  then have "dow < 7" by (simp add: nat_less_iff)
  have "card (cs_day c) < 31 \<longleftrightarrow> cs_day c \<noteq> {1..31}"
  proof -
    have "card (cs_day c) \<le> 31" using card_mono [OF _ assms(1)] by simp
    moreover have "card (cs_day c) = 31 \<longleftrightarrow> cs_day c = {1..31}" using card_subset_eq [OF _ assms(1)] by auto
    ultimately show ?thesis by auto
  qed
  then show ?thesis
    using weekday_seven [OF assms(2) \<open>dow < 7\<close>] weekday_restricted [OF assms(2,3)] e
    by (auto simp: matches_minute_def cron_reference_def Let_def)
qed

definition cron0 :: cron_spec where
  "cron0 = \<lparr>cs_minute = {0}, cs_hour = {0}, cs_day = {1}, cs_month = {1..12}, cs_weekday = {1}\<rparr>"

lemma matches_minute_is_cron_witness:
  "matches_minute cron0 (4 * 86400) = cron_reference cron0 (4 * 86400)"
  by (rule matches_minute_is_cron) (simp_all add: cron0_def)

text \<open>A weekday list that names Sunday twice and leaves one day out, such as \<open>0-3,5-7\<close>, has seven values and is
  taken for unrestricted: combined with a restricted day of the month the specification then needs both
  to match, where the rule says either.\<close>
lemma double_sunday_counts_as_every_day:
  "\<exists>c t. field_parse ''0-3,5-7'' 0 7 = Some (cs_weekday c) \<and> cs_day c = {2} \<and> cron_reference c t \<and> \<not> matches_minute c t"
proof -
  define c where "c = \<lparr>cs_minute = {0 :: nat}, cs_hour = {0 :: nat}, cs_day = {2 :: nat}, cs_month = {1..12 :: nat},
    cs_weekday = {0, 1, 2, 3, 5, 6, 7 :: nat}\<rparr>"
  have "civil_from_days (int (172800 div 86400)) = (1970, 1, 3)" by simp code_simp
  then have e: "civil_from_epoch 172800 = (1970, 1, 3, 0, 0, 6)" by (simp add: civil_from_epoch_def Let_def)
  have no4: "4 \<notin> (\<lambda>w. w mod 7) ` cs_weekday c" by (auto simp: c_def)
  have "field_parse ''0-3,5-7'' 0 7 = Some (cs_weekday c)"
    by (auto simp: c_def field_parse_def field_part_def field_step_def field_range_def parse_unsigned_def is_digit_def
        digit_val_def expand_field.simps)
  moreover have "1 \<in> {1..31 :: nat} \<and> 1 \<notin> cs_day c" by (simp add: c_def)
  then have "cs_day c \<noteq> {1..31}" by blast
  then have "cron_reference c 172800"
    using no4 by (auto simp: cron_reference_def e c_def)
  moreover have "\<not> matches_minute c 172800" by (simp add: matches_minute_def e c_def)
  ultimately show ?thesis by (intro exI [of _ c] exI [of _ 172800]) (simp add: c_def)
qed

end
