(* ===== verification/Rust_Text.thy ===== *)
theory Rust_Text
  imports Prelude
begin

text \<open>
  Pieces of the standard library's text handling that several components use: signed integer parsing
  and the \<open>Debug\<close> rendering of strings (\<open>{:?}\<close>).
\<close>

text \<open>\<open>str::parse::<i64>\<close>: an optional sign and at least one digit, within range.\<close>

definition parse_i64 :: "string \<Rightarrow> int option" where
  "parse_i64 s =
     (let (neg, t) = (case s of [] \<Rightarrow> (False, []) | c # cs \<Rightarrow>
                        if c = CHR ''-'' then (True, cs) else if c = CHR ''+'' then (False, cs) else (False, s))
      in if t = [] then None
         else (case parse_digits 0 t of
                 None \<Rightarrow> None
               | Some n \<Rightarrow> (if neg then if n \<le> 2 ^ 63 then Some (- int n) else None
                             else if n < 2 ^ 63 then Some (int n) else None)))"

text \<open>The \<open>Debug\<close> text of a string: quoted, with quotes, backslashes and control characters escaped.\<close>

definition hex_digit :: "nat \<Rightarrow> char" where
  "hex_digit n = (if n < 10 then char_of (48 + n) else char_of (87 + n))"

definition debug_char :: "char \<Rightarrow> string" where
  "debug_char c =
     (if c = CHR 0x22 then [CHR 0x5C, CHR 0x22]
      else if c = CHR 0x5C then [CHR 0x5C, CHR 0x5C]
      else if c = CHR 0x0A then [CHR 0x5C, CHR ''n'']
      else if c = CHR 0x0D then [CHR 0x5C, CHR ''r'']
      else if c = CHR 0x09 then [CHR 0x5C, CHR ''t'']
      else if c = CHR 0x00 then [CHR 0x5C, CHR ''0'']
      else let n = (of_char c :: nat) in
        if n < 32 \<or> n = 127
        then [CHR 0x5C] @ ''u{'' @ (if n < 16 then [hex_digit n] else [hex_digit (n div 16), hex_digit (n mod 16)]) @ ''}''
        else [c])"

definition debug_str :: "string \<Rightarrow> string" where
  "debug_str s = [CHR 0x22] @ concat (map debug_char s) @ [CHR 0x22]"

text \<open>A slice \<open>&s[i..]\<close> or \<open>&s[..i]\<close> is taken at a character boundary, never before a continuation byte.\<close>

definition is_continuation :: "char \<Rightarrow> bool" where
  "is_continuation c = (128 \<le> (of_char c :: nat) \<and> (of_char c :: nat) < 192)"

definition char_boundary :: "string \<Rightarrow> nat \<Rightarrow> bool" where
  "char_boundary s i = (i = length s \<or> (i < length s \<and> \<not> is_continuation (s ! i)))"

text \<open>
  \<open>str::from_utf8\<close>: whether a byte string is UTF-8. Reading a file into a string fails when it is not.
\<close>

definition byte_in :: "nat \<Rightarrow> nat \<Rightarrow> char \<Rightarrow> bool" where
  "byte_in lo hi c = (lo \<le> (of_char c :: nat) \<and> (of_char c :: nat) \<le> hi)"

fun valid_utf8 :: "string \<Rightarrow> bool" where
  "valid_utf8 [] = True"
| "valid_utf8 (a # s) =
     (if byte_in 0 127 a then valid_utf8 s
      else case s of
        [] \<Rightarrow> False
      | b # s1 \<Rightarrow>
          if byte_in 194 223 a then is_continuation b \<and> valid_utf8 s1
          else case s1 of
            [] \<Rightarrow> False
          | c # s2 \<Rightarrow>
              if byte_in 224 224 a then byte_in 160 191 b \<and> is_continuation c \<and> valid_utf8 s2
              else if byte_in 237 237 a then byte_in 128 159 b \<and> is_continuation c \<and> valid_utf8 s2
              else if byte_in 225 239 a then is_continuation b \<and> is_continuation c \<and> valid_utf8 s2
              else case s2 of
                [] \<Rightarrow> False
              | d # s3 \<Rightarrow>
                  if byte_in 240 240 a then byte_in 144 191 b \<and> is_continuation c \<and> is_continuation d \<and> valid_utf8 s3
                  else if byte_in 241 243 a
                  then is_continuation b \<and> is_continuation c \<and> is_continuation d \<and> valid_utf8 s3
                  else byte_in 244 244 a \<and> byte_in 128 143 b \<and> is_continuation c \<and> is_continuation d \<and> valid_utf8 s3)"

text \<open>
  \<open>str::lines\<close> and \<open>BufRead::lines\<close>: the pieces between line feeds, without a last empty piece and
  without the carriage return that may end a line.
\<close>

definition strip_cr :: "string \<Rightarrow> string" where
  "strip_cr l = (if l \<noteq> [] \<and> last l = CHR 0x0D then butlast l else l)"

definition str_lines :: "string \<Rightarrow> string list" where
  "str_lines s =
     (let ps = str_split (\<lambda>c. c = CHR 0x0A) s
      in map strip_cr (if last ps = [] then butlast ps else ps))"

text \<open>\<open>join(sep)\<close>.\<close>

fun str_join :: "string \<Rightarrow> string list \<Rightarrow> string" where
  "str_join sep [] = []"
| "str_join sep [x] = x"
| "str_join sep (x # xs) = x @ sep @ str_join sep xs"

text \<open>\<open>strip_prefix\<close>.\<close>

definition strip_prefix :: "string \<Rightarrow> string \<Rightarrow> string option" where
  "strip_prefix p s = (if starts_with s p then Some (drop (length p) s) else None)"

text \<open>\<open>to_lowercase\<close> on ASCII text; other bytes are left alone.\<close>

definition lower_char :: "char \<Rightarrow> char" where
  "lower_char c = (let n = (of_char c :: nat) in if 65 \<le> n \<and> n \<le> 90 then char_of (n + 32) else c)"

definition to_lowercase :: "string \<Rightarrow> string" where
  "to_lowercase s = map lower_char s"

lemma str_split_append: "p d \<Longrightarrow> str_split p (a @ [d] @ b) = str_split p a @ str_split p b"
proof (induction a)
  case (Cons c a)
  then show ?case by (cases "str_split p a") (auto split: list.splits)
qed simp

text \<open>Lines written one after another, each with its line feed, are read back as they were.\<close>

lemma str_lines_written:
  assumes "\<forall>l \<in> set ls. CHR 0x0A \<notin> set l \<and> (l = [] \<or> last l \<noteq> CHR 0x0D)"
  shows "str_lines (concat (map (\<lambda>l. l @ [CHR 0x0A]) ls)) = ls"
proof -
  have "str_split (\<lambda>c. c = CHR 0x0A) (concat (map (\<lambda>l. l @ [CHR 0x0A]) ls)) = ls @ [[]]"
    using assms
  proof (induction ls)
    case (Cons l ls)
    have "str_split (\<lambda>c. c = CHR 0x0A) l = [l]" using Cons.prems by (intro str_split_none) auto
    then show ?case
      using Cons str_split_append [of "\<lambda>c. c = CHR 0x0A" "CHR 0x0A" l "concat (map (\<lambda>l. l @ [CHR 0x0A]) ls)"] by simp
  qed simp
  moreover have "map strip_cr ls = ls" using assms by (intro map_idI) (auto simp: strip_cr_def)
  ultimately show ?thesis by (simp add: str_lines_def)
qed

lemma valid_utf8_ascii_append: "list_all (byte_in 0 127) a \<Longrightarrow> valid_utf8 (a @ b) = valid_utf8 b"
  by (induction a) simp_all

text \<open>A file of written lines with a last line that has no line feed yet.\<close>

lemma str_lines_torn:
  assumes "\<forall>l \<in> set (t # ls). CHR 0x0A \<notin> set l \<and> (l = [] \<or> last l \<noteq> CHR 0x0D)" and "t \<noteq> []"
  shows "str_lines (concat (map (\<lambda>l. l @ [CHR 0x0A]) ls) @ t) = ls @ [t]"
proof -
  let ?sp = "str_split (\<lambda>c. c = CHR 0x0A)"
  have t: "?sp t = [t]" using assms(1) by (intro str_split_none) auto
  have "?sp (concat (map (\<lambda>l. l @ [CHR 0x0A]) ls) @ t) = ls @ [t]"
    using assms(1)
  proof (induction ls)
    case (Cons l ls)
    have "?sp l = [l]" using Cons.prems by (intro str_split_none) auto
    then show ?case
      using Cons str_split_append [of "\<lambda>c. c = CHR 0x0A" "CHR 0x0A" l "concat (map (\<lambda>l. l @ [CHR 0x0A]) ls) @ t"] by simp
  qed (simp add: t)
  moreover have "map strip_cr (ls @ [t]) = ls @ [t]" using assms(1) by (intro map_idI) (auto simp: strip_cr_def)
  ultimately show ?thesis using assms(2) by (simp add: str_lines_def)
qed

lemma parse_i64_show_nat: "n < 2 ^ 63 \<Longrightarrow> parse_i64 (show_nat n) = Some (int n)"
proof -
  assume n: "n < 2 ^ 63"
  obtain c cs where s: "show_nat n = c # cs" by (cases "show_nat n") auto
  then have "is_digit c" using show_nat_digits [of c n] by simp
  then have "c \<noteq> CHR ''+''" "c \<noteq> CHR ''-''" by (auto simp: is_digit_def)
  then show ?thesis using n s parse_digits_show_nat [of n] by (simp add: parse_i64_def)
qed

text \<open>The text behind the last colon of a key.\<close>

lemma colon_split:
  assumes "t @ '':'' @ f = u @ '':'' @ g" and "CHR '':'' \<notin> set f" and "CHR '':'' \<notin> set g"
  shows "t = u \<and> f = g"
proof -
  have "takeWhile (\<lambda>c. c \<noteq> CHR '':'') (rev h @ CHR '':'' # rev v) = rev h" if "CHR '':'' \<notin> set h" for h v
    using that by (subst takeWhile_append2) auto
  moreover have "rev f @ CHR '':'' # rev t = rev g @ CHR '':'' # rev u" using arg_cong [OF assms(1), of rev] by simp
  ultimately have "rev f = rev g" using assms(2,3) by metis
  then show ?thesis using assms(1) by simp
qed

end
