(* ===== verification/Automation_Engine.thy ===== *)
theory Automation_Engine
  imports Projection_Properties Store_Registries Cron Rust_Text
begin

text \<open>
  The automation engine of \<^verbatim>\<open>crates/core-runtime/src/automation.rs\<close>: one \<open>tick\<close> fires every due cron automation
  and every event automation that has unconsumed events, by creating and queueing a task through the
  command processor, and records the fire. The identifiers drawn by the commands of one fire are the
  record \<open>spawn_fresh\<close>; \<open>tick\<close> takes one per position of the automation list.
\<close>

record spawn_fresh =
  sf_cmd1 :: string
  sf_fresh1 :: fresh
  sf_cmd2 :: string
  sf_fresh2 :: fresh

record tick_outcome =
  to_fired :: "(string \<times> string) list"
  to_errors :: "string list"

definition aggregate_of :: "'p db \<Rightarrow> outcome \<Rightarrow> string option" where
  "aggregate_of d out =
     (case (case out of Applied ids \<Rightarrow> Some ids | Replayed ids \<Rightarrow> Some ids | Rejected _ \<Rightarrow> None) of
        Some (i # _) \<Rightarrow> map_option row_aggregate_id (find (\<lambda>r. row_event_id r = i) (t_events d))
      | _ \<Rightarrow> None)"

definition default_session :: "'p db \<Rightarrow> string option" where
  "default_session d =
     map_option row_aggregate_id (find (\<lambda>r. row_aggregate_type r = ''session'') (t_events d))"

definition system_command :: "automation \<Rightarrow> string \<Rightarrow> command_payload \<Rightarrow> command" where
  "system_command a cid p =
     \<lparr>cmd_id = cid, cmd_actor = \<lparr>actor_kind = Actor_System, actor_name = at_automation_id a\<rparr>, cmd_payload = p\<rparr>"

definition spawn_task ::
  "'p ext \<Rightarrow> spawn_fresh \<Rightarrow> automation \<Rightarrow> 'p db \<Rightarrow> (string, string) result \<times> 'p db" where
  "spawn_task X f a d =
     (case default_session d of
        None \<Rightarrow> (Inl ''no session exists yet'', d)
      | Some s0 \<Rightarrow>
        (case x_parse_uuid X s0 of
           None \<Rightarrow> (Inl (''bad session: '' @ x_uuid_error X s0), d)
         | Some s \<Rightarrow>
           (let (out, d1) = execute X (sf_fresh1 f)
                  (system_command a (sf_cmd1 f)
                     (CreateTask s (''automation: '' @ at_name a) (at_objective a) None None None)) d
            in (case aggregate_of d1 out of
                  None \<Rightarrow> (Inl ''automation fire produced no task'', d1)
                | Some task \<Rightarrow>
                  (case x_parse_uuid X task of
                     None \<Rightarrow> (Inl (x_uuid_error X task), d1)
                   | Some tid \<Rightarrow>
                       (Inr task, snd (execute X (sf_fresh2 f) (system_command a (sf_cmd2 f) (QueueTask tid)) d1)))))))"

text \<open>Fire one automation: spawn its task and record the key, or report the error.\<close>

definition fire ::
  "'p ext \<Rightarrow> spawn_fresh \<Rightarrow> automation \<Rightarrow> string \<Rightarrow> tick_outcome \<times> 'p db \<Rightarrow> tick_outcome \<times> 'p db" where
  "fire X f a key st =
     (case spawn_task X f a (snd st) of
        (Inr task, d') \<Rightarrow>
          ((fst st)\<lparr>to_fired := to_fired (fst st) @ [(at_automation_id a, task)]\<rparr>,
           record_fire (at_automation_id a) key d')
      | (Inl e, d') \<Rightarrow>
          ((fst st)\<lparr>to_errors := to_errors (fst st) @ [at_automation_id a @ '': '' @ e]\<rparr>, d'))"

definition event_matches :: "'p db \<Rightarrow> automation \<Rightarrow> nat list" where
  "event_matches d a =
     (let consumed = (case parse_i64 (at_last_fire_key a) of None \<Rightarrow> - 1 | Some n \<Rightarrow> n)
      in map fst (filter (\<lambda>(i, r). row_event_type r = at_event_pattern a \<and> consumed < int i)
                    (zip [1..<Suc (length (t_events d))] (t_events d))))"

definition tick_one ::
  "'p ext \<Rightarrow> nat \<Rightarrow> spawn_fresh \<Rightarrow> automation \<Rightarrow> tick_outcome \<times> 'p db \<Rightarrow> tick_outcome \<times> 'p db" where
  "tick_one X now f a st =
     (if \<not> at_enabled a then st
      else if at_event_pattern a = [] then
        (let epoch = now - now mod 60
         in case cron_parse (at_cron a) of
              None \<Rightarrow> ((fst st)\<lparr>to_errors := to_errors (fst st) @
                        [at_automation_id a @ '': unparsable cron '' @ debug_str (at_cron a)]\<rparr>, snd st)
            | Some spec \<Rightarrow>
                if at_last_fire_key a = minute_key now \<or> \<not> matches_minute spec epoch then st
                else fire X f a (minute_key now) st)
      else
        (let ms = event_matches (snd st) a
         in if ms = [] then st else fire X f a (show_nat (last ms)) st))"

fun tick_loop ::
  "'p ext \<Rightarrow> nat \<Rightarrow> (nat \<Rightarrow> spawn_fresh) \<Rightarrow> nat \<Rightarrow> automation list \<Rightarrow> tick_outcome \<times> 'p db \<Rightarrow> tick_outcome \<times> 'p db" where
  "tick_loop X now fs k [] st = st"
| "tick_loop X now fs k (a # as) st = tick_loop X now fs (Suc k) as (tick_one X now (fs k) a st)"

definition tick :: "'p ext \<Rightarrow> nat \<Rightarrow> (nat \<Rightarrow> spawn_fresh) \<Rightarrow> 'p db \<Rightarrow> tick_outcome \<times> 'p db" where
  "tick X now fs d =
     tick_loop X now fs 0 (automation_list d) (\<lparr>to_fired = [], to_errors = []\<rparr>, d)"

section \<open>Lemmas\<close>

definition automation_ids_distinct :: "'p db \<Rightarrow> bool" where
  "automation_ids_distinct d = distinct (map au_automation_id (t_automations d))"

lemma insert_planned_automations: "t_automations (snd (insert_planned X es ids d)) = t_automations d"
proof (induction es arbitrary: ids d)
  case Nil
  show ?case by simp
next
  case (Cons e es)
  have "insert_event_row (command_row_of X e) d = Inr d1 \<Longrightarrow> t_automations d1 = t_automations d" for d1
    using insert_event_row_Inr by fastforce
  with Cons.IH show ?case by (auto split: sum.splits dest: project_frame)
qed

lemma execute_automations: "t_automations (snd (execute X f c d)) = t_automations d"
  using insert_planned_automations [of X _ "[]" d]
  by (auto simp: execute_def plan_and_append_def log_command_def split: option.splits sum.splits prod.splits)
     (metis snd_conv)+

lemma execute_automations': "execute X f c d = (out, d1) \<Longrightarrow> t_automations d1 = t_automations d"
  using execute_automations [of X f c d] by simp

lemma spawn_task_automations: "t_automations (snd (spawn_task X f a d)) = t_automations d"
  by (auto simp: spawn_task_def Let_def execute_automations split: option.splits prod.splits
      dest: execute_automations')

definition rows_with_id :: "'p db \<Rightarrow> string \<Rightarrow> automation_row list" where
  "rows_with_id d i = filter (\<lambda>r. au_automation_id r = i) (t_automations d)"

lemma filter_map_keyed:
  "(\<And>r. k (g r) = k r) \<Longrightarrow>
   filter (\<lambda>r. k r = j) (map (\<lambda>r. if k r = i then g r else r) xs) =
     (if i = j then map g (filter (\<lambda>r. k r = j) xs) else filter (\<lambda>r. k r = j) xs)"
  by (induction xs) auto

lemma record_fire_rows:
  "rows_with_id (record_fire i key d) j =
     (if i = j then map (\<lambda>r. r\<lparr>au_last_fire_key := key\<rparr>) (rows_with_id d j) else rows_with_id d j)"
  by (simp add: record_fire_def update_automation_def rows_with_id_def filter_map_keyed)

text \<open>A fire either reports a task and marks the automation's rows, or reports an error and marks nothing.\<close>

lemma fire_cases:
  obtains (fired) task where "to_fired (fst (fire X f a key st)) = to_fired (fst st) @ [(at_automation_id a, task)]"
      and "\<And>j. rows_with_id (snd (fire X f a key st)) j =
        (if at_automation_id a = j then map (\<lambda>r. r\<lparr>au_last_fire_key := key\<rparr>) (rows_with_id (snd st) j)
         else rows_with_id (snd st) j)"
  | (failed) "to_fired (fst (fire X f a key st)) = to_fired (fst st)"
      and "\<And>j. rows_with_id (snd (fire X f a key st)) j = rows_with_id (snd st) j"
proof (cases "spawn_task X f a (snd st)")
  case (Pair res d')
  then have "t_automations d' = t_automations (snd st)"
    using spawn_task_automations [of X f a "snd st"] by simp
  then have same: "rows_with_id d' j = rows_with_id (snd st) j" for j by (simp add: rows_with_id_def)
  show ?thesis
  proof (cases res)
    case (Inl e)
    with Pair same failed show ?thesis by (simp add: fire_def)
  next
    case (Inr task)
    with Pair same fired show ?thesis by (simp add: fire_def record_fire_rows)
  qed
qed

lemma tick_one_cases:
  obtains (idle) "to_fired (fst (tick_one X now f a st)) = to_fired (fst st)"
      and "\<And>j. rows_with_id (snd (tick_one X now f a st)) j = rows_with_id (snd st) j"
  | (fires) key where "tick_one X now f a st = fire X f a key st"
      and "at_event_pattern a = [] \<Longrightarrow> key = minute_key now \<and> at_last_fire_key a \<noteq> minute_key now"
proof -
  have "tick_one X now f a st = st \<or> (\<exists>e. tick_one X now f a st = ((fst st)\<lparr>to_errors := e\<rparr>, snd st))
      \<or> (\<exists>key. tick_one X now f a st = fire X f a key st
           \<and> (at_event_pattern a = [] \<longrightarrow> key = minute_key now \<and> at_last_fire_key a \<noteq> minute_key now))"
    by (auto simp: tick_one_def Let_def split: option.splits)
  then show ?thesis
  proof (elim disjE exE)
    assume "tick_one X now f a st = st"
    with idle show ?thesis by simp
  next
    fix e assume "tick_one X now f a st = ((fst st)\<lparr>to_errors := e\<rparr>, snd st)"
    with idle show ?thesis by simp
  next
    fix key assume "tick_one X now f a st = fire X f a key st
      \<and> (at_event_pattern a = [] \<longrightarrow> key = minute_key now \<and> at_last_fire_key a \<noteq> minute_key now)"
    with fires show ?thesis by blast
  qed
qed

text \<open>The tasks a list of fires has for one automation.\<close>

definition fires_of :: "string \<Rightarrow> (string \<times> uuid) list \<Rightarrow> (string \<times> uuid) list" where
  "fires_of i fired = filter (\<lambda>(j, _). j = i) fired"

lemma fires_of_simps [simp]:
  "fires_of i [] = []" "fires_of i (xs @ ys) = fires_of i xs @ fires_of i ys"
  "fires_of i ((j, t) # xs) = (if j = i then (j, t) # fires_of i xs else fires_of i xs)"
  by (simp_all add: fires_of_def)

lemma tick_one_other:
  assumes "at_automation_id a \<noteq> i"
  shows "rows_with_id (snd (tick_one X now f a st)) i = rows_with_id (snd st) i
    \<and> fires_of i (to_fired (fst (tick_one X now f a st))) = fires_of i (to_fired (fst st))"
proof (cases rule: tick_one_cases [of X now f a st])
  case (fires key)
  with assms show ?thesis by (cases rule: fire_cases [of X f a key st]) auto
qed simp

lemma tick_loop_other:
  assumes "i \<notin> at_automation_id ` set as"
  shows "rows_with_id (snd (tick_loop X now fs k as st)) i = rows_with_id (snd st) i
    \<and> fires_of i (to_fired (fst (tick_loop X now fs k as st))) = fires_of i (to_fired (fst st))"
  using assms
proof (induction as arbitrary: k st)
  case (Cons a as)
  then show ?case using tick_one_other [of a i X now "fs k" st] by auto
qed simp

text \<open>What the visit of a cron automation does with its fires and its rows: nothing, or one fire, when the key is not the current
  minute, after which the current minute is in all its rows.\<close>

definition cron_visit :: "automation \<Rightarrow> nat \<Rightarrow> tick_outcome \<times> 'p db \<Rightarrow> tick_outcome \<times> 'p db \<Rightarrow> bool" where
  "cron_visit a now st st' \<longleftrightarrow>
     (let i = at_automation_id a
      in (fires_of i (to_fired (fst st')) = fires_of i (to_fired (fst st)) \<and> rows_with_id (snd st') i = rows_with_id (snd st) i)
       \<or> (\<exists>t. fires_of i (to_fired (fst st')) = fires_of i (to_fired (fst st)) @ [(i, t)]) \<and> at_last_fire_key a \<noteq> minute_key now
           \<and> (\<forall>r \<in> set (rows_with_id (snd st') i). au_last_fire_key r = minute_key now))"

lemma tick_one_cron:
  assumes "at_event_pattern a = []"
  shows "cron_visit a now st (tick_one X now f a st)"
proof (cases rule: tick_one_cases [of X now f a st])
  case idle
  then show ?thesis by (simp add: cron_visit_def)
next
  case (fires key)
  with assms show ?thesis
    by (cases rule: fire_cases [of X f a key st]) (auto simp: cron_visit_def Let_def)
qed

lemma tick_loop_cron:
  assumes "distinct (map at_automation_id as)" and "a \<in> set as" and "at_event_pattern a = []"
  shows "cron_visit a now st (tick_loop X now fs k as st)"
  using assms
proof (induction as arbitrary: k st)
  case (Cons b as)
  let ?st = "tick_one X now (fs k) b st"
  show ?case
  proof (cases "b = a")
    case True
    with Cons.prems have "at_automation_id a \<notin> at_automation_id ` set as" by auto
    from tick_loop_other [OF this, of X now fs "Suc k" ?st] tick_one_cron [OF Cons.prems(3), of now st X "fs k"] True
    show ?thesis by (simp add: cron_visit_def Let_def)
  next
    case False
    then have "a \<in> set as" "at_automation_id b \<noteq> at_automation_id a" using Cons.prems(1,2) by auto
    then show ?thesis
      using Cons.IH [where k = "Suc k" and st = ?st] Cons.prems tick_one_other [of b "at_automation_id a" X now "fs k" st]
      by (simp add: cron_visit_def Let_def)
  qed
qed simp

lemma automation_list_ids: "map at_automation_id (automation_list d) = map au_automation_id (t_automations d)"
  by (simp add: automation_list_def automation_view_def)

lemma tick_loop_rows:
  "map au_automation_id (t_automations (snd (tick_loop X now fs k as st))) = map au_automation_id (t_automations (snd st))
   \<and> map au_event_pattern (t_automations (snd (tick_loop X now fs k as st))) = map au_event_pattern (t_automations (snd st))"
proof (induction as arbitrary: k st)
  case Nil
  show ?case by simp
next
  case (Cons a as)
  have rec [simp]: "map au_automation_id (t_automations (record_fire i key d)) = map au_automation_id (t_automations d)"
    "map au_event_pattern (t_automations (record_fire i key d)) = map au_event_pattern (t_automations d)"
    for i key and d :: "'a db"
    by (simp_all add: record_fire_def update_automation_def)
  have "map au_automation_id (t_automations (snd (fire X f a key st))) = map au_automation_id (t_automations (snd st))
      \<and> map au_event_pattern (t_automations (snd (fire X f a key st))) = map au_event_pattern (t_automations (snd st))" for f key
    using spawn_task_automations [of X f a "snd st"]
    by (auto simp: fire_def split: prod.splits sum.splits)
  then have "map au_automation_id (t_automations (snd (tick_one X now (fs k) a st))) = map au_automation_id (t_automations (snd st))
      \<and> map au_event_pattern (t_automations (snd (tick_one X now (fs k) a st))) = map au_event_pattern (t_automations (snd st))"
    by (auto simp: tick_one_def Let_def split: option.splits)
  with Cons show ?case by simp
qed

section \<open>Properties\<close>

text \<open>A run of the engine: ticks, and commands of other clients on the same store between them. The first component is what all
  the ticks fired.\<close>

datatype engine_op = Tick nat "nat \<Rightarrow> spawn_fresh" | Client_Command fresh command

fun engine_run :: "'p ext \<Rightarrow> engine_op list \<Rightarrow> 'p db \<Rightarrow> (string \<times> uuid) list \<times> 'p db" where
  "engine_run X [] d = ([], d)"
| "engine_run X (Tick now fs # ops) d =
     (let (out, d1) = tick X now fs d; (fired, d2) = engine_run X ops d1 in (to_fired out @ fired, d2))"
| "engine_run X (Client_Command f c # ops) d = engine_run X ops (snd (execute X f c d))"

fun within_minute :: "nat \<Rightarrow> engine_op \<Rightarrow> bool" where
  "within_minute m (Tick now fs) = (now div 60 = m)"
| "within_minute m (Client_Command f c) = True"

definition is_cron :: "'p db \<Rightarrow> string \<Rightarrow> bool" where
  "is_cron d i \<longleftrightarrow> automation_ids_distinct d \<and> (\<forall>r \<in> set (t_automations d). au_automation_id r = i \<longrightarrow> au_event_pattern r = [])"

lemma is_cron_zip:
  "is_cron d i \<longleftrightarrow> distinct (map au_automation_id (t_automations d)) \<and>
     (\<forall>p. (i, p) \<in> set (zip (map au_automation_id (t_automations d)) (map au_event_pattern (t_automations d))) \<longrightarrow> p = [])"
  by (auto simp: is_cron_def automation_ids_distinct_def zip_map_map zip_same_conv_map)

lemma is_cron_cong:
  assumes "map au_automation_id (t_automations d') = map au_automation_id (t_automations d)"
    and "map au_event_pattern (t_automations d') = map au_event_pattern (t_automations d)"
  shows "is_cron d' i \<longleftrightarrow> is_cron d i"
  unfolding is_cron_zip assms ..

lemma tick_keeps_cron: "is_cron (snd (tick X now fs d)) i \<longleftrightarrow> is_cron d i"
  using tick_loop_rows [of X now fs 0 "automation_list d" "(\<lparr>to_fired = [], to_errors = []\<rparr>, d)"]
  by (intro is_cron_cong) (simp_all add: tick_def)

text \<open>A tick and one cron automation: no fire and the rows are as before, or one fire of an automation that had not fired in this
  minute, and then its rows say that it has.\<close>

lemma tick_cron:
  assumes "is_cron d i"
  shows "(fires_of i (to_fired (fst (tick X now fs d))) = [] \<and> rows_with_id (snd (tick X now fs d)) i = rows_with_id d i)
    \<or> (\<exists>t. fires_of i (to_fired (fst (tick X now fs d))) = [(i, t)])
        \<and> (\<exists>r \<in> set (rows_with_id d i). au_last_fire_key r \<noteq> minute_key now)
        \<and> (\<forall>r \<in> set (rows_with_id (snd (tick X now fs d)) i). au_last_fire_key r = minute_key now)"
proof (cases "i \<in> at_automation_id ` set (automation_list d)")
  case False
  from tick_loop_other [OF this, of X now fs 0 "(\<lparr>to_fired = [], to_errors = []\<rparr>, d)"]
  show ?thesis by (simp add: tick_def)
next
  case True
  then obtain r where r: "r \<in> set (t_automations d)" "au_automation_id r = i"
    by (auto simp: automation_list_def automation_view_def)
  let ?a = "automation_view r"
  have a: "distinct (map at_automation_id (automation_list d))" "?a \<in> set (automation_list d)"
    "at_event_pattern ?a = []" "at_automation_id ?a = i" "at_last_fire_key ?a = au_last_fire_key r"
  proof -
    show "distinct (map at_automation_id (automation_list d))"
      using assms by (simp add: automation_list_ids is_cron_def automation_ids_distinct_def)
    show "?a \<in> set (automation_list d)" using r by (simp add: automation_list_def)
  qed (use assms r in \<open>simp_all add: is_cron_def automation_view_def\<close>)
  have "r \<in> set (rows_with_id d i)" using r by (simp add: rows_with_id_def)
  with tick_loop_cron [OF a(1-3), of now "(\<lparr>to_fired = [], to_errors = []\<rparr>, d)" X fs 0]
  show ?thesis unfolding cron_visit_def Let_def a(4,5) tick_def fst_conv snd_conv by auto
qed

lemma fired_minute_stays_quiet:
  assumes "is_cron d i" and "\<forall>r \<in> set (rows_with_id d i). au_last_fire_key r = minute_key (60 * m)"
    and "list_all (within_minute m) ops"
  shows "fires_of i (fst (engine_run X ops d)) = []"
  using assms
proof (induction X ops d rule: engine_run.induct)
  case (2 X now fs ops d)
  have key: "minute_key now = minute_key (60 * m)" using "2.prems"(3) by (simp add: minute_key_inject)
  then have "fires_of i (to_fired (fst (tick X now fs d))) = []"
    "rows_with_id (snd (tick X now fs d)) i = rows_with_id d i"
    using tick_cron [OF "2.prems"(1), of X now fs] "2.prems"(2) by auto
  with "2.IH" [OF prod.collapse refl] "2.prems" show ?case
    by (simp add: split_beta Let_def tick_keeps_cron)
next
  case (3 X f c ops d)
  then show ?case by (simp add: is_cron_def automation_ids_distinct_def rows_with_id_def execute_automations)
qed simp

text \<open>C11: a cron automation (one without an event pattern) fires at most once per minute: all the ticks of one minute together,
  however many there are and whatever commands other clients execute between them (the store being all that survives a
  restart of the engine), fire it at most once. Automation ids are the primary key of their table.\<close>
theorem cron_fires_once_per_minute:
  assumes "automation_ids_distinct d"
    and "\<forall>r \<in> set (t_automations d). au_automation_id r = i \<longrightarrow> au_event_pattern r = []"
    and "list_all (within_minute m) ops"
  shows "length (filter (\<lambda>(j, task). j = i) (fst (engine_run X ops d))) \<le> 1"
proof -
  have "is_cron d i" using assms(1,2) by (simp add: is_cron_def)
  then have "length (fires_of i (fst (engine_run X ops d))) \<le> 1"
    using assms(3)
  proof (induction X ops d rule: engine_run.induct)
    case (2 X now fs ops d)
    let ?d1 = "snd (tick X now fs d)"
    have key: "minute_key now = minute_key (60 * m)" using "2.prems"(2) by (simp add: minute_key_inject)
    have c: "is_cron ?d1 i" using "2.prems"(1) by (simp add: tick_keeps_cron)
    from tick_cron [OF "2.prems"(1), of X now fs]
    show ?case
    proof (elim disjE conjE exE)
      assume "fires_of i (to_fired (fst (tick X now fs d))) = []"
      with "2.IH" [OF prod.collapse refl] c "2.prems"(2) show ?thesis by (simp add: split_beta Let_def)
    next
      fix t assume "fires_of i (to_fired (fst (tick X now fs d))) = [(i, t)]"
        and "\<forall>r \<in> set (rows_with_id ?d1 i). au_last_fire_key r = minute_key now"
      with fired_minute_stays_quiet [OF c, of m ops X] "2.prems"(2) key show ?thesis by (simp add: split_beta Let_def)
    qed
  next
    case (3 X f c ops d)
    then show ?case by (simp add: is_cron_def automation_ids_distinct_def execute_automations)
  qed simp
  then show ?thesis by (simp add: fires_of_def)
qed

lemma field_parse_star:
  assumes "mn \<le> mx" and "mx \<le> 59"
  shows "field_parse ''*'' mn mx = Some {mn..mx}"
proof -
  have "set (expand_field 1 mx mn) = {mn..mx}" using assms by (subst expand_field_set) auto
  with assms show ?thesis by (simp add: field_parse_def field_part_def field_step_def field_range_def)
qed

definition star_spec :: cron_spec where
  "star_spec = \<lparr>cs_minute = {0..59}, cs_hour = {0..23}, cs_day = {1..31}, cs_month = {1..12}, cs_weekday = {0..7}\<rparr>"

lemma cron_parse_star: "cron_parse ''* * * * *'' = Some star_spec"
proof -
  have "split_whitespace ''* * * * *'' = [''*'', ''*'', ''*'', ''*'', ''*'']"
    by (simp add: split_whitespace_def is_space_def)
  then show ?thesis by (simp add: cron_parse_def field_parse_star star_spec_def)
qed

lemma every_minute: "matches_minute star_spec t"
proof -
  define e where "e = t - t mod 60"
  obtain y m d where cd: "civil_from_days (int (e div 86400)) = (y, m, d)" using prod_cases3 by blast
  define h mi w where "h = e mod 86400 div 3600" and "mi = e mod 86400 mod 3600 div 60"
    and "w = nat ((int (e div 86400) + 4) mod 7)"
  have ce: "civil_from_epoch (t - t mod 60) = (nat y, nat m, nat d, h, mi, w)"
    unfolding civil_from_epoch_def e_def [symmetric] cd Let_def h_def mi_def w_def by simp
  have "nat m \<in> {1..12}" "nat d \<in> {1..31}" using civil_from_days_range [OF _ cd] by auto
  moreover have "h < 24" "mi < 60" unfolding h_def mi_def
    by (rule less_mult_imp_div_less; rule less_le_trans [OF mod_less_divisor]; simp)+
  moreover have "w < 8" unfolding w_def by (simp add: nat_less_iff)
  ultimately show ?thesis by (auto simp: matches_minute_def ce star_spec_def)
qed

definition auto0 :: automation where
  "auto0 = \<lparr>at_automation_id = ''a'', at_name = ''n'', at_cron = ''* * * * *'', at_event_pattern = [],
     at_objective = ''o'', at_enabled = True, at_last_fire_key = []\<rparr>"

definition db_auto :: "domain_event db" where
  "db_auto = snd (automation_create (\<lambda>_. []) [] auto0 (run0 [(''c1'', ''s'', ''e1'', CreateSession ''n'')]))"

definition spawn0 :: spawn_fresh where
  "spawn0 = \<lparr>sf_cmd1 = ''k1'', sf_fresh1 = fresh0 ''t'' ''e2'', sf_cmd2 = ''k2'', sf_fresh2 = fresh0 ''x'' ''e3''\<rparr>"

lemma db_auto_tables:
  "automation_list db_auto = [auto0]" "fst (spawn_task ext0 spawn0 auto0 db_auto) = Inr ''t''"
  by code_simp+

lemma minute_key_nonempty: "minute_key t \<noteq> []"
proof -
  have "show_padded 4 n \<noteq> []" for n by (simp add: show_padded_def pad_zero_def)
  then show ?thesis by (simp add: minute_key_fields split: prod.splits)
qed

lemma db_auto_fires: "to_fired (fst (tick ext0 0 (\<lambda>_. spawn0) db_auto)) = [(''a'', ''t'')]"
proof -
  obtain d' where sp: "spawn_task ext0 spawn0 auto0 db_auto = (Inr ''t'', d')"
    using db_auto_tables(2) by (metis prod.collapse)
  have "tick_one ext0 0 spawn0 auto0 (\<lparr>to_fired = [], to_errors = []\<rparr>, db_auto)
      = fire ext0 spawn0 auto0 (minute_key 0) (\<lparr>to_fired = [], to_errors = []\<rparr>, db_auto)"
    using minute_key_nonempty [of 0] every_minute [of 0] by (simp add: tick_one_def auto0_def cron_parse_star)
  then show ?thesis by (simp add: tick_def db_auto_tables fire_def sp) (simp add: auto0_def)
qed

theorem cron_fires_once_per_minute_witness:
  "to_fired (fst (tick ext0 0 (\<lambda>_. spawn0) db_auto)) = [(''a'', ''t'')]
   \<and> length (filter (\<lambda>(j, task). j = ''a'')
        (fst (engine_run ext0 [Tick 0 (\<lambda>_. spawn0), Tick 30 (\<lambda>_. spawn0), Tick 59 (\<lambda>_. spawn0)] db_auto))) \<le> 1"
proof -
  have rows: "map automation_view (t_automations db_auto) = [auto0]"
    using db_auto_tables(1) by (simp add: automation_list_def)
  then have "map au_automation_id (t_automations db_auto) = [''a'']"
    using automation_list_ids [of db_auto] db_auto_tables(1) by (simp add: auto0_def)
  then have dis: "automation_ids_distinct db_auto" by (simp add: automation_ids_distinct_def)
  have cron: "\<forall>r \<in> set (t_automations db_auto). au_automation_id r = ''a'' \<longrightarrow> au_event_pattern r = []"
    using rows by (auto simp: automation_view_def auto0_def)
  have "list_all (within_minute 0) [Tick 0 (\<lambda>_. spawn0), Tick 30 (\<lambda>_. spawn0), Tick 59 (\<lambda>_. spawn0)]" by simp
  from cron_fires_once_per_minute [OF dis cron this, of ext0] show ?thesis using db_auto_fires by simp
qed

section \<open>Event automations\<close>

lemma event_matches_bound: "i \<in> set (event_matches d a) \<Longrightarrow> i \<le> length (t_events d)"
  by (auto simp: event_matches_def Let_def simp del: upt_Suc dest!: set_zip_leftD)

lemma event_matches_new:
  assumes "t_events d' = t_events d @ r # rest" and "row_event_type r = at_event_pattern a"
    and "parse_i64 (at_last_fire_key a) = Some (int n)" and "n \<le> length (t_events d)"
  shows "event_matches d' a \<noteq> []"
proof -
  let ?k = "length (t_events d)"
  have "(Suc ?k, r) = ([1..<Suc (length (t_events d'))] ! ?k, t_events d' ! ?k)"
    using assms(1) by (simp add: nth_append del: upt_Suc)
  then have "(Suc ?k, r) \<in> set (zip [1..<Suc (length (t_events d'))] (t_events d'))"
    using assms(1) by (auto simp: in_set_zip simp del: upt_Suc intro!: exI [of _ ?k])
  moreover have "int n < int (Suc ?k)" using assms(4) by simp
  ultimately show ?thesis
    using assms(2,3) by (force simp: event_matches_def filter_empty_conv)
qed

lemma spawn_task_creates:
  assumes "store_inv d" and "spawn_task X f a d = (Inr t, d')"
    and "find (\<lambda>r. cl_command_id r = sf_cmd1 f) (t_command_log d) = None"
  obtains r rest where "t_events d' = t_events d @ r # rest" and "row_event_type r = ''task_created''"
proof -
  from assms(2) obtain s out d1 tid where
    ex: "execute X (sf_fresh1 f) (system_command a (sf_cmd1 f)
           (CreateTask s (''automation: '' @ at_name a) (at_objective a) None None None)) d = (out, d1)"
    and ag: "aggregate_of d1 out = Some t"
    and d': "d' = snd (execute X (sf_fresh2 f) (system_command a (sf_cmd2 f) (QueueTask tid)) d1)"
    by (auto simp: spawn_task_def Let_def split: option.splits prod.splits)
  have "\<exists>ids. out = Applied ids"
    using ex ag assms(3)
    by (cases out) (auto simp: execute_def system_command_def aggregate_of_def split: prod.splits sum.splits)
  then obtain ids where "execute X (sf_fresh1 f) (system_command a (sf_cmd1 f)
      (CreateTask s (''automation: '' @ at_name a) (at_objective a) None None None)) d = (Applied ids, d1)"
    using ex by blast
  from applied_events [OF assms(1) this] obtain es where
    pl: "plan X (sf_fresh1 f) d (CreateTask s (''automation: '' @ at_name a) (at_objective a) None None None) = Inr es"
    and ev: "t_events d1 = t_events d @ map (command_row_of X) es"
    by (auto simp: system_command_def)
  from pl obtain e where e: "es = [e]" "ev_event_type e = ''task_created''"
    by (auto simp: plan_create_task_def task_envelope_def sealed_at_def envelope_for_def split: if_splits)
  have "store_inv d1" using execute_inv(1) [OF assms(1)] ex by (metis snd_conv)
  then obtain rest where "t_events d' = t_events d1 @ rest"
    using execute_inv(2) unfolding d' prefix_def by blast
  moreover have "row_event_type (command_row_of X e) = ''task_created''"
    using e(2) by (simp add: command_row_of_def row_of_def)
  ultimately show ?thesis using that ev e(1) by simp
qed

text \<open>An event automation on \<open>task_created\<close> feeds itself: the task it creates is again an unconsumed event of
  its pattern after the fire was recorded, so the next tick finds it due again, forever.\<close>

lemma task_created_automation_feeds_itself:
  assumes "store_inv d" and "length (t_events d) < 2 ^ 63" and "at_event_pattern a = ''task_created''"
    and "event_matches d a \<noteq> []" and "spawn_task X f a d = (Inr t, d')"
    and "find (\<lambda>r. cl_command_id r = sf_cmd1 f) (t_command_log d) = None"
  shows "event_matches d' (a\<lparr>at_last_fire_key := show_nat (last (event_matches d a))\<rparr>) \<noteq> []"
proof -
  obtain r rest where ev: "t_events d' = t_events d @ r # rest" "row_event_type r = ''task_created''"
    using spawn_task_creates [OF assms(1,5,6)] by blast
  have b: "last (event_matches d a) \<le> length (t_events d)"
    using event_matches_bound [OF last_in_set [OF assms(4)]] .
  then have "parse_i64 (show_nat (last (event_matches d a))) = Some (int (last (event_matches d a)))"
    using assms(2) by (intro parse_i64_show_nat) simp
  with ev b assms(3) show ?thesis by (intro event_matches_new [OF ev(1)]) simp_all
qed

definition db_other :: "domain_event db" where
  "db_other = run0 [(''c1'', ''s'', ''e1'', CreateSession ''n''),
     (''c2'', ''t0'', ''f2'', CreateTask ''s'' ''a'' ''b'' None None None)]"

definition auto1 :: automation where
  "auto1 = auto0\<lparr>at_event_pattern := ''task_created''\<rparr>"

lemma task_created_automation_feeds_itself_witness:
  "\<exists>d'. spawn_task ext0 spawn0 auto1 db_other = (Inr ''t'', d')
     \<and> event_matches d' (auto1\<lparr>at_last_fire_key := show_nat 2\<rparr>) \<noteq> []"
proof -
  have t: "fst (spawn_task ext0 spawn0 auto1 db_other) = Inr ''t''" "event_matches db_other auto1 = [2]"
    "map cl_command_id (t_command_log db_other) = [''c1'', ''c2'']" "map row_event_id (t_events db_other) = [''e1'', ''f2'']"
    by code_simp+
  then obtain d' where sp: "spawn_task ext0 spawn0 auto1 db_other = (Inr ''t'', d')" by (metis prod.collapse)
  have len: "length (t_events db_other) = 2" using t(4) by (metis length_map list.size(3,4) One_nat_def Suc_1 add_Suc_right add_0_right)
  have nl: "find (\<lambda>r. cl_command_id r = sf_cmd1 spawn0) (t_command_log db_other) = None"
    by (rule not_logged) (simp add: t(3) spawn0_def del: set_map)
  have "event_matches d' (auto1\<lparr>at_last_fire_key := show_nat (last (event_matches db_other auto1))\<rparr>) \<noteq> []"
  proof (rule task_created_automation_feeds_itself [OF _ _ _ _ sp nl])
    show "store_inv db_other" by (simp add: db_other_def)
    show "length (t_events db_other) < 2 ^ 63" by (simp add: len)
    show "at_event_pattern auto1 = ''task_created''" by (simp add: auto1_def)
    show "event_matches db_other auto1 \<noteq> []" by (simp add: t(2))
  qed
  with sp show ?thesis by (simp add: t(2))
qed

end
