(* ===== verification/Ordered_Map.thy ===== *)
theory Ordered_Map
  imports Prelude "HOL-Library.Char_ord" "HOL-Library.List_Lexorder"
begin

text \<open>
  \<open>BTreeMap\<close> as a list of entries in strictly ascending key order, so that iteration has the order the
  code sees. The interface the clients use is the locale \<open>keyed_map\<close>: lookup after insertion, and
  the replay of a sequence of insertions, the pattern of every journal in the code.
\<close>

type_synonym ('k, 'v) btree = "('k \<times> 'v) list"

fun bt_insert :: "'k::linorder \<Rightarrow> 'v \<Rightarrow> ('k, 'v) btree \<Rightarrow> ('k, 'v) btree" where
  "bt_insert k v [] = [(k, v)]"
| "bt_insert k v ((a, b) # m) =
     (if k < a then (k, v) # (a, b) # m
      else if k = a then (k, v) # m
      else (a, b) # bt_insert k v m)"

definition bt_get :: "'k \<Rightarrow> ('k, 'v) btree \<Rightarrow> 'v option" where
  "bt_get k m = map_of m k"

definition bt_remove :: "'k \<Rightarrow> ('k, 'v) btree \<Rightarrow> ('k, 'v) btree" where
  "bt_remove k m = filter (\<lambda>e. fst e \<noteq> k) m"

text \<open>\<open>get_mut\<close>: changes the value under a key, if there is one.\<close>

definition bt_update :: "'k \<Rightarrow> ('v \<Rightarrow> 'v) \<Rightarrow> ('k, 'v) btree \<Rightarrow> ('k, 'v) btree" where
  "bt_update k f m = map (\<lambda>(a, b). (a, if a = k then f b else b)) m"

definition bt_values :: "('k, 'v) btree \<Rightarrow> 'v list" where
  "bt_values m = map snd m"

definition bt_sorted :: "('k::linorder, 'v) btree \<Rightarrow> bool" where
  "bt_sorted m = sorted_wrt (<) (map fst m)"

section \<open>Laws\<close>

lemma bt_get_empty [simp]: "bt_get k [] = None"
  by (simp add: bt_get_def)

lemma bt_insert_keys: "fst ` set (bt_insert k v m) = insert k (fst ` set m)"
  by (induction k v m rule: bt_insert.induct) auto

lemma set_bt_insert: "set (bt_insert k v m) \<subseteq> insert (k, v) (set m)"
  by (induction k v m rule: bt_insert.induct) auto

lemma bt_sorted_insert [simp, intro]: "bt_sorted m \<Longrightarrow> bt_sorted (bt_insert k v m)"
proof (induction k v m rule: bt_insert.induct)
  case (1 k v)
  show ?case by (simp add: bt_sorted_def)
next
  case (2 k v a b m)
  then show ?case using bt_insert_keys [of k v m] by (auto simp: bt_sorted_def)
qed

lemma bt_get_insert [simp]:
  "bt_sorted m \<Longrightarrow> bt_get j (bt_insert k v m) = (if j = k then Some v else bt_get j m)"
  by (induction k v m rule: bt_insert.induct) (auto simp: bt_get_def bt_sorted_def)

lemma bt_sorted_remove [simp, intro]: "bt_sorted m \<Longrightarrow> bt_sorted (bt_remove k m)"
  unfolding bt_sorted_def bt_remove_def by (induction m) auto

lemma bt_get_remove [simp]: "bt_get j (bt_remove k m) = (if j = k then None else bt_get j m)"
  unfolding bt_get_def bt_remove_def by (induction m) auto

lemma bt_update_keys [simp]: "map fst (bt_update k f m) = map fst m"
  by (simp add: bt_update_def case_prod_beta)

lemma bt_sorted_update [simp]: "bt_sorted (bt_update k f m) = bt_sorted m"
  by (simp add: bt_sorted_def)

lemma bt_get_update [simp]: "bt_get j (bt_update k f m) = (if j = k then map_option f (bt_get j m) else bt_get j m)"
  unfolding bt_get_def bt_update_def by (induction m) auto

lemma bt_sorted_Nil [simp]: "bt_sorted []"
  by (simp add: bt_sorted_def)

lemma bt_values_get:
  assumes "bt_sorted m"
  shows "v \<in> set (bt_values m) \<longleftrightarrow> (\<exists>k. bt_get k m = Some v)"
proof -
  have "distinct (map fst m)"
    using assms by (simp add: bt_sorted_def strict_sorted_iff)
  then show ?thesis by (force simp: bt_values_def bt_get_def map_of_eq_Some_iff)
qed

text \<open>Two sorted maps with the same lookups are the same list.\<close>

lemma bt_ext:
  assumes "bt_sorted m" and "bt_sorted m'" and "\<And>k. bt_get k m = bt_get k m'"
  shows "m = m'"
proof -
  have d: "distinct (map fst m)" "distinct (map fst m')"
    using assms(1,2) by (simp_all add: bt_sorted_def strict_sorted_iff)
  have "map_of m = map_of m'" using assms(3) by (auto simp: bt_get_def)
  then have "set m = set m'" using d by (simp add: map_of_inject_set)
  then have "sorted_wrt (<) (map fst m) \<and> sorted_wrt (<) (map fst m') \<and> set (map fst m) = set (map fst m')"
    using assms(1,2) by (simp add: bt_sorted_def)
  then have "map fst m = map fst m'" using strict_sorted_equal by blast
  then show ?thesis using \<open>set m = set m'\<close> d by (metis distinct_map map_inj_on inf_sup_aci(5) sup.idem)
qed

section \<open>The interface\<close>

locale keyed_map =
  fixes get :: "'k \<Rightarrow> 'm \<Rightarrow> 'v option" and ins :: "'k \<Rightarrow> 'v \<Rightarrow> 'm \<Rightarrow> 'm" and ok :: "'m \<Rightarrow> bool"
  assumes ins_ok: "ok m \<Longrightarrow> ok (ins k v m)"
    and get_ins: "ok m \<Longrightarrow> get j (ins k v m) = (if j = k then Some v else get j m)"
begin

lemma replay_ok: "ok m \<Longrightarrow> ok (foldl (\<lambda>m e. ins (fst e) (snd e) m) m es)"
  by (induction es arbitrary: m) (auto intro: ins_ok)

text \<open>Replaying a journal of entries: the last entry of a key wins.\<close>

lemma replay_get:
  "ok m \<Longrightarrow> get k (foldl (\<lambda>m e. ins (fst e) (snd e) m) m es) =
     (case map_of (rev es) k of Some v \<Rightarrow> Some v | None \<Rightarrow> get k m)"
proof (induction es arbitrary: m)
  case Nil
  then show ?case by simp
next
  case (Cons e es)
  then show ?case by (auto simp: get_ins ins_ok map_add_def split: option.splits)
qed

lemma replay_snoc:
  "foldl (\<lambda>m e. ins (fst e) (snd e) m) m (es @ [(k, v)]) = ins k v (foldl (\<lambda>m e. ins (fst e) (snd e) m) m es)"
  by simp

end

interpretation bt: keyed_map bt_get bt_insert bt_sorted
  by unfold_locales auto

end
