(* ===== verification/Agent_Fleet.thy ===== *)
theory Agent_Fleet
  imports Ordered_Map Rust_Text
begin

text \<open>
  The agent fleet of \<^verbatim>\<open>crates/core-runtime/src/agent_fleet.rs\<close>: agent nodes with lineage, idempotent spawn,
  status transitions, steering and the append-only journal the fleet is reloaded from after a restart.

  The journal is the list of its lines. The text of a line has the type of a parameter; encoding and
  decoding it (serde) are \<open>ser\<close> and \<open>de\<close>, and \<open>blank\<close> tells an empty line. A \<open>BTreeSet\<close> is the ascending
  list of its elements. Whether appending to the file succeeds is the argument \<open>w\<close> of every operation that writes.
  Operations change the in-memory state also when they report a failed write, so they return the
  fleet beside the result. Indexing a missing key panics, which is the result \<open>Panicked\<close>.
\<close>

datatype agent_status = Foreground | Background | Parked | Completed_Agent | Cancelled_Agent

fun debug_status :: "agent_status \<Rightarrow> string" where
  "debug_status Foreground = ''Foreground''"
| "debug_status Background = ''Background''"
| "debug_status Parked = ''Parked''"
| "debug_status Completed_Agent = ''Completed''"
| "debug_status Cancelled_Agent = ''Cancelled''"

record capsule =
  cp_allowed_tools :: "string list"
  cp_context_refs :: "string list"
  cp_model_policy :: string
  cp_max_output_tokens :: nat
  cp_max_tool_calls :: nat
  cp_can_request_expansion :: bool

definition default_capsule :: capsule where
  "default_capsule = \<lparr>cp_allowed_tools = [], cp_context_refs = [], cp_model_policy = ''task-scoped'',
     cp_max_output_tokens = 4096, cp_max_tool_calls = 32, cp_can_request_expansion = False\<rparr>"

datatype steer_command = Steer string | SteerCancel string | FollowUp string

record agent_node =
  an_agent_id :: string
  an_parent :: "string option"
  an_root :: string
  an_task :: string
  an_status :: agent_status
  an_tool_cursor :: nat
  an_context_refs :: "string list"
  an_capsule :: capsule
  an_idempotency_key :: "string option"
  an_task_id :: string
  an_write_scope :: "string list"

datatype fleet_error =
    Persistence
  | UnknownAgent string
  | DuplicateSpawn string string
  | CannotStealCompleted string
  | PrivilegeExpansionRefused string string
  | UnknownContextRef string string
  | Panicked string

record 'l fleet =
  fl_nodes :: "(string, agent_node) btree"
  fl_idempotency :: "(string, string) btree"
  fl_journal :: "'l list option"

definition fleet_new :: "'l fleet" where
  "fleet_new = \<lparr>fl_nodes = [], fl_idempotency = [], fl_journal = None\<rparr>"

section \<open>The journal\<close>

definition load_node :: "agent_node \<Rightarrow> 'l fleet \<Rightarrow> 'l fleet" where
  "load_node n fl =
     fl\<lparr>fl_idempotency := (case an_idempotency_key n of
          None \<Rightarrow> fl_idempotency fl | Some k \<Rightarrow> bt_insert k (an_agent_id n) (fl_idempotency fl)),
        fl_nodes := bt_insert (an_agent_id n) n (fl_nodes fl)\<rparr>"

fun load_lines ::
  "('l \<Rightarrow> bool) \<Rightarrow> ('l \<Rightarrow> agent_node option) \<Rightarrow> 'l list \<Rightarrow> 'l fleet \<Rightarrow> (string, 'l fleet) result" where
  "load_lines blank de [] fl = Inr fl"
| "load_lines blank de (l # ls) fl =
     (if blank l then load_lines blank de ls fl
      else case de l of
        None \<Rightarrow> Inl ''invalid data''
      | Some n \<Rightarrow> load_lines blank de ls (load_node n fl))"

text \<open>\<open>load\<close>: \<^term>\<open>None\<close> when the file does not exist.\<close>

definition fleet_load ::
  "('l \<Rightarrow> bool) \<Rightarrow> ('l \<Rightarrow> agent_node option) \<Rightarrow> 'l list option \<Rightarrow> (string, 'l fleet) result" where
  "fleet_load blank de file =
     (case file of
        None \<Rightarrow> Inr (fleet_new\<lparr>fl_journal := Some []\<rparr>)
      | Some ls \<Rightarrow> load_lines blank de ls (fleet_new\<lparr>fl_journal := Some ls\<rparr>))"

definition persist_node ::
  "(agent_node \<Rightarrow> 'l) \<Rightarrow> bool \<Rightarrow> agent_node \<Rightarrow> 'l fleet \<Rightarrow> (fleet_error, unit) result \<times> 'l fleet" where
  "persist_node ser w n fl =
     (case fl_journal fl of
        None \<Rightarrow> (Inr (), fl)
      | Some ls \<Rightarrow> if w then (Inr (), fl\<lparr>fl_journal := Some (ls @ [ser n])\<rparr>) else (Inl Persistence, fl))"

section \<open>Spawn\<close>

text \<open>\<open>self.nodes[existing_id].clone()\<close>: panics when the key is mapped to an agent that is not there.\<close>

definition reattach :: "'l fleet \<Rightarrow> string option \<Rightarrow> (fleet_error, agent_node) result option" where
  "reattach fl key =
     (case key of
        None \<Rightarrow> None
      | Some k \<Rightarrow>
          (case bt_get k (fl_idempotency fl) of
             None \<Rightarrow> None
           | Some i \<Rightarrow> Some (case bt_get i (fl_nodes fl) of
                 None \<Rightarrow> Inl (Panicked ''no entry found for key'') | Some n \<Rightarrow> Inr n)))"

definition root_for :: "'l fleet \<Rightarrow> string option \<Rightarrow> string \<Rightarrow> (fleet_error, string) result" where
  "root_for fl parent agent =
     (case parent of
        Some p \<Rightarrow> map_err id (ok_or (UnknownAgent p) (map_option an_root (bt_get p (fl_nodes fl))))
      | None \<Rightarrow> Inr agent)"

text \<open>The common tail of both spawns: the key is bound before the node is journalled.\<close>

definition admit_node ::
  "(agent_node \<Rightarrow> 'l) \<Rightarrow> bool \<Rightarrow> agent_node \<Rightarrow> 'l fleet \<Rightarrow> (fleet_error, agent_node) result \<times> 'l fleet" where
  "admit_node ser w n fl =
     (let fl1 = (case an_idempotency_key n of
                   None \<Rightarrow> fl
                 | Some k \<Rightarrow> fl\<lparr>fl_idempotency := bt_insert k (an_agent_id n) (fl_idempotency fl)\<rparr>)
      in case persist_node ser w n fl1 of
           (Inl e, fl2) \<Rightarrow> (Inl e, fl2)
         | (Inr _, fl2) \<Rightarrow> (Inr n, fl2\<lparr>fl_nodes := bt_insert (an_agent_id n) n (fl_nodes fl2)\<rparr>))"

definition spawn ::
  "(agent_node \<Rightarrow> 'l) \<Rightarrow> bool \<Rightarrow> string option \<Rightarrow> string \<Rightarrow> string \<Rightarrow> capsule \<Rightarrow> string option \<Rightarrow> 'l fleet \<Rightarrow>
   (fleet_error, agent_node) result \<times> 'l fleet" where
  "spawn ser w parent agent task cap key fl =
     (case reattach fl key of
        Some r \<Rightarrow> (r, fl)
      | None \<Rightarrow>
          (case root_for fl parent agent of
             Inl e \<Rightarrow> (Inl e, fl)
           | Inr root \<Rightarrow>
               admit_node ser w
                 \<lparr>an_agent_id = agent, an_parent = parent, an_root = root, an_task = task, an_status = Foreground,
                  an_tool_cursor = 0, an_context_refs = [], an_capsule = cap, an_idempotency_key = key,
                  an_task_id = [], an_write_scope = []\<rparr> fl))"

definition spawn_child ::
  "(agent_node \<Rightarrow> 'l) \<Rightarrow> bool \<Rightarrow> string option \<Rightarrow> string \<Rightarrow> string \<Rightarrow> string \<Rightarrow> string list \<Rightarrow> string option \<Rightarrow> 'l fleet \<Rightarrow>
   (fleet_error, agent_node) result \<times> 'l fleet" where
  "spawn_child ser w parent agent task_id task scope key fl =
     (case reattach fl key of
        Some r \<Rightarrow> (r, fl)
      | None \<Rightarrow>
          (case root_for fl parent agent of
             Inl e \<Rightarrow> (Inl e, fl)
           | Inr root \<Rightarrow>
               admit_node ser w
                 \<lparr>an_agent_id = agent, an_parent = parent, an_root = root, an_task = task, an_status = Foreground,
                  an_tool_cursor = 0, an_context_refs = [], an_capsule = default_capsule, an_idempotency_key = key,
                  an_task_id = task_id, an_write_scope = scope\<rparr> fl))"

definition find_by_idempotency_key :: "'l fleet \<Rightarrow> string \<Rightarrow> agent_node option" where
  "find_by_idempotency_key fl k =
     Option.bind (bt_get k (fl_idempotency fl)) (\<lambda>i. bt_get i (fl_nodes fl))"

definition active_write_scopes :: "'l fleet \<Rightarrow> string \<Rightarrow> (string \<times> string list) list" where
  "active_write_scopes fl root =
     map (\<lambda>n. (an_agent_id n, an_write_scope n))
       (filter (\<lambda>n. an_root n = root \<and> an_status n \<in> {Foreground, Background, Parked} \<and> an_write_scope n \<noteq> [])
         (bt_values (fl_nodes fl)))"

section \<open>Mutations of one node\<close>

text \<open>The shape all of them share: change the node in place, then journal the snapshot.\<close>

definition modify_node ::
  "(agent_node \<Rightarrow> 'l) \<Rightarrow> bool \<Rightarrow> string \<Rightarrow> (agent_node \<Rightarrow> agent_node) \<Rightarrow> 'l fleet \<Rightarrow> (fleet_error, unit) result \<times> 'l fleet" where
  "modify_node ser w agent f fl =
     (case bt_get agent (fl_nodes fl) of
        None \<Rightarrow> (Inl (UnknownAgent agent), fl)
      | Some n \<Rightarrow> persist_node ser w (f n) (fl\<lparr>fl_nodes := bt_update agent f (fl_nodes fl)\<rparr>))"

definition transition ::
  "(agent_node \<Rightarrow> 'l) \<Rightarrow> bool \<Rightarrow> string \<Rightarrow> agent_status \<Rightarrow> 'l fleet \<Rightarrow> (fleet_error, unit) result \<times> 'l fleet" where
  "transition ser w agent st = modify_node ser w agent (\<lambda>n. n\<lparr>an_status := st\<rparr>)"

definition set_background ::
  "(agent_node \<Rightarrow> 'l) \<Rightarrow> bool \<Rightarrow> string \<Rightarrow> 'l fleet \<Rightarrow> (fleet_error, unit) result \<times> 'l fleet" where
  "set_background ser w agent = transition ser w agent Background"

definition set_foreground ::
  "(agent_node \<Rightarrow> 'l) \<Rightarrow> bool \<Rightarrow> string \<Rightarrow> 'l fleet \<Rightarrow> (fleet_error, unit) result \<times> 'l fleet" where
  "set_foreground ser w agent = transition ser w agent Foreground"

definition advance_cursor ::
  "(agent_node \<Rightarrow> 'l) \<Rightarrow> bool \<Rightarrow> string \<Rightarrow> nat \<Rightarrow> 'l fleet \<Rightarrow> (fleet_error, unit) result \<times> 'l fleet" where
  "advance_cursor ser w agent to = modify_node ser w agent (\<lambda>n. n\<lparr>an_tool_cursor := to\<rparr>)"

definition park ::
  "(agent_node \<Rightarrow> 'l) \<Rightarrow> bool \<Rightarrow> string \<Rightarrow> 'l fleet \<Rightarrow> (fleet_error, unit) result \<times> 'l fleet" where
  "park ser w agent = transition ser w agent Parked"

definition resume ::
  "(agent_node \<Rightarrow> 'l) \<Rightarrow> bool \<Rightarrow> string \<Rightarrow> 'l fleet \<Rightarrow> (fleet_error, unit) result \<times> 'l fleet" where
  "resume ser w agent fl =
     (case bt_get agent (fl_nodes fl) of
        None \<Rightarrow> (Inl (UnknownAgent agent), fl)
      | Some n \<Rightarrow>
          if an_status n \<noteq> Parked
          then (Inl (UnknownAgent (agent @ '' is not parked (status '' @ debug_status (an_status n) @ '')'')), fl)
          else transition ser w agent Foreground fl)"

definition steer ::
  "(agent_node \<Rightarrow> 'l) \<Rightarrow> bool \<Rightarrow> string \<Rightarrow> steer_command \<Rightarrow> 'l fleet \<Rightarrow> (fleet_error, nat) result \<times> 'l fleet" where
  "steer ser w agent cmd fl =
     (case bt_get agent (fl_nodes fl) of
        None \<Rightarrow> (Inl (UnknownAgent agent), fl)
      | Some n \<Rightarrow>
          if an_status n \<in> {Completed_Agent, Cancelled_Agent} then (Inl (CannotStealCompleted agent), fl)
          else (case modify_node ser w agent
                       (\<lambda>n. case cmd of SteerCancel _ \<Rightarrow> n\<lparr>an_status := Cancelled_Agent\<rparr> | _ \<Rightarrow> n) fl of
                  (Inl e, fl') \<Rightarrow> (Inl e, fl')
                | (Inr _, fl') \<Rightarrow> (Inr (an_tool_cursor n), fl')))"

definition request_protected_effect ::
  "(agent_node \<Rightarrow> 'l) \<Rightarrow> bool \<Rightarrow> string \<Rightarrow> string \<Rightarrow> 'l fleet \<Rightarrow>
   (fleet_error, string) result \<times> 'l fleet" where
  "request_protected_effect ser w agent effect fl =
     (case bt_get agent (fl_nodes fl) of
        None \<Rightarrow> (Inl (UnknownAgent agent), fl)
      | Some n \<Rightarrow>
          if cp_can_request_expansion (an_capsule n)
          then (Inr (agent @ '' may prompt for '' @ debug_str effect), fl)
          else (case an_parent n of
                  None \<Rightarrow> (Inl (PrivilegeExpansionRefused agent effect), fl)
                | Some p \<Rightarrow>
                    (case set_background ser w p fl of
                       (Inl e, fl') \<Rightarrow> (Inl e, fl')
                     | (Inr _, fl') \<Rightarrow> (Inl (PrivilegeExpansionRefused agent effect), fl'))))"

definition resolve_context :: "'l fleet \<Rightarrow> string \<Rightarrow> string \<Rightarrow> (fleet_error, string) result" where
  "resolve_context fl agent ref =
     (case bt_get agent (fl_nodes fl) of
        None \<Rightarrow> Inl (UnknownAgent agent)
      | Some n \<Rightarrow>
          if ref \<notin> set (cp_context_refs (an_capsule n)) then Inl (UnknownContextRef agent ref)
          else Inr (''resolved '' @ ref @ '' for '' @ agent))"

definition agent_graph :: "'l fleet \<Rightarrow> string list \<times> (string \<times> string) list" where
  "agent_graph fl =
     (map an_agent_id (bt_values (fl_nodes fl)),
      concat (map (\<lambda>n. case an_parent n of None \<Rightarrow> [] | Some p \<Rightarrow> [(p, an_agent_id n)]) (bt_values (fl_nodes fl))))"

section \<open>The fleet as a machine\<close>

datatype fleet_op =
    Fl_Spawn bool "string option" string string capsule "string option"
  | Fl_SpawnChild bool "string option" string string string "string list" "string option"
  | Fl_Background bool string
  | Fl_Foreground bool string
  | Fl_Advance bool string nat
  | Fl_Park bool string
  | Fl_Resume bool string
  | Fl_Steer bool string steer_command
  | Fl_Effect bool string string

fun fleet_step :: "(agent_node \<Rightarrow> 'l) \<Rightarrow> 'l fleet \<Rightarrow> fleet_op \<Rightarrow> 'l fleet" where
  "fleet_step ser fl (Fl_Spawn w p a t c k) = snd (spawn ser w p a t c k fl)"
| "fleet_step ser fl (Fl_SpawnChild w p a i t s k) = snd (spawn_child ser w p a i t s k fl)"
| "fleet_step ser fl (Fl_Background w a) = snd (set_background ser w a fl)"
| "fleet_step ser fl (Fl_Foreground w a) = snd (set_foreground ser w a fl)"
| "fleet_step ser fl (Fl_Advance w a n) = snd (advance_cursor ser w a n fl)"
| "fleet_step ser fl (Fl_Park w a) = snd (park ser w a fl)"
| "fleet_step ser fl (Fl_Resume w a) = snd (resume ser w a fl)"
| "fleet_step ser fl (Fl_Steer w a c) = snd (steer ser w a c fl)"
| "fleet_step ser fl (Fl_Effect w a e) = snd (request_protected_effect ser w a e fl)"

section \<open>Invariant\<close>

definition fleet_ok :: "'l fleet \<Rightarrow> bool" where
  "fleet_ok fl = (bt_sorted (fl_nodes fl) \<and> bt_sorted (fl_idempotency fl)
     \<and> (\<forall>i n. bt_get i (fl_nodes fl) = Some n \<longrightarrow> an_agent_id n = i
          \<and> (\<forall>k. an_idempotency_key n = Some k \<longrightarrow> bt_get k (fl_idempotency fl) = Some i)))"

text \<open>Changes a mutation may make to a node.\<close>

definition keeps_identity :: "(agent_node \<Rightarrow> agent_node) \<Rightarrow> bool" where
  "keeps_identity f = (\<forall>n. an_agent_id (f n) = an_agent_id n \<and> an_idempotency_key (f n) = an_idempotency_key n
     \<and> an_parent (f n) = an_parent n \<and> an_root (f n) = an_root n)"

lemma persist_node_cases:
  obtains (written) "persist_node ser w n fl = (Inr (), fl\<lparr>fl_journal := map_option (\<lambda>ls. ls @ [ser n]) (fl_journal fl)\<rparr>)"
      and "fl_journal fl = None \<or> w"
  | (failed) "persist_node ser w n fl = (Inl Persistence, fl)" and "\<not> w"
  by (cases "fl_journal fl"; cases w) (auto simp: persist_node_def)

text \<open>Every operation that changes the fleet is one of two: a node admitted under a free key, or a node modified.\<close>

inductive fleet_change :: "(agent_node \<Rightarrow> 'l) \<Rightarrow> bool \<Rightarrow> 'l fleet \<Rightarrow> 'l fleet \<Rightarrow> bool" for ser where
  same: "fleet_change ser w fl fl"
| admit: "\<lbrakk>\<forall>k. an_idempotency_key n = Some k \<longrightarrow> bt_get k (fl_idempotency fl) = None;
           fl' = snd (admit_node ser w n fl); root_for fl (an_parent n) (an_agent_id n) = Inr (an_root n)\<rbrakk>
          \<Longrightarrow> fleet_change ser w fl fl'"
| modify: "\<lbrakk>keeps_identity f; fl' = snd (modify_node ser w a f fl)\<rbrakk> \<Longrightarrow> fleet_change ser w fl fl'"

fun op_writes :: "fleet_op \<Rightarrow> bool" where
  "op_writes (Fl_Spawn w _ _ _ _ _) = w"
| "op_writes (Fl_SpawnChild w _ _ _ _ _ _) = w"
| "op_writes (Fl_Background w _) = w"
| "op_writes (Fl_Foreground w _) = w"
| "op_writes (Fl_Advance w _ _) = w"
| "op_writes (Fl_Park w _) = w"
| "op_writes (Fl_Resume w _) = w"
| "op_writes (Fl_Steer w _ _) = w"
| "op_writes (Fl_Effect w _ _) = w"

lemma reattach_None:
  "reattach fl key = None \<Longrightarrow> key = Some k \<Longrightarrow> bt_get k (fl_idempotency fl) = None"
  by (auto simp: reattach_def split: option.splits)

lemma transition_change: "fleet_change ser w fl (snd (transition ser w a st fl))"
  by (rule fleet_change.modify [of "\<lambda>n. n\<lparr>an_status := st\<rparr>"]) (simp_all add: keeps_identity_def transition_def)

lemma admit_change:
  assumes "reattach fl (an_idempotency_key n) = None" and "root_for fl (an_parent n) (an_agent_id n) = Inr (an_root n)"
  shows "fleet_change ser w fl (snd (admit_node ser w n fl))"
  using assms reattach_None by (intro fleet_change.admit) auto

lemma fleet_step_change: "fleet_change ser (op_writes x) fl (fleet_step ser fl x)"
proof (cases x)
  case (Fl_Spawn w p a t c k)
  then show ?thesis
    by (auto simp: spawn_def split: option.splits sum.splits intro!: fleet_change.same admit_change)
next
  case (Fl_SpawnChild w p a i t sc k)
  then show ?thesis
    by (auto simp: spawn_child_def split: option.splits sum.splits intro!: fleet_change.same admit_change)
next
  case (Fl_Advance w a n)
  then show ?thesis
    by (auto simp: advance_cursor_def keeps_identity_def intro: fleet_change.modify [of "\<lambda>m. m\<lparr>an_tool_cursor := n\<rparr>"])
next
  case (Fl_Steer w a c)
  let ?f = "\<lambda>n. case c of SteerCancel _ \<Rightarrow> n\<lparr>an_status := Cancelled_Agent\<rparr> | _ \<Rightarrow> n"
  have "keeps_identity ?f" by (auto simp: keeps_identity_def split: steer_command.splits)
  then have "fleet_change ser w fl (snd (modify_node ser w a ?f fl))" by (rule fleet_change.modify) simp
  with Fl_Steer show ?thesis
    by (auto simp: steer_def split: option.splits sum.splits prod.splits intro: fleet_change.same)
next
  case (Fl_Effect w a e)
  have "fleet_change ser w fl (snd (set_background ser w p fl))" for p
    by (simp add: set_background_def transition_change)
  with Fl_Effect show ?thesis
    by (auto simp: request_protected_effect_def split: option.splits sum.splits prod.splits
        intro: fleet_change.same) (metis snd_conv)+
qed (auto simp: set_background_def set_foreground_def park_def resume_def split: option.splits
      intro: transition_change fleet_change.same)

text \<open>The state after an admission and after a modification.\<close>

lemma admit_node_state:
  "fl_idempotency (snd (admit_node ser w n fl)) = (case an_idempotency_key n of
      None \<Rightarrow> fl_idempotency fl | Some k \<Rightarrow> bt_insert k (an_agent_id n) (fl_idempotency fl))"
  "fl_nodes (snd (admit_node ser w n fl)) =
     (if fl_journal fl = None \<or> w then bt_insert (an_agent_id n) n (fl_nodes fl) else fl_nodes fl)"
  "fl_journal (snd (admit_node ser w n fl)) =
     (if w then map_option (\<lambda>ls. ls @ [ser n]) (fl_journal fl) else fl_journal fl)"
  by (auto simp: admit_node_def persist_node_def Let_def split: option.splits)

lemma modify_node_state:
  assumes "bt_get a (fl_nodes fl) = Some n"
  shows "fl_idempotency (snd (modify_node ser w a f fl)) = fl_idempotency fl"
    and "fl_nodes (snd (modify_node ser w a f fl)) = bt_update a f (fl_nodes fl)"
    and "fl_journal (snd (modify_node ser w a f fl)) =
      (if w then map_option (\<lambda>ls. ls @ [ser (f n)]) (fl_journal fl) else fl_journal fl)"
  using assms by (auto simp: modify_node_def persist_node_def split: option.splits)

lemma modify_unknown: "bt_get a (fl_nodes fl) = None \<Longrightarrow> snd (modify_node ser w a f fl) = fl"
  by (simp add: modify_node_def)

lemma fleet_ok_change: "fleet_change ser w fl fl' \<Longrightarrow> fleet_ok fl \<Longrightarrow> fleet_ok fl'"
proof (induction rule: fleet_change.induct)
  case (same w fl)
  then show ?case by simp
next
  case (admit n fl fl' w)
  then show ?case
    unfolding fleet_ok_def admit.hyps(2) admit_node_state by (auto split: option.splits)
next
  case (modify f fl' w a fl)
  then show ?case
    by (cases "bt_get a (fl_nodes fl)")
       (auto simp: fleet_ok_def modify_node_state modify_unknown keeps_identity_def)
qed

lemma fleet_step_ok [invs]: "fleet_ok fl \<Longrightarrow> fleet_ok (fleet_step ser fl x)"
  using fleet_step_change fleet_ok_change by blast

interpretation fleet_machine: machine "fleet_step ser" fleet_ok for ser
  by unfold_locales (rule fleet_step_ok)

text \<open>A key bound to a node that exists stays so.\<close>

definition bound :: "'l fleet \<Rightarrow> string \<Rightarrow> string \<Rightarrow> bool" where
  "bound fl k i = (bt_get k (fl_idempotency fl) = Some i \<and> bt_get i (fl_nodes fl) \<noteq> None)"

lemma bound_change: "fleet_change ser w fl fl' \<Longrightarrow> fleet_ok fl \<Longrightarrow> bound fl k i \<Longrightarrow> bound fl' k i"
proof (induction rule: fleet_change.induct)
  case (same w fl)
  then show ?case by simp
next
  case (admit n fl fl' w)
  then show ?case
    unfolding bound_def fleet_ok_def admit.hyps(2) admit_node_state by (auto split: option.splits)
next
  case (modify f fl' w a fl)
  then show ?case
    by (cases "bt_get a (fl_nodes fl)") (auto simp: bound_def modify_node_state modify_unknown)
qed

lemma bound_run: "fleet_ok fl \<Longrightarrow> bound fl k i \<Longrightarrow> bound (foldl (fleet_step ser) fl xs) k i"
  by (induction xs arbitrary: fl) (auto intro: fleet_step_ok bound_change [OF fleet_step_change])

section \<open>The journal replays to the fleet\<close>

lemma load_lines_append:
  "load_lines blank de (ls @ ms) fl = and_then (load_lines blank de ls fl) (load_lines blank de ms)"
  by (induction ls arbitrary: fl) (auto split: option.splits)

lemma load_node_journal: "load_node n (fl\<lparr>fl_journal := j\<rparr>) = (load_node n fl)\<lparr>fl_journal := j\<rparr>"
  by (cases fl) (simp add: load_node_def split: option.splits)

lemma load_lines_journal:
  "load_lines blank de ls (fl\<lparr>fl_journal := j\<rparr>) = map_sum id (\<lambda>fl. fl\<lparr>fl_journal := j\<rparr>) (load_lines blank de ls fl)"
  by (induction ls arbitrary: fl) (auto simp: load_node_journal split: option.splits)

definition journalled :: "('l \<Rightarrow> bool) \<Rightarrow> ('l \<Rightarrow> agent_node option) \<Rightarrow> 'l fleet \<Rightarrow> bool" where
  "journalled blank de fl = (fleet_ok fl
     \<and> (\<exists>ls. fl_journal fl = Some ls \<and> load_lines blank de ls (fleet_new\<lparr>fl_journal := Some ls\<rparr>) = Inr fl))"

lemma bt_update_is_insert:
  "bt_sorted m \<Longrightarrow> bt_get k m = Some v \<Longrightarrow> bt_update k f m = bt_insert k (f v) m"
  by (rule bt_ext) auto

lemma bt_insert_same: "bt_sorted m \<Longrightarrow> bt_get k m = Some v \<Longrightarrow> bt_insert k v m = m"
  by (rule bt_ext) auto

lemma journalled_append:
  assumes "journalled blank de fl" and "fl_journal fl = Some ls" and "de l = Some n" and "\<not> blank l"
  shows "load_lines blank de (ls @ [l]) (fleet_new\<lparr>fl_journal := Some (ls @ [l])\<rparr>)
    = Inr ((load_node n fl)\<lparr>fl_journal := Some (ls @ [l])\<rparr>)"
proof -
  have "load_lines blank de ls (fleet_new\<lparr>fl_journal := Some ls\<rparr>) = Inr fl"
    using assms(1,2) by (auto simp: journalled_def)
  then have "load_lines blank de ls (fleet_new\<lparr>fl_journal := Some (ls @ [l])\<rparr>) = Inr (fl\<lparr>fl_journal := Some (ls @ [l])\<rparr>)"
    using load_lines_journal [of blank de ls "Some (ls @ [l])" "fleet_new\<lparr>fl_journal := Some ls\<rparr>"] by simp
  then show ?thesis using assms(3,4) by (simp add: load_lines_append load_node_journal)
qed

lemma journalled_change:
  assumes "fleet_change ser w fl fl'" and "w" and "journalled blank de fl" and "\<forall>n. de (ser n) = Some n \<and> \<not> blank (ser n)"
  shows "journalled blank de fl'"
proof -
  have ok: "fleet_ok fl" using assms(3) by (simp add: journalled_def)
  then have ok': "fleet_ok fl'" using fleet_ok_change [OF assms(1)] by blast
  obtain ls where ls: "fl_journal fl = Some ls" using assms(3) by (auto simp: journalled_def)
  from assms(1) show ?thesis
  proof cases
    case same
    with assms(3) show ?thesis by simp
  next
    case (admit n)
    have "load_lines blank de (ls @ [ser n]) (fleet_new\<lparr>fl_journal := Some (ls @ [ser n])\<rparr>) = Inr fl'"
      using journalled_append [OF assms(3) ls, of "ser n" n] assms(2,4) ls
      by (cases fl) (simp add: admit(2) admit_node_def persist_node_def load_node_def Let_def split: option.splits)
    moreover have "fl_journal fl' = Some (ls @ [ser n])" using ls assms(2) by (simp add: admit(2) admit_node_state)
    ultimately show ?thesis using ok' by (simp add: journalled_def)
  next
    case (modify f a)
    show ?thesis
    proof (cases "bt_get a (fl_nodes fl)")
      case None
      with modify assms(3) show ?thesis by (simp add: modify_unknown)
    next
      case (Some n)
      have sorted: "bt_sorted (fl_nodes fl)" "bt_sorted (fl_idempotency fl)" and id: "an_agent_id n = a"
        and key: "an_idempotency_key n = Some k \<Longrightarrow> bt_get k (fl_idempotency fl) = Some a" for k
        using ok Some by (auto simp: fleet_ok_def)
      have f: "an_agent_id (f n) = a" "an_idempotency_key (f n) = an_idempotency_key n"
        using modify(1) id by (simp_all add: keeps_identity_def)
      have idem: "(case an_idempotency_key (f n) of None \<Rightarrow> fl_idempotency fl
          | Some k \<Rightarrow> bt_insert k (an_agent_id (f n)) (fl_idempotency fl)) = fl_idempotency fl"
        using key sorted(2) by (simp add: f bt_insert_same split: option.splits)
      have "fl' = fl\<lparr>fl_journal := Some (ls @ [ser (f n)]), fl_nodes := bt_insert a (f n) (fl_nodes fl)\<rparr>"
        using modify(2) Some ls assms(2) bt_update_is_insert [OF sorted(1) Some, of f]
        by (simp add: modify_node_def persist_node_def)
      then have "load_lines blank de (ls @ [ser (f n)]) (fleet_new\<lparr>fl_journal := Some (ls @ [ser (f n)])\<rparr>) = Inr fl'"
        and "fl_journal fl' = Some (ls @ [ser (f n)])"
        using journalled_append [OF assms(3) ls, of "ser (f n)" "f n"] assms(4) idem f(1)
        by (simp_all add: load_node_def)
      with ok' show ?thesis by (simp add: journalled_def)
    qed
  qed
qed

section \<open>Properties\<close>

text \<open>A restart loses nothing: after any sequence of fleet operations whose journal writes succeed, loading
  the journal gives back exactly the fleet in memory, its nodes and its idempotency keys.\<close>

lemma fleet_survives_restart:
  assumes "\<forall>n. de (ser n) = Some n \<and> \<not> blank (ser n)" and "\<forall>x \<in> set ops. op_writes x"
    and "fl = foldl (fleet_step ser) (fleet_new\<lparr>fl_journal := Some []\<rparr>) ops"
  shows "fleet_load blank de (fl_journal fl) = Inr fl"
proof -
  have "journalled blank de fl0 \<Longrightarrow> journalled blank de (foldl (fleet_step ser) fl0 ops)" for fl0
    using assms(2)
  proof (induction ops arbitrary: fl0)
    case (Cons x xs)
    then have "journalled blank de (fleet_step ser fl0 x)"
      using journalled_change [where ser = ser and de = de and blank = blank, OF fleet_step_change] assms(1) by simp
    with Cons show ?case by simp
  qed simp
  moreover have "journalled blank de (fleet_new\<lparr>fl_journal := Some []\<rparr>)"
    by (simp add: journalled_def fleet_ok_def fleet_new_def)
  ultimately have "journalled blank de fl" using assms(3) by blast
  then show ?thesis by (auto simp: journalled_def fleet_load_def)
qed

lemma fleet_survives_restart_witness:
  "fleet_load (\<lambda>_. False) Some (fl_journal (foldl (fleet_step id) (fleet_new\<lparr>fl_journal := Some []\<rparr>)
      [Fl_Spawn True None ''a'' ''t'' default_capsule (Some ''k''), Fl_Park True ''a'']))
   = Inr (foldl (fleet_step id) (fleet_new\<lparr>fl_journal := Some []\<rparr>)
      [Fl_Spawn True None ''a'' ''t'' default_capsule (Some ''k''), Fl_Park True ''a''])"
  by (rule fleet_survives_restart [of Some id, OF _ _ refl]) simp_all

definition node0 :: "string \<Rightarrow> agent_node" where
  "node0 i = \<lparr>an_agent_id = i, an_parent = None, an_root = i, an_task = ''t'', an_status = Foreground, an_tool_cursor = 0,
     an_context_refs = [], an_capsule = default_capsule, an_idempotency_key = Some ''k'', an_task_id = [],
     an_write_scope = []\<rparr>"

text \<open>Spawning is idempotent per key: once a spawn under a key succeeded, then after any further operations,
  failed journal writes included, every spawn with that key returns the agent of that id that already
  exists and changes nothing.\<close>

lemma spawn_is_idempotent:
  assumes "fleet_ok fl" and "spawn ser w p a t c (Some k) fl = (Inr n, fl1)"
    and "fl2 = foldl (fleet_step ser) fl1 ops"
  shows "\<exists>n'. an_agent_id n' = an_agent_id n \<and> bt_get (an_agent_id n) (fl_nodes fl2) = Some n'
    \<and> spawn ser w' p' a' t' c' (Some k) fl2 = (Inr n', fl2)
    \<and> spawn_child ser w' p' a' i' t' s' (Some k) fl2 = (Inr n', fl2)"
proof -
  have ok1: "fleet_ok fl1"
    using fleet_step_ok [OF assms(1), of ser "Fl_Spawn w p a t c (Some k)"] assms(2) by simp
  then have ok2: "fleet_ok fl2" unfolding assms(3) by (rule fleet_machine.run_inv)
  have "bound fl1 k (an_agent_id n)"
  proof (cases "reattach fl (Some k)")
    case (Some r)
    with assms(2) have "r = Inr n" "fl1 = fl" by (simp_all add: spawn_def)
    with Some obtain i where i: "bt_get k (fl_idempotency fl) = Some i" "bt_get i (fl_nodes fl) = Some n"
      by (auto simp: reattach_def split: option.splits)
    moreover from i assms(1) have "an_agent_id n = i" by (auto simp: fleet_ok_def)
    ultimately show ?thesis using \<open>fl1 = fl\<close> by (simp add: bound_def)
  next
    case None
    then show ?thesis
      using assms(1,2)
      by (auto simp: spawn_def admit_node_def persist_node_def bound_def fleet_ok_def Let_def
          split: sum.splits option.splits if_splits)
  qed
  then have b2: "bound fl2 k (an_agent_id n)" unfolding assms(3) by (rule bound_run [OF ok1])
  then obtain n' where n': "bt_get (an_agent_id n) (fl_nodes fl2) = Some n'" by (auto simp: bound_def)
  moreover have "an_agent_id n' = an_agent_id n" using ok2 n' by (auto simp: fleet_ok_def)
  moreover have "reattach fl2 (Some k) = Some (Inr n')" using b2 n' by (simp add: reattach_def bound_def)
  ultimately show ?thesis by (simp add: spawn_def spawn_child_def)
qed

lemma fleet_ok_new [simp]: "fleet_ok (fleet_new\<lparr>fl_journal := j\<rparr>)"
  by (simp add: fleet_ok_def fleet_new_def)

lemma spawn_is_idempotent_witness:
  "\<exists>n fl1 n'. spawn an_agent_id True None ''a'' ''t'' default_capsule (Some ''k'') fleet_new = (Inr n, fl1)
     \<and> spawn an_agent_id True None ''b'' ''t'' default_capsule (Some ''k'')
          (foldl (fleet_step an_agent_id) fl1 [Fl_Park True ''a'']) =
        (Inr n', foldl (fleet_step an_agent_id) fl1 [Fl_Park True ''a''])"
proof -
  have ok: "fleet_ok fleet_new" by (simp add: fleet_ok_def fleet_new_def)
  obtain n fl1 where sp: "spawn an_agent_id True None ''a'' ''t'' default_capsule (Some ''k'') fleet_new = (Inr n, fl1)"
    by (simp add: spawn_def reattach_def root_for_def admit_node_def persist_node_def fleet_new_def)
  from spawn_is_idempotent [OF ok sp refl] sp show ?thesis by metis
qed

text \<open>A spawn whose journal write fails poisons its key: it reports the failure, but the key is already bound
  to an agent that was never added, and the retry with the same key panics on the missing entry.\<close>

lemma failed_spawn_makes_retry_panic:
  assumes "fleet_ok fl" and "fl_journal fl = Some ls" and "bt_get k (fl_idempotency fl) = None"
    and "bt_get a (fl_nodes fl) = None" and "root_for fl p a = Inr r"
  shows "fst (spawn ser False p a t c (Some k) fl) = Inl Persistence
    \<and> fst (spawn ser w p a t c (Some k) (snd (spawn ser False p a t c (Some k) fl)))
        = Inl (Panicked ''no entry found for key'')"
  using assms
  by (simp add: spawn_def reattach_def admit_node_def persist_node_def fleet_ok_def Let_def)

lemma failed_spawn_makes_retry_panic_witness:
  "fst (spawn an_agent_id True None ''a'' ''t'' default_capsule (Some ''k'')
     (snd (spawn an_agent_id False None ''a'' ''t'' default_capsule (Some ''k'') (fleet_new\<lparr>fl_journal := Some []\<rparr>))))
   = Inl (Panicked ''no entry found for key'')"
  by (rule failed_spawn_makes_retry_panic [where ls = "[]" and r = "''a''", THEN conjunct2])
     (simp_all add: fleet_new_def fleet_ok_def root_for_def)

text \<open>A cancelled agent can be brought back: parking does not look at the status, so parking and resuming a
  cancelled or completed agent both succeed and make it a foreground agent again.\<close>

lemma finished_agent_can_be_revived:
  assumes "fleet_ok fl" and "bt_get a (fl_nodes fl) = Some n" and "an_status n \<in> {Completed_Agent, Cancelled_Agent}"
  shows "fst (park ser True a fl) = Inr () \<and> fst (resume ser True a (snd (park ser True a fl))) = Inr ()
    \<and> bt_get a (fl_nodes (snd (resume ser True a (snd (park ser True a fl))))) = Some (n\<lparr>an_status := Foreground\<rparr>)"
  using assms
  by (auto simp: park_def resume_def transition_def modify_node_def persist_node_def fleet_ok_def split: option.splits)

lemma finished_agent_can_be_revived_witness:
  "fst (resume an_agent_id True ''a'' (snd (park an_agent_id True ''a''
      (fleet_new\<lparr>fl_nodes := [(''a'', (node0 ''a'')\<lparr>an_status := Cancelled_Agent, an_idempotency_key := None\<rparr>)]\<rparr>)))) = Inr ()"
  by (rule finished_agent_can_be_revived
        [where n = "(node0 ''a'')\<lparr>an_status := Cancelled_Agent, an_idempotency_key := None\<rparr>", THEN conjunct2, THEN conjunct1])
     (simp_all add: fleet_ok_def fleet_new_def node0_def bt_get_def bt_sorted_def)

end
