(* ===== verification/Fleet_Admission.thy ===== *)
theory Fleet_Admission
  imports Ordered_Map Rust_Text
begin

text \<open>
  Fleet admission of \<^verbatim>\<open>crates/core-runtime/src\<close>: capacity tickets, transactional subagent admission, task
  contracts, isolation bundles, the parallel write coordinator and the attention list
  (\<^verbatim>\<open>fleet_admission.rs\<close>), the delegation policy (\<^verbatim>\<open>delegation.rs\<close>) and the reminders derived from
  unresolved state (\<^verbatim>\<open>reminder_engine.rs\<close>). The ticket counter is a natural number.
\<close>

section \<open>Capacity tickets\<close>

record capacity_ticket =
  ct_ticket_id :: string
  ct_tenant :: string

datatype ticket_error = Exhausted string nat nat | UnknownTicket string

fun show_ticket_error :: "ticket_error \<Rightarrow> string" where
  "show_ticket_error (Exhausted t a c) =
     ''capacity exhausted for tenant '' @ t @ '': '' @ show_nat a @ ''/'' @ show_nat c"
| "show_ticket_error (UnknownTicket i) = ''unknown ticket '' @ debug_str i"

record governor =
  gv_capacity :: "(string, nat) btree"
  gv_active :: "(string, capacity_ticket list) btree"
  gv_counter :: nat

definition governor_default :: governor where
  "governor_default = \<lparr>gv_capacity = [], gv_active = [], gv_counter = 0\<rparr>"

definition set_capacity :: "string \<Rightarrow> nat \<Rightarrow> governor \<Rightarrow> governor" where
  "set_capacity t c g = g\<lparr>gv_capacity := bt_insert t c (gv_capacity g)\<rparr>"

definition capacity_of :: "governor \<Rightarrow> string \<Rightarrow> nat" where
  "capacity_of g t = (case bt_get t (gv_capacity g) of None \<Rightarrow> 0 | Some c \<Rightarrow> c)"

definition active_of :: "governor \<Rightarrow> string \<Rightarrow> capacity_ticket list" where
  "active_of g t = (case bt_get t (gv_active g) of None \<Rightarrow> [] | Some ts \<Rightarrow> ts)"

definition ticket_name :: "string \<Rightarrow> nat \<Rightarrow> string" where
  "ticket_name t n = ''ticket-'' @ t @ ''-'' @ show_nat n"

text \<open>\<open>entry(..).or_default()\<close> leaves an entry behind also when the capacity is exhausted.\<close>

definition consume :: "string \<Rightarrow> governor \<Rightarrow> (ticket_error, capacity_ticket) result \<times> governor" where
  "consume t g =
     (let capacity = capacity_of g t;
          ts = active_of g t;
          g1 = g\<lparr>gv_active := bt_insert t ts (gv_active g)\<rparr>
      in if capacity \<le> length ts then (Inl (Exhausted t (length ts) capacity), g1)
         else let n = gv_counter g + 1;
                  ticket = \<lparr>ct_ticket_id = ticket_name t n, ct_tenant = t\<rparr>
              in (Inr ticket, g1\<lparr>gv_counter := n, gv_active := bt_insert t (ts @ [ticket]) (gv_active g1)\<rparr>))"

text \<open>\<open>release\<close> goes through the tenants in key order and removes the first ticket with the id.\<close>

fun remove_ticket :: "string \<Rightarrow> capacity_ticket list \<Rightarrow> capacity_ticket list option" where
  "remove_ticket i [] = None"
| "remove_ticket i (t # ts) = (if ct_ticket_id t = i then Some ts else map_option ((#) t) (remove_ticket i ts))"

fun release_in ::
  "string \<Rightarrow> (string, capacity_ticket list) btree \<Rightarrow> (string, capacity_ticket list) btree option" where
  "release_in i [] = None"
| "release_in i ((k, ts) # m) =
     (case remove_ticket i ts of
        Some ts' \<Rightarrow> Some ((k, ts') # m)
      | None \<Rightarrow> map_option ((#) (k, ts)) (release_in i m))"

definition release_ticket :: "string \<Rightarrow> governor \<Rightarrow> (ticket_error, unit) result \<times> governor" where
  "release_ticket i g =
     (case release_in i (gv_active g) of
        Some m \<Rightarrow> (Inr (), g\<lparr>gv_active := m\<rparr>)
      | None \<Rightarrow> (Inl (UnknownTicket i), g))"

section \<open>Admission\<close>

record admission =
  ad_child_id :: string
  ad_ticket :: capacity_ticket
  ad_worktree :: string
  ad_write_set :: "string list"
  ad_capability_ceiling :: string

datatype admission_error = TicketFailed ticket_error | InjectedFailure string | AdmissionPanic

fun show_admission_error :: "admission_error \<Rightarrow> string" where
  "show_admission_error (TicketFailed e) = show_ticket_error e"
| "show_admission_error (InjectedFailure s) = ''injected admission failure at '' @ s"
| "show_admission_error AdmissionPanic = []"

text \<open>The compensation of every step: release the ticket (\<open>unwrap\<close> panics on an error) and fail.\<close>

definition roll_back :: "string \<Rightarrow> string \<Rightarrow> governor \<Rightarrow> (admission_error, admission) result \<times> governor" where
  "roll_back i step g =
     (case release_ticket i g of
        (Inr _, g') \<Rightarrow> (Inl (InjectedFailure step), g')
      | (Inl _, g') \<Rightarrow> (Inl AdmissionPanic, g'))"

definition admit_subagent ::
  "governor \<Rightarrow> string \<Rightarrow> string \<Rightarrow> string \<Rightarrow> string list \<Rightarrow> string \<Rightarrow> string option \<Rightarrow>
   (admission_error, admission) result \<times> governor" where
  "admit_subagent g tenant child worktree write_set ceiling inject =
     (case consume tenant g of
        (Inl e, g1) \<Rightarrow> (Inl (TicketFailed e), g1)
      | (Inr ticket, g1) \<Rightarrow>
          if inject = Some ''after_ticket'' then roll_back (ct_ticket_id ticket) ''after_ticket'' g1
          else if inject = Some ''after_worktree'' then roll_back (ct_ticket_id ticket) ''after_worktree'' g1
          else if inject = Some ''after_write_set'' then roll_back (ct_ticket_id ticket) ''after_write_set'' g1
          else (Inr \<lparr>ad_child_id = child, ad_ticket = ticket, ad_worktree = worktree, ad_write_set = write_set,
                     ad_capability_ceiling = ceiling\<rparr>, g1))"

section \<open>Contracts and isolation\<close>

record task_contract =
  tc_contract_id :: string
  tc_builder :: string
  tc_write_scope :: "string list"
  tc_objective :: string

datatype contract_error = OutOfScope string string

definition enforce_contract :: "task_contract \<Rightarrow> string \<Rightarrow> (contract_error, unit) result" where
  "enforce_contract c path =
     (if list_ex (\<lambda>p. starts_with path p) (tc_write_scope c) then Inr ()
      else Inl (OutOfScope path (tc_contract_id c)))"

record isolation_bundle =
  ib_task_id :: string
  ib_worktree :: string
  ib_sandbox_id :: string
  ib_context_namespace :: string
  ib_lease_epoch :: nat
  ib_credential_ref :: string
  ib_capability_snapshot :: "string list"
  ib_evidence_namespace :: string

definition bundles_isolated :: "isolation_bundle \<Rightarrow> isolation_bundle \<Rightarrow> bool" where
  "bundles_isolated a b =
     (ib_task_id a \<noteq> ib_task_id b \<and> ib_worktree a \<noteq> ib_worktree b \<and> ib_sandbox_id a \<noteq> ib_sandbox_id b
      \<and> ib_context_namespace a \<noteq> ib_context_namespace b \<and> ib_lease_epoch a \<noteq> ib_lease_epoch b
      \<and> ib_evidence_namespace a \<noteq> ib_evidence_namespace b)"

section \<open>Parallel writes\<close>

record proposed_write =
  pw_task_id :: string
  pw_path :: string

datatype write_admission = Approved string | ConflictDenied string "string list"

fun coordinate_loop :: "proposed_write list \<Rightarrow> (string, string list) btree \<Rightarrow> write_admission list" where
  "coordinate_loop [] held = []"
| "coordinate_loop (w # ws) held =
     (let holders = (case bt_get (pw_path w) held of None \<Rightarrow> [] | Some hs \<Rightarrow> hs)
      in if holders = []
         then Approved (pw_path w) # coordinate_loop ws (bt_insert (pw_path w) [pw_task_id w] held)
         else ConflictDenied (pw_path w) holders # coordinate_loop ws held)"

definition coordinate_writes :: "proposed_write list \<Rightarrow> write_admission list" where
  "coordinate_writes ws = coordinate_loop ws []"

section \<open>Attention\<close>

record attention_item =
  ai_reason :: string
  ai_subject :: string
  ai_action :: string
  ai_event_id :: string

type_synonym attention_manager = "attention_item list"

definition attention_raise :: "attention_item \<Rightarrow> attention_manager \<Rightarrow> attention_manager" where
  "attention_raise i m = m @ [i]"

definition attention_clear :: "string \<Rightarrow> attention_manager \<Rightarrow> bool \<times> attention_manager" where
  "attention_clear e m =
     (let m' = filter (\<lambda>i. ai_event_id i \<noteq> e) m in (length m \<noteq> length m', m'))"

fun group_by_reason ::
  "attention_item list \<Rightarrow> (string, attention_item list) btree \<Rightarrow> (string, attention_item list) btree" where
  "group_by_reason [] m = m"
| "group_by_reason (i # rest) m =
     group_by_reason rest
       (bt_insert (ai_reason i) ((case bt_get (ai_reason i) m of None \<Rightarrow> [] | Some xs \<Rightarrow> xs) @ [i]) m)"

definition by_reason :: "attention_manager \<Rightarrow> (string, attention_item list) btree" where
  "by_reason m = group_by_reason m []"

section \<open>Delegation\<close>

datatype delegation = Delegate_Foreground | Delegate_Background

datatype delegation_reason = OutputBlocksParent | ParentProgressesIndependently

record dependency_signal =
  ds_output_blocks_parent :: bool
  ds_parent_progresses_independently :: bool

definition decide_delegation :: "dependency_signal \<Rightarrow> delegation \<times> delegation_reason" where
  "decide_delegation s =
     (if ds_output_blocks_parent s \<or> \<not> ds_parent_progresses_independently s
      then (Delegate_Foreground, OutputBlocksParent)
      else (Delegate_Background, ParentProgressesIndependently))"

section \<open>Reminders\<close>

record reminder =
  rm_subject :: string
  rm_kind :: string
  rm_action :: string

record unresolved_state =
  us_pending_approvals :: "string list"
  us_unanswered_questions :: "string list"
  us_blocked_nodes :: "string list"
  us_deadlines :: "(string \<times> int) list"
  us_now_ms :: int

definition derive_reminders :: "unresolved_state \<Rightarrow> reminder list" where
  "derive_reminders st =
     map (\<lambda>a. \<lparr>rm_subject = a, rm_kind = ''approval'', rm_action = ''approve or deny '' @ a\<rparr>) (us_pending_approvals st)
     @ map (\<lambda>q. \<lparr>rm_subject = q, rm_kind = ''question'', rm_action = ''answer '' @ q\<rparr>) (us_unanswered_questions st)
     @ map (\<lambda>n. \<lparr>rm_subject = n, rm_kind = ''blocker'', rm_action = ''resolve the blocker on '' @ n\<rparr>) (us_blocked_nodes st)
     @ map (\<lambda>(s, _). \<lparr>rm_subject = s, rm_kind = ''deadline'', rm_action = s @ '' deadline within the hour''\<rparr>)
         (filter (\<lambda>(_, d). d - us_now_ms st < 3600000) (us_deadlines st))"

section \<open>The invariant of the governor\<close>

text \<open>
  A ticket is filed under its tenant and named after a number the counter has already passed, and no
  two tickets of a tenant share an id.
\<close>

definition ticket_ok :: "nat \<Rightarrow> string \<Rightarrow> capacity_ticket \<Rightarrow> bool" where
  "ticket_ok n t c = (ct_tenant c = t \<and> (\<exists>i. 0 < i \<and> i \<le> n \<and> ct_ticket_id c = ticket_name t i))"

definition governor_ok :: "governor \<Rightarrow> bool" where
  "governor_ok g =
     (bt_sorted (gv_capacity g) \<and> bt_sorted (gv_active g)
      \<and> (\<forall>t. distinct (map ct_ticket_id (active_of g t)) \<and> (\<forall>c \<in> set (active_of g t). ticket_ok (gv_counter g) t c)))"

text \<open>The digits after the last dash of an id are the counter value it was made from.\<close>

lemma last_dash:
  assumes "a @ [d] @ b = a' @ [d] @ b'" and "d \<notin> set b" and "d \<notin> set b'"
  shows "a = a' \<and> b = b'"
proof -
  have "takeWhile (\<lambda>c. c \<noteq> d) (rev (a @ [d] @ b)) = rev b"
    using assms(2) by (auto simp: takeWhile_append)
  moreover have "takeWhile (\<lambda>c. c \<noteq> d) (rev (a' @ [d] @ b')) = rev b'"
    using assms(3) by (auto simp: takeWhile_append)
  ultimately show ?thesis using assms(1) by (metis append_same_eq rev_is_rev_conv)
qed

lemma dash_not_digit: "CHR ''-'' \<notin> set (show_nat n)"
  using show_nat_digits [of "CHR ''-''" n] by (auto simp: is_digit_def)

lemma ticket_name_inject [simp]: "ticket_name t m = ticket_name t' n \<longleftrightarrow> t = t' \<and> m = n"
proof
  assume "ticket_name t m = ticket_name t' n"
  then have "t @ [CHR ''-''] @ show_nat m = t' @ [CHR ''-''] @ show_nat n"
    by (simp add: ticket_name_def)
  then show "t = t' \<and> m = n"
    using last_dash dash_not_digit by (metis show_nat_inject)
qed simp

lemma ticket_ok_mono: "ticket_ok n t c \<Longrightarrow> n \<le> m \<Longrightarrow> ticket_ok m t c"
  by (force simp: ticket_ok_def)

lemma active_of_insert [simp]:
  "bt_sorted (gv_active g) \<Longrightarrow> gv_active g' = bt_insert t ts (gv_active g) \<Longrightarrow>
     active_of g' u = (if u = t then ts else active_of g u)"
  by (simp add: active_of_def)

lemma governor_default_ok: "governor_ok governor_default"
  by (simp add: governor_ok_def governor_default_def active_of_def)

lemma set_capacity_ok: "governor_ok g \<Longrightarrow> governor_ok (set_capacity t c g)"
  by (simp add: governor_ok_def set_capacity_def active_of_def)

section \<open>Consuming and releasing a ticket\<close>

lemma consume_cases:
  assumes "governor_ok g"
  shows "capacity_of g t \<le> length (active_of g t) \<Longrightarrow>
      fst (consume t g) = Inl (Exhausted t (length (active_of g t)) (capacity_of g t))
      \<and> active_of (snd (consume t g)) u = active_of g u"
    and "length (active_of g t) < capacity_of g t \<Longrightarrow>
      \<exists>c. fst (consume t g) = Inr c \<and> ct_tenant c = t \<and> ct_ticket_id c = ticket_name t (Suc (gv_counter g))
      \<and> active_of (snd (consume t g)) u = active_of g u @ (if u = t then [c] else [])"
  using assms by (auto simp: consume_def Let_def governor_ok_def active_of_def)

lemma consume_keeps:
  "gv_capacity (snd (consume t g)) = gv_capacity g" "gv_counter g \<le> gv_counter (snd (consume t g))"
  by (auto simp: consume_def Let_def)

lemma consume_ok:
  assumes "governor_ok g"
  shows "governor_ok (snd (consume t g))"
proof (cases "capacity_of g t \<le> length (active_of g t)")
  case True
  then show ?thesis using assms by (auto simp: consume_def Let_def governor_ok_def active_of_def)
next
  case False
  let ?n = "Suc (gv_counter g)"
  let ?c = "\<lparr>ct_ticket_id = ticket_name t ?n, ct_tenant = t\<rparr>"
  let ?g = "snd (consume t g)"
  have sorted: "bt_sorted (gv_capacity ?g)" "bt_sorted (gv_active ?g)" and n: "gv_counter ?g = ?n"
    using False assms by (auto simp: consume_def Let_def governor_ok_def)
  have act: "active_of ?g u = active_of g u @ (if u = t then [?c] else [])" for u
    using False assms by (auto simp: consume_def Let_def governor_ok_def active_of_def)
  have new: "ticket_ok ?n t ?c" by (auto simp: ticket_ok_def)
  have "ticket_name t ?n \<notin> ct_ticket_id ` set (active_of g t)"
    using assms by (force simp: governor_ok_def ticket_ok_def)
  moreover have "ticket_ok ?n u c" if "c \<in> set (active_of g u)" for u c
    using assms that ticket_ok_mono [of "gv_counter g" u c ?n] by (auto simp: governor_ok_def)
  ultimately show ?thesis
    using assms sorted new by (auto simp: governor_ok_def act n)
qed

lemma remove_ticket_None: "remove_ticket i ts = None \<longleftrightarrow> i \<notin> ct_ticket_id ` set ts"
  by (induction ts) auto

lemma remove_ticket_filter:
  "distinct (map ct_ticket_id ts) \<Longrightarrow> remove_ticket i ts = Some ts' \<Longrightarrow> ts' = filter (\<lambda>c. ct_ticket_id c \<noteq> i) ts"
proof (induction ts arbitrary: ts')
  case (Cons a ts)
  show ?case
  proof (cases "ct_ticket_id a = i")
    case True
    then have "\<forall>c \<in> set ts. ct_ticket_id c \<noteq> i" using Cons.prems(1) by (auto simp: image_iff)
    then show ?thesis using True Cons.prems(2) by (simp add: filter_id_conv)
  next
    case False
    then show ?thesis using Cons by auto
  qed
qed simp

text \<open>Releasing removes the id wherever it is, and fails exactly when no tenant holds it.\<close>

lemma release_in_map:
  assumes "\<And>k ts. (k, ts) \<in> set m \<Longrightarrow> distinct (map ct_ticket_id ts)"
    and "\<And>k ts k' ts'. (k, ts) \<in> set m \<Longrightarrow> (k', ts') \<in> set m \<Longrightarrow> k \<noteq> k' \<Longrightarrow>
           ct_ticket_id ` set ts \<inter> ct_ticket_id ` set ts' = {}"
    and "distinct (map fst m)"
  shows "release_in i m =
     (if \<exists>(k, ts) \<in> set m. i \<in> ct_ticket_id ` set ts
      then Some (map (\<lambda>(k, ts). (k, filter (\<lambda>c. ct_ticket_id c \<noteq> i) ts)) m) else None)"
  using assms
proof (induction m)
  case Nil
  then show ?case by simp
next
  case (Cons e m)
  obtain k ts where e: "e = (k, ts)" by force
  have IH: "release_in i m =
     (if \<exists>(k, ts) \<in> set m. i \<in> ct_ticket_id ` set ts
      then Some (map (\<lambda>(k, ts). (k, filter (\<lambda>c. ct_ticket_id c \<noteq> i) ts)) m) else None)"
    using Cons.prems by (intro Cons.IH) (auto, blast)
  show ?case
  proof (cases "i \<in> ct_ticket_id ` set ts")
    case True
    then obtain ts' where r: "remove_ticket i ts = Some ts'" by (cases "remove_ticket i ts") (auto simp: remove_ticket_None)
    moreover have "ts' = filter (\<lambda>c. ct_ticket_id c \<noteq> i) ts"
      using remove_ticket_filter [OF _ r] Cons.prems(1) [of k ts] e by auto
    moreover have "filter (\<lambda>c. ct_ticket_id c \<noteq> i) us = us" if "(j, us) \<in> set m" for j us
    proof -
      have "j \<noteq> k" using that Cons.prems(3) e by force
      then have "i \<notin> ct_ticket_id ` set us" using Cons.prems(2) [of k ts j us] that e True by auto
      then show ?thesis by (auto simp: filter_id_conv)
    qed
    ultimately show ?thesis using e True by (auto intro!: map_idI [symmetric])
  next
    case False
    then have "remove_ticket i ts = None" by (simp add: remove_ticket_None)
    moreover have "filter (\<lambda>c. ct_ticket_id c \<noteq> i) ts = ts" using False by (auto simp: filter_id_conv)
    ultimately show ?thesis using e False IH by auto
  qed
qed


text \<open>Under the invariant no ticket id is held by two tenants, so a release takes out the one ticket.\<close>

lemma active_of_entry: "bt_sorted (gv_active g) \<Longrightarrow> (k, ts) \<in> set (gv_active g) \<Longrightarrow> active_of g k = ts"
  by (simp add: active_of_def bt_get_def bt_sorted_def strict_sorted_iff)

lemma release_in_ok:
  assumes "governor_ok g"
  shows "release_in i (gv_active g) =
     (if \<exists>(k, ts) \<in> set (gv_active g). i \<in> ct_ticket_id ` set ts
      then Some (map (\<lambda>(k, ts). (k, filter (\<lambda>c. ct_ticket_id c \<noteq> i) ts)) (gv_active g)) else None)"
proof (rule release_in_map)
  fix k ts assume "(k, ts) \<in> set (gv_active g)"
  then show "distinct (map ct_ticket_id ts)" using assms active_of_entry unfolding governor_ok_def by blast
next
  fix k ts k' ts'
  assume *: "(k, ts) \<in> set (gv_active g)" "(k', ts') \<in> set (gv_active g)" "k \<noteq> k'"
  then have "\<forall>c \<in> set ts. ticket_ok (gv_counter g) k c" "\<forall>c \<in> set ts'. ticket_ok (gv_counter g) k' c"
    using assms active_of_entry unfolding governor_ok_def by blast+
  then show "ct_ticket_id ` set ts \<inter> ct_ticket_id ` set ts' = {}"
    using *(3) by (fastforce simp: ticket_ok_def)
next
  show "distinct (map fst (gv_active g))"
    using assms by (simp add: governor_ok_def bt_sorted_def strict_sorted_iff)
qed

lemma held_iff: "bt_sorted (gv_active g) \<Longrightarrow>
    (\<exists>(k, ts) \<in> set (gv_active g). i \<in> ct_ticket_id ` set ts) \<longleftrightarrow> (\<exists>t. i \<in> ct_ticket_id ` set (active_of g t))"
  by (force simp: active_of_def bt_get_def bt_sorted_def strict_sorted_iff map_of_eq_Some_iff split: option.splits)

lemma active_of_map:
  assumes "gv_active g' = map (\<lambda>(k, ts). (k, filter P ts)) (gv_active g)"
  shows "active_of g' u = filter P (active_of g u)"
proof -
  have "map_of (map (\<lambda>(k, ts). (k, filter P ts)) m) u = map_option (filter P) (map_of m u)" for m :: "(string, capacity_ticket list) btree"
    by (induction m) auto
  then show ?thesis using assms by (simp add: active_of_def bt_get_def split: option.splits)
qed

lemma release_ticket_cases:
  assumes "governor_ok g"
  shows "\<exists>t. i \<in> ct_ticket_id ` set (active_of g t) \<Longrightarrow> fst (release_ticket i g) = Inr ()"
    and "\<nexists>t. i \<in> ct_ticket_id ` set (active_of g t) \<Longrightarrow> release_ticket i g = (Inl (UnknownTicket i), g)"
    and "active_of (snd (release_ticket i g)) u = filter (\<lambda>c. ct_ticket_id c \<noteq> i) (active_of g u)"
proof -
  have s: "bt_sorted (gv_active g)" using assms by (simp add: governor_ok_def)
  note r = release_in_ok [OF assms, of i] held_iff [OF s, of i]
  show "\<exists>t. i \<in> ct_ticket_id ` set (active_of g t) \<Longrightarrow> fst (release_ticket i g) = Inr ()"
    using r by (simp add: release_ticket_def)
  show none: "\<nexists>t. i \<in> ct_ticket_id ` set (active_of g t) \<Longrightarrow> release_ticket i g = (Inl (UnknownTicket i), g)"
    using r by (simp add: release_ticket_def)
  show "active_of (snd (release_ticket i g)) u = filter (\<lambda>c. ct_ticket_id c \<noteq> i) (active_of g u)"
  proof (cases "\<exists>t. i \<in> ct_ticket_id ` set (active_of g t)")
    case True
    then have "gv_active (snd (release_ticket i g)) = map (\<lambda>(k, ts). (k, filter (\<lambda>c. ct_ticket_id c \<noteq> i) ts)) (gv_active g)"
      using r by (simp add: release_ticket_def)
    then show ?thesis by (rule active_of_map)
  next
    case False
    then have "\<forall>c \<in> set (active_of g u). ct_ticket_id c \<noteq> i" by blast
    then show ?thesis using none [OF False] by (simp add: filter_id_conv)
  qed
qed

lemma release_ticket_keeps:
  "gv_capacity (snd (release_ticket i g)) = gv_capacity g" "gv_counter (snd (release_ticket i g)) = gv_counter g"
  by (simp_all add: release_ticket_def split: option.splits)

lemma release_ticket_ok:
  assumes "governor_ok g"
  shows "governor_ok (snd (release_ticket i g))"
proof -
  have keys: "map fst m' = map fst m" if "release_in i m = Some m'" for m m'
    using that by (induction m arbitrary: m') (auto split: option.splits)
  then have "bt_sorted (gv_active (snd (release_ticket i g)))"
    using assms by (auto simp: governor_ok_def release_ticket_def bt_sorted_def split: option.splits)
  then show ?thesis
    using assms by (auto simp: governor_ok_def release_ticket_keeps release_ticket_cases(3) [OF assms] distinct_map_filter)
qed


section \<open>Properties\<close>

text \<open>Between admissions the governor only changes through these operations.\<close>

datatype governor_op =
  Op_Capacity string nat
| Op_Admit string string string "string list" string "string option"
| Op_Release string

fun governor_step :: "governor \<Rightarrow> governor_op \<Rightarrow> governor" where
  "governor_step g (Op_Capacity t c) = set_capacity t c g"
| "governor_step g (Op_Admit t ch wt ws ce inject) = snd (admit_subagent g t ch wt ws ce inject)"
| "governor_step g (Op_Release i) = snd (release_ticket i g)"

lemma roll_back_snd [simp]: "snd (roll_back i s g) = snd (release_ticket i g)"
  by (simp add: roll_back_def split: prod.splits sum.splits)

lemma admit_ok: "governor_ok g \<Longrightarrow> governor_ok (snd (admit_subagent g t ch wt ws ce inject))"
  using consume_ok [of g t] by (auto simp: admit_subagent_def release_ticket_ok split: prod.splits sum.splits)

interpretation governors: machine governor_step governor_ok
proof
  show "governor_ok g \<Longrightarrow> governor_ok (governor_step g op)" for g op
    by (cases op) (auto intro: set_capacity_ok admit_ok release_ticket_ok)
qed

lemma new_ticket_rolls_back:
  assumes "governor_ok g" and "consume t g = (Inr c, g1)"
  shows "\<exists>g2. release_ticket (ct_ticket_id c) g1 = (Inr (), g2) \<and> active_of g2 u = active_of g u"
proof -
  have room: "length (active_of g t) < capacity_of g t"
    using consume_cases(1) [OF assms(1), of t] assms(2) by fastforce
  then have c: "ct_ticket_id c = ticket_name t (Suc (gv_counter g))"
      and act: "\<And>v. active_of g1 v = active_of g v @ (if v = t then [c] else [])"
    using consume_cases(2) [OF assms(1) room] assms(2) by force+
  have ok1: "governor_ok g1" using consume_ok [OF assms(1), of t] assms(2) by simp
  have "ct_ticket_id c \<in> ct_ticket_id ` set (active_of g1 t)" using act by simp
  then have "fst (release_ticket (ct_ticket_id c) g1) = Inr ()" using release_ticket_cases(1) [OF ok1] by blast
  moreover have "\<forall>d \<in> set (active_of g u). ct_ticket_id d \<noteq> ct_ticket_id c"
    using assms(1) c by (force simp: governor_ok_def ticket_ok_def)
  then have "active_of (snd (release_ticket (ct_ticket_id c) g1)) u = active_of g u"
    using release_ticket_cases(3) [OF ok1] act by (simp add: filter_id_conv)
  ultimately show ?thesis by (metis prod.collapse)
qed

text \<open>C12: subagent admission is a transaction: after any sequence of governor operations, an admission either
  succeeds, within the tenant's capacity, and adds exactly its own ticket with an id no live ticket of any
  tenant has, or it fails, never by a panic of the compensation, and leaves every tenant's tickets as they
  were.\<close>
theorem admission_is_transactional:
  assumes "g = foldl governor_step governor_default ops"
    and "admit_subagent g tenant child worktree write_set ceiling inject = (res, g')"
  shows "gv_capacity g' = gv_capacity g
    \<and> (case res of
         Inr a \<Rightarrow> length (active_of g' tenant) \<le> capacity_of g' tenant
               \<and> (\<forall>t. ct_ticket_id (ad_ticket a) \<notin> ct_ticket_id ` set (active_of g t))
               \<and> (\<forall>t. active_of g' t = active_of g t @ (if t = tenant then [ad_ticket a] else []))
       | Inl e \<Rightarrow> e \<noteq> AdmissionPanic \<and> (\<forall>t. active_of g' t = active_of g t))"
proof -
  have ok: "governor_ok g" unfolding assms(1) by (rule governors.run_inv [OF governor_default_ok])
  obtain r g1 where c: "consume tenant g = (r, g1)" by force
  note keep = consume_keeps(1) [of tenant g] release_ticket_keeps(1)
  show ?thesis
  proof (cases r)
    case (Inl e)
    then have "capacity_of g tenant \<le> length (active_of g tenant)"
      using c by (intro leI notI) (use consume_cases(2) [OF ok, of tenant] in force)
    then show ?thesis using consume_cases(1) [OF ok, of tenant] assms(2) c Inl keep by (auto simp: admit_subagent_def)
  next
    case (Inr k)
    then have room: "length (active_of g tenant) < capacity_of g tenant"
      using consume_cases(1) [OF ok, of tenant] c by (metis Inl_Inr_False fst_conv not_le)
    have k: "ct_ticket_id k = ticket_name tenant (Suc (gv_counter g))"
        "\<And>t. active_of g1 t = active_of g t @ (if t = tenant then [k] else [])"
      using consume_cases(2) [OF ok room] c Inr by force+
    have fresh: "ct_ticket_id k \<notin> ct_ticket_id ` set (active_of g t)" for t
      using ok k(1) by (force simp: governor_ok_def ticket_ok_def)
    have cap: "capacity_of g1 tenant = capacity_of g tenant" using keep(1) c by (simp add: capacity_of_def)
    obtain g2 where "release_ticket (ct_ticket_id k) g1 = (Inr (), g2)" and "\<And>u. active_of g2 u = active_of g u"
      using new_ticket_rolls_back [OF ok] c Inr by (metis prod.inject)
    then show ?thesis
      using assms(2) c Inr keep(1) keep(2) [of "ct_ticket_id k" g1] room k(2) fresh cap
      by (auto simp: admit_subagent_def roll_back_def split: if_splits)
  qed
qed

theorem admission_is_transactional_witness:
  "\<exists>g'. admit_subagent (foldl governor_step governor_default [Op_Capacity ''t'' 1]) ''t'' ''c'' ''w'' [] ''x'' (Some ''after_worktree'')
      = (Inl (InjectedFailure ''after_worktree''), g') \<and> (\<forall>t. active_of g' t = [])"
proof -
  let ?g = "foldl governor_step governor_default [Op_Capacity ''t'' 1]"
  obtain g' where a: "admit_subagent ?g ''t'' ''c'' ''w'' [] ''x'' (Some ''after_worktree'') = (Inl (InjectedFailure ''after_worktree''), g')"
    by (simp add: admit_subagent_def consume_def capacity_of_def active_of_def set_capacity_def governor_default_def
        roll_back_def release_ticket_def bt_get_def Let_def)
  have "\<forall>t. active_of ?g t = []" by (simp add: active_of_def set_capacity_def governor_default_def)
  then show ?thesis using admission_is_transactional [OF refl a] a by auto
qed

text \<open>What first-claim-wins says about a write to a path, given the writes before it.\<close>

definition claim_verdict :: "string \<Rightarrow> proposed_write list \<Rightarrow> write_admission" where
  "claim_verdict p earlier =
     (case filter (\<lambda>w. pw_path w = p) earlier of
        [] \<Rightarrow> Approved p
      | w # _ \<Rightarrow> ConflictDenied p [pw_task_id w])"

lemma coordinate_loop_held:
  assumes "bt_sorted held"
    and "\<And>p. bt_get p held = (case filter (\<lambda>w. pw_path w = p) past of [] \<Rightarrow> None | w # _ \<Rightarrow> Some [pw_task_id w])"
  shows "coordinate_loop ws held =
    map (\<lambda>i. claim_verdict (pw_path (ws ! i)) (past @ take i ws)) [0..<length ws]"
  using assms
proof (induction ws arbitrary: held past)
  case Nil
  then show ?case by simp
next
  case (Cons w ws)
  let ?prev = "filter (\<lambda>v. pw_path v = pw_path w) past"
  define held' where "held' = (if ?prev = [] then bt_insert (pw_path w) [pw_task_id w] held else held)"
  have "bt_get p held' =
      (case filter (\<lambda>v. pw_path v = p) (past @ [w]) of [] \<Rightarrow> None | v # _ \<Rightarrow> Some [pw_task_id v])" for p
    using Cons.prems by (cases "filter (\<lambda>v. pw_path v = p) past") (auto simp: held'_def split: list.splits)
  moreover have "bt_sorted held'" using Cons.prems(1) by (simp add: held'_def)
  ultimately have IH: "coordinate_loop ws held' =
    map (\<lambda>i. claim_verdict (pw_path (ws ! i)) ((past @ [w]) @ take i ws)) [0..<length ws]"
    using Cons.IH by blast
  have "coordinate_loop (w # ws) held = claim_verdict (pw_path w) past # coordinate_loop ws held'"
    using Cons.prems(2) by (simp add: held'_def claim_verdict_def split: list.splits)
  then show ?case
    by (simp add: IH upt_conv_Cons map_Suc_upt [symmetric] comp_def del: upt_Suc coordinate_loop.simps)
qed

text \<open>The coordinator of parallel writes decides exactly by first claim: every write is approved if no earlier
  write in the plan has its path, and otherwise denied, naming the task of the first claim on that path.\<close>

lemma first_claim_on_a_path_wins:
  "coordinate_writes ws = map (\<lambda>i. claim_verdict (pw_path (ws ! i)) (take i ws)) [0..<length ws]"
  using coordinate_loop_held [of "[]" "[]" ws] by (simp add: coordinate_writes_def)

end
