(* ===== verification/Effect_Ledger.thy ===== *)
theory Effect_Ledger
  imports Rust_Text
begin

text \<open>
  The protected-effect ledger of \<^verbatim>\<open>crates/effects/src/lib.rs\<close>: a chain of receipts, each linked to the one
  before by a hash, and its append-only file. The hash (SHA-256 in hexadecimal) and the JSON codec of a
  receipt are parameters, and so is what the operating system answers to a write.
\<close>

section \<open>The chain\<close>

record effect_receipt =
  er_receipt_id :: string
  er_prev_receipt_hash :: string
  er_approval_digest :: string
  er_capability_digest :: string
  er_call_digest :: string
  er_result_digest :: string
  er_chain_hash :: string

type_synonym hash_fn = "string \<Rightarrow> string"
type_synonym chain = "effect_receipt list"

definition chain_hash :: "hash_fn \<Rightarrow> string \<Rightarrow> string \<Rightarrow> string \<Rightarrow> string \<Rightarrow> string \<Rightarrow> string" where
  "chain_hash H prev approval capability call res = H (prev @ approval @ capability @ call @ res)"

definition last_hash :: "chain \<Rightarrow> string" where
  "last_hash rs = (if rs = [] then ''GENESIS'' else er_chain_hash (last rs))"

definition chain_append ::
  "hash_fn \<Rightarrow> string \<Rightarrow> string \<Rightarrow> string \<Rightarrow> string \<Rightarrow> chain \<Rightarrow> effect_receipt \<times> chain" where
  "chain_append H approval capability call res rs =
     (let prev = last_hash rs;
          h = chain_hash H prev approval capability call res;
          receipt = \<lparr>er_receipt_id = ''receipt-'' @ take 12 h, er_prev_receipt_hash = prev,
                     er_approval_digest = approval, er_capability_digest = capability,
                     er_call_digest = call, er_result_digest = res, er_chain_hash = h\<rparr>
      in (receipt, rs @ [receipt]))"

definition receipt_hash :: "hash_fn \<Rightarrow> effect_receipt \<Rightarrow> string" where
  "receipt_hash H r =
     chain_hash H (er_prev_receipt_hash r) (er_approval_digest r) (er_capability_digest r) (er_call_digest r)
       (er_result_digest r)"

fun verify_from :: "hash_fn \<Rightarrow> nat \<Rightarrow> string \<Rightarrow> chain \<Rightarrow> (string, unit) result" where
  "verify_from H index prev [] = Inr ()"
| "verify_from H index prev (r # rs) =
     (if er_prev_receipt_hash r \<noteq> prev
      then Inl (''chain broken at receipt '' @ show_nat index @ '': link hash mismatch (tamper/delete/reorder)'')
      else if er_chain_hash r \<noteq> receipt_hash H r
      then Inl (''receipt '' @ show_nat index @ '': chain hash mismatch (tampered)'')
      else verify_from H (index + 1) (er_chain_hash r) rs)"

definition chain_verify :: "hash_fn \<Rightarrow> chain \<Rightarrow> (string, unit) result" where
  "chain_verify H rs = verify_from H 0 ''GENESIS'' rs"

section \<open>The file\<close>

datatype disk = Absent | Unreadable string | Content string

datatype write_io = Write_Ok | Open_Failed string | Write_Failed nat string | Flush_Failed string

record ledger =
  lg_disk :: disk
  lg_chain :: chain

type_synonym receipt_reader = "string \<Rightarrow> (string, effect_receipt) result"
type_synonym receipt_writer = "effect_receipt \<Rightarrow> (string, string) result"

fun read_receipts :: "receipt_reader \<Rightarrow> string list \<Rightarrow> (string, chain) result" where
  "read_receipts de [] = Inr []"
| "read_receipts de (l # ls) =
     (if str_trim l = [] then read_receipts de ls
      else and_then (map_err (\<lambda>e. ''corrupt receipt line: '' @ e) (de l)) (\<lambda>r.
           and_then (read_receipts de ls) (\<lambda>rs. Inr (r # rs))))"

definition ledger_open :: "hash_fn \<Rightarrow> receipt_reader \<Rightarrow> disk \<Rightarrow> (string, ledger) result" where
  "ledger_open H de d =
     (case d of
        Absent \<Rightarrow> Inr \<lparr>lg_disk = d, lg_chain = []\<rparr>
      | Unreadable e \<Rightarrow> Inl e
      | Content s \<Rightarrow>
          and_then (read_receipts de (str_lines s)) (\<lambda>rs.
          and_then (chain_verify H rs) (\<lambda>_. Inr \<lparr>lg_disk = d, lg_chain = rs\<rparr>)))"

text \<open>What a write leaves in the file: a failed \<open>write_all\<close> may have written a part of the line.\<close>

definition disk_add :: "disk \<Rightarrow> string \<Rightarrow> disk" where
  "disk_add d line = (case d of Content s \<Rightarrow> Content (s @ line) | Absent \<Rightarrow> Content line | Unreadable e \<Rightarrow> d)"

definition ledger_append ::
  "hash_fn \<Rightarrow> receipt_writer \<Rightarrow> write_io \<Rightarrow> string \<Rightarrow> string \<Rightarrow> string \<Rightarrow> string \<Rightarrow> ledger \<Rightarrow>
   (string, effect_receipt) result \<times> ledger" where
  "ledger_append H ser io approval capability call res l =
     (let (receipt, rs) = chain_append H approval capability call res (lg_chain l);
          l1 = l\<lparr>lg_chain := rs\<rparr>
      in case io of
           Open_Failed e \<Rightarrow> (Inl e, l1)
         | _ \<Rightarrow>
             let l2 = l1\<lparr>lg_disk := disk_add (lg_disk l) []\<rparr>
             in (case ser receipt of
                   Inl e \<Rightarrow> (Inl e, l2)
                 | Inr text_line \<Rightarrow>
                     let line = text_line @ [CHR 0x0A]
                     in (case io of
                           Write_Failed k e \<Rightarrow> (Inl e, l2\<lparr>lg_disk := disk_add (lg_disk l) (take k line)\<rparr>)
                         | Flush_Failed e \<Rightarrow> (Inl e, l2\<lparr>lg_disk := disk_add (lg_disk l) line\<rparr>)
                         | _ \<Rightarrow> (Inr receipt, l2\<lparr>lg_disk := disk_add (lg_disk l) line\<rparr>))))"

definition verify_file :: "hash_fn \<Rightarrow> receipt_reader \<Rightarrow> disk \<Rightarrow> (string, unit) result" where
  "verify_file H de d = and_then (ledger_open H de d) (\<lambda>l. chain_verify H (lg_chain l))"

definition verify_on_disk :: "hash_fn \<Rightarrow> receipt_reader \<Rightarrow> ledger \<Rightarrow> (string, unit) result" where
  "verify_on_disk H de l = verify_file H de (lg_disk l)"

section \<open>The chain verifies\<close>

lemma verify_from_append:
  "verify_from H i p (rs @ [r]) = Inr () \<longleftrightarrow>
     verify_from H i p rs = Inr () \<and> er_prev_receipt_hash r = (if rs = [] then p else er_chain_hash (last rs))
     \<and> er_chain_hash r = receipt_hash H r"
  by (induction H i p rs rule: verify_from.induct) auto

lemma chain_verify_snoc:
  "chain_verify H (rs @ [r]) = Inr () \<longleftrightarrow>
     chain_verify H rs = Inr () \<and> er_prev_receipt_hash r = last_hash rs \<and> er_chain_hash r = receipt_hash H r"
  by (simp add: chain_verify_def verify_from_append last_hash_def)

lemma chain_append_verifies:
  "chain_verify H rs = Inr () \<Longrightarrow> chain_verify H (snd (chain_append H a c k r rs)) = Inr ()"
  by (simp add: chain_append_def Let_def chain_verify_snoc receipt_hash_def)

text \<open>The first broken link is the one reported.\<close>

lemma verify_from_broken:
  assumes "verify_from H i p rs = Inr ()" and "er_prev_receipt_hash r \<noteq> (if rs = [] then p else er_chain_hash (last rs))"
  shows "verify_from H i p (rs @ r # rs') =
    Inl (''chain broken at receipt '' @ show_nat (i + length rs) @ '': link hash mismatch (tamper/delete/reorder)'')"
  using assms by (induction H i p rs rule: verify_from.induct) (auto split: if_splits)

text \<open>Cutting off the newest receipts and changing receipt ids both go unnoticed: they are not hashed.\<close>

lemma verify_from_prefix: "verify_from H i p (rs @ rs') = Inr () \<Longrightarrow> verify_from H i p rs = Inr ()"
  by (induction H i p rs rule: verify_from.induct) (auto split: if_splits)

lemma verify_from_ignores_ids:
  "verify_from H i p (map (\<lambda>r. r\<lparr>er_receipt_id := f r\<rparr>) rs) = verify_from H i p rs"
  by (induction H i p rs rule: verify_from.induct) (auto simp: receipt_hash_def)

section \<open>The head of the chain binds all of it\<close>

definition digests_have :: "nat \<Rightarrow> chain \<Rightarrow> bool" where
  "digests_have n rs =
     (\<forall>r \<in> set rs. length (er_approval_digest r) = n \<and> length (er_capability_digest r) = n
                  \<and> length (er_call_digest r) = n \<and> length (er_result_digest r) = n)"

lemma hashed_text_inject:
  assumes "p @ a @ c @ k @ r = p' @ a' @ c' @ k' @ r'"
    and "length a = n" "length a' = n" "length c = n" "length c' = n" "length k = n" "length k' = n"
      "length r = n" "length r' = n"
  shows "p = p' \<and> a = a' \<and> c = c' \<and> k = k' \<and> r = (r' :: string)"
proof -
  have "length (a @ c @ k @ r) = length (a' @ c' @ k' @ r')" using assms(2-) by simp
  then have "p = p' \<and> a @ c @ k @ r = a' @ c' @ k' @ r'" using assms(1) by simp
  then show ?thesis using assms(2-) by simp
qed

text \<open>The text a receipt is hashed over, in which its id plays no part, and a receipt without its id.\<close>

definition hashed_text :: "effect_receipt \<Rightarrow> string" where
  "hashed_text r = er_prev_receipt_hash r @ er_approval_digest r @ er_capability_digest r @ er_call_digest r @ er_result_digest r"

abbreviation without_id :: "effect_receipt \<Rightarrow> effect_receipt" where
  "without_id r \<equiv> r\<lparr>er_receipt_id := []\<rparr>"

text \<open>A receipt of the one ledger and one of the other that are hashed over different texts to the same hash.\<close>

definition collision :: "hash_fn \<Rightarrow> chain \<Rightarrow> chain \<Rightarrow> bool" where
  "collision H rs rs' \<longleftrightarrow> (\<exists>r \<in> set rs. \<exists>q \<in> set rs'. hashed_text r \<noteq> hashed_text q \<and> H (hashed_text r) = H (hashed_text q))"

lemma receipt_hash_text: "receipt_hash H r = H (hashed_text r)"
  by (simp add: receipt_hash_def chain_hash_def hashed_text_def)

lemma verified_head:
  assumes "chain_verify H (rs @ [r]) = Inr ()" and "\<forall>x. length (H x) = 64"
  shows "last_hash (rs @ [r]) \<noteq> ''GENESIS''"
proof
  assume "last_hash (rs @ [r]) = ''GENESIS''"
  then have "length (H (hashed_text r)) = length ''GENESIS''"
    using assms(1) by (simp add: last_hash_def chain_verify_snoc receipt_hash_text)
  then show False using assms(2) by simp
qed

lemma head_binds:
  assumes "\<forall>x. length (H x) = 64"
  shows "chain_verify H rs = Inr () \<Longrightarrow> chain_verify H rs' = Inr () \<Longrightarrow> digests_have n rs \<Longrightarrow> digests_have n rs' \<Longrightarrow>
     last_hash rs = last_hash rs' \<Longrightarrow> map without_id rs = map without_id rs' \<or> collision H rs rs'"
proof (induction rs arbitrary: rs' rule: rev_induct)
  case Nil
  have "last_hash rs' = ''GENESIS''" using Nil.prems(5) by (simp add: last_hash_def)
  then have "rs' = []" using verified_head [OF _ assms] Nil.prems(2) by (metis rev_exhaust)
  then show ?case by simp
next
  case (snoc r rs)
  have "last_hash rs' \<noteq> ''GENESIS''" using verified_head [OF snoc.prems(1) assms] snoc.prems(5) by metis
  then obtain qs q where rs': "rs' = qs @ [q]" by (cases rs' rule: rev_cases) (auto simp: last_hash_def)
  have h: "H (hashed_text r) = H (hashed_text q)"
    using snoc.prems by (simp add: rs' chain_verify_snoc last_hash_def receipt_hash_text)
  show ?case
  proof (cases "hashed_text r = hashed_text q")
    case False
    with h show ?thesis by (auto simp: collision_def rs')
  next
    case True
    from hashed_text_inject [OF True [unfolded hashed_text_def], of n] snoc.prems(3,4)
    have eq: "er_prev_receipt_hash r = er_prev_receipt_hash q \<and> er_approval_digest r = er_approval_digest q
        \<and> er_capability_digest r = er_capability_digest q \<and> er_call_digest r = er_call_digest q
        \<and> er_result_digest r = er_result_digest q"
      by (simp add: rs' digests_have_def)
    then have "without_id r = without_id q" using snoc.prems by (simp add: rs' last_hash_def)
    moreover have "map without_id rs = map without_id qs \<or> collision H rs qs"
      using snoc.prems eq by (intro snoc.IH) (simp_all add: rs' chain_verify_snoc digests_have_def)
    ultimately show ?thesis by (auto simp: rs' collision_def)
  qed
qed



section \<open>Disk and memory\<close>

text \<open>A receipt whose line is read back as it was written.\<close>

definition line_ok :: "receipt_writer \<Rightarrow> receipt_reader \<Rightarrow> effect_receipt \<Rightarrow> bool" where
  "line_ok ser de r =
     (case ser r of
        Inl _ \<Rightarrow> False
      | Inr s \<Rightarrow> de s = Inr r \<and> str_trim s \<noteq> [] \<and> CHR 0x0A \<notin> set s \<and> last s \<noteq> CHR 0x0D)"

definition line_of :: "receipt_writer \<Rightarrow> effect_receipt \<Rightarrow> string" where
  "line_of ser r = (case ser r of Inl _ \<Rightarrow> [] | Inr s \<Rightarrow> s)"

definition written :: "receipt_writer \<Rightarrow> chain \<Rightarrow> string" where
  "written ser rs = concat (map (\<lambda>l. l @ [CHR 0x0A]) (map (line_of ser) rs))"

definition disk_holds :: "receipt_writer \<Rightarrow> chain \<Rightarrow> disk \<Rightarrow> bool" where
  "disk_holds ser rs d = (d = Content (written ser rs) \<or> d = Absent \<and> rs = [])"

lemma read_written:
  assumes "\<forall>r \<in> set rs. line_ok ser de r"
  shows "read_receipts de (str_lines (written ser rs)) = Inr rs"
proof -
  have "str_lines (written ser rs) = map (line_of ser) rs"
    unfolding written_def using assms
    by (intro str_lines_written) (auto simp: line_ok_def line_of_def split: sum.splits)
  moreover have "read_receipts de (map (line_of ser) rs) = Inr rs"
    using assms by (induction rs) (auto simp: line_ok_def line_of_def split: sum.splits)
  ultimately show ?thesis by simp
qed

lemma open_holds:
  assumes "disk_holds ser rs d" and "\<forall>r \<in> set rs. line_ok ser de r"
  shows "ledger_open H de d = and_then (chain_verify H rs) (\<lambda>_. Inr \<lparr>lg_disk = d, lg_chain = rs\<rparr>)"
  using assms read_written [OF assms(2)] by (auto simp: disk_holds_def ledger_open_def chain_verify_def)

lemma append_holds:
  assumes "disk_holds ser rs (lg_disk l)" and "ledger_append H ser Write_Ok a c k r l = (Inr e, l')"
  shows "disk_holds ser (rs @ [e]) (lg_disk l')" and "lg_chain l' = lg_chain l @ [e]"
  using assms
  by (auto simp: ledger_append_def chain_append_def Let_def disk_holds_def disk_add_def written_def line_of_def
      split: sum.splits)

text \<open>File and memory agree and verify.\<close>

definition ledger_good :: "receipt_writer \<Rightarrow> hash_fn \<Rightarrow> ledger \<Rightarrow> bool" where
  "ledger_good ser H l = (disk_holds ser (lg_chain l) (lg_disk l) \<and> chain_verify H (lg_chain l) = Inr ())"

lemma append_chain:
  "lg_chain (snd (ledger_append H ser io a c k r l)) = lg_chain l @ [fst (chain_append H a c k r (lg_chain l))]"
  by (simp add: ledger_append_def chain_append_def Let_def split: sum.splits write_io.splits)

lemma append_good:
  assumes "ledger_good ser H l" and "line_ok ser de (fst (chain_append H a c k r (lg_chain l)))"
  shows "ledger_good ser H (snd (ledger_append H ser Write_Ok a c k r l))"
proof -
  let ?x = "fst (chain_append H a c k r (lg_chain l))"
  have "fst (ledger_append H ser Write_Ok a c k r l) = Inr ?x"
    using assms(2) by (auto simp: ledger_append_def chain_append_def Let_def line_ok_def split: sum.splits)
  then have a: "ledger_append H ser Write_Ok a c k r l = (Inr ?x, snd (ledger_append H ser Write_Ok a c k r l))"
    by (metis prod.collapse)
  have "chain_verify H (lg_chain l @ [?x]) = Inr ()"
    using chain_append_verifies [of H "lg_chain l" a c k r] assms(1) by (simp add: ledger_good_def chain_append_def Let_def)
  then show ?thesis using append_holds(1) [OF _ a] assms(1) by (simp add: ledger_good_def append_chain)
qed

lemma appends_good:
  assumes "ledger_good ser H l"
    and "\<forall>r \<in> set (lg_chain (foldl (\<lambda>l (a, c, k, r). snd (ledger_append H ser Write_Ok a c k r l)) l es)). line_ok ser de r"
  shows "ledger_good ser H (foldl (\<lambda>l (a, c, k, r). snd (ledger_append H ser Write_Ok a c k r l)) l es)"
  using assms
proof (induction es arbitrary: l)
  case (Cons e es)
  obtain a c k r where e: "e = (a, c, k, r)" by (metis prod.exhaust)
  have sub: "set (lg_chain l) \<subseteq> set (lg_chain (foldl (\<lambda>l (a, c, k, r). snd (ledger_append H ser Write_Ok a c k r l)) l es))" for l
    by (induction es arbitrary: l) (fastforce simp: append_chain)+
  have "line_ok ser de (fst (chain_append H a c k r (lg_chain l)))"
    using Cons.prems(2) sub [of "snd (ledger_append H ser Write_Ok a c k r l)"] e by (auto simp: append_chain)
  then have "ledger_good ser H (snd (ledger_append H ser Write_Ok a c k r l))" using append_good Cons.prems(1) by blast
  then show ?case using Cons e by simp
qed simp

text \<open>The ledger survives a restart: starting from a ledger whose file and memory agree and verify, after any
  appends that were written, opening the file gives back exactly the ledger in memory.\<close>

lemma ledger_survives_restart:
  assumes "disk_holds ser (lg_chain l) (lg_disk l)" and "chain_verify H (lg_chain l) = Inr ()"
    and "l' = foldl (\<lambda>l (a, c, k, r). snd (ledger_append H ser Write_Ok a c k r l)) l effects"
    and "\<forall>r \<in> set (lg_chain l'). line_ok ser de r"
  shows "ledger_open H de (lg_disk l') = Inr l' \<and> verify_on_disk H de l' = Inr ()"
proof -
  have "ledger_good ser H l'"
    unfolding assms(3) using assms(1,2,4) by (intro appends_good) (auto simp: ledger_good_def assms(3))
  then show ?thesis
    using open_holds [OF _ assms(4)] by (simp add: ledger_good_def verify_on_disk_def verify_file_def)
qed

lemma ledger_survives_restart_witness:
  "let H = (\<lambda>x. ''#'' @ x); ser = (\<lambda>r. Inr (er_chain_hash r));
       l = \<lparr>lg_disk = Absent, lg_chain = []\<rparr>; l' = snd (ledger_append H ser Write_Ok ''a'' ''b'' ''c'' ''d'' l);
       de = (\<lambda>s. Inr (hd (lg_chain l')))
   in ledger_open H de (lg_disk l') = Inr l' \<and> length (lg_chain l') = 1"
proof -
  let ?H = "\<lambda>x. ''#'' @ x" and ?ser = "(\<lambda>r. Inr (er_chain_hash r)) :: receipt_writer"
  let ?l = "\<lparr>lg_disk = Absent, lg_chain = []\<rparr>"
  let ?l' = "snd (ledger_append ?H ?ser Write_Ok ''a'' ''b'' ''c'' ''d'' ?l)"
  let ?de = "(\<lambda>s. Inr (hd (lg_chain ?l'))) :: receipt_reader"
  have "\<forall>r \<in> set (lg_chain ?l'). line_ok ?ser ?de r"
    by (simp add: ledger_append_def chain_append_def chain_hash_def Let_def line_ok_def str_trim_def is_space_def last_hash_def)
  moreover have "disk_holds ?ser (lg_chain ?l) (lg_disk ?l)" "chain_verify ?H (lg_chain ?l) = Inr ()"
    by (simp_all add: disk_holds_def chain_verify_def)
  ultimately have "ledger_open ?H ?de (lg_disk ?l') = Inr ?l'"
    using ledger_survives_restart [of ?ser ?l ?H ?l' "[(''a'', ''b'', ''c'', ''d'')]" ?de] by simp
  then show ?thesis by (simp add: Let_def ledger_append_def chain_append_def)
qed

text \<open>A lost write breaks the ledger for good: the receipt is chained in memory before it is written, so when
  the file cannot be opened for one append and the next append succeeds, the file skips a receipt and
  neither verifies nor opens again.\<close>

lemma lost_write_breaks_ledger:
  assumes "disk_holds ser (lg_chain l) (lg_disk l)" and "chain_verify H (lg_chain l) = Inr ()"
    and "ledger_append H ser (Open_Failed e) a c k r l = (Inl e, l1)"
    and "ledger_append H ser Write_Ok a' c' k' r' l1 = (Inr x, l2)"
    and "chain_hash H (last_hash (lg_chain l)) a c k r \<noteq> last_hash (lg_chain l)"
    and "\<forall>q \<in> set (lg_chain l2). line_ok ser de q"
  shows "ledger_open H de (lg_disk l2) = Inl (''chain broken at receipt '' @ show_nat (length (lg_chain l))
           @ '': link hash mismatch (tamper/delete/reorder)'')"
proof -
  have l1: "lg_disk l1 = lg_disk l" "lg_chain l1 = snd (chain_append H a c k r (lg_chain l))"
    using assms(3) by (auto simp: ledger_append_def chain_append_def Let_def)
  have h: "disk_holds ser (lg_chain l @ [x]) (lg_disk l2)"
    using append_holds(1) [OF _ assms(4), of "lg_chain l"] assms(1) l1 by simp
  have c2: "lg_chain l2 = lg_chain l1 @ [x]" using append_holds(2) [OF _ assms(4)] assms(1) l1(1) by metis
  then have "er_prev_receipt_hash x = last_hash (lg_chain l1)"
    using assms(4) by (auto simp: ledger_append_def chain_append_def Let_def split: sum.splits)
  then have "er_prev_receipt_hash x \<noteq> last_hash (lg_chain l)"
    using assms(5) l1(2) by (simp add: chain_append_def Let_def last_hash_def)
  then have "chain_verify H (lg_chain l @ [x]) = Inl (''chain broken at receipt '' @ show_nat (length (lg_chain l))
           @ '': link hash mismatch (tamper/delete/reorder)'')"
    using verify_from_broken [of H 0 "''GENESIS''" "lg_chain l" x "[]"] assms(2)
    by (simp add: chain_verify_def last_hash_def)
  moreover have "\<forall>q \<in> set (lg_chain l @ [x]). line_ok ser de q"
    using assms(6) c2 l1(2) by (simp add: chain_append_def Let_def)
  ultimately show ?thesis using open_holds [OF h] by simp
qed

lemma lost_write_breaks_ledger_witness:
  "let H = (#) CHR ''#''; ser = (\<lambda>r. Inr (er_chain_hash r));
       l = \<lparr>lg_disk = Absent, lg_chain = []\<rparr>;
       l1 = snd (ledger_append H ser (Open_Failed ''denied'') ''a'' ''b'' ''c'' ''d'' l);
       l2 = snd (ledger_append H ser Write_Ok ''a'' ''b'' ''c'' ''d'' l1);
       de = (\<lambda>s. Inr (if s = er_chain_hash (hd (lg_chain l2)) then hd (lg_chain l2) else last (lg_chain l2)))
   in ledger_open H de (lg_disk l2) = Inl ''chain broken at receipt 0: link hash mismatch (tamper/delete/reorder)''"
proof -
  let ?H = "(#) CHR ''#''" and ?ser = "(\<lambda>r. Inr (er_chain_hash r)) :: receipt_writer"
  let ?l = "\<lparr>lg_disk = Absent, lg_chain = []\<rparr>"
  let ?l1 = "snd (ledger_append ?H ?ser (Open_Failed ''denied'') ''a'' ''b'' ''c'' ''d'' ?l)"
  let ?l2 = "snd (ledger_append ?H ?ser Write_Ok ''a'' ''b'' ''c'' ''d'' ?l1)"
  let ?x = "last (lg_chain ?l2)"
  let ?de = "(\<lambda>s. Inr (if s = er_chain_hash (hd (lg_chain ?l2)) then hd (lg_chain ?l2) else ?x)) :: receipt_reader"
  note defs = ledger_append_def chain_append_def chain_hash_def Let_def last_hash_def
  have 1: "ledger_append ?H ?ser (Open_Failed ''denied'') ''a'' ''b'' ''c'' ''d'' ?l = (Inl ''denied'', ?l1)"
    and 2: "ledger_append ?H ?ser Write_Ok ''a'' ''b'' ''c'' ''d'' ?l1 = (Inr ?x, ?l2)"
    by (simp_all add: defs)
  have 3: "\<forall>q \<in> set (lg_chain ?l2). line_ok ?ser ?de q"
    by (simp add: defs line_ok_def str_trim_def is_space_def)
  have 4: "disk_holds ?ser (lg_chain ?l) (lg_disk ?l)" "chain_verify ?H (lg_chain ?l) = Inr ()"
    by (simp_all add: disk_holds_def chain_verify_def)
  have 5: "chain_hash ?H (last_hash (lg_chain ?l)) ''a'' ''b'' ''c'' ''d'' \<noteq> last_hash (lg_chain ?l)"
    by (simp add: chain_hash_def last_hash_def)
  have "show_nat 0 = ''0''" by code_simp
  then show ?thesis
    using lost_write_breaks_ledger [OF 4 1 2 5 3] unfolding Let_def by simp
qed

end
