(* ===== verification/Checkpoints.thy ===== *)
theory Checkpoints
  imports Ordered_Map Rust_Text "HOL-Library.Product_Lexorder"
begin

text \<open>
  The checkpoint crate (\<^verbatim>\<open>crates/checkpoint/src\<close>): the epoch-fenced checkpoint store (\<^verbatim>\<open>lib.rs\<close>), session
  leases with fencing epochs (\<^verbatim>\<open>lease.rs\<close>), the baseline-and-delta journal of a worktree (\<^verbatim>\<open>delta.rs\<close>) and the
  cursor registry of the external surfaces (\<^verbatim>\<open>cursor_meta.rs\<close>). Epochs are natural numbers; the time of a
  checkpoint is an argument.
\<close>

section \<open>The fenced store\<close>

record checkpoint =
  cp_epoch :: nat
  cp_payload :: string
  cp_created_at_ms :: int

datatype checkpoint_error = StaleEpoch nat nat

fun show_checkpoint_error :: "checkpoint_error \<Rightarrow> string" where
  "show_checkpoint_error (StaleEpoch attempted current) =
     ''stale checkpoint epoch '' @ show_nat attempted @ '' rejected (current '' @ show_nat current @ '')''"

record checkpoint_store =
  cs_current_epoch :: nat
  cs_latest :: "checkpoint option"
  cs_rejections :: "(nat \<times> nat) list"

definition checkpoint_store_new :: checkpoint_store where
  "checkpoint_store_new = \<lparr>cs_current_epoch = 0, cs_latest = None, cs_rejections = []\<rparr>"

definition checkpoint_write ::
  "nat \<Rightarrow> string \<Rightarrow> int \<Rightarrow> checkpoint_store \<Rightarrow> (checkpoint_error, unit) result \<times> checkpoint_store" where
  "checkpoint_write epoch payload now s =
     (if epoch \<le> cs_current_epoch s
      then (Inl (StaleEpoch epoch (cs_current_epoch s)),
            s\<lparr>cs_rejections := cs_rejections s @ [(epoch, cs_current_epoch s)]\<rparr>)
      else (Inr (), s\<lparr>cs_current_epoch := epoch,
                      cs_latest := Some \<lparr>cp_epoch = epoch, cp_payload = payload, cp_created_at_ms = now\<rparr>\<rparr>))"

section \<open>Session leases\<close>

record session_lease =
  sl_scope :: string
  sl_session_id :: string
  sl_epoch :: nat

datatype lease_error = HeldByOther string string | StaleLeaseEpoch string string nat nat

fun show_lease_error :: "lease_error \<Rightarrow> string" where
  "show_lease_error (HeldByOther scope holder) = ''lease '' @ debug_str scope @ '' held by session '' @ debug_str holder"
| "show_lease_error (StaleLeaseEpoch scope session e current) =
     ''stale lease for '' @ debug_str scope @ '': session '' @ session @ '' holds epoch '' @ show_nat e
     @ '', current is '' @ show_nat current"

record lease_fencer =
  lf_active :: "(string, string \<times> nat) btree"
  lf_fencing :: "(string, nat) btree"

definition fencer_new :: lease_fencer where
  "fencer_new = \<lparr>lf_active = [], lf_fencing = []\<rparr>"

definition fencing_of :: "string \<Rightarrow> lease_fencer \<Rightarrow> nat" where
  "fencing_of scope f = (case bt_get scope (lf_fencing f) of None \<Rightarrow> 0 | Some e \<Rightarrow> e)"

definition next_epoch :: "string \<Rightarrow> lease_fencer \<Rightarrow> nat" where
  "next_epoch scope f = fencing_of scope f + 1"

definition fencer_acquire ::
  "string \<Rightarrow> string \<Rightarrow> lease_fencer \<Rightarrow> (lease_error, session_lease) result \<times> lease_fencer" where
  "fencer_acquire scope session f =
     (case bt_get scope (lf_active f) of
        Some (holder, _) \<Rightarrow> (Inl (HeldByOther scope holder), f)
      | None \<Rightarrow>
          (let epoch = next_epoch scope f
           in (Inr \<lparr>sl_scope = scope, sl_session_id = session, sl_epoch = epoch\<rparr>,
               f\<lparr>lf_fencing := bt_insert scope epoch (lf_fencing f),
                 lf_active := bt_insert scope (session, epoch) (lf_active f)\<rparr>)))"

definition fencer_release :: "string \<Rightarrow> lease_fencer \<Rightarrow> lease_fencer" where
  "fencer_release scope f =
     (case bt_get scope (lf_active f) of
        None \<Rightarrow> f
      | Some (_, epoch) \<Rightarrow>
          f\<lparr>lf_active := bt_remove scope (lf_active f),
            lf_fencing := bt_insert scope (max (next_epoch scope f) (epoch + 1)) (lf_fencing f)\<rparr>)"

definition validate_commit :: "string \<Rightarrow> string \<Rightarrow> nat \<Rightarrow> lease_fencer \<Rightarrow> (lease_error, unit) result" where
  "validate_commit scope session e f =
     (case bt_get scope (lf_active f) of
        Some (holder, epoch) \<Rightarrow>
          if holder = session \<and> epoch = e then Inr ()
          else Inl (StaleLeaseEpoch scope session e (fencing_of scope f))
      | None \<Rightarrow> Inl (StaleLeaseEpoch scope session e (fencing_of scope f)))"

section \<open>The delta journal\<close>

datatype surface_kind = Surface_Terminal | Surface_Browser | Surface_Sandbox

record cursor_meta =
  cm_surface :: surface_kind
  cm_handle :: string
  cm_position :: nat
  cm_revision :: nat
  cm_live :: bool

record worktree_delta =
  wd_path :: string
  wd_content :: "string option"

record cursors =
  cu_runtime_seq :: nat
  cu_evidence_seq :: nat

type_synonym worktree = "(string, string) btree"

record delta_journal =
  dj_baseline :: worktree
  dj_deltas :: "worktree_delta list"
  dj_cursors :: cursors
  dj_surfaces :: "cursor_meta list"

datatype journal_error = MissingBaseline string

fun show_journal_error :: "journal_error \<Rightarrow> string" where
  "show_journal_error (MissingBaseline p) = ''delta for '' @ debug_str p @ '' has no baseline entry''"

record restored_state =
  rs_files :: worktree
  rs_cursors :: cursors

definition from_baseline :: "worktree \<Rightarrow> cursors \<Rightarrow> delta_journal" where
  "from_baseline files cs = \<lparr>dj_baseline = files, dj_deltas = [], dj_cursors = cs, dj_surfaces = []\<rparr>"

definition push_delta :: "worktree_delta \<Rightarrow> delta_journal \<Rightarrow> delta_journal" where
  "push_delta d j = j\<lparr>dj_deltas := dj_deltas j @ [d]\<rparr>"

definition set_cursors :: "nat \<Rightarrow> nat \<Rightarrow> delta_journal \<Rightarrow> delta_journal" where
  "set_cursors r e j = j\<lparr>dj_cursors := \<lparr>cu_runtime_seq = r, cu_evidence_seq = e\<rparr>\<rparr>"

fun apply_deltas :: "worktree_delta list \<Rightarrow> worktree \<Rightarrow> (journal_error, worktree) result" where
  "apply_deltas [] files = Inr files"
| "apply_deltas (d # ds) files =
     (case wd_content d of
        Some bytes \<Rightarrow> apply_deltas ds (bt_insert (wd_path d) bytes files)
      | None \<Rightarrow>
          if bt_get (wd_path d) files = None then Inl (MissingBaseline (wd_path d))
          else apply_deltas ds (bt_remove (wd_path d) files))"

definition journal_restore :: "delta_journal \<Rightarrow> (journal_error, restored_state) result" where
  "journal_restore j =
     and_then (apply_deltas (dj_deltas j) (dj_baseline j)) (\<lambda>files.
       Inr \<lparr>rs_files = files, rs_cursors = dj_cursors j\<rparr>)"

section \<open>Cursors of the surfaces\<close>

text \<open>The derived order of the surface kinds is the order of their declaration.\<close>

fun surface_rank :: "surface_kind \<Rightarrow> nat" where
  "surface_rank Surface_Terminal = 0"
| "surface_rank Surface_Browser = 1"
| "surface_rank Surface_Sandbox = 2"

instantiation surface_kind :: linorder
begin

definition less_eq_surface_kind :: "surface_kind \<Rightarrow> surface_kind \<Rightarrow> bool" where
  "less_eq_surface_kind a b = (surface_rank a \<le> surface_rank b)"

definition less_surface_kind :: "surface_kind \<Rightarrow> surface_kind \<Rightarrow> bool" where
  "less_surface_kind a b = (surface_rank a < surface_rank b)"

instance
proof
  fix a b :: surface_kind
  show "a \<le> b \<Longrightarrow> b \<le> a \<Longrightarrow> a = b" by (cases a; cases b) (simp_all add: less_eq_surface_kind_def)
qed (auto simp: less_eq_surface_kind_def less_surface_kind_def)

end

type_synonym cursor_registry = "(surface_kind \<times> string, cursor_meta) btree"

definition capture :: "cursor_meta \<Rightarrow> cursor_registry \<Rightarrow> cursor_registry" where
  "capture m reg = bt_insert (cm_surface m, cm_handle m) m reg"

definition cursor_get :: "surface_kind \<Rightarrow> string \<Rightarrow> cursor_registry \<Rightarrow> cursor_meta option" where
  "cursor_get s h reg = bt_get (s, h) reg"

definition cursors_all :: "cursor_registry \<Rightarrow> cursor_meta list" where
  "cursors_all reg = bt_values reg"

lemma cursor_after_capture:
  "bt_sorted reg \<Longrightarrow> cursor_get s h (capture m reg) =
     (if s = cm_surface m \<and> h = cm_handle m then Some m else cursor_get s h reg)"
  by (auto simp: cursor_get_def capture_def)

section \<open>Stale checkpoints\<close>

type_synonym checkpoint_op = "nat \<times> string \<times> int"

definition checkpoint_step :: "checkpoint_store \<Rightarrow> checkpoint_op \<Rightarrow> checkpoint_store" where
  "checkpoint_step s w = (case w of (e, p, t) \<Rightarrow> snd (checkpoint_write e p t s))"

definition checkpoint_ok :: "checkpoint_store \<Rightarrow> bool" where
  "checkpoint_ok s =
     ((case cs_latest s of None \<Rightarrow> cs_current_epoch s = 0 | Some c \<Rightarrow> cp_epoch c = cs_current_epoch s \<and> 0 < cp_epoch c)
      \<and> (\<forall>(a, c) \<in> set (cs_rejections s). a \<le> c \<and> c \<le> cs_current_epoch s))"

lemma checkpoint_step_ok: "checkpoint_ok s \<Longrightarrow> checkpoint_ok (checkpoint_step s w)"
  by (fastforce simp: checkpoint_ok_def checkpoint_step_def checkpoint_write_def split: prod.splits option.splits)

interpretation checkpoint_fence: fenced_machine checkpoint_step checkpoint_ok cs_current_epoch
proof
  show "checkpoint_ok s \<Longrightarrow> checkpoint_ok (checkpoint_step s w)" for s w by (rule checkpoint_step_ok)
  show "checkpoint_ok s \<Longrightarrow> cs_current_epoch s \<le> cs_current_epoch (checkpoint_step s w)" for s w
    by (simp add: checkpoint_step_def checkpoint_write_def split: prod.splits)
qed

text \<open>Whatever was written, the store holds the payload of the newest epoch.\<close>

lemma newest_checkpoint_kept:
  assumes "s = foldl checkpoint_step checkpoint_store_new ws"
  shows "\<forall>(e, p, t) \<in> set ws. e \<le> cs_current_epoch s"
    and "\<forall>c. cs_latest s = Some c \<longrightarrow> (cp_epoch c, cp_payload c, cp_created_at_ms c) \<in> set ws"
proof -
  have "(\<forall>(e, p, t) \<in> set ws. e \<le> cs_current_epoch s)
      \<and> (\<forall>c. cs_latest s = Some c \<longrightarrow> (cp_epoch c, cp_payload c, cp_created_at_ms c) \<in> set ws)"
    using assms
  proof (induction ws arbitrary: s rule: rev_induct)
    case Nil
    then show ?case by (simp add: checkpoint_store_new_def)
  next
    case (snoc w ws)
    define s0 where "s0 = foldl checkpoint_step checkpoint_store_new ws"
    obtain e p t where w: "w = (e, p, t)" by (cases w)
    have "s = checkpoint_step s0 w" using snoc.prems by (simp add: s0_def)
    then have s: "s = snd (checkpoint_write e p t s0)" by (simp add: w checkpoint_step_def)
    have IH: "\<forall>(e, p, t) \<in> set ws. e \<le> cs_current_epoch s0"
        "\<forall>c. cs_latest s0 = Some c \<longrightarrow> (cp_epoch c, cp_payload c, cp_created_at_ms c) \<in> set ws"
      using snoc.IH [OF s0_def] by auto
    show ?case
    proof (cases "e \<le> cs_current_epoch s0")
      case True
      then show ?thesis using IH w by (auto simp: s checkpoint_write_def)
    next
      case False
      then have "\<forall>(e', p, t) \<in> set ws. e' \<le> e" using IH(1) by force
      then show ?thesis using False w by (auto simp: s checkpoint_write_def)
    qed
  qed
  then show "\<forall>(e, p, t) \<in> set ws. e \<le> cs_current_epoch s"
    and "\<forall>c. cs_latest s = Some c \<longrightarrow> (cp_epoch c, cp_payload c, cp_created_at_ms c) \<in> set ws" by auto
qed

section \<open>Superseded sessions\<close>

datatype fencer_op = Fence_Acquire string string | Fence_Release string

fun fencer_step :: "lease_fencer \<Rightarrow> fencer_op \<Rightarrow> lease_fencer" where
  "fencer_step f (Fence_Acquire scope session) = snd (fencer_acquire scope session f)"
| "fencer_step f (Fence_Release scope) = fencer_release scope f"

definition fencer_ok :: "lease_fencer \<Rightarrow> bool" where
  "fencer_ok f =
     (bt_sorted (lf_active f) \<and> bt_sorted (lf_fencing f)
      \<and> (\<forall>scope holder e. bt_get scope (lf_active f) = Some (holder, e) \<longrightarrow> fencing_of scope f = e))"

lemma fencer_step_ok: "fencer_ok f \<Longrightarrow> fencer_ok (fencer_step f op)"
  by (cases op) (auto simp: fencer_ok_def fencer_acquire_def fencer_release_def fencing_of_def Let_def split: option.splits)

lemma fencing_acquire:
  "fencer_ok f \<Longrightarrow> fencing_of scope (snd (fencer_acquire scope' s f)) =
     (if scope = scope' \<and> bt_get scope' (lf_active f) = None then fencing_of scope f + 1 else fencing_of scope f)"
  by (auto simp: fencer_ok_def fencer_acquire_def fencing_of_def next_epoch_def Let_def split: option.splits)

lemma fencing_release:
  assumes "fencer_ok f"
  shows "fencing_of scope (fencer_release scope' f) =
     (if scope = scope' \<and> bt_get scope' (lf_active f) \<noteq> None then fencing_of scope f + 1 else fencing_of scope f)"
proof (cases "bt_get scope' (lf_active f)")
  case (Some he)
  then obtain h e where he: "bt_get scope' (lf_active f) = Some (h, e)" by (cases he) auto
  then have "fencing_of scope' f = e" using assms by (auto simp: fencer_ok_def)
  then have "max (next_epoch scope' f) (e + 1) = fencing_of scope' f + 1" by (simp add: next_epoch_def)
  then show ?thesis using he assms by (simp add: fencer_release_def fencing_of_def fencer_ok_def)
qed (simp add: fencer_release_def)

lemma active_acquire:
  "fencer_ok f \<Longrightarrow> bt_get scope (lf_active (snd (fencer_acquire scope' s f))) =
     (if scope = scope' \<and> bt_get scope' (lf_active f) = None then Some (s, next_epoch scope' f)
      else bt_get scope (lf_active f))"
  by (auto simp: fencer_ok_def fencer_acquire_def Let_def split: option.splits)

lemma active_release:
  "bt_get scope (lf_active (fencer_release scope' f)) = (if scope = scope' then None else bt_get scope (lf_active f))"
  by (simp add: fencer_release_def split: option.splits)

lemmas fencing_step = fencing_acquire fencing_release active_acquire active_release

interpretation fencer: fenced_machine fencer_step fencer_ok "fencing_of scope" for scope
proof
  show "fencer_ok f \<Longrightarrow> fencer_ok (fencer_step f op)" for f op by (rule fencer_step_ok)
  show "fencer_ok f \<Longrightarrow> fencing_of scope f \<le> fencing_of scope (fencer_step f op)" for f op
    by (cases op) (simp_all add: fencing_step)
qed

lemma fencer_new_ok: "fencer_ok fencer_new"
  by (simp add: fencer_ok_def fencer_new_def)

text \<open>An epoch is either held by the active lease of its scope or has been passed.\<close>

definition epoch_spent :: "string \<Rightarrow> nat \<Rightarrow> lease_fencer \<Rightarrow> bool" where
  "epoch_spent scope e f =
     (fencer_ok f \<and> (e < fencing_of scope f \<or> (\<exists>h. bt_get scope (lf_active f) = Some (h, e))))"

lemma fencer_active_epoch: "fencer_ok f \<Longrightarrow> bt_get scope (lf_active f) = Some (h, e) \<Longrightarrow> fencing_of scope f = e"
  by (auto simp: fencer_ok_def)

interpretation spent: machine fencer_step "epoch_spent scope e" for scope e
proof
  show "epoch_spent scope e f \<Longrightarrow> epoch_spent scope e (fencer_step f op)" for f op
    using fencer_step_ok [of f op] fencer_active_epoch [of f scope]
    by (cases op) (auto simp: epoch_spent_def fencing_step)
qed

lemma acquired_lease:
  assumes "fencer_ok f" and "fencer_acquire scope s f = (Inr l, f1)"
  shows "validate_commit scope s (sl_epoch l) f1 = Inr ()" and "epoch_spent scope (sl_epoch l) f1" and "fencer_ok f1"
  using assms fencer_step_ok [OF assms(1), of "Fence_Acquire scope s"]
  by (auto simp: fencer_acquire_def validate_commit_def epoch_spent_def fencer_ok_def Let_def split: option.splits)

lemma released_passes:
  "epoch_spent scope e f \<Longrightarrow> e < fencing_of scope (fencer_release scope f)"
  using fencer_active_epoch [of f scope] by (auto simp: epoch_spent_def fencing_step)

lemma passed_epoch_refused:
  "fencer_ok f \<Longrightarrow> e < fencing_of scope f \<Longrightarrow>
     validate_commit scope s e f = Inl (StaleLeaseEpoch scope s e (fencing_of scope f))"
  by (auto simp: validate_commit_def fencer_ok_def split: option.splits)

text \<open>Session leases fence: a lease that was granted validates its holder's commits, at any moment at most one
  session with one epoch validates for a scope, and once the scope was released the lease never validates
  again, whatever is acquired and released later.\<close>

lemma released_session_cannot_commit:
  assumes "f = foldl fencer_step fencer_new ops" and "fencer_acquire scope s f = (Inr l, f1)"
    and "f2 = foldl fencer_step f1 ops1" and "f3 = foldl fencer_step (fencer_release scope f2) ops2"
  shows "validate_commit scope s (sl_epoch l) f1 = Inr ()
    \<and> (\<forall>s1 e1 s2 e2. validate_commit scope s1 e1 f2 = Inr () \<longrightarrow> validate_commit scope s2 e2 f2 = Inr ()
         \<longrightarrow> s1 = s2 \<and> e1 = e2)
    \<and> validate_commit scope s (sl_epoch l) f3 = Inl (StaleLeaseEpoch scope s (sl_epoch l) (fencing_of scope f3))"
proof -
  have f: "fencer_ok f" unfolding assms(1) by (rule fencer.run_inv [OF fencer_new_ok])
  note a = acquired_lease [OF f assms(2)]
  have f2: "epoch_spent scope (sl_epoch l) f2" unfolding assms(3) by (rule spent.run_inv [OF a(2)])
  have r: "fencer_ok (fencer_release scope f2)"
    using fencer_step_ok [of f2 "Fence_Release scope"] f2 by (simp add: epoch_spent_def)
  have f3: "fencer_ok f3" unfolding assms(4) by (rule fencer.run_inv [OF r])
  have "sl_epoch l < fencing_of scope f3"
    unfolding assms(4) by (rule fencer.epoch_stays_above [OF r released_passes [OF f2]])
  from passed_epoch_refused [OF f3 this] a(1) show ?thesis
    by (auto simp: validate_commit_def split: option.splits if_splits)
qed

lemma released_session_cannot_commit_witness:
  "\<exists>l f1. fencer_acquire ''repo'' ''s1'' fencer_new = (Inr l, f1)
     \<and> validate_commit ''repo'' ''s1'' (sl_epoch l) (foldl fencer_step (fencer_release ''repo'' f1) [Fence_Acquire ''repo'' ''s1''])
       = Inl (StaleLeaseEpoch ''repo'' ''s1'' 1 3)"
proof -
  let ?f1 = "\<lparr>lf_active = [(''repo'', ''s1'', 1)], lf_fencing = [(''repo'', 1 :: nat)]\<rparr>"
  let ?l = "\<lparr>sl_scope = ''repo'', sl_session_id = ''s1'', sl_epoch = 1\<rparr>"
  have a: "fencer_acquire ''repo'' ''s1'' (foldl fencer_step fencer_new []) = (Inr ?l, ?f1)"
    by (simp add: fencer_acquire_def fencer_new_def next_epoch_def fencing_of_def Let_def)
  have f3: "fencing_of ''repo'' (foldl fencer_step (fencer_release ''repo'' ?f1) [Fence_Acquire ''repo'' ''s1'']) = 3"
    by (simp add: fencer_release_def fencer_acquire_def bt_get_def bt_remove_def next_epoch_def fencing_of_def Let_def)
  show ?thesis
    using released_session_cannot_commit [OF refl a, of ?f1 "[]" _ "[Fence_Acquire ''repo'' ''s1'']"] a f3 by simp
qed

section \<open>Restoring a worktree\<close>

text \<open>The specification: the newest delta of a path decides, the baseline decides where there is none.\<close>

definition last_content :: "worktree \<Rightarrow> worktree_delta list \<Rightarrow> string \<Rightarrow> string option" where
  "last_content base ds p = (case find (\<lambda>d. wd_path d = p) (rev ds) of None \<Rightarrow> bt_get p base | Some d \<Rightarrow> wd_content d)"

definition delete_unknown :: "worktree \<Rightarrow> worktree_delta list \<Rightarrow> nat \<Rightarrow> bool" where
  "delete_unknown base ds i =
     (wd_content (ds ! i) = None \<and> last_content base (take i ds) (wd_path (ds ! i)) = None)"

lemma apply_deltas_append: "apply_deltas (xs @ ys) files = and_then (apply_deltas xs files) (apply_deltas ys)"
  by (induction xs arbitrary: files) (auto split: option.splits)

lemma last_content_snoc:
  "last_content base (ds @ [d]) p = (if wd_path d = p then wd_content d else last_content base ds p)"
  by (simp add: last_content_def)

lemma apply_deltas_spec:
  assumes "bt_sorted base"
  shows "case apply_deltas ds base of
      Inr files \<Rightarrow> bt_sorted files \<and> (\<forall>p. bt_get p files = last_content base ds p)
                  \<and> (\<forall>i < length ds. \<not> delete_unknown base ds i)
    | Inl (MissingBaseline p) \<Rightarrow> \<exists>i < length ds. wd_path (ds ! i) = p \<and> delete_unknown base ds i"
proof (induction ds rule: rev_induct)
  case Nil
  then show ?case using assms by (simp add: last_content_def)
next
  case (snoc d ds)
  have old: "delete_unknown base (ds @ [d]) i = delete_unknown base ds i" if "i < length ds" for i
    using that by (simp add: delete_unknown_def nth_append)
  have new: "delete_unknown base (ds @ [d]) (length ds)
      = (wd_content d = None \<and> last_content base ds (wd_path d) = None)"
    by (simp add: delete_unknown_def)
  show ?case
  proof (cases "apply_deltas ds base")
    case (Inl e)
    obtain q where e: "e = MissingBaseline q" by (cases e)
    then obtain i where "i < length ds" "wd_path (ds ! i) = q" "delete_unknown base ds i" using snoc.IH Inl by auto
    then have "i < length (ds @ [d]) \<and> wd_path ((ds @ [d]) ! i) = q \<and> delete_unknown base (ds @ [d]) i"
      using old by (simp add: nth_append)
    then show ?thesis using Inl e by (auto simp: apply_deltas_append)
  next
    case (Inr files)
    then show ?thesis using snoc.IH old new
      by (auto simp: apply_deltas_append last_content_snoc less_Suc_eq split: option.splits)
  qed
qed

text \<open>Restoring is exact: for a journal built from a baseline and any deltas, the restored worktree has for
  every path the content of its newest delta, or the baseline's where there is none, with the recorded
  cursors; it fails exactly when some delta deletes a path that does not exist at that point, and names it.\<close>

lemma restore_is_exact:
  assumes "bt_sorted base" and "j = set_cursors r e (foldl (\<lambda>j d. push_delta d j) (from_baseline base c) ds)"
  shows "case journal_restore j of
      Inr st \<Rightarrow> (\<forall>p. bt_get p (rs_files st) = last_content base ds p)
               \<and> rs_cursors st = \<lparr>cu_runtime_seq = r, cu_evidence_seq = e\<rparr>
               \<and> (\<forall>i < length ds. \<not> delete_unknown base ds i)
    | Inl (MissingBaseline p) \<Rightarrow> \<exists>i < length ds. wd_path (ds ! i) = p \<and> delete_unknown base ds i"
proof -
  have "foldl (\<lambda>j d. push_delta d j) j0 ds = j0\<lparr>dj_deltas := dj_deltas j0 @ ds\<rparr>" for j0
    by (induction ds arbitrary: j0) (simp_all add: push_delta_def)
  then have "journal_restore j = and_then (apply_deltas ds base) (\<lambda>files.
      Inr \<lparr>rs_files = files, rs_cursors = \<lparr>cu_runtime_seq = r, cu_evidence_seq = e\<rparr>\<rparr>)"
    by (simp add: assms(2) journal_restore_def set_cursors_def from_baseline_def)
  then show ?thesis
    using apply_deltas_spec [OF assms(1), of ds]
    by (cases "apply_deltas ds base") (auto split: journal_error.splits)
qed

lemma restore_is_exact_witness:
  "\<exists>st. journal_restore (set_cursors 4 2 (push_delta \<lparr>wd_path = ''a'', wd_content = None\<rparr>
          (from_baseline [(''a'', ''x''), (''b'', ''y'')] \<lparr>cu_runtime_seq = 0, cu_evidence_seq = 0\<rparr>))) = Inr st
     \<and> bt_get ''a'' (rs_files st) = None \<and> bt_get ''b'' (rs_files st) = Some ''y''"
proof -
  let ?base = "[(''a'', ''x''), (''b'', ''y'')] :: worktree"
  let ?ds = "[\<lparr>wd_path = ''a'', wd_content = None\<rparr>]"
  let ?c = "\<lparr>cu_runtime_seq = 0, cu_evidence_seq = 0\<rparr>"
  let ?j = "set_cursors 4 2 (foldl (\<lambda>j d. push_delta d j) (from_baseline ?base ?c) ?ds)"
  have s: "bt_sorted ?base" by (simp add: bt_sorted_def)
  obtain st where st: "journal_restore ?j = Inr st"
    by (simp add: journal_restore_def set_cursors_def push_delta_def from_baseline_def bt_get_def)
  then show ?thesis using restore_is_exact [OF s, of ?j 4 2 ?c ?ds] by (simp add: last_content_def bt_get_def)
qed

end
