(* ===== verification/Hook_Bus.thy ===== *)
theory Hook_Bus
  imports Ordered_Map Rust_Text
begin

text \<open>
  Two further parts of \<^verbatim>\<open>crates/checkpoint/src\<close>: the hook bus with its dispatch and the reversibility classes of
  recorded effects (\<^verbatim>\<open>hook_bus.rs\<close>), and the typed failure diagnostics (\<^verbatim>\<open>failure.rs\<close>). The time a hook takes and
  SHA-256 are parameters.
\<close>

section \<open>Hooks\<close>

datatype hook_event =
  BeforeRun | AfterRun | BeforeModel | AfterModel | BeforeTool | AfterTool | BeforeChange | AfterChange
| BeforeVerification | AfterVerification | BeforeCompaction | AfterCompaction

datatype fail_policy = Policy_Continue | Policy_Block

record hook =
  hk_hook_id :: string
  hk_event :: hook_event
  hk_plugin :: string
  hk_timeout_ms :: nat
  hk_fail_policy :: fail_policy

datatype hook_error = Hook_Timeout string nat | HookFailed string

fun show_hook_error :: "hook_error \<Rightarrow> string" where
  "show_hook_error (Hook_Timeout h t) = ''hook '' @ h @ '' timed out after '' @ show_nat t @ ''ms''"
| "show_hook_error (HookFailed h) = ''hook '' @ h @ '' failed''"

datatype dispatch_outcome = Dispatch_Proceed | Dispatch_Denied string

type_synonym hook_bus = "hook list"

definition register :: "hook \<Rightarrow> hook_bus \<Rightarrow> hook_bus" where
  "register h b = b @ [h]"

definition unload_plugin :: "string \<Rightarrow> hook_bus \<Rightarrow> nat \<times> hook_bus" where
  "unload_plugin p b = (let b' = filter (\<lambda>h. hk_plugin h \<noteq> p) b in (length b - length b', b'))"

definition hook_applies :: "hook_event \<Rightarrow> hook \<Rightarrow> bool" where
  "hook_applies e h = (hk_event h = e \<or> hk_event h = BeforeTool \<and> e = BeforeChange)"

fun dispatch_loop :: "(string, string) btree \<Rightarrow> (hook \<Rightarrow> nat) \<Rightarrow> hook list \<Rightarrow> dispatch_outcome" where
  "dispatch_loop payload elapsed [] = Dispatch_Proceed"
| "dispatch_loop payload elapsed (h # hs) =
     (if hk_timeout_ms h < elapsed h
      then (if hk_fail_policy h = Policy_Block then Dispatch_Denied (hk_hook_id h) else dispatch_loop payload elapsed hs)
      else if bt_get ''fail_hook'' payload = Some (hk_hook_id h) \<and> hk_fail_policy h = Policy_Block
      then Dispatch_Denied (hk_hook_id h)
      else dispatch_loop payload elapsed hs)"

definition dispatch ::
  "hook_bus \<Rightarrow> hook_event \<Rightarrow> (string, string) btree \<Rightarrow> (hook \<Rightarrow> nat) \<Rightarrow> dispatch_outcome" where
  "dispatch b e payload elapsed = dispatch_loop payload elapsed (filter (hook_applies e) b)"

section \<open>Recorded effects\<close>

datatype reversibility = Reversible | PartiallyReversible | Compensatable | Irreversible

record effect_record =
  ef_effect_id :: string
  ef_name :: string
  ef_reversibility :: reversibility
  ef_compensation_receipt :: "string option"

datatype ledger_error = ExternalApiNeverFullyUndoable | CompensationReceiptRequired

fun show_ledger_error :: "ledger_error \<Rightarrow> string" where
  "show_ledger_error ExternalApiNeverFullyUndoable = ''external API effect can never be labeled fully undoable''"
| "show_ledger_error CompensationReceiptRequired = ''compensatable effect requires a distinct compensation receipt''"

definition record_effect ::
  "(string \<Rightarrow> string) \<Rightarrow> string \<Rightarrow> bool \<Rightarrow> reversibility \<Rightarrow> string option \<Rightarrow> (ledger_error, effect_record) result" where
  "record_effect sha256_hex name is_external_api reversible receipt =
     (if is_external_api \<and> reversible = Reversible then Inl ExternalApiNeverFullyUndoable
      else if reversible = Compensatable \<and> receipt = None then Inl CompensationReceiptRequired
      else Inr \<lparr>ef_effect_id = ''effect-'' @ take 12 (sha256_hex name), ef_name = name, ef_reversibility = reversible,
                ef_compensation_receipt = receipt\<rparr>)"

section \<open>Failure diagnostics\<close>

datatype failure_class = Fc_Timeout | Fc_CorruptState | Fc_MissingArtifact | Fc_PolicyDenied | Fc_TransportLost

datatype recovery_path = Retry | RetryFromCheckpoint | OperatorIntervention

record failure_diagnostic =
  fd_class :: failure_class
  fd_retryable :: bool
  fd_operator_action :: string
  fd_evidence :: "string list"
  fd_recovery_path :: recovery_path
  fd_feature_key :: string

datatype injected_fault =
  Fault_Timeout | Fault_CorruptState | Fault_MissingArtifact | Fault_PolicyDenied | Fault_TransportLost

fun debug_failure_class :: "failure_class \<Rightarrow> string" where
  "debug_failure_class Fc_Timeout = ''Timeout''"
| "debug_failure_class Fc_CorruptState = ''CorruptState''"
| "debug_failure_class Fc_MissingArtifact = ''MissingArtifact''"
| "debug_failure_class Fc_PolicyDenied = ''PolicyDenied''"
| "debug_failure_class Fc_TransportLost = ''TransportLost''"

fun debug_recovery_path :: "recovery_path \<Rightarrow> string" where
  "debug_recovery_path Retry = ''Retry''"
| "debug_recovery_path RetryFromCheckpoint = ''RetryFromCheckpoint''"
| "debug_recovery_path OperatorIntervention = ''OperatorIntervention''"

definition show_fault_outcome :: "failure_diagnostic \<Rightarrow> string" where
  "show_fault_outcome d =
     debug_failure_class (fd_class d) @ '' (retryable='' @ (if fd_retryable d then ''true'' else ''false'') @ '') ''
     @ [CHR 0xE2, CHR 0x86, CHR 0x92] @ '' '' @ debug_recovery_path (fd_recovery_path d) @ '': '' @ fd_operator_action d"

fun diagnose :: "injected_fault \<Rightarrow> failure_diagnostic" where
  "diagnose Fault_Timeout =
     \<lparr>fd_class = Fc_Timeout, fd_retryable = True,
      fd_operator_action = ''retry the operation; extend the timeout if it recurs'',
      fd_evidence = [''deadline exceeded after scheduled budget''], fd_recovery_path = Retry,
      fd_feature_key = ''timeout:retry:deadline''\<rparr>"
| "diagnose Fault_CorruptState =
     \<lparr>fd_class = Fc_CorruptState, fd_retryable = False,
      fd_operator_action = ''restore from the last checkpoint; do not reuse the corrupt file'',
      fd_evidence = [''state digest mismatch on load''], fd_recovery_path = RetryFromCheckpoint,
      fd_feature_key = ''corrupt_state:checkpoint_restore''\<rparr>"
| "diagnose Fault_MissingArtifact =
     \<lparr>fd_class = Fc_MissingArtifact, fd_retryable = False,
      fd_operator_action = ''rebuild the artifact from its producing task'',
      fd_evidence = [''expected artifact absent at addressed path''], fd_recovery_path = OperatorIntervention,
      fd_feature_key = ''missing_artifact:rebuild''\<rparr>"
| "diagnose Fault_PolicyDenied =
     \<lparr>fd_class = Fc_PolicyDenied, fd_retryable = False,
      fd_operator_action = ''request the capability grant from the operator'',
      fd_evidence = [''capability kernel denied: no covering grant''], fd_recovery_path = OperatorIntervention,
      fd_feature_key = ''policy_denied:grant_request''\<rparr>"
| "diagnose Fault_TransportLost =
     \<lparr>fd_class = Fc_TransportLost, fd_retryable = True,
      fd_operator_action = ''reattach via the durable handle; output replays from the cursor'',
      fd_evidence = [''client transport disconnected mid-stream''], fd_recovery_path = Retry,
      fd_feature_key = ''transport_lost:reattach''\<rparr>"

definition execute_with_fault_injection :: "injected_fault option \<Rightarrow> (failure_diagnostic, unit) result" where
  "execute_with_fault_injection fault = (case fault of None \<Rightarrow> Inr () | Some f \<Rightarrow> Inl (diagnose f))"

definition fault_corpus :: "(injected_fault \<times> failure_diagnostic) list option" where
  "fault_corpus =
     those (map (\<lambda>f. case execute_with_fault_injection (Some f) of Inl d \<Rightarrow> Some (f, d) | Inr _ \<Rightarrow> None)
       [Fault_Timeout, Fault_CorruptState, Fault_MissingArtifact, Fault_PolicyDenied, Fault_TransportLost])"

section \<open>What a dispatch decides\<close>

definition hook_objects :: "(string, string) btree \<Rightarrow> (hook \<Rightarrow> nat) \<Rightarrow> hook \<Rightarrow> bool" where
  "hook_objects payload elapsed h =
     (hk_fail_policy h = Policy_Block
      \<and> (hk_timeout_ms h < elapsed h \<or> bt_get ''fail_hook'' payload = Some (hk_hook_id h)))"

lemma dispatch_loop_find:
  "dispatch_loop payload elapsed hs =
     (case find (hook_objects payload elapsed) hs of None \<Rightarrow> Dispatch_Proceed | Some h \<Rightarrow> Dispatch_Denied (hk_hook_id h))"
  by (induction hs) (auto simp: hook_objects_def)

text \<open>The first registered blocking hook that times out or fails decides; registering more hooks never lifts a denial.\<close>

lemma denial_is_final:
  "dispatch b e payload elapsed = Dispatch_Denied i \<Longrightarrow> dispatch (register h b) e payload elapsed = Dispatch_Denied i"
  by (auto simp: dispatch_def register_def dispatch_loop_find find_append split: option.splits)

text \<open>No hook of an unloaded plugin decides anything any more.\<close>

lemma unloaded_plugin_is_silent:
  assumes "dispatch (snd (unload_plugin p b)) e payload elapsed = Dispatch_Denied i"
  shows "\<exists>h \<in> set b. hk_plugin h \<noteq> p \<and> hk_hook_id h = i \<and> hook_applies e h \<and> hook_objects payload elapsed h"
proof -
  obtain h where h: "find (hook_objects payload elapsed) (filter (hook_applies e) (snd (unload_plugin p b))) = Some h"
      "hk_hook_id h = i"
    using assms by (auto simp: dispatch_def dispatch_loop_find split: option.splits)
  then show ?thesis using find_SomeD [OF h(1)] by (auto simp: unload_plugin_def Let_def)
qed

text \<open>The diagnostics of the corpus are all there and pairwise different in class and key.\<close>

lemma fault_corpus_total:
  "\<exists>ds. fault_corpus = Some ds \<and> length ds = 5 \<and> distinct (map (fd_feature_key \<circ> snd) ds)
        \<and> distinct (map (fd_class \<circ> snd) ds)"
  by (simp add: fault_corpus_def execute_with_fault_injection_def)

end
