(* ===== verification/Policy_Kernel.thy ===== *)
theory Policy_Kernel
  imports Ordered_Map Rust_Text
begin

text \<open>
  The capability kernel of \<^verbatim>\<open>crates/policy/src\<close>: grants and the decision on a tool call (\<^verbatim>\<open>lib.rs\<close>), the approval
  store bound to intent hashes (\<^verbatim>\<open>approvals.rs\<close>) and the mediation of votes of several clients
  (\<^verbatim>\<open>mediation.rs\<close>). \<open>json\<close> mirrors the public value type of \<open>serde_json\<close>, whose objects are sorted by key;
  the serialisation and SHA-256 are parameters. Times are arguments.
\<close>

section \<open>The kernel\<close>

datatype effect_class = ReadOnly | Write | External

datatype json = JNull | JBool bool | JNumber string | JString string | JArray "json list" | JObject "(string \<times> json) list"

record capability_grant =
  cg_grant_id :: string
  cg_tool :: string
  cg_effect_class :: effect_class

record tool_call_request =
  tr_tool :: string
  tr_effect_class :: effect_class
  tr_arguments :: json

datatype policy_decision = Allow | Deny string

fun is_allow :: "policy_decision \<Rightarrow> bool" where
  "is_allow Allow = True"
| "is_allow (Deny _) = False"

fun show_policy_decision :: "policy_decision \<Rightarrow> string" where
  "show_policy_decision Allow = ''allow''"
| "show_policy_decision (Deny reason) = ''deny: '' @ reason"

fun debug_effect_class :: "effect_class \<Rightarrow> string" where
  "debug_effect_class ReadOnly = ''ReadOnly''"
| "debug_effect_class Write = ''Write''"
| "debug_effect_class External = ''External''"

record policy_kernel =
  pk_grants :: "capability_grant list"
  pk_protected_paths :: "string list"

definition kernel_new :: "string list \<Rightarrow> policy_kernel" where
  "kernel_new paths = \<lparr>pk_grants = [], pk_protected_paths = paths\<rparr>"

definition kernel_grant :: "capability_grant \<Rightarrow> policy_kernel \<Rightarrow> policy_kernel" where
  "kernel_grant g k = k\<lparr>pk_grants := pk_grants k @ [g]\<rparr>"

definition kernel_revoke :: "string \<Rightarrow> policy_kernel \<Rightarrow> policy_kernel" where
  "kernel_revoke i k = k\<lparr>pk_grants := filter (\<lambda>g. cg_grant_id g \<noteq> i) (pk_grants k)\<rparr>"

definition is_protected :: "policy_kernel \<Rightarrow> string \<Rightarrow> bool" where
  "is_protected k path = list_ex (\<lambda>p. starts_with path p) (pk_protected_paths k)"

text \<open>\<open>arguments.get("path").and_then(|v| v.as_str())\<close>.\<close>

fun json_str_field :: "string \<Rightarrow> json \<Rightarrow> string option" where
  "json_str_field f (JObject m) = (case map_of m f of Some (JString s) \<Rightarrow> Some s | _ \<Rightarrow> None)"
| "json_str_field f _ = None"

definition has_parent_component :: "string \<Rightarrow> bool" where
  "has_parent_component path =
     list_ex (\<lambda>c. c = ''..'') (str_split (\<lambda>c. c = CHR ''/'' \<or> c = CHR 0x5C) path)"

definition path_denial :: "policy_kernel \<Rightarrow> tool_call_request \<Rightarrow> string option" where
  "path_denial k r =
     (if tr_effect_class r = ReadOnly then None
      else (case json_str_field ''path'' (tr_arguments r) of
              None \<Rightarrow> None
            | Some path \<Rightarrow>
                if has_parent_component path
                then Some (''path '' @ debug_str path @ '' escapes the workspace (parent component)'')
                else if is_protected k path then Some (''path '' @ debug_str path @ '' is protected'')
                else None))"

definition kernel_check :: "policy_kernel \<Rightarrow> tool_call_request \<Rightarrow> capability_grant list \<Rightarrow> policy_decision" where
  "kernel_check k r caller_grants =
     (case path_denial k r of
        Some reason \<Rightarrow> Deny reason
      | None \<Rightarrow>
          if list_ex (\<lambda>g. cg_tool g = tr_tool r \<and> cg_effect_class g = tr_effect_class r) caller_grants then Allow
          else Deny (''no capability grant covers tool '' @ debug_str (tr_tool r) @ '' with effect class ''
                     @ debug_effect_class (tr_effect_class r)))"

section \<open>Approvals\<close>

datatype approval_state = Ap_Pending | Ap_Approved | Ap_Denied | Ap_Expired | Ap_Superseded

record approval =
  av_approval_id :: string
  av_intent_hash :: string
  av_tool :: string
  av_scope :: string
  av_state :: approval_state
  av_created_at_ms :: nat
  av_expires_at_ms :: "nat option"
  av_resolved_by :: "string option"

datatype approval_error = UnknownApproval string | NotPending string

fun show_approval_error :: "approval_error \<Rightarrow> string" where
  "show_approval_error (UnknownApproval i) = ''unknown approval '' @ i"
| "show_approval_error (NotPending i) = ''approval '' @ i @ '' is not pending''"

text \<open>Objects collected into a map again: sorted by key, the last entry of a key wins.\<close>

function sort_value :: "json \<Rightarrow> json" where
  "sort_value (JObject m) = JObject (foldl (\<lambda>acc (k, v). bt_insert k v acc) [] (map (\<lambda>(k, v). (k, sort_value v)) m))"
| "sort_value (JArray xs) = JArray (map sort_value xs)"
| "sort_value JNull = JNull"
| "sort_value (JBool b) = JBool b"
| "sort_value (JNumber n) = JNumber n"
| "sort_value (JString s) = JString s"
  by pat_completeness auto
termination
proof (relation "measure size")
  show "wf (measure (size :: json \<Rightarrow> nat))" by simp
next
  fix m :: "(string \<times> json) list" and e :: "string \<times> json" and k v
  assume "e \<in> set m" and "(k, v) = e"
  then have "(k, v) \<in> set m" by simp
  then show "(v, JObject m) \<in> measure size"
    by (induction m) (auto simp: less_Suc_eq trans_less_add2)
next
  fix xs :: "json list" and x
  assume "x \<in> set xs"
  then show "(x, JArray xs) \<in> measure size" by (induction xs) auto
qed

fun effect_class_json :: "effect_class \<Rightarrow> json" where
  "effect_class_json ReadOnly = JString ''read_only''"
| "effect_class_json Write = JString ''write''"
| "effect_class_json External = JString ''external''"

definition canonical_intent :: "tool_call_request \<Rightarrow> json" where
  "canonical_intent r =
     JObject [(''arguments'', sort_value (tr_arguments r)), (''effect_class'', effect_class_json (tr_effect_class r)),
              (''tool'', JString (tr_tool r))]"

definition intent_hash :: "(string \<Rightarrow> string) \<Rightarrow> (json \<Rightarrow> string) \<Rightarrow> tool_call_request \<Rightarrow> string" where
  "intent_hash H to_vec r = H (to_vec (canonical_intent r))"

type_synonym approval_store = "approval list"

definition approval_request ::
  "(string \<Rightarrow> string) \<Rightarrow> (json \<Rightarrow> string) \<Rightarrow> string \<Rightarrow> tool_call_request \<Rightarrow> string \<Rightarrow> nat option \<Rightarrow> nat \<Rightarrow>
   approval_store \<Rightarrow> (approval_error, approval) result \<times> approval_store" where
  "approval_request H to_vec i r scope expires now st =
     (let a = \<lparr>av_approval_id = i, av_intent_hash = intent_hash H to_vec r, av_tool = tr_tool r, av_scope = scope,
               av_state = Ap_Pending, av_created_at_ms = now, av_expires_at_ms = expires, av_resolved_by = None\<rparr>
      in (Inr a, st @ [a]))"

definition resolve_one :: "approval_state \<Rightarrow> string \<Rightarrow> approval \<Rightarrow> (approval_error, approval) result" where
  "resolve_one state who a =
     (let supersede = (av_state a = Ap_Approved \<and> state = Ap_Superseded)
      in if av_state a \<noteq> Ap_Pending \<and> \<not> supersede then Inl (NotPending (av_approval_id a))
         else if state \<in> {Ap_Approved, Ap_Denied, Ap_Superseded}
         then Inr (a\<lparr>av_state := state, av_resolved_by := Some who\<rparr>)
         else Inl (NotPending (av_approval_id a)))"

fun store_resolve ::
  "string \<Rightarrow> approval_state \<Rightarrow> string \<Rightarrow> approval_store \<Rightarrow> (approval_error, approval) result \<times> approval_store" where
  "store_resolve i state who [] = (Inl (UnknownApproval i), [])"
| "store_resolve i state who (a # st) =
     (if av_approval_id a = i
      then (case resolve_one state who a of
              Inl e \<Rightarrow> (Inl e, a # st)
            | Inr a' \<Rightarrow> (Inr a', a' # st))
      else (case store_resolve i state who st of (res, st') \<Rightarrow> (res, a # st')))"

fun has_live_approval :: "string \<Rightarrow> nat \<Rightarrow> approval_store \<Rightarrow> bool \<times> approval_store" where
  "has_live_approval h now [] = (False, [])"
| "has_live_approval h now (a # st) =
     (if av_intent_hash a \<noteq> h \<or> av_state a \<noteq> Ap_Approved
      then (case has_live_approval h now st of (b, st') \<Rightarrow> (b, a # st'))
      else (case av_expires_at_ms a of
              Some t \<Rightarrow>
                if t < now then (case has_live_approval h now st of (b, st') \<Rightarrow> (b, a\<lparr>av_state := Ap_Expired\<rparr> # st'))
                else (True, a # st)
            | None \<Rightarrow> (True, a # st)))"

section \<open>Mediation\<close>

datatype mediation_policy = Designated string | Consensus nat

fun show_mediation_policy :: "mediation_policy \<Rightarrow> string" where
  "show_mediation_policy (Designated c) = ''designated('' @ c @ '')''"
| "show_mediation_policy (Consensus n) = ''consensus(min='' @ show_nat n @ '')''"

record client_vote =
  cv_client_id :: string
  cv_approve :: bool
  cv_ts_ms :: int

datatype mediation_error = ModelVoteRefused string | ClientNotEnrolled string | ConflictingVotes string

fun show_mediation_error :: "mediation_error \<Rightarrow> string" where
  "show_mediation_error (ModelVoteRefused a) = ''model-controlled actor '' @ debug_str a @ '' cannot resolve approvals''"
| "show_mediation_error (ClientNotEnrolled c) = ''client '' @ debug_str c @ '' is not enrolled''"
| "show_mediation_error (ConflictingVotes c) =
     ''client '' @ debug_str c @ '' voted both ways '' @ [CHR 0xE2, CHR 0x80, CHR 0x94] @ '' policy resolves, not silence''"

record mediation =
  md_approval_id :: string
  md_policy :: mediation_policy
  md_enrolled_clients :: "string list"
  md_votes :: "client_vote list"
  md_audit :: "string list"
  md_resolved :: "bool option"

definition mediation_open :: "approval \<Rightarrow> mediation_policy \<Rightarrow> string list \<Rightarrow> mediation" where
  "mediation_open a p clients =
     \<lparr>md_approval_id = av_approval_id a, md_policy = p, md_enrolled_clients = clients, md_votes = [],
      md_audit = [''opened under policy '' @ debug_str (show_mediation_policy p) @ '' with '' @ show_nat (length clients)
                  @ '' enrolled clients''],
      md_resolved = None\<rparr>"

definition mediation_decision :: "mediation_policy \<Rightarrow> client_vote list \<Rightarrow> bool option" where
  "mediation_decision p votes =
     (case p of
        Designated c \<Rightarrow> map_option cv_approve (find (\<lambda>v. cv_client_id v = c) votes)
      | Consensus n \<Rightarrow>
          if 0 < length (filter (\<lambda>v. \<not> cv_approve v) votes) then Some False
          else if n \<le> length (filter cv_approve votes) then Some True
          else None)"

definition recompute :: "mediation \<Rightarrow> mediation" where
  "recompute m =
     (let m1 = m\<lparr>md_resolved := mediation_decision (md_policy m) (md_votes m)\<rparr>
      in case md_resolved m1 of
           None \<Rightarrow> m1
         | Some d \<Rightarrow> m1\<lparr>md_audit := md_audit m1 @ [''RESOLVED: '' @ (if d then ''approved'' else ''denied'')]\<rparr>)"

definition submit_vote ::
  "string \<Rightarrow> bool \<Rightarrow> bool \<Rightarrow> int \<Rightarrow> mediation \<Rightarrow> (mediation_error, bool option) result \<times> mediation" where
  "submit_vote client approve is_model now m =
     (let m1 = m\<lparr>md_audit := md_audit m @
                 [''vote from '' @ client @ '': '' @ (if approve then ''approve'' else ''deny'') @ '' (model_actor=''
                  @ (if is_model then ''true'' else ''false'') @ '')'']\<rparr>
      in if is_model then (Inl (ModelVoteRefused client), m1)
         else if \<not> list_ex (\<lambda>c. c = client) (md_enrolled_clients m) then (Inl (ClientNotEnrolled client), m1)
         else (case find (\<lambda>v. cv_client_id v = client) (md_votes m) of
                 Some v \<Rightarrow> if cv_approve v \<noteq> approve then (Inl (ConflictingVotes client), m1)
                           else (Inr (md_resolved m), m1)
               | None \<Rightarrow>
                   (let m2 = recompute (m1\<lparr>md_votes := md_votes m @
                               [\<lparr>cv_client_id = client, cv_approve = approve, cv_ts_ms = now\<rparr>]\<rparr>)
                    in (Inr (md_resolved m2), m2))))"

definition mediation_state :: "mediation \<Rightarrow> approval_state" where
  "mediation_state m =
     (case md_resolved m of Some True \<Rightarrow> Ap_Approved | Some False \<Rightarrow> Ap_Denied | None \<Rightarrow> Ap_Pending)"

section \<open>What the kernel allows\<close>

text \<open>The kernel's own grant list takes no part in a decision: granting and revoking there changes nothing.\<close>

lemma kernel_grants_unused:
  "kernel_check (kernel_revoke i k) r gs = kernel_check k r gs"
  "kernel_check (kernel_grant g k) r gs = kernel_check k r gs"
  by (simp_all add: kernel_check_def path_denial_def is_protected_def kernel_revoke_def kernel_grant_def split: option.splits)

text \<open>The kernel fails closed: a call is allowed exactly when the caller holds a grant for the very tool and
  effect class, and, unless it only reads, its path argument, if it has one, neither has a parent
  component nor starts with a protected prefix.\<close>

lemma kernel_allows_exactly:
  "kernel_check k r gs = Allow \<longleftrightarrow>
     (\<exists>g \<in> set gs. cg_tool g = tr_tool r \<and> cg_effect_class g = tr_effect_class r)
     \<and> (tr_effect_class r \<noteq> ReadOnly \<longrightarrow>
          (case json_str_field ''path'' (tr_arguments r) of
             None \<Rightarrow> True
           | Some path \<Rightarrow> ''..'' \<notin> set (str_split (\<lambda>c. c = CHR ''/'' \<or> c = CHR 0x5C) path)
                        \<and> (\<forall>p \<in> set (pk_protected_paths k). \<not> prefix p path)))"
  by (auto simp: kernel_check_def path_denial_def has_parent_component_def is_protected_def starts_with_def list_ex_iff
      split: option.splits if_splits)

lemma kernel_allows_exactly_witness:
  "kernel_check (kernel_new [''/etc''])
     \<lparr>tr_tool = ''write'', tr_effect_class = Write, tr_arguments = JObject [(''path'', JString ''src/../etc'')]\<rparr>
     [\<lparr>cg_grant_id = ''g'', cg_tool = ''write'', cg_effect_class = Write\<rparr>] \<noteq> Allow"
  by (subst kernel_allows_exactly) simp

section \<open>Closed approvals\<close>

datatype grant_op = Op_Request string tool_call_request string "nat option" nat
  | Op_Resolve string approval_state string
  | Op_Live string nat

fun grant_op_step ::
  "(string \<Rightarrow> string) \<Rightarrow> (json \<Rightarrow> string) \<Rightarrow> approval_store \<Rightarrow> grant_op \<Rightarrow> approval_store" where
  "grant_op_step H tv st (Op_Request i r scope ex now) = snd (approval_request H tv i r scope ex now st)"
| "grant_op_step H tv st (Op_Resolve i state who) = snd (store_resolve i state who st)"
| "grant_op_step H tv st (Op_Live h now) = snd (has_live_approval h now st)"

definition closed :: "approval \<Rightarrow> bool" where
  "closed a = (av_state a \<in> {Ap_Denied, Ap_Expired, Ap_Superseded})"

definition is_live :: "string \<Rightarrow> nat \<Rightarrow> approval \<Rightarrow> bool" where
  "is_live h now a =
     (av_intent_hash a = h \<and> av_state a = Ap_Approved \<and> (case av_expires_at_ms a of None \<Rightarrow> True | Some t \<Rightarrow> now \<le> t))"

lemma has_live_exact: "fst (has_live_approval h now st) \<longleftrightarrow> (\<exists>a \<in> set st. is_live h now a)"
proof (induction st)
  case (Cons a st)
  then show ?case using is_live_def [of h now a] by (auto simp: case_prod_beta split: option.splits)
qed simp

lemma has_live_length [simp]: "length (snd (has_live_approval h now st)) = length st"
  by (induction h now st rule: has_live_approval.induct) (auto split: option.splits prod.splits)

lemma has_live_keeps: "i < length st \<Longrightarrow> closed (st ! i) \<Longrightarrow> snd (has_live_approval h now st) ! i = st ! i"
proof (induction h now st arbitrary: i rule: has_live_approval.induct)
  case (2 h now a st)
  then show ?case by (cases i) (auto simp: closed_def split: option.splits prod.splits)
qed simp

lemma resolve_length [simp]: "length (snd (store_resolve i s w st)) = length st"
  by (induction st) (auto split: sum.splits prod.splits)

lemma resolve_keeps: "j < length st \<Longrightarrow> closed (st ! j) \<Longrightarrow> snd (store_resolve i s w st) ! j = st ! j"
proof (induction st arbitrary: j)
  case (Cons a st)
  then show ?case by (cases j) (auto simp: closed_def resolve_one_def Let_def split: sum.splits prod.splits if_splits)
qed simp

lemma grant_op_keeps:
  assumes "i < length st" and "closed (st ! i)"
  shows "i < length (grant_op_step H tv st op) \<and> grant_op_step H tv st op ! i = st ! i"
  using assms by (cases op) (auto simp: approval_request_def Let_def nth_append has_live_keeps resolve_keeps)

text \<open>C14: a closed approval stays closed, and only live ones authorise: an approval that was denied, superseded or
  found expired is never changed by any later request, resolution or check, and at every moment the store
  reports a live approval for an intent exactly when it holds an approved one for that very intent hash
  that has not expired.\<close>
theorem closed_approval_stays_closed:
  assumes "i < length st" and "closed (st ! i)" and "st' = foldl (grant_op_step H tv) st ops"
  shows "st' ! i = st ! i \<and> \<not> is_live h now (st' ! i)
    \<and> (fst (has_live_approval h now st') \<longleftrightarrow> (\<exists>a \<in> set st'. is_live h now a))"
proof -
  have "i < length (foldl (grant_op_step H tv) st ops) \<and> foldl (grant_op_step H tv) st ops ! i = st ! i"
    using assms(1,2)
  proof (induction ops arbitrary: st)
    case (Cons op ops)
    then show ?case using grant_op_keeps [OF Cons.prems, of H tv op] by (metis foldl_Cons)
  qed simp
  then show ?thesis using assms(2,3) has_live_exact by (auto simp: closed_def is_live_def)
qed

theorem closed_approval_stays_closed_witness:
  "\<exists>a. foldl (grant_op_step (\<lambda>x. x) (\<lambda>_. ''v''))
      [\<lparr>av_approval_id = ''a'', av_intent_hash = ''v'', av_tool = ''t'', av_scope = [], av_state = Ap_Denied,
        av_created_at_ms = 0, av_expires_at_ms = None, av_resolved_by = None\<rparr>]
      [Op_Resolve ''a'' Ap_Approved ''u''] ! 0 = a \<and> av_state a = Ap_Denied \<and> \<not> is_live ''v'' 0 a"
proof -
  let ?a = "\<lparr>av_approval_id = ''a'', av_intent_hash = ''v'', av_tool = ''t'', av_scope = [], av_state = Ap_Denied,
        av_created_at_ms = 0, av_expires_at_ms = None, av_resolved_by = None\<rparr>"
  have "closed ([?a] ! 0)" by (simp add: closed_def)
  from closed_approval_stays_closed [OF _ this refl, of "\<lambda>x. x" "\<lambda>_. ''v''" "[Op_Resolve ''a'' Ap_Approved ''u'']" "''v''" 0]
  show ?thesis by (simp add: is_live_def resolve_one_def)
qed

section \<open>Votes\<close>

text \<open>Every submitted vote, with the time it arrives.\<close>

type_synonym vote_op = "string \<times> bool \<times> bool \<times> int"

definition vote_step :: "mediation \<Rightarrow> vote_op \<Rightarrow> mediation" where
  "vote_step m v = (case v of (c, a, is_model, t) \<Rightarrow> snd (submit_vote c a is_model t m))"

text \<open>The first stance of every enrolled client that is not the model, in the order of arrival.\<close>

fun stances :: "string list \<Rightarrow> client_vote list \<Rightarrow> vote_op list \<Rightarrow> client_vote list" where
  "stances enrolled vs [] = vs"
| "stances enrolled vs ((c, a, is_model, t) # ops) =
     stances enrolled
       (if \<not> is_model \<and> c \<in> set enrolled \<and> c \<notin> cv_client_id ` set vs
        then vs @ [\<lparr>cv_client_id = c, cv_approve = a, cv_ts_ms = t\<rparr>] else vs) ops"

definition mediation_ok :: "mediation \<Rightarrow> bool" where
  "mediation_ok m =
     (md_resolved m = (if md_votes m = [] then None else mediation_decision (md_policy m) (md_votes m)))"

lemma recompute_fields [simp]:
  "md_votes (recompute m) = md_votes m" "md_policy (recompute m) = md_policy m"
  "md_enrolled_clients (recompute m) = md_enrolled_clients m"
  "md_resolved (recompute m) = mediation_decision (md_policy m) (md_votes m)"
  by (simp_all add: recompute_def Let_def split: option.splits)

lemma find_client_None: "find (\<lambda>v. cv_client_id v = c) vs = None \<longleftrightarrow> c \<notin> cv_client_id ` set vs"
  by (induction vs) auto

lemma submit_vote_fields:
  "md_policy (snd (submit_vote c a b t m)) = md_policy m"
  "md_enrolled_clients (snd (submit_vote c a b t m)) = md_enrolled_clients m"
  "md_votes (snd (submit_vote c a b t m)) = stances (md_enrolled_clients m) (md_votes m) [(c, a, b, t)]"
proof -
  consider (known) v where "find (\<lambda>v. cv_client_id v = c) (md_votes m) = Some v" "c \<in> cv_client_id ` set (md_votes m)"
    | (fresh) "find (\<lambda>v. cv_client_id v = c) (md_votes m) = None" "c \<notin> cv_client_id ` set (md_votes m)"
    using find_client_None [of c "md_votes m"] by fastforce
  note vote_cases = this
  have ex: "list_ex (\<lambda>x. x = c) (md_enrolled_clients m) \<longleftrightarrow> c \<in> set (md_enrolled_clients m)"
    by (simp add: list_ex_iff)
  show "md_policy (snd (submit_vote c a b t m)) = md_policy m"
    by (rule vote_cases) (simp_all add: submit_vote_def Let_def)
  show "md_enrolled_clients (snd (submit_vote c a b t m)) = md_enrolled_clients m"
    by (rule vote_cases) (simp_all add: submit_vote_def Let_def)
  show "md_votes (snd (submit_vote c a b t m)) = stances (md_enrolled_clients m) (md_votes m) [(c, a, b, t)]"
    by (rule vote_cases) (simp_all add: submit_vote_def Let_def ex)
qed

lemma vote_step_fields:
  "md_policy (vote_step m v) = md_policy m" "md_enrolled_clients (vote_step m v) = md_enrolled_clients m"
  "md_votes (vote_step m v) = stances (md_enrolled_clients m) (md_votes m) [v]"
  by (cases v; simp add: vote_step_def submit_vote_fields)+

lemma vote_step_ok: "mediation_ok m \<Longrightarrow> mediation_ok (vote_step m v)"
  by (cases v) (auto simp: mediation_ok_def vote_step_def submit_vote_def Let_def split: option.splits)

interpretation votes: machine vote_step mediation_ok
  by unfold_locales (rule vote_step_ok)

lemma stances_append: "stances e vs (xs @ ys) = stances e (stances e vs xs) ys"
  by (induction e vs xs rule: stances.induct) auto

lemma vote_run_fields:
  "md_policy (foldl vote_step m ops) = md_policy m"
  "md_enrolled_clients (foldl vote_step m ops) = md_enrolled_clients m"
  "md_votes (foldl vote_step m ops) = stances (md_enrolled_clients m) (md_votes m) ops"
proof (induction ops rule: rev_induct)
  case (snoc v ops)
  show "md_policy (foldl vote_step m (ops @ [v])) = md_policy m" using snoc by (simp add: vote_step_fields)
  show "md_enrolled_clients (foldl vote_step m (ops @ [v])) = md_enrolled_clients m" using snoc by (simp add: vote_step_fields)
  show "md_votes (foldl vote_step m (ops @ [v])) = stances (md_enrolled_clients m) (md_votes m) (ops @ [v])"
    using snoc by (simp add: vote_step_fields stances_append)
qed simp_all

text \<open>Mediation counts each client once and never the model: after any sequence of submitted votes the votes on
  record are the first stances of the enrolled clients that are not model-controlled, in order of arrival,
  and the resolution is what the configured policy says of them.\<close>

lemma mediation_counts_first_stances:
  "md_votes (foldl vote_step (mediation_open a p clients) ops) = stances clients [] ops
    \<and> md_resolved (foldl vote_step (mediation_open a p clients) ops) =
        (if stances clients [] ops = [] then None else mediation_decision p (stances clients [] ops))"
proof -
  have "mediation_ok (mediation_open a p clients)" by (simp add: mediation_ok_def mediation_open_def)
  then have "mediation_ok (foldl vote_step (mediation_open a p clients) ops)" by (rule votes.run_inv)
  then show ?thesis
    by (simp add: mediation_ok_def vote_run_fields) (simp add: mediation_open_def)
qed

text \<open>A consensus that was reached is not final: one more enrolled client that denies turns it.\<close>

lemma late_denial_overturns_consensus:
  assumes "md_policy m = Consensus n" and "md_resolved m = Some True"
    and "c \<in> set (md_enrolled_clients m)" and "c \<notin> cv_client_id ` set (md_votes m)"
  shows "mediation_state m = Ap_Approved \<and> mediation_state (snd (submit_vote c False False t m)) = Ap_Denied"
  using assms find_client_None [of c "md_votes m"]
  by (simp add: mediation_state_def submit_vote_def Let_def list_ex_iff mediation_decision_def)

end
