(* ===== verification/Policy_Rules.thy ===== *)
theory Policy_Rules
  imports Ordered_Map Rust_Text
begin

text \<open>
  The smaller rules of \<^verbatim>\<open>crates/policy/src\<close>: capability advertisement (\<^verbatim>\<open>capability_set.rs\<close>), ceremonies before
  execution (\<^verbatim>\<open>ceremony.rs\<close>), device policy and snapshots (\<^verbatim>\<open>device_policy.rs\<close>), layered policies
  (\<^verbatim>\<open>admin_precedence.rs\<close>), the check before execution (\<^verbatim>\<open>policy_before_exec.rs\<close>), structured questions
  (\<^verbatim>\<open>question.rs\<close>) and the risk of UI actions (\<^verbatim>\<open>ui_risk.rs\<close>). Case conversion is that of ASCII text.
\<close>

section \<open>Capabilities\<close>

datatype capability_layer = Producer | Authorization | Transport | Consumer

type_synonym capability_set = "(string, unit) btree"

definition cap_add :: "string \<Rightarrow> capability_set \<Rightarrow> capability_set" where
  "cap_add c s = bt_insert c () s"

definition cap_remove :: "string \<Rightarrow> capability_set \<Rightarrow> capability_set" where
  "cap_remove c s = bt_remove c s"

definition cap_has :: "string \<Rightarrow> capability_set \<Rightarrow> bool" where
  "cap_has c s = (bt_get c s \<noteq> None)"

definition cap_union :: "capability_set \<Rightarrow> capability_set \<Rightarrow> capability_set" where
  "cap_union s t = foldl (\<lambda>acc e. bt_insert (fst e) (snd e) acc) s t"

definition cap_intersection :: "capability_set \<Rightarrow> capability_set \<Rightarrow> capability_set" where
  "cap_intersection s t =
     foldl (\<lambda>acc e. bt_insert (fst e) (snd e) acc) [] (filter (\<lambda>e. bt_get (fst e) t \<noteq> None) s)"

record advertised_capability =
  ac_name :: string
  ac_producer_exists :: bool
  ac_authorized :: bool
  ac_transport_supported :: bool
  ac_consumer_exists :: bool
  ac_consumer_adapter :: string

definition check_e2e_capability :: "advertised_capability \<Rightarrow> (string, unit) result" where
  "check_e2e_capability c =
     (if \<not> ac_producer_exists c then Inl (ac_name c @ '': no producer/effector exists'')
      else if \<not> ac_authorized c then Inl (ac_name c @ '': not authorized by policy'')
      else if \<not> ac_transport_supported c then Inl (ac_name c @ '': transport does not support it'')
      else if \<not> ac_consumer_exists c then Inl (ac_name c @ '': no consumer to render it'')
      else Inr ())"

record consumer_adapter =
  ca_name :: string
  ca_enabled :: bool

definition visible_tools :: "advertised_capability list \<Rightarrow> consumer_adapter list \<Rightarrow> string list" where
  "visible_tools caps adapters =
     map ac_name (filter (\<lambda>c.
       (ac_consumer_adapter c = [] \<or> list_ex (\<lambda>a. ca_name a = ac_consumer_adapter c \<and> ca_enabled a) adapters)
       \<and> is_ok (check_e2e_capability c)) caps)"

section \<open>Ceremonies\<close>

datatype ceremony = Ceremony_None | Clarify | Plan | VisualReview | PlanAndVisualReview

record ceremony_config =
  cc_high_risk_patterns :: "string list"
  cc_require_plan_for_high_risk :: bool
  cc_require_visual_review_for_high_risk :: bool

definition is_high_risk :: "ceremony_config \<Rightarrow> string \<Rightarrow> bool" where
  "is_high_risk c description =
     (let lower = to_lowercase description
      in list_ex (\<lambda>p. str_contains lower (to_lowercase p)) (cc_high_risk_patterns c))"

record ambiguity =
  am_missing :: string
  am_question :: string
  am_options :: "string list"

datatype task_admission =
  Admit_Proceed
| NeedsClarification string string
| RequiresPlan string
| RequiresVisualReview string
| RequiresPlanAndVisualReview string

definition blocks_execution :: "task_admission \<Rightarrow> bool" where
  "blocks_execution a = (a \<noteq> Admit_Proceed)"

definition admit_task :: "string \<Rightarrow> ambiguity option \<Rightarrow> ceremony_config \<Rightarrow> task_admission" where
  "admit_task description amb c =
     (case amb of
        Some a \<Rightarrow> NeedsClarification (am_missing a) (am_question a)
      | None \<Rightarrow>
          if \<not> is_high_risk c description then Admit_Proceed
          else let reason = ''high-risk task per operator configuration''
               in (case (cc_require_plan_for_high_risk c, cc_require_visual_review_for_high_risk c) of
                     (True, True) \<Rightarrow> RequiresPlanAndVisualReview reason
                   | (True, False) \<Rightarrow> RequiresPlan reason
                   | (False, True) \<Rightarrow> RequiresVisualReview reason
                   | (False, False) \<Rightarrow> Admit_Proceed))"

section \<open>Devices and layers\<close>

record device_policy =
  dp_requires_device_trust :: bool
  dp_proxy :: "string option"
  dp_update_channel :: string
  dp_sandbox_required :: bool
  dp_telemetry_opt_out :: bool

record project_config =
  pc_requires_device_trust :: "bool option"
  pc_sandbox_required :: "bool option"
  pc_telemetry_opt_out :: "bool option"

definition tighten :: "bool option \<Rightarrow> bool \<Rightarrow> bool" where
  "tighten v b = (case v of None \<Rightarrow> b | Some x \<Rightarrow> b \<or> x)"

definition merge_device_policy :: "device_policy \<Rightarrow> project_config \<Rightarrow> device_policy" where
  "merge_device_policy d p =
     d\<lparr>dp_requires_device_trust := tighten (pc_requires_device_trust p) (dp_requires_device_trust d),
       dp_sandbox_required := tighten (pc_sandbox_required p) (dp_sandbox_required d),
       dp_telemetry_opt_out := tighten (pc_telemetry_opt_out p) (dp_telemetry_opt_out d)\<rparr>"

record policy_snapshot =
  ps_version :: nat
  ps_allowed_tools :: "string list"
  ps_forbidden_tools :: "string list"
  ps_created_at_ms :: nat

definition revalidate :: "policy_snapshot \<Rightarrow> string list \<Rightarrow> string list \<Rightarrow> nat \<Rightarrow> policy_snapshot" where
  "revalidate cur allowed forbidden now =
     \<lparr>ps_version = ps_version cur + 1, ps_allowed_tools = allowed, ps_forbidden_tools = forbidden, ps_created_at_ms = now\<rparr>"

definition is_tool_allowed :: "policy_snapshot \<Rightarrow> string \<Rightarrow> bool" where
  "is_tool_allowed s tool = (tool \<in> set (ps_allowed_tools s) \<and> tool \<notin> set (ps_forbidden_tools s))"

record policy_layer =
  pl_source :: string
  pl_blocked_tools :: "string list"
  pl_required_approvals :: "string list"

fun push_new :: "string list \<Rightarrow> string list \<Rightarrow> string list" where
  "push_new acc [] = acc"
| "push_new acc (x # xs) = push_new (if x \<in> set acc then acc else acc @ [x]) xs"

fun merge_layers_into :: "policy_layer \<Rightarrow> policy_layer list \<Rightarrow> policy_layer" where
  "merge_layers_into m [] = m"
| "merge_layers_into m (l # ls) =
     merge_layers_into
       (m\<lparr>pl_blocked_tools := push_new (pl_blocked_tools m) (pl_blocked_tools l),
          pl_required_approvals := push_new (pl_required_approvals m) (pl_required_approvals l)\<rparr>) ls"

definition merge_layers :: "policy_layer list \<Rightarrow> policy_layer" where
  "merge_layers ls =
     merge_layers_into \<lparr>pl_source = ''merged'', pl_blocked_tools = [], pl_required_approvals = []\<rparr> ls"

record policy_check =
  pc_allowed :: bool
  pc_reason :: string

definition check_policy :: "policy_check \<Rightarrow> (string, unit) result" where
  "check_policy c = (if pc_allowed c then Inr () else Inl (''policy denied: '' @ pc_reason c))"

section \<open>Questions\<close>

record question_option =
  qo_id :: string
  qo_label :: string
  qo_description :: string

record structured_question =
  sq_question_id :: string
  sq_question :: string
  sq_options :: "question_option list"

definition question_validate :: "structured_question \<Rightarrow> (string, unit) result" where
  "question_validate q =
     (if str_trim (sq_question q) = [] then Inl ''question text must not be empty''
      else if length (sq_options q) < 2
      then Inl (''question '' @ sq_question_id q @ '' needs at least 2 options (got '' @ show_nat (length (sq_options q)) @ '')'')
      else (case find (\<lambda>p. qo_id p = [] \<or> qo_label p = []) (sq_options q) of
              Some p \<Rightarrow> Inl (''option '' @ debug_str (qo_id p) @ '' missing id/label'')
            | None \<Rightarrow> Inr ()))"

datatype ask_surface = Ask_Interactive | Ask_Headless

datatype ask_outcome = Answered string "string option" | NeedsInput string | Dismissed

fun show_ask_outcome :: "ask_outcome \<Rightarrow> string" where
  "show_ask_outcome (Answered i _) = ''answered('' @ i @ '')''"
| "show_ask_outcome (NeedsInput q) = ''NEEDS_INPUT('' @ q @ '')''"
| "show_ask_outcome Dismissed = ''dismissed''"

datatype ask_error = InvalidQuestion string | UnknownOption string

fun show_ask_error :: "ask_error \<Rightarrow> string" where
  "show_ask_error (InvalidQuestion why) = ''invalid question: '' @ why"
| "show_ask_error (UnknownOption i) = ''unknown option id '' @ debug_str i"

definition ask :: "structured_question \<Rightarrow> ask_surface \<Rightarrow> (ask_error, ask_outcome) result" where
  "ask q surface =
     and_then (map_err InvalidQuestion (question_validate q)) (\<lambda>_.
       case surface of
         Ask_Headless \<Rightarrow> Inr (NeedsInput (sq_question_id q))
       | Ask_Interactive \<Rightarrow> Inr (NeedsInput (sq_question_id q)))"

definition validate_answer :: "structured_question \<Rightarrow> string \<Rightarrow> (ask_error, unit) result" where
  "validate_answer q i = (if list_ex (\<lambda>p. qo_id p = i) (sq_options q) then Inr () else Inl (UnknownOption i))"

section \<open>Risk of UI actions\<close>

datatype ui_target = OrdinaryContent | CredentialField | SecuritySetting | BillingSetting | UnknownTarget

datatype ui_action_kind = Ui_Read | Ui_Click | Ui_Type | Ui_Submit | Ui_Delete

datatype data_sensitivity = Data_Public | Data_Internal | Data_Credentials

datatype risk_level = Risk_Low | Risk_Elevated | Risk_High

fun show_risk_level :: "risk_level \<Rightarrow> string" where
  "show_risk_level Risk_Low = ''low''"
| "show_risk_level Risk_Elevated = ''elevated''"
| "show_risk_level Risk_High = ''high''"

text \<open>The derived order of the levels is the order of their declaration.\<close>

fun risk_rank :: "risk_level \<Rightarrow> nat" where
  "risk_rank Risk_Low = 0"
| "risk_rank Risk_Elevated = 1"
| "risk_rank Risk_High = 2"

instantiation risk_level :: linorder
begin

definition less_eq_risk_level :: "risk_level \<Rightarrow> risk_level \<Rightarrow> bool" where
  "less_eq_risk_level a b = (risk_rank a \<le> risk_rank b)"

definition less_risk_level :: "risk_level \<Rightarrow> risk_level \<Rightarrow> bool" where
  "less_risk_level a b = (risk_rank a < risk_rank b)"

instance
proof
  fix a b :: risk_level
  show "a \<le> b \<Longrightarrow> b \<le> a \<Longrightarrow> a = b" by (cases a; cases b) (simp_all add: less_eq_risk_level_def)
qed (auto simp: less_eq_risk_level_def less_risk_level_def)

end

record ui_action =
  ua_target :: ui_target
  ua_action :: ui_action_kind
  ua_data :: data_sensitivity
  ua_context_label :: string

record risk_classification =
  rc_level :: risk_level
  rc_requires_approval :: bool
  rc_reasons :: "string list"

definition DESTRUCTIVE_HINTS :: "string list" where
  "DESTRUCTIVE_HINTS = [''delete'', ''remove'', ''purge'', ''production'', ''revoke'', ''irreversible'']"

definition elevate :: "risk_level \<Rightarrow> string \<Rightarrow> risk_level \<times> string list \<Rightarrow> risk_level \<times> string list" where
  "elevate to why st = (case st of (level, reasons) \<Rightarrow> (if level < to then to else level, reasons @ [why]))"

fun target_risk :: "ui_target \<Rightarrow> risk_level \<times> string list \<Rightarrow> risk_level \<times> string list" where
  "target_risk CredentialField st = elevate Risk_High ''target is a credential field'' st"
| "target_risk SecuritySetting st = elevate Risk_High ''target is a security setting'' st"
| "target_risk BillingSetting st = elevate Risk_Elevated ''target is a billing setting'' st"
| "target_risk UnknownTarget st =
     elevate Risk_Elevated
       (''target is unknown '' @ [CHR 0xE2, CHR 0x80, CHR 0x94] @ '' treated as elevated'') st"
| "target_risk OrdinaryContent st = st"

fun action_risk :: "ui_action_kind \<Rightarrow> risk_level \<times> string list \<Rightarrow> risk_level \<times> string list" where
  "action_risk Ui_Delete st = elevate Risk_High ''action is a delete'' st"
| "action_risk Ui_Submit st = elevate Risk_Elevated ''action submits data'' st"
| "action_risk _ st = st"

definition data_risk :: "data_sensitivity \<Rightarrow> risk_level \<times> string list \<Rightarrow> risk_level \<times> string list" where
  "data_risk d st = (if d = Data_Credentials then elevate Risk_High ''data involves credentials'' st else st)"

definition label_risk :: "string \<Rightarrow> risk_level \<times> string list \<Rightarrow> risk_level \<times> string list" where
  "label_risk context_label st =
     (let label = to_lowercase context_label
      in if list_ex (\<lambda>h. str_contains label h) DESTRUCTIVE_HINTS
         then elevate Risk_High (''context label '' @ debug_str label @ '' looks destructive'') st else st)"

definition classify :: "ui_action \<Rightarrow> risk_classification" where
  "classify a =
     (case label_risk (ua_context_label a) (data_risk (ua_data a) (action_risk (ua_action a)
             (target_risk (ua_target a) (Risk_Low, [])))) of
        (level, reasons) \<Rightarrow> \<lparr>rc_level = level, rc_requires_approval = (Risk_High \<le> level), rc_reasons = reasons\<rparr>)"

section \<open>Laws\<close>

lemma cap_has_union:
  assumes "bt_sorted s" and "bt_sorted t"
  shows "cap_has c (cap_union s t) \<longleftrightarrow> cap_has c s \<or> cap_has c t"
proof -
  have "distinct (map fst t)" using assms(2) by (simp add: bt_sorted_def strict_sorted_iff)
  then have "map_of (rev t) = map_of t" by (intro map_of_inject_set [THEN iffD2]) (simp_all add: rev_map [symmetric])
  then show ?thesis
    using bt.replay_get [OF assms(1), of c t] by (auto simp: cap_has_def cap_union_def bt_get_def split: option.splits)
qed

text \<open>A visible tool has all four layers and an enabled adapter; disabling the adapter hides it.\<close>

lemma visible_tools_iff:
  "n \<in> set (visible_tools caps adapters) \<longleftrightarrow>
     (\<exists>c \<in> set caps. ac_name c = n \<and> ac_producer_exists c \<and> ac_authorized c \<and> ac_transport_supported c \<and> ac_consumer_exists c
        \<and> (ac_consumer_adapter c = [] \<or> (\<exists>a \<in> set adapters. ca_name a = ac_consumer_adapter c \<and> ca_enabled a)))"
  by (auto simp: visible_tools_def check_e2e_capability_def list_ex_iff split: if_splits)

text \<open>A project can only tighten what the device requires.\<close>

lemma project_only_tightens:
  "dp_requires_device_trust d \<longrightarrow> dp_requires_device_trust (merge_device_policy d p)"
  "dp_sandbox_required d \<longrightarrow> dp_sandbox_required (merge_device_policy d p)"
  "dp_telemetry_opt_out d \<longrightarrow> dp_telemetry_opt_out (merge_device_policy d p)"
  by (auto simp: merge_device_policy_def tighten_def split: option.splits)

lemma push_new_set [simp]: "set (push_new acc xs) = set acc \<union> set xs"
  by (induction acc xs rule: push_new.induct) auto

lemma push_new_distinct: "distinct acc \<Longrightarrow> distinct (push_new acc xs)"
  by (induction acc xs rule: push_new.induct) auto

text \<open>Whatever layer blocks a tool, the merged policy blocks it, once.\<close>

lemma merged_layers_block:
  "set (pl_blocked_tools (merge_layers ls)) = (\<Union>l \<in> set ls. set (pl_blocked_tools l))
   \<and> distinct (pl_blocked_tools (merge_layers ls))"
proof -
  have "set (pl_blocked_tools (merge_layers_into m ls)) = set (pl_blocked_tools m) \<union> (\<Union>l \<in> set ls. set (pl_blocked_tools l))
      \<and> (distinct (pl_blocked_tools m) \<longrightarrow> distinct (pl_blocked_tools (merge_layers_into m ls)))" for m
    by (induction m ls rule: merge_layers_into.induct) (auto simp: push_new_distinct)
  then show ?thesis by (simp add: merge_layers_def)
qed

text \<open>The level is the maximum over the four dimensions.\<close>

lemma fst_elevate [simp]: "fst (elevate to why st) = max (fst st) to"
  by (cases st) (simp add: elevate_def max_def not_less less_le_not_le)

lemma requires_approval_iff:
  "rc_requires_approval (classify a) \<longleftrightarrow>
     ua_target a \<in> {CredentialField, SecuritySetting} \<or> ua_action a = Ui_Delete \<or> ua_data a = Data_Credentials
     \<or> (\<exists>h \<in> set DESTRUCTIVE_HINTS. str_contains (to_lowercase (ua_context_label a)) h)"
proof -
  have low: "\<not> Risk_High \<le> Risk_Low" "\<not> Risk_High \<le> Risk_Elevated" by (simp_all add: less_eq_risk_level_def)
  have t: "Risk_High \<le> fst (target_risk tg st) \<longleftrightarrow> tg \<in> {CredentialField, SecuritySetting} \<or> Risk_High \<le> fst st" for tg st
    using low by (cases tg) (auto simp: le_max_iff_disj)
  have k: "Risk_High \<le> fst (action_risk k st) \<longleftrightarrow> k = Ui_Delete \<or> Risk_High \<le> fst st" for k st
    using low by (cases k) (auto simp: le_max_iff_disj)
  have d: "Risk_High \<le> fst (data_risk d st) \<longleftrightarrow> d = Data_Credentials \<or> Risk_High \<le> fst st" for d st
    by (simp add: data_risk_def le_max_iff_disj)
  have l: "Risk_High \<le> fst (label_risk lb st) \<longleftrightarrow>
      (\<exists>h \<in> set DESTRUCTIVE_HINTS. str_contains (to_lowercase lb) h) \<or> Risk_High \<le> fst st" for lb st
    by (auto simp: label_risk_def Let_def list_ex_iff le_max_iff_disj)
  have "rc_requires_approval (classify a) \<longleftrightarrow> Risk_High \<le> fst (label_risk (ua_context_label a) (data_risk (ua_data a)
      (action_risk (ua_action a) (target_risk (ua_target a) (Risk_Low, [])))))"
    by (simp add: classify_def case_prod_beta)
  then show ?thesis by (auto simp: t k d l low)
qed

text \<open>Admission asks for exactly the configured ceremonies of high-risk tasks.\<close>

lemma admit_task_blocks:
  "blocks_execution (admit_task description amb c) \<longleftrightarrow>
     amb \<noteq> None \<or> is_high_risk c description
       \<and> (cc_require_plan_for_high_risk c \<or> cc_require_visual_review_for_high_risk c)"
  by (auto simp: blocks_execution_def admit_task_def Let_def split: option.splits bool.splits)

text \<open>A headless question never blocks: it is refused or handed back at once.\<close>

lemma ask_never_waits: "ask q s = Inr r \<Longrightarrow> r = NeedsInput (sq_question_id q)"
  by (cases "question_validate q") (auto simp: ask_def split: ask_surface.splits)

end
