(* ===== verification/Compaction.thy ===== *)
theory Compaction
  imports Ordered_Map Rust_Text
begin

text \<open>
  Compaction of the model-visible conversation: context epochs, manifests and the stale guard
  (\<^verbatim>\<open>crates/compaction/src/lib.rs\<close>), the planner of the hot path (\<^verbatim>\<open>crates/compaction/src/hot_path.rs\<close>) and the
  loop of the agent that applies a plan (\<^verbatim>\<open>crates/core-runtime/src/one_agent.rs\<close>, with the messages of
  \<^verbatim>\<open>crates/providers/src/gateway.rs\<close>). SHA-256 is a parameter. Characters are UTF-8 sequences of the bytes of a
  string; token counts are natural numbers.
\<close>

section \<open>Characters\<close>

text \<open>\<open>str::chars\<close>: a leading byte with the continuation bytes that follow it.\<close>

function utf8_chars :: "string \<Rightarrow> string list" where
  "utf8_chars [] = []"
| "utf8_chars (c # cs) =
     (c # takeWhile is_continuation cs) # utf8_chars (dropWhile is_continuation cs)"
  by pat_completeness auto
termination by (relation "measure length") (auto simp: le_imp_less_Suc length_dropWhile_le)

definition char_count :: "string \<Rightarrow> nat" where
  "char_count s = length (utf8_chars s)"

section \<open>Epochs\<close>

record context_epoch =
  ce_epoch_id :: string
  ce_base_revision :: nat
  ce_parent_epoch :: "string option"
  ce_projection_digest :: string
  ce_superseded_by :: "string option"

datatype epoch_error = Invalidated string string | UnknownEpoch string

fun show_epoch_error :: "epoch_error \<Rightarrow> string" where
  "show_epoch_error (Invalidated i reason) = ''epoch '' @ i @ '' invalidated: '' @ reason"
| "show_epoch_error (UnknownEpoch i) = ''unknown epoch '' @ debug_str i"

type_synonym epoch_registry = "context_epoch list"

definition new_epoch :: "(string \<Rightarrow> string) \<Rightarrow> nat \<Rightarrow> string option \<Rightarrow> string \<Rightarrow> context_epoch" where
  "new_epoch sha256_hex base parent projection =
     \<lparr>ce_epoch_id = ''epoch-'' @ take 12 (sha256_hex projection), ce_base_revision = base, ce_parent_epoch = parent,
      ce_projection_digest = sha256_hex projection, ce_superseded_by = None\<rparr>"

definition epoch_create :: "(string \<Rightarrow> string) \<Rightarrow> nat \<Rightarrow> string \<Rightarrow> epoch_registry \<Rightarrow> context_epoch \<times> epoch_registry" where
  "epoch_create sha256_hex base projection reg =
     (let e = new_epoch sha256_hex base None projection in (e, reg @ [e]))"

definition require_live :: "string \<Rightarrow> epoch_registry \<Rightarrow> (epoch_error, unit) result" where
  "require_live i reg =
     (case find (\<lambda>e. ce_epoch_id e = i) reg of
        None \<Rightarrow> Inl (UnknownEpoch i)
      | Some e \<Rightarrow> (case ce_superseded_by e of Some by \<Rightarrow> Inl (Invalidated i by) | None \<Rightarrow> Inr ()))"

definition epoch_compact ::
  "(string \<Rightarrow> string) \<Rightarrow> string \<Rightarrow> nat \<Rightarrow> string \<Rightarrow> epoch_registry \<Rightarrow> (epoch_error, context_epoch) result \<times> epoch_registry" where
  "epoch_compact sha256_hex parent base projection reg =
     (case require_live parent reg of
        Inl e \<Rightarrow> (Inl e, reg)
      | Inr _ \<Rightarrow> let e = new_epoch sha256_hex base (Some parent) projection in (Inr e, reg @ [e]))"

fun fork_or_revert :: "nat \<Rightarrow> string \<Rightarrow> epoch_registry \<Rightarrow> string list \<times> epoch_registry" where
  "fork_or_revert rev_no cause [] = ([], [])"
| "fork_or_revert rev_no cause (e # reg) =
     (case fork_or_revert rev_no cause reg of
        (ids, reg') \<Rightarrow>
          if ce_superseded_by e = None \<and> rev_no < ce_base_revision e
          then (ce_epoch_id e # ids, e\<lparr>ce_superseded_by := Some cause\<rparr> # reg')
          else (ids, e # reg'))"

definition epoch_apply :: "string \<Rightarrow> epoch_registry \<Rightarrow> (epoch_error, context_epoch) result" where
  "epoch_apply i reg =
     and_then (require_live i reg) (\<lambda>_.
       case find (\<lambda>e. ce_epoch_id e = i) reg of Some e \<Rightarrow> Inr e | None \<Rightarrow> Inl (UnknownEpoch i))"

section \<open>Manifests\<close>

datatype tier = Hot | Warm | Cold

datatype label = Instruction | Decision | Approval_Label | Fact | ResourceRef

record preserved_item =
  pi_label :: label
  pi_text :: string
  pi_tier :: tier

record compaction_manifest =
  mf_source_head :: nat
  mf_preserved :: "preserved_item list"
  mf_compressed_projection :: string
  mf_cold_refs :: "string list"

definition warm_line :: "string \<Rightarrow> string" where
  "warm_line txt = ''['' @ concat (take 40 (utf8_chars txt)) @ '']''"

fun manifest_loop ::
  "nat \<Rightarrow> (label option \<times> string) list \<Rightarrow> preserved_item list \<times> string list \<times> string list \<Rightarrow>
   preserved_item list \<times> string list \<times> string list" where
  "manifest_loop index [] acc = acc"
| "manifest_loop index ((l, txt) # items) (preserved, warm, cold) =
     manifest_loop (index + 1) items
       (case l of
          Some Fact \<Rightarrow> (preserved @ [\<lparr>pi_label = Fact, pi_text = txt, pi_tier = Warm\<rparr>], warm, cold)
        | Some ResourceRef \<Rightarrow>
            (let i = ''cold-'' @ show_nat index
             in (preserved @ [\<lparr>pi_label = ResourceRef, pi_text = i, pi_tier = Cold\<rparr>], warm @ [warm_line txt], cold @ [i]))
        | None \<Rightarrow> (preserved, warm @ [warm_line txt], cold @ [''cold-'' @ show_nat index])
        | Some k \<Rightarrow> (preserved @ [\<lparr>pi_label = k, pi_text = txt, pi_tier = Hot\<rparr>], warm, cold))"

definition manifest_build :: "nat \<Rightarrow> (label option \<times> string) list \<Rightarrow> compaction_manifest" where
  "manifest_build source_head items =
     (case manifest_loop 0 items ([], [], []) of
        (preserved, warm, cold) \<Rightarrow>
          \<lparr>mf_source_head = source_head, mf_preserved = preserved,
           mf_compressed_projection = ''compact head='' @ show_nat source_head @ '' items='' @ show_nat (length items)
             @ [CHR 0x0A] @ str_join [CHR 0x0A] warm,
           mf_cold_refs = cold\<rparr>)"

datatype apply_error = StaleCompaction nat nat

fun show_apply_error :: "apply_error \<Rightarrow> string" where
  "show_apply_error (StaleCompaction computed current) =
     ''stale compaction: computed at head '' @ show_nat computed @ '', current head '' @ show_nat current"

definition apply_compaction :: "compaction_manifest \<Rightarrow> nat \<Rightarrow> nat \<Rightarrow> (apply_error, compaction_manifest) result" where
  "apply_compaction m computed current = (if computed < current then Inl (StaleCompaction computed current) else Inr m)"

section \<open>The planner\<close>

datatype item_kind = UserTurn | AssistantText | AssistantToolCalls | ToolResult

record conversation_item =
  ci_kind :: item_kind
  ci_text :: string

definition estimate_tokens :: "string \<Rightarrow> nat" where
  "estimate_tokens txt = (char_count txt + 3) div 4"

definition item_tokens :: "conversation_item \<Rightarrow> nat" where
  "item_tokens i = estimate_tokens (ci_text i)"

datatype compaction_action =
  TruncateToolResult nat string
| SummarizeBlock nat nat string

record compaction_plan =
  cp_actions :: "compaction_action list"
  cp_projected_tokens :: nat
  cp_manifest :: compaction_manifest

definition TRUNCATE_KEEP_HEAD :: nat where "TRUNCATE_KEEP_HEAD = 96"

definition TRUNCATE_KEEP_TAIL :: nat where "TRUNCATE_KEEP_TAIL = 64"

definition truncated_replacement :: "string \<Rightarrow> string" where
  "truncated_replacement original =
     (let chars = utf8_chars original
      in if length chars \<le> TRUNCATE_KEEP_HEAD + TRUNCATE_KEEP_TAIL then original
         else concat (take TRUNCATE_KEEP_HEAD chars) @ [CHR 0x0A, CHR 0xE2, CHR 0x80, CHR 0xA6] @ ''[compacted: ~''
              @ show_nat (length chars - TRUNCATE_KEEP_HEAD - TRUNCATE_KEEP_TAIL) @ '' characters omitted]'' @ [CHR 0x0A]
              @ concat (drop (length chars - TRUNCATE_KEEP_TAIL) chars))"

text \<open>The loop of \<open>recent_block_start\<close> over the items from the last to the first, with their indices.\<close>

fun recent_loop :: "nat \<Rightarrow> nat \<Rightarrow> (nat \<times> conversation_item) list \<Rightarrow> nat" where
  "recent_loop n start [] = start"
| "recent_loop n start ((index, item) # rest) =
     (case ci_kind item of
        ToolResult \<Rightarrow> recent_loop n start rest
      | AssistantToolCalls \<Rightarrow> index
      | _ \<Rightarrow> if start < n then start else recent_loop n start rest)"

definition recent_block_start :: "conversation_item list \<Rightarrow> nat" where
  "recent_block_start items = recent_loop (length items) (length items) (rev (enumerate 0 items))"

definition head_line :: "string \<Rightarrow> string" where
  "head_line txt =
     str_trim (case find (\<lambda>l. str_trim l \<noteq> []) (str_lines txt) of None \<Rightarrow> [] | Some l \<Rightarrow> l)"

record plan_state =
  ps_residual :: "nat list"
  ps_actions :: "compaction_action list"
  ps_summarized :: "(label option \<times> string) list"
  ps_removed :: "(nat \<times> nat) list"

definition in_removed :: "(nat \<times> nat) list \<Rightarrow> nat \<Rightarrow> bool" where
  "in_removed removed index = list_ex (\<lambda>(s, e). s \<le> index \<and> index < e) removed"

text \<open>Stages 1 and 3: the loop over a range of indices that truncates tool results.\<close>

fun truncate_results ::
  "conversation_item list \<Rightarrow> nat \<Rightarrow> (nat \<Rightarrow> bool) \<Rightarrow> nat list \<Rightarrow> plan_state \<Rightarrow> plan_state" where
  "truncate_results items budget skip [] st = st"
| "truncate_results items budget skip (i # idx) st =
     (if sum_list (ps_residual st) \<le> budget then st
      else if ci_kind (items ! i) \<noteq> ToolResult \<or> skip i \<or> in_removed (ps_removed st) i
      then truncate_results items budget skip idx st
      else let replacement = truncated_replacement (ci_text (items ! i));
               after = estimate_tokens replacement
           in if ps_residual st ! i \<le> after then truncate_results items budget skip idx st
              else truncate_results items budget skip idx
                (st\<lparr>ps_residual := (ps_residual st)[i := after],
                    ps_actions := ps_actions st @ [TruncateToolResult i replacement],
                    ps_summarized := ps_summarized st @
                      [(None, ''tool result truncated: '' @ head_line (ci_text (items ! i)))]\<rparr>))"

text \<open>The end of the block that starts at an index: past its trailing tool results.\<close>

definition block_end :: "conversation_item list \<Rightarrow> nat \<Rightarrow> nat" where
  "block_end items i = i + 1 + length (takeWhile (\<lambda>x. ci_kind x = ToolResult) (drop (i + 1) items))"

definition block_items :: "conversation_item list \<Rightarrow> nat \<Rightarrow> conversation_item list" where
  "block_items items i = take (block_end items i - i) (drop i items)"

definition block_replacement :: "conversation_item list \<Rightarrow> nat \<Rightarrow> nat \<Rightarrow> string" where
  "block_replacement items i block_tokens =
     ''[context epoch] '' @ show_nat 1 @ '' tool-call block(s) compacted ('' @ show_nat block_tokens
     @ '' estimated tokens): ''
     @ mf_compressed_projection (manifest_build (length (block_items items i))
         (map (\<lambda>x. (None, head_line (ci_text x))) (block_items items i)))"

text \<open>Stage 2: summarises whole blocks, oldest first.\<close>

function summarize_blocks ::
  "conversation_item list \<Rightarrow> nat \<Rightarrow> nat \<Rightarrow> nat \<Rightarrow> plan_state \<Rightarrow> plan_state" where
  "summarize_blocks items budget recent i st =
     (if sum_list (ps_residual st) \<le> budget \<or> length items \<le> i then st
      else if ci_kind (items ! i) \<noteq> AssistantToolCalls \<or> in_removed (ps_removed st) i \<or> recent \<le> i
      then summarize_blocks items budget recent (i + 1) st
      else let e = block_end items i
           in if recent < e then st
              else let block_tokens = sum_list (take (e - i) (drop i (ps_residual st)));
                       replacement = block_replacement items i block_tokens;
                       replacement_tokens = estimate_tokens replacement
                   in if block_tokens \<le> replacement_tokens then summarize_blocks items budget recent e st
                      else summarize_blocks items budget recent e
                        (st\<lparr>ps_residual := take i (ps_residual st) @ [replacement_tokens]
                              @ replicate (e - i - 1) 0 @ drop e (ps_residual st),
                            ps_summarized := ps_summarized st @ map (\<lambda>x. (None, head_line (ci_text x))) (block_items items i),
                            ps_actions := ps_actions st @ [SummarizeBlock i e replacement],
                            ps_removed := ps_removed st @ [(i, e)]\<rparr>))"
  by pat_completeness auto
termination by (relation "measure (\<lambda>(items, budget, recent, i, st). length items - i)") (auto simp: block_end_def)

declare summarize_blocks.simps [simp del]

definition plan_start :: "conversation_item list \<Rightarrow> plan_state" where
  "plan_start items = \<lparr>ps_residual = map item_tokens items, ps_actions = [], ps_summarized = [], ps_removed = []\<rparr>"

definition plan_stages :: "conversation_item list \<Rightarrow> nat \<Rightarrow> plan_state" where
  "plan_stages items budget =
     (let recent = recent_block_start items;
          s1 = truncate_results items budget (\<lambda>i. recent \<le> i) [0..<length items] (plan_start items);
          s2 = summarize_blocks items budget recent 1 s1
      in truncate_results items budget (\<lambda>_. False) [recent..<length items] s2)"

definition plan_compaction :: "conversation_item list \<Rightarrow> nat \<Rightarrow> compaction_plan option" where
  "plan_compaction items budget =
     (let total = sum_list (map item_tokens items)
      in if total \<le> budget then None
         else let st = plan_stages items budget
              in if ps_actions st = [] then None
                 else Some \<lparr>cp_actions = ps_actions st, cp_projected_tokens = sum_list (ps_residual st),
                            cp_manifest = manifest_build total (ps_summarized st)\<rparr>)"

section \<open>Applying a plan\<close>

datatype role = Role_User | Role_Assistant | Role_Tool

record tool_call_data =
  td_call_id :: string
  td_name :: string
  td_arguments :: string

record chat_message =
  ch_role :: role
  ch_content :: string
  ch_tool_calls :: "tool_call_data list"
  ch_tool_call_id :: "string option"
  ch_is_error :: bool

definition user_message :: "string \<Rightarrow> chat_message" where
  "user_message c = \<lparr>ch_role = Role_User, ch_content = c, ch_tool_calls = [], ch_tool_call_id = None, ch_is_error = False\<rparr>"

definition text_message :: "role \<Rightarrow> string \<Rightarrow> chat_message" where
  "text_message r c = \<lparr>ch_role = r, ch_content = c, ch_tool_calls = [], ch_tool_call_id = None, ch_is_error = False\<rparr>"

definition assistant_with_tool_calls :: "string \<Rightarrow> tool_call_data list \<Rightarrow> chat_message" where
  "assistant_with_tool_calls c calls =
     \<lparr>ch_role = Role_Assistant, ch_content = c, ch_tool_calls = calls, ch_tool_call_id = None, ch_is_error = False\<rparr>"

definition tool_result :: "string \<Rightarrow> string \<Rightarrow> bool \<Rightarrow> chat_message" where
  "tool_result call_id c is_error =
     \<lparr>ch_role = Role_Tool, ch_content = c, ch_tool_calls = [], ch_tool_call_id = Some call_id, ch_is_error = is_error\<rparr>"

definition item_of :: "chat_message \<Rightarrow> conversation_item" where
  "item_of m =
     \<lparr>ci_kind = (case ch_role m of
                  Role_User \<Rightarrow> UserTurn
                | Role_Assistant \<Rightarrow> if ch_tool_calls m = [] then AssistantText else AssistantToolCalls
                | Role_Tool \<Rightarrow> ToolResult),
      ci_text = ch_content m\<rparr>"

definition apply_action :: "compaction_action \<Rightarrow> chat_message list \<Rightarrow> chat_message list" where
  "apply_action a conv =
     (case a of
        TruncateToolResult i replacement \<Rightarrow>
          if i < length conv \<and> ch_role (conv ! i) = Role_Tool then conv[i := (conv ! i)\<lparr>ch_content := replacement\<rparr>] else conv
      | SummarizeBlock s e replacement \<Rightarrow>
          if s < e \<and> e \<le> length conv then take s conv @ [user_message replacement] @ drop e conv else conv)"

definition apply_plan :: "compaction_action list \<Rightarrow> chat_message list \<Rightarrow> chat_message list" where
  "apply_plan actions conv = foldl (\<lambda>c a. apply_action a c) conv (rev actions)"

section \<open>What a plan does\<close>

text \<open>The tokens an item costs after an action that is applied where the planner saw it.\<close>

fun cost_step :: "nat \<Rightarrow> nat \<Rightarrow> compaction_action \<Rightarrow> nat" where
  "cost_step i c (TruncateToolResult j r) = (if j = i then estimate_tokens r else c)"
| "cost_step i c (SummarizeBlock s e r) = (if i = s then estimate_tokens r else if s < i \<and> i < e then 0 else c)"

definition planned_cost :: "conversation_item list \<Rightarrow> compaction_action list \<Rightarrow> nat \<Rightarrow> nat" where
  "planned_cost items acts i = foldl (cost_step i) (item_tokens (items ! i)) acts"

fun action_ok :: "conversation_item list \<Rightarrow> compaction_action \<Rightarrow> bool" where
  "action_ok items (TruncateToolResult i r) =
     (i < length items \<and> ci_kind (items ! i) = ToolResult \<and> r = truncated_replacement (ci_text (items ! i)))"
| "action_ok items (SummarizeBlock s e r) =
     (0 < s \<and> s < e \<and> e = block_end items s \<and> e \<le> recent_block_start items \<and> ci_kind (items ! s) = AssistantToolCalls)"

definition plan_ok :: "conversation_item list \<Rightarrow> plan_state \<Rightarrow> bool" where
  "plan_ok items st =
     (ps_residual st = map (planned_cost items (ps_actions st)) [0..<length items]
      \<and> sum_list (ps_residual st) + length (ps_actions st) \<le> sum_list (map item_tokens items)
      \<and> list_all (action_ok items) (ps_actions st))"

lemma plan_start_ok: "plan_ok items (plan_start items)"
proof -
  have "map item_tokens items = map (planned_cost items []) [0..<length items]"
    by (intro nth_equalityI) (simp_all add: planned_cost_def)
  then show ?thesis by (simp add: plan_ok_def plan_start_def)
qed

text \<open>Adding an action that lowers the residual sum.\<close>

lemma plan_ok_extend:
  assumes "plan_ok items st" and "ps_actions st' = ps_actions st @ [a]" and "action_ok items a"
    and "ps_residual st' = map (planned_cost items (ps_actions st @ [a])) [0..<length items]"
    and "Suc (sum_list (ps_residual st')) \<le> sum_list (ps_residual st)"
  shows "plan_ok items st'"
proof -
  have "sum_list (ps_residual st) + length (ps_actions st) \<le> sum_list (map item_tokens items)"
    using assms(1) unfolding plan_ok_def by blast
  then have "sum_list (ps_residual st') + length (ps_actions st') \<le> sum_list (map item_tokens items)"
    using assms(2,5) by simp
  moreover have "ps_residual st' = map (planned_cost items (ps_actions st')) [0..<length items]"
    using assms(2,4) by simp
  moreover have "list_all (action_ok items) (ps_actions st')"
    using assms(1-3) by (simp add: plan_ok_def list_all_iff)
  ultimately show ?thesis unfolding plan_ok_def by blast
qed

lemma sum_list_update_less:
  "i < length xs \<Longrightarrow> x < xs ! i \<Longrightarrow> Suc (sum_list (xs[i := x])) \<le> sum_list (xs :: nat list)"
  using sum_list_update [of i xs x] elem_le_sum_list [of i xs] by simp

lemma truncate_results_ok:
  "plan_ok items st \<Longrightarrow> \<forall>i \<in> set idx. i < length items \<Longrightarrow> plan_ok items (truncate_results items budget skip idx st)"
proof (induction items budget skip idx st rule: truncate_results.induct)
  case (2 items budget skip i idx st)
  let ?r = "truncated_replacement (ci_text (items ! i))"
  let ?st = "st\<lparr>ps_residual := (ps_residual st)[i := estimate_tokens ?r],
                 ps_actions := ps_actions st @ [TruncateToolResult i ?r],
                 ps_summarized := ps_summarized st @
                   [(None, ''tool result truncated: '' @ head_line (ci_text (items ! i)))]\<rparr>"
  have len: "length (ps_residual st) = length items" using "2.prems"(1) by (simp add: plan_ok_def)
  have step: "plan_ok items ?st" if "ci_kind (items ! i) = ToolResult" "estimate_tokens ?r < ps_residual st ! i"
  proof -
    have "(ps_residual st)[i := estimate_tokens ?r] =
        map (planned_cost items (ps_actions st @ [TruncateToolResult i ?r])) [0..<length items]"
      using "2.prems" by (intro nth_equalityI) (auto simp: plan_ok_def planned_cost_def nth_list_update)
    then show ?thesis
      using "2.prems" that len sum_list_update_less [of i "ps_residual st" "estimate_tokens ?r"]
      by (intro plan_ok_extend [OF "2.prems"(1)]) auto
  qed
  show ?case
    using "2.IH" "2.prems" step by (auto simp: Let_def)
qed simp

lemma block_end_bounds: "i < length items \<Longrightarrow> i < block_end items i \<and> block_end items i \<le> length items"
  using length_takeWhile_le [of "\<lambda>x. ci_kind x = ToolResult" "drop (i + 1) items"] by (simp add: block_end_def)

lemma sum_list_block:
  "i < e \<Longrightarrow> e \<le> length xs \<Longrightarrow> t < sum_list (take (e - i) (drop i xs)) \<Longrightarrow>
     Suc (sum_list (take i xs @ [t] @ replicate (e - i - 1) 0 @ drop e xs)) \<le> sum_list (xs :: nat list)"
proof -
  assume a: "i < e" "e \<le> length xs" "t < sum_list (take (e - i) (drop i xs))"
  have "xs = take i xs @ take (e - i) (drop i xs) @ drop e xs"
    using a by (metis append_take_drop_id drop_drop le_add_diff_inverse2 less_imp_le_nat)
  then have "sum_list xs = sum_list (take i xs) + sum_list (take (e - i) (drop i xs)) + sum_list (drop e xs)"
    by (metis add.assoc sum_list_append)
  then show ?thesis using a(3) by (simp add: sum_list_replicate)
qed

lemma summarize_step_ok:
  assumes "plan_ok items st" and "0 < i" and "i < length items" and "ci_kind (items ! i) = AssistantToolCalls"
    and "block_end items i \<le> recent_block_start items"
    and "estimate_tokens r < sum_list (take (block_end items i - i) (drop i (ps_residual st)))"
  shows "plan_ok items (st\<lparr>ps_residual := take i (ps_residual st) @ [estimate_tokens r]
                              @ replicate (block_end items i - i - 1) 0 @ drop (block_end items i) (ps_residual st),
                            ps_summarized := z,
                            ps_actions := ps_actions st @ [SummarizeBlock i (block_end items i) r],
                            ps_removed := y\<rparr>)"
proof -
  let ?e = "block_end items i"
  have len: "length (ps_residual st) = length items" using assms(1) by (simp add: plan_ok_def)
  have e: "i < ?e" "?e \<le> length items" using block_end_bounds [OF assms(3)] by auto
  have "take i (ps_residual st) @ [estimate_tokens r] @ replicate (?e - i - 1) 0 @ drop ?e (ps_residual st)
      = map (planned_cost items (ps_actions st @ [SummarizeBlock i ?e r])) [0..<length items]"
  proof (rule nth_equalityI)
    show "length (take i (ps_residual st) @ [estimate_tokens r] @ replicate (?e - i - 1) 0 @ drop ?e (ps_residual st))
        = length (map (planned_cost items (ps_actions st @ [SummarizeBlock i ?e r])) [0..<length items])"
      using e len by simp
  next
    fix j assume "j < length (take i (ps_residual st) @ [estimate_tokens r] @ replicate (?e - i - 1) 0 @ drop ?e (ps_residual st))"
    then have j: "j < length items" using e len by simp
    have res: "ps_residual st ! j = planned_cost items (ps_actions st) j"
      using assms(1) j by (simp add: plan_ok_def)
    consider "j < i" | "j = i" | "i < j" "j < ?e" | "?e \<le> j" by linarith
    then show "(take i (ps_residual st) @ [estimate_tokens r] @ replicate (?e - i - 1) 0 @ drop ?e (ps_residual st)) ! j
        = map (planned_cost items (ps_actions st @ [SummarizeBlock i ?e r])) [0..<length items] ! j"
      by cases (use e len j res in \<open>auto simp: nth_append planned_cost_def nth_Cons'\<close>)
  qed
  then show ?thesis
    using assms len e sum_list_block [of i ?e "ps_residual st" "estimate_tokens r"]
    by (intro plan_ok_extend [OF assms(1)]) auto
qed

lemma summarize_blocks_ok:
  "plan_ok items st \<Longrightarrow> 0 < i \<Longrightarrow> plan_ok items (summarize_blocks items budget (recent_block_start items) i st)"
proof (induction "length items - i" arbitrary: i st rule: less_induct)
  case less
  let ?e = "block_end items i"
  let ?recent = "recent_block_start items"
  show ?case
  proof (cases "sum_list (ps_residual st) \<le> budget \<or> length items \<le> i")
    case True
    then show ?thesis using less.prems by (simp add: summarize_blocks.simps)
  next
    case False
    then have i: "i < length items" by simp
    have e: "i < ?e" "length items - ?e < length items - i" using block_end_bounds [OF i] i by auto
    have next_item: "plan_ok items (summarize_blocks items budget ?recent (i + 1) st)"
      using less.hyps [of "i + 1" st] less.prems i by simp
    have next_block: "plan_ok items st' \<Longrightarrow> plan_ok items (summarize_blocks items budget ?recent ?e st')" for st'
      using less.hyps [OF e(2)] e(1) by simp
    show ?thesis
    proof (cases "ci_kind (items ! i) \<noteq> AssistantToolCalls \<or> in_removed (ps_removed st) i \<or> ?recent \<le> i \<or> ?recent < ?e")
      case True
      then show ?thesis
        using False next_item less.prems by (subst summarize_blocks.simps) (auto simp: Let_def)
    next
      case block: False
      then show ?thesis
        using False next_block [OF less.prems(1)] next_block [OF summarize_step_ok [OF less.prems i]]
        by (subst summarize_blocks.simps) (auto simp: Let_def not_le not_less)
    qed
  qed
qed

lemma recent_loop_bound: "\<forall>(i, x) \<in> set ps. i < n \<Longrightarrow> start \<le> n \<Longrightarrow> recent_loop n start ps \<le> n"
  by (induction n start ps rule: recent_loop.induct) (auto split: item_kind.splits)

lemma recent_bound: "recent_block_start items \<le> length items"
  unfolding recent_block_start_def by (rule recent_loop_bound) (auto simp: in_set_enumerate_eq)

lemma plan_stages_ok: "plan_ok items (plan_stages items budget)"
  unfolding plan_stages_def Let_def
  by (intro truncate_results_ok summarize_blocks_ok plan_start_ok) auto

text \<open>A compaction plan does what it reports: its projection is exactly the tokens of the conversation with every
  action applied to the items the planner saw, it is smaller than before, it truncates only tool
  results, and it summarises only whole tool-call blocks before the recent one, never the first prompt.\<close>

lemma compaction_plan_is_exact:
  assumes "plan_compaction items budget = Some p"
  shows "cp_projected_tokens p = (\<Sum>i \<leftarrow> [0..<length items]. planned_cost items (cp_actions p) i)
    \<and> cp_projected_tokens p + length (cp_actions p) \<le> sum_list (map item_tokens items)
    \<and> cp_actions p \<noteq> [] \<and> list_all (action_ok items) (cp_actions p)"
  using assms plan_stages_ok [of items budget]
  by (auto simp: plan_compaction_def plan_ok_def Let_def split: if_splits)

definition sample_items :: "conversation_item list" where
  "sample_items = [\<lparr>ci_kind = UserTurn, ci_text = ''go''\<rparr>, \<lparr>ci_kind = AssistantToolCalls, ci_text = []\<rparr>,
                   \<lparr>ci_kind = ToolResult, ci_text = replicate 208 CHR ''b''\<rparr>]"

lemma compaction_plan_is_exact_witness:
  "\<exists>p. plan_compaction sample_items 52 = Some p
     \<and> cp_projected_tokens p = (\<Sum>i \<leftarrow> [0..<length sample_items]. planned_cost sample_items (cp_actions p) i)
     \<and> cp_projected_tokens p + length (cp_actions p) \<le> sum_list (map item_tokens sample_items)
     \<and> cp_actions p \<noteq> [] \<and> list_all (action_ok sample_items) (cp_actions p)"
proof -
  have "(case plan_compaction sample_items 52 of None \<Rightarrow> False | Some p \<Rightarrow> True)" by code_simp
  then obtain p where "plan_compaction sample_items 52 = Some p" by (auto split: option.splits)
  then show ?thesis using compaction_plan_is_exact [of sample_items 52 p] by blast
qed

section \<open>Where an applied plan goes wrong\<close>

text \<open>
  The actions of a plan carry the indices of the conversation the planner saw, truncations first. The agent applies
  them from the last to the first, so a block is spliced out before a truncation behind it is applied, and
  the truncation lands on the message that moved to its index.
\<close>

lemma truncation_after_splice_is_shifted:
  assumes "s < e" and "e \<le> i" and "i + (e - s - 1) < length conv" and "ch_role (conv ! (i + (e - s - 1))) = Role_Tool"
  shows "apply_plan [TruncateToolResult i r, SummarizeBlock s e q] conv ! i =
    (conv ! (i + (e - s - 1)))\<lparr>ch_content := r\<rparr>"
proof -
  have "(take s conv @ user_message q # drop e conv) ! i = conv ! (i + (e - s - 1))"
    using assms by (simp add: nth_append nth_Cons' min_def add.commute)
  then show ?thesis
    using assms by (auto simp: apply_plan_def apply_action_def min_def)
qed

definition sample_calls :: "string list \<Rightarrow> chat_message" where
  "sample_calls ids =
     assistant_with_tool_calls [] (map (\<lambda>i. \<lparr>td_call_id = i, td_name = ''run'', td_arguments = ''{}''\<rparr>) ids)"

definition long_output :: "nat \<Rightarrow> string" where
  "long_output n = CHR ''x'' # CHR 0x0A # replicate n CHR ''y''"

definition sample_conversation :: "chat_message list" where
  "sample_conversation =
     [user_message ''go'', sample_calls [''a''], tool_result ''a'' (long_output 110) False,
      sample_calls [''b'', ''c''], tool_result ''b'' (long_output 206) False, tool_result ''c'' ''ok'' False,
      sample_calls [''d''], tool_result ''d'' ''ok'' False]"

text \<open>A plan of the planner, applied by the agent, replaces the answer of one tool call by the truncated
  answer of another: of calls \<open>b\<close> and \<open>c\<close>, whose block is kept, \<open>b\<close> stays long and \<open>c\<close>, which answered \<open>ok\<close>, is given
  the text of \<open>b\<close>.\<close>

lemma compaction_misplaces_results:
  "map_option (\<lambda>p. (map ((!) (apply_plan (cp_actions p) sample_conversation)) [3, 4]))
     (plan_compaction (map item_of sample_conversation) 80) =
   Some [tool_result ''b'' (long_output 206) False, tool_result ''c'' (truncated_replacement (long_output 206)) False]"
  by code_simp

end
