(* ===== verification/Fallible.thy ===== *)
theory Fallible
  imports Prelude
begin

text \<open>
  Operations that change a state and may fail: the sequencing of \<open>?\<close>, the conversion of errors, and what an operation keeps
  of an invariant together with what it promises of its result.
\<close>

text \<open>A fallible operation on a state, and \<open>?\<close> after it.\<close>

type_synonym ('s, 'e, 'a) act = "'s \<Rightarrow> ('e, 'a) result \<times> 's"

definition act_return :: "'a \<Rightarrow> ('s, 'e, 'a) act" where
  "act_return x s = (Inr x, s)"

definition act_fail :: "'e \<Rightarrow> ('s, 'e, 'a) act" where
  "act_fail e s = (Inl e, s)"

definition act_then :: "('s, 'e, 'a) act \<Rightarrow> ('a \<Rightarrow> ('s, 'e, 'b) act) \<Rightarrow> ('s, 'e, 'b) act" where
  "act_then m f s = (case m s of (Inl e, s') \<Rightarrow> (Inl e, s') | (Inr x, s') \<Rightarrow> f x s')"

definition act_map :: "('a \<Rightarrow> 'b) \<Rightarrow> ('s, 'e, 'a) act \<Rightarrow> ('s, 'e, 'b) act" where
  "act_map f m = act_then m (\<lambda>x. act_return (f x))"

lemma act_then_cases:
  "act_then m f s = (r, s') \<longleftrightarrow>
     (\<exists>e. m s = (Inl e, s') \<and> r = Inl e) \<or> (\<exists>x s1. m s = (Inr x, s1) \<and> f x s1 = (r, s'))"
  by (auto simp: act_then_def split: prod.splits sum.splits)

lemma act_then_simps [simp]:
  "m s = (Inl e, s') \<Longrightarrow> act_then m f s = (Inl e, s')"
  "m s = (Inr x, s') \<Longrightarrow> act_then m f s = f x s'"
  by (simp_all add: act_then_def)

definition act_err :: "('e \<Rightarrow> 'f) \<Rightarrow> ('s, 'e, 'a) act \<Rightarrow> ('s, 'f, 'a) act" where
  "act_err f m s = (case m s of (r, s') \<Rightarrow> (map_err f r, s'))"

section \<open>Invariants of operations\<close>

text \<open>An operation that keeps an invariant of the state and gives results with a property.\<close>

definition ensures :: "('s \<Rightarrow> bool) \<Rightarrow> ('s, 'e, 'a) act \<Rightarrow> ('a \<Rightarrow> bool) \<Rightarrow> bool" where
  "ensures P m R \<longleftrightarrow> (\<forall>s. P s \<longrightarrow> P (snd (m s)) \<and> (\<forall>x. fst (m s) = Inr x \<longrightarrow> R x))"

lemma ensures_then [intro]:
  "ensures P m R \<Longrightarrow> (\<And>x. R x \<Longrightarrow> ensures P (f x) S) \<Longrightarrow> ensures P (act_then m f) S"
  by (fastforce simp: ensures_def act_then_def split: prod.splits sum.splits)

lemma ensures_return [intro]: "R x \<Longrightarrow> ensures P (act_return x) R"
  by (simp add: ensures_def act_return_def)

lemma ensures_fail [intro]: "ensures P (act_fail e) R"
  by (simp add: ensures_def act_fail_def)

lemma ensures_if [intro]: "(b \<Longrightarrow> ensures P m R) \<Longrightarrow> (\<not> b \<Longrightarrow> ensures P n R) \<Longrightarrow> ensures P (if b then m else n) R"
  by simp

lemma ensures_err: "ensures P m R \<Longrightarrow> ensures P (act_err f m) R"
  by (auto simp: ensures_def act_err_def split: prod.splits)

end
