(* ===== verification/Git_Repo.thy ===== *)
theory Git_Repo
  imports Rust_Text Fallible
begin

text \<open>
  The typed wrapper over the git command line (\<^verbatim>\<open>crates/git/src/lib.rs\<close>). Git itself is a parameter: a
  \<open>git_env\<close> runs a command line on a state \<open>'g\<close> of the repository and its work tree. What it prints is
  UTF-8 text. The theory models the arguments the wrapper passes, the order of its calls and how it
  reads the output of git; a slice of a string off a character boundary is a panic.
\<close>

section \<open>Running git\<close>

record proc_out =
  po_success :: bool
  po_stdout :: string
  po_stderr :: string

datatype apply_result = Spawn_Failed string | Stdin_Failed string | Exited proc_out

record 'g git_env =
  ge_run :: "string list \<Rightarrow> 'g \<Rightarrow> (string, proc_out) result \<times> 'g"
  ge_apply :: "string list \<Rightarrow> string \<Rightarrow> 'g \<Rightarrow> apply_result \<times> 'g"

record git_repo =
  gr_root :: string

datatype git_error = Git_Failed string string | Git_Io string

fun show_git_error :: "git_error \<Rightarrow> string" where
  "show_git_error (Git_Failed operation message) = ''git '' @ operation @ '' failed: '' @ message"
| "show_git_error (Git_Io e) = ''git io: '' @ e"

definition git :: "'g git_env \<Rightarrow> git_repo \<Rightarrow> string \<Rightarrow> string list \<Rightarrow> ('g, git_error, proc_out) act" where
  "git G repo operation args g =
     (case ge_run G (''-C'' # gr_root repo # operation # args) g of
        (Inl e, g') \<Rightarrow> (Inl (Git_Io e), g')
      | (Inr out, g') \<Rightarrow>
          (if po_success out then Inr out
           else let stderr = str_trim (po_stderr out);
                    message = (if stderr = [] then str_trim (po_stdout out) else stderr)
                in Inl (Git_Failed (operation @ '' '' @ str_join '' '' args) message), g'))"

definition stdout_text :: "proc_out \<Rightarrow> string" where
  "stdout_text out = str_trim (po_stdout out)"

definition git_text :: "'g git_env \<Rightarrow> git_repo \<Rightarrow> string \<Rightarrow> string list \<Rightarrow> ('g, git_error, string) act" where
  "git_text G repo operation args = act_map stdout_text (git G repo operation args)"

definition git_unit :: "'g git_env \<Rightarrow> git_repo \<Rightarrow> string \<Rightarrow> string list \<Rightarrow> ('g, git_error, unit) act" where
  "git_unit G repo operation args = act_map (\<lambda>_. ()) (git G repo operation args)"

section \<open>Repositories, branches and worktrees\<close>

definition git_init :: "'g git_env \<Rightarrow> (string, unit) result \<Rightarrow> string \<Rightarrow> ('g, git_error, git_repo) act" where
  "git_init G mkdir path g =
     (case mkdir of
        Inl e \<Rightarrow> (Inl (Git_Io e), g)
      | Inr _ \<Rightarrow>
          let repo = \<lparr>gr_root = path\<rparr>
          in case ge_run G [''init'', ''-b'', ''main'', path] g of
               (Inl e, g') \<Rightarrow> (Inl (Git_Io e), g')
             | (Inr out, g') \<Rightarrow>
                 if \<not> po_success out then (Inl (Git_Failed ''init'' (str_trim (po_stderr out))), g')
                 else act_then (git G repo ''config'' [''user.name'', ''modbit-core'']) (\<lambda>_.
                      act_then (git G repo ''config'' [''user.email'', ''core@modbit.local'']) (\<lambda>_.
                      act_return repo)) g')"

definition git_open :: "'g git_env \<Rightarrow> string \<Rightarrow> ('g, git_error, git_repo) act" where
  "git_open G path = act_map (\<lambda>_. \<lparr>gr_root = path\<rparr>) (git G \<lparr>gr_root = path\<rparr> ''rev-parse'' [''--git-dir''])"

definition merge_base :: "'g git_env \<Rightarrow> git_repo \<Rightarrow> string \<Rightarrow> string \<Rightarrow> ('g, git_error, string) act" where
  "merge_base G repo a b = git_text G repo ''merge-base'' [a, b]"

definition set_config :: "'g git_env \<Rightarrow> git_repo \<Rightarrow> string \<Rightarrow> string \<Rightarrow> ('g, git_error, unit) act" where
  "set_config G repo key val = git_unit G repo ''config'' [key, val]"

definition stage_path :: "'g git_env \<Rightarrow> git_repo \<Rightarrow> string \<Rightarrow> ('g, git_error, unit) act" where
  "stage_path G repo path = git_unit G repo ''add'' [''--'', path]"

definition conclude_merge :: "'g git_env \<Rightarrow> git_repo \<Rightarrow> string \<Rightarrow> ('g, git_error, unit) act" where
  "conclude_merge G repo message = git_unit G repo ''commit'' [''-m'', message]"

definition abort_merge_state :: "'g git_env \<Rightarrow> git_repo \<Rightarrow> ('g, git_error, unit) act" where
  "abort_merge_state G repo = git_unit G repo ''merge'' [''--abort'']"

definition reset_hard :: "'g git_env \<Rightarrow> git_repo \<Rightarrow> string \<Rightarrow> ('g, git_error, unit) act" where
  "reset_hard G repo target = git_unit G repo ''reset'' [''--hard'', target]"

definition git_head :: "'g git_env \<Rightarrow> git_repo \<Rightarrow> ('g, git_error, string) act" where
  "git_head G repo = git_text G repo ''rev-parse'' [''HEAD'']"

text \<open>The commit of \<open>commit_all\<close> is tried a second time when the first try fails.\<close>

definition commit_retry :: "'g git_env \<Rightarrow> git_repo \<Rightarrow> string \<Rightarrow> ('g, git_error, proc_out) act" where
  "commit_retry G repo message g =
     (case git G repo ''commit'' [''-m'', message] g of
        (Inr out, g') \<Rightarrow> (Inr out, g')
      | (Inl _, g') \<Rightarrow> git G repo ''commit'' [''-m'', message] g')"

definition commit_all :: "'g git_env \<Rightarrow> git_repo \<Rightarrow> string \<Rightarrow> ('g, git_error, string) act" where
  "commit_all G repo message =
     act_then (git G repo ''add'' [''-A'']) (\<lambda>_.
     act_then (commit_retry G repo message) (\<lambda>_.
     git_text G repo ''rev-parse'' [''HEAD'']))"

definition create_branch :: "'g git_env \<Rightarrow> git_repo \<Rightarrow> string \<Rightarrow> string option \<Rightarrow> ('g, git_error, unit) act" where
  "create_branch G repo name start =
     git_unit G repo ''branch'' (case start of Some s \<Rightarrow> [name, s] | None \<Rightarrow> [name])"

definition checkout :: "'g git_env \<Rightarrow> git_repo \<Rightarrow> string \<Rightarrow> ('g, git_error, unit) act" where
  "checkout G repo name = git_unit G repo ''checkout'' [name]"

definition current_branch :: "'g git_env \<Rightarrow> git_repo \<Rightarrow> ('g, git_error, string) act" where
  "current_branch G repo = git_text G repo ''rev-parse'' [''--abbrev-ref'', ''HEAD'']"

definition default_branch :: "'g git_env \<Rightarrow> git_repo \<Rightarrow> ('g, git_error, string) act" where
  "default_branch = current_branch"

definition worktree_add :: "'g git_env \<Rightarrow> git_repo \<Rightarrow> string \<Rightarrow> string \<Rightarrow> ('g, git_error, git_repo) act" where
  "worktree_add G repo path branch =
     act_map (\<lambda>_. \<lparr>gr_root = path\<rparr>) (git G repo ''worktree'' [''add'', ''-b'', branch, path])"

definition worktree_add_from ::
  "'g git_env \<Rightarrow> git_repo \<Rightarrow> string \<Rightarrow> string \<Rightarrow> string \<Rightarrow> ('g, git_error, git_repo) act" where
  "worktree_add_from G repo path branch start =
     act_map (\<lambda>_. \<lparr>gr_root = path\<rparr>) (git G repo ''worktree'' [''add'', ''-b'', branch, path, start])"

definition worktree_remove :: "'g git_env \<Rightarrow> git_repo \<Rightarrow> string \<Rightarrow> ('g, git_error, unit) act" where
  "worktree_remove G repo path = git_unit G repo ''worktree'' [''remove'', path]"

text \<open>\<open>clone\<close>: whether the target is a directory with an entry is read from the file system.\<close>

definition git_clone :: "'g git_env \<Rightarrow> bool \<Rightarrow> string \<Rightarrow> string \<Rightarrow> ('g, git_error, git_repo) act" where
  "git_clone G target_nonempty url into g =
     (if target_nonempty
      then (Inl (Git_Failed ''clone'' (''target '' @ into @ '' already exists and is not empty'')), g)
      else case ge_run G [''clone'', url, into] g of
             (Inl e, g') \<Rightarrow> (Inl (Git_Io e), g')
           | (Inr out, g') \<Rightarrow>
               (if \<not> po_success out then Inl (Git_Failed (''clone '' @ url) (str_trim (po_stderr out)))
                else Inr \<lparr>gr_root = into\<rparr>, g'))"

section \<open>Merging\<close>

datatype merge_outcome = Merged | Conflict "string list"

definition conflicted_files :: "'g git_env \<Rightarrow> git_repo \<Rightarrow> 'g \<Rightarrow> string list \<times> 'g" where
  "conflicted_files G repo g =
     (case git G repo ''diff'' [''--name-only'', ''--diff-filter=U''] g of
        (Inr out, g') \<Rightarrow> (filter (\<lambda>l. l \<noteq> []) (str_lines (stdout_text out)), g')
      | (Inl _, g') \<Rightarrow> ([], g'))"

definition start_merge :: "'g git_env \<Rightarrow> git_repo \<Rightarrow> string \<Rightarrow> ('g, git_error, merge_outcome) act" where
  "start_merge G repo branch g =
     (case git G repo ''merge'' [''--no-ff'', ''--no-commit'', branch] g of
        (Inr _, g') \<Rightarrow> (Inr Merged, g')
      | (Inl _, g') \<Rightarrow> (case conflicted_files G repo g' of (files, g'') \<Rightarrow> (Inr (Conflict files), g'')))"

definition abort_merge :: "'g git_env \<Rightarrow> git_repo \<Rightarrow> 'g \<Rightarrow> 'g" where
  "abort_merge G repo g = snd (git G repo ''merge'' [''--abort''] g)"

definition git_merge :: "'g git_env \<Rightarrow> git_repo \<Rightarrow> string \<Rightarrow> ('g, git_error, merge_outcome) act" where
  "git_merge G repo branch g =
     (case git G repo ''merge'' [''--no-ff'', ''--no-commit'', branch] g of
        (Inr _, g') \<Rightarrow> act_map (\<lambda>_. Merged) (git G repo ''commit'' [''-m'', ''merge '' @ branch]) g'
      | (Inl _, g') \<Rightarrow>
          (case conflicted_files G repo g' of (files, g'') \<Rightarrow> (Inr (Conflict files), abort_merge G repo g'')))"

section \<open>Reading diffs\<close>

record file_diff =
  fd_path :: string
  fd_additions :: nat
  fd_deletions :: nat

record diff_hunk =
  dh_path :: string
  dh_new_start :: nat
  dh_lines :: "string list"

text \<open>\<open>header.split('+').nth(1)\<close> and the digits that follow.\<close>

definition hunk_new_start :: "string \<Rightarrow> nat option" where
  "hunk_new_start header =
     (case str_split (\<lambda>c. c = CHR ''+'') header of
        _ # tail # _ \<Rightarrow> parse_unsigned 64 (takeWhile is_digit tail)
      | _ \<Rightarrow> None)"

record hunk_reader =
  hr_hunks :: "diff_hunk list"
  hr_path :: string
  hr_new_start :: nat
  hr_lines :: "string list"
  hr_in_hunk :: bool

definition flush_hunk :: "hunk_reader \<Rightarrow> hunk_reader" where
  "flush_hunk r =
     (if hr_in_hunk r \<and> hr_path r \<noteq> [] \<and> hr_lines r \<noteq> []
      then r\<lparr>hr_hunks := hr_hunks r @ [\<lparr>dh_path = hr_path r, dh_new_start = hr_new_start r, dh_lines = hr_lines r\<rparr>],
             hr_lines := []\<rparr>
      else r)"

definition read_line :: "hunk_reader \<Rightarrow> string \<Rightarrow> hunk_reader" where
  "read_line r line =
     (if starts_with line ''diff --git '' then (flush_hunk r)\<lparr>hr_in_hunk := False, hr_path := []\<rparr>
      else if starts_with line ''+++ b/'' then r\<lparr>hr_path := drop 6 line\<rparr>
      else if starts_with line ''@@ -''
      then (flush_hunk r)\<lparr>hr_new_start := (case hunk_new_start line of Some n \<Rightarrow> n | None \<Rightarrow> 0), hr_in_hunk := True\<rparr>
      else if hr_in_hunk r \<and> (starts_with line ''+'' \<or> starts_with line ''-'')
      then r\<lparr>hr_lines := hr_lines r @ [line]\<rparr>
      else r)"

definition parse_hunks :: "string \<Rightarrow> diff_hunk list" where
  "parse_hunks diff_text =
     hr_hunks (flush_hunk (foldl read_line
       \<lparr>hr_hunks = [], hr_path = [], hr_new_start = 0, hr_lines = [], hr_in_hunk = False\<rparr> (str_lines diff_text)))"

definition diff_hunks_from :: "'g git_env \<Rightarrow> git_repo \<Rightarrow> string \<Rightarrow> ('g, git_error, diff_hunk list) act" where
  "diff_hunks_from G repo base = act_map parse_hunks (git_text G repo ''diff'' [''-U0'', base])"

definition diff_hunks_unrated :: "'g git_env \<Rightarrow> git_repo \<Rightarrow> ('g, git_error, diff_hunk list) act" where
  "diff_hunks_unrated G repo = diff_hunks_from G repo ''HEAD''"

text \<open>\<open>reject_hunk\<close>: the header of the file and the blocks of its hunks.\<close>

definition header_line :: "string \<Rightarrow> bool" where
  "header_line line =
     list_ex (starts_with line) [''diff --git '', ''index '', ''--- '', ''+++ '']"

fun push_body :: "(string \<times> string list) list \<Rightarrow> string \<Rightarrow> (string \<times> string list) list" where
  "push_body [] line = []"
| "push_body [(h, body)] line = [(h, body @ [line])]"
| "push_body (b # bs) line = b # push_body bs line"

definition split_step ::
  "string \<times> (string \<times> string list) list \<Rightarrow> string \<Rightarrow> string \<times> (string \<times> string list) list" where
  "split_step st line =
     (case st of (file_header, blocks) \<Rightarrow>
        if header_line line then (if blocks = [] then file_header @ line @ [CHR 0x0A] else file_header, blocks)
        else if starts_with line ''@@'' then (file_header, blocks @ [(line, [])])
        else (file_header, push_body blocks line))"

definition hunk_patch :: "string \<Rightarrow> nat \<Rightarrow> string option" where
  "hunk_patch diff_text new_start =
     (case foldl split_step ([], []) (str_lines diff_text) of (file_header, blocks) \<Rightarrow>
        (case find (\<lambda>(h, _). hunk_new_start h = Some new_start) blocks of
           None \<Rightarrow> None
         | Some (h, body) \<Rightarrow> Some (file_header @ h @ [CHR 0x0A] @ str_join [CHR 0x0A] body @ [CHR 0x0A])))"

definition apply_reverse :: "'g git_env \<Rightarrow> git_repo \<Rightarrow> string \<Rightarrow> ('g, git_error, unit) act" where
  "apply_reverse G repo patch g =
     (case ge_apply G [''-C'', gr_root repo, ''apply'', ''--reverse'', ''--unidiff-zero'', ''-''] patch g of
        (Spawn_Failed e, g') \<Rightarrow> (Inl (Git_Io e), g')
      | (Stdin_Failed e, g') \<Rightarrow> (Inl (Git_Failed ''apply --reverse'' e), g')
      | (Exited out, g') \<Rightarrow>
          (if po_success out then Inr () else Inl (Git_Failed ''apply --reverse'' (str_trim (po_stderr out))), g'))"

definition reject_hunk :: "'g git_env \<Rightarrow> git_repo \<Rightarrow> string \<Rightarrow> nat \<Rightarrow> string \<Rightarrow> ('g, git_error, unit) act" where
  "reject_hunk G repo path new_start base =
     act_then (git_text G repo ''diff'' [''-U0'', base, ''--'', path]) (\<lambda>txt.
       if txt = [] then act_return ()
       else case hunk_patch txt new_start of
              None \<Rightarrow> act_fail (Git_Failed ''apply --reverse''
                        (''no hunk starts at line '' @ show_nat new_start @ '' in '' @ path))
            | Some patch \<Rightarrow> apply_reverse G repo patch)"

definition reject_worktree_changes :: "'g git_env \<Rightarrow> git_repo \<Rightarrow> string \<Rightarrow> ('g, git_error, unit) act" where
  "reject_worktree_changes G repo path =
     act_then (git G repo ''diff'' [''HEAD'', ''--'', path]) (\<lambda>out.
       if po_stdout out = [] then act_return () else apply_reverse G repo (po_stdout out))"

text \<open>\<open>--numstat\<close>: three tab-separated columns; a count that does not parse (a binary file) is zero.\<close>

definition numstat_line :: "string \<Rightarrow> file_diff list" where
  "numstat_line line =
     (let num = (\<lambda>v. case parse_unsigned 64 v of Some n \<Rightarrow> n | None \<Rightarrow> 0)
      in case str_split (\<lambda>c. c = CHR 0x09) line of
           add # del # path # _ \<Rightarrow> [\<lparr>fd_path = path, fd_additions = num add, fd_deletions = num del\<rparr>]
         | _ \<Rightarrow> [])"

definition numstat :: "string \<Rightarrow> file_diff list" where
  "numstat txt = concat (map numstat_line (str_lines txt))"

definition diff_numstat :: "'g git_env \<Rightarrow> git_repo \<Rightarrow> string \<Rightarrow> string \<Rightarrow> ('g, git_error, file_diff list) act" where
  "diff_numstat G repo from_rev to_rev =
     act_map numstat (git_text G repo ''diff'' [''--numstat'', from_rev @ ''..'' @ to_rev])"

definition diff_workdir_numstat :: "'g git_env \<Rightarrow> git_repo \<Rightarrow> string \<Rightarrow> ('g, git_error, file_diff list) act" where
  "diff_workdir_numstat G repo base = act_map numstat (git_text G repo ''diff'' [''--numstat'', base])"

text \<open>\<open>--porcelain=v1\<close>: two letters, a space and a path; \<open>None\<close> is a panic of a slice.\<close>

fun porcelain_entries :: "string list \<Rightarrow> (string \<times> string) list option" where
  "porcelain_entries [] = Some []"
| "porcelain_entries (line # ls) =
     (if length line < 4 then porcelain_entries ls
      else if \<not> char_boundary line 2 \<or> \<not> char_boundary line 3 then None
      else map_option (\<lambda>es. (take 2 line, drop 3 line) # es) (porcelain_entries ls))"

definition status_porcelain :: "'g git_env \<Rightarrow> git_repo \<Rightarrow> ('g, git_error, (string \<times> string) list option) act" where
  "status_porcelain G repo =
     act_map (\<lambda>txt. porcelain_entries (str_lines txt)) (git_text G repo ''status'' [''--porcelain=v1''])"

section \<open>What git prints\<close>

text \<open>
  The format of a diff without context (\<open>-U0\<close>): the header of every changed file, and for each changed
  range a header with the old range, the new range and perhaps an enclosing definition.
\<close>

record printed_hunk =
  ph_old :: string
  ph_start :: nat
  ph_count :: string
  ph_context :: string
  ph_body :: "string list"

definition printed_header :: "printed_hunk \<Rightarrow> string" where
  "printed_header h = ''@@ -'' @ ph_old h @ '' +'' @ show_nat (ph_start h) @ ph_count h @ '' @@'' @ ph_context h"

record printed_file =
  pf_path :: string
  pf_index :: string
  pf_hunks :: "printed_hunk list"

definition printed_file_lines :: "printed_file \<Rightarrow> string list" where
  "printed_file_lines f =
     [''diff --git a/'' @ pf_path f @ '' b/'' @ pf_path f, ''index '' @ pf_index f, ''--- a/'' @ pf_path f, ''+++ b/'' @ pf_path f]
     @ concat (map (\<lambda>h. printed_header h # ph_body h) (pf_hunks f))"

definition plain_line :: "string \<Rightarrow> bool" where
  "plain_line l = (CHR 0x0A \<notin> set l \<and> (l = [] \<or> last l \<noteq> CHR 0x0D))"

definition body_line :: "string \<Rightarrow> bool" where
  "body_line l = (plain_line l \<and> (starts_with l ''+'' \<or> starts_with l ''-'') \<and> \<not> starts_with l ''+++ b/'')"

definition printed_hunk_ok :: "printed_hunk \<Rightarrow> bool" where
  "printed_hunk_ok h =
     (CHR ''+'' \<notin> set (ph_old h) \<and> ph_start h < 2 ^ 64 \<and> (ph_count h = [] \<or> hd (ph_count h) = CHR '','')
      \<and> plain_line (printed_header h) \<and> ph_body h \<noteq> [] \<and> list_all body_line (ph_body h))"

definition printed_file_ok :: "printed_file \<Rightarrow> bool" where
  "printed_file_ok f =
     (pf_path f \<noteq> [] \<and> plain_line (pf_path f) \<and> plain_line (pf_index f) \<and> list_all printed_hunk_ok (pf_hunks f))"

definition hunks_of_file :: "printed_file \<Rightarrow> diff_hunk list" where
  "hunks_of_file f = map (\<lambda>h. \<lparr>dh_path = pf_path f, dh_new_start = ph_start h, dh_lines = ph_body h\<rparr>) (pf_hunks f)"

definition printed_diff :: "printed_file list \<Rightarrow> string" where
  "printed_diff fs = concat (map (\<lambda>l. l @ [CHR 0x0A]) (concat (map printed_file_lines fs)))"

lemma takeWhile_digits: "(zs = [] \<or> \<not> is_digit (hd zs)) \<Longrightarrow> takeWhile is_digit (show_nat n @ zs) = show_nat n"
  using show_nat_digits [of _ n] by (subst takeWhile_append2) (auto simp: takeWhile_eq_Nil_iff)

lemma takeWhile_digits_before_plus: "takeWhile is_digit (takeWhile (\<lambda>c. c \<noteq> CHR ''+'') s) = takeWhile is_digit s"
  by (induction s) (auto simp: is_digit_def)

lemma hd_str_split: "hd (str_split p s) = takeWhile (\<lambda>c. \<not> p c) s"
proof (induction s)
  case (Cons c s)
  then show ?case by (cases "str_split p s") auto
qed simp

lemma printed_header_start:
  assumes "printed_hunk_ok h"
  shows "hunk_new_start (printed_header h) = Some (ph_start h)"
proof -
  let ?pre = "''@@ -'' @ ph_old h @ '' ''" and ?post = "show_nat (ph_start h) @ ph_count h @ '' @@'' @ ph_context h"
  have "printed_header h = ?pre @ [CHR ''+''] @ ?post" by (simp add: printed_header_def)
  moreover have "str_split (\<lambda>c. c = CHR ''+'') ?pre = [?pre]"
    using assms by (intro str_split_none) (auto simp: printed_hunk_ok_def)
  ultimately have sp: "str_split (\<lambda>c. c = CHR ''+'') (printed_header h) = ?pre # str_split (\<lambda>c. c = CHR ''+'') ?post"
    using str_split_append [of "\<lambda>c. c = CHR ''+''" "CHR ''+''" ?pre ?post] by simp
  obtain w ws where ws: "str_split (\<lambda>c. c = CHR ''+'') ?post = w # ws"
    by (cases "str_split (\<lambda>c. c = CHR ''+'') ?post") auto
  then have "w = takeWhile (\<lambda>c. c \<noteq> CHR ''+'') ?post" using hd_str_split [of "\<lambda>c. c = CHR ''+''" ?post] by simp
  then have "takeWhile is_digit w = takeWhile is_digit ?post" by (simp only: takeWhile_digits_before_plus)
  also have "\<dots> = show_nat (ph_start h)"
    using assms by (intro takeWhile_digits) (auto simp: printed_hunk_ok_def is_digit_def hd_append)
  finally show ?thesis
    using assms ws sp by (simp add: hunk_new_start_def parse_unsigned_show_nat printed_hunk_ok_def)
qed

text \<open>A reader that collects lines is inside a hunk of a named file; what it has read so far.\<close>

definition reader_ok :: "hunk_reader \<Rightarrow> bool" where
  "reader_ok r = (hr_lines r \<noteq> [] \<longrightarrow> hr_in_hunk r \<and> hr_path r \<noteq> [])"

definition collected :: "hunk_reader \<Rightarrow> diff_hunk list" where
  "collected r = hr_hunks (flush_hunk r)"

lemma flush_hunk_ok: "reader_ok r \<Longrightarrow> hr_lines (flush_hunk r) = []"
  by (auto simp: reader_ok_def flush_hunk_def)

lemma flush_hunk_fields [simp]:
  "hr_path (flush_hunk r) = hr_path r" "hr_in_hunk (flush_hunk r) = hr_in_hunk r"
  by (simp_all add: flush_hunk_def)

lemma starts_with_lits:
  "starts_with (c # cs) (d # ds) \<longleftrightarrow> c = d \<and> starts_with cs ds" "starts_with cs []" "\<not> starts_with [] (d # ds)"
  by (auto simp: starts_with_def)

lemma read_body_line:
  "hr_in_hunk r \<Longrightarrow> body_line l \<Longrightarrow> read_line r l = r\<lparr>hr_lines := hr_lines r @ [l]\<rparr>"
  by (cases l) (auto simp: read_line_def body_line_def starts_with_lits)

lemma read_body: "hr_in_hunk r \<Longrightarrow> list_all body_line ls \<Longrightarrow> foldl read_line r ls = r\<lparr>hr_lines := hr_lines r @ ls\<rparr>"
  by (induction ls arbitrary: r) (simp_all add: read_body_line)

lemma read_header:
  assumes "printed_hunk_ok h"
  shows "read_line r (printed_header h) = (flush_hunk r)\<lparr>hr_new_start := ph_start h, hr_in_hunk := True\<rparr>"
proof -
  have "starts_with (printed_header h) ''@@ -''" "\<not> starts_with (printed_header h) ''diff --git ''"
    "\<not> starts_with (printed_header h) ''+++ b/''"
    by (simp_all add: printed_header_def starts_with_lits)
  then show ?thesis by (simp add: read_line_def printed_header_start [OF assms])
qed

lemma read_hunk:
  assumes "reader_ok r" and "hr_path r \<noteq> []" and "printed_hunk_ok h"
  shows "reader_ok (foldl read_line r (printed_header h # ph_body h))
    \<and> hr_path (foldl read_line r (printed_header h # ph_body h)) = hr_path r
    \<and> collected (foldl read_line r (printed_header h # ph_body h)) =
        collected r @ [\<lparr>dh_path = hr_path r, dh_new_start = ph_start h, dh_lines = ph_body h\<rparr>]"
proof -
  have len: "hr_lines (flush_hunk r) = []" by (rule flush_hunk_ok [OF assms(1)])
  have body: "list_all body_line (ph_body h)" "ph_body h \<noteq> []" using assms(3) unfolding printed_hunk_ok_def by auto
  have "foldl read_line r (printed_header h # ph_body h) =
      (flush_hunk r)\<lparr>hr_new_start := ph_start h, hr_in_hunk := True, hr_lines := ph_body h\<rparr>"
    using read_body [OF _ body(1), of "(flush_hunk r)\<lparr>hr_new_start := ph_start h, hr_in_hunk := True\<rparr>"] len
    by (simp add: read_header [OF assms(3)])
  moreover have "hr_hunks (flush_hunk ((flush_hunk r)\<lparr>hr_new_start := ph_start h, hr_in_hunk := True, hr_lines := ph_body h\<rparr>)) =
      hr_hunks (flush_hunk r) @ [\<lparr>dh_path = hr_path r, dh_new_start = ph_start h, dh_lines = ph_body h\<rparr>]"
    using assms(2) body(2) by (subst (1) flush_hunk_def) simp
  ultimately show ?thesis using assms(2) by (simp add: collected_def reader_ok_def)
qed

lemma read_hunks:
  "reader_ok r \<Longrightarrow> hr_path r \<noteq> [] \<Longrightarrow> list_all printed_hunk_ok hs \<Longrightarrow>
   reader_ok (foldl read_line r (concat (map (\<lambda>h. printed_header h # ph_body h) hs)))
   \<and> collected (foldl read_line r (concat (map (\<lambda>h. printed_header h # ph_body h) hs))) =
       collected r @ map (\<lambda>h. \<lparr>dh_path = hr_path r, dh_new_start = ph_start h, dh_lines = ph_body h\<rparr>) hs"
proof (induction hs arbitrary: r)
  case (Cons h hs)
  let ?r = "foldl read_line r (printed_header h # ph_body h)"
  have "reader_ok ?r" "hr_path ?r = hr_path r"
    "collected ?r = collected r @ [\<lparr>dh_path = hr_path r, dh_new_start = ph_start h, dh_lines = ph_body h\<rparr>]"
    using read_hunk [of r h] Cons.prems by auto
  then show ?case using Cons.IH [of ?r] Cons.prems by simp
qed simp

lemma read_file_header:
  assumes "reader_ok r"
  shows "foldl read_line r [''diff --git a/'' @ p @ '' b/'' @ p, ''index '' @ i, ''--- a/'' @ p, ''+++ b/'' @ p] =
    (flush_hunk r)\<lparr>hr_in_hunk := False, hr_path := p\<rparr>"
  using flush_hunk_ok [OF assms] by (simp add: read_line_def starts_with_lits)

lemma read_file:
  assumes "reader_ok r" and "printed_file_ok f"
  shows "reader_ok (foldl read_line r (printed_file_lines f))
    \<and> collected (foldl read_line r (printed_file_lines f)) = collected r @ hunks_of_file f"
proof -
  let ?r = "(flush_hunk r)\<lparr>hr_in_hunk := False, hr_path := pf_path f\<rparr>"
  have "reader_ok ?r" "hr_path ?r \<noteq> []" "collected ?r = collected r"
    using assms flush_hunk_ok [OF assms(1)] by (simp_all add: reader_ok_def printed_file_ok_def collected_def flush_hunk_def)
  then show ?thesis
    using assms read_hunks [of ?r "pf_hunks f"] read_file_header [OF assms(1), of "pf_path f" "pf_index f"]
    by (simp add: printed_file_lines_def hunks_of_file_def printed_file_ok_def)
qed

lemma read_files:
  "reader_ok r \<Longrightarrow> list_all printed_file_ok fs \<Longrightarrow>
   collected (foldl read_line r (concat (map printed_file_lines fs))) = collected r @ concat (map hunks_of_file fs)"
proof (induction fs arbitrary: r)
  case (Cons f fs)
  then show ?case using read_file [of r f] by simp
qed (simp add: collected_def)

lemma plain_line_append [simp]: "plain_line (a @ b) \<longleftrightarrow>
   CHR 0x0A \<notin> set a \<and> (if b = [] then plain_line a else plain_line b)"
  by (auto simp: plain_line_def)

lemma plain_line_Cons [simp]: "plain_line (c # l) \<longleftrightarrow> c \<noteq> CHR 0x0A \<and> (if l = [] then c \<noteq> CHR 0x0D else plain_line l)"
  by (auto simp: plain_line_def)

lemma printed_lines_plain: "printed_file_ok f \<Longrightarrow> l \<in> set (printed_file_lines f) \<Longrightarrow> plain_line l"
  by (auto simp: printed_file_lines_def printed_file_ok_def printed_hunk_ok_def body_line_def list_all_iff)
     (auto simp: plain_line_def)

text \<open>The hunks that are read from a diff are the hunks git printed, with their files, start lines and changed
  lines, for any number of files and hunks.\<close>

lemma parse_hunks_reads_printed_diff:
  assumes "list_all printed_file_ok fs"
  shows "parse_hunks (printed_diff fs) = concat (map hunks_of_file fs)"
proof -
  have "\<forall>l \<in> set (concat (map printed_file_lines fs)). plain_line l"
    using assms printed_lines_plain by (fastforce simp: list_all_iff)
  then have "str_lines (printed_diff fs) = concat (map printed_file_lines fs)"
    unfolding printed_diff_def plain_line_def by (rule str_lines_written)
  then show ?thesis
    using read_files [OF _ assms, of "\<lparr>hr_hunks = [], hr_path = [], hr_new_start = 0, hr_lines = [], hr_in_hunk = False\<rparr>"]
    by (simp add: parse_hunks_def collected_def reader_ok_def flush_hunk_def)
qed

definition sample_file :: printed_file where
  "sample_file = \<lparr>pf_path = ''a.rs'', pf_index = ''1..2 100644'',
     pf_hunks = [\<lparr>ph_old = ''1'', ph_start = 1, ph_count = [], ph_context = [], ph_body = [''-x'', ''+y'']\<rparr>,
                 \<lparr>ph_old = ''8,0'', ph_start = 9, ph_count = '',2'', ph_context = '' fn f()'', ph_body = [''+1'', ''+2'']\<rparr>]\<rparr>"

lemma parse_hunks_reads_printed_diff_witness:
  "list_all printed_file_ok [sample_file] \<and> parse_hunks (printed_diff [sample_file]) =
     [\<lparr>dh_path = ''a.rs'', dh_new_start = 1, dh_lines = [''-x'', ''+y'']\<rparr>,
      \<lparr>dh_path = ''a.rs'', dh_new_start = 9, dh_lines = [''+1'', ''+2'']\<rparr>]"
proof -
  have "show_nat 1 = ''1''" "show_nat 9 = ''9''" by code_simp+
  then have ok: "list_all printed_file_ok [sample_file]"
    by (simp add: printed_file_ok_def printed_hunk_ok_def sample_file_def printed_header_def body_line_def
        starts_with_lits plain_line_def)
  then show ?thesis using parse_hunks_reads_printed_diff [OF ok] by (simp add: hunks_of_file_def sample_file_def)
qed

section \<open>Where reading git's output goes wrong\<close>

lemma str_trim_kept: "s \<noteq> [] \<Longrightarrow> \<not> is_space (hd s) \<Longrightarrow> \<not> is_space (last s) \<Longrightarrow> list_all is_space ws \<Longrightarrow>
   list_all is_space vs \<Longrightarrow> str_trim (vs @ s @ ws) = s"
proof -
  assume a: "s \<noteq> []" "\<not> is_space (hd s)" "\<not> is_space (last s)" "list_all is_space ws" "list_all is_space vs"
  obtain c cs where s: "s = c # cs" using a(1) by (cases s) auto
  obtain ds d where s': "s = ds @ [d]" using a(1) by (cases s rule: rev_cases) auto
  have "dropWhile is_space (vs @ s @ ws) = s @ ws"
    using a(2,5) s by (subst dropWhile_append2) (auto simp: list_all_iff)
  moreover have "dropWhile is_space (rev ws @ rev s) = rev s"
    using a(3,4) s' by (subst dropWhile_append2) (auto simp: list_all_iff)
  ultimately show ?thesis by (simp add: str_trim_def)
qed

text \<open>\<open>git status\<close> prints a file that is modified and not staged as a space, an M, a space and its path. The wrapper
  trims the output before it slices the lines, so the first such path is reported without its first character.\<close>

lemma status_cuts_first_path:
  assumes "ge_run G [''-C'', gr_root repo, ''status'', ''--porcelain=v1''] g = (Inr out, g')" and "po_success out"
    and "po_stdout out = '' M '' @ c # d # p @ [CHR 0x0A]"
    and "plain_line (c # d # p)" and "\<not> is_space (last (d # p))" and "\<not> is_continuation c" and "\<not> is_continuation d"
  shows "status_porcelain G repo g = (Inr (Some [(''M '', d # p)]), g')"
proof -
  have "str_trim (po_stdout out) = ''M '' @ c # d # p"
    using assms(3,5) str_trim_kept [of "''M '' @ c # d # p" "[CHR 0x0A]" "'' ''"] by (simp add: is_space_def)
  moreover have "str_lines (''M '' @ c # d # p) = [''M '' @ c # d # p]"
  proof -
    have "str_split (\<lambda>x. x = CHR 0x0A) (''M '' @ c # d # p) = [''M '' @ c # d # p]"
      using assms(4) by (intro str_split_none) (auto simp: plain_line_def)
    then show ?thesis using assms(4) by (simp add: str_lines_def strip_cr_def plain_line_def split: if_splits)
  qed
  ultimately show ?thesis
    using assms(1,2,6,7)
    by (simp add: status_porcelain_def git_text_def act_map_def act_then_def act_return_def git_def stdout_text_def
        char_boundary_def)
qed

definition status_env :: "unit git_env" where
  "status_env =
     \<lparr>ge_run = (\<lambda>_ g. (Inr \<lparr>po_success = True, po_stdout = '' M src/a.rs'' @ [CHR 0x0A], po_stderr = []\<rparr>, g)),
      ge_apply = (\<lambda>_ _ g. (Spawn_Failed [], g))\<rparr>"

lemma status_cuts_first_path_witness:
  "status_porcelain status_env \<lparr>gr_root = ''/w''\<rparr> () = (Inr (Some [(''M '', ''rc/a.rs'')]), ())"
  using status_cuts_first_path [of status_env "\<lparr>gr_root = ''/w''\<rparr>" "()"
      "\<lparr>po_success = True, po_stdout = '' M src/a.rs'' @ [CHR 0x0A], po_stderr = []\<rparr>" "()" "CHR ''s''" "CHR ''r''" "''c/a.rs''"]
  by (simp add: status_env_def is_space_def is_continuation_def)

text \<open>A changed line that looks like a file header, for example a removed line that begins with two dashes and a
  space, is left out of the patch that rejects its hunk.\<close>

lemma push_body_last: "push_body (bs @ [(h, body)]) line = bs @ [(h, body @ [line])]"
proof (induction bs)
  case (Cons b bs)
  then show ?case by (cases bs) auto
qed simp

lemma split_body:
  "list_all (\<lambda>l. \<not> starts_with l ''@@'') ls \<Longrightarrow>
   foldl split_step (fh, bs @ [(h, body)]) ls = (fh, bs @ [(h, body @ filter (\<lambda>l. \<not> header_line l) ls)])"
  by (induction ls arbitrary: body) (simp_all add: split_step_def push_body_last)

lemma removed_dashes_left_out: "header_line (''--- '' @ s)"
  by (simp add: header_line_def starts_with_lits)

end
