(* ===== verification/Merge_Transaction.thy ===== *)
theory Merge_Transaction
  imports Git_Repo
begin

text \<open>
  Merge transactions (\<^verbatim>\<open>crates/workspace/src/merge_transaction.rs\<close>), the sessions that merge through them
  (\<^verbatim>\<open>crates/workspace/src/session_lineage.rs\<close>) and the gate on edits of paths nobody read
  (\<^verbatim>\<open>crates/workspace/src/edit_gate.rs\<close>).

  The state is the repository, the transaction file, and the outcomes of the coming file operations: \<open>Some e\<close> is an
  operation that fails with \<open>e\<close>. A write goes to a temporary file that is renamed, so a failed one leaves the
  old content. The JSON codec of a transaction and the type \<open>'b\<close> of its text are parameters. Git does not touch the transaction file.
\<close>

section \<open>Transactions\<close>

datatype merge_phase = Open | Conflicted | Validating | Committed | RolledBack

fun show_merge_phase :: "merge_phase \<Rightarrow> string" where
  "show_merge_phase Open = ''open''"
| "show_merge_phase Conflicted = ''conflicted''"
| "show_merge_phase Validating = ''validating''"
| "show_merge_phase Committed = ''committed''"
| "show_merge_phase RolledBack = ''rolled-back''"

record conflict_resolution =
  cr_path :: string
  cr_strategy :: string

record merge_transaction =
  mt_transaction_id :: string
  mt_source_branch :: string
  mt_target_branch :: string
  mt_base_commit :: string
  mt_target_head :: string
  mt_phase :: merge_phase
  mt_conflicts :: "string list"
  mt_resolutions :: "conflict_resolution list"
  mt_validation :: "(string \<times> bool) list"
  mt_commit_sha :: "string option"

definition merge_transaction_new :: "string \<Rightarrow> string \<Rightarrow> string \<Rightarrow> merge_transaction" where
  "merge_transaction_new i source target =
     \<lparr>mt_transaction_id = i, mt_source_branch = source, mt_target_branch = target, mt_base_commit = [],
      mt_target_head = [], mt_phase = Open, mt_conflicts = [], mt_resolutions = [], mt_validation = [],
      mt_commit_sha = None\<rparr>"

datatype merge_error =
  Mt_Git git_error
| Mt_Io string
| AlreadyOpen string
| NoOpenTransaction
| InvalidPhase merge_phase string
| RollbackIncomplete string

fun show_merge_error :: "merge_error \<Rightarrow> string" where
  "show_merge_error (Mt_Git e) = ''git: '' @ show_git_error e"
| "show_merge_error (Mt_Io e) = ''io: '' @ e"
| "show_merge_error (AlreadyOpen i) = ''merge transaction '' @ i @ '' is already open''"
| "show_merge_error NoOpenTransaction = ''no open merge transaction''"
| "show_merge_error (InvalidPhase p action) = ''cannot '' @ action @ '' in phase '' @ show_merge_phase p"
| "show_merge_error (RollbackIncomplete r) = ''rollback incomplete: '' @ r"

section \<open>The transaction file\<close>

record 'b tx_codec =
  tc_ser :: "merge_transaction \<Rightarrow> 'b"
  tc_de :: "'b \<Rightarrow> (string, merge_transaction) result"

record ('g, 'b) merge_world =
  mw_git :: 'g
  mw_file :: "'b option"
  mw_faults :: "string option list"

definition in_git :: "('g, git_error, 'a) act \<Rightarrow> (('g, 'b) merge_world, merge_error, 'a) act" where
  "in_git m w = (case m (mw_git w) of (r, g') \<Rightarrow> (map_err Mt_Git r, w\<lparr>mw_git := g'\<rparr>))"

definition load_tx :: "'b tx_codec \<Rightarrow> (('g, 'b) merge_world, merge_error, merge_transaction option) act" where
  "load_tx C w =
     ((case mw_file w of
         None \<Rightarrow> Inr None
       | Some bytes \<Rightarrow> (case tc_de C bytes of Inl e \<Rightarrow> Inl (Mt_Io e) | Inr tx \<Rightarrow> Inr (Some tx))), w)"

definition save_tx :: "'b tx_codec \<Rightarrow> merge_transaction \<Rightarrow> (('g, 'b) merge_world, merge_error, unit) act" where
  "save_tx C tx w =
     (case mw_faults w of
        Some e # fs \<Rightarrow> (Inl (Mt_Io e), w\<lparr>mw_faults := fs\<rparr>)
      | fs \<Rightarrow> (Inr (), w\<lparr>mw_faults := tl fs, mw_file := Some (tc_ser C tx)\<rparr>))"

definition remove_tx :: "(('g, 'b) merge_world, merge_error, unit) act" where
  "remove_tx w =
     (case mw_faults w of
        Some e # fs \<Rightarrow> (Inr (), w\<lparr>mw_faults := fs\<rparr>)
      | fs \<Rightarrow> (Inr (), w\<lparr>mw_faults := tl fs, mw_file := None\<rparr>))"

definition load_open :: "'b tx_codec \<Rightarrow> (('g, 'b) merge_world, merge_error, merge_transaction) act" where
  "load_open C = act_then (load_tx C) (\<lambda>t. case t of None \<Rightarrow> act_fail NoOpenTransaction | Some tx \<Rightarrow> act_return tx)"

definition merge_message :: "string \<Rightarrow> string \<Rightarrow> string" where
  "merge_message source i = ''merge '' @ source @ '' (transaction '' @ i @ '')''"

section \<open>Operations\<close>

text \<open>The match on a transaction that is already there.\<close>

definition archive_old :: "merge_transaction option \<Rightarrow> (('g, 'b) merge_world, merge_error, unit) act" where
  "archive_old t =
     (case t of
        None \<Rightarrow> act_return ()
      | Some x \<Rightarrow> (case mt_phase x of
                     Committed \<Rightarrow> remove_tx
                   | RolledBack \<Rightarrow> remove_tx
                   | _ \<Rightarrow> act_fail (AlreadyOpen (mt_transaction_id x))))"

text \<open>What follows the merge: the record of its outcome.\<close>

definition after_merge ::
  "'g git_env \<Rightarrow> git_repo \<Rightarrow> merge_transaction \<Rightarrow> merge_outcome \<Rightarrow> (('g, 'b) merge_world, merge_error, merge_transaction) act" where
  "after_merge G repo tx outcome =
     (case outcome of
        Merged \<Rightarrow>
          act_then (in_git (conclude_merge G repo (merge_message (mt_source_branch tx) (mt_transaction_id tx)))) (\<lambda>_.
          act_then (in_git (git_head G repo)) (\<lambda>h.
          act_return (tx\<lparr>mt_phase := Validating, mt_commit_sha := Some h\<rparr>)))
      | Conflict files \<Rightarrow> act_return (tx\<lparr>mt_phase := Conflicted, mt_conflicts := files\<rparr>))"

definition open_and_merge ::
  "'g git_env \<Rightarrow> 'b tx_codec \<Rightarrow> git_repo \<Rightarrow> string \<Rightarrow> string \<Rightarrow> string \<Rightarrow>
   (('g, 'b) merge_world, merge_error, merge_transaction \<times> merge_outcome) act" where
  "open_and_merge G C repo i source target =
     act_then (load_tx C) (\<lambda>existing.
     act_then (archive_old existing) (\<lambda>_.
     act_then (in_git (merge_base G repo source target)) (\<lambda>base.
     act_then (in_git (checkout G repo target)) (\<lambda>_.
     act_then (in_git (git_head G repo)) (\<lambda>h.
       let tx = (merge_transaction_new i source target)\<lparr>mt_base_commit := base, mt_target_head := h\<rparr>
       in act_then (save_tx C tx) (\<lambda>_.
          act_then (in_git (start_merge G repo source)) (\<lambda>outcome.
          act_then (after_merge G repo tx outcome) (\<lambda>tx'.
          act_then (save_tx C tx') (\<lambda>_.
          act_return (tx', outcome))))))))))"

text \<open>All conflicts of a transaction are resolved: the merge is concluded.\<close>

definition finish_resolution ::
  "'g git_env \<Rightarrow> git_repo \<Rightarrow> merge_transaction \<Rightarrow> (('g, 'b) merge_world, merge_error, merge_transaction) act" where
  "finish_resolution G repo tx =
     (if mt_conflicts tx = []
      then act_then (in_git (conclude_merge G repo (merge_message (mt_source_branch tx) (mt_transaction_id tx)))) (\<lambda>_.
           act_then (in_git (git_head G repo)) (\<lambda>h.
           act_return (tx\<lparr>mt_commit_sha := Some h, mt_phase := Validating\<rparr>)))
      else act_return tx)"

definition record_resolution ::
  "'g git_env \<Rightarrow> 'b tx_codec \<Rightarrow> git_repo \<Rightarrow> string \<Rightarrow> string \<Rightarrow> (('g, 'b) merge_world, merge_error, merge_transaction) act" where
  "record_resolution G C repo path strategy =
     act_then (load_open C) (\<lambda>tx.
       if mt_phase tx \<noteq> Conflicted then act_fail (InvalidPhase (mt_phase tx) ''record a resolution'')
       else act_then (in_git (stage_path G repo path)) (\<lambda>_.
            act_then (finish_resolution G repo
                        (tx\<lparr>mt_resolutions := mt_resolutions tx @ [\<lparr>cr_path = path, cr_strategy = strategy\<rparr>],
                            mt_conflicts := filter (\<lambda>c. c \<noteq> path) (mt_conflicts tx)\<rparr>)) (\<lambda>tx'.
            act_then (save_tx C tx') (\<lambda>_. act_return tx'))))"

definition record_validation ::
  "'b tx_codec \<Rightarrow> string \<Rightarrow> bool \<Rightarrow> (('g, 'b) merge_world, merge_error, merge_transaction) act" where
  "record_validation C gate passed =
     act_then (load_open C) (\<lambda>tx.
       if mt_phase tx \<noteq> Validating then act_fail (InvalidPhase (mt_phase tx) ''record validation'')
       else let tx' = tx\<lparr>mt_validation := mt_validation tx @ [(gate, passed)]\<rparr>
            in act_then (save_tx C tx') (\<lambda>_. act_return tx'))"

definition merge_commit :: "'b tx_codec \<Rightarrow> (('g, 'b) merge_world, merge_error, merge_transaction) act" where
  "merge_commit C =
     act_then (load_open C) (\<lambda>tx.
       if mt_phase tx \<noteq> Validating then act_fail (InvalidPhase (mt_phase tx) ''commit'')
       else if list_ex (\<lambda>(_, passed). \<not> passed) (mt_validation tx)
       then act_fail (InvalidPhase (mt_phase tx)
              (''commit with failed validations '' @ [CHR 0xE2, CHR 0x80, CHR 0x94] @ '' roll back instead''))
       else let tx' = tx\<lparr>mt_phase := Committed\<rparr> in act_then (save_tx C tx') (\<lambda>_. act_return tx'))"

definition unwind ::
  "'g git_env \<Rightarrow> git_repo \<Rightarrow> merge_transaction \<Rightarrow> (('g, 'b) merge_world, merge_error, unit) act" where
  "unwind G repo tx =
     (case mt_phase tx of
        Conflicted \<Rightarrow> in_git (abort_merge_state G repo)
      | Validating \<Rightarrow> in_git (reset_hard G repo (mt_target_head tx))
      | p \<Rightarrow> act_fail (InvalidPhase p ''roll back''))"

definition rollback ::
  "'g git_env \<Rightarrow> 'b tx_codec \<Rightarrow> git_repo \<Rightarrow> (('g, 'b) merge_world, merge_error, merge_transaction) act" where
  "rollback G C repo =
     act_then (load_open C) (\<lambda>tx.
     act_then (unwind G repo tx) (\<lambda>_.
     act_then (in_git (git_head G repo)) (\<lambda>h.
       if mt_phase tx = Validating \<and> h = (case mt_commit_sha tx of Some s \<Rightarrow> s | None \<Rightarrow> [])
       then act_fail (RollbackIncomplete ''HEAD still at the merge commit after reset'')
       else let tx' = tx\<lparr>mt_phase := RolledBack\<rparr> in act_then (save_tx C tx') (\<lambda>_. act_return tx'))))"

definition inspect :: "'b tx_codec \<Rightarrow> (('g, 'b) merge_world, merge_error, merge_transaction option) act" where
  "inspect C = load_tx C"

section \<open>Sessions\<close>

record session_binding =
  sb_session_id :: string
  sb_parent_session :: "string option"
  sb_branch :: string
  sb_worktree_root :: string
  sb_fork_commit :: string

datatype session_error = Se_Git git_error | Se_Merge merge_error | Se_Io string | UnknownSession string

fun show_session_error :: "session_error \<Rightarrow> string" where
  "show_session_error (Se_Git e) = ''git: '' @ show_git_error e"
| "show_session_error (Se_Merge e) = ''merge transaction: '' @ show_merge_error e"
| "show_session_error (Se_Io e) = ''io: '' @ e"
| "show_session_error (UnknownSession s) = ''unknown session '' @ debug_str s"

definition open_root_session ::
  "'g git_env \<Rightarrow> git_repo \<Rightarrow> string \<Rightarrow> string \<Rightarrow> ('g, session_error, session_binding) act" where
  "open_root_session G repo sid branch =
     act_err Se_Git
       (act_then (create_branch G repo branch None) (\<lambda>_.
        act_then (checkout G repo branch) (\<lambda>_.
        act_then (git_head G repo) (\<lambda>h.
        act_return \<lparr>sb_session_id = sid, sb_parent_session = None, sb_branch = branch,
                    sb_worktree_root = gr_root repo, sb_fork_commit = h\<rparr>))))"

definition clone_session ::
  "'g git_env \<Rightarrow> git_repo \<Rightarrow> session_binding \<Rightarrow> string \<Rightarrow> string \<Rightarrow> string \<Rightarrow> ('g, session_error, session_binding) act" where
  "clone_session G repo parent sid branch worktree =
     act_err Se_Git
       (act_then (worktree_add G repo worktree branch) (\<lambda>wt.
        act_then (git_head G wt) (\<lambda>h.
        act_return \<lparr>sb_session_id = sid, sb_parent_session = Some (sb_session_id parent), sb_branch = branch,
                    sb_worktree_root = worktree, sb_fork_commit = h\<rparr>)))"

definition commit_session_work ::
  "'g git_env \<Rightarrow> session_binding \<Rightarrow> string \<Rightarrow> ('g, session_error, string) act" where
  "commit_session_work G b message =
     act_err Se_Git (act_then (git_open G (sb_worktree_root b)) (\<lambda>wt. commit_all G wt message))"

definition merge_session ::
  "'g git_env \<Rightarrow> 'b tx_codec \<Rightarrow> git_repo \<Rightarrow> session_binding \<Rightarrow> string \<Rightarrow> string \<Rightarrow>
   (('g, 'b) merge_world, session_error, merge_transaction \<times> merge_outcome) act" where
  "merge_session G C repo b target i = act_err Se_Merge (open_and_merge G C repo i (sb_branch b) target)"

definition recover_merge :: "'g git_env \<Rightarrow> 'b tx_codec \<Rightarrow> git_repo \<Rightarrow> (('g, 'b) merge_world, session_error, unit) act" where
  "recover_merge G C repo =
     act_then (act_err Se_Merge (inspect C)) (\<lambda>t.
       case t of
         None \<Rightarrow> act_return ()
       | Some tx \<Rightarrow> if mt_phase tx = Conflicted \<or> mt_phase tx = Validating
                    then act_map (\<lambda>_. ()) (act_err Se_Merge (rollback G C repo)) else act_return ())"

section \<open>The edit gate\<close>

record retrieval_evidence =
  re_retrieved_paths :: "string set"
  re_at_revision :: nat

definition evidence_of :: "string list \<Rightarrow> nat \<Rightarrow> retrieval_evidence" where
  "evidence_of paths at_rev = \<lparr>re_retrieved_paths = set paths, re_at_revision = at_rev\<rparr>"

definition covers :: "retrieval_evidence \<Rightarrow> string \<Rightarrow> bool" where
  "covers ev path = (path \<in> re_retrieved_paths ev)"

datatype edit_gate_error = BlindEdit string

fun show_edit_gate_error :: "edit_gate_error \<Rightarrow> string" where
  "show_edit_gate_error (BlindEdit path) =
     ''BLIND EDIT BLOCKED: '' @ debug_str path @ '' was never retrieved '' @ [CHR 0xE2, CHR 0x80, CHR 0x94]
     @ '' gather repository understanding before mutating''"

fun check_edit_allowed :: "retrieval_evidence \<Rightarrow> string list \<Rightarrow> (edit_gate_error, unit) result" where
  "check_edit_allowed ev [] = Inr ()"
| "check_edit_allowed ev (p # ps) = (if \<not> covers ev p then Inl (BlindEdit p) else check_edit_allowed ev ps)"

lemma edit_allowed_iff_retrieved: "check_edit_allowed (evidence_of read n) ps = Inr () \<longleftrightarrow> set ps \<subseteq> set read"
  by (induction ps) (auto simp: evidence_of_def covers_def)

section \<open>What the transaction file always says\<close>

definition tx_ok :: "merge_transaction \<Rightarrow> bool" where
  "tx_ok tx =
     ((mt_phase tx \<in> {Validating, Committed} \<longrightarrow> mt_conflicts tx = [] \<and> mt_commit_sha tx \<noteq> None)
      \<and> (mt_phase tx = Committed \<longrightarrow> list_all snd (mt_validation tx)))"

definition stored :: "'b tx_codec \<Rightarrow> ('g, 'b) merge_world \<Rightarrow> merge_transaction option" where
  "stored C w = (case mw_file w of None \<Rightarrow> None | Some b \<Rightarrow> (case tc_de C b of Inl _ \<Rightarrow> None | Inr tx \<Rightarrow> Some tx))"

definition file_ok :: "'b tx_codec \<Rightarrow> ('g, 'b) merge_world \<Rightarrow> bool" where
  "file_ok C w = (case stored C w of None \<Rightarrow> True | Some tx \<Rightarrow> tx_ok tx)"

definition codec_ok :: "'b tx_codec \<Rightarrow> bool" where
  "codec_ok C \<longleftrightarrow> (\<forall>tx. tc_de C (tc_ser C tx) = Inr tx)"

lemma ensures_in_git [intro]: "ensures (file_ok C) (in_git m) (\<lambda>_. True)"
  by (auto simp: ensures_def in_git_def file_ok_def stored_def split: prod.splits)

lemma ensures_load [intro]: "ensures (file_ok C) (load_tx C) (\<lambda>t. \<forall>tx. t = Some tx \<longrightarrow> tx_ok tx)"
  by (auto simp: ensures_def load_tx_def file_ok_def stored_def split: option.splits sum.splits)

lemma ensures_load_open [intro]: "ensures (file_ok C) (load_open C) tx_ok"
  unfolding load_open_def by (rule ensures_then [OF ensures_load]) (auto split: option.splits)

lemma ensures_save [intro]: "codec_ok C \<Longrightarrow> tx_ok tx \<Longrightarrow> ensures (file_ok C) (save_tx C tx) (\<lambda>_. True)"
  by (auto simp: ensures_def save_tx_def file_ok_def stored_def codec_ok_def split: list.splits option.splits)

lemma ensures_remove [intro]: "ensures (file_ok C) remove_tx (\<lambda>_. True)"
  by (auto simp: ensures_def remove_tx_def file_ok_def stored_def split: list.splits option.splits)

lemma ensures_archive [intro]: "ensures (file_ok C) (archive_old t) (\<lambda>_. True)"
  by (auto simp: archive_old_def split: option.splits merge_phase.splits)

lemma ensures_after_merge [intro]:
  "mt_conflicts tx = [] \<Longrightarrow> ensures (file_ok C) (after_merge G repo tx outcome) tx_ok"
  unfolding after_merge_def
  by (cases outcome) (auto simp: tx_ok_def intro!: ensures_then [OF ensures_in_git])

lemma ensures_finish [intro]:
  "mt_phase tx = Conflicted \<Longrightarrow> ensures (file_ok C) (finish_resolution G repo tx) tx_ok"
  unfolding finish_resolution_def by (auto simp: tx_ok_def intro!: ensures_then [OF ensures_in_git])

lemma ensures_saved: "codec_ok C \<Longrightarrow> tx_ok tx \<Longrightarrow> R x \<Longrightarrow> ensures (file_ok C) (act_then (save_tx C tx) (\<lambda>_. act_return x)) R"
  by (rule ensures_then [OF ensures_save]) auto

lemma open_and_merge_keeps: "codec_ok C \<Longrightarrow> ensures (file_ok C) (open_and_merge G C repo i s t) (\<lambda>_. True)"
  unfolding open_and_merge_def Let_def
  by (intro ensures_then [OF ensures_load] ensures_then [OF ensures_archive] ensures_then [OF ensures_in_git]
      ensures_then [OF ensures_save] ensures_then [OF ensures_after_merge] ensures_saved)
     (simp_all add: tx_ok_def merge_transaction_new_def)

lemma record_resolution_keeps: "codec_ok C \<Longrightarrow> ensures (file_ok C) (record_resolution G C repo p s) (\<lambda>_. True)"
  unfolding record_resolution_def
  by (intro ensures_then [OF ensures_load_open] ensures_if ensures_fail ensures_then [OF ensures_in_git]
      ensures_then [OF ensures_finish] ensures_saved) simp_all

lemma record_validation_keeps: "codec_ok C \<Longrightarrow> ensures (file_ok C) (record_validation C gate b) (\<lambda>_. True)"
  unfolding record_validation_def Let_def
  by (intro ensures_then [OF ensures_load_open] ensures_if ensures_fail ensures_saved) (simp_all add: tx_ok_def)

lemma merge_commit_keeps: "codec_ok C \<Longrightarrow> ensures (file_ok C) (merge_commit C) (\<lambda>_. True)"
  unfolding merge_commit_def Let_def
  by (intro ensures_then [OF ensures_load_open] ensures_if ensures_fail ensures_saved)
     (auto simp: tx_ok_def list_ex_iff list_all_iff)

lemma ensures_unwind: "ensures (file_ok C) (unwind G repo tx) (\<lambda>_. True)"
  unfolding unwind_def by (cases "mt_phase tx") auto

lemma rollback_keeps: "codec_ok C \<Longrightarrow> ensures (file_ok C) (rollback G C repo) (\<lambda>_. True)"
  unfolding rollback_def Let_def
  by (intro ensures_then [OF ensures_load_open] ensures_then [OF ensures_unwind] ensures_then [OF ensures_in_git]
      ensures_if ensures_fail ensures_saved) (simp_all add: tx_ok_def)

lemma recover_merge_keeps: "codec_ok C \<Longrightarrow> ensures (file_ok C) (recover_merge G C repo) (\<lambda>_. True)"
  unfolding recover_merge_def inspect_def act_map_def
  by (rule ensures_then [OF ensures_err [OF ensures_load]])
     (auto split: option.splits intro!: ensures_then [OF ensures_err [OF rollback_keeps]])

section \<open>Runs\<close>

datatype merge_op =
  Open_Merge string string string
| Record_Resolution string string
| Record_Validation string bool
| Commit_Merge
| Rollback_Merge
| Recover_Merge

definition merge_step ::
  "'g git_env \<Rightarrow> 'b tx_codec \<Rightarrow> git_repo \<Rightarrow> ('g, 'b) merge_world \<Rightarrow> merge_op \<Rightarrow> ('g, 'b) merge_world" where
  "merge_step G C repo w x =
     (case x of
        Open_Merge i s t \<Rightarrow> snd (open_and_merge G C repo i s t w)
      | Record_Resolution p s \<Rightarrow> snd (record_resolution G C repo p s w)
      | Record_Validation gate b \<Rightarrow> snd (record_validation C gate b w)
      | Commit_Merge \<Rightarrow> snd (merge_commit C w)
      | Rollback_Merge \<Rightarrow> snd (rollback G C repo w)
      | Recover_Merge \<Rightarrow> snd (recover_merge G C repo w))"

definition merge_inv :: "'b tx_codec \<Rightarrow> ('g, 'b) merge_world \<Rightarrow> bool" where
  "merge_inv C w \<longleftrightarrow> codec_ok C \<and> file_ok C w"

lemma merge_step_inv: "merge_inv C w \<Longrightarrow> merge_inv C (merge_step G C repo w x)"
  using open_and_merge_keeps record_resolution_keeps record_validation_keeps merge_commit_keeps rollback_keeps
    recover_merge_keeps
  by (cases x) (fastforce simp: merge_inv_def merge_step_def ensures_def)+

interpretation merges: machine "merge_step G C repo" "merge_inv C"
  by unfold_locales (rule merge_step_inv)

text \<open>C36: whatever sequence of operations runs, with failing git commands and file writes among them, a transaction
  that is recorded as committed has a merge commit, no open conflict and no failed validation.\<close>
theorem committed_merge_passed_validation:
  assumes "codec_ok C" and "mw_file w = None"
    and "stored C (foldl (merge_step G C repo) w ops) = Some tx" and "mt_phase tx = Committed"
  shows "mt_commit_sha tx \<noteq> None \<and> mt_conflicts tx = [] \<and> list_all snd (mt_validation tx)"
proof -
  have "merge_inv C w" using assms by (simp add: merge_inv_def file_ok_def stored_def)
  then have "merge_inv C (foldl (merge_step G C repo) w ops)" by (rule merges.run_inv)
  then show ?thesis using assms by (simp add: merge_inv_def file_ok_def tx_ok_def)
qed

definition plain_codec :: "merge_transaction tx_codec" where
  "plain_codec = \<lparr>tc_ser = (\<lambda>tx. tx), tc_de = Inr\<rparr>"

text \<open>A git that answers every command with the same text; with a flag, commits fail.\<close>

definition sample_git :: "bool \<Rightarrow> unit git_env" where
  "sample_git nothing_to_commit =
     \<lparr>ge_run = (\<lambda>args g. (Inr \<lparr>po_success = \<not> (nothing_to_commit \<and> args ! 2 = ''commit''), po_stdout = ''c0'',
                            po_stderr = []\<rparr>, g)),
      ge_apply = (\<lambda>_ _ g. (Spawn_Failed [], g))\<rparr>"

definition empty_world :: "(unit, merge_transaction) merge_world" where
  "empty_world = \<lparr>mw_git = (), mw_file = None, mw_faults = []\<rparr>"

definition sample_repo :: git_repo where
  "sample_repo = \<lparr>gr_root = ''/w''\<rparr>"

lemma plain_codec_ok: "codec_ok plain_codec"
  by (simp add: codec_ok_def plain_codec_def)

theorem committed_merge_passed_validation_witness:
  "\<exists>tx. stored plain_codec (foldl (merge_step (sample_git False) plain_codec sample_repo) empty_world
          [Open_Merge ''t'' ''dev'' ''main'', Record_Validation ''build'' True, Commit_Merge]) = Some tx
      \<and> mt_phase tx = Committed \<and> mt_commit_sha tx \<noteq> None \<and> mt_conflicts tx = [] \<and> list_all snd (mt_validation tx)"
proof -
  let ?ops = "[Open_Merge ''t'' ''dev'' ''main'', Record_Validation ''build'' True, Commit_Merge]"
  let ?w = "foldl (merge_step (sample_git False) plain_codec sample_repo) empty_world ?ops"
  have "map_option mt_phase (stored plain_codec ?w) = Some Committed" by code_simp
  then obtain tx where "stored plain_codec ?w = Some tx" "mt_phase tx = Committed" by auto
  then show ?thesis
    using committed_merge_passed_validation [OF plain_codec_ok, of empty_world "sample_git False" sample_repo ?ops tx]
    by (auto simp: empty_world_def)
qed

section \<open>A transaction nobody can close\<close>

text \<open>In phase \<^term>\<open>Open\<close> every operation is refused and changes nothing.\<close>

lemma open_phase_is_stuck:
  assumes "mw_file w = Some b" and "tc_de C b = Inr tx" and "mt_phase tx = Open"
  shows "merge_step G C repo w x = w"
proof -
  have l: "load_tx C w = (Inr (Some tx), w)" using assms by (simp add: load_tx_def)
  then have lo: "load_open C w = (Inr tx, w)" by (simp add: load_open_def act_return_def)
  show ?thesis
  proof (cases x)
    case (Open_Merge i s t)
    then show ?thesis
      using assms(3) l by (simp add: merge_step_def open_and_merge_def archive_old_def act_then_def act_fail_def)
  next
    case Recover_Merge
    then show ?thesis
      using assms(3) l
      by (simp add: merge_step_def recover_merge_def inspect_def act_then_def act_err_def act_return_def)
  qed (use assms(3) lo in \<open>simp_all add: merge_step_def record_resolution_def record_validation_def merge_commit_def
      rollback_def unwind_def act_then_def act_fail_def\<close>)
qed

text \<open>Merging a branch that is already merged wedges the workspace. Git accepts the merge and then has nothing to
  commit; the transaction has been written in phase \<^term>\<open>Open\<close>, and from then on no sequence of operations, recovery included,
  changes anything.\<close>

lemma merge_with_nothing_to_commit_wedges:
  assumes "codec_ok C" and "mw_file w = None" and "mw_faults w = []" and "mw_git w = g0"
    and "merge_base G repo source target g0 = (Inr base, g1)" and "checkout G repo target g1 = (Inr (), g2)"
    and "git_head G repo g2 = (Inr h, g3)" and "start_merge G repo source g3 = (Inr Merged, g4)"
    and "conclude_merge G repo (merge_message source i) g4 = (Inl e, g5)"
  shows "\<exists>w'. open_and_merge G C repo i source target w = (Inl (Mt_Git e), w')
    \<and> map_option mt_phase (stored C w') = Some Open \<and> (\<forall>ops. foldl (merge_step G C repo) w' ops = w')"
proof -
  let ?tx = "(merge_transaction_new i source target)\<lparr>mt_base_commit := base, mt_target_head := h\<rparr>"
  let ?w = "w\<lparr>mw_git := g5, mw_file := Some (tc_ser C ?tx)\<rparr>"
  have run: "open_and_merge G C repo i source target w = (Inl (Mt_Git e), ?w)"
    using assms(2-9)
    by (simp add: open_and_merge_def load_tx_def archive_old_def act_then_def act_return_def in_git_def save_tx_def
        after_merge_def Let_def merge_transaction_new_def)
  have de: "tc_de C (tc_ser C ?tx) = Inr ?tx" and ph: "mt_phase ?tx = Open"
    using assms(1) by (simp_all add: codec_ok_def merge_transaction_new_def)
  have "merge_step G C repo ?w x = ?w" for x using open_phase_is_stuck [OF _ de ph, of ?w] by simp
  then have "foldl (merge_step G C repo) ?w ops = ?w" for ops by (induction ops) simp_all
  moreover have "map_option mt_phase (stored C ?w) = Some Open" using de ph by (simp add: stored_def)
  ultimately show ?thesis using run by blast
qed

lemma merge_with_nothing_to_commit_wedges_witness:
  "\<exists>e w'. open_and_merge (sample_git True) plain_codec sample_repo ''t'' ''dev'' ''main'' empty_world = (Inl (Mt_Git e), w')
    \<and> map_option mt_phase (stored plain_codec w') = Some Open
    \<and> (\<forall>ops. foldl (merge_step (sample_git True) plain_codec sample_repo) w' ops = w')"
proof -
  note run = git_text_def git_unit_def act_map_def act_then_def act_return_def git_def sample_git_def stdout_text_def
  have "merge_base (sample_git True) sample_repo ''dev'' ''main'' () = (Inr ''c0'', ())"
    "git_head (sample_git True) sample_repo () = (Inr ''c0'', ())"
    by (simp_all add: merge_base_def git_head_def run str_trim_def is_space_def)
  moreover have "checkout (sample_git True) sample_repo ''main'' () = (Inr (), ())"
    by (simp add: checkout_def run)
  moreover have "start_merge (sample_git True) sample_repo ''dev'' () = (Inr Merged, ())"
    by (simp add: start_merge_def run)
  moreover obtain e where "conclude_merge (sample_git True) sample_repo (merge_message ''dev'' ''t'') () = (Inl e, ())"
    by (auto simp: conclude_merge_def run Let_def)
  ultimately show ?thesis
    using merge_with_nothing_to_commit_wedges [OF plain_codec_ok, of empty_world "()" "sample_git True" sample_repo
        "''dev''" "''main''" "''c0''" "()" "()" "''c0''" "()" "()" "''t''" e "()"]
    by (auto simp: empty_world_def)
qed

text \<open>
  A merge that git refuses to start is taken for a conflict without conflicted files. There is then no merge to abort, the
  rollback fails, and the record stays where it was.
\<close>

lemma refused_merge_cannot_be_rolled_back:
  assumes "mw_file w = Some b" and "tc_de C b = Inr tx" and "mt_phase tx = Conflicted"
    and "abort_merge_state G repo (mw_git w) = (Inl e, g')"
  shows "rollback G C repo w = (Inl (Mt_Git e), w\<lparr>mw_git := g'\<rparr>)"
  using assms by (simp add: rollback_def load_open_def load_tx_def unwind_def act_then_def act_return_def in_git_def)

end
