(* ===== verification/Protocol_State.thy ===== *)
theory Protocol_State
  imports Ordered_Map Rust_Text
begin

text \<open>
  The durable journal of protocol records (\<^verbatim>\<open>crates/protocol-state/src/lib.rs\<close>): one JSON line per record,
  replayed when the store is opened. The JSON codec is a parameter, and so is what becomes of a write: it may be
  cut after any number of bytes, by an error or by a crash.
\<close>

section \<open>Records\<close>

datatype tool_call_status = Call_AwaitingApproval | Call_Approved | Call_Running | Call_Completed

datatype approval_status = Approval_Pending | Approval_Granted | Approval_Denied

datatype protocol_record =
  ToolCall_Record string string string tool_call_status
| ApprovalRequest string string string approval_status
| Question_Record string string bool
| TerminalCursor string nat
| Subagent string string string

datatype protocol_state_error = Ps_Io string | Ps_Serialization string

fun show_protocol_state_error :: "protocol_state_error \<Rightarrow> string" where
  "show_protocol_state_error (Ps_Io e) = ''protocol state io: '' @ e"
| "show_protocol_state_error (Ps_Serialization e) = ''protocol state serialization: '' @ e"

section \<open>The journal\<close>

type_synonym record_de = "string \<Rightarrow> (string, protocol_record) result"
type_synonym record_ser = "protocol_record \<Rightarrow> string"

record protocol_store =
  st_journal :: "string option"
  st_records :: "protocol_record list"

text \<open>The loop over the lines: only the last line may fail to parse.\<close>

fun replay_lines :: "record_de \<Rightarrow> string list \<Rightarrow> (protocol_state_error, protocol_record list) result" where
  "replay_lines de [] = Inr []"
| "replay_lines de (l # ls) =
     (case de l of
        Inr r \<Rightarrow> and_then (replay_lines de ls) (\<lambda>rs. Inr (r # rs))
      | Inl e \<Rightarrow> if ls = [] then Inr [] else Inl (Ps_Serialization e))"

definition store_open :: "record_de \<Rightarrow> string option \<Rightarrow> (protocol_state_error, protocol_store) result" where
  "store_open de journal =
     (case journal of
        None \<Rightarrow> Inr \<lparr>st_journal = None, st_records = []\<rparr>
      | Some txt \<Rightarrow>
          if \<not> valid_utf8 txt then Inl (Ps_Io ''stream did not contain valid UTF-8'')
          else and_then (replay_lines de (filter (\<lambda>l. l \<noteq> []) (str_lines txt))) (\<lambda>rs.
               Inr \<lparr>st_journal = journal, st_records = rs\<rparr>))"

text \<open>What the operating system does with an append.\<close>

datatype write_outcome = Written | Open_Failed string | Torn nat string

definition journal_text :: "protocol_store \<Rightarrow> string" where
  "journal_text st = (case st_journal st of None \<Rightarrow> [] | Some txt \<Rightarrow> txt)"

definition store_append ::
  "record_ser \<Rightarrow> write_outcome \<Rightarrow> protocol_record \<Rightarrow> protocol_store \<Rightarrow> (protocol_state_error, unit) result \<times> protocol_store" where
  "store_append ser out r st =
     (let line = ser r @ [CHR 0x0A]
      in case out of
           Open_Failed e \<Rightarrow> (Inl (Ps_Io e), st)
         | Torn n e \<Rightarrow> (Inl (Ps_Io e), st\<lparr>st_journal := Some (journal_text st @ take n line)\<rparr>)
         | Written \<Rightarrow> (Inr (), st\<lparr>st_journal := Some (journal_text st @ line), st_records := st_records st @ [r]\<rparr>))"

section \<open>Queries\<close>

definition approval_entries :: "protocol_record list \<Rightarrow> (string \<times> (string \<times> approval_status)) list" where
  "approval_entries rs =
     concat (map (\<lambda>r. case r of ApprovalRequest i tool scope s \<Rightarrow> [(i, (tool, s))] | _ \<Rightarrow> []) rs)"

definition journal_pending :: "protocol_store \<Rightarrow> (string \<times> string \<times> approval_status) option" where
  "journal_pending st =
     (let latest = foldl (\<lambda>m e. bt_insert (fst e) (snd e) m) [] (approval_entries (st_records st))
      in find (\<lambda>e. snd (snd e) = Approval_Pending) latest)"

fun find_cursor :: "string \<Rightarrow> protocol_record list \<Rightarrow> nat option" where
  "find_cursor consumer [] = None"
| "find_cursor consumer (TerminalCursor run offset # rs) = (if run = consumer then Some offset else find_cursor consumer rs)"
| "find_cursor consumer (_ # rs) = find_cursor consumer rs"

definition last_cursor :: "string \<Rightarrow> protocol_store \<Rightarrow> nat option" where
  "last_cursor consumer st = find_cursor consumer (rev (st_records st))"

definition tool_calls :: "protocol_store \<Rightarrow> (string \<times> tool_call_status) list" where
  "tool_calls st = concat (map (\<lambda>r. case r of ToolCall_Record i name args s \<Rightarrow> [(name, s)] | _ \<Rightarrow> []) (st_records st))"

section \<open>Queries answer from the latest record\<close>

definition latest_approval :: "protocol_record list \<Rightarrow> string \<Rightarrow> (string \<times> approval_status) option" where
  "latest_approval rs i = map_of (rev (approval_entries rs)) i"

lemma find_least_key:
  "bt_sorted m \<Longrightarrow> find (\<lambda>e. P (snd e)) m = Some (k, v) \<longleftrightarrow>
     bt_get k m = Some v \<and> P v \<and> (\<forall>j u. j < k \<longrightarrow> bt_get j m = Some u \<longrightarrow> \<not> P u)"
proof (induction m)
  case (Cons e m)
  obtain a b where e: "e = (a, b)" by (cases e)
  have s: "bt_sorted m" "\<And>x. x \<in> fst ` set m \<Longrightarrow> a < x" using Cons.prems e by (auto simp: bt_sorted_def)
  have dom: "bt_get x m = Some y \<Longrightarrow> a < x" for x y using s(2) map_of_SomeD by (fastforce simp: bt_get_def)
  show ?case
  proof (cases "P b")
    case True
    then show ?thesis using e dom by (auto simp: bt_get_def split: if_splits) (meson not_less_iff_gr_or_eq)
  next
    case False
    then show ?thesis using e Cons.IH [OF s(1)] dom by (auto simp: bt_get_def split: if_splits) (metis less_irrefl)
  qed
qed (simp add: bt_get_def)

lemma journal_pending_iff:
  "journal_pending st = Some (i, tool, s) \<longleftrightarrow>
     latest_approval (st_records st) i = Some (tool, s) \<and> s = Approval_Pending
     \<and> (\<forall>j t. j < i \<longrightarrow> latest_approval (st_records st) j \<noteq> Some (t, Approval_Pending))"
proof -
  let ?m = "foldl (\<lambda>m e. bt_insert (fst e) (snd e) m) [] (approval_entries (st_records st))"
  have m: "bt_sorted ?m" "bt_get k ?m = latest_approval (st_records st) k" for k
    using bt.replay_ok [of "[]" "approval_entries (st_records st)"] bt.replay_get [of "[]" k "approval_entries (st_records st)"]
    by (simp_all add: latest_approval_def split: option.splits)
  have "journal_pending st = Some (i, tool, s) \<longleftrightarrow> find (\<lambda>e. snd (snd e) = Approval_Pending) ?m = Some (i, tool, s)"
    by (simp add: journal_pending_def Let_def)
  also have "\<dots> \<longleftrightarrow> bt_get i ?m = Some (tool, s) \<and> s = Approval_Pending
      \<and> (\<forall>j u. j < i \<longrightarrow> bt_get j ?m = Some u \<longrightarrow> snd u \<noteq> Approval_Pending)"
    using find_least_key [OF m(1), of "\<lambda>v. snd v = Approval_Pending" i "(tool, s)"] by simp
  finally show ?thesis unfolding m(2) by fastforce
qed

section \<open>Crashes\<close>

definition written_journal :: "record_ser \<Rightarrow> protocol_record list \<Rightarrow> string" where
  "written_journal ser rs = concat (map (\<lambda>r. ser r @ [CHR 0x0A]) rs)"

text \<open>What the code relies on: a record reads back from its line, the line is UTF-8 text without control characters (which JSON
  escapes), and no shorter piece of the line parses.\<close>

abbreviation plain_text :: "string \<Rightarrow> bool" where
  "plain_text l \<equiv> list_all (byte_in 32 255) l"

definition line_codec :: "record_ser \<Rightarrow> record_de \<Rightarrow> protocol_record \<Rightarrow> bool" where
  "line_codec ser de r \<longleftrightarrow>
     (de (ser r) = Inr r \<and> ser r \<noteq> [] \<and> valid_utf8 (ser r) \<and> plain_text (ser r)
      \<and> (\<forall>n < length (ser r). \<not> is_ok (de (take n (ser r)))))"

lemma plain_no_breaks:
  assumes "plain_text l"
  shows "CHR 0x0A \<notin> set l \<and> (l = [] \<or> last l \<noteq> CHR 0x0D)"
proof -
  have "\<not> byte_in 32 255 (CHR 0x0A)" "\<not> byte_in 32 255 (CHR 0x0D)" by (simp_all add: byte_in_def)
  then show ?thesis using assms last_in_set [of l] by (metis list_all_iff)
qed

definition text_line :: "string \<Rightarrow> bool" where
  "text_line l \<longleftrightarrow> l \<noteq> [] \<and> valid_utf8 l \<and> plain_text l"

definition lines_text :: "string list \<Rightarrow> string" where
  "lines_text ls = concat (map (\<lambda>l. l @ [CHR 0x0A]) ls)"

text \<open>What follows valid text decides whether the whole is valid.\<close>

lemma utf8_head:
  assumes "valid_utf8 (x # s)"
  shows "\<exists>h t. x # s = h @ t \<and> h \<noteq> [] \<and> valid_utf8 t \<and> (\<forall>b. valid_utf8 (h @ b) = valid_utf8 b)"
proof (cases "byte_in 0 127 x")
  case True
  with assms show ?thesis by (intro exI [of _ "[x]"] exI [of _ s]) simp
next
  case one: False
  with assms obtain b s1 where s: "s = b # s1" by (cases s) auto
  show ?thesis
  proof (cases "byte_in 194 223 x")
    case True
    with assms one s show ?thesis by (intro exI [of _ "[x, b]"] exI [of _ s1]) simp
  next
    case two: False
    with assms one s obtain c s2 where s1: "s1 = c # s2" by (cases s1) auto
    show ?thesis
    proof (cases "byte_in 224 224 x \<or> byte_in 237 237 x \<or> byte_in 225 239 x")
      case True
      with assms one two s s1 show ?thesis by (intro exI [of _ "[x, b, c]"] exI [of _ s2]) (auto split: if_splits)
    next
      case False
      with assms one two s s1 obtain d s3 where s2: "s2 = d # s3" by (cases s2) auto
      with assms one two False s s1 show ?thesis
        by (intro exI [of _ "[x, b, c, d]"] exI [of _ s3]) (auto split: if_splits)
    qed
  qed
qed

lemma valid_utf8_append: "valid_utf8 a \<Longrightarrow> valid_utf8 (a @ b) = valid_utf8 b"
proof (induction a rule: length_induct)
  case (1 a)
  show ?case
  proof (cases a)
    case (Cons x s)
    with utf8_head [of x s] 1(2) obtain h t where a: "a = h @ t" "h \<noteq> []" "valid_utf8 t"
      and h: "\<And>b. valid_utf8 (h @ b) = valid_utf8 b" by blast
    then have "valid_utf8 (t @ b) = valid_utf8 b" using 1(1) by simp
    with a h [of "t @ b"] show ?thesis by simp
  qed simp
qed

lemma valid_utf8_lines: "list_all text_line ls \<Longrightarrow> valid_utf8 (lines_text ls @ t) = valid_utf8 t"
proof (induction ls)
  case (Cons l ls)
  have "byte_in 0 127 (CHR 0x0A)" by (simp add: byte_in_def)
  then have "valid_utf8 (CHR 0x0A # x) = valid_utf8 x" for x by simp
  then show ?case using Cons valid_utf8_append [of l "CHR 0x0A # lines_text ls @ t"]
    by (simp add: lines_text_def text_line_def)
qed (simp add: lines_text_def)

text \<open>Opening a journal of whole lines, and of whole lines followed by a piece of one.\<close>

lemma open_lines:
  assumes "list_all text_line ls" and "plain_text t"
  shows "store_open de (Some (lines_text ls @ t)) =
    (if valid_utf8 t
     then and_then (replay_lines de (ls @ (if t = [] then [] else [t]))) (\<lambda>rs.
            Inr \<lparr>st_journal = Some (lines_text ls @ t), st_records = rs\<rparr>)
     else Inl (Ps_Io ''stream did not contain valid UTF-8''))"
proof -
  have plain: "\<forall>l \<in> set (t # ls). CHR 0x0A \<notin> set l \<and> (l = [] \<or> last l \<noteq> CHR 0x0D)"
  proof
    fix l assume "l \<in> set (t # ls)"
    then have "plain_text l" using assms by (auto simp: list_all_iff [of text_line] text_line_def)
    then show "CHR 0x0A \<notin> set l \<and> (l = [] \<or> last l \<noteq> CHR 0x0D)" by (rule plain_no_breaks)
  qed
  have "str_lines (lines_text ls @ t) = ls @ (if t = [] then [] else [t])"
    using plain str_lines_written [of ls] str_lines_torn [OF plain] by (simp add: lines_text_def)
  moreover have "filter (\<lambda>l. l \<noteq> []) (ls @ (if t = [] then [] else [t])) = ls @ (if t = [] then [] else [t])"
    using assms(1) by (simp add: filter_id_conv list_all_iff [of text_line] text_line_def)
  ultimately show ?thesis by (simp add: store_open_def valid_utf8_lines [OF assms(1)])
qed

lemma replay_written:
  "list_all (line_codec ser de) rs \<Longrightarrow>
   replay_lines de (map ser rs @ ls) = and_then (replay_lines de ls) (\<lambda>xs. Inr (rs @ xs))"
proof (induction rs)
  case Nil
  show ?case by (cases "replay_lines de ls") simp_all
next
  case (Cons r rs)
  then show ?case by (cases "replay_lines de ls") (simp_all add: line_codec_def)
qed

lemma codec_lines: "list_all (line_codec ser de) rs \<Longrightarrow> list_all text_line (map ser rs)"
  by (simp add: list_all_length line_codec_def text_line_def)

lemma written_journal_lines: "written_journal ser rs = lines_text (map ser rs)"
  by (simp add: written_journal_def lines_text_def comp_def)

definition written_store :: "record_ser \<Rightarrow> protocol_record list \<Rightarrow> protocol_store" where
  "written_store ser rs =
     foldl (\<lambda>st r. snd (store_append ser Written r st)) \<lparr>st_journal = None, st_records = []\<rparr> rs"

lemma written_store_fields: "journal_text (written_store ser rs) = written_journal ser rs \<and> st_records (written_store ser rs) = rs"
  by (induction rs rule: rev_induct)
     (simp_all add: written_store_def journal_text_def written_journal_def store_append_def Let_def)

lemma torn_piece:
  assumes "line_codec ser de r"
  shows "plain_text (take n (ser r))" and "n < length (ser r) \<Longrightarrow> \<exists>x. de (take n (ser r)) = Inl x"
proof -
  show "plain_text (take n (ser r))"
    using assms in_set_takeD [of _ n "ser r"] unfolding line_codec_def by (metis list_all_iff)
  show "n < length (ser r) \<Longrightarrow> \<exists>x. de (take n (ser r)) = Inl x"
    using assms by (cases "de (take n (ser r))") (auto simp: line_codec_def)
qed

lemma reopen_torn:
  assumes "list_all (line_codec ser de) (r # rs)"
  shows "store_open de (Some (written_journal ser rs @ take n (ser r @ [CHR 0x0A]))) =
    (if valid_utf8 (take n (ser r))
     then Inr \<lparr>st_journal = Some (written_journal ser rs @ take n (ser r @ [CHR 0x0A])),
               st_records = (if length (ser r) \<le> n then rs @ [r] else rs)\<rparr>
     else Inl (Ps_Io ''stream did not contain valid UTF-8''))"
proof (cases "length (ser r) < n")
  case True
  then have "written_journal ser rs @ take n (ser r @ [CHR 0x0A]) = lines_text (map ser (rs @ [r])) @ []"
    by (simp add: written_journal_def lines_text_def comp_def)
  moreover have "valid_utf8 (take n (ser r))" using True assms by (simp add: line_codec_def)
  ultimately show ?thesis
    using True assms open_lines [OF codec_lines [of ser de "rs @ [r]"], of "[]" de] replay_written [of ser de "rs @ [r]" "[]"]
    by simp
next
  case False
  have r: "line_codec ser de r" and rs: "list_all (line_codec ser de) rs" using assms by simp_all
  have j: "written_journal ser rs @ take n (ser r @ [CHR 0x0A]) = lines_text (map ser rs) @ take n (ser r)"
    using False by (simp add: written_journal_lines)
  have "de (ser r) = Inr r" "ser r \<noteq> []" using r by (simp_all add: line_codec_def)
  then show ?thesis
    unfolding j open_lines [OF codec_lines [OF rs] torn_piece(1) [OF r, of n], of de]
    using False torn_piece(2) [OF r, of n] replay_written [OF rs]
    by (auto simp: not_less le_less)
qed

text \<open>C29: what a crash in the middle of an append leaves, for a journal with no torn line from an earlier crash, and records whose
  lines are UTF-8 text without control characters, read back, and do not parse when cut short. If the bytes of the
  interrupted line that reached the disk end between two characters, reopening the store gives exactly the records
  of the completed appends, together with the interrupted one once all its text is there, and the pending approval and the
  cursors are otherwise those of before the crash. If they end inside a character, reopening fails.\<close>
theorem crash_keeps_protocol_state:
  assumes "list_all (line_codec ser de) (r # rs)"
  shows "if valid_utf8 (take n (ser r))
    then \<exists>st. store_open de (st_journal (snd (store_append ser (Torn n e) r (written_store ser rs)))) = Inr st
      \<and> st_records st = (if length (ser r) \<le> n then rs @ [r] else rs)
      \<and> (n < length (ser r) \<longrightarrow> journal_pending st = journal_pending (written_store ser rs)
           \<and> last_cursor c st = last_cursor c (written_store ser rs))
    else store_open de (st_journal (snd (store_append ser (Torn n e) r (written_store ser rs)))) =
      Inl (Ps_Io ''stream did not contain valid UTF-8'')"
proof -
  have "st_journal (snd (store_append ser (Torn n e) r (written_store ser rs))) =
      Some (written_journal ser rs @ take n (ser r @ [CHR 0x0A]))"
    using written_store_fields [of ser rs] by (simp add: store_append_def Let_def)
  then show ?thesis
    using reopen_torn [OF assms, of n] written_store_fields [of ser rs]
    by (auto simp: journal_pending_def last_cursor_def split: if_splits)
qed

definition sample_record :: protocol_record where
  "sample_record = ApprovalRequest ''a'' ''run'' ''/w'' Approval_Pending"

text \<open>A line with a character of two bytes.\<close>

definition sample_line :: string where
  "sample_line = [CHR ''{'', CHR 0xC3, CHR 0xA9, CHR ''}'']"

definition sample_de :: record_de where
  "sample_de l = (if l = sample_line then Inr sample_record else Inl ''syntax'')"

lemma sample_codec: "line_codec (\<lambda>_. sample_line) sample_de sample_record"
proof -
  have "valid_utf8 sample_line" "list_all (byte_in 32 255) sample_line" by code_simp+
  moreover have "n < length sample_line \<Longrightarrow> take n sample_line \<noteq> sample_line" for n
    by (metis length_take min.strict_order_iff not_less_iff_gr_or_eq)
  ultimately show ?thesis by (auto simp: line_codec_def sample_de_def) (simp add: sample_line_def)
qed

theorem crash_keeps_protocol_state_witness:
  "(\<exists>st. store_open sample_de (st_journal (snd (store_append (\<lambda>_. sample_line) (Torn 1 []) sample_record
         (written_store (\<lambda>_. sample_line) [sample_record])))) = Inr st \<and> st_records st = [sample_record])
   \<and> store_open sample_de (st_journal (snd (store_append (\<lambda>_. sample_line) (Torn 2 []) sample_record
         (written_store (\<lambda>_. sample_line) [sample_record])))) = Inl (Ps_Io ''stream did not contain valid UTF-8'')"
proof -
  have c: "list_all (line_codec (\<lambda>_. sample_line) sample_de) [sample_record, sample_record]" using sample_codec by simp
  have v: "valid_utf8 (take 1 sample_line)" "\<not> valid_utf8 (take 2 sample_line)" "\<not> length sample_line \<le> 1" by code_simp+
  show ?thesis
    using crash_keeps_protocol_state [OF c, of 1 "[]"] crash_keeps_protocol_state [OF c, of 2 "[]"]
    by (simp only: v if_True if_False) blast
qed

section \<open>What a torn line does to the next records\<close>

text \<open>A store that was reopened after a torn append accepts the next record and loses it: its line continues the
  torn one. The record is missing after the next restart, and once a further record was appended the journal
  cannot be opened at all.\<close>

lemma torn_line_swallows_next_record:
  assumes "list_all (line_codec ser de) (r # r1 # r2 # rs)" and "0 < n" and "n < length (ser r)"
    and "de (take n (ser r) @ ser r1) = Inl e" and "valid_utf8 (take n (ser r))"
  shows "\<exists>st st1 st2. store_open de (Some (written_journal ser rs @ take n (ser r))) = Inr st
    \<and> store_append ser Written r1 st = (Inr (), st1) \<and> st_records st1 = rs @ [r1]
    \<and> (\<exists>st'. store_open de (st_journal st1) = Inr st' \<and> st_records st' = rs)
    \<and> store_append ser Written r2 st1 = (Inr (), st2)
    \<and> store_open de (st_journal st2) = Inl (Ps_Serialization e)"
proof -
  let ?t = "take n (ser r)" and ?j = "written_journal ser rs @ take n (ser r)"
  let ?l1 = "map ser rs @ [take n (ser r) @ ser r1]"
  have rs: "list_all (line_codec ser de) rs" and rr: "line_codec ser de r" "line_codec ser de r1" "line_codec ser de r2"
    using assms(1) by simp_all
  obtain x where x: "de ?t = Inl x" using torn_piece(2) [OF rr(1) assms(3)] by blast
  have ne: "?t \<noteq> []" using assms(2,3) by auto
  have v: "valid_utf8 ?t" using assms(5) .
  have r1: "text_line (?t @ ser r1)" "text_line (ser r2)"
    using torn_piece(1) [OF rr(1), of n] rr(2,3) v by (simp_all add: line_codec_def text_line_def valid_utf8_append)
  have st: "store_open de (Some ?j) = Inr \<lparr>st_journal = Some ?j, st_records = rs\<rparr>"
    using open_lines [OF codec_lines [OF rs] torn_piece(1) [OF rr(1), of n], of de] replay_written [OF rs, of "[?t]"] x ne v
    by (simp add: written_journal_lines)
  have j1: "?j @ ser r1 @ [CHR 0x0A] = lines_text ?l1"
    and j2: "?j @ ser r1 @ [CHR 0x0A] @ ser r2 @ [CHR 0x0A] = lines_text (?l1 @ [ser r2])"
    by (simp_all add: written_journal_def lines_text_def comp_def)
  have "store_open de (Some (lines_text ?l1)) = Inr \<lparr>st_journal = Some (lines_text ?l1), st_records = rs\<rparr>"
    using open_lines [of ?l1 "[]" de] codec_lines [OF rs] r1 replay_written [OF rs, of "[?t @ ser r1]"] assms(4) by simp
  moreover have "store_open de (Some (lines_text (?l1 @ [ser r2]))) = Inl (Ps_Serialization e)"
    using open_lines [of "?l1 @ [ser r2]" "[]" de] codec_lines [OF rs] r1
      replay_written [OF rs, of "[?t @ ser r1, ser r2]"] assms(4) by simp
  ultimately show ?thesis using st j1 j2 by (simp add: store_append_def journal_text_def Let_def)
qed

lemma torn_line_swallows_next_record_witness:
  "\<exists>st st1. store_open sample_de (Some ''{'') = Inr st
    \<and> store_append (\<lambda>_. sample_line) Written sample_record st = (Inr (), st1) \<and> st_records st1 = [sample_record]
    \<and> (\<exists>st'. store_open sample_de (st_journal st1) = Inr st' \<and> st_records st' = [])"
proof -
  have t: "take 1 sample_line = ''{''" "1 < length sample_line" "valid_utf8 (take 1 sample_line)" by code_simp+
  have "sample_de (take 1 sample_line @ sample_line) = Inl ''syntax''" by code_simp
  from torn_line_swallows_next_record [of "\<lambda>_. sample_line" sample_de sample_record sample_record sample_record "[]", OF _ _ t(2) this t(3)]
  show ?thesis using sample_codec unfolding written_journal_def t(1) by auto
qed

end
