(* ===== verification/File_System.thy ===== *)
theory File_System
  imports Rust_Text "HOL-Library.Sublist"
begin

text \<open>
  The part of the operating system's file system that the sources call through \<open>std::fs\<close> and \<open>std::path\<close>: regular
  files, directories and symbolic links under absolute paths. A symbolic link names an absolute path; following more than
  40 of them is an error, as on Linux. Every changing operation consumes one entry of a list of faults, where
  \<open>Some e\<close> makes it fail with \<open>e\<close> and no effect.
\<close>

type_synonym fpath = "string list"

record disk =
  dk_files :: "fpath \<Rightarrow> string option"
  dk_dirs :: "fpath set"
  dk_links :: "fpath \<Rightarrow> fpath option"
  dk_faults :: "string option list"

section \<open>Paths\<close>

text \<open>Following links component by component: what was reached, and what is left.\<close>

function follow :: "nat \<Rightarrow> (fpath \<Rightarrow> fpath option) \<Rightarrow> fpath \<Rightarrow> fpath \<Rightarrow> fpath option" where
  "follow n L reached [] = Some reached"
| "follow n L reached (c # cs) =
     (case L (reached @ [c]) of
        None \<Rightarrow> follow n L (reached @ [c]) cs
      | Some t \<Rightarrow> if n = 0 then None else follow (n - 1) L [] (t @ cs))"
  by pat_completeness auto
termination by (relation "measures [\<lambda>(n, L, d, r). n, \<lambda>(n, L, d, r). length r]") auto

definition os_resolve :: "disk \<Rightarrow> fpath \<Rightarrow> fpath option" where
  "os_resolve d p = follow 40 (dk_links d) [] p"

definition present :: "disk \<Rightarrow> fpath \<Rightarrow> bool" where
  "present d q = (dk_files d q \<noteq> None \<or> q \<in> dk_dirs d)"

definition fs_exists :: "disk \<Rightarrow> fpath \<Rightarrow> bool" where
  "fs_exists d p = (case os_resolve d p of None \<Rightarrow> False | Some q \<Rightarrow> present d q)"

definition fs_canonicalize :: "disk \<Rightarrow> fpath \<Rightarrow> (string, fpath) result" where
  "fs_canonicalize d p =
     (case os_resolve d p of
        None \<Rightarrow> Inl ''too many levels of symbolic links''
      | Some q \<Rightarrow> if present d q then Inr q else Inl ''no such file or directory'')"

text \<open>The place a path names when its last component is not followed.\<close>

definition os_place :: "disk \<Rightarrow> fpath \<Rightarrow> fpath option" where
  "os_place d p = (if p = [] then Some [] else map_option (\<lambda>q. q @ [last p]) (os_resolve d (butlast p)))"

text \<open>\<open>Path::file_stem\<close> and \<open>Path::with_extension\<close>.\<close>

definition file_stem :: "string \<Rightarrow> string" where
  "file_stem name =
     (case split_once CHR ''.'' (rev name) of
        None \<Rightarrow> name
      | Some (after, before) \<Rightarrow> if before = [] then name else rev before)"

definition with_extension :: "fpath \<Rightarrow> string \<Rightarrow> fpath" where
  "with_extension p ext = butlast p @ [file_stem (last p) @ ''.'' @ ext]"

section \<open>Operations\<close>

text \<open>An operation that may fail for a reason of its own and then for a fault.\<close>

definition effect :: "disk \<Rightarrow> (string, disk) result \<Rightarrow> (string, unit) result \<times> disk" where
  "effect d r =
     (case dk_faults d of
        Some e # fs \<Rightarrow> (Inl e, d\<lparr>dk_faults := fs\<rparr>)
      | fs \<Rightarrow> (case r of Inl e \<Rightarrow> (Inl e, d\<lparr>dk_faults := tl fs\<rparr>) | Inr d' \<Rightarrow> (Inr (), d'\<lparr>dk_faults := tl fs\<rparr>)))"

definition fs_read :: "disk \<Rightarrow> fpath \<Rightarrow> (string, string) result" where
  "fs_read d p =
     (case os_resolve d p of
        None \<Rightarrow> Inl ''too many levels of symbolic links''
      | Some q \<Rightarrow> (case dk_files d q of Some b \<Rightarrow> Inr b | None \<Rightarrow> Inl ''no such file or directory''))"

definition fs_write :: "fpath \<Rightarrow> string \<Rightarrow> disk \<Rightarrow> (string, unit) result \<times> disk" where
  "fs_write p b d =
     effect d (case os_resolve d p of
                 None \<Rightarrow> Inl ''too many levels of symbolic links''
               | Some q \<Rightarrow> if q \<in> dk_dirs d then Inl ''is a directory''
                           else if butlast q \<notin> dk_dirs d then Inl ''no such file or directory''
                           else Inr (d\<lparr>dk_files := (dk_files d)(q \<mapsto> b)\<rparr>))"

definition fs_append :: "fpath \<Rightarrow> string \<Rightarrow> disk \<Rightarrow> (string, unit) result \<times> disk" where
  "fs_append p b d =
     effect d (case os_resolve d p of
                 None \<Rightarrow> Inl ''too many levels of symbolic links''
               | Some q \<Rightarrow> if q \<in> dk_dirs d then Inl ''is a directory''
                           else if butlast q \<notin> dk_dirs d then Inl ''no such file or directory''
                           else Inr (d\<lparr>dk_files := (dk_files d)(q \<mapsto> (case dk_files d q of None \<Rightarrow> b | Some a \<Rightarrow> a @ b))\<rparr>))"

definition fs_rename :: "fpath \<Rightarrow> fpath \<Rightarrow> disk \<Rightarrow> (string, unit) result \<times> disk" where
  "fs_rename a b d =
     effect d (case (os_place d a, os_place d b) of
                 (Some x, Some y) \<Rightarrow>
                   (case dk_files d x of
                      None \<Rightarrow> Inl ''no such file or directory''
                    | Some c \<Rightarrow>
                        if y \<in> dk_dirs d then Inl ''is a directory''
                        else if butlast y \<notin> dk_dirs d then Inl ''no such file or directory''
                        else Inr (d\<lparr>dk_files := (dk_files d)(x := None, y \<mapsto> c), dk_links := (dk_links d)(y := None)\<rparr>))
               | _ \<Rightarrow> Inl ''too many levels of symbolic links'')"

definition fs_remove_file :: "fpath \<Rightarrow> disk \<Rightarrow> (string, unit) result \<times> disk" where
  "fs_remove_file p d =
     effect d (case os_place d p of
                 None \<Rightarrow> Inl ''too many levels of symbolic links''
               | Some x \<Rightarrow> if dk_links d x \<noteq> None then Inr (d\<lparr>dk_links := (dk_links d)(x := None)\<rparr>)
                           else if dk_files d x \<noteq> None then Inr (d\<lparr>dk_files := (dk_files d)(x := None)\<rparr>)
                           else Inl ''no such file or directory'')"

definition fs_create_dir_all :: "fpath \<Rightarrow> disk \<Rightarrow> (string, unit) result \<times> disk" where
  "fs_create_dir_all p d =
     effect d (case os_resolve d p of
                 None \<Rightarrow> Inl ''too many levels of symbolic links''
               | Some q \<Rightarrow> if list_ex (\<lambda>x. dk_files d x \<noteq> None) (prefixes q) then Inl ''not a directory''
                           else Inr (d\<lparr>dk_dirs := set (prefixes q) \<union> dk_dirs d\<rparr>))"

section \<open>Laws of resolution\<close>

text \<open>A path without links on its way is where it says.\<close>

definition link_free :: "(fpath \<Rightarrow> fpath option) \<Rightarrow> fpath \<Rightarrow> bool" where
  "link_free L q \<longleftrightarrow> (\<forall>p. prefix p q \<longrightarrow> p \<noteq> [] \<longrightarrow> L p = None)"

lemma link_free_Nil [simp]: "link_free L []"
  by (simp add: link_free_def)

lemma link_free_snoc: "link_free L (q @ [c]) \<longleftrightarrow> link_free L q \<and> L (q @ [c]) = None"
  by (auto simp: link_free_def prefix_snoc)

lemma link_free_prefix: "link_free L q \<Longrightarrow> prefix p q \<Longrightarrow> link_free L p"
  by (auto simp: link_free_def intro: prefix_order.trans)

lemma follow_link_free: "follow n L reached cs = Some q \<Longrightarrow> link_free L reached \<Longrightarrow> link_free L q"
  by (induction n L reached cs rule: follow.induct) (auto simp: link_free_snoc split: option.splits if_splits)

lemma follow_straight_onward:
  "link_free L (reached @ cs) \<Longrightarrow> follow n L reached (cs @ b) = follow n L (reached @ cs) b"
proof (induction cs arbitrary: reached)
  case (Cons c cs)
  have "link_free L (reached @ [c])" using Cons.prems by (rule link_free_prefix) simp
  then show ?case using Cons by (simp add: link_free_snoc)
qed simp

lemma follow_straight: "link_free L (reached @ cs) \<Longrightarrow> follow n L reached cs = Some (reached @ cs)"
  using follow_straight_onward [of L reached cs n "[]"] by simp

text \<open>What is behind a path is behind the place the path leads to.\<close>

lemma follow_append:
  "follow n L reached a = Some q \<Longrightarrow> link_free L (q @ b) \<Longrightarrow> follow n L reached (a @ b) = Some (q @ b)"
proof (induction n L reached a rule: follow.induct)
  case (1 n L reached)
  then show ?case by (simp add: follow_straight)
next
  case (2 n L reached c cs)
  then show ?case by (auto split: option.splits if_splits)
qed

lemma follow_mono: "follow n L reached cs = Some q \<Longrightarrow> n \<le> m \<Longrightarrow> follow m L reached cs = Some q"
proof (induction n L reached cs arbitrary: m rule: follow.induct)
  case (2 n L reached c cs)
  show ?case
  proof (cases "L (reached @ [c])")
    case None
    then show ?thesis using "2.IH"(1) "2.prems" by simp
  next
    case (Some t)
    then have "n \<noteq> 0" "follow (n - 1) L [] (t @ cs) = Some q" using "2.prems"(1) by (auto split: if_splits)
    then show ?thesis using "2.IH"(2) [OF Some] "2.prems"(2) Some by simp
  qed
qed simp

text \<open>Following a longer path goes on where following its beginning came to.\<close>

lemma follow_onward:
  "follow n L reached a = Some q \<Longrightarrow> \<exists>n' \<le> n. \<forall>b. follow n L reached (a @ b) = follow n' L q b"
proof (induction n L reached a rule: follow.induct)
  case (2 n L reached c cs)
  show ?case
  proof (cases "L (reached @ [c])")
    case None
    then show ?thesis using "2.IH"(1) "2.prems" by simp
  next
    case (Some t)
    then have n: "n \<noteq> 0" "follow (n - 1) L [] (t @ cs) = Some q" using "2.prems"(1) by (auto split: if_splits)
    then obtain n' where "n' \<le> n - 1" "\<forall>b. follow (n - 1) L [] ((t @ cs) @ b) = follow n' L q b"
      using "2.IH"(2) [OF Some] by blast
    then show ?thesis using Some n(1) by (intro exI [of _ n']) auto
  qed
qed auto

lemma follow_start: "follow n L reached (a @ b) = Some q \<Longrightarrow> \<exists>q'. follow n L reached a = Some q'"
  by (induction n L reached a rule: follow.induct) (auto split: option.splits if_splits)

lemma os_resolve_link_free: "os_resolve d p = Some q \<Longrightarrow> link_free (dk_links d) q"
  unfolding os_resolve_def by (rule follow_link_free) auto

lemma os_resolve_straight: "link_free (dk_links d) p \<Longrightarrow> os_resolve d p = Some p"
  unfolding os_resolve_def using follow_straight [of _ "[]" p] by simp

lemma os_resolve_append:
  "os_resolve d a = Some q \<Longrightarrow> link_free (dk_links d) (q @ b) \<Longrightarrow> os_resolve d (a @ b) = Some (q @ b)"
  unfolding os_resolve_def by (rule follow_append)

lemma fs_canonicalize_Inr:
  "fs_canonicalize d p = Inr q \<longleftrightarrow> os_resolve d p = Some q \<and> present d q"
  by (auto simp: fs_canonicalize_def split: option.splits)

lemma fs_exists_iff: "fs_exists d p \<longleftrightarrow> (\<exists>q. fs_canonicalize d p = Inr q)"
  by (auto simp: fs_exists_def fs_canonicalize_def split: option.splits)

section \<open>Laws of the operations\<close>

text \<open>What an operation may change: files and links in a set of places, and directories.\<close>

definition changes_within :: "fpath set \<Rightarrow> disk \<Rightarrow> disk \<Rightarrow> bool" where
  "changes_within S d d' \<longleftrightarrow>
     (\<forall>q. q \<notin> S \<longrightarrow> dk_files d' q = dk_files d q \<and> dk_links d' q = dk_links d q \<and> (q \<in> dk_dirs d' \<longleftrightarrow> q \<in> dk_dirs d))"

lemma changes_within_refl [simp]: "changes_within S d d"
  by (simp add: changes_within_def)

lemma changes_within_trans: "changes_within S d d' \<Longrightarrow> changes_within S d' d'' \<Longrightarrow> changes_within S d d''"
  by (auto simp: changes_within_def)

lemma changes_within_faults [simp]:
  "changes_within S d (d'\<lparr>dk_faults := f\<rparr>) = changes_within S d d'"
  "changes_within S (d\<lparr>dk_faults := f\<rparr>) d' = changes_within S d d'"
  by (simp_all add: changes_within_def)

lemma effect_cases:
  "effect d r = (res, d') \<longleftrightarrow>
     (\<exists>e fs. dk_faults d = Some e # fs \<and> res = Inl e \<and> d' = d\<lparr>dk_faults := fs\<rparr>)
     \<or> ((\<forall>e fs. dk_faults d \<noteq> Some e # fs)
        \<and> ((\<exists>e. r = Inl e \<and> res = Inl e \<and> d' = d\<lparr>dk_faults := tl (dk_faults d)\<rparr>)
           \<or> (\<exists>x. r = Inr x \<and> res = Inr () \<and> d' = x\<lparr>dk_faults := tl (dk_faults d)\<rparr>)))"
  by (auto simp: effect_def split: list.splits option.splits sum.splits)

lemma fs_write_within: "os_resolve d p = Some q \<Longrightarrow> q \<in> S \<Longrightarrow> changes_within S d (snd (fs_write p b d))"
  by (auto simp: fs_write_def effect_def changes_within_def split: list.splits option.splits)

lemma fs_append_within: "os_resolve d p = Some q \<Longrightarrow> q \<in> S \<Longrightarrow> changes_within S d (snd (fs_append p b d))"
  by (auto simp: fs_append_def effect_def changes_within_def split: list.splits option.splits)

lemma fs_rename_within:
  "os_place d a = Some x \<Longrightarrow> x \<in> S \<Longrightarrow> os_place d b = Some y \<Longrightarrow> y \<in> S \<Longrightarrow> changes_within S d (snd (fs_rename a b d))"
  by (auto simp: fs_rename_def effect_def changes_within_def split: list.splits option.splits)

lemma fs_remove_within: "os_place d p = Some x \<Longrightarrow> x \<in> S \<Longrightarrow> changes_within S d (snd (fs_remove_file p d))"
  by (auto simp: fs_remove_file_def effect_def changes_within_def split: list.splits option.splits)

lemma fs_create_dir_within:
  assumes "os_resolve d p = Some q" and "\<And>x. prefix x q \<Longrightarrow> x \<in> S \<or> x \<in> dk_dirs d"
  shows "changes_within S d (snd (fs_create_dir_all p d))"
  using assms by (auto simp: fs_create_dir_all_def effect_def changes_within_def split: list.splits option.splits)

end
