(* ===== verification/Workspace_Files.thy ===== *)
theory Workspace_Files
  imports Ordered_Map Fallible File_System
begin

text \<open>
  The canonical file service of a workspace and its change engine (\<^verbatim>\<open>crates/workspace/src/lib.rs\<close>), the review of hunks
  (\<^verbatim>\<open>review.rs\<close>) and the undo plan of a hand-over (\<^verbatim>\<open>handoff.rs\<close>), on the file system of \<open>File_System\<close>. SHA-256,
  the JSON codecs of the ledger and of an event, and \<open>from_utf8_lossy\<close> are parameters. The creation of a
  temporary file and the writes to it are one operation.
\<close>

section \<open>State\<close>

datatype workspace_error =
  OutsideRoot string
| PathNotFound string
| AlreadyExists string
| StaleRevision_Ws string nat nat
| PatchMismatch string nat
| Ws_Io string

fun show_workspace_error :: "workspace_error \<Rightarrow> string" where
  "show_workspace_error (OutsideRoot p) = ''path escapes the workspace root: '' @ p"
| "show_workspace_error (PathNotFound p) = ''not found: '' @ p"
| "show_workspace_error (AlreadyExists p) = ''already exists: '' @ p"
| "show_workspace_error (StaleRevision_Ws p expected actual) =
     ''stale revision on '' @ p @ '': expected '' @ show_nat expected @ '', current '' @ show_nat actual
     @ '' (docs/20 optimistic precondition)''"
| "show_workspace_error (PatchMismatch p line) = ''patch context mismatch in '' @ p @ '' at line '' @ show_nat line"
| "show_workspace_error (Ws_Io e) = ''io: '' @ e"

record file_record =
  fr_revision :: nat
  fr_sha256 :: string
  fr_byte_length :: nat
  fr_deleted :: bool

record revision_map =
  rv_workspace_revision :: nat
  rv_files :: "(string, file_record) btree"

datatype file_change_kind = Created | Modified | Deleted

record file_change_event =
  fe_path :: string
  fe_change_kind :: file_change_kind
  fe_file_revision :: nat
  fe_workspace_revision :: nat
  fe_sha256 :: string
  fe_prev_sha256 :: string

record ws_env =
  we_hash :: "string \<Rightarrow> string"
  we_lossy :: "string \<Rightarrow> string"
  we_ser :: "revision_map \<Rightarrow> string"
  we_de :: "string \<Rightarrow> (string, revision_map) result"
  we_event_ser :: "file_change_event \<Rightarrow> string"
  we_event_de :: "string \<Rightarrow> (string, file_change_event) result"

record workspace =
  wk_root :: fpath
  wk_revisions :: revision_map
  wk_disk :: disk

type_synonym 'a ws_act = "(workspace, workspace_error, 'a) act"

definition on_disk :: "(disk \<Rightarrow> (string, 'a) result \<times> disk) \<Rightarrow> 'a ws_act" where
  "on_disk m ws = (case m (wk_disk ws) of (r, d) \<Rightarrow> (map_err Ws_Io r, ws\<lparr>wk_disk := d\<rparr>))"

definition REVISIONS_DIR :: string where "REVISIONS_DIR = ''.modbit''"

definition REVISIONS_FILE :: string where "REVISIONS_FILE = ''revisions.json''"

definition changes_path :: "workspace \<Rightarrow> fpath" where
  "changes_path ws = wk_root ws @ [''.modbit'', ''changes.jsonl'']"

definition ws_open :: "ws_env \<Rightarrow> fpath \<Rightarrow> disk \<Rightarrow> (workspace_error, workspace) result \<times> disk" where
  "ws_open W root d =
     (case fs_create_dir_all root d of
        (Inl e, d') \<Rightarrow> (Inl (Ws_Io e), d')
      | (Inr _, d') \<Rightarrow>
          let p = root @ [REVISIONS_DIR, REVISIONS_FILE]
          in (if fs_exists d' p
              then and_then (map_err Ws_Io (fs_read d' p)) (\<lambda>b.
                   and_then (map_err Ws_Io (we_de W b)) (\<lambda>r.
                   Inr \<lparr>wk_root = root, wk_revisions = r, wk_disk = d'\<rparr>))
              else Inr \<lparr>wk_root = root, wk_revisions = \<lparr>rv_workspace_revision = 0, rv_files = []\<rparr>, wk_disk = d'\<rparr>, d'))"

definition workspace_revision :: "workspace \<Rightarrow> nat" where
  "workspace_revision ws = rv_workspace_revision (wk_revisions ws)"

text \<open>The record of a path that is not deleted.\<close>

definition live_record :: "revision_map \<Rightarrow> string \<Rightarrow> file_record option" where
  "live_record r path = (case bt_get path (rv_files r) of Some x \<Rightarrow> if fr_deleted x then None else Some x | None \<Rightarrow> None)"

definition file_revision :: "workspace \<Rightarrow> string \<Rightarrow> nat option" where
  "file_revision ws path = map_option fr_revision (live_record (wk_revisions ws) path)"

section \<open>Paths\<close>

text \<open>\<open>Path::components\<close> of a relative path; \<open>None\<close> when it is absolute or goes up.\<close>

definition rel_components :: "string \<Rightarrow> fpath option" where
  "rel_components rel =
     (let parts = filter (\<lambda>c. c \<noteq> []) (str_split (\<lambda>c. c = CHR ''/'') rel)
      in if starts_with rel ''/'' \<or> ''..'' \<in> set parts then None else Some (filter (\<lambda>c. c \<noteq> ''.'') parts))"

function deepest_existing :: "disk \<Rightarrow> fpath \<Rightarrow> fpath" where
  "deepest_existing d p = (if fs_exists d p \<or> p = [] then p else deepest_existing d (butlast p))"
  by pat_completeness auto
termination by (relation "measure (\<lambda>(d, p). length p)") auto

declare deepest_existing.simps [simp del]

text \<open>The check that a canonical path is inside the canonical root.\<close>

definition check_inside :: "workspace \<Rightarrow> string \<Rightarrow> fpath \<Rightarrow> (workspace_error, unit) result" where
  "check_inside ws rel c =
     and_then (map_err Ws_Io (fs_canonicalize (wk_disk ws) (wk_root ws))) (\<lambda>r.
       if prefix r c then Inr () else Inl (OutsideRoot rel))"

definition resolve_path :: "workspace \<Rightarrow> string \<Rightarrow> (workspace_error, fpath) result" where
  "resolve_path ws rel =
     (let d = wk_disk ws
      in case rel_components rel of
           None \<Rightarrow> Inl (OutsideRoot rel)
         | Some cs \<Rightarrow>
             let resolved = wk_root ws @ cs
             in case fs_canonicalize d resolved of
                  Inr c \<Rightarrow> and_then (check_inside ws rel c) (\<lambda>_. Inr c)
                | Inl _ \<Rightarrow>
                    let existing = deepest_existing d resolved
                    in if fs_exists d existing
                       then and_then (map_err Ws_Io (fs_canonicalize d existing)) (\<lambda>c.
                            and_then (check_inside ws rel c) (\<lambda>_. Inr resolved))
                       else Inr resolved)"

definition ws_resolve :: "string \<Rightarrow> fpath ws_act" where
  "ws_resolve rel ws = (resolve_path ws rel, ws)"

section \<open>The ledger\<close>

definition save_revisions :: "ws_env \<Rightarrow> unit ws_act" where
  "save_revisions W ws =
     (let dir = wk_root ws @ [REVISIONS_DIR];
          path = dir @ [REVISIONS_FILE];
          tmp = with_extension path ''tmp''
      in act_then (on_disk (fs_create_dir_all dir)) (\<lambda>_.
         act_then (on_disk (fs_write tmp (we_ser W (wk_revisions ws)))) (\<lambda>_.
         on_disk (fs_rename tmp path))) ws)"

definition empty_record :: file_record where
  "empty_record = \<lparr>fr_revision = 0, fr_sha256 = [], fr_byte_length = 0, fr_deleted = False\<rparr>"

text \<open>\<open>entry(path).or_insert_with(...)\<close> and a change of the entry.\<close>

definition change_entry :: "string \<Rightarrow> (file_record \<Rightarrow> file_record) \<Rightarrow> revision_map \<Rightarrow> file_record \<times> revision_map" where
  "change_entry path f r =
     (let x = f (case bt_get path (rv_files r) of Some x \<Rightarrow> x | None \<Rightarrow> empty_record)
      in (x, r\<lparr>rv_files := bt_insert path x (rv_files r)\<rparr>))"

definition record_content :: "ws_env \<Rightarrow> string \<Rightarrow> string \<Rightarrow> revision_map \<Rightarrow> nat \<times> revision_map" where
  "record_content W path bytes r =
     (case change_entry path (\<lambda>x. x\<lparr>fr_revision := fr_revision x + 1, fr_sha256 := we_hash W bytes,
                                     fr_byte_length := length bytes, fr_deleted := False\<rparr>)
             (r\<lparr>rv_workspace_revision := rv_workspace_revision r + 1\<rparr>) of
        (x, r') \<Rightarrow> (fr_revision x, r'))"

definition ws_record :: "ws_env \<Rightarrow> string \<Rightarrow> string \<Rightarrow> nat ws_act" where
  "ws_record W path bytes ws =
     (case record_content W path bytes (wk_revisions ws) of (rev_no, r) \<Rightarrow> (Inr rev_no, ws\<lparr>wk_revisions := r\<rparr>))"

definition commit_staged :: "ws_env \<Rightarrow> string \<Rightarrow> string \<Rightarrow> nat ws_act" where
  "commit_staged W path bytes =
     act_then (ws_record W path bytes) (\<lambda>rev_no. act_then (save_revisions W) (\<lambda>_. act_return rev_no))"

definition emit_event :: "ws_env \<Rightarrow> string \<Rightarrow> file_change_kind \<Rightarrow> nat \<Rightarrow> string \<Rightarrow> unit ws_act" where
  "emit_event W path kind rev_no prev ws =
     (let sha = (case bt_get path (rv_files (wk_revisions ws)) of Some x \<Rightarrow> fr_sha256 x | None \<Rightarrow> []);
          event = \<lparr>fe_path = path, fe_change_kind = kind, fe_file_revision = rev_no,
                   fe_workspace_revision = rv_workspace_revision (wk_revisions ws), fe_sha256 = sha, fe_prev_sha256 = prev\<rparr>
      in act_then (on_disk (fs_create_dir_all (butlast (changes_path ws)))) (\<lambda>_.
         on_disk (fs_append (changes_path ws) (we_event_ser W event @ [CHR 0x0A]))) ws)"

definition changes :: "ws_env \<Rightarrow> workspace \<Rightarrow> (workspace_error, file_change_event list) result" where
  "changes W ws =
     (if \<not> fs_exists (wk_disk ws) (changes_path ws) then Inr []
      else and_then (map_err Ws_Io (fs_read (wk_disk ws) (changes_path ws))) (\<lambda>txt.
           if \<not> valid_utf8 txt then Inl (Ws_Io ''stream did not contain valid UTF-8'')
           else map_err Ws_Io (collect_results (we_event_de W) (filter (\<lambda>l. l \<noteq> []) (str_lines txt)))))"

section \<open>Operations\<close>

definition make_parent :: "fpath \<Rightarrow> unit ws_act" where
  "make_parent p = (if p = [] then act_return () else on_disk (fs_create_dir_all (butlast p)))"

definition ws_create :: "ws_env \<Rightarrow> string \<Rightarrow> string \<Rightarrow> nat ws_act" where
  "ws_create W path bytes =
     act_then (ws_resolve path) (\<lambda>resolved ws.
       if fs_exists (wk_disk ws) resolved then (Inl (AlreadyExists path), ws)
       else act_then (make_parent resolved) (\<lambda>_.
            act_then (on_disk (fs_write resolved bytes)) (\<lambda>_.
            act_then (ws_record W path bytes) (\<lambda>rev_no.
            act_then (save_revisions W) (\<lambda>_.
            act_then (emit_event W path Created rev_no []) (\<lambda>_.
            act_return rev_no))))) ws)"

definition ws_read :: "string \<Rightarrow> (string \<times> nat) ws_act" where
  "ws_read path =
     act_then (ws_resolve path) (\<lambda>resolved ws.
       (and_then (map_err Ws_Io (fs_read (wk_disk ws) resolved)) (\<lambda>b.
        and_then (ok_or (PathNotFound path) (file_revision ws path)) (\<lambda>rev_no.
        Inr (b, rev_no))), ws))"

definition ws_stat :: "workspace \<Rightarrow> string \<Rightarrow> (nat \<times> string \<times> nat) option" where
  "ws_stat ws path =
     map_option (\<lambda>r. (fr_revision r, fr_sha256 r, fr_byte_length r)) (live_record (wk_revisions ws) path)"

text \<open>The names in a directory, from the file system.\<close>

definition ws_list :: "(fpath \<Rightarrow> (string, string list) result) \<Rightarrow> workspace \<Rightarrow> string \<Rightarrow> (workspace_error, string list) result" where
  "ws_list read_dir ws dir =
     and_then (resolve_path ws dir) (\<lambda>resolved.
     and_then (map_err Ws_Io (read_dir resolved)) (\<lambda>names.
     Inr (sort (filter (\<lambda>n. n \<noteq> REVISIONS_DIR) names))))"

definition ws_replace :: "ws_env \<Rightarrow> string \<Rightarrow> string \<Rightarrow> nat \<Rightarrow> nat ws_act" where
  "ws_replace W path bytes expected =
     act_then (ws_resolve path) (\<lambda>resolved ws.
       let live = live_record (wk_revisions ws) path;
           current = (case live of Some r \<Rightarrow> fr_revision r | None \<Rightarrow> 0);
           prev = (case live of Some r \<Rightarrow> fr_sha256 r | None \<Rightarrow> []);
           tmp = with_extension resolved ''modbit-tmp''
       in if current \<noteq> expected then (Inl (StaleRevision_Ws path expected current), ws)
          else act_then (make_parent resolved) (\<lambda>_.
               act_then (on_disk (fs_write tmp bytes)) (\<lambda>_.
               act_then (on_disk (fs_rename tmp resolved)) (\<lambda>_.
               act_then (ws_record W path bytes) (\<lambda>rev_no.
               act_then (save_revisions W) (\<lambda>_.
               act_then (emit_event W path Modified rev_no prev) (\<lambda>_.
               act_return rev_no)))))) ws)"

record patch_hunk =
  hk_anchor_line :: nat
  hk_old_lines :: "string list"
  hk_new_lines :: "string list"

text \<open>Hunks from the last anchor to the first, equal anchors in their order.\<close>

definition bottom_up :: "patch_hunk list \<Rightarrow> patch_hunk list" where
  "bottom_up hunks = sort_key (\<lambda>h. - int (hk_anchor_line h)) hunks"

definition splice_lines :: "nat \<Rightarrow> nat \<Rightarrow> string list \<Rightarrow> string list \<Rightarrow> string list" where
  "splice_lines s e new ls = take s ls @ new @ drop e ls"

fun patch_lines :: "string \<Rightarrow> patch_hunk list \<Rightarrow> string list \<Rightarrow> (workspace_error, string list) result" where
  "patch_lines path [] ls = Inr ls"
| "patch_lines path (h # hs) ls =
     (let a = hk_anchor_line h;
          s = a - 1;
          e = s + length (hk_old_lines h)
      in if a = 0 \<or> length ls < a then Inl (PatchMismatch path a)
         else if length ls < e then Inl (PatchMismatch path a)
         else if take (e - s) (drop s ls) \<noteq> hk_old_lines h then Inl (PatchMismatch path a)
         else patch_lines path hs (splice_lines s e (hk_new_lines h) ls))"

definition lines_content :: "string list \<Rightarrow> string" where
  "lines_content ls = str_join [CHR 0x0A] ls @ [CHR 0x0A]"

definition apply_patch :: "ws_env \<Rightarrow> string \<Rightarrow> nat \<Rightarrow> patch_hunk list \<Rightarrow> nat ws_act" where
  "apply_patch W path expected hunks =
     act_then (ws_read path) (\<lambda>(original, _) ws.
       (case patch_lines path (bottom_up hunks) (str_lines (we_lossy W original)) of
          Inl e \<Rightarrow> (Inl e, ws)
        | Inr ls \<Rightarrow> ws_replace W path (lines_content ls) expected ws))"

definition adopt :: "ws_env \<Rightarrow> string \<Rightarrow> nat ws_act" where
  "adopt W path =
     act_then (ws_resolve path) (\<lambda>resolved ws.
       (case fs_read (wk_disk ws) resolved of
          Inl e \<Rightarrow> (Inl (Ws_Io e), ws)
        | Inr bytes \<Rightarrow>
            (case live_record (wk_revisions ws) path of
               Some r \<Rightarrow> (Inr (fr_revision r), ws)
             | None \<Rightarrow> commit_staged W path bytes ws)))"

definition tombstone :: "file_record \<Rightarrow> file_record" where
  "tombstone x = x\<lparr>fr_revision := fr_revision x + 1, fr_deleted := True, fr_sha256 := [], fr_byte_length := 0\<rparr>"

definition bump_workspace :: "revision_map \<Rightarrow> revision_map" where
  "bump_workspace r = r\<lparr>rv_workspace_revision := rv_workspace_revision r + 1\<rparr>"

definition ws_delete :: "ws_env \<Rightarrow> string \<Rightarrow> nat ws_act" where
  "ws_delete W path =
     act_then (ws_resolve path) (\<lambda>resolved.
     act_then (on_disk (fs_remove_file resolved)) (\<lambda>_ ws.
       let prev = (case bt_get path (rv_files (wk_revisions ws)) of Some x \<Rightarrow> fr_sha256 x | None \<Rightarrow> [])
       in case change_entry path tombstone (bump_workspace (wk_revisions ws)) of
            (x, r) \<Rightarrow>
              act_then (save_revisions W) (\<lambda>_.
              act_then (emit_event W path Deleted (fr_revision x) prev) (\<lambda>_.
              act_return (fr_revision x))) (ws\<lparr>wk_revisions := r\<rparr>)))"

definition ws_mkdir :: "string \<Rightarrow> unit ws_act" where
  "ws_mkdir path = act_then (ws_resolve path) (\<lambda>resolved. on_disk (fs_create_dir_all resolved))"

definition move_file :: "ws_env \<Rightarrow> string \<Rightarrow> string \<Rightarrow> nat ws_act" where
  "move_file W src dst =
     act_then (ws_resolve src) (\<lambda>resolved_from.
     act_then (ws_resolve dst) (\<lambda>resolved_to.
     act_then (make_parent resolved_to) (\<lambda>_.
     act_then (on_disk (fs_rename resolved_from resolved_to)) (\<lambda>_ ws.
       case change_entry src (\<lambda>x. x\<lparr>fr_revision := fr_revision x + 1, fr_deleted := True\<rparr>) (bump_workspace (wk_revisions ws)) of
         (x, r) \<Rightarrow>
           let r' = r\<lparr>rv_files := bt_insert dst (x\<lparr>fr_deleted := False\<rparr>) (rv_files r)\<rparr>
           in act_then (save_revisions W) (\<lambda>_.
              act_then (emit_event W src Deleted (fr_revision x) (fr_sha256 x)) (\<lambda>_.
              act_then (emit_event W dst Created (fr_revision x) []) (\<lambda>_.
              act_return (fr_revision x)))) (ws\<lparr>wk_revisions := r'\<rparr>)))))"

section \<open>Review and hand-over\<close>

record reviewed_hunk =
  rh_hunk :: patch_hunk
  rh_accepted :: bool

definition apply_review :: "ws_env \<Rightarrow> string \<Rightarrow> nat \<Rightarrow> reviewed_hunk list \<Rightarrow> (string \<times> nat) list ws_act" where
  "apply_review W path expected reviewed =
     (let accepted = filter rh_accepted reviewed
      in if accepted = [] then act_return []
         else act_then (apply_patch W path expected (map rh_hunk accepted)) (\<lambda>rev_no. act_return [(path, rev_no)]))"

definition safe_revert :: "ws_env \<Rightarrow> string \<Rightarrow> string \<Rightarrow> string \<Rightarrow> unit ws_act" where
  "safe_revert W path expected_hash original =
     act_then (ws_read path) (\<lambda>(current_bytes, current_rev).
       if we_hash W current_bytes \<noteq> expected_hash then act_fail (StaleRevision_Ws path current_rev current_rev)
       else act_map (\<lambda>_. ()) (ws_replace W path original current_rev))"

record environment_snapshot =
  es_snapshot_id :: string
  es_toolchain :: string
  es_path_entries :: "string list"
  es_workspace_roots :: "string list"
  es_tool_availability :: "(string, string) btree"
  es_revision :: nat

definition env_matches :: "environment_snapshot \<Rightarrow> environment_snapshot \<Rightarrow> bool" where
  "env_matches current pinned =
     (es_toolchain current = es_toolchain pinned \<and> es_path_entries current = es_path_entries pinned
      \<and> es_workspace_roots current = es_workspace_roots pinned
      \<and> es_tool_availability current = es_tool_availability pinned)"

record environment_handoff_bundle =
  hb_task_id :: string
  hb_objective :: string
  hb_git_delta :: string
  hb_context_summary :: string
  hb_evidence_refs :: "string list"
  hb_runtime_requirements :: "string list"

definition validate_handoff :: "environment_handoff_bundle \<Rightarrow> (string, unit) result" where
  "validate_handoff b = (if hb_task_id b = [] then Inl ''missing task_id'' else Inr ())"

datatype undo_action_kind = RestoreContent | DeleteCreated | RecreateDeleted

record undo_action =
  ua_path :: string
  ua_action :: undo_action_kind
  ua_prior_content :: "string option"

definition build_undo_plan :: "(string \<times> string option) list \<Rightarrow> undo_action list" where
  "build_undo_plan changed =
     concat (map (\<lambda>(path, prior). case prior of
                    None \<Rightarrow> []
                  | Some old \<Rightarrow> [\<lparr>ua_path = path, ua_action = RestoreContent, ua_prior_content = Some old\<rparr>]) changed)"

lemma undo_plan_omits_created_files: "build_undo_plan [(p, None)] = []"
  by (simp add: build_undo_plan_def)

end
