(* ===== verification/Change_Engine.thy ===== *)
theory Change_Engine
  imports Workspace_Files
begin

text \<open>
  The change engine of \<^verbatim>\<open>crates/workspace/src/lib.rs\<close> (\<^verbatim>\<open>mod change_engine\<close>): edits of several files in one transaction, with
  the match ladder that finds the lines of a hunk. A slice out of range is a panic.
\<close>

section \<open>The match ladder\<close>

record edit_op =
  eo_path :: string
  eo_expected_revision :: nat
  eo_hunks :: "patch_hunk list"

datatype match_tier = Exact | WhitespaceRemap

datatype transaction_error =
  Precondition string nat nat
| NoMatch string nat
| Ambiguous string nat
| Tx_Io string

fun show_transaction_error :: "transaction_error \<Rightarrow> string" where
  "show_transaction_error (Precondition p expected actual) =
     ''precondition failed on '' @ p @ '': expected rev '' @ show_nat expected @ '', current '' @ show_nat actual"
| "show_transaction_error (NoMatch p anchor) = ''no match in '' @ p @ '' near line '' @ show_nat anchor"
| "show_transaction_error (Ambiguous p anchor) =
     ''ambiguous duplicated target in '' @ p @ '' near line '' @ show_nat anchor @ '': never guess''"
| "show_transaction_error (Tx_Io e) = ''io: '' @ e"

text \<open>\<open>From<WorkspaceError>\<close>.\<close>

fun transaction_error_from :: "workspace_error \<Rightarrow> transaction_error" where
  "transaction_error_from (StaleRevision_Ws p expected actual) = Precondition p expected actual"
| "transaction_error_from (PathNotFound p) = Precondition p 0 0"
| "transaction_error_from (OutsideRoot p) = NoMatch p 0"
| "transaction_error_from (Ws_Io e) = Tx_Io e"
| "transaction_error_from e = Tx_Io (show_workspace_error e)"

datatype tx_failure = Panicked | Failed transaction_error

definition whitespace_normalized :: "string \<Rightarrow> string" where
  "whitespace_normalized line = str_join '' '' (split_whitespace line)"

text \<open>The starts at which the wanted lines occur; the range is cut at zero, and a slice past the end panics.\<close>

definition occurrences :: "string list \<Rightarrow> string list \<Rightarrow> nat list option" where
  "occurrences ls old =
     (if length ls < length old then None
      else Some (filter (\<lambda>s. take (length old) (drop s ls) = old) [0..<length ls - length old + 1]))"

definition match_ladder :: "string list \<Rightarrow> nat \<Rightarrow> string list \<Rightarrow> (tx_failure, nat \<times> match_tier) result" where
  "match_ladder ls anchor old =
     (if old = [] then Inl (Failed (NoMatch [] 0))
      else case occurrences ls old of
             None \<Rightarrow> Inl Panicked
           | Some exact \<Rightarrow>
               if length exact = 1 then Inr (exact ! 0, Exact)
               else if 1 < length exact then Inl (Failed (Ambiguous [] anchor))
               else case occurrences (map whitespace_normalized ls) (map whitespace_normalized old) of
                      None \<Rightarrow> Inl Panicked
                    | Some remap \<Rightarrow>
                        if length remap = 1 then Inr (remap ! 0, WhitespaceRemap)
                        else if 1 < length remap then Inl (Failed (Ambiguous [] anchor))
                        else Inl (Failed (NoMatch [] anchor)))"

section \<open>Transactions\<close>

fun name_path :: "string \<Rightarrow> tx_failure \<Rightarrow> tx_failure" where
  "name_path path (Failed (NoMatch p a)) = Failed (NoMatch (if p = [] then path else p) a)"
| "name_path path (Failed (Ambiguous p a)) = Failed (Ambiguous (if p = [] then path else p) a)"
| "name_path path e = e"

fun edit_lines :: "string \<Rightarrow> patch_hunk list \<Rightarrow> string list \<Rightarrow> (tx_failure, string list) result" where
  "edit_lines path [] ls = Inr ls"
| "edit_lines path (h # hs) ls =
     and_then (map_err (name_path path) (match_ladder ls (hk_anchor_line h) (hk_old_lines h))) (\<lambda>(s, _).
       edit_lines path hs (splice_lines s (s + length (hk_old_lines h)) (hk_new_lines h) ls))"

type_synonym 'a tx_act = "(workspace, tx_failure, 'a) act"

definition read_failure :: "edit_op \<Rightarrow> workspace_error \<Rightarrow> tx_failure" where
  "read_failure x e =
     Failed (case e of PathNotFound p \<Rightarrow> Precondition p (eo_expected_revision x) 0 | _ \<Rightarrow> Tx_Io (show_workspace_error e))"

definition plan_edit :: "ws_env \<Rightarrow> edit_op \<Rightarrow> (string \<times> string) tx_act" where
  "plan_edit W x =
     act_then (act_err (read_failure x) (ws_read (eo_path x))) (\<lambda>(bytes, current) ws.
       (if current \<noteq> eo_expected_revision x then Inl (Failed (Precondition (eo_path x) (eo_expected_revision x) current))
        else and_then (edit_lines (eo_path x) (bottom_up (eo_hunks x)) (str_lines (we_lossy W bytes))) (\<lambda>ls.
             Inr (eo_path x, lines_content ls)), ws))"

text \<open>An operation over the elements of a list, up to the first failure.\<close>

fun act_each :: "('a \<Rightarrow> ('s, 'e, 'b) act) \<Rightarrow> 'a list \<Rightarrow> ('s, 'e, 'b list) act" where
  "act_each f [] = act_return []"
| "act_each f (x # xs) = act_then (f x) (\<lambda>y. act_then (act_each f xs) (\<lambda>ys. act_return (y # ys)))"

definition as_tx :: "'a ws_act \<Rightarrow> 'a tx_act" where
  "as_tx m = act_err (\<lambda>e. Failed (transaction_error_from e)) m"

definition stage_edit :: "string \<times> string \<Rightarrow> (fpath \<times> fpath) tx_act" where
  "stage_edit p =
     as_tx (act_then (ws_resolve (fst p)) (\<lambda>resolved.
            act_then (make_parent resolved) (\<lambda>_.
            act_then (on_disk (fs_write (with_extension resolved ''txn-tmp'') (snd p))) (\<lambda>_.
            act_return (with_extension resolved ''txn-tmp'', resolved)))))"

definition apply_transaction :: "ws_env \<Rightarrow> edit_op list \<Rightarrow> (string \<times> nat) list tx_act" where
  "apply_transaction W edits =
     act_then (act_each (plan_edit W) edits) (\<lambda>planned.
     act_then (act_each stage_edit planned) (\<lambda>staged.
     act_then (act_each (\<lambda>(tmp, final). as_tx (on_disk (fs_rename tmp final))) staged) (\<lambda>_.
     act_each (\<lambda>(path, bytes). as_tx (act_map (\<lambda>r. (path, r)) (commit_staged W path bytes))) planned)))"

section \<open>The ladder never guesses\<close>

definition occurs_at :: "string list \<Rightarrow> string list \<Rightarrow> nat \<Rightarrow> bool" where
  "occurs_at ls old s \<longleftrightarrow> s + length old \<le> length ls \<and> take (length old) (drop s ls) = old"

lemma occurrences_set: "occurrences ls old = Some xs \<Longrightarrow> set xs = {s. occurs_at ls old s} \<and> distinct xs"
  by (auto simp: occurrences_def occurs_at_def simp del: upt_Suc split: if_splits)

lemma single_occurrence:
  assumes "occurrences ls old = Some xs"
  shows "length xs = 1 \<and> xs ! 0 = s \<longleftrightarrow> {i. occurs_at ls old i} = {s}"
proof -
  have xs: "set xs = {i. occurs_at ls old i}" "distinct xs" using occurrences_set [OF assms] by auto
  show ?thesis
  proof
    assume "length xs = 1 \<and> xs ! 0 = s"
    then have "xs = [s]" by (cases xs) auto
    then show "{i. occurs_at ls old i} = {s}" using xs(1) by simp
  next
    assume "{i. occurs_at ls old i} = {s}"
    then have "set xs = {s}" using xs(1) by simp
    then have "length xs = 1" using distinct_card [OF xs(2)] by simp
    then show "length xs = 1 \<and> xs ! 0 = s" using \<open>set xs = {s}\<close> by (cases xs) auto
  qed
qed

text \<open>The match ladder answers with a place only when it is the only one: the single exact occurrence of the
  lines, or, when there is none, the single occurrence up to white space. It never picks one of several.\<close>

lemma ladder_never_guesses:
  assumes "old \<noteq> []" and "length old \<le> length ls"
  shows "match_ladder ls anchor old = Inr (s, t) \<longleftrightarrow>
    (t = Exact \<and> {i. occurs_at ls old i} = {s})
    \<or> (t = WhitespaceRemap \<and> {i. occurs_at ls old i} = {}
        \<and> {i. occurs_at (map whitespace_normalized ls) (map whitespace_normalized old) i} = {s})"
proof -
  obtain xs where xs: "occurrences ls old = Some xs" using assms(2) by (simp add: occurrences_def)
  obtain ys where ys: "occurrences (map whitespace_normalized ls) (map whitespace_normalized old) = Some ys"
    using assms(2) by (simp add: occurrences_def)
  have none: "xs = [] \<longleftrightarrow> {i. occurs_at ls old i} = {}" using occurrences_set [OF xs] by auto
  have "match_ladder ls anchor old = Inr (s, t) \<longleftrightarrow>
      (t = Exact \<and> length xs = 1 \<and> xs ! 0 = s) \<or> (t = WhitespaceRemap \<and> xs = [] \<and> length ys = 1 \<and> ys ! 0 = s)"
    using assms(1) by (cases xs) (auto simp: match_ladder_def xs ys)
  then show ?thesis
    unfolding single_occurrence [OF xs, of s] single_occurrence [OF ys, of s] none by blast
qed

lemma ladder_never_guesses_witness:
  "match_ladder [''a'', ''b''] 1 [''b''] = Inr (1, Exact) \<longleftrightarrow> {i. occurs_at [''a'', ''b''] [''b''] i} = {1}"
  using ladder_never_guesses [of "[''b'']" "[''a'', ''b'']" 1 1 Exact] by simp

text \<open>Lines longer than the file bring the engine down.\<close>

lemma long_hunk_panics: "length ls < length old \<Longrightarrow> match_ladder ls anchor old = Inl Panicked"
  by (auto simp: match_ladder_def occurrences_def)

end
