(* ===== verification/Link_Laws.thy ===== *)
theory Link_Laws
  imports File_System
begin

text \<open>
  Where a path leads when it runs over symbolic links into places that do not exist yet: the fact behind every check that a
  resolved path stays below a root.
\<close>

text \<open>Every symbolic link leads to something.\<close>

definition no_dangling :: "disk \<Rightarrow> bool" where
  "no_dangling d \<longleftrightarrow> (\<forall>p t. dk_links d p = Some t \<longrightarrow> fs_exists d p)"

text \<open>Behind an existing path, as long as nothing exists, no link is met.\<close>

lemma follow_behind:
  assumes "no_dangling d" and "link_free (dk_links d) c" and "n \<le> 40"
    and "\<forall>b. os_resolve d (e @ b) = follow n (dk_links d) c b"
    and "follow n (dk_links d) c b = Some q"
    and "\<forall>y. prefix y b \<longrightarrow> y \<noteq> [] \<longrightarrow> \<not> fs_exists d (e @ y)"
  shows "q = c @ b"
  using assms(2,4,5,6)
proof (induction b arbitrary: c e)
  case (Cons x bs)
  let ?L = "dk_links d"
  show ?case
  proof (cases "?L (c @ [x])")
    case None
    have "q = (c @ [x]) @ bs"
    proof (rule Cons.IH)
      show "link_free ?L (c @ [x])" using Cons.prems(1) None by (simp add: link_free_snoc)
      show "\<forall>b. os_resolve d ((e @ [x]) @ b) = follow n ?L (c @ [x]) b"
        using Cons.prems(2) [rule_format, of "x # _"] None by simp
      show "follow n ?L (c @ [x]) bs = Some q" using Cons.prems(3) None by simp
      show "\<forall>y. prefix y bs \<longrightarrow> y \<noteq> [] \<longrightarrow> \<not> fs_exists d ((e @ [x]) @ y)"
        using Cons.prems(4) by (metis Cons_prefix_Cons append_Cons append_Nil append_assoc list.distinct(1))
    qed
    then show ?thesis by simp
  next
    case (Some t)
    then have n: "n \<noteq> 0" "follow (n - 1) ?L [] (t @ bs) = Some q" using Cons.prems(3) by (auto split: if_splits)
    obtain q1 where q1: "follow (n - 1) ?L [] t = Some q1" using follow_start [OF n(2)] by blast
    have "fs_exists d (c @ [x])" using assms(1) Some by (auto simp: no_dangling_def)
    moreover have "os_resolve d (c @ [x]) = follow 39 ?L [] t"
      using follow_straight_onward [of ?L "[]" c 40 "[x]"] Some Cons.prems(1) by (simp add: os_resolve_def)
    ultimately have "present d q1" using follow_mono [OF q1, of 39] assms(3) by (simp add: fs_exists_def)
    moreover have "os_resolve d (e @ [x]) = Some q1" using Cons.prems(2) Some n(1) q1 by simp
    ultimately have "fs_exists d (e @ [x])" by (simp add: fs_exists_def)
    then show ?thesis using Cons.prems(4) by (simp add: prefix_Cons)
  qed
qed simp

end
