(* ===== verification/Workspace_Properties.thy ===== *)
theory Workspace_Properties
  imports Change_Engine Link_Laws
begin

text \<open>
  What the file service promises: the paths it works on stay inside the workspace, a replacement takes effect only on the
  revision the caller saw; and where it does not keep a promise: links that lead nowhere, and transactions over files that
  differ only in their extension.
\<close>

section \<open>Containment\<close>

lemma deepest_existing_spec:
  assumes "fs_exists d []"
  shows "fs_exists d (deepest_existing d p)
    \<and> (\<exists>b. p = deepest_existing d p @ b \<and> (\<forall>y. prefix y b \<longrightarrow> y \<noteq> [] \<longrightarrow> \<not> fs_exists d (deepest_existing d p @ y)))"
proof (induction p rule: rev_induct)
  case Nil
  then show ?case using assms by (simp add: deepest_existing.simps [of d "[]"])
next
  case (snoc c p)
  show ?case
  proof (cases "fs_exists d (p @ [c])")
    case True
    then show ?thesis by (simp add: deepest_existing.simps [of d "p @ [c]"])
  next
    case False
    then have eq: "deepest_existing d (p @ [c]) = deepest_existing d p" by (simp add: deepest_existing.simps [of d "p @ [c]"])
    obtain b where b: "p = deepest_existing d p @ b"
      "\<forall>y. prefix y b \<longrightarrow> y \<noteq> [] \<longrightarrow> \<not> fs_exists d (deepest_existing d p @ y)" using snoc by blast
    have "\<not> fs_exists d (deepest_existing d p @ y)" if "prefix y (b @ [c])" "y \<noteq> []" for y
    proof (cases "y = b @ [c]")
      case True
      then show ?thesis using False b(1) by (metis append_assoc)
    next
      case False
      then show ?thesis using that b(2) by (simp add: prefix_snoc)
    qed
    then show ?thesis using snoc eq b(1) by (metis append_assoc)
  qed
qed

text \<open>C28: in a workspace without dangling links every path the service resolves leads into the root, whatever links
  are on the way, also when the file does not exist yet.\<close>
theorem resolved_path_stays_inside_root:
  assumes "no_dangling (wk_disk ws)" and "fs_exists (wk_disk ws) []"
    and "resolve_path ws rel = Inr p" and "os_resolve (wk_disk ws) p = Some q"
  shows "\<exists>r. fs_canonicalize (wk_disk ws) (wk_root ws) = Inr r \<and> prefix r q"
proof -
  let ?d = "wk_disk ws"
  obtain cs where cs: "rel_components rel = Some cs" using assms(3) by (auto simp: resolve_path_def Let_def split: option.splits)
  let ?p = "wk_root ws @ cs" and ?e = "deepest_existing ?d (wk_root ws @ cs)"
  show ?thesis
  proof (cases "fs_canonicalize ?d ?p")
    case (Inr c)
    then have p: "p = c" and inside: "check_inside ws rel c = Inr ()"
      using assms(3) cs by (auto simp: resolve_path_def Let_def and_then_Inr_iff)
    have "q = c" using Inr p assms(4) os_resolve_straight [OF os_resolve_link_free, of ?d ?p c] by (simp add: fs_canonicalize_Inr)
    then show ?thesis using inside by (auto simp: check_inside_def and_then_Inr_iff split: if_splits)
  next
    case (Inl err)
    have ex: "fs_exists ?d ?e" using deepest_existing_spec [OF assms(2), of ?p] by blast
    then obtain c where c: "fs_canonicalize ?d ?e = Inr c" by (auto simp: fs_exists_iff)
    then have p: "p = ?p" and inside: "check_inside ws rel c = Inr ()"
      using assms(3) cs Inl ex by (auto simp: resolve_path_def Let_def and_then_Inr_iff)
    obtain b where b: "?p = ?e @ b" "\<forall>y. prefix y b \<longrightarrow> y \<noteq> [] \<longrightarrow> \<not> fs_exists ?d (?e @ y)"
      using deepest_existing_spec [OF assms(2), of ?p] by blast
    have res: "os_resolve ?d ?e = Some c" using c by (simp add: fs_canonicalize_Inr)
    then obtain n where n: "n \<le> 40" "\<forall>b. os_resolve ?d (?e @ b) = follow n (dk_links ?d) c b"
      using follow_onward [of 40 "dk_links ?d" "[]" ?e c] by (auto simp: os_resolve_def)
    have "follow n (dk_links ?d) c b = Some q" using assms(4) p b(1) n(2) by metis
    then have "q = c @ b" by (rule follow_behind [OF assms(1) os_resolve_link_free [OF res] n _ b(2)])
    then show ?thesis using inside by (auto simp: check_inside_def and_then_Inr_iff split: if_splits)
  qed
qed

definition plain_env :: ws_env where
  "plain_env =
     \<lparr>we_hash = (\<lambda>b. b), we_lossy = (\<lambda>b. b), we_ser = (\<lambda>_. []), we_de = (\<lambda>_. Inl []), we_event_ser = (\<lambda>_. ''e''),
      we_event_de = (\<lambda>_. Inl [])\<rparr>"

definition disk_with :: "(fpath \<times> string) list \<Rightarrow> (fpath \<times> fpath) list \<Rightarrow> disk" where
  "disk_with files links =
     \<lparr>dk_files = map_of files, dk_dirs = {[], [''w''], [''etc'']}, dk_links = map_of links, dk_faults = []\<rparr>"

definition workspace_on :: "disk \<Rightarrow> (string, file_record) btree \<Rightarrow> workspace" where
  "workspace_on d recs =
     \<lparr>wk_root = [''w''], wk_revisions = \<lparr>rv_workspace_revision = 0, rv_files = recs\<rparr>, wk_disk = d\<rparr>"

definition live_at :: "nat \<Rightarrow> file_record" where
  "live_at n = \<lparr>fr_revision = n, fr_sha256 = [], fr_byte_length = 0, fr_deleted = False\<rparr>"

theorem resolved_path_stays_inside_root_witness:
  "resolve_path (workspace_on (disk_with [] []) []) ''a/b'' = Inr [''w'', ''a'', ''b'']
    \<and> (\<exists>r. fs_canonicalize (disk_with [] []) [''w''] = Inr r \<and> prefix r [''w'', ''a'', ''b''])"
proof -
  let ?ws = "workspace_on (disk_with [] []) []"
  have d: "wk_disk ?ws = disk_with [] []" "wk_root ?ws = [''w'']" by (simp_all add: workspace_on_def)
  have "no_dangling (wk_disk ?ws)" by (simp add: no_dangling_def workspace_on_def disk_with_def)
  moreover have "fs_exists (wk_disk ?ws) []" by code_simp
  moreover have r: "resolve_path ?ws ''a/b'' = Inr [''w'', ''a'', ''b'']" by code_simp
  moreover have "os_resolve (wk_disk ?ws) [''w'', ''a'', ''b''] = Some [''w'', ''a'', ''b'']" by code_simp
  ultimately have "\<exists>r. fs_canonicalize (wk_disk ?ws) (wk_root ?ws) = Inr r \<and> prefix r [''w'', ''a'', ''b'']"
    by (rule resolved_path_stays_inside_root)
  then show ?thesis using r unfolding d by blast
qed

text \<open>A link that leads to a file that does not exist yet gets the service out of its root: creating a file
  under the name of the link creates its target.\<close>

lemma dangling_link_escapes_root:
  "case ws_create plain_env ''out'' ''data'' (workspace_on (disk_with [] [([''w'', ''out''], [''etc'', ''passwd''])]) []) of
     (r, ws') \<Rightarrow> r = Inr 1 \<and> dk_files (wk_disk ws') [''etc'', ''passwd''] = Some ''data''"
  by code_simp

section \<open>Replacement\<close>

text \<open>What an operation leaves alone in a workspace without links: all files outside a set of places.\<close>

definition no_links :: "workspace \<Rightarrow> bool" where
  "no_links ws \<longleftrightarrow> dk_links (wk_disk ws) = (\<lambda>_. None)"

definition framed :: "fpath set \<Rightarrow> workspace \<Rightarrow> workspace \<Rightarrow> bool" where
  "framed S ws ws' \<longleftrightarrow>
     wk_root ws' = wk_root ws \<and> wk_revisions ws' = wk_revisions ws \<and> (no_links ws \<longrightarrow> no_links ws')
     \<and> (\<forall>q. q \<notin> S \<longrightarrow> dk_files (wk_disk ws') q = dk_files (wk_disk ws) q)"

lemma framed_refl [simp]: "framed S ws ws"
  by (simp add: framed_def)

lemma framed_trans: "framed S ws ws' \<Longrightarrow> framed S ws' ws'' \<Longrightarrow> framed S ws ws''"
  by (auto simp: framed_def)

lemma framed_mono: "framed S ws ws' \<Longrightarrow> S \<subseteq> T \<Longrightarrow> framed T ws ws'"
  by (auto simp: framed_def)

lemma framed_then:
  assumes "no_links ws" and "framed S ws (snd (m ws))" and "\<And>x ws'. no_links ws' \<Longrightarrow> framed S ws' (snd (f x ws'))"
  shows "framed S ws (snd (act_then m f ws))"
proof (cases "m ws")
  case (Pair r ws')
  then have "no_links ws'" using assms(1,2) by (simp add: framed_def)
  then show ?thesis using Pair assms(2) assms(3) by (cases r) (auto simp: act_then_def intro: framed_trans)
qed

lemma no_links_resolve:
  assumes "no_links ws"
  shows "os_resolve (wk_disk ws) p = Some p" and "os_place (wk_disk ws) p = Some p"
proof -
  have "link_free (dk_links (wk_disk ws)) x" for x using assms by (simp add: link_free_def no_links_def)
  then show "os_resolve (wk_disk ws) p = Some p" "os_place (wk_disk ws) p = Some p"
    by (simp_all add: os_resolve_straight os_place_def)
qed

lemma framed_create_dir: "no_links ws \<Longrightarrow> framed S ws (snd (on_disk (fs_create_dir_all p) ws))"
  by (auto simp: on_disk_def fs_create_dir_all_def effect_def no_links_resolve framed_def no_links_def
      split: list.splits option.splits)

lemma framed_write: "no_links ws \<Longrightarrow> p \<in> S \<Longrightarrow> framed S ws (snd (on_disk (fs_write p b) ws))"
  by (auto simp: on_disk_def fs_write_def effect_def no_links_resolve framed_def no_links_def split: list.splits option.splits)

lemma framed_append: "no_links ws \<Longrightarrow> p \<in> S \<Longrightarrow> framed S ws (snd (on_disk (fs_append p b) ws))"
  by (auto simp: on_disk_def fs_append_def effect_def no_links_resolve framed_def no_links_def split: list.splits option.splits)

lemma framed_rename: "no_links ws \<Longrightarrow> p \<in> S \<Longrightarrow> q \<in> S \<Longrightarrow> framed S ws (snd (on_disk (fs_rename p q) ws))"
  by (auto simp: on_disk_def fs_rename_def effect_def no_links_resolve framed_def no_links_def split: list.splits option.splits)

definition ledger_places :: "workspace \<Rightarrow> fpath set" where
  "ledger_places ws = {q. prefix (wk_root ws @ [REVISIONS_DIR]) q}"

lemma framed_save_revisions:
  assumes "no_links ws"
  shows "framed (ledger_places ws) ws (snd (save_revisions W ws))"
proof -
  have in_ledger: "wk_root ws @ [REVISIONS_DIR, x] \<in> ledger_places ws" for x by (simp add: ledger_places_def)
  then have tmp: "with_extension (wk_root ws @ [REVISIONS_DIR, REVISIONS_FILE]) ''tmp'' \<in> ledger_places ws"
    by (simp add: with_extension_def butlast_append)
  show ?thesis
    unfolding save_revisions_def Let_def append_assoc append.simps
    by (intro framed_then framed_create_dir framed_write framed_rename assms tmp in_ledger)
qed

lemma framed_emit_event:
  assumes "no_links ws"
  shows "framed (ledger_places ws) ws (snd (emit_event W path kind n prev ws))"
proof -
  have "changes_path ws \<in> ledger_places ws" by (simp add: changes_path_def ledger_places_def REVISIONS_DIR_def)
  then show ?thesis
    unfolding emit_event_def Let_def by (intro framed_then framed_create_dir framed_append assms)
qed

lemma framed_make_parent: "no_links ws \<Longrightarrow> framed S ws (snd (make_parent p ws))"
  by (auto simp: make_parent_def act_return_def intro: framed_create_dir)

lemma act_then_Inr: "act_then m f s = (Inr y, s') \<longleftrightarrow> (\<exists>x s1. m s = (Inr x, s1) \<and> f x s1 = (Inr y, s'))"
  by (auto simp: act_then_def split: prod.splits sum.splits)

text \<open>A file that is written to a temporary name and renamed.\<close>

lemma written_and_renamed:
  assumes "no_links ws" and "on_disk (fs_write tmp b) ws = (Inr (), ws1)" and "on_disk (fs_rename tmp p) ws1 = (Inr (), ws2)"
  shows "framed {tmp, p} ws ws2 \<and> no_links ws2 \<and> dk_files (wk_disk ws2) p = Some b"
proof -
  have f1: "framed {tmp, p} ws ws1" using framed_write [OF assms(1), of tmp "{tmp, p}" b] assms(2) by simp
  then have n1: "no_links ws1" using assms(1) by (simp add: framed_def)
  have f2: "framed {tmp, p} ws1 ws2" using framed_rename [OF n1, of tmp "{tmp, p}" p] assms(3) by simp
  have "dk_files (wk_disk ws1) tmp = Some b"
    using assms(1,2) by (auto simp: on_disk_def fs_write_def effect_cases no_links_resolve split: prod.splits if_splits)
  then have "dk_files (wk_disk ws2) p = Some b"
    using n1 assms(3) by (auto simp: on_disk_def fs_rename_def effect_cases no_links_resolve split: prod.splits if_splits option.splits)
  then show ?thesis using framed_trans [OF f1 f2] n1 f2 by (simp add: framed_def)
qed

lemma sample_replace_succeeds:
  "fst (ws_replace plain_env ''a'' ''new'' 1 (workspace_on (disk_with [([''w'', ''a''], ''x'')] []) [(''a'', live_at 1)])) = Inr 2"
  by code_simp

text \<open>A replacement that succeeds was asked for on the current revision of the path. The file then holds exactly
  the new bytes, the ledger has the next revision with their fingerprint and size, and no other file changed but the
  temporary one and the ledger's own.\<close>

lemma replace_takes_effect_on_current_revision:
  assumes "no_links ws" and "bt_sorted (rv_files (wk_revisions ws))" and "resolve_path ws path = Inr p" and "p \<notin> ledger_places ws"
    and "ws_replace W path bytes expected ws = (Inr n, ws')"
  shows "expected = (case file_revision ws path of Some r \<Rightarrow> r | None \<Rightarrow> 0)
    \<and> dk_files (wk_disk ws') p = Some bytes
    \<and> ws_stat ws' path = Some (n, we_hash W bytes, length bytes)
    \<and> (\<forall>r. file_revision ws path = Some r \<longrightarrow> n = r + 1)
    \<and> (\<forall>q. q \<noteq> p \<longrightarrow> q \<noteq> with_extension p ''modbit-tmp'' \<longrightarrow> q \<notin> ledger_places ws \<longrightarrow>
          dk_files (wk_disk ws') q = dk_files (wk_disk ws) q)"
proof -
  let ?tmp = "with_extension p ''modbit-tmp''"
  let ?cur = "case live_record (wk_revisions ws) path of Some r \<Rightarrow> fr_revision r | None \<Rightarrow> 0"
  have cur: "?cur = expected" using assms(3,5) by (auto simp: ws_replace_def ws_resolve_def Let_def act_then_Inr split: if_splits)
  obtain ws1 ws2 ws3 ws4 ws5 prev where run: "make_parent p ws = (Inr (), ws1)" "on_disk (fs_write ?tmp bytes) ws1 = (Inr (), ws2)"
    "on_disk (fs_rename ?tmp p) ws2 = (Inr (), ws3)" "ws_record W path bytes ws3 = (Inr n, ws4)"
    "save_revisions W ws4 = (Inr (), ws5)" "emit_event W path Modified n prev ws5 = (Inr (), ws')"
    using assms(3,5) cur by (auto simp: ws_replace_def ws_resolve_def Let_def act_then_Inr act_return_def split: if_splits)
  have f1: "framed {?tmp, p} ws ws1" using framed_make_parent [OF assms(1), of "{?tmp, p}" p] run(1) by simp
  then have n1: "no_links ws1" using assms(1) by (simp add: framed_def)
  note f3 = written_and_renamed [OF n1 run(2,3)]
  have ws4: "wk_disk ws4 = wk_disk ws3" "wk_root ws4 = wk_root ws3"
    "n = fst (record_content W path bytes (wk_revisions ws3))" "wk_revisions ws4 = snd (record_content W path bytes (wk_revisions ws3))"
    using run(4) by (auto simp: ws_record_def split: prod.splits)
  have n4: "no_links ws4" using f3 ws4(1) by (simp add: no_links_def)
  have f5: "framed (ledger_places ws4) ws4 ws5" using framed_save_revisions [OF n4, of W] run(5) by simp
  have n5: "no_links ws5" "ledger_places ws5 = ledger_places ws4" using f5 n4 by (simp_all add: framed_def ledger_places_def)
  have f6: "framed (ledger_places ws4) ws4 ws'"
    using framed_trans [OF f5] framed_emit_event [OF n5(1), of W path Modified n prev] run(6) n5(2) by simp
  have root: "ledger_places ws4 = ledger_places ws" using f1 f3 ws4(2) by (simp add: framed_def ledger_places_def)
  have rev3: "wk_revisions ws3 = wk_revisions ws" using f1 f3 by (simp add: framed_def)
  have disk: "dk_files (wk_disk ws') q = dk_files (wk_disk ws3) q" if "q \<notin> ledger_places ws" for q
    using f6 that root ws4(1) by (simp add: framed_def)
  have ledger: "wk_revisions ws' = snd (record_content W path bytes (wk_revisions ws))" "n = fst (record_content W path bytes (wk_revisions ws))"
    using f6 ws4(3,4) rev3 by (simp_all add: framed_def)
  show ?thesis
    using cur disk f1 f3 assms(2,4) ledger
    by (auto simp: framed_def file_revision_def ws_stat_def live_record_def record_content_def change_entry_def Let_def
        split: option.splits if_splits)
qed

lemma replace_takes_effect_on_current_revision_witness:
  "\<exists>ws'. ws_replace plain_env ''a'' ''new'' 1 (workspace_on (disk_with [([''w'', ''a''], ''x'')] []) [(''a'', live_at 1)]) = (Inr 2, ws')
    \<and> dk_files (wk_disk ws') [''w'', ''a''] = Some ''new'' \<and> ws_stat ws' ''a'' = Some (2, ''new'', 3)"
proof -
  let ?ws = "workspace_on (disk_with [([''w'', ''a''], ''x'')] []) [(''a'', live_at 1)]"
  obtain ws' where run: "ws_replace plain_env ''a'' ''new'' 1 ?ws = (Inr 2, ws')"
    using surj_pair [of "ws_replace plain_env ''a'' ''new'' 1 ?ws"]
    by (metis (no_types) fst_conv sample_replace_succeeds)
  have "no_links ?ws" by (simp add: no_links_def workspace_on_def disk_with_def)
  moreover have "bt_sorted (rv_files (wk_revisions ?ws))" by (simp add: workspace_on_def bt_sorted_def)
  moreover have "resolve_path ?ws ''a'' = Inr [''w'', ''a'']" by code_simp
  moreover have "[''w'', ''a''] \<notin> ledger_places ?ws" by (simp add: ledger_places_def workspace_on_def REVISIONS_DIR_def)
  ultimately have "dk_files (wk_disk ws') [''w'', ''a''] = Some ''new'' \<and> ws_stat ws' ''a'' = Some (2, we_hash plain_env ''new'', length ''new'')"
    using replace_takes_effect_on_current_revision [OF _ _ _ _ run] by blast
  then show ?thesis using run by (auto simp: plain_env_def)
qed

section \<open>Transactions over several files\<close>

definition one_line_edit :: "string \<Rightarrow> string \<Rightarrow> string \<Rightarrow> edit_op" where
  "one_line_edit path old new =
     \<lparr>eo_path = path, eo_expected_revision = 1,
      eo_hunks = [\<lparr>hk_anchor_line = 1, hk_old_lines = [old], hk_new_lines = [new]\<rparr>]\<rparr>"

text \<open>A transaction that edits two files of the same name with different extensions stages both in one temporary
  file: the first file receives the new content of the second, and the transaction fails.\<close>

lemma transaction_mixes_files:
  "case apply_transaction plain_env [one_line_edit ''a.rs'' ''x'' ''y'', one_line_edit ''a.txt'' ''p'' ''q'']
          (workspace_on (disk_with [([''w'', ''a.rs''], ''x''), ([''w'', ''a.txt''], ''p'')] [])
             [(''a.rs'', live_at 1), (''a.txt'', live_at 1)]) of
     (r, ws') \<Rightarrow> \<not> is_ok r \<and> dk_files (wk_disk ws') [''w'', ''a.rs''] = Some (''q'' @ [CHR 0x0A])
       \<and> dk_files (wk_disk ws') [''w'', ''a.txt''] = Some ''p''"
  by code_simp

text \<open>Two edits of one file in one transaction: only the second reaches the file, the transaction fails, and the
  ledger still has the old revision.\<close>

lemma failed_transaction_changes_file:
  "case apply_transaction plain_env [one_line_edit ''a.rs'' ''x'' ''1'', one_line_edit ''a.rs'' ''y'' ''2'']
          (workspace_on (disk_with [([''w'', ''a.rs''], ''x'' @ [CHR 0x0A] @ ''y'')] []) [(''a.rs'', live_at 1)]) of
     (r, ws') \<Rightarrow> \<not> is_ok r
       \<and> dk_files (wk_disk ws') [''w'', ''a.rs''] = Some (''x'' @ [CHR 0x0A] @ ''2'' @ [CHR 0x0A])
       \<and> file_revision ws' ''a.rs'' = Some 1"
  by code_simp

end
