(* ===== verification/Tool_Schema.thy ===== *)
theory Tool_Schema
  imports Policy_Kernel
begin

text \<open>
  Tool schemas and the surfaces shown to a model (\<^verbatim>\<open>crates/tools/src/schema.rs\<close>, \<^verbatim>\<open>turn_surface.rs\<close>): the
  normalisation of the arguments of a call before policy and execution, the projection of a schema as JSON, and the
  filters that compile the tools of an agent or a turn. The JSON text of a value is a parameter.
\<close>

instantiation effect_class :: linorder
begin

fun effect_rank :: "effect_class \<Rightarrow> nat" where
  "effect_rank ReadOnly = 0"
| "effect_rank Write = 1"
| "effect_rank External = 2"

definition less_eq_effect_class :: "effect_class \<Rightarrow> effect_class \<Rightarrow> bool" where
  "less_eq_effect_class a b \<longleftrightarrow> effect_rank a \<le> effect_rank b"

definition less_effect_class :: "effect_class \<Rightarrow> effect_class \<Rightarrow> bool" where
  "less_effect_class a b \<longleftrightarrow> effect_rank a < effect_rank b"

instance
proof
  fix a b c :: effect_class
  show "a \<le> b \<Longrightarrow> b \<le> a \<Longrightarrow> a = b" by (cases a; cases b) (simp_all add: less_eq_effect_class_def)
qed (auto simp: less_eq_effect_class_def less_effect_class_def)

end

section \<open>Schemas\<close>

datatype param_type = Str_Param | Int_Param | Bool_Param

record param_spec =
  sp_param_type :: param_type
  sp_required :: bool
  sp_default :: "json option"
  sp_description :: string

record tool_schema =
  ts_aliases :: "(string, string) btree"
  ts_parameters :: "(string, param_spec) btree"

datatype schema_error = Schema_Rejected string string

fun show_schema_error :: "schema_error \<Rightarrow> string" where
  "show_schema_error (Schema_Rejected param reason) = ''schema rejected '' @ debug_str param @ '': '' @ reason"

definition show_int :: "int \<Rightarrow> string" where
  "show_int n = (if n < 0 then CHR ''-'' # show_nat (nat (- n)) else show_nat (nat n))"

fun coerce :: "(json \<Rightarrow> string) \<Rightarrow> string \<Rightarrow> param_spec \<Rightarrow> json \<Rightarrow> (schema_error, json) result" where
  "coerce to_text param spec raw =
     (let wrong = Schema_Rejected param
      in case sp_param_type spec of
           Str_Param \<Rightarrow> (case raw of
               JString s \<Rightarrow> Inr raw
             | _ \<Rightarrow> Inl (wrong (''expected string, got '' @ to_text raw)))
         | Int_Param \<Rightarrow> (case raw of
               JNumber n \<Rightarrow> Inr raw
             | JString s \<Rightarrow> (case parse_i64 (str_trim s) of
                               Some n \<Rightarrow> Inr (JNumber (show_int n))
                             | None \<Rightarrow> Inl (wrong (''expected integer, got '' @ debug_str s)))
             | _ \<Rightarrow> Inl (wrong (''expected integer, got '' @ to_text raw)))
         | Bool_Param \<Rightarrow> (case raw of
               JBool b \<Rightarrow> Inr raw
             | JString s \<Rightarrow>
                 if str_trim s \<in> {''true'', ''1'', ''yes''} then Inr (JBool True)
                 else if str_trim s \<in> {''false'', ''0'', ''no''} then Inr (JBool False)
                 else Inl (wrong (''expected boolean, got '' @ debug_str s))
             | _ \<Rightarrow> Inl (wrong (''expected boolean, got '' @ to_text raw))))"

definition canonical_name :: "tool_schema \<Rightarrow> string \<Rightarrow> string" where
  "canonical_name sch key = (case bt_get key (ts_aliases sch) of Some c \<Rightarrow> c | None \<Rightarrow> key)"

fun normalize_entries ::
  "(json \<Rightarrow> string) \<Rightarrow> tool_schema \<Rightarrow> (string \<times> json) list \<Rightarrow> (string, json) btree \<Rightarrow> (schema_error, (string, json) btree) result" where
  "normalize_entries to_text sch [] out = Inr out"
| "normalize_entries to_text sch ((key, v) # es) out =
     (let canonical = canonical_name sch key
      in case bt_get canonical (ts_parameters sch) of
           None \<Rightarrow> Inl (Schema_Rejected key (''unknown parameter (no canonical form for '' @ debug_str key @ '')''))
         | Some spec \<Rightarrow>
             and_then (coerce to_text canonical spec v) (\<lambda>c.
               normalize_entries to_text sch es (bt_insert canonical c out)))"

fun fill_defaults ::
  "(string, param_spec) btree \<Rightarrow> (string, json) btree \<Rightarrow> (schema_error, (string, json) btree) result" where
  "fill_defaults [] out = Inr out"
| "fill_defaults ((name, spec) # ps) out =
     (if bt_get name out \<noteq> None then fill_defaults ps out
      else case sp_default spec of
             Some d \<Rightarrow> fill_defaults ps (bt_insert name d out)
           | None \<Rightarrow> if sp_required spec then Inl (Schema_Rejected name ''required parameter missing'')
                     else fill_defaults ps out)"

definition normalize_args :: "(json \<Rightarrow> string) \<Rightarrow> tool_schema \<Rightarrow> json \<Rightarrow> (schema_error, json) result" where
  "normalize_args to_text sch raw =
     and_then (case raw of
                 JNull \<Rightarrow> Inr []
               | JObject m \<Rightarrow> Inr m
               | _ \<Rightarrow> Inl (Schema_Rejected ''<arguments>'' (''arguments must be an object, got '' @ to_text raw))) (\<lambda>obj.
     and_then (normalize_entries to_text sch obj []) (\<lambda>out.
     and_then (fill_defaults (ts_parameters sch) out) (\<lambda>out'.
     Inr (JObject out'))))"

fun param_type_name :: "param_type \<Rightarrow> string" where
  "param_type_name Str_Param = ''string''"
| "param_type_name Int_Param = ''integer''"
| "param_type_name Bool_Param = ''boolean''"

text \<open>The projection as a JSON Schema; the entries of its objects are in key order.\<close>

definition json_schema :: "tool_schema \<Rightarrow> json" where
  "json_schema sch =
     JObject [(''additionalProperties'', JBool False),
       (''properties'', JObject (map (\<lambda>(name, spec).
          (name, JObject [(''description'', JString (sp_description spec)),
                          (''type'', JString (param_type_name (sp_param_type spec)))])) (ts_parameters sch))),
       (''required'', JArray (map (\<lambda>(name, _). JString name) (filter (\<lambda>(_, spec). sp_required spec) (ts_parameters sch)))),
       (''type'', JString ''object'')]"

fun debug_param_type :: "param_type \<Rightarrow> string" where
  "debug_param_type Str_Param = ''Str''"
| "debug_param_type Int_Param = ''Int''"
| "debug_param_type Bool_Param = ''Bool''"

definition schema_text :: "string \<Rightarrow> tool_schema \<Rightarrow> string" where
  "schema_text name sch =
     ''tool '' @ name @ ''('' @ str_join '', '' (map (\<lambda>(param, spec).
        param @ '': '' @ debug_param_type (sp_param_type spec) @ (if sp_required spec then [] else '' (optional)'')
        @ '' '' @ [CHR 0xE2, CHR 0x80, CHR 0x94] @ '' '' @ sp_description spec) (ts_parameters sch)) @ '')''"

section \<open>Surfaces\<close>

record agent_tool_profile =
  tp_agent_id :: string
  tp_max_effect :: effect_class
  tp_allowed_prefixes :: "string list"
  tp_task_tags :: "string list"

record surface_candidate =
  sc_name :: string
  sc_effect_class :: effect_class
  sc_schema :: tool_schema
  sc_tags :: "string list"

definition on_surface :: "agent_tool_profile \<Rightarrow> surface_candidate \<Rightarrow> bool" where
  "on_surface p c =
     (if tp_max_effect p < sc_effect_class c then False
      else if tp_allowed_prefixes p \<noteq> [] \<and> \<not> list_ex (starts_with (sc_name c)) (tp_allowed_prefixes p) then False
      else if tp_task_tags p \<noteq> [] \<and> \<not> list_ex (\<lambda>t. t \<in> set (tp_task_tags p)) (sc_tags c) then False
      else True)"

definition minimal_surface :: "agent_tool_profile \<Rightarrow> surface_candidate list \<Rightarrow> surface_candidate list" where
  "minimal_surface p candidates = filter (on_surface p) candidates"

definition surface_schema_bytes :: "surface_candidate list \<Rightarrow> nat" where
  "surface_schema_bytes surface = sum_list (map (\<lambda>c. length (schema_text (sc_name c) (sc_schema c))) surface)"

record surface_entry =
  se_name :: string
  se_effect_class :: effect_class
  se_schema :: tool_schema
  se_required_adapters :: "string list"
  se_tags :: "string list"

record turn_config =
  tc_enabled_adapters :: "string list"
  tc_granted_tools :: "string list"
  tc_max_effect :: effect_class
  tc_task_tags :: "string list"

definition visible_entry :: "turn_config \<Rightarrow> surface_entry \<Rightarrow> bool" where
  "visible_entry c e =
     (if \<not> list_all (\<lambda>a. a \<in> set (tc_enabled_adapters c)) (se_required_adapters e) then False
      else if se_name e \<notin> set (tc_granted_tools c) \<or> tc_max_effect c < se_effect_class e then False
      else tc_task_tags c = [] \<or> list_ex (\<lambda>t. t \<in> set (tc_task_tags c)) (se_tags e))"

definition compile_surface :: "surface_entry list \<Rightarrow> turn_config \<Rightarrow> string list" where
  "compile_surface entries c = map se_name (filter (visible_entry c) entries)"

definition snapshot_schemas :: "surface_entry list \<Rightarrow> turn_config \<Rightarrow> (string, string) btree" where
  "snapshot_schemas entries c =
     foldl (\<lambda>m e. bt_insert (fst e) (snd e) m) []
       (concat (map (\<lambda>name. case find (\<lambda>e. se_name e = name) entries of
                               Some e \<Rightarrow> [(name, schema_text name (se_schema e))] | None \<Rightarrow> []) (compile_surface entries c)))"

section \<open>Normalised arguments are typed\<close>

text \<open>The JSON kind that is checked for a parameter: any number passes for an integer.\<close>

fun has_type :: "param_type \<Rightarrow> json \<Rightarrow> bool" where
  "has_type Str_Param (JString s) = True"
| "has_type Int_Param (JNumber n) = True"
| "has_type Bool_Param (JBool b) = True"
| "has_type _ _ = False"

text \<open>The declared type proper, as the projected schema names it: an integer is the text of a number of 64 bits with a sign.\<close>

fun declared_type :: "param_type \<Rightarrow> json \<Rightarrow> bool" where
  "declared_type Str_Param v \<longleftrightarrow> (\<exists>s. v = JString s)"
| "declared_type Int_Param v \<longleftrightarrow> (\<exists>i. v = JNumber (show_int i) \<and> - (2 ^ 63) \<le> i \<and> i < 2 ^ 63)"
| "declared_type Bool_Param v \<longleftrightarrow> (\<exists>b. v = JBool b)"

lemma parse_i64_range: "parse_i64 s = Some n \<Longrightarrow> - (2 ^ 63) \<le> n \<and> n < 2 ^ 63"
  by (auto simp: parse_i64_def Let_def split: prod.splits option.splits if_splits)

lemma coerce_typed: "coerce to_text p spec v = Inr c \<Longrightarrow> has_type (sp_param_type spec) c"
  by (auto simp: Let_def split: param_type.splits json.splits option.splits if_splits)

lemma coerce_typed_id: "has_type (sp_param_type spec) v \<Longrightarrow> coerce to_text p spec v = Inr v"
  by (cases "sp_param_type spec"; cases v) simp_all

lemma coerce_declared:
  "coerce to_text p spec v = Inr c \<Longrightarrow>
     declared_type (sp_param_type spec) c \<or> sp_param_type spec = Int_Param \<and> c = v \<and> (\<exists>n. v = JNumber n)"
  by (auto simp: Let_def split: param_type.splits json.splits option.splits if_splits dest!: parse_i64_range [simplified])

text \<open>What holds of every coerced entry and every default holds of all that normalisation lets through.\<close>

lemma normalize_entries_all:
  assumes "normalize_entries to_text sch es out = Inr out'" and "bt_sorted out"
    and "\<And>k v. bt_get k out = Some v \<Longrightarrow> R k v"
    and "\<And>key v spec c. (key, v) \<in> set es \<Longrightarrow> bt_get (canonical_name sch key) (ts_parameters sch) = Some spec \<Longrightarrow>
           coerce to_text (canonical_name sch key) spec v = Inr c \<Longrightarrow> R (canonical_name sch key) c"
  shows "bt_sorted out' \<and> (\<forall>k v. bt_get k out' = Some v \<longrightarrow> R k v)
    \<and> (\<forall>k. bt_get k out \<noteq> None \<longrightarrow> bt_get k out' \<noteq> None)
    \<and> (\<forall>(key, v) \<in> set es. bt_get (canonical_name sch key) out' \<noteq> None)"
  using assms
proof (induction to_text sch es out rule: normalize_entries.induct)
  case (2 to_text sch key v es out)
  let ?name = "canonical_name sch key"
  obtain spec c where sp: "bt_get ?name (ts_parameters sch) = Some spec" and c: "coerce to_text ?name spec v = Inr c"
    and rec: "normalize_entries to_text sch es (bt_insert ?name c out) = Inr out'"
    using "2.prems"(1) by (auto simp: Let_def and_then_Inr_iff simp del: coerce.simps split: option.splits)
  have "R ?name c" using "2.prems"(4) [OF _ sp c] by simp
  then have "\<And>k v. bt_get k (bt_insert ?name c out) = Some v \<Longrightarrow> R k v"
    using "2.prems"(2,3) by (auto split: if_splits)
  moreover have "bt_sorted (bt_insert ?name c out)" using "2.prems"(2) by simp
  moreover have "\<And>key' v' spec' c'. (key', v') \<in> set es \<Longrightarrow>
      bt_get (canonical_name sch key') (ts_parameters sch) = Some spec' \<Longrightarrow>
      coerce to_text (canonical_name sch key') spec' v' = Inr c' \<Longrightarrow> R (canonical_name sch key') c'"
    using "2.prems"(4) by (meson list.set_intros(2))
  ultimately have ih: "bt_sorted out' \<and> (\<forall>k v. bt_get k out' = Some v \<longrightarrow> R k v)
      \<and> (\<forall>k. bt_get k (bt_insert ?name c out) \<noteq> None \<longrightarrow> bt_get k out' \<noteq> None)
      \<and> (\<forall>(key, v) \<in> set es. bt_get (canonical_name sch key) out' \<noteq> None)"
    using "2.IH" [OF refl sp rec] by blast
  have "bt_get k (bt_insert ?name c out) = None \<longleftrightarrow> k \<noteq> ?name \<and> bt_get k out = None" for k
    using "2.prems"(2) by auto
  with ih show ?case by (simp del: coerce.simps)
qed simp

lemma fill_defaults_all:
  assumes "fill_defaults ps out = Inr out'" and "bt_sorted out"
    and "\<And>k v. bt_get k out = Some v \<Longrightarrow> R k v"
    and "\<And>k s d. (k, s) \<in> set ps \<Longrightarrow> sp_default s = Some d \<Longrightarrow> R k d"
  shows "bt_sorted out' \<and> (\<forall>k v. bt_get k out' = Some v \<longrightarrow> R k v)
    \<and> (\<forall>k. bt_get k out \<noteq> None \<longrightarrow> bt_get k out' = bt_get k out)
    \<and> (\<forall>(k, s) \<in> set ps. sp_required s \<or> sp_default s \<noteq> None \<longrightarrow> bt_get k out' \<noteq> None)"
  using assms
proof (induction ps out rule: fill_defaults.induct)
  case (2 name spec ps out)
  have dflt: "\<And>k s d. (k, s) \<in> set ps \<Longrightarrow> sp_default s = Some d \<Longrightarrow> R k d"
    using "2.prems"(4) by (meson list.set_intros(2))
  show ?case
  proof (cases "bt_get name out = None")
    case False
    then have "fill_defaults ps out = Inr out'" using "2.prems"(1) by simp
    from "2.IH"(1) [OF False this "2.prems"(2,3) dflt] False show ?thesis by auto
  next
    case True
    show ?thesis
    proof (cases "sp_default spec")
      case None
      then have n: "\<not> sp_required spec" "fill_defaults ps out = Inr out'" using "2.prems"(1) True by (auto split: if_splits)
      from "2.IH"(2) [OF _ None n "2.prems"(2,3) dflt] True None n show ?thesis by auto
    next
      case (Some d)
      then have rec: "fill_defaults ps (bt_insert name d out) = Inr out'" using "2.prems"(1) True by simp
      have R: "\<And>k v. bt_get k (bt_insert name d out) = Some v \<Longrightarrow> R k v"
        using "2.prems"(2,3) "2.prems"(4) [OF list.set_intros(1) Some] by (auto split: if_splits)
      have sorted: "bt_sorted (bt_insert name d out)" using "2.prems"(2) by simp
      note ih = "2.IH"(3) [OF _ Some rec sorted R dflt]
      have "bt_get k (bt_insert name d out) = (if k = name then Some d else bt_get k out)" for k
        using "2.prems"(2) by auto
      with ih True Some show ?thesis by auto
    qed
  qed
qed simp

lemma parameters_listed:
  "bt_sorted (ts_parameters sch) \<Longrightarrow> (k, s) \<in> set (ts_parameters sch) \<Longrightarrow> bt_get k (ts_parameters sch) = Some s"
  by (simp add: bt_get_def bt_sorted_def strict_sorted_iff)

text \<open>A value fits a parameter: it has its checked kind or is its default.\<close>

definition fits :: "tool_schema \<Rightarrow> string \<Rightarrow> json \<Rightarrow> bool" where
  "fits sch name v \<longleftrightarrow>
     (\<exists>spec. bt_get name (ts_parameters sch) = Some spec \<and> (has_type (sp_param_type spec) v \<or> sp_default spec = Some v))"

lemma normalize_entries_fit:
  "normalize_entries to_text sch es [] = Inr out \<Longrightarrow> bt_sorted out \<and> (\<forall>k v. bt_get k out = Some v \<longrightarrow> fits sch k v)"
  using normalize_entries_all [of to_text sch es "[]" out "fits sch"]
  by (auto simp: fits_def simp del: coerce.simps dest: coerce_typed)

lemma fill_defaults_fit:
  assumes "fill_defaults (ts_parameters sch) out = Inr m" and "bt_sorted out" and "\<forall>k v. bt_get k out = Some v \<longrightarrow> fits sch k v"
    and "bt_sorted (ts_parameters sch)"
  shows "bt_sorted m \<and> (\<forall>k v. bt_get k m = Some v \<longrightarrow> fits sch k v)
    \<and> (\<forall>(k, s) \<in> set (ts_parameters sch). sp_required s \<or> sp_default s \<noteq> None \<longrightarrow> bt_get k m \<noteq> None)"
  using fill_defaults_all [OF assms(1,2), of "fits sch"] assms(3) parameters_listed [OF assms(4)]
  by (auto simp: fits_def)

text \<open>The arguments of a call as a list, and what a normalised value is: of the declared type, the declared default, or a number the
  caller passed itself for an integer parameter.\<close>

fun argument_entries :: "json \<Rightarrow> (string \<times> json) list" where
  "argument_entries (JObject m) = m"
| "argument_entries _ = []"

definition justified :: "tool_schema \<Rightarrow> json \<Rightarrow> string \<Rightarrow> json \<Rightarrow> bool" where
  "justified sch raw name v \<longleftrightarrow>
     (\<exists>spec. bt_get name (ts_parameters sch) = Some spec \<and>
        (declared_type (sp_param_type spec) v \<or> sp_default spec = Some v
         \<or> sp_param_type spec = Int_Param \<and> (\<exists>n. v = JNumber n)
             \<and> (\<exists>key. canonical_name sch key = name \<and> (key, v) \<in> set (argument_entries raw))))"

lemma coerce_justified:
  assumes "(key, v) \<in> set (argument_entries raw)" and "bt_get (canonical_name sch key) (ts_parameters sch) = Some spec"
    and "coerce to_text (canonical_name sch key) spec v = Inr c"
  shows "justified sch raw (canonical_name sch key) c"
  using coerce_declared [OF assms(3)] assms(1,2) unfolding justified_def by blast

lemma default_justified:
  "bt_sorted (ts_parameters sch) \<Longrightarrow> (k, s) \<in> set (ts_parameters sch) \<Longrightarrow> sp_default s = Some d \<Longrightarrow> justified sch raw k d"
  using parameters_listed unfolding justified_def by blast

text \<open>C35: what normalisation lets through is an object whose entries are parameters of the schema. Each value has the declared type
  (for an integer: it is one, of 64 bits), or is the declared default, whatever its type, or is a number that the caller itself
  passed for an integer parameter, which may have a fraction. Every argument of the caller names a parameter, by itself or by an
  alias, that is in the result, and so is every required parameter. Parameters are in the order of their map.\<close>
theorem normalized_arguments_are_typed:
  assumes "bt_sorted (ts_parameters sch)" and "normalize_args to_text sch raw = Inr r"
  shows "\<exists>m. r = JObject m \<and> bt_sorted m \<and> (\<forall>k v. bt_get k m = Some v \<longrightarrow> justified sch raw k v)
    \<and> (\<forall>(key, v) \<in> set (argument_entries raw). bt_get (canonical_name sch key) m \<noteq> None)
    \<and> (\<forall>k s. bt_get k (ts_parameters sch) = Some s \<longrightarrow> sp_required s \<longrightarrow> bt_get k m \<noteq> None)"
proof -
  obtain out m where o: "normalize_entries to_text sch (argument_entries raw) [] = Inr out"
    and m: "fill_defaults (ts_parameters sch) out = Inr m" and r: "r = JObject m"
    using assms(2) by (cases raw) (auto simp: normalize_args_def and_then_Inr_iff)
  have "bt_sorted out \<and> (\<forall>k v. bt_get k out = Some v \<longrightarrow> justified sch raw k v)
      \<and> (\<forall>k. bt_get k ([] :: (string, json) btree) \<noteq> None \<longrightarrow> bt_get k out \<noteq> None)
      \<and> (\<forall>(key, v) \<in> set (argument_entries raw). bt_get (canonical_name sch key) out \<noteq> None)"
    by (rule normalize_entries_all [OF o, of "justified sch raw"]) (simp_all add: coerce_justified del: coerce.simps)
  then have out: "bt_sorted out" "\<And>k v. bt_get k out = Some v \<Longrightarrow> justified sch raw k v"
    "\<And>key v. (key, v) \<in> set (argument_entries raw) \<Longrightarrow> bt_get (canonical_name sch key) out \<noteq> None" by blast+
  have "bt_sorted m \<and> (\<forall>k v. bt_get k m = Some v \<longrightarrow> justified sch raw k v)
      \<and> (\<forall>k. bt_get k out \<noteq> None \<longrightarrow> bt_get k m = bt_get k out)
      \<and> (\<forall>(k, s) \<in> set (ts_parameters sch). sp_required s \<or> sp_default s \<noteq> None \<longrightarrow> bt_get k m \<noteq> None)"
    by (rule fill_defaults_all [OF m out(1), of "justified sch raw"]) (use out(2) default_justified [OF assms(1)] in blast)+
  then have f: "bt_sorted m" "\<And>k v. bt_get k m = Some v \<Longrightarrow> justified sch raw k v"
    "\<And>k. bt_get k out \<noteq> None \<Longrightarrow> bt_get k m = bt_get k out"
    "\<And>k s. (k, s) \<in> set (ts_parameters sch) \<Longrightarrow> sp_required s \<Longrightarrow> bt_get k m \<noteq> None" by blast+
  have "bt_get k m \<noteq> None" if "bt_get k (ts_parameters sch) = Some s" "sp_required s" for k s
    using f(4) [OF map_of_SomeD that(2)] that(1) by (simp add: bt_get_def)
  moreover have "bt_get (canonical_name sch key) m \<noteq> None" if "(key, v) \<in> set (argument_entries raw)" for key v
    using out(3) [OF that] f(3) by metis
  ultimately show ?thesis using r f(1,2) by blast
qed

definition sample_schema :: tool_schema where
  "sample_schema =
     \<lparr>ts_aliases = [(''dir'', ''path'')],
      ts_parameters = [(''depth'', \<lparr>sp_param_type = Int_Param, sp_required = False, sp_default = Some (JNumber ''1''), sp_description = []\<rparr>),
                       (''path'', \<lparr>sp_param_type = Str_Param, sp_required = True, sp_default = None, sp_description = []\<rparr>)]\<rparr>"

theorem normalized_arguments_are_typed_witness:
  "\<exists>m. normalize_args (\<lambda>_. []) sample_schema (JObject [(''dir'', JString ''/w''), (''depth'', JNumber ''1.5'')]) = Inr (JObject m)
     \<and> (\<forall>k v. bt_get k m = Some v \<longrightarrow>
          justified sample_schema (JObject [(''dir'', JString ''/w''), (''depth'', JNumber ''1.5'')]) k v)
     \<and> bt_get ''path'' m \<noteq> None"
proof -
  have run: "normalize_args (\<lambda>_. []) sample_schema (JObject [(''dir'', JString ''/w''), (''depth'', JNumber ''1.5'')]) =
      Inr (JObject [(''depth'', JNumber ''1.5''), (''path'', JString ''/w'')])" by code_simp
  have "bt_sorted (ts_parameters sample_schema)" by code_simp
  then show ?thesis using normalized_arguments_are_typed [OF _ run] run by (auto simp: bt_get_def)
qed

section \<open>Normalisation is idempotent\<close>

text \<open>A schema whose parameters are no aliases and whose defaults have the declared types.\<close>

definition schema_ok :: "tool_schema \<Rightarrow> bool" where
  "schema_ok sch \<longleftrightarrow> bt_sorted (ts_parameters sch)
     \<and> (\<forall>k s. bt_get k (ts_parameters sch) = Some s \<longrightarrow>
           bt_get k (ts_aliases sch) = None \<and> (\<forall>d. sp_default s = Some d \<longrightarrow> has_type (sp_param_type s) d))"

lemma normalize_entries_typed:
  assumes "schema_ok sch" and "\<forall>(k, v) \<in> set es. fits sch k v"
  shows "normalize_entries to_text sch es out = Inr (foldl (\<lambda>m e. bt_insert (fst e) (snd e) m) out es)"
  using assms(2)
proof (induction es arbitrary: out)
  case (Cons e es)
  obtain k v where e: "e = (k, v)" by (cases e)
  obtain spec where spec: "bt_get k (ts_parameters sch) = Some spec" and v: "has_type (sp_param_type spec) v"
    using Cons.prems e assms(1) by (auto simp: fits_def schema_ok_def)
  have "canonical_name sch k = k" using assms(1) spec by (auto simp: schema_ok_def canonical_name_def)
  then show ?case
    using Cons e spec coerce_typed_id [OF v, of to_text k] by (simp del: coerce.simps)
qed simp

lemma fill_defaults_id:
  "\<forall>(k, s) \<in> set ps. sp_required s \<or> sp_default s \<noteq> None \<longrightarrow> bt_get k m \<noteq> None \<Longrightarrow> fill_defaults ps m = Inr m"
  by (induction ps) (auto split: option.splits)

lemma replay_sorted: "bt_sorted m \<Longrightarrow> foldl (\<lambda>m e. bt_insert (fst e) (snd e) m) [] m = m"
proof (rule bt_ext)
  assume m: "bt_sorted m"
  then have "distinct (map fst m)" by (simp add: bt_sorted_def strict_sorted_iff)
  then have "map_of (rev m) = map_of m" by (subst map_of_inject_set) (simp_all add: rev_map [symmetric])
  then show "bt_get k (foldl (\<lambda>m e. bt_insert (fst e) (snd e) m) [] m) = bt_get k m" for k
    using bt.replay_get [of "[]" k m] by (simp add: bt_get_def split: option.splits)
qed (simp_all add: bt.replay_ok)

text \<open>Normalisation is idempotent: the arguments it lets through are normal, so checking them again, as the policy
  and the executor may, changes nothing.\<close>

lemma normalize_is_idempotent:
  assumes "schema_ok sch" and "normalize_args to_text sch raw = Inr r"
  shows "normalize_args to_text sch r = Inr r"
proof -
  have sorted: "bt_sorted (ts_parameters sch)" using assms(1) by (simp add: schema_ok_def)
  obtain obj out m where o: "normalize_entries to_text sch obj [] = Inr out"
    and m: "fill_defaults (ts_parameters sch) out = Inr m" and r: "r = JObject m"
    using assms(2) by (auto simp: normalize_args_def and_then_Inr_iff)
  have out: "bt_sorted out" "\<forall>k v. bt_get k out = Some v \<longrightarrow> fits sch k v"
    using normalize_entries_fit [OF o] by simp_all
  have f: "bt_sorted m" "\<And>k v. bt_get k m = Some v \<Longrightarrow> fits sch k v"
    "\<forall>(k, s) \<in> set (ts_parameters sch). sp_required s \<or> sp_default s \<noteq> None \<longrightarrow> bt_get k m \<noteq> None"
    using fill_defaults_fit [OF m out sorted] by blast+
  have "distinct (map fst m)" using f(1) by (simp add: bt_sorted_def strict_sorted_iff)
  then have "\<forall>(k, v) \<in> set m. fits sch k v" using f(2) by (auto simp: bt_get_def)
  then have "normalize_entries to_text sch m [] = Inr m"
    using normalize_entries_typed [OF assms(1), of m to_text "[]"] replay_sorted [OF f(1)] by simp
  then show ?thesis using r fill_defaults_id [OF f(3)] by (simp add: normalize_args_def)
qed

lemma normalize_is_idempotent_witness:
  "normalize_args (\<lambda>_. []) sample_schema (JObject [(''depth'', JNumber ''1''), (''path'', JString ''/w'')]) =
     Inr (JObject [(''depth'', JNumber ''1''), (''path'', JString ''/w'')])"
proof -
  have "bt_sorted (ts_parameters sample_schema)" by code_simp
  then have "schema_ok sample_schema"
    by (auto simp: schema_ok_def) (auto simp: sample_schema_def bt_get_def split: if_splits)
  moreover have "normalize_args (\<lambda>_. []) sample_schema (JObject [(''dir'', JString ''/w'')]) =
      Inr (JObject [(''depth'', JNumber ''1''), (''path'', JString ''/w'')])" by code_simp
  ultimately show ?thesis by (rule normalize_is_idempotent)
qed

text \<open>A number with a fraction is accepted where an integer is declared.\<close>

lemma fraction_passes_as_integer:
  "sp_param_type spec = Int_Param \<Longrightarrow> coerce to_text p spec (JNumber ''1.5'') = Inr (JNumber ''1.5'')"
  by simp

section \<open>Surfaces hide what is denied\<close>

lemma compiled_tool_was_admitted:
  assumes "name \<in> set (compile_surface entries c)"
  shows "\<exists>e \<in> set entries. se_name e = name \<and> name \<in> set (tc_granted_tools c) \<and> se_effect_class e \<le> tc_max_effect c
    \<and> set (se_required_adapters e) \<subseteq> set (tc_enabled_adapters c)"
  using assms by (auto simp: compile_surface_def visible_entry_def list_all_iff not_less split: if_splits)

lemma minimal_surface_is_smaller: "surface_schema_bytes (minimal_surface p cs) \<le> surface_schema_bytes cs"
  unfolding surface_schema_bytes_def minimal_surface_def by (induction cs) auto

end
