(* ===== verification/Tool_Pipeline.thy ===== *)
theory Tool_Pipeline
  imports Tool_Schema
begin

text \<open>
  The tool registry (\<^verbatim>\<open>crates/tools/src/lib.rs\<close>), the staged pipeline of a call
  (\<^verbatim>\<open>crates/tools/src/pipeline.rs\<close>) and the pages of a large output (\<^verbatim>\<open>crates/tools/src/output_pagination.rs\<close>).
  Handlers, executors and hooks are functions on JSON values. SHA-256, the JSON text of a value, the
  listing of a directory and the run of a process are parameters.
\<close>

section \<open>The registry\<close>

type_synonym tool_handler = "json \<Rightarrow> (string, json) result"

record registered_tool =
  rt_name :: string
  rt_version :: string
  rt_effect_class :: effect_class
  rt_handler :: tool_handler
  rt_schema :: "tool_schema option"
  rt_description :: string

record tool_projection =
  pj_name :: string
  pj_description :: string
  pj_parameters :: json

datatype tool_error = UnknownTool string | DuplicateTool string | PolicyDenied string | Handler_Error string

fun show_tool_error :: "tool_error \<Rightarrow> string" where
  "show_tool_error (UnknownTool name) = ''unknown tool '' @ debug_str name"
| "show_tool_error (DuplicateTool name) = ''duplicate tool '' @ debug_str name"
| "show_tool_error (PolicyDenied reason) = ''policy denied: '' @ reason"
| "show_tool_error (Handler_Error message) = ''tool handler error: '' @ message"

record tool_execution =
  te_tool :: string
  te_arguments_hash :: string
  te_result :: json
  te_effect_class :: effect_class

type_synonym tool_registry = "(string, registered_tool) btree"

definition register_with_schema ::
  "string \<Rightarrow> string \<Rightarrow> effect_class \<Rightarrow> string \<Rightarrow> tool_schema option \<Rightarrow> tool_handler \<Rightarrow> tool_registry \<Rightarrow>
   (tool_error, unit) result \<times> tool_registry" where
  "register_with_schema name version eff description sch handler tools =
     (if bt_get name tools \<noteq> None then (Inl (DuplicateTool name), tools)
      else (Inr (), bt_insert name \<lparr>rt_name = name, rt_version = version, rt_effect_class = eff, rt_handler = handler,
                                    rt_schema = sch, rt_description = description\<rparr> tools))"

definition register_tool ::
  "string \<Rightarrow> string \<Rightarrow> effect_class \<Rightarrow> tool_handler \<Rightarrow> tool_registry \<Rightarrow> (tool_error, unit) result \<times> tool_registry" where
  "register_tool name version eff handler = register_with_schema name version eff [] None handler"

definition tool_definitions :: "tool_registry \<Rightarrow> tool_projection list" where
  "tool_definitions tools =
     concat (map (\<lambda>t. case rt_schema t of
                        None \<Rightarrow> []
                      | Some s \<Rightarrow> [\<lparr>pj_name = rt_name t, pj_description = rt_description t, pj_parameters = json_schema s\<rparr>])
       (bt_values tools))"

definition remove_tool :: "string \<Rightarrow> tool_registry \<Rightarrow> (tool_error, unit) result \<times> tool_registry" where
  "remove_tool name tools =
     (if bt_get name tools = None then (Inl (UnknownTool name), tools) else (Inr (), bt_remove name tools))"

definition list_tools :: "tool_registry \<Rightarrow> (string \<times> string \<times> effect_class) list" where
  "list_tools tools = map (\<lambda>t. (rt_name t, rt_version t, rt_effect_class t)) (bt_values tools)"

definition execute_tool ::
  "(string \<Rightarrow> string) \<Rightarrow> (json \<Rightarrow> string) \<Rightarrow> string \<Rightarrow> json \<Rightarrow> policy_decision \<Rightarrow> tool_registry \<Rightarrow>
   (tool_error, tool_execution) result" where
  "execute_tool H to_vec name args decision tools =
     (if \<not> is_allow decision then Inl (PolicyDenied (''kernel decision: '' @ show_policy_decision decision))
      else and_then (ok_or (UnknownTool name) (bt_get name tools)) (\<lambda>tool.
           and_then (map_err Handler_Error (rt_handler tool args)) (\<lambda>res.
           Inr \<lparr>te_tool = name, te_arguments_hash = H (to_vec args), te_result = res,
                te_effect_class = rt_effect_class tool\<rparr>)))"

subsection \<open>Direct tools\<close>

definition json_get :: "string \<Rightarrow> json \<Rightarrow> json option" where
  "json_get k v = (case v of JObject m \<Rightarrow> bt_get k m | _ \<Rightarrow> None)"

definition as_str :: "json \<Rightarrow> string option" where
  "as_str v = (case v of JString s \<Rightarrow> Some s | _ \<Rightarrow> None)"

definition as_array :: "json \<Rightarrow> json list option" where
  "as_array v = (case v of JArray xs \<Rightarrow> Some xs | _ \<Rightarrow> None)"

definition fs_list :: "(string \<Rightarrow> (string, string list) result) \<Rightarrow> tool_handler" where
  "fs_list read_dir args =
     and_then (ok_or ''missing dir'' (Option.bind (json_get ''dir'' args) as_str)) (\<lambda>dir.
     and_then (read_dir dir) (\<lambda>entries.
     Inr (JObject [(''entries'', JArray (map JString entries))])))"

definition shell_run :: "(string list \<Rightarrow> (string, int option \<times> string \<times> string) result) \<Rightarrow> tool_handler" where
  "shell_run run args =
     and_then (ok_or ''missing argv'' (Option.bind (json_get ''argv'' args) as_array)) (\<lambda>a.
       let argv = List.map_filter as_str a
       in if argv = [] then Inl ''empty argv''
          else and_then (run argv) (\<lambda>(code, stdout, stderr).
            Inr (JObject [(''exit_code'', case code of None \<Rightarrow> JNull | Some n \<Rightarrow> JNumber (show_int n)),
                          (''stderr'', JString stderr), (''stdout'', JString stdout)])))"

section \<open>The pipeline\<close>

type_synonym hook_context = "string list"

text \<open>A hook sees a value, annotates a fresh context and accepts or fails.\<close>

type_synonym hook = "json \<Rightarrow> hook_context \<times> (string, unit) result"

datatype pipeline_outcome =
  Pipeline_Denied string string
| Pipeline_Executed string string json hook_context

definition is_denied :: "pipeline_outcome \<Rightarrow> bool" where
  "is_denied oc = (case oc of Pipeline_Denied _ _ \<Rightarrow> True | Pipeline_Executed _ _ _ _ \<Rightarrow> False)"

record pipelined_tool =
  pt_name :: string
  pt_schema :: tool_schema
  pt_effect_class :: effect_class
  pt_execute :: tool_handler
  pt_pre_hooks :: "hook list"
  pt_post_hooks :: "hook list"

text \<open>The loop over the hooks before execution: the first veto ends it.\<close>

fun run_pre_hooks :: "hook list \<Rightarrow> json \<Rightarrow> hook_context \<Rightarrow> (string, hook_context) result" where
  "run_pre_hooks [] v ctx = Inr ctx"
| "run_pre_hooks (h # hs) v ctx =
     (case h v of (notes, Inl veto) \<Rightarrow> Inl veto | (notes, Inr _) \<Rightarrow> run_pre_hooks hs v (ctx @ notes))"

fun run_post_hooks :: "hook list \<Rightarrow> json \<Rightarrow> hook_context \<Rightarrow> hook_context" where
  "run_post_hooks [] v ctx = ctx"
| "run_post_hooks (h # hs) v ctx =
     run_post_hooks hs v (case h v of (notes, Inl e) \<Rightarrow> ctx @ [''post-hook error: '' @ e] | (notes, Inr _) \<Rightarrow> ctx @ notes)"

definition run_pipeline ::
  "(string \<Rightarrow> string) \<Rightarrow> (json \<Rightarrow> string) \<Rightarrow> pipelined_tool \<Rightarrow> json \<Rightarrow> policy_decision \<Rightarrow> pipeline_outcome" where
  "run_pipeline H to_text tool raw decision =
     (case normalize_args to_text (pt_schema tool) raw of
        Inl e \<Rightarrow> Pipeline_Denied ''validate'' (show_schema_error e)
      | Inr normalized \<Rightarrow>
          (case decision of
             Deny reason \<Rightarrow> Pipeline_Denied ''policy'' (''kernel denied: '' @ reason)
           | Allow \<Rightarrow>
               (case run_pre_hooks (pt_pre_hooks tool) normalized [] of
                  Inl veto \<Rightarrow> Pipeline_Denied ''pre_hooks'' veto
                | Inr ctx \<Rightarrow>
                    (case pt_execute tool normalized of
                       Inl e \<Rightarrow> Pipeline_Denied ''execute'' e
                     | Inr res \<Rightarrow>
                         Pipeline_Executed (pt_name tool) (H (to_text normalized)) res
                           (run_post_hooks (pt_post_hooks tool) res ctx)))))"

section \<open>Pages of an output\<close>

definition PAGE_MAX_BYTES :: nat where "PAGE_MAX_BYTES = 256 * 1024"

record output_ref =
  or_output_id :: string
  or_total_sha256 :: string
  or_total_bytes :: nat
  or_preview :: string
  or_preview_bytes :: nat

record output_page =
  og_output_id :: string
  og_offset :: nat
  og_data :: string
  og_page_sha256 :: string
  og_is_final :: bool

datatype page_error = OutOfRange nat nat | PageDigestMismatch string nat

fun show_page_error :: "page_error \<Rightarrow> string" where
  "show_page_error (OutOfRange offset n) = ''offset '' @ show_nat offset @ '' beyond output size '' @ show_nat n"
| "show_page_error (PageDigestMismatch i offset) = ''page digest mismatch in '' @ i @ '' at offset '' @ show_nat offset"

text \<open>\<open>from_utf8_lossy\<close> on the preview is the argument \<open>lossy\<close>.\<close>

definition make_output_ref :: "(string \<Rightarrow> string) \<Rightarrow> (string \<Rightarrow> string) \<Rightarrow> string \<Rightarrow> string \<Rightarrow> nat \<Rightarrow> output_ref" where
  "make_output_ref H lossy i raw preview_cap =
     (let preview_len = min preview_cap (length raw)
      in \<lparr>or_output_id = i, or_total_sha256 = H raw, or_total_bytes = length raw,
          or_preview = lossy (take preview_len raw), or_preview_bytes = preview_len\<rparr>)"

definition next_page :: "(string \<Rightarrow> string) \<Rightarrow> string \<Rightarrow> string \<Rightarrow> nat \<Rightarrow> nat \<Rightarrow> (page_error, output_page) result" where
  "next_page H i raw offset max_bytes =
     (let n = length raw
      in if n \<le> offset then Inl (OutOfRange offset n)
         else let e = min n (offset + min max_bytes PAGE_MAX_BYTES);
                  data = take (e - offset) (drop offset raw)
              in Inr \<lparr>og_output_id = i, og_offset = offset, og_data = data, og_page_sha256 = H data, og_is_final = (e = n)\<rparr>)"

definition verify_page :: "(string \<Rightarrow> string) \<Rightarrow> output_page \<Rightarrow> string \<Rightarrow> (page_error, unit) result" where
  "verify_page H p expected =
     (if H (og_data p) \<noteq> og_page_sha256 p \<or> og_data p \<noteq> expected
      then Inl (PageDigestMismatch (og_output_id p) (og_offset p)) else Inr ())"

section \<open>A denial is final\<close>

lemma pre_hooks_pass: "(\<exists>ctx'. run_pre_hooks hs n ctx = Inr ctx') \<longleftrightarrow> list_all (\<lambda>hk. is_ok (snd (hk n))) hs"
proof (induction hs arbitrary: ctx)
  case (Cons hk hs)
  then show ?case by (cases "hk n"; cases "snd (hk n)") auto
qed simp

text \<open>The pipeline runs a tool exactly when its arguments normalise, the kernel allowed the call, no hook before
  execution vetoed and the executor succeeded; the executor sees the normalised arguments only.\<close>

lemma pipeline_executes_exactly:
  "(\<exists>h res notes. run_pipeline H to_text tool raw decision = Pipeline_Executed (pt_name tool) h res notes) \<longleftrightarrow>
     decision = Allow \<and> (\<exists>n. normalize_args to_text (pt_schema tool) raw = Inr n
       \<and> list_all (\<lambda>hk. is_ok (snd (hk n))) (pt_pre_hooks tool) \<and> is_ok (pt_execute tool n))"
proof (cases "normalize_args to_text (pt_schema tool) raw")
  case (Inr n)
  then show ?thesis
    using pre_hooks_pass [of "pt_pre_hooks tool" n "[]"]
    by (cases decision; cases "run_pre_hooks (pt_pre_hooks tool) n []"; cases "pt_execute tool n")
       (auto simp: run_pipeline_def)
qed (simp add: run_pipeline_def)

text \<open>A denied call does not depend on the executor or on any hook.\<close>

lemma denied_call_runs_nothing:
  "run_pipeline H to_text (tool\<lparr>pt_execute := f, pt_pre_hooks := pre, pt_post_hooks := post\<rparr>) raw (Deny reason) =
   run_pipeline H to_text tool raw (Deny reason)"
  by (cases "normalize_args to_text (pt_schema tool) raw") (simp_all add: run_pipeline_def)

lemma denied_tool_is_not_executed: "execute_tool H to_vec name args (Deny r) tools = Inl (PolicyDenied (''kernel decision: deny: '' @ r))"
  by (simp add: execute_tool_def)

section \<open>The registry keeps one tool per name\<close>

definition registry_ok :: "tool_registry \<Rightarrow> bool" where
  "registry_ok tools \<longleftrightarrow> bt_sorted tools \<and> (\<forall>k t. bt_get k tools = Some t \<longrightarrow> rt_name t = k)"

datatype registry_op =
  Register string string effect_class string "tool_schema option" tool_handler
| Remove_Tool string

definition registry_step :: "tool_registry \<Rightarrow> registry_op \<Rightarrow> tool_registry" where
  "registry_step tools x =
     (case x of
        Register n v e d s h \<Rightarrow> snd (register_with_schema n v e d s h tools)
      | Remove_Tool n \<Rightarrow> snd (remove_tool n tools))"

interpretation registry: machine registry_step registry_ok
  by unfold_locales
     (auto simp: registry_step_def registry_ok_def register_with_schema_def remove_tool_def split: registry_op.splits if_splits)

lemma projected_tools_are_registered:
  assumes "registry_ok tools" and "p \<in> set (tool_definitions tools)"
  shows "\<exists>t s. bt_get (pj_name p) tools = Some t \<and> rt_schema t = Some s \<and> pj_parameters p = json_schema s"
proof -
  obtain t s where t: "t \<in> set (bt_values tools)" "rt_schema t = Some s" "pj_name p = rt_name t" "pj_parameters p = json_schema s"
    using assms(2) by (auto simp: tool_definitions_def split: option.splits dest!: sym [of "Some _"])
  then obtain k where "bt_get k tools = Some t" using bt_values_get assms(1) by (metis registry_ok_def)
  then show ?thesis using assms(1) t by (auto simp: registry_ok_def)
qed

section \<open>Reading all pages\<close>

text \<open>A reader that asks for page after page until the final one, without bound.\<close>

partial_function (option) read_pages ::
  "(string \<Rightarrow> string) \<Rightarrow> string \<Rightarrow> string \<Rightarrow> nat \<Rightarrow> nat \<Rightarrow> output_page list option" where
  "read_pages H i raw max_bytes offset =
     (case next_page H i raw offset max_bytes of
        Inl _ \<Rightarrow> Some []
      | Inr p \<Rightarrow> if og_is_final p then Some [p]
                else Option.bind (read_pages H i raw max_bytes (offset + length (og_data p))) (\<lambda>ps. Some (p # ps)))"

lemma next_page_obtain:
  assumes "0 < max_bytes" and "offset < length raw"
  obtains p where "next_page H i raw offset max_bytes = Inr p" and "og_data p \<noteq> []"
    and "length (og_data p) \<le> min max_bytes PAGE_MAX_BYTES" and "verify_page H p (og_data p) = Inr ()"
    and "og_data p @ drop (offset + length (og_data p)) raw = drop offset raw"
    and "og_is_final p \<Longrightarrow> drop (offset + length (og_data p)) raw = []"
proof -
  define k where "k = min (length raw) (offset + min max_bytes PAGE_MAX_BYTES) - offset"
  define d where "d = take k (drop offset raw)"
  have k: "0 < k" "k \<le> min max_bytes PAGE_MAX_BYTES" "offset + k \<le> length raw"
    using assms by (auto simp: k_def PAGE_MAX_BYTES_def)
  have len: "length d = k" using k(3) by (simp add: d_def)
  define fin where "fin = (min (length raw) (offset + min max_bytes PAGE_MAX_BYTES) = length raw)"
  have page: "next_page H i raw offset max_bytes =
      Inr \<lparr>og_output_id = i, og_offset = offset, og_data = d, og_page_sha256 = H d, og_is_final = fin\<rparr>"
    using assms(2) by (simp add: next_page_def Let_def d_def k_def fin_def)
  have all: "d @ drop (offset + length d) raw = drop offset raw"
    unfolding len unfolding d_def by (metis append_take_drop_id drop_drop add.commute)
  have last: "fin \<Longrightarrow> drop (offset + length d) raw = []" using assms(2) len by (simp add: k_def fin_def)
  have d: "d \<noteq> []" "length d \<le> min max_bytes PAGE_MAX_BYTES" using len k by auto
  show ?thesis
    using that [OF page] d all last by (simp add: verify_page_def)
qed

lemma read_pages_from:
  "0 < max_bytes \<Longrightarrow> \<exists>ps. read_pages H i raw max_bytes offset = Some ps \<and> concat (map og_data ps) = drop offset raw
     \<and> list_all (\<lambda>p. length (og_data p) \<le> min max_bytes PAGE_MAX_BYTES \<and> verify_page H p (og_data p) = Inr ()) ps"
proof (induction "length raw - offset" arbitrary: offset rule: less_induct)
  case less
  show ?case
  proof (cases "length raw \<le> offset")
    case True
    then show ?thesis by (subst read_pages.simps) (simp add: next_page_def)
  next
    case False
    then obtain p where page: "next_page H i raw offset max_bytes = Inr p" and p: "og_data p \<noteq> []"
      "length (og_data p) \<le> min max_bytes PAGE_MAX_BYTES \<and> verify_page H p (og_data p) = Inr ()"
      "og_data p @ drop (offset + length (og_data p)) raw = drop offset raw"
      "og_is_final p \<Longrightarrow> drop (offset + length (og_data p)) raw = []"
      using next_page_obtain [OF less.prems, of offset raw H i] by auto
    show ?thesis
    proof (cases "og_is_final p")
      case True
      then have "read_pages H i raw max_bytes offset = Some [p]" using page by (subst read_pages.simps) simp
      then show ?thesis using p True by auto
    next
      case not_final: False
      have "length raw - (offset + length (og_data p)) < length raw - offset" using False p(1) by (cases "og_data p") auto
      then obtain ps where ps: "read_pages H i raw max_bytes (offset + length (og_data p)) = Some ps"
        "concat (map og_data ps) = drop (offset + length (og_data p)) raw"
        "list_all (\<lambda>p. length (og_data p) \<le> min max_bytes PAGE_MAX_BYTES \<and> verify_page H p (og_data p) = Inr ()) ps"
        using less.hyps less.prems by blast
      have "read_pages H i raw max_bytes offset = Some (p # ps)"
        using page ps(1) not_final by (subst read_pages.simps) simp
      then show ?thesis using p ps by auto
    qed
  qed
qed

text \<open>Reading an output page by page ends whenever a page may hold a byte, and gives the output back: the pages
  in order are its bytes, each page within the caps and with a digest that verifies.\<close>

lemma pages_reassemble_output:
  assumes "0 < max_bytes"
  shows "\<exists>ps. read_pages H i raw max_bytes 0 = Some ps \<and> concat (map og_data ps) = raw
    \<and> list_all (\<lambda>p. length (og_data p) \<le> min max_bytes PAGE_MAX_BYTES \<and> verify_page H p (og_data p) = Inr ()) ps"
  using read_pages_from [OF assms, of H i raw 0] by simp

lemma pages_reassemble_output_witness:
  "\<exists>ps. read_pages (\<lambda>s. s) ''o'' ''abcde'' 2 0 = Some ps \<and> concat (map og_data ps) = ''abcde''"
  using pages_reassemble_output [of 2 "\<lambda>s. s" "''o''" "''abcde''"] by auto

text \<open>With a page size of zero the page is empty and not final, and the reader never comes to an end.\<close>

lemma zero_pages_never_end:
  assumes "raw \<noteq> []"
  shows "read_pages H i raw 0 0 = None"
proof -
  obtain p where "next_page H i raw 0 0 = Inr p" "\<not> og_is_final p" "og_data p = []"
    using assms by (simp add: next_page_def Let_def)
  then have "read_pages H i raw 0 0 = Option.bind (read_pages H i raw 0 0) (\<lambda>ps. Some (p # ps))"
    by (subst read_pages.simps) simp
  then show ?thesis by (cases "read_pages H i raw 0 0") auto
qed

end
