(* ===== verification/Provider_Gateway.thy ===== *)
theory Provider_Gateway
  imports Compaction Tool_Pipeline
begin

text \<open>
  The provider gateway (\<^verbatim>\<open>crates/providers/src/gateway.rs\<close>, \<^verbatim>\<open>profiles.rs\<close>, \<^verbatim>\<open>usage.rs\<close>): the bodies of the requests to both
  providers, the readers of the payloads they stream back, and the assembler that joins the fragments of tool calls.
  The JSON reader is a parameter; a JSON number is the text it has on the wire, and a temperature is the decimal
  literal of the source (the rounding to 32 bits is not modelled). The constructors of messages are in \<open>Compaction\<close>.
\<close>

section \<open>JSON values\<close>

definition json_object :: "(string \<times> json) list \<Rightarrow> json" where
  "json_object kvs = JObject (foldl (\<lambda>m (k, v). bt_insert k v m) [] kvs)"

text \<open>Assignment to a field of an object, \<open>value["key"] = v\<close>.\<close>

definition json_set :: "string \<Rightarrow> json \<Rightarrow> json \<Rightarrow> json" where
  "json_set k v obj = (case obj of JObject m \<Rightarrow> JObject (bt_insert k v m) | _ \<Rightarrow> obj)"

definition as_u64 :: "json \<Rightarrow> nat option" where
  "as_u64 v = (case v of JNumber s \<Rightarrow> if list_all is_digit s then parse_unsigned 64 s else None | _ \<Rightarrow> None)"

definition as_u32 :: "nat \<Rightarrow> nat" where
  "as_u32 n = n mod 2 ^ 32"

definition json_nat :: "nat \<Rightarrow> json" where
  "json_nat n = JNumber (show_nat n)"

section \<open>Requests\<close>

datatype reasoning_effort = Minimal | Low | Medium | High

fun show_reasoning_effort :: "reasoning_effort \<Rightarrow> string" where
  "show_reasoning_effort Minimal = ''minimal''"
| "show_reasoning_effort Low = ''low''"
| "show_reasoning_effort Medium = ''medium''"
| "show_reasoning_effort High = ''high''"

record model_settings =
  ms_max_output_tokens :: nat
  ms_temperature :: string
  ms_reasoning_effort :: "reasoning_effort option"

definition BASE_settings :: model_settings where
  "BASE_settings = \<lparr>ms_max_output_tokens = 4096, ms_temperature = ''0.2'', ms_reasoning_effort = None\<rparr>"

definition resolve_model_settings :: "string \<Rightarrow> model_settings" where
  "resolve_model_settings model =
     (let lower = to_lowercase model
      in if list_ex (\<lambda>p. str_contains lower p) [''gpt-5'', ''o3'', ''o4'', ''claude'', ''glm-4'', ''glm-5'']
         then BASE_settings\<lparr>ms_max_output_tokens := 8192\<rparr> else BASE_settings)"

definition parse_reasoning_effort :: "string \<Rightarrow> reasoning_effort option" where
  "parse_reasoning_effort s =
     map_of [(''minimal'', Minimal), (''low'', Low), (''medium'', Medium), (''high'', High)] (to_lowercase (str_trim s))"

record tool_definition =
  tf_name :: string
  tf_description :: string
  tf_parameters :: json

record model_request =
  mq_request_id :: string
  mq_model :: string
  mq_system :: string
  mq_messages :: "chat_message list"
  mq_max_output_tokens :: nat
  mq_temperature :: string
  mq_reasoning_effort :: "reasoning_effort option"
  mq_tools :: "tool_definition list"

datatype provider = OpenAi | Anthropic

fun role_name :: "role \<Rightarrow> string" where
  "role_name Role_User = ''user''"
| "role_name Role_Assistant = ''assistant''"
| "role_name Role_Tool = ''tool''"

definition endpoint :: "(string \<Rightarrow> string option) \<Rightarrow> provider \<Rightarrow> string" where
  "endpoint env p =
     (case p of
        OpenAi \<Rightarrow> (case env ''OPENAI_BASE_URL'' of Some b \<Rightarrow> b | None \<Rightarrow> ''https://api.openai.com/v1'') @ ''/chat/completions''
      | Anthropic \<Rightarrow> (case env ''ANTHROPIC_BASE_URL'' of Some b \<Rightarrow> b | None \<Rightarrow> ''https://api.anthropic.com'') @ ''/v1/messages'')"

fun credential_env :: "provider \<Rightarrow> string" where
  "credential_env OpenAi = ''OPENAI_API_KEY''"
| "credential_env Anthropic = ''ANTHROPIC_API_KEY''"

definition test_request :: "(string \<Rightarrow> string option) \<Rightarrow> model_request" where
  "test_request env =
     \<lparr>mq_request_id = ''live-qualification'',
      mq_model = (case env ''MODBIT_LIVE_MODEL'' of Some m \<Rightarrow> m | None \<Rightarrow> ''gpt-4o-mini''),
      mq_system = ''Reply with exactly: pong'', mq_messages = [user_message ''ping''], mq_max_output_tokens = 4096,
      mq_temperature = ''0.0'', mq_reasoning_effort = None, mq_tools = []\<rparr>"

subsection \<open>The body for OpenAI\<close>

definition openai_call :: "tool_call_data \<Rightarrow> json" where
  "openai_call c =
     json_object [(''id'', JString (td_call_id c)), (''type'', JString ''function''),
       (''function'', json_object [(''name'', JString (td_name c)), (''arguments'', JString (td_arguments c))])]"

definition openai_message :: "chat_message \<Rightarrow> json" where
  "openai_message m =
     (let message = json_object [(''role'', JString (role_name (ch_role m))), (''content'', JString (ch_content m))]
      in case ch_role m of
           Role_Assistant \<Rightarrow>
             if ch_tool_calls m = [] then message
             else json_set ''tool_calls'' (JArray (map openai_call (ch_tool_calls m))) message
         | Role_Tool \<Rightarrow>
             (case ch_tool_call_id m of None \<Rightarrow> message | Some i \<Rightarrow> json_set ''tool_call_id'' (JString i) message)
         | Role_User \<Rightarrow> message)"

definition openai_tool :: "tool_definition \<Rightarrow> json" where
  "openai_tool t =
     json_object [(''type'', JString ''function''),
       (''function'', json_object [(''name'', JString (tf_name t)), (''description'', JString (tf_description t)),
          (''parameters'', tf_parameters t)])]"

definition openai_request_body :: "model_request \<Rightarrow> json" where
  "openai_request_body r =
     (let system = (if mq_system r = [] then []
                    else [json_object [(''role'', JString ''system''), (''content'', JString (mq_system r))]]);
          body = json_object
            [(''model'', JString (mq_model r)), (''messages'', JArray (system @ map openai_message (mq_messages r))),
             (''max_tokens'', json_nat (mq_max_output_tokens r)), (''temperature'', JNumber (mq_temperature r)),
             (''stream'', JBool True), (''stream_options'', json_object [(''include_usage'', JBool True)])];
          body1 = (if mq_tools r = [] then body else json_set ''tools'' (JArray (map openai_tool (mq_tools r))) body)
      in case mq_reasoning_effort r of
           None \<Rightarrow> body1
         | Some e \<Rightarrow> json_set ''reasoning_effort'' (JString (show_reasoning_effort e)) body1)"

subsection \<open>The body for Anthropic\<close>

definition anthropic_call :: "(string \<Rightarrow> (string, json) result) \<Rightarrow> tool_call_data \<Rightarrow> json" where
  "anthropic_call de c =
     json_object [(''type'', JString ''tool_use''), (''id'', JString (td_call_id c)), (''name'', JString (td_name c)),
       (''input'', case de (td_arguments c) of Inr v \<Rightarrow> v | Inl _ \<Rightarrow> JObject [])]"

definition anthropic_message :: "(string \<Rightarrow> (string, json) result) \<Rightarrow> chat_message \<Rightarrow> json" where
  "anthropic_message de m =
     (let plain = json_object [(''role'', JString (role_name (ch_role m))), (''content'', JString (ch_content m))]
      in case ch_role m of
           Role_Assistant \<Rightarrow>
             if ch_tool_calls m = [] then plain
             else json_object [(''role'', JString ''assistant''),
                    (''content'', JArray
                       ((if ch_content m = [] then []
                         else [json_object [(''type'', JString ''text''), (''text'', JString (ch_content m))]])
                        @ map (anthropic_call de) (ch_tool_calls m)))]
         | Role_Tool \<Rightarrow>
             let block = json_object [(''type'', JString ''tool_result''),
                   (''tool_use_id'', case ch_tool_call_id m of None \<Rightarrow> JNull | Some i \<Rightarrow> JString i),
                   (''content'', JString (ch_content m))];
                 block1 = (if ch_is_error m then json_set ''is_error'' (JBool True) block else block)
             in json_object [(''role'', JString ''user''), (''content'', JArray [block1])]
         | Role_User \<Rightarrow> plain)"

definition anthropic_tool :: "tool_definition \<Rightarrow> json" where
  "anthropic_tool t =
     json_object [(''name'', JString (tf_name t)), (''description'', JString (tf_description t)),
       (''input_schema'', tf_parameters t)]"

fun mapped_budget :: "reasoning_effort \<Rightarrow> nat" where
  "mapped_budget Minimal = 1024"
| "mapped_budget Low = 1024"
| "mapped_budget Medium = 4096"
| "mapped_budget High = 8192"

definition thinking_budget :: "reasoning_effort \<Rightarrow> nat \<Rightarrow> nat option" where
  "thinking_budget e max_tokens =
     (let budget = min (mapped_budget e) (max_tokens div 2) in if 1024 \<le> budget then Some budget else None)"

definition anthropic_request_body :: "(string \<Rightarrow> (string, json) result) \<Rightarrow> model_request \<Rightarrow> json" where
  "anthropic_request_body de r =
     (let body = json_object
            [(''model'', JString (mq_model r)), (''system'', JString (mq_system r)),
             (''messages'', JArray (map (anthropic_message de) (mq_messages r))),
             (''max_tokens'', json_nat (mq_max_output_tokens r)), (''temperature'', JNumber (mq_temperature r)),
             (''stream'', JBool True)];
          body1 = (if mq_tools r = [] then body else json_set ''tools'' (JArray (map anthropic_tool (mq_tools r))) body)
      in case Option.bind (mq_reasoning_effort r) (\<lambda>e. thinking_budget e (mq_max_output_tokens r)) of
           None \<Rightarrow> body1
         | Some b \<Rightarrow> json_set ''thinking''
                      (json_object [(''type'', JString ''enabled''), (''budget_tokens'', json_nat b)]) body1)"

section \<open>Streamed events\<close>

record token_usage =
  tu_input_tokens :: nat
  tu_output_tokens :: nat

datatype stream_event =
  Ev_Delta string
| Ev_ToolRequest string string string
| Ev_ToolCallDelta "string option" "nat option" "string option" string
| Ev_Usage token_usage
| Ev_Completed "string option"

text \<open>Usage fields of one frame.\<close>

record usage_frame =
  uf_input_tokens :: "nat option"
  uf_output_tokens :: "nat option"

definition usage_fields :: "string \<Rightarrow> string \<Rightarrow> json \<Rightarrow> usage_frame" where
  "usage_fields i n usage =
     \<lparr>uf_input_tokens = Option.bind (json_get i usage) as_u64, uf_output_tokens = Option.bind (json_get n usage) as_u64\<rparr>"

definition extract_usage_frame :: "(string \<Rightarrow> (string, json) result) \<Rightarrow> provider \<Rightarrow> string \<Rightarrow> usage_frame option" where
  "extract_usage_frame de p payload =
     (case de payload of
        Inl _ \<Rightarrow> None
      | Inr v \<Rightarrow>
          (case p of
             OpenAi \<Rightarrow> map_option (usage_fields ''prompt_tokens'' ''completion_tokens'') (json_get ''usage'' v)
           | Anthropic \<Rightarrow>
               Option.bind (Option.bind (json_get ''type'' v) as_str) (\<lambda>kind.
                 map_option (usage_fields ''input_tokens'' ''output_tokens'')
                   (if kind = ''message_start'' then Option.bind (json_get ''message'' v) (json_get ''usage'')
                    else if kind = ''message_delta'' then json_get ''usage'' v
                    else None))))"

definition first_of :: "'a list \<Rightarrow> 'a option" where
  "first_of xs = (case xs of [] \<Rightarrow> None | x # _ \<Rightarrow> Some x)"

definition openai_fragment :: "json \<Rightarrow> stream_event" where
  "openai_fragment call =
     (let fn = json_get ''function'' call
      in Ev_ToolCallDelta (Option.bind (json_get ''id'' call) as_str)
           (map_option as_u32 (Option.bind (json_get ''index'' call) as_u64))
           (Option.bind (Option.bind fn (json_get ''name'')) as_str)
           (case Option.bind (Option.bind fn (json_get ''arguments'')) as_str of None \<Rightarrow> [] | Some a \<Rightarrow> a))"

definition openai_usage :: "(string \<Rightarrow> (string, json) result) \<Rightarrow> string \<Rightarrow> stream_event option" where
  "openai_usage de payload =
     Option.bind (extract_usage_frame de OpenAi payload) (\<lambda>f.
       if uf_input_tokens f \<noteq> None \<or> uf_output_tokens f \<noteq> None
       then Some (Ev_Usage \<lparr>tu_input_tokens = (case uf_input_tokens f of Some n \<Rightarrow> n | None \<Rightarrow> 0),
                             tu_output_tokens = (case uf_output_tokens f of Some n \<Rightarrow> n | None \<Rightarrow> 0)\<rparr>)
       else None)"

definition text_delta :: "string \<Rightarrow> stream_event option" where
  "text_delta txt = (if txt = [] then None else Some (Ev_Delta txt))"

definition parse_openai_sse_payload :: "(string \<Rightarrow> (string, json) result) \<Rightarrow> string \<Rightarrow> stream_event option" where
  "parse_openai_sse_payload de raw =
     (let payload = str_trim raw
      in if payload = ''[DONE]'' then Some (Ev_Completed (Some ''stop''))
         else case de payload of
                Inl _ \<Rightarrow> None
              | Inr v \<Rightarrow>
                  Option.bind (Option.bind (json_get ''choices'' v) as_array) (\<lambda>choices.
                    case choices of
                      [] \<Rightarrow> openai_usage de payload
                    | choice # _ \<Rightarrow>
                        (case Option.bind (json_get ''finish_reason'' choice) as_str of
                           Some reason \<Rightarrow> Some (Ev_Completed (Some reason))
                         | None \<Rightarrow>
                             (case Option.bind (Option.bind (json_get ''delta'' choice) (json_get ''tool_calls'')) as_array of
                                Some calls \<Rightarrow> map_option openai_fragment (first_of calls)
                              | None \<Rightarrow>
                                  Option.bind (Option.bind (Option.bind (json_get ''delta'' choice) (json_get ''content'')) as_str)
                                    text_delta))))"

definition anthropic_start :: "(json \<Rightarrow> string) \<Rightarrow> json \<Rightarrow> nat option \<Rightarrow> stream_event option" where
  "anthropic_start to_text block index =
     (if Option.bind (json_get ''type'' block) as_str \<noteq> Some ''tool_use'' then None
      else Option.bind (Option.bind (json_get ''id'' block) as_str) (\<lambda>i.
           Option.bind (Option.bind (json_get ''name'' block) as_str) (\<lambda>n.
           Some (Ev_ToolCallDelta (Some i) index (Some n)
             (case json_get ''input'' block of
                None \<Rightarrow> [] | Some JNull \<Rightarrow> [] | Some (JObject []) \<Rightarrow> [] | Some v \<Rightarrow> to_text v)))))"

definition anthropic_delta :: "json \<Rightarrow> nat option \<Rightarrow> stream_event option" where
  "anthropic_delta delta index =
     (if Option.bind (json_get ''type'' delta) as_str = Some ''input_json_delta''
      then Some (Ev_ToolCallDelta None index None
             (case Option.bind (json_get ''partial_json'' delta) as_str of None \<Rightarrow> [] | Some a \<Rightarrow> a))
      else Option.bind (Option.bind (json_get ''text'' delta) as_str) text_delta)"

definition parse_anthropic_sse_payload ::
  "(string \<Rightarrow> (string, json) result) \<Rightarrow> (json \<Rightarrow> string) \<Rightarrow> string \<Rightarrow> stream_event option" where
  "parse_anthropic_sse_payload de to_text payload =
     (case de payload of
        Inl _ \<Rightarrow> None
      | Inr v \<Rightarrow>
          Option.bind (Option.bind (json_get ''type'' v) as_str) (\<lambda>kind.
            let index = map_option as_u32 (Option.bind (json_get ''index'' v) as_u64)
            in if kind = ''content_block_delta'' then Option.bind (json_get ''delta'' v) (\<lambda>d. anthropic_delta d index)
               else if kind = ''content_block_start''
               then Option.bind (json_get ''content_block'' v) (\<lambda>b. anthropic_start to_text b index)
               else if kind = ''message_delta''
               then Some (Ev_Completed (Option.bind (Option.bind (json_get ''delta'' v) (json_get ''stop_reason'')) as_str))
               else if kind = ''message_stop'' then Some (Ev_Completed (Some ''end_turn''))
               else None))"

definition sse_data_line :: "string \<Rightarrow> string option" where
  "sse_data_line line =
     (let trimmed = rev (dropWhile (\<lambda>c. c = CHR 0x0A \<or> c = CHR 0x0D) (rev line))
      in if starts_with trimmed ''data: '' \<and> drop 6 trimmed \<noteq> [] then Some (drop 6 trimmed) else None)"

section \<open>The assembler of tool calls\<close>

record partial_tool_call =
  pc_call_id :: "string option"
  pc_index :: "nat option"
  pc_name :: string
  pc_arguments :: string

record tool_call_assembler =
  ta_partials :: "partial_tool_call list"
  ta_emitted :: "string list"

definition assembler_new :: tool_call_assembler where
  "assembler_new = \<lparr>ta_partials = [], ta_emitted = []\<rparr>"

definition same_call :: "string option \<Rightarrow> nat option \<Rightarrow> partial_tool_call \<Rightarrow> bool" where
  "same_call call_id index p =
     (case call_id of Some i \<Rightarrow> pc_call_id p = Some i | None \<Rightarrow> index \<noteq> None \<and> pc_index p = index)"

definition add_fragment ::
  "string option \<Rightarrow> nat option \<Rightarrow> string option \<Rightarrow> string \<Rightarrow> partial_tool_call \<Rightarrow> partial_tool_call" where
  "add_fragment call_id index name args p =
     \<lparr>pc_call_id = (if pc_call_id p = None then call_id else pc_call_id p),
      pc_index = (if pc_index p = None then index else pc_index p),
      pc_name = (case name of Some n \<Rightarrow> n | None \<Rightarrow> pc_name p),
      pc_arguments = pc_arguments p @ args\<rparr>"

text \<open>The fragment goes to the first partial call of the same identity, or opens a new one at the end.\<close>

fun place_fragment ::
  "string option \<Rightarrow> nat option \<Rightarrow> string option \<Rightarrow> string \<Rightarrow> partial_tool_call list \<Rightarrow> partial_tool_call list" where
  "place_fragment call_id index name args [] =
     [add_fragment call_id index name args \<lparr>pc_call_id = call_id, pc_index = index, pc_name = [], pc_arguments = []\<rparr>]"
| "place_fragment call_id index name args (p # ps) =
     (if same_call call_id index p then add_fragment call_id index name args p # ps
      else p # place_fragment call_id index name args ps)"

text \<open>The loop that flushes the partial calls at a completion.\<close>

fun flush_partials :: "partial_tool_call list \<Rightarrow> string list \<Rightarrow> stream_event list \<times> string list" where
  "flush_partials [] emitted = ([], emitted)"
| "flush_partials (p # ps) emitted =
     (case pc_call_id p of
        None \<Rightarrow> flush_partials ps emitted
      | Some i \<Rightarrow>
          if pc_name p = [] \<or> i \<in> set emitted then flush_partials ps emitted
          else case flush_partials ps (emitted @ [i]) of
                 (out, e) \<Rightarrow> (Ev_ToolRequest i (pc_name p) (pc_arguments p) # out, e))"

fun feed :: "stream_event \<Rightarrow> tool_call_assembler \<Rightarrow> stream_event list \<times> tool_call_assembler" where
  "feed (Ev_ToolCallDelta call_id index name args) a =
     ([], a\<lparr>ta_partials := place_fragment call_id index name args (ta_partials a)\<rparr>)"
| "feed (Ev_Completed reason) a =
     (case flush_partials (ta_partials a) (ta_emitted a) of
        (out, e) \<Rightarrow> (out @ [Ev_Completed reason], \<lparr>ta_partials = [], ta_emitted = e\<rparr>))"
| "feed ev a = ([ev], a)"

text \<open>The loop of the runtime over the events of a response.\<close>

fun feed_all :: "stream_event list \<Rightarrow> tool_call_assembler \<Rightarrow> stream_event list \<times> tool_call_assembler" where
  "feed_all [] a = ([], a)"
| "feed_all (ev # evs) a = (case feed ev a of (out, a1) \<Rightarrow> case feed_all evs a1 of (out', a2) \<Rightarrow> (out @ out', a2))"

section \<open>What the assembler does\<close>

fun is_fragment :: "stream_event \<Rightarrow> bool" where
  "is_fragment (Ev_ToolCallDelta _ _ _ _) = True"
| "is_fragment _ = False"

text \<open>No fragment leaves the assembler.\<close>

lemma flush_partials_requests: "ev \<in> set (fst (flush_partials ps e)) \<Longrightarrow> \<not> is_fragment ev"
  by (induction ps e rule: flush_partials.induct) (auto split: option.splits if_splits prod.splits)

lemma feed_no_fragment: "ev' \<in> set (fst (feed ev a)) \<Longrightarrow> \<not> is_fragment ev'"
  using flush_partials_requests [of ev' "ta_partials a" "ta_emitted a"] by (cases ev) (auto split: prod.splits)

lemma feed_all_no_fragment: "ev \<in> set (fst (feed_all evs a)) \<Longrightarrow> \<not> is_fragment ev"
proof (induction evs arbitrary: a)
  case (Cons e evs)
  then have "ev \<in> set (fst (feed e a)) \<or> ev \<in> set (fst (feed_all evs (snd (feed e a))))" by (auto split: prod.splits)
  then show ?case using feed_no_fragment Cons.IH by blast
qed simp

text \<open>How the providers stream tool calls: the first fragment of a call has its identifier, its index and its name; the
  later ones have only the index. Calls may be interleaved with each other and with text.\<close>

fun streamed :: "(string \<times> nat) list \<Rightarrow> stream_event list \<Rightarrow> bool" where
  "streamed seen [] = True"
| "streamed seen (Ev_ToolCallDelta (Some i) (Some n) (Some nm) a # evs) =
     (i \<notin> fst ` set seen \<and> n \<notin> snd ` set seen \<and> nm \<noteq> [] \<and> streamed (seen @ [(i, n)]) evs)"
| "streamed seen (Ev_ToolCallDelta None (Some n) None a # evs) = (n \<in> snd ` set seen \<and> streamed seen evs)"
| "streamed seen (Ev_Delta t # evs) = streamed seen evs"
| "streamed seen (Ev_Usage u # evs) = streamed seen evs"
| "streamed seen (ev # evs) = False"

text \<open>The calls in the order they were opened, and the pieces of the arguments of a call put together.\<close>

fun opened :: "stream_event list \<Rightarrow> (string \<times> nat \<times> string) list" where
  "opened [] = []"
| "opened (Ev_ToolCallDelta (Some i) (Some n) (Some nm) a # evs) = (i, n, nm) # opened evs"
| "opened (ev # evs) = opened evs"

fun arguments_of :: "nat \<Rightarrow> stream_event list \<Rightarrow> string" where
  "arguments_of n [] = []"
| "arguments_of n (Ev_ToolCallDelta i (Some m) nm a # evs) = (if m = n then a else []) @ arguments_of n evs"
| "arguments_of n (ev # evs) = arguments_of n evs"

definition partial_of :: "string \<times> nat \<times> string \<times> string \<Rightarrow> partial_tool_call" where
  "partial_of = (\<lambda>(i, n, nm, a). \<lparr>pc_call_id = Some i, pc_index = Some n, pc_name = nm, pc_arguments = a\<rparr>)"

lemma opened_fresh: "streamed seen evs \<Longrightarrow> (i, n, nm) \<in> set (opened evs) \<Longrightarrow> i \<notin> fst ` set seen \<and> n \<notin> snd ` set seen \<and> nm \<noteq> []"
  by (induction seen evs rule: streamed.induct) auto

lemma opened_distinct: "streamed seen evs \<Longrightarrow> distinct (map fst (opened evs))"
  by (induction seen evs rule: streamed.induct) (auto dest: opened_fresh)

lemma place_new:
  "i \<notin> fst ` set base \<Longrightarrow>
     place_fragment (Some i) (Some n) (Some nm) a (map partial_of base) = map partial_of (base @ [(i, n, nm, a)])"
  by (induction base) (auto simp: partial_of_def same_call_def add_fragment_def)

lemma place_more:
  "n \<in> (fst \<circ> snd) ` set base \<Longrightarrow> distinct (map (fst \<circ> snd) base) \<Longrightarrow>
     place_fragment None (Some n) None a (map partial_of base) =
     map partial_of (map (\<lambda>(i, m, nm, b). (i, m, nm, b @ (if m = n then a else []))) base)"
proof (induction base)
  case (Cons x base)
  obtain i m nm b where x: "x = (i, m, nm, b)" by (cases x)
  show ?case
  proof (cases "m = n")
    case True
    then have "map (\<lambda>(i, m, nm, b). (i, m, nm, b @ (if m = n then a else []))) base = base"
      using Cons.prems(2) x by (intro map_idI) (force split: prod.splits)
    then show ?thesis using True x by (simp add: partial_of_def same_call_def add_fragment_def)
  next
    case False
    then show ?thesis using Cons x by (auto simp: partial_of_def same_call_def)
  qed
qed simp

text \<open>The partial calls after a stretch of a stream.\<close>

definition extended :: "(string \<times> nat \<times> string \<times> string) list \<Rightarrow> stream_event list \<Rightarrow> (string \<times> nat \<times> string \<times> string) list" where
  "extended base evs =
     map (\<lambda>(i, n, nm, b). (i, n, nm, b @ arguments_of n evs)) base
     @ map (\<lambda>(i, n, nm). (i, n, nm, arguments_of n evs)) (opened evs)"

lemma feed_all_streamed:
  "streamed (map (\<lambda>(i, n, nm, b). (i, n)) base) evs \<Longrightarrow> distinct (map fst base) \<Longrightarrow> distinct (map (fst \<circ> snd) base) \<Longrightarrow>
     feed_all evs \<lparr>ta_partials = map partial_of base, ta_emitted = e\<rparr> =
     (filter (\<lambda>ev. \<not> is_fragment ev) evs, \<lparr>ta_partials = map partial_of (extended base evs), ta_emitted = e\<rparr>)"
proof (induction "map (\<lambda>(i, n, nm, b). (i, n)) base" evs arbitrary: base rule: streamed.induct)
  case 1
  then show ?case by (auto simp: extended_def case_prod_unfold)
next
  case (2 i n nm a evs)
  let ?base = "base @ [(i, n, nm, a)]"
  have fresh: "i \<notin> fst ` set base" "n \<notin> (fst \<circ> snd) ` set base" using "2.prems"(1) by force+
  have IH: "feed_all evs \<lparr>ta_partials = map partial_of ?base, ta_emitted = e\<rparr> =
      (filter (\<lambda>ev. \<not> is_fragment ev) evs, \<lparr>ta_partials = map partial_of (extended ?base evs), ta_emitted = e\<rparr>)"
    using "2.hyps" [of ?base] "2.prems" fresh by auto
  have other: "m \<noteq> n" if "(j, m, x) \<in> set (opened evs)" for j m x
    using opened_fresh [of _ evs j m x] that "2.prems"(1) by force
  have "extended ?base evs = extended base (Ev_ToolCallDelta (Some i) (Some n) (Some nm) a # evs)"
    using fresh(2) other by (force simp: extended_def split: prod.splits)
  then show ?case using IH fresh(1) by (simp add: place_new)
next
  case (3 n a evs)
  let ?base = "map (\<lambda>(i, m, nm, b). (i, m, nm, b @ (if m = n then a else []))) base"
  have keys: "map (\<lambda>(i, n, nm, b). (i, n)) ?base = map (\<lambda>(i, n, nm, b). (i, n)) base"
    "map fst ?base = map fst base" "map (fst \<circ> snd) ?base = map (fst \<circ> snd) base" by (auto simp: case_prod_unfold)
  have n: "n \<in> (fst \<circ> snd) ` set base" using "3.prems"(1) by force
  have IH: "feed_all evs \<lparr>ta_partials = map partial_of ?base, ta_emitted = e\<rparr> =
      (filter (\<lambda>ev. \<not> is_fragment ev) evs, \<lparr>ta_partials = map partial_of (extended ?base evs), ta_emitted = e\<rparr>)"
  proof (rule "3.hyps")
    show "map (\<lambda>(i, n, nm, b). (i, n)) base = map (\<lambda>(i, n, nm, b). (i, n)) ?base" by (rule keys(1) [symmetric])
    show "streamed (map (\<lambda>(i, n, nm, b). (i, n)) ?base) evs" unfolding keys(1) using "3.prems"(1) by simp
    show "distinct (map fst ?base)" "distinct (map (fst \<circ> snd) ?base)" unfolding keys(2,3) by (rule "3.prems")+
  qed
  have other: "m \<noteq> n" if "(j, m, x) \<in> set (opened evs)" for j m x
    using opened_fresh [of _ evs j m x] that "3.prems"(1) by force
  have "map (\<lambda>(i, m, x). (i, m, x, arguments_of m evs)) (opened evs) =
      map (\<lambda>(i, m, x). (i, m, x, arguments_of m (Ev_ToolCallDelta None (Some n) None a # evs))) (opened evs)"
    by (intro map_cong refl) (auto dest: other)
  then have "extended ?base evs = extended base (Ev_ToolCallDelta None (Some n) None a # evs)"
    by (auto simp: extended_def)
  then show ?case using IH place_more [OF n "3.prems"(3)] by simp
qed (auto simp: extended_def)

lemma flush_all:
  "distinct (map fst base) \<Longrightarrow> \<forall>(i, n, nm, b) \<in> set base. nm \<noteq> [] \<and> i \<notin> set e \<Longrightarrow>
     flush_partials (map partial_of base) e = (map (\<lambda>(i, n, nm, b). Ev_ToolRequest i nm b) base, e @ map fst base)"
proof (induction base arbitrary: e)
  case (Cons x base)
  obtain i n nm b where x: "x = (i, n, nm, b)" by (cases x)
  have "flush_partials (map partial_of base) (e @ [i]) = (map (\<lambda>(i, n, nm, b). Ev_ToolRequest i nm b) base, (e @ [i]) @ map fst base)"
    using Cons.prems x by (intro Cons.IH) force+
  then show ?case using Cons.prems x by (simp add: partial_of_def)
qed simp

lemma feed_all_append:
  "feed_all (xs @ ys) a = (case feed_all xs a of (o1, a1) \<Rightarrow> case feed_all ys a1 of (o2, a2) \<Rightarrow> (o1 @ o2, a2))"
  by (induction xs arbitrary: a) (auto split: prod.splits)

text \<open>C19: however the arguments of the calls are cut into fragments and interleaved, the runtime sees the text, then
  each call exactly once, complete and in the order the model opened them, then the completion.\<close>
theorem assembler_joins_fragments:
  assumes "streamed [] evs"
  shows "fst (feed_all (evs @ [Ev_Completed r]) assembler_new) =
    filter (\<lambda>ev. \<not> is_fragment ev) evs
    @ map (\<lambda>(i, n, nm). Ev_ToolRequest i nm (arguments_of n evs)) (opened evs) @ [Ev_Completed r]"
proof -
  have a: "feed_all evs assembler_new =
      (filter (\<lambda>ev. \<not> is_fragment ev) evs, \<lparr>ta_partials = map partial_of (extended [] evs), ta_emitted = []\<rparr>)"
    using feed_all_streamed [of "[]" evs "[]"] assms by (simp add: assembler_new_def)
  have d: "distinct (map fst (extended [] evs))" using opened_distinct [OF assms] by (simp add: extended_def case_prod_unfold comp_def)
  have "\<forall>(i, n, nm, b) \<in> set (extended [] evs). nm \<noteq> [] \<and> i \<notin> set []"
    using opened_fresh [OF assms] by (auto simp: extended_def)
  from flush_all [OF d this] have
    "fst (feed (Ev_Completed r) \<lparr>ta_partials = map partial_of (extended [] evs), ta_emitted = []\<rparr>) =
      map (\<lambda>(i, n, nm). Ev_ToolRequest i nm (arguments_of n evs)) (opened evs) @ [Ev_Completed r]"
    by (simp add: extended_def case_prod_unfold)
  then show ?thesis by (simp add: feed_all_append a split: prod.splits)
qed

theorem assembler_joins_fragments_witness:
  "fst (feed_all
     [Ev_ToolCallDelta (Some ''c1'') (Some 0) (Some ''read'') ''{'', Ev_ToolCallDelta (Some ''c2'') (Some 1) (Some ''list'') [],
      Ev_ToolCallDelta None (Some 0) None ''}'', Ev_Delta ''hi'', Ev_ToolCallDelta None (Some 1) None ''{}'', Ev_Completed None]
     assembler_new) =
   [Ev_Delta ''hi'', Ev_ToolRequest ''c1'' ''read'' ''{}'', Ev_ToolRequest ''c2'' ''list'' ''{}'', Ev_Completed None]"
  using assembler_joins_fragments
    [of "[Ev_ToolCallDelta (Some ''c1'') (Some 0) (Some ''read'') ''{'', Ev_ToolCallDelta (Some ''c2'') (Some 1) (Some ''list'') [],
       Ev_ToolCallDelta None (Some 0) None ''}'', Ev_Delta ''hi'', Ev_ToolCallDelta None (Some 1) None ''{}'']" None]
  by simp

text \<open>The budget for thinking is below the output budget and never below the provider's minimum.\<close>

lemma thinking_budget_bounds: "thinking_budget e m = Some b \<Longrightarrow> 1024 \<le> b \<and> b < m"
  by (auto simp: thinking_budget_def Let_def split: if_splits)

end
