(* ===== verification/One_Agent.thy ===== *)
theory One_Agent
  imports Provider_Gateway Task_Machine
begin

text \<open>
  The loop of one agent (\<^verbatim>\<open>crates/core-runtime/src/one_agent.rs\<close>) with the prompt compiler
  (\<^verbatim>\<open>crates/prompt-compiler/src/lib.rs\<close>): prompt, model invocation, policy-checked tool calls, compaction with its
  worker, checkpoints, and the control surface. The model, the tools, the grants, the approval gate and the controls live in
  a world that their calls may change; what leaves the loop is recorded as a trace. A worker thread computes its
  plan from the snapshot it was given and delivers it at a time of its own: the environment says which workers delivered
  before a turn looks at the slot.
\<close>

section \<open>The prompt compiler\<close>

record compiler_inputs =
  pi_model :: string
  pi_provider :: string
  pi_system_policy :: string
  pi_workspace_rules :: string
  pi_compaction_epoch :: "string option"
  pi_task_context_pack :: string
  pi_recent_events :: string

record compiled_prompt =
  pm_cache_key :: string
  pm_segment_hashes :: "string list"
  pm_compiled :: string

definition COMPILER_VERSION :: string where "COMPILER_VERSION = ''0.1.0''"

definition prompt_segments :: "compiler_inputs \<Rightarrow> (string \<times> string) list" where
  "prompt_segments i =
     [(''1-system-policy'', pi_system_policy i), (''2-workspace-rules'', pi_workspace_rules i),
      (''3-compaction-epoch'', case pi_compaction_epoch i of Some e \<Rightarrow> e | None \<Rightarrow> []),
      (''4-task-context-pack'', pi_task_context_pack i), (''5-recent-events'', pi_recent_events i)]"

definition compile_prompt :: "(string \<Rightarrow> string) \<Rightarrow> compiler_inputs \<Rightarrow> compiled_prompt" where
  "compile_prompt sha256_hex i =
     (let segs = prompt_segments i;
          hashes = map (\<lambda>(_, content). sha256_hex content) segs
      in \<lparr>pm_cache_key = sha256_hex (pi_model i @ pi_provider i @ COMPILER_VERSION @ concat hashes),
          pm_segment_hashes = hashes,
          pm_compiled = concat (map (\<lambda>(name, content). ''=== '' @ name @ '' ==='' @ [CHR 0x0A] @ content @ [CHR 0x0A]) segs)\<rparr>)"

section \<open>The loop and what surrounds it\<close>

record agent_task =
  gt_task_id :: string
  gt_objective :: string
  gt_model :: string
  gt_provider :: string
  gt_system_policy :: string
  gt_workspace_rules :: string
  gt_context_pack :: string
  gt_model_settings :: model_settings
  gt_max_input_tokens :: nat

definition DEFAULT_MAX_INPUT_TOKENS :: nat where "DEFAULT_MAX_INPUT_TOKENS = 32768"

definition default_agent_task :: agent_task where
  "default_agent_task =
     \<lparr>gt_task_id = [], gt_objective = [], gt_model = [], gt_provider = [], gt_system_policy = [], gt_workspace_rules = [],
      gt_context_pack = [], gt_model_settings = BASE_settings, gt_max_input_tokens = DEFAULT_MAX_INPUT_TOKENS\<rparr>"

record tool_outcome =
  oc_call_id :: string
  oc_name :: string
  oc_result :: "json option"
  oc_refusal :: "string option"

record agent_run_result =
  ar_task_id :: string
  ar_run_id :: string
  ar_final_state :: turn_state
  ar_turns_used :: nat
  ar_assembled_text :: string
  ar_tool_outcomes :: "tool_outcome list"
  ar_stop_reason :: "string option"
  ar_cancelled :: bool
  ar_paused :: bool
  ar_usage :: "token_usage option"
  ar_async_compactions :: nat

datatype agent_error = Ae_Transport string | Ae_IllegalTransition turn_state turn_state

definition turn_transition :: "turn_state \<Rightarrow> turn_state \<Rightarrow> (agent_error, turn_state) result" where
  "turn_transition s t = (if can_transition s t then Inr t else Inl (Ae_IllegalTransition s t))"

definition INVALID_TOOL_PAYLOAD :: string where
  "INVALID_TOOL_PAYLOAD = ''invalid tool payload: arguments must be a JSON object''"

definition INTERRUPTION_NOTE :: string where
  "INTERRUPTION_NOTE = ''[system] the previous run attempt was interrupted after this point; effects between here and the interruption may have partially applied; verify worktree state before continuing.''"

text \<open>What leaves the loop: the calls to the observer, the cost tracker, the transport and the tools.\<close>

datatype run_call =
  Run_Started string nat
| Turn_Prepared string nat
| Model_Invoke_Started string string
| Invoke_Model model_request
| Usage_Recorded string token_usage
| Model_Invoke_Finished string string "token_usage option"
| Tool_Step_Started string string string string
| Run_Tool string json
| Tool_Step_Finished string string string string bool
| Turn_Completed string
| Turn_Failed string string
| Run_Completed string
| Run_Failed string string
| Compaction_Applied string string nat nat string
| Conversation_Checkpointed string nat string

record 'w run_control =
  rc_take_steer_notes :: "'w \<Rightarrow> string list \<times> 'w"
  rc_is_cancelled :: "'w \<Rightarrow> bool"
  rc_is_paused :: "'w \<Rightarrow> bool"

record 'w agent_env =
  ag_stream :: "model_request \<Rightarrow> 'w \<Rightarrow> (string, stream_event list) result \<times> 'w"
  ag_registry :: "'w \<Rightarrow> tool_registry"
  ag_ran :: "string \<Rightarrow> json \<Rightarrow> 'w \<Rightarrow> 'w"
  ag_kernel :: policy_kernel
  ag_grants :: "'w \<Rightarrow> capability_grant list"
  ag_gate :: "(string \<Rightarrow> string \<Rightarrow> json \<Rightarrow> 'w \<Rightarrow> string option \<times> 'w) option"
  ag_control :: "'w run_control option"
  ag_max_turns :: nat
  ag_resume :: "chat_message list option"
  ag_async :: bool
  ag_delivered :: "nat \<Rightarrow> nat list"
  ag_de :: "string \<Rightarrow> (string, json) result"
  ag_text :: "json \<Rightarrow> string"
  ag_sha256_hex :: "string \<Rightarrow> string"
  ag_manifest_json :: "compaction_manifest \<Rightarrow> string"
  ag_conversation_json :: "chat_message list \<Rightarrow> (string, string) result"
  ag_run_id :: string
  ag_turn_id :: "nat \<Rightarrow> string"
  ag_model_step :: "nat \<Rightarrow> string"
  ag_tool_step :: "nat \<Rightarrow> nat \<Rightarrow> string"

record 'w agent_state =
  as_state :: turn_state
  as_turns_used :: nat
  as_assembled :: string
  as_tool_outcomes :: "tool_outcome list"
  as_stop_reason :: "string option"
  as_last_usage :: "token_usage option"
  as_conversation :: "chat_message list"
  as_epochs :: epoch_registry
  as_current_epoch :: context_epoch
  as_structure_epoch :: nat
  as_slot :: "(nat \<times> compaction_plan) option"
  as_workers :: "(nat \<times> compaction_plan option) list"
  as_async_compactions :: nat
  as_trace :: "run_call list"
  as_world :: 'w

definition emit :: "run_call list \<Rightarrow> 'w agent_state \<Rightarrow> 'w agent_state" where
  "emit cs st = st\<lparr>as_trace := as_trace st @ cs\<rparr>"

definition push_messages :: "chat_message list \<Rightarrow> 'w agent_state \<Rightarrow> 'w agent_state" where
  "push_messages ms st = st\<lparr>as_conversation := as_conversation st @ ms\<rparr>"

definition run_result :: "'w agent_env \<Rightarrow> agent_task \<Rightarrow> 'w agent_state \<Rightarrow> agent_run_result" where
  "run_result E task st =
     \<lparr>ar_task_id = gt_task_id task, ar_run_id = ag_run_id E, ar_final_state = as_state st, ar_turns_used = as_turns_used st,
      ar_assembled_text = as_assembled st, ar_tool_outcomes = as_tool_outcomes st, ar_stop_reason = as_stop_reason st,
      ar_cancelled = False, ar_paused = False, ar_usage = as_last_usage st, ar_async_compactions = as_async_compactions st\<rparr>"

text \<open>What a turn does: it ends the run or goes on to the next turn.\<close>

type_synonym 'w turn_end = "(agent_error, agent_run_result) result option \<times> 'w agent_state"

subsection \<open>The boundary of a turn\<close>

definition boundary :: "'w agent_env \<Rightarrow> agent_task \<Rightarrow> 'w agent_state \<Rightarrow> 'w turn_end" where
  "boundary E task st =
     (case ag_control E of
        None \<Rightarrow> (None, st)
      | Some c \<Rightarrow>
          (case rc_take_steer_notes c (as_world st) of
             (notes, w) \<Rightarrow>
               let st1 = push_messages (map (\<lambda>n. user_message (''user steer: '' @ n)) notes) (st\<lparr>as_world := w\<rparr>);
                   turn = ag_turn_id E (as_turns_used st)
               in if rc_is_cancelled c w
                  then (Some (Inr ((run_result E task st1)\<lparr>ar_stop_reason := Some ''cancelled'', ar_cancelled := True\<rparr>)),
                        emit [Turn_Failed turn ''cancelled'', Run_Failed (ag_run_id E) ''cancelled''] st1)
                  else if rc_is_paused c w
                  then (Some (Inr ((run_result E task st1)\<lparr>ar_stop_reason := Some ''paused'', ar_paused := True\<rparr>)),
                        emit [Turn_Failed turn ''paused'', Run_Failed (ag_run_id E) ''paused''] st1)
                  else (None, st1)))"

subsection \<open>Compaction\<close>

definition conversation_tokens :: "'w agent_state \<Rightarrow> nat" where
  "conversation_tokens st = sum_list (map (\<lambda>m. estimate_tokens (ch_content m)) (as_conversation st))"

definition conversation_view :: "'w agent_state \<Rightarrow> conversation_item list" where
  "conversation_view st = map item_of (as_conversation st)"

definition spawn_worker :: "'w agent_env \<Rightarrow> agent_task \<Rightarrow> 'w agent_state \<Rightarrow> 'w agent_state" where
  "spawn_worker E task st =
     (if ag_async E \<and> gt_max_input_tokens task div 5 < conversation_tokens st
      then st\<lparr>as_workers := as_workers st @
              [(as_structure_epoch st, plan_compaction (conversation_view st) (gt_max_input_tokens task))]\<rparr>
      else st)"

text \<open>A worker that delivers overwrites the slot.\<close>

definition deliver :: "nat \<Rightarrow> 'w agent_state \<Rightarrow> 'w agent_state" where
  "deliver i st =
     (if i < length (as_workers st)
      then st\<lparr>as_slot := (case as_workers st ! i of (e, p) \<Rightarrow> map_option (Pair e) p),
              as_workers := take i (as_workers st) @ drop (Suc i) (as_workers st)\<rparr>
      else st)"

definition take_plan :: "agent_task \<Rightarrow> 'w agent_state \<Rightarrow> (bool \<times> compaction_plan option) \<times> 'w agent_state" where
  "take_plan task st =
     ((case as_slot st of
         Some (e, p) \<Rightarrow>
           if e = as_structure_epoch st then (True, Some p)
           else (False, plan_compaction (conversation_view st) (gt_max_input_tokens task))
       | None \<Rightarrow> (False, plan_compaction (conversation_view st) (gt_max_input_tokens task))),
      st\<lparr>as_slot := None\<rparr>)"

text \<open>The messages an action really changes.\<close>

definition affected_by :: "compaction_action \<Rightarrow> chat_message list \<Rightarrow> nat" where
  "affected_by a conv =
     (case a of
        TruncateToolResult i _ \<Rightarrow> if i < length conv \<and> ch_role (conv ! i) = Role_Tool then 1 else 0
      | SummarizeBlock s e _ \<Rightarrow> if s < e \<and> e \<le> length conv then e - s else 0)"

fun count_affected :: "compaction_action list \<Rightarrow> chat_message list \<Rightarrow> nat" where
  "count_affected [] conv = 0"
| "count_affected (a # as) conv = affected_by a conv + count_affected as (apply_action a conv)"

definition use_plan :: "'w agent_env \<Rightarrow> bool \<Rightarrow> compaction_plan \<Rightarrow> 'w agent_state \<Rightarrow> 'w agent_state" where
  "use_plan E from_worker plan st =
     (let before = sum_list (map item_tokens (conversation_view st));
          projection = ag_manifest_json E (cp_manifest plan)
      in case epoch_compact (ag_sha256_hex E) (ce_epoch_id (as_current_epoch st)) (as_turns_used st) projection (as_epochs st) of
           (r, epochs) \<Rightarrow>
             let current = (case r of Inr e \<Rightarrow> e | Inl _ \<Rightarrow> as_current_epoch st)
             in emit [Compaction_Applied (ag_turn_id E (as_turns_used st)) (ce_epoch_id current)
                        (count_affected (rev (cp_actions plan)) (as_conversation st)) (before - cp_projected_tokens plan)
                        (ag_sha256_hex E projection)]
                  (st\<lparr>as_conversation := apply_plan (cp_actions plan) (as_conversation st), as_epochs := epochs,
                      as_current_epoch := current,
                      as_async_compactions := as_async_compactions st + (if from_worker then 1 else 0),
                      as_structure_epoch := as_structure_epoch st + 1\<rparr>))"

definition compact :: "'w agent_env \<Rightarrow> agent_task \<Rightarrow> 'w agent_state \<Rightarrow> 'w agent_state" where
  "compact E task st =
     (case take_plan task (fold deliver (ag_delivered E (as_turns_used st)) (spawn_worker E task st)) of
        ((from_worker, candidate), st1) \<Rightarrow>
          (case candidate of None \<Rightarrow> st1 | Some plan \<Rightarrow> use_plan E from_worker plan st1))"

subsection \<open>The invocation of the model\<close>

definition build_request :: "'w agent_env \<Rightarrow> agent_task \<Rightarrow> 'w agent_state \<Rightarrow> model_request" where
  "build_request E task st =
     \<lparr>mq_request_id = gt_task_id task @ ''-turn-'' @ show_nat (as_turns_used st), mq_model = gt_model task,
      mq_system = gt_system_policy task, mq_messages = as_conversation st,
      mq_max_output_tokens = ms_max_output_tokens (gt_model_settings task),
      mq_temperature = ms_temperature (gt_model_settings task),
      mq_reasoning_effort = ms_reasoning_effort (gt_model_settings task),
      mq_tools = map (\<lambda>t. \<lparr>tf_name = pj_name t, tf_description = pj_description t, tf_parameters = pj_parameters t\<rparr>)
                   (tool_definitions (ag_registry E (as_world st)))\<rparr>"

definition invoke_model ::
  "'w agent_env \<Rightarrow> agent_task \<Rightarrow> 'w agent_state \<Rightarrow> (agent_error, stream_event list) result \<times> 'w agent_state" where
  "invoke_model E task st =
     (let request = build_request E task st;
          st1 = emit [Model_Invoke_Started (ag_turn_id E (as_turns_used st)) (ag_model_step E (as_turns_used st)),
                      Invoke_Model request] st
      in case ag_stream E request (as_world st) of
           (Inl e, w) \<Rightarrow> (Inl (Ae_Transport e), st1\<lparr>as_world := w\<rparr>)
         | (Inr events, w) \<Rightarrow> (Inr (fst (feed_all events assembler_new)), st1\<lparr>as_world := w\<rparr>))"

text \<open>The events of a response: text, the calls as they were issued, and the calls whose arguments are an object.\<close>

record parsed_turn =
  pt_text :: string
  pt_issued :: "tool_call_data list"
  pt_requested :: "(string \<times> json) list"

definition valid_payload :: "'w agent_env \<Rightarrow> string \<Rightarrow> json option" where
  "valid_payload E arguments =
     (case ag_de E arguments of Inr (JObject m) \<Rightarrow> Some (JObject m) | _ \<Rightarrow> None)"

definition note_call :: "'w agent_env \<Rightarrow> string \<Rightarrow> string \<Rightarrow> string \<Rightarrow> parsed_turn \<times> 'w agent_state \<Rightarrow> parsed_turn \<times> 'w agent_state" where
  "note_call E call_id name arguments =
     (\<lambda>(p, st).
        let p1 = p\<lparr>pt_issued := pt_issued p @ [\<lparr>td_call_id = call_id, td_name = name, td_arguments = arguments\<rparr>]\<rparr>
        in case valid_payload E arguments of
             Some v \<Rightarrow> (p1\<lparr>pt_requested := pt_requested p1 @ [(call_id, v)]\<rparr>, st)
           | None \<Rightarrow> (p1, st\<lparr>as_tool_outcomes := as_tool_outcomes st @
               [\<lparr>oc_call_id = call_id, oc_name = name, oc_result = None, oc_refusal = Some INVALID_TOOL_PAYLOAD\<rparr>]\<rparr>))"

fun parse_events ::
  "'w agent_env \<Rightarrow> agent_task \<Rightarrow> stream_event list \<Rightarrow> parsed_turn \<times> 'w agent_state \<Rightarrow>
   (agent_error, parsed_turn) result \<times> 'w agent_state" where
  "parse_events E task [] (p, st) = (Inr p, st)"
| "parse_events E task (Ev_Delta t # evs) (p, st) =
     parse_events E task evs (p\<lparr>pt_text := pt_text p @ t\<rparr>, st\<lparr>as_assembled := as_assembled st @ t\<rparr>)"
| "parse_events E task (Ev_Usage u # evs) (p, st) =
     parse_events E task evs (p, emit [Usage_Recorded (gt_model task) u] (st\<lparr>as_last_usage := Some u\<rparr>))"
| "parse_events E task (Ev_Completed r # evs) (p, st) = parse_events E task evs (p, st\<lparr>as_stop_reason := r\<rparr>)"
| "parse_events E task (Ev_ToolCallDelta _ _ _ _ # evs) (p, st) =
     (Inl (Ae_Transport ''internal: ToolCallDelta escaped the assembler''), st)"
| "parse_events E task (Ev_ToolRequest call_id name arguments # evs) (p, st) =
     parse_events E task evs (note_call E call_id name arguments (p, st))"

subsection \<open>Tool calls\<close>

definition effect_class_of :: "string \<Rightarrow> tool_registry \<Rightarrow> effect_class" where
  "effect_class_of name tools =
     (case find (\<lambda>(n, _, _). n = name) (list_tools tools) of Some (_, _, c) \<Rightarrow> c | None \<Rightarrow> ReadOnly)"

text \<open>The decision of the kernel; a denied effect may be approved at the gate.\<close>

definition decide_call :: "'w agent_env \<Rightarrow> tool_call_request \<Rightarrow> 'w \<Rightarrow> policy_decision \<times> 'w" where
  "decide_call E r w =
     (case kernel_check (ag_kernel E) r (ag_grants E w) of
        Allow \<Rightarrow> (Allow, w)
      | Deny reason \<Rightarrow>
          (case ag_gate E of
             None \<Rightarrow> (Deny reason, w)
           | Some gate \<Rightarrow>
               if tr_effect_class r = ReadOnly then (Deny reason, w)
               else case gate (intent_hash (ag_sha256_hex E) (ag_text E) r) (tr_tool r) (tr_arguments r) w of
                      (d, w1) \<Rightarrow> (if d = Some ''approved'' then Allow else Deny reason, w1)))"

definition call_outcome :: "'w agent_env \<Rightarrow> string \<Rightarrow> string \<Rightarrow> json \<Rightarrow> policy_decision \<Rightarrow> 'w \<Rightarrow> tool_outcome" where
  "call_outcome E call_id name arguments decision w =
     (case decision of
        Deny reason \<Rightarrow> \<lparr>oc_call_id = call_id, oc_name = name, oc_result = None, oc_refusal = Some (''policy denied: '' @ reason)\<rparr>
      | Allow \<Rightarrow>
          (case execute_tool (ag_sha256_hex E) (ag_text E) name arguments decision (ag_registry E w) of
             Inr x \<Rightarrow> \<lparr>oc_call_id = call_id, oc_name = name, oc_result = Some (te_result x), oc_refusal = None\<rparr>
           | Inl e \<Rightarrow> \<lparr>oc_call_id = call_id, oc_name = name, oc_result = None,
                       oc_refusal = Some (''tool error: '' @ show_tool_error e)\<rparr>))"

definition outcome_message :: "'w agent_env \<Rightarrow> tool_outcome \<Rightarrow> chat_message" where
  "outcome_message E oc =
     tool_result (oc_call_id oc)
       (case oc_result oc of Some v \<Rightarrow> ag_text E v | None \<Rightarrow> (case oc_refusal oc of Some r \<Rightarrow> r | None \<Rightarrow> []))
       (oc_refusal oc \<noteq> None)"

text \<open>The handler runs when the call is allowed and the tool is registered.\<close>

definition handler_runs :: "string \<Rightarrow> policy_decision \<Rightarrow> tool_registry \<Rightarrow> bool" where
  "handler_runs name decision tools = (is_allow decision \<and> bt_get name tools \<noteq> None)"

definition run_call_with :: "'w agent_env \<Rightarrow> nat \<Rightarrow> tool_call_data \<Rightarrow> json \<Rightarrow> 'w agent_state \<Rightarrow> 'w agent_state" where
  "run_call_with E pos call arguments st =
     (let turn = ag_turn_id E (as_turns_used st); step = ag_tool_step E (as_turns_used st) pos; name = td_name call;
          request = \<lparr>tr_tool = name, tr_effect_class = effect_class_of name (ag_registry E (as_world st)), tr_arguments = arguments\<rparr>
      in case decide_call E request (as_world st) of
           (decision, w) \<Rightarrow>
             let oc = call_outcome E (td_call_id call) name arguments decision w;
                 ran = handler_runs name decision (ag_registry E w)
             in push_messages [outcome_message E oc]
                  (emit ([Tool_Step_Started turn step (td_call_id call) name]
                         @ (if ran then [Run_Tool name arguments] else [])
                         @ [Tool_Step_Finished turn step (td_call_id call) name (oc_refusal oc = None)])
                     (st\<lparr>as_tool_outcomes := as_tool_outcomes st @ [oc],
                         as_world := (if ran then ag_ran E name arguments w else w)\<rparr>)))"

text \<open>Every issued call is answered, in the order of issue; the arguments are looked up by the identifier of the call.\<close>

fun answer_calls ::
  "'w agent_env \<Rightarrow> (string \<times> json) list \<Rightarrow> nat \<Rightarrow> tool_call_data list \<Rightarrow> 'w agent_state \<Rightarrow> 'w agent_state" where
  "answer_calls E requested pos [] st = st"
| "answer_calls E requested pos (call # calls) st =
     answer_calls E requested (Suc pos) calls
       (case map_of (rev requested) (td_call_id call) of
          None \<Rightarrow> push_messages [tool_result (td_call_id call) INVALID_TOOL_PAYLOAD True] st
        | Some arguments \<Rightarrow> run_call_with E pos call arguments st)"

definition MAX_CHECKPOINT_BYTES :: nat where "MAX_CHECKPOINT_BYTES = 256 * 1024"

definition checkpoint_turn :: "'w agent_env \<Rightarrow> 'w agent_state \<Rightarrow> 'w agent_state" where
  "checkpoint_turn E st =
     (case ag_conversation_json E (as_conversation st) of
        Inr j \<Rightarrow> if length j \<le> MAX_CHECKPOINT_BYTES
                 then emit [Conversation_Checkpointed (ag_run_id E) (as_turns_used st) j] st else st
      | Inl _ \<Rightarrow> st)"

subsection \<open>The turn and the run\<close>

text \<open>A change of the turn state that fails ends the run.\<close>

definition move_to :: "turn_state \<Rightarrow> ('w agent_state \<Rightarrow> 'w turn_end) \<Rightarrow> 'w agent_state \<Rightarrow> 'w turn_end" where
  "move_to t k st =
     (case turn_transition (as_state st) t of Inl e \<Rightarrow> (Some (Inl e), st) | Inr t' \<Rightarrow> k (st\<lparr>as_state := t'\<rparr>))"

definition complete_run :: "'w agent_env \<Rightarrow> agent_task \<Rightarrow> 'w agent_state \<Rightarrow> 'w turn_end" where
  "complete_run E task =
     move_to Tn_Executing (move_to Tn_Verifying (move_to Tn_Completed (\<lambda>st.
       (Some (Inr (run_result E task st)),
        emit [Turn_Completed (ag_turn_id E (as_turns_used st)), Run_Completed (ag_run_id E)] st))))"

definition execute_turn :: "'w agent_env \<Rightarrow> parsed_turn \<Rightarrow> 'w agent_state \<Rightarrow> 'w turn_end" where
  "execute_turn E p st =
     move_to Tn_Executing
       (\<lambda>st1. move_to Tn_Streaming (Pair None) (checkpoint_turn E (answer_calls E (pt_requested p) 0 (pt_issued p) st1)))
       (push_messages [assistant_with_tool_calls (pt_text p) (pt_issued p)] st)"

definition respond :: "'w agent_env \<Rightarrow> agent_task \<Rightarrow> 'w agent_state \<Rightarrow> 'w turn_end" where
  "respond E task st =
     (case invoke_model E task st of
        (Inl e, st1) \<Rightarrow> (Some (Inl e), st1)
      | (Inr events, st1) \<Rightarrow>
          (case parse_events E task events (\<lparr>pt_text = [], pt_issued = [], pt_requested = []\<rparr>, st1) of
             (Inl e, st2) \<Rightarrow> (Some (Inl e), st2)
           | (Inr p, st2) \<Rightarrow>
               let st3 = emit [Model_Invoke_Finished (ag_turn_id E (as_turns_used st2)) (ag_model_step E (as_turns_used st2))
                                 (as_last_usage st2)] st2
               in if pt_issued p = [] then complete_run E task st3 else execute_turn E p st3))"

definition run_turn :: "'w agent_env \<Rightarrow> agent_task \<Rightarrow> 'w agent_state \<Rightarrow> 'w turn_end" where
  "run_turn E task st0 =
     (let n = as_turns_used st0 + 1;
          st = emit [Turn_Prepared (ag_turn_id E n) n] (st0\<lparr>as_turns_used := n\<rparr>)
      in case boundary E task st of
           (Some r, st1) \<Rightarrow> (Some r, st1)
         | (None, st1) \<Rightarrow> respond E task (compact E task st1))"

definition out_of_turns :: "'w agent_env \<Rightarrow> agent_task \<Rightarrow> 'w agent_state \<Rightarrow> 'w turn_end" where
  "out_of_turns E task =
     move_to Tn_Failed (\<lambda>st.
       (Some (Inr ((run_result E task st)\<lparr>ar_stop_reason := Some ''max_turns_exceeded''\<rparr>)),
        emit [Run_Failed (ag_run_id E) ''max_turns_exceeded''] st))"

text \<open>No part of a turn counts turns but its beginning.\<close>

lemma emit_simps [simp]:
  "as_state (emit cs st) = as_state st" "as_turns_used (emit cs st) = as_turns_used st"
  "as_conversation (emit cs st) = as_conversation st" "as_trace (emit cs st) = as_trace st @ cs"
  "as_world (emit cs st) = as_world st" "as_tool_outcomes (emit cs st) = as_tool_outcomes st"
  "as_slot (emit cs st) = as_slot st" "as_workers (emit cs st) = as_workers st"
  "as_structure_epoch (emit cs st) = as_structure_epoch st"
  "as_assembled (emit cs st) = as_assembled st" "as_last_usage (emit cs st) = as_last_usage st"
  "as_stop_reason (emit cs st) = as_stop_reason st" "as_async_compactions (emit cs st) = as_async_compactions st"
  by (simp_all add: emit_def)

lemma push_messages_simps [simp]:
  "as_state (push_messages ms st) = as_state st" "as_turns_used (push_messages ms st) = as_turns_used st"
  "as_conversation (push_messages ms st) = as_conversation st @ ms" "as_trace (push_messages ms st) = as_trace st"
  "as_world (push_messages ms st) = as_world st" "as_tool_outcomes (push_messages ms st) = as_tool_outcomes st"
  "as_slot (push_messages ms st) = as_slot st" "as_workers (push_messages ms st) = as_workers st"
  "as_structure_epoch (push_messages ms st) = as_structure_epoch st"
  "as_assembled (push_messages ms st) = as_assembled st" "as_last_usage (push_messages ms st) = as_last_usage st"
  "as_stop_reason (push_messages ms st) = as_stop_reason st" "as_async_compactions (push_messages ms st) = as_async_compactions st"
  by (simp_all add: push_messages_def)

text \<open>What the compaction of the conversation keeps.\<close>

lemma deliver_simps [simp]:
  "as_state (deliver i st) = as_state st" "as_turns_used (deliver i st) = as_turns_used st"
  "as_conversation (deliver i st) = as_conversation st" "as_trace (deliver i st) = as_trace st"
  "as_structure_epoch (deliver i st) = as_structure_epoch st"
  by (simp_all add: deliver_def)

lemma fold_deliver_simps [simp]:
  "as_state (fold deliver is st) = as_state st" "as_turns_used (fold deliver is st) = as_turns_used st"
  "as_conversation (fold deliver is st) = as_conversation st" "as_trace (fold deliver is st) = as_trace st"
  "as_structure_epoch (fold deliver is st) = as_structure_epoch st"
  by (induction "is" arbitrary: st) simp_all

lemma compact_simps [simp]:
  "as_state (compact E task st) = as_state st" "as_turns_used (compact E task st) = as_turns_used st"
  by (auto simp: compact_def take_plan_def use_plan_def spawn_worker_def Let_def split: option.splits prod.splits if_splits)

lemma boundary_simps:
  assumes "boundary E task st = (r, st')"
  shows "as_state st' = as_state st" "as_turns_used st' = as_turns_used st"
  using assms by (auto simp: boundary_def Let_def split: option.splits prod.splits if_splits)

lemma parse_events_simps:
  assumes "parse_events E task evs (p, st) = (r, st')"
  shows "as_state st' = as_state st" "as_turns_used st' = as_turns_used st" "as_conversation st' = as_conversation st"
  using assms
  by (induction E task evs "(p, st)" arbitrary: p st rule: parse_events.induct)
     (auto simp: note_call_def Let_def split: option.splits)

lemma run_call_simps [simp]:
  "as_state (run_call_with E pos call args st) = as_state st"
  "as_turns_used (run_call_with E pos call args st) = as_turns_used st"
  by (auto simp: run_call_with_def Let_def split: prod.splits)

lemma answer_calls_simps [simp]:
  "as_state (answer_calls E req pos calls st) = as_state st"
  "as_turns_used (answer_calls E req pos calls st) = as_turns_used st"
  by (induction calls arbitrary: pos st) (simp_all split: option.splits)

lemma checkpoint_turn_simps [simp]:
  "as_state (checkpoint_turn E st) = as_state st" "as_turns_used (checkpoint_turn E st) = as_turns_used st"
  "as_conversation (checkpoint_turn E st) = as_conversation st"
  by (simp_all add: checkpoint_turn_def split: sum.splits)

lemma invoke_model_simps:
  assumes "invoke_model E task st = (r, st')"
  shows "as_state st' = as_state st" "as_turns_used st' = as_turns_used st" "as_conversation st' = as_conversation st"
  using assms by (auto simp: invoke_model_def Let_def split: prod.splits sum.splits)

lemma respond_turns: "respond E task st = (r, st') \<Longrightarrow> as_turns_used st' = as_turns_used st"
  by (auto simp: respond_def complete_run_def execute_turn_def move_to_def Let_def
      dest!: invoke_model_simps(2) parse_events_simps(2) split: prod.splits sum.splits if_splits)

lemma run_turn_counts: "run_turn E task st = (r, st') \<Longrightarrow> as_turns_used st' = as_turns_used st + 1"
  by (auto simp: run_turn_def Let_def dest!: boundary_simps(2) respond_turns split: prod.splits option.splits)

text \<open>The loop.\<close>

function agent_loop :: "'w agent_env \<Rightarrow> agent_task \<Rightarrow> 'w agent_state \<Rightarrow> 'w turn_end" where
  "agent_loop E task st =
     (if ag_max_turns E \<le> as_turns_used st then out_of_turns E task st
      else case run_turn E task st of
             (Some r, st1) \<Rightarrow> (Some r, st1)
           | (None, st1) \<Rightarrow> agent_loop E task st1)"
  by pat_completeness auto
termination
  by (relation "measure (\<lambda>(E, task, st). ag_max_turns E - as_turns_used st)") (auto dest!: run_turn_counts [OF sym])

declare agent_loop.simps [simp del]

definition compiled_task :: "'w agent_env \<Rightarrow> agent_task \<Rightarrow> compiled_prompt" where
  "compiled_task E task =
     compile_prompt (ag_sha256_hex E)
       \<lparr>pi_model = gt_model task, pi_provider = gt_provider task, pi_system_policy = gt_system_policy task,
        pi_workspace_rules = gt_workspace_rules task, pi_compaction_epoch = None,
        pi_task_context_pack = ''objective: '' @ gt_objective task @ [CHR 0x0A] @ gt_context_pack task, pi_recent_events = []\<rparr>"

definition start_conversation :: "'w agent_env \<Rightarrow> agent_task \<Rightarrow> chat_message list" where
  "start_conversation E task =
     (case ag_resume E of
        Some (m # ms) \<Rightarrow> m # ms
      | _ \<Rightarrow> [user_message (pm_compiled (compiled_task E task))])
     @ (if ag_resume E = None then [] else [user_message INTERRUPTION_NOTE])"

definition agent_start :: "'w agent_env \<Rightarrow> agent_task \<Rightarrow> 'w \<Rightarrow> 'w agent_state" where
  "agent_start E task w =
     (case epoch_create (ag_sha256_hex E) 0 (pm_compiled (compiled_task E task)) [] of
        (current, epochs) \<Rightarrow>
          \<lparr>as_state = Tn_Prepared, as_turns_used = 0, as_assembled = [], as_tool_outcomes = [], as_stop_reason = None,
           as_last_usage = None, as_conversation = start_conversation E task, as_epochs = epochs, as_current_epoch = current,
           as_structure_epoch = 0, as_slot = None, as_workers = [], as_async_compactions = 0,
           as_trace = [Run_Started (ag_run_id E) 1], as_world = w\<rparr>)"

definition agent_run :: "'w agent_env \<Rightarrow> agent_task \<Rightarrow> 'w \<Rightarrow> 'w turn_end" where
  "agent_run E task w = move_to Tn_Streaming (agent_loop E task) (agent_start E task w)"

end
