(* ===== verification/Agent_Properties.thy ===== *)
theory Agent_Properties
  imports One_Agent
begin

text \<open>
  What the loop of the agent promises: it returns, with an error only when the transport failed, after no more
  invocations than turns; every request it sends answers each tool call of the model exactly once and in order,
  through compactions, steering and refusals; and the worker that plans compactions in the background changes nothing.
\<close>

section \<open>Reasoning about the loop\<close>

lemma agent_loop_rule:
  assumes "agent_loop E task st = (r, st')" and "P st"
    and step: "\<And>st st'. P st \<Longrightarrow> as_turns_used st < ag_max_turns E \<Longrightarrow> run_turn E task st = (None, st') \<Longrightarrow> P st'"
    and stop: "\<And>st r st'. P st \<Longrightarrow> as_turns_used st < ag_max_turns E \<Longrightarrow> run_turn E task st = (Some r, st') \<Longrightarrow> Q (Some r) st'"
    and out: "\<And>st r st'. P st \<Longrightarrow> ag_max_turns E \<le> as_turns_used st \<Longrightarrow> out_of_turns E task st = (r, st') \<Longrightarrow> Q r st'"
  shows "Q r st'"
  using assms(1,2)
proof (induction "ag_max_turns E - as_turns_used st" arbitrary: st rule: less_induct)
  case less
  show ?case
  proof (cases "ag_max_turns E \<le> as_turns_used st")
    case True
    then show ?thesis using less.prems out by (simp add: agent_loop.simps [of E task st])
  next
    case False
    obtain x st1 where run: "run_turn E task st = (x, st1)" by (cases "run_turn E task st")
    show ?thesis
    proof (cases x)
      case None
      have "ag_max_turns E - as_turns_used st1 < ag_max_turns E - as_turns_used st"
        using run_turn_counts [OF run] False by simp
      moreover have "agent_loop E task st1 = (r, st')"
        using less.prems(1) run None False by (simp add: agent_loop.simps [of E task st])
      ultimately show ?thesis using less.hyps step [OF less.prems(2)] run None False by simp
    next
      case (Some y)
      then have "r = Some y" "st1 = st'" using less.prems(1) run False by (simp_all add: agent_loop.simps [of E task st])
      then show ?thesis using stop [OF less.prems(2)] run Some False by simp
    qed
  qed
qed

section \<open>The loop returns\<close>

text \<open>The only error a run can end with is one the transport returned.\<close>

definition transport_failed :: "'w agent_env \<Rightarrow> agent_error \<Rightarrow> bool" where
  "transport_failed E e \<longleftrightarrow> (\<exists>req w m w'. ag_stream E req w = (Inl m, w') \<and> e = Ae_Transport m)"

lemma parse_events_Inr:
  "\<forall>ev \<in> set evs. \<not> is_fragment ev \<Longrightarrow> \<exists>p'. fst (parse_events E task evs (p, st)) = Inr p'"
  by (induction E task evs "(p, st)" arbitrary: p st rule: parse_events.induct)
     (auto simp: note_call_def Let_def split: option.splits)

lemma parse_events_trace:
  "parse_events E task evs (p, st) = (r, st') \<Longrightarrow> \<exists>us. as_trace st' = as_trace st @ map (Usage_Recorded (gt_model task)) us"
proof (induction E task evs "(p, st)" arbitrary: p st rule: parse_events.induct)
  case (3 E task u evs p st)
  then obtain us where "as_trace st' = (as_trace st @ [Usage_Recorded (gt_model task) u]) @ map (Usage_Recorded (gt_model task)) us"
    by fastforce
  then have "as_trace st' = as_trace st @ map (Usage_Recorded (gt_model task)) (u # us)" by simp
  then show ?case by blast
qed (fastforce simp: note_call_def Let_def split: option.splits)+

text \<open>The calls to the model in a trace.\<close>

fun invocation :: "run_call \<Rightarrow> model_request option" where
  "invocation (Invoke_Model r) = Some r"
| "invocation _ = None"

definition invocations :: "run_call list \<Rightarrow> model_request list" where
  "invocations tr = List.map_filter invocation tr"

lemma invocations_simps [simp]:
  "invocations [] = []" "invocations (c # tr) = (case invocation c of Some r \<Rightarrow> r # invocations tr | None \<Rightarrow> invocations tr)"
  "invocations (xs @ ys) = invocations xs @ invocations ys"
  by (simp_all add: invocations_def List.map_filter_def split: option.splits)

lemma invocations_usage [simp]: "invocations (map (Usage_Recorded m) us) = []"
  by (induction us) simp_all

lemma compact_invocations [simp]: "invocations (as_trace (compact E task st)) = invocations (as_trace st)"
  by (auto simp: compact_def take_plan_def use_plan_def spawn_worker_def Let_def split: option.splits prod.splits if_splits)

lemma boundary_invocations: "boundary E task st = (r, st') \<Longrightarrow> invocations (as_trace st') = invocations (as_trace st)"
  by (auto simp: boundary_def Let_def split: option.splits prod.splits if_splits)

lemma run_call_invocations [simp]: "invocations (as_trace (run_call_with E pos call args st)) = invocations (as_trace st)"
  by (auto simp: run_call_with_def Let_def split: prod.splits)

lemma answer_calls_invocations [simp]:
  "invocations (as_trace (answer_calls E req pos calls st)) = invocations (as_trace st)"
  by (induction calls arbitrary: pos st) (simp_all split: option.splits)

lemma checkpoint_invocations [simp]: "invocations (as_trace (checkpoint_turn E st)) = invocations (as_trace st)"
  by (simp add: checkpoint_turn_def split: sum.splits)

text \<open>The reports of the end of a run in a trace.\<close>

fun is_final :: "run_call \<Rightarrow> bool" where
  "is_final (Run_Completed i) = True"
| "is_final (Run_Failed i code) = True"
| "is_final _ = False"

definition finals :: "run_call list \<Rightarrow> run_call list" where
  "finals tr = filter is_final tr"

lemma finals_simps [simp]:
  "finals [] = []" "finals (c # tr) = (if is_final c then c # finals tr else finals tr)"
  "finals (xs @ ys) = finals xs @ finals ys"
  by (simp_all add: finals_def)

lemma finals_usage [simp]: "finals (map (Usage_Recorded m) us) = []"
  by (induction us) simp_all

lemma compact_finals [simp]: "finals (as_trace (compact E task st)) = finals (as_trace st)"
  by (auto simp: compact_def take_plan_def use_plan_def spawn_worker_def Let_def split: option.splits prod.splits if_splits)

lemma boundary_finals: "boundary E task st = (None, st') \<Longrightarrow> finals (as_trace st') = finals (as_trace st)"
  by (auto simp: boundary_def Let_def split: option.splits prod.splits if_splits)

lemma run_call_finals [simp]: "finals (as_trace (run_call_with E pos call args st)) = finals (as_trace st)"
  by (auto simp: run_call_with_def Let_def split: prod.splits)

lemma answer_calls_finals [simp]: "finals (as_trace (answer_calls E req pos calls st)) = finals (as_trace st)"
  by (induction calls arbitrary: pos st) (simp_all split: option.splits)

lemma checkpoint_finals [simp]: "finals (as_trace (checkpoint_turn E st)) = finals (as_trace st)"
  by (simp add: checkpoint_turn_def split: sum.splits)

lemma invoke_model_finals: "invoke_model E task st = (x, st1) \<Longrightarrow> finals (as_trace st1) = finals (as_trace st)"
  by (auto simp: invoke_model_def Let_def split: prod.splits sum.splits)

lemma parse_events_finals: "parse_events E task evs (p, st) = (r, st') \<Longrightarrow> finals (as_trace st') = finals (as_trace st)"
  using parse_events_trace [of E task evs p st r st'] by auto

text \<open>The end of a turn after the model was asked.\<close>

lemma respond_cases:
  fixes E :: "'w agent_env"
  assumes "respond E task st = (r, st')" and "as_state st = Tn_Streaming"
  obtains (failed) e where "r = Some (Inl e)" "transport_failed E e"
      "invocations (as_trace st') = invocations (as_trace st) @ [build_request E task st]"
      "finals (as_trace st') = finals (as_trace st)"
  | (completed) res where "r = Some (Inr res)" "ar_final_state res = Tn_Completed" "ar_turns_used res = as_turns_used st"
      "invocations (as_trace st') = invocations (as_trace st) @ [build_request E task st]"
      "\<exists>tr. as_trace st' = tr @ [Run_Completed (ag_run_id E)]"
      "finals (as_trace st') = finals (as_trace st) @ [Run_Completed (ag_run_id E)]"
  | (again) p :: parsed_turn and sx :: "'w agent_state" where "r = None" "as_state st' = Tn_Streaming"
      "as_conversation sx = as_conversation st @ [assistant_with_tool_calls (pt_text p) (pt_issued p)]" "pt_issued p \<noteq> []"
      "as_conversation st' = as_conversation (answer_calls E (pt_requested p) 0 (pt_issued p) sx)"
      "invocations (as_trace st') = invocations (as_trace st) @ [build_request E task st]"
      "finals (as_trace st') = finals (as_trace st)"
proof -
  obtain x st1 where inv: "invoke_model E task st = (x, st1)" by (cases "invoke_model E task st")
  have s1: "as_state st1 = Tn_Streaming" "as_conversation st1 = as_conversation st" "as_turns_used st1 = as_turns_used st"
    using invoke_model_simps [OF inv] assms(2) by auto
  have t1: "invocations (as_trace st1) = invocations (as_trace st) @ [build_request E task st]"
    using inv by (auto simp: invoke_model_def Let_def split: prod.splits sum.splits)
  note f1 = invoke_model_finals [OF inv]
  show thesis
  proof (cases x)
    case (Inl e)
    then have "transport_failed E e" using inv
      by (auto simp: invoke_model_def transport_failed_def Let_def split: prod.splits sum.splits)
    then show thesis using assms(1) inv Inl t1 f1 by (intro failed [of e]) (auto simp: respond_def)
  next
    case (Inr evs)
    then have frag: "\<forall>ev \<in> set evs. \<not> is_fragment ev"
      using inv feed_all_no_fragment by (auto simp: invoke_model_def Let_def split: prod.splits sum.splits)
    obtain p st2 where pe: "parse_events E task evs (\<lparr>pt_text = [], pt_issued = [], pt_requested = []\<rparr>, st1) = (Inr p, st2)"
      using parse_events_Inr [OF frag, of E task "\<lparr>pt_text = [], pt_issued = [], pt_requested = []\<rparr>" st1]
      by (metis prod.collapse)
    have s2: "as_state st2 = Tn_Streaming" "as_conversation st2 = as_conversation st" "as_turns_used st2 = as_turns_used st"
      using parse_events_simps [OF pe] s1 by auto
    have t2: "invocations (as_trace st2) = invocations (as_trace st) @ [build_request E task st]"
      using parse_events_trace [OF pe] t1 by auto
    have f2: "finals (as_trace st2) = finals (as_trace st)" using parse_events_finals [OF pe] f1 by simp
    show thesis
    proof (cases "pt_issued p = []")
      case True
      then show thesis using assms(1) inv Inr pe s2 t2 f2
        by (intro completed) (auto simp: respond_def complete_run_def move_to_def turn_transition_def run_result_def Let_def)
    next
      case False
      then show thesis using assms(1) inv Inr pe s2 t2 f2
        by (intro again [where p = p and sx = "(push_messages [assistant_with_tool_calls (pt_text p) (pt_issued p)]
              (emit [Model_Invoke_Finished (ag_turn_id E (as_turns_used st2)) (ag_model_step E (as_turns_used st2))
                 (as_last_usage st2)] st2))\<lparr>as_state := Tn_Executing\<rparr>"])
           (auto simp: respond_def execute_turn_def move_to_def turn_transition_def Let_def)
    qed
  qed
qed

text \<open>What holds between two turns, and when the run ends.\<close>

definition between_turns :: "'w agent_env \<Rightarrow> 'w agent_state \<Rightarrow> bool" where
  "between_turns E st \<longleftrightarrow> as_state st = Tn_Streaming \<and> length (invocations (as_trace st)) \<le> as_turns_used st
     \<and> as_turns_used st \<le> ag_max_turns E \<and> finals (as_trace st) = []"

definition run_ended :: "'w agent_env \<Rightarrow> (agent_error, agent_run_result) result option \<Rightarrow> 'w agent_state \<Rightarrow> bool" where
  "run_ended E r st \<longleftrightarrow> length (invocations (as_trace st)) \<le> ag_max_turns E
     \<and> (case r of
          None \<Rightarrow> False
        | Some (Inl e) \<Rightarrow> transport_failed E e \<and> finals (as_trace st) = []
        | Some (Inr res) \<Rightarrow> ar_turns_used res \<le> ag_max_turns E
            \<and> (\<exists>tr c. as_trace st = tr @ [c] \<and> finals tr = []
                  \<and> (if ar_final_state res = Tn_Completed then c = Run_Completed (ag_run_id E)
                     else \<exists>code. c = Run_Failed (ag_run_id E) code \<and> ar_stop_reason res = Some code)))"

lemma boundary_ended:
  assumes "boundary E task st = (Some r, st')" and "between_turns E st"
  shows "run_ended E (Some r) st'"
  using assms boundary_invocations [OF assms(1)]
  by (auto simp: boundary_def run_ended_def between_turns_def run_result_def Let_def split: option.splits prod.splits if_splits)

lemma run_turn_ends:
  assumes "between_turns E st" and "as_turns_used st < ag_max_turns E" and "run_turn E task st = (r, st')"
  shows "(r = None \<longrightarrow> between_turns E st') \<and> (r \<noteq> None \<longrightarrow> run_ended E r st')"
proof -
  let ?n = "as_turns_used st + 1"
  let ?st = "emit [Turn_Prepared (ag_turn_id E ?n) ?n] (st\<lparr>as_turns_used := ?n\<rparr>)"
  have b0: "between_turns E ?st" using assms(1,2) by (simp add: between_turns_def)
  obtain x st1 where bd: "boundary E task ?st = (x, st1)" by (cases "boundary E task ?st")
  show ?thesis
  proof (cases x)
    case (Some y)
    then have "r = Some y" "st' = st1" using assms(3) bd by (simp_all add: run_turn_def Let_def)
    then show ?thesis using boundary_ended bd b0 Some by simp
  next
    case None
    let ?st2 = "compact E task st1"
    have "as_turns_used st1 = ?n" using boundary_simps(2) [OF bd] by simp
    then have s2: "as_state ?st2 = Tn_Streaming" "as_turns_used ?st2 = ?n"
      "length (invocations (as_trace ?st2)) < ?n"
      using boundary_simps(1) [OF bd] boundary_invocations [OF bd] assms(1) by (simp_all add: between_turns_def)
    have f2: "finals (as_trace ?st2) = []"
      using boundary_finals [OF bd [unfolded None]] b0 by (simp add: between_turns_def)
    have "respond E task ?st2 = (r, st')" using assms(3) bd None by (simp add: run_turn_def Let_def)
    then show ?thesis using s2(1)
    proof (cases rule: respond_cases)
      case (again p st3)
      then show ?thesis using run_turn_counts [OF assms(3)] assms(2) s2(3) f2 by (simp add: between_turns_def)
    qed (use s2 f2 assms(2) in \<open>auto simp: run_ended_def\<close>)
  qed
qed

lemma out_of_turns_ends:
  "between_turns E st \<Longrightarrow> out_of_turns E task st = (r, st') \<Longrightarrow> run_ended E r st'"
  by (auto simp: out_of_turns_def move_to_def turn_transition_def run_ended_def between_turns_def run_result_def)

text \<open>C16: a run always returns, after at most as many invocations of the model as it has turns. It fails only with an error of
  the transport, and then the observer was told of no end of the run: no turn state is ever left illegally and no
  fragment escapes the assembler. Otherwise it returns a result within its turns, and exactly one of all the calls to the
  observer reports the end of the run, the last one: the completion when the final state is, and else a failure whose
  code is the stop reason of the result.\<close>
theorem agent_run_returns:
  "\<exists>r st. agent_run E task w = (Some r, st) \<and> length (invocations (as_trace st)) \<le> ag_max_turns E
    \<and> (case r of
         Inl e \<Rightarrow> transport_failed E e \<and> finals (as_trace st) = []
       | Inr res \<Rightarrow> ar_turns_used res \<le> ag_max_turns E
           \<and> (\<exists>tr c. as_trace st = tr @ [c] \<and> finals tr = []
                 \<and> (if ar_final_state res = Tn_Completed then c = Run_Completed (ag_run_id E)
                    else \<exists>code. c = Run_Failed (ag_run_id E) code \<and> ar_stop_reason res = Some code)))"
proof -
  let ?st = "(agent_start E task w)\<lparr>as_state := Tn_Streaming\<rparr>"
  obtain r st where run: "agent_loop E task ?st = (r, st)" by (cases "agent_loop E task ?st")
  have "between_turns E ?st" by (auto simp: between_turns_def agent_start_def split: prod.splits)
  then have "run_ended E r st"
    by (rule agent_loop_rule [where P = "between_turns E" and Q = "run_ended E", OF run])
       (auto dest: run_turn_ends out_of_turns_ends)
  moreover have "agent_run E task w = (r, st)"
    using run by (auto simp: agent_run_def move_to_def turn_transition_def agent_start_def split: prod.splits)
  ultimately show ?thesis by (cases r) (auto simp: run_ended_def)
qed

section \<open>The worker\<close>

text \<open>Between turns a plan that is still on its way, or in the slot, is either out of date or no plan at all.\<close>

definition workers_stale :: "'w agent_state \<Rightarrow> bool" where
  "workers_stale st \<longleftrightarrow>
     (\<forall>(e, p) \<in> set (as_workers st). e \<le> as_structure_epoch st \<and> (e = as_structure_epoch st \<longrightarrow> p = None))
     \<and> (\<forall>e p. as_slot st = Some (e, p) \<longrightarrow> e < as_structure_epoch st)"

text \<open>Within a turn a current plan is the plan for the conversation as it is.\<close>

definition workers_current :: "agent_task \<Rightarrow> 'w agent_state \<Rightarrow> bool" where
  "workers_current task st \<longleftrightarrow>
     (let plan = plan_compaction (conversation_view st) (gt_max_input_tokens task)
      in (\<forall>(e, p) \<in> set (as_workers st). e \<le> as_structure_epoch st \<and> (e = as_structure_epoch st \<longrightarrow> p = None \<or> p = plan))
       \<and> (\<forall>e p. as_slot st = Some (e, p) \<longrightarrow> e \<le> as_structure_epoch st \<and> (e = as_structure_epoch st \<longrightarrow> plan = Some p)))"

lemma spawn_worker_current: "workers_stale st \<Longrightarrow> workers_current task (spawn_worker E task st)"
  by (auto simp: workers_stale_def workers_current_def spawn_worker_def conversation_view_def Let_def)

lemma deliver_current:
  assumes "workers_current task st"
  shows "workers_current task (deliver i st)"
proof (cases "i < length (as_workers st)")
  case True
  obtain e p where w: "as_workers st ! i = (e, p)" by (cases "as_workers st ! i")
  then have "(e, p) \<in> set (as_workers st)" using True by (metis nth_mem)
  then show ?thesis
    using assms True w
    by (cases p) (auto simp: workers_current_def deliver_def conversation_view_def Let_def dest!: in_set_takeD in_set_dropD)
qed (use assms in \<open>simp add: deliver_def\<close>)

lemma deliver_all_current: "workers_current task st \<Longrightarrow> workers_current task (fold deliver is st)"
  by (induction "is" arbitrary: st) (simp_all add: deliver_current)

text \<open>So the plan that is taken is the one the loop would compute itself.\<close>

lemma take_plan_current:
  "workers_current task st \<Longrightarrow>
     \<exists>b. take_plan task st = ((b, plan_compaction (conversation_view st) (gt_max_input_tokens task)), st\<lparr>as_slot := None\<rparr>)"
  by (auto simp: take_plan_def workers_current_def Let_def split: option.splits)

text \<open>The state without the worker and its count.\<close>

definition forget :: "'w agent_state \<Rightarrow> 'w agent_state" where
  "forget st = st\<lparr>as_slot := None, as_workers := [], as_async_compactions := 0\<rparr>"

lemma forget_worker [simp]:
  "forget (deliver i st) = forget st" "forget (spawn_worker E task st) = forget st" "forget (st\<lparr>as_slot := x\<rparr>) = forget st"
  by (simp_all add: forget_def deliver_def spawn_worker_def)

lemma forget_deliver_all [simp]: "forget (fold deliver is st) = forget st"
  by (induction "is" arbitrary: st) simp_all

lemma forget_fields [simp]:
  "as_state (forget st) = as_state st" "as_turns_used (forget st) = as_turns_used st"
  "as_conversation (forget st) = as_conversation st" "as_trace (forget st) = as_trace st" "as_world (forget st) = as_world st"
  "as_structure_epoch (forget st) = as_structure_epoch st" "as_epochs (forget st) = as_epochs st"
  "as_current_epoch (forget st) = as_current_epoch st" "as_workers (forget st) = []" "as_slot (forget st) = None"
  "as_tool_outcomes (forget st) = as_tool_outcomes st"
  by (simp_all add: forget_def)

lemma forget_same:
  assumes "forget st = forget st'"
  shows "as_conversation st = as_conversation st'" "as_structure_epoch st = as_structure_epoch st'" "as_trace st = as_trace st'"
    "as_turns_used st = as_turns_used st'" "as_state st = as_state st'"
  using assms by (metis forget_fields)+

lemma compact_takes_plan:
  assumes "workers_stale st"
  obtains b sx where
    "compact E task st = (case plan_compaction (conversation_view st) (gt_max_input_tokens task) of
       None \<Rightarrow> sx | Some plan \<Rightarrow> use_plan E b plan sx)"
    "forget sx = forget st" "as_slot sx = None" "workers_current task sx"
proof -
  let ?st = "fold deliver (ag_delivered E (as_turns_used st)) (spawn_worker E task st)"
  have cur: "workers_current task ?st" by (intro deliver_all_current spawn_worker_current assms)
  have same: "forget ?st = forget st" by simp
  have view: "conversation_view ?st = conversation_view st" using forget_same(1) [OF same] by (simp add: conversation_view_def)
  obtain b where "take_plan task ?st =
      ((b, plan_compaction (conversation_view st) (gt_max_input_tokens task)), ?st\<lparr>as_slot := None\<rparr>)"
    using take_plan_current [OF cur] view by auto
  then have "compact E task st = (case plan_compaction (conversation_view st) (gt_max_input_tokens task) of
      None \<Rightarrow> ?st\<lparr>as_slot := None\<rparr> | Some plan \<Rightarrow> use_plan E b plan (?st\<lparr>as_slot := None\<rparr>))"
    by (simp add: compact_def)
  moreover have "workers_current task (?st\<lparr>as_slot := None\<rparr>)"
    using cur by (simp add: workers_current_def conversation_view_def Let_def)
  ultimately show thesis using same by (intro that [where b = b and sx = "?st\<lparr>as_slot := None\<rparr>"]) simp_all
qed

lemma use_plan_fields:
  "as_conversation (use_plan E b plan st) = apply_plan (cp_actions plan) (as_conversation st)"
  "as_structure_epoch (use_plan E b plan st) = as_structure_epoch st + 1"
  "as_workers (use_plan E b plan st) = as_workers st" "as_slot (use_plan E b plan st) = as_slot st"
  by (simp_all add: use_plan_def Let_def split: prod.splits)

lemma compact_stale:
  assumes "workers_stale st"
  shows "workers_stale (compact E task st)"
proof -
  obtain b st1 where c: "compact E task st = (case plan_compaction (conversation_view st) (gt_max_input_tokens task) of
      None \<Rightarrow> st1 | Some plan \<Rightarrow> use_plan E b plan st1)"
    and f: "forget st1 = forget st" and slot: "as_slot st1 = None" and cur: "workers_current task st1"
    by (rule compact_takes_plan [OF assms, of E task])
  have "conversation_view st1 = conversation_view st" using forget_same(1) [OF f] by (simp add: conversation_view_def)
  then show ?thesis using c slot cur
    by (auto simp: workers_stale_def workers_current_def use_plan_fields Let_def split: option.splits)
qed

text \<open>The same run without a worker.\<close>

definition forget_end :: "'w turn_end \<Rightarrow> 'w turn_end" where
  "forget_end = (\<lambda>(r, st). (map_option (map_sum id (\<lambda>res. res\<lparr>ar_async_compactions := 0\<rparr>)) r, forget st))"

lemma forget_end_Pair [simp]:
  "forget_end (r, st) = (map_option (map_sum id (\<lambda>res. res\<lparr>ar_async_compactions := 0\<rparr>)) r, forget st)"
  by (simp add: forget_end_def)

abbreviation unaided :: "'w agent_env \<Rightarrow> 'w agent_env" where
  "unaided E \<equiv> E\<lparr>ag_async := False\<rparr>"

lemma forget_pushes [simp]:
  "forget (emit cs st) = emit cs (forget st)" "forget (push_messages ms st) = push_messages ms (forget st)"
  "forget (st\<lparr>as_world := w\<rparr>) = (forget st)\<lparr>as_world := w\<rparr>" "forget (st\<lparr>as_state := t\<rparr>) = (forget st)\<lparr>as_state := t\<rparr>"
  "forget (st\<lparr>as_turns_used := n\<rparr>) = (forget st)\<lparr>as_turns_used := n\<rparr>"
  "forget (st\<lparr>as_tool_outcomes := os\<rparr>) = (forget st)\<lparr>as_tool_outcomes := os\<rparr>"
  "forget (st\<lparr>as_assembled := t'\<rparr>) = (forget st)\<lparr>as_assembled := t'\<rparr>"
  "forget (st\<lparr>as_last_usage := u\<rparr>) = (forget st)\<lparr>as_last_usage := u\<rparr>"
  "forget (st\<lparr>as_stop_reason := sr\<rparr>) = (forget st)\<lparr>as_stop_reason := sr\<rparr>"
  "as_assembled (forget st) = as_assembled st" "as_last_usage (forget st) = as_last_usage st"
  "as_async_compactions (forget st) = 0" "as_stop_reason (forget st) = as_stop_reason st"
  by (simp_all add: forget_def emit_def push_messages_def)

lemma run_result_unaided [simp]:
  "run_result (unaided E) task (forget st) = (run_result E task st)\<lparr>ar_async_compactions := 0\<rparr>"
  by (simp add: run_result_def forget_def)

lemma boundary_unaided: "boundary (unaided E) task (forget st) = forget_end (boundary E task st)"
  by (auto simp: boundary_def Let_def run_result_def split: option.splits prod.splits)

lemma build_request_unaided [simp]: "build_request (unaided E) task (forget st) = build_request E task st"
  by (simp add: build_request_def)

lemma invoke_model_unaided:
  "invoke_model (unaided E) task (forget st) = (case invoke_model E task st of (r, st1) \<Rightarrow> (r, forget st1))"
  by (auto simp: invoke_model_def Let_def split: prod.splits sum.splits)

lemma parse_events_unaided:
  "parse_events (unaided E) task evs (p, forget st) = (case parse_events E task evs (p, st) of (r, st1) \<Rightarrow> (r, forget st1))"
  by (induction E task evs "(p, st)" arbitrary: p st rule: parse_events.induct)
     (auto simp: note_call_def valid_payload_def Let_def split: option.splits)

lemma call_unaided [simp]:
  "decide_call (unaided E) r w = decide_call E r w"
  "call_outcome (unaided E) i n a d w = call_outcome E i n a d w"
  "outcome_message (unaided E) oc = outcome_message E oc"
  by (simp_all add: decide_call_def call_outcome_def outcome_message_def split: policy_decision.splits option.splits)

lemma run_call_unaided: "run_call_with (unaided E) pos call args (forget st) = forget (run_call_with E pos call args st)"
  by (simp add: run_call_with_def Let_def split: prod.splits)

lemma answer_calls_unaided:
  "answer_calls (unaided E) req pos calls (forget st) = forget (answer_calls E req pos calls st)"
  by (induction calls arbitrary: pos st) (simp_all add: run_call_unaided flip: forget_pushes(2) split: option.splits)

lemma checkpoint_unaided: "checkpoint_turn (unaided E) (forget st) = forget (checkpoint_turn E st)"
  by (simp add: checkpoint_turn_def split: sum.splits)

lemma move_to_unaided:
  "(\<And>st. k' (forget st) = forget_end (k st)) \<Longrightarrow> move_to t k' (forget st) = forget_end (move_to t k st)"
  by (simp add: move_to_def flip: forget_pushes(4) split: sum.splits)

lemma complete_run_unaided: "complete_run (unaided E) task (forget st) = forget_end (complete_run E task st)"
  unfolding complete_run_def by (intro move_to_unaided) simp

lemma execute_turn_unaided: "execute_turn (unaided E) p (forget st) = forget_end (execute_turn E p st)"
  unfolding execute_turn_def forget_pushes(2) [symmetric]
  by (intro move_to_unaided) (simp add: answer_calls_unaided checkpoint_unaided move_to_unaided)

lemma respond_unaided: "respond (unaided E) task (forget st) = forget_end (respond E task st)"
proof -
  obtain r st1 where i: "invoke_model E task st = (r, st1)" by (cases "invoke_model E task st")
  show ?thesis
  proof (cases r)
    case (Inr evs)
    obtain q st2 where p: "parse_events E task evs (\<lparr>pt_text = [], pt_issued = [], pt_requested = []\<rparr>, st1) = (q, st2)"
      by (cases "parse_events E task evs (\<lparr>pt_text = [], pt_issued = [], pt_requested = []\<rparr>, st1)")
    then show ?thesis using i Inr
      by (cases q) (auto simp: respond_def invoke_model_unaided parse_events_unaided Let_def
          complete_run_unaided execute_turn_unaided simp flip: forget_pushes(1))
  qed (simp add: respond_def invoke_model_unaided i)
qed

lemma out_of_turns_unaided: "out_of_turns (unaided E) task (forget st) = forget_end (out_of_turns E task st)"
  unfolding out_of_turns_def by (intro move_to_unaided) (simp add: run_result_def)

lemma use_plan_unaided: "use_plan (unaided E) False plan (forget st) = forget (use_plan E b plan st)"
  by (auto simp: use_plan_def conversation_view_def Let_def emit_def split: prod.splits sum.splits)

lemma forget_slot [simp]: "(forget st)\<lparr>as_slot := None\<rparr> = forget st"
  by (simp add: forget_def)

lemma fold_deliver_none: "as_workers st = [] \<Longrightarrow> fold deliver is st = st"
  by (induction "is") (simp_all add: deliver_def)

lemma compact_unaided:
  assumes "workers_stale st"
  shows "compact (unaided E) task (forget st) = forget (compact E task st)"
proof -
  obtain b st1 where c: "compact E task st = (case plan_compaction (conversation_view st) (gt_max_input_tokens task) of
      None \<Rightarrow> st1 | Some plan \<Rightarrow> use_plan E b plan st1)" and f: "forget st1 = forget st"
    by (rule compact_takes_plan [OF assms, of E task])
  have "compact (unaided E) task (forget st) =
      (case plan_compaction (conversation_view st) (gt_max_input_tokens task) of
         None \<Rightarrow> forget st | Some plan \<Rightarrow> use_plan (unaided E) False plan (forget st))"
    by (simp add: compact_def spawn_worker_def fold_deliver_none take_plan_def conversation_view_def split: option.splits)
  then show ?thesis using c f use_plan_unaided [where E = E and st = st1 and b = b] by (simp split: option.splits)
qed

text \<open>Nothing but the compaction touches the worker.\<close>

definition worker_part :: "'w agent_state \<Rightarrow> (nat \<times> compaction_plan option) list \<times> (nat \<times> compaction_plan) option \<times> nat" where
  "worker_part st = (as_workers st, as_slot st, as_structure_epoch st)"

lemma worker_part_simps [simp]:
  "worker_part (emit cs st) = worker_part st" "worker_part (push_messages ms st) = worker_part st"
  "worker_part (st\<lparr>as_world := w\<rparr>) = worker_part st" "worker_part (st\<lparr>as_state := t\<rparr>) = worker_part st"
  "worker_part (st\<lparr>as_tool_outcomes := os\<rparr>) = worker_part st" "worker_part (st\<lparr>as_assembled := t'\<rparr>) = worker_part st"
  "worker_part (st\<lparr>as_last_usage := u\<rparr>) = worker_part st" "worker_part (st\<lparr>as_stop_reason := sr\<rparr>) = worker_part st"
  "worker_part (st\<lparr>as_turns_used := n\<rparr>) = worker_part st"
  "worker_part (st\<lparr>as_tool_outcomes := os, as_world := w\<rparr>) = worker_part st"
  by (simp_all add: worker_part_def)

lemma stale_by_part: "worker_part st = worker_part st' \<Longrightarrow> workers_stale st \<longleftrightarrow> workers_stale st'"
  by (simp add: worker_part_def workers_stale_def)

lemma boundary_part: "boundary E task st = (r, st') \<Longrightarrow> worker_part st' = worker_part st"
  by (auto simp: boundary_def Let_def split: option.splits prod.splits if_splits)

lemma answer_calls_part [simp]: "worker_part (answer_calls E req pos calls st) = worker_part st"
  by (induction calls arbitrary: pos st) (auto simp: run_call_with_def Let_def split: option.splits prod.splits)

lemma parse_events_part: "parse_events E task evs (p, st) = (r, st') \<Longrightarrow> worker_part st' = worker_part st"
  by (induction E task evs "(p, st)" arbitrary: p st rule: parse_events.induct)
     (auto simp: note_call_def Let_def split: option.splits)

lemma invoke_model_part: "invoke_model E task st = (r, st') \<Longrightarrow> worker_part st' = worker_part st"
  by (auto simp: invoke_model_def Let_def split: prod.splits sum.splits)

lemma checkpoint_part [simp]: "worker_part (checkpoint_turn E st) = worker_part st"
  by (simp add: checkpoint_turn_def split: sum.splits)

lemma respond_part: "respond E task st = (r, st') \<Longrightarrow> worker_part st' = worker_part st"
  by (auto simp: respond_def complete_run_def execute_turn_def move_to_def Let_def
      dest!: invoke_model_part parse_events_part split: prod.splits sum.splits if_splits)

lemma run_turn_unaided:
  assumes "workers_stale st"
  shows "run_turn (unaided E) task (forget st) = forget_end (run_turn E task st)"
    and "run_turn E task st = (r, st') \<Longrightarrow> r = None \<Longrightarrow> workers_stale st'"
proof -
  let ?n = "as_turns_used st + 1"
  let ?st = "emit [Turn_Prepared (ag_turn_id E ?n) ?n] (st\<lparr>as_turns_used := ?n\<rparr>)"
  obtain x st1 where bd: "boundary E task ?st = (x, st1)" by (cases "boundary E task ?st")
  have b1: "boundary (unaided E) task (forget ?st) = forget_end (x, st1)" using boundary_unaided [of E task ?st] bd by simp
  have stale: "workers_stale st1" using boundary_part [OF bd] assms stale_by_part by (metis worker_part_simps(1,9))
  show "run_turn (unaided E) task (forget st) = forget_end (run_turn E task st)"
    using b1 bd compact_unaided [OF stale, of E task] respond_unaided [of E task "compact E task st1"]
    by (cases x) (simp_all add: run_turn_def Let_def)
  assume "run_turn E task st = (r, st')" "r = None"
  then have "respond E task (compact E task st1) = (r, st')" using bd by (cases x) (simp_all add: run_turn_def Let_def)
  then show "workers_stale st'" using respond_part compact_stale [OF stale] stale_by_part by blast
qed

lemma agent_loop_unaided:
  "workers_stale st \<Longrightarrow> agent_loop (unaided E) task (forget st) = forget_end (agent_loop E task st)"
proof (induction "ag_max_turns E - as_turns_used st" arbitrary: st rule: less_induct)
  case less
  show ?case
  proof (cases "ag_max_turns E \<le> as_turns_used st")
    case True
    then show ?thesis
      using out_of_turns_unaided by (simp add: agent_loop.simps [of E task st] agent_loop.simps [of "unaided E" task "forget st"])
  next
    case False
    obtain x st1 where run: "run_turn E task st = (x, st1)" by (cases "run_turn E task st")
    note u = run_turn_unaided(1) [OF less.prems, of E task]
    show ?thesis
    proof (cases x)
      case None
      have "ag_max_turns E - as_turns_used st1 < ag_max_turns E - as_turns_used st"
        using run_turn_counts [OF run] False by simp
      then have "agent_loop (unaided E) task (forget st1) = forget_end (agent_loop E task st1)"
        using less.hyps run_turn_unaided(2) [OF less.prems run None] by blast
      then show ?thesis using u run None False
        by (simp add: agent_loop.simps [of E task st] agent_loop.simps [of "unaided E" task "forget st"])
    next
      case (Some y)
      then show ?thesis using u run False
        by (simp add: agent_loop.simps [of E task st] agent_loop.simps [of "unaided E" task "forget st"])
    qed
  qed
qed


section \<open>Every call is answered\<close>

text \<open>What a provider checks of a conversation: who speaks, the calls issued, and the call a result answers.\<close>

definition shape :: "chat_message \<Rightarrow> role \<times> tool_call_data list \<times> string option" where
  "shape m = (ch_role m, ch_tool_calls m, ch_tool_call_id m)"

fun block :: "(role \<times> tool_call_data list \<times> string option) list \<Rightarrow> bool" where
  "block [] = False"
| "block ((r, calls, i) # rs) =
     (if r = Role_Assistant \<and> calls \<noteq> [] then rs = map (\<lambda>c. (Role_Tool, [], Some (td_call_id c))) calls
      else r \<noteq> Role_Tool \<and> rs = [])"

text \<open>A conversation in which every issued call is answered once, in order, before anything else is said, and no result
  answers anything else.\<close>

definition answered :: "chat_message list \<Rightarrow> bool" where
  "answered conv \<longleftrightarrow> (\<exists>bs. map shape conv = concat bs \<and> list_all block bs)"

lemma answered_append: "answered xs \<Longrightarrow> answered ys \<Longrightarrow> answered (xs @ ys)"
  unfolding answered_def by (metis concat_append list_all_append map_append)

lemma answered_empty: "answered []"
  by (auto simp: answered_def intro: exI [of _ "[]"])

lemma answered_users [simp]: "answered (map (\<lambda>n. user_message (f n)) ns)"
proof -
  have "map shape (map (\<lambda>n. user_message (f n)) ns) = concat (map (\<lambda>n. [(Role_User, [], None)]) ns)"
    by (induction ns) (simp_all add: shape_def user_message_def)
  moreover have "list_all block (map (\<lambda>n. [(Role_User, [], None)]) ns)" by (simp add: list_all_iff)
  ultimately show ?thesis unfolding answered_def by blast
qed

text \<open>The answers to the calls of a turn.\<close>

lemma run_call_answers:
  "\<exists>m. as_conversation (run_call_with E pos c args st) = as_conversation st @ [m]
     \<and> shape m = (Role_Tool, [], Some (td_call_id c))"
proof -
  have "oc_call_id (call_outcome E (td_call_id c) name args d w) = td_call_id c" for name d w
    by (simp add: call_outcome_def split: policy_decision.splits sum.splits)
  moreover have "shape (outcome_message E oc) = (Role_Tool, [], Some (oc_call_id oc))" for oc
    by (simp add: shape_def outcome_message_def tool_result_def)
  ultimately show ?thesis by (simp add: run_call_with_def Let_def split: prod.splits)
qed

lemma answer_calls_answers:
  "\<exists>rs. as_conversation (answer_calls E req pos calls st) = as_conversation st @ rs
     \<and> map shape rs = map (\<lambda>c. (Role_Tool, [], Some (td_call_id c))) calls"
proof (induction calls arbitrary: pos st)
  case (Cons c calls)
  let ?st = "case map_of (rev req) (td_call_id c) of
      None \<Rightarrow> push_messages [tool_result (td_call_id c) INVALID_TOOL_PAYLOAD True] st
    | Some arguments \<Rightarrow> run_call_with E pos c arguments st"
  obtain m where m: "as_conversation ?st = as_conversation st @ [m]" "shape m = (Role_Tool, [], Some (td_call_id c))"
    using run_call_answers [of E pos c _ st] by (cases "map_of (rev req) (td_call_id c)") (auto simp: tool_result_def shape_def)
  obtain rs where "as_conversation (answer_calls E req (Suc pos) calls ?st) = as_conversation ?st @ rs"
    "map shape rs = map (\<lambda>c. (Role_Tool, [], Some (td_call_id c))) calls" using Cons.IH by blast
  then show ?case using m by (intro exI [of _ "m # rs"]) simp
qed simp

lemma turn_answered:
  assumes "answered conv" and "pt_issued p \<noteq> []" and "as_conversation st = conv @ [assistant_with_tool_calls (pt_text p) (pt_issued p)]"
  shows "answered (as_conversation (answer_calls E (pt_requested p) 0 (pt_issued p) st))"
proof -
  obtain rs where rs: "as_conversation (answer_calls E (pt_requested p) 0 (pt_issued p) st) = as_conversation st @ rs"
    "map shape rs = map (\<lambda>c. (Role_Tool, [], Some (td_call_id c))) (pt_issued p)" using answer_calls_answers by blast
  have "answered (assistant_with_tool_calls (pt_text p) (pt_issued p) # rs)"
    unfolding answered_def using rs(2) assms(2)
    by (intro exI [of _ "[map shape (assistant_with_tool_calls (pt_text p) (pt_issued p) # rs)]"])
       (simp add: shape_def assistant_with_tool_calls_def)
  then show ?thesis using answered_append [OF assms(1)] rs(1) assms(3) by simp
qed

subsection \<open>Compaction keeps the calls answered\<close>

text \<open>The ranges a plan summarises follow one another.\<close>

fun ranges :: "compaction_action list \<Rightarrow> (nat \<times> nat) list" where
  "ranges [] = []"
| "ranges (TruncateToolResult i r # as) = ranges as"
| "ranges (SummarizeBlock s e r # as) = (s, e) # ranges as"

lemma ranges_append [simp]: "ranges (xs @ ys) = ranges xs @ ranges ys"
  by (induction xs rule: ranges.induct) simp_all

lemma truncate_results_ranges: "ranges (ps_actions (truncate_results items b skip idx st)) = ranges (ps_actions st)"
  by (induction items b skip idx st rule: truncate_results.induct) (auto simp: Let_def)

definition ranges_upto :: "nat \<Rightarrow> compaction_action list \<Rightarrow> bool" where
  "ranges_upto i as \<longleftrightarrow> sorted_wrt (\<lambda>(s, e) (s', e'). e \<le> s') (ranges as) \<and> (\<forall>(s, e) \<in> set (ranges as). e \<le> i)"

lemma ranges_upto_mono: "ranges_upto i as \<Longrightarrow> i \<le> j \<Longrightarrow> ranges_upto j as"
  by (fastforce simp: ranges_upto_def)

lemma ranges_upto_snoc: "ranges_upto i as \<Longrightarrow> i \<le> e \<Longrightarrow> ranges_upto e (as @ [SummarizeBlock i e r])"
  by (fastforce simp: ranges_upto_def sorted_wrt_append)

lemma summarize_blocks_ranges:
  "ranges_upto i (ps_actions st) \<Longrightarrow> \<exists>j. ranges_upto j (ps_actions (summarize_blocks items budget recent i st))"
proof (induction items budget recent i st rule: summarize_blocks.induct)
  case (1 items budget recent i st)
  have le: "i \<le> block_end items i" by (simp add: block_end_def)
  show ?case
    using "1.IH" "1.prems" ranges_upto_mono [OF "1.prems" le] ranges_upto_mono [OF "1.prems", of "i + 1"]
      ranges_upto_snoc [OF "1.prems" le]
    by (subst summarize_blocks.simps) (auto simp: Let_def)
qed

lemma plan_ranges_sorted:
  assumes "plan_compaction items budget = Some plan"
  shows "sorted_wrt (\<lambda>(s, e) (s', e'). e \<le> s') (ranges (cp_actions plan))" and "list_all (action_ok items) (cp_actions plan)"
proof -
  have acts: "cp_actions plan = ps_actions (plan_stages items budget)"
    using assms by (auto simp: plan_compaction_def Let_def split: if_splits)
  have "ranges_upto 1 (ps_actions (truncate_results items budget skip idx (plan_start items)))" for skip idx
    unfolding ranges_upto_def truncate_results_ranges by (simp add: plan_start_def)
  from summarize_blocks_ranges [OF this]
  show "sorted_wrt (\<lambda>(s, e) (s', e'). e \<le> s') (ranges (cp_actions plan))"
    unfolding acts plan_stages_def Let_def truncate_results_ranges by (auto simp: ranges_upto_def)
  show "list_all (action_ok items) (cp_actions plan)" unfolding acts using plan_stages_ok by (auto simp: plan_ok_def)
qed

text \<open>Where a call was issued in an answered conversation, there is a block, and the planner sees its end.\<close>

fun kind_of :: "role \<times> tool_call_data list \<times> string option \<Rightarrow> item_kind" where
  "kind_of (Role_User, _) = UserTurn"
| "kind_of (Role_Assistant, calls, _) = (if calls = [] then AssistantText else AssistantToolCalls)"
| "kind_of (Role_Tool, _) = ToolResult"

lemma kind_of_shape: "ci_kind (item_of m) = kind_of (shape m)"
  by (cases "ch_role m") (simp_all add: item_of_def shape_def)

definition results_at :: "nat \<Rightarrow> (role \<times> tool_call_data list \<times> string option) list \<Rightarrow> nat" where
  "results_at s sh = length (takeWhile (\<lambda>x. kind_of x = ToolResult) (drop (s + 1) sh))"

lemma block_end_shape: "block_end (map item_of conv) s = s + 1 + results_at s (map shape conv)"
proof -
  have "takeWhile (\<lambda>x. ci_kind x = ToolResult) (map item_of (drop (s + 1) conv)) =
      map item_of (takeWhile (\<lambda>m. kind_of (shape m) = ToolResult) (drop (s + 1) conv))"
    by (simp add: takeWhile_map comp_def kind_of_shape)
  then show ?thesis by (simp add: block_end_def results_at_def drop_map takeWhile_map comp_def)
qed

lemma blocks_head: "list_all block bs \<Longrightarrow> concat bs \<noteq> [] \<Longrightarrow> kind_of (hd (concat bs)) \<noteq> ToolResult"
proof (induction bs)
  case (Cons b bs)
  then obtain r calls i rs where "b = (r, calls, i) # rs" by (cases b) auto
  then show ?case using Cons.prems by (cases r) (auto split: if_splits)
qed simp

lemma find_block:
  "list_all block bs \<Longrightarrow> s < length (concat bs) \<Longrightarrow> kind_of (concat bs ! s) = AssistantToolCalls \<Longrightarrow>
     \<exists>bs1 b bs2. bs = bs1 @ b # bs2 \<and> length (concat bs1) = s \<and> length b = results_at s (concat bs) + 1"
proof (induction bs arbitrary: s)
  case (Cons b bs)
  obtain r calls i rs where b: "b = (r, calls, i) # rs" using Cons.prems(1) by (cases b) auto
  show ?case
  proof (cases "s < length b")
    case True
    have "s = 0"
    proof (rule ccontr)
      assume "s \<noteq> 0"
      then obtain k where k: "s = Suc k" "k < length rs" using True b by (cases s) auto
      then have "rs = map (\<lambda>c. (Role_Tool, [], Some (td_call_id c))) calls" using Cons.prems(1) b by (auto split: if_splits)
      then show False using Cons.prems(3) k b by (simp add: nth_append)
    qed
    then have calls: "r = Role_Assistant" "calls \<noteq> []" using Cons.prems(3) b by (cases r; auto split: if_splits)+
    then have rs: "\<forall>x \<in> set rs. kind_of x = ToolResult" using Cons.prems(1) b by auto
    have rest: "takeWhile (\<lambda>x. kind_of x = ToolResult) (concat bs) = []"
      using blocks_head [of bs] Cons.prems(1) by (cases "concat bs = []") (auto simp: takeWhile_eq_Nil_iff simp del: concat_eq_Nil_conv)
    have "takeWhile (\<lambda>x. kind_of x = ToolResult) (rs @ concat bs) = rs" using rs rest by (simp add: takeWhile_append2)
    then show ?thesis using \<open>s = 0\<close> b by (intro exI [of _ "[]"] exI [of _ b] exI [of _ bs]) (simp add: results_at_def)
  next
    case False
    then have "s - length b < length (concat bs)" "kind_of (concat bs ! (s - length b)) = AssistantToolCalls"
      using Cons.prems by (auto simp: nth_append)
    then obtain bs1 c bs2 where c: "bs = bs1 @ c # bs2" "length (concat bs1) = s - length b"
      "length c = results_at (s - length b) (concat bs) + 1"
      using Cons.IH [of "s - length b"] Cons.prems(1) by (metis list.pred_inject(2))
    have "results_at s (concat (b # bs)) = results_at (s - length b) (concat bs)"
      using False by (simp add: results_at_def Suc_diff_le)
    then show ?thesis using c False by (intro exI [of _ "b # bs1"] exI [of _ c] exI [of _ bs2]) simp
  qed
qed simp

text \<open>The shapes after an action.\<close>

definition note_shape :: "role \<times> tool_call_data list \<times> string option" where
  "note_shape = (Role_User, [], None)"

lemma apply_action_shape:
  "map shape (apply_action (TruncateToolResult i r) conv) = map shape conv"
  "map shape (apply_action (SummarizeBlock s e r) conv) =
     (if s < e \<and> e \<le> length conv then take s (map shape conv) @ [note_shape] @ drop e (map shape conv) else map shape conv)"
proof -
  have "shape (m\<lparr>ch_content := r\<rparr>) = shape m" for m by (simp add: shape_def)
  then show "map shape (apply_action (TruncateToolResult i r) conv) = map shape conv"
    by (auto simp: apply_action_def map_update list_update_same_conv)
  show "map shape (apply_action (SummarizeBlock s e r) conv) =
     (if s < e \<and> e \<le> length conv then take s (map shape conv) @ [note_shape] @ drop e (map shape conv) else map shape conv)"
    by (simp add: apply_action_def take_map drop_map note_shape_def shape_def user_message_def)
qed

lemma prefix_blocks:
  assumes "prefix pre bs" and "bs = bs1 @ b # bs2" and "list_all block bs" and "length (concat bs1) + length b \<le> length (concat pre)"
  obtains pre2 where "pre = bs1 @ b # pre2"
proof -
  have "prefix (bs1 @ [b]) bs" using assms(2) by simp
  then consider "prefix (bs1 @ [b]) pre" | "strict_prefix pre (bs1 @ [b])" using prefix_same_cases [OF _ assms(1)] by (metis strict_prefix_def)
  then show thesis
  proof cases
    case 1
    then show thesis using that by (auto simp: prefix_def)
  next
    case 2
    then have "prefix pre bs1" by (auto simp: strict_prefix_def)
    then have "length (concat pre) \<le> length (concat bs1)" by (auto simp: prefix_def)
    moreover have "b \<noteq> []" using assms(2,3) by auto
    ultimately have False using assms(4) by (cases b) simp_all
    then show thesis ..
  qed
qed

text \<open>Applied from the last action to the first, the plan replaces whole blocks and leaves what is before them.\<close>

lemma apply_plan_blocks:
  assumes "map shape conv = concat bs" and "list_all block bs"
    and "list_all (action_ok (map item_of conv)) acts" and "sorted_wrt (\<lambda>(s, e) (s', e'). e \<le> s') (ranges acts)"
  shows "\<exists>pre rest. prefix pre bs \<and> map shape (apply_plan acts conv) = concat pre @ concat rest \<and> list_all block rest
    \<and> (\<forall>x. x \<le> length conv \<longrightarrow> (\<forall>(s, e) \<in> set (ranges acts). x \<le> s) \<longrightarrow> x \<le> length (concat pre))"
  using assms(3,4)
proof (induction acts)
  case Nil
  have "length conv = length (concat bs)" using arg_cong [OF assms(1), of length] by simp
  then show ?case using assms(1) by (intro exI [of _ bs] exI [of _ "[]"]) (simp add: apply_plan_def)
next
  case (Cons a acts)
  have later: "list_all (action_ok (map item_of conv)) acts" "sorted_wrt (\<lambda>(s, e) (s', e'). e \<le> s') (ranges acts)"
    using Cons.prems by (cases a; simp)+
  obtain pre rest where IH: "prefix pre bs" "map shape (apply_plan acts conv) = concat pre @ concat rest" "list_all block rest"
    "\<forall>x. x \<le> length conv \<longrightarrow> (\<forall>(s, e) \<in> set (ranges acts). x \<le> s) \<longrightarrow> x \<le> length (concat pre)"
    using Cons.IH [OF later] by blast
  have step: "apply_plan (a # acts) conv = apply_action a (apply_plan acts conv)" by (simp add: apply_plan_def)
  show ?case
  proof (cases a)
    case (TruncateToolResult i r)
    then show ?thesis using IH step apply_action_shape(1) by (intro exI [of _ pre] exI [of _ rest]) auto
  next
    case (SummarizeBlock s e r)
    have ok: "s < e" "e = block_end (map item_of conv) s" "e \<le> length conv" "kind_of (shape (conv ! s)) = AssistantToolCalls"
      using Cons.prems(1) SummarizeBlock recent_bound [of "map item_of conv"] kind_of_shape [of "conv ! s"] by auto
    have s: "s < length (concat bs)" "kind_of (concat bs ! s) = AssistantToolCalls"
      using ok(1,3,4) assms(1) arg_cong [OF assms(1), of length] by (auto simp flip: assms(1))
    obtain bs1 b bs2 where b: "bs = bs1 @ b # bs2" "length (concat bs1) = s" "length b = results_at s (concat bs) + 1"
      using find_block [OF assms(2) s] by blast
    have e: "e = s + length b" using ok(2) b(3) block_end_shape [of conv s] assms(1) by simp
    have "e \<le> length (concat pre)" using IH(4) ok(3) Cons.prems(2) SummarizeBlock by auto
    then obtain pre2 where pre: "pre = bs1 @ b # pre2" using prefix_blocks [OF IH(1) b(1) assms(2)] b(2) e by auto
    have "length (apply_plan acts conv) = length (concat pre @ concat rest)" using arg_cong [OF IH(2), of length] by simp
    then have "map shape (apply_plan (a # acts) conv) = concat bs1 @ concat ([note_shape] # pre2 @ rest)"
      using step SummarizeBlock ok(1) apply_action_shape(2) [of s e r "apply_plan acts conv"] IH(2) pre b(2) e by simp
    moreover have "list_all block ([note_shape] # pre2 @ rest)"
      using IH(1,3) assms(2) pre by (auto simp: note_shape_def prefix_def)
    moreover have "prefix bs1 bs" using b(1) by simp
    ultimately show ?thesis using b(2) SummarizeBlock by (intro exI [of _ bs1] exI [of _ "[note_shape] # pre2 @ rest"]) auto
  qed
qed

lemma apply_plan_answered:
  assumes "answered conv" and "plan_compaction (map item_of conv) budget = Some plan"
  shows "answered (apply_plan (cp_actions plan) conv)"
proof -
  obtain bs where bs: "map shape conv = concat bs" "list_all block bs" using assms(1) by (auto simp: answered_def)
  obtain pre rest where "prefix pre bs" "map shape (apply_plan (cp_actions plan) conv) = concat pre @ concat rest" "list_all block rest"
    using apply_plan_blocks [OF bs plan_ranges_sorted(2,1) [OF assms(2)]] by blast
  then show ?thesis using bs(2) unfolding answered_def
    by (intro exI [of _ "pre @ rest"]) (auto simp: prefix_def)
qed

lemma compact_answered:
  assumes "workers_stale st" and "answered (as_conversation st)"
  shows "answered (as_conversation (compact E task st))"
proof -
  obtain b sx where c: "compact E task st = (case plan_compaction (conversation_view st) (gt_max_input_tokens task) of
      None \<Rightarrow> sx | Some plan \<Rightarrow> use_plan E b plan sx)" and f: "forget sx = forget st"
    by (rule compact_takes_plan [OF assms(1), of E task])
  then show ?thesis using assms(2) apply_plan_answered [of "as_conversation st"] forget_same(1) [OF f]
    by (auto simp: use_plan_fields conversation_view_def split: option.splits)
qed

subsection \<open>The requests of a run\<close>

definition requests_answered :: "'w agent_state \<Rightarrow> bool" where
  "requests_answered st \<longleftrightarrow> (\<forall>r \<in> set (invocations (as_trace st)). answered (mq_messages r))"

definition in_order :: "'w agent_state \<Rightarrow> bool" where
  "in_order st \<longleftrightarrow> as_state st = Tn_Streaming \<and> workers_stale st \<and> answered (as_conversation st) \<and> requests_answered st"

lemma boundary_answered:
  "boundary E task st = (r, st') \<Longrightarrow> answered (as_conversation st) \<Longrightarrow> answered (as_conversation st')"
  by (auto simp: boundary_def Let_def answered_append split: option.splits prod.splits if_splits)

lemma run_turn_in_order:
  assumes "in_order st" and "run_turn E task st = (r, st')"
  shows "requests_answered st' \<and> (r = None \<longrightarrow> in_order st')"
proof -
  let ?n = "as_turns_used st + 1"
  let ?st = "emit [Turn_Prepared (ag_turn_id E ?n) ?n] (st\<lparr>as_turns_used := ?n\<rparr>)"
  obtain x st1 where bd: "boundary E task ?st = (x, st1)" by (cases "boundary E task ?st")
  have s1: "as_state st1 = Tn_Streaming" "requests_answered st1" "answered (as_conversation st1)"
    using boundary_simps(1) [OF bd] boundary_invocations [OF bd] boundary_answered [OF bd] assms(1)
    by (simp_all add: in_order_def requests_answered_def)
  have stale: "workers_stale st1"
    using boundary_part [OF bd] assms(1) stale_by_part by (metis in_order_def worker_part_simps(1,9))
  show ?thesis
  proof (cases x)
    case (Some y)
    then show ?thesis using bd assms(2) s1 by (auto simp: run_turn_def Let_def)
  next
    case None
    let ?st2 = "compact E task st1"
    have conv: "answered (as_conversation ?st2)" by (rule compact_answered [OF stale s1(3)])
    have resp: "respond E task ?st2 = (r, st')" using assms(2) bd None by (simp add: run_turn_def Let_def)
    have "as_state ?st2 = Tn_Streaming" using s1(1) by simp
    with resp have tr: "invocations (as_trace st') = invocations (as_trace ?st2) @ [build_request E task ?st2]"
      by (cases rule: respond_cases) auto
    then have req: "requests_answered st'" using s1(2) conv by (auto simp: requests_answered_def build_request_def)
    have "in_order st'" if "r = None"
      using resp \<open>as_state ?st2 = Tn_Streaming\<close>
    proof (cases rule: respond_cases)
      case (again p sx)
      then have "answered (as_conversation st')" using turn_answered [OF conv] by metis
      moreover have "workers_stale st'" using respond_part [OF resp] compact_stale [OF stale] stale_by_part by blast
      ultimately show ?thesis using again(2) req by (simp add: in_order_def)
    qed (use that in auto)
    then show ?thesis using req by blast
  qed
qed

lemma out_of_turns_in_order: "in_order st \<Longrightarrow> out_of_turns E task st = (r, st') \<Longrightarrow> requests_answered st'"
  by (auto simp: out_of_turns_def move_to_def turn_transition_def in_order_def requests_answered_def)

text \<open>C15: every request a run sends to the model is well formed: each tool call the model issued is answered exactly
  once, in the order of issue, before anything else is said, and no result answers anything else. This holds through
  refused and failed calls, steering, compaction and the resumption of an interrupted run.\<close>
theorem requests_answer_every_call:
  assumes "case ag_resume E of None \<Rightarrow> True | Some conv \<Rightarrow> answered conv"
    and "agent_run E task w = (r, st)" and "Invoke_Model req \<in> set (as_trace st)"
  shows "answered (mq_messages req)"
proof -
  let ?st = "(agent_start E task w)\<lparr>as_state := Tn_Streaming\<rparr>"
  have user: "answered [user_message m]" for m using answered_users [of "\<lambda>x. x" "[m]"] by simp
  have "answered (start_conversation E task)"
    unfolding start_conversation_def using assms(1) user
    by (intro answered_append) (auto simp: answered_empty split: option.splits list.splits)
  then have start: "in_order ?st"
    by (auto simp: in_order_def workers_stale_def requests_answered_def agent_start_def split: prod.splits)
  have run: "agent_loop E task ?st = (r, st)"
    using assms(2) by (auto simp: agent_run_def move_to_def turn_transition_def agent_start_def split: prod.splits)
  have "requests_answered st"
    by (rule agent_loop_rule [where P = in_order and Q = "\<lambda>_. requests_answered", OF run start])
       (auto dest: run_turn_in_order out_of_turns_in_order)
  moreover have "req \<in> set (invocations (as_trace st))"
    using assms(3) by (auto simp: invocations_def List.map_filter_def intro!: image_eqI [of _ _ "Invoke_Model req"])
  ultimately show ?thesis by (simp add: requests_answered_def)
qed

text \<open>A run that is resumed after a listing and then stops.\<close>

definition listing_tool :: registered_tool where
  "listing_tool = \<lparr>rt_name = ''ls'', rt_version = ''1'', rt_effect_class = ReadOnly, rt_handler = (\<lambda>_. Inr JNull), rt_schema = None,
     rt_description = []\<rparr>"

definition listing_conversation :: "chat_message list" where
  "listing_conversation =
     [user_message ''hi'', assistant_with_tool_calls [] [\<lparr>td_call_id = ''c'', td_name = ''ls'', td_arguments = ''x''\<rparr>],
      tool_result ''c'' [] False]"

lemma listing_answered: "answered listing_conversation"
  unfolding answered_def
  by (intro exI [of _ "[[shape (listing_conversation ! 0)], map shape (tl listing_conversation)]"])
     (simp add: listing_conversation_def shape_def user_message_def assistant_with_tool_calls_def tool_result_def)

definition listing_env :: "nat agent_env" where
  "listing_env =
     \<lparr>ag_stream = (\<lambda>req w. (Inr [Ev_Delta ''ok'', Ev_Completed None], Suc w)),
      ag_registry = (\<lambda>_. [(''ls'', listing_tool)]), ag_ran = (\<lambda>_ _ w. w), ag_kernel = kernel_new [],
      ag_grants = (\<lambda>_. [\<lparr>cg_grant_id = ''g'', cg_tool = ''ls'', cg_effect_class = ReadOnly\<rparr>]), ag_gate = None, ag_control = None,
      ag_max_turns = 1, ag_resume = Some listing_conversation, ag_async = False, ag_delivered = (\<lambda>_. []), ag_de = (\<lambda>_. Inr (JObject [])),
      ag_text = (\<lambda>_. ''null''), ag_sha256_hex = (\<lambda>_. ''h''), ag_manifest_json = (\<lambda>_. []), ag_conversation_json = (\<lambda>_. Inl []),
      ag_run_id = ''r'', ag_turn_id = (\<lambda>_. ''t''), ag_model_step = (\<lambda>_. ''m''), ag_tool_step = (\<lambda>_ _. ''s'')\<rparr>"

definition listing_task :: agent_task where
  "listing_task = \<lparr>gt_task_id = [], gt_objective = [], gt_model = [], gt_provider = [], gt_system_policy = [], gt_workspace_rules = [],
      gt_context_pack = [], gt_model_settings = \<lparr>ms_max_output_tokens = 9, ms_temperature = ''0'', ms_reasoning_effort = None\<rparr>,
      gt_max_input_tokens = 99\<rparr>"

text \<open>A run without controls asks the model at least once.\<close>

definition has_asked :: "'w agent_state \<Rightarrow> bool" where
  "has_asked st \<longleftrightarrow> as_state st = Tn_Streaming \<and> (0 < as_turns_used st \<longrightarrow> invocations (as_trace st) \<noteq> [])"

lemma run_turn_asks:
  assumes "ag_control E = None" and "has_asked st" and "run_turn E task st = (r, st')"
  shows "invocations (as_trace st') \<noteq> [] \<and> (r = None \<longrightarrow> has_asked st')"
proof -
  let ?n = "as_turns_used st + 1"
  let ?st = "compact E task (emit [Turn_Prepared (ag_turn_id E ?n) ?n] (st\<lparr>as_turns_used := ?n\<rparr>))"
  have resp: "respond E task ?st = (r, st')" using assms(1,3) by (simp add: run_turn_def boundary_def Let_def)
  have "as_state ?st = Tn_Streaming" using assms(2) by (simp add: has_asked_def)
  with resp show ?thesis by (cases rule: respond_cases) (auto simp: has_asked_def)
qed

lemma run_asks:
  assumes "ag_control E = None" and "0 < ag_max_turns E" and "agent_run E task w = (r, st)"
  shows "invocations (as_trace st) \<noteq> []"
proof -
  let ?st = "(agent_start E task w)\<lparr>as_state := Tn_Streaming\<rparr>"
  have start: "has_asked ?st" by (auto simp: has_asked_def agent_start_def split: prod.splits)
  have run: "agent_loop E task ?st = (r, st)"
    using assms(3) by (auto simp: agent_run_def move_to_def turn_transition_def agent_start_def split: prod.splits)
  show ?thesis
  proof (rule agent_loop_rule [where P = has_asked and Q = "\<lambda>_ st. invocations (as_trace st) \<noteq> []", OF run start])
    fix st r st'
    assume "has_asked st" "ag_max_turns E \<le> as_turns_used st" "out_of_turns E task st = (r, st')"
    then show "invocations (as_trace st') \<noteq> []"
      using assms(2) by (auto simp: out_of_turns_def move_to_def turn_transition_def has_asked_def)
  qed (use run_turn_asks [OF assms(1)] in blast)+
qed

theorem requests_answer_every_call_witness:
  "\<exists>st req. snd (agent_run listing_env listing_task 0) = st \<and> Invoke_Model req \<in> set (as_trace st) \<and> answered (mq_messages req)"
proof -
  obtain r st where run: "agent_run listing_env listing_task 0 = (r, st)" by (cases "agent_run listing_env listing_task 0")
  have "ag_control listing_env = None" "0 < ag_max_turns listing_env" by (simp_all add: listing_env_def)
  then obtain req where "req \<in> set (invocations (as_trace st))" using run_asks run by (metis last_in_set)
  then have req: "Invoke_Model req \<in> set (as_trace st)"
    by (auto simp: invocations_def List.map_filter_def elim!: invocation.elims)
  have "ag_resume listing_env = Some listing_conversation" by (simp add: listing_env_def)
  then have "answered (mq_messages req)" using requests_answer_every_call [OF _ run req] listing_answered by simp
  then show ?thesis using run req by auto
qed

end
