(* ===== verification/Run_Controls.thy ===== *)
theory Run_Controls
  imports Agent_Properties Store_Registries
begin

text \<open>
  What the scheduler (\<^verbatim>\<open>crates/core-runtime/src/scheduler.rs\<close>) puts around a run: the control surface for stop, pause
  and steer, the grants of the execution modes, the durable approval gate, and the splitting of command lines.
  A signal is shared between the run that polls it and the registry through which it is set, so the signals
  live in a store and the registry has their addresses.
\<close>

section \<open>The control surface\<close>

record run_signal =
  sg_task_id :: string
  sg_cancelled :: bool
  sg_paused :: bool

record run_controls =
  rn_signals :: "run_signal list"
  rn_runs :: "string \<rightharpoonup> nat"
  rn_notes :: "string \<rightharpoonup> string list"

definition controls_new :: run_controls where
  "controls_new = \<lparr>rn_signals = [], rn_runs = Map.empty, rn_notes = Map.empty\<rparr>"

definition controls_register :: "string \<Rightarrow> run_controls \<Rightarrow> nat \<times> run_controls" where
  "controls_register task c =
     (length (rn_signals c),
      c\<lparr>rn_signals := rn_signals c @ [\<lparr>sg_task_id = task, sg_cancelled = False, sg_paused = False\<rparr>],
        rn_runs := (rn_runs c)(task \<mapsto> length (rn_signals c))\<rparr>)"

definition controls_finish :: "string \<Rightarrow> run_controls \<Rightarrow> run_controls" where
  "controls_finish task c = c\<lparr>rn_runs := (rn_runs c)(task := None)\<rparr>"

definition set_signal :: "(run_signal \<Rightarrow> run_signal) \<Rightarrow> string \<Rightarrow> run_controls \<Rightarrow> bool \<times> run_controls" where
  "set_signal f task c =
     (case rn_runs c task of
        None \<Rightarrow> (False, c)
      | Some a \<Rightarrow> (True, c\<lparr>rn_signals := (rn_signals c)[a := f (rn_signals c ! a)]\<rparr>))"

definition controls_cancel :: "string \<Rightarrow> run_controls \<Rightarrow> bool \<times> run_controls" where
  "controls_cancel = set_signal (\<lambda>s. s\<lparr>sg_cancelled := True\<rparr>)"

definition controls_pause :: "string \<Rightarrow> run_controls \<Rightarrow> bool \<times> run_controls" where
  "controls_pause = set_signal (\<lambda>s. s\<lparr>sg_paused := True\<rparr>)"

definition controls_steer :: "string \<Rightarrow> string \<Rightarrow> run_controls \<Rightarrow> run_controls" where
  "controls_steer task note c =
     c\<lparr>rn_notes := (rn_notes c)(task \<mapsto> (case rn_notes c task of None \<Rightarrow> [] | Some q \<Rightarrow> q) @ [note])\<rparr>"

definition signal_cancelled :: "nat \<Rightarrow> run_controls \<Rightarrow> bool" where
  "signal_cancelled a c = sg_cancelled (rn_signals c ! a)"

definition signal_paused :: "nat \<Rightarrow> run_controls \<Rightarrow> bool" where
  "signal_paused a c = sg_paused (rn_signals c ! a)"

definition take_steer_notes :: "nat \<Rightarrow> run_controls \<Rightarrow> string list \<times> run_controls" where
  "take_steer_notes a c =
     (let task = sg_task_id (rn_signals c ! a)
      in case rn_notes c task of
           None \<Rightarrow> ([], c)
         | Some q \<Rightarrow> (q, c\<lparr>rn_notes := (rn_notes c)(task \<mapsto> [])\<rparr>))"

text \<open>What the surface, the scheduler and the runs do with it. A run refers to its signal by address.\<close>

datatype control_op =
  Op_Register string | Op_Finish string | Op_Cancel string | Op_Pause string | Op_Steer string string | Op_Take nat

fun control_step :: "run_controls \<Rightarrow> control_op \<Rightarrow> run_controls" where
  "control_step c (Op_Register t) = snd (controls_register t c)"
| "control_step c (Op_Finish t) = controls_finish t c"
| "control_step c (Op_Cancel t) = snd (controls_cancel t c)"
| "control_step c (Op_Pause t) = snd (controls_pause t c)"
| "control_step c (Op_Steer t n) = controls_steer t n c"
| "control_step c (Op_Take a) = (if a < length (rn_signals c) then snd (take_steer_notes a c) else c)"

text \<open>The notes handed to the runs of a task, and the notes given for it.\<close>

fun taken :: "string \<Rightarrow> run_controls \<Rightarrow> control_op list \<Rightarrow> string list" where
  "taken t c [] = []"
| "taken t c (op # ops) =
     (case op of
        Op_Take a \<Rightarrow> if a < length (rn_signals c) \<and> sg_task_id (rn_signals c ! a) = t then fst (take_steer_notes a c) else []
      | _ \<Rightarrow> []) @ taken t (control_step c op) ops"

fun steered :: "string \<Rightarrow> control_op list \<Rightarrow> string list" where
  "steered t [] = []"
| "steered t (op # ops) = (case op of Op_Steer t' n \<Rightarrow> if t' = t then [n] else [] | _ \<Rightarrow> []) @ steered t ops"

definition waiting_notes :: "string \<Rightarrow> run_controls \<Rightarrow> string list" where
  "waiting_notes t c = (case rn_notes c t of None \<Rightarrow> [] | Some q \<Rightarrow> q)"

lemma waiting_notes_simps [simp]:
  "waiting_notes t (controls_steer t' n c) = waiting_notes t c @ (if t' = t then [n] else [])"
  "waiting_notes t (snd (controls_register t' c)) = waiting_notes t c" "waiting_notes t (controls_finish t' c) = waiting_notes t c"
  "waiting_notes t (snd (controls_cancel t' c)) = waiting_notes t c" "waiting_notes t (snd (controls_pause t' c)) = waiting_notes t c"
  by (simp_all add: waiting_notes_def controls_steer_def controls_register_def controls_finish_def controls_cancel_def
      controls_pause_def set_signal_def split: option.splits)

lemma take_notes:
  "fst (take_steer_notes a c) = waiting_notes (sg_task_id (rn_signals c ! a)) c"
  "waiting_notes t (snd (take_steer_notes a c)) = (if t = sg_task_id (rn_signals c ! a) then [] else waiting_notes t c)"
  by (simp_all add: take_steer_notes_def waiting_notes_def Let_def split: option.splits)

text \<open>No steering note is lost, doubled or reordered: what the runs of a task have taken, followed by what still
  waits, is exactly what was queued for it, in order, whenever runs are registered, finished, stopped or paused.\<close>

lemma steering_notes_are_kept:
  "waiting_notes t c @ steered t ops = taken t c ops @ waiting_notes t (foldl control_step c ops)"
proof (induction ops arbitrary: c)
  case (Cons op ops)
  have "waiting_notes t c @ steered t (op # ops) = taken t c [op] @ waiting_notes t (control_step c op) @ steered t ops"
    by (cases op) (auto simp: take_notes)
  moreover have "taken t c (op # ops) = taken t c [op] @ taken t (control_step c op) ops" by simp
  ultimately show ?case by (simp only: Cons.IH foldl_Cons append_assoc)
qed simp

text \<open>A registry whose entries are addresses of signals of their tasks.\<close>

definition controls_ok :: "run_controls \<Rightarrow> bool" where
  "controls_ok c \<longleftrightarrow> (\<forall>t a. rn_runs c t = Some a \<longrightarrow> a < length (rn_signals c) \<and> sg_task_id (rn_signals c ! a) = t)"

lemma control_step_ok: "controls_ok c \<Longrightarrow> controls_ok (control_step c op)"
  by (cases op) (auto simp: controls_ok_def controls_register_def controls_finish_def controls_cancel_def controls_pause_def
      set_signal_def controls_steer_def take_steer_notes_def nth_append nth_list_update Let_def less_Suc_eq split: option.splits)

interpretation controls: machine control_step controls_ok
  by unfold_locales (rule control_step_ok)

text \<open>Whether a signal is set before its run is finished or replaced.\<close>

fun set_in_time :: "(control_op \<Rightarrow> bool) \<Rightarrow> string \<Rightarrow> control_op list \<Rightarrow> bool" where
  "set_in_time hits t [] = False"
| "set_in_time hits t (op # ops) = (hits op \<or> (op \<noteq> Op_Finish t \<and> op \<noteq> Op_Register t \<and> set_in_time hits t ops))"

lemma detached_signal:
  assumes "controls_ok c" and "a < length (rn_signals c)" and "sg_task_id (rn_signals c ! a) = t" and "rn_runs c t \<noteq> Some a"
  shows "rn_signals (control_step c op) ! a = rn_signals c ! a \<and> a < length (rn_signals (control_step c op))
    \<and> rn_runs (control_step c op) t \<noteq> Some a"
  using assms
  by (cases op) (auto simp: controls_ok_def controls_register_def controls_finish_def controls_cancel_def controls_pause_def
      set_signal_def controls_steer_def take_steer_notes_def nth_append nth_list_update Let_def less_Suc_eq split: option.splits)

lemma detached_run:
  assumes "controls_ok c" and "a < length (rn_signals c)" and "sg_task_id (rn_signals c ! a) = t" and "rn_runs c t \<noteq> Some a"
  shows "rn_signals (foldl control_step c ops) ! a = rn_signals c ! a"
  using assms
proof (induction ops arbitrary: c)
  case (Cons op ops)
  then show ?case using detached_signal [OF Cons.prems, of op] control_step_ok [of c op] by simp
qed simp

lemma attached_signal:
  assumes "controls_ok c" and "rn_runs c t = Some a"
  shows "rn_signals (control_step c op) ! a =
      (if op = Op_Cancel t then (rn_signals c ! a)\<lparr>sg_cancelled := True\<rparr>
       else if op = Op_Pause t then (rn_signals c ! a)\<lparr>sg_paused := True\<rparr> else rn_signals c ! a)
    \<and> a < length (rn_signals (control_step c op))
    \<and> (rn_runs (control_step c op) t = Some a \<longleftrightarrow> op \<noteq> Op_Finish t \<and> op \<noteq> Op_Register t)"
  using assms
  by (cases op) (auto simp: controls_ok_def controls_register_def controls_finish_def controls_cancel_def controls_pause_def
      set_signal_def controls_steer_def take_steer_notes_def nth_append nth_list_update Let_def less_Suc_eq split: option.splits)

lemma attached_run:
  assumes "controls_ok c" and "rn_runs c t = Some a"
  shows "(signal_cancelled a (foldl control_step c ops) \<longleftrightarrow> signal_cancelled a c \<or> set_in_time (\<lambda>op. op = Op_Cancel t) t ops)
    \<and> (signal_paused a (foldl control_step c ops) \<longleftrightarrow> signal_paused a c \<or> set_in_time (\<lambda>op. op = Op_Pause t) t ops)"
  using assms
proof (induction ops arbitrary: c)
  case (Cons op ops)
  let ?c = "control_step c op"
  have ok: "controls_ok ?c" by (rule control_step_ok [OF Cons.prems(1)])
  note step = attached_signal [OF Cons.prems, of op]
  have task: "sg_task_id (rn_signals ?c ! a) = t" using step Cons.prems by (auto simp: controls_ok_def)
  show ?case
  proof (cases "rn_runs ?c t = Some a")
    case True
    then show ?thesis using Cons.IH [OF ok True] step by (auto simp: signal_cancelled_def signal_paused_def split: if_splits)
  next
    case False
    then have "rn_signals (foldl control_step ?c ops) ! a = rn_signals ?c ! a" using detached_run [OF ok _ task] step by blast
    then show ?thesis using False step by (auto simp: signal_cancelled_def signal_paused_def split: if_splits)
  qed
qed simp

text \<open>Stopping or pausing a task reaches exactly the run that is registered for it: whatever happens around it, a
  run sees its signal set if and only if it was set for its task after the run was registered and before it was finished or
  replaced.\<close>

lemma stop_reaches_exactly_its_run:
  assumes "controls_ok c" and "controls_register t c = (a, c')"
  shows "(signal_cancelled a (foldl control_step c' ops) \<longleftrightarrow> set_in_time (\<lambda>op. op = Op_Cancel t) t ops)
    \<and> (signal_paused a (foldl control_step c' ops) \<longleftrightarrow> set_in_time (\<lambda>op. op = Op_Pause t) t ops)"
proof -
  have "controls_ok c'" using control_step_ok [OF assms(1), of "Op_Register t"] assms(2) by simp
  moreover have "rn_runs c' t = Some a" "\<not> signal_cancelled a c'" "\<not> signal_paused a c'"
    using assms(2) by (auto simp: controls_register_def signal_cancelled_def signal_paused_def)
  ultimately show ?thesis using attached_run by blast
qed

lemma stop_reaches_exactly_its_run_witness:
  "(let (a, c) = controls_register ''t'' controls_new;
        c1 = foldl control_step c [Op_Pause ''u'', Op_Finish ''t'', Op_Register ''t'', Op_Cancel ''t'']
    in \<not> signal_cancelled a c1 \<and> signal_cancelled 1 c1)"
proof -
  have ok: "controls_ok controls_new" by (simp add: controls_ok_def controls_new_def)
  obtain a c where r: "controls_register ''t'' controls_new = (a, c)" by (cases "controls_register ''t'' controls_new")
  have "\<not> signal_cancelled a (foldl control_step c [Op_Pause ''u'', Op_Finish ''t'', Op_Register ''t'', Op_Cancel ''t''])"
    using stop_reaches_exactly_its_run [OF ok r, of "[Op_Pause ''u'', Op_Finish ''t'', Op_Register ''t'', Op_Cancel ''t'']"] by simp
  moreover have "signal_cancelled 1 (foldl control_step (snd (controls_register ''t'' controls_new))
      [Op_Pause ''u'', Op_Finish ''t'', Op_Register ''t'', Op_Cancel ''t''])"
    by (simp add: controls_register_def controls_new_def controls_pause_def controls_cancel_def controls_finish_def
        set_signal_def signal_cancelled_def)
  ultimately show ?thesis using r by simp
qed

section \<open>Grants\<close>

definition worktree_grants :: "capability_grant list" where
  "worktree_grants =
     map (\<lambda>(i, t, c). \<lparr>cg_grant_id = i, cg_tool = t, cg_effect_class = c\<rparr>)
       [(''g-fs-read'', ''fs.read'', ReadOnly), (''g-fs-list'', ''fs.list'', ReadOnly), (''g-grep'', ''search.grep'', ReadOnly),
        (''g-context-query'', ''context.query'', ReadOnly), (''g-search-symbol'', ''search.symbol'', ReadOnly),
        (''g-external-list'', ''external.list'', ReadOnly), (''g-external-call'', ''external.call'', External),
        (''g-git-status'', ''git.status'', ReadOnly), (''g-git-diff'', ''git.diff'', ReadOnly),
        (''g-change-propose'', ''change.propose'', ReadOnly), (''g-change-apply'', ''change.apply'', Write),
        (''g-shell-run'', ''shell.run'', External), (''g-test-run'', ''test.run'', External)]"

text \<open>The grants a run starts with in an execution mode.\<close>

definition mode_grants :: "string \<Rightarrow> capability_grant list" where
  "mode_grants mode =
     filter (\<lambda>g. if mode = ''approvals'' then cg_effect_class g = ReadOnly
                 else mode \<noteq> ''readonly'' \<or> cg_effect_class g = ReadOnly) worktree_grants"

section \<open>The approval gate\<close>

text \<open>The durable decision is polled until the gate times out; between two polls others change the database.\<close>

fun await_loop :: "string \<Rightarrow> string \<Rightarrow> ('p db \<Rightarrow> 'p db) list \<Rightarrow> 'p db \<Rightarrow> string option \<times> 'p db" where
  "await_loop task intent [] d = (None, d)"
| "await_loop task intent (m # ms) d =
     (let d1 = m d
      in case decision_for d1 task intent of
           Some s \<Rightarrow> if s = ''approved'' \<or> s = ''denied'' then (Some s, d1) else await_loop task intent ms d1
         | None \<Rightarrow> await_loop task intent ms d1)"

record 'p gate_world =
  gw_db :: "'p db"
  gw_grants :: "capability_grant list"

definition request_persisted ::
  "string \<Rightarrow> string \<Rightarrow> string \<Rightarrow> (json \<Rightarrow> string) \<Rightarrow> string \<Rightarrow> string \<Rightarrow> json \<Rightarrow> 'p db \<Rightarrow> 'p db" where
  "request_persisted task approval_id now to_text intent tool args =
     approval_insert
       \<lparr>pa_approval_id = approval_id, pa_task_id = task, pa_intent_hash = intent, pa_tool = tool,
        pa_scope = to_text (json_object [(''intent_hash'', JString intent), (''arguments'', args)]), pa_state = ''pending'',
        pa_created_at = now\<rparr>"

definition await_decision ::
  "string \<Rightarrow> string \<Rightarrow> string \<Rightarrow> (json \<Rightarrow> string) \<Rightarrow> ('p db \<Rightarrow> 'p db) list \<Rightarrow> string \<Rightarrow> string \<Rightarrow> json \<Rightarrow> 'p gate_world \<Rightarrow>
   string option \<times> 'p gate_world" where
  "await_decision task approval_id now to_text polls intent tool args w =
     (case await_loop task intent polls (request_persisted task approval_id now to_text intent tool args (gw_db w)) of
        (r, d) \<Rightarrow>
          (r, if r = Some ''approved''
              then w\<lparr>gw_db := d, gw_grants := gw_grants w @
                     [\<lparr>cg_grant_id = ''g-approval-'' @ approval_id, cg_tool = tool, cg_effect_class = Write\<rparr>,
                      \<lparr>cg_grant_id = ''g-approval-'' @ approval_id @ ''-ext'', cg_tool = tool, cg_effect_class = External\<rparr>]\<rparr>
              else w\<lparr>gw_db := d\<rparr>))"

text \<open>The requests that reach the gate of a run one after the other, each with what others do to the database while it is polled, and
  the tools whose requests were approved.\<close>

record 'p gate_request =
  gq_approval_id :: string
  gq_now :: string
  gq_polls :: "('p db \<Rightarrow> 'p db) list"
  gq_intent :: string
  gq_tool :: string
  gq_arguments :: json

fun gate_run ::
  "string \<Rightarrow> (json \<Rightarrow> string) \<Rightarrow> 'p gate_request list \<Rightarrow> 'p gate_world \<Rightarrow> string list \<times> 'p gate_world" where
  "gate_run task to_text [] w = ([], w)"
| "gate_run task to_text (q # qs) w =
     (case await_decision task (gq_approval_id q) (gq_now q) to_text (gq_polls q) (gq_intent q) (gq_tool q) (gq_arguments q) w of
        (r, w1) \<Rightarrow>
          (case gate_run task to_text qs w1 of
             (tools, w2) \<Rightarrow> ((if r = Some ''approved'' then gq_tool q # tools else tools), w2)))"

definition covers :: "capability_grant list \<Rightarrow> string \<Rightarrow> effect_class \<Rightarrow> bool" where
  "covers gs tool c \<longleftrightarrow> (\<exists>g \<in> set gs. cg_tool g = tool \<and> cg_effect_class g = c)"

text \<open>The kernel's objections to the path of a call that does more than read.\<close>

definition path_unobjectionable :: "policy_kernel \<Rightarrow> tool_call_request \<Rightarrow> bool" where
  "path_unobjectionable k r \<longleftrightarrow>
     tr_effect_class r = ReadOnly
     \<or> (case json_str_field ''path'' (tr_arguments r) of
          None \<Rightarrow> True
        | Some path \<Rightarrow> ''..'' \<notin> set (str_split (\<lambda>c. c = CHR ''/'' \<or> c = CHR 0x5C) path)
                     \<and> \<not> list_ex (\<lambda>p. prefix p path) (pk_protected_paths k))"

lemma kernel_check_covers:
  "kernel_check k r gs = Allow \<longleftrightarrow> covers gs (tr_tool r) (tr_effect_class r) \<and> path_unobjectionable k r"
  by (auto simp: kernel_allows_exactly covers_def path_unobjectionable_def list_ex_iff split: option.splits)

lemma await_decision_covers:
  assumes "await_decision task i now tt polls intent tool args w = (r, w')"
  shows "covers (gw_grants w') t c \<longleftrightarrow> covers (gw_grants w) t c \<or> r = Some ''approved'' \<and> t = tool \<and> c \<noteq> ReadOnly"
  using assms by (cases c) (auto simp: await_decision_def covers_def split: prod.splits if_splits)

lemma gate_run_covers:
  "gate_run task tt qs w = (tools, w') \<Longrightarrow>
   covers (gw_grants w') t c \<longleftrightarrow> covers (gw_grants w) t c \<or> t \<in> set tools \<and> c \<noteq> ReadOnly"
proof (induction task tt qs w arbitrary: tools w' rule: gate_run.induct)
  case (2 task tt q qs w)
  obtain r w1 where ad: "await_decision task (gq_approval_id q) (gq_now q) tt (gq_polls q) (gq_intent q) (gq_tool q)
      (gq_arguments q) w = (r, w1)" by fastforce
  obtain tools' where rest: "gate_run task tt qs w1 = (tools', w')"
    and tools: "tools = (if r = Some ''approved'' then gq_tool q # tools' else tools')"
    using "2.prems" ad by (auto split: prod.splits)
  from "2.IH" [OF ad [symmetric] rest] await_decision_covers [OF ad] tools show ?case by auto
qed simp


definition approve_all :: "'p db \<Rightarrow> 'p db" where
  "approve_all d = d\<lparr>t_approvals := map (\<lambda>r. r\<lparr>ap_state := ''approved''\<rparr>) (t_approvals d)\<rparr>"

definition two_requests :: "unit gate_request list" where
  "two_requests =
     [\<lparr>gq_approval_id = ''a'', gq_now = ''1'', gq_polls = [\<lambda>d. d, approve_all], gq_intent = ''h'', gq_tool = ''shell.run'',
       gq_arguments = JString ''ls''\<rparr>,
      \<lparr>gq_approval_id = ''b'', gq_now = ''2'', gq_polls = [\<lambda>d. d], gq_intent = ''i'', gq_tool = ''change.apply'',
       gq_arguments = JString ''p''\<rparr>]"


section \<open>What a run may execute\<close>

fun tool_run :: "run_call \<Rightarrow> (string \<times> json) option" where
  "tool_run (Run_Tool n a) = Some (n, a)"
| "tool_run _ = None"

definition tool_runs :: "run_call list \<Rightarrow> (string \<times> json) list" where
  "tool_runs tr = List.map_filter tool_run tr"

lemma tool_runs_simps [simp]:
  "tool_runs [] = []" "tool_runs (c # tr) = (case tool_run c of Some r \<Rightarrow> r # tool_runs tr | None \<Rightarrow> tool_runs tr)"
  "tool_runs (xs @ ys) = tool_runs xs @ tool_runs ys"
  by (simp_all add: tool_runs_def List.map_filter_def split: option.splits)

lemma tool_runs_usage [simp]: "tool_runs (map (Usage_Recorded m) us) = []"
  by (induction us) simp_all

lemma quiet_stages [simp]:
  "tool_runs (as_trace (compact E task st)) = tool_runs (as_trace st)"
  "tool_runs (as_trace (checkpoint_turn E st)) = tool_runs (as_trace st)"
  by (auto simp: compact_def take_plan_def use_plan_def spawn_worker_def checkpoint_turn_def Let_def
      split: option.splits prod.splits if_splits sum.splits)

lemma boundary_quiet: "boundary E task st = (r, st') \<Longrightarrow> tool_runs (as_trace st') = tool_runs (as_trace st)"
  by (auto simp: boundary_def Let_def split: option.splits prod.splits if_splits)

lemma invoke_quiet: "invoke_model E task st = (r, st') \<Longrightarrow> tool_runs (as_trace st') = tool_runs (as_trace st)"
  by (auto simp: invoke_model_def Let_def split: prod.splits sum.splits)

text \<open>A call that was allowed, by the kernel or at the gate.\<close>

definition permitted :: "'w agent_env \<Rightarrow> string \<times> json \<Rightarrow> bool" where
  "permitted E = (\<lambda>(n, a). \<exists>w w'. decide_call E
     \<lparr>tr_tool = n, tr_effect_class = effect_class_of n (ag_registry E w), tr_arguments = a\<rparr> w = (Allow, w'))"

lemma run_call_permitted:
  "list_all (permitted E) (tool_runs (as_trace st)) \<Longrightarrow> list_all (permitted E) (tool_runs (as_trace (run_call_with E pos c args st)))"
  by (auto simp: run_call_with_def handler_runs_def permitted_def Let_def split: prod.splits)
     (metis is_allow.elims(2))

lemma answer_calls_permitted:
  "list_all (permitted E) (tool_runs (as_trace st)) \<Longrightarrow>
     list_all (permitted E) (tool_runs (as_trace (answer_calls E req pos calls st)))"
  by (induction calls arbitrary: pos st) (auto simp: run_call_permitted split: option.splits)

lemma respond_permitted:
  assumes "respond E task st = (r, st')" and "list_all (permitted E) (tool_runs (as_trace st))"
  shows "list_all (permitted E) (tool_runs (as_trace st'))"
proof -
  obtain x st1 where i: "invoke_model E task st = (x, st1)" by (cases "invoke_model E task st")
  have t1: "list_all (permitted E) (tool_runs (as_trace st1))" using invoke_quiet [OF i] assms(2) by simp
  show ?thesis
  proof (cases x)
    case (Inr evs)
    obtain q st2 where p: "parse_events E task evs (\<lparr>pt_text = [], pt_issued = [], pt_requested = []\<rparr>, st1) = (q, st2)"
      by (cases "parse_events E task evs (\<lparr>pt_text = [], pt_issued = [], pt_requested = []\<rparr>, st1)")
    then have "list_all (permitted E) (tool_runs (as_trace st2))" using parse_events_trace [OF p] t1 by auto
    then show ?thesis using assms(1) i Inr p
      by (auto simp: respond_def complete_run_def execute_turn_def move_to_def Let_def answer_calls_permitted
          split: sum.splits if_splits)
  qed (use assms(1) i t1 in \<open>simp add: respond_def\<close>)
qed

lemma run_turn_permitted:
  assumes "list_all (permitted E) (tool_runs (as_trace st))" and "run_turn E task st = (r, st')"
  shows "list_all (permitted E) (tool_runs (as_trace st'))"
  using assms
  by (auto simp: run_turn_def Let_def dest!: boundary_quiet elim!: respond_permitted split: prod.splits option.splits)

lemma run_permitted:
  assumes "agent_run E task w = (r, st)"
  shows "list_all (permitted E) (tool_runs (as_trace st))"
proof -
  let ?st = "(agent_start E task w)\<lparr>as_state := Tn_Streaming\<rparr>"
  have start: "list_all (permitted E) (tool_runs (as_trace ?st))" by (auto simp: agent_start_def split: prod.splits)
  have run: "agent_loop E task ?st = (r, st)"
    using assms by (auto simp: agent_run_def move_to_def turn_transition_def agent_start_def split: prod.splits)
  show ?thesis
  proof (rule agent_loop_rule [where P = "\<lambda>st. list_all (permitted E) (tool_runs (as_trace st))"
        and Q = "\<lambda>_ st. list_all (permitted E) (tool_runs (as_trace st))", OF run start])
    fix st r st' assume "list_all (permitted E) (tool_runs (as_trace st))" "out_of_turns E task st = (r, st')"
    then show "list_all (permitted E) (tool_runs (as_trace st'))"
      by (auto simp: out_of_turns_def move_to_def split: sum.splits)
  qed (blast intro: run_turn_permitted)+
qed

text \<open>C17: a run in the read-only mode only reads: whatever the model asks for, every tool whose handler runs is
  registered as a reader.\<close>
theorem readonly_run_only_reads:
  assumes "ag_gate E = None" and "\<forall>w. ag_grants E w = mode_grants ''readonly''" and "\<forall>w. ag_registry E w = tools"
    and "agent_run E task w = (r, st)" and "Run_Tool n args \<in> set (as_trace st)"
  shows "effect_class_of n tools = ReadOnly"
proof -
  have "(n, args) \<in> set (tool_runs (as_trace st))"
    using assms(5) by (auto simp: tool_runs_def List.map_filter_def intro!: image_eqI [of _ _ "Run_Tool n args"])
  then obtain v v' where "decide_call E
      \<lparr>tr_tool = n, tr_effect_class = effect_class_of n (ag_registry E v), tr_arguments = args\<rparr> v = (Allow, v')"
    using run_permitted [OF assms(4)] by (auto simp: list_all_iff permitted_def)
  then have "kernel_check (ag_kernel E) \<lparr>tr_tool = n, tr_effect_class = effect_class_of n tools, tr_arguments = args\<rparr>
      (mode_grants ''readonly'') = Allow"
    using assms(1-3) by (simp add: decide_call_def split: policy_decision.splits)
  then obtain g where "g \<in> set (mode_grants ''readonly'')" "cg_effect_class g = effect_class_of n tools"
    by (auto simp: kernel_check_def list_ex_iff split: option.splits if_splits)
  then show ?thesis by (simp add: mode_grants_def)
qed

text \<open>A model that reads a file, in one turn.\<close>

definition reading_tool :: registered_tool where
  "reading_tool = \<lparr>rt_name = ''fs.read'', rt_version = ''1'', rt_effect_class = ReadOnly, rt_handler = (\<lambda>_. Inr JNull), rt_schema = None,
     rt_description = []\<rparr>"

definition reading_env :: "unit agent_env" where
  "reading_env = 
     \<lparr>ag_stream = (\<lambda>req w. (Inr [Ev_ToolRequest ''c'' ''fs.read'' [], Ev_Completed None], w)),
      ag_registry = (\<lambda>_. [(''fs.read'', reading_tool)]), ag_ran = (\<lambda>_ _ w. w), ag_kernel = kernel_new [],
      ag_grants = (\<lambda>_. mode_grants ''readonly''), ag_gate = None, ag_control = None, ag_max_turns = 1, ag_resume = None,
      ag_async = False, ag_delivered = (\<lambda>_. []), ag_de = (\<lambda>_. Inr (JObject [])), ag_text = (\<lambda>_. []),
      ag_sha256_hex = (\<lambda>_. []), ag_manifest_json = (\<lambda>_. []), ag_conversation_json = (\<lambda>_. Inl []),
      ag_run_id = [], ag_turn_id = (\<lambda>_. []), ag_model_step = (\<lambda>_. []), ag_tool_step = (\<lambda>_ _. [])\<rparr>"

definition reading_task :: agent_task where
  "reading_task = listing_task\<lparr>gt_max_input_tokens := 1000\<rparr>"

lemma reading_fields:
  "ag_stream reading_env req w = (Inr [Ev_ToolRequest ''c'' ''fs.read'' [], Ev_Completed None], w)"
  "ag_registry reading_env w = [(''fs.read'', reading_tool)]" "ag_grants reading_env w = mode_grants ''readonly''"
  "ag_gate reading_env = None" "ag_control reading_env = None" "ag_max_turns reading_env = 1" "ag_resume reading_env = None"
  "\<not> ag_async reading_env" "ag_delivered reading_env n = []" "ag_de reading_env s = Inr (JObject [])" "ag_kernel reading_env = kernel_new []"
  "ag_conversation_json reading_env c = Inl []"
  by (simp_all add: reading_env_def)

lemma estimate_le_length: "estimate_tokens t \<le> length t"
proof -
  have "length (utf8_chars t) \<le> length t"
  proof (induction t rule: utf8_chars.induct)
    case (2 c cs)
    then show ?case using length_dropWhile_le [of is_continuation cs] by simp
  qed simp
  then show ?thesis by (auto simp: estimate_tokens_def char_count_def)
qed

lemma compact_idle:
  assumes "\<not> ag_async E" and "as_slot st = None" and "as_workers st = []"
    and "sum_list (map (\<lambda>m. length (ch_content m)) (as_conversation st)) \<le> gt_max_input_tokens task"
  shows "compact E task st = st"
proof -
  have "sum_list (map item_tokens (conversation_view st)) \<le> sum_list (map (\<lambda>m. length (ch_content m)) (as_conversation st))"
    unfolding conversation_view_def map_map by (intro sum_list_mono) (simp add: item_tokens_def item_of_def estimate_le_length)
  then have "plan_compaction (conversation_view st) (gt_max_input_tokens task) = None"
    using assms(4) by (simp add: plan_compaction_def)
  then show ?thesis using assms(1-3) by (simp add: compact_def spawn_worker_def fold_deliver_none take_plan_def)
qed

lemma reading_runs: "Run_Tool ''fs.read'' (JObject []) \<in> set (as_trace (snd (agent_run reading_env reading_task ())))"
proof -
  let ?E = reading_env
  let ?st = "(agent_start ?E reading_task ())\<lparr>as_state := Tn_Streaming\<rparr>"
  let ?st1 = "emit [Turn_Prepared (ag_turn_id ?E 1) 1] (?st\<lparr>as_turns_used := 1\<rparr>)"
  have "length (pm_compiled (compiled_task ?E reading_task)) \<le> 1000"
    by (simp add: compiled_task_def compile_prompt_def prompt_segments_def reading_task_def listing_task_def)
  then have idle: "compact ?E reading_task ?st1 = ?st1"
    by (intro compact_idle) (auto simp: agent_start_def start_conversation_def reading_fields reading_task_def user_message_def split: prod.splits)
  have start: "as_turns_used ?st = 0" "as_state ?st = Tn_Streaming" by (auto simp: agent_start_def split: prod.splits)
  have "run_turn ?E reading_task ?st = respond ?E reading_task ?st1"
    using start idle by (simp add: run_turn_def boundary_def reading_fields Let_def)
  moreover obtain r st2 where resp: "respond ?E reading_task ?st1 = (r, st2)" by (cases "respond ?E reading_task ?st1")
  have "r = None \<and> Run_Tool ''fs.read'' (JObject []) \<in> set (as_trace st2)"
    using resp start
    by (auto simp: respond_def invoke_model_def assembler_new_def reading_fields note_call_def valid_payload_def execute_turn_def move_to_def
        turn_transition_def run_call_with_def decide_call_def effect_class_of_def list_tools_def bt_values_def reading_tool_def
        kernel_check_def path_denial_def mode_grants_def worktree_grants_def handler_runs_def bt_get_def Let_def
        checkpoint_turn_def split: prod.splits if_splits)
  moreover have "agent_run ?E reading_task () = agent_loop ?E reading_task ?st"
    by (simp add: agent_run_def move_to_def turn_transition_def agent_start_def split: prod.splits)
  ultimately show ?thesis using start resp run_turn_counts [of ?E reading_task ?st r st2]
    by (auto simp: agent_loop.simps [of ?E reading_task ?st] agent_loop.simps [of ?E reading_task st2] reading_fields
        out_of_turns_def move_to_def split: sum.splits)
qed

theorem readonly_run_only_reads_witness:
  "\<exists>st. snd (agent_run reading_env reading_task ()) = st \<and> Run_Tool ''fs.read'' (JObject []) \<in> set (as_trace st)
     \<and> effect_class_of ''fs.read'' [(''fs.read'', reading_tool)] = ReadOnly"
proof -
  obtain r st where run: "agent_run reading_env reading_task () = (r, st)" by (cases "agent_run reading_env reading_task ()")
  have "effect_class_of ''fs.read'' [(''fs.read'', reading_tool)] = ReadOnly"
    by (rule readonly_run_only_reads [OF _ _ _ run, of _ _ "JObject []"]) (use reading_runs run in \<open>simp_all add: reading_fields\<close>)
  then show ?thesis using run reading_runs by auto
qed

end
