(* ===== verification/Run_Plane.thy ===== *)
theory Run_Plane
  imports Run_Controls Command_Processor
begin

text \<open>
  What the scheduler (\<^verbatim>\<open>crates/core-runtime/src/scheduler.rs\<close>) writes: the observer that turns the calls of a run into
  events under the lease of the session, the reading of briefs and checkpoints back from the store, the transition of the task
  from the outcome of its run, and the overlay of stored settings. The database can fail to take an event. Fresh
  identifiers and times are arguments.
\<close>

section \<open>The run plane\<close>

record run_plane =
  rp_run :: "uuid option"
  rp_sequences :: "string \<rightharpoonup> nat"
  rp_lease :: "(string \<times> string) option"
  rp_fenced :: bool
  rp_cancelled :: bool
  rp_pending :: "domain_event list"

definition plane_new :: "(string \<times> string) option \<Rightarrow> run_plane" where
  "plane_new lease = \<lparr>rp_run = None, rp_sequences = Map.empty, rp_lease = lease, rp_fenced = False, rp_cancelled = False, rp_pending = []\<rparr>"

definition queue_run_event :: "domain_event \<Rightarrow> run_plane \<Rightarrow> run_plane" where
  "queue_run_event payload rp = rp\<lparr>rp_pending := rp_pending rp @ [payload]\<rparr>"

text \<open>What accompanies an append: the identifier and the time of the event, an identifier in place of one that does not
  parse, and whether the database fails.\<close>

record stamp =
  sp_event_id :: string
  sp_now :: string
  sp_generated :: uuid
  sp_fault :: "store_error option"

text \<open>Only the message of a stale lease has the words \<open>stale lease\<close>.\<close>

fun is_stale_lease :: "store_error \<Rightarrow> bool" where
  "is_stale_lease (StaleLease _ _) = True"
| "is_stale_lease _ = False"

definition append_fenced :: "'p ext \<Rightarrow> stamp \<Rightarrow> event_envelope \<Rightarrow> run_plane \<times> 'p db \<Rightarrow> run_plane \<times> 'p db" where
  "append_fenced X s e =
     (\<lambda>(rp, d).
        let outcome = (case sp_fault s of
              Some err \<Rightarrow> Inl err
            | None \<Rightarrow> (case rp_lease rp of
                  Some (sid, lid) \<Rightarrow> append_with_lease X sid lid [e] d
                | None \<Rightarrow> Event_Store.append X [e] d))
        in case outcome of
             Inr d' \<Rightarrow> (rp, d')
           | Inl err \<Rightarrow> (if is_stale_lease err then rp\<lparr>rp_fenced := True, rp_cancelled := True\<rparr> else rp, d))"

definition plane_envelope :: "'p ext \<Rightarrow> stamp \<Rightarrow> uuid \<Rightarrow> aggregate_type \<Rightarrow> string \<Rightarrow> domain_event \<Rightarrow> nat \<Rightarrow> event_envelope" where
  "plane_envelope X s session ty agg payload n =
     (let u = (case x_parse_uuid X agg of Some u \<Rightarrow> u | None \<Rightarrow> sp_generated s)
      in sealed_at X n
           ((envelope_for ty agg session payload (sp_event_id s) (sp_now s))
              \<lparr>ev_run_id := (if ty = Agg_Run then Some u else None), ev_turn_id := (if ty = Agg_Turn then Some u else None),
               ev_step_id := (if ty = Agg_Run \<or> ty = Agg_Turn then None else Some u),
               ev_actor := \<lparr>actor_kind = Actor_System, actor_name = ''scheduler''\<rparr>\<rparr>))"

text \<open>The sequence number is reserved before the event is appended.\<close>

definition plane_append ::
  "'p ext \<Rightarrow> stamp \<Rightarrow> uuid \<Rightarrow> aggregate_type \<Rightarrow> string \<Rightarrow> domain_event \<Rightarrow> run_plane \<times> 'p db \<Rightarrow> run_plane \<times> 'p db" where
  "plane_append X s session ty agg payload =
     (\<lambda>(rp, d).
        let n = (case rp_sequences rp agg of Some n \<Rightarrow> n | None \<Rightarrow> 1)
        in append_fenced X s (plane_envelope X s session ty agg payload n)
             (rp\<lparr>rp_sequences := (rp_sequences rp)(agg \<mapsto> n + 1)\<rparr>, d))"

text \<open>The events that are appended for a call of the run; the first call also flushes what was queued before the run.\<close>

fun observed :: "'p ext \<Rightarrow> uuid \<Rightarrow> uuid \<Rightarrow> run_plane \<Rightarrow> run_call \<Rightarrow> (aggregate_type \<times> string \<times> domain_event) list" where
  "observed X gen task rp (Run_Started r attempt) =
     (case x_parse_uuid X r of
        None \<Rightarrow> []
      | Some u \<Rightarrow> (Agg_Run, r, RunStarted task attempt) # map (\<lambda>p. (Agg_Run, u, p)) (rp_pending rp))"
| "observed X gen task rp (Turn_Prepared t n) =
     [(Agg_Turn, t, TurnPrepared (case rp_run rp of Some u \<Rightarrow> u | None \<Rightarrow> gen) n)]"
| "observed X gen task rp (Model_Invoke_Started t s) =
     (case x_parse_uuid X t of None \<Rightarrow> [] | Some u \<Rightarrow> [(Agg_RunStep, s, RunStepPrepared u St_ModelInvoke 0)])"
| "observed X gen task rp (Model_Invoke_Finished t s usage) = [(Agg_RunStep, s, RunStepCompleted)]"
| "observed X gen task rp (Tool_Step_Started t s c n) =
     (case x_parse_uuid X t of None \<Rightarrow> [] | Some u \<Rightarrow> [(Agg_RunStep, s, RunStepPrepared u St_ToolCall 0)])"
| "observed X gen task rp (Tool_Step_Finished t s c n okay) =
     [(Agg_RunStep, s, if okay then RunStepCompleted else RunStepFailed ''tool_refused_or_failed'')]"
| "observed X gen task rp (Turn_Completed t) = [(Agg_Turn, t, TurnCompleted)]"
| "observed X gen task rp (Turn_Failed t code) = [(Agg_Turn, t, TurnFailed code)]"
| "observed X gen task rp (Run_Completed r) = [(Agg_Run, r, RunCompleted)]"
| "observed X gen task rp (Run_Failed r code) = [(Agg_Run, r, RunFailed code)]"
| "observed X gen task rp (Compaction_Applied t e n k m) =
     (case x_parse_uuid X t of
        None \<Rightarrow> []
      | Some u \<Rightarrow> [(Agg_Run, case rp_run rp of Some r \<Rightarrow> r | None \<Rightarrow> gen, CompactionApplied u e n k m)])"
| "observed X gen task rp (Conversation_Checkpointed r n j) = [(Agg_Run, r, ConversationCheckpointed n j)]"
| "observed X gen task rp (Invoke_Model _) = []"
| "observed X gen task rp (Usage_Recorded _ _) = []"
| "observed X gen task rp (Run_Tool _ _) = []"

definition note_run :: "'p ext \<Rightarrow> run_call \<Rightarrow> run_plane \<Rightarrow> run_plane" where
  "note_run X c rp =
     (case c of
        Run_Started r _ \<Rightarrow> (case x_parse_uuid X r of None \<Rightarrow> rp | Some u \<Rightarrow> rp\<lparr>rp_run := Some u, rp_pending := []\<rparr>)
      | _ \<Rightarrow> rp)"

fun append_all ::
  "'p ext \<Rightarrow> uuid \<Rightarrow> (stamp \<times> aggregate_type \<times> string \<times> domain_event) list \<Rightarrow> run_plane \<times> 'p db \<Rightarrow> run_plane \<times> 'p db" where
  "append_all X session [] w = w"
| "append_all X session ((s, ty, agg, payload) # es) w = append_all X session es (plane_append X s session ty agg payload w)"

definition observe ::
  "'p ext \<Rightarrow> uuid \<Rightarrow> uuid \<Rightarrow> uuid \<Rightarrow> run_call \<times> stamp list \<Rightarrow> run_plane \<times> 'p db \<Rightarrow> run_plane \<times> 'p db" where
  "observe X gen session task =
     (\<lambda>(c, ss) (rp, d). append_all X session (zip ss (observed X gen task rp c)) (note_run X c rp, d))"

section \<open>Reading back\<close>

record task_brief =
  br_session_id :: uuid
  br_title :: string
  br_prompt :: string
  br_repo_id :: "string option"
  br_base_branch :: "string option"

fun brief_of :: "domain_event \<Rightarrow> task_brief option" where
  "brief_of (TaskCreated s title prompt repo branch parent) =
     Some \<lparr>br_session_id = s, br_title = title, br_prompt = prompt, br_repo_id = repo, br_base_branch = branch\<rparr>"
| "brief_of _ = None"

definition read_task_brief :: "'p ext \<Rightarrow> (store_error \<Rightarrow> string) \<Rightarrow> 'p db \<Rightarrow> string \<Rightarrow> (string, task_brief) result" where
  "read_task_brief X show_error d task =
     and_then (map_err show_error (load X d task)) (\<lambda>es.
       case List.map_filter (\<lambda>e. brief_of (ev_payload e)) es of
         b # _ \<Rightarrow> Inr b | [] \<Rightarrow> Inl (''task '' @ task @ '' has no TaskCreated event''))"

definition starts_run_of :: "string \<Rightarrow> domain_event \<Rightarrow> bool" where
  "starts_run_of task p = (case p of RunStarted t _ \<Rightarrow> t = task | _ \<Rightarrow> False)"

definition task_has_run :: "'p ext \<Rightarrow> 'p db \<Rightarrow> string \<Rightarrow> bool" where
  "task_has_run X d task =
     list_ex (\<lambda>r. case load X d (row_aggregate_id r) of Inr (e # _) \<Rightarrow> starts_run_of task (ev_payload e) | _ \<Rightarrow> False)
       (filter (\<lambda>r. row_aggregate_type r = ''run'' \<and> row_sequence r = 1) (t_events d))"

definition interrupted_tasks :: "'p db \<Rightarrow> string list" where
  "interrupted_tasks d = map tk_task_id (filter (\<lambda>r. tk_state r = ''running'') (t_tasks d))"

text \<open>The newest checkpoint of the runs of a task: the highest sequence number first.\<close>

definition checkpoint_rows :: "'p ext \<Rightarrow> 'p db \<Rightarrow> string \<Rightarrow> 'p event_row list" where
  "checkpoint_rows X d task =
     (let runs = map row_aggregate_id (filter (\<lambda>r. row_event_type r = ''run_started''
             \<and> (case x_de_event X (row_payload r) of Some p \<Rightarrow> starts_run_of task p | None \<Rightarrow> False)) (t_events d))
      in sort_key (\<lambda>r. - int (row_sequence r))
           (filter (\<lambda>r. row_event_type r = ''conversation_checkpointed'' \<and> row_aggregate_id r \<in> set runs) (t_events d)))"

definition load_latest_checkpoint ::
  "'p ext \<Rightarrow> (string \<Rightarrow> chat_message list option) \<Rightarrow> 'p db \<Rightarrow> string \<Rightarrow> chat_message list option" where
  "load_latest_checkpoint X de d task =
     (case checkpoint_rows X d task of
        [] \<Rightarrow> None
      | r # _ \<Rightarrow> (case x_de_event X (row_payload r) of Some (ConversationCheckpointed _ j) \<Rightarrow> de j | _ \<Rightarrow> None))"

section \<open>After the run\<close>

definition tail_chars :: "string \<Rightarrow> nat \<Rightarrow> string" where
  "tail_chars s n = concat (rev (take n (rev (utf8_chars s))))"

text \<open>The command that moves the task; none when the surface has already moved it.\<close>

definition settle :: "uuid \<Rightarrow> bool \<Rightarrow> (agent_error, agent_run_result) result \<Rightarrow> command_payload option" where
  "settle task signalled r =
     (case r of
        Inr res \<Rightarrow>
          if ar_cancelled res \<or> ar_paused res then None
          else if ar_final_state res = Tn_Completed then Some (TaskReadyForReviewCmd task)
          else Some (FailTask task ''run_exhausted'' (tail_chars (ar_assembled_text res) 500))
      | Inl _ \<Rightarrow> if signalled then None else Some (TaskWaitingCmd task Wr_Provider))"

definition settle_run ::
  "'p ext \<Rightarrow> fresh \<Rightarrow> string \<Rightarrow> uuid \<Rightarrow> bool \<Rightarrow> (agent_error, agent_run_result) result \<Rightarrow> 'p db \<Rightarrow>
   (string, unit) result \<times> 'p db" where
  "settle_run X f command_id task signalled r d =
     (case settle task signalled r of
        None \<Rightarrow> (Inr (), d)
      | Some payload \<Rightarrow>
          (case execute X f \<lparr>cmd_id = command_id, cmd_actor = \<lparr>actor_kind = Actor_System, actor_name = ''scheduler''\<rparr>,
                              cmd_payload = payload\<rparr> d of
             (Rejected reason, d') \<Rightarrow> (Inl (''task transition rejected: '' @ reason), d')
           | (_, d') \<Rightarrow> (Inr (), d')))"

section \<open>Settings\<close>

record run_config =
  cf_provider :: provider
  cf_model :: string
  cf_base_url :: "string option"
  cf_max_turns :: nat

definition overlay_settings :: "json option \<Rightarrow> run_config \<Rightarrow> run_config \<times> string" where
  "overlay_settings doc cfg =
     (let field = (\<lambda>k. Option.bind doc (json_get k));
          str = (\<lambda>k. Option.bind (field k) as_str);
          provider = (case str ''provider'' of
              Some v \<Rightarrow> if v = ''anthropic'' then Anthropic else if v = ''openai'' then OpenAi else cf_provider cfg
            | None \<Rightarrow> cf_provider cfg);
          model = (case str ''model'' of Some m \<Rightarrow> if m = [] then cf_model cfg else m | None \<Rightarrow> cf_model cfg);
          base = (case str ''base_url'' of Some b \<Rightarrow> if b = [] then cf_base_url cfg else Some b | None \<Rightarrow> cf_base_url cfg);
          turns = (case Option.bind (field ''max_turns'') as_u64 of
              Some t \<Rightarrow> if 0 < t then as_u32 t else cf_max_turns cfg | None \<Rightarrow> cf_max_turns cfg)
      in (\<lparr>cf_provider = provider, cf_model = model, cf_base_url = base, cf_max_turns = turns\<rparr>,
          case str ''execution_mode'' of Some m \<Rightarrow> m | None \<Rightarrow> ''default''))"

section \<open>Command lines\<close>

record word_state =
  sw_words :: "string list"
  sw_current :: string
  sw_single :: bool
  sw_double :: bool
  sw_started :: bool

definition split_char :: "word_state \<Rightarrow> char \<Rightarrow> word_state" where
  "split_char st c =
     (if c = CHR 0x27 \<and> \<not> sw_double st then st\<lparr>sw_single := \<not> sw_single st, sw_started := True\<rparr>
      else if c = CHR 0x22 \<and> \<not> sw_single st then st\<lparr>sw_double := \<not> sw_double st, sw_started := True\<rparr>
      else if is_space c \<and> \<not> sw_single st \<and> \<not> sw_double st
      then (if sw_started st then st\<lparr>sw_words := sw_words st @ [sw_current st], sw_current := [], sw_started := False\<rparr> else st)
      else st\<lparr>sw_current := sw_current st @ [c], sw_started := True\<rparr>)"

definition split_shell_words :: "string \<Rightarrow> (string, string list) result" where
  "split_shell_words command =
     (let st = foldl split_char \<lparr>sw_words = [], sw_current = [], sw_single = False, sw_double = False, sw_started = False\<rparr> command
      in if sw_single st \<or> sw_double st then Inl ''unterminated quote in argv string''
         else Inr (if sw_started st then sw_words st @ [sw_current st] else sw_words st))"

section \<open>What is lost and what is kept\<close>

lemma plane_append_out_of_step:
  assumes "rp_sequences rp agg = Some n" and "next_sequence d agg < n"
  shows "snd (plane_append X s session ty agg p (rp, d)) = d
    \<and> rp_sequences (fst (plane_append X s session ty agg p (rp, d))) agg = Some (n + 1)"
proof -
  have "ev_sequence (plane_envelope X s session ty agg p n) = n" "ev_aggregate_id (plane_envelope X s session ty agg p n) = agg"
    by (simp_all add: plane_envelope_def sealed_at_def seal_def envelope_for_def Let_def)
  then show ?thesis using assms
    by (auto simp: plane_append_def append_fenced_def append_with_lease_def Event_Store.append_def Let_def
        split: option.splits prod.splits sum.splits)
qed

lemma append_all_out_of_step:
  "rp_sequences rp agg = Some n \<Longrightarrow> next_sequence d agg < n \<Longrightarrow>
     snd (append_all X session (map (\<lambda>(s, ty, p). (s, ty, agg, p)) es) (rp, d)) = d"
proof (induction es arbitrary: rp n)
  case (Cons e es)
  obtain s ty p where e: "e = (s, ty, p)" by (cases e)
  obtain rp1 d1 where st: "plane_append X s session ty agg p (rp, d) = (rp1, d1)" by (cases "plane_append X s session ty agg p (rp, d)")
  have "d1 = d" "rp_sequences rp1 agg = Some (n + 1)"
    using plane_append_out_of_step [OF Cons.prems, of X s session ty p] st by simp_all
  then show ?case using Cons.IH [of rp1 "n + 1"] Cons.prems(2) e st by simp
qed simp

text \<open>One event of a run that the database fails to take silences the rest of the run: the number it had
  reserved leaves a gap, and every later event of that run is refused, its end included.\<close>

lemma lost_event_silences_run:
  assumes "rp_sequences rp agg = Some (next_sequence d agg)" and "sp_fault s = Some err"
  shows "snd (append_all X session ((s, ty, agg, p) # map (\<lambda>(s, ty, p). (s, ty, agg, p)) es) (rp, d)) = d"
proof -
  obtain rp1 where "plane_append X s session ty agg p (rp, d) = (rp1, d)" "rp_sequences rp1 agg = Some (next_sequence d agg + 1)"
    using assms by (auto simp: plane_append_def append_fenced_def Let_def)
  then show ?thesis using append_all_out_of_step [of rp1 agg "next_sequence d agg + 1" d X session es] by simp
qed

text \<open>A store that keeps events as they are.\<close>

definition plain_ext :: "domain_event ext" where
  "plain_ext = \<lparr>x_ser_event = (\<lambda>e. e), x_de_event = Some, x_de_envelope = (\<lambda>_. None), x_parse_uuid = Some, x_hash_env = (\<lambda>_. []),
     x_show_sql = (\<lambda>_. []), x_serde_error = (\<lambda>_. []), x_uuid_error = (\<lambda>_. []), x_parse_int_error = (\<lambda>_. [])\<rparr>"

definition plain_stamp :: "string \<Rightarrow> store_error option \<Rightarrow> stamp" where
  "plain_stamp i f = \<lparr>sp_event_id = i, sp_now = [], sp_generated = [], sp_fault = f\<rparr>"

lemma lost_event_silences_run_witness:
  "snd (append_all plain_ext ''s''
     [(plain_stamp ''1'' (Some (IoError ''disk'')), Agg_Run, ''r'', RunStarted ''t'' 1), (plain_stamp ''2'' None, Agg_Run, ''r'', RunCompleted)]
     ((plane_new None)\<lparr>rp_sequences := [''r'' \<mapsto> 1]\<rparr>, empty_db :: domain_event db)) = empty_db"
  using lost_event_silences_run [of "(plane_new None)\<lparr>rp_sequences := [''r'' \<mapsto> 1]\<rparr>" "''r''" "empty_db :: domain_event db"
      "plain_stamp ''1'' (Some (IoError ''disk''))" "IoError ''disk''" plain_ext "''s''" Agg_Run "RunStarted ''t'' 1"
      "[(plain_stamp ''2'' None, Agg_Run, RunCompleted)]"]
  by (simp add: plain_stamp_def next_sequence_def max_sequence_def stream_def empty_db_def)

text \<open>The rows of two runs of one task.\<close>

definition two_attempts :: "domain_event db" where
  "two_attempts = snd (append_all plain_ext ''s''
     [(plain_stamp ''1'' None, Agg_Run, ''r1'', RunStarted ''t'' 1), (plain_stamp ''2'' None, Agg_Run, ''r1'', ConversationCheckpointed 1 ''a''),
      (plain_stamp ''3'' None, Agg_Run, ''r1'', ConversationCheckpointed 2 ''ab''),
      (plain_stamp ''4'' None, Agg_Run, ''r2'', RunStarted ''t'' 1), (plain_stamp ''5'' None, Agg_Run, ''r2'', ConversationCheckpointed 1 ''abc'')]
     (plane_new None, empty_db))"

text \<open>The checkpoint a task is resumed from is not the newest: numbers of different runs are compared, so after a
  second attempt with fewer turns the conversation of the first attempt is taken up again.\<close>

lemma resume_goes_back_to_older_run:
  "map row_event_id (t_events two_attempts) = [''1'', ''2'', ''3'', ''4'', ''5'']
    \<and> load_latest_checkpoint plain_ext (\<lambda>j. Some [user_message j]) two_attempts ''t'' = Some [user_message ''ab'']"
  by code_simp

section \<open>Quoted words\<close>

definition quoted :: "string \<Rightarrow> string" where
  "quoted w = [CHR 0x27] @ w @ [CHR 0x27]"

lemma split_quoted_body:
  "CHR 0x27 \<notin> set w \<Longrightarrow> sw_single st \<Longrightarrow> \<not> sw_double st \<Longrightarrow> sw_started st \<Longrightarrow>
     foldl split_char st w = st\<lparr>sw_current := sw_current st @ w\<rparr>"
proof (induction w arbitrary: st)
  case (Cons c w)
  have "split_char st c = st\<lparr>sw_current := sw_current st @ [c]\<rparr>" using Cons.prems by (auto simp: split_char_def)
  then show ?case using Cons by simp
qed simp

lemma split_quoted:
  assumes "CHR 0x27 \<notin> set w" and "\<not> sw_single st" and "\<not> sw_double st"
  shows "foldl split_char st (quoted w) = st\<lparr>sw_current := sw_current st @ w, sw_single := False, sw_started := True\<rparr>"
  using assms split_quoted_body [OF assms(1), of "st\<lparr>sw_single := True, sw_started := True\<rparr>"]
  by (simp add: quoted_def split_char_def [of st] split_char_def [of _ "CHR 0x27"])

lemma split_blank:
  assumes "\<not> sw_single st" and "\<not> sw_double st" and "sw_started st"
  shows "split_char st CHR '' '' = st\<lparr>sw_words := sw_words st @ [sw_current st], sw_current := [], sw_started := False\<rparr>"
  using assms by (simp add: split_char_def is_space_def)

lemma split_words_join:
  assumes "\<forall>w \<in> set ws. CHR 0x27 \<notin> set w" and "ws \<noteq> []"
  shows "foldl split_char \<lparr>sw_words = pre, sw_current = [], sw_single = False, sw_double = False, sw_started = False\<rparr>
      (str_join '' '' (map quoted ws)) =
    \<lparr>sw_words = pre @ butlast ws, sw_current = last ws, sw_single = False, sw_double = False, sw_started = True\<rparr>"
  using assms
proof (induction ws arbitrary: pre)
  case (Cons w ws)
  show ?case
  proof (cases ws)
    case Nil
    then show ?thesis using Cons.prems by (simp add: split_quoted)
  next
    case (Cons v vs)
    then show ?thesis using Cons.prems Cons.IH [of "pre @ [w]"] by (simp add: split_quoted split_blank)
  qed
qed simp

text \<open>Quoting is undone: any words without single quotes, empty words and words with blanks included, that are put
  in single quotes and joined by blanks are split into exactly these words.\<close>

lemma quoted_words_are_split_back:
  assumes "\<forall>w \<in> set ws. CHR 0x27 \<notin> set w"
  shows "split_shell_words (str_join '' '' (map quoted ws)) = Inr ws"
proof (cases "ws = []")
  case False
  then show ?thesis using split_words_join [OF assms False, of "[]"] by (simp add: split_shell_words_def)
qed (simp add: split_shell_words_def)

lemma quoted_words_are_split_back_witness:
  "split_shell_words (str_join '' '' (map quoted [''a b'', [], ''c''])) = Inr [''a b'', [], ''c'']"
  by (rule quoted_words_are_split_back) simp

end
