(* ===== verification/Frame_Protocol.thy ===== *)
theory Frame_Protocol
  imports Rust_Text Fallible "HOL-Library.Word"
begin

text \<open>
  The local transport of \<^verbatim>\<open>crates/protocol/src/transport.rs\<close>: length-prefixed frames over a byte stream, the handshake
  in which both sides prove that they hold the boot secret, and the loop that serves an authenticated connection.
  A stream is what its reads will return, in pieces of any size, and what was written to it; reads and writes can fail.
  The generated message codec, HMAC-SHA256 and the random nonces are parameters.
\<close>

unbundle bit_operations_syntax

type_synonym u32 = "32 word"

definition PROTOCOL_MAJOR :: u32 where "PROTOCOL_MAJOR = 1"
definition PROTOCOL_MINOR :: u32 where "PROTOCOL_MINOR = 0"
definition SERVER_VERSION :: string where "SERVER_VERSION = ''modbit-core 0.1.0''"
definition MAX_FRAME_BYTES :: u32 where "MAX_FRAME_BYTES = 8 * 1024 * 1024"

section \<open>Bytes and hexadecimal text\<close>

definition be_bytes :: "u32 \<Rightarrow> string" where
  "be_bytes w = map (\<lambda>k. char_of (unat (drop_bit k w))) [24, 16, 8, 0]"

definition from_be_bytes :: "string \<Rightarrow> u32" where
  "from_be_bytes s = of_nat (foldl (\<lambda>a c. a * 256 + of_char c) 0 s)"

definition hex_byte :: "char \<Rightarrow> string" where
  "hex_byte c = (let n = (of_char c :: nat) in [hex_digit (n div 16), hex_digit (n mod 16)])"

definition hex_encode :: "string \<Rightarrow> string" where
  "hex_encode bytes = concat (map hex_byte bytes)"

definition hex_value :: "char \<Rightarrow> nat option" where
  "hex_value c =
     (let n = (of_char c :: nat) in
      if 48 \<le> n \<and> n \<le> 57 then Some (n - 48)
      else if 97 \<le> n \<and> n \<le> 102 then Some (n - 87)
      else if 65 \<le> n \<and> n \<le> 70 then Some (n - 55) else None)"

text \<open>\<open>u8::from_str_radix(_, 16)\<close>: a leading plus sign is accepted.\<close>

fun hex_digits :: "nat \<Rightarrow> string \<Rightarrow> nat option" where
  "hex_digits acc [] = Some acc"
| "hex_digits acc (c # cs) =
     (case hex_value c of None \<Rightarrow> None
      | Some d \<Rightarrow> if acc * 16 + d > 255 then None else hex_digits (acc * 16 + d) cs)"

definition parse_hex_u8 :: "string \<Rightarrow> nat option" where
  "parse_hex_u8 s =
     (let t = (case s of [] \<Rightarrow> [] | c # r \<Rightarrow> if c = CHR ''+'' \<and> r \<noteq> [] then r else s)
      in if t = [] then None else hex_digits 0 t)"

text \<open>
  Pairs of digits are sliced out of the text one after the other; a slice inside a character is a panic, and the
  first pair that is no number ends the loop.
\<close>

fun decode_pairs :: "string \<Rightarrow> nat \<Rightarrow> nat \<Rightarrow> (string, string option) result" where
  "decode_pairs s i 0 = Inr (Some [])"
| "decode_pairs s i (Suc n) =
     (if \<not> char_boundary s i \<or> \<not> char_boundary s (i + 2) then Inl ''byte index is not a char boundary''
      else case parse_hex_u8 (take 2 (drop i s)) of
             None \<Rightarrow> Inr None
           | Some b \<Rightarrow> and_then (decode_pairs s (i + 2) n) (\<lambda>r. Inr (map_option (\<lambda>bs. char_of b # bs) r)))"

definition secret_from_hex :: "string \<Rightarrow> (string, string option) result" where
  "secret_from_hex s = (if length s \<noteq> 64 then Inr None else decode_pairs s 0 32)"

definition hex_decode :: "string \<Rightarrow> (string, string option) result" where
  "hex_decode s = (if length s mod 2 \<noteq> 0 then Inr None else decode_pairs s 0 (length s div 2))"

section \<open>Streams and frames\<close>

datatype transport_error =
    Te_Io string
  | Te_AuthRejected string
  | Te_FrameTooLarge u32
  | Te_Protocol string

text \<open>
  The reads still to come: a piece, of which one call takes as much as it asked for, or an error. An exhausted stream
  reads as zero bytes. Writes go through until the room, if there is a limit, is used up.
\<close>

datatype read_item = Chunk string | Read_Error string

record wire =
  wi_in :: "read_item list"
  wi_out :: string
  wi_room :: "(nat \<times> string) option"
  wi_flush :: "string option"

definition wire_read :: "nat \<Rightarrow> (wire, string, string) act" where
  "wire_read n w =
     (case wi_in w of
        [] \<Rightarrow> (Inr [], w)
      | Read_Error e # r \<Rightarrow> (Inl e, w\<lparr>wi_in := r\<rparr>)
      | Chunk c # r \<Rightarrow> (Inr (take n c), w\<lparr>wi_in := (if length c \<le> n then r else Chunk (drop n c) # r)\<rparr>))"

definition write_all :: "string \<Rightarrow> (wire, string, unit) act" where
  "write_all bs w =
     (case wi_room w of
        None \<Rightarrow> (Inr (), w\<lparr>wi_out := wi_out w @ bs\<rparr>)
      | Some (k, e) \<Rightarrow>
          if length bs \<le> k then (Inr (), w\<lparr>wi_out := wi_out w @ bs, wi_room := Some (k - length bs, e)\<rparr>)
          else (Inl e, w\<lparr>wi_out := wi_out w @ take k bs, wi_room := Some (0, e)\<rparr>))"

definition wire_flush :: "(wire, string, unit) act" where
  "wire_flush w = ((case wi_flush w of None \<Rightarrow> Inr () | Some e \<Rightarrow> Inl e), w)"

definition write_frame :: "string \<Rightarrow> (wire, transport_error, unit) act" where
  "write_frame payload =
     (let len = (of_nat (length payload) :: u32) in
      if length payload \<ge> 2 ^ 32 then act_fail (Te_FrameTooLarge len)
      else if len > MAX_FRAME_BYTES then act_fail (Te_FrameTooLarge len)
      else act_err Te_Io (act_then (write_all (be_bytes len)) (\<lambda>_. act_then (write_all payload) (\<lambda>_. wire_flush))))"

lemma wire_read_length: "wire_read n w = (Inr bs, w') \<Longrightarrow> length bs \<le> n"
  by (auto simp: wire_read_def split: list.splits read_item.splits)

function read_exact_n :: "nat \<Rightarrow> (wire, transport_error, string) act" where
  "read_exact_n n w =
     (if n = 0 then (Inr [], w)
      else case wire_read n w of
             (Inl e, w') \<Rightarrow> (Inl (Te_Io e), w')
           | (Inr bs, w') \<Rightarrow>
               if bs = [] then (Inl (Te_Protocol ''peer closed mid-frame''), w')
               else case read_exact_n (n - length bs) w' of
                      (Inl e, w'') \<Rightarrow> (Inl e, w'')
                    | (Inr cs, w'') \<Rightarrow> (Inr (bs @ cs), w''))"
  by pat_completeness auto
termination
  by (relation "measure fst") auto

declare read_exact_n.simps [simp del]

definition read_frame :: "(wire, transport_error, string) act" where
  "read_frame =
     act_then (read_exact_n 4) (\<lambda>len_bytes.
       let len = from_be_bytes len_bytes in
       if len > MAX_FRAME_BYTES then act_fail (Te_FrameTooLarge len) else read_exact_n (unat len))"

section \<open>The handshake\<close>

record hello =
  he_proof :: string
  he_client_nonce :: string
  he_major :: u32
  he_minor :: u32

record auth_result =
  ar_ok :: bool
  ar_read_only :: bool
  ar_negotiated_major :: u32
  ar_negotiated_minor :: u32
  ar_server_version :: string
  ar_error :: string

text \<open>The codec of the generated messages: a parameter with, as its contract, that messages are read back.\<close>

record codec =
  enc_challenge :: "string \<Rightarrow> string"
  dec_challenge :: "string \<Rightarrow> (string, string) result"
  enc_hello :: "hello \<Rightarrow> string"
  dec_hello :: "string \<Rightarrow> (string, hello) result"
  enc_auth :: "auth_result \<Rightarrow> string"
  dec_auth :: "string \<Rightarrow> (string, auth_result) result"

definition codec_ok :: "codec \<Rightarrow> bool" where
  "codec_ok C \<longleftrightarrow> (\<forall>n. dec_challenge C (enc_challenge C n) = Inr n) \<and> (\<forall>h. dec_hello C (enc_hello C h) = Inr h)
     \<and> (\<forall>a. dec_auth C (enc_auth C a) = Inr a)"

type_synonym mac_fn = "string \<Rightarrow> string \<Rightarrow> string"

definition proof_data :: "string \<Rightarrow> string \<Rightarrow> u32 \<Rightarrow> u32 \<Rightarrow> string" where
  "proof_data server_nonce client_nonce major minor = server_nonce @ client_nonce @ be_bytes major @ be_bytes minor"

definition hmac_proof :: "mac_fn \<Rightarrow> string \<Rightarrow> string \<Rightarrow> string \<Rightarrow> u32 \<Rightarrow> u32 \<Rightarrow> string" where
  "hmac_proof mac secret server_nonce client_nonce major minor = mac secret (proof_data server_nonce client_nonce major minor)"

definition auth_refused :: auth_result where
  "auth_refused = \<lparr>ar_ok = False, ar_read_only = False, ar_negotiated_major = 0, ar_negotiated_minor = 0,
     ar_server_version = SERVER_VERSION, ar_error = ''boot secret proof mismatch''\<rparr>"

definition auth_accepted :: "u32 \<Rightarrow> u32 \<Rightarrow> auth_result" where
  "auth_accepted major minor = \<lparr>ar_ok = True, ar_read_only = (major \<noteq> PROTOCOL_MAJOR), ar_negotiated_major = PROTOCOL_MAJOR,
     ar_negotiated_minor = min minor PROTOCOL_MINOR, ar_server_version = SERVER_VERSION, ar_error = []\<rparr>"

definition handshake_stream ::
  "codec \<Rightarrow> mac_fn \<Rightarrow> string \<Rightarrow> (string, string) result \<Rightarrow> (wire, transport_error, bool \<times> bool \<times> (u32 \<times> u32)) act" where
  "handshake_stream C mac secret random_nonce =
     (case random_nonce of
        Inl e \<Rightarrow> act_fail (Te_Io e)
      | Inr server_nonce \<Rightarrow>
          act_then (write_frame (enc_challenge C server_nonce)) (\<lambda>_.
          act_then read_frame (\<lambda>hello_bytes.
            case dec_hello C hello_bytes of
              Inl e \<Rightarrow> act_fail (Te_Protocol (''bad Hello: '' @ e))
            | Inr h \<Rightarrow>
                if hmac_proof mac secret server_nonce (he_client_nonce h) (he_major h) (he_minor h) \<noteq> he_proof h
                then act_then (write_frame (enc_auth C auth_refused)) (\<lambda>_.
                       act_fail (Te_AuthRejected ''boot secret proof mismatch''))
                else act_then (write_frame (enc_auth C (auth_accepted (he_major h) (he_minor h)))) (\<lambda>_.
                       act_return (True, he_major h \<noteq> PROTOCOL_MAJOR, (PROTOCOL_MAJOR, min (he_minor h) PROTOCOL_MINOR))))))"

record connection =
  cn_read_only :: bool
  cn_negotiated :: "u32 \<times> u32"

definition accept_stream ::
  "codec \<Rightarrow> mac_fn \<Rightarrow> string \<Rightarrow> (string, string) result \<Rightarrow> (wire, transport_error, connection) act" where
  "accept_stream C mac secret random_nonce =
     act_then (handshake_stream C mac secret random_nonce) (\<lambda>(accepted, read_only, negotiated).
       if \<not> accepted then act_fail (Te_AuthRejected ''handshake rejected'')
       else act_return \<lparr>cn_read_only = read_only, cn_negotiated = negotiated\<rparr>)"

text \<open>The client side up to the verdict of the server, which both ways of connecting share.\<close>

definition client_handshake ::
  "codec \<Rightarrow> mac_fn \<Rightarrow> string \<Rightarrow> (string, string) result \<Rightarrow> u32 \<Rightarrow> u32 \<Rightarrow> (wire, transport_error, auth_result) act" where
  "client_handshake C mac secret random_nonce major minor =
     act_then read_frame (\<lambda>challenge_bytes.
       case dec_challenge C challenge_bytes of
         Inl e \<Rightarrow> act_fail (Te_Protocol (''bad Challenge: '' @ e))
       | Inr server_nonce \<Rightarrow>
           (case random_nonce of
              Inl e \<Rightarrow> act_fail (Te_Io e)
            | Inr client_nonce \<Rightarrow>
                act_then (write_frame (enc_hello C
                  \<lparr>he_proof = hmac_proof mac secret server_nonce client_nonce major minor,
                   he_client_nonce = client_nonce, he_major = major, he_minor = minor\<rparr>)) (\<lambda>_.
                act_then read_frame (\<lambda>result_bytes.
                  case dec_auth C result_bytes of
                    Inl e \<Rightarrow> act_fail (Te_Protocol (''bad AuthResult: '' @ e))
                  | Inr res \<Rightarrow> if \<not> ar_ok res then act_fail (Te_AuthRejected (ar_error res)) else act_return res))))"

definition connect_with_version ::
  "codec \<Rightarrow> mac_fn \<Rightarrow> string \<Rightarrow> (string, string) result \<Rightarrow> u32 \<Rightarrow> u32 \<Rightarrow> (wire, transport_error, connection) act" where
  "connect_with_version C mac secret random_nonce major minor =
     act_map (\<lambda>res. \<lparr>cn_read_only = ar_read_only res, cn_negotiated = (ar_negotiated_major res, ar_negotiated_minor res)\<rparr>)
       (client_handshake C mac secret random_nonce major minor)"

definition connect ::
  "codec \<Rightarrow> mac_fn \<Rightarrow> string \<Rightarrow> (string, string) result \<Rightarrow> (wire, transport_error, connection) act" where
  "connect C mac secret random_nonce = connect_with_version C mac secret random_nonce PROTOCOL_MAJOR PROTOCOL_MINOR"

definition over_stream ::
  "codec \<Rightarrow> mac_fn \<Rightarrow> string \<Rightarrow> (string, string) result \<Rightarrow> (wire, transport_error, connection) act" where
  "over_stream C mac secret random_nonce =
     act_map (\<lambda>res. \<lparr>cn_read_only = False, cn_negotiated = (PROTOCOL_MAJOR, ar_negotiated_minor res)\<rparr>)
       (client_handshake C mac secret random_nonce PROTOCOL_MAJOR PROTOCOL_MINOR)"

section \<open>Serving a connection\<close>

text \<open>What the reads still hold; every frame that is read makes it smaller.\<close>

definition in_size :: "wire \<Rightarrow> nat" where
  "in_size w = sum_list (map (\<lambda>i. case i of Chunk c \<Rightarrow> Suc (length c) | Read_Error _ \<Rightarrow> 1) (wi_in w))"

lemma wire_read_size: "wire_read n w = (Inr bs, w') \<Longrightarrow> bs \<noteq> [] \<Longrightarrow> in_size w' < in_size w"
  by (auto simp: wire_read_def in_size_def split: list.splits read_item.splits if_splits)

lemma read_exact_size:
  "read_exact_n n w = (Inr bs, w') \<Longrightarrow> in_size w' \<le> in_size w \<and> (0 < n \<longrightarrow> in_size w' < in_size w)"
proof (induction n w arbitrary: bs w' rule: read_exact_n.induct)
  case (1 n w)
  show ?case
  proof (cases "n = 0")
    case True
    then show ?thesis using "1.prems" by (simp add: read_exact_n.simps)
  next
    case False
    then obtain cs w1 where r: "wire_read n w = (Inr cs, w1)" "cs \<noteq> []"
      using "1.prems" by (auto simp: read_exact_n.simps [of n] split: prod.splits sum.splits if_splits)
    then obtain ds where "read_exact_n (n - length cs) w1 = (Inr ds, w')"
      using "1.prems" False by (auto simp: read_exact_n.simps [of n] split: prod.splits sum.splits if_splits)
    then have "in_size w' \<le> in_size w1" using "1.IH" False r by auto
    then show ?thesis using wire_read_size [OF r] by simp
  qed
qed

lemma read_frame_size: "read_frame w = (Inr p, w') \<Longrightarrow> in_size w' < in_size w"
  by (auto simp: read_frame_def act_then_cases Let_def act_fail_def split: if_splits dest!: read_exact_size)

lemma write_all_in: "write_all bs w = (r, w') \<Longrightarrow> wi_in w' = wi_in w"
  by (auto simp: write_all_def split: option.splits if_splits)

lemma write_frame_in: "write_frame p w = (r, w') \<Longrightarrow> wi_in w' = wi_in w"
  by (auto simp: write_frame_def Let_def act_err_def act_then_cases act_fail_def wire_flush_def
      split: prod.splits if_splits dest!: write_all_in)

lemma write_frame_size: "write_frame p w = (r, w') \<Longrightarrow> in_size w' = in_size w"
  by (simp add: in_size_def write_frame_in)

text \<open>
  The loop of one connection after its handshake. The handler may change a state of its own. The verdict of the
  handshake is not looked at beyond its success.
\<close>

function serve_frames :: "('s \<Rightarrow> string \<Rightarrow> string \<times> 's) \<Rightarrow> 's \<Rightarrow> wire \<Rightarrow> 's \<times> wire" where
  "serve_frames handler s w =
     (case read_frame w of
        (Inl e, w') \<Rightarrow> (s, w')
      | (Inr request, w') \<Rightarrow>
          (case handler s request of
             (response, s') \<Rightarrow>
               (case write_frame response w' of
                  (Inl e, w'') \<Rightarrow> (s', w'')
                | (Inr _, w'') \<Rightarrow> serve_frames handler s' w'')))"
  by pat_completeness auto
termination
  by (relation "measure (\<lambda>(_, _, w). in_size w)")
    (auto dest!: sym [of "(Inr _, _)"] read_frame_size write_frame_size)

declare serve_frames.simps [simp del]

definition serve_connection ::
  "codec \<Rightarrow> mac_fn \<Rightarrow> string \<Rightarrow> (string, string) result \<Rightarrow> ('s \<Rightarrow> string \<Rightarrow> string \<times> 's) \<Rightarrow> 's \<Rightarrow> wire \<Rightarrow> 's \<times> wire" where
  "serve_connection C mac secret random_nonce handler s w =
     (case handshake_stream C mac secret random_nonce w of
        (Inl e, w') \<Rightarrow> (s, w')
      | (Inr _, w') \<Rightarrow> serve_frames handler s w')"

section \<open>Frames are read as they were written\<close>

text \<open>The reads deliver exactly these bytes, in pieces of any positive size, and then end.\<close>

definition piece :: "read_item \<Rightarrow> string" where
  "piece i = (case i of Chunk c \<Rightarrow> c | Read_Error _ \<Rightarrow> [])"

definition carries :: "string \<Rightarrow> read_item list \<Rightarrow> bool" where
  "carries s items \<longleftrightarrow> (\<forall>i \<in> set items. piece i \<noteq> []) \<and> concat (map piece items) = s"

lemma carries_Nil [simp]: "carries [] items \<longleftrightarrow> items = []"
  by (cases items) (auto simp: carries_def)

lemma carries_Cons:
  assumes "carries s (wi_in w)" and "s \<noteq> []"
  obtains c r where "wi_in w = Chunk c # r" "c \<noteq> []" "carries (drop (length c) s) r" "take (length c) s = c" "length c \<le> length s"
proof (cases "wi_in w")
  case Nil
  then show ?thesis using assms by (simp add: carries_def)
next
  case (Cons i r)
  then obtain c where "i = Chunk c" "c \<noteq> []"
    using assms by (cases i) (auto simp: carries_def piece_def)
  then show ?thesis using that [of c r] Cons assms by (auto simp: carries_def piece_def)
qed

lemma carries_read:
  assumes "carries s (wi_in w)" and "s \<noteq> []" and "0 < n"
  obtains k items where "wire_read n w = (Inr (take k s), w\<lparr>wi_in := items\<rparr>)" "carries (drop k s) items"
    "0 < k" "k \<le> n" "k \<le> length s"
proof -
  obtain c r where c: "wi_in w = Chunk c # r" "c \<noteq> []" "carries (drop (length c) s) r" "take (length c) s = c" "length c \<le> length s"
    using carries_Cons [OF assms(1,2)] by blast
  define k where "k = min n (length c)"
  define items where "items = (if length c \<le> n then r else Chunk (drop n c) # r)"
  have t: "take n c = take k s" using c(4,5) by (metis k_def min.cobounded2 take_take)
  have "carries (drop k s) items"
  proof (cases "length c \<le> n")
    case True
    then show ?thesis using c by (simp add: items_def k_def min_def)
  next
    case False
    have "s = c @ drop (length c) s" using c(4) by (metis append_take_drop_id)
    then have "drop n s = drop n c @ drop (length c) s" using False by (metis drop_append diff_is_0_eq' drop0 linorder_le_cases)
    then show ?thesis using False c(3) by (simp add: items_def k_def min_def carries_def piece_def)
  qed
  moreover have "wire_read n w = (Inr (take k s), w\<lparr>wi_in := items\<rparr>)" by (simp add: wire_read_def c(1) items_def t)
  ultimately show ?thesis using that [of k items] c assms(3) by (simp add: k_def Suc_leI)
qed

lemma read_exact_carries:
  assumes "carries s (wi_in w)" and "n \<le> length s"
  shows "\<exists>items. carries (drop n s) items \<and> read_exact_n n w = (Inr (take n s), w\<lparr>wi_in := items\<rparr>)"
  using assms
proof (induction n arbitrary: s w rule: less_induct)
  case (less n)
  show ?case
  proof (cases "n = 0")
    case True
    then show ?thesis using less.prems by (auto simp: read_exact_n.simps intro!: exI [of _ "wi_in w"])
  next
    case False
    then have "s \<noteq> []" using less.prems by auto
    then obtain k items where k: "wire_read n w = (Inr (take k s), w\<lparr>wi_in := items\<rparr>)" "carries (drop k s) items"
      "0 < k" "k \<le> n" "k \<le> length s"
      using carries_read [OF less.prems(1)] False by blast
    obtain items' where i: "carries (drop (n - k) (drop k s)) items'"
      "read_exact_n (n - k) (w\<lparr>wi_in := items\<rparr>) = (Inr (take (n - k) (drop k s)), w\<lparr>wi_in := items'\<rparr>)"
      using less.IH [of "n - k" "drop k s" "w\<lparr>wi_in := items\<rparr>"] k diff_le_mono [OF less.prems(2), of k] by auto
    have "take k s @ take (n - k) (drop k s) = take n s" using k(4) by (simp add: take_add [symmetric])
    then show ?thesis using i k False less.prems \<open>s \<noteq> []\<close>
      by (auto simp: read_exact_n.simps [of n] min_absorb2 intro!: exI [of _ items'])
  qed
qed

lemma read_exact_short:
  assumes "carries s (wi_in w)" and "length s < n"
  shows "read_exact_n n w = (Inl (Te_Protocol ''peer closed mid-frame''), w\<lparr>wi_in := []\<rparr>)"
  using assms
proof (induction n arbitrary: s w rule: less_induct)
  case (less n)
  show ?case
  proof (cases "s = []")
    case True
    then show ?thesis using less.prems by (simp add: read_exact_n.simps [of n] wire_read_def)
  next
    case False
    then obtain k items where k: "wire_read n w = (Inr (take k s), w\<lparr>wi_in := items\<rparr>)" "carries (drop k s) items"
      "0 < k" "k \<le> n" "k \<le> length s"
      using carries_read [OF less.prems(1)] less.prems(2) by (metis gr_implies_not0 neq0_conv)
    then show ?thesis using less.IH [of "n - k" "drop k s" "w\<lparr>wi_in := items\<rparr>"] less.prems(2) False
      by (simp add: read_exact_n.simps [of n] min_absorb2)
  qed
qed

lemma be_bytes_length [simp]: "length (be_bytes w) = 4"
  by (simp add: be_bytes_def)

lemma from_be_bytes_be_bytes [simp]: "from_be_bytes (be_bytes w) = w"
proof -
  define n where "n = unat w"
  have "unat w < 2 ^ LENGTH(32)" by (rule unsigned_less)
  then have "n < 2 ^ 32" by (simp add: n_def)
  then have m: "n div 16777216 mod 256 = n div 16777216" by simp
  note m
  moreover have "n div 65536 = n div 16777216 * 256 + n div 65536 mod 256"
    using div_mult_mod_eq [of "n div 65536" 256] by (simp add: div_mult2_eq [symmetric])
  moreover have "n div 256 = n div 65536 * 256 + n div 256 mod 256"
    using div_mult_mod_eq [of "n div 256" 256] by (simp add: div_mult2_eq [symmetric])
  moreover have "n = n div 256 * 256 + n mod 256" by simp
  ultimately have "((n div 16777216 mod 256 * 256 + n div 65536 mod 256) * 256 + n div 256 mod 256) * 256 + n mod 256 = n"
    by presburger
  moreover have d: "unat (drop_bit k w) = n div 2 ^ k" for k
    by (subst unat_drop_bit_eq) (simp add: drop_bit_eq_div n_def)
  ultimately have "foldl (\<lambda>a c. a * 256 + of_char c) 0 (be_bytes w) = n"
    by (simp only: be_bytes_def list.map foldl_Cons foldl_Nil of_char_of d) (simp add: m)
  then show ?thesis by (simp add: from_be_bytes_def n_def)
qed

text \<open>A frame on the wire, and the payloads a frame can hold.\<close>

definition frame_of :: "string \<Rightarrow> string" where
  "frame_of p = be_bytes (of_nat (length p)) @ p"

definition fits :: "string \<Rightarrow> bool" where
  "fits p \<longleftrightarrow> length p \<le> unat MAX_FRAME_BYTES"

lemma max_frame [simp]: "unat MAX_FRAME_BYTES = 8388608"
  by (simp add: MAX_FRAME_BYTES_def)

lemma fits_len:
  assumes "fits p"
  shows "length p < 2 ^ 32" and "\<not> MAX_FRAME_BYTES < (of_nat (length p) :: u32)" and "unat (of_nat (length p) :: u32) = length p"
proof -
  show l: "length p < 2 ^ 32" using assms by (simp add: fits_def)
  then show u: "unat (of_nat (length p) :: u32) = length p" by (simp add: unsigned_of_nat take_bit_nat_eq_self)
  show "\<not> MAX_FRAME_BYTES < (of_nat (length p) :: u32)" using assms u by (simp add: fits_def word_less_nat_alt)
qed

text \<open>A stream that takes every write.\<close>

definition writable :: "wire \<Rightarrow> bool" where
  "writable w \<longleftrightarrow> wi_room w = None \<and> wi_flush w = None"

lemma write_frame_ok: "fits p \<Longrightarrow> writable w \<Longrightarrow> write_frame p w = (Inr (), w\<lparr>wi_out := wi_out w @ frame_of p\<rparr>)"
  using fits_len [of p]
  by (simp add: write_frame_def Let_def act_err_def act_then_def write_all_def writable_def wire_flush_def frame_of_def)

lemma read_frame_ok:
  assumes "carries (frame_of p @ rest) (wi_in w)" and "fits p"
  shows "\<exists>items. carries rest items \<and> read_frame w = (Inr p, w\<lparr>wi_in := items\<rparr>)"
proof -
  obtain i1 where i1: "carries (p @ rest) i1" "read_exact_n 4 w = (Inr (be_bytes (of_nat (length p))), w\<lparr>wi_in := i1\<rparr>)"
    using read_exact_carries [OF assms(1), of 4] by (auto simp: frame_of_def)
  obtain i2 where i2: "carries rest i2" "read_exact_n (length p) (w\<lparr>wi_in := i1\<rparr>) = (Inr p, w\<lparr>wi_in := i2\<rparr>)"
    using read_exact_carries [of "p @ rest" "w\<lparr>wi_in := i1\<rparr>" "length p"] i1(1) by auto
  show ?thesis using i1(2) i2 fits_len [OF assms(2)] by (auto simp: read_frame_def act_then_def Let_def)
qed

lemma read_frame_end: "carries [] (wi_in w) \<Longrightarrow> read_frame w = (Inl (Te_Protocol ''peer closed mid-frame''), w)"
  using read_exact_short [of "[]" w 4] by (cases w) (simp add: read_frame_def act_then_def)

fun read_frames :: "nat \<Rightarrow> (wire, transport_error, string list) act" where
  "read_frames 0 w = (Inr [], w)"
| "read_frames (Suc n) w = act_then read_frame (\<lambda>p. act_map (\<lambda>ps. p # ps) (read_frames n)) w"

fun write_frames :: "string list \<Rightarrow> (wire, transport_error, unit) act" where
  "write_frames [] w = (Inr (), w)"
| "write_frames (p # ps) w = act_then (write_frame p) (\<lambda>_. write_frames ps) w"

lemma write_frames_ok:
  "list_all fits ps \<Longrightarrow> writable w \<Longrightarrow> write_frames ps w = (Inr (), w\<lparr>wi_out := wi_out w @ concat (map frame_of ps)\<rparr>)"
  by (induction ps arbitrary: w) (auto simp: write_frame_ok act_then_def writable_def)

lemma read_frames_ok:
  "list_all fits ps \<Longrightarrow> carries (concat (map frame_of ps) @ rest) (wi_in w) \<Longrightarrow>
     \<exists>items. carries rest items \<and> read_frames (length ps) w = (Inr ps, w\<lparr>wi_in := items\<rparr>)"
proof (induction ps arbitrary: w)
  case Nil
  then show ?case by (auto intro!: exI [of _ "wi_in w"])
next
  case (Cons p ps)
  then obtain items where i: "carries (concat (map frame_of ps) @ rest) items" "read_frame w = (Inr p, w\<lparr>wi_in := items\<rparr>)"
    using read_frame_ok [of p "concat (map frame_of ps) @ rest" w] by auto
  then obtain items' where "carries rest items'" "read_frames (length ps) (w\<lparr>wi_in := items\<rparr>) = (Inr ps, w\<lparr>wi_in := items'\<rparr>)"
    using Cons.IH [of "w\<lparr>wi_in := items\<rparr>"] Cons.prems by auto
  then show ?case using i by (auto simp: act_then_def act_map_def act_return_def)
qed

text \<open>C27: framing is undone whatever the pieces: payloads of at most eight megabytes written one after the other are
  read back as the same payloads in the same order, however the transport cuts the bytes, and the next read then
  reports that the peer has closed.\<close>
theorem frames_survive_chunking:
  assumes "list_all fits ps" and "writable w" and "wi_out w = []" and "write_frames ps w = (r, w1)" and "carries (wi_out w1) (wi_in w2)"
  shows "r = Inr () \<and> read_frames (length ps) w2 = (Inr ps, w2\<lparr>wi_in := []\<rparr>)
    \<and> read_frame (w2\<lparr>wi_in := []\<rparr>) = (Inl (Te_Protocol ''peer closed mid-frame''), w2\<lparr>wi_in := []\<rparr>)"
proof -
  have w: "r = Inr ()" "wi_out w1 = concat (map frame_of ps)" using write_frames_ok [OF assms(1,2)] assms(3,4) by auto
  then have "carries (concat (map frame_of ps) @ []) (wi_in w2)" using assms(5) by simp
  then show ?thesis using read_frames_ok [OF assms(1), of "[]" w2] w(1) read_frame_end [of "w2\<lparr>wi_in := []\<rparr>"] by auto
qed

definition wire0 :: "read_item list \<Rightarrow> wire" where
  "wire0 items = \<lparr>wi_in = items, wi_out = [], wi_room = None, wi_flush = None\<rparr>"

theorem frames_survive_chunking_witness:
  "read_frames 2 (wire0 [Chunk [CHR 0x00, CHR 0x00], Chunk [CHR 0x00, CHR 0x02, CHR ''a''], Chunk [CHR ''b'', CHR 0x00, CHR 0x00, CHR 0x00, CHR 0x00]])
    = (Inr [''ab'', []], wire0 [])"
proof -
  have "write_frames [''ab'', []] (wire0 []) = (Inr (), (wire0 [])\<lparr>wi_out := concat (map frame_of [''ab'', []])\<rparr>)"
    by (subst write_frames_ok) (simp_all add: fits_def writable_def wire0_def)
  moreover have "concat (map frame_of [''ab'', []]) = [CHR 0x00, CHR 0x00, CHR 0x00, CHR 0x02, CHR ''a'', CHR ''b'', CHR 0x00, CHR 0x00, CHR 0x00, CHR 0x00]"
    by code_simp
  ultimately show ?thesis
    using frames_survive_chunking [of "[''ab'', []]" "wire0 []" "Inr ()" "(wire0 [])\<lparr>wi_out := concat (map frame_of [''ab'', []])\<rparr>"
        "wire0 [Chunk [CHR 0x00, CHR 0x00], Chunk [CHR 0x00, CHR 0x02, CHR ''a''], Chunk [CHR ''b'', CHR 0x00, CHR 0x00, CHR 0x00, CHR 0x00]]"]
    by (simp add: fits_def writable_def wire0_def carries_def piece_def numeral_2_eq_2)
qed

end
