(* ===== verification/Handshake_Properties.thy ===== *)
theory Handshake_Properties
  imports Frame_Protocol
begin

text \<open>
  Properties of the authenticated transport: both sides of a handshake reach the same verdict, a recorded handshake is of no
  use against a fresh challenge, an authenticated connection answers every request in order, and the boot secret is
  read back from its hexadecimal text.
\<close>

section \<open>Both sides agree\<close>

definition client_hello :: "mac_fn \<Rightarrow> string \<Rightarrow> string \<Rightarrow> string \<Rightarrow> u32 \<Rightarrow> u32 \<Rightarrow> hello" where
  "client_hello mac secret ns nc major minor =
     \<lparr>he_proof = hmac_proof mac secret ns nc major minor, he_client_nonce = nc, he_major = major, he_minor = minor\<rparr>"

lemma client_hello_simps [simp]:
  "he_proof (client_hello mac k ns nc ma mi) = hmac_proof mac k ns nc ma mi"
  "he_client_nonce (client_hello mac k ns nc ma mi) = nc"
  "he_major (client_hello mac k ns nc ma mi) = ma"
  "he_minor (client_hello mac k ns nc ma mi) = mi"
  by (simp_all add: client_hello_def)

text \<open>The verdict of the server on a hello.\<close>

definition verdict :: "mac_fn \<Rightarrow> string \<Rightarrow> string \<Rightarrow> hello \<Rightarrow> auth_result" where
  "verdict mac secret ns h =
     (if hmac_proof mac secret ns (he_client_nonce h) (he_major h) (he_minor h) \<noteq> he_proof h then auth_refused
      else auth_accepted (he_major h) (he_minor h))"

definition verdict_result :: "auth_result \<Rightarrow> (transport_error, bool \<times> bool \<times> (u32 \<times> u32)) result" where
  "verdict_result a =
     (if ar_ok a then Inr (True, ar_read_only a, (ar_negotiated_major a, ar_negotiated_minor a)) else Inl (Te_AuthRejected (ar_error a)))"

text \<open>All messages of a handshake fit into a frame.\<close>

definition messages_fit :: "codec \<Rightarrow> string \<Rightarrow> hello \<Rightarrow> bool" where
  "messages_fit C ns h \<longleftrightarrow> fits (enc_challenge C ns) \<and> fits (enc_hello C h) \<and> fits (enc_auth C auth_refused)
     \<and> fits (enc_auth C (auth_accepted (he_major h) (he_minor h)))"

lemma server_handshake_run:
  assumes "codec_ok C" and "messages_fit C ns h" and "writable w" and "carries (frame_of (enc_hello C h) @ rest) (wi_in w)"
  shows "\<exists>items. carries rest items \<and> handshake_stream C mac secret (Inr ns) w =
    (verdict_result (verdict mac secret ns h),
     w\<lparr>wi_in := items, wi_out := wi_out w @ frame_of (enc_challenge C ns) @ frame_of (enc_auth C (verdict mac secret ns h))\<rparr>)"
proof -
  define w1 where "w1 = w\<lparr>wi_out := wi_out w @ frame_of (enc_challenge C ns)\<rparr>"
  have w1: "write_frame (enc_challenge C ns) w = (Inr (), w1)" "writable w1" "carries (frame_of (enc_hello C h) @ rest) (wi_in w1)"
    using assms write_frame_ok [of "enc_challenge C ns" w] by (auto simp: messages_fit_def w1_def writable_def)
  then obtain items where i: "carries rest items" "read_frame w1 = (Inr (enc_hello C h), w1\<lparr>wi_in := items\<rparr>)"
    using read_frame_ok [of "enc_hello C h" rest w1] assms(2) by (auto simp: messages_fit_def)
  have f: "fits (enc_auth C (verdict mac secret ns h))" using assms(2) by (simp add: messages_fit_def verdict_def)
  have "write_frame (enc_auth C (verdict mac secret ns h)) (w1\<lparr>wi_in := items\<rparr>) =
    (Inr (), w\<lparr>wi_in := items, wi_out := wi_out w @ frame_of (enc_challenge C ns) @ frame_of (enc_auth C (verdict mac secret ns h))\<rparr>)"
    using write_frame_ok [OF f, of "w1\<lparr>wi_in := items\<rparr>"] w1(2) by (simp add: w1_def writable_def)
  then show ?thesis using i w1 assms(1)
    by (auto simp: handshake_stream_def act_then_def codec_ok_def verdict_result_def verdict_def auth_refused_def
        auth_accepted_def act_fail_def act_return_def split: if_splits intro!: exI [of _ items])
qed

lemma client_handshake_writes:
  assumes "codec_ok C" and "messages_fit C ns (client_hello mac k ns nc ma mi)" and "writable w"
    and "carries (frame_of (enc_challenge C ns) @ rest) (wi_in w)"
  shows "\<exists>items. carries rest items \<and> client_handshake C mac k (Inr nc) ma mi w =
    act_then read_frame (\<lambda>result_bytes. case dec_auth C result_bytes of
                    Inl e \<Rightarrow> act_fail (Te_Protocol (''bad AuthResult: '' @ e))
                  | Inr res \<Rightarrow> if \<not> ar_ok res then act_fail (Te_AuthRejected (ar_error res)) else act_return res)
      (w\<lparr>wi_in := items, wi_out := wi_out w @ frame_of (enc_hello C (client_hello mac k ns nc ma mi))\<rparr>)"
proof -
  obtain items where i: "carries rest items" "read_frame w = (Inr (enc_challenge C ns), w\<lparr>wi_in := items\<rparr>)"
    using read_frame_ok [OF assms(4)] assms(2) by (auto simp: messages_fit_def)
  have "write_frame (enc_hello C (client_hello mac k ns nc ma mi)) (w\<lparr>wi_in := items\<rparr>) =
    (Inr (), w\<lparr>wi_in := items, wi_out := wi_out w @ frame_of (enc_hello C (client_hello mac k ns nc ma mi))\<rparr>)"
    using write_frame_ok [of "enc_hello C (client_hello mac k ns nc ma mi)" "w\<lparr>wi_in := items\<rparr>"] assms(2,3)
    by (simp add: messages_fit_def writable_def)
  then show ?thesis using i assms(1)
    by (auto simp: client_handshake_def act_then_def codec_ok_def client_hello_def intro!: exI [of _ items])
qed

lemma wire_read_out: "wire_read n w = (r, w') \<Longrightarrow> wi_out w' = wi_out w"
  by (auto simp: wire_read_def split: list.splits read_item.splits if_splits)

lemma read_exact_out: "wi_out (snd (read_exact_n n w)) = wi_out w"
proof (induction n w rule: read_exact_n.induct)
  case (1 n w)
  obtain r w1 where r: "wire_read n w = (r, w1)" by (cases "wire_read n w")
  have w1: "wi_out w1 = wi_out w" by (rule wire_read_out [OF r])
  show ?case
  proof (cases r)
    case (Inl e)
    then show ?thesis using r w1 by (simp add: read_exact_n.simps [of n])
  next
    case (Inr bs)
    then show ?thesis using r w1 "1.IH" [of r w1 bs]
      by (simp add: read_exact_n.simps [of n] split: prod.split sum.split) auto
  qed
qed

lemma read_frame_out: "read_frame w = (r, w') \<Longrightarrow> wi_out w' = wi_out w"
  using read_exact_out [of _ w] read_exact_out
  by (auto simp: read_frame_def act_then_cases Let_def act_fail_def split: if_splits) (metis snd_conv)+

lemma write_frame_appends:
  assumes "write_frame p w = (r, w')"
  shows "\<exists>x. wi_out w' = wi_out w @ x"
proof -
  have all: "write_all bs v = (q, v') \<Longrightarrow> \<exists>x. wi_out v' = wi_out v @ x" for bs v q v'
    by (auto simp: write_all_def split: option.splits if_splits)
  show ?thesis using assms
    by (auto simp: write_frame_def Let_def act_err_def act_then_cases act_fail_def wire_flush_def split: prod.splits if_splits dest!: all)
qed

lemma server_challenges_first:
  assumes "fits (enc_challenge C ns)" and "writable w" and run: "handshake_stream C mac secret (Inr ns) w = (r, w')"
  shows "\<exists>rest. wi_out w' = wi_out w @ frame_of (enc_challenge C ns) @ rest"
proof -
  define w1 where "w1 = w\<lparr>wi_out := wi_out w @ frame_of (enc_challenge C ns)\<rparr>"
  have w1: "write_frame (enc_challenge C ns) w = (Inr (), w1)" using write_frame_ok [OF assms(1,2)] by (simp add: w1_def)
  obtain q w2 where q: "read_frame w1 = (q, w2)" by (cases "read_frame w1")
  have "\<exists>x. wi_out w' = wi_out w2 @ x"
  proof (cases q)
    case (Inl e)
    then show ?thesis using run w1 q by (simp add: handshake_stream_def act_then_def)
  next
    case (Inr b)
    then show ?thesis using run w1 q
      by (cases "dec_hello C b")
        (auto simp: handshake_stream_def act_then_cases act_fail_def act_return_def split: if_splits dest!: write_frame_appends)
  qed
  then show ?thesis using read_frame_out [OF q] by (auto simp: w1_def)
qed

lemma client_result_out:
  assumes "act_then read_frame (\<lambda>b. case dec_auth C b of Inl e \<Rightarrow> act_fail (g e)
      | Inr res \<Rightarrow> if \<not> ar_ok res then act_fail (h res) else act_return res) w = (r, w')"
  shows "wi_out w' = wi_out w"
proof -
  obtain q w1 where q: "read_frame w = (q, w1)" by (cases "read_frame w")
  then have "w' = w1" using assms
    by (cases q) (auto simp: act_then_def act_fail_def act_return_def split: sum.splits if_splits)
  then show ?thesis using read_frame_out [OF q] by simp
qed

text \<open>C25: the two sides of a handshake, each reading what the other wrote, in any pieces, reach the same verdict: with proofs
  that match, the server accepts and the client learns the same version and the same read-only flag; otherwise both fail
  with the same rejection.\<close>
theorem handshake_agrees:
  assumes "codec_ok C" and "messages_fit C ns (client_hello mac kc ns nc major minor)"
    and "handshake_stream C mac ks (Inr ns) (wire0 si) = (rs, ws)"
    and "connect_with_version C mac kc (Inr nc) major minor (wire0 ci) = (rc, wc)"
    and "carries (wi_out wc) si" and "carries (wi_out ws) ci"
  shows "if mac ks (proof_data ns nc major minor) = mac kc (proof_data ns nc major minor)
    then rs = Inr (True, major \<noteq> PROTOCOL_MAJOR, (PROTOCOL_MAJOR, min minor PROTOCOL_MINOR))
       \<and> rc = Inr \<lparr>cn_read_only = (major \<noteq> PROTOCOL_MAJOR), cn_negotiated = (PROTOCOL_MAJOR, min minor PROTOCOL_MINOR)\<rparr>
    else rs = Inl (Te_AuthRejected ''boot secret proof mismatch'') \<and> rc = Inl (Te_AuthRejected ''boot secret proof mismatch'')"
proof -
  let ?h = "client_hello mac kc ns nc major minor" and ?a = "verdict mac ks ns (client_hello mac kc ns nc major minor)"
  have wr: "writable (wire0 i)" "wi_in (wire0 i) = i" "wi_out (wire0 i) = []" for i by (simp_all add: writable_def wire0_def)
  obtain rest where out: "wi_out ws = frame_of (enc_challenge C ns) @ rest"
    using server_challenges_first [OF _ wr(1) assms(3)] assms(2) wr by (auto simp: messages_fit_def)
  obtain items where c: "carries rest items" "client_handshake C mac kc (Inr nc) major minor (wire0 ci) =
      act_then read_frame (\<lambda>result_bytes. case dec_auth C result_bytes of
                    Inl e \<Rightarrow> act_fail (Te_Protocol (''bad AuthResult: '' @ e))
                  | Inr res \<Rightarrow> if \<not> ar_ok res then act_fail (Te_AuthRejected (ar_error res)) else act_return res)
      ((wire0 ci)\<lparr>wi_in := items, wi_out := frame_of (enc_hello C ?h)\<rparr>)"
    using client_handshake_writes [OF assms(1,2) wr(1), of rest ci] assms(6) out wr by auto
  obtain q where q: "client_handshake C mac kc (Inr nc) major minor (wire0 ci) = (q, wc)"
    "rc = map_err (\<lambda>e. e) (and_then q (\<lambda>res. Inr \<lparr>cn_read_only = ar_read_only res, cn_negotiated = (ar_negotiated_major res, ar_negotiated_minor res)\<rparr>))"
    using assms(4) by (auto simp: connect_with_version_def act_map_def act_then_cases act_return_def)
  have "wi_out wc = frame_of (enc_hello C ?h)" using client_result_out [OF c(2) [symmetric, unfolded q(1)]] by simp
  then have "carries (frame_of (enc_hello C ?h) @ []) (wi_in (wire0 si))" using assms(5) wr by simp
  then have s: "rs = verdict_result ?a" "wi_out ws = frame_of (enc_challenge C ns) @ frame_of (enc_auth C ?a)"
    using server_handshake_run [OF assms(1,2) wr(1), of "[]" si mac ks] assms(3) wr by auto
  have f: "fits (enc_auth C ?a)" using assms(2) by (simp add: messages_fit_def verdict_def)
  have "carries (frame_of (enc_auth C ?a) @ []) items" using c(1) s(2) out by simp
  then obtain w' where "read_frame ((wire0 ci)\<lparr>wi_in := items, wi_out := frame_of (enc_hello C ?h)\<rparr>) = (Inr (enc_auth C ?a), w')"
    using read_frame_ok [of "enc_auth C ?a" "[]" "(wire0 ci)\<lparr>wi_in := items, wi_out := frame_of (enc_hello C ?h)\<rparr>"] f by auto
  then have "q = (if ar_ok ?a then Inr ?a else Inl (Te_AuthRejected (ar_error ?a)))"
    using c(2) q(1) assms(1) by (auto simp: act_then_def codec_ok_def act_fail_def act_return_def split: if_splits)
  then show ?thesis using s(1) q(2)
    by (auto simp: verdict_def verdict_result_def auth_refused_def auth_accepted_def hmac_proof_def)
qed

lemma frame_of_nonempty [simp]: "frame_of p \<noteq> []"
  by (simp add: frame_of_def be_bytes_def)

text \<open>A codec for the witnesses: texts with their length in unary, numbers in four bytes.\<close>

definition put_text :: "string \<Rightarrow> string" where
  "put_text s = replicate (length s) CHR ''1'' @ CHR ''0'' # s"

definition get_text :: "string \<Rightarrow> string \<times> string" where
  "get_text t = (let n = length (takeWhile (\<lambda>c. c = CHR ''1'') t) in (take n (drop (n + 1) t), drop (n + 1 + n) t))"

lemma get_put_text [simp]: "get_text (put_text s @ r) = (s, r)"
proof -
  have "takeWhile (\<lambda>c. c = CHR ''1'') (replicate n CHR ''1'' @ CHR ''0'' # t) = replicate n CHR ''1''" for n t
    by (induction n) auto
  then show ?thesis by (simp add: get_text_def put_text_def Let_def)
qed

lemma get_put_text_end [simp]: "get_text (put_text s) = (s, [])"
  using get_put_text [of s "[]"] by simp

definition put_bool :: "bool \<Rightarrow> string" where
  "put_bool b = (if b then ''1'' else ''0'')"

definition plain_codec :: codec where
  "plain_codec =
     \<lparr>enc_challenge = (\<lambda>n. n), dec_challenge = Inr,
      enc_hello = (\<lambda>h. be_bytes (he_major h) @ be_bytes (he_minor h) @ put_text (he_proof h) @ put_text (he_client_nonce h)),
      dec_hello = (\<lambda>t. case get_text (drop 8 t) of (p, r) \<Rightarrow> case get_text r of (n, _) \<Rightarrow>
         Inr \<lparr>he_proof = p, he_client_nonce = n, he_major = from_be_bytes (take 4 t), he_minor = from_be_bytes (take 4 (drop 4 t))\<rparr>),
      enc_auth = (\<lambda>a. put_bool (ar_ok a) @ put_bool (ar_read_only a) @ be_bytes (ar_negotiated_major a)
         @ be_bytes (ar_negotiated_minor a) @ put_text (ar_server_version a) @ put_text (ar_error a)),
      dec_auth = (\<lambda>t. case get_text (drop 10 t) of (v, r) \<Rightarrow> case get_text r of (e, _) \<Rightarrow>
         Inr \<lparr>ar_ok = (take 1 t = ''1''), ar_read_only = (take 1 (drop 1 t) = ''1''),
              ar_negotiated_major = from_be_bytes (take 4 (drop 2 t)), ar_negotiated_minor = from_be_bytes (take 4 (drop 6 t)),
              ar_server_version = v, ar_error = e\<rparr>)\<rparr>"

lemma plain_frames_ok: "codec_ok plain_codec"
  by (auto simp: codec_ok_def plain_codec_def put_bool_def)

definition key_mac :: mac_fn where
  "key_mac k d = k"

lemma plain_messages_fit: "length ns \<le> 16 \<Longrightarrow> messages_fit plain_codec ns (client_hello key_mac ''k'' ns ''n'' ma mi)"
  by (simp add: messages_fit_def plain_codec_def fits_def put_text_def put_bool_def auth_refused_def auth_accepted_def
      SERVER_VERSION_def hmac_proof_def key_mac_def)

definition server_says :: string where
  "server_says = frame_of ''c'' @ frame_of (enc_auth plain_codec (auth_accepted 2 5))"

definition client_says :: string where
  "client_says = frame_of (enc_hello plain_codec (client_hello key_mac ''k'' ''c'' ''n'' 2 5))"

theorem handshake_agrees_witness:
  "\<exists>ws wc. handshake_stream plain_codec key_mac ''k'' (Inr ''c'') (wire0 [Chunk client_says]) = (Inr (True, True, (1, 0)), ws)
    \<and> connect_with_version plain_codec key_mac ''k'' (Inr ''n'') 2 5 (wire0 [Chunk server_says]) =
        (Inr \<lparr>cn_read_only = True, cn_negotiated = (1, 0)\<rparr>, wc)"
proof -
  have fit: "messages_fit plain_codec ''c'' (client_hello key_mac ''k'' ''c'' ''n'' 2 5)" by (simp add: plain_messages_fit)
  have ne: "client_says \<noteq> []" "server_says \<noteq> []" by (simp_all add: client_says_def server_says_def)
  have wr: "writable (wire0 i)" "wi_in (wire0 i) = i" "wi_out (wire0 i) = []" for i by (simp_all add: writable_def wire0_def)
  have v: "verdict key_mac ''k'' ''c'' (client_hello key_mac ''k'' ''c'' ''n'' 2 5) = auth_accepted 2 5" by (simp add: verdict_def)
  obtain rs ws where s: "handshake_stream plain_codec key_mac ''k'' (Inr ''c'') (wire0 [Chunk client_says]) = (rs, ws)" "wi_out ws = server_says"
    using server_handshake_run [OF plain_frames_ok fit wr(1) [of "[Chunk client_says]"], of "[]" key_mac "''k''"] ne
    by (auto simp: v wr carries_def piece_def client_says_def server_says_def plain_codec_def)
  obtain rc wc where c: "connect_with_version plain_codec key_mac ''k'' (Inr ''n'') 2 5 (wire0 [Chunk server_says]) = (rc, wc)"
    by (cases "connect_with_version plain_codec key_mac ''k'' (Inr ''n'') 2 5 (wire0 [Chunk server_says])")
  then obtain q where q: "client_handshake plain_codec key_mac ''k'' (Inr ''n'') 2 5 (wire0 [Chunk server_says]) = (q, wc)"
    by (auto simp: connect_with_version_def act_map_def act_then_cases act_return_def)
  have "carries (frame_of (enc_challenge plain_codec ''c'') @ frame_of (enc_auth plain_codec (auth_accepted 2 5))) (wi_in (wire0 [Chunk server_says]))"
    using ne by (simp add: wr carries_def piece_def server_says_def plain_codec_def)
  then obtain items where "client_handshake plain_codec key_mac ''k'' (Inr ''n'') 2 5 (wire0 [Chunk server_says]) =
      act_then read_frame (\<lambda>result_bytes. case dec_auth plain_codec result_bytes of
                    Inl e \<Rightarrow> act_fail (Te_Protocol (''bad AuthResult: '' @ e))
                  | Inr res \<Rightarrow> if \<not> ar_ok res then act_fail (Te_AuthRejected (ar_error res)) else act_return res)
      ((wire0 [Chunk server_says])\<lparr>wi_in := items, wi_out := client_says\<rparr>)"
    using client_handshake_writes [OF plain_frames_ok fit wr(1)] by (auto simp: wr client_says_def)
  then have "wi_out wc = client_says" using client_result_out [where C = plain_codec and r = q and w' = wc] q by simp
  then show ?thesis
    using handshake_agrees [OF plain_frames_ok fit s(1) c] ne s c
    by (simp add: carries_def piece_def PROTOCOL_MAJOR_def PROTOCOL_MINOR_def)
qed

section \<open>A recorded handshake is no use\<close>

lemma accepted_proof:
  assumes "handshake_stream C mac k (Inr ns) w = (Inr v, w')" and "carries (frame_of b) (wi_in w)" and "fits b"
  obtains h where "dec_hello C b = Inr h" "hmac_proof mac k ns (he_client_nonce h) (he_major h) (he_minor h) = he_proof h"
proof -
  obtain w1 where w1: "write_frame (enc_challenge C ns) w = (Inr (), w1)"
    using assms(1) by (auto simp: handshake_stream_def act_then_cases)
  then have "carries (frame_of b @ []) (wi_in w1)" using assms(2) write_frame_in by fastforce
  then obtain w2 where "read_frame w1 = (Inr b, w2)" using read_frame_ok [of b "[]" w1] assms(3) by auto
  then show ?thesis using assms(1) w1 that
    by (cases "dec_hello C b") (auto simp: handshake_stream_def act_then_def act_fail_def split: if_splits prod.splits sum.splits)
qed

text \<open>A hello that was recorded in one session is refused in another: a server that accepts the same hello under two
  different challenges has found two texts with the same authentication code under its secret.\<close>

lemma replay_needs_collision:
  assumes "length n1 = 16" and "length n2 = 16" and "n1 \<noteq> n2" and "fits b"
    and "carries (frame_of b) (wi_in w1)" and "handshake_stream C mac k (Inr n1) w1 = (Inr v1, w1')"
    and "carries (frame_of b) (wi_in w2)" and "handshake_stream C mac k (Inr n2) w2 = (Inr v2, w2')"
  shows "\<exists>d1 d2. d1 \<noteq> d2 \<and> mac k d1 = mac k d2"
proof -
  obtain h where h: "dec_hello C b = Inr h" "hmac_proof mac k n1 (he_client_nonce h) (he_major h) (he_minor h) = he_proof h"
    using accepted_proof [OF assms(6,5,4)] by blast
  obtain h2 where h2: "dec_hello C b = Inr h2" "hmac_proof mac k n2 (he_client_nonce h2) (he_major h2) (he_minor h2) = he_proof h2"
    using accepted_proof [OF assms(8,7,4)] by blast
  have "proof_data n1 x ma mi \<noteq> proof_data n2 x ma mi" for x ma mi using assms(1-3) by (simp add: proof_data_def)
  moreover have "h2 = h" using h(1) h2(1) by simp
  ultimately show ?thesis using h(2) h2(2) unfolding hmac_proof_def by metis
qed

lemma replay_needs_collision_witness:
  "\<exists>d1 d2. d1 \<noteq> d2 \<and> key_mac ''k'' d1 = key_mac ''k'' d2"
proof -
  let ?h = "client_hello key_mac ''k'' ''c'' ''n'' 1 0"
  let ?b = "enc_hello plain_codec ?h"
  have fits: "messages_fit plain_codec (replicate 16 c) ?h" for c
    using plain_messages_fit [of "replicate 16 c" 1 0] by (simp add: client_hello_def hmac_proof_def key_mac_def)
  have "\<exists>v w'. handshake_stream plain_codec key_mac ''k'' (Inr (replicate 16 c)) (wire0 [Chunk (frame_of ?b)]) = (Inr v, w')" for c
    using server_handshake_run [OF plain_frames_ok fits [of c], of "wire0 [Chunk (frame_of ?b)]" "[]" key_mac "''k''"]
    by (auto simp: writable_def wire0_def carries_def piece_def verdict_def verdict_result_def auth_accepted_def hmac_proof_def key_mac_def)
  then obtain v1 w1 v2 w2 where "handshake_stream plain_codec key_mac ''k'' (Inr (replicate 16 CHR ''a'')) (wire0 [Chunk (frame_of ?b)]) = (Inr v1, w1)"
    "handshake_stream plain_codec key_mac ''k'' (Inr (replicate 16 CHR ''b'')) (wire0 [Chunk (frame_of ?b)]) = (Inr v2, w2)"
    by meson
  then show ?thesis
    using replay_needs_collision [of "replicate 16 CHR ''a''" "replicate 16 CHR ''b''" ?b "wire0 [Chunk (frame_of ?b)]" plain_codec key_mac "''k''" v1 w1
        "wire0 [Chunk (frame_of ?b)]" v2 w2] fits [of "CHR ''a''"]
    by (simp add: messages_fit_def wire0_def carries_def piece_def)
qed

section \<open>A connection is served in order\<close>

fun handle_all :: "('s \<Rightarrow> string \<Rightarrow> string \<times> 's) \<Rightarrow> 's \<Rightarrow> string list \<Rightarrow> string list \<times> 's" where
  "handle_all handler s [] = ([], s)"
| "handle_all handler s (r # rs) =
     (case handler s r of (a, s1) \<Rightarrow> case handle_all handler s1 rs of (as, s2) \<Rightarrow> (a # as, s2))"

lemma serve_frames_run:
  assumes "list_all fits reqs" and "carries (concat (map frame_of reqs)) (wi_in w)" and "writable w"
    and "handle_all handler s reqs = (resps, s')" and "list_all fits resps"
  shows "serve_frames handler s w = (s', w\<lparr>wi_in := [], wi_out := wi_out w @ concat (map frame_of resps)\<rparr>)"
  using assms
proof (induction reqs arbitrary: s w resps)
  case Nil
  then show ?case using read_frame_end [of w] by (cases w) (simp add: serve_frames.simps)
next
  case (Cons r rs)
  obtain a s1 as where h: "handler s r = (a, s1)" "handle_all handler s1 rs = (as, s')" "resps = a # as"
    using Cons.prems(4) by (auto split: prod.splits)
  obtain items where i: "carries (concat (map frame_of rs)) items" "read_frame w = (Inr r, w\<lparr>wi_in := items\<rparr>)"
    using read_frame_ok [of r "concat (map frame_of rs)" w] Cons.prems by auto
  have "write_frame a (w\<lparr>wi_in := items\<rparr>) = (Inr (), w\<lparr>wi_in := items, wi_out := wi_out w @ frame_of a\<rparr>)"
    using write_frame_ok [of a "w\<lparr>wi_in := items\<rparr>"] Cons.prems h by (simp add: writable_def)
  then show ?case
    using Cons.IH [of "w\<lparr>wi_in := items, wi_out := wi_out w @ frame_of a\<rparr>" s1 as] i h Cons.prems
    by (simp add: serve_frames.simps [of _ s w] writable_def)
qed

text \<open>An authenticated connection answers every request, in the order of the requests and with the state the handler had
  reached, however the bytes arrive, and ends when the client closes. The version the client announced plays no
  part: a client of another major version, which the handshake declares read-only, is served all the same.\<close>

lemma served_in_order:
  assumes "codec_ok C" and "messages_fit C ns h" and "writable w"
    and "hmac_proof mac k ns (he_client_nonce h) (he_major h) (he_minor h) = he_proof h"
    and "carries (frame_of (enc_hello C h) @ concat (map frame_of reqs)) (wi_in w)" and "list_all fits reqs"
    and "handle_all handler s reqs = (resps, s')" and "list_all fits resps"
  shows "serve_connection C mac k (Inr ns) handler s w =
    (s', w\<lparr>wi_in := [], wi_out := wi_out w @ frame_of (enc_challenge C ns) @ frame_of (enc_auth C (auth_accepted (he_major h) (he_minor h)))
       @ concat (map frame_of resps)\<rparr>)"
proof -
  obtain items where i: "carries (concat (map frame_of reqs)) items" "handshake_stream C mac k (Inr ns) w =
    (verdict_result (verdict mac k ns h), w\<lparr>wi_in := items, wi_out := wi_out w @ frame_of (enc_challenge C ns) @ frame_of (enc_auth C (verdict mac k ns h))\<rparr>)"
    using server_handshake_run [OF assms(1-3,5)] by blast
  have "writable (w\<lparr>wi_in := items, wi_out := x\<rparr>)" for x using assms(3) by (simp add: writable_def)
  then show ?thesis using i serve_frames_run [OF assms(6) _ _ assms(7,8), of "w\<lparr>wi_in := items, wi_out := _\<rparr>"] assms(4)
    by (simp add: serve_connection_def verdict_def verdict_result_def auth_accepted_def)
qed

lemma served_in_order_witness:
  "fst (serve_connection plain_codec key_mac ''k'' (Inr ''c'') (\<lambda>log r. (r, log @ [r])) []
     (wire0 [Chunk (client_says @ frame_of ''x''), Chunk (frame_of ''y'')])) = [''x'', ''y'']"
proof -
  let ?h = "client_hello key_mac ''k'' ''c'' ''n'' 2 5"
  have "messages_fit plain_codec ''c'' ?h" by (simp add: plain_messages_fit)
  then show ?thesis
    using served_in_order [OF plain_frames_ok, of "''c''" ?h "wire0 [Chunk (client_says @ frame_of ''x''), Chunk (frame_of ''y'')]" key_mac "''k''"
        "[''x'', ''y'']" "\<lambda>log r. (r, log @ [r])" "[]" "[''x'', ''y'']" "[''x'', ''y'']"]
    by (simp add: client_says_def wire0_def writable_def carries_def piece_def fits_def)
qed

section \<open>The boot secret as text\<close>

lemma hex_value_digit: "n < 16 \<Longrightarrow> hex_value (hex_digit n) = Some n"
  by (simp add: hex_value_def hex_digit_def)

lemma hex_digit_plain: "n < 16 \<Longrightarrow> hex_digit n \<noteq> CHR ''+'' \<and> \<not> is_continuation (hex_digit n)"
  by (auto simp: hex_digit_def is_continuation_def dest!: arg_cong [of _ _ "of_char :: char \<Rightarrow> nat"])

lemma parse_hex_byte: "parse_hex_u8 (hex_byte c) = Some (of_char c)"
proof -
  define n where "n = (of_char c :: nat)"
  have "n div 16 < 16" "n mod 16 < 16" "n < 256" using nat_of_char_less_256 [of c] by (simp_all add: n_def less_mult_imp_div_less)
  moreover have "n div 16 * 16 + n mod 16 = n" by simp
  ultimately show ?thesis
    using hex_digit_plain [of "n div 16"] hex_value_digit [of "n div 16"] hex_value_digit [of "n mod 16"]
    unfolding n_def [symmetric] parse_hex_u8_def hex_byte_def Let_def by simp
qed

lemma decode_pairs_hex:
  "decode_pairs (pre @ hex_encode bs) (length pre) (length bs) = Inr (Some bs)"
proof (induction bs arbitrary: pre)
  case (Cons b bs)
  have b: "(of_char b :: nat) < 256" by (rule nat_of_char_less_256)
  have len: "length (hex_byte b) = 2" by (simp add: hex_byte_def Let_def)
  have bd: "char_boundary (p @ hex_encode xs) (length p)" for p xs
    using hex_digit_plain nat_of_char_less_256
    by (cases xs) (auto simp: char_boundary_def hex_encode_def hex_byte_def Let_def nth_append less_mult_imp_div_less)
  have e: "pre @ hex_encode (b # bs) = (pre @ hex_byte b) @ hex_encode bs" by (simp add: hex_encode_def)
  have "char_boundary (pre @ hex_encode (b # bs)) (length pre + 2)"
    using bd [of "pre @ hex_byte b" bs] len by (simp add: e)
  moreover have "take 2 (drop (length pre) (pre @ hex_encode (b # bs))) = hex_byte b" using len by (simp add: hex_encode_def)
  moreover have "decode_pairs (pre @ hex_encode (b # bs)) (length pre + 2) (length bs) = Inr (Some bs)"
    using Cons.IH [of "pre @ hex_byte b"] len by (simp add: e)
  ultimately show ?case using bd [of pre "b # bs"] parse_hex_byte [of b] by simp
qed simp

lemma hex_encode_length: "length (hex_encode bs) = 2 * length bs"
  by (induction bs) (auto simp: hex_encode_def hex_byte_def Let_def)

text \<open>The boot secret, and every signature, is read back from its hexadecimal text.\<close>

lemma hex_text_is_read_back:
  "length secret = 32 \<Longrightarrow> secret_from_hex (hex_encode secret) = Inr (Some secret)"
  "hex_decode (hex_encode bs) = Inr (Some bs)"
  using decode_pairs_hex [of "[]" secret] decode_pairs_hex [of "[]" bs]
  by (simp_all add: secret_from_hex_def hex_decode_def hex_encode_length)

end
