(* ===== verification/Guest_Executor.thy ===== *)
theory Guest_Executor
  imports Frame_Protocol File_System Ordered_Map
begin

text \<open>
  The agent inside a sandbox: the typed requests and the signed identity of \<^verbatim>\<open>crates/protocol/src/guest.rs\<close>, the gate, the
  path policy and the executor of \<^verbatim>\<open>crates/sandbox/src/guest.rs\<close>, the terminal sessions of
  \<^verbatim>\<open>crates/terminal/src/pty.rs\<close> it offers, and the recovery after a lost guest (\<^verbatim>\<open>guest_recovery.rs\<close>). Base64, SHA-256,
  HMAC, JSON, directory listings and the operating system's processes are parameters; what other threads do
  while a process runs is part of the script of the process.
\<close>

section \<open>Identity\<close>

definition GUEST_PROTOCOL_MAJOR :: u32 where "GUEST_PROTOCOL_MAJOR = 1"
definition GUEST_PROTOCOL_MINOR :: u32 where "GUEST_PROTOCOL_MINOR = 0"
definition GUEST_RPC_VERSION :: u32 where "GUEST_RPC_VERSION = 1"

record guest_manifest =
  gm_guest_version :: string
  gm_protocol_major :: u32
  gm_protocol_minor :: u32
  gm_build_hash :: string
  gm_task :: string

datatype guest_identity_error = BadSignature | UnsupportedVersion u32 u32

definition sign_manifest :: "(guest_manifest \<Rightarrow> string) \<Rightarrow> mac_fn \<Rightarrow> guest_manifest \<Rightarrow> string \<Rightarrow> string" where
  "sign_manifest ser mac manifest key = hex_encode (mac key (ser manifest))"

text \<open>A signature that is no text of hexadecimal pairs is refused; one that is cut inside a character is a panic.\<close>

definition verify_manifest ::
  "(guest_manifest \<Rightarrow> string) \<Rightarrow> mac_fn \<Rightarrow> guest_manifest \<Rightarrow> string \<Rightarrow> string \<Rightarrow> (string, (guest_identity_error, unit) result) result" where
  "verify_manifest ser mac manifest signature_hex key =
     (if gm_protocol_major manifest \<noteq> GUEST_PROTOCOL_MAJOR
      then Inr (Inl (UnsupportedVersion (gm_protocol_major manifest) (gm_protocol_minor manifest)))
      else and_then (hex_decode signature_hex) (\<lambda>decoded.
        Inr (case decoded of
               None \<Rightarrow> Inl BadSignature
             | Some raw \<Rightarrow> if mac key (ser manifest) = raw then Inr () else Inl BadSignature)))"

section \<open>Requests and responses\<close>

datatype guest_op =
    ProcExec "string list" "string option" "(string \<times> string) list" "nat option"
  | ProcKill string
  | FsRead string
  | FsWrite string string
  | FsList string
  | PtyOpen "string list" "string option" nat nat
  | PtyWrite string string
  | PtyRead string nat nat
  | PtyKill string
  | Ping

fun op_effect_class :: "guest_op \<Rightarrow> string" where
  "op_effect_class (ProcExec _ _ _ _) = ''proc.exec''"
| "op_effect_class (ProcKill _) = ''proc.kill''"
| "op_effect_class (FsRead _) = ''fs.read''"
| "op_effect_class (FsWrite _ _) = ''fs.write''"
| "op_effect_class (FsList _) = ''fs.list''"
| "op_effect_class (PtyOpen _ _ _ _) = ''pty.open''"
| "op_effect_class (PtyWrite _ _) = ''pty.write''"
| "op_effect_class (PtyRead _ _ _) = ''pty.read''"
| "op_effect_class (PtyKill _) = ''pty.kill''"
| "op_effect_class Ping = ''session.ping''"

definition GUEST_EFFECT_CLASSES :: "string list" where
  "GUEST_EFFECT_CLASSES = [''proc.exec'', ''proc.kill'', ''fs.read'', ''fs.write'', ''fs.list'', ''pty.open'',
     ''pty.write'', ''pty.read'', ''pty.kill'', ''session.ping'']"

record guest_request =
  rq_request_id :: string
  rq_rpc_version :: u32
  rq_task :: string
  rq_capability_token :: string
  rq_effect_class :: string
  rq_generation :: nat
  rq_op :: guest_op

datatype guest_payload =
    Pl_Proc string "int option" string string bool bool
  | Pl_Data string string
  | Pl_Listing "string list"
  | Pl_Pty string string nat bool
  | Pl_Accepted
  | Pl_Pong string u32 u32

record guest_error =
  ge_code :: string
  ge_message :: string

definition guest_error_new :: "string \<Rightarrow> string \<Rightarrow> guest_error" where
  "guest_error_new code message = \<lparr>ge_code = code, ge_message = message\<rparr>"

record guest_response =
  rs_request_id :: string
  rs_outcome :: "(guest_error, guest_payload) result"

section \<open>The gate\<close>

record guest_session =
  se_task :: string
  se_generation :: nat
  se_live_tokens :: "string list"

definition session_new :: "string \<Rightarrow> string list \<Rightarrow> guest_session" where
  "session_new task tokens = \<lparr>se_task = task, se_generation = 0, se_live_tokens = tokens\<rparr>"

definition token_live :: "guest_session \<Rightarrow> string \<Rightarrow> bool" where
  "token_live se token = (token \<in> set (se_live_tokens se))"

definition session_revoke_token :: "string \<Rightarrow> guest_session \<Rightarrow> guest_session" where
  "session_revoke_token token se = se\<lparr>se_live_tokens := filter (\<lambda>t. t \<noteq> token) (se_live_tokens se)\<rparr>"

definition gate :: "guest_session \<Rightarrow> guest_request \<Rightarrow> (guest_error, unit) result" where
  "gate se req =
     (if rq_rpc_version req \<noteq> GUEST_RPC_VERSION
      then Inl (guest_error_new ''version'' (''unsupported guest rpc version '' @ show_nat (unat (rq_rpc_version req))))
      else if rq_task req \<noteq> se_task se
      then Inl (guest_error_new ''wrong_task'' (''request task '' @ debug_str (rq_task req) @ '' does not match guest binding ''
             @ debug_str (se_task se) @ ''; guest never serves another task''))
      else if \<not> token_live se (rq_capability_token req)
      then Inl (guest_error_new ''stale_capability'' ''capability token is not live on this guest'')
      else if rq_effect_class req \<notin> set GUEST_EFFECT_CLASSES
      then Inl (guest_error_new ''unknown_capability'' (''unknown effect class '' @ debug_str (rq_effect_class req)))
      else if op_effect_class (rq_op req) \<noteq> rq_effect_class req
      then Inl (guest_error_new ''bad_request'' (''declared effect class '' @ debug_str (rq_effect_class req)
             @ '' does not match operation class '' @ debug_str (op_effect_class (rq_op req))))
      else if rq_generation req < se_generation se
      then Inl (guest_error_new ''fenced'' (''stale generation '' @ show_nat (rq_generation req) @ '' (current ''
             @ show_nat (se_generation se) @ ''); fenced''))
      else Inr ())"

section \<open>Paths\<close>

text \<open>A path of the operating system: whether it is absolute, and its components; \<open>.\<close> is dropped, \<open>..\<close> is kept.\<close>

definition os_path :: "string \<Rightarrow> bool \<times> string list" where
  "os_path raw = (starts_with raw ''/'', filter (\<lambda>c. c \<noteq> [] \<and> c \<noteq> ''.'') (str_split (\<lambda>c. c = CHR ''/'') raw))"

fun normalize_components :: "string list \<Rightarrow> string list \<Rightarrow> string list option" where
  "normalize_components acc [] = Some acc"
| "normalize_components acc (c # cs) =
     (if c = ''..'' then (if acc = [] then None else normalize_components (butlast acc) cs)
      else normalize_components (acc @ [c]) cs)"

definition canonical :: "disk \<Rightarrow> fpath \<Rightarrow> bool \<times> string list \<Rightarrow> fpath option" where
  "canonical d cwd p =
     (case p of (absolute, cs) \<Rightarrow>
        if \<not> absolute \<and> cs = [] then None
        else case fs_canonicalize d (if absolute then cs else cwd @ cs) of Inl _ \<Rightarrow> None | Inr q \<Rightarrow> Some q)"

text \<open>The deepest ancestor that exists, made canonical, with the rest of the path behind it.\<close>

function climb :: "disk \<Rightarrow> fpath \<Rightarrow> bool \<Rightarrow> string list \<Rightarrow> string list \<Rightarrow> fpath option" where
  "climb d cwd absolute cs rest =
     (if cs = [] then None
      else case canonical d cwd (absolute, butlast cs) of
             Some p \<Rightarrow> Some (p @ last cs # rest)
           | None \<Rightarrow> climb d cwd absolute (butlast cs) (last cs # rest))"
  by pat_completeness auto
termination
  by (relation "measure (\<lambda>(_, _, _, cs, _). length cs)") auto

declare climb.simps [simp del]

record sandbox_policy =
  sp_fs_roots :: "string list"
  sp_network_allow :: "string list"
  sp_max_cpu_seconds :: nat
  sp_max_memory_mb :: nat

text \<open>The resolution of a configured root, which unlike the paths above still has its parent components: \<open>..\<close> leaves the directory that
  was reached.\<close>

function os_walk :: "nat \<Rightarrow> disk \<Rightarrow> fpath \<Rightarrow> fpath \<Rightarrow> fpath option" where
  "os_walk n d reached [] = Some reached"
| "os_walk n d reached (c # cs) =
     (if c = ''..'' then (if reached = [] \<or> reached \<in> dk_dirs d then os_walk n d (butlast reached) cs else None)
      else case dk_links d (reached @ [c]) of
             None \<Rightarrow> os_walk n d (reached @ [c]) cs
           | Some t \<Rightarrow> if n = 0 then None else os_walk (n - 1) d [] (t @ cs))"
  by pat_completeness auto
termination by (relation "measures [\<lambda>(n, d, r, cs). n, \<lambda>(n, d, r, cs). length cs]") auto

text \<open>The empty root does not exist and is a prefix of everything; a root that exists is made canonical, against the working directory
  when it is relative; any other root is compared as it is written, and a relative one then covers nothing, since
  resolved paths are absolute.\<close>

definition root_covers :: "disk \<Rightarrow> fpath \<Rightarrow> fpath \<Rightarrow> string \<Rightarrow> bool" where
  "root_covers d cwd resolved root =
     (if root = [] then True
      else case os_path root of (absolute, cs) \<Rightarrow>
        (let as_written = (absolute \<and> prefix cs resolved)
         in case os_walk 40 d [] (if absolute then cs else cwd @ cs) of
              Some r \<Rightarrow> if present d r then prefix r resolved else as_written
            | None \<Rightarrow> as_written))"

definition ensure_path_allowed :: "sandbox_policy \<Rightarrow> disk \<Rightarrow> fpath \<Rightarrow> string \<Rightarrow> (guest_error, fpath) result" where
  "ensure_path_allowed policy d cwd raw =
     (let denied = guest_error_new ''policy_denied'' (''path '' @ debug_str raw @ '' is outside the granted guest fs roots'')
      in case normalize_components [] (snd (os_path raw)) of
           None \<Rightarrow> Inl denied
         | Some cs \<Rightarrow>
             (case (case canonical d cwd (fst (os_path raw), cs) of
                      Some p \<Rightarrow> Some p | None \<Rightarrow> climb d cwd (fst (os_path raw)) cs []) of
                None \<Rightarrow> Inl denied
              | Some resolved \<Rightarrow> if list_ex (root_covers d cwd resolved) (sp_fs_roots policy) then Inr resolved else Inl denied))"

section \<open>The executor\<close>

definition PROC_TIMEOUT_DEFAULT_MS :: nat where "PROC_TIMEOUT_DEFAULT_MS = 120000"
definition PROC_TIMEOUT_MAX_MS :: nat where "PROC_TIMEOUT_MAX_MS = 600000"
definition IDEMPOTENCY_CACHE_CAP :: nat where "IDEMPOTENCY_CACHE_CAP = 1024"

record proc_handle =
  ph_generation :: nat
  ph_fenced :: bool
  ph_killed :: bool

record idempotency_cache =
  ic_map :: "string \<Rightarrow> guest_response option"
  ic_order :: "string list"

definition cache_new :: idempotency_cache where
  "cache_new = \<lparr>ic_map = (\<lambda>_. None), ic_order = []\<rparr>"

function make_room :: "idempotency_cache \<Rightarrow> idempotency_cache" where
  "make_room c =
     (if length (ic_order c) \<ge> IDEMPOTENCY_CACHE_CAP
      then (case ic_order c of
              [] \<Rightarrow> c
            | old # rest \<Rightarrow> make_room \<lparr>ic_map = (ic_map c)(old := None), ic_order = rest\<rparr>)
      else c)"
  by pat_completeness auto
termination
  by (relation "measure (\<lambda>c. length (ic_order c))") auto

declare make_room.simps [simp del]

definition cache_put :: "string \<Rightarrow> guest_response \<Rightarrow> idempotency_cache \<Rightarrow> idempotency_cache" where
  "cache_put i resp c =
     (if ic_map c i \<noteq> None then c
      else let c' = make_room c in \<lparr>ic_map = (ic_map c')(i \<mapsto> resp), ic_order = ic_order c' @ [i]\<rparr>)"

record pty_session =
  py_output :: string
  py_input :: string
  py_writer :: bool
  py_alive :: bool

record guest =
  gu_session :: guest_session
  gu_policy :: sandbox_policy
  gu_procs :: "string \<Rightarrow> proc_handle option"
  gu_pty :: "(string, pty_session) btree"
  gu_cache :: idempotency_cache
  gu_disk :: disk

definition guest_new :: "string \<Rightarrow> string list \<Rightarrow> sandbox_policy \<Rightarrow> disk \<Rightarrow> guest" where
  "guest_new task tokens policy d =
     \<lparr>gu_session = session_new task tokens, gu_policy = policy, gu_procs = (\<lambda>_. None), gu_pty = [], gu_cache = cache_new, gu_disk = d\<rparr>"

definition advance_generation :: "nat \<Rightarrow> guest \<Rightarrow> guest" where
  "advance_generation to g =
     (if to \<le> se_generation (gu_session g) then g
      else g\<lparr>gu_session := (gu_session g)\<lparr>se_generation := to\<rparr>,
             gu_procs := (\<lambda>p. map_option (\<lambda>h. if ph_generation h < to then h\<lparr>ph_fenced := True, ph_killed := True\<rparr> else h) (gu_procs g p))\<rparr>)"

definition revoke_token :: "string \<Rightarrow> guest \<Rightarrow> guest" where
  "revoke_token token g = g\<lparr>gu_session := session_revoke_token token (gu_session g)\<rparr>"

text \<open>
  What the operating system and the other threads contribute to one request: the fresh id, the failure of the spawn if
  there is one, what happens between the admission and the registration of the process, and the polls until it ends.
\<close>

record poll =
  po_others :: "guest \<Rightarrow> guest"
  po_status :: "int option option"
  po_elapsed :: nat

record script =
  sc_id :: string
  sc_spawn_error :: "string option"
  sc_before :: "guest \<Rightarrow> guest"
  sc_polls :: "poll list"
  sc_stdout :: string
  sc_stderr :: string
  sc_write_error :: "string option"

record guest_env =
  gn_cwd :: fpath
  gn_version :: string
  gn_b64_encode :: "string \<Rightarrow> string"
  gn_b64_decode :: "string \<Rightarrow> (string, string) result"
  gn_sha256_hex :: "string \<Rightarrow> string"
  gn_lossy :: "string \<Rightarrow> string"
  gn_read_dir :: "disk \<Rightarrow> fpath \<Rightarrow> (string, string list) result"

definition fenced_error :: "string \<Rightarrow> guest_error" where
  "fenced_error proc_id = guest_error_new ''fenced'' (''proc '' @ proc_id @ '' fenced by generation advance'')"

definition proc_fenced :: "string \<Rightarrow> guest \<Rightarrow> bool" where
  "proc_fenced proc_id g = (case gu_procs g proc_id of None \<Rightarrow> False | Some h \<Rightarrow> ph_fenced h)"

definition forget_proc :: "string \<Rightarrow> guest \<Rightarrow> guest" where
  "forget_proc proc_id g = g\<lparr>gu_procs := (gu_procs g)(proc_id := None)\<rparr>"

text \<open>The polling loop: the exit status and whether the time was up, or a fence; \<open>None\<close> while the process still runs.\<close>

fun poll_child :: "string \<Rightarrow> nat \<Rightarrow> poll list \<Rightarrow> guest \<Rightarrow> (guest_error, int option \<times> bool) result option \<times> guest" where
  "poll_child proc_id timeout [] g = (None, g)"
| "poll_child proc_id timeout (p # ps) g =
     (let g1 = po_others p g
      in if proc_fenced proc_id g1 then (Some (Inl (fenced_error proc_id)), forget_proc proc_id g1)
         else case po_status p of
                Some code \<Rightarrow> (Some (Inr (code, False)), forget_proc proc_id g1)
              | None \<Rightarrow> if po_elapsed p \<ge> timeout then (Some (Inr (None, True)), forget_proc proc_id g1)
                        else poll_child proc_id timeout ps g1)"

definition run_child ::
  "guest_env \<Rightarrow> script \<Rightarrow> nat \<Rightarrow> string list \<Rightarrow> nat \<Rightarrow> guest \<Rightarrow> (guest_error, guest_payload) result option \<times> guest" where
  "run_child E sc generation argv timeout g =
     (let g0 = sc_before sc g
      in case sc_spawn_error sc of
           Some e \<Rightarrow> (Some (Inl (guest_error_new ''bad_request'' (''spawn '' @ debug_str (hd argv) @ '': '' @ e))), g0)
         | None \<Rightarrow>
             let g1 = g0\<lparr>gu_procs := (gu_procs g0)(sc_id sc \<mapsto> \<lparr>ph_generation = generation, ph_fenced = False, ph_killed = False\<rparr>)\<rparr>
             in (case poll_child (sc_id sc) timeout (sc_polls sc) g1 of
                   (None, g2) \<Rightarrow> (None, g2)
                 | (Some (Inl e), g2) \<Rightarrow> (Some (Inl e), g2)
                 | (Some (Inr (code, timed_out)), g2) \<Rightarrow>
                     (Some (Inr (Pl_Proc (sc_id sc) code (gn_lossy E (sc_stdout sc)) (gn_lossy E (sc_stderr sc)) timed_out timed_out)), g2)))"

text \<open>The environment of a child: locator variables of the guest that the request does not set, then those of the request.\<close>

definition ambient_env :: "(string \<Rightarrow> string option) \<Rightarrow> (string \<times> string) list \<Rightarrow> (string \<times> string) list" where
  "ambient_env var requested =
     concat (map (\<lambda>key. if key \<in> fst ` set requested then [] else case var key of None \<Rightarrow> [] | Some v \<Rightarrow> [(key, v)])
       [''PATH'', ''HOME'', ''TEMP'', ''TMP'', ''SystemRoot'', ''COMSPEC''])"

definition child_env :: "(string \<Rightarrow> string option) \<Rightarrow> (string \<times> string) list \<Rightarrow> string \<Rightarrow> string option" where
  "child_env var requested = map_of (ambient_env var requested) ++ map_of (rev requested)"

section \<open>Terminal sessions\<close>

definition pty_spawn :: "script \<Rightarrow> string list \<Rightarrow> (string, pty_session) btree \<Rightarrow> (string, unit) result \<times> (string, pty_session) btree" where
  "pty_spawn sc argv ss =
     (if bt_get (sc_id sc) ss \<noteq> None then (Inl (''session '' @ sc_id sc @ '' already exists''), ss)
      else if argv = [] then (Inl ''empty argv'', ss)
      else case sc_spawn_error sc of
             Some e \<Rightarrow> (Inl e, ss)
           | None \<Rightarrow> (Inr (), bt_insert (sc_id sc) \<lparr>py_output = [], py_input = [], py_writer = True, py_alive = True\<rparr> ss))"

definition pty_write :: "script \<Rightarrow> string \<Rightarrow> string \<Rightarrow> (string, pty_session) btree \<Rightarrow> (string, unit) result \<times> (string, pty_session) btree" where
  "pty_write sc i bytes ss =
     (case bt_get i ss of
        None \<Rightarrow> (Inl (''no session '' @ i), ss)
      | Some s \<Rightarrow>
          if \<not> py_writer s then (Inl ''session writer closed'', ss)
          else case sc_write_error sc of
                 Some e \<Rightarrow> (Inl e, ss)
               | None \<Rightarrow> (Inr (), bt_update i (\<lambda>s. s\<lparr>py_input := py_input s @ bytes\<rparr>) ss))"

text \<open>\<open>offset + max\<close> wraps around at 64 bits; a slice whose end is before its beginning is a panic.\<close>

definition pty_read :: "string \<Rightarrow> nat \<Rightarrow> nat \<Rightarrow> (string, pty_session) btree \<Rightarrow> (string, (string \<times> nat) option) result" where
  "pty_read i offset limit ss =
     (case bt_get i ss of
        None \<Rightarrow> Inl (''no session '' @ i)
      | Some s \<Rightarrow>
          let buf = py_output s; e = min ((offset + limit) mod 2 ^ 64) (length buf)
          in if offset < length buf then (if e < offset then Inr None else Inr (Some (take (e - offset) (drop offset buf), e)))
             else Inr (Some ([], e)))"

definition pty_alive :: "string \<Rightarrow> (string, pty_session) btree \<Rightarrow> (string, bool) result" where
  "pty_alive i ss = (case bt_get i ss of None \<Rightarrow> Inl (''no session '' @ i) | Some s \<Rightarrow> Inr (py_alive s))"

definition pty_output_len :: "string \<Rightarrow> (string, pty_session) btree \<Rightarrow> (string, nat) result" where
  "pty_output_len i ss = (case bt_get i ss of None \<Rightarrow> Inl (''no session '' @ i) | Some s \<Rightarrow> Inr (length (py_output s)))"

definition pty_kill :: "string \<Rightarrow> (string, pty_session) btree \<Rightarrow> (string, pty_session) btree" where
  "pty_kill i ss = bt_remove i ss"

definition pty_list :: "(string, pty_session) btree \<Rightarrow> string list" where
  "pty_list ss = map fst ss"

section \<open>Dispatch\<close>

definition allowed_cwd :: "guest_env \<Rightarrow> guest \<Rightarrow> string option \<Rightarrow> (guest_error, fpath option) result" where
  "allowed_cwd E g cwd =
     (case cwd of
        None \<Rightarrow> Inr None
      | Some c \<Rightarrow> and_then (ensure_path_allowed (gu_policy g) (gu_disk g) (gn_cwd E) c) (\<lambda>p. Inr (Some p)))"

definition bad_base64 :: "string \<Rightarrow> guest_error" where
  "bad_base64 e = guest_error_new ''bad_request'' (''bad base64 payload: '' @ e)"

definition pty_error :: "string \<Rightarrow> string \<Rightarrow> guest_error" where
  "pty_error code e = guest_error_new code (''pty: '' @ e)"

definition write_file :: "guest_env \<Rightarrow> string \<Rightarrow> string \<Rightarrow> guest \<Rightarrow> (guest_error, guest_payload) result \<times> guest" where
  "write_file E path bytes_base64 g =
     (case ensure_path_allowed (gu_policy g) (gu_disk g) (gn_cwd E) path of
        Inl e \<Rightarrow> (Inl e, g)
      | Inr resolved \<Rightarrow>
          (case gn_b64_decode E bytes_base64 of
             Inl e \<Rightarrow> (Inl (bad_base64 e), g)
           | Inr bytes \<Rightarrow>
               let d1 = (if resolved = [] then gu_disk g else snd (fs_create_dir_all (butlast resolved) (gu_disk g)))
               in (case fs_write resolved bytes d1 of
                     (Inl e, d2) \<Rightarrow> (Inl (guest_error_new ''policy_denied'' (''write '' @ debug_str path @ '': '' @ e)), g\<lparr>gu_disk := d2\<rparr>)
                   | (Inr _, d2) \<Rightarrow> (Inr Pl_Accepted, g\<lparr>gu_disk := d2\<rparr>))))"

text \<open>The operations other than running a process. A terminal read whose slice panics gives no response, see below.\<close>

fun dispatch_simple :: "guest_env \<Rightarrow> script \<Rightarrow> guest_op \<Rightarrow> guest \<Rightarrow> (guest_error, guest_payload) result \<times> guest" where
  "dispatch_simple E sc Ping g = (Inr (Pl_Pong (gn_version E) GUEST_PROTOCOL_MAJOR GUEST_PROTOCOL_MINOR), g)"
| "dispatch_simple E sc (ProcKill proc_id) g =
     (case gu_procs g proc_id of
        Some h \<Rightarrow> (Inr Pl_Accepted, g\<lparr>gu_procs := (gu_procs g)(proc_id \<mapsto> h\<lparr>ph_killed := True\<rparr>)\<rparr>)
      | None \<Rightarrow> (Inl (guest_error_new ''not_found'' (''no proc '' @ debug_str proc_id)), g))"
| "dispatch_simple E sc (FsRead path) g =
     (and_then (ensure_path_allowed (gu_policy g) (gu_disk g) (gn_cwd E) path) (\<lambda>resolved.
        and_then (map_err (\<lambda>e. guest_error_new ''not_found'' (''read '' @ debug_str path @ '': '' @ e)) (fs_read (gu_disk g) resolved)) (\<lambda>bytes.
          Inr (Pl_Data (gn_b64_encode E bytes) (gn_sha256_hex E bytes)))), g)"
| "dispatch_simple E sc (FsWrite path bytes_base64) g = write_file E path bytes_base64 g"
| "dispatch_simple E sc (FsList path) g =
     (and_then (ensure_path_allowed (gu_policy g) (gu_disk g) (gn_cwd E) path) (\<lambda>resolved.
        and_then (map_err (\<lambda>e. guest_error_new ''not_found'' (''list '' @ debug_str path @ '': '' @ e)) (gn_read_dir E (gu_disk g) resolved)) (\<lambda>names.
          Inr (Pl_Listing (sort (map (gn_lossy E) names))))), g)"
| "dispatch_simple E sc (PtyOpen argv cwd cols rows) g =
     (if argv = [] then (Inl (guest_error_new ''bad_request'' ''empty argv''), g)
      else case allowed_cwd E g cwd of
             Inl e \<Rightarrow> (Inl e, g)
           | Inr _ \<Rightarrow>
               (case pty_spawn sc argv (gu_pty g) of
                  (Inl e, ss) \<Rightarrow> (Inl (pty_error ''internal'' e), g\<lparr>gu_pty := ss\<rparr>)
                | (Inr _, ss) \<Rightarrow> (Inr (Pl_Pty (sc_id sc) [] 0 True), g\<lparr>gu_pty := ss\<rparr>)))"
| "dispatch_simple E sc (PtyWrite pty_id bytes_base64) g =
     (case gn_b64_decode E bytes_base64 of
        Inl e \<Rightarrow> (Inl (bad_base64 e), g)
      | Inr bytes \<Rightarrow>
          (case pty_write sc pty_id bytes (gu_pty g) of
             (Inl e, ss) \<Rightarrow> (Inl (pty_error ''not_found'' e), g\<lparr>gu_pty := ss\<rparr>)
           | (Inr _, ss) \<Rightarrow> (Inr Pl_Accepted, g\<lparr>gu_pty := ss\<rparr>)))"
| "dispatch_simple E sc (PtyRead pty_id offset limit) g =
     ((case pty_read pty_id offset limit (gu_pty g) of
         Inl e \<Rightarrow> Inl (pty_error ''not_found'' e)
       | Inr None \<Rightarrow> Inl (guest_error_new ''panic'' ''slice index starts after its end'')
       | Inr (Some (bytes, nxt)) \<Rightarrow>
           Inr (Pl_Pty pty_id (gn_b64_encode E bytes) nxt (case pty_alive pty_id (gu_pty g) of Inl _ \<Rightarrow> False | Inr a \<Rightarrow> a))), g)"
| "dispatch_simple E sc (PtyKill pty_id) g = (Inr Pl_Accepted, g\<lparr>gu_pty := pty_kill pty_id (gu_pty g)\<rparr>)"
| "dispatch_simple E sc (ProcExec _ _ _ _) g = (Inl (guest_error_new ''internal'' []), g)"

text \<open>A panic unwinds the thread that serves the request: nothing is answered and nothing is cached. (It also poisons the lock of the
  terminal sessions; that later terminal operations panic for this reason is not modelled.)\<close>

fun panics :: "guest_op \<Rightarrow> guest \<Rightarrow> bool" where
  "panics (PtyRead pty_id offset limit) g \<longleftrightarrow> pty_read pty_id offset limit (gu_pty g) = Inr None"
| "panics _ g \<longleftrightarrow> False"

definition dispatch_inner :: "guest_env \<Rightarrow> script \<Rightarrow> guest_request \<Rightarrow> guest \<Rightarrow> (guest_error, guest_payload) result option \<times> guest" where
  "dispatch_inner E sc req g =
     (case rq_op req of
        ProcExec argv cwd env timeout_ms \<Rightarrow>
          if argv = [] then (Some (Inl (guest_error_new ''bad_request'' ''empty argv'')), g)
          else (case allowed_cwd E g cwd of
                  Inl e \<Rightarrow> (Some (Inl e), g)
                | Inr _ \<Rightarrow>
                    run_child E sc (rq_generation req) argv
                      (min (case timeout_ms of None \<Rightarrow> PROC_TIMEOUT_DEFAULT_MS | Some t \<Rightarrow> t) PROC_TIMEOUT_MAX_MS) g)
      | other \<Rightarrow> if panics other g then (None, g) else (case dispatch_simple E sc other g of (r, g') \<Rightarrow> (Some r, g')))"

definition is_fenced :: "(guest_error, guest_payload) result \<Rightarrow> bool" where
  "is_fenced r = (case r of Inl e \<Rightarrow> ge_code e = ''fenced'' | Inr _ \<Rightarrow> False)"

definition guest_dispatch :: "guest_env \<Rightarrow> script \<Rightarrow> guest_request \<Rightarrow> guest \<Rightarrow> guest_response option \<times> guest" where
  "guest_dispatch E sc req g =
     (case dispatch_inner E sc req g of
        (None, g') \<Rightarrow> (None, g')
      | (Some r, g') \<Rightarrow>
          (Some \<lparr>rs_request_id = rq_request_id req, rs_outcome = r\<rparr>,
           if is_fenced r then g'
           else g'\<lparr>gu_cache := cache_put (rq_request_id req) \<lparr>rs_request_id = rq_request_id req, rs_outcome = r\<rparr> (gu_cache g')\<rparr>))"

definition execute_request :: "guest_env \<Rightarrow> script \<Rightarrow> guest_request \<Rightarrow> guest \<Rightarrow> guest_response option \<times> guest" where
  "execute_request E sc req g =
     (case ic_map (gu_cache g) (rq_request_id req) of
        Some cached \<Rightarrow> (Some cached, g)
      | None \<Rightarrow>
          if rq_generation req > se_generation (gu_session g)
          then guest_dispatch E sc req (advance_generation (rq_generation req) g)
          else (case gate (gu_session g) req of
                  Inl e \<Rightarrow> (Some \<lparr>rs_request_id = rq_request_id req, rs_outcome = Inl e\<rparr>, g)
                | Inr _ \<Rightarrow> guest_dispatch E sc req g))"

end
