(* ===== verification/Guest_Properties.thy ===== *)
theory Guest_Properties
  imports Guest_Executor Link_Laws
begin

text \<open>
  What the guest promises: requests are admitted by the gate, answered once, kept below the granted roots and fenced by a newer
  generation; and where it does not keep a promise: a request that announces a newer generation never meets the gate, and a
  process that was admitted but not yet registered escapes the fence.
\<close>

section \<open>The gate\<close>

text \<open>The gate lets a request through exactly when it has the right version and task, a live token, the effect
  class of its own operation, and no older generation.\<close>

lemma gate_admits_exactly:
  "gate se req = Inr () \<longleftrightarrow> rq_rpc_version req = GUEST_RPC_VERSION \<and> rq_task req = se_task se \<and> token_live se (rq_capability_token req)
     \<and> op_effect_class (rq_op req) = rq_effect_class req \<and> se_generation se \<le> rq_generation req"
proof -
  have "op_effect_class (rq_op req) \<in> set GUEST_EFFECT_CLASSES" by (cases "rq_op req") (simp_all add: GUEST_EFFECT_CLASSES_def)
  then show ?thesis by (auto simp: gate_def)
qed

lemma dispatch_reads_operation:
  "guest_dispatch E sc (req\<lparr>rq_rpc_version := v, rq_task := t, rq_capability_token := k, rq_effect_class := c\<rparr>) h = guest_dispatch E sc req h"
  by (simp add: guest_dispatch_def dispatch_inner_def cong: guest_op.case_cong sum.case_cong prod.case_cong option.case_cong if_cong)

text \<open>C38: a request that announces a newer generation than the guest has seen is executed without the gate: its
  version, its task, its token and the effect class it declares play no part.\<close>
theorem newer_generation_skips_gate:
  assumes "se_generation (gu_session g) < rq_generation req"
  shows "execute_request E sc (req\<lparr>rq_rpc_version := v, rq_task := t, rq_capability_token := k, rq_effect_class := c\<rparr>) g = execute_request E sc req g"
  using assms by (simp add: execute_request_def dispatch_reads_operation cong: option.case_cong)

definition small_disk :: "(fpath \<times> fpath) list \<Rightarrow> disk" where
  "small_disk links = \<lparr>dk_files = (\<lambda>_. None), dk_dirs = {[], [''w''], [''etc'']}, dk_links = map_of links, dk_faults = []\<rparr>"

definition plain_guest_env :: guest_env where
  "plain_guest_env = \<lparr>gn_cwd = [], gn_version = ''0.1.0'', gn_b64_encode = (\<lambda>b. b), gn_b64_decode = Inr, gn_sha256_hex = (\<lambda>b. b),
     gn_lossy = (\<lambda>b. b), gn_read_dir = (\<lambda>_ _. Inr [])\<rparr>"

definition plain_script :: "string \<Rightarrow> script" where
  "plain_script i = \<lparr>sc_id = i, sc_spawn_error = None, sc_before = (\<lambda>g. g), sc_polls = [], sc_stdout = [], sc_stderr = [], sc_write_error = None\<rparr>"

definition sample_guest :: "(fpath \<times> fpath) list \<Rightarrow> guest" where
  "sample_guest links = guest_new ''task'' [''token'']
     \<lparr>sp_fs_roots = [''/w''], sp_network_allow = [], sp_max_cpu_seconds = 0, sp_max_memory_mb = 0\<rparr> (small_disk links)"

definition sample_write :: "string \<Rightarrow> nat \<Rightarrow> string \<Rightarrow> guest_request" where
  "sample_write i generation path = \<lparr>rq_request_id = i, rq_rpc_version = 1, rq_task = ''task'', rq_capability_token = ''token'',
     rq_effect_class = ''fs.write'', rq_generation = generation, rq_op = FsWrite path ''data''\<rparr>"

theorem newer_generation_skips_gate_witness:
  "let g' = snd (execute_request plain_guest_env (plain_script []) ((sample_write ''i'' 1 ''/w/f'')\<lparr>rq_rpc_version := 7, rq_task := ''other'',
       rq_capability_token := [], rq_effect_class := ''fs.read''\<rparr>) (sample_guest [])) in dk_files (gu_disk g') [''w'', ''f''] = Some ''data''"
proof -
  have "dk_files (gu_disk (snd (execute_request plain_guest_env (plain_script []) (sample_write ''i'' 1 ''/w/f'') (sample_guest [])))) [''w'', ''f''] = Some ''data''"
    by code_simp
  moreover have "se_generation (gu_session (sample_guest [])) < rq_generation (sample_write ''i'' 1 ''/w/f'')" by code_simp
  ultimately show ?thesis unfolding Let_def by (subst newer_generation_skips_gate) simp_all
qed

section \<open>Answers are given once\<close>

definition cache_ok :: "idempotency_cache \<Rightarrow> bool" where
  "cache_ok c \<longleftrightarrow> distinct (ic_order c) \<and> (\<forall>i. ic_map c i \<noteq> None \<longleftrightarrow> i \<in> set (ic_order c)) \<and> length (ic_order c) \<le> IDEMPOTENCY_CACHE_CAP"

lemma make_room_full:
  assumes "length (ic_order c) = IDEMPOTENCY_CACHE_CAP"
  obtains old rest where "ic_order c = old # rest" "make_room c = \<lparr>ic_map = (ic_map c)(old := None), ic_order = rest\<rparr>"
  using assms
  by (cases "ic_order c") (auto simp: IDEMPOTENCY_CACHE_CAP_def make_room.simps [of c] make_room.simps [of "\<lparr>ic_map = _, ic_order = _\<rparr>"])

lemma make_room_free: "length (ic_order c) < IDEMPOTENCY_CACHE_CAP \<Longrightarrow> make_room c = c"
  by (simp add: make_room.simps [of c])

text \<open>An entry with the newest entries behind it stays until the cache has turned over.\<close>

definition kept :: "string \<Rightarrow> guest_response \<Rightarrow> nat \<Rightarrow> idempotency_cache \<Rightarrow> bool" where
  "kept i resp n c \<longleftrightarrow> cache_ok c \<and> ic_map c i = Some resp \<and> (\<exists>xs ys. ic_order c = xs @ i # ys \<and> length ys \<le> n)"

lemma make_room_ok: "cache_ok c \<Longrightarrow> cache_ok (make_room c) \<and> length (ic_order (make_room c)) < IDEMPOTENCY_CACHE_CAP
    \<and> (\<forall>j. ic_map c j = None \<longrightarrow> ic_map (make_room c) j = None)"
proof (cases "length (ic_order c) < IDEMPOTENCY_CACHE_CAP")
  case True
  then show "cache_ok c \<Longrightarrow> ?thesis" by (simp add: make_room_free)
next
  case False
  assume ok: "cache_ok c"
  then have "length (ic_order c) = IDEMPOTENCY_CACHE_CAP" using False by (simp add: cache_ok_def)
  then obtain old rest where r: "ic_order c = old # rest" "make_room c = \<lparr>ic_map = (ic_map c)(old := None), ic_order = rest\<rparr>"
    by (rule make_room_full)
  then show ?thesis using ok by (auto simp: cache_ok_def)
qed

lemma cache_put_ok:
  assumes "cache_ok c"
  shows "cache_ok (cache_put j r c)"
proof (cases "ic_map c j")
  case None
  then have "ic_map (make_room c) j = None" "cache_ok (make_room c)" using make_room_ok [OF assms] by blast+
  then have "j \<notin> set (ic_order (make_room c))" unfolding cache_ok_def by blast
  then show ?thesis using None make_room_ok [OF assms] by (auto simp: cache_put_def Let_def cache_ok_def)
qed (use assms in \<open>simp add: cache_put_def\<close>)

lemma cache_put_kept:
  assumes "kept i resp n c" and "Suc n < IDEMPOTENCY_CACHE_CAP"
  shows "kept i resp (Suc n) (cache_put j r c)"
proof (cases "ic_map c j")
  case (Some x)
  then show ?thesis using assms by (auto simp: cache_put_def kept_def) (use le_SucI in blast)
next
  case None
  obtain xs ys where o: "ic_order c = xs @ i # ys" "length ys \<le> n" and ok: "cache_ok c" "ic_map c i = Some resp"
    using assms(1) by (auto simp: kept_def)
  have "ic_map (make_room c) i = Some resp \<and> (\<exists>xs'. ic_order (make_room c) = xs' @ i # ys)"
  proof (cases "length (ic_order c) < IDEMPOTENCY_CACHE_CAP")
    case True
    then show ?thesis using o ok by (simp add: make_room_free)
  next
    case False
    then have full: "length (ic_order c) = IDEMPOTENCY_CACHE_CAP" using ok by (simp add: cache_ok_def)
    then obtain old rest where r: "ic_order c = old # rest" "make_room c = \<lparr>ic_map = (ic_map c)(old := None), ic_order = rest\<rparr>"
      by (rule make_room_full)
    have "xs \<noteq> []" using full o assms(2) by auto
    then obtain xs' where "xs = old # xs'" "rest = xs' @ i # ys" using r(1) o(1) by (cases xs) auto
    then show ?thesis using r ok o by (auto simp: cache_ok_def)
  qed
  moreover have "j \<noteq> i" using None ok by auto
  ultimately obtain xs' where x: "ic_map (cache_put j r c) i = Some resp" "ic_order (cache_put j r c) = xs' @ i # (ys @ [j])"
    using None by (auto simp: cache_put_def Let_def)
  then show ?thesis using cache_put_ok [OF ok(1), of j r] o(2) unfolding kept_def by (metis length_append_singleton Suc_le_mono)
qed

lemma cache_put_new:
  "cache_ok c \<Longrightarrow> ic_map c i = None \<Longrightarrow> kept i resp 0 (cache_put i resp c)"
  using cache_put_ok [of c i resp] by (auto simp: kept_def cache_put_def Let_def)

text \<open>A script during which no other request is answered.\<close>

definition undisturbed :: "script \<Rightarrow> bool" where
  "undisturbed sc \<longleftrightarrow> (\<forall>g. gu_cache (sc_before sc g) = gu_cache g) \<and> (\<forall>p \<in> set (sc_polls sc). \<forall>g. gu_cache (po_others p g) = gu_cache g)"

lemma poll_child_cache:
  "\<forall>p \<in> set ps. \<forall>g. gu_cache (po_others p g) = gu_cache g \<Longrightarrow> gu_cache (snd (poll_child i t ps g)) = gu_cache g"
  by (induction ps arbitrary: g) (auto simp: Let_def forget_proc_def split: option.split)

lemma run_child_cache:
  assumes "undisturbed sc"
  shows "gu_cache (snd (run_child E sc n argv t g)) = gu_cache g"
proof -
  let ?g0 = "sc_before sc g"
  let ?g1 = "?g0\<lparr>gu_procs := (gu_procs ?g0)(sc_id sc \<mapsto> \<lparr>ph_generation = n, ph_fenced = False, ph_killed = False\<rparr>)\<rparr>"
  obtain r g2 where r: "poll_child (sc_id sc) t (sc_polls sc) ?g1 = (r, g2)" by (cases "poll_child (sc_id sc) t (sc_polls sc) ?g1")
  have "gu_cache g2 = gu_cache ?g1" using poll_child_cache [of "sc_polls sc" "sc_id sc" t ?g1] r assms by (simp add: undisturbed_def)
  then have "gu_cache g2 = gu_cache g" "gu_cache ?g0 = gu_cache g" using assms by (simp_all add: undisturbed_def)
  then show ?thesis using r by (auto simp: run_child_def Let_def split: option.split sum.split prod.split)
qed

lemma write_file_cache: "gu_cache (snd (write_file E path b g)) = gu_cache g"
  by (auto simp: write_file_def Let_def split: sum.split prod.split)

lemma dispatch_simple_cache: "gu_cache (snd (dispatch_simple E sc op g)) = gu_cache g"
  by (cases op) (auto simp: write_file_cache split: option.split sum.split prod.split)

lemma dispatch_inner_cache:
  assumes "undisturbed sc"
  shows "gu_cache (snd (dispatch_inner E sc req g)) = gu_cache g"
proof (cases "rq_op req")
  case (ProcExec argv cwd env timeout_ms)
  then show ?thesis using run_child_cache [OF assms] by (auto simp: dispatch_inner_def split: sum.split)
qed (use dispatch_simple_cache [of E sc "rq_op req" g] in \<open>simp_all add: dispatch_inner_def case_prod_beta del: dispatch_simple.simps\<close>)

lemma advance_cache [simp]: "gu_cache (advance_generation n g) = gu_cache g"
  by (simp add: advance_generation_def)

text \<open>Every request leaves the cache alone or adds its own answer.\<close>

lemma execute_cache:
  assumes "undisturbed sc"
  shows "gu_cache (snd (execute_request E sc req g)) = gu_cache g
    \<or> (\<exists>resp. fst (execute_request E sc req g) = Some resp \<and> ic_map (gu_cache g) (rq_request_id req) = None
          \<and> gu_cache (snd (execute_request E sc req g)) = cache_put (rq_request_id req) resp (gu_cache g))"
proof -
  have d: "gu_cache (snd (guest_dispatch E sc req h)) = gu_cache h
      \<or> (\<exists>resp. fst (guest_dispatch E sc req h) = Some resp \<and> gu_cache (snd (guest_dispatch E sc req h)) = cache_put (rq_request_id req) resp (gu_cache h))" for h
    using dispatch_inner_cache [OF assms, of E req h]
    by (auto simp: guest_dispatch_def split: option.split prod.split)
  show ?thesis
    using d [of g] d [of "advance_generation (rq_generation req) g"]
    by (auto simp: execute_request_def split: option.split sum.split)
qed

datatype guest_event = Ev_Request guest_env script guest_request | Ev_Revoke string | Ev_Advance nat

fun guest_step :: "guest \<Rightarrow> guest_event \<Rightarrow> guest" where
  "guest_step g (Ev_Request E sc req) = snd (execute_request E sc req g)"
| "guest_step g (Ev_Revoke token) = revoke_token token g"
| "guest_step g (Ev_Advance n) = advance_generation n g"

fun calm :: "guest_event \<Rightarrow> bool" where
  "calm (Ev_Request E sc req) = undisturbed sc"
| "calm _ = True"

lemma guest_step_kept:
  assumes "kept i resp n (gu_cache g)" and "Suc n < IDEMPOTENCY_CACHE_CAP" and "calm e"
  shows "kept i resp (Suc n) (gu_cache (guest_step g e))"
proof (cases e)
  case (Ev_Request E sc req)
  have "kept i resp (Suc n) (gu_cache g)" using assms(1) by (auto simp: kept_def) (use le_SucI in blast)
  then show ?thesis using Ev_Request execute_cache [of sc E req g] cache_put_kept [OF assms(1,2)] assms(3) by auto
qed (use assms in \<open>auto simp: kept_def revoke_token_def intro: le_SucI\<close>)

lemma guest_run_kept:
  "kept i resp n (gu_cache g) \<Longrightarrow> n + length es < IDEMPOTENCY_CACHE_CAP \<Longrightarrow> list_all calm es \<Longrightarrow>
     kept i resp (n + length es) (gu_cache (foldl guest_step g es))"
proof (induction es arbitrary: g n)
  case (Cons e es)
  then show ?case using Cons.IH [of "Suc n" "guest_step g e"] guest_step_kept [of i resp n g e] by simp
qed simp

text \<open>C23: an effect happens once: when a request was executed and answered, every delivery of a request under the same
  id gets the same answer and changes nothing, through fewer than 1024 further requests, revocations and generations.\<close>
theorem effects_happen_once:
  assumes "cache_ok (gu_cache g)" and "undisturbed sc" and "ic_map (gu_cache g) (rq_request_id req) = None"
    and "execute_request E sc req g = (Some resp, g1)" and "ic_map (gu_cache g1) (rq_request_id req) \<noteq> None"
    and "length es < IDEMPOTENCY_CACHE_CAP" and "list_all calm es" and "rq_request_id req' = rq_request_id req"
  shows "execute_request E' sc' req' (foldl guest_step g1 es) = (Some resp, foldl guest_step g1 es)"
proof -
  have "kept (rq_request_id req) resp 0 (gu_cache g1)"
    using execute_cache [OF assms(2), of E req g] assms(3-5) cache_put_new [OF assms(1,3)] by auto
  then have "kept (rq_request_id req) resp (length es) (gu_cache (foldl guest_step g1 es))"
    using guest_run_kept [of "rq_request_id req" resp 0 g1 es] assms(6,7) by simp
  then show ?thesis using assms(8) by (simp add: kept_def execute_request_def)
qed

definition once_request :: guest_request where
  "once_request = sample_write ''i'' 0 ''/w/f''"

theorem effects_happen_once_witness:
  "\<exists>resp g1. execute_request plain_guest_env (plain_script []) once_request (sample_guest []) = (Some resp, g1)
     \<and> execute_request plain_guest_env (plain_script []) once_request (revoke_token ''token'' g1) = (Some resp, revoke_token ''token'' g1)"
proof -
  have u: "undisturbed (plain_script [])" by (simp add: undisturbed_def plain_script_def)
  have ok: "cache_ok (gu_cache (sample_guest []))" "ic_map (gu_cache (sample_guest [])) (rq_request_id once_request) = None"
    by (simp_all add: sample_guest_def guest_new_def cache_new_def cache_ok_def)
  let ?r = "execute_request plain_guest_env (plain_script []) once_request (sample_guest [])"
  have "fst ?r \<noteq> None" "ic_map (gu_cache (snd ?r)) (rq_request_id once_request) \<noteq> None" by code_simp+
  then obtain resp g1 where e: "?r = (Some resp, g1)" "ic_map (gu_cache g1) (rq_request_id once_request) \<noteq> None" by (cases ?r) auto
  then show ?thesis
    using effects_happen_once [OF ok(1) u ok(2) e(1,2), of "[Ev_Revoke ''token'']"] by (simp add: IDEMPOTENCY_CACHE_CAP_def)
qed

section \<open>Paths stay below the roots\<close>

definition base_of :: "fpath \<Rightarrow> bool \<Rightarrow> fpath" where
  "base_of cwd absolute = (if absolute then [] else cwd)"

lemma canonical_Some: "canonical d cwd (ab, cs) = Some q \<Longrightarrow> os_resolve d (base_of cwd ab @ cs) = Some q \<and> present d q"
  by (auto simp: canonical_def base_of_def fs_canonicalize_def split: if_splits sum.splits option.splits)

lemma canonical_None: "canonical d cwd (ab, cs) = None \<Longrightarrow> cs \<noteq> [] \<Longrightarrow> \<not> fs_exists d (base_of cwd ab @ cs)"
  by (auto simp: canonical_def base_of_def fs_exists_iff split: if_splits sum.splits)

lemma climb_spec:
  "climb d cwd ab cs rest = Some r \<Longrightarrow>
     \<exists>a b c. cs = a @ b \<and> b \<noteq> [] \<and> canonical d cwd (ab, a) = Some c \<and> r = c @ b @ rest
        \<and> (\<forall>y. prefix y b \<longrightarrow> y \<noteq> [] \<longrightarrow> y \<noteq> b \<longrightarrow> canonical d cwd (ab, a @ y) = None)"
proof (induction cs arbitrary: rest rule: rev_induct)
  case Nil
  then show ?case by (simp add: climb.simps)
next
  case (snoc x cs)
  show ?case
  proof (cases "canonical d cwd (ab, cs)")
    case (Some c)
    then show ?thesis using snoc.prems
      by (intro exI [of _ cs] exI [of _ "[x]"] exI [of _ c]) (auto simp: climb.simps [of d cwd ab "cs @ [x]"] prefix_Cons)
  next
    case None
    then have "climb d cwd ab cs (x # rest) = Some r" using snoc.prems by (simp add: climb.simps [of d cwd ab "cs @ [x]"])
    then obtain a b c where i: "cs = a @ b" "b \<noteq> []" "canonical d cwd (ab, a) = Some c" "r = c @ b @ x # rest"
      "\<forall>y. prefix y b \<longrightarrow> y \<noteq> [] \<longrightarrow> y \<noteq> b \<longrightarrow> canonical d cwd (ab, a @ y) = None"
      using snoc.IH by blast
    have "canonical d cwd (ab, a @ y) = None" if "prefix y (b @ [x])" "y \<noteq> []" "y \<noteq> b @ [x]" for y
      using that i(5) None i(1) by (cases "y = b") (auto simp: prefix_snoc)
    then show ?thesis using i by (intro exI [of _ a] exI [of _ "b @ [x]"] exI [of _ c]) auto
  qed
qed

text \<open>C22: take a disk without dangling links and a requested path that, with its parent components taken out, can be followed within
  the limit of 40 links. If the policy allows it, then the place the allowed path leads to is covered by a granted root,
  whatever links are on the way and whether it exists or not. (The empty root covers everything.)\<close>
theorem allowed_path_stays_in_roots:
  assumes "no_dangling d" and "ensure_path_allowed policy d cwd raw = Inr p" and "os_resolve d p = Some q"
    and "normalize_components [] (snd (os_path raw)) = Some cs" and "os_resolve d (base_of cwd (fst (os_path raw)) @ cs) \<noteq> None"
  shows "\<exists>root \<in> set (sp_fs_roots policy). root_covers d cwd q root"
proof -
  let ?ab = "fst (os_path raw)"
  have cover: "\<exists>root \<in> set (sp_fs_roots policy). root_covers d cwd p root"
    using assms(2,4) by (auto simp: ensure_path_allowed_def Let_def list_ex_iff split: option.splits if_splits)
  have "q = p"
  proof (cases "canonical d cwd (?ab, cs)")
    case (Some c)
    then have "p = c" using assms(2,4) by (auto simp: ensure_path_allowed_def Let_def split: if_splits)
    then show ?thesis using assms(3) canonical_Some [OF Some] os_resolve_straight [OF os_resolve_link_free] by fastforce
  next
    case None
    then have "climb d cwd ?ab cs [] = Some p"
      using assms(2,4) by (auto simp: ensure_path_allowed_def Let_def split: option.splits if_splits)
    then obtain a b c where i: "cs = a @ b" "b \<noteq> []" "canonical d cwd (?ab, a) = Some c" "p = c @ b"
      "\<forall>y. prefix y b \<longrightarrow> y \<noteq> [] \<longrightarrow> y \<noteq> b \<longrightarrow> canonical d cwd (?ab, a @ y) = None"
      using climb_spec [of d cwd ?ab cs "[]" p] by auto
    let ?e = "base_of cwd ?ab @ a"
    have c: "os_resolve d ?e = Some c" using canonical_Some [OF i(3)] by simp
    obtain n where n: "n \<le> 40" "\<forall>b. os_resolve d (?e @ b) = follow n (dk_links d) c b"
      using follow_onward [of 40 "dk_links d" "[]" ?e c] c by (auto simp: os_resolve_def)
    have none: "\<forall>y. prefix y b \<longrightarrow> y \<noteq> [] \<longrightarrow> \<not> fs_exists d (?e @ y)"
    proof (intro allI impI)
      fix y assume y: "prefix y b" "y \<noteq> []"
      have "canonical d cwd (?ab, a @ y) = None" using i(1,5) y None by (cases "y = b") auto
      then show "\<not> fs_exists d (?e @ y)" using canonical_None [of d cwd ?ab "a @ y"] y(2) by simp
    qed
    obtain z where z: "follow n (dk_links d) c b = Some z" using assms(5) n(2) i(1) by auto
    have "z = c @ b" by (rule follow_behind [OF assms(1) os_resolve_link_free [OF c] n z none])
    moreover have "os_resolve d p = follow 40 (dk_links d) c b"
      using follow_straight_onward [of "dk_links d" "[]" c 40 b] os_resolve_link_free [OF c] i(4) by (simp add: os_resolve_def)
    ultimately show ?thesis using follow_mono [OF z n(1)] assms(3) i(4) by simp
  qed
  then show ?thesis using cover by simp
qed

theorem allowed_path_stays_in_roots_witness:
  "\<exists>root \<in> set [''/w'']. root_covers (small_disk []) [] [''w'', ''a'', ''b''] root"
proof -
  have "no_dangling (small_disk [])" by (simp add: no_dangling_def small_disk_def)
  moreover have "ensure_path_allowed (gu_policy (sample_guest [])) (small_disk []) [] ''/w/x/../a/b'' = Inr [''w'', ''a'', ''b'']" by code_simp
  moreover have "os_resolve (small_disk []) [''w'', ''a'', ''b''] = Some [''w'', ''a'', ''b'']" by code_simp
  moreover have "normalize_components [] (snd (os_path ''/w/x/../a/b'')) = Some [''w'', ''a'', ''b'']" by code_simp
  moreover have "os_resolve (small_disk []) (base_of [] (fst (os_path ''/w/x/../a/b'')) @ [''w'', ''a'', ''b'']) \<noteq> None" by code_simp
  ultimately have "\<exists>root \<in> set (sp_fs_roots (gu_policy (sample_guest []))). root_covers (small_disk []) [] [''w'', ''a'', ''b''] root"
    by (rule allowed_path_stays_in_roots)
  then show ?thesis by (simp add: sample_guest_def guest_new_def)
qed

text \<open>Over the limit the promise fails: a path with forty links before its last component, itself a link out of the root, is
  not resolved when it is checked, and followed when it is written.\<close>

definition long_way :: "(fpath \<times> fpath) list" where
  "long_way = ([''w'', ''x''], [''etc'', ''f'']) # map (\<lambda>n. ([''w'', [char_of (65 + n)]], if n = 39 then [''w''] else [''w'', [char_of (66 + n)]])) [0..<40]"

lemma many_links_escape_roots:
  "dk_files (gu_disk (snd (execute_request plain_guest_env (plain_script []) (sample_write ''i'' 0 ''/w/A/x'') (sample_guest long_way)))) [''etc'', ''f''] = Some ''data''"
  by code_simp

section \<open>Fencing\<close>

text \<open>
  What other threads can do while a process runs. A request among them is one whose own processes have other ids, as ids
  are fresh, and is not itself interleaved.
\<close>

definition alone :: "script \<Rightarrow> bool" where
  "alone sc \<longleftrightarrow> sc_before sc = (\<lambda>g. g) \<and> (\<forall>p \<in> set (sc_polls sc). po_others p = (\<lambda>g. g))"

definition other_step :: "string \<Rightarrow> guest \<Rightarrow> guest_event \<Rightarrow> guest" where
  "other_step proc_id g e =
     (case e of Ev_Request E sc req \<Rightarrow> if sc_id sc = proc_id \<or> \<not> alone sc then g else guest_step g e | _ \<Rightarrow> guest_step g e)"

text \<open>The process is registered under its generation, and fenced as soon as the guest has a newer one.\<close>

definition fence_inv :: "string \<Rightarrow> nat \<Rightarrow> guest \<Rightarrow> bool" where
  "fence_inv proc_id n g \<longleftrightarrow>
     (\<exists>h. gu_procs g proc_id = Some h \<and> ph_generation h = n \<and> (n < se_generation (gu_session g) \<longrightarrow> ph_fenced h))"

text \<open>An operation that is not about the process changes neither the generation nor, but for a kill, its handle.\<close>

definition same_fence :: "string \<Rightarrow> guest \<Rightarrow> guest \<Rightarrow> bool" where
  "same_fence i g g' \<longleftrightarrow> gu_session g' = gu_session g
     \<and> map_option (\<lambda>h. (ph_generation h, ph_fenced h)) (gu_procs g' i) = map_option (\<lambda>h. (ph_generation h, ph_fenced h)) (gu_procs g i)"

lemma same_fence_refl [simp]: "same_fence i g g"
  by (simp add: same_fence_def)

lemma same_fence_trans: "same_fence i g g' \<Longrightarrow> same_fence i g' g'' \<Longrightarrow> same_fence i g g''"
  by (simp add: same_fence_def)

lemma same_fence_updates [simp]:
  "same_fence i g (g'\<lparr>gu_disk := d\<rparr>) = same_fence i g g'"
  "same_fence i g (g'\<lparr>gu_pty := t\<rparr>) = same_fence i g g'"
  "same_fence i g (g'\<lparr>gu_cache := c\<rparr>) = same_fence i g g'"
  by (simp_all add: same_fence_def)

lemma same_fence_inv: "same_fence i g g' \<Longrightarrow> fence_inv i n g \<Longrightarrow> fence_inv i n g'"
  by (cases "gu_procs g i"; cases "gu_procs g' i") (auto simp: same_fence_def fence_inv_def)

lemma dispatch_simple_same: "same_fence i g (snd (dispatch_simple E sc op g))"
proof (cases op)
  case (ProcKill p)
  then show ?thesis by (auto simp: same_fence_def split: option.split)
qed (auto simp: write_file_def Let_def split: option.split sum.split prod.split)

lemma poll_child_same:
  "i \<noteq> j \<Longrightarrow> \<forall>p \<in> set ps. po_others p = (\<lambda>g. g) \<Longrightarrow> same_fence i g (snd (poll_child j t ps g))"
  by (induction ps arbitrary: g) (auto simp: Let_def same_fence_def forget_proc_def split: option.split)

lemma run_child_same:
  assumes "alone sc" and "sc_id sc \<noteq> i"
  shows "same_fence i g (snd (run_child E sc n argv t g))"
proof -
  let ?g1 = "g\<lparr>gu_procs := (gu_procs g)(sc_id sc \<mapsto> \<lparr>ph_generation = n, ph_fenced = False, ph_killed = False\<rparr>)\<rparr>"
  obtain r g2 where r: "poll_child (sc_id sc) t (sc_polls sc) ?g1 = (r, g2)" by (cases "poll_child (sc_id sc) t (sc_polls sc) ?g1")
  have "same_fence i ?g1 g2" using poll_child_same [of i "sc_id sc" "sc_polls sc" ?g1 t] assms r by (simp add: alone_def)
  then have "same_fence i g g2" using assms(2) by (simp add: same_fence_def)
  then show ?thesis using r assms(1) by (auto simp: run_child_def Let_def alone_def split: option.split sum.split prod.split)
qed

lemma dispatch_same:
  assumes "alone sc" and "sc_id sc \<noteq> i"
  shows "same_fence i g (snd (guest_dispatch E sc req g))"
proof -
  have "same_fence i g (snd (dispatch_inner E sc req g))"
  proof (cases "rq_op req")
    case (ProcExec argv cwd env timeout_ms)
    then show ?thesis using run_child_same [OF assms] by (auto simp: dispatch_inner_def split: sum.split)
  qed (use dispatch_simple_same [of i g E sc "rq_op req"] in \<open>simp_all add: dispatch_inner_def case_prod_beta del: dispatch_simple.simps\<close>)
  then show ?thesis by (auto simp: guest_dispatch_def split: option.split prod.split)
qed

lemma advance_fence_inv:
  assumes "fence_inv i n g"
  shows "fence_inv i n (advance_generation m g)"
proof -
  obtain h where h: "gu_procs g i = Some h" "ph_generation h = n" "n < se_generation (gu_session g) \<longrightarrow> ph_fenced h"
    using assms by (auto simp: fence_inv_def)
  then show ?thesis by (simp add: fence_inv_def advance_generation_def)
qed

lemma other_step_inv: "fence_inv i n g \<Longrightarrow> fence_inv i n (other_step i g e)"
proof (cases e)
  case (Ev_Request E sc req)
  assume inv: "fence_inv i n g"
  show ?thesis
  proof (cases "sc_id sc = i \<or> \<not> alone sc")
    case False
    then have "fence_inv i n h \<Longrightarrow> fence_inv i n (snd (guest_dispatch E sc req h))" for h using same_fence_inv [OF dispatch_same] by blast
    then have "fence_inv i n (snd (execute_request E sc req g))"
      using inv advance_fence_inv [OF inv, of "rq_generation req"]
      by (simp add: execute_request_def split: option.split sum.split)
    then show ?thesis using Ev_Request False by (simp add: other_step_def)
  qed (use inv Ev_Request in \<open>simp add: other_step_def\<close>)
qed (auto simp: other_step_def advance_fence_inv, auto simp: fence_inv_def revoke_token_def session_revoke_token_def)

interpretation others: machine "other_step i" "fence_inv i n" for i n
  by unfold_locales (rule other_step_inv)

definition interleaved :: "string \<Rightarrow> poll list \<Rightarrow> bool" where
  "interleaved i ps \<longleftrightarrow> (\<forall>p \<in> set ps. \<exists>es. po_others p = (\<lambda>g. foldl (other_step i) g es))"

lemma poll_child_current:
  "interleaved i ps \<Longrightarrow> fence_inv i n g \<Longrightarrow> poll_child i t ps g = (Some (Inr r), g') \<Longrightarrow> se_generation (gu_session g') \<le> n"
proof (induction ps arbitrary: g)
  case (Cons p ps)
  then obtain es where "po_others p = (\<lambda>g. foldl (other_step i) g es)" by (auto simp: interleaved_def)
  then have inv: "fence_inv i n (po_others p g)" using others.run_inv [OF Cons.prems(2)] by simp
  then have "\<not> proc_fenced i (po_others p g) \<Longrightarrow> se_generation (gu_session (po_others p g)) \<le> n"
    by (auto simp: fence_inv_def proc_fenced_def)
  then show ?case using Cons.prems Cons.IH [OF _ inv]
    by (auto simp: Let_def forget_proc_def interleaved_def split: if_splits option.splits)
qed simp

text \<open>A process that was registered before the guest reached a newer generation never reports success under a newer
  one: whatever other threads do between the polls, a result means that the guest is still at the generation of the
  request.\<close>

lemma success_means_current_generation:
  assumes "se_generation (gu_session (sc_before sc g)) \<le> n" and "interleaved (sc_id sc) (sc_polls sc)"
    and "run_child E sc n argv t g = (Some (Inr payload), g')"
  shows "se_generation (gu_session g') \<le> n"
proof -
  let ?g0 = "sc_before sc g"
  let ?g1 = "?g0\<lparr>gu_procs := (gu_procs ?g0)(sc_id sc \<mapsto> \<lparr>ph_generation = n, ph_fenced = False, ph_killed = False\<rparr>)\<rparr>"
  have "fence_inv (sc_id sc) n ?g1" using assms(1) by (simp add: fence_inv_def)
  moreover obtain r where "poll_child (sc_id sc) t (sc_polls sc) ?g1 = (Some (Inr r), g')"
    using assms(3) by (auto simp: run_child_def Let_def split: option.splits prod.splits sum.splits)
  ultimately show ?thesis using poll_child_current [OF assms(2)] by blast
qed

definition done_poll :: "(guest \<Rightarrow> guest) \<Rightarrow> poll" where
  "done_poll f = \<lparr>po_others = f, po_status = Some (Some 0), po_elapsed = 0\<rparr>"

lemma success_means_current_generation_witness:
  "\<exists>payload g'. run_child plain_guest_env ((plain_script ''p'')\<lparr>sc_polls := [done_poll (\<lambda>g. foldl (other_step ''p'') g [Ev_Revoke ''token''])]\<rparr>) 0 [''ls''] 5
       (sample_guest []) = (Some (Inr payload), g') \<and> se_generation (gu_session g') \<le> 0"
proof -
  let ?sc = "(plain_script ''p'')\<lparr>sc_polls := [done_poll (\<lambda>g. foldl (other_step ''p'') g [Ev_Revoke ''token''])]\<rparr>"
  obtain payload g' where r: "run_child plain_guest_env ?sc 0 [''ls''] 5 (sample_guest []) = (Some (Inr payload), g')"
    by (simp add: run_child_def plain_script_def done_poll_def Let_def other_step_def revoke_token_def proc_fenced_def)
  moreover have "se_generation (gu_session (sc_before ?sc (sample_guest []))) \<le> 0" by (simp add: plain_script_def sample_guest_def guest_new_def session_new_def)
  moreover have "interleaved (sc_id ?sc) (sc_polls ?sc)" 
    by (simp add: interleaved_def plain_script_def done_poll_def) (rule exI [of _ "[Ev_Revoke ''token'']"], simp)
  ultimately show ?thesis using success_means_current_generation by blast
qed

text \<open>A process that was admitted but not yet registered escapes the fence: another request advances the generation in
  between, and the process still ends with a success.\<close>

lemma unregistered_process_escapes_fence:
  "run_child E ((plain_script ''p'')\<lparr>sc_before := advance_generation 1, sc_polls := [done_poll (\<lambda>g. g)]\<rparr>) 0 argv 5 (sample_guest [])
     = (Some (Inr (Pl_Proc ''p'' (Some 0) (gn_lossy E []) (gn_lossy E []) False False)), advance_generation 1 (sample_guest []))"
  by (simp add: run_child_def plain_script_def done_poll_def Let_def proc_fenced_def forget_proc_def sample_guest_def guest_new_def
      advance_generation_def session_new_def)

end
