(* ===== verification/Sandbox_Gateway.thy ===== *)
theory Sandbox_Gateway
  imports Guest_Properties
begin

text \<open>
  The host side of the sandbox: policy checks, the tenant gateway, worker negotiation and capability tokens of
  \<^verbatim>\<open>crates/sandbox/src/lib.rs\<close>, the client of a guest (\<^verbatim>\<open>guest_client.rs\<close>) over the framed transport, and the
  reconciliation of a lost write (\<^verbatim>\<open>guest_recovery.rs\<close>), composed with the guest's own executor.
\<close>

section \<open>Policy and gateway\<close>

datatype policy_error = FsRootDenied string | NetworkDenied string | ControlPlaneNeverGrantable string

definition CONTROL_PLANE_MARKERS :: "string list" where
  "CONTROL_PLANE_MARKERS = [''169.254.169.254'', ''metadata.google'', ''control-plane'']"

definition check_fs :: "sandbox_policy \<Rightarrow> string \<Rightarrow> (policy_error, unit) result" where
  "check_fs policy path = (if list_ex (\<lambda>r. starts_with path r) (sp_fs_roots policy) then Inr () else Inl (FsRootDenied path))"

definition check_network :: "sandbox_policy \<Rightarrow> string \<Rightarrow> (policy_error, unit) result" where
  "check_network policy endpoint =
     (if list_ex (\<lambda>m. str_contains endpoint m) CONTROL_PLANE_MARKERS then Inl (ControlPlaneNeverGrantable endpoint)
      else if list_ex (\<lambda>e. str_contains endpoint e) (sp_network_allow policy) then Inr () else Inl (NetworkDenied endpoint))"

record guest_rpc =
  gr_rpc_version :: u32
  gr_task_id :: string
  gr_effect_class :: string
  gr_capability_token :: string
  gr_operation :: string

datatype rpc_error = UnknownVersion u32 | StaleCapability string | UnknownCapability string

definition validate_guest_rpc :: "guest_rpc \<Rightarrow> string list \<Rightarrow> string list \<Rightarrow> (rpc_error, unit) result" where
  "validate_guest_rpc rpc live_tokens known_capabilities =
     (if gr_rpc_version rpc \<noteq> GUEST_RPC_VERSION then Inl (UnknownVersion (gr_rpc_version rpc))
      else if gr_capability_token rpc \<notin> set live_tokens then Inl (StaleCapability (gr_capability_token rpc))
      else if gr_effect_class rpc \<notin> set known_capabilities then Inl (UnknownCapability (gr_effect_class rpc))
      else Inr ())"

record sandbox_gateway =
  sg_bindings :: "(string, string) btree"
  sg_audit :: "string list"

record gateway_denial =
  gd_sandbox :: string
  gd_requested_by_tenant :: string
  gd_owned_by_tenant :: string

definition bind_sandbox :: "string \<Rightarrow> string \<Rightarrow> sandbox_gateway \<Rightarrow> sandbox_gateway" where
  "bind_sandbox sandbox_id tenant gw = gw\<lparr>sg_bindings := bt_insert sandbox_id tenant (sg_bindings gw)\<rparr>"

definition authenticated_request ::
  "string \<Rightarrow> string \<Rightarrow> string \<Rightarrow> sandbox_gateway \<Rightarrow> (gateway_denial, unit) result \<times> sandbox_gateway" where
  "authenticated_request sandbox_id tenant operation gw =
     (case bt_get sandbox_id (sg_bindings gw) of
        Some owner \<Rightarrow>
          if owner = tenant
          then (Inr (), gw\<lparr>sg_audit := sg_audit gw @ [tenant @ '' '' @ operation @ '' on '' @ sandbox_id @ '': allowed'']\<rparr>)
          else (Inl \<lparr>gd_sandbox = sandbox_id, gd_requested_by_tenant = tenant, gd_owned_by_tenant = owner\<rparr>,
                gw\<lparr>sg_audit := sg_audit gw @ [''CROSS-TENANT DENIED: '' @ tenant @ '' requested '' @ operation @ '' on ''
                   @ sandbox_id @ '' (owned by '' @ owner @ '')'']\<rparr>)
      | None \<Rightarrow>
          (Inl \<lparr>gd_sandbox = sandbox_id, gd_requested_by_tenant = tenant, gd_owned_by_tenant = ''none''\<rparr>,
           gw\<lparr>sg_audit := sg_audit gw @ [''unknown sandbox '' @ sandbox_id @ '' requested by '' @ tenant]\<rparr>))"

section \<open>Workers and tokens\<close>

record worker_capabilities =
  wc_worker_id :: string
  wc_protocols :: "string list"
  wc_tools :: "string list"
  wc_media :: "string list"

definition negotiate ::
  "worker_capabilities \<Rightarrow> string list \<Rightarrow> string list \<Rightarrow> (string, string list \<times> string list) result" where
  "negotiate worker required_protocols required_tools =
     (let protocols = filter (\<lambda>p. p \<in> set (wc_protocols worker)) required_protocols;
          tools = filter (\<lambda>t. t \<in> set (wc_tools worker)) required_tools
      in if length protocols < length required_protocols
         then Inl (''worker '' @ wc_worker_id worker @ '' lacks required protocols - explicit rejection'')
         else Inr (protocols, tools))"

type_synonym reverse_gateway = "(string, string \<times> bool) btree"

definition register_worker :: "string \<Rightarrow> string \<Rightarrow> bool \<Rightarrow> reverse_gateway \<Rightarrow> reverse_gateway" where
  "register_worker worker_id tenant token_valid gw = bt_insert worker_id (tenant, \<not> token_valid) gw"

definition connect_worker :: "string \<Rightarrow> reverse_gateway \<Rightarrow> (string, string) result" where
  "connect_worker worker_id gw =
     (case bt_get worker_id gw of
        None \<Rightarrow> Inl (''unknown worker '' @ debug_str worker_id)
      | Some (tenant, revoked) \<Rightarrow> if revoked then Inl ''worker token revoked - connect refused'' else Inr tenant)"

record canonical_session_state =
  cs_session_id :: string
  cs_head_seq :: nat
  cs_facts :: "string list"

definition merge_renderer_view :: "nat \<Rightarrow> canonical_session_state \<Rightarrow> canonical_session_state" where
  "merge_renderer_view renderer_head c = (if renderer_head > cs_head_seq c then c\<lparr>cs_head_seq := renderer_head\<rparr> else c)"

definition reattach_after_worker_crash :: "canonical_session_state \<Rightarrow> bool \<Rightarrow> bool" where
  "reattach_after_worker_crash c fresh = (fresh \<and> cs_facts c \<noteq> [])"

record capability_token =
  ct_effect :: string
  ct_token :: string

definition execute_privileged :: "string \<Rightarrow> capability_token option \<Rightarrow> capability_token list \<Rightarrow> (string, unit) result" where
  "execute_privileged eff presented issued =
     (case presented of
        None \<Rightarrow> Inl ''no capability token presented''
      | Some p \<Rightarrow>
          if list_ex (\<lambda>t. ct_effect t = eff \<and> ct_token t = ct_token p) issued then Inr ()
          else Inl (''privileged effect '' @ debug_str eff @ '' refused: capability token invalid''))"

definition inject_credential_handle :: "string \<Rightarrow> (string, string) btree" where
  "inject_credential_handle handle_id = bt_insert ''MODBIT_CRED_HANDLE'' handle_id []"

lemma gateway_isolates_tenants:
  "fst (authenticated_request s t op gw) = Inr () \<longleftrightarrow> bt_get s (sg_bindings gw) = Some t"
  "sg_bindings (snd (authenticated_request s t op gw)) = sg_bindings gw"
  "length (sg_audit (snd (authenticated_request s t op gw))) = Suc (length (sg_audit gw))"
  by (auto simp: authenticated_request_def split: option.split)

lemma negotiate_ok: "negotiate w ps ts = Inr (p, t) \<Longrightarrow> p = ps \<and> set ps \<subseteq> set (wc_protocols w) \<and> set t \<subseteq> set (wc_tools w)"
proof -
  have full: "length (filter P xs) = length xs \<Longrightarrow> filter P xs = xs" for P and xs :: "string list"
    by (metis filter_id_conv length_filter_less less_irrefl)
  assume "negotiate w ps ts = Inr (p, t)"
  then have "length (filter (\<lambda>p. p \<in> set (wc_protocols w)) ps) = length ps" "p = filter (\<lambda>p. p \<in> set (wc_protocols w)) ps"
    "t = filter (\<lambda>t. t \<in> set (wc_tools w)) ts"
    by (auto simp: negotiate_def Let_def not_less split: if_splits intro: le_antisym)
  then show ?thesis using full by (metis (no_types, lifting) filter_id_conv filter_is_subset mem_Collect_eq set_filter subsetI)
qed

section \<open>The client of a guest\<close>

record guest_client =
  gc_manifest :: guest_manifest
  gc_next_request :: nat
  gc_conn_prefix :: string

datatype guest_client_error =
    Gc_Transport string
  | Gc_Identity guest_identity_error
  | Gc_Guest guest_error

definition client_request :: "string \<Rightarrow> nat \<Rightarrow> guest_op \<Rightarrow> guest_client \<Rightarrow> guest_request \<times> guest_client" where
  "client_request capability_token generation op c =
     (let n = gc_next_request c + 1
      in (\<lparr>rq_request_id = ''h-'' @ gc_conn_prefix c @ ''-'' @ gm_task (gc_manifest c) @ ''-'' @ show_nat n,
           rq_rpc_version = GUEST_RPC_VERSION, rq_task = gm_task (gc_manifest c), rq_capability_token = capability_token,
           rq_effect_class = op_effect_class op, rq_generation = generation, rq_op = op\<rparr>, c\<lparr>gc_next_request := n\<rparr>))"

text \<open>One request over an authenticated stream; \<open>show_te\<close> is the text of a transport error, the codec is JSON.\<close>

definition guest_call ::
  "(transport_error \<Rightarrow> string) \<Rightarrow> (guest_request \<Rightarrow> (string, string) result) \<Rightarrow> (string \<Rightarrow> (string, guest_response) result) \<Rightarrow>
   string \<Rightarrow> nat \<Rightarrow> guest_op \<Rightarrow> (guest_client \<times> wire, guest_client_error, guest_payload) act" where
  "guest_call show_te ser de capability_token generation op s =
     (case s of (c, w) \<Rightarrow>
      case client_request capability_token generation op c of (req, c') \<Rightarrow>
      case ser req of
        Inl e \<Rightarrow> (Inl (Gc_Transport e), (c', w))
      | Inr bytes \<Rightarrow>
          (case act_then (write_frame bytes) (\<lambda>_. read_frame) w of
             (Inl e, w') \<Rightarrow> (Inl (Gc_Transport (show_te e)), (c', w'))
           | (Inr resp_bytes, w') \<Rightarrow>
               (case de resp_bytes of
                  Inl e \<Rightarrow> (Inl (Gc_Transport (''bad response frame: '' @ e)), (c', w'))
                | Inr resp \<Rightarrow>
                    if rs_request_id resp \<noteq> rq_request_id req
                    then (Inl (Gc_Transport (''response id '' @ rs_request_id resp @ '' does not match request '' @ rq_request_id req)), (c', w'))
                    else (map_err Gc_Guest (rs_outcome resp), (c', w')))))"

definition client_exec_result :: "(guest_client_error \<Rightarrow> string) \<Rightarrow> (guest_payload \<Rightarrow> string) \<Rightarrow>
   (guest_client_error, guest_payload) result \<Rightarrow> (string, int \<times> string) result" where
  "client_exec_result show_err show_payload r =
     (case r of
        Inr (Pl_Proc _ exit_code stdout _ timed_out _) \<Rightarrow>
          if timed_out then Inl ''guest proc timed out'' else Inr (case exit_code of None \<Rightarrow> - 1 | Some c \<Rightarrow> c, stdout)
      | Inr other \<Rightarrow> Inl (''unexpected guest payload '' @ show_payload other)
      | Inl (Gc_Guest e) \<Rightarrow> Inl (ge_code e @ '': '' @ ge_message e)
      | Inl e \<Rightarrow> Inl (show_err e))"

section \<open>Recovery of a lost write\<close>

datatype lost_outcome = AlreadyApplied | Reexecuted | Unresolved string

datatype recovery_error = Re_Guest string | NotReconcilable string

definition LOSS_PHRASES :: "string list" where
  "LOSS_PHRASES = [''connection reset'', ''closed'', ''eof'', ''broken pipe'', ''unexpected end'', ''temporarily unavailable'', ''timed out'',
     ''did not properly respond'', ''connection attempt failed'', ''connection aborted'', ''software caused connection abort'']"

definition is_guest_lost :: "guest_client_error \<Rightarrow> bool" where
  "is_guest_lost err = (case err of Gc_Transport e \<Rightarrow> list_ex (str_contains (to_lowercase e)) LOSS_PHRASES | _ \<Rightarrow> False)"

type_synonym 'w caller = "guest_op \<Rightarrow> ('w, guest_client_error, guest_payload) act"

definition verify_rewritten ::
  "guest_env \<Rightarrow> (guest_client_error \<Rightarrow> string) \<Rightarrow> 'w caller \<Rightarrow> string \<Rightarrow> string \<Rightarrow> ('w, recovery_error, lost_outcome) act" where
  "verify_rewritten E show_err call path expected w =
     (case call (FsRead path) w of
        (Inr (Pl_Data bytes_base64 _), w') \<Rightarrow>
          (case gn_b64_decode E bytes_base64 of
             Inl e \<Rightarrow> (Inl (Re_Guest (''bad read payload: '' @ e)), w')
           | Inr got \<Rightarrow> (Inr (if got = expected then Reexecuted else Unresolved (''re-execution diverged at '' @ debug_str path)), w'))
      | (Inr _, w') \<Rightarrow> (Inl (Re_Guest ''verify read: unexpected payload''), w')
      | (Inl e, w') \<Rightarrow> (Inl (Re_Guest (''verify read: '' @ show_err e)), w'))"

definition reconcile_fs_write ::
  "guest_env \<Rightarrow> (guest_client_error \<Rightarrow> string) \<Rightarrow> 'w caller \<Rightarrow> string \<Rightarrow> string \<Rightarrow> ('w, recovery_error, lost_outcome) act" where
  "reconcile_fs_write E show_err call path expected_base64 w =
     (case gn_b64_decode E expected_base64 of
        Inl e \<Rightarrow> (Inl (Re_Guest (''bad expected payload: '' @ e)), w)
      | Inr expected \<Rightarrow>
          (case call (FsRead path) w of
             (Inr (Pl_Data bytes_base64 _), w1) \<Rightarrow>
               (case gn_b64_decode E bytes_base64 of
                  Inl e \<Rightarrow> (Inl (Re_Guest (''bad read payload: '' @ e)), w1)
                | Inr got \<Rightarrow>
                    (Inr (if got = expected then AlreadyApplied
                          else Unresolved (''path '' @ debug_str path @ '' holds different bytes - restore from checkpoint'')), w1))
           | (Inr _, w1) \<Rightarrow> (Inl (Re_Guest ''unexpected read payload''), w1)
           | (Inl (Gc_Guest e), w1) \<Rightarrow>
               if ge_code e = ''not_found''
               then (case call (FsWrite path expected_base64) w1 of
                       (Inl e', w2) \<Rightarrow> (Inl (Re_Guest (show_err e')), w2)
                     | (Inr _, w2) \<Rightarrow> verify_rewritten E show_err call path expected w2)
               else (Inl (Re_Guest (show_err (Gc_Guest e))), w1)
           | (Inl e, w1) \<Rightarrow> (Inl (Re_Guest (show_err e)), w1)))"

definition reconcile_proc_exec :: "(recovery_error, lost_outcome) result" where
  "reconcile_proc_exec = Inl (NotReconcilable ''proc.exec'')"

text \<open>The client in front of the guest's executor, over a transport that loses nothing.\<close>

definition direct_call ::
  "guest_env \<Rightarrow> script \<Rightarrow> string \<Rightarrow> nat \<Rightarrow> (guest_client \<times> guest) caller" where
  "direct_call E sc token generation op s =
     (case s of (c, g) \<Rightarrow>
      case client_request token generation op c of (req, c') \<Rightarrow>
      case execute_request E sc req g of
        (Some resp, g') \<Rightarrow> (map_err Gc_Guest (rs_outcome resp), (c', g'))
      | (None, g') \<Rightarrow> (Inl (Gc_Transport ''timed out''), (c', g')))"

definition holds :: "guest_env \<Rightarrow> guest \<Rightarrow> string \<Rightarrow> string \<Rightarrow> bool" where
  "holds E g path bytes \<longleftrightarrow>
     (\<exists>p. ensure_path_allowed (gu_policy g) (gu_disk g) (gn_cwd E) path = Inr p \<and> fs_read (gu_disk g) p = Inr bytes)"

definition b64_ok :: "guest_env \<Rightarrow> bool" where
  "b64_ok E \<longleftrightarrow> (\<forall>b. gn_b64_decode E (gn_b64_encode E b) = Inr b)"

text \<open>The ids the client is going to use are unknown to the guest.\<close>

definition unused_ids :: "guest_client \<Rightarrow> guest \<Rightarrow> bool" where
  "unused_ids c g \<longleftrightarrow> cache_ok (gu_cache g) \<and>
     (\<forall>n > gc_next_request c. ic_map (gu_cache g) (''h-'' @ gc_conn_prefix c @ ''-'' @ gm_task (gc_manifest c) @ ''-'' @ show_nat n) = None)"

lemma client_request_id: "client_request token gen op c = (req, c') \<Longrightarrow>
    rq_request_id req = ''h-'' @ gc_conn_prefix c @ ''-'' @ gm_task (gc_manifest c) @ ''-'' @ show_nat (gc_next_request c + 1)
    \<and> c' = c\<lparr>gc_next_request := gc_next_request c + 1\<rparr> \<and> rq_op req = op"
  by (auto simp: client_request_def Let_def)

lemma cache_put_get: "cache_ok c \<Longrightarrow> j \<noteq> i \<Longrightarrow> ic_map c j = None \<Longrightarrow> ic_map (cache_put i r c) j = None"
  using make_room_ok [of c] by (auto simp: cache_put_def Let_def)

lemma direct_call_unused:
  assumes "unused_ids c g" and "undisturbed sc" and "direct_call E sc token gen op (c, g) = (r, (c', g'))"
  shows "unused_ids c' g'"
proof -
  obtain req where req: "client_request token gen op c = (req, c')"
    "\<exists>resp. execute_request E sc req g = (resp, g')"
    using assms(3) by (cases "client_request token gen op c")
      (auto simp: direct_call_def split: prod.splits option.splits)
  note q = client_request_id [OF req(1)]
  have "gu_cache g' = gu_cache g \<or> (\<exists>resp. gu_cache g' = cache_put (rq_request_id req) resp (gu_cache g))"
    using execute_cache [OF assms(2), of E req g] req(2) by auto
  then show ?thesis using assms(1) q cache_put_ok cache_put_get
    by (auto simp: unused_ids_def)
qed

lemma advance_same [simp]:
  "gu_disk (advance_generation n g) = gu_disk g" "gu_policy (advance_generation n g) = gu_policy g"
  by (simp_all add: advance_generation_def)

lemma direct_read:
  assumes "unused_ids c g" and "direct_call E sc token gen (FsRead path) (c, g) = (r, (c', g'))"
  shows "gu_disk g' = gu_disk g \<and> gu_policy g' = gu_policy g
    \<and> (\<forall>b h. r = Inr (Pl_Data b h) \<longrightarrow> (\<exists>bytes. b = gn_b64_encode E bytes \<and> holds E g path bytes))"
proof -
  obtain req where req: "client_request token gen (FsRead path) c = (req, c')" by (cases "client_request token gen (FsRead path) c")
      (use assms(2) in \<open>auto simp: direct_call_def split: prod.splits option.splits\<close>)
  note q = client_request_id [OF req]
  have n: "ic_map (gu_cache g) (rq_request_id req) = None" using assms(1) q by (simp add: unused_ids_def)
  have d: "guest_dispatch E sc req h = (x, h') \<Longrightarrow> gu_disk h' = gu_disk h \<and> gu_policy h' = gu_policy h
      \<and> (\<exists>resp. x = Some resp \<and> (\<forall>b k. rs_outcome resp = Inr (Pl_Data b k) \<longrightarrow> (\<exists>bytes. b = gn_b64_encode E bytes \<and> holds E h path bytes)))" for h x h'
    using q by (auto simp: guest_dispatch_def dispatch_inner_def holds_def and_then_Inr_iff)
  have a: "holds E (advance_generation m g) path bytes = holds E g path bytes" for m bytes by (simp add: holds_def)
  obtain x where x: "execute_request E sc req g = (x, g')" "r = (case x of None \<Rightarrow> Inl (Gc_Transport ''timed out'') | Some resp \<Rightarrow> map_err Gc_Guest (rs_outcome resp))"
    using assms(2) req by (auto simp: direct_call_def split: prod.splits option.splits)
  show ?thesis
  proof (cases "rq_generation req > se_generation (gu_session g)")
    case True
    then show ?thesis using d [of "advance_generation (rq_generation req) g" x g'] x n a by (auto simp: execute_request_def)
  next
    case False
    then show ?thesis using d [of g x g'] x n by (auto simp: execute_request_def split: sum.splits)
  qed
qed

text \<open>A lost write that recovery reports as applied or executed again is there: the fresh guest holds the expected bytes
  under the path; and when it was there already, recovery has not written to the disk.\<close>

lemma recovered_write_is_there:
  assumes "b64_ok E" and "unused_ids c g" and "undisturbed sc" and "gn_b64_decode E exp64 = Inr expected"
    and "reconcile_fs_write E show_err (direct_call E sc token gen) path exp64 (c, g) = (Inr out, (c', g'))"
    and "out = AlreadyApplied \<or> out = Reexecuted"
  shows "holds E g' path expected \<and> (out = AlreadyApplied \<longrightarrow> gu_disk g' = gu_disk g)"
proof -
  obtain r1 c1 g1 where r1: "direct_call E sc token gen (FsRead path) (c, g) = (r1, (c1, g1))"
    by (cases "direct_call E sc token gen (FsRead path) (c, g)") auto
  note read1 = direct_read [OF assms(2) r1]
  have same: "holds E g1 path b = holds E g path b" for b using read1 by (simp add: holds_def)
  show ?thesis
  proof (cases r1)
    case (Inr payload)
    then obtain b h where "payload = Pl_Data b h" "(c', g') = (c1, g1)" "gn_b64_decode E b = Inr expected" "out = AlreadyApplied"
      using assms(4-6) r1 by (cases payload) (auto simp: reconcile_fs_write_def split: sum.splits if_splits)
    then show ?thesis using read1 Inr assms(1) same by (auto simp: b64_ok_def)
  next
    case (Inl err)
    then obtain e r2 c2 g2 where w: "direct_call E sc token gen (FsWrite path exp64) (c1, g1) = (Inr r2, (c2, g2))"
      "verify_rewritten E show_err (direct_call E sc token gen) path expected (c2, g2) = (Inr out, (c', g'))"
      using assms(4,5) r1 by (cases err) (auto simp: reconcile_fs_write_def split: sum.splits if_splits prod.splits)
    have u2: "unused_ids c2 g2" using direct_call_unused [OF direct_call_unused [OF assms(2,3) r1] assms(3) w(1)] .
    obtain r3 c3 g3 where r3: "direct_call E sc token gen (FsRead path) (c2, g2) = (r3, (c3, g3))"
      by (cases "direct_call E sc token gen (FsRead path) (c2, g2)") auto
    obtain b h where "r3 = Inr (Pl_Data b h)" "(c', g') = (c3, g3)" "gn_b64_decode E b = Inr expected" "out = Reexecuted"
      using w(2) r3 assms(6) by (auto simp: verify_rewritten_def split: sum.splits guest_payload.splits if_splits)
    then show ?thesis using direct_read [OF u2 r3] assms(1) by (auto simp: b64_ok_def holds_def)
  qed
qed

definition sample_client :: guest_client where
  "sample_client = \<lparr>gc_manifest = \<lparr>gm_guest_version = [], gm_protocol_major = 1, gm_protocol_minor = 0, gm_build_hash = [], gm_task = ''task''\<rparr>,
     gc_next_request = 0, gc_conn_prefix = ''u''\<rparr>"

lemma recovered_write_is_there_witness:
  "\<exists>c' g'. reconcile_fs_write plain_guest_env (\<lambda>_. []) (direct_call plain_guest_env (plain_script []) ''token'' 0) ''/w/f'' ''data'' (sample_client, sample_guest [])
       = (Inr Reexecuted, (c', g')) \<and> holds plain_guest_env g' ''/w/f'' ''data''"
proof -
  let ?r = "reconcile_fs_write plain_guest_env (\<lambda>_. []) (direct_call plain_guest_env (plain_script []) ''token'' 0) ''/w/f'' ''data'' (sample_client, sample_guest [])"
  have "fst ?r = Inr Reexecuted" by code_simp
  then obtain c' g' where r: "?r = (Inr Reexecuted, (c', g'))" by (cases ?r) auto
  have "b64_ok plain_guest_env" by (simp add: b64_ok_def plain_guest_env_def)
  moreover have "unused_ids sample_client (sample_guest [])"
    by (simp add: unused_ids_def sample_guest_def guest_new_def cache_new_def cache_ok_def)
  moreover have "undisturbed (plain_script [])" by (simp add: undisturbed_def plain_script_def)
  moreover have "gn_b64_decode plain_guest_env ''data'' = Inr ''data''" by (simp add: plain_guest_env_def)
  ultimately have "holds plain_guest_env g' ''/w/f'' ''data''" using recovered_write_is_there r by blast
  then show ?thesis using r by blast
qed

end
