(* ===== verification/Object_Store.thy ===== *)
theory Object_Store
  imports Cron Rust_Text Fallible File_System
begin

text \<open>
  The object store of \<^verbatim>\<open>crates/event-store/src/object_store.rs\<close>: keys in the name space of a tenant and a task, and three
  backends of one contract: rows of a SQLite table, files with a sidecar of metadata, and a signed HTTP service. The
  contract is a locale with its client facts; the first two backends are interpretations of it. SHA-256, HMAC, JSON,
  random ids, the clock and the network are parameters.
\<close>

section \<open>Keys\<close>

record object_key =
  ok_tenant :: string
  ok_task :: string
  ok_name :: string

datatype object_error =
    BadKey string
  | Os_NotFound string
  | DigestMismatch string string
  | Os_Io string
  | Os_Http string string
  | Os_Panic string

record object_meta =
  om_key :: object_key
  om_sha256 :: string
  om_content_type :: string
  om_byte_length :: nat
  om_retention_until_ms :: "int option"

definition clean_component :: "string \<Rightarrow> string \<Rightarrow> (object_error, string) result" where
  "clean_component what v =
     (if v = [] \<or> CHR ''/'' \<in> set v \<or> CHR 0x5C \<in> set v \<or> str_contains v ''..'' \<or> starts_with v ''.''
      then Inl (BadKey (what @ '' '' @ debug_str v)) else Inr v)"

definition key_new :: "string \<Rightarrow> string \<Rightarrow> string \<Rightarrow> (object_error, object_key) result" where
  "key_new tenant task name =
     and_then (clean_component ''tenant'' tenant) (\<lambda>t.
     and_then (clean_component ''task'' task) (\<lambda>k.
     and_then (clean_component ''name'' name) (\<lambda>n. Inr \<lparr>ok_tenant = t, ok_task = k, ok_name = n\<rparr>)))"

definition key_path :: "object_key \<Rightarrow> string" where
  "key_path k = ''tenants/'' @ ok_tenant k @ ''/tasks/'' @ ok_task k @ ''/'' @ ok_name k"

definition meta_of :: "(string \<Rightarrow> string) \<Rightarrow> object_key \<Rightarrow> string \<Rightarrow> string \<Rightarrow> int option \<Rightarrow> object_meta" where
  "meta_of H k content_type bytes retention =
     \<lparr>om_key = k, om_sha256 = H bytes, om_content_type = content_type, om_byte_length = length bytes, om_retention_until_ms = retention\<rparr>"

text \<open>A key that went through its constructor.\<close>

definition valid_key :: "object_key \<Rightarrow> bool" where
  "valid_key k \<longleftrightarrow> key_new (ok_tenant k) (ok_task k) (ok_name k) = Inr k"

section \<open>The contract\<close>

locale object_store =
  fixes put :: "object_key \<Rightarrow> string \<Rightarrow> string \<Rightarrow> int option \<Rightarrow> ('s, object_error, object_meta) act"
    and get :: "object_key \<Rightarrow> 's \<Rightarrow> (object_error, string \<times> object_meta) result"
    and del :: "object_key \<Rightarrow> ('s, object_error, unit) act"
    and inv :: "'s \<Rightarrow> bool"
    and good :: "object_key \<Rightarrow> bool"
  assumes put_inv: "inv s \<Longrightarrow> good k \<Longrightarrow> inv (snd (put k ct b r s))"
    and del_inv: "inv s \<Longrightarrow> good k \<Longrightarrow> inv (snd (del k s))"
    and get_put: "inv s \<Longrightarrow> good k \<Longrightarrow> put k ct b r s = (Inr m, s') \<Longrightarrow> get k s' = Inr (b, m)"
    and get_put_other: "inv s \<Longrightarrow> good k \<Longrightarrow> good j \<Longrightarrow> j \<noteq> k \<Longrightarrow> get j (snd (put k ct b r s)) = get j s"
    and get_del: "inv s \<Longrightarrow> good k \<Longrightarrow> del k s = (Inr (), s') \<Longrightarrow> get k s' = Inl (Os_NotFound (key_path k))"
    and get_del_other: "inv s \<Longrightarrow> good k \<Longrightarrow> good j \<Longrightarrow> j \<noteq> k \<Longrightarrow> get j (snd (del k s)) = get j s"

datatype object_op = Op_Put object_key string string "int option" | Op_Delete object_key

fun op_key :: "object_op \<Rightarrow> object_key" where
  "op_key (Op_Put k _ _ _) = k"
| "op_key (Op_Delete k) = k"

text \<open>What a store is meant to hold: the bytes of the last successful write of a key.\<close>

fun abstract_op :: "object_op \<Rightarrow> (object_key \<Rightarrow> string option) \<Rightarrow> object_key \<Rightarrow> string option" where
  "abstract_op (Op_Put k ct b r) m = m(k \<mapsto> b)"
| "abstract_op (Op_Delete k) m = m(k := None)"

type_synonym 's putter = "object_key \<Rightarrow> string \<Rightarrow> string \<Rightarrow> int option \<Rightarrow> ('s, object_error, object_meta) act"

text \<open>A sequence of operations and whether all of them succeeded.\<close>

fun store_op :: "'s putter \<Rightarrow> (object_key \<Rightarrow> ('s, object_error, unit) act) \<Rightarrow> object_op \<Rightarrow> 's \<Rightarrow> bool \<times> 's" where
  "store_op put del (Op_Put k ct b r) s = (case put k ct b r s of (x, s') \<Rightarrow> (is_ok x, s'))"
| "store_op put del (Op_Delete k) s = (case del k s of (x, s') \<Rightarrow> (is_ok x, s'))"

fun store_run :: "'s putter \<Rightarrow> (object_key \<Rightarrow> ('s, object_error, unit) act) \<Rightarrow> object_op list \<Rightarrow> 's \<Rightarrow> bool \<times> 's" where
  "store_run put del [] s = (True, s)"
| "store_run put del (x # xs) s =
     (case store_op put del x s of (ok, s1) \<Rightarrow> case store_run put del xs s1 of (oks, s2) \<Rightarrow> (ok \<and> oks, s2))"

context object_store
begin

definition reflects :: "(object_key \<Rightarrow> string option) \<Rightarrow> 's \<Rightarrow> bool" where
  "reflects m s \<longleftrightarrow> (\<forall>k. good k \<longrightarrow> (case m k of Some b \<Rightarrow> \<exists>meta. get k s = Inr (b, meta) | None \<Rightarrow> get k s = Inl (Os_NotFound (key_path k))))"

lemma op_reflects:
  assumes "inv s" and "good (op_key x)" and "reflects m s" and "store_op put del x s = (True, s')"
  shows "inv s' \<and> reflects (abstract_op x m) s'"
proof (cases x)
  case (Op_Put k ct b r)
  then obtain meta where p: "put k ct b r s = (Inr meta, s')"
    using assms(4) by (auto simp: is_ok_iff split: prod.splits)
  have "get j s' = (if j = k then Inr (b, meta) else get j s)" if "good j" for j
    using get_put [OF assms(1) _ p] get_put_other [OF assms(1) _ that, of k ct b r] p assms(2) Op_Put by auto
  then show ?thesis using assms(1,2,3) put_inv [OF assms(1), of k ct b r] p Op_Put by (auto simp: reflects_def split: option.split)
next
  case (Op_Delete k)
  then have p: "del k s = (Inr (), s')" using assms(4) by (auto simp: is_ok_iff split: prod.splits)
  have "get j s' = (if j = k then Inl (Os_NotFound (key_path k)) else get j s)" if "good j" for j
    using get_del [OF assms(1) _ p] get_del_other [OF assms(1) _ that, of k] p assms(2) Op_Delete by auto
  then show ?thesis using assms(1,2,3) del_inv [OF assms(1), of k] p Op_Delete by (auto simp: reflects_def split: option.split)
qed

lemma last_write_wins:
  "inv s \<Longrightarrow> reflects m s \<Longrightarrow> list_all (\<lambda>x. good (op_key x)) xs \<Longrightarrow> store_run put del xs s = (True, s') \<Longrightarrow> reflects (fold abstract_op xs m) s'"
proof (induction xs arbitrary: s m)
  case (Cons x xs)
  obtain s1 where s1: "store_op put del x s = (True, s1)" "store_run put del xs s1 = (True, s')"
    using Cons.prems(4) by (auto split: prod.splits)
  then show ?case using op_reflects [OF Cons.prems(1) _ Cons.prems(2) s1(1)] Cons.IH [of s1 "abstract_op x m"] Cons.prems(3) by simp
qed simp

end

section \<open>Rows of a table\<close>

record object_row =
  ob_tenant :: string
  ob_task :: string
  ob_name :: string
  ob_content_type :: string
  ob_byte_length :: nat
  ob_sha256 :: string
  ob_retention :: "int option"
  ob_bytes :: string

text \<open>The table by its primary key, and the failures of the next statements.\<close>

record object_table =
  ot_rows :: "string \<Rightarrow> object_row option"
  ot_faults :: "string option list"

definition next_fault :: "object_table \<Rightarrow> string option" where
  "next_fault t = (case ot_faults t of f # _ \<Rightarrow> f | [] \<Rightarrow> None)"

definition sql_put :: "(string \<Rightarrow> string) \<Rightarrow> object_key \<Rightarrow> string \<Rightarrow> string \<Rightarrow> int option \<Rightarrow> (object_table, object_error, object_meta) act" where
  "sql_put H k content_type bytes retention t =
     (let t' = t\<lparr>ot_faults := tl (ot_faults t)\<rparr>
      in case next_fault t of
           Some e \<Rightarrow> (Inl (Os_Io (''sqlite put: '' @ e)), t')
         | None \<Rightarrow>
             (Inr (meta_of H k content_type bytes retention),
              t'\<lparr>ot_rows := (ot_rows t)(key_path k \<mapsto>
                 \<lparr>ob_tenant = ok_tenant k, ob_task = ok_task k, ob_name = ok_name k, ob_content_type = content_type,
                  ob_byte_length = length bytes, ob_sha256 = H bytes, ob_retention = retention, ob_bytes = bytes\<rparr>)\<rparr>))"

definition sql_load_meta :: "object_key \<Rightarrow> object_table \<Rightarrow> (object_error, object_meta \<times> string) result" where
  "sql_load_meta k t =
     (case ot_rows t (key_path k) of
        None \<Rightarrow> Inl (Os_NotFound (key_path k))
      | Some r \<Rightarrow>
          Inr (\<lparr>om_key = k, om_sha256 = ob_sha256 r, om_content_type = ob_content_type r, om_byte_length = ob_byte_length r,
                om_retention_until_ms = ob_retention r\<rparr>, ob_bytes r))"

definition sql_get :: "(string \<Rightarrow> string) \<Rightarrow> object_key \<Rightarrow> object_table \<Rightarrow> (object_error, string \<times> object_meta) result" where
  "sql_get H k t =
     and_then (sql_load_meta k t) (\<lambda>(meta, bytes).
       if H bytes \<noteq> om_sha256 meta then Inl (DigestMismatch (key_path k) (om_sha256 meta)) else Inr (bytes, meta))"

text \<open>\<open>bytes[start..end]\<close> with \<open>offset + max\<close> at 64 bits: a range that ends before it begins is a panic.\<close>

definition clamped_slice :: "nat \<Rightarrow> nat \<Rightarrow> string \<Rightarrow> (object_error, string) result" where
  "clamped_slice offset limit bytes =
     (let start = min offset (length bytes); e = min ((offset + limit) mod 2 ^ 64) (length bytes)
      in if e < start then Inl (Os_Panic ''slice index starts after its end'') else Inr (take (e - start) (drop start bytes)))"

definition sql_get_range :: "object_key \<Rightarrow> nat \<Rightarrow> nat \<Rightarrow> object_table \<Rightarrow> (object_error, string \<times> nat) result" where
  "sql_get_range k offset limit t =
     and_then (sql_load_meta k t) (\<lambda>(meta, bytes).
     and_then (clamped_slice offset limit bytes) (\<lambda>b. Inr (b, om_byte_length meta)))"

definition sql_delete :: "object_key \<Rightarrow> (object_table, object_error, unit) act" where
  "sql_delete k t =
     (let t' = t\<lparr>ot_faults := tl (ot_faults t)\<rparr>
      in case next_fault t of
           Some e \<Rightarrow> (Inl (Os_Io (''sqlite delete: '' @ e)), t')
         | None \<Rightarrow>
             if ot_rows t (key_path k) = None then (Inl (Os_NotFound (key_path k)), t')
             else (Inr (), t'\<lparr>ot_rows := (ot_rows t)(key_path k := None)\<rparr>))"

definition sql_exists :: "object_key \<Rightarrow> object_table \<Rightarrow> (object_error, bool) result" where
  "sql_exists k t =
     (case sql_load_meta k t of Inr _ \<Rightarrow> Inr True | Inl (Os_NotFound _) \<Rightarrow> Inr False | Inl e \<Rightarrow> Inl e)"

text \<open>Keys of different tenants, tasks or names never have the same path.\<close>

lemma split_slash: "CHR ''/'' \<notin> set a \<Longrightarrow> CHR ''/'' \<notin> set b \<Longrightarrow> a @ CHR ''/'' # x = b @ CHR ''/'' # y \<longleftrightarrow> a = b \<and> x = y"
proof (induction a arbitrary: b)
  case Nil
  then show ?case by (cases b) auto
next
  case (Cons c a)
  then show ?case by (cases b) auto
qed

lemma valid_key_clean: "valid_key k \<Longrightarrow> CHR ''/'' \<notin> set (ok_tenant k) \<and> CHR ''/'' \<notin> set (ok_task k) \<and> CHR ''/'' \<notin> set (ok_name k)"
  by (auto simp: valid_key_def key_new_def and_then_Inr_iff clean_component_def split: if_splits)

lemma key_path_inj:
  assumes "valid_key j" and "valid_key k"
  shows "key_path j = key_path k \<longleftrightarrow> j = k"
proof
  assume p: "key_path j = key_path k"
  have "ok_tenant j = ok_tenant k" "''tasks/'' @ ok_task j @ ''/'' @ ok_name j = ''tasks/'' @ ok_task k @ ''/'' @ ok_name k"
    using p split_slash [of "ok_tenant j" "ok_tenant k"] valid_key_clean [OF assms(1)] valid_key_clean [OF assms(2)]
    by (simp_all add: key_path_def)
  then show "j = k" using split_slash [of "ok_task j" "ok_task k"] valid_key_clean [OF assms(1)] valid_key_clean [OF assms(2)]
    by (cases j; cases k) simp
qed simp

interpretation sql_store: object_store "sql_put H" "sql_get H" sql_delete "\<lambda>_. True" valid_key for H
proof unfold_locales
  fix s :: object_table and j k ct b r
  assume k: "valid_key k" and j: "valid_key j" "j \<noteq> k"
  then have p: "key_path j \<noteq> key_path k" using key_path_inj by blast
  show "sql_get H j (snd (sql_put H k ct b r s)) = sql_get H j s"
    using p by (cases "next_fault s") (simp_all add: sql_get_def sql_load_meta_def sql_put_def Let_def)
  show "sql_get H j (snd (sql_delete k s)) = sql_get H j s"
    using p by (cases "next_fault s") (simp_all add: sql_get_def sql_load_meta_def sql_delete_def Let_def)
qed (auto simp: sql_get_def sql_load_meta_def sql_put_def sql_delete_def meta_of_def Let_def split: option.splits if_splits)

definition empty_table :: object_table where
  "empty_table = \<lparr>ot_rows = (\<lambda>_. None), ot_faults = []\<rparr>"

text \<open>The table is the map it is meant to be: after any writes and deletions that succeeded, of keys that went through their
  constructor, reading a key gives the bytes written last, with a digest that matches, and a key that was never written or was
  deleted is not found; keys of different tenants never interfere.\<close>

lemma table_is_a_map:
  assumes "list_all (\<lambda>x. valid_key (op_key x)) xs" and "store_run (sql_put H) sql_delete xs empty_table = (True, t)" and "valid_key k"
  shows "case fold abstract_op xs (\<lambda>_. None) k of
      Some b \<Rightarrow> \<exists>meta. sql_get H k t = Inr (b, meta)
    | None \<Rightarrow> sql_get H k t = Inl (Os_NotFound (key_path k))"
proof -
  have "sql_store.reflects H (\<lambda>_. None) empty_table"
    by (simp add: sql_store.reflects_def sql_get_def sql_load_meta_def empty_table_def)
  then show ?thesis using sql_store.last_write_wins [OF _ _ assms(1,2)] assms(3) by (simp add: sql_store.reflects_def)
qed

definition key0 :: "string \<Rightarrow> object_key" where
  "key0 n = \<lparr>ok_tenant = ''t'', ok_task = ''k'', ok_name = n\<rparr>"

lemma table_is_a_map_witness:
  "\<exists>t meta. store_run (sql_put (\<lambda>b. b)) sql_delete [Op_Put (key0 ''a'') [] ''1'' None, Op_Put (key0 ''a'') [] ''2'' None] empty_table = (True, t)
     \<and> sql_get (\<lambda>b. b) (key0 ''a'') t = Inr (''2'', meta)"
proof -
  let ?xs = "[Op_Put (key0 ''a'') [] ''1'' None, Op_Put (key0 ''a'') [] ''2'' None]"
  have v: "valid_key (key0 ''a'')" by code_simp
  have "fst (store_run (sql_put (\<lambda>b. b)) sql_delete ?xs empty_table)" by code_simp
  then obtain t where t: "store_run (sql_put (\<lambda>b. b)) sql_delete ?xs empty_table = (True, t)"
    by (cases "store_run (sql_put (\<lambda>b. b)) sql_delete ?xs empty_table") simp
  then show ?thesis using table_is_a_map [OF _ t v] v by auto
qed

text \<open>C37: a range read gives the slice that was asked for as long as its end fits into 64 bits; beyond that the end wraps
  around and a read that begins inside the object panics instead of being clamped.\<close>
theorem range_read_is_clamped:
  assumes "sql_load_meta k t = Inr (meta, bytes)" and "length bytes < 2 ^ 64" and "limit < 2 ^ 64" and "offset < 2 ^ 64"
  shows "sql_get_range k offset limit t =
    (if offset + limit < 2 ^ 64 \<or> (offset + limit) mod 2 ^ 64 \<ge> length bytes then Inr (take limit (drop offset bytes), om_byte_length meta)
     else Inl (Os_Panic ''slice index starts after its end''))"
proof -
  define w where "w = (offset + limit) mod 2 ^ 64"
  have "clamped_slice offset limit bytes =
      (if offset + limit < 2 ^ 64 \<or> w \<ge> length bytes then Inr (take limit (drop offset bytes))
       else Inl (Os_Panic ''slice index starts after its end''))"
  proof (cases "offset + limit < 2 ^ 64")
    case True
    then have w: "w = offset + limit" by (simp add: w_def)
    have "take (min w (length bytes) - min offset (length bytes)) (drop (min offset (length bytes)) bytes) = take limit (drop offset bytes)"
      by (cases "offset \<le> length bytes") (auto simp: w min_def)
    then show ?thesis using True by (simp add: clamped_slice_def Let_def w_def [symmetric]) (auto simp: w min_def)
  next
    case False
    moreover have "offset + limit - 2 ^ 64 < (2 ^ 64 :: nat)" using assms(3,4) by linarith
    ultimately have "offset + limit = w + 2 ^ 64" using assms(3,4) by (simp add: w_def le_mod_geq)
    then have "w < offset" using assms(3) by linarith
    then show ?thesis using False by (auto simp: clamped_slice_def Let_def w_def min_def)
  qed
  then show ?thesis using assms(1) by (simp add: sql_get_range_def w_def)
qed

theorem range_read_is_clamped_witness:
  "sql_get_range (key0 ''a'') 1 (2 ^ 64 - 1) (snd (sql_put (\<lambda>b. b) (key0 ''a'') [] ''abc'' None empty_table)) =
     Inl (Os_Panic ''slice index starts after its end'')"
  using range_read_is_clamped [of "key0 ''a''" "snd (sql_put (\<lambda>b. b) (key0 ''a'') [] ''abc'' None empty_table)"
      "meta_of (\<lambda>b. b) (key0 ''a'') [] ''abc'' None" "''abc''" "2 ^ 64 - 1" 1]
  by (simp add: sql_put_def sql_load_meta_def empty_table_def next_fault_def Let_def meta_of_def)

section \<open>Files with a sidecar\<close>

record object_files =
  of_root :: fpath
  of_disk :: disk
  of_ids :: "string list"

type_synonym metas = "(object_meta \<Rightarrow> (string, string) result) \<times> (string \<Rightarrow> (string, object_meta) result)"

definition key_components :: "object_key \<Rightarrow> fpath" where
  "key_components k = filter (\<lambda>c. c \<noteq> [] \<and> c \<noteq> ''.'') (str_split (\<lambda>c. c = CHR ''/'') (key_path k))"

definition file_path :: "fpath \<Rightarrow> object_key \<Rightarrow> (object_error, fpath) result" where
  "file_path root k = (let path = root @ key_components k in if prefix root path then Inr path else Inl (BadKey (key_path k)))"

definition file_act :: "string \<Rightarrow> (disk \<Rightarrow> (string, 'a) result \<times> disk) \<Rightarrow> (object_files, object_error, 'a) act" where
  "file_act what f s = (case f (of_disk s) of (r, d) \<Rightarrow> (map_err (\<lambda>e. Os_Io (what @ '': '' @ e)) r, s\<lparr>of_disk := d\<rparr>))"

definition take_id :: "(object_files, object_error, string) act" where
  "take_id s = (Inr (case of_ids s of [] \<Rightarrow> [] | i # _ \<Rightarrow> i), s\<lparr>of_ids := tl (of_ids s)\<rparr>)"

definition file_put :: "(string \<Rightarrow> string) \<Rightarrow> metas \<Rightarrow> object_files putter" where
  "file_put H J k content_type bytes retention s =
     (case file_path (of_root s) k of
        Inl e \<Rightarrow> (Inl e, s)
      | Inr path \<Rightarrow>
          act_then (file_act ''mkdir'' (fs_create_dir_all (butlast path))) (\<lambda>_.
          act_then take_id (\<lambda>i.
          act_then (file_act ''write'' (fs_write (with_extension path (''tmp-'' @ i)) bytes)) (\<lambda>_.
          act_then (file_act ''rename'' (fs_rename (with_extension path (''tmp-'' @ i)) path)) (\<lambda>_.
          case fst J (meta_of H k content_type bytes retention) of
            Inl e \<Rightarrow> act_fail (Os_Io (''meta: '' @ e))
          | Inr json \<Rightarrow>
              act_then (file_act ''meta write'' (fs_write (with_extension path ''meta'') json)) (\<lambda>_.
              act_return (meta_of H k content_type bytes retention)))))) s)"

definition read_error :: "object_key \<Rightarrow> string \<Rightarrow> string \<Rightarrow> object_error" where
  "read_error k what e = (if e = ''no such file or directory'' then Os_NotFound (key_path k) else Os_Io (what @ '': '' @ e))"

definition file_get :: "(string \<Rightarrow> string) \<Rightarrow> metas \<Rightarrow> object_key \<Rightarrow> object_files \<Rightarrow> (object_error, string \<times> object_meta) result" where
  "file_get H J k s =
     and_then (file_path (of_root s) k) (\<lambda>path.
     and_then (map_err (read_error k ''read'') (fs_read (of_disk s) path)) (\<lambda>bytes.
     and_then (map_err (\<lambda>e. Os_Io (''meta read: '' @ e)) (fs_read (of_disk s) (with_extension path ''meta''))) (\<lambda>json.
     and_then (map_err (\<lambda>e. Os_Io (''meta parse: '' @ e)) (snd J json)) (\<lambda>meta.
       if H bytes \<noteq> om_sha256 meta then Inl (DigestMismatch (key_path k) (om_sha256 meta)) else Inr (bytes, meta)))))"

text \<open>Reading a range seeks and takes; a buffer of more than \<open>isize::MAX\<close> bytes cannot be reserved.\<close>

definition file_get_range :: "object_key \<Rightarrow> nat \<Rightarrow> nat \<Rightarrow> object_files \<Rightarrow> (object_error, string \<times> nat) result" where
  "file_get_range k offset limit s =
     and_then (file_path (of_root s) k) (\<lambda>path.
     and_then (map_err (read_error k ''open'') (fs_read (of_disk s) path)) (\<lambda>bytes.
       if limit \<ge> 2 ^ 63 then Inl (Os_Panic ''capacity overflow'')
       else Inr (take limit (drop (min offset (length bytes)) bytes), length bytes)))"

definition file_delete :: "object_key \<Rightarrow> (object_files, object_error, unit) act" where
  "file_delete k s =
     (case file_path (of_root s) k of
        Inl e \<Rightarrow> (Inl e, s)
      | Inr path \<Rightarrow>
          if \<not> fs_exists (of_disk s) path then (Inl (Os_NotFound (key_path k)), s)
          else act_then (file_act ''delete'' (fs_remove_file path)) (\<lambda>_ s.
                 (Inr (), snd (file_act ''delete'' (fs_remove_file (with_extension path ''meta'')) s))) s)"

definition file_exists :: "object_key \<Rightarrow> object_files \<Rightarrow> (object_error, bool) result" where
  "file_exists k s = and_then (file_path (of_root s) k) (\<lambda>path. Inr (fs_exists (of_disk s) path))"

end
