(* ===== verification/Model_Transport.thy ===== *)
theory Model_Transport
  imports Provider_Gateway "HOL-Library.Word"
begin

text \<open>
  The streaming boundary to a model provider, \<^verbatim>\<open>crates/providers/src/transport.rs\<close>: credentials, one attempt that turns the
  bytes of a response into events line by line, and the loop that retries with backoff before the first token. What the
  network, the clock and a cancellation do is a script, one outcome for each attempt; the JSON codec and the lossy decoding of
  UTF-8 are parameters. Backoff is computed on words of 64 bits.
\<close>

unbundle bit_operations_syntax

section \<open>Errors and credentials\<close>

datatype stream_error =
    MissingCredential string
  | Tr_Status nat string
  | Tr_Interrupted string
  | Tr_Timeout
  | Tr_Cancelled
  | Tr_Configuration string

definition env_credential :: "(string \<Rightarrow> string option) \<Rightarrow> string \<Rightarrow> (stream_error, string) result" where
  "env_credential env name =
     (case env name of
        Some v \<Rightarrow> if str_trim v \<noteq> [] then Inr v else Inl (MissingCredential name)
      | None \<Rightarrow> Inl (MissingCredential name))"

definition auth_headers ::
  "(string \<Rightarrow> (stream_error, string) result) \<Rightarrow> provider \<Rightarrow> (stream_error, (string \<times> string) list) result" where
  "auth_headers broker p =
     and_then (broker (credential_env p)) (\<lambda>key.
       case p of
         OpenAi \<Rightarrow> Inr [(''Authorization'', ''Bearer '' @ key)]
       | Anthropic \<Rightarrow> Inr [(''x-api-key'', key), (''anthropic-version'', ''2023-06-01'')])"

section \<open>One attempt\<close>

datatype transport_event = SseData string | Tv_Usage token_usage | Tv_Eof

text \<open>How a request is answered, and what the next read of the body gives; a body without further reads has ended.\<close>

datatype body_read = Br_Bytes string | Br_Error string | Br_Deadline | Br_Cancelled

datatype response = Rp_Cancelled | Rp_Timeout | Rp_Error string | Rp_Response nat string "body_read list"

record stream_env =
  sv_decode :: "string \<Rightarrow> (string, json) result"
  sv_lossy :: "string \<Rightarrow> string"
  sv_provider :: provider

definition trim_end :: "string \<Rightarrow> string" where
  "trim_end s = rev (dropWhile is_space (rev s))"

definition merge_usage :: "usage_frame \<Rightarrow> token_usage \<Rightarrow> token_usage" where
  "merge_usage f u =
     \<lparr>tu_input_tokens = (case uf_input_tokens f of Some v \<Rightarrow> v | None \<Rightarrow> tu_input_tokens u),
      tu_output_tokens = (case uf_output_tokens f of Some v \<Rightarrow> v | None \<Rightarrow> tu_output_tokens u)\<rparr>"

definition line_events :: "stream_env \<Rightarrow> string \<Rightarrow> token_usage \<Rightarrow> transport_event list \<times> token_usage" where
  "line_events V line u =
     (case sse_data_line (trim_end (sv_lossy V line)) of
        None \<Rightarrow> ([], u)
      | Some payload \<Rightarrow>
          (case extract_usage_frame (sv_decode V) (sv_provider V) payload of
             Some f \<Rightarrow>
               if uf_input_tokens f \<noteq> None \<or> uf_output_tokens f \<noteq> None
               then ([Tv_Usage (merge_usage f u), SseData payload], merge_usage f u)
               else ([SseData payload], u)
           | None \<Rightarrow> ([SseData payload], u)))"

lemma split_once_shorter: "split_once c s = Some (a, b) \<Longrightarrow> length b < length s"
  by (induction s arbitrary: a) (fastforce split: if_splits option.splits)+

text \<open>Every complete line of the buffer is taken out of it.\<close>

function drain_lines :: "stream_env \<Rightarrow> string \<Rightarrow> token_usage \<Rightarrow> transport_event list \<times> string \<times> token_usage" where
  "drain_lines V buffer u =
     (case split_once CHR 0x0A buffer of
        None \<Rightarrow> ([], buffer, u)
      | Some (line, rest) \<Rightarrow>
          (case line_events V (line @ [CHR 0x0A]) u of
             (evs, u1) \<Rightarrow> (case drain_lines V rest u1 of (evs', left, u2) \<Rightarrow> (evs @ evs', left, u2))))"
  by pat_completeness auto
termination
  by (relation "measure (\<lambda>(V, buffer, u). length buffer)") (auto dest: split_once_shorter)

declare drain_lines.simps [simp del]

fun read_body :: "stream_env \<Rightarrow> string \<Rightarrow> token_usage \<Rightarrow> body_read list \<Rightarrow> (stream_error, transport_event) result list" where
  "read_body V buffer u [] = [Inr Tv_Eof]"
| "read_body V buffer u (Br_Bytes b # rs) =
     (case drain_lines V (buffer @ b) u of (evs, left, u') \<Rightarrow> map Inr evs @ read_body V left u' rs)"
| "read_body V buffer u (Br_Error e # rs) = [Inl (Tr_Interrupted (''body read: '' @ e))]"
| "read_body V buffer u (Br_Deadline # rs) = [Inl Tr_Timeout]"
| "read_body V buffer u (Br_Cancelled # rs) = [Inl Tr_Cancelled]"

definition run_attempt :: "stream_env \<Rightarrow> response \<Rightarrow> (stream_error, transport_event) result list" where
  "run_attempt V r =
     (case r of
        Rp_Cancelled \<Rightarrow> [Inl Tr_Cancelled]
      | Rp_Timeout \<Rightarrow> [Inl Tr_Timeout]
      | Rp_Error e \<Rightarrow> [Inl (Tr_Interrupted (''connect: '' @ e))]
      | Rp_Response code body reads \<Rightarrow>
          if \<not> (200 \<le> code \<and> code < 300) then [Inl (Tr_Status code body)]
          else read_body V [] \<lparr>tu_input_tokens = 0, tu_output_tokens = 0\<rparr> reads)"

section \<open>Retries\<close>

record retry_policy =
  rp_max_attempts :: nat
  rp_base_delay :: nat
  rp_max_delay :: nat

definition default_retry :: retry_policy where
  "default_retry = \<lparr>rp_max_attempts = 3, rp_base_delay = 50, rp_max_delay = 8000\<rparr>"

definition retriable_status :: "nat \<Rightarrow> bool" where
  "retriable_status code \<longleftrightarrow> code = 429 \<or> code \<ge> 500"

fun retriable :: "stream_error \<Rightarrow> bool" where
  "retriable (Tr_Status code body) = retriable_status code"
| "retriable Tr_Timeout = True"
| "retriable _ = False"

definition saturating_mul :: "64 word \<Rightarrow> 64 word \<Rightarrow> 64 word" where
  "saturating_mul a b = (if unat a * unat b < 2 ^ 64 then a * b else - 1)"

definition next_jitter :: "64 word \<Rightarrow> 64 word" where
  "next_jitter x = (let x1 = x XOR push_bit 13 x; x2 = x1 XOR drop_bit 7 x1 in x2 XOR push_bit 17 x2)"

text \<open>The delay before the attempt after \<open>attempt\<close>, in milliseconds.\<close>

definition backoff :: "retry_policy \<Rightarrow> nat \<Rightarrow> 64 word \<Rightarrow> 64 word" where
  "backoff retry attempt x =
     (let exp = saturating_mul (of_nat (rp_base_delay retry)) (push_bit (min attempt 5 - 1) 1);
          cap = of_nat (rp_max_delay retry);
          half = max (exp div 2) 1
      in max (min (half + x mod half) cap) 1)"

text \<open>
  Forwarding the events of an attempt: what was sent on, whether a token was among it, and the error it ended with. A
  cancellation is seen before event number \<open>cancel\<close>, if at all.
\<close>

definition is_token :: "transport_event \<Rightarrow> bool" where
  "is_token ev = (case ev of SseData _ \<Rightarrow> True | _ \<Rightarrow> False)"

fun forward ::
  "nat option \<Rightarrow> (stream_error, transport_event) result list \<Rightarrow> transport_event list \<times> bool \<times> stream_error option" where
  "forward cancel [] = ([], False, if cancel = Some 0 then Some Tr_Cancelled else None)"
| "forward cancel (r # evs) =
     (if cancel = Some 0 then ([], False, Some Tr_Cancelled)
      else case r of
             Inl e \<Rightarrow> ([], False, Some e)
           | Inr ev \<Rightarrow>
               if ev = Tv_Eof then ([], False, None)
               else case forward (map_option (\<lambda>n. n - 1) cancel) evs of
                      (sent, token, fatal) \<Rightarrow> (ev # sent, token \<or> is_token ev, fatal))"

text \<open>
  The loop over the attempts. \<open>net n\<close> is the answer to attempt \<open>n\<close> and \<open>cancel n\<close> where a cancellation meets it. The result is what
  the consumer receives, the delays that were slept, and the state of the jitter.
\<close>

record net =
  nt_response :: "nat \<Rightarrow> response"
  nt_cancel :: "nat \<Rightarrow> nat option"

function stream_loop ::
  "stream_env \<Rightarrow> retry_policy \<Rightarrow> net \<Rightarrow> nat \<Rightarrow> 64 word
   \<Rightarrow> (stream_error, transport_event) result list \<times> (64 word) list \<times> 64 word" where
  "stream_loop V retry N before x =
     (let attempt = before + 1
      in case forward (nt_cancel N attempt) (run_attempt V (nt_response N attempt)) of
           (sent, token, fatal) \<Rightarrow>
             (case fatal of
                None \<Rightarrow> (map Inr sent @ [Inr Tv_Eof], [], x)
              | Some e \<Rightarrow>
                  if e = Tr_Cancelled then (map Inr sent @ [Inl Tr_Cancelled], [], x)
                  else if \<not> token \<and> attempt < rp_max_attempts retry \<and> retriable e
                  then (case stream_loop V retry N attempt (next_jitter x) of
                          (evs, ds, y) \<Rightarrow> (map Inr sent @ evs, backoff retry attempt (next_jitter x) # ds, y))
                  else (map Inr sent @ [Inl e], [], x)))"
  by pat_completeness auto
termination
  by (relation "measure (\<lambda>(V, retry, N, before, x). rp_max_attempts retry - before)") auto

declare stream_loop.simps [simp del]

definition stream_request ::
  "(string \<Rightarrow> (stream_error, string) result) \<Rightarrow> stream_env \<Rightarrow> retry_policy \<Rightarrow> net \<Rightarrow> 64 word
   \<Rightarrow> (stream_error, (stream_error, transport_event) result list \<times> (64 word) list \<times> 64 word) result" where
  "stream_request broker V retry N x =
     and_then (auth_headers broker (sv_provider V)) (\<lambda>_. Inr (stream_loop V retry N 0 x))"

section \<open>Cutting the bytes is not observable\<close>

text \<open>The events of a text: those of its complete lines, in order.\<close>

fun lines_events :: "stream_env \<Rightarrow> token_usage \<Rightarrow> string list \<Rightarrow> transport_event list" where
  "lines_events V u [] = []"
| "lines_events V u (l # ls) = (case line_events V (l @ [CHR 0x0A]) u of (evs, u') \<Rightarrow> evs @ lines_events V u' ls)"

definition text_events :: "stream_env \<Rightarrow> string \<Rightarrow> transport_event list" where
  "text_events V text = lines_events V \<lparr>tu_input_tokens = 0, tu_output_tokens = 0\<rparr> (butlast (str_split (\<lambda>c. c = CHR 0x0A) text))"

lemma split_once_None: "split_once d s = None \<longleftrightarrow> d \<notin> set s"
  by (induction s) auto

lemma split_once_Some: "split_once d s = Some (a, b) \<longleftrightarrow> s = a @ d # b \<and> d \<notin> set a"
proof (induction s arbitrary: a)
  case (Cons c s)
  then show ?case by (cases a) auto
qed simp

lemma drain_lines_partial: "CHR 0x0A \<notin> set s \<Longrightarrow> drain_lines V s u = ([], s, u)"
  by (simp add: drain_lines.simps [of V s] split_once_None [THEN iffD2])

lemma drain_lines_line:
  "CHR 0x0A \<notin> set a \<Longrightarrow> line_events V (a @ [CHR 0x0A]) u = (ev, u1) \<Longrightarrow> drain_lines V b u1 = (evs, l, u2)
   \<Longrightarrow> drain_lines V (a @ CHR 0x0A # b) u = (ev @ evs, l, u2)"
  by (simp add: drain_lines.simps [of V "a @ CHR 0x0A # b"] split_once_Some [THEN iffD2])

text \<open>Induction over the complete lines of a text.\<close>

lemma lines_induct [case_names partial line]:
  assumes "\<And>s u. CHR 0x0A \<notin> set s \<Longrightarrow> P s u"
    and "\<And>a b ev u u1. CHR 0x0A \<notin> set a \<Longrightarrow> line_events V (a @ [CHR 0x0A]) u = (ev, u1) \<Longrightarrow> P b u1 \<Longrightarrow> P (a @ CHR 0x0A # b) u"
  shows "P s u"
proof (induction "length s" arbitrary: s u rule: less_induct)
  case (less s u)
  show ?case
  proof (cases "split_once CHR 0x0A s")
    case None
    then show ?thesis using assms(1) by (simp add: split_once_None)
  next
    case (Some p)
    then obtain a b where s: "s = a @ CHR 0x0A # b" "CHR 0x0A \<notin> set a" by (cases p) (auto simp: split_once_Some)
    then show ?thesis using assms(2) less [of b] by (cases "line_events V (a @ [CHR 0x0A]) u") auto
  qed
qed

lemma drain_append:
  "drain_lines V s u = (e1, l, u1) \<Longrightarrow> drain_lines V (l @ t) u1 = (e2, l2, u2) \<Longrightarrow> drain_lines V (s @ t) u = (e1 @ e2, l2, u2)"
proof (induction s u arbitrary: e1 rule: lines_induct [of _ V])
  case (partial s u)
  then show ?case by (simp add: drain_lines_partial)
next
  case (line a b ev u u')
  obtain e' where "drain_lines V b u' = (e', l, u1)" "e1 = ev @ e'"
    using drain_lines_line [OF line(1,2)] line.prems(1) by (cases "drain_lines V b u'") auto
  then show ?case using line.IH line.prems(2) drain_lines_line [OF line(1,2), of "b @ t"] by simp
qed

lemma drain_lines_left: "drain_lines V s u = (e, l, u1) \<Longrightarrow> CHR 0x0A \<notin> set l"
proof (induction s u arbitrary: e rule: lines_induct [of _ V])
  case (line a b ev u u')
  then show ?case using drain_lines_line [OF line(1,2)] by (cases "drain_lines V b u'") auto
qed (simp add: drain_lines_partial)

lemma drain_lines_events: "fst (drain_lines V s u) = lines_events V u (butlast (str_split (\<lambda>c. c = CHR 0x0A) s))"
proof (induction s u rule: lines_induct [of _ V])
  case (partial s u)
  then have "str_split (\<lambda>c. c = CHR 0x0A) s = [s]" by (intro str_split_none) auto
  then show ?case using partial by (simp add: drain_lines_partial)
next
  case (line a b ev u u')
  have "str_split (\<lambda>c. c = CHR 0x0A) a = [a]" using line(1) by (intro str_split_none) auto
  then have "str_split (\<lambda>c. c = CHR 0x0A) (a @ CHR 0x0A # b) = a # str_split (\<lambda>c. c = CHR 0x0A) b"
    using str_split_append [of "\<lambda>c. c = CHR 0x0A" "CHR 0x0A" a b] by simp
  then show ?case using line drain_lines_line [OF line(1,2)] by (cases "drain_lines V b u'") auto
qed

lemma read_body_stops: "(\<And>b rs. rest \<noteq> Br_Bytes b # rs) \<Longrightarrow> read_body V buffer u rest = read_body V [] u' rest"
  by (cases "(V, buffer, u, rest)" rule: read_body.cases) auto

lemma read_body_chunks:
  assumes "\<And>b rs. rest \<noteq> Br_Bytes b # rs"
  shows "CHR 0x0A \<notin> set buffer \<Longrightarrow>
    read_body V buffer u (map Br_Bytes cs @ rest) = map Inr (fst (drain_lines V (buffer @ concat cs) u)) @ read_body V [] u' rest"
proof (induction cs arbitrary: buffer u)
  case Nil
  then show ?case using read_body_stops [OF assms, of V buffer u u'] by (simp add: drain_lines_partial)
next
  case (Cons c cs)
  obtain e l u1 where d: "drain_lines V (buffer @ c) u = (e, l, u1)" by (cases "drain_lines V (buffer @ c) u") auto
  obtain e2 l2 u2 where d2: "drain_lines V (l @ concat cs) u1 = (e2, l2, u2)" by (cases "drain_lines V (l @ concat cs) u1") auto
  show ?case using Cons.IH [OF drain_lines_left [OF d], of u1] d drain_append [OF d d2] d2 by simp
qed

text \<open>How the network cuts the bytes of a response is not observable: the consumer sees the events of the complete lines of
  the whole text, in order, and then the end or the error the body ended with. An unfinished last line is never delivered.\<close>

lemma stream_ignores_chunking:
  assumes "200 \<le> code" and "code < 300" and "\<forall>b rs. rest \<noteq> Br_Bytes b # rs"
  shows "run_attempt V (Rp_Response code body (map Br_Bytes cs @ rest)) =
    map Inr (text_events V (concat cs)) @ read_body V [] \<lparr>tu_input_tokens = 0, tu_output_tokens = 0\<rparr> rest"
  using assms read_body_chunks [of rest "[]" V "\<lparr>tu_input_tokens = 0, tu_output_tokens = 0\<rparr>" cs]
  by (simp add: run_attempt_def text_events_def drain_lines_events)

definition plain_stream :: stream_env where
  "plain_stream = \<lparr>sv_decode = (\<lambda>_. Inl ''json''), sv_lossy = (\<lambda>b. b), sv_provider = OpenAi\<rparr>"

lemma stream_ignores_chunking_witness:
  "run_attempt plain_stream (Rp_Response 200 [] [Br_Bytes ''da'', Br_Bytes (''ta: x'' @ [CHR 0x0A] @ ''data: y'')]) =
     [Inr (SseData ''x''), Inr Tv_Eof]"
proof -
  have "text_events plain_stream (concat [''da'', ''ta: x'' @ [CHR 0x0A] @ ''data: y'']) = [SseData ''x'']" by code_simp
  then show ?thesis
    using stream_ignores_chunking [of 200 "[]" plain_stream "[]" "[''da'', ''ta: x'' @ [CHR 0x0A] @ ''data: y'']"] by simp
qed

section \<open>Retries never repeat a token\<close>

text \<open>A usage event always comes right before the payload it was read from.\<close>

fun well_paired :: "(stream_error, transport_event) result list \<Rightarrow> bool" where
  "well_paired (Inr (Tv_Usage u) # evs) = (case evs of Inr (SseData p) # evs' \<Rightarrow> well_paired evs' | _ \<Rightarrow> False)"
| "well_paired (Inr (SseData p) # evs) = well_paired evs"
| "well_paired _ = True"

lemma well_paired_line: "line_events V l u = (evs, u') \<Longrightarrow> well_paired rest \<Longrightarrow> well_paired (map Inr evs @ rest)"
  by (auto simp: line_events_def split: option.splits if_splits)

lemma well_paired_drain: "drain_lines V s u = (evs, l, u') \<Longrightarrow> well_paired rest \<Longrightarrow> well_paired (map Inr evs @ rest)"
proof (induction s u arbitrary: evs rule: lines_induct [of _ V])
  case (line a b ev u u1)
  then obtain e where "drain_lines V b u1 = (e, l, u')" "evs = ev @ e"
    using drain_lines_line [OF line(1,2)] by (cases "drain_lines V b u1") auto
  then show ?case using line.IH line.prems(2) well_paired_line [OF line(2)] by simp
qed (simp add: drain_lines_partial)

lemma well_paired_body: "well_paired (read_body V buffer u rs)"
  by (induction V buffer u rs rule: read_body.induct) (auto split: prod.splits intro: well_paired_drain)

lemma well_paired_attempt: "well_paired (run_attempt V r)"
  by (simp add: run_attempt_def well_paired_body split: response.split)

lemma silent_forward:
  assumes "forward c evs = (sent, False, fatal)" and "well_paired evs"
  shows "sent = [] \<or> fatal = Some Tr_Cancelled"
proof (cases "(evs)" rule: well_paired.cases)
  case (1 u rest)
  then obtain p rest' where r: "rest = Inr (SseData p) # rest'"
    using assms(2) by (auto split: list.splits sum.splits transport_event.splits)
  show ?thesis using assms(1) unfolding 1 r by (auto simp: is_token_def split: if_splits prod.splits)
qed (use assms(1) in \<open>auto simp: is_token_def split: if_splits prod.splits sum.splits\<close>)

definition attempt_outcome :: "stream_env \<Rightarrow> net \<Rightarrow> nat \<Rightarrow> transport_event list \<times> bool \<times> stream_error option" where
  "attempt_outcome V N n = forward (nt_cancel N n) (run_attempt V (nt_response N n))"

text \<open>What the consumer sees of one attempt.\<close>

definition delivered :: "transport_event list \<times> bool \<times> stream_error option \<Rightarrow> (stream_error, transport_event) result list" where
  "delivered r = (case r of (sent, token, fatal) \<Rightarrow> map Inr sent @ [case fatal of None \<Rightarrow> Inr Tv_Eof | Some e \<Rightarrow> Inl e])"

lemma stream_loop_delivers:
  assumes "stream_loop V retry N before x = (evs, ds, y)"
  shows "before + length ds < max (before + 1) (rp_max_attempts retry)
    \<and> (\<forall>i. before < i \<longrightarrow> i \<le> before + length ds \<longrightarrow> (\<exists>e. attempt_outcome V N i = ([], False, Some e) \<and> retriable e))
    \<and> evs = delivered (attempt_outcome V N (before + length ds + 1))"
  using assms
proof (induction V retry N before x arbitrary: evs ds rule: stream_loop.induct)
  case (1 V retry N before x)
  obtain sent token fatal where out: "attempt_outcome V N (before + 1) = (sent, token, fatal)" by (cases "attempt_outcome V N (before + 1)")
  show ?case
  proof (cases "\<exists>e. fatal = Some e \<and> e \<noteq> Tr_Cancelled \<and> \<not> token \<and> before + 1 < rp_max_attempts retry \<and> retriable e")
    case False
    then have "ds = [] \<and> evs = delivered (sent, token, fatal)"
      using "1.prems" out by (auto simp: stream_loop.simps [of V retry N before] attempt_outcome_def delivered_def Let_def split: option.splits if_splits)
    then show ?thesis using out by simp
  next
    case True
    then obtain e where e: "fatal = Some e" "e \<noteq> Tr_Cancelled" "\<not> token" "before + 1 < rp_max_attempts retry" "retriable e" by blast
    have sent: "sent = []" using silent_forward [of _ _ sent fatal] out e(1-3) well_paired_attempt unfolding attempt_outcome_def by fastforce
    obtain evs1 ds1 where r: "stream_loop V retry N (before + 1) (next_jitter x) = (evs1, ds1, y)" "evs = evs1" "ds = backoff retry (before + 1) (next_jitter x) # ds1"
      using "1.prems" out e sent by (auto simp: stream_loop.simps [of V retry N before] attempt_outcome_def Let_def split: prod.splits)
    have ih: "before + 1 + length ds1 < max (before + 1 + 1) (rp_max_attempts retry)
      \<and> (\<forall>i. before + 1 < i \<longrightarrow> i \<le> before + 1 + length ds1 \<longrightarrow> (\<exists>e. attempt_outcome V N i = ([], False, Some e) \<and> retriable e))
      \<and> evs1 = delivered (attempt_outcome V N (before + 1 + length ds1 + 1))"
      using "1.IH" [OF refl out [unfolded attempt_outcome_def, symmetric] refl e(1,2) _ r(1)] e by blast
    have "\<exists>e. attempt_outcome V N i = ([], False, Some e) \<and> retriable e" if "before < i" "i \<le> before + length ds" for i
      using ih out e sent that r(3) by (cases "i = before + 1") auto
    then show ?thesis using ih e(4) r by simp
  qed
qed

text \<open>C24: the consumer receives the events of exactly one attempt and then one final event. Every attempt before it failed with an
  error that may be retried and had delivered nothing, so no token is ever delivered twice, and there are never more attempts than
  the policy allows.\<close>
theorem retries_never_repeat_tokens:
  assumes "stream_loop V retry N 0 x = (evs, ds, y)"
  shows "length ds < max 1 (rp_max_attempts retry)
    \<and> (\<forall>i. 0 < i \<longrightarrow> i \<le> length ds \<longrightarrow> (\<exists>e. attempt_outcome V N i = ([], False, Some e) \<and> retriable e))
    \<and> evs = delivered (attempt_outcome V N (length ds + 1))"
  using stream_loop_delivers [OF assms] by simp

definition flaky_net :: net where
  "flaky_net = \<lparr>nt_response = (\<lambda>n. if n = 1 then Rp_Response 503 ''busy'' [] else Rp_Response 200 [] [Br_Bytes (''data: x'' @ [CHR 0x0A])]), nt_cancel = (\<lambda>_. None)\<rparr>"

theorem retries_never_repeat_tokens_witness:
  "\<exists>d y. stream_loop plain_stream default_retry flaky_net 0 1 = ([Inr (SseData ''x''), Inr Tv_Eof], [d], y)"
proof -
  obtain evs ds y where s: "stream_loop plain_stream default_retry flaky_net 0 1 = (evs, ds, y)"
    by (cases "stream_loop plain_stream default_retry flaky_net 0 1") auto
  have o1: "attempt_outcome plain_stream flaky_net 1 = ([], False, Some (Tr_Status 503 ''busy''))" by code_simp
  have o2: "attempt_outcome plain_stream flaky_net 2 = ([SseData ''x''], True, None)" by code_simp
  have "snd (stream_loop plain_stream default_retry flaky_net 1 z) = ([], z)" for z
    using o2 by (simp add: stream_loop.simps [of _ _ _ "Suc 0"] attempt_outcome_def numeral_2_eq_2)
  then have "length ds = 1" using s o1
    by (auto simp: stream_loop.simps [of _ _ _ 0] attempt_outcome_def default_retry_def retriable_status_def split: prod.splits)
       (metis prod.inject snd_conv)
  moreover have "evs = delivered (attempt_outcome plain_stream flaky_net (length ds + 1))" using retries_never_repeat_tokens [OF s] by blast
  ultimately show ?thesis using s o2 by (auto simp: delivered_def length_Suc_conv numeral_2_eq_2)
qed

section \<open>Backoff\<close>

lemma unat_of_max: "unat (max a b) = max (unat a) (unat b)"
  by (simp add: max_def word_le_nat_alt)

lemma unat_of_min: "unat (min a b) = min (unat a) (unat b)"
  by (simp add: min_def word_le_nat_alt)

text \<open>The delay computed on 64-bit words is the delay meant: half of the exponential step, saturated, plus the jitter below the other half,
  at most the limit and at least a millisecond; no sum wraps around.\<close>

lemma backoff_does_not_wrap:
  assumes "rp_base_delay retry < 2 ^ 64" and "rp_max_delay retry < 2 ^ 64"
  shows "unat (backoff retry attempt x) =
    (let half = max 1 (min (2 ^ 64 - 1) (rp_base_delay retry * 2 ^ (min attempt 5 - 1)) div 2)
     in max 1 (min (rp_max_delay retry) (half + unat x mod half)))"
proof -
  define exp where "exp = saturating_mul (of_nat (rp_base_delay retry)) (push_bit (min attempt 5 - 1) 1)"
  define half where "half = max (exp div 2) 1"
  have "unat (2 ^ k :: 64 word) = 2 ^ k" if "k \<in> {0, 1, 2, 3, 4}" for k using that by auto
  moreover have "min attempt 5 - 1 \<in> {0, 1, 2, 3, 4}" by (auto simp: min_def)
  ultimately have p: "unat (2 ^ (min attempt 5 - 1) :: 64 word) = 2 ^ (min attempt 5 - 1)" by blast
  have b: "unat (of_nat (rp_base_delay retry) :: 64 word) = rp_base_delay retry" "unat (of_nat (rp_max_delay retry) :: 64 word) = rp_max_delay retry"
    using assms by (simp_all add: unsigned_of_nat take_bit_nat_eq_self)
  have e: "unat exp = min (2 ^ 64 - 1) (rp_base_delay retry * 2 ^ (min attempt 5 - 1))"
    using p by (auto simp: exp_def saturating_mul_def b min_def unat_word_ariths unsigned_minus_1_eq_mask mask_eq_exp_minus_1)
  have h: "unat half = max 1 (unat exp div 2)"
    by (simp add: half_def unat_of_max unat_div max.commute)
  have "unat exp < 2 ^ 64" using unsigned_less [of exp] by simp
  then have "unat exp div 2 \<le> 2 ^ 63" using div_le_mono [of "unat exp" "2 ^ 64" 2] by simp
  then have "2 * unat half \<le> 2 ^ 64" using h by (simp add: max_def)
  moreover have "unat x mod unat half < unat half" using h by simp
  ultimately have "unat (half + x mod half) = unat half + unat x mod unat half" by (simp add: unat_word_ariths unat_mod)
  then have "unat (backoff retry attempt x) = max 1 (min (rp_max_delay retry) (unat half + unat x mod unat half))"
    unfolding backoff_def Let_def half_def [symmetric] exp_def [symmetric] unat_of_max unat_of_min b unsigned_1
    by (simp only: max.commute min.commute)
  then show ?thesis by (simp only: Let_def h e)
qed

lemma backoff_does_not_wrap_witness:
  "unat (backoff \<lparr>rp_max_attempts = 3, rp_base_delay = 2 ^ 64 - 1, rp_max_delay = 8000\<rparr> 7 42) = 8000"
  using backoff_does_not_wrap [of "\<lparr>rp_max_attempts = 3, rp_base_delay = 2 ^ 64 - 1, rp_max_delay = 8000\<rparr>" 7 42] by simp

end
