(* ===== verification/Model_Routing.thy ===== *)
theory Model_Routing
  imports Provider_Gateway Ordered_Map
begin

text \<open>
  Routing of a task to a model, \<^verbatim>\<open>crates/providers/src/routing.rs\<close>, and the resolution of a requested dispatch under an enterprise
  policy, \<^verbatim>\<open>envelope.rs\<close>. Prices are floating-point numbers that are only compared: they are elements of a linear order, and
  \<open>None\<close> is the value that compares with nothing.
\<close>

section \<open>The catalogue and the requirements\<close>

record 'c model_capability =
  mc_model :: string
  mc_provider :: string
  mc_context_window :: nat
  mc_max_output_tokens :: nat
  mc_supports_tools :: bool
  mc_supports_parallel_tools :: bool
  mc_supports_vision :: bool
  mc_supports_reasoning :: bool
  mc_supports_structured_output :: bool
  mc_media_modalities :: "string list"
  mc_supports_tool_result_formatting :: bool
  mc_cost_per_1k_input :: "'c option"
  mc_cost_per_1k_output :: "'c option"
  mc_success_rate :: "'c option"
  mc_latency_class :: string

record task_fingerprint =
  tf_requires_tools :: bool
  tf_requires_vision :: bool
  tf_requires_reasoning :: bool
  tf_requires_structured_output :: bool
  tf_requires_media_modalities :: "string list"
  tf_requires_tool_result_formatting :: bool
  tf_min_context_tokens :: nat
  tf_min_output_tokens :: nat
  tf_blocked_models :: "string list"
  tf_blocked_providers :: "string list"
  tf_required_model :: "string option"

datatype service_tier = St_Standard | St_Flex | St_Priority

record enterprise_policy =
  ep_blocked_models :: "string list"
  ep_blocked_providers :: "string list"
  ep_required_model :: "string option"
  ep_allowed_service_tiers :: "service_tier list option"

record route_decision =
  rd_model :: string
  rd_provider :: string
  rd_exclusion_reasons :: "string list"
  rd_decision_record :: string

section \<open>Routing\<close>

text \<open>\<open>Vec::retain\<close> with a test that also says why an element goes.\<close>

definition retain :: "('m \<Rightarrow> bool) \<Rightarrow> ('m \<Rightarrow> string list) \<Rightarrow> 'm list \<times> string list \<Rightarrow> 'm list \<times> string list" where
  "retain ok why = (\<lambda>(cs, ex). (filter ok cs, ex @ concat (map why (filter (\<lambda>c. \<not> ok c) cs))))"

definition retain_if :: "bool \<Rightarrow> ('c model_capability \<Rightarrow> bool) \<Rightarrow> string \<Rightarrow> 'c model_capability list \<times> string list \<Rightarrow> 'c model_capability list \<times> string list" where
  "retain_if required ok what = (if required then retain ok (\<lambda>c. [mc_model c @ what]) else (\<lambda>x. x))"

definition not_blocked :: "enterprise_policy \<Rightarrow> 'c model_capability \<Rightarrow> bool" where
  "not_blocked policy c \<longleftrightarrow> mc_model c \<notin> set (ep_blocked_models policy) \<and> mc_provider c \<notin> set (ep_blocked_providers policy)"

definition why_blocked :: "enterprise_policy \<Rightarrow> 'c model_capability \<Rightarrow> string list" where
  "why_blocked policy c =
     (if mc_model c \<in> set (ep_blocked_models policy) then [mc_model c @ '': blocked by enterprise policy (model)''] else []) @
     (if mc_provider c \<in> set (ep_blocked_providers policy) then [mc_provider c @ '': blocked by enterprise policy (provider)''] else [])"

definition retain_modality :: "string \<Rightarrow> 'c model_capability list \<times> string list \<Rightarrow> 'c model_capability list \<times> string list" where
  "retain_modality m = retain (\<lambda>c. m \<in> set (mc_media_modalities c)) (\<lambda>c. [mc_model c @ '': media modality '' @ debug_str m @ '' unsupported''])"

definition retain_required :: "string option \<Rightarrow> 'c model_capability list \<times> string list \<Rightarrow> 'c model_capability list \<times> string list" where
  "retain_required r =
     (case r of
        None \<Rightarrow> (\<lambda>x. x)
      | Some required \<Rightarrow> retain (\<lambda>c. mc_model c = required) (\<lambda>c. [mc_model c @ '': not the enterprise-required model '' @ required]))"

definition candidates :: "task_fingerprint \<Rightarrow> enterprise_policy \<Rightarrow> 'c model_capability list \<Rightarrow> 'c model_capability list \<times> string list" where
  "candidates fp policy catalog =
     (let s1 = retain (not_blocked policy) (why_blocked policy) (catalog, []);
          s2 = retain (\<lambda>c. mc_context_window c \<ge> tf_min_context_tokens fp)
                 (\<lambda>c. [mc_model c @ '': context '' @ show_nat (mc_context_window c) @ '' < required '' @ show_nat (tf_min_context_tokens fp)]) s1;
          s3 = retain (\<lambda>c. mc_max_output_tokens c \<ge> tf_min_output_tokens fp)
                 (\<lambda>c. [mc_model c @ '': output '' @ show_nat (mc_max_output_tokens c) @ '' < required '' @ show_nat (tf_min_output_tokens fp)]) s2;
          s4 = retain_if (tf_requires_tools fp) mc_supports_tools '': no tool support'' s3;
          s5 = retain_if (tf_requires_vision fp) mc_supports_vision '': no vision support'' s4;
          s6 = retain_if (tf_requires_reasoning fp) mc_supports_reasoning '': no reasoning support'' s5;
          s7 = retain_if (tf_requires_structured_output fp) mc_supports_structured_output '': no structured output'' s6;
          s8 = foldl (\<lambda>s m. retain_modality m s) s7 (tf_requires_media_modalities fp);
          s9 = retain_if (tf_requires_tool_result_formatting fp) mc_supports_tool_result_formatting '': no tool-result formatting support'' s8
      in retain_required (ep_required_model policy) s9)"

text \<open>The order of \<open>sort_by\<close>: by price, then by name. The sort is stable.\<close>

definition not_after :: "'c::linorder model_capability \<Rightarrow> 'c model_capability \<Rightarrow> bool" where
  "not_after a b =
     (case (mc_cost_per_1k_input a, mc_cost_per_1k_input b) of
        (Some x, Some y) \<Rightarrow> x < y \<or> (x = y \<and> mc_model a \<le> mc_model b)
      | _ \<Rightarrow> mc_model a \<le> mc_model b)"

fun insert_by :: "('a \<Rightarrow> 'a \<Rightarrow> bool) \<Rightarrow> 'a \<Rightarrow> 'a list \<Rightarrow> 'a list" where
  "insert_by le x [] = [x]"
| "insert_by le x (y # ys) = (if le x y then x # y # ys else y # insert_by le x ys)"

definition sort_by :: "('a \<Rightarrow> 'a \<Rightarrow> bool) \<Rightarrow> 'a list \<Rightarrow> 'a list" where
  "sort_by le xs = foldr (insert_by le) xs []"

definition route :: "task_fingerprint \<Rightarrow> enterprise_policy \<Rightarrow> 'c::linorder model_capability list \<Rightarrow> (string list, route_decision) result" where
  "route fp policy catalog =
     (case candidates fp policy catalog of
        (cs, exclusions) \<Rightarrow>
          (case sort_by not_after cs of
             [] \<Rightarrow> Inl exclusions
           | winner # _ \<Rightarrow>
               Inr \<lparr>rd_model = mc_model winner, rd_provider = mc_provider winner, rd_exclusion_reasons = exclusions,
                    rd_decision_record = ''routed to '' @ mc_model winner @ '' (provider '' @ mc_provider winner @ '') '' @
                      [CHR 0xE2, CHR 0x80, CHR 0x94] @ '' cost-optimized from '' @ show_nat (length catalog) @ '' candidates, '' @
                      show_nat (length exclusions) @ '' excluded''\<rparr>))"

fun fallback_loop :: "string list \<Rightarrow> (string, 'c model_capability) btree \<Rightarrow> string list \<Rightarrow> (string list, route_decision) result" where
  "fallback_loop [] catalog attempts = Inl attempts"
| "fallback_loop (model # chain) catalog attempts =
     (case bt_get model catalog of
        Some cap \<Rightarrow>
          Inr \<lparr>rd_model = model, rd_provider = mc_provider cap, rd_exclusion_reasons = attempts,
               rd_decision_record = ''fallback chain resolved to '' @ model\<rparr>
      | None \<Rightarrow> fallback_loop chain catalog (attempts @ [model @ '': not in catalog'']))"

definition fallback_chain :: "string list \<Rightarrow> (string, 'c model_capability) btree \<Rightarrow> (string list, route_decision) result" where
  "fallback_chain chain catalog = fallback_loop chain catalog []"

section \<open>Resolution of a dispatch\<close>

instantiation service_tier :: linorder
begin

definition tier_rank :: "service_tier \<Rightarrow> nat" where
  "tier_rank t = (case t of St_Standard \<Rightarrow> 0 | St_Flex \<Rightarrow> 1 | St_Priority \<Rightarrow> 2)"

definition less_eq_service_tier :: "service_tier \<Rightarrow> service_tier \<Rightarrow> bool" where
  "less_eq_service_tier a b \<longleftrightarrow> tier_rank a \<le> tier_rank b"

definition less_service_tier :: "service_tier \<Rightarrow> service_tier \<Rightarrow> bool" where
  "less_service_tier a b \<longleftrightarrow> tier_rank a < tier_rank b"

instance
  by standard (auto simp: less_eq_service_tier_def less_service_tier_def tier_rank_def split: service_tier.splits)

end

fun show_service_tier :: "service_tier \<Rightarrow> string" where
  "show_service_tier St_Standard = ''standard''"
| "show_service_tier St_Flex = ''flex''"
| "show_service_tier St_Priority = ''priority''"

record requested_dispatch =
  qd_model :: string
  qd_reasoning_effort :: "reasoning_effort option"
  qd_service_tier :: "service_tier option"

record resolved_dispatch =
  vd_model :: string
  vd_provider :: string
  vd_reasoning_effort :: reasoning_effort
  vd_service_tier :: service_tier

record routing_record =
  rr_requested :: requested_dispatch
  rr_resolved :: resolved_dispatch
  rr_policy_reason :: string

definition family :: "string \<Rightarrow> string" where
  "family model = hd (str_split (\<lambda>c. c = CHR ''-'') model)"

definition resolve_model ::
  "string \<Rightarrow> enterprise_policy \<Rightarrow> 'c model_capability list \<Rightarrow> (string, 'c model_capability \<times> string list) result" where
  "resolve_model requested policy catalog =
     (if requested \<in> set (ep_blocked_models policy)
      then let open_models = filter (\<lambda>c. mc_model c \<notin> set (ep_blocked_models policy)) catalog
           in and_then (ok_or ''no unblocked model in catalog''
                (case find (\<lambda>c. starts_with (mc_model c) (family requested)) open_models of
                   Some c \<Rightarrow> Some c
                 | None \<Rightarrow> find (\<lambda>c. mc_model c \<notin> set (ep_blocked_models policy)) catalog))
                (\<lambda>f. Inr (f, [''model '' @ requested @ '' blocked by enterprise policy; resolved to '' @ mc_model f]))
      else and_then (ok_or (''requested model '' @ requested @ '' not in catalog'') (find (\<lambda>c. mc_model c = requested) catalog))
             (\<lambda>c. Inr (c, [])))"

definition clamp_tier :: "service_tier list option \<Rightarrow> service_tier \<Rightarrow> service_tier \<times> string list" where
  "clamp_tier allowed t =
     (case allowed of
        None \<Rightarrow> (t, [])
      | Some ts \<Rightarrow>
          if ts \<noteq> [] \<and> t \<notin> set ts
          then let clamped = foldl max (hd ts) (tl ts)
               in (min clamped t,
                   if clamped < t
                   then [''service tier '' @ show_service_tier t @ '' above policy ceiling; clamped to '' @ show_service_tier clamped]
                   else [])
          else (t, []))"

definition resolve_dispatch ::
  "requested_dispatch \<Rightarrow> enterprise_policy \<Rightarrow> 'c model_capability list \<Rightarrow> reasoning_effort \<Rightarrow> (string, routing_record) result" where
  "resolve_dispatch requested policy catalog default_effort =
     and_then (resolve_model (qd_model requested) policy catalog) (\<lambda>(c, reasons).
       case clamp_tier (ep_allowed_service_tiers policy) (case qd_service_tier requested of Some t \<Rightarrow> t | None \<Rightarrow> St_Standard) of
         (tier, why) \<Rightarrow>
           Inr \<lparr>rr_requested = requested,
                rr_resolved = \<lparr>vd_model = mc_model c, vd_provider = mc_provider c,
                  vd_reasoning_effort = (case qd_reasoning_effort requested of Some e \<Rightarrow> e | None \<Rightarrow> default_effort),
                  vd_service_tier = tier\<rparr>,
                rr_policy_reason = (if reasons @ why = [] then ''honored as requested'' else str_join ''; '' (reasons @ why))\<rparr>)"

section \<open>What is routed\<close>

definition qualifies :: "task_fingerprint \<Rightarrow> enterprise_policy \<Rightarrow> 'c model_capability \<Rightarrow> bool" where
  "qualifies fp policy c \<longleftrightarrow>
     not_blocked policy c \<and> tf_min_context_tokens fp \<le> mc_context_window c \<and> tf_min_output_tokens fp \<le> mc_max_output_tokens c
     \<and> (tf_requires_tools fp \<longrightarrow> mc_supports_tools c) \<and> (tf_requires_vision fp \<longrightarrow> mc_supports_vision c)
     \<and> (tf_requires_reasoning fp \<longrightarrow> mc_supports_reasoning c) \<and> (tf_requires_structured_output fp \<longrightarrow> mc_supports_structured_output c)
     \<and> set (tf_requires_media_modalities fp) \<subseteq> set (mc_media_modalities c)
     \<and> (tf_requires_tool_result_formatting fp \<longrightarrow> mc_supports_tool_result_formatting c)
     \<and> (\<forall>m. ep_required_model policy = Some m \<longrightarrow> mc_model c = m)"

lemma retain_fst [simp]: "fst (retain ok why s) = filter ok (fst s)"
  by (simp add: retain_def split: prod.splits)

lemma retain_if_fst [simp]: "fst (retain_if required ok what s) = filter (\<lambda>c. required \<longrightarrow> ok c) (fst s)"
  by (simp add: retain_if_def)

lemma retain_modalities_fst:
  "fst (foldl (\<lambda>s m. retain_modality m s) s ms) = filter (\<lambda>c. set ms \<subseteq> set (mc_media_modalities c)) (fst s)"
  by (induction ms arbitrary: s) (auto simp: retain_modality_def intro: filter_cong)

lemma candidates_qualify: "fst (candidates fp policy catalog) = filter (qualifies fp policy) catalog"
  by (auto simp: candidates_def Let_def retain_modalities_fst retain_required_def qualifies_def split: option.splits intro!: filter_cong)

lemma insert_by_set [simp]: "set (insert_by le x ys) = insert x (set ys)"
  by (induction ys) auto

lemma sort_by_set [simp]: "set (sort_by le xs) = set xs"
  by (induction xs) (simp_all add: sort_by_def)

text \<open>With prices that can be compared the head of a sorted list comes before all others.\<close>

definition priced :: "'c model_capability \<Rightarrow> bool" where
  "priced c \<longleftrightarrow> mc_cost_per_1k_input c \<noteq> None"

lemma not_after_total: "priced a \<Longrightarrow> priced b \<Longrightarrow> \<not> not_after a b \<Longrightarrow> not_after b a"
  by (auto simp: not_after_def priced_def)

lemma not_after_trans: "priced a \<Longrightarrow> priced b \<Longrightarrow> priced c \<Longrightarrow> not_after a b \<Longrightarrow> not_after b c \<Longrightarrow> not_after a c"
  by (auto simp: not_after_def priced_def)

lemma insert_by_head:
  assumes "\<forall>c \<in> insert x (set ys). priced c" and "sorted_wrt not_after ys"
  shows "sorted_wrt not_after (insert_by not_after x ys)"
  using assms
proof (induction ys)
  case (Cons y ys)
  have t: "\<forall>z \<in> set ys. not_after y z" "priced x" "priced y" "\<forall>z \<in> set ys. priced z" using Cons.prems by simp_all
  show ?case
  proof (cases "not_after x y")
    case True
    then have "\<forall>z \<in> set ys. not_after x z" using t not_after_trans by blast
    then show ?thesis using True Cons.prems by simp
  next
    case False
    then have "not_after y x" using t not_after_total by blast
    then show ?thesis using False Cons t by simp
  qed
qed simp

lemma sort_by_sorted: "\<forall>c \<in> set cs. priced c \<Longrightarrow> sorted_wrt not_after (sort_by not_after cs)"
proof (induction cs)
  case (Cons c cs)
  have "set (foldr (insert_by not_after) cs []) = set cs" using sort_by_set [of not_after cs] by (simp add: sort_by_def)
  then show ?case using Cons insert_by_head [of c "sort_by not_after cs"] by (simp add: sort_by_def)
qed (simp add: sort_by_def)

text \<open>A task is routed exactly when a model of the catalogue meets every requirement and the policy, and then to a cheapest of these.\<close>

lemma route_picks_cheapest:
  fixes catalog :: "'c::linorder model_capability list"
  assumes "list_all priced catalog"
  shows "case route fp policy catalog of
      Inl reasons \<Rightarrow> \<not> list_ex (qualifies fp policy) catalog
    | Inr d \<Rightarrow> \<exists>c \<in> set catalog. qualifies fp policy c \<and> rd_model d = mc_model c \<and> rd_provider d = mc_provider c
        \<and> (\<forall>c' \<in> set catalog. qualifies fp policy c' \<longrightarrow> the (mc_cost_per_1k_input c) \<le> the (mc_cost_per_1k_input c'))"
proof -
  let ?cs = "filter (qualifies fp policy) catalog"
  obtain ex where c: "candidates fp policy catalog = (?cs, ex)" using candidates_qualify [of fp policy catalog] by (metis prod.collapse)
  have all: "\<forall>c \<in> set ?cs. priced c" using assms by (simp add: list_all_iff)
  show ?thesis
  proof (cases "sort_by not_after ?cs")
    case Nil
    then have "set ?cs = {}" using sort_by_set [of not_after ?cs] by simp
    then show ?thesis using c Nil by (simp add: route_def list_ex_iff filter_empty_conv)
  next
    case (Cons w ws)
    have s: "set ?cs = insert w (set ws)" using sort_by_set [of not_after ?cs] Cons by simp
    have "the (mc_cost_per_1k_input w) \<le> the (mc_cost_per_1k_input c')" if "c' \<in> set ?cs" for c'
    proof -
      have "c' = w \<or> not_after w c'" using sort_by_sorted [OF all] that s Cons by auto
      moreover have "priced w" "priced c'" using all that s by auto
      ultimately show ?thesis by (auto simp: not_after_def priced_def)
    qed
    moreover have "w \<in> set ?cs" using s by simp
    ultimately show ?thesis using c Cons by (auto simp: route_def)
  qed
qed

definition model0 :: "string \<Rightarrow> string \<Rightarrow> nat \<Rightarrow> nat model_capability" where
  "model0 m p cost = \<lparr>mc_model = m, mc_provider = p, mc_context_window = 100, mc_max_output_tokens = 10, mc_supports_tools = True,
     mc_supports_parallel_tools = False, mc_supports_vision = False, mc_supports_reasoning = False, mc_supports_structured_output = False,
     mc_media_modalities = [], mc_supports_tool_result_formatting = False, mc_cost_per_1k_input = Some cost, mc_cost_per_1k_output = Some 0,
     mc_success_rate = Some 1, mc_latency_class = []\<rparr>"

definition task0 :: task_fingerprint where
  "task0 = \<lparr>tf_requires_tools = True, tf_requires_vision = False, tf_requires_reasoning = False, tf_requires_structured_output = False,
     tf_requires_media_modalities = [], tf_requires_tool_result_formatting = False, tf_min_context_tokens = 10, tf_min_output_tokens = 1,
     tf_blocked_models = [''b''], tf_blocked_providers = [], tf_required_model = None\<rparr>"

definition policy0 :: enterprise_policy where
  "policy0 = \<lparr>ep_blocked_models = [''a''], ep_blocked_providers = [], ep_required_model = None, ep_allowed_service_tiers = None\<rparr>"

lemma route_picks_cheapest_witness:
  "list_all priced [model0 ''a'' ''p'' 1, model0 ''b'' ''p'' 2, model0 ''c'' ''p'' 3]
   \<and> (\<exists>d. route task0 policy0 [model0 ''a'' ''p'' 1, model0 ''b'' ''p'' 2, model0 ''c'' ''p'' 3] = Inr d \<and> rd_model d = ''b'')"
proof -
  let ?cat = "[model0 ''a'' ''p'' 1, model0 ''b'' ''p'' 2, model0 ''c'' ''p'' 3]"
  have p: "list_all priced ?cat" by (simp add: priced_def model0_def)
  have q: "qualifies task0 policy0 (model0 m ''p'' n) \<longleftrightarrow> m \<noteq> ''a''" for m n
    by (simp add: qualifies_def task0_def policy0_def model0_def not_blocked_def)
  show ?thesis
  proof (cases "route task0 policy0 ?cat")
    case (Inl r)
    then show ?thesis using route_picks_cheapest [OF p, of task0 policy0] q by simp
  next
    case (Inr d)
    then show ?thesis using route_picks_cheapest [OF p, of task0 policy0] q p by (auto simp: model0_def)
  qed
qed

text \<open>The models and providers a task blocks and the model it requires play no part in routing.\<close>

lemma task_blocks_are_ignored:
  "route (fp\<lparr>tf_blocked_models := ms, tf_blocked_providers := ps, tf_required_model := r\<rparr>) policy catalog = route fp policy catalog"
  by (simp add: route_def candidates_def)

text \<open>The resolution of a dispatch does not look at the providers a policy blocks nor at the model it requires.\<close>

lemma resolution_ignores_providers:
  "resolve_dispatch req (policy\<lparr>ep_blocked_providers := ps, ep_required_model := r\<rparr>) catalog e = resolve_dispatch req policy catalog e"
  by (simp add: resolve_dispatch_def resolve_model_def cong: option.case_cong)

lemma foldl_max: "foldl max (a :: 'a :: linorder) xs = Max (insert a (set xs))"
proof (induction xs arbitrary: a)
  case (Cons x xs)
  then show ?case by (cases "xs = []") (simp_all add: max.assoc max.left_commute)
qed simp

text \<open>A resolved dispatch never has a model the policy blocks and never a higher tier than the request; its tier is one the policy
  allows unless the request was below the ceiling of a list that does not contain it, and then it goes through as it is.\<close>

lemma resolution_respects_policy:
  assumes "resolve_dispatch req policy catalog e = Inr rec"
  shows "vd_model (rr_resolved rec) \<notin> set (ep_blocked_models policy)
    \<and> (\<exists>c \<in> set catalog. mc_model c = vd_model (rr_resolved rec) \<and> mc_provider c = vd_provider (rr_resolved rec))
    \<and> (let t = (case qd_service_tier req of Some t \<Rightarrow> t | None \<Rightarrow> St_Standard); v = vd_service_tier (rr_resolved rec)
       in v \<le> t \<and> (\<forall>ts. ep_allowed_service_tiers policy = Some ts \<longrightarrow> ts \<noteq> [] \<longrightarrow> v \<in> set ts \<or> (v = t \<and> t < Max (set ts))))"
proof -
  define t where "t = (case qd_service_tier req of Some t \<Rightarrow> t | None \<Rightarrow> St_Standard)"
  obtain c why where c: "resolve_model (qd_model req) policy catalog = Inr (c, why)"
    "vd_model (rr_resolved rec) = mc_model c" "vd_provider (rr_resolved rec) = mc_provider c"
    "vd_service_tier (rr_resolved rec) = fst (clamp_tier (ep_allowed_service_tiers policy) t)"
    using assms unfolding resolve_dispatch_def t_def [symmetric]
    by (cases "clamp_tier (ep_allowed_service_tiers policy) t") (auto simp: and_then_Inr_iff)
  have "c \<in> set catalog \<and> mc_model c \<notin> set (ep_blocked_models policy)"
    using c(1) by (auto simp: resolve_model_def and_then_Inr_iff ok_or_Inr_iff Let_def split: if_splits option.splits dest!: find_SomeD)
  moreover have "v \<le> t \<and> (\<forall>ts. ep_allowed_service_tiers policy = Some ts \<longrightarrow> ts \<noteq> [] \<longrightarrow> v \<in> set ts \<or> (v = t \<and> t < Max (set ts)))"
    if "v = fst (clamp_tier (ep_allowed_service_tiers policy) t)" for v
  proof (cases "\<exists>ts. ep_allowed_service_tiers policy = Some ts \<and> ts \<noteq> [] \<and> t \<notin> set ts")
    case True
    then obtain ts where ts: "ep_allowed_service_tiers policy = Some ts" "ts \<noteq> []" "t \<notin> set ts" by blast
    then have v: "v = min (Max (set ts)) t" using that by (cases ts) (simp_all add: clamp_tier_def Let_def foldl_max)
    have "Max (set ts) \<in> set ts" using ts(2) by simp
    then have "v \<in> set ts \<and> v \<le> t \<or> v = t \<and> t < Max (set ts)"
      using v by (cases "t < Max (set ts)") (auto simp del: Max_less_iff Max_gr_iff Max_le_iff Max_ge_iff simp: min_def not_less)
    then show ?thesis using ts(1) by auto
  next
    case False
    then show ?thesis using that by (auto simp: clamp_tier_def split: option.splits)
  qed
  ultimately show ?thesis using c(2,3,4) unfolding t_def by (auto simp: Let_def)
qed

lemma resolution_respects_policy_witness:
  "\<exists>rec. resolve_dispatch \<lparr>qd_model = ''b'', qd_reasoning_effort = None, qd_service_tier = Some St_Flex\<rparr>
      (policy0\<lparr>ep_allowed_service_tiers := Some [St_Standard, St_Priority]\<rparr>) [model0 ''b'' ''p'' 1] Low = Inr rec
    \<and> vd_service_tier (rr_resolved rec) \<le> St_Flex \<and> rr_policy_reason rec = ''honored as requested''"
proof -
  let ?q = "\<lparr>qd_model = ''b'', qd_reasoning_effort = None, qd_service_tier = Some St_Flex\<rparr>" and ?p = "policy0\<lparr>ep_allowed_service_tiers := Some [St_Standard, St_Priority]\<rparr>"
  obtain rec where r: "resolve_dispatch ?q ?p [model0 ''b'' ''p'' 1] Low = Inr rec" "rr_policy_reason rec = ''honored as requested''"
    by (simp add: resolve_dispatch_def resolve_model_def policy0_def model0_def ok_or_def clamp_tier_def less_service_tier_def max_def
        less_eq_service_tier_def tier_rank_def)
  then show ?thesis using resolution_respects_policy [OF r(1)] by (auto simp: Let_def)
qed

end
