(* ===== verification/Credential_Broker.thy ===== *)
theory Credential_Broker
  imports Rust_Text
begin

text \<open>
  The credential broker of \<^verbatim>\<open>crates/secrets/src/lib.rs\<close>: secrets under opaque references, leases that bind a secret to a task, a
  generation, scopes and a time, their materialisation and revocation, and the redaction of known secrets from text. SHA-256 and
  the clock are parameters. The leases are kept as a list with one entry for each id; its order is the order in which the hash map
  happens to be traversed, and the theorems do not depend on it.
\<close>

section \<open>State\<close>

record secret_ref =
  sr_id :: string
  sr_name :: string

datatype cred_scope = ProcEnv | HttpHeader

record credential_lease =
  cl_lease_id :: string
  cl_handle :: string
  cl_task :: string
  cl_generation :: nat
  cl_secret_ref_id :: string
  cl_scopes :: "cred_scope list"
  cl_expires_at :: nat

datatype credential_error =
    UnknownLease
  | Cr_Expired
  | Cr_Revoked
  | TaskMismatch string
  | Cr_Fenced nat
  | ScopeDenied cred_scope

record credential_event =
  ce_kind :: string
  ce_lease_id :: string
  ce_secret_ref_id :: string
  ce_task :: string

datatype lease_state = Lease_Live | Lease_Revoked

record credential_broker =
  cb_secrets :: "string \<Rightarrow> (string \<times> string) option"
  cb_leases :: "(string \<times> credential_lease \<times> lease_state) list"
  cb_audit :: "credential_event list"
  cb_counter :: nat

definition broker_new :: credential_broker where
  "broker_new = \<lparr>cb_secrets = (\<lambda>_. None), cb_leases = [], cb_audit = [], cb_counter = 0\<rparr>"

section \<open>Operations\<close>

definition hex_pair :: "char \<Rightarrow> string" where
  "hex_pair c = [hex_digit (of_char c div 16), hex_digit (of_char c mod 16)]"

text \<open>The first eight bytes of a digest in hexadecimal.\<close>

definition fingerprint :: "(string \<Rightarrow> string) \<Rightarrow> string \<Rightarrow> string" where
  "fingerprint sha b = concat (map hex_pair (take 8 (sha b)))"

definition register_secret :: "(string \<Rightarrow> string) \<Rightarrow> string \<Rightarrow> string \<Rightarrow> string \<Rightarrow> credential_broker \<Rightarrow> secret_ref \<times> credential_broker" where
  "register_secret sha task name v b =
     (let i = ''secr-'' @ fingerprint sha (v @ task @ name)
      in (\<lparr>sr_id = i, sr_name = name\<rparr>, b\<lparr>cb_secrets := (cb_secrets b)(i \<mapsto> (v, name))\<rparr>))"

definition cred_event :: "string \<Rightarrow> credential_lease \<Rightarrow> credential_event" where
  "cred_event kind l = \<lparr>ce_kind = kind, ce_lease_id = cl_lease_id l, ce_secret_ref_id = cl_secret_ref_id l, ce_task = cl_task l\<rparr>"

definition audit_push :: "credential_event \<Rightarrow> credential_broker \<Rightarrow> credential_broker" where
  "audit_push e b = b\<lparr>cb_audit := cb_audit b @ [e]\<rparr>"

definition lease_name :: "nat \<Rightarrow> string" where
  "lease_name n = ''lease-'' @ pad_zero 8 (show_nat n)"

definition issue_lease ::
  "(string \<Rightarrow> string) \<Rightarrow> nat \<Rightarrow> secret_ref \<Rightarrow> string \<Rightarrow> nat \<Rightarrow> cred_scope list \<Rightarrow> nat \<Rightarrow> credential_broker
   \<Rightarrow> (credential_error, credential_lease) result \<times> credential_broker" where
  "issue_lease sha now r task generation scopes ttl b =
     (if cb_secrets b (sr_id r) = None then (Inl UnknownLease, b)
      else let n = cb_counter b + 1;
               i = lease_name n;
               l = \<lparr>cl_lease_id = i, cl_handle = ''cred-'' @ fingerprint sha (i @ task), cl_task = task, cl_generation = generation,
                    cl_secret_ref_id = sr_id r, cl_scopes = scopes, cl_expires_at = now + ttl\<rparr>
           in (Inr l, audit_push (cred_event ''issue'' l) (b\<lparr>cb_counter := n, cb_leases := cb_leases b @ [(i, l, Lease_Live)]\<rparr>)))"

definition check_lease :: "nat \<Rightarrow> string \<Rightarrow> nat \<Rightarrow> cred_scope \<Rightarrow> credential_lease \<times> lease_state \<Rightarrow> (string \<times> credential_error) option" where
  "check_lease now task generation scope x =
     (case x of (l, st) \<Rightarrow>
        if st \<noteq> Lease_Live then Some (''denied-revoked'', Cr_Revoked)
        else if cl_expires_at l \<le> now then Some (''denied-expired'', Cr_Expired)
        else if cl_task l \<noteq> task then Some (''denied-task-mismatch'', TaskMismatch (cl_task l))
        else if cl_generation l < generation then Some (''denied-fenced'', Cr_Fenced (cl_generation l))
        else if scope \<notin> set (cl_scopes l) then Some (''denied-scope'', ScopeDenied scope)
        else None)"

definition materialize ::
  "nat \<Rightarrow> string \<Rightarrow> string \<Rightarrow> nat \<Rightarrow> cred_scope \<Rightarrow> credential_broker \<Rightarrow> (credential_error, string) result \<times> credential_broker" where
  "materialize now handle task generation scope b =
     (case find (\<lambda>(i, l, st). cl_handle l = handle) (cb_leases b) of
        None \<Rightarrow> (Inl UnknownLease, audit_push \<lparr>ce_kind = ''denied-unknown'', ce_lease_id = [], ce_secret_ref_id = [], ce_task = task\<rparr> b)
      | Some (i, l, st) \<Rightarrow>
          (case check_lease now task generation scope (l, st) of
             Some (kind, e) \<Rightarrow> (Inl e, audit_push (cred_event kind l) b)
           | None \<Rightarrow>
               (case cb_secrets b (cl_secret_ref_id l) of
                  None \<Rightarrow> (Inl UnknownLease, b)
                | Some (v, _) \<Rightarrow> (Inr v, audit_push (cred_event ''materialize'' l\<lparr>ce_task := task\<rparr>) b))))"

definition revoke :: "string \<Rightarrow> credential_broker \<Rightarrow> credential_broker" where
  "revoke lease_id b =
     (case find (\<lambda>x. fst x = lease_id) (cb_leases b) of
        None \<Rightarrow> b
      | Some (_, l, _) \<Rightarrow>
          audit_push (cred_event ''revoke'' l)
            (b\<lparr>cb_leases := map (\<lambda>(i, l, st). (i, l, if i = lease_id then Lease_Revoked else st)) (cb_leases b)\<rparr>))"

definition revoke_task :: "string \<Rightarrow> credential_broker \<Rightarrow> credential_broker" where
  "revoke_task task b = foldl (\<lambda>b i. revoke i b) b (map fst (filter (\<lambda>(i, l, st). cl_task l = task) (cb_leases b)))"

section \<open>Redaction\<close>

text \<open>\<open>str::replace\<close>: occurrences from the left that do not overlap.\<close>

function str_replace :: "string \<Rightarrow> string \<Rightarrow> string \<Rightarrow> string" where
  "str_replace p r [] = []"
| "str_replace p r (c # cs) =
     (if p \<noteq> [] \<and> prefix p (c # cs) then r @ str_replace p r (drop (length p) (c # cs)) else c # str_replace p r cs)"
  by pat_completeness auto
termination
  by (relation "measure (\<lambda>(p, r, s). length s)") auto

definition marker :: "nat \<Rightarrow> string" where
  "marker i = ''[REDACTED:secret-'' @ show_nat i @ '']''"

definition redact_one :: "nat \<times> string \<Rightarrow> string \<Rightarrow> string" where
  "redact_one iv out =
     (case iv of (i, secret) \<Rightarrow>
        if secret = [] then out
        else if valid_utf8 secret \<and> str_contains out secret then str_replace secret (marker i) out
        else out)"

definition redact :: "string \<Rightarrow> string list \<Rightarrow> string" where
  "redact txt known = fold redact_one (zip [0..<length known] known) txt"

section \<open>What redaction hides\<close>

text \<open>A text without a character of the replacement occurs afterwards only where it occurred before.\<close>

lemma prefix_replaced:
  "prefix q (str_replace p r s) \<Longrightarrow> set q \<inter> set r = {} \<Longrightarrow> r \<noteq> [] \<Longrightarrow> prefix q s"
proof (induction p r s arbitrary: q rule: str_replace.induct)
  case (2 p r c cs)
  show ?case
  proof (cases "p \<noteq> [] \<and> prefix p (c # cs)")
    case True
    then have "q = []" using "2.prems" by (cases q; cases r) auto
    then show ?thesis by simp
  next
    case False
    then show ?thesis using "2.prems" "2.IH"(2) [OF False] by (cases q) auto
  qed
qed simp

lemma sublist_behind: "sublist q (r @ s) \<Longrightarrow> q \<noteq> [] \<Longrightarrow> set q \<inter> set r = {} \<Longrightarrow> sublist q s"
proof (induction r)
  case (Cons a r)
  then show ?case by (cases q) (auto simp: sublist_Cons_right)
qed simp

lemma sublist_replaced:
  "sublist q (str_replace p r s) \<Longrightarrow> q \<noteq> [] \<Longrightarrow> set q \<inter> set r = {} \<Longrightarrow> r \<noteq> [] \<Longrightarrow> sublist q s"
proof (induction p r s rule: str_replace.induct)
  case (2 p r c cs)
  show ?case
  proof (cases "p \<noteq> [] \<and> prefix p (c # cs)")
    case True
    then have "sublist q (str_replace p r (drop (length p) (c # cs)))" using sublist_behind [of q r] "2.prems" by auto
    then have "sublist q (drop (length p) (c # cs))" using "2.IH"(1) [OF True] "2.prems" by blast
    then show ?thesis using sublist_order.order.trans [OF _ suffix_imp_sublist [OF suffix_drop]] by blast
  next
    case False
    then consider "prefix q (str_replace p r (c # cs))" | "sublist q (str_replace p r cs)"
      using "2.prems"(1) by (auto simp: sublist_Cons_right simp del: prefix_Cons)
    then show ?thesis
    proof cases
      case 1
      then show ?thesis using prefix_replaced [OF _ "2.prems"(3,4)] prefix_imp_sublist by blast
    next
      case 2
      then show ?thesis using "2.IH"(2) [OF False] "2.prems"(2-4) by (simp add: sublist_Cons_right)
    qed
  qed
qed simp

lemma replaced_is_gone:
  "p \<noteq> [] \<Longrightarrow> set p \<inter> set r = {} \<Longrightarrow> r \<noteq> [] \<Longrightarrow> \<not> sublist p (str_replace p r s)"
proof (induction p r s rule: str_replace.induct)
  case (2 p r c cs)
  show ?case
  proof (cases "p \<noteq> [] \<and> prefix p (c # cs)")
    case True
    then show ?thesis using sublist_behind [of p r] "2.IH"(1) [OF True] "2.prems" by auto
  next
    case False
    then have "\<not> prefix p (str_replace p r (c # cs))" using prefix_replaced [of p p r "c # cs"] "2.prems" by blast
    then show ?thesis using "2.IH"(2) [OF False] "2.prems" False by (simp add: sublist_Cons_right)
  qed
qed simp

definition unlike_marker :: "string \<Rightarrow> bool" where
  "unlike_marker v \<longleftrightarrow> v \<noteq> [] \<and> list_all (\<lambda>c. \<not> is_digit c \<and> c \<notin> set ''[REDACTED:secret-]'') v"

lemma unlike_marker_disjoint:
  assumes "unlike_marker v"
  shows "v \<noteq> []" and "set v \<inter> set (marker i) = {}" and "marker i \<noteq> []"
proof -
  have "is_digit c \<or> c \<in> set ''[REDACTED:secret-]''" if "c \<in> set (marker i)" for c
    using that show_nat_digits [of c i] by (auto simp: marker_def list_all_iff)
  then show "set v \<inter> set (marker i) = {}" using assms by (fastforce simp: unlike_marker_def list_all_iff simp del: set_simps)
  show "v \<noteq> []" using assms by (simp add: unlike_marker_def)
  show "marker i \<noteq> []" by (simp add: marker_def)
qed

lemma redact_one_keeps:
  assumes "unlike_marker v" and "\<not> sublist v out"
  shows "\<not> sublist v (redact_one (i, w) out)"
  using assms(2) sublist_replaced [of v w "marker i" out] unlike_marker_disjoint [OF assms(1)] by (auto simp: redact_one_def)

lemma redact_one_hides:
  assumes "unlike_marker v" and "valid_utf8 v"
  shows "\<not> sublist v (redact_one (i, v) out)"
  using assms(2) replaced_is_gone [of v "marker i" out] unlike_marker_disjoint [OF assms(1)] by (auto simp: redact_one_def str_contains_def)

text \<open>C21: no known secret is left in a redacted text, whatever the other secrets are, as long as the secret is text and shares no
  character with the markers.\<close>
theorem redacted_text_hides_secrets:
  assumes "v \<in> set known" and "valid_utf8 v" and "unlike_marker v"
  shows "\<not> str_contains (redact txt known) v"
proof -
  obtain k where k: "k < length known" "known ! k = v" using assms(1) by (auto simp: in_set_conv_nth)
  let ?z = "zip [0..<length known] known"
  have split: "?z = take k ?z @ (k, v) # drop (Suc k) ?z" using id_take_nth_drop [of k ?z] k by simp
  have keep: "\<not> sublist v out \<Longrightarrow> \<not> sublist v (fold redact_one xs out)" for xs out
  proof (induction xs arbitrary: out)
    case (Cons x xs)
    then show ?case using redact_one_keeps [OF assms(3), of out "fst x" "snd x"] by simp
  qed simp
  have "redact txt known = fold redact_one (drop (Suc k) ?z) (redact_one (k, v) (fold redact_one (take k ?z) txt))"
    unfolding redact_def by (subst split) (simp only: fold_append fold.simps comp_apply)
  then show ?thesis using keep redact_one_hides [OF assms(3,2)] by (simp add: str_contains_def)
qed

theorem redacted_text_hides_secrets_witness:
  "\<not> str_contains (redact ''key=zyx zy'' [''zy'', ''zyx'']) ''zyx''"
  by (rule redacted_text_hides_secrets) (code_simp+)

section \<open>Leases\<close>

lemma lease_name_inject: "lease_name m = lease_name n \<longleftrightarrow> m = n"
proof
  have zeros: "parse_digits 0 (replicate k CHR ''0'' @ w) = parse_digits 0 w" for k w
    by (induction k) (simp_all add: is_digit_def digit_val_def)
  have p: "parse_digits 0 (pad_zero 8 (show_nat k)) = Some k" for k
    unfolding pad_zero_def zeros by (rule parse_digits_show_nat)
  assume "lease_name m = lease_name n"
  then have "pad_zero 8 (show_nat m) = pad_zero 8 (show_nat n)" by (simp add: lease_name_def)
  then show "m = n" using p [of m] p [of n] by (metis option.inject)
qed simp

text \<open>Every entry is stored under the id of its lease, and the ids are those that were counted.\<close>

definition cred_inv :: "credential_broker \<Rightarrow> bool" where
  "cred_inv b \<longleftrightarrow> distinct (map fst (cb_leases b))
     \<and> list_all (\<lambda>(i, l, st). cl_lease_id l = i \<and> i \<in> lease_name ` {1..cb_counter b}) (cb_leases b)"

text \<open>The handles are truncated digests: that no two of them collide is what the broker relies on.\<close>

definition distinct_handles :: "credential_broker \<Rightarrow> bool" where
  "distinct_handles b \<longleftrightarrow> distinct (map (\<lambda>(i, l, st). cl_handle l) (cb_leases b))"

datatype cred_op =
    Cr_Register string string string
  | Cr_Issue nat secret_ref string nat "cred_scope list" nat
  | Cr_Materialize nat string string nat cred_scope
  | Cr_Revoke string
  | Cr_RevokeTask string

fun cred_step :: "(string \<Rightarrow> string) \<Rightarrow> credential_broker \<Rightarrow> cred_op \<Rightarrow> credential_broker" where
  "cred_step sha b (Cr_Register task name v) = snd (register_secret sha task name v b)"
| "cred_step sha b (Cr_Issue now r task g scopes ttl) = snd (issue_lease sha now r task g scopes ttl b)"
| "cred_step sha b (Cr_Materialize now handle task g scope) = snd (materialize now handle task g scope b)"
| "cred_step sha b (Cr_Revoke i) = revoke i b"
| "cred_step sha b (Cr_RevokeTask task) = revoke_task task b"

lemma audit_push_simps [simp]:
  "cb_leases (audit_push e b) = cb_leases b" "cb_secrets (audit_push e b) = cb_secrets b" "cb_counter (audit_push e b) = cb_counter b"
  by (simp_all add: audit_push_def)

text \<open>Nothing but revocation changes an entry.\<close>

definition revoked_by :: "(string \<times> credential_lease \<Rightarrow> bool) \<Rightarrow> credential_broker \<Rightarrow> (string \<times> credential_lease \<times> lease_state) list" where
  "revoked_by P b = map (\<lambda>(i, l, st). (i, l, if P (i, l) then Lease_Revoked else st)) (cb_leases b)"

lemma revoke_simps [simp]:
  "cb_leases (revoke i b) = revoked_by (\<lambda>(j, l). j = i) b" "cb_secrets (revoke i b) = cb_secrets b" "cb_counter (revoke i b) = cb_counter b"
proof -
  have "find (\<lambda>x. fst x = i) (cb_leases b) = None \<Longrightarrow> revoked_by (\<lambda>(j, l). j = i) b = cb_leases b"
    by (auto simp: revoked_by_def find_None_iff intro!: map_idI)
  then show "cb_leases (revoke i b) = revoked_by (\<lambda>(j, l). j = i) b" "cb_secrets (revoke i b) = cb_secrets b" "cb_counter (revoke i b) = cb_counter b"
    by (auto simp: revoke_def revoked_by_def split: option.splits)
qed

lemma revoke_all_simps:
  "cb_leases (foldl (\<lambda>b i. revoke i b) b is) = revoked_by (\<lambda>(j, l). j \<in> set is) b
   \<and> cb_secrets (foldl (\<lambda>b i. revoke i b) b is) = cb_secrets b \<and> cb_counter (foldl (\<lambda>b i. revoke i b) b is) = cb_counter b"
  by (induction "is" arbitrary: b) (auto simp: revoked_by_def)

lemma revoke_task_simps:
  assumes "cred_inv b"
  shows "cb_leases (revoke_task t b) = revoked_by (\<lambda>(j, l). cl_task l = t) b"
    and "cb_secrets (revoke_task t b) = cb_secrets b" and "cb_counter (revoke_task t b) = cb_counter b"
proof -
  let ?ids = "map fst (filter (\<lambda>(i, l, st). cl_task l = t) (cb_leases b))"
  have "i \<in> set ?ids \<longleftrightarrow> cl_task l = t" if "(i, l, st) \<in> set (cb_leases b)" for i l st
    using that assms by (force simp: cred_inv_def distinct_map inj_on_def)
  then show "cb_leases (revoke_task t b) = revoked_by (\<lambda>(j, l). cl_task l = t) b"
    using revoke_all_simps [of b ?ids] by (auto simp: revoke_task_def revoked_by_def)
  show "cb_secrets (revoke_task t b) = cb_secrets b" "cb_counter (revoke_task t b) = cb_counter b"
    using revoke_all_simps [of b ?ids] by (simp_all add: revoke_task_def)
qed

lemma materialize_simps [simp]:
  "cb_leases (snd (materialize now h t g sc b)) = cb_leases b" "cb_secrets (snd (materialize now h t g sc b)) = cb_secrets b"
  "cb_counter (snd (materialize now h t g sc b)) = cb_counter b"
  by (auto simp: materialize_def split: option.splits)

lemma revoked_by_inv: "cred_inv b \<Longrightarrow> cb_leases b' = revoked_by P b \<Longrightarrow> cb_counter b' = cb_counter b \<Longrightarrow> cred_inv b'"
  by (force simp: cred_inv_def revoked_by_def list_all_iff comp_def case_prod_unfold)

lemma issue_inv: "cred_inv b \<Longrightarrow> cred_inv (snd (issue_lease sha now r t g scopes ttl b))"
  by (force simp: issue_lease_def Let_def cred_inv_def list_all_iff lease_name_inject)

interpretation creds: machine "cred_step sha" cred_inv for sha
proof unfold_locales
  fix b x
  assume b: "cred_inv b"
  show "cred_inv (cred_step sha b x)"
  proof (cases x)
    case (Cr_Revoke i)
    then show ?thesis using revoked_by_inv [OF b] by simp
  next
    case (Cr_RevokeTask t)
    then show ?thesis using revoked_by_inv [OF b] revoke_task_simps [OF b] by simp
  qed (use b issue_inv in \<open>auto simp: register_secret_def Let_def cred_inv_def\<close>)
qed

lemma step_keeps_revoked:
  assumes "cred_inv b" and "(i, l, Lease_Revoked) \<in> set (cb_leases b)"
  shows "(i, l, Lease_Revoked) \<in> set (cb_leases (cred_step sha b x))"
  using assms by (cases x) (force simp: register_secret_def issue_lease_def Let_def revoked_by_def revoke_task_simps)+

lemma run_keeps_revoked:
  "cred_inv b \<Longrightarrow> (i, l, Lease_Revoked) \<in> set (cb_leases b) \<Longrightarrow> (i, l, Lease_Revoked) \<in> set (cb_leases (foldl (cred_step sha) b xs))"
  by (induction xs arbitrary: b) (auto intro: step_keeps_revoked creds.step_inv)

lemma find_by_key: "distinct (map f xs) \<Longrightarrow> x \<in> set xs \<Longrightarrow> find (\<lambda>y. f y = f x) xs = Some x"
  by (induction xs) (auto simp: rev_image_eqI)

lemma find_handle:
  assumes "distinct_handles b" and "(i, l, st) \<in> set (cb_leases b)"
  shows "find (\<lambda>(i, l', st). cl_handle l' = cl_handle l) (cb_leases b) = Some (i, l, st)"
  using find_by_key [OF assms(1) [unfolded distinct_handles_def] assms(2)] by (simp add: case_prod_unfold)

lemma materialize_found:
  assumes "distinct_handles b" and "(i, l, st) \<in> set (cb_leases b)"
  shows "fst (materialize now (cl_handle l) task g sc b) =
    (case check_lease now task g sc (l, st) of
       Some (kind, e) \<Rightarrow> Inl e
     | None \<Rightarrow> (case cb_secrets b (cl_secret_ref_id l) of None \<Rightarrow> Inl UnknownLease | Some (v, _) \<Rightarrow> Inr v))"
  by (auto simp: materialize_def find_handle [OF assms] split: option.splits)

text \<open>C20: a credential leaves the broker exactly under a lease with that handle that is live, has not expired, belongs to the
  task, is not fenced by a newer generation and grants the scope; the value is then the registered one.\<close>
theorem value_leaves_exactly:
  assumes "distinct_handles b"
  shows "fst (materialize now h task g sc b) = Inr v \<longleftrightarrow>
    (\<exists>i l name. (i, l, Lease_Live) \<in> set (cb_leases b) \<and> cl_handle l = h \<and> now < cl_expires_at l \<and> cl_task l = task
       \<and> g \<le> cl_generation l \<and> sc \<in> set (cl_scopes l) \<and> cb_secrets b (cl_secret_ref_id l) = Some (v, name))"
proof (cases "find (\<lambda>(i, l, st). cl_handle l = h) (cb_leases b)")
  case None
  then have "\<And>i l st. (i, l, st) \<in> set (cb_leases b) \<Longrightarrow> cl_handle l \<noteq> h" by (auto simp: find_None_iff)
  moreover have "fst (materialize now h task g sc b) = Inl UnknownLease" using None by (simp add: materialize_def)
  ultimately show ?thesis by auto
next
  case (Some x)
  then obtain i l st where x: "(i, l, st) \<in> set (cb_leases b)" "cl_handle l = h" by (cases x) (auto dest!: find_SomeD)
  have uniq: "(i', l', st') = (i, l, st)" if "(i', l', st') \<in> set (cb_leases b)" "cl_handle l' = h" for i' l' st'
    using find_handle [OF assms that(1)] find_handle [OF assms x(1)] that(2) x(2) by simp
  let ?ok = "st = Lease_Live \<and> now < cl_expires_at l \<and> cl_task l = task \<and> g \<le> cl_generation l \<and> sc \<in> set (cl_scopes l)
    \<and> (\<exists>name. cb_secrets b (cl_secret_ref_id l) = Some (v, name))"
  have "fst (materialize now h task g sc b) = Inr v \<longleftrightarrow> ?ok"
    using materialize_found [OF assms x(1), of now task g sc] x(2) by (auto simp: check_lease_def split: option.splits if_splits)
  moreover have "?ok \<longleftrightarrow> (\<exists>i l name. (i, l, Lease_Live) \<in> set (cb_leases b) \<and> cl_handle l = h \<and> now < cl_expires_at l \<and> cl_task l = task
       \<and> g \<le> cl_generation l \<and> sc \<in> set (cl_scopes l) \<and> cb_secrets b (cl_secret_ref_id l) = Some (v, name))" (is "_ \<longleftrightarrow> ?ex")
  proof
    assume ?ok
    then show ?ex using x by blast
  next
    assume ?ex
    then show ?ok using uniq by blast
  qed
  ultimately show ?thesis by simp
qed

definition lease0 :: "string \<Rightarrow> string \<Rightarrow> credential_lease" where
  "lease0 i t = \<lparr>cl_lease_id = i, cl_handle = ''cred-'' @ i, cl_task = t, cl_generation = 1, cl_secret_ref_id = ''s'', cl_scopes = [ProcEnv], cl_expires_at = 10\<rparr>"

definition broker0 :: credential_broker where
  "broker0 = \<lparr>cb_secrets = [''s'' \<mapsto> (''value'', ''n'')],
     cb_leases = [(lease_name 1, lease0 (lease_name 1) ''a'', Lease_Live), (lease_name 2, lease0 (lease_name 2) ''b'', Lease_Live)],
     cb_audit = [], cb_counter = 2\<rparr>"

lemma broker0_ok: "cred_inv broker0" "distinct_handles broker0"
  by (simp_all add: cred_inv_def distinct_handles_def broker0_def lease0_def lease_name_inject)

theorem value_leaves_exactly_witness:
  "fst (materialize 9 (''cred-'' @ lease_name 1) ''a'' 1 ProcEnv broker0) = Inr ''value''"
proof -
  have "(lease_name 1, lease0 (lease_name 1) ''a'', Lease_Live) \<in> set (cb_leases broker0)" by (simp add: broker0_def)
  moreover have "cb_secrets broker0 ''s'' = Some (''value'', ''n'')" by (simp add: broker0_def)
  ultimately show ?thesis unfolding value_leaves_exactly [OF broker0_ok(2)]
    by (intro exI [of _ "lease_name 1"] exI [of _ "lease0 (lease_name 1) ''a''"] exI [of _ "''n''"]) (simp add: lease0_def)
qed

text \<open>A revoked lease stays dead: after any further operations its handle is refused, whoever asks for what.\<close>

lemma revoked_lease_is_dead:
  assumes "cred_inv b" and "(i, l, st) \<in> set (cb_leases b)" and "distinct_handles (foldl (cred_step sha) (revoke i b) xs)"
  shows "fst (materialize now (cl_handle l) task g sc (foldl (cred_step sha) (revoke i b) xs)) = Inl Cr_Revoked"
proof -
  have "cred_inv (revoke i b)" using creds.step_inv [OF assms(1), of sha "Cr_Revoke i"] by simp
  moreover have "(i, l, Lease_Revoked) \<in> set (cb_leases (revoke i b))" using assms(2) by (force simp: revoked_by_def)
  ultimately have "(i, l, Lease_Revoked) \<in> set (cb_leases (foldl (cred_step sha) (revoke i b) xs))" by (rule run_keeps_revoked)
  then show ?thesis using materialize_found [OF assms(3)] by (simp add: check_lease_def)
qed

lemma revoked_lease_is_dead_witness:
  "fst (materialize 9 (''cred-'' @ lease_name 1) ''a'' 1 ProcEnv
     (foldl (cred_step (\<lambda>x. x)) (revoke (lease_name 1) broker0) [Cr_Register ''a'' ''n'' ''other'', Cr_RevokeTask ''b''])) = Inl Cr_Revoked"
proof -
  let ?xs = "[Cr_Register ''a'' ''n'' ''other'', Cr_RevokeTask ''b'']"
  have m: "(lease_name 1, lease0 (lease_name 1) ''a'', Lease_Live) \<in> set (cb_leases broker0)" by (simp add: broker0_def)
  have "cred_inv (cred_step (\<lambda>x. x) (revoke (lease_name 1) broker0) (Cr_Register ''a'' ''n'' ''other''))"
    using creds.run_inv [OF broker0_ok(1), of "\<lambda>x. x" "[Cr_Revoke (lease_name 1), Cr_Register ''a'' ''n'' ''other'']"] by simp
  then have "distinct_handles (foldl (cred_step (\<lambda>x. x)) (revoke (lease_name 1) broker0) ?xs)"
    using revoke_task_simps(1) by (simp add: distinct_handles_def revoked_by_def register_secret_def Let_def broker0_def lease0_def lease_name_inject)
  then show ?thesis using revoked_lease_is_dead [OF broker0_ok(1) m, of "\<lambda>x. x" ?xs 9 "''a''" 1 ProcEnv] by (simp add: lease0_def)
qed

text \<open>The emergency stop of a task takes exactly its own authority: its leases are refused from then on, and every other lease
  gives what it gave before.\<close>

lemma emergency_stop_is_exact:
  assumes "cred_inv b" and "distinct_handles b" and "(i, l, st) \<in> set (cb_leases b)"
  shows "fst (materialize now (cl_handle l) task g sc (revoke_task t b)) =
    (if cl_task l = t then Inl Cr_Revoked else fst (materialize now (cl_handle l) task g sc b))"
proof -
  have d: "distinct_handles (revoke_task t b)"
    using assms(2) by (simp add: distinct_handles_def revoke_task_simps [OF assms(1)] revoked_by_def comp_def case_prod_unfold)
  have "(i, l, if cl_task l = t then Lease_Revoked else st) \<in> set (cb_leases (revoke_task t b))"
    using assms(3) by (force simp: revoke_task_simps [OF assms(1)] revoked_by_def)
  then show ?thesis using materialize_found [OF d] materialize_found [OF assms(2,3)] revoke_task_simps(2) [OF assms(1)]
    by (simp add: check_lease_def)
qed

lemma emergency_stop_is_exact_witness:
  "fst (materialize 9 (''cred-'' @ lease_name 1) ''a'' 1 ProcEnv (revoke_task ''b'' broker0)) = Inr ''value''"
proof -
  have m: "(lease_name 1, lease0 (lease_name 1) ''a'', Lease_Live) \<in> set (cb_leases broker0)" by (simp add: broker0_def)
  then show ?thesis
    using emergency_stop_is_exact [OF broker0_ok m, of 9 "''a''" 1 ProcEnv "''b''"] materialize_found [OF broker0_ok(2) m, of 9 "''a''" 1 ProcEnv]
    by (simp add: lease0_def check_lease_def broker0_def)
qed

text \<open>A secret that one task registered is leased to any other task that has its reference: the broker does not know whose it is.\<close>

lemma secret_crosses_tasks:
  assumes "register_secret sha owner name v b = (r, b1)" and "issue_lease sha now r thief g scopes ttl b1 = (Inr l, b2)"
    and "distinct_handles b2" and "0 < ttl" and "sc \<in> set scopes"
  shows "fst (materialize now (cl_handle l) thief g sc b2) = Inr v"
proof -
  have "cb_secrets b1 (sr_id r) = Some (v, name)" using assms(1) by (auto simp: register_secret_def Let_def)
  then have "(cl_lease_id l, l, Lease_Live) \<in> set (cb_leases b2)" "cl_task l = thief" "cl_generation l = g" "cl_scopes l = scopes"
    "cl_expires_at l = now + ttl" "cb_secrets b2 (cl_secret_ref_id l) = Some (v, name)"
    using assms(2) by (auto simp: issue_lease_def Let_def)
  then show ?thesis using materialize_found [OF assms(3)] assms(4,5) by (simp add: check_lease_def)
qed

end
