(* ===== verification/Exec_Broker.thy ===== *)
theory Exec_Broker
  imports Rust_Text Ordered_Map Fallible File_System
begin

text \<open>
  The exec broker of \<^verbatim>\<open>crates/terminal\<close>: \<^verbatim>\<open>lib.rs\<close> with its runs, their status files and output logs, \<^verbatim>\<open>replay.rs\<close> with the tail a
  client replays, \<^verbatim>\<open>command_contract.rs\<close> with the validation of a request, and \<^verbatim>\<open>broker_ext.rs\<close> with layered environments and
  outputs. Files are on the file system of \<open>File_System\<close>; the process table of the operating system is part of the state. The
  JSON codec, the sandbox wrapper, SHA-256, the decoding of UTF-8, the clock and what a process does on a signal are parameters.
  A run id is one component of a path.
\<close>

section \<open>Runs\<close>

datatype terminal_error =
    Tm_UnknownRun string
  | Tm_Timeout string
  | Tm_Cancelled string
  | EmptyArgv
  | Tm_AlreadyExists string
  | Tm_Io string
  | Tm_Serialization string

datatype run_state = Rn_Running | Rn_Exited int | Rn_Killed | Rn_Interrupted

record run_meta =
  rm_run_id :: string
  rm_argv :: "string list"
  rm_state :: run_state
  rm_started_at_ms :: nat
  rm_ended_at_ms :: "nat option"
  rm_pid :: "nat option"

text \<open>A process of the operating system runs or has ended and waits to be reaped, with its exit code unless a signal ended it.\<close>

datatype process = Proc_Running | Proc_Ended "int option"

text \<open>A child handle remembers the exit status once it was seen.\<close>

record child =
  ch_pid :: nat
  ch_status :: "int option option"

record exec_broker =
  xb_runs_dir :: fpath
  xb_children :: "string \<Rightarrow> child option"
  xb_disk :: disk
  xb_procs :: "nat \<Rightarrow> process option"

record exec_env =
  xe_ser :: "run_meta \<Rightarrow> (string, string) result"
  xe_de :: "string \<Rightarrow> (string, run_meta) result"
  xe_wrap :: "string list \<Rightarrow> fpath option \<Rightarrow> (string, string list option) result"
  xe_obeys :: "nat \<Rightarrow> bool"

definition READ_CHUNK_MAX :: nat where "READ_CHUNK_MAX = 512 * 1024"

definition run_dir :: "exec_broker \<Rightarrow> string \<Rightarrow> fpath" where
  "run_dir x i = xb_runs_dir x @ [i]"

definition log_file :: "exec_broker \<Rightarrow> string \<Rightarrow> fpath" where
  "log_file x i = run_dir x i @ [''output.log'']"

definition status_file :: "exec_broker \<Rightarrow> string \<Rightarrow> fpath" where
  "status_file x i = run_dir x i @ [''status.json'']"

definition disk_act :: "(disk \<Rightarrow> (string, 'a) result \<times> disk) \<Rightarrow> (exec_broker, terminal_error, 'a) act" where
  "disk_act f x = (case f (xb_disk x) of (r, d) \<Rightarrow> (map_err Tm_Io r, x\<lparr>xb_disk := d\<rparr>))"

definition persist_meta :: "exec_env \<Rightarrow> string \<Rightarrow> run_meta \<Rightarrow> (exec_broker, terminal_error, unit) act" where
  "persist_meta E i meta x =
     (case xe_ser E meta of
        Inl e \<Rightarrow> (Inl (Tm_Serialization e), x)
      | Inr json \<Rightarrow> disk_act (fs_write (status_file x i) json) x)"

definition load_meta :: "exec_env \<Rightarrow> string \<Rightarrow> exec_broker \<Rightarrow> (terminal_error, run_meta) result" where
  "load_meta E i x =
     and_then (map_err Tm_Io (fs_read (xb_disk x) (status_file x i))) (\<lambda>json. map_err Tm_Serialization (xe_de E json))"

text \<open>Opening the log for appending creates it.\<close>

definition spawn_full_sandboxed ::
  "exec_env \<Rightarrow> nat \<Rightarrow> (string, nat) result \<Rightarrow> string \<Rightarrow> string list \<Rightarrow> fpath option \<Rightarrow> bool \<Rightarrow> (exec_broker, terminal_error, unit) act" where
  "spawn_full_sandboxed E now started i argv cwd sandboxed x =
     (if argv = [] then (Inl EmptyArgv, x)
      else case (if sandboxed then map_err Tm_UnknownRun (xe_wrap E argv cwd) else Inr None) of
             Inl e \<Rightarrow> (Inl e, x)
           | Inr wrapped \<Rightarrow>
               act_then (disk_act (fs_create_dir_all (run_dir x i))) (\<lambda>_.
               act_then (disk_act (fs_append (log_file x i) [])) (\<lambda>_ x1.
                 case started of
                   Inl e \<Rightarrow> (Inl (Tm_Io e), x1)
                 | Inr pid \<Rightarrow>
                     persist_meta E i
                       \<lparr>rm_run_id = i, rm_argv = (case wrapped of Some a \<Rightarrow> a | None \<Rightarrow> argv), rm_state = Rn_Running,
                        rm_started_at_ms = now, rm_ended_at_ms = None, rm_pid = Some pid\<rparr>
                       (x1\<lparr>xb_children := (xb_children x1)(i \<mapsto> \<lparr>ch_pid = pid, ch_status = None\<rparr>),
                           xb_procs := (xb_procs x1)(pid \<mapsto> Proc_Running)\<rparr>))) x)"

definition has_child :: "string \<Rightarrow> exec_broker \<Rightarrow> bool" where
  "has_child i x \<longleftrightarrow> xb_children x i \<noteq> None"

definition exit_code :: "int option \<Rightarrow> int" where
  "exit_code c = (case c of Some n \<Rightarrow> n | None \<Rightarrow> - 1)"

text \<open>\<open>Child::try_wait\<close>: reaps a process that has ended.\<close>

definition try_wait :: "string \<Rightarrow> child \<Rightarrow> exec_broker \<Rightarrow> (string, int option option) result \<times> exec_broker" where
  "try_wait i c x =
     (case ch_status c of
        Some s \<Rightarrow> (Inr (Some s), x)
      | None \<Rightarrow>
          (case xb_procs x (ch_pid c) of
             None \<Rightarrow> (Inl ''no child processes'', x)
           | Some Proc_Running \<Rightarrow> (Inr None, x)
           | Some (Proc_Ended s) \<Rightarrow>
               (Inr (Some s), x\<lparr>xb_children := (xb_children x)(i \<mapsto> c\<lparr>ch_status := Some s\<rparr>), xb_procs := (xb_procs x)(ch_pid c := None)\<rparr>)))"

definition pid_alive :: "nat \<Rightarrow> exec_broker \<Rightarrow> bool" where
  "pid_alive pid x \<longleftrightarrow> xb_procs x pid = Some Proc_Running"

definition kill_pid :: "exec_env \<Rightarrow> nat \<Rightarrow> exec_broker \<Rightarrow> bool \<times> exec_broker" where
  "kill_pid E pid x =
     (case xb_procs x pid of
        None \<Rightarrow> (False, x)
      | Some p \<Rightarrow> (True, if p = Proc_Running \<and> xe_obeys E pid then x\<lparr>xb_procs := (xb_procs x)(pid \<mapsto> Proc_Ended None)\<rparr> else x))"

definition refresh_meta :: "nat \<Rightarrow> string \<Rightarrow> run_meta \<Rightarrow> exec_broker \<Rightarrow> run_meta option \<times> exec_broker" where
  "refresh_meta now i meta x =
     (case xb_children x i of
        Some c \<Rightarrow>
          (case try_wait i c x of
             (Inr (Some s), x1) \<Rightarrow> (Some (meta\<lparr>rm_state := Rn_Exited (exit_code s)\<rparr>), x1)
           | (_, x1) \<Rightarrow> (None, x1))
      | None \<Rightarrow>
          (case rm_pid meta of
             Some pid \<Rightarrow> if pid_alive pid x then (None, x) else (Some (meta\<lparr>rm_state := Rn_Interrupted, rm_ended_at_ms := Some now\<rparr>), x)
           | None \<Rightarrow> (None, x)))"

definition run_status :: "exec_env \<Rightarrow> nat \<Rightarrow> string \<Rightarrow> (exec_broker, terminal_error, run_meta) act" where
  "run_status E now i x =
     (if \<not> fs_exists (xb_disk x) (run_dir x i) then (Inl (Tm_UnknownRun i), x)
      else case load_meta E i x of
             Inl e \<Rightarrow> (Inl e, x)
           | Inr meta \<Rightarrow>
               if rm_state meta \<noteq> Rn_Running then (Inr meta, x)
               else (case refresh_meta now i meta x of
                       (None, x1) \<Rightarrow> (Inr meta, x1)
                     | (Some meta1, x1) \<Rightarrow> act_then (persist_meta E i meta1) (\<lambda>_. act_return meta1) x1))"

definition read_slice :: "string \<Rightarrow> nat \<Rightarrow> nat \<Rightarrow> string \<times> nat" where
  "read_slice log offset limit =
     (let start = min offset (length log);
          buf = take (min (min READ_CHUNK_MAX limit) (length log - start)) (drop start log)
      in (buf, start + length buf))"

definition read_output :: "string \<Rightarrow> nat \<Rightarrow> nat \<Rightarrow> exec_broker \<Rightarrow> (terminal_error, string \<times> nat) result" where
  "read_output i offset limit x =
     and_then (map_err Tm_Io (fs_read (xb_disk x) (log_file x i))) (\<lambda>log. Inr (read_slice log offset limit))"

text \<open>\<open>Child::kill\<close> and \<open>Child::wait\<close>: a child whose status is known is left alone.\<close>

definition kill_child :: "child \<Rightarrow> exec_broker \<Rightarrow> exec_broker" where
  "kill_child c x = (if ch_status c \<noteq> None then x else x\<lparr>xb_procs := (xb_procs x)(ch_pid c := None)\<rparr>)"

definition stop_run :: "exec_env \<Rightarrow> nat \<Rightarrow> string \<Rightarrow> (exec_broker, terminal_error, unit) act" where
  "stop_run E now i x =
     (case (case xb_children x i of
              Some c \<Rightarrow> (Inr (), kill_child c (x\<lparr>xb_children := (xb_children x)(i := None)\<rparr>))
            | None \<Rightarrow>
                (case load_meta E i x of
                   Inl e \<Rightarrow> (Inl e, x)
                 | Inr meta \<Rightarrow>
                     (case rm_pid meta of
                        None \<Rightarrow> (Inl (Tm_UnknownRun i), x)
                      | Some pid \<Rightarrow>
                          (case kill_pid E pid x of
                             (True, x1) \<Rightarrow> (Inr (), x1)
                           | (False, x1) \<Rightarrow>
                               (Inl (Tm_Io (''failed to kill detached run '' @ i @ '' (pid '' @ show_nat pid @ '')'')), x1))))) of
        (Inl e, x1) \<Rightarrow> (Inl e, x1)
      | (Inr _, x1) \<Rightarrow>
          (case load_meta E i x1 of
             Inl e \<Rightarrow> (Inl e, x1)
           | Inr meta \<Rightarrow>
               (case xe_ser E (meta\<lparr>rm_state := Rn_Killed, rm_ended_at_ms := Some now\<rparr>) of
                  Inl e \<Rightarrow> (Inl (Tm_Io e), x1)
                | Inr json \<Rightarrow> disk_act (fs_write (status_file x1 i) json) x1)))"

fun list_runs :: "exec_env \<Rightarrow> string list \<Rightarrow> exec_broker \<Rightarrow> (terminal_error, run_meta list) result" where
  "list_runs E [] x = Inr []"
| "list_runs E (i # is) x =
     (if fs_exists (xb_disk x) (status_file x i)
      then and_then (load_meta E i x) (\<lambda>m. and_then (list_runs E is x) (\<lambda>ms. Inr (m # ms)))
      else list_runs E is x)"

definition record_state :: "exec_env \<Rightarrow> nat \<Rightarrow> string \<Rightarrow> run_state \<Rightarrow> (exec_broker, terminal_error, unit) act" where
  "record_state E now i st =
     act_then (run_status E now i) (\<lambda>meta.
       persist_meta E i (meta\<lparr>rm_state := st,
         rm_ended_at_ms := (case st of Rn_Exited _ \<Rightarrow> Some now | Rn_Killed \<Rightarrow> Some now | _ \<Rightarrow> rm_ended_at_ms meta)\<rparr>))"

text \<open>\<open>ended\<close> is the status the blocking wait returns with.\<close>

definition wait_and_record :: "exec_env \<Rightarrow> nat \<Rightarrow> (string, int option) result \<Rightarrow> string \<Rightarrow> (exec_broker, terminal_error, run_state) act" where
  "wait_and_record E now ended i x =
     (case xb_children x i of
        None \<Rightarrow> (Inl (Tm_UnknownRun i), x)
      | Some c \<Rightarrow>
          let x1 = x\<lparr>xb_children := (xb_children x)(i := None)\<rparr>
          in case ended of
               Inl e \<Rightarrow> (Inl (Tm_Io e), x1)
             | Inr s \<Rightarrow>
                 act_then (record_state E now i (Rn_Exited (exit_code s))) (\<lambda>_. act_return (Rn_Exited (exit_code s)))
                   (x1\<lparr>xb_procs := (xb_procs x1)(ch_pid c := None)\<rparr>))"

section \<open>Replay of the tail\<close>

record replay_cursor =
  rc_run_id :: string
  rc_offset :: nat

record replay_frame =
  rf_run_id :: string
  rf_from_offset :: nat
  rf_bytes :: string
  rf_new_offset :: nat
  rf_dropped_bytes :: nat
  rf_caught_up_and_closed :: bool

datatype replay_error = Rx_UnknownRun string | Rx_Io string

definition replay_slice :: "string \<Rightarrow> replay_cursor \<Rightarrow> nat \<Rightarrow> bool \<Rightarrow> replay_frame" where
  "replay_slice log cursor window exited =
     (let total = length log;
          earliest = total - window;
          from = max earliest (min (rc_offset cursor) total);
          bytes = take (total - from) (drop from log)
      in \<lparr>rf_run_id = rc_run_id cursor, rf_from_offset = from, rf_bytes = bytes, rf_new_offset = from + length bytes,
          rf_dropped_bytes = from - min (rc_offset cursor) from, rf_caught_up_and_closed = (exited \<and> total \<le> from + length bytes)\<rparr>)"

definition replay_tail :: "disk \<Rightarrow> fpath \<Rightarrow> replay_cursor \<Rightarrow> nat \<Rightarrow> bool \<Rightarrow> (replay_error, replay_frame) result" where
  "replay_tail d runs_dir cursor window exited =
     (let log = runs_dir @ [rc_run_id cursor, ''output.log'']
      in if \<not> fs_exists d log then Inl (Rx_UnknownRun (rc_run_id cursor))
         else and_then (map_err Rx_Io (fs_read d log)) (\<lambda>b. Inr (replay_slice b cursor window exited)))"

section \<open>The command contract\<close>

datatype stream_mode = Sm_Poll | Sm_Push

record contract_violation =
  cv_field :: string
  cv_reason :: string

record exec_request =
  xr_argv :: "string list"
  xr_cwd :: "string option"
  xr_env :: "(string \<times> string) list"
  xr_timeout_secs :: "nat option"
  xr_pty :: bool
  xr_output_budget_bytes :: "nat option"
  xr_stream_mode :: stream_mode
  xr_cancel_token :: "string option"

definition default_request :: exec_request where
  "default_request = \<lparr>xr_argv = [], xr_cwd = None, xr_env = [], xr_timeout_secs = Some 30, xr_pty = False,
     xr_output_budget_bytes = None, xr_stream_mode = Sm_Poll, xr_cancel_token = None\<rparr>"

fun check_env :: "(string \<times> string) list \<Rightarrow> contract_violation option" where
  "check_env [] = None"
| "check_env ((k, v) # kvs) =
     (if k = [] \<or> CHR ''='' \<in> set k then Some \<lparr>cv_field = ''env'', cv_reason = ''invalid key '' @ debug_str k\<rparr>
      else if CHR 0x00 \<in> set v then Some \<lparr>cv_field = ''env'', cv_reason = ''value for '' @ debug_str k @ '' contains NUL''\<rparr>
      else check_env kvs)"

definition validate_request :: "exec_request \<Rightarrow> (contract_violation, unit) result" where
  "validate_request r =
     (if xr_argv r = [] then Inl \<lparr>cv_field = ''argv'', cv_reason = ''must not be empty''\<rparr>
      else if hd (xr_argv r) = [] then Inl \<lparr>cv_field = ''argv'', cv_reason = ''program name must not be empty''\<rparr>
      else if (case xr_cwd r of Some c \<Rightarrow> str_trim c = [] | None \<Rightarrow> False)
        then Inl \<lparr>cv_field = ''cwd'', cv_reason = ''must not be blank when present''\<rparr>
      else case check_env (xr_env r) of
             Some v \<Rightarrow> Inl v
           | None \<Rightarrow>
               if xr_timeout_secs r = Some 0 then Inl \<lparr>cv_field = ''timeout_secs'', cv_reason = ''must be > 0 (omit for no timeout)''\<rparr>
               else if xr_output_budget_bytes r = Some 0
                 then Inl \<lparr>cv_field = ''output_budget_bytes'', cv_reason = ''must be > 0 (omit for unbounded)''\<rparr>
               else if xr_stream_mode r = Sm_Push \<and> xr_cancel_token r = None
                 then Inl \<lparr>cv_field = ''cancel_token'', cv_reason = ''push streaming requires a cancellation handle''\<rparr>
               else Inr ())"

section \<open>Layers\<close>

record env_hierarchy =
  eh_layers :: "(string \<times> (string, string) btree) list"
  eh_revisions :: "(string, nat) btree"

definition layer_revision :: "string \<Rightarrow> env_hierarchy \<Rightarrow> nat" where
  "layer_revision name h = (case bt_get name (eh_revisions h) of Some r \<Rightarrow> r | None \<Rightarrow> 0)"

definition add_layer :: "string \<Rightarrow> (string, string) btree \<Rightarrow> env_hierarchy \<Rightarrow> env_hierarchy" where
  "add_layer name vars h =
     h\<lparr>eh_revisions := bt_insert name (layer_revision name h + 1) (eh_revisions h), eh_layers := eh_layers h @ [(name, vars)]\<rparr>"

definition resolve_var :: "string \<times> string \<Rightarrow> (string, string) btree \<Rightarrow> (string, string) btree" where
  "resolve_var kv m = (case kv of (k, v) \<Rightarrow> if v = [] then bt_remove k m else bt_insert k v m)"

definition resolve_env :: "env_hierarchy \<Rightarrow> (string, string) btree" where
  "resolve_env h = fold (\<lambda>(_, vars) m. fold resolve_var vars m) (eh_layers h) []"

record shell_session =
  ss_session_id :: string
  ss_cwd :: fpath
  ss_env :: "(string, string) btree"

definition set_env :: "string \<Rightarrow> string \<Rightarrow> shell_session \<Rightarrow> shell_session" where
  "set_env k v s = s\<lparr>ss_env := bt_insert k v (ss_env s)\<rparr>"

definition effective_env :: "(string, string) btree \<Rightarrow> shell_session \<Rightarrow> (string, string) btree" where
  "effective_env base s = fold (\<lambda>(k, v). bt_insert k v) (ss_env s) base"

text \<open>Lines in the order of their first occurrence.\<close>

fun first_lines :: "string list \<Rightarrow> string list \<Rightarrow> string list" where
  "first_lines seen [] = []"
| "first_lines seen (l # ls) = (if l \<in> set seen then first_lines seen ls else l # first_lines (l # seen) ls)"

definition collapse_duplicates :: "string \<Rightarrow> string" where
  "collapse_duplicates txt =
     (let ls = first_lines [] (str_lines txt)
      in ''(unique lines: '' @ show_nat (length ls) @ '')'' @ [CHR 0x0A] @ concat (map (\<lambda>l. l @ [CHR 0x0A]) ls))"

record layered_output =
  lo_full :: string
  lo_sha256 :: string
  lo_batched :: string
  lo_model_view :: string
  lo_omitted_bytes :: nat

text \<open>The sum of the two limits is taken at 64 bits; a slice that ends beyond the text is a panic.\<close>

definition layered :: "(string \<Rightarrow> string) \<Rightarrow> (string \<Rightarrow> string) \<Rightarrow> string \<Rightarrow> nat \<Rightarrow> nat \<Rightarrow> layered_output option" where
  "layered sha lossy raw h t =
     (let total = length raw; small = (h + t) mod 2 ^ 64;
          omitted = (if small \<ge> total then 0 else (total + (2 ^ 64 - h) + (2 ^ 64 - t)) mod 2 ^ 64);
          mark = ''... ['' @ show_nat omitted @ '' bytes omitted] ...'' @ [CHR 0x0A]
      in if omitted > 0 \<and> (h > total \<or> t > total) then None
         else Some \<lparr>lo_full = raw, lo_sha256 = sha raw, lo_batched = collapse_duplicates (lossy raw),
                lo_model_view = (if omitted > 0
                  then mark @ (if h > 0 then lossy (take h raw) else []) @ (if t > 0 then lossy (drop (total - t) raw) else [])
                  else lossy raw),
                lo_omitted_bytes = omitted\<rparr>)"

end
