(* ===== verification/Exec_Properties.thy ===== *)
theory Exec_Properties
  imports Exec_Broker
begin

text \<open>
  What the exec broker promises: a reader that follows a growing log misses and repeats no byte, a replayed tail accounts for what
  it left out, an ended run stays ended, the last layer of an environment wins. And where it falls short: a stop of a run whose
  process number was reused kills the new owner, and a second spawn under an id orphans the first process.
\<close>

section \<open>Files\<close>

lemma fs_read_written: "fs_write p b d = (Inr (), d') \<Longrightarrow> fs_read d' p = Inr b"
  by (auto simp: fs_write_def effect_cases fs_read_def os_resolve_def split: option.splits if_splits)

lemma fs_read_appended:
  assumes "fs_read d p = Inr a" and "fs_append p b d = (r, d')"
  shows "fs_read d' p = Inr (case r of Inl _ \<Rightarrow> a | Inr _ \<Rightarrow> a @ b)"
  using assms by (auto simp: fs_append_def effect_cases fs_read_def os_resolve_def split: option.splits if_splits)

lemma fs_write_exists: "fs_write p b d = (Inr (), d') \<Longrightarrow> fs_exists d q \<Longrightarrow> fs_exists d' q"
  by (auto simp: fs_write_def effect_cases fs_exists_def os_resolve_def present_def split: option.splits if_splits)

section \<open>Following a log\<close>

text \<open>The process writes and a client reads on from where it was; a write may fail.\<close>

datatype log_op = Lg_Append string | Lg_Read nat

fun follow_log :: "string \<Rightarrow> log_op list \<Rightarrow> nat \<Rightarrow> exec_broker \<Rightarrow> string \<times> nat \<times> exec_broker" where
  "follow_log i [] offset x = ([], offset, x)"
| "follow_log i (Lg_Append b # ops) offset x = follow_log i ops offset (snd (disk_act (fs_append (log_file x i) b) x))"
| "follow_log i (Lg_Read n # ops) offset x =
     (case read_output i offset n x of
        Inl _ \<Rightarrow> follow_log i ops offset x
      | Inr (b, offset') \<Rightarrow> (case follow_log i ops offset' x of (got, o2, x2) \<Rightarrow> (b @ got, o2, x2)))"

lemma read_slice_take:
  assumes "offset \<le> length log" and "read_slice log offset n = (b, o2)"
  shows "o2 = offset + length b" and "o2 \<le> length log" and "b = take (o2 - offset) (drop offset log)"
    and "b = [] \<longleftrightarrow> n = 0 \<or> offset = length log"
  using assms by (auto simp: read_slice_def Let_def READ_CHUNK_MAX_def min_def split: if_splits)

lemma disk_act_append:
  assumes "fs_read (xb_disk x) (log_file x i) = Inr log" and "snd (disk_act (fs_append (log_file x i) b) x) = x'"
  shows "log_file x' i = log_file x i \<and> (\<exists>c. fs_read (xb_disk x') (log_file x i) = Inr (log @ c))"
proof -
  obtain r d where d: "fs_append (log_file x i) b (xb_disk x) = (r, d)" by fastforce
  then have "fs_read d (log_file x i) = Inr (log @ (case r of Inl _ \<Rightarrow> [] | Inr _ \<Rightarrow> b))"
    using fs_read_appended [OF assms(1) d] by (cases r) auto
  then show ?thesis using assms(2) d by (auto simp: disk_act_def log_file_def run_dir_def)
qed

text \<open>C26: a client that reads on from the offset it was given gets the log of a run byte for byte, whatever is written and however much it reads
  in between: what it has is the beginning of the log up to its offset, and it gets on unless it is at the end.\<close>
theorem log_reader_sees_every_byte:
  assumes "fs_read (xb_disk x) (log_file x i) = Inr log" and "offset \<le> length log" and "follow_log i ops offset x = (got, o2, x2)"
  shows "\<exists>log2. fs_read (xb_disk x2) (log_file x2 i) = Inr log2 \<and> prefix log log2 \<and> o2 \<le> length log2
    \<and> take offset log @ got = take o2 log2
    \<and> (\<forall>n > 0. o2 < length log2 \<longrightarrow> (\<exists>b o3. read_output i o2 n x2 = Inr (b, o3) \<and> b \<noteq> []))"
  using assms
proof (induction i ops offset x arbitrary: log got rule: follow_log.induct)
  case (1 i offset x)
  have "\<exists>b o3. read_output i offset n x = Inr (b, o3) \<and> b \<noteq> []" if "0 < n" "offset < length log" for n
    using 1 that read_slice_take(4) [of offset log n] by (cases "read_slice log offset n") (auto simp: read_output_def)
  then show ?case using 1 by auto
next
  case (2 i b ops offset x)
  obtain c where c: "fs_read (xb_disk (snd (disk_act (fs_append (log_file x i) b) x))) (log_file (snd (disk_act (fs_append (log_file x i) b) x)) i) = Inr (log @ c)"
    using disk_act_append [OF "2.prems"(1) refl, of b] by auto
  have "offset \<le> length (log @ c)" using "2.prems"(2) by simp
  then show ?case using "2.IH" [OF c] "2.prems"(2,3) prefix_order.trans [of log "log @ c"] by (fastforce simp: prefix_def)
next
  case (3 i n ops offset x)
  obtain b o1 where s: "read_slice log offset n = (b, o1)" by fastforce
  then have r: "read_output i offset n x = Inr (b, o1)" using "3.prems"(1) by (simp add: read_output_def)
  obtain got1 where g: "follow_log i ops o1 x = (got1, o2, x2)" "got = b @ got1"
    using "3.prems"(3) r by (auto split: prod.splits)
  note t = read_slice_take [OF "3.prems"(2) s]
  have "take o1 log = take offset log @ b" using t(1,3) by (metis take_add add_diff_cancel_left')
  then show ?case using "3.IH"(2) [OF r refl "3.prems"(1) t(2) g(1)] g(2) by simp
qed

definition exec0 :: "string \<Rightarrow> exec_broker" where
  "exec0 log = \<lparr>xb_runs_dir = [], xb_children = (\<lambda>_. None),
     xb_disk = \<lparr>dk_files = [[''r'', ''output.log''] \<mapsto> log], dk_dirs = {[], [''r'']}, dk_links = (\<lambda>_. None), dk_faults = []\<rparr>,
     xb_procs = (\<lambda>_. None)\<rparr>"

theorem log_reader_sees_every_byte_witness:
  "\<exists>x2. follow_log ''r'' [Lg_Read 2, Lg_Append ''d'', Lg_Read 9] 0 (exec0 ''abc'') = (''abcd'', 4, x2)"
proof -
  let ?ops = "[Lg_Read 2, Lg_Append ''d'', Lg_Read 9]"
  obtain got o2 x2 where f: "follow_log ''r'' ?ops 0 (exec0 ''abc'') = (got, o2, x2)" by (cases "follow_log ''r'' ?ops 0 (exec0 ''abc'')")
  have r: "fs_read (xb_disk (exec0 ''abc'')) (log_file (exec0 ''abc'') ''r'') = Inr ''abc''" by code_simp
  obtain log2 where l: "fs_read (xb_disk x2) (log_file x2 ''r'') = Inr log2" "got = take o2 log2"
    using log_reader_sees_every_byte [OF r _ f] by auto
  have "o2 = 4 \<and> fs_read (xb_disk x2) (log_file x2 ''r'') = Inr ''abcd''"
    using f by (auto simp: read_output_def read_slice_def READ_CHUNK_MAX_def exec0_def fs_read_def fs_append_def effect_def os_resolve_def
        disk_act_def log_file_def run_dir_def)
  then show ?thesis using f l by auto
qed

section \<open>Replay\<close>

text \<open>A replayed frame is the end of the log behind the cursor, at most one window of it: its bytes are exactly those from its
  offset to the end, the bytes it left out are counted, and none are left out when the client is within the window.\<close>

lemma replay_frame_is_exact:
  assumes "replay_tail d dir cursor window exited = Inr f" and "fs_read d (dir @ [rc_run_id cursor, ''output.log'']) = Inr log"
    and "rc_offset cursor \<le> length log"
  shows "rf_bytes f = drop (rf_from_offset f) log \<and> rf_new_offset f = length log
    \<and> rf_from_offset f = rc_offset cursor + rf_dropped_bytes f
    \<and> length (rf_bytes f) = min window (length log - rc_offset cursor) \<and> (rf_caught_up_and_closed f \<longleftrightarrow> exited)"
proof -
  have "f = replay_slice log cursor window exited" using assms(1,2) by (auto simp: replay_tail_def Let_def split: if_splits)
  then show ?thesis using assms(3) by (auto simp: replay_slice_def Let_def max_def min_def)
qed

lemma replay_frame_is_exact_witness:
  "\<exists>f. replay_tail (xb_disk (exec0 ''abcdef'')) [] \<lparr>rc_run_id = ''r'', rc_offset = 1\<rparr> 2 True = Inr f \<and> rf_bytes f = ''ef'' \<and> rf_dropped_bytes f = 3"
proof -
  let ?c = "\<lparr>rc_run_id = ''r'', rc_offset = 1\<rparr>" and ?d = "xb_disk (exec0 ''abcdef'')"
  have e: "fs_exists ?d [''r'', ''output.log'']" and r: "fs_read ?d ([] @ [rc_run_id ?c, ''output.log'']) = Inr ''abcdef''" by code_simp+
  then obtain f where f: "replay_tail ?d [] ?c 2 True = Inr f" by (simp add: replay_tail_def)
  have "rc_offset ?c \<le> length ''abcdef''" by simp
  note c = replay_frame_is_exact [OF f r this]
  have "length (drop (rf_from_offset f) ''abcdef'') = 2" using c by auto
  then have "rf_from_offset f = 4" by simp
  then show ?thesis using c f by auto
qed

section \<open>States of a run\<close>

definition meta_codec :: "exec_env \<Rightarrow> run_meta \<Rightarrow> bool" where
  "meta_codec E m \<longleftrightarrow> (\<exists>json. xe_ser E m = Inr json \<and> xe_de E json = Inr m)"

lemma persist_meta_ok:
  assumes "meta_codec E m" and "persist_meta E i m x = (Inr u, x')"
  shows "load_meta E i x' = Inr m" and "fs_exists (xb_disk x) p \<Longrightarrow> fs_exists (xb_disk x') p" and "xb_runs_dir x' = xb_runs_dir x"
    and "xb_procs x' = xb_procs x"
proof -
  obtain json d where j: "xe_ser E m = Inr json" "xe_de E json = Inr m" "fs_write (status_file x i) json (xb_disk x) = (Inr (), d)" "x' = x\<lparr>xb_disk := d\<rparr>"
    using assms by (auto simp: meta_codec_def persist_meta_def disk_act_def map_err_Inr_iff split: prod.splits)
  then show "load_meta E i x' = Inr m" using fs_read_written [OF j(3)] by (simp add: load_meta_def status_file_def run_dir_def)
  show "fs_exists (xb_disk x) p \<Longrightarrow> fs_exists (xb_disk x') p" using j fs_write_exists [OF j(3)] by simp
qed (use assms in \<open>auto simp: persist_meta_def disk_act_def split: sum.splits prod.splits\<close>)

lemma refresh_meta_keeps:
  "refresh_meta now i m x = (r, x') \<Longrightarrow> xb_disk x' = xb_disk x \<and> xb_runs_dir x' = xb_runs_dir x"
  by (auto simp: refresh_meta_def try_wait_def split: option.splits process.splits prod.splits sum.splits if_splits)

text \<open>Once a run was reported to have ended, every later report is the same, whatever becomes of its process, its number and the
  child handles, as long as its status file is not written to.\<close>

lemma ended_run_stays_ended:
  assumes "meta_codec E m" and "run_status E now i x = (Inr m, x1)" and "rm_state m \<noteq> Rn_Running"
    and "xb_disk x2 = xb_disk x1" and "xb_runs_dir x2 = xb_runs_dir x1"
  shows "run_status E now2 i x2 = (Inr m, x2)"
proof -
  have "fs_exists (xb_disk x1) (run_dir x1 i) \<and> load_meta E i x1 = Inr m"
  proof (cases "load_meta E i x = Inr m")
    case True
    then show ?thesis using assms(2,3) by (auto simp: run_status_def split: if_splits)
  next
    case False
    then obtain m0 y where y: "load_meta E i x = Inr m0" "rm_state m0 = Rn_Running" "fs_exists (xb_disk x) (run_dir x i)"
      "refresh_meta now i m0 x = (Some m, y)" "\<exists>u. persist_meta E i m y = (Inr u, x1)"
      using assms(2) by (auto simp: run_status_def act_then_cases act_return_def split: if_splits sum.splits prod.splits option.splits)
    then show ?thesis using persist_meta_ok [OF assms(1)] refresh_meta_keeps [OF y(4)] by (auto simp: run_dir_def)
  qed
  moreover have "load_meta E i x2 = load_meta E i x1" using assms(4,5) by (simp add: load_meta_def status_file_def run_dir_def)
  ultimately show ?thesis using assms(3,4,5) by (simp add: run_status_def run_dir_def)
qed

section \<open>Processes\<close>

lemma stop_run_procs:
  "xb_children x i = None \<Longrightarrow> load_meta E i x = Inr m \<Longrightarrow> rm_pid m = Some pid \<Longrightarrow> xb_procs (snd (stop_run E now i x)) = xb_procs (snd (kill_pid E pid x))"
  by (auto simp: stop_run_def disk_act_def split: prod.splits sum.splits bool.splits)

text \<open>Stopping a run without a child handle signals whatever process has the recorded number, without looking at the state of the
  run: when the run has ended and its number was given to another process, that process is ended.\<close>

lemma stop_kills_recycled_pid:
  assumes "xb_children x i = None" and "load_meta E i x = Inr m" and "rm_state m \<noteq> Rn_Running" and "rm_pid m = Some pid"
    and "xb_procs x pid = Some Proc_Running" and "xe_obeys E pid"
  shows "xb_procs (snd (stop_run E now i x)) pid = Some (Proc_Ended None)"
  using stop_run_procs [OF assms(1,2,4)] assms(5,6) by (simp add: kill_pid_def)

definition ended_meta :: run_meta where
  "ended_meta = \<lparr>rm_run_id = ''r'', rm_argv = [''ls''], rm_state = Rn_Interrupted, rm_started_at_ms = 0, rm_ended_at_ms = Some 1, rm_pid = Some 7\<rparr>"

definition exec_env0 :: exec_env where
  "exec_env0 = \<lparr>xe_ser = (\<lambda>_. Inr ''json''), xe_de = (\<lambda>_. Inr ended_meta), xe_wrap = (\<lambda>_ _. Inr None), xe_obeys = (\<lambda>_. True)\<rparr>"

definition exec1 :: exec_broker where
  "exec1 = (exec0 [])\<lparr>xb_disk := (xb_disk (exec0 []))\<lparr>dk_files := [[''r'', ''status.json''] \<mapsto> ''json'']\<rparr>, xb_procs := [7 \<mapsto> Proc_Running]\<rparr>"

lemma exec1_meta: "load_meta exec_env0 ''r'' exec1 = Inr ended_meta" "fs_exists (xb_disk exec1) (run_dir exec1 ''r'')"
  by (simp_all add: load_meta_def exec1_def exec0_def exec_env0_def fs_read_def fs_exists_def present_def os_resolve_def status_file_def run_dir_def)

lemma stop_kills_recycled_pid_witness:
  "xb_procs (snd (stop_run exec_env0 9 ''r'' exec1)) 7 = Some (Proc_Ended None)"
  by (rule stop_kills_recycled_pid [where m = ended_meta])
     (simp_all add: exec1_meta, simp_all add: exec1_def exec0_def exec_env0_def ended_meta_def)

lemma ended_run_stays_ended_witness:
  "run_status exec_env0 2 ''r'' (exec1\<lparr>xb_procs := (\<lambda>_. None)\<rparr>) = (Inr ended_meta, exec1\<lparr>xb_procs := (\<lambda>_. None)\<rparr>)"
proof -
  have "run_status exec_env0 1 ''r'' exec1 = (Inr ended_meta, exec1)"
    using exec1_meta by (simp add: run_status_def ended_meta_def)
  moreover have "meta_codec exec_env0 ended_meta" by (simp add: meta_codec_def exec_env0_def)
  ultimately show ?thesis using ended_run_stays_ended by (simp add: ended_meta_def)
qed

lemma disk_act_keeps: "disk_act f x = (r, x') \<Longrightarrow> xb_children x' = xb_children x \<and> xb_procs x' = xb_procs x"
  by (auto simp: disk_act_def split: prod.splits)

lemma persist_meta_keeps: "persist_meta E i m x = (r, x') \<Longrightarrow> xb_children x' = xb_children x \<and> xb_procs x' = xb_procs x"
  by (auto simp: persist_meta_def dest: disk_act_keeps split: sum.splits)

text \<open>A second spawn under the id of a running process is not refused and drops the only handle on it: the process runs on, and
  stopping the run stops the new process only.\<close>

lemma respawn_orphans_process:
  assumes "xb_children x i = Some c" and "xb_procs x (ch_pid c) = Some Proc_Running" and "q \<noteq> ch_pid c"
    and "spawn_full_sandboxed E now (Inr q) i argv cwd sb x = (Inr u, x1)"
  shows "xb_procs (snd (stop_run E now2 i x1)) (ch_pid c) = Some Proc_Running \<and> xb_procs (snd (stop_run E now2 i x1)) q = None"
proof -
  have "xb_children x1 i = Some \<lparr>ch_pid = q, ch_status = None\<rparr> \<and> xb_procs x1 = (xb_procs x)(q \<mapsto> Proc_Running)"
    using assms(4) by (auto simp: spawn_full_sandboxed_def act_then_cases dest!: disk_act_keeps persist_meta_keeps split: if_splits sum.splits)
  then show ?thesis using assms(2,3)
    by (auto simp: stop_run_def kill_child_def disk_act_def split: sum.splits prod.splits)
qed

definition exec2 :: exec_broker where
  "exec2 = (exec0 [])\<lparr>xb_children := [''r'' \<mapsto> \<lparr>ch_pid = 7, ch_status = None\<rparr>], xb_procs := [7 \<mapsto> Proc_Running]\<rparr>"

lemma respawn_orphans_process_witness:
  "\<exists>x1. spawn_full_sandboxed exec_env0 1 (Inr 8) ''r'' [''ls''] None False exec2 = (Inr (), x1)
     \<and> xb_procs (snd (stop_run exec_env0 2 ''r'' x1)) 7 = Some Proc_Running"
proof -
  have "fst (spawn_full_sandboxed exec_env0 1 (Inr 8) ''r'' [''ls''] None False exec2) = Inr ()"
    by (simp add: spawn_full_sandboxed_def exec2_def exec0_def exec_env0_def disk_act_def persist_meta_def act_then_def fs_create_dir_all_def
        fs_append_def fs_write_def effect_def os_resolve_def run_dir_def log_file_def status_file_def prefixes_def)
  then obtain x1 where x1: "spawn_full_sandboxed exec_env0 1 (Inr 8) ''r'' [''ls''] None False exec2 = (Inr (), x1)"
    by (cases "spawn_full_sandboxed exec_env0 1 (Inr 8) ''r'' [''ls''] None False exec2") auto
  then show ?thesis using respawn_orphans_process [of exec2 "''r''" "\<lparr>ch_pid = 7, ch_status = None\<rparr>" 8, OF _ _ _ x1] by (simp add: exec2_def)
qed

section \<open>Contract and layers\<close>

lemma check_env_ok: "check_env kvs = None \<longleftrightarrow> list_all (\<lambda>(k, v). k \<noteq> [] \<and> CHR ''='' \<notin> set k \<and> CHR 0x00 \<notin> set v) kvs"
  by (induction kvs rule: check_env.induct) auto

lemma request_is_valid_exactly:
  "validate_request r = Inr () \<longleftrightarrow>
     (\<exists>prog args. xr_argv r = prog # args \<and> prog \<noteq> []) \<and> (\<forall>c. xr_cwd r = Some c \<longrightarrow> str_trim c \<noteq> [])
     \<and> list_all (\<lambda>(k, v). k \<noteq> [] \<and> CHR ''='' \<notin> set k \<and> CHR 0x00 \<notin> set v) (xr_env r)
     \<and> xr_timeout_secs r \<noteq> Some 0 \<and> xr_output_budget_bytes r \<noteq> Some 0 \<and> (xr_stream_mode r = Sm_Push \<longrightarrow> xr_cancel_token r \<noteq> None)"
  by (cases "xr_argv r"; cases "check_env (xr_env r)") (auto simp: validate_request_def check_env_ok [symmetric] split: option.splits)

definition env_value :: "string \<Rightarrow> (string \<times> (string, string) btree) list \<Rightarrow> string option" where
  "env_value k layers =
     (case find (\<lambda>l. bt_get k (snd l) \<noteq> None) (rev layers) of
        None \<Rightarrow> None
      | Some l \<Rightarrow> if bt_get k (snd l) = Some [] then None else bt_get k (snd l))"

lemma resolve_layer:
  assumes "bt_sorted vars"
  shows "bt_sorted m \<Longrightarrow> bt_sorted (fold resolve_var vars m) \<and>
    bt_get k (fold resolve_var vars m) = (case bt_get k vars of None \<Rightarrow> bt_get k m | Some v \<Rightarrow> if v = [] then None else Some v)"
  using assms
proof (induction vars arbitrary: m)
  case (Cons kv vars)
  obtain j v where j: "kv = (j, v)" by (cases kv)
  have s: "bt_sorted vars" "bt_get j vars = None"
    using Cons.prems(2) j by (auto simp: bt_sorted_def bt_get_def map_of_eq_None_iff)
  have "bt_sorted (resolve_var kv m)" using Cons.prems(1) j by (simp add: resolve_var_def)
  note ih = Cons.IH [OF this s(1)]
  have "bt_get k (kv # vars) = (if k = j then Some v else bt_get k vars)" using j by (simp add: bt_get_def)
  then show ?case using ih s(2) Cons.prems(1) j by (auto simp: resolve_var_def split: option.splits)
qed simp

text \<open>An environment variable has the value of the highest layer that mentions it, and none when that value is empty.\<close>

lemma highest_layer_wins:
  assumes "list_all (\<lambda>(_, vars). bt_sorted vars) (eh_layers h)"
  shows "bt_get k (resolve_env h) = env_value k (eh_layers h)"
proof -
  have "bt_sorted (fold (\<lambda>(_, vars) m. fold resolve_var vars m) layers []) \<and>
      bt_get k (fold (\<lambda>(_, vars) m. fold resolve_var vars m) layers []) = env_value k layers"
    if "list_all (\<lambda>(_, vars). bt_sorted vars) layers" for layers :: "(string \<times> (string, string) btree) list"
    using that
  proof (induction layers rule: rev_induct)
    case (snoc l layers)
    obtain n vars where l: "l = (n, vars)" by (cases l)
    then show ?case using snoc resolve_layer [of vars "fold (\<lambda>(_, vars) m. fold resolve_var vars m) layers []" k]
      by (auto simp: env_value_def split: option.splits)
  qed (simp add: env_value_def)
  then show ?thesis using assms by (simp add: resolve_env_def)
qed

lemma highest_layer_wins_witness:
  "bt_get ''A'' (resolve_env \<lparr>eh_layers = [(''repo'', [(''A'', ''1''), (''B'', ''2'')]), (''user'', [(''A'', [])])], eh_revisions = []\<rparr>) = None"
proof -
  let ?h = "\<lparr>eh_layers = [(''repo'', [(''A'', ''1''), (''B'', ''2'')]), (''user'', [(''A'', [])])], eh_revisions = []\<rparr>"
  have "list_all (\<lambda>(_, vars). bt_sorted vars) (eh_layers ?h)" by code_simp
  moreover have "env_value ''A'' (eh_layers ?h) = None" by code_simp
  ultimately show ?thesis using highest_layer_wins [of ?h "''A''"] by simp
qed

text \<open>Collapsing keeps each line once, in the order of first occurrences; how often a line came is lost.\<close>

lemma first_lines_spec: "first_lines seen ls = filter (\<lambda>l. l \<notin> set seen) (rev (remdups (rev ls)))"
proof (induction seen ls rule: first_lines.induct)
  case (2 seen l ls)
  have "filter (\<lambda>x. x \<notin> set (l # seen)) (rev (remdups (rev ls))) = filter (\<lambda>x. x \<notin> set seen) (filter (\<lambda>x. x \<noteq> l) (rev (remdups (rev ls))))"
    by (auto intro: filter_cong)
  moreover have "rev (remdups (rev (l # ls))) = l # filter (\<lambda>x. x \<noteq> l) (rev (remdups (rev ls)))"
    by (induction ls rule: rev_induct) (auto simp: remdups_append rev_filter)
  moreover have "l \<in> set seen \<Longrightarrow> filter (\<lambda>x. x \<notin> set seen) (filter (\<lambda>x. x \<noteq> l) ys) = filter (\<lambda>x. x \<notin> set seen) ys" for ys
    by (auto intro: filter_cong)
  ultimately show ?case using 2 by simp
qed simp

text \<open>The model view accounts for every byte it leaves out when the two limits fit into 64 bits together.\<close>

lemma layered_accounts:
  assumes "h + t < 2 ^ 64" and "length raw < 2 ^ 64"
  shows "\<exists>v. layered sha lossy raw h t = Some v \<and> lo_full v = raw \<and> lo_omitted_bytes v = length raw - (h + t)"
proof -
  have small: "(h + t) mod 2 ^ 64 = h + t" using assms(1) by simp
  have big: "(length raw + (2 ^ 64 - h) + (2 ^ 64 - t)) mod 2 ^ 64 = length raw - (h + t)" if "h + t < length raw"
  proof -
    have "length raw + (2 ^ 64 - h) + (2 ^ 64 - t) = (length raw - (h + t)) + 2 * 2 ^ 64" using that assms by simp
    then have "(length raw + (2 ^ 64 - h) + (2 ^ 64 - t)) mod 2 ^ 64 = (length raw - (h + t)) mod 2 ^ 64" by (simp only: mod_mult_self1)
    also have "\<dots> = length raw - (h + t)" using assms(2) by (intro mod_less) linarith
    finally show ?thesis .
  qed
  show ?thesis
  proof (cases "h + t < length raw")
    case True
    then show ?thesis unfolding layered_def Let_def small big [OF True] by simp
  next
    case False
    then show ?thesis unfolding layered_def Let_def small by simp
  qed
qed

end
