(* ===== verification/Merkle_Index.thy ===== *)
theory Merkle_Index
  imports Rust_Text Ordered_Map "HOL-Library.Product_Lexorder"
begin

text \<open>
  The Merkle index over a repository, \<^verbatim>\<open>crates/retrieval/src/merkle.rs\<close>: a digest for every file and for every directory, built
  from all files or updated from the changed ones. SHA-256 in hexadecimal is a parameter. The update is compared with a
  full build over the files it leads to: they agree as long as no file lies at the top of the tree.
\<close>

section \<open>Definitions\<close>

datatype recomputed = FileLeaf string | DirNode string

record merkle_index =
  mi_leaves :: "(string, string) btree"
  mi_dirs :: "(string, string) btree"
  mi_revision :: nat

definition dir_of :: "string \<Rightarrow> string" where
  "dir_of path = (case split_once CHR ''/'' (rev path) of Some (_, d) \<Rightarrow> rev d | None \<Rightarrow> [])"

definition base_name :: "string \<Rightarrow> string" where
  "base_name path = (case split_once CHR ''/'' (rev path) of Some (n, _) \<Rightarrow> rev n | None \<Rightarrow> path)"

definition combine :: "(string \<Rightarrow> string) \<Rightarrow> string \<Rightarrow> (string \<times> string) list \<Rightarrow> string" where
  "combine H dir children = H (dir @ concat (map (\<lambda>(n, d). [CHR 0x00] @ n @ [CHR 0x00] @ d) children))"

lemma split_once_length: "split_once c s = Some (a, b) \<Longrightarrow> length s = length a + 1 + length b"
  by (induction s arbitrary: a) (fastforce split: if_splits option.splits)+

lemma dir_of_shorter [termination_simp]: "p \<noteq> [] \<Longrightarrow> length (dir_of p) < length p"
  by (auto simp: dir_of_def split: option.splits dest: split_once_length)

text \<open>The directories above a path but not the top, nearest first.\<close>

function chain_from :: "string \<Rightarrow> string list" where
  "chain_from current = (if current = [] then [] else current # chain_from (dir_of current))"
  by pat_completeness auto
termination
  by (relation "measure length") (auto simp: dir_of_shorter)

declare chain_from.simps [simp del]

definition ancestor_chain :: "string \<Rightarrow> string list" where
  "ancestor_chain path = chain_from (dir_of path)"

definition compute_dir :: "(string \<Rightarrow> string) \<Rightarrow> (string, string) btree \<Rightarrow> (string, string) btree \<Rightarrow> string \<Rightarrow> string" where
  "compute_dir H leaves dirs dir =
     combine H dir (sort (map (\<lambda>(p, d). (base_name p, d)) (filter (\<lambda>e. dir_of (fst e) = dir) leaves)
                        @ map (\<lambda>(p, d). (base_name p, d)) (filter (\<lambda>e. dir_of (fst e) = dir) dirs)))"

text \<open>Directories to work on: sorted, without duplicates, the deepest first.\<close>

definition deepest_first :: "string list \<Rightarrow> string list" where
  "deepest_first ds = rev (remdups_adj (sort ds))"

definition dirs_of_paths :: "string list \<Rightarrow> string list" where
  "dirs_of_paths ps = concat (map (\<lambda>p. ancestor_chain p @ [dir_of p]) ps)"

definition merkle_build :: "(string \<Rightarrow> string) \<Rightarrow> (string, string) btree \<Rightarrow> nat \<Rightarrow> merkle_index" where
  "merkle_build H files revision =
     (let leaves = fold (\<lambda>(p, b). bt_insert p (H b)) files [];
          dirs = fold (\<lambda>d ds. bt_insert d (compute_dir H leaves ds d) ds) (deepest_first (dirs_of_paths (map fst leaves))) []
      in \<lparr>mi_leaves = leaves, mi_dirs = dirs, mi_revision = revision\<rparr>)"

definition root_digest :: "(string \<Rightarrow> string) \<Rightarrow> merkle_index \<Rightarrow> string" where
  "root_digest H m = compute_dir H (mi_leaves m) (mi_dirs m) []"

fun delete_leaves :: "string list \<Rightarrow> (string, string) btree \<Rightarrow> recomputed list \<times> (string, string) btree" where
  "delete_leaves [] leaves = ([], leaves)"
| "delete_leaves (p # ps) leaves =
     (case delete_leaves ps (bt_remove p leaves) of
        (ev, leaves') \<Rightarrow> ((if bt_get p leaves \<noteq> None then [FileLeaf p] else []) @ ev, leaves'))"

fun change_leaves :: "(string \<Rightarrow> string) \<Rightarrow> (string, string) btree \<Rightarrow> (string, string) btree \<Rightarrow> recomputed list \<times> (string, string) btree" where
  "change_leaves H [] leaves = ([], leaves)"
| "change_leaves H ((p, b) # fs) leaves =
     (case change_leaves H fs (bt_insert p (H b) leaves) of
        (ev, leaves') \<Rightarrow> ((if bt_get p leaves = Some (H b) then [] else [FileLeaf p]) @ ev, leaves'))"

definition refresh_dir ::
  "(string \<Rightarrow> string) \<Rightarrow> (string, string) btree \<Rightarrow> string \<Rightarrow> (string, string) btree \<Rightarrow> recomputed list \<times> (string, string) btree" where
  "refresh_dir H leaves dir dirs =
     (let digest = compute_dir H leaves dirs dir;
          has_files = list_ex (\<lambda>e. dir_of (fst e) = dir) leaves;
          has_subdirs = list_ex (\<lambda>e. fst e \<noteq> dir \<and> dir_of (fst e) = dir) dirs
      in case bt_get dir dirs of
           Some old \<Rightarrow>
             if \<not> (has_files \<or> has_subdirs) then ([DirNode dir], bt_remove dir dirs)
             else if old = digest then ([], dirs)
             else ([DirNode dir], bt_insert dir digest dirs)
         | None \<Rightarrow>
             if \<not> (has_files \<or> has_subdirs) then ([], dirs) else ([DirNode dir], bt_insert dir digest dirs))"

fun refresh_dirs ::
  "(string \<Rightarrow> string) \<Rightarrow> (string, string) btree \<Rightarrow> string list \<Rightarrow> (string, string) btree \<Rightarrow> recomputed list \<times> (string, string) btree" where
  "refresh_dirs H leaves [] dirs = ([], dirs)"
| "refresh_dirs H leaves (d # ds) dirs =
     (case refresh_dir H leaves d dirs of
        (ev, dirs1) \<Rightarrow> (case refresh_dirs H leaves ds dirs1 of (ev', dirs2) \<Rightarrow> (ev @ ev', dirs2)))"

definition apply_changes ::
  "(string \<Rightarrow> string) \<Rightarrow> (string, string) btree \<Rightarrow> string list \<Rightarrow> nat \<Rightarrow> merkle_index \<Rightarrow> recomputed list \<times> merkle_index" where
  "apply_changes H changed deleted new_revision m =
     (case delete_leaves deleted (mi_leaves m) of
        (ev1, leaves1) \<Rightarrow>
          (case change_leaves H changed leaves1 of
             (ev2, leaves2) \<Rightarrow>
               (case refresh_dirs H leaves2 (deepest_first (dirs_of_paths (deleted @ map fst changed))) (mi_dirs m) of
                  (ev3, dirs) \<Rightarrow> (ev1 @ ev2 @ ev3, \<lparr>mi_leaves = leaves2, mi_dirs = dirs, mi_revision = new_revision\<rparr>))))"

section \<open>Directories that are right\<close>

text \<open>What a directory should hold, from its files and the directories right below it.\<close>

definition dir_value :: "(string \<Rightarrow> string) \<Rightarrow> (string, string) btree \<Rightarrow> (string, string) btree \<Rightarrow> string \<Rightarrow> string option" where
  "dir_value H leaves dirs d =
     (if list_ex (\<lambda>e. dir_of (fst e) = d) leaves \<or> list_ex (\<lambda>e. dir_of (fst e) = d) dirs then Some (compute_dir H leaves dirs d) else None)"

definition dirs_right :: "(string \<Rightarrow> string) \<Rightarrow> (string, string) btree \<Rightarrow> (string, string) btree \<Rightarrow> bool" where
  "dirs_right H leaves dirs \<longleftrightarrow> bt_sorted leaves \<and> bt_sorted dirs \<and> bt_get [] dirs = None
     \<and> (\<forall>d. d \<noteq> [] \<longrightarrow> bt_get d dirs = dir_value H leaves dirs d)"

lemma bt_get_filter: "bt_sorted m \<Longrightarrow> bt_get k (filter (\<lambda>e. P (fst e)) m) = (if P k then bt_get k m else None)"
  unfolding bt_get_def by (induction m) (auto simp: bt_sorted_def)

lemma bt_sorted_filter: "bt_sorted m \<Longrightarrow> bt_sorted (filter P m)"
  unfolding bt_sorted_def by (induction m) auto

lemma same_entries:
  assumes "bt_sorted m" and "bt_sorted m'" and "\<And>k. P k \<Longrightarrow> bt_get k m = bt_get k m'"
  shows "filter (\<lambda>e. P (fst e)) m = filter (\<lambda>e. P (fst e)) m'"
  by (rule bt_ext) (use assms in \<open>auto simp: bt_sorted_filter bt_get_filter\<close>)

lemma list_ex_filter: "list_ex P xs \<longleftrightarrow> filter P xs \<noteq> []"
  by (auto simp: list_ex_iff filter_empty_conv)

text \<open>The value of a directory depends only on its files and the directories right below it.\<close>

lemma dir_value_local:
  assumes "bt_sorted l" "bt_sorted l'" "bt_sorted m" "bt_sorted m'"
    and "\<And>p. dir_of p = d \<Longrightarrow> bt_get p l = bt_get p l'" and "\<And>p. dir_of p = d \<Longrightarrow> bt_get p m = bt_get p m'"
  shows "dir_value H l m d = dir_value H l' m' d" and "compute_dir H l m d = compute_dir H l' m' d"
proof -
  have e: "filter (\<lambda>e. dir_of (fst e) = d) l = filter (\<lambda>e. dir_of (fst e) = d) l'"
    "filter (\<lambda>e. dir_of (fst e) = d) m = filter (\<lambda>e. dir_of (fst e) = d) m'"
    using assms by (intro same_entries; simp)+
  show "dir_value H l m d = dir_value H l' m' d" "compute_dir H l m d = compute_dir H l' m' d"
    unfolding dir_value_def compute_dir_def list_ex_filter e by simp_all
qed

lemma bt_get_in: "bt_sorted m \<Longrightarrow> bt_get k m = Some v \<longleftrightarrow> (k, v) \<in> set m"
  unfolding bt_get_def bt_sorted_def strict_sorted_iff by (simp add: map_of_eq_Some_iff)

text \<open>Two tables that are right for the same files are the same.\<close>

lemma dirs_right_unique:
  assumes "dirs_right H l m" and "dirs_right H l m'"
  shows "m = m'"
proof (rule bt_ext)
  show "bt_sorted m" "bt_sorted m'" using assms by (simp_all add: dirs_right_def)
  define n where "n = Max (insert 0 (length ` fst ` (set m \<union> set m')))"
  have bound: "bt_get d x = None" if long: "n < length d" and x: "x = m \<or> x = m'" for d x
  proof (rule ccontr)
    assume "bt_get d x \<noteq> None"
    then obtain v where "(d, v) \<in> set m \<union> set m'" using x by (auto simp: bt_get_def dest: map_of_SomeD)
    then have "length d \<le> n" unfolding n_def by (intro Max_ge) force+
    then show False using long by simp
  qed
  fix d
  show "bt_get d m = bt_get d m'"
  proof (induction "n - length d" arbitrary: d rule: less_induct)
    case less
    show ?case
    proof (cases "d = [] \<or> n < length d")
      case True
      then show ?thesis using bound assms by (auto simp: dirs_right_def)
    next
      case False
      have "bt_get p m = bt_get p m'" if "dir_of p = d" for p
      proof -
        have "length d < length p" using that False dir_of_shorter [of p] by (cases "p = []") (auto simp: dir_of_def)
        then show ?thesis using less [of p] bound [of p m] bound [of p m'] False by (cases "n < length p") auto
      qed
      then show ?thesis using assms False dir_value_local [of l l m m' d H] by (simp add: dirs_right_def)
    qed
  qed
qed

section \<open>Refreshing directories\<close>

lemma split_once_parts: "split_once c s = Some (a, b) \<longleftrightarrow> s = a @ c # b \<and> c \<notin> set a"
proof (induction s arbitrary: a)
  case (Cons x s)
  then show ?case by (cases a) auto
qed simp

lemma dir_of_less: "d \<noteq> [] \<Longrightarrow> dir_of p = d \<Longrightarrow> d < p"
proof -
  assume d: "d \<noteq> []" "dir_of p = d"
  then obtain n where "rev p = n @ CHR ''/'' # rev d" by (auto simp: dir_of_def split_once_parts split: option.splits)
  then have "p = d @ CHR ''/'' # rev n" by (metis append_Cons append_assoc append_Nil rev_append rev_rev_ident rev.simps(2))
  then show "d < p" by (simp add: list_less_def lexord_append_rightI)
qed

lemma refresh_dir_get:
  assumes "bt_sorted dirs" and "d \<noteq> []"
  shows "bt_sorted (snd (refresh_dir H l d dirs))"
    and "bt_get k (snd (refresh_dir H l d dirs)) = (if k = d then dir_value H l dirs d else bt_get k dirs)"
proof -
  have "(fst e \<noteq> d \<and> dir_of (fst e) = d) = (dir_of (fst e) = d)" for e :: "string \<times> string"
    using dir_of_less [OF assms(2)] by fastforce
  then show "bt_sorted (snd (refresh_dir H l d dirs))"
    "bt_get k (snd (refresh_dir H l d dirs)) = (if k = d then dir_value H l dirs d else bt_get k dirs)"
    using assms(1) by (auto simp: refresh_dir_def dir_value_def Let_def split: option.split)
qed

text \<open>After the deepest directories were refreshed first, all of them are right, and nothing else has changed.\<close>

lemma refresh_dirs_get:
  assumes "sorted_wrt (>) ds" and "[] \<notin> set ds" and "bt_sorted l" and "bt_sorted m" and "snd (refresh_dirs H l ds m) = m'"
  shows "bt_sorted m' \<and> (\<forall>k. k \<notin> set ds \<longrightarrow> bt_get k m' = bt_get k m) \<and> (\<forall>d \<in> set ds. bt_get d m' = dir_value H l m' d)"
  using assms
proof (induction ds arbitrary: m)
  case (Cons d ds)
  let ?m1 = "snd (refresh_dir H l d m)"
  have d: "d \<noteq> []" using Cons.prems(2) by auto
  have m1: "bt_sorted ?m1" "\<And>k. bt_get k ?m1 = (if k = d then dir_value H l m d else bt_get k m)"
    using refresh_dir_get [OF Cons.prems(4) d] by blast+
  have r: "snd (refresh_dirs H l ds ?m1) = m'" using Cons.prems(5) by (simp split: prod.splits)
  have ih: "bt_sorted m' \<and> (\<forall>k. k \<notin> set ds \<longrightarrow> bt_get k m' = bt_get k ?m1) \<and> (\<forall>d \<in> set ds. bt_get d m' = dir_value H l m' d)"
    using Cons.IH [OF _ _ Cons.prems(3) m1(1) r] Cons.prems(1,2) by simp
  have "bt_get p m' = bt_get p m" if "dir_of p = d" for p
  proof -
    have "d < p" using dir_of_less [OF d that] .
    then have "p \<notin> set ds" "p \<noteq> d" using Cons.prems(1) by auto
    then show ?thesis using ih m1(2) by simp
  qed
  then have "dir_value H l m d = dir_value H l m' d" using Cons.prems(3,4) ih by (intro dir_value_local(1)) auto
  moreover have "d \<notin> set ds" using Cons.prems(1) by auto
  ultimately show ?case using ih m1(2) by auto
qed simp

lemma refresh_right:
  assumes "dirs_right H l0 m0" and "bt_sorted l" and "sorted_wrt (>) ds" and "[] \<notin> set ds"
    and "\<And>d. d \<in> set ds \<Longrightarrow> dir_of d = [] \<or> dir_of d \<in> set ds" and "\<And>p. bt_get p l \<noteq> bt_get p l0 \<Longrightarrow> dir_of p \<in> set ds"
  shows "dirs_right H l (snd (refresh_dirs H l ds m0))"
proof -
  let ?m = "snd (refresh_dirs H l ds m0)"
  have m0: "bt_sorted l0" "bt_sorted m0" "bt_get [] m0 = None" "\<And>d. d \<noteq> [] \<Longrightarrow> bt_get d m0 = dir_value H l0 m0 d"
    using assms(1) by (simp_all add: dirs_right_def)
  note m = refresh_dirs_get [OF assms(3,4,2) m0(2) refl, of H]
  have "bt_get d ?m = dir_value H l ?m d" if "d \<noteq> []" "d \<notin> set ds" for d
  proof -
    have "bt_get p l0 = bt_get p l \<and> bt_get p m0 = bt_get p ?m" if "dir_of p = d" for p
      using assms(5) [of p] assms(6) [of p] \<open>d \<noteq> []\<close> \<open>d \<notin> set ds\<close> that m by metis
    then have "dir_value H l0 m0 d = dir_value H l ?m d" using m0 m assms(2) by (intro dir_value_local(1)) auto
    then show ?thesis using m0(4) [OF that(1)] m that(2) by simp
  qed
  then show ?thesis using m m0(3) assms(2,4) by (auto simp: dirs_right_def)
qed

lemma strictly_sorted: "sorted xs \<Longrightarrow> sorted_wrt (<) (remdups_adj (xs :: 'a :: linorder list))"
  by (induction xs rule: remdups_adj.induct) (auto simp: order.strict_iff_order)

lemma deepest_first_ok: "sorted_wrt (>) (deepest_first ds)" "set (deepest_first ds) = set ds"
  using strictly_sorted [of "sort ds"] by (simp_all add: deepest_first_def sorted_wrt_rev)

lemma chain_from_ok:
  "d \<in> set (chain_from c) \<Longrightarrow> d \<noteq> [] \<and> (dir_of d = [] \<or> dir_of d \<in> set (chain_from c)) \<and> (d = c \<or> (\<exists>s \<in> set (chain_from c). dir_of s = d))"
proof (induction c rule: chain_from.induct)
  case (1 c)
  show ?case
  proof (cases "d = c")
    case True
    then show ?thesis using "1.prems" by (auto simp: chain_from.simps [of c] chain_from.simps [of "dir_of c"] split: if_splits)
  next
    case False
    then have "c \<noteq> []" "d \<in> set (chain_from (dir_of c))" using "1.prems" by (auto simp: chain_from.simps [of c] split: if_splits)
    then show ?thesis using "1.IH" by (auto simp: chain_from.simps [of c])
  qed
qed

lemma dirs_of_paths_ok:
  assumes "\<forall>p \<in> set ps. dir_of p \<noteq> []"
  shows "[] \<notin> set (dirs_of_paths ps)" and "\<And>p. p \<in> set ps \<Longrightarrow> dir_of p \<in> set (dirs_of_paths ps)"
    and "\<And>d. d \<in> set (dirs_of_paths ps) \<Longrightarrow> dir_of d = [] \<or> dir_of d \<in> set (dirs_of_paths ps)"
    and "\<And>d. d \<in> set (dirs_of_paths ps) \<Longrightarrow> (\<exists>p \<in> set ps. dir_of p = d) \<or> (\<exists>s \<in> set (dirs_of_paths ps). dir_of s = d)"
proof -
  have m: "d \<in> set (dirs_of_paths ps) \<longleftrightarrow> (\<exists>p \<in> set ps. d \<in> set (chain_from (dir_of p)))" for d
  proof -
    have "dir_of p \<in> set (chain_from (dir_of p))" if "p \<in> set ps" for p
      using assms that by (subst chain_from.simps) simp
    then show ?thesis by (auto simp: dirs_of_paths_def ancestor_chain_def)
  qed
  have chain: "d \<noteq> [] \<and> (dir_of d = [] \<or> dir_of d \<in> set (dirs_of_paths ps))
      \<and> ((\<exists>p \<in> set ps. dir_of p = d) \<or> (\<exists>s \<in> set (dirs_of_paths ps). dir_of s = d))" if "d \<in> set (dirs_of_paths ps)" for d
  proof -
    obtain p where p: "p \<in> set ps" "d \<in> set (chain_from (dir_of p))" using \<open>d \<in> set (dirs_of_paths ps)\<close> m by blast
    then have "set (chain_from (dir_of p)) \<subseteq> set (dirs_of_paths ps)" using m by blast
    then show ?thesis using chain_from_ok [OF p(2)] p(1) by blast
  qed
  show "[] \<notin> set (dirs_of_paths ps)" using chain by blast
  show "p \<in> set ps \<Longrightarrow> dir_of p \<in> set (dirs_of_paths ps)" for p by (auto simp: dirs_of_paths_def)
  show "d \<in> set (dirs_of_paths ps) \<Longrightarrow> dir_of d = [] \<or> dir_of d \<in> set (dirs_of_paths ps)" for d using chain by simp
  show "d \<in> set (dirs_of_paths ps) \<Longrightarrow> (\<exists>p \<in> set ps. dir_of p = d) \<or> (\<exists>s \<in> set (dirs_of_paths ps). dir_of s = d)" for d
    using chain by simp
qed

section \<open>An update is a rebuild\<close>

lemma delete_leaves_get:
  "bt_sorted l \<Longrightarrow> bt_sorted (snd (delete_leaves ps l)) \<and> bt_get k (snd (delete_leaves ps l)) = (if k \<in> set ps then None else bt_get k l)"
proof (induction ps arbitrary: l)
  case (Cons p ps)
  have "snd (delete_leaves (p # ps) l) = snd (delete_leaves ps (bt_remove p l))" by (simp split: prod.split)
  then show ?case using Cons.IH [of "bt_remove p l"] Cons.prems by simp
qed simp

lemma change_leaves_get:
  "bt_sorted l \<Longrightarrow> bt_sorted fs \<Longrightarrow> bt_sorted (snd (change_leaves H fs l)) \<and>
     bt_get k (snd (change_leaves H fs l)) = (case bt_get k fs of Some b \<Rightarrow> Some (H b) | None \<Rightarrow> bt_get k l)"
proof (induction fs arbitrary: l)
  case (Cons pb fs)
  obtain p b where p: "pb = (p, b)" by (cases pb)
  have fs: "bt_sorted fs" "bt_get p fs = None" using Cons.prems(2) p by (auto simp: bt_sorted_def bt_get_def map_of_eq_None_iff)
  have "bt_get k (pb # fs) = (if k = p then Some b else bt_get k fs)" using p by (simp add: bt_get_def)
  moreover have "snd (change_leaves H (pb # fs) l) = snd (change_leaves H fs (bt_insert p (H b) l))" using p by (simp split: prod.split)
  ultimately show ?case using Cons.IH [of "bt_insert p (H b) l"] Cons.prems(1) fs by (auto split: option.splits)
qed simp

lemma insert_all_get:
  "bt_sorted m \<Longrightarrow> bt_sorted fs \<Longrightarrow> bt_sorted (fold (\<lambda>(p, b). bt_insert p (f b)) fs m) \<and>
     bt_get k (fold (\<lambda>(p, b). bt_insert p (f b)) fs m) = (case bt_get k fs of Some b \<Rightarrow> Some (f b) | None \<Rightarrow> bt_get k m)"
proof (induction fs arbitrary: m)
  case (Cons pb fs)
  obtain p b where p: "pb = (p, b)" by (cases pb)
  have fs: "bt_sorted fs" "bt_get p fs = None" using Cons.prems(2) p by (auto simp: bt_sorted_def bt_get_def map_of_eq_None_iff)
  have "bt_get k (pb # fs) = (if k = p then Some b else bt_get k fs)" using p by (simp add: bt_get_def)
  then show ?case using Cons.IH [of "bt_insert p (f b) m"] Cons.prems(1) fs p by (auto split: option.splits)
qed simp

lemma remove_all_get:
  "bt_sorted m \<Longrightarrow> bt_sorted (fold bt_remove ps m) \<and> bt_get k (fold bt_remove ps m) = (if k \<in> set ps then None else bt_get k m)"
  by (induction ps arbitrary: m) auto

text \<open>A build inserts what a refresh of nothing gives: every directory it visits has something in it.\<close>

lemma build_is_refresh:
  assumes "sorted_wrt (>) ds" and "[] \<notin> set ds" and "bt_sorted m"
    and "\<And>d. d \<in> set ds \<Longrightarrow> list_ex (\<lambda>e. dir_of (fst e) = d) l \<or> (\<exists>s. dir_of s = d \<and> (s \<in> set ds \<or> bt_get s m \<noteq> None))"
  shows "fold (\<lambda>d m. bt_insert d (compute_dir H l m d) m) ds m = snd (refresh_dirs H l ds m)"
  using assms
proof (induction ds arbitrary: m)
  case (Cons d ds)
  have d: "d \<noteq> []" using Cons.prems(2) by auto
  have "list_ex (\<lambda>e. dir_of (fst e) = d) l \<or> list_ex (\<lambda>e. fst e \<noteq> d \<and> dir_of (fst e) = d) m"
  proof (cases "list_ex (\<lambda>e. dir_of (fst e) = d) l")
    case False
    then obtain s where s: "dir_of s = d" "s \<in> set (d # ds) \<or> bt_get s m \<noteq> None" using Cons.prems(4) [of d] by auto
    have "d < s" using dir_of_less [OF d s(1)] .
    then have "s \<notin> set (d # ds)" using Cons.prems(1) by auto
    then obtain v where "(s, v) \<in> set m" using s(2) bt_get_in [OF Cons.prems(3)] by auto
    then show ?thesis using s(1) \<open>d < s\<close> by (force simp: list_ex_iff)
  qed simp
  then have step: "snd (refresh_dir H l d m) = (if bt_get d m = Some (compute_dir H l m d) then m else bt_insert d (compute_dir H l m d) m)"
    by (auto simp: refresh_dir_def Let_def split: option.split)
  moreover have "bt_insert d (compute_dir H l m d) m = m" if "bt_get d m = Some (compute_dir H l m d)"
    by (rule bt_ext) (use that Cons.prems(3) in auto)
  ultimately have step: "snd (refresh_dir H l d m) = bt_insert d (compute_dir H l m d) m" by simp
  have "list_ex (\<lambda>e. dir_of (fst e) = d') l \<or> (\<exists>s. dir_of s = d' \<and> (s \<in> set ds \<or> bt_get s (bt_insert d (compute_dir H l m d) m) \<noteq> None))"
    if "d' \<in> set ds" for d' using Cons.prems(3) Cons.prems(4) [of d'] that by auto
  then have "fold (\<lambda>d m. bt_insert d (compute_dir H l m d) m) ds (bt_insert d (compute_dir H l m d) m)
      = snd (refresh_dirs H l ds (bt_insert d (compute_dir H l m d) m))"
    using Cons.IH [of "bt_insert d (compute_dir H l m d) m"] Cons.prems(1,2,3) by auto
  then show ?case using step by (auto split: prod.splits)
qed simp

lemma build_right:
  assumes "bt_sorted l" and "\<forall>e \<in> set l. dir_of (fst e) \<noteq> []"
  shows "dirs_right H l (fold (\<lambda>d m. bt_insert d (compute_dir H l m d) m) (deepest_first (dirs_of_paths (map fst l))) [])"
proof -
  let ?ds = "deepest_first (dirs_of_paths (map fst l))"
  have top: "\<forall>p \<in> set (map fst l). dir_of p \<noteq> []" using assms(2) by auto
  note ok = dirs_of_paths_ok [OF top]
  have "fold (\<lambda>d m. bt_insert d (compute_dir H l m d) m) ?ds [] = snd (refresh_dirs H l ?ds [])"
    using ok(1,4) by (intro build_is_refresh) (auto simp: deepest_first_ok list_ex_iff)
  moreover have "dirs_right H [] []" by (simp add: dirs_right_def dir_value_def)
  then have "dirs_right H l (snd (refresh_dirs H l ?ds []))"
  proof (rule refresh_right)
    show "dir_of p \<in> set ?ds" if "bt_get p l \<noteq> bt_get p []" for p
      using that ok(2) bt_get_in [OF assms(1), of p] by (force simp: deepest_first_ok)
  qed (use assms(1) ok in \<open>auto simp: deepest_first_ok\<close>)
  ultimately show ?thesis by simp
qed

definition below_top :: "string list \<Rightarrow> bool" where
  "below_top ps \<longleftrightarrow> list_all (\<lambda>p. dir_of p \<noteq> []) ps"

lemma update_is_build:
  assumes "bt_sorted files" and "bt_sorted changed" and "below_top (map fst files @ map fst changed @ deleted)"
  shows "snd (apply_changes H changed deleted r2 (merkle_build H files r)) =
    merkle_build H (fold (\<lambda>(p, b). bt_insert p b) changed (fold bt_remove deleted files)) r2"
proof -
  let ?files2 = "fold (\<lambda>(p, b). bt_insert p b) changed (fold bt_remove deleted files)"
  define l0 where "l0 = fold (\<lambda>(p, b). bt_insert p (H b)) files []"
  define l where "l = snd (change_leaves H changed (snd (delete_leaves deleted l0)))"
  define l2 where "l2 = fold (\<lambda>(p, b). bt_insert p (H b)) ?files2 []"
  have s2: "bt_sorted ?files2" "\<And>k. bt_get k ?files2 = (case bt_get k changed of Some b \<Rightarrow> Some b | None \<Rightarrow> if k \<in> set deleted then None else bt_get k files)"
    using insert_all_get [OF conjunct1 [OF remove_all_get [OF assms(1), of deleted]] assms(2), of "\<lambda>b. b"]
      conjunct2 [OF remove_all_get [OF assms(1), of deleted]] by (simp_all cong: option.case_cong)
  have g0: "bt_sorted l0" "\<And>k. bt_get k l0 = map_option H (bt_get k files)"
    using insert_all_get [of "[]" files H] assms(1) unfolding l0_def by (auto split: option.split)
  have g: "bt_sorted l" "\<And>k. bt_get k l = (case bt_get k changed of Some b \<Rightarrow> Some (H b) | None \<Rightarrow> if k \<in> set deleted then None else bt_get k l0)"
    using change_leaves_get [OF conjunct1 [OF delete_leaves_get [OF g0(1), of deleted]] assms(2), of H]
      conjunct2 [OF delete_leaves_get [OF g0(1), of deleted]] unfolding l_def by (simp_all cong: option.case_cong)
  have l2: "l2 = l"
  proof (rule bt_ext)
    show "bt_sorted l2" "bt_get k l2 = bt_get k l" for k
      using insert_all_get [of "[]" ?files2 H] s2 g(2) g0(2) unfolding l2_def by (auto split: option.split)
  qed (rule g(1))
  let ?ds = "deepest_first (dirs_of_paths (deleted @ map fst changed))"
  let ?m0 = "fold (\<lambda>d m. bt_insert d (compute_dir H l0 m d) m) (deepest_first (dirs_of_paths (map fst l0))) []"
  have top: "dir_of k \<noteq> []" if "bt_get k files \<noteq> None \<or> bt_get k changed \<noteq> None \<or> k \<in> set deleted" for k
    using that assms(3) bt_get_in [OF assms(1), of k] bt_get_in [OF assms(2), of k] by (force simp: below_top_def list_all_iff)
  have "dir_of (fst e) \<noteq> []" if "e \<in> set l0 \<or> e \<in> set l" for e
  proof -
    have "bt_get (fst e) l0 \<noteq> None \<or> bt_get (fst e) l \<noteq> None" using that bt_get_in [OF g0(1), of "fst e" "snd e"] bt_get_in [OF g(1), of "fst e" "snd e"] by auto
    then show ?thesis using top [of "fst e"] g(2) [of "fst e"] g0(2) [of "fst e"] by (auto split: option.splits if_splits)
  qed
  then have tops: "\<forall>e \<in> set l0. dir_of (fst e) \<noteq> []" "\<forall>e \<in> set l. dir_of (fst e) \<noteq> []" by blast+
  have dtop: "\<forall>p \<in> set (deleted @ map fst changed). dir_of p \<noteq> []" using assms(3) by (auto simp: below_top_def list_all_iff)
  note ok = dirs_of_paths_ok [OF dtop]
  have "dirs_right H l (snd (refresh_dirs H l ?ds ?m0))"
  proof (rule refresh_right [OF build_right [OF g0(1) tops(1)] g(1)])
    show "dir_of p \<in> set ?ds" if "bt_get p l \<noteq> bt_get p l0" for p
    proof -
      have "p \<in> set deleted \<or> bt_get p changed \<noteq> None" using that g(2) [of p] by (cases "bt_get p changed") (auto split: if_splits)
      then have "p \<in> set (deleted @ map fst changed)" by (auto simp: bt_get_def map_of_eq_None_iff image_iff)
      then show ?thesis using ok(2) by (simp add: deepest_first_ok)
    qed
  qed (use ok in \<open>auto simp: deepest_first_ok\<close>)
  then have "snd (refresh_dirs H l ?ds ?m0) = fold (\<lambda>d m. bt_insert d (compute_dir H l m d) m) (deepest_first (dirs_of_paths (map fst l))) []"
    using dirs_right_unique build_right [OF g(1) tops(2)] by blast
  then show ?thesis using l2 unfolding l_def l2_def l0_def
    by (auto simp: apply_changes_def merkle_build_def Let_def split: prod.splits)
qed

text \<open>Updating the index with the changed and deleted files gives exactly the index a full build over the new files gives, every
  directory and so the root digest included, as long as every path lies in a directory.\<close>

lemma update_equals_rebuild:
  assumes "bt_sorted files" and "bt_sorted changed" and "below_top (map fst files @ map fst changed @ deleted)"
  shows "snd (apply_changes H changed deleted r2 (merkle_build H files r)) =
    merkle_build H (fold (\<lambda>(p, b). bt_insert p b) changed (fold bt_remove deleted files)) r2"
  using assms by (rule update_is_build)

lemma update_equals_rebuild_witness:
  "below_top [''a/b/x'', ''a/y''] \<and>
   root_digest (\<lambda>s. s) (snd (apply_changes (\<lambda>s. s) [(''a/b/x'', ''2'')] [''a/y''] 2 (merkle_build (\<lambda>s. s) [(''a/b/x'', ''1''), (''a/y'', ''1'')] 1))) =
   root_digest (\<lambda>s. s) (merkle_build (\<lambda>s. s) [(''a/b/x'', ''2'')] 2)"
proof -
  let ?f = "[(''a/b/x'', ''1''), (''a/y'', ''1'')]" and ?c = "[(''a/b/x'', ''2'')]" and ?d = "[''a/y'']"
  have s: "bt_sorted ?f" "bt_sorted ?c" "below_top (map fst ?f @ map fst ?c @ ?d)" "below_top [''a/b/x'', ''a/y'']" by code_simp+
  have "fold (\<lambda>(p, b). bt_insert p b) ?c (fold bt_remove ?d ?f) = ?c" by code_simp
  then show ?thesis using update_equals_rebuild [OF s(1,2,3), of "\<lambda>s. s" 2 1] s(4) by simp
qed

section \<open>Files at the top\<close>

lemma top_path: "CHR ''/'' \<notin> set p \<Longrightarrow> dir_of p = [] \<and> base_name p = p"
proof -
  assume "CHR ''/'' \<notin> set p"
  then have "split_once CHR ''/'' (rev p) = None"
    by (metis in_set_conv_decomp not_None_eq set_rev split_once_parts surj_pair)
  then show ?thesis by (simp add: dir_of_def base_name_def)
qed

lemma top_dirs: "CHR ''/'' \<notin> set p \<Longrightarrow> deepest_first (dirs_of_paths [p]) = [[]]"
  by (simp add: deepest_first_def dirs_of_paths_def ancestor_chain_def top_path chain_from.simps [of "[]"])

lemma top_compute:
  assumes "CHR ''/'' \<notin> set p" and "p \<noteq> []"
  shows "compute_dir H [(p, h)] [] [] = H ([CHR 0x00] @ p @ [CHR 0x00] @ h)"
    and "compute_dir H [(p, h)] [([], d)] [] = H ([CHR 0x00, CHR 0x00] @ d @ [CHR 0x00] @ p @ [CHR 0x00] @ h)"
  using assms by (cases p; auto simp: compute_dir_def combine_def top_path top_path [of "[]", simplified])+

text \<open>With a file at the top of the tree the digest of the tree is not the digest of a rebuild: handing the only file in
  again, unchanged, gives another root, for every digest that separates its inputs.\<close>

lemma top_level_file_drifts:
  assumes "inj H" and "CHR ''/'' \<notin> set p" and "p \<noteq> []"
  shows "root_digest H (snd (apply_changes H [(p, b)] [] r (merkle_build H [(p, b)] r))) \<noteq> root_digest H (merkle_build H [(p, b)] r)"
proof -
  let ?d0 = "H ([CHR 0x00] @ p @ [CHR 0x00] @ H b)"
  let ?d1 = "H ([CHR 0x00, CHR 0x00] @ ?d0 @ [CHR 0x00] @ p @ [CHR 0x00] @ H b)"
  have ne: "?d1 \<noteq> ?d0"
  proof
    assume "?d1 = ?d0"
    then have "length ([CHR 0x00, CHR 0x00] @ ?d0 @ [CHR 0x00] @ p @ [CHR 0x00] @ H b) = length ([CHR 0x00] @ p @ [CHR 0x00] @ H b)"
      using assms(1) by (metis injD)
    then show False by simp
  qed
  have b: "merkle_build H [(p, b)] r = \<lparr>mi_leaves = [(p, H b)], mi_dirs = [([], ?d0)], mi_revision = r\<rparr>"
    using top_compute(1) [OF assms(2,3), of H "H b"] by (simp add: merkle_build_def top_dirs [OF assms(2)])
  have "list_ex (\<lambda>e. dir_of (fst e) = []) [(p, H b)]" using top_path [OF assms(2)] by simp
  then have "refresh_dir H [(p, H b)] [] [([], ?d0)] = ([DirNode []], [([], ?d1)])"
    using ne top_compute(2) [OF assms(2,3), of H "H b" ?d0] by (simp add: refresh_dir_def Let_def bt_get_def)
  then have a: "mi_dirs (snd (apply_changes H [(p, b)] [] r (merkle_build H [(p, b)] r))) = [([], ?d1)]"
    "mi_leaves (snd (apply_changes H [(p, b)] [] r (merkle_build H [(p, b)] r))) = [(p, H b)]"
    using b by (simp_all add: apply_changes_def top_dirs [OF assms(2)])
  have "H ([CHR 0x00, CHR 0x00] @ ?d1 @ [CHR 0x00] @ p @ [CHR 0x00] @ H b) \<noteq> ?d1"
    using assms(1) ne by (auto dest: injD)
  then show ?thesis unfolding root_digest_def a unfolding b using top_compute(2) [OF assms(2,3), of H "H b"] by simp
qed

lemma top_level_file_drifts_witness:
  "root_digest (\<lambda>s. s) (snd (apply_changes (\<lambda>s. s) [(''x'', ''1'')] [] 1 (merkle_build (\<lambda>s. s) [(''x'', ''1'')] 1))) \<noteq>
   root_digest (\<lambda>s. s) (merkle_build (\<lambda>s. s) [(''x'', ''1'')] 1)"
  by (rule top_level_file_drifts) simp_all

end
