(* ===== verification/Dependency_Graph.thy ===== *)
theory Dependency_Graph
  imports Rust_Text Ordered_Map "HOL-Library.Product_Lexorder"
begin

text \<open>
  Import edges between the files of a repository, \<^verbatim>\<open>crates/retrieval/src/dependencies.rs\<close> and the dependency strings of
  \<^verbatim>\<open>symbols.rs\<close>: how an import is resolved to an indexed file, the table of edges and its upkeep, and the impact query, the
  files that depend on a file directly or through others. The texts a tree-sitter query captures are a parameter. The impact
  query is compared with the distance in the graph: it reports exactly the dependents within its depth, each with the
  length of its shortest chain of imports.
\<close>

section \<open>Paths as text\<close>

text \<open>\<open>Path::parent\<close> on a Unix path: the text before the last component, where empty components and \<open>.\<close> after the start do
  not count.\<close>

definition trim_segments :: "string list \<Rightarrow> string list" where
  "trim_segments segs = (case segs of [] \<Rightarrow> [] | s # rest \<Rightarrow> s # rev (dropWhile (\<lambda>x. x = [] \<or> x = ''.'') (rev rest)))"

definition path_parent :: "string \<Rightarrow> string option" where
  "path_parent p =
     (case trim_segments (str_split (\<lambda>c. c = CHR ''/'') p) of
        [] \<Rightarrow> None
      | [s] \<Rightarrow> (if s = [] then None else Some [])
      | s # rest \<Rightarrow> (let q = trim_segments (s # butlast rest) in Some (if q = [[]] then ''/'' else str_join ''/'' q)))"

text \<open>\<open>Path::join\<close>: an absolute path replaces the base.\<close>

definition path_join :: "string \<Rightarrow> string \<Rightarrow> string" where
  "path_join base p =
     (if starts_with p ''/'' then p
      else if base = [] \<or> last base = CHR ''/'' then base @ p
      else base @ ''/'' @ p)"

fun replace_colons :: "string \<Rightarrow> string" where
  "replace_colons (a # b # s) =
     (if a = CHR '':'' \<and> b = CHR '':'' then CHR ''/'' # replace_colons s else a # replace_colons (b # s))"
| "replace_colons s = s"

definition trim_quotes :: "string \<Rightarrow> string" where
  "trim_quotes s = (let q = (\<lambda>c. c = CHR 0x27 \<or> c = CHR 0x22) in rev (dropWhile q (rev (dropWhile q s))))"

fun push_segments :: "string list \<Rightarrow> string list \<Rightarrow> string list option" where
  "push_segments [] parts = Some parts"
| "push_segments (seg # segs) parts =
     (if seg = ''.'' \<or> seg = [] then push_segments segs parts
      else if seg = ''..'' then if parts = [] then None else push_segments segs (butlast parts)
      else push_segments segs (parts @ [seg]))"

definition normalize_dep :: "string \<Rightarrow> string option" where
  "normalize_dep p = map_option (str_join ''/'') (push_segments (str_split (\<lambda>c. c = CHR ''/'' \<or> c = CHR 0x5C) p) [])"

section \<open>Dependency strings\<close>

datatype dep_kind = DepRust | DepTs | DepPython

fun dep_kind_str :: "dep_kind \<Rightarrow> string" where
  "dep_kind_str DepRust = ''use''"
| "dep_kind_str DepTs = ''import''"
| "dep_kind_str DepPython = ''import''"

definition language_of :: "string \<Rightarrow> string option" where
  "language_of path =
     (let ext = to_lowercase (last (str_split (\<lambda>c. c = CHR ''.'') path))
      in if ext = ''rs'' then Some ''rust''
         else if ext = ''ts'' then Some ''typescript''
         else if ext = ''tsx'' then Some ''tsx''
         else if ext \<in> {''js'', ''jsx'', ''mjs'', ''cjs''} then Some ''javascript''
         else if ext = ''py'' then Some ''python''
         else None)"

text \<open>The texts that the import query of a language captures in a source are \<open>captures lang source\<close>, none when it does not
  parse.\<close>

definition parse_dep_strings :: "(string \<Rightarrow> string \<Rightarrow> string list) \<Rightarrow> string \<Rightarrow> string \<Rightarrow> (string \<times> dep_kind) list" where
  "parse_dep_strings captures lang source =
     (let texts = filter (\<lambda>t. t \<noteq> []) (captures lang source)
      in if lang = ''rust'' then map (\<lambda>t. (t, DepRust)) texts
         else if lang \<in> {''typescript'', ''tsx'', ''javascript''} then map (\<lambda>t. (t, DepTs)) texts
         else if lang = ''python'' then map (\<lambda>t. (t, DepPython)) texts
         else [])"

section \<open>Resolution\<close>

definition resolve_ts :: "string \<Rightarrow> string \<Rightarrow> string list \<Rightarrow> string option" where
  "resolve_ts from_path raw known =
     (let spec = trim_quotes raw
      in if \<not> starts_with spec ''./'' \<and> \<not> starts_with spec ''../'' then None
         else Option.bind (path_parent from_path) (\<lambda>dir.
                Option.bind (normalize_dep (path_join dir spec)) (\<lambda>base.
                  find (\<lambda>cand. cand \<in> set known)
                    (map (\<lambda>ext. base @ ''.'' @ ext) [''ts'', ''tsx'', ''js'', ''tsx'', ''ts'']
                     @ map (\<lambda>ext. base @ ''/index.'' @ ext) [''ts'', ''tsx'', ''js'']))))"

text \<open>One leading dot is taken off, whatever their number, so the loop over the further dots never runs.\<close>

definition resolve_python :: "string \<Rightarrow> string \<Rightarrow> string list \<Rightarrow> string option" where
  "resolve_python from_path raw known =
     Option.bind
       (case strip_prefix ''.'' raw of
          Some rest \<Rightarrow> map_option (Pair rest) (((\<lambda>b. Option.bind b path_parent) ^^ (length raw - length rest - 1)) (path_parent from_path))
        | None \<Rightarrow> Some (raw, []))
       (\<lambda>(spec, base).
          Option.bind (if spec = [] then Some base
                       else normalize_dep (path_join base (map (\<lambda>c. if c = CHR ''.'' then CHR ''/'' else c) spec)))
            (\<lambda>rel. find (\<lambda>cand. cand \<in> set known) [rel @ ''.py'', rel @ ''/__init__.py'']))"

function strip_supers :: "nat \<Rightarrow> string \<Rightarrow> nat \<times> string" where
  "strip_supers n cursor = (case strip_prefix ''super::'' cursor of Some rest \<Rightarrow> strip_supers (n + 1) rest | None \<Rightarrow> (n, cursor))"
  by pat_completeness auto
termination
  by (relation "measure (\<lambda>(n, s). length s)") (auto simp: strip_prefix_def starts_with_def prefix_def split: if_splits)

declare strip_supers.simps [simp del]

definition parent_or_empty :: "string \<Rightarrow> string" where
  "parent_or_empty p = (case path_parent p of Some q \<Rightarrow> q | None \<Rightarrow> [])"

definition resolve_rust :: "string \<Rightarrow> string \<Rightarrow> string list \<Rightarrow> string option" where
  "resolve_rust from_path raw known =
     (let here = parent_or_empty from_path
      in Option.bind
           (case strip_prefix ''crate::'' raw of
              Some rest \<Rightarrow> Some (rest, [])
            | None \<Rightarrow>
                (case strip_supers 0 raw of
                   (supers, cursor) \<Rightarrow>
                     if 0 < supers then Some (cursor, (parent_or_empty ^^ supers) here)
                     else map_option (\<lambda>spec. (spec, here)) (strip_prefix ''self::'' raw)))
           (\<lambda>(spec, base).
              Option.bind (normalize_dep (path_join base (replace_colons spec))) (\<lambda>rel.
                find (\<lambda>cand. cand \<in> set known)
                  [''src/'' @ rel @ ''.rs'', rel @ ''.rs'', ''src/'' @ rel @ ''/mod.rs'', rel @ ''/mod.rs''])))"

definition resolve_dep :: "string \<Rightarrow> string \<Rightarrow> dep_kind \<Rightarrow> string list \<Rightarrow> string option" where
  "resolve_dep from_path raw kind known =
     (case kind of
        DepTs \<Rightarrow> resolve_ts from_path raw known
      | DepPython \<Rightarrow> resolve_python from_path raw known
      | DepRust \<Rightarrow> resolve_rust from_path raw known)"

section \<open>The table of edges\<close>

type_synonym dep_index = "(string, (string, string) btree) btree"

record dependency_edge =
  de_from :: string
  de_to :: string
  de_kind :: string

definition add_target :: "string \<Rightarrow> string list \<Rightarrow> string \<times> dep_kind \<Rightarrow> (string, string) btree \<Rightarrow> (string, string) btree" where
  "add_target from_path known d targets =
     (case resolve_dep from_path (fst d) (snd d) known of
        Some to \<Rightarrow> if to \<noteq> from_path then bt_insert to (dep_kind_str (snd d)) targets else targets
      | None \<Rightarrow> targets)"

definition index_deps :: "(string \<Rightarrow> string \<Rightarrow> string list) \<Rightarrow> string \<Rightarrow> string \<Rightarrow> string list \<Rightarrow> dep_index \<Rightarrow> dep_index" where
  "index_deps captures path bytes known ix =
     (let from_path = map (\<lambda>c. if c = CHR 0x5C then CHR ''/'' else c) path;
          targets = (case language_of from_path of
                       Some lang \<Rightarrow> fold (add_target from_path known) (parse_dep_strings captures lang bytes) []
                     | None \<Rightarrow> [])
      in if targets = [] then bt_remove from_path ix else bt_insert from_path targets ix)"

definition remove_deps :: "string \<Rightarrow> dep_index \<Rightarrow> dep_index" where
  "remove_deps from_path ix = bt_remove from_path ix"

definition prune_deps :: "string list \<Rightarrow> dep_index \<Rightarrow> dep_index" where
  "prune_deps known ix = filter (\<lambda>e. snd e \<noteq> []) (map (\<lambda>(f, ts). (f, filter (\<lambda>t. fst t \<in> set known) ts)) ix)"

definition imported_by :: "dep_index \<Rightarrow> string \<Rightarrow> string list" where
  "imported_by ix path = sort (map fst (filter (\<lambda>e. bt_get path (snd e) \<noteq> None) ix))"

definition all_deps :: "dep_index \<Rightarrow> dependency_edge list" where
  "all_deps ix = concat (map (\<lambda>(f, ts). map (\<lambda>(to, k). \<lparr>de_from = f, de_to = to, de_kind = k\<rparr>) ts) ix)"

definition edge_count :: "dep_index \<Rightarrow> nat" where
  "edge_count ix = sum_list (map (\<lambda>e. length (snd e)) ix)"

section \<open>The impact query\<close>

definition visit_dependent ::
  "string \<Rightarrow> nat \<Rightarrow> string \<Rightarrow> (string, nat) btree \<times> string list \<Rightarrow> (string, nat) btree \<times> string list" where
  "visit_dependent path depth q st =
     (if q \<noteq> path \<and> bt_get q (fst st) = None then (bt_insert q depth (fst st), insort_insert q (snd st)) else st)"

definition impact_round :: "dep_index \<Rightarrow> string \<Rightarrow> nat \<Rightarrow> string list \<Rightarrow> (string, nat) btree \<Rightarrow> (string, nat) btree \<times> string list" where
  "impact_round ix path depth frontier seen =
     fold (\<lambda>node. fold (visit_dependent path depth) (imported_by ix node)) frontier (seen, [])"

fun impact_loop :: "dep_index \<Rightarrow> string \<Rightarrow> nat \<Rightarrow> nat \<Rightarrow> string list \<Rightarrow> (string, nat) btree \<Rightarrow> (string, nat) btree" where
  "impact_loop ix path depth 0 frontier seen = seen"
| "impact_loop ix path depth (Suc left) frontier seen =
     (case impact_round ix path depth frontier seen of
        (seen', nxt) \<Rightarrow> if nxt = [] then seen' else impact_loop ix path (depth + 1) left nxt seen')"

definition dep_impact :: "dep_index \<Rightarrow> string \<Rightarrow> nat \<Rightarrow> (string \<times> nat) list" where
  "dep_impact ix path max_depth =
     sort_key (\<lambda>(p, h). (h, p)) (impact_loop ix path 1 (max max_depth 1) [path] [])"

section \<open>Distance\<close>

text \<open>The files a chain of \<open>n\<close> imports away, and those for which no chain is shorter.\<close>

fun dependents_at :: "dep_index \<Rightarrow> string \<Rightarrow> nat \<Rightarrow> string set" where
  "dependents_at ix path 0 = {path}"
| "dependents_at ix path (Suc n) = (\<Union>a \<in> dependents_at ix path n. set (imported_by ix a))"

definition at_distance :: "dep_index \<Rightarrow> string \<Rightarrow> nat \<Rightarrow> string \<Rightarrow> bool" where
  "at_distance ix path n q \<longleftrightarrow> q \<in> dependents_at ix path n \<and> (\<forall>m<n. q \<notin> dependents_at ix path m)"

lemma at_distance_0 [simp]: "at_distance ix path 0 q \<longleftrightarrow> q = path"
  by (simp add: at_distance_def)

lemma at_distance_exists: "q \<in> dependents_at ix path n \<Longrightarrow> \<exists>m\<le>n. at_distance ix path m q"
proof (induction n rule: less_induct)
  case (less n)
  show ?case
  proof (cases "\<exists>m<n. q \<in> dependents_at ix path m")
    case True
    then show ?thesis using less.IH by (meson less_imp_le order.trans)
  qed (use less.prems in \<open>auto simp: at_distance_def\<close>)
qed

lemma at_distance_Suc: "at_distance ix path (Suc n) q \<Longrightarrow> \<exists>a. at_distance ix path n a \<and> q \<in> set (imported_by ix a)"
proof -
  assume q: "at_distance ix path (Suc n) q"
  then obtain a where a: "a \<in> dependents_at ix path n" "q \<in> set (imported_by ix a)" by (auto simp: at_distance_def)
  have "a \<notin> dependents_at ix path m" if "m < n" for m
  proof
    assume "a \<in> dependents_at ix path m"
    then have "q \<in> dependents_at ix path (Suc m)" using a(2) by auto
    then show False using q \<open>m < n\<close> by (auto simp: at_distance_def)
  qed
  then show ?thesis using a by (auto simp: at_distance_def)
qed

lemma at_distance_unique: "at_distance ix path m q \<Longrightarrow> at_distance ix path n q \<Longrightarrow> m = n"
  unfolding at_distance_def by (metis linorder_neqE_nat)

lemma no_gap: "at_distance ix path n q \<Longrightarrow> m \<le> n \<Longrightarrow> \<exists>a. at_distance ix path m a"
proof (induction n arbitrary: q)
  case (Suc n)
  then show ?case using at_distance_Suc [OF Suc.prems(1)] by (metis le_Suc_eq)
qed auto

section \<open>A round of the query\<close>

lemma visit_all:
  "bt_sorted (fst st) \<Longrightarrow> fold (visit_dependent path depth) qs st = st' \<Longrightarrow>
     bt_sorted (fst st') \<and> (\<forall>q. bt_get q (fst st') = (if bt_get q (fst st) = None \<and> q \<in> set qs \<and> q \<noteq> path then Some depth else bt_get q (fst st)))
     \<and> set (snd st') = set (snd st) \<union> {q \<in> set qs. q \<noteq> path \<and> bt_get q (fst st) = None}"
proof (induction qs arbitrary: st)
  case (Cons q qs)
  let ?st = "visit_dependent path depth q st"
  have s: "bt_sorted (fst ?st)" using Cons.prems(1) by (simp add: visit_dependent_def)
  have f: "fold (visit_dependent path depth) qs ?st = st'" using Cons.prems(2) by simp
  have g: "bt_get k (fst ?st) = (if k = q \<and> q \<noteq> path \<and> bt_get q (fst st) = None then Some depth else bt_get k (fst st))"
    "set (snd ?st) = set (snd st) \<union> {k. k = q \<and> q \<noteq> path \<and> bt_get q (fst st) = None}" for k
    using Cons.prems(1) by (auto simp: visit_dependent_def set_insort_insert)
  show ?case using Cons.IH [OF s f] g by auto
qed auto

lemma fold_concat_map: "fold (\<lambda>n. fold f (g n)) ns st = fold f (concat (map g ns)) st"
  by (induction ns arbitrary: st) auto

lemma impact_round_get:
  assumes "bt_sorted seen" and "impact_round ix path depth frontier seen = (seen', nxt)"
  shows "bt_sorted seen'" and "set nxt = {q. q \<noteq> path \<and> bt_get q seen = None \<and> (\<exists>a \<in> set frontier. q \<in> set (imported_by ix a))}"
    and "bt_get q seen' = (if q \<in> set nxt then Some depth else bt_get q seen)"
  using visit_all [of "(seen, [])" path depth "concat (map (imported_by ix) frontier)" "(seen', nxt)"] assms
  by (auto simp: impact_round_def fold_concat_map)

text \<open>Before the round for distance \<open>n\<close>, the table has exactly what is nearer, and the frontier is what is one step nearer.\<close>

definition explored :: "dep_index \<Rightarrow> string \<Rightarrow> nat \<Rightarrow> (string, nat) btree \<Rightarrow> bool" where
  "explored ix path n seen \<longleftrightarrow> bt_sorted seen \<and> (\<forall>q h. bt_get q seen = Some h \<longleftrightarrow> q \<noteq> path \<and> h < n \<and> at_distance ix path h q)"

lemma round_explores:
  assumes "explored ix path (Suc n) seen" and "set frontier = {q. at_distance ix path n q}"
    and "impact_round ix path (Suc n) frontier seen = (seen', nxt)"
  shows "explored ix path (Suc (Suc n)) seen'" and "set nxt = {q. at_distance ix path (Suc n) q}"
proof -
  have s: "bt_sorted seen" "\<And>q h. bt_get q seen = Some h \<longleftrightarrow> q \<noteq> path \<and> h < Suc n \<and> at_distance ix path h q"
    using assms(1) by (simp_all add: explored_def)
  note r = impact_round_get [OF s(1) assms(3)]
  show nxt: "set nxt = {q. at_distance ix path (Suc n) q}"
  proof (intro set_eqI iffI)
    fix q assume "q \<in> set nxt"
    then obtain a where a: "q \<noteq> path" "bt_get q seen = None" "at_distance ix path n a" "q \<in> set (imported_by ix a)"
      using r(2) assms(2) by auto
    then have "q \<in> dependents_at ix path (Suc n)" by (auto simp: at_distance_def)
    then obtain m where m: "m \<le> Suc n" "at_distance ix path m q" using at_distance_exists by blast
    have "\<not> m < Suc n" using a(1,2) m(2) s(2) [of q m] by auto
    then show "q \<in> {q. at_distance ix path (Suc n) q}" using m by (simp add: le_less)
  next
    fix q assume "q \<in> {q. at_distance ix path (Suc n) q}"
    then have q: "at_distance ix path (Suc n) q" by simp
    have "q \<noteq> path" using q by (auto simp: at_distance_def)
    moreover have "bt_get q seen = None"
    proof (cases "bt_get q seen")
      case (Some h)
      then have "h < Suc n" "at_distance ix path h q" using s(2) by auto
      then show ?thesis using at_distance_unique [OF q] by auto
    qed
    moreover have "\<exists>a \<in> set frontier. q \<in> set (imported_by ix a)" using at_distance_Suc [OF q] assms(2) by auto
    ultimately show "q \<in> set nxt" using r(2) by auto
  qed
  have "bt_get q seen' = Some h \<longleftrightarrow> q \<noteq> path \<and> h < Suc (Suc n) \<and> at_distance ix path h q" for q h
  proof (cases "at_distance ix path (Suc n) q")
    case True
    then have "q \<noteq> path" by (auto simp: at_distance_def)
    then show ?thesis using True r(3) [of q] nxt at_distance_unique [OF True, of h] by auto
  next
    case False
    then show ?thesis using r(3) [of q] nxt s(2) [of q h] by (auto simp: less_Suc_eq)
  qed
  then show "explored ix path (Suc (Suc n)) seen'" using r(1) by (simp add: explored_def)
qed

lemma loop_explores:
  "explored ix path (Suc n) seen \<Longrightarrow> set frontier = {q. at_distance ix path n q} \<Longrightarrow>
     explored ix path (Suc (n + left)) (impact_loop ix path (Suc n) left frontier seen)"
proof (induction left arbitrary: n frontier seen)
  case (Suc left)
  obtain seen' nxt where r: "impact_round ix path (Suc n) frontier seen = (seen', nxt)" by fastforce
  note step = round_explores [OF Suc.prems r]
  show ?case
  proof (cases "nxt = []")
    case True
    then have none: "\<not> at_distance ix path (Suc n) q" for q using step(2) by auto
    have "\<not> at_distance ix path h q" if "Suc n \<le> h" for h q using no_gap [OF _ that] none by blast
    then have "h < Suc (Suc n) \<longleftrightarrow> h < Suc (n + Suc left)" if "at_distance ix path h q" for h q using that by (metis add_Suc_right le_add1 le_imp_less_Suc less_Suc_eq not_less_eq_eq not_le order_less_le_trans)
    then show ?thesis using step(1) r True unfolding explored_def by simp blast
  next
    case False
    then show ?thesis using Suc.IH [OF step] r by simp
  qed
qed simp

text \<open>C30: the impact of a file is exactly the other files that reach it by a chain of at most the given number of imports (at
  least one), each with the length of its shortest chain, the nearest first and each file once.\<close>
theorem impact_is_distance:
  "(\<forall>q h. (q, h) \<in> set (dep_impact ix path max_depth) \<longleftrightarrow> q \<noteq> path \<and> h \<le> max max_depth 1 \<and> at_distance ix path h q) \<and>
   distinct (map fst (dep_impact ix path max_depth)) \<and> sorted (map (\<lambda>(p, h). (h, p)) (dep_impact ix path max_depth))"
proof -
  let ?seen = "impact_loop ix path 1 (max max_depth 1) [path] []"
  have "explored ix path (Suc 0) []" by (auto simp: explored_def)
  then have e: "explored ix path (Suc (max max_depth 1)) ?seen" using loop_explores [of ix path 0 "[]" "[path]"] by simp
  then have s: "bt_sorted ?seen" by (simp add: explored_def)
  have d: "distinct (map fst ?seen)" using s by (simp add: bt_sorted_def strict_sorted_iff)
  have "(q, h) \<in> set ?seen \<longleftrightarrow> q \<noteq> path \<and> h \<le> max max_depth 1 \<and> at_distance ix path h q" for q h
    using e d by (simp add: explored_def bt_get_def map_of_eq_Some_iff less_Suc_eq_le)
  then show ?thesis using d by (simp add: dep_impact_def distinct_map)
qed

section \<open>Edges stay in the corpus\<close>

lemma find_in: "find (\<lambda>c. c \<in> set known) cs = Some c \<Longrightarrow> c \<in> set known"
  by (auto simp: find_Some_iff)

lemma bind_find_in: "Option.bind x (\<lambda>r. find (\<lambda>c. c \<in> set known) (f r)) = Some c \<Longrightarrow> c \<in> set known"
  by (cases x) (auto dest: find_in)

lemma resolve_ts_known: "resolve_ts f raw known = Some to \<Longrightarrow> to \<in> set known"
proof -
  assume "resolve_ts f raw known = Some to"
  then have "Option.bind (path_parent f) (\<lambda>dir. Option.bind (normalize_dep (path_join dir (trim_quotes raw))) (\<lambda>base.
      find (\<lambda>cand. cand \<in> set known) (map (\<lambda>ext. base @ ''.'' @ ext) [''ts'', ''tsx'', ''js'', ''tsx'', ''ts'']
        @ map (\<lambda>ext. base @ ''/index.'' @ ext) [''ts'', ''tsx'', ''js'']))) = Some to"
    unfolding resolve_ts_def Let_def by (rule contrapos_pp) (simp only: if_True if_False split: if_split, simp only: option.distinct not_False_eq_True simp_thms)
  then show ?thesis by - (drule bind_eq_Some_conv [THEN iffD1], elim exE conjE, erule bind_find_in)
qed

lemma resolve_python_known: "resolve_python f raw known = Some to \<Longrightarrow> to \<in> set known"
  unfolding resolve_python_def case_prod_beta by (drule bind_eq_Some_conv [THEN iffD1], elim exE conjE) (erule bind_find_in)

lemma resolve_rust_known: "resolve_rust f raw known = Some to \<Longrightarrow> to \<in> set known"
  unfolding resolve_rust_def Let_def case_prod_beta by (drule bind_eq_Some_conv [THEN iffD1], elim exE conjE) (erule bind_find_in)

lemma resolve_dep_known: "resolve_dep f raw k known = Some to \<Longrightarrow> to \<in> set known"
  using resolve_ts_known resolve_python_known resolve_rust_known by (cases k) (simp_all add: resolve_dep_def)

lemma add_target_keys: "fst ` set (add_target f known d ts) \<subseteq> fst ` set ts \<union> {t \<in> set known. t \<noteq> f}"
proof (cases "resolve_dep f (fst d) (snd d) known")
  case (Some to)
  then show ?thesis using resolve_dep_known [OF Some] by (simp add: add_target_def bt_insert_keys subset_insertI)
qed (simp add: add_target_def)

lemma add_targets_keys: "fst ` set (fold (add_target f known) ds ts) \<subseteq> fst ` set ts \<union> {t \<in> set known. t \<noteq> f}"
proof (induction ds arbitrary: ts)
  case (Cons d ds)
  have "fst ` set (fold (add_target f known) (d # ds) ts) \<subseteq> fst ` set (add_target f known d ts) \<union> {t \<in> set known. t \<noteq> f}"
    using Cons.IH by simp
  then show ?case using add_target_keys [of f known d ts] by blast
qed simp

definition within_corpus :: "string list \<Rightarrow> dep_index \<Rightarrow> bool" where
  "within_corpus known ix \<longleftrightarrow> list_all (\<lambda>(f, ts). ts \<noteq> [] \<and> list_all (\<lambda>t. fst t \<in> set known) ts) ix"

text \<open>Every edge of the table leads to a file of the corpus: indexing a file keeps that and so does a removal, and pruning
  against a new corpus establishes it for the new one.\<close>

lemma edges_stay_in_corpus:
  "(within_corpus known ix \<longrightarrow> within_corpus known (index_deps captures path bytes known ix)) \<and>
   (within_corpus known ix \<longrightarrow> within_corpus known (remove_deps path ix)) \<and> within_corpus known' (prune_deps known' ix)"
proof (intro conjI impI)
  assume w: "within_corpus known ix"
  show "within_corpus known (remove_deps path ix)"
    using w by (auto simp: within_corpus_def remove_deps_def bt_remove_def list_all_iff)
  let ?f = "map (\<lambda>c. if c = CHR 0x5C then CHR ''/'' else c) path"
  have "\<forall>t \<in> set (fold (add_target ?f known) ds []). fst t \<in> set known" for ds using add_targets_keys [of ?f known ds "[]"] by auto
  then show "within_corpus known (index_deps captures path bytes known ix)"
    using w set_bt_insert [of ?f _ ix]
    by (fastforce simp: within_corpus_def index_deps_def bt_remove_def list_all_iff Let_def split: option.splits)
qed (auto simp: within_corpus_def prune_deps_def list_all_iff)

lemma edges_stay_in_corpus_witness:
  "within_corpus [''a.ts'', ''b.ts''] (index_deps (\<lambda>_ s. [s]) ''a.ts'' ''./b'' [''a.ts'', ''b.ts''] []) \<and>
   index_deps (\<lambda>_ s. [s]) ''a.ts'' ''./b'' [''a.ts'', ''b.ts''] [] = [(''a.ts'', [(''b.ts'', ''import'')])]"
proof -
  have "within_corpus [''a.ts'', ''b.ts''] []" by (simp add: within_corpus_def)
  moreover have "index_deps (\<lambda>_ s. [s]) ''a.ts'' ''./b'' [''a.ts'', ''b.ts''] [] = [(''a.ts'', [(''b.ts'', ''import'')])]" by code_simp
  ultimately show ?thesis using edges_stay_in_corpus [of "[''a.ts'', ''b.ts'']" "[]" "\<lambda>_ s. [s]" "''a.ts''" "''./b''" "[]"] by blast
qed

text \<open>A relative import with two leading dots does not climb from the importing file: the second dot makes the rest an
  absolute path, so it is looked up from the root wherever the file lies.\<close>

lemma double_dot_ignores_directory:
  assumes "path_parent f \<noteq> None" and "path_parent g \<noteq> None"
  shows "resolve_python f (''..'' @ m) known = resolve_python g (''..'' @ m) known"
  using assms by (auto simp: resolve_python_def strip_prefix_def starts_with_def path_join_def)

lemma double_dot_ignores_directory_witness:
  "resolve_python ''a/b/c.py'' ''..m'' [''m.py'', ''a/m.py''] = Some ''m.py'' \<and>
   resolve_python ''a/b/c.py'' ''..m'' [''m.py'', ''a/m.py''] = resolve_python ''x.py'' ''..m'' [''m.py'', ''a/m.py'']"
proof -
  have "path_parent ''a/b/c.py'' \<noteq> None" "path_parent ''x.py'' \<noteq> None" by code_simp+
  moreover have "resolve_python ''a/b/c.py'' ''..m'' [''m.py'', ''a/m.py''] = Some ''m.py''" by code_simp
  ultimately show ?thesis using double_dot_ignores_directory [of "''a/b/c.py''" "''x.py''" "''m''"] by simp
qed

end
