(* ===== verification/Task_Index.thy ===== *)
theory Task_Index
  imports Merkle_Index Dependency_Graph
begin

text \<open>
  The index of a task over its worktree, \<^verbatim>\<open>crates/retrieval\<close>: the walk that selects files, the repository index with its
  exact, regular-expression and path queries, the symbol index, read-through hydration, and their composition with the Merkle
  index and the dependency graph in \<^verbatim>\<open>task_index.rs\<close>. The entries of a walk, the contents of files, SHA-256, the lossy
  decoding, regular expressions and the parse of a source by tree-sitter are parameters. The lexical index is a
  third-party engine and is left out. The refresh by changes is compared with a cold build of the tree it leads to.
\<close>

section \<open>The walk\<close>

definition MAX_INDEXED_BYTES :: nat where "MAX_INDEXED_BYTES = 256 * 1024"

record walk_stats =
  ws_indexed :: nat
  ws_skipped_policy :: nat
  ws_skipped_binary :: nat
  ws_skipped_size :: nat

definition policy_tagged :: "string \<Rightarrow> bool" where
  "policy_tagged name = (name \<in> {''target'', ''node_modules'', ''dist'', ''vendor'', ''vendors'', ''vendored''})"

definition is_indexable :: "string \<Rightarrow> bool" where
  "is_indexable bytes = (\<not> list_ex (\<lambda>b. b = CHR 0x00) (take 8192 bytes))"

text \<open>An entry of the walk below the root: its relative path, what \<open>symlink_metadata\<close> says of it, and what reading it gives.\<close>

datatype entry_meta = MetaDir | MetaFile nat | MetaOther

record walk_entry =
  wk_rel :: string
  wk_meta :: "entry_meta option"
  wk_bytes :: "string option"

definition walk_entry_step :: "walk_entry \<Rightarrow> (string, string) btree \<times> walk_stats \<Rightarrow> (string, string) btree \<times> walk_stats" where
  "walk_entry_step e st =
     (case st of (files, stats) \<Rightarrow>
        if wk_rel e = [] then st
        else (case wk_meta e of
            Some (MetaFile len) \<Rightarrow>
              if list_ex policy_tagged (str_split (\<lambda>c. c = CHR ''/'') (wk_rel e)) then (files, stats\<lparr>ws_skipped_policy := ws_skipped_policy stats + 1\<rparr>)
              else if len > MAX_INDEXED_BYTES then (files, stats\<lparr>ws_skipped_size := ws_skipped_size stats + 1\<rparr>)
              else (case wk_bytes e of
                  None \<Rightarrow> st
                | Some bytes \<Rightarrow>
                    if \<not> is_indexable bytes then (files, stats\<lparr>ws_skipped_binary := ws_skipped_binary stats + 1\<rparr>)
                    else (bt_insert (map (\<lambda>c. if c = CHR 0x5C then CHR ''/'' else c) (wk_rel e)) bytes files,
                          stats\<lparr>ws_indexed := ws_indexed stats + 1\<rparr>))
          | _ \<Rightarrow> st))"

definition walk_worktree :: "walk_entry list \<Rightarrow> (string, string) btree \<times> walk_stats" where
  "walk_worktree es =
     fold walk_entry_step es ([], \<lparr>ws_indexed = 0, ws_skipped_policy = 0, ws_skipped_binary = 0, ws_skipped_size = 0\<rparr>)"

section \<open>The repository index\<close>

record file_entry =
  fe_sha256 :: string
  fe_byte_length :: nat
  fe_line_count :: nat
  fe_indexed_at :: nat

record search_hit =
  sh_path :: string
  sh_line_no :: nat
  sh_snippet :: string

record repository_index =
  ri_revision :: nat
  ri_files :: "(string, file_entry) btree"
  ri_lines :: "(string, string list) btree"

definition repo_new :: "nat \<Rightarrow> repository_index" where
  "repo_new revision = \<lparr>ri_revision = revision, ri_files = [], ri_lines = []\<rparr>"

text \<open>The texts of the program that the definitions below have as parameters: SHA-256, the lossy decoding, and the first
  160 characters of a line.\<close>

record text_tools =
  tt_sha :: "string \<Rightarrow> string"
  tt_lossy :: "string \<Rightarrow> string"
  tt_first160 :: "string \<Rightarrow> string"

definition file_entry_of :: "text_tools \<Rightarrow> nat \<Rightarrow> string \<Rightarrow> file_entry" where
  "file_entry_of T revision bytes =
     \<lparr>fe_sha256 = tt_sha T bytes, fe_byte_length = length bytes, fe_line_count = length (str_lines (tt_lossy T bytes)), fe_indexed_at = revision\<rparr>"

definition repo_index_file :: "text_tools \<Rightarrow> nat \<Rightarrow> string \<Rightarrow> string \<Rightarrow> repository_index \<Rightarrow> repository_index" where
  "repo_index_file T revision path bytes r =
     r\<lparr>ri_files := bt_insert path (file_entry_of T revision bytes) (ri_files r),
       ri_lines := bt_insert path (str_lines (tt_lossy T bytes)) (ri_lines r), ri_revision := revision\<rparr>"

definition repo_remove_file :: "string \<Rightarrow> repository_index \<Rightarrow> repository_index" where
  "repo_remove_file path r = r\<lparr>ri_files := bt_remove path (ri_files r), ri_lines := bt_remove path (ri_lines r)\<rparr>"

definition line_hits :: "text_tools \<Rightarrow> (string \<Rightarrow> bool) \<Rightarrow> repository_index \<Rightarrow> search_hit list" where
  "line_hits T matches r =
     concat (map (\<lambda>(path, ls).
       map (\<lambda>(i, l). \<lparr>sh_path = path, sh_line_no = i + 1, sh_snippet = tt_first160 T (str_trim l)\<rparr>)
         (filter (\<lambda>(i, l). matches l) (zip [0..<length ls] ls))) (ri_lines r))"

definition repo_exact :: "text_tools \<Rightarrow> string \<Rightarrow> repository_index \<Rightarrow> search_hit list" where
  "repo_exact T term r = line_hits T (\<lambda>l. str_contains l term) r"

text \<open>A regular expression that compiles is the predicate it stands for.\<close>

definition repo_regex ::
  "text_tools \<Rightarrow> (string \<Rightarrow> (string, string \<Rightarrow> bool) result) \<Rightarrow> string \<Rightarrow> repository_index \<Rightarrow> (string, search_hit list) result" where
  "repo_regex T compile pattern r = and_then (compile pattern) (\<lambda>re. Inr (line_hits T re r))"

definition repo_path :: "string \<Rightarrow> repository_index \<Rightarrow> string list" where
  "repo_path needle r = filter (\<lambda>p. str_contains (to_lowercase p) (to_lowercase needle)) (map fst (ri_files r))"

section \<open>The symbol index\<close>

record symbol_def =
  sd_name :: string
  sd_kind :: string
  sd_path :: string
  sd_line :: nat

record file_symbols =
  fs_defs :: "symbol_def list"
  fs_occurrences :: "(string, nat list) btree"

type_synonym symbol_index = "(string, file_symbols) btree"

type_synonym symbol_parser = "string \<Rightarrow> string \<Rightarrow> file_symbols"

definition symbols_index_file :: "symbol_parser \<Rightarrow> string \<Rightarrow> string \<Rightarrow> symbol_index \<Rightarrow> symbol_index" where
  "symbols_index_file P path bytes ix = bt_insert path (P path bytes) ix"

definition symbols_remove_file :: "string \<Rightarrow> symbol_index \<Rightarrow> symbol_index" where
  "symbols_remove_file path ix = bt_remove path ix"

definition defs_named :: "string \<Rightarrow> symbol_index \<Rightarrow> symbol_def list" where
  "defs_named name ix = concat (map (\<lambda>f. filter (\<lambda>d. sd_name d = name) (fs_defs f)) (bt_values ix))"

definition definitions :: "string \<Rightarrow> symbol_index \<Rightarrow> symbol_def list" where
  "definitions name ix = sort_key (\<lambda>d. (sd_path d, sd_line d)) (defs_named name ix)"

definition references :: "string \<Rightarrow> symbol_index \<Rightarrow> (string \<times> nat) list" where
  "references name ix =
     (let def_sites = map (\<lambda>d. (sd_path d, sd_line d)) (defs_named name ix)
      in remdups_adj (sort (concat (map (\<lambda>(path, f).
           (case bt_get name (fs_occurrences f) of
              Some ls \<Rightarrow> map (Pair path) (filter (\<lambda>l. (path, l) \<notin> set def_sites) ls)
            | None \<Rightarrow> [])) ix))))"

section \<open>Hydration\<close>

record hydrated_bytes =
  hb_path :: string
  hb_bytes :: string
  hb_revision :: nat
  hb_sha256 :: string
  hb_was_stale :: bool

definition hydrate_fresh :: "(string \<Rightarrow> string) \<Rightarrow> (string \<Rightarrow> (string \<times> nat) option) \<Rightarrow> string \<Rightarrow> string \<Rightarrow> (string, hydrated_bytes) result" where
  "hydrate_fresh H current path indexed_sha256 =
     (case current path of
        None \<Rightarrow> Inl path
      | Some (bytes, revision) \<Rightarrow>
          Inr \<lparr>hb_path = path, hb_bytes = bytes, hb_revision = revision, hb_sha256 = H bytes, hb_was_stale = H bytes \<noteq> indexed_sha256\<rparr>)"

section \<open>The task index\<close>

record index_change =
  ic_path :: string
  ic_deleted :: bool

record task_index =
  ti_merkle :: merkle_index
  ti_repo :: repository_index
  ti_symbols :: symbol_index
  ti_deps :: dep_index
  ti_revision :: nat

record index_tools =
  it_text :: text_tools
  it_symbols :: symbol_parser
  it_captures :: "string \<Rightarrow> string \<Rightarrow> string list"

text \<open>The index over the files of a walk, and the cold build, which walks the worktree and indexes what the walk hands on.\<close>

definition index_corpus :: "index_tools \<Rightarrow> (string, string) btree \<Rightarrow> nat \<Rightarrow> task_index" where
  "index_corpus I owned revision =
     \<lparr>ti_merkle = merkle_build (tt_sha (it_text I)) owned revision,
      ti_repo = fold (\<lambda>(p, b). repo_index_file (it_text I) revision p b) owned (repo_new revision),
      ti_symbols = fold (\<lambda>(p, b). symbols_index_file (it_symbols I) p b) owned [],
      ti_deps = fold (\<lambda>(p, b). index_deps (it_captures I) p b (map fst owned)) owned [],
      ti_revision = revision\<rparr>"

definition build_at :: "index_tools \<Rightarrow> walk_entry list \<Rightarrow> nat \<Rightarrow> task_index" where
  "build_at I es revision = (case walk_worktree es of (files, _) \<Rightarrow> index_corpus I files revision)"

definition latest_changes :: "index_change list \<Rightarrow> (string, bool) btree" where
  "latest_changes changes = fold (\<lambda>c. bt_insert (ic_path c) (ic_deleted c)) changes []"

definition split_change :: "(string \<Rightarrow> string option) \<Rightarrow> string \<times> bool \<Rightarrow> (string, string) btree \<times> string list \<Rightarrow> (string, string) btree \<times> string list" where
  "split_change read e st =
     (case e of (path, tombstoned) \<Rightarrow>
        if tombstoned then (fst st, snd st @ [path])
        else (case read path of
            Some bytes \<Rightarrow> if is_indexable bytes then (bt_insert path bytes (fst st), snd st) else (fst st, snd st @ [path])
          | None \<Rightarrow> (fst st, snd st @ [path])))"

definition split_changes :: "(string \<Rightarrow> string option) \<Rightarrow> index_change list \<Rightarrow> (string, string) btree \<times> string list" where
  "split_changes read changes = fold (split_change read) (latest_changes changes) ([], [])"

definition apply_delta ::
  "index_tools \<Rightarrow> (string \<Rightarrow> string option) \<Rightarrow> index_change list \<Rightarrow> nat \<Rightarrow> task_index \<Rightarrow> recomputed list \<times> task_index" where
  "apply_delta I read changes new_revision t =
     (case split_changes read changes of (changed, deleted) \<Rightarrow>
      case apply_changes (tt_sha (it_text I)) changed deleted new_revision (ti_merkle t) of (evidence, merkle) \<Rightarrow>
        let repo = fold repo_remove_file deleted (fold (\<lambda>(p, b). repo_index_file (it_text I) new_revision p b) changed (ti_repo t));
            symbols = fold symbols_remove_file deleted (fold (\<lambda>(p, b). symbols_index_file (it_symbols I) p b) changed (ti_symbols t));
            known = map fst (ri_files repo);
            deps = prune_deps known (fold remove_deps deleted (fold (\<lambda>(p, b). index_deps (it_captures I) p b known) changed (ti_deps t)))
        in (evidence, \<lparr>ti_merkle = merkle, ti_repo = repo\<lparr>ri_revision := new_revision\<rparr>, ti_symbols = symbols, ti_deps = deps, ti_revision = new_revision\<rparr>))"

definition task_root_digest :: "index_tools \<Rightarrow> task_index \<Rightarrow> string" where
  "task_root_digest I t = root_digest (tt_sha (it_text I)) (ti_merkle t)"

definition query_exact :: "index_tools \<Rightarrow> string \<Rightarrow> nat \<Rightarrow> task_index \<Rightarrow> search_hit list" where
  "query_exact I term limit t = take (max 1 (min 200 limit)) (repo_exact (it_text I) term (ti_repo t))"

definition query_regex ::
  "index_tools \<Rightarrow> (string \<Rightarrow> (string, string \<Rightarrow> bool) result) \<Rightarrow> string \<Rightarrow> nat \<Rightarrow> task_index \<Rightarrow> (string, search_hit list) result" where
  "query_regex I compile pattern limit t =
     and_then (repo_regex (it_text I) compile pattern (ti_repo t)) (\<lambda>hits. Inr (take (max 1 (min 200 limit)) hits))"

section \<open>A refresh leads to the new tree\<close>

text \<open>The tree after the changes: for a changed path what its last change and the disk say, for the others what there was.\<close>

definition last_change :: "index_change list \<Rightarrow> string \<Rightarrow> bool option" where
  "last_change changes p = map_option ic_deleted (find (\<lambda>c. ic_path c = p) (rev changes))"

definition tree_after :: "(string \<Rightarrow> string option) \<Rightarrow> index_change list \<Rightarrow> (string, string) btree \<Rightarrow> string \<Rightarrow> string option" where
  "tree_after read changes files p =
     (case last_change changes p of
        None \<Rightarrow> bt_get p files
      | Some True \<Rightarrow> None
      | Some False \<Rightarrow> (case read p of Some b \<Rightarrow> if is_indexable b then Some b else None | None \<Rightarrow> None))"

lemma latest_changes_get: "bt_sorted (latest_changes changes) \<and> bt_get p (latest_changes changes) = last_change changes p"
proof (induction changes rule: rev_induct)
  case (snoc c cs)
  then show ?case by (simp add: latest_changes_def last_change_def)
qed (simp add: latest_changes_def last_change_def)

definition kept_bytes :: "(string \<Rightarrow> string option) \<Rightarrow> string \<times> bool \<Rightarrow> string option" where
  "kept_bytes read e = (if snd e then None else Option.bind (read (fst e)) (\<lambda>b. if is_indexable b then Some b else None))"

lemma split_change_kept:
  "split_change read e st = (case kept_bytes read e of Some b \<Rightarrow> (bt_insert (fst e) b (fst st), snd st) | None \<Rightarrow> (fst st, snd st @ [fst e]))"
  by (cases e) (simp add: split_change_def kept_bytes_def split: option.split)

lemma split_all:
  "distinct (map fst es) \<Longrightarrow> fst ` set es \<inter> fst ` set c = {} \<Longrightarrow> bt_sorted c \<Longrightarrow> fold (split_change read) es (c, d) = (c', d') \<Longrightarrow>
     bt_sorted c' \<and> set d' = set d \<union> {p. \<exists>e \<in> set es. fst e = p \<and> kept_bytes read e = None}
     \<and> (\<forall>p b. bt_get p c' = Some b \<longleftrightarrow> bt_get p c = Some b \<or> (\<exists>e \<in> set es. fst e = p \<and> kept_bytes read e = Some b))"
proof (induction es arbitrary: c d)
  case (Cons e es)
  show ?case
  proof (cases "kept_bytes read e")
    case None
    then have "fold (split_change read) es (c, d @ [fst e]) = (c', d')" using Cons.prems(4) by (simp add: split_change_kept [of read e])
    then have ih: "bt_sorted c' \<and> set d' = set (d @ [fst e]) \<union> {p. \<exists>e \<in> set es. fst e = p \<and> kept_bytes read e = None}
        \<and> (\<forall>p b. bt_get p c' = Some b \<longleftrightarrow> bt_get p c = Some b \<or> (\<exists>e \<in> set es. fst e = p \<and> kept_bytes read e = Some b))"
      using Cons.IH [of c "d @ [fst e]"] Cons.prems(1,2,3) by auto
    then show ?thesis using None by auto
  next
    case (Some b)
    let ?c = "bt_insert (fst e) b c"
    have f: "fold (split_change read) es (?c, d) = (c', d')" using Some Cons.prems(4) by (simp add: split_change_kept [of read e])
    have "fst e \<notin> fst ` set c" using Cons.prems(2) by auto
    then have n: "bt_get (fst e) c = None" by (auto simp: bt_get_def map_of_eq_None_iff)
    have "fst ` set es \<inter> fst ` set ?c = {}" using Cons.prems(1,2) by (auto simp: bt_insert_keys)
    then have ih: "bt_sorted c' \<and> set d' = set d \<union> {p. \<exists>e \<in> set es. fst e = p \<and> kept_bytes read e = None}
        \<and> (\<forall>p b'. bt_get p c' = Some b' \<longleftrightarrow> bt_get p ?c = Some b' \<or> (\<exists>e \<in> set es. fst e = p \<and> kept_bytes read e = Some b'))"
      using Cons.IH [of ?c d] f Cons.prems(1,3) by auto
    have g: "bt_get p ?c = Some b' \<longleftrightarrow> bt_get p c = Some b' \<or> p = fst e \<and> b' = b" for p b' using Cons.prems(3) n by auto
    show ?thesis using ih g Some by auto
  qed
qed auto

lemma option_eqI: "(\<And>b. x = Some b \<longleftrightarrow> y = Some b) \<Longrightarrow> x = y"
  by (cases x; cases y) auto

lemma split_changes_get:
  assumes "split_changes read changes = (changed, deleted)"
  shows "bt_sorted changed"
    and "bt_get p changed = Option.bind (last_change changes p) (\<lambda>t. kept_bytes read (p, t))"
    and "p \<in> set deleted \<longleftrightarrow> (\<exists>t. last_change changes p = Some t \<and> kept_bytes read (p, t) = None)"
proof -
  let ?l = "latest_changes changes"
  have s: "bt_sorted ?l" "\<And>q. bt_get q ?l = last_change changes q" using latest_changes_get by blast+
  have d: "distinct (map fst ?l)" using s(1) by (simp add: bt_sorted_def strict_sorted_iff)
  have "fold (split_change read) ?l ([], []) = (changed, deleted)" using assms by (simp add: split_changes_def)
  then have a: "bt_sorted changed" "set deleted = {q. \<exists>e \<in> set ?l. fst e = q \<and> kept_bytes read e = None}"
    "\<And>q b. bt_get q changed = Some b \<longleftrightarrow> (\<exists>e \<in> set ?l. fst e = q \<and> kept_bytes read e = Some b)"
    using split_all [OF d, of "[]" read "[]" changed deleted] by simp_all
  have m: "(q, t) \<in> set ?l \<longleftrightarrow> last_change changes q = Some t" for q t using bt_get_in [OF s(1), of q t] s(2) by simp
  have bex_fst: "(\<exists>e \<in> set l. fst e = q \<and> kept_bytes read e = x) \<longleftrightarrow> (\<exists>t. (q, t) \<in> set l \<and> kept_bytes read (q, t) = x)" for l q x by force
  show "bt_sorted changed" by (rule a(1))
  show "p \<in> set deleted \<longleftrightarrow> (\<exists>t. last_change changes p = Some t \<and> kept_bytes read (p, t) = None)" unfolding a(2) mem_Collect_eq by (simp add: bex_fst m)
  have "bt_get p changed = Some b \<longleftrightarrow> (\<exists>t. last_change changes p = Some t \<and> kept_bytes read (p, t) = Some b)" for b unfolding a(3) by (simp add: bex_fst m)
  then show "bt_get p changed = Option.bind (last_change changes p) (\<lambda>t. kept_bytes read (p, t))"
    by (intro option_eqI) (simp add: bind_eq_Some_conv)
qed

lemma tree_after_split:
  assumes "split_changes read changes = (changed, deleted)" and "bt_sorted files" and "bt_sorted files2"
    and "\<And>p. bt_get p files2 = tree_after read changes files p"
  shows "fold (\<lambda>(p, b). bt_insert p b) changed (fold bt_remove deleted files) = files2"
proof (rule bt_ext)
  note c = split_changes_get [OF assms(1)]
  have r: "bt_sorted (fold bt_remove deleted files)" "\<And>k. bt_get k (fold bt_remove deleted files) = (if k \<in> set deleted then None else bt_get k files)"
    using remove_all_get [OF assms(2)] by blast+
  show "bt_sorted (fold (\<lambda>(p, b). bt_insert p b) changed (fold bt_remove deleted files))"
    using insert_all_get [OF r(1) c(1), of "\<lambda>b. b"] by blast
  fix p
  have "bt_get p (fold (\<lambda>(p, b). bt_insert p b) changed (fold bt_remove deleted files))
      = (case bt_get p changed of Some b \<Rightarrow> Some b | None \<Rightarrow> if p \<in> set deleted then None else bt_get p files)"
    using insert_all_get [OF r(1) c(1), of "\<lambda>b. b"] r(2) by (cases "bt_get p changed") simp_all
  also have "\<dots> = tree_after read changes files p"
    using c(2,3) [of p] by (cases "last_change changes p") (auto simp: tree_after_def kept_bytes_def split: option.splits bool.splits if_splits)
  finally show "bt_get p (fold (\<lambda>(p, b). bt_insert p b) changed (fold bt_remove deleted files)) = bt_get p files2" using assms(4) by simp
qed (rule assms(3))

section \<open>A refresh is a build\<close>

lemma fold_lines: "ri_lines (fold (\<lambda>(p, b). repo_index_file T v1 p b) fs r) = fold (\<lambda>(p, b). bt_insert p (str_lines (tt_lossy T b))) fs (ri_lines r)"
  by (induction fs arbitrary: r) (auto simp: repo_index_file_def)

lemma fold_files: "ri_files (fold (\<lambda>(p, b). repo_index_file T v1 p b) fs r) = fold (\<lambda>(p, b). bt_insert p (file_entry_of T v1 b)) fs (ri_files r)"
  by (induction fs arbitrary: r) (auto simp: repo_index_file_def)

lemma fold_remove: "ri_lines (fold repo_remove_file ps r) = fold bt_remove ps (ri_lines r)" "ri_files (fold repo_remove_file ps r) = fold bt_remove ps (ri_files r)"
  by (induction ps arbitrary: r) (auto simp: repo_remove_file_def)

text \<open>A table with one value for each file, taken over into the next tree, has one value for each file of the next tree.\<close>

definition table_of :: "(string \<Rightarrow> string \<Rightarrow> 'v) \<Rightarrow> (string, string) btree \<Rightarrow> (string, 'v) btree" where
  "table_of f files = fold (\<lambda>(p, b). bt_insert p (f p b)) files []"

lemma insert_each_get:
  "bt_sorted m \<Longrightarrow> bt_sorted fs \<Longrightarrow> bt_sorted (fold (\<lambda>(p, b). bt_insert p (f p b)) fs m) \<and>
     bt_get k (fold (\<lambda>(p, b). bt_insert p (f p b)) fs m) = (case bt_get k fs of Some b \<Rightarrow> Some (f k b) | None \<Rightarrow> bt_get k m)"
proof (induction fs arbitrary: m)
  case (Cons pb fs)
  obtain p b where p: "pb = (p, b)" by (cases pb)
  have fs: "bt_sorted fs" "bt_get p fs = None" using Cons.prems(2) p by (auto simp: bt_sorted_def bt_get_def map_of_eq_None_iff)
  have "bt_get k (pb # fs) = (if k = p then Some b else bt_get k fs)" using p by (simp add: bt_get_def)
  then show ?case using Cons.IH [of "bt_insert p (f p b) m"] Cons.prems(1) fs p by (auto split: option.splits)
qed simp

lemma table_of_get: "bt_sorted files \<Longrightarrow> bt_sorted (table_of f files) \<and> bt_get p (table_of f files) = map_option (f p) (bt_get p files)"
  using insert_each_get [of "[]" files f] by (auto simp: table_of_def split: option.split)

lemma table_next:
  assumes "split_changes read changes = (changed, deleted)" and "bt_sorted files" and "bt_sorted files2"
    and "\<And>p. bt_get p files2 = tree_after read changes files p"
  shows "bt_sorted (fold bt_remove deleted (fold (\<lambda>(p, b). bt_insert p (g p b)) changed (table_of f files)))"
    and "bt_get p (fold bt_remove deleted (fold (\<lambda>(p, b). bt_insert p (g p b)) changed (table_of f files)))
      = (if bt_get p changed = None then map_option (f p) (bt_get p files2) else map_option (g p) (bt_get p files2))"
proof -
  note c = split_changes_get [OF assms(1)]
  let ?t = "fold (\<lambda>(p, b). bt_insert p (g p b)) changed (table_of f files)"
  have t: "bt_sorted (table_of f files)" using table_of_get [OF assms(2)] by blast
  have u: "bt_sorted ?t" "\<And>k. bt_get k ?t = (case bt_get k changed of Some b \<Rightarrow> Some (g k b) | None \<Rightarrow> bt_get k (table_of f files))"
    using insert_each_get [OF t c(1), of g] by blast+
  show "bt_sorted (fold bt_remove deleted ?t)" using remove_all_get [OF u(1)] by blast
  have "bt_get p (fold bt_remove deleted ?t) = (if p \<in> set deleted then None else bt_get p ?t)" using remove_all_get [OF u(1)] by blast
  also have "\<dots> = (if bt_get p changed = None then map_option (f p) (bt_get p files2) else map_option (g p) (bt_get p files2))"
    using c(2,3) [of p] u(2) [of p] table_of_get [OF assms(2), of f p] assms(4) [of p]
    by (cases "last_change changes p"; cases "read p") (auto simp: tree_after_def kept_bytes_def split: option.splits bool.splits if_splits)
  finally show "bt_get p (fold bt_remove deleted ?t) = (if bt_get p changed = None then map_option (f p) (bt_get p files2) else map_option (g p) (bt_get p files2))" .
qed

definition entry_content :: "file_entry \<Rightarrow> string \<times> nat \<times> nat" where
  "entry_content e = (fe_sha256 e, fe_byte_length e, fe_line_count e)"

lemma refresh_table:
  assumes "split_changes read changes = (changed, deleted)" and "bt_sorted files" and "bt_sorted files2"
    and "\<And>p. bt_get p files2 = tree_after read changes files p"
  shows "fold bt_remove deleted (fold (\<lambda>(p, b). bt_insert p (f p b)) changed (table_of f files)) = table_of f files2"
  by (rule bt_ext) (use table_next [OF assms, where f = f and g = f] table_of_get [OF assms(3), of f] in simp_all)

text \<open>The digests of the files do not depend on where they lie.\<close>

lemma refresh_leaves:
  assumes "split_changes read changes = (changed, deleted)" and "bt_sorted files" and "bt_sorted files2"
    and "\<And>p. bt_get p files2 = tree_after read changes files p"
  shows "mi_leaves (snd (apply_changes H changed deleted v2 (merkle_build H files v1))) = mi_leaves (merkle_build H files2 v2)"
proof -
  note c = split_changes_get [OF assms(1)]
  let ?old = "table_of (\<lambda>p. H) files"
  let ?l = "snd (change_leaves H changed (snd (delete_leaves deleted ?old)))"
  have l0: "bt_sorted ?old" "\<And>p. bt_get p ?old = map_option H (bt_get p files)" using table_of_get [OF assms(2), of "\<lambda>p. H"] by blast+
  have d: "bt_sorted (snd (delete_leaves deleted ?old))"
    "\<And>p. bt_get p (snd (delete_leaves deleted ?old)) = (if p \<in> set deleted then None else bt_get p ?old)"
    using delete_leaves_get [OF l0(1)] by blast+
  have l: "bt_sorted ?l" "\<And>p. bt_get p ?l = (case bt_get p changed of Some b \<Rightarrow> Some (H b) | None \<Rightarrow> bt_get p (snd (delete_leaves deleted ?old)))"
    using change_leaves_get [OF d(1) c(1), of H] by blast+
  have "bt_get p ?l = map_option H (bt_get p files2)" for p
    using c(2,3) [of p] assms(4) [of p] l(2) [of p] d(2) [of p] l0(2) [of p]
    by (cases "last_change changes p"; cases "read p") (auto simp: tree_after_def kept_bytes_def split: option.splits bool.splits if_splits)
  then have "?l = table_of (\<lambda>p. H) files2"
    using table_of_get [OF assms(3), of "\<lambda>p. H"] l(1) by (intro bt_ext) simp_all
  then show ?thesis
    by (auto simp: apply_changes_def merkle_build_def table_of_def Let_def split: prod.splits)
qed

lemma changes_below_top:
  assumes "split_changes read changes = (changed, deleted)" and "below_top (map fst files @ map ic_path changes)"
  shows "below_top (map fst files @ map fst changed @ deleted)"
proof -
  note c = split_changes_get [OF assms(1)]
  have "dir_of p \<noteq> []" if "p \<in> set deleted \<or> p \<in> set (map fst changed)" for p
  proof -
    have "p \<in> set deleted \<or> bt_get p changed \<noteq> None" using that by (auto simp: bt_get_def map_of_eq_None_iff image_iff)
    then have "last_change changes p \<noteq> None" using c(2,3) [of p] by (cases "last_change changes p") simp_all
    then have "p \<in> ic_path ` set changes" by (auto simp: last_change_def find_None_iff)
    then show ?thesis using assms(2) by (auto simp: below_top_def list_all_iff)
  qed
  then show ?thesis using assms(2) by (auto simp: below_top_def list_all_iff)
qed

lemma walk_sorted: "bt_sorted (fst (walk_worktree es))"
proof -
  have "bt_sorted (fst st) \<Longrightarrow> bt_sorted (fst (walk_entry_step e st))" for e st
    by (cases st) (auto simp: walk_entry_step_def split: option.splits entry_meta.splits)
  then have "bt_sorted (fst st) \<Longrightarrow> bt_sorted (fst (fold walk_entry_step es st))" for st
    by (induction es arbitrary: st) simp_all
  then show ?thesis by (simp add: walk_worktree_def)
qed

text \<open>The parts of a refreshed index, each against the index over the new tree.\<close>

lemma refresh_parts:
  assumes "bt_sorted files" and "bt_sorted files2" and f2: "\<And>p. bt_get p files2 = tree_after read changes files p"
    and "t = snd (apply_delta I read changes v2 (index_corpus I files v1))" and "t2 = index_corpus I files2 v2"
  shows "ri_lines (ti_repo t) = ri_lines (ti_repo t2)" and "ti_symbols t = ti_symbols t2"
    and "map_option entry_content (bt_get p (ri_files (ti_repo t))) = map_option entry_content (bt_get p (ri_files (ti_repo t2)))"
    and "mi_leaves (ti_merkle t) = mi_leaves (ti_merkle t2)"
    and "below_top (map fst files @ map ic_path changes) \<Longrightarrow> ti_merkle t = ti_merkle t2"
proof -
  obtain changed deleted where s: "split_changes read changes = (changed, deleted)" by (cases "split_changes read changes")
  let ?T = "it_text I"
  let ?e = "\<lambda>r p. file_entry_of ?T r"
  have m: "ti_merkle t = snd (apply_changes (tt_sha ?T) changed deleted v2 (merkle_build (tt_sha ?T) files v1))"
    "ti_merkle t2 = merkle_build (tt_sha ?T) files2 v2"
    using assms(4,5) s by (auto simp: apply_delta_def index_corpus_def Let_def split: prod.splits)
  show "mi_leaves (ti_merkle t) = mi_leaves (ti_merkle t2)" unfolding m by (rule refresh_leaves [OF s assms(1,2) f2])
  show "ti_merkle t = ti_merkle t2" if "below_top (map fst files @ map ic_path changes)"
    using update_is_build [OF assms(1) split_changes_get(1) [OF s] changes_below_top [OF s that], of "tt_sha ?T" v2 v1]
      tree_after_split [OF s assms(1,2) f2] unfolding m by simp
  show "ri_lines (ti_repo t) = ri_lines (ti_repo t2)"
    using refresh_table [OF s assms(1,2) f2, of "\<lambda>p b. str_lines (tt_lossy ?T b)"] assms(4,5) s
    by (auto simp: apply_delta_def index_corpus_def Let_def fold_lines fold_remove repo_new_def table_of_def split: prod.splits)
  have sym: "fold (\<lambda>(p, b). symbols_index_file (it_symbols I) p b) fs = fold (\<lambda>(p, b). bt_insert p (it_symbols I p b)) fs"
    "fold symbols_remove_file ps = fold bt_remove ps" for fs ps
    by (simp_all add: symbols_index_file_def [abs_def] symbols_remove_file_def [abs_def])
  show "ti_symbols t = ti_symbols t2"
    using refresh_table [OF s assms(1,2) f2, of "it_symbols I"] assms(4,5) s
    by (auto simp: apply_delta_def index_corpus_def Let_def sym table_of_def split: prod.splits)
  have "ri_files (ti_repo t) = fold bt_remove deleted (fold (\<lambda>(p, b). bt_insert p (?e v2 p b)) changed (table_of (?e v1) files))"
    "ri_files (ti_repo t2) = table_of (?e v2) files2"
    using assms(4,5) s by (auto simp: apply_delta_def index_corpus_def Let_def fold_files fold_remove repo_new_def table_of_def split: prod.splits)
  moreover have "entry_content (file_entry_of ?T r b) = (tt_sha ?T b, length b, length (str_lines (tt_lossy ?T b)))" for r b
    by (simp add: entry_content_def file_entry_of_def)
  ultimately show "map_option entry_content (bt_get p (ri_files (ti_repo t))) = map_option entry_content (bt_get p (ri_files (ti_repo t2)))"
    using table_next(2) [OF s assms(1,2) f2, of p "?e v2" "?e v1"] table_of_get [OF assms(2), of "?e v2"]
    by (simp add: option.map_comp comp_def)
qed

text \<open>C31: refreshing an index by changes against a cold build of the new worktree. The entries \<open>es\<close> are those of a walk before the changes,
  \<open>es2\<close> those of a walk after them. It is assumed that the second walk hands on, for a path without a change, what the first
  did; nothing for a path whose last change is a deletion; and for any other changed path what is read there, if
  it can be read and is text, and nothing otherwise. (So no changed file is over the size cap, ignored, or in a policy
  directory: the refresh does not check that.) Then the refreshed index has the lines, the symbols and the digests of the
  files of a cold build, and for every file its digest, length and number of lines; only the revision at which a file was
  indexed may be older. Where no file and no change lies at the top of the tree, the whole Merkle index is the same too.\<close>
theorem refresh_equals_build:
  assumes "\<forall>p. bt_get p (fst (walk_worktree es2)) = tree_after read changes (fst (walk_worktree es)) p"
    and "t = snd (apply_delta I read changes v2 (build_at I es v1))" and "t2 = build_at I es2 v2"
  shows "ri_lines (ti_repo t) = ri_lines (ti_repo t2) \<and> ti_symbols t = ti_symbols t2
    \<and> mi_leaves (ti_merkle t) = mi_leaves (ti_merkle t2)
    \<and> (\<forall>p. map_option entry_content (bt_get p (ri_files (ti_repo t))) = map_option entry_content (bt_get p (ri_files (ti_repo t2))))
    \<and> (below_top (map fst (fst (walk_worktree es)) @ map ic_path changes) \<longrightarrow> ti_merkle t = ti_merkle t2)"
proof -
  have f2: "\<And>p. bt_get p (fst (walk_worktree es2)) = tree_after read changes (fst (walk_worktree es)) p" using assms(1) by blast
  have b: "build_at I x v = index_corpus I (fst (walk_worktree x)) v" for x v by (simp add: build_at_def split_beta)
  note r = refresh_parts [OF walk_sorted walk_sorted f2 assms(2,3) [unfolded b]]
  show ?thesis using r(1,2,4) r(3) r(5) by blast
qed

definition plain_tools :: "(string \<Rightarrow> string \<Rightarrow> string list) \<Rightarrow> index_tools" where
  "plain_tools captures =
     \<lparr>it_text = \<lparr>tt_sha = (\<lambda>s. s), tt_lossy = (\<lambda>s. s), tt_first160 = take 160\<rparr>,
      it_symbols = (\<lambda>_ _. \<lparr>fs_defs = [], fs_occurrences = []\<rparr>), it_captures = captures\<rparr>"

definition small_file :: "string \<Rightarrow> string \<Rightarrow> walk_entry" where
  "small_file path bytes = \<lparr>wk_rel = path, wk_meta = Some (MetaFile (length bytes)), wk_bytes = Some bytes\<rparr>"

theorem refresh_equals_build_witness:
  "let I = plain_tools (\<lambda>_ _. []); t = snd (apply_delta I (\<lambda>_. Some ''2'') [\<lparr>ic_path = ''d/a'', ic_deleted = False\<rparr>] 2 (build_at I [small_file ''d/a'' ''1''] 1));
       t2 = build_at I [small_file ''d/a'' ''2''] 2
   in ri_lines (ti_repo t) = ri_lines (ti_repo t2) \<and> ti_merkle t = ti_merkle t2"
proof -
  let ?c = "[\<lparr>ic_path = ''d/a'', ic_deleted = False\<rparr>]"
  have w: "fst (walk_worktree [small_file ''d/a'' ''1'']) = [(''d/a'', ''1'')]" "fst (walk_worktree [small_file ''d/a'' ''2'']) = [(''d/a'', ''2'')]"
    by (simp_all add: small_file_def walk_worktree_def walk_entry_step_def policy_tagged_def MAX_INDEXED_BYTES_def is_indexable_def)
  have "\<forall>p. bt_get p (fst (walk_worktree [small_file ''d/a'' ''2''])) = tree_after (\<lambda>_. Some ''2'') ?c (fst (walk_worktree [small_file ''d/a'' ''1''])) p"
    unfolding w by (auto simp: tree_after_def last_change_def bt_get_def is_indexable_def)
  moreover have "below_top (map fst (fst (walk_worktree [small_file ''d/a'' ''1''])) @ map ic_path ?c)" unfolding w by code_simp
  ultimately show ?thesis unfolding Let_def using refresh_equals_build [OF _ refl refl] by blast
qed

section \<open>Queries\<close>

text \<open>An exact query finds every line of the index that contains the term, with its number, and nothing else.\<close>

lemma exact_query_finds_lines:
  "h \<in> set (repo_exact T t r) \<longleftrightarrow>
     (\<exists>path ls i. (path, ls) \<in> set (ri_lines r) \<and> i < length ls \<and> str_contains (ls ! i) t \<and>
        h = \<lparr>sh_path = path, sh_line_no = i + 1, sh_snippet = tt_first160 T (str_trim (ls ! i))\<rparr>)"
proof -
  have z: "(i, l) \<in> set (zip [0..<length ls] ls) \<longleftrightarrow> i < length ls \<and> l = ls ! i" for i l and ls :: "string list"
    by (force simp: set_zip)
  have "h \<in> set (repo_exact T t r) \<longleftrightarrow> (\<exists>path ls i l. (path, ls) \<in> set (ri_lines r) \<and> (i, l) \<in> set (zip [0..<length ls] ls) \<and> str_contains l t \<and>
      h = \<lparr>sh_path = path, sh_line_no = i + 1, sh_snippet = tt_first160 T (str_trim l)\<rparr>)"
    unfolding repo_exact_def line_hits_def by fastforce
  then show ?thesis unfolding z by auto
qed

text \<open>A reference is never reported at the line of a definition of the name.\<close>

lemma references_exclude_definitions:
  "set (references name ix) \<inter> (\<lambda>d. (sd_path d, sd_line d)) ` set (definitions name ix) = {}"
  by (auto simp: references_def definitions_def Let_def split: option.splits)

definition admitted :: "walk_entry \<Rightarrow> string \<Rightarrow> bool" where
  "admitted e b \<longleftrightarrow> (\<exists>len. wk_meta e = Some (MetaFile len) \<and> len \<le> MAX_INDEXED_BYTES) \<and> wk_bytes e = Some b \<and> is_indexable b
     \<and> \<not> list_ex policy_tagged (str_split (\<lambda>c. c = CHR ''/'') (wk_rel e))"

lemma walk_step_admits: "set (fst (walk_entry_step e st)) \<subseteq> set (fst st) \<union> UNIV \<times> Collect (admitted e)"
proof (cases "fst (walk_entry_step e st) = fst st")
  case False
  then obtain len b where e: "wk_meta e = Some (MetaFile len)" "\<not> list_ex policy_tagged (str_split (\<lambda>c. c = CHR ''/'') (wk_rel e))"
    "len \<le> MAX_INDEXED_BYTES" "wk_bytes e = Some b" "is_indexable b"
    by (cases st) (auto simp: walk_entry_step_def not_less split: if_splits option.splits entry_meta.splits)
  then have "fst (walk_entry_step e st) = bt_insert (map (\<lambda>c. if c = CHR 0x5C then CHR ''/'' else c) (wk_rel e)) b (fst st)"
    using False by (cases st) (auto simp: walk_entry_step_def)
  moreover have "admitted e b" using e by (auto simp: admitted_def)
  ultimately show ?thesis using set_bt_insert [of _ b "fst st"] by fastforce
qed simp

text \<open>The walk hands on only files outside policy directories that are text by the sniff and within the size cap.\<close>

lemma walked_files_are_admitted:
  "\<forall>(p, b) \<in> set (fst (walk_worktree es)). \<exists>e \<in> set es. admitted e b"
proof -
  have "(p, b) \<in> set (fst (fold walk_entry_step es st)) \<Longrightarrow> (p, b) \<in> set (fst st) \<or> (\<exists>e \<in> set es. admitted e b)" for p b st
  proof (induction es arbitrary: st)
    case (Cons e es)
    from Cons.IH [of "walk_entry_step e st"] Cons.prems walk_step_admits [of e st] show ?case by auto
  qed simp
  then show ?thesis by (fastforce simp: walk_worktree_def)
qed

lemma walked_files_are_admitted_witness:
  "fst (walk_worktree [\<lparr>wk_rel = ''a'', wk_meta = Some (MetaFile 1), wk_bytes = Some ''x''\<rparr>]) = [(''a'', ''x'')]
   \<and> (\<exists>e \<in> set [\<lparr>wk_rel = ''a'', wk_meta = Some (MetaFile 1), wk_bytes = Some ''x''\<rparr>]. admitted e ''x'')"
proof -
  have "fst (walk_worktree [\<lparr>wk_rel = ''a'', wk_meta = Some (MetaFile 1), wk_bytes = Some ''x''\<rparr>]) = [(''a'', ''x'')]"
    by (simp add: walk_worktree_def walk_entry_step_def policy_tagged_def MAX_INDEXED_BYTES_def is_indexable_def)
  then show ?thesis using walked_files_are_admitted [of "[\<lparr>wk_rel = ''a'', wk_meta = Some (MetaFile 1), wk_bytes = Some ''x''\<rparr>]"] by simp
qed

section \<open>Edges a refresh misses\<close>

text \<open>The edges of a refreshed index are not those of a build: a file that imports one that is added later keeps having no
  edge to it, because only changed files are read again.\<close>

lemma refresh_misses_new_import:
  defines "I \<equiv> plain_tools (\<lambda>_ s. if s = ''x'' then [''./b''] else [])"
  shows "ti_deps (snd (apply_delta I (\<lambda>_. Some ''y'') [\<lparr>ic_path = ''d/b.ts'', ic_deleted = False\<rparr>] 2 (index_corpus I [(''d/a.ts'', ''x'')] 1))) = []
    \<and> ti_deps (index_corpus I [(''d/a.ts'', ''x''), (''d/b.ts'', ''y'')] 2) = [(''d/a.ts'', [(''d/b.ts'', ''import'')])]"
  unfolding I_def by code_simp

end
