(* ===== verification/Context_Graph.thy ===== *)
theory Context_Graph
  imports Dependency_Graph
begin

text \<open>
  The code structure map, \<^verbatim>\<open>crates/retrieval/src/context_graph.rs\<close>: symbols found line by line, dependency edges between files,
  a route between two files and the impact of a change. SHA-256 and the lossy decoding are parameters; letters and digits are
  the ASCII ones. The search for a route ends in a walk back over the table of parents, which is a partial function: its value
  \<open>None\<close> is that the code does not return.
\<close>

section \<open>Symbols\<close>

datatype symbol_kind = SymFunction | SymStruct | SymTrait | SymClass | SymConst

datatype language = LangRust | LangTypeScript

fun lang_str :: "language \<Rightarrow> string" where
  "lang_str LangRust = ''rust''"
| "lang_str LangTypeScript = ''ts''"

text \<open>The first prefix that fits, with the kind it stands for.\<close>

fun first_prefix :: "(string \<times> symbol_kind) list \<Rightarrow> string \<Rightarrow> (symbol_kind \<times> string) option" where
  "first_prefix [] s = None"
| "first_prefix ((p, k) # ps) s = (case strip_prefix p s of Some r \<Rightarrow> Some (k, r) | None \<Rightarrow> first_prefix ps s)"

fun symbol_prefixes :: "language \<Rightarrow> (string \<times> symbol_kind) list" where
  "symbol_prefixes LangRust =
     [(''pub fn '', SymFunction), (''fn '', SymFunction), (''pub struct '', SymStruct), (''struct '', SymStruct),
      (''pub trait '', SymTrait), (''trait '', SymTrait)]"
| "symbol_prefixes LangTypeScript =
     [(''export function '', SymFunction), (''function '', SymFunction), (''export class '', SymClass), (''class '', SymClass),
      (''export const '', SymConst), (''const '', SymConst)]"

definition ident_char :: "char \<Rightarrow> bool" where
  "ident_char c = (let n = (of_char c :: nat) in (48 \<le> n \<and> n \<le> 57) \<or> (65 \<le> n \<and> n \<le> 90) \<or> (97 \<le> n \<and> n \<le> 122) \<or> c = CHR ''_'')"

definition parse_symbol :: "language \<Rightarrow> string \<Rightarrow> (symbol_kind \<times> string) option" where
  "parse_symbol lang line =
     Option.bind (first_prefix (symbol_prefixes lang) (dropWhile is_space line)) (\<lambda>(kind, rest).
       let name = takeWhile ident_char rest in if name = [] then None else Some (kind, name))"

record symbol_chunk =
  sy_id :: string
  sy_kind :: symbol_kind
  sy_path :: string
  sy_line_no :: nat
  sy_signature :: string
  sy_source_sha256 :: string

record context_graph =
  cg_files :: "(string, string) btree"
  cg_symbols :: "(string, symbol_chunk) btree"
  cg_deps :: "dependency_edge list"
  cg_test_markers :: "string list"

definition graph_new :: context_graph where
  "graph_new = \<lparr>cg_files = [], cg_symbols = [], cg_deps = [], cg_test_markers = [''tests/'', ''_test.'', ''.test.'']\<rparr>"

definition symbol_id :: "language \<Rightarrow> string \<Rightarrow> string \<Rightarrow> string" where
  "symbol_id lang path name = lang_str lang @ '':'' @ path @ '':'' @ name"

fun index_symbols ::
  "(string \<Rightarrow> string) \<Rightarrow> language \<Rightarrow> string \<Rightarrow> string \<Rightarrow> nat \<Rightarrow> string list \<Rightarrow> (string, symbol_chunk) btree \<Rightarrow> (string, symbol_chunk) btree" where
  "index_symbols first120 lang path sha i [] m = m"
| "index_symbols first120 lang path sha i (line # lines) m =
     index_symbols first120 lang path sha (i + 1) lines
       (case parse_symbol lang line of
          None \<Rightarrow> m
        | Some (kind, name) \<Rightarrow>
            bt_insert (symbol_id lang path name)
              \<lparr>sy_id = symbol_id lang path name, sy_kind = kind, sy_path = path, sy_line_no = i + 1,
               sy_signature = first120 (str_trim line), sy_source_sha256 = sha\<rparr> m)"

text \<open>The first 120 characters of a text, which are not its first 120 bytes, are the parameter \<open>first120\<close>.\<close>

definition graph_index_file ::
  "(string \<Rightarrow> string) \<Rightarrow> (string \<Rightarrow> string) \<Rightarrow> (string \<Rightarrow> string) \<Rightarrow> language \<Rightarrow> string \<Rightarrow> string \<Rightarrow> context_graph \<Rightarrow> context_graph" where
  "graph_index_file H lossy first120 lang path bytes g =
     g\<lparr>cg_files := bt_insert path (H bytes) (cg_files g),
       cg_symbols := index_symbols first120 lang path (H bytes) 0 (str_lines (lossy bytes)) (cg_symbols g)\<rparr>"

definition add_dependency :: "string \<Rightarrow> string \<Rightarrow> string \<Rightarrow> context_graph \<Rightarrow> context_graph" where
  "add_dependency from to kind g = g\<lparr>cg_deps := cg_deps g @ [\<lparr>de_from = from, de_to = to, de_kind = kind\<rparr>]\<rparr>"

definition query_symbol :: "string \<Rightarrow> context_graph \<Rightarrow> symbol_chunk list" where
  "query_symbol name g = filter (\<lambda>s. suffix ('':'' @ name) (sy_id s)) (bt_values (cg_symbols g))"

section \<open>Routes\<close>

text \<open>One pass over the edges for the current file: either the target was reached, with the table of parents, or the table and
  the queue go on.\<close>

fun scan_edges ::
  "dependency_edge list \<Rightarrow> string \<Rightarrow> string \<Rightarrow> (string, string) btree \<Rightarrow> string list \<Rightarrow> (string, string) btree + (string, string) btree \<times> string list" where
  "scan_edges [] current target parent queue = Inr (parent, queue)"
| "scan_edges (e # es) current target parent queue =
     (if de_from e = current \<and> bt_get (de_to e) parent = None
      then if de_to e = target then Inl (bt_insert (de_to e) current parent)
           else scan_edges es current target (bt_insert (de_to e) current parent) (queue @ [de_to e])
      else scan_edges es current target parent queue)"

lemma bt_get_insert_any: "bt_get j (bt_insert k v m) = (if j = k then Some v else bt_get j m)"
  by (induction k v m rule: bt_insert.induct) (auto simp: bt_get_def)

definition fresh_targets :: "dependency_edge list \<Rightarrow> (string, string) btree \<Rightarrow> string set" where
  "fresh_targets deps parent = {t \<in> de_to ` set deps. bt_get t parent = None}"

lemma scan_edges_measure:
  "scan_edges es c t parent queue = Inr (parent', queue') \<Longrightarrow> set es \<subseteq> set deps \<Longrightarrow>
     card (fresh_targets deps parent') + length queue' \<le> card (fresh_targets deps parent) + length queue"
proof (induction es arbitrary: parent queue)
  case (Cons e es)
  show ?case
  proof (cases "de_from e = c \<and> bt_get (de_to e) parent = None")
    case True
    have "fresh_targets deps (bt_insert (de_to e) c parent) = fresh_targets deps parent - {de_to e}"
      by (auto simp: fresh_targets_def bt_get_insert_any)
    moreover have "de_to e \<in> fresh_targets deps parent" "finite (fresh_targets deps parent)"
      using True Cons.prems(2) by (auto simp: fresh_targets_def)
    ultimately have "Suc (card (fresh_targets deps (bt_insert (de_to e) c parent))) = card (fresh_targets deps parent)"
      by (metis card_Suc_Diff1)
    then show ?thesis using Cons.IH [of "bt_insert (de_to e) c parent" "queue @ [de_to e]"] Cons.prems True by (auto split: if_splits)
  next
    case False
    then show ?thesis using Cons.IH [of parent queue] Cons.prems by auto
  qed
qed simp

function path_search :: "dependency_edge list \<Rightarrow> string \<Rightarrow> string list \<Rightarrow> (string, string) btree \<Rightarrow> (string, string) btree option" where
  "path_search deps target [] parent = None"
| "path_search deps target (current # queue) parent =
     (case scan_edges deps current target parent queue of
        Inl parent' \<Rightarrow> Some parent'
      | Inr (parent', queue') \<Rightarrow> path_search deps target queue' parent')"
  by pat_completeness auto
termination
proof (relation "measure (\<lambda>(deps, t, queue, parent). card (fresh_targets deps parent) + length queue)")
  fix deps target current queue parent r parent' queue'
  assume "scan_edges deps current target parent queue = Inr r" and "(parent', queue') = r"
  then show "((deps, target, queue', parent'), deps, target, current # queue, parent)
      \<in> measure (\<lambda>(deps, t, queue, parent). card (fresh_targets deps parent) + length queue)"
    using scan_edges_measure [of deps current target parent queue parent' queue' deps] by auto
qed simp

partial_function (option) route_back :: "(string, string) btree \<Rightarrow> string \<Rightarrow> string list \<Rightarrow> string list option" where
  "route_back parent node route =
     (case bt_get node parent of Some prev \<Rightarrow> route_back parent prev (route @ [prev]) | None \<Rightarrow> Some route)"

definition structural_path :: "context_graph \<Rightarrow> string \<Rightarrow> string \<Rightarrow> string list option option" where
  "structural_path g from_path to_path =
     (if from_path = to_path then Some (Some [from_path])
      else (case path_search (cg_deps g) to_path [from_path] [] of
              None \<Rightarrow> Some None
            | Some parent \<Rightarrow> map_option (\<lambda>route. Some (rev route)) (route_back parent to_path [to_path])))"

section \<open>Impact of a change\<close>

fun scan_dependents :: "dependency_edge list \<Rightarrow> string \<Rightarrow> string list \<Rightarrow> string list \<Rightarrow> string list \<times> string list" where
  "scan_dependents [] current affected queue = (affected, queue)"
| "scan_dependents (e # es) current affected queue =
     (if de_to e = current \<and> de_from e \<notin> set affected
      then scan_dependents es current (insort_insert (de_from e) affected) (queue @ [de_from e])
      else scan_dependents es current affected queue)"

lemma scan_dependents_measure:
  "scan_dependents es c affected queue = (affected', queue') \<Longrightarrow> set es \<subseteq> set deps \<Longrightarrow>
     card (de_from ` set deps - set affected') + length queue' \<le> card (de_from ` set deps - set affected) + length queue"
proof (induction es arbitrary: affected queue)
  case (Cons e es)
  show ?case
  proof (cases "de_to e = c \<and> de_from e \<notin> set affected")
    case True
    have "de_from e \<in> de_from ` set deps - set affected" using True Cons.prems(2) by auto
    moreover have "de_from ` set deps - set (insort_insert (de_from e) affected) = de_from ` set deps - set affected - {de_from e}"
      by (auto simp: set_insort_insert)
    ultimately have "Suc (card (de_from ` set deps - set (insort_insert (de_from e) affected))) = card (de_from ` set deps - set affected)"
      by (metis List.finite_set card_Suc_Diff1 finite_Diff finite_imageI)
    then show ?thesis using Cons.IH [of "insort_insert (de_from e) affected" "queue @ [de_from e]"] Cons.prems True by auto
  next
    case False
    then show ?thesis using Cons.IH [of affected queue] Cons.prems by auto
  qed
qed simp

function impact_search :: "dependency_edge list \<Rightarrow> string list \<Rightarrow> string list \<Rightarrow> string list" where
  "impact_search deps [] affected = affected"
| "impact_search deps (current # queue) affected =
     (case scan_dependents deps current affected queue of (affected', queue') \<Rightarrow> impact_search deps queue' affected')"
  by pat_completeness auto
termination
proof (relation "measure (\<lambda>(deps, queue, affected). card (de_from ` set deps - set affected) + length queue)", goal_cases)
  case (2 deps current queue affected affected' queue')
  then show ?case using scan_dependents_measure [of deps current affected queue affected' queue' deps] by simp
qed simp

definition is_test_file :: "context_graph \<Rightarrow> string \<Rightarrow> bool" where
  "is_test_file g path = list_ex (\<lambda>m. str_contains path m) (cg_test_markers g)"

definition impact_of :: "context_graph \<Rightarrow> string \<Rightarrow> string list \<times> string list" where
  "impact_of g changed_path =
     (let affected = filter (\<lambda>p. p \<noteq> changed_path) (impact_search (cg_deps g) [changed_path] [])
      in (filter (\<lambda>p. \<not> is_test_file g p) affected, filter (is_test_file g) affected))"

section \<open>A route that is found\<close>

definition depends :: "dependency_edge list \<Rightarrow> (string \<times> string) set" where
  "depends deps = {(de_from e, de_to e) | e. e \<in> set deps}"

text \<open>The parents lead from a file back to the start along \<open>r\<close>.\<close>

inductive leads_back :: "(string, string) btree \<Rightarrow> string \<Rightarrow> string \<Rightarrow> string list \<Rightarrow> bool" for parent src where
  back_start: "bt_get src parent = None \<Longrightarrow> leads_back parent src src [src]"
| back_step: "leads_back parent src n r \<Longrightarrow> bt_get m parent = Some n \<Longrightarrow> leads_back parent src m (r @ [m])"

lemma back_route: "leads_back parent src n r \<Longrightarrow> route_back parent n acc = Some (acc @ tl (rev r))"
proof (induction arbitrary: acc rule: leads_back.induct)
  case back_start
  then show ?case by (subst route_back.simps) simp
next
  case (back_step n r m)
  have r: "r \<noteq> []" "last r = n" using back_step.hyps(1) by (induction rule: leads_back.induct) auto
  then have "n # tl (rev r) = rev r" by (metis hd_Cons_tl hd_rev rev_is_Nil_conv)
  then show ?case using back_step by (subst route_back.simps) simp
qed

lemma back_ends: "leads_back parent src n r \<Longrightarrow> r \<noteq> [] \<and> hd r = src \<and> last r = n"
  by (induction rule: leads_back.induct) auto

lemma back_dom: "leads_back parent src n r \<Longrightarrow> n = src \<or> bt_get n parent \<noteq> None"
  by (cases rule: leads_back.cases) auto

lemma back_grow: "leads_back parent src n r \<Longrightarrow> bt_get k parent = None \<Longrightarrow> k \<noteq> src \<Longrightarrow> leads_back (bt_insert k v parent) src n r"
proof (induction rule: leads_back.induct)
  case back_start
  then show ?case by (auto intro!: leads_back.back_start simp: bt_get_insert_any)
next
  case (back_step n r m)
  then show ?case by (auto intro!: leads_back.back_step simp: bt_get_insert_any)
qed

lemma back_steps:
  "leads_back parent src n r \<Longrightarrow> (\<And>k v. bt_get k parent = Some v \<Longrightarrow> (v, k) \<in> E) \<Longrightarrow> successively (\<lambda>a b. (a, b) \<in> E) r"
proof (induction rule: leads_back.induct)
  case (back_step n r m)
  then show ?case using back_ends [OF back_step.hyps(1)] by (auto simp: successively_append_iff)
qed simp

text \<open>What the search keeps: the table leads back to the start along edges, and every file it has reached is in the queue or has
  all its successors reached.\<close>

definition reached :: "(string, string) btree \<Rightarrow> string \<Rightarrow> string \<Rightarrow> bool" where
  "reached parent src n \<longleftrightarrow> n = src \<or> bt_get n parent \<noteq> None"

definition linked :: "(string \<times> string) set \<Rightarrow> string \<Rightarrow> (string, string) btree \<Rightarrow> bool" where
  "linked E src parent \<longleftrightarrow> (\<forall>k v. bt_get k parent = Some v \<longrightarrow> (v, k) \<in> E) \<and> (\<forall>n. reached parent src n \<longrightarrow> (\<exists>r. leads_back parent src n r))"

lemma linked_insert:
  assumes "linked E src parent" and "bt_get k parent = None" and "k \<noteq> src" and "(v, k) \<in> E" and "reached parent src v"
  shows "linked E src (bt_insert k v parent)"
proof -
  have "\<exists>r. leads_back (bt_insert k v parent) src n r" if n: "reached (bt_insert k v parent) src n" for n
  proof (cases "n = k")
    case True
    obtain r where "leads_back parent src v r" using assms(1,5) by (auto simp: linked_def)
    then have "leads_back (bt_insert k v parent) src v r" using back_grow assms(2,3) by blast
    then have "leads_back (bt_insert k v parent) src k (r @ [k])" by (rule leads_back.back_step) (simp add: bt_get_insert_any)
    then show ?thesis using True by blast
  next
    case False
    then have "reached parent src n" using n by (auto simp: reached_def bt_get_insert_any)
    then show ?thesis using assms(1) back_grow [OF _ assms(2,3)] unfolding linked_def by blast
  qed
  then show ?thesis using assms(1,4) by (auto simp: linked_def bt_get_insert_any split: if_splits)
qed

lemma scan_edges_keeps:
  assumes "linked E src parent" and "reached parent src c" and "\<forall>e \<in> set es. de_to e \<noteq> src \<and> (de_from e, de_to e) \<in> E"
    and "\<forall>n \<in> set queue. reached parent src n" and "bt_get t parent = None"
  shows "case scan_edges es c t parent queue of
      Inl p \<Rightarrow> linked E src p \<and> reached p src t
    | Inr (p, q) \<Rightarrow> linked E src p \<and> (\<forall>n \<in> set q. reached p src n) \<and> bt_get t p = None \<and> (\<forall>n. reached p src n \<longrightarrow> reached parent src n \<or> n \<in> set q)
        \<and> (\<forall>n. reached parent src n \<longrightarrow> reached p src n) \<and> set queue \<subseteq> set q \<and> (\<forall>e \<in> set es. de_from e = c \<longrightarrow> reached p src (de_to e))"
  using assms
proof (induction es arbitrary: parent queue)
  case (Cons e es)
  let ?p = "bt_insert (de_to e) c parent"
  show ?case
  proof (cases "de_from e = c \<and> bt_get (de_to e) parent = None")
    case True
    have l: "linked E src ?p" using linked_insert [OF Cons.prems(1)] True Cons.prems(2,3) by auto
    have g: "reached ?p src n \<longleftrightarrow> reached parent src n \<or> n = de_to e" for n by (auto simp: reached_def bt_get_insert_any)
    show ?thesis
    proof (cases "de_to e = t")
      case True
      then show ?thesis using l g \<open>de_from e = c \<and> bt_get (de_to e) parent = None\<close> by simp
    next
      case False
      have "bt_get t ?p = None" using False Cons.prems(5) by (simp add: bt_get_insert_any)
      then show ?thesis using Cons.IH [of ?p "queue @ [de_to e]"] l g Cons.prems(2,3,4) True False
        by (auto split: sum.splits prod.splits)
    qed
  next
    case False
    then show ?thesis using Cons.IH [OF Cons.prems(1,2) _ Cons.prems(4,5)] Cons.prems(3)
      by (auto simp: reached_def split: sum.splits prod.splits)
  qed
qed auto

definition settled :: "dependency_edge list \<Rightarrow> string \<Rightarrow> (string, string) btree \<Rightarrow> string list \<Rightarrow> bool" where
  "settled deps src parent queue \<longleftrightarrow>
     (\<forall>n. reached parent src n \<longrightarrow> n \<in> set queue \<or> (\<forall>e \<in> set deps. de_from e = n \<longrightarrow> reached parent src (de_to e)))"

lemma settled_unreachable:
  assumes "settled deps src parent []" and "\<not> reached parent src t"
  shows "(src, t) \<notin> (depends deps)\<^sup>*"
proof
  assume "(src, t) \<in> (depends deps)\<^sup>*"
  then have "reached parent src t"
  proof (induction rule: rtrancl_induct)
    case (step a b)
    then show ?case using assms(1) by (auto simp: settled_def depends_def)
  qed (simp add: reached_def)
  then show False using assms(2) by simp
qed

lemma path_search_keeps:
  assumes "linked (depends deps) src parent" and "\<forall>n \<in> set queue. reached parent src n" and "bt_get t parent = None"
    and "settled deps src parent queue" and "\<forall>e \<in> set deps. de_to e \<noteq> src" and "t \<noteq> src"
  shows "case path_search deps t queue parent of
      Some p \<Rightarrow> linked (depends deps) src p \<and> reached p src t
    | None \<Rightarrow> (src, t) \<notin> (depends deps)\<^sup>*"
  using assms
proof (induction deps t queue parent rule: path_search.induct)
  case (1 deps t parent)
  then show ?case using settled_unreachable [of deps src parent t] by (simp add: reached_def)
next
  case (2 deps t c queue parent)
  have e: "\<forall>e \<in> set deps. de_to e \<noteq> src \<and> (de_from e, de_to e) \<in> depends deps" using "2.prems"(5) by (auto simp: depends_def)
  note scan = scan_edges_keeps [OF "2.prems"(1) _ e _ "2.prems"(3), of c queue]
  show ?case
  proof (cases "scan_edges deps c t parent queue")
    case (Inl p)
    then show ?thesis using scan "2.prems"(2) by simp
  next
    case (Inr r)
    obtain p q where r: "r = (p, q)" by (cases r)
    have k: "linked (depends deps) src p" "\<forall>n \<in> set q. reached p src n" "bt_get t p = None"
      and new: "\<And>n. reached p src n \<Longrightarrow> reached parent src n \<or> n \<in> set q" and old: "\<And>n. reached parent src n \<Longrightarrow> reached p src n"
      and qq: "set queue \<subseteq> set q" and cc: "\<forall>e \<in> set deps. de_from e = c \<longrightarrow> reached p src (de_to e)"
      using scan "2.prems"(2) Inr r by auto
    have "settled deps src p q" using "2.prems"(4) new old qq cc unfolding settled_def by (metis set_ConsD subsetD)
    then show ?thesis using "2.IH" [OF Inr r [symmetric] k _ "2.prems"(5,6)] Inr r by simp
  qed
qed

text \<open>When no file depends on the start, the search for a route returns; the route it gives leads from the start to the target
  along dependency edges, and it gives none only when there is none.\<close>

lemma structural_path_correct:
  assumes "\<forall>e \<in> set (cg_deps g). de_to e \<noteq> a"
  shows "\<exists>res. structural_path g a b = Some res \<and>
    (case res of
       Some route \<Rightarrow> route \<noteq> [] \<and> hd route = a \<and> last route = b \<and> successively (\<lambda>x y. (x, y) \<in> depends (cg_deps g)) route
     | None \<Rightarrow> (a, b) \<notin> (depends (cg_deps g))\<^sup>*)"
proof (cases "a = b")
  case False
  let ?E = "depends (cg_deps g)"
  have "linked ?E a []" using leads_back.back_start [of a "[]"] by (auto simp: linked_def reached_def)
  then have s: "case path_search (cg_deps g) b [a] [] of Some p \<Rightarrow> linked ?E a p \<and> reached p a b | None \<Rightarrow> (a, b) \<notin> ?E\<^sup>*"
    using path_search_keeps [of "cg_deps g" a "[]" "[a]" b] assms False by (auto simp: reached_def settled_def)
  show ?thesis
  proof (cases "path_search (cg_deps g) b [a] []")
    case None
    then show ?thesis using s False by (auto simp: structural_path_def)
  next
    case (Some p)
    then obtain r where r: "leads_back p a b r" using s by (auto simp: linked_def)
    have rev: "rev (b # tl (rev r)) = r" using back_ends [OF r] by (metis hd_Cons_tl hd_rev rev_is_Nil_conv rev_rev_ident)
    have "structural_path g a b = Some (Some r)" using Some False back_route [OF r, of "[b]"] rev by (simp add: structural_path_def)
    moreover have "successively (\<lambda>x y. (x, y) \<in> ?E) r" using back_steps [OF r] s Some by (auto simp: linked_def)
    ultimately show ?thesis using back_ends [OF r] by auto
  qed
qed (simp add: structural_path_def)

definition sample_graph :: "(string \<times> string) list \<Rightarrow> context_graph" where
  "sample_graph es = foldl (\<lambda>g (a, b). add_dependency a b ''import'' g) graph_new es"

lemma structural_path_correct_witness:
  "\<exists>res. structural_path (sample_graph [(''a'', ''b''), (''b'', ''c'')]) ''a'' ''c'' = Some res"
proof -
  have "\<forall>e \<in> set (cg_deps (sample_graph [(''a'', ''b''), (''b'', ''c'')])). de_to e \<noteq> ''a''"
    by (simp add: sample_graph_def add_dependency_def graph_new_def)
  then show ?thesis using structural_path_correct [of "sample_graph [(''a'', ''b''), (''b'', ''c'')]" "''a''" "''c''"] by blast
qed

section \<open>A route that is never found\<close>

lemma cycle_never_returns:
  assumes "\<And>n. n \<in> S \<Longrightarrow> \<exists>m \<in> S. bt_get n parent = Some m" and "n \<in> S"
  shows "route_back parent n route = None"
proof (rule ccontr)
  assume "route_back parent n route \<noteq> None"
  then obtain y where "route_back parent n route = Some y" by auto
  then have "(\<forall>n \<in> S. \<exists>m \<in> S. bt_get n parent = Some m) \<longrightarrow> n \<notin> S"
  proof (rule route_back.raw_induct [rotated])
    fix f :: "(string, string) btree \<Rightarrow> string \<Rightarrow> string list \<Rightarrow> string list option" and parent n route y
    assume ih: "\<And>parent n route y. f parent n route = Some y \<Longrightarrow> (\<forall>n \<in> S. \<exists>m \<in> S. bt_get n parent = Some m) \<longrightarrow> n \<notin> S"
      and r: "(case bt_get n parent of None \<Rightarrow> Some route | Some prev \<Rightarrow> f parent prev (route @ [prev])) = Some y"
    show "(\<forall>n \<in> S. \<exists>m \<in> S. bt_get n parent = Some m) \<longrightarrow> n \<notin> S"
      using ih r by (cases "bt_get n parent") fastforce+
  qed
  then show False using assms by blast
qed

text \<open>What the edges of one file add: every successor that had no parent gets this file as its parent and joins the queue, unless one
  of them is the target.\<close>

definition successors :: "dependency_edge list \<Rightarrow> string \<Rightarrow> string set" where
  "successors deps c = {de_to e | e. e \<in> set deps \<and> de_from e = c}"

lemma successors_depends: "x \<in> successors deps c \<longleftrightarrow> (c, x) \<in> depends deps"
  by (auto simp: successors_def depends_def)

lemma successors_Cons: "successors (e # es) c = (if de_from e = c then insert (de_to e) (successors es c) else successors es c)"
  by (auto simp: successors_def)

lemma scan_edges_misses:
  assumes "t \<notin> successors es c"
  shows "\<exists>p new. scan_edges es c t parent queue = Inr (p, queue @ new)
    \<and> set new = {x \<in> successors es c. bt_get x parent = None}
    \<and> (\<forall>x. bt_get x p = (if x \<in> set new then Some c else bt_get x parent))"
  using assms
proof (induction es arbitrary: parent queue)
  case Nil
  show ?case by (simp add: successors_def)
next
  case (Cons e es)
  have t: "t \<notin> successors es c" "de_from e = c \<Longrightarrow> de_to e \<noteq> t" using Cons.prems by (auto simp: successors_Cons split: if_splits)
  show ?case
  proof (cases "de_from e = c \<and> bt_get (de_to e) parent = None")
    case True
    from Cons.IH [OF t(1), of "bt_insert (de_to e) c parent" "queue @ [de_to e]"] obtain p new where
      i: "scan_edges es c t (bt_insert (de_to e) c parent) (queue @ [de_to e]) = Inr (p, (queue @ [de_to e]) @ new)"
        "set new = {x \<in> successors es c. bt_get x (bt_insert (de_to e) c parent) = None}"
        "\<forall>x. bt_get x p = (if x \<in> set new then Some c else bt_get x (bt_insert (de_to e) c parent))" by blast
    show ?thesis
      using i True t(2) by (intro exI [of _ p] exI [of _ "de_to e # new"]) (auto simp: bt_get_insert_any successors_Cons)
  next
    case False
    from Cons.IH [OF t(1), of parent queue] obtain p new where
      i: "scan_edges es c t parent queue = Inr (p, queue @ new)" "set new = {x \<in> successors es c. bt_get x parent = None}"
        "\<forall>x. bt_get x p = (if x \<in> set new then Some c else bt_get x parent)" by blast
    show ?thesis using i False by (intro exI [of _ p] exI [of _ new]) (auto simp: successors_Cons)
  qed
qed

lemma scan_edges_hits:
  assumes "t \<in> successors es c" and "bt_get t parent = None"
  shows "\<exists>p. scan_edges es c t parent queue = Inl p \<and> bt_get t p = Some c
    \<and> (\<forall>x. bt_get x p = bt_get x parent \<or> bt_get x p = Some c \<and> bt_get x parent = None)"
  using assms
proof (induction es arbitrary: parent queue)
  case (Cons e es)
  show ?case
  proof (cases "de_from e = c \<and> bt_get (de_to e) parent = None")
    case True
    show ?thesis
    proof (cases "de_to e = t")
      case False
      then have t: "t \<in> successors es c" "bt_get t (bt_insert (de_to e) c parent) = None"
        using Cons.prems True by (auto simp: successors_Cons bt_get_insert_any)
      from Cons.IH [OF t, of "queue @ [de_to e]"] True False show ?thesis by (auto simp: bt_get_insert_any split: if_splits)
    qed (use True in \<open>auto simp: bt_get_insert_any\<close>)
  next
    case False
    then have "t \<in> successors es c" using Cons.prems by (auto simp: successors_Cons split: if_splits)
    from Cons.IH [OF this Cons.prems(2), of queue] False show ?thesis by auto
  qed
qed (simp add: successors_def)

text \<open>So the files of a part of the queue that does not lead to the target are replaced by what they discover.\<close>

lemma path_search_level:
  assumes "\<forall>c \<in> set now. t \<notin> successors deps c"
  shows "\<exists>p new. path_search deps t (now @ later) parent = path_search deps t (later @ new) p
    \<and> set new = {x. bt_get x parent = None \<and> (\<exists>c \<in> set now. x \<in> successors deps c)}
    \<and> (\<forall>x. bt_get x p = None \<longleftrightarrow> bt_get x parent = None \<and> x \<notin> set new)
    \<and> (\<forall>x. bt_get x p = bt_get x parent \<or> (\<exists>c \<in> set now. bt_get x p = Some c))"
  using assms
proof (induction now arbitrary: later parent)
  case Nil
  show ?case by (intro exI [of _ parent] exI [of _ "[]"]) simp
next
  case (Cons c now)
  from scan_edges_misses [of t deps c parent "now @ later"] Cons.prems obtain p1 new1 where
    s: "scan_edges deps c t parent (now @ later) = Inr (p1, (now @ later) @ new1)"
      "set new1 = {x \<in> successors deps c. bt_get x parent = None}"
      "\<forall>x. bt_get x p1 = (if x \<in> set new1 then Some c else bt_get x parent)" by auto
  from Cons.IH [of "later @ new1" p1] Cons.prems obtain p new where
    i: "path_search deps t (now @ later @ new1) p1 = path_search deps t ((later @ new1) @ new) p"
      "set new = {x. bt_get x p1 = None \<and> (\<exists>c \<in> set now. x \<in> successors deps c)}"
      "\<forall>x. bt_get x p = None \<longleftrightarrow> bt_get x p1 = None \<and> x \<notin> set new"
      "\<forall>x. bt_get x p = bt_get x p1 \<or> (\<exists>c \<in> set now. bt_get x p = Some c)" by auto
  show ?case
  proof (intro exI [of _ p] exI [of _ "new1 @ new"] conjI)
    show "path_search deps t ((c # now) @ later) parent = path_search deps t (later @ new1 @ new) p"
      using s(1) i(1) by simp
    show "set (new1 @ new) = {x. bt_get x parent = None \<and> (\<exists>c' \<in> set (c # now). x \<in> successors deps c')}"
      using s(2,3) i(2) by (auto split: if_splits)
    show "\<forall>x. bt_get x p = None \<longleftrightarrow> bt_get x parent = None \<and> x \<notin> set (new1 @ new)"
      using s(3) i(3) by auto
    show "\<forall>x. bt_get x p = bt_get x parent \<or> (\<exists>c' \<in> set (c # now). bt_get x p = Some c')"
      using s(3) i(4) by (metis list.set_intros)
  qed
qed

text \<open>The state of the search after it has looked at all files up to a distance: the files with a parent are those that some number of
  steps leads to, and the files of the next step wait in the queue, unless they have been looked at.\<close>

definition after_level :: "dependency_edge list \<Rightarrow> string \<Rightarrow> nat \<Rightarrow> string list \<Rightarrow> (string, string) btree \<Rightarrow> bool" where
  "after_level deps a n queue parent \<longleftrightarrow>
     (\<forall>x. bt_get x parent \<noteq> None \<longleftrightarrow> (\<exists>j. 0 < j \<and> j \<le> n \<and> (a, x) \<in> depends deps ^^ j))
     \<and> (\<forall>y \<in> set queue. (a, y) \<in> depends deps ^^ n)
     \<and> (\<forall>y. (a, y) \<in> depends deps ^^ n \<longrightarrow> y \<in> set queue \<or> (\<forall>x. (y, x) \<in> depends deps \<longrightarrow> bt_get x parent \<noteq> None))
     \<and> (\<forall>x y. bt_get x parent = Some y \<longrightarrow> y = a \<or> bt_get y parent \<noteq> None)"

lemma after_levelD:
  assumes "after_level deps a n queue parent"
  shows "bt_get x parent \<noteq> None \<longleftrightarrow> (\<exists>j. 0 < j \<and> j \<le> n \<and> (a, x) \<in> depends deps ^^ j)"
    and "y \<in> set queue \<Longrightarrow> (a, y) \<in> depends deps ^^ n"
    and "(a, y) \<in> depends deps ^^ n \<Longrightarrow> (y, x) \<in> depends deps \<Longrightarrow> y \<in> set queue \<or> bt_get x parent \<noteq> None"
    and "bt_get x parent = Some y \<Longrightarrow> y = a \<or> bt_get y parent \<noteq> None"
  using assms unfolding after_level_def by blast+

text \<open>The files that have a parent once the whole queue was looked at.\<close>

lemma level_domain:
  assumes "after_level deps a n queue parent"
    and "set new = {x. bt_get x parent = None \<and> (\<exists>c \<in> set queue. (c, x) \<in> depends deps)}"
    and "\<And>x. bt_get x p = None \<longleftrightarrow> bt_get x parent = None \<and> x \<notin> set new"
  shows "bt_get x p \<noteq> None \<longleftrightarrow> (\<exists>j. 0 < j \<and> j \<le> Suc n \<and> (a, x) \<in> depends deps ^^ j)"
proof
  note inv = after_levelD [OF assms(1)]
  assume "bt_get x p \<noteq> None"
  then have "bt_get x parent \<noteq> None \<or> x \<in> set new" using assms(3) [of x] by simp
  then consider "bt_get x parent \<noteq> None" | c where "c \<in> set queue" "(c, x) \<in> depends deps" unfolding assms(2) by blast
  then show "\<exists>j. 0 < j \<and> j \<le> Suc n \<and> (a, x) \<in> depends deps ^^ j"
  proof cases
    case 1
    then show ?thesis using inv(1) le_SucI by blast
  next
    case 2
    then have "(a, x) \<in> depends deps ^^ Suc n" using inv(2) by auto
    then show ?thesis by blast
  qed
next
  note inv = after_levelD [OF assms(1)]
  assume "\<exists>j. 0 < j \<and> j \<le> Suc n \<and> (a, x) \<in> depends deps ^^ j"
  then obtain j where j: "0 < j" "j \<le> Suc n" "(a, x) \<in> depends deps ^^ j" by blast
  show "bt_get x p \<noteq> None"
  proof (cases "j = Suc n")
    case True
    then obtain y where y: "(a, y) \<in> depends deps ^^ n" "(y, x) \<in> depends deps" using j(3) by auto
    then have "bt_get x parent \<noteq> None \<or> x \<in> set new" using inv(3) [OF y] y(2) unfolding assms(2) by auto
    then show ?thesis using assms(3) [of x] by simp
  next
    case False
    then have "bt_get x parent \<noteq> None" using inv(1) j by fastforce
    then show ?thesis using assms(3) [of x] by simp
  qed
qed

lemma level_step:
  assumes "after_level deps a n queue parent" and "(a, t) \<notin> depends deps ^^ Suc n"
  shows "\<exists>queue' parent'. path_search deps t queue parent = path_search deps t queue' parent' \<and> after_level deps a (Suc n) queue' parent'"
proof -
  let ?E = "depends deps"
  note inv = after_levelD [OF assms(1)]
  have "t \<notin> successors deps c" if "c \<in> set queue" for c
    using inv(2) [OF that] assms(2) by (auto simp: successors_depends)
  then have "\<forall>c \<in> set queue. t \<notin> successors deps c" by blast
  from path_search_level [OF this, of "[]" parent] obtain p new where
    l: "path_search deps t queue parent = path_search deps t new p"
      "set new = {x. bt_get x parent = None \<and> (\<exists>c \<in> set queue. (c, x) \<in> ?E)}"
      "\<And>x. bt_get x p = None \<longleftrightarrow> bt_get x parent = None \<and> x \<notin> set new"
      "\<And>x. bt_get x p = bt_get x parent \<or> (\<exists>c \<in> set queue. bt_get x p = Some c)"
    by (auto simp: successors_depends)
  note dom = level_domain [OF assms(1) l(2,3)]
  have "after_level deps a (Suc n) new p"
    unfolding after_level_def
  proof (intro conjI allI ballI impI)
    show "bt_get x p \<noteq> None \<longleftrightarrow> (\<exists>j. 0 < j \<and> j \<le> Suc n \<and> (a, x) \<in> ?E ^^ j)" for x by (rule dom)
    show "(a, y) \<in> ?E ^^ Suc n" if "y \<in> set new" for y using that l(2) inv(2) by auto
    show "y \<in> set new \<or> (\<forall>x. (y, x) \<in> ?E \<longrightarrow> bt_get x p \<noteq> None)" if "(a, y) \<in> ?E ^^ Suc n" for y
    proof (cases "y \<in> set new")
      case False
      have "bt_get y p \<noteq> None" using dom that by blast
      then have "bt_get y parent \<noteq> None" using l(3) [of y] False by simp
      then obtain j where "0 < j" "j \<le> n" "(a, y) \<in> ?E ^^ j" using inv(1) [of y] by blast
      then have "bt_get x p \<noteq> None" if "(y, x) \<in> ?E" for x
        using dom [of x] that by (intro iffD2 [OF dom] exI [of _ "Suc j"]) auto
      then show ?thesis by blast
    qed simp
    show "y = a \<or> bt_get y p \<noteq> None" if xy: "bt_get x p = Some y" for x y
    proof -
      consider "bt_get x parent = Some y" | "y \<in> set queue" using l(4) [of x] xy by auto
      then show ?thesis
      proof cases
        case 1
        then show ?thesis using inv(4) [of x y] l(3) [of y] by auto
      next
        case 2
        then have "(a, y) \<in> ?E ^^ n" by (rule inv(2))
        then show ?thesis
        proof (cases "n = 0")
          case False
          with \<open>(a, y) \<in> ?E ^^ n\<close> show ?thesis by (intro disjI2 iffD2 [OF dom] exI [of _ n]) simp
        qed simp
      qed
    qed
  qed
  then show ?thesis using l(1) by blast
qed

lemma level_reached:
  assumes "\<forall>k \<le> n. (a, t) \<notin> depends deps ^^ k"
  shows "\<exists>queue parent. path_search deps t [a] [] = path_search deps t queue parent \<and> after_level deps a n queue parent"
  using assms
proof (induction n)
  case 0
  have "after_level deps a 0 [a] []" by (simp add: after_level_def bt_get_def)
  then show ?case by blast
next
  case (Suc n)
  then obtain queue parent where q: "path_search deps t [a] [] = path_search deps t queue parent" "after_level deps a n queue parent"
    by auto
  show ?case using level_step [OF q(2), of t] Suc.prems q(1) by auto
qed

text \<open>When the target is one step further, one of the files in the queue leads to it.\<close>

lemma queue_hits:
  assumes "bt_get t parent = None" and "\<exists>c \<in> set queue. t \<in> successors deps c"
    and "\<forall>c \<in> set queue. bt_get c parent \<noteq> None" and "\<forall>x y. bt_get x parent = Some y \<longrightarrow> bt_get y parent \<noteq> None"
  shows "\<exists>p. path_search deps t queue parent = Some p \<and> bt_get t p \<noteq> None \<and> (\<forall>x y. bt_get x p = Some y \<longrightarrow> bt_get y p \<noteq> None)"
proof -
  obtain now c later where q: "queue = now @ c # later" "t \<in> successors deps c" "\<forall>c \<in> set now. t \<notin> successors deps c"
    using assms(2) split_list_first_prop [of queue "\<lambda>c. t \<in> successors deps c"] by blast
  from path_search_level [OF q(3), of "c # later" parent] obtain p new where
    l: "path_search deps t queue parent = path_search deps t ((c # later) @ new) p"
      "set new = {x. bt_get x parent = None \<and> (\<exists>c \<in> set now. x \<in> successors deps c)}"
      "\<And>x. bt_get x p = None \<longleftrightarrow> bt_get x parent = None \<and> x \<notin> set new"
      "\<And>x. bt_get x p = bt_get x parent \<or> (\<exists>c \<in> set now. bt_get x p = Some c)"
    using q(1) by auto
  have "bt_get t p = None" using l(2,3) assms(1) q(3) by blast
  from scan_edges_hits [OF q(2) this, of "later @ new"] obtain r where
    r: "scan_edges deps c t p (later @ new) = Inl r" "bt_get t r = Some c"
      "\<And>x. bt_get x r = bt_get x p \<or> bt_get x r = Some c \<and> bt_get x p = None" by blast
  have mono: "bt_get x r \<noteq> None" if "bt_get x parent \<noteq> None" for x using that l(3) r(3) by metis
  have "bt_get y r \<noteq> None" if "bt_get x r = Some y" for x y
  proof -
    have "y \<in> set queue \<or> bt_get x parent = Some y" using that r(3) [of x] l(4) [of x] q(1) by auto
    then show ?thesis using assms(3,4) mono by blast
  qed
  then show ?thesis using l(1) r(1,2) by simp
qed

lemma found_in_level:
  assumes "after_level deps a n queue parent" and "bt_get a parent \<noteq> None" and "(a, t) \<in> depends deps ^^ Suc n"
    and "\<And>j. (a, t) \<in> depends deps ^^ j \<Longrightarrow> Suc n \<le> j"
  shows "\<exists>p. path_search deps t queue parent = Some p \<and> bt_get t p \<noteq> None \<and> (\<forall>x y. bt_get x p = Some y \<longrightarrow> bt_get y p \<noteq> None)"
proof (rule queue_hits)
  note inv = after_levelD [OF assms(1)]
  show none: "bt_get t parent = None" using inv(1) [of t] assms(4) by fastforce
  obtain y where "(a, y) \<in> depends deps ^^ n" "(y, t) \<in> depends deps" using assms(3) by auto
  then show "\<exists>c \<in> set queue. t \<in> successors deps c" using inv(3) [of y t] none by (auto simp: successors_depends)
  show "\<forall>c \<in> set queue. bt_get c parent \<noteq> None"
  proof
    fix c assume "c \<in> set queue"
    then have "(a, c) \<in> depends deps ^^ n" by (rule inv(2))
    then show "bt_get c parent \<noteq> None"
    proof (cases "n = 0")
      case False
      with \<open>(a, c) \<in> depends deps ^^ n\<close> show ?thesis by (intro iffD2 [OF inv(1)] exI [of _ n]) simp
    qed (use assms(2) in simp)
  qed
  show "\<forall>x y. bt_get x parent = Some y \<longrightarrow> bt_get y parent \<noteq> None" using inv(4) assms(2) by blast
qed

text \<open>From a state in which the start has a parent, the search ends with a table in which everybody has one.\<close>

lemma search_finds:
  assumes "after_level deps a n queue parent" and "bt_get a parent \<noteq> None" and "(a, t) \<in> (depends deps)\<^sup>*"
    and "\<forall>k \<le> n. (a, t) \<notin> depends deps ^^ k"
  shows "\<exists>p. path_search deps t queue parent = Some p \<and> bt_get t p \<noteq> None \<and> (\<forall>x y. bt_get x p = Some y \<longrightarrow> bt_get y p \<noteq> None)"
proof -
  define m where "m = (LEAST k. (a, t) \<in> depends deps ^^ k)"
  obtain k where "(a, t) \<in> depends deps ^^ k" using assms(3) rtrancl_imp_relpow by blast
  then have m: "(a, t) \<in> depends deps ^^ m" "\<And>j. (a, t) \<in> depends deps ^^ j \<Longrightarrow> m \<le> j"
    unfolding m_def by (auto intro: LeastI Least_le)
  have "n < m" using m(1) assms(4) not_le by blast
  have "\<exists>p. path_search deps t queue parent = Some p \<and> bt_get t p \<noteq> None \<and> (\<forall>x y. bt_get x p = Some y \<longrightarrow> bt_get y p \<noteq> None)"
    if "n < m" "after_level deps a n queue parent" "bt_get a parent \<noteq> None" for n queue parent
    using that
  proof (induction "m - n" arbitrary: n queue parent)
    case (Suc i)
    show ?case
    proof (cases "Suc n = m")
      case False
      have "(a, t) \<notin> depends deps ^^ Suc n" using m(2) [of "Suc n"] Suc.prems(1) False by auto
      from level_step [OF Suc.prems(2) this] obtain q p where
        l: "path_search deps t queue parent = path_search deps t q p" "after_level deps a (Suc n) q p" by blast
      have "bt_get a p \<noteq> None" using l(2) Suc.prems(2,3) unfolding after_level_def by (metis le_SucI)
      then show ?thesis using Suc.hyps(1) [of "Suc n" q p] Suc.hyps(2) Suc.prems(1) False l by simp
    next
      case True
      show ?thesis using found_in_level [OF Suc.prems(2,3)] m True by simp
    qed
  qed simp
  then show ?thesis using \<open>n < m\<close> assms(1,2) by blast
qed

text \<open>C39: the search for a route from \<open>a\<close> to \<open>b\<close> never returns whenever \<open>b\<close> can be reached from \<open>a\<close>, but only in more steps than some
  cycle of dependencies through \<open>a\<close> has: the start has then got a parent before the target is found, and the walk back over
  the parents never comes to an end. This holds for every graph and every order of its edges.\<close>
theorem structural_path_hangs:
  assumes "(a, b) \<in> (depends (cg_deps g))\<^sup>*" and "0 < n" and "(a, a) \<in> depends (cg_deps g) ^^ n"
    and "\<forall>k \<le> n. (a, b) \<notin> depends (cg_deps g) ^^ k"
  shows "structural_path g a b = None"
proof -
  have "a \<noteq> b" using assms(4) by (metis le0 relpow_0_I)
  from level_reached [OF assms(4)] obtain queue parent where
    q: "path_search (cg_deps g) b [a] [] = path_search (cg_deps g) b queue parent" "after_level (cg_deps g) a n queue parent" by blast
  have "bt_get a parent \<noteq> None" using q(2) assms(2,3) unfolding after_level_def by blast
  from search_finds [OF q(2) this assms(1,4)] obtain p where
    p: "path_search (cg_deps g) b [a] [] = Some p" "bt_get b p \<noteq> None" "\<And>x y. bt_get x p = Some y \<Longrightarrow> bt_get y p \<noteq> None"
    using q(1) by auto
  have "route_back p b [b] = None"
    by (rule cycle_never_returns [of "{x. bt_get x p \<noteq> None}"]) (use p in auto)
  with p(1) \<open>a \<noteq> b\<close> show ?thesis by (simp add: structural_path_def)
qed

theorem structural_path_hangs_witness:
  "structural_path (sample_graph [(''b'', ''c''), (''c'', ''d''), (''a'', ''b''), (''b'', ''a'')]) ''a'' ''d'' = None"
proof -
  let ?g = "sample_graph [(''b'', ''c''), (''c'', ''d''), (''a'', ''b''), (''b'', ''a'')]"
  have E: "depends (cg_deps ?g) = {(''b'', ''c''), (''c'', ''d''), (''a'', ''b''), (''b'', ''a'')}"
  proof -
    have "depends deps = (\<lambda>e. (de_from e, de_to e)) ` set deps" for deps by (auto simp: depends_def)
    then show ?thesis by (simp add: sample_graph_def add_dependency_def graph_new_def insert_commute)
  qed
  have "(''a'', ''d'') \<in> (depends (cg_deps ?g))\<^sup>*" unfolding E by (meson insertCI rtrancl.simps)
  moreover have "(''a'', ''a'') \<in> depends (cg_deps ?g) ^^ 2" unfolding E by (auto simp: numeral_2_eq_2)
  moreover have "\<forall>k \<le> 2. (''a'', ''d'') \<notin> depends (cg_deps ?g) ^^ k"
    unfolding E by (auto simp: numeral_2_eq_2 le_Suc_eq)
  ultimately show ?thesis using structural_path_hangs [of "''a''" "''d''" ?g 2] by simp
qed

section \<open>What a change affects\<close>

lemma scan_dependents_set:
  "scan_dependents es c affected queue = (affected', queue') \<Longrightarrow>
     set affected' = set affected \<union> de_from ` {e \<in> set es. de_to e = c}
     \<and> (set queue \<subseteq> set queue' \<and> set queue' \<subseteq> set queue \<union> set affected') \<and> set affected' \<subseteq> set affected \<union> set queue'
     \<and> (sorted affected \<and> distinct affected \<longrightarrow> sorted affected' \<and> distinct affected')"
proof (induction es arbitrary: affected queue)
  case (Cons e es)
  show ?case
  proof (cases "de_to e = c \<and> de_from e \<notin> set affected")
    case True
    let ?a = "insort_insert (de_from e) affected"
    have i: "{x \<in> set (e # es). de_to x = c} = insert e {x \<in> set es. de_to x = c}" using True by auto
    have a: "set ?a = insert (de_from e) (set affected)" by (simp add: set_insort_insert)
    have o: "sorted affected \<and> distinct affected \<longrightarrow> sorted ?a \<and> distinct ?a" by (simp add: sorted_insort_insert distinct_insort_insert)
    have "scan_dependents es c ?a (queue @ [de_from e]) = (affected', queue')" using Cons.prems True by simp
    note ih = Cons.IH [OF this, unfolded a]
    have "set affected' = set affected \<union> de_from ` {x \<in> set (e # es). de_to x = c}" unfolding i using ih by simp
    moreover have q: "set queue \<subseteq> set queue'" "de_from e \<in> set queue'" "set queue' \<subseteq> set queue \<union> set affected'" using ih by auto
    moreover have "set affected' \<subseteq> set affected \<union> set queue'" using ih q(2) by blast
    ultimately show ?thesis using ih o by blast
  next
    case False
    then have "scan_dependents es c affected queue = (affected', queue')" using Cons.prems by (simp split: if_splits)
    note ih = Cons.IH [OF this]
    have "set affected \<union> de_from ` {x \<in> set (e # es). de_to x = c} = set affected \<union> de_from ` {x \<in> set es. de_to x = c}"
      using False by auto
    then show ?thesis using ih by argo
  qed
qed auto

lemma impact_search_set:
  assumes "\<forall>n \<in> set affected. (n, src) \<in> E\<^sup>+" and "set queue \<subseteq> insert src (set affected)" and "E = depends deps"
    and "\<forall>n \<in> insert src (set affected). n \<in> set queue \<or> (\<forall>m. (m, n) \<in> E \<longrightarrow> m \<in> set affected)"
    and "sorted affected" and "distinct affected"
  shows "set (impact_search deps queue affected) = {n. (n, src) \<in> E\<^sup>+} \<and> sorted (impact_search deps queue affected) \<and> distinct (impact_search deps queue affected)"
  using assms
proof (induction deps queue affected rule: impact_search.induct)
  case (1 deps affected)
  have "n \<in> set affected" if "(n, src) \<in> E\<^sup>+" for n using that
  proof (induction rule: converse_trancl_induct)
    case (step y z)
    then show ?case using "1.prems"(4) by simp
  qed (use "1.prems"(4) in simp)
  then have "set affected = {n. (n, src) \<in> E\<^sup>+}" using "1.prems"(1) by blast
  then show ?case using "1.prems"(5,6) by simp
next
  case (2 deps c queue affected)
  obtain affected' queue' where s: "scan_dependents deps c affected queue = (affected', queue')" by fastforce
  note k = scan_dependents_set [OF s]
  have preds: "de_from ` {e \<in> set deps. de_to e = c} = {m. (m, c) \<in> E}" using "2.prems"(3) by (auto simp: depends_def)
  have "c = src \<or> (c, src) \<in> E\<^sup>+" using "2.prems"(1,2) by auto
  then have "\<forall>n \<in> set affected'. (n, src) \<in> E\<^sup>+" using k preds "2.prems"(1) by (auto intro: trancl_into_trancl2)
  moreover have "set queue' \<subseteq> insert src (set affected')" using k "2.prems"(2) by auto
  moreover have "\<forall>n \<in> insert src (set affected'). n \<in> set queue' \<or> (\<forall>m. (m, n) \<in> E \<longrightarrow> m \<in> set affected')"
  proof
    fix n assume n: "n \<in> insert src (set affected')"
    show "n \<in> set queue' \<or> (\<forall>m. (m, n) \<in> E \<longrightarrow> m \<in> set affected')"
    proof (cases "n = c \<or> n \<in> set queue'")
      case True
      then show ?thesis using k preds by auto
    next
      case False
      then have "n \<in> insert src (set affected)" "n \<notin> set (c # queue)" using k n by auto
      then show ?thesis using "2.prems"(4) k by blast
    qed
  qed
  ultimately show ?case using "2.IH" [OF s [symmetric]] "2.prems"(3,5,6) k s by simp
qed

text \<open>The impact of a changed file is exactly the other files that depend on it, directly or through others, each once and in
  order, split into the test files and the rest.\<close>

lemma impact_is_closure:
  "set (fst (impact_of g p)) = {q. (q, p) \<in> (depends (cg_deps g))\<^sup>+ \<and> q \<noteq> p \<and> \<not> is_test_file g q} \<and>
   set (snd (impact_of g p)) = {q. (q, p) \<in> (depends (cg_deps g))\<^sup>+ \<and> q \<noteq> p \<and> is_test_file g q} \<and>
   sorted_wrt (<) (fst (impact_of g p)) \<and> sorted_wrt (<) (snd (impact_of g p))"
proof -
  have "set (impact_search (cg_deps g) [p] []) = {n. (n, p) \<in> (depends (cg_deps g))\<^sup>+} \<and> sorted (impact_search (cg_deps g) [p] [])
      \<and> distinct (impact_search (cg_deps g) [p] [])"
    by (rule impact_search_set) auto
  then show ?thesis by (auto simp: impact_of_def Let_def strict_sorted_iff intro: sorted_wrt_filter)
qed

section \<open>Indexing again\<close>

text \<open>Indexing a file never takes a symbol away, so a symbol that the new text of a file no longer has stays in the map.\<close>

lemma indexing_keeps_symbols:
  assumes "bt_get i (cg_symbols g) \<noteq> None"
  shows "bt_get i (cg_symbols (graph_index_file H lossy first120 lang path bytes g)) \<noteq> None"
proof -
  have "bt_get i m \<noteq> None \<Longrightarrow> bt_get i (index_symbols first120 lang path sha n ls m) \<noteq> None" for ls n m sha
    by (induction first120 lang path sha n ls m rule: index_symbols.induct) (auto simp: bt_get_insert_any split: option.split)
  then show ?thesis using assms by (simp add: graph_index_file_def)
qed

lemma indexing_keeps_symbols_witness:
  "bt_get ''rust:a.rs:f'' (cg_symbols (graph_index_file (\<lambda>b. b) (\<lambda>b. b) (take 120) LangRust ''a.rs'' []
     (graph_index_file (\<lambda>b. b) (\<lambda>b. b) (take 120) LangRust ''a.rs'' ''pub fn f()'' graph_new))) \<noteq> None"
proof -
  have "bt_get ''rust:a.rs:f'' (cg_symbols (graph_index_file (\<lambda>b. b) (\<lambda>b. b) (take 120) LangRust ''a.rs'' ''pub fn f()'' graph_new)) \<noteq> None"
    by code_simp
  then show ?thesis by (rule indexing_keeps_symbols)
qed

end
