(* ===== verification/Context_Pack.thy ===== *)
theory Context_Pack
  imports Rust_Text Ordered_Map "HOL-Library.Product_Lexorder"
begin

text \<open>
  Context packing and its audits, \<^verbatim>\<open>crates/context\<close>: the pack compiler with recoverable handles, the retrieval plan and the pack of
  the planner, provenance of an envelope, the policy of sources, the recoverable transcript, the ledger of the prompt cache
  and the breakdown of a window. SHA-256 and the compilation of a prompt to its cache key are parameters; the value of
  a fragment is of any linearly ordered type, which leaves out the floating-point values that do not compare.
\<close>

section \<open>The pack compiler\<close>

record 'v fragment =
  fr_path :: string
  fr_text :: string
  fr_value :: 'v
  fr_critical :: bool

record packed_fragment =
  pf_path :: string
  pf_text :: string
  pf_critical :: bool

datatype pack_error = CriticalOverflow nat nat

record compressed_handle =
  ch_path :: string
  ch_sha256 :: string
  ch_projection :: string

record context_pack =
  cp_packed :: "packed_fragment list"
  cp_handles :: "compressed_handle list"
  cp_used_bytes :: nat

type_synonym compression_store = "(string, string) btree"

definition compress :: "(string \<Rightarrow> string) \<Rightarrow> 'v fragment \<Rightarrow> compression_store \<Rightarrow> compressed_handle \<times> compression_store" where
  "compress H f store =
     (\<lparr>ch_path = fr_path f, ch_sha256 = H (fr_text f),
       ch_projection = ''['' @ fr_path f @ '': '' @ show_nat (length (str_lines (fr_text f))) @ '' lines, hydrate by digest]''\<rparr>,
      bt_insert (H (fr_text f)) (fr_text f) store)"

definition hydrate :: "compressed_handle \<Rightarrow> compression_store \<Rightarrow> string option" where
  "hydrate h store = bt_get (ch_sha256 h) store"

definition pack_fragment :: "bool \<Rightarrow> 'v fragment \<Rightarrow> context_pack \<Rightarrow> context_pack" where
  "pack_fragment critical f p =
     p\<lparr>cp_used_bytes := cp_used_bytes p + length (fr_text f),
       cp_packed := cp_packed p @ [\<lparr>pf_path = fr_path f, pf_text = fr_text f, pf_critical = critical\<rparr>]\<rparr>"

definition pack_rest_one :: "(string \<Rightarrow> string) \<Rightarrow> nat \<Rightarrow> 'v fragment \<Rightarrow> context_pack \<times> compression_store \<Rightarrow> context_pack \<times> compression_store" where
  "pack_rest_one H budget f st =
     (case st of (p, store) \<Rightarrow>
        if cp_used_bytes p + length (fr_text f) \<le> budget then (pack_fragment False f p, store)
        else (case compress H f store of (h, store') \<Rightarrow> (p\<lparr>cp_handles := cp_handles p @ [h]\<rparr>, store')))"

text \<open>A stable sort by descending value.\<close>

definition by_value :: "('v::linorder) fragment list \<Rightarrow> 'v fragment list" where
  "by_value fs = rev (sort_key fr_value (rev fs))"

definition pack_with_budget ::
  "(string \<Rightarrow> string) \<Rightarrow> ('v::linorder) fragment list \<Rightarrow> nat \<Rightarrow> compression_store \<Rightarrow> (pack_error, context_pack) result \<times> compression_store" where
  "pack_with_budget H fragments budget store =
     (let critical = filter fr_critical fragments;
          critical_bytes = sum_list (map (\<lambda>f. length (fr_text f)) critical)
      in if critical_bytes > budget then (Inl (CriticalOverflow critical_bytes budget), store)
         else (case fold (pack_rest_one H budget) (by_value (filter (\<lambda>f. \<not> fr_critical f) fragments))
                      (fold (pack_fragment True) critical \<lparr>cp_packed = [], cp_handles = [], cp_used_bytes = 0\<rparr>, store) of
                 (p, store') \<Rightarrow> (Inr p, store')))"

section \<open>The planner\<close>

datatype retrieval_level = Level_Exact | Level_Hybrid | Level_Structural | Level_Engineering

record query_signals =
  qs_exact_hit :: bool
  qs_multi_term :: bool
  qs_structural :: bool
  qs_engineering :: bool
  qs_recall_insufficient :: bool

record retrieval_plan =
  pl_level :: retrieval_level
  pl_rationale :: string

definition em_dash :: string where "em_dash = [CHR 0xE2, CHR 0x80, CHR 0x94]"

definition plan_query :: "query_signals \<Rightarrow> retrieval_plan" where
  "plan_query s =
     (case (if qs_engineering s \<or> qs_recall_insufficient s
              then (Level_Engineering, ''architectural intent or insufficient exact recall '' @ em_dash @ '' engineering-level context required'')
            else if qs_structural s
              then (Level_Structural, ''query names a structural shape '' @ em_dash @ '' symbol/definition retrieval'')
            else if qs_multi_term s \<or> \<not> qs_exact_hit s
              then (Level_Hybrid, ''multiple terms or unconfirmed identifier '' @ em_dash @ '' hybrid exact+path search'')
            else (Level_Exact, ''verbatim identifier hit '' @ em_dash @ '' exact retrieval suffices'')) of
        (level, rationale) \<Rightarrow> \<lparr>pl_level = level, pl_rationale = rationale\<rparr>)"

record signature_stub =
  ss_path :: string
  ss_line_no :: nat
  ss_signature :: string
  ss_sha256 :: string
  ss_revision :: nat

datatype provision = Hydrated string string string | Stub signature_stub

record context_budget =
  cb_max_bytes :: nat
  cb_stub_bytes :: nat

definition stub_signature :: "string \<Rightarrow> string" where
  "stub_signature bytes =
     (case find (\<lambda>l. starts_with l ''fn '' \<or> starts_with l ''pub '' \<or> starts_with l ''struct '') (str_lines bytes) of
        Some l \<Rightarrow> l | None \<Rightarrow> [])"

fun plan_pack :: "context_budget \<Rightarrow> nat \<Rightarrow> ((string \<times> string \<times> nat) \<times> string) list \<Rightarrow> provision list" where
  "plan_pack B used [] = []"
| "plan_pack B used (((path, bytes, revision), digest) # cs) =
     (if used + length bytes \<le> cb_max_bytes B then Hydrated path digest bytes # plan_pack B (used + length bytes) cs
      else Stub \<lparr>ss_path = path, ss_line_no = 1, ss_signature = stub_signature bytes, ss_sha256 = digest, ss_revision = revision\<rparr>
             # plan_pack B (used + cb_stub_bytes B) cs)"

definition planner_pack :: "(string \<times> string \<times> nat) list \<Rightarrow> string list \<Rightarrow> context_budget \<Rightarrow> provision list" where
  "planner_pack ranked digests B = plan_pack B 0 (zip ranked digests)"

section \<open>Provenance and sources\<close>

record provenance =
  pv_source :: string
  pv_repo :: string
  pv_revision :: nat
  pv_sha256 :: string
  pv_retrieval_reason :: string

record envelope_fragment =
  ef_text :: string
  ef_ephemeral :: bool
  ef_provenance :: "provenance option"

datatype provenance_error = MissingProvenance nat | Incomplete nat string

definition incomplete_field :: "provenance \<Rightarrow> string option" where
  "incomplete_field p =
     (if str_trim (pv_source p) = [] then Some ''source''
      else if str_trim (pv_repo p) = [] then Some ''repo''
      else if pv_sha256 p = [] then Some ''sha256''
      else if str_trim (pv_retrieval_reason p) = [] then Some ''retrieval_reason''
      else None)"

fun validate_from :: "nat \<Rightarrow> envelope_fragment list \<Rightarrow> (provenance_error, unit) result" where
  "validate_from i [] = Inr ()"
| "validate_from i (f # fs) =
     (if ef_ephemeral f then validate_from (i + 1) fs
      else (case ef_provenance f of
          None \<Rightarrow> Inl (MissingProvenance i)
        | Some p \<Rightarrow> (case incomplete_field p of Some field \<Rightarrow> Inl (Incomplete i field) | None \<Rightarrow> validate_from (i + 1) fs)))"

definition validate_envelope :: "envelope_fragment list \<Rightarrow> (provenance_error, unit) result" where
  "validate_envelope fs = validate_from 0 fs"

datatype validity = Current | Stale nat nat

definition evaluate_validity :: "nat \<Rightarrow> nat \<Rightarrow> validity" where
  "evaluate_validity cached current = (if cached = current then Current else Stale cached current)"

fun validity_label :: "validity \<Rightarrow> string" where
  "validity_label Current = ''current''"
| "validity_label (Stale _ _) = ''stale''"

datatype context_source = ApprovedSkill | SystemPolicy | Workspace | EvolutionWiki | EvolutionTrace

definition allowed_in_normal_run :: "context_source \<Rightarrow> bool" where
  "allowed_in_normal_run s = (s \<notin> {EvolutionWiki, EvolutionTrace})"

fun audit_from :: "nat \<Rightarrow> (context_source \<times> string) list \<Rightarrow> (nat \<times> context_source, unit) result" where
  "audit_from i [] = Inr ()"
| "audit_from i ((source, txt) # fs) = (if allowed_in_normal_run source then audit_from (i + 1) fs else Inl (i, source))"

definition audit_normal_run :: "(context_source \<times> string) list \<Rightarrow> (nat \<times> context_source, unit) result" where
  "audit_normal_run fs = audit_from 0 fs"

section \<open>The recoverable transcript\<close>

record canonical_event =
  ce_seq :: nat
  ce_kind :: string
  ce_payload :: string

record transcript =
  tr_canonical :: "canonical_event list"
  tr_compactions :: "(nat \<times> string) list"

definition transcript_append :: "string \<Rightarrow> string \<Rightarrow> transcript \<Rightarrow> nat \<times> transcript" where
  "transcript_append kind payload t =
     (length (tr_canonical t), t\<lparr>tr_canonical := tr_canonical t @ [\<lparr>ce_seq = length (tr_canonical t), ce_kind = kind, ce_payload = payload\<rparr>]\<rparr>)"

definition transcript_compact :: "nat \<Rightarrow> string \<Rightarrow> transcript \<Rightarrow> transcript" where
  "transcript_compact through summary t = t\<lparr>tr_compactions := tr_compactions t @ [(through, summary)]\<rparr>"

text \<open>A sequence number of 64 bits in its eight bytes, the least significant first.\<close>

definition le_bytes :: "nat \<Rightarrow> string" where
  "le_bytes n = map (\<lambda>i. char_of (n div 256 ^ i mod 256)) [0..<8]"

definition canonical_digest :: "(string \<Rightarrow> string) \<Rightarrow> transcript \<Rightarrow> string" where
  "canonical_digest H t = H (concat (map (\<lambda>e. le_bytes (ce_seq e) @ ce_kind e @ ce_payload e) (tr_canonical t)))"

definition transcript_replay :: "canonical_event list \<Rightarrow> transcript" where
  "transcript_replay canonical = \<lparr>tr_canonical = canonical, tr_compactions = []\<rparr>"

text \<open>The number after the last boundary of 64 bits would wrap around or panic; \<open>None\<close> is that case.\<close>

definition visible_boundary :: "transcript \<Rightarrow> nat option" where
  "visible_boundary t =
     (if \<exists>c \<in> set (tr_compactions t). fst c + 1 \<ge> 2 ^ 64 then None
      else Some (if tr_compactions t = [] then 0 else fst (last (tr_compactions t)) + 1))"

definition visible :: "transcript \<Rightarrow> string list option" where
  "visible t =
     map_option (\<lambda>next_seq.
       map (\<lambda>(through, summary). ''[summary through seq '' @ show_nat through @ ''] '' @ summary) (tr_compactions t)
       @ map (\<lambda>e. ce_kind e @ '': '' @ ce_payload e) (filter (\<lambda>e. ce_seq e \<ge> next_seq) (tr_canonical t))) (visible_boundary t)"

section \<open>The cache ledger\<close>

record cache_event =
  cv_key :: string
  cv_hit :: bool
  cv_head :: nat

record cache_ledger =
  cl_seen :: "(string, nat) btree"
  cl_events :: "cache_event list"

definition cache_record :: "string \<Rightarrow> nat \<Rightarrow> cache_ledger \<Rightarrow> cache_ledger" where
  "cache_record key head l =
     (let hit = (case bt_get key (cl_seen l) of Some first_head \<Rightarrow> first_head \<le> head | None \<Rightarrow> False)
      in \<lparr>cl_seen = (if hit then cl_seen l else bt_insert key head (cl_seen l)),
          cl_events = cl_events l @ [\<lparr>cv_key = key, cv_hit = hit, cv_head = head\<rparr>]\<rparr>)"

record cache_report =
  rp_hits :: nat
  rp_misses :: nat
  rp_hit_rate_bps :: nat
  rp_invalidation_correct :: bool

definition invalidation_correct :: "cache_ledger \<Rightarrow> bool" where
  "invalidation_correct l =
     list_all (\<lambda>e. if cv_hit e then cv_head e \<ge> (case bt_get (cv_key e) (cl_seen l) of Some h \<Rightarrow> h | None \<Rightarrow> 0)
                   else (case bt_get (cv_key e) (cl_seen l) of None \<Rightarrow> True | Some h \<Rightarrow> h \<le> cv_head e)) (cl_events l)"

definition cache_report_of :: "cache_ledger \<Rightarrow> cache_report" where
  "cache_report_of l =
     (let hits = length (filter cv_hit (cl_events l))
      in \<lparr>rp_hits = hits, rp_misses = length (cl_events l) - hits,
          rp_hit_rate_bps = (if cl_events l = [] then 0 else hits * 10000 div length (cl_events l)),
          rp_invalidation_correct = invalidation_correct l\<rparr>)"

section \<open>The breakdown of a window\<close>

record window_slice =
  wl_source :: string
  wl_content :: string
  wl_reason :: string
  wl_fresh :: bool

definition total_bytes :: "window_slice list \<Rightarrow> nat" where
  "total_bytes ws = sum_list (map (\<lambda>s. length (wl_content s)) ws)"

fun add_source :: "string \<Rightarrow> nat \<Rightarrow> (string \<times> nat) list \<Rightarrow> (string \<times> nat) list" where
  "add_source src n [] = [(src, n)]"
| "add_source src n ((s, m) # out) = (if s = src then (s, m + n) # out else (s, m) # add_source src n out)"

definition composition :: "window_slice list \<Rightarrow> (string \<times> nat) list" where
  "composition ws = fold (\<lambda>s. add_source (wl_source s) (length (wl_content s))) ws []"

definition fresh_bps :: "window_slice list \<Rightarrow> nat" where
  "fresh_bps ws = (if total_bytes ws = 0 then 10000 else total_bytes (filter wl_fresh ws) * 10000 div total_bytes ws)"

definition verify_totals_match_envelope :: "window_slice list \<Rightarrow> nat \<Rightarrow> bool" where
  "verify_totals_match_envelope ws envelope_bytes = (total_bytes ws = envelope_bytes)"

section \<open>A pack loses nothing\<close>

text \<open>Every blob lies under its digest.\<close>

definition store_ok :: "(string \<Rightarrow> string) \<Rightarrow> compression_store \<Rightarrow> bool" where
  "store_ok H store \<longleftrightarrow> bt_sorted store \<and> (\<forall>(k, v) \<in> set store. H v = k)"

lemma store_ok_get: "store_ok H store \<Longrightarrow> bt_get k store = Some v \<Longrightarrow> H v = k"
  by (auto simp: store_ok_def bt_get_def dest: map_of_SomeD)

lemma store_ok_insert: "store_ok H store \<Longrightarrow> store_ok H (bt_insert (H t) t store)"
proof -
  assume "store_ok H store"
  then show ?thesis using set_bt_insert [of "H t" t store] by (auto simp: store_ok_def)
qed

definition accounted :: "context_pack \<Rightarrow> bool" where
  "accounted p \<longleftrightarrow> cp_used_bytes p = sum_list (map (\<lambda>f. length (pf_text f)) (cp_packed p))"

definition in_pack :: "'v fragment \<Rightarrow> bool \<Rightarrow> context_pack \<Rightarrow> bool" where
  "in_pack f c p \<longleftrightarrow> \<lparr>pf_path = fr_path f, pf_text = fr_text f, pf_critical = c\<rparr> \<in> set (cp_packed p)"

definition recoverable :: "(string \<Rightarrow> string) \<Rightarrow> 'v fragment \<Rightarrow> context_pack \<times> compression_store \<Rightarrow> bool" where
  "recoverable H f st \<longleftrightarrow> (\<exists>h \<in> set (cp_handles (fst st)). ch_path h = fr_path f \<and> ch_sha256 h = H (fr_text f) \<and> (\<exists>v. hydrate h (snd st) = Some v \<and> H v = H (fr_text f)))"

lemma critical_packed:
  "accounted p \<Longrightarrow> p' = fold (pack_fragment True) cs p \<Longrightarrow> accounted p' \<and> cp_used_bytes p' = cp_used_bytes p + sum_list (map (\<lambda>f. length (fr_text f)) cs)
     \<and> set (cp_packed p) \<subseteq> set (cp_packed p') \<and> (\<forall>f \<in> set cs. in_pack f True p') \<and> cp_handles p' = cp_handles p"
proof (induction cs arbitrary: p)
  case (Cons c cs)
  have "accounted (pack_fragment True c p)" "in_pack c True (pack_fragment True c p)" "set (cp_packed p) \<subseteq> set (cp_packed (pack_fragment True c p))"
    "cp_used_bytes (pack_fragment True c p) = cp_used_bytes p + length (fr_text c)" "cp_handles (pack_fragment True c p) = cp_handles p"
    using Cons.prems(1) by (auto simp: accounted_def pack_fragment_def in_pack_def)
  then show ?case using Cons.IH [of "pack_fragment True c p"] Cons.prems(2) by (auto simp: in_pack_def)
qed simp

lemma rest_step:
  assumes "accounted (fst st)" and "cp_used_bytes (fst st) \<le> budget" and "store_ok H (snd st)" and "st' = pack_rest_one H budget (f :: 'v fragment) st"
  shows "accounted (fst st') \<and> cp_used_bytes (fst st') \<le> budget \<and> store_ok H (snd st') \<and> set (cp_packed (fst st)) \<subseteq> set (cp_packed (fst st'))
    \<and> (in_pack f False (fst st') \<or> recoverable H f st') \<and> (\<forall>g :: 'v fragment. recoverable H g st \<longrightarrow> recoverable H g st')"
proof -
  obtain p store where st: "st = (p, store)" by (cases st)
  show ?thesis
  proof (cases "cp_used_bytes p + length (fr_text f) \<le> budget")
    case True
    then have "st' = (pack_fragment False f p, store)" using assms(4) st by (simp add: pack_rest_one_def)
    then show ?thesis using assms(1,3) st True by (auto simp: accounted_def pack_fragment_def in_pack_def recoverable_def)
  next
    case False
    let ?s = "bt_insert (H (fr_text f)) (fr_text f) store"
    obtain h where h: "st' = (p\<lparr>cp_handles := cp_handles p @ [h]\<rparr>, ?s)" "ch_path h = fr_path f" "ch_sha256 h = H (fr_text f)"
      using assms(4) st False by (simp add: pack_rest_one_def compress_def)
    have sorted: "bt_sorted store" using assms(3) st by (simp add: store_ok_def)
    have ok: "store_ok H ?s" using store_ok_insert assms(3) st by simp
    have "recoverable H f st'" using h sorted by (auto simp: recoverable_def hydrate_def)
    moreover have "recoverable H g st'" if "recoverable H g st" for g :: "'v fragment"
      using that h(1) st sorted by (fastforce simp: recoverable_def hydrate_def)
    ultimately show ?thesis using assms(1,2) st h(1) ok by (auto simp: accounted_def)
  qed
qed

lemma rest_packed:
  "accounted (fst st) \<Longrightarrow> cp_used_bytes (fst st) \<le> budget \<Longrightarrow> store_ok H (snd st) \<Longrightarrow> st' = fold (pack_rest_one H budget) (fs :: 'v fragment list) st \<Longrightarrow>
     accounted (fst st') \<and> cp_used_bytes (fst st') \<le> budget \<and> store_ok H (snd st') \<and> set (cp_packed (fst st)) \<subseteq> set (cp_packed (fst st'))
     \<and> (\<forall>f \<in> set fs. in_pack f False (fst st') \<or> recoverable H f st') \<and> (\<forall>g :: 'v fragment. recoverable H g st \<longrightarrow> recoverable H g st')"
proof (induction fs arbitrary: st)
  case (Cons f fs)
  let ?st = "pack_rest_one H budget f st"
  note step = rest_step [OF Cons.prems(1,2,3) refl, of f]
  have ih: "accounted (fst st') \<and> cp_used_bytes (fst st') \<le> budget \<and> store_ok H (snd st') \<and> set (cp_packed (fst ?st)) \<subseteq> set (cp_packed (fst st'))
     \<and> (\<forall>f \<in> set fs. in_pack f False (fst st') \<or> recoverable H f st') \<and> (\<forall>g :: 'v fragment. recoverable H g ?st \<longrightarrow> recoverable H g st')"
    using Cons.IH [of ?st] step Cons.prems(4) by simp
  then have "in_pack f False (fst st') \<or> recoverable H f st'" using step unfolding in_pack_def by blast
  then show ?case using ih step by auto
qed auto

text \<open>C32: a pack never exceeds its budget, has every critical fragment verbatim, and for every other fragment either the fragment or a
  handle from which the store gives back its text, up to a collision of digests; it is refused only when the critical fragments alone
  exceed the budget.\<close>
theorem pack_loses_nothing:
  assumes "store_ok H store"
  shows "case pack_with_budget H fragments budget store of
      (Inl e, store') \<Rightarrow> sum_list (map (\<lambda>f. length (fr_text f)) (filter fr_critical fragments)) > budget \<and> store' = store
    | (Inr p, store') \<Rightarrow> cp_used_bytes p = sum_list (map (\<lambda>f. length (pf_text f)) (cp_packed p)) \<and> cp_used_bytes p \<le> budget \<and>
        (\<forall>f \<in> set fragments. in_pack f (fr_critical f) p \<or> \<not> fr_critical f \<and> recoverable H f (p, store'))"
proof (cases "sum_list (map (\<lambda>f. length (fr_text f)) (filter fr_critical fragments)) > budget")
  case False
  let ?p0 = "\<lparr>cp_packed = [], cp_handles = [], cp_used_bytes = 0\<rparr>"
  let ?p1 = "fold (pack_fragment True) (filter fr_critical fragments) ?p0"
  obtain p store' where r: "(p, store') = fold (pack_rest_one H budget) (by_value (filter (\<lambda>f. \<not> fr_critical f) fragments)) (?p1, store)"
    by (metis surj_pair)
  have "accounted ?p0" by (simp add: accounted_def)
  note c = critical_packed [OF this refl, of "filter fr_critical fragments"]
  have u: "cp_used_bytes (fst (?p1, store)) \<le> budget" using c False by simp
  have a: "accounted (fst (?p1, store))" using c by simp
  note k = rest_packed [OF a u _ r]
  have s: "set (by_value (filter (\<lambda>f. \<not> fr_critical f) fragments)) = {f \<in> set fragments. \<not> fr_critical f}" by (simp add: by_value_def)
  have "in_pack f (fr_critical f) p \<or> \<not> fr_critical f \<and> recoverable H f (p, store')" if "f \<in> set fragments" for f
  proof (cases "fr_critical f")
    case True
    then have "in_pack f True ?p1" using c that by simp
    then show ?thesis using k assms True by (auto simp: in_pack_def)
  next
    case False
    then show ?thesis using k assms s that by auto
  qed
  moreover have "pack_with_budget H fragments budget store = (Inr p, store')"
    using False r [symmetric] by (simp add: pack_with_budget_def Let_def)
  ultimately show ?thesis using k assms by (simp add: accounted_def)
qed (simp add: pack_with_budget_def Let_def)

definition sample_fragments :: "nat fragment list" where
  "sample_fragments =
     [\<lparr>fr_path = ''a'', fr_text = ''xxxx'', fr_value = 1, fr_critical = False\<rparr>, \<lparr>fr_path = ''b'', fr_text = ''yy'', fr_value = 0, fr_critical = True\<rparr>]"

theorem pack_loses_nothing_witness:
  "(case pack_with_budget (\<lambda>s. s) sample_fragments 3 [] of (Inl _, _) \<Rightarrow> False | (Inr p, store') \<Rightarrow> cp_used_bytes p \<le> 3 \<and> hydrate (hd (cp_handles p)) store' = Some ''xxxx'')"
proof -
  have "store_ok (\<lambda>s. s) []" by (simp add: store_ok_def)
  note * = pack_loses_nothing [OF this, where fragments = sample_fragments and budget = 3]
  have "pack_with_budget (\<lambda>s. s) sample_fragments 3 [] =
      (Inr \<lparr>cp_packed = [\<lparr>pf_path = ''b'', pf_text = ''yy'', pf_critical = True\<rparr>],
            cp_handles = [\<lparr>ch_path = ''a'', ch_sha256 = ''xxxx'', ch_projection = ''[a: 1 lines, hydrate by digest]''\<rparr>], cp_used_bytes = 2\<rparr>, [(''xxxx'', ''xxxx'')])"
    by code_simp
  then show ?thesis using * by (simp add: hydrate_def bt_get_def)
qed

section \<open>The planner stays within its budget\<close>

definition hydrated_bytes_of :: "provision list \<Rightarrow> nat" where
  "hydrated_bytes_of ps = sum_list (map (\<lambda>p. case p of Hydrated _ _ b \<Rightarrow> length b | Stub _ \<Rightarrow> 0) ps)"

lemma hydrated_bytes_of_simps [simp]:
  "hydrated_bytes_of [] = 0" "hydrated_bytes_of (Hydrated p d b # ps) = length b + hydrated_bytes_of ps" "hydrated_bytes_of (Stub s # ps) = hydrated_bytes_of ps"
  by (simp_all add: hydrated_bytes_of_def)

lemma plan_pack_bytes: "used + hydrated_bytes_of (plan_pack B used cs) \<le> cb_max_bytes B \<or> hydrated_bytes_of (plan_pack B used cs) = 0"
  by (induction B used cs rule: plan_pack.induct) auto

text \<open>The bytes the planner hydrates never exceed its budget, and every candidate with a digest is provided, hydrated or as a
  stub, in the order of their rank.\<close>

lemma planner_pack_bounded:
  "hydrated_bytes_of (planner_pack ranked digests B) \<le> cb_max_bytes B \<and>
   map (\<lambda>p. case p of Hydrated path d _ \<Rightarrow> (path, d) | Stub s \<Rightarrow> (ss_path s, ss_sha256 s)) (planner_pack ranked digests B)
     = map (\<lambda>(c, d). (fst c, d)) (zip ranked digests)"
proof -
  have "map (\<lambda>p. case p of Hydrated path d _ \<Rightarrow> (path, d) | Stub s \<Rightarrow> (ss_path s, ss_sha256 s)) (plan_pack B used cs) = map (\<lambda>(c, d). (fst c, d)) cs" for used cs
    by (induction B used cs rule: plan_pack.induct) auto
  then show ?thesis using plan_pack_bytes [of 0 B "zip ranked digests"] by (auto simp: planner_pack_def)
qed

section \<open>Audits\<close>

text \<open>An envelope passes exactly when every fragment that is not ephemeral carries complete provenance.\<close>

lemma envelope_passes_exactly:
  "validate_envelope fs = Inr () \<longleftrightarrow> list_all (\<lambda>f. ef_ephemeral f \<or> (\<exists>p. ef_provenance f = Some p \<and> incomplete_field p = None)) fs"
proof -
  have "validate_from i fs = Inr () \<longleftrightarrow> list_all (\<lambda>f. ef_ephemeral f \<or> (\<exists>p. ef_provenance f = Some p \<and> incomplete_field p = None)) fs" for i
    by (induction i fs rule: validate_from.induct) (auto split: option.splits)
  then show ?thesis by (simp add: validate_envelope_def)
qed

text \<open>A prompt passes the audit exactly when nothing in it comes from the evolution store, and otherwise the first such fragment
  is named.\<close>

lemma audit_names_first_forbidden:
  "audit_normal_run fs = (case find (\<lambda>(i, f). \<not> allowed_in_normal_run (fst f)) (zip [0..<length fs] fs) of None \<Rightarrow> Inr () | Some (i, f) \<Rightarrow> Inl (i, fst f))"
proof -
  have "audit_from n fs = (case find (\<lambda>(i, f). \<not> allowed_in_normal_run (fst f)) (zip [n..<n + length fs] fs) of None \<Rightarrow> Inr () | Some (i, f) \<Rightarrow> Inl (i, fst f))" for n
  proof (induction n fs rule: audit_from.induct)
    case (2 i source body fs)
    have "zip [i..<i + length ((source, body) # fs)] ((source, body) # fs) = (i, source, body) # zip [i + 1..<i + 1 + length fs] fs" by (simp add: upt_rec)
    then show ?case using 2 by simp
  qed simp
  from this [of 0] show ?thesis by (simp add: audit_normal_run_def)
qed

section \<open>The transcript\<close>

datatype transcript_op = OpAppend string string | OpCompact nat string

fun transcript_run :: "transcript_op list \<Rightarrow> transcript \<Rightarrow> transcript" where
  "transcript_run [] t = t"
| "transcript_run (OpAppend k p # ops) t = transcript_run ops (snd (transcript_append k p t))"
| "transcript_run (OpCompact n s # ops) t = transcript_run ops (transcript_compact n s t)"

fun appends :: "transcript_op list \<Rightarrow> (string \<times> string) list" where
  "appends [] = []"
| "appends (OpAppend k p # ops) = (k, p) # appends ops"
| "appends (OpCompact n s # ops) = appends ops"

text \<open>Whatever was compacted in between, the canonical log is exactly what was appended, numbered from zero, and a restart from it
  has the same digest.\<close>

lemma compaction_keeps_log:
  "map (\<lambda>e. (ce_kind e, ce_payload e)) (tr_canonical (transcript_run ops (transcript_replay []))) = appends ops \<and>
   map ce_seq (tr_canonical (transcript_run ops (transcript_replay []))) = [0..<length (appends ops)] \<and>
   canonical_digest H (transcript_replay (tr_canonical (transcript_run ops (transcript_replay [])))) = canonical_digest H (transcript_run ops (transcript_replay []))"
proof -
  have "map (\<lambda>e. (ce_kind e, ce_payload e)) (tr_canonical (transcript_run ops t)) = map (\<lambda>e. (ce_kind e, ce_payload e)) (tr_canonical t) @ appends ops"
    "map ce_seq (tr_canonical t) = [0..<length (tr_canonical t)] \<Longrightarrow>
     map ce_seq (tr_canonical (transcript_run ops t)) = [0..<length (tr_canonical t) + length (appends ops)]" for t
    by (induction ops t rule: transcript_run.induct) (auto simp: transcript_append_def transcript_compact_def)
  from this(1) [of "transcript_replay []"] this(2) [of "transcript_replay []"] show ?thesis
    by (simp add: transcript_replay_def canonical_digest_def)
qed

text \<open>The digest of the log does not determine it: kind and payload are hashed without a separator.\<close>

lemma digest_confuses_events:
  "canonical_digest H (transcript_replay [\<lparr>ce_seq = n, ce_kind = a @ b, ce_payload = c\<rparr>]) =
   canonical_digest H (transcript_replay [\<lparr>ce_seq = n, ce_kind = a, ce_payload = b @ c\<rparr>])"
  by (simp add: canonical_digest_def transcript_replay_def)

text \<open>The view shows again what was summarised already when a later compaction reaches less far: only the last boundary counts.\<close>

lemma shorter_compaction_reveals:
  assumes "n < m" and "m + 1 < 2 ^ 64" and "e \<in> set (tr_canonical t)" and "n < ce_seq e" and "ce_seq e \<le> m" and "tr_compactions t = []"
  shows "\<exists>view. visible (transcript_compact n s2 (transcript_compact m s1 t)) = Some view \<and> ce_kind e @ '': '' @ ce_payload e \<in> set view"
  using assms by (auto simp: visible_def visible_boundary_def transcript_compact_def)

lemma shorter_compaction_reveals_witness:
  "\<exists>view. visible (transcript_compact 0 ''b'' (transcript_compact 1 ''a'' (transcript_replay [\<lparr>ce_seq = 1, ce_kind = ''k'', ce_payload = ''p''\<rparr>]))) = Some view
     \<and> ''k'' @ '': '' @ ''p'' \<in> set view"
  using shorter_compaction_reveals [of 0 1 "\<lparr>ce_seq = 1, ce_kind = ''k'', ce_payload = ''p''\<rparr>" "transcript_replay [\<lparr>ce_seq = 1, ce_kind = ''k'', ce_payload = ''p''\<rparr>]" "''b''" "''a''"]
  by (simp add: transcript_replay_def)

section \<open>The ledger and the window\<close>

text \<open>The flag that every compaction invalidated the cache key is true of every ledger that dispatches were recorded in, so it
  never tells a wrong hit.\<close>

lemma invalidation_flag_always_true:
  "rp_invalidation_correct (cache_report_of (fold (\<lambda>(k, h). cache_record k h) ds \<lparr>cl_seen = [], cl_events = []\<rparr>))"
proof -
  define ok where "ok l \<longleftrightarrow> bt_sorted (cl_seen l) \<and> (\<forall>e \<in> set (cl_events l). \<exists>h. bt_get (cv_key e) (cl_seen l) = Some h \<and> h \<le> cv_head e)" for l :: cache_ledger
  have step: "ok (cache_record k h l)" if "ok l" for k h l
    using that by (fastforce simp: ok_def cache_record_def Let_def split: option.splits)
  have "ok l \<Longrightarrow> ok (fold (\<lambda>(k, h). cache_record k h) ds l)" for l
    by (induction ds arbitrary: l) (auto simp: step)
  moreover have "ok \<lparr>cl_seen = [], cl_events = []\<rparr>" by (simp add: ok_def)
  ultimately have "ok (fold (\<lambda>(k, h). cache_record k h) ds \<lparr>cl_seen = [], cl_events = []\<rparr>)" by blast
  moreover have "invalidation_correct l" if "ok l" for l
    using that by (fastforce simp: ok_def invalidation_correct_def list_all_iff)
  ultimately show ?thesis by (simp add: cache_report_of_def Let_def)
qed

lemma add_source_sum: "sum_list (map snd (add_source s n out)) = sum_list (map snd out) + n"
  by (induction s n out rule: add_source.induct) auto

lemma add_source_names: "fst ` set (add_source s n out) = insert s (fst ` set out)"
  by (induction s n out rule: add_source.induct) auto

lemma add_source_distinct: "distinct (map fst out) \<Longrightarrow> distinct (map fst (add_source s n out))"
proof (induction s n out rule: add_source.induct)
  case (2 src n s m out)
  then show ?case using add_source_names [of src n out] by auto
qed simp

text \<open>The composition of a window names each source once and accounts for every byte, and the fresh share is at most the whole.\<close>

lemma composition_accounts_for_every_byte:
  "sum_list (map snd (composition ws)) = total_bytes ws \<and> distinct (map fst (composition ws)) \<and> fst ` set (composition ws) = wl_source ` set ws \<and> fresh_bps ws \<le> 10000"
proof -
  have "sum_list (map snd (fold (\<lambda>s. add_source (wl_source s) (length (wl_content s))) ws out)) = sum_list (map snd out) + total_bytes ws
      \<and> (distinct (map fst out) \<longrightarrow> distinct (map fst (fold (\<lambda>s. add_source (wl_source s) (length (wl_content s))) ws out)))
      \<and> fst ` set (fold (\<lambda>s. add_source (wl_source s) (length (wl_content s))) ws out) = fst ` set out \<union> wl_source ` set ws" for out
    by (induction ws arbitrary: out) (auto simp: total_bytes_def add_source_sum add_source_names add_source_distinct)
  note c = this [of "[]"]
  have "total_bytes (filter P ws) \<le> total_bytes ws" for P by (induction ws) (auto simp: total_bytes_def)
  then have "total_bytes (filter wl_fresh ws) * 10000 div total_bytes ws \<le> 10000"
    by (metis div_le_mono div_mult_self_is_m div_by_0 le0 mult.commute mult_le_mono1 neq0_conv)
  then show ?thesis using c by (simp add: composition_def fresh_bps_def)
qed

end
