(* ===== verification/Verification_Gates.thy ===== *)
theory Verification_Gates
  imports Rust_Text
begin

text \<open>
  Verification gates and evidence, \<^verbatim>\<open>crates/verification\<close>: a plan of processes run with timeouts, the optional verifier behind a
  gate, the comparison of diagnostics before and after an edit, and the index of evidence by tenant. What the machine does
  with a process is a parameter: whether it starts, and at each poll the time elapsed and what waiting reports. Polling is
  a loop that need not end and is a partial function; it is proved to end when time advances.
\<close>

section \<open>Gates\<close>

record verification_gate =
  gt_name :: string
  gt_argv :: "string list"
  gt_cwd :: "string option"
  gt_timeout_ms :: nat

definition gate_new :: "string \<Rightarrow> string list \<Rightarrow> nat \<Rightarrow> verification_gate" where
  "gate_new name argv timeout_secs = \<lparr>gt_name = name, gt_argv = argv, gt_cwd = None, gt_timeout_ms = timeout_secs * 1000\<rparr>"

definition with_cwd :: "string \<Rightarrow> verification_gate \<Rightarrow> verification_gate" where
  "with_cwd cwd g = g\<lparr>gt_cwd := Some cwd\<rparr>"

record gate_result =
  gr_name :: string
  gr_passed :: bool
  gr_exit_code :: "int option"
  gr_timed_out :: bool
  gr_duration_ms :: nat

record verification_report =
  vr_passed :: bool
  vr_gates :: "gate_result list"

datatype verification_error = VerifyIo string | EmptyArgv

text \<open>The life of one process: the start, the time elapsed when it is polled for the \<open>n\<close>-th time, what \<open>try_wait\<close> then gives (a
  status, whose code is missing after a signal, or nothing yet), and the time recorded at the end.\<close>

record process_life =
  lf_spawn :: "(string, unit) result"
  lf_elapsed :: "nat \<Rightarrow> nat"
  lf_try_wait :: "nat \<Rightarrow> (string, int option option) result"
  lf_duration :: nat

partial_function (option) await_exit :: "process_life \<Rightarrow> nat \<Rightarrow> nat \<Rightarrow> (string, bool \<times> int option) result option" where
  "await_exit L timeout n =
     (if lf_elapsed L n \<ge> timeout then Some (Inr (True, None))
      else (case lf_try_wait L n of
          Inl e \<Rightarrow> Some (Inl e)
        | Inr (Some code) \<Rightarrow> Some (Inr (False, code))
        | Inr None \<Rightarrow> await_exit L timeout (n + 1)))"

definition run_gate :: "verification_gate \<Rightarrow> process_life \<Rightarrow> (verification_error, gate_result) result option" where
  "run_gate g L =
     (if gt_argv g = [] then Some (Inl EmptyArgv)
      else (case lf_spawn L of
          Inl e \<Rightarrow> Some (Inl (VerifyIo e))
        | Inr _ \<Rightarrow>
            map_option (\<lambda>r. case r of
                Inl e \<Rightarrow> Inl (VerifyIo e)
              | Inr (timed_out, exit_code) \<Rightarrow>
                  Inr \<lparr>gr_name = gt_name g, gr_passed = (\<not> timed_out \<and> exit_code = Some 0), gr_exit_code = exit_code,
                       gr_timed_out = timed_out, gr_duration_ms = lf_duration L\<rparr>)
              (await_exit L (gt_timeout_ms g) 0)))"

fun run_gates :: "(verification_gate \<times> process_life) list \<Rightarrow> gate_result list \<Rightarrow> (verification_error, gate_result list) result option" where
  "run_gates [] results = Some (Inr results)"
| "run_gates ((g, L) # gs) results =
     Option.bind (run_gate g L) (\<lambda>r. case r of
         Inl e \<Rightarrow> Some (Inl e)
       | Inr res \<Rightarrow> if gr_passed res then run_gates gs (results @ [res]) else Some (Inr (results @ [res])))"

definition run_plan :: "(verification_gate \<times> process_life) list \<Rightarrow> (verification_error, verification_report) result option" where
  "run_plan gs =
     map_option (\<lambda>r. and_then r (\<lambda>results. Inr \<lparr>vr_passed = (results \<noteq> [] \<and> list_all gr_passed results), vr_gates = results\<rparr>))
       (run_gates gs [])"

section \<open>The optional verifier\<close>

record adaptive_config =
  ac_enabled :: bool
  ac_required_gate :: string
  ac_model :: string

definition adaptive_default :: adaptive_config where
  "adaptive_default = \<lparr>ac_enabled = False, ac_required_gate = ''build'', ac_model = []\<rparr>"

record semantic_verdict =
  sv_model :: string
  sv_agrees :: bool
  sv_note :: string

datatype adaptive_error = GateFailed string | VerifierDisabled

datatype adaptive_outcome = SkippedZeroCalls | Consulted semantic_verdict

text \<open>The second component is the number of calls of the verifier.\<close>

definition run_adaptive_verification ::
  "adaptive_config \<Rightarrow> verification_report \<Rightarrow> (verification_report \<Rightarrow> (string, semantic_verdict) result) \<Rightarrow> (adaptive_error, adaptive_outcome) result \<times> nat" where
  "run_adaptive_verification c report verifier_call =
     (let gate_ok = (case find (\<lambda>g. gr_name g = ac_required_gate c) (vr_gates report) of Some g \<Rightarrow> gr_passed g | None \<Rightarrow> False)
      in if \<not> gate_ok then (Inl (GateFailed (ac_required_gate c)), 0)
         else if \<not> ac_enabled c then (Inr SkippedZeroCalls, 0)
         else (and_then (map_err (\<lambda>_. VerifierDisabled) (verifier_call report)) (\<lambda>v. Inr (Consulted v)), 1))"

section \<open>Diagnostics\<close>

record diagnostic =
  dg_file :: string
  dg_line :: nat
  dg_column :: nat
  dg_severity :: string
  dg_message :: string
  dg_code :: "string option"

definition diag_key :: "diagnostic \<Rightarrow> string" where
  "diag_key d = dg_file d @ '':'' @ show_nat (dg_line d) @ '':'' @ show_nat (dg_column d) @ '':'' @ dg_severity d @ '':'' @ dg_message d"

record diagnostic_diff =
  dd_regressions :: "diagnostic list"
  dd_resolved :: "diagnostic list"
  dd_preexisting :: "diagnostic list"

definition compare_diagnostics :: "diagnostic list \<Rightarrow> diagnostic list \<Rightarrow> diagnostic_diff" where
  "compare_diagnostics pre post =
     (let pre_keys = diag_key ` set pre; post_keys = diag_key ` set post
      in \<lparr>dd_regressions = filter (\<lambda>d. diag_key d \<notin> pre_keys) post,
          dd_resolved = filter (\<lambda>d. diag_key d \<notin> post_keys) pre,
          dd_preexisting = filter (\<lambda>d. diag_key d \<in> pre_keys) post\<rparr>)"

section \<open>The index of evidence\<close>

datatype evidence_kind = EvMessage | EvToolCall | EvCommand | EvFileTouch | EvError | EvCheckpoint

fun evidence_kind_str :: "evidence_kind \<Rightarrow> string" where
  "evidence_kind_str EvMessage = ''message''"
| "evidence_kind_str EvToolCall = ''tool_call''"
| "evidence_kind_str EvCommand = ''command''"
| "evidence_kind_str EvFileTouch = ''file_touch''"
| "evidence_kind_str EvError = ''error''"
| "evidence_kind_str EvCheckpoint = ''checkpoint''"

record evidence_item =
  ev_tenant :: string
  ev_run :: string
  ev_step :: string
  ev_kind :: evidence_kind
  ev_summary :: string
  ev_detail :: string
  ev_ts :: int

datatype evidence_error = TenantMismatch string string

definition evidence_index_add :: "evidence_item \<Rightarrow> evidence_item list \<Rightarrow> evidence_item list" where
  "evidence_index_add i items = items @ [i]"

definition evidence_search :: "string \<Rightarrow> string \<Rightarrow> evidence_item list \<Rightarrow> evidence_item list" where
  "evidence_search tenant query items =
     (let q = to_lowercase query
      in filter (\<lambda>i. str_contains (to_lowercase (ev_summary i)) q \<or> str_contains (to_lowercase (ev_detail i)) q
             \<or> str_contains (to_lowercase (ev_run i)) q \<or> str_contains (to_lowercase (ev_step i)) q \<or> str_contains (evidence_kind_str (ev_kind i)) q)
           (filter (\<lambda>i. ev_tenant i = tenant) items))"

definition search_by_run :: "string \<Rightarrow> string \<Rightarrow> evidence_item list \<Rightarrow> evidence_item list" where
  "search_by_run tenant run items = filter (\<lambda>i. ev_tenant i = tenant \<and> ev_run i = run) items"

text \<open>The owner of a run is the tenant of its first item.\<close>

definition tenant_check :: "string \<Rightarrow> string \<Rightarrow> evidence_item list \<Rightarrow> (evidence_error, unit) result" where
  "tenant_check tenant run items =
     (case find (\<lambda>i. ev_run i = run) items of
        Some i \<Rightarrow> if ev_tenant i \<noteq> tenant then Inl (TenantMismatch tenant (ev_tenant i)) else Inr ()
      | None \<Rightarrow> Inr ())"

definition search_by_step :: "string \<Rightarrow> string \<Rightarrow> string \<Rightarrow> evidence_item list \<Rightarrow> (evidence_error, evidence_item list) result" where
  "search_by_step tenant run step items =
     and_then (tenant_check tenant run items) (\<lambda>_. Inr (filter (\<lambda>i. ev_tenant i = tenant \<and> ev_run i = run \<and> ev_step i = step) items))"

definition detail_of :: "string \<Rightarrow> string \<Rightarrow> string \<Rightarrow> evidence_kind \<Rightarrow> evidence_item list \<Rightarrow> (evidence_error, evidence_item option) result" where
  "detail_of tenant run step kind items =
     and_then (tenant_check tenant run items) (\<lambda>_. Inr (find (\<lambda>i. ev_tenant i = tenant \<and> ev_run i = run \<and> ev_step i = step \<and> ev_kind i = kind) items))"

section \<open>What a report means\<close>

text \<open>Time advances by at least the 50 milliseconds of each sleep between two polls.\<close>

definition clock_advances :: "process_life \<Rightarrow> bool" where
  "clock_advances L \<longleftrightarrow> (\<forall>n. lf_elapsed L n \<ge> 50 * n)"

lemma await_ends:
  assumes "clock_advances L"
  shows "\<exists>r. await_exit L timeout n = Some r"
proof (induction "timeout - 50 * n" arbitrary: n rule: less_induct)
  case less
  show ?case
  proof (cases "lf_elapsed L n \<ge> timeout")
    case False
    then have "50 * n < timeout" using assms unfolding clock_advances_def by (meson le_less_trans not_le)
    then have "\<exists>r. await_exit L timeout (n + 1) = Some r" by (intro less) simp
    then show ?thesis by (subst await_exit.simps) (auto split: sum.split option.split)
  qed (subst await_exit.simps, simp)
qed

text \<open>What the machine reports of a process that ends with an exit code before its time is up, without a word about the loop that
  watches it: some poll finds the code, this poll and all before it come before the timeout, and those before find the process
  still running.\<close>

definition exits_in_time :: "process_life \<Rightarrow> nat \<Rightarrow> int \<Rightarrow> bool" where
  "exits_in_time L timeout code \<longleftrightarrow>
     (\<exists>n. lf_elapsed L n < timeout \<and> lf_try_wait L n = Inr (Some (Some code)) \<and>
          (\<forall>m < n. lf_elapsed L m < timeout \<and> lf_try_wait L m = Inr None))"

definition gate_green :: "verification_gate \<times> process_life \<Rightarrow> bool" where
  "gate_green gl \<longleftrightarrow>
     gt_argv (fst gl) \<noteq> [] \<and> lf_spawn (snd gl) = Inr () \<and> exits_in_time (snd gl) (gt_timeout_ms (fst gl)) 0"

lemma await_exit_finds:
  assumes "lf_elapsed L (k + i) < timeout" and "lf_try_wait L (k + i) = Inr (Some (Some code))"
    and "\<forall>m < i. lf_elapsed L (k + m) < timeout \<and> lf_try_wait L (k + m) = Inr None"
  shows "await_exit L timeout k = Some (Inr (False, Some code))"
  using assms
proof (induction i arbitrary: k)
  case 0
  then show ?case by (subst await_exit.simps) simp
next
  case (Suc i)
  have "await_exit L timeout (k + 1) = Some (Inr (False, Some code))" using Suc.prems by (intro Suc.IH) auto
  moreover have "lf_elapsed L k < timeout" "lf_try_wait L k = Inr None" using Suc.prems(3) [rule_format, of 0] by simp_all
  ultimately show ?case by (subst await_exit.simps) simp
qed

lemma await_exit_found:
  assumes "await_exit L timeout k = Some (Inr (False, Some code))"
  shows "\<exists>i. lf_elapsed L (k + i) < timeout \<and> lf_try_wait L (k + i) = Inr (Some (Some code)) \<and>
             (\<forall>m < i. lf_elapsed L (k + m) < timeout \<and> lf_try_wait L (k + m) = Inr None)"
proof -
  have "r = Inr (False, Some code) \<longrightarrow>
      (\<exists>i. lf_elapsed L (k + i) < timeout \<and> lf_try_wait L (k + i) = Inr (Some (Some code)) \<and>
           (\<forall>m < i. lf_elapsed L (k + m) < timeout \<and> lf_try_wait L (k + m) = Inr None))"
    if "await_exit L timeout k = Some r" for r
    using that
  proof (induction L timeout k r rule: await_exit.raw_induct [rotated, consumes 1, case_names step])
    case (step rec L timeout k r)
    show ?case
    proof (intro impI)
      assume r: "r = Inr (False, Some code)"
      have t: "lf_elapsed L k < timeout" using step(2) r by (auto split: if_splits)
      consider "lf_try_wait L k = Inr (Some (Some code))"
        | "lf_try_wait L k = Inr None" "rec L timeout (k + 1) = Some r"
        using step(2) r t by (auto split: sum.splits option.splits)
      then show "\<exists>i. lf_elapsed L (k + i) < timeout \<and> lf_try_wait L (k + i) = Inr (Some (Some code)) \<and>
          (\<forall>m < i. lf_elapsed L (k + m) < timeout \<and> lf_try_wait L (k + m) = Inr None)"
      proof cases
        case 1
        with t show ?thesis by (intro exI [of _ 0]) simp
      next
        case 2
        from step(1) [OF 2(2)] r obtain i where i: "lf_elapsed L (k + 1 + i) < timeout"
          "lf_try_wait L (k + 1 + i) = Inr (Some (Some code))"
          "\<forall>m < i. lf_elapsed L (k + 1 + m) < timeout \<and> lf_try_wait L (k + 1 + m) = Inr None" by blast
        show ?thesis
          using i 2 t by (intro exI [of _ "Suc i"]) (auto simp: less_Suc_eq_0_disj)
      qed
    qed
  qed
  with assms show ?thesis by blast
qed

lemma await_exit_iff: "await_exit L timeout 0 = Some (Inr (False, Some code)) \<longleftrightarrow> exits_in_time L timeout code"
  using await_exit_finds [of L 0 _ timeout code] await_exit_found [of L timeout 0 code]
  by (auto simp: exits_in_time_def)

lemma run_gate_passed:
  "(\<exists>res. run_gate g L = Some (Inr res) \<and> gr_passed res) \<longleftrightarrow> gate_green (g, L)"
proof (cases "gt_argv g = [] \<or> (\<exists>e. lf_spawn L = Inl e)")
  case True
  then show ?thesis by (auto simp: run_gate_def gate_green_def)
next
  case False
  then have g: "gt_argv g \<noteq> []" "lf_spawn L = Inr ()" by simp (use False in \<open>cases "lf_spawn L"; simp\<close>)
  then have "gate_green (g, L) \<longleftrightarrow> await_exit L (gt_timeout_ms g) 0 = Some (Inr (False, Some 0))"
    by (simp add: gate_green_def await_exit_iff)
  moreover have "(\<exists>res. run_gate g L = Some (Inr res) \<and> gr_passed res) \<longleftrightarrow>
      await_exit L (gt_timeout_ms g) 0 = Some (Inr (False, Some 0))"
  proof (cases "await_exit L (gt_timeout_ms g) 0")
    case None
    with g show ?thesis by (simp add: run_gate_def)
  next
    case (Some r)
    show ?thesis
    proof (cases r)
      case (Inl e)
      with Some g show ?thesis by (simp add: run_gate_def)
    next
      case (Inr lc)
      obtain late code where "lc = (late, code)" by (cases lc)
      with Some Inr g show ?thesis by (simp add: run_gate_def)
    qed
  qed
  ultimately show ?thesis by simp
qed

lemma run_gates_passed:
  assumes "list_all gr_passed results"
  shows "(\<exists>out. run_gates gs results = Some (Inr out) \<and> list_all gr_passed out) \<longleftrightarrow> list_all gate_green gs"
  using assms
proof (induction gs results rule: run_gates.induct)
  case (2 g L gs results)
  show ?case
  proof (cases "gate_green (g, L)")
    case True
    then obtain res where res: "run_gate g L = Some (Inr res)" "gr_passed res" using run_gate_passed by blast
    then show ?thesis using "2.IH" [OF res(1) refl res(2)] "2.prems" True by simp
  next
    case False
    then have "\<not> gr_passed res" if "run_gate g L = Some (Inr res)" for res using that run_gate_passed by blast
    with False "2.prems" show ?thesis by (cases "run_gate g L") (auto split: sum.splits)
  qed
qed simp

lemma run_gates_empty: "run_gates gs results = Some (Inr []) \<longleftrightarrow> gs = [] \<and> results = []"
  by (induction gs results rule: run_gates.induct) (auto split: sum.splits if_splits simp: bind_eq_Some_conv)

text \<open>As long as time advances, a plan returns whatever its processes do.\<close>

lemma plan_returns:
  assumes "\<forall>(g, L) \<in> set gs. clock_advances L"
  shows "\<exists>r. run_plan gs = Some r"
proof -
  have "\<forall>(g, L) \<in> set gs. clock_advances L \<Longrightarrow> \<exists>r. run_gates gs results = Some r" for results
  proof (induction gs results rule: run_gates.induct)
    case (2 g L gs results)
    obtain a where "await_exit L (gt_timeout_ms g) 0 = Some a" using await_ends [of L "gt_timeout_ms g" 0] "2.prems" by auto
    then have "\<exists>r. run_gate g L = Some r" by (cases "lf_spawn L") (simp_all add: run_gate_def)
    then obtain r where r: "run_gate g L = Some r" ..
    show ?case
    proof (cases r)
      case (Inr res)
      then show ?thesis using r "2.IH" [OF r Inr] "2.prems" by auto
    qed (use r in simp)
  qed simp
  then show ?thesis using assms by (auto simp: run_plan_def)
qed

lemma plan_returns_witness:
  "\<exists>r. run_plan [(gate_new ''t'' [''sleep''] 1, \<lparr>lf_spawn = Inr (), lf_elapsed = (\<lambda>n. 50 * n), lf_try_wait = (\<lambda>_. Inr None), lf_duration = 0\<rparr>)] = Some r"
  by (rule plan_returns) (simp add: clock_advances_def)

text \<open>C33: a plan passes exactly when it has a gate and every gate of it has a command, was started, and was found to have exited with
  code zero by a poll that comes before the gate's timeout; and when the time between two polls advances, the plan always
  returns, with a report or an error, whatever its processes do.\<close>
theorem plan_passes_exactly:
  "((\<exists>report. run_plan gs = Some (Inr report) \<and> vr_passed report) \<longleftrightarrow> gs \<noteq> [] \<and> list_all gate_green gs) \<and>
   (list_all (\<lambda>gl. clock_advances (snd gl)) gs \<longrightarrow> (\<exists>r. run_plan gs = Some r))"
proof (intro conjI impI)
  have "(\<exists>report. run_plan gs = Some (Inr report) \<and> vr_passed report) \<longleftrightarrow>
      (\<exists>out. run_gates gs [] = Some (Inr out) \<and> out \<noteq> [] \<and> list_all gr_passed out)"
    by (auto simp: run_plan_def and_then_Inr_iff)
  also have "\<dots> \<longleftrightarrow> gs \<noteq> [] \<and> list_all gate_green gs"
    using run_gates_passed [of "[]" gs] run_gates_empty [of gs "[]"] by auto
  finally show "(\<exists>report. run_plan gs = Some (Inr report) \<and> vr_passed report) \<longleftrightarrow> gs \<noteq> [] \<and> list_all gate_green gs" .
next
  assume "list_all (\<lambda>gl. clock_advances (snd gl)) gs"
  then show "\<exists>r. run_plan gs = Some r" by (intro plan_returns) (auto simp: list_all_iff)
qed

definition quick_exit :: "int \<Rightarrow> process_life" where
  "quick_exit code = \<lparr>lf_spawn = Inr (), lf_elapsed = (\<lambda>n. 50 * n), lf_try_wait = (\<lambda>_. Inr (Some (Some code))), lf_duration = 1\<rparr>"

definition never_exits :: process_life where
  "never_exits = \<lparr>lf_spawn = Inr (), lf_elapsed = (\<lambda>n. 50 * n), lf_try_wait = (\<lambda>_. Inr None), lf_duration = 1000\<rparr>"

theorem plan_passes_exactly_witness:
  "(\<exists>report. run_plan [(gate_new ''build'' [''make''] 1, quick_exit 0)] = Some (Inr report) \<and> vr_passed report) \<and>
   (\<exists>r. run_plan [(gate_new ''t'' [''sleep''] 1, never_exits)] = Some r \<and> (\<forall>report. r = Inr report \<longrightarrow> \<not> vr_passed report))"
proof
  have "gate_green (gate_new ''build'' [''make''] 1, quick_exit 0)"
    by (auto simp: gate_green_def gate_new_def quick_exit_def exits_in_time_def intro!: exI [of _ 0])
  then show "\<exists>report. run_plan [(gate_new ''build'' [''make''] 1, quick_exit 0)] = Some (Inr report) \<and> vr_passed report"
    using plan_passes_exactly [of "[(gate_new ''build'' [''make''] 1, quick_exit 0)]"] by simp
  have "\<not> gate_green (gate_new ''t'' [''sleep''] 1, never_exits)" "clock_advances never_exits"
    by (auto simp: gate_green_def never_exits_def exits_in_time_def clock_advances_def)
  then show "\<exists>r. run_plan [(gate_new ''t'' [''sleep''] 1, never_exits)] = Some r \<and> (\<forall>report. r = Inr report \<longrightarrow> \<not> vr_passed report)"
    using plan_passes_exactly [of "[(gate_new ''t'' [''sleep''] 1, never_exits)]"] by auto
qed

text \<open>The verifier is called at most once, and only when it is enabled and the required gate is among the results as passed.\<close>

lemma verifier_called_only_behind_gate:
  assumes "snd (run_adaptive_verification c report call) \<noteq> 0"
  shows "snd (run_adaptive_verification c report call) = 1 \<and> ac_enabled c \<and> (\<exists>g \<in> set (vr_gates report). gr_name g = ac_required_gate c \<and> gr_passed g)"
  using assms by (auto simp: run_adaptive_verification_def Let_def find_Some_iff split: if_splits option.splits)

lemma verifier_called_only_behind_gate_witness:
  "snd (run_adaptive_verification \<lparr>ac_enabled = True, ac_required_gate = ''b'', ac_model = []\<rparr>
      \<lparr>vr_passed = True, vr_gates = [\<lparr>gr_name = ''b'', gr_passed = True, gr_exit_code = Some 0, gr_timed_out = False, gr_duration_ms = 0\<rparr>]\<rparr> (\<lambda>_. Inl [])) = 1"
proof -
  have "snd (run_adaptive_verification \<lparr>ac_enabled = True, ac_required_gate = ''b'', ac_model = []\<rparr>
      \<lparr>vr_passed = True, vr_gates = [\<lparr>gr_name = ''b'', gr_passed = True, gr_exit_code = Some 0, gr_timed_out = False, gr_duration_ms = 0\<rparr>]\<rparr> (\<lambda>_. Inl [])) \<noteq> 0"
    by (simp add: run_adaptive_verification_def)
  then show ?thesis using verifier_called_only_behind_gate by blast
qed

section \<open>Blame and isolation\<close>

lemma shifted_key: "diag_key (d\<lparr>dg_line := m\<rparr>) = diag_key d \<longleftrightarrow> m = dg_line d"
proof
  assume "diag_key (d\<lparr>dg_line := m\<rparr>) = diag_key d"
  then have e: "show_nat m @ CHR '':'' # r = show_nat (dg_line d) @ CHR '':'' # r"
    if "r = show_nat (dg_column d) @ '':'' @ dg_severity d @ '':'' @ dg_message d" for r using that by (simp add: diag_key_def)
  have digits: "takeWhile is_digit (show_nat n @ CHR '':'' # r) = show_nat n" for n r
  proof -
    have "\<not> is_digit CHR '':''" by (simp add: is_digit_def)
    then show ?thesis using show_nat_digits [of _ n] by (simp add: takeWhile_append2)
  qed
  show "m = dg_line d" using e [OF refl] digits by (metis show_nat_inject)
qed simp

text \<open>Every diagnostic after an edit is either a regression or was there before, in order, and what is called resolved was there before
  and is gone; but a diagnostic that the edit only moved to another line counts as a regression.\<close>

lemma diagnostics_are_attributed:
  "dd_regressions (compare_diagnostics pre post) = filter (\<lambda>d. \<not> (\<exists>p \<in> set pre. diag_key p = diag_key d)) post \<and>
   set (dd_regressions (compare_diagnostics pre post)) \<union> set (dd_preexisting (compare_diagnostics pre post)) = set post \<and>
   set (dd_resolved (compare_diagnostics pre post)) = {p \<in> set pre. diag_key p \<notin> diag_key ` set post} \<and>
   (m \<noteq> dg_line d \<longrightarrow> dd_regressions (compare_diagnostics [d] [d\<lparr>dg_line := m\<rparr>]) = [d\<lparr>dg_line := m\<rparr>])"
  using shifted_key [of m d] by (auto simp: compare_diagnostics_def Let_def image_iff intro!: filter_cong)

definition sample_diagnostic :: diagnostic where
  "sample_diagnostic = \<lparr>dg_file = ''f'', dg_line = 1, dg_column = 1, dg_severity = ''e'', dg_message = ''m'', dg_code = None\<rparr>"

lemma diagnostics_are_attributed_witness:
  "dd_regressions (compare_diagnostics [sample_diagnostic] [sample_diagnostic\<lparr>dg_line := 2\<rparr>]) = [sample_diagnostic\<lparr>dg_line := 2\<rparr>]"
  using diagnostics_are_attributed [of "[]" "[]" 2 sample_diagnostic] by (simp add: sample_diagnostic_def)

text \<open>Whatever is asked, the items a tenant gets from the index are its own.\<close>

lemma evidence_stays_in_tenant:
  "list_all (\<lambda>i. ev_tenant i = t) (evidence_search t q items) \<and> list_all (\<lambda>i. ev_tenant i = t) (search_by_run t r items) \<and>
   (case search_by_step t r s items of Inr hits \<Rightarrow> list_all (\<lambda>i. ev_tenant i = t) hits | Inl _ \<Rightarrow> True) \<and>
   (case detail_of t r s k items of Inr (Some i) \<Rightarrow> ev_tenant i = t | _ \<Rightarrow> True)"
  by (auto simp: evidence_search_def search_by_run_def search_by_step_def detail_of_def and_then_def list_all_iff Let_def find_Some_iff
      split: sum.split option.split)

text \<open>A tenant whose run number another tenant used first never gets the details of its own run: the owner of a run is the
  tenant of the first item, and its name is told.\<close>

lemma foreign_run_blocks_owner:
  assumes "ev_run i = r" and "ev_tenant i \<noteq> t"
  shows "search_by_step t r s (i # items) = Inl (TenantMismatch t (ev_tenant i)) \<and> detail_of t r s k (i # items) = Inl (TenantMismatch t (ev_tenant i))"
  using assms by (simp add: search_by_step_def detail_of_def tenant_check_def and_then_def)

lemma foreign_run_blocks_owner_witness:
  "search_by_step ''b'' ''r1'' ''s'' [\<lparr>ev_tenant = ''a'', ev_run = ''r1'', ev_step = ''s'', ev_kind = EvError, ev_summary = [], ev_detail = [], ev_ts = 0\<rparr>]
     = Inl (TenantMismatch ''b'' ''a'')"
  using foreign_run_blocks_owner [of "\<lparr>ev_tenant = ''a'', ev_run = ''r1'', ev_step = ''s'', ev_kind = EvError, ev_summary = [], ev_detail = [], ev_ts = 0\<rparr>" "''r1''" "''b''" "''s''" "[]" EvError]
  by simp

end
