(* ===== verification/Skill_Registry.thy ===== *)
theory Skill_Registry
  imports Rust_Text Ordered_Map "HOL-Library.Product_Lexorder" "HOL-Library.Multiset"
begin

text \<open>
  Skills and instructions, \<^verbatim>\<open>crates/skills\<close>: manifests and the registry that is refreshed from them, capsules that narrow authority,
  path-scoped rules, instruction layers with their winners, extensions, and the evolution lab with its three
  stores. SHA-256, the lossy decoding, the walk over the directories and the clock are parameters.
\<close>

section \<open>Manifests and the registry\<close>

record discovered_skill =
  dk_name :: string
  dk_version :: string
  dk_description :: string
  dk_manifest_path :: string
  dk_sha256 :: string

datatype skill_error = InvalidMetadata string string | SkillIo string

record manifest_header =
  mh_name :: "string option"
  mh_version :: "string option"
  mh_description :: "string option"

definition manifest_line :: "string \<Rightarrow> manifest_header \<Rightarrow> manifest_header" where
  "manifest_line line h =
     (case strip_prefix ''name: '' line of
        Some v \<Rightarrow> h\<lparr>mh_name := Some (str_trim v)\<rparr>
      | None \<Rightarrow> (case strip_prefix ''version: '' line of
          Some v \<Rightarrow> h\<lparr>mh_version := Some (str_trim v)\<rparr>
        | None \<Rightarrow> (case strip_prefix ''description: '' line of
            Some v \<Rightarrow> h\<lparr>mh_description := Some (str_trim v)\<rparr>
          | None \<Rightarrow> h)))"

definition read_manifest_header :: "string \<Rightarrow> manifest_header" where
  "read_manifest_header txt =
     fold manifest_line (takeWhile (\<lambda>l. str_trim l \<noteq> []) (str_lines txt)) \<lparr>mh_name = None, mh_version = None, mh_description = None\<rparr>"

definition parse_skill_manifest :: "(string \<Rightarrow> string) \<Rightarrow> (string \<Rightarrow> string) \<Rightarrow> string \<Rightarrow> string \<Rightarrow> (skill_error, discovered_skill) result" where
  "parse_skill_manifest H lossy path bytes =
     (let h = read_manifest_header (lossy bytes)
      in and_then (ok_or (InvalidMetadata path ''missing name'') (mh_name h)) (\<lambda>name.
         and_then (ok_or (InvalidMetadata path ''missing version'') (mh_version h)) (\<lambda>version.
         and_then (ok_or (InvalidMetadata path ''missing description'') (mh_description h)) (\<lambda>description.
           Inr \<lparr>dk_name = name, dk_version = version, dk_description = description, dk_manifest_path = path, dk_sha256 = H bytes\<rparr>))))"

type_synonym skill_registry = "(string, discovered_skill) btree"

fun load_skills ::
  "(string \<Rightarrow> string \<Rightarrow> (skill_error, discovered_skill) result) \<Rightarrow> (string \<times> string) list \<Rightarrow> nat \<Rightarrow> skill_registry \<Rightarrow> (skill_error, nat) result \<times> skill_registry" where
  "load_skills parse [] n reg = (Inr n, reg)"
| "load_skills parse ((path, bytes) # found) n reg =
     (case parse path bytes of
        Inl e \<Rightarrow> (Inl e, reg)
      | Inr skill \<Rightarrow> load_skills parse found (n + 1) (bt_insert (dk_name skill) skill reg))"

text \<open>The manifests under the directory, or the error of the walk; nothing when the directory does not exist.\<close>

definition refresh_registry ::
  "(string \<Rightarrow> string) \<Rightarrow> (string \<Rightarrow> string) \<Rightarrow> (string, (string \<times> string) list) result \<Rightarrow> skill_registry \<Rightarrow> (skill_error, nat) result \<times> skill_registry" where
  "refresh_registry H lossy walk reg =
     (case walk of Inl e \<Rightarrow> (Inl (SkillIo e), []) | Inr found \<Rightarrow> load_skills (parse_skill_manifest H lossy) found 0 [])"

section \<open>Capsules\<close>

datatype requested_authority = Req_ReadOnly | Req_Write | Req_External | Req_Admin

datatype authority_ceiling = Ceil_ReadOnly | Ceil_Write | Ceil_External

record skill_capsule =
  sc_skill_name :: string
  sc_invocation_contract :: string
  sc_context_requirements :: "string list"
  sc_tool_requirements :: "string list"
  sc_model_policy :: string
  sc_verification :: string
  sc_effective :: authority_ceiling

datatype capsule_error = AuthorityEscalation requested_authority authority_ceiling

fun narrow_authority :: "requested_authority \<Rightarrow> authority_ceiling \<Rightarrow> authority_ceiling" where
  "narrow_authority Req_ReadOnly c = Ceil_ReadOnly"
| "narrow_authority Req_Write Ceil_ReadOnly = Ceil_ReadOnly"
| "narrow_authority Req_Write c = Ceil_Write"
| "narrow_authority Req_External c = c"
| "narrow_authority Req_Admin c = Ceil_ReadOnly"

definition build_capsule :: "string \<Rightarrow> requested_authority \<Rightarrow> authority_ceiling \<Rightarrow> (capsule_error, skill_capsule) result" where
  "build_capsule name requested ceiling =
     (if requested = Req_Admin then Inl (AuthorityEscalation requested ceiling)
      else Inr \<lparr>sc_skill_name = name, sc_invocation_contract = name @ ''(context, tools) -> result'',
                sc_context_requirements = [''task context pack''], sc_tool_requirements = [], sc_model_policy = ''task-scoped'',
                sc_verification = ''deterministic gates'', sc_effective = narrow_authority requested ceiling\<rparr>)"

section \<open>Rules and the manifest of instructions\<close>

record scoped_rule =
  sr_id :: string
  sr_scope_prefix :: string
  sr_text :: string
  sr_precedence :: nat

definition active_rules :: "scoped_rule list \<Rightarrow> string list \<Rightarrow> scoped_rule list" where
  "active_rules rules paths =
     sort_key (\<lambda>r. (sr_precedence r, sr_id r)) (filter (\<lambda>r. list_ex (\<lambda>p. starts_with p (sr_scope_prefix r)) paths) rules)"

record instruction_entry =
  ie_kind :: string
  ie_name :: string
  ie_version :: string
  ie_source :: string
  ie_reason :: string
  ie_sha256 :: string

definition add_skill :: "discovered_skill \<Rightarrow> string \<Rightarrow> instruction_entry list \<Rightarrow> instruction_entry list" where
  "add_skill s reason es =
     es @ [\<lparr>ie_kind = ''skill'', ie_name = dk_name s, ie_version = dk_version s, ie_source = dk_manifest_path s, ie_reason = reason, ie_sha256 = dk_sha256 s\<rparr>]"

definition add_rule :: "(string \<Rightarrow> string) \<Rightarrow> scoped_rule \<Rightarrow> string \<Rightarrow> instruction_entry list \<Rightarrow> instruction_entry list" where
  "add_rule H r reason es =
     es @ [\<lparr>ie_kind = ''rule'', ie_name = sr_id r, ie_version = ''1'', ie_source = ''rule:'' @ sr_scope_prefix r, ie_reason = reason, ie_sha256 = H (sr_text r)\<rparr>]"

section \<open>Layers\<close>

datatype instruction_scope = Scope_User | Scope_Project | Scope_Memory

fun scope_rank :: "instruction_scope \<Rightarrow> nat" where
  "scope_rank Scope_User = 0"
| "scope_rank Scope_Project = 1"
| "scope_rank Scope_Memory = 2"

record layered_instruction =
  li_scope :: instruction_scope
  li_subject :: string
  li_text :: string
  li_ttl :: "int option"
  li_sha256 :: string

record resolved_instruction =
  rv_winner :: layered_instruction
  rv_conflicts :: "(instruction_scope \<times> string) list"

definition live_layer :: "int \<Rightarrow> layered_instruction \<Rightarrow> bool" where
  "live_layer now l = (case li_ttl l of Some e \<Rightarrow> \<not> e \<le> now | None \<Rightarrow> True)"

definition add_layer_to :: "layered_instruction \<Rightarrow> (string, layered_instruction list) btree \<Rightarrow> (string, layered_instruction list) btree" where
  "add_layer_to l m =
     (let k = to_lowercase (li_subject l)
      in bt_insert k ((case bt_get k m of Some g \<Rightarrow> g | None \<Rightarrow> []) @ [l]) m)"

definition resolve_group :: "layered_instruction list \<Rightarrow> resolved_instruction" where
  "resolve_group g =
     (let s = sort_key (\<lambda>l. scope_rank (li_scope l)) g
      in \<lparr>rv_winner = hd s, rv_conflicts = map (\<lambda>l. (li_scope l, li_text l)) (tl s)\<rparr>)"

definition resolve_layers :: "layered_instruction list \<Rightarrow> int \<Rightarrow> resolved_instruction list" where
  "resolve_layers layers now = map (\<lambda>(k, g). resolve_group g) (fold add_layer_to (filter (live_layer now) layers) [])"

section \<open>Extensions\<close>

record installed_extension =
  xe_name :: string
  xe_version :: string
  xe_sha256 :: string
  xe_origin :: string

datatype extension_error = HashMismatch string string | InvalidManifest string | EscalationRefused string

definition install_extension ::
  "(string \<Rightarrow> string) \<Rightarrow> (string \<Rightarrow> string) \<Rightarrow> string \<Rightarrow> string \<Rightarrow> string \<Rightarrow> (extension_error, installed_extension) result" where
  "install_extension H lossy bytes expected origin =
     (if H bytes \<noteq> expected then Inl (HashMismatch expected (H bytes))
      else let h = read_manifest_header (lossy bytes)
           in and_then (ok_or (InvalidManifest ''missing name'') (mh_name h)) (\<lambda>name.
              and_then (ok_or (InvalidManifest ''missing version'') (mh_version h)) (\<lambda>version.
                Inr \<lparr>xe_name = name, xe_version = version, xe_sha256 = H bytes, xe_origin = origin\<rparr>)))"

definition activate_extension :: "installed_extension \<Rightarrow> requested_authority \<Rightarrow> authority_ceiling \<Rightarrow> (extension_error, skill_capsule) result" where
  "activate_extension x requested ceiling = map_err (\<lambda>_. EscalationRefused (xe_name x)) (build_capsule (xe_name x) requested ceiling)"

section \<open>The evolution lab\<close>

datatype trace_outcome = Trace_Success | Trace_Failure

record raw_trace =
  rt_id :: string
  rt_outcome :: trace_outcome
  rt_text :: string
  rt_ts :: int

record 'c wiki_entry =
  we_id :: string
  we_pattern :: string
  we_provenance :: "string list"
  we_confidence :: 'c
  we_revision :: nat

record 'c evolution_wiki =
  ew_head :: nat
  ew_entries :: "(string, 'c wiki_entry) btree"

datatype candidate_status = Cand_Proposed | Cand_Validated | Cand_Rejected

record candidate_skill =
  ck_id :: string
  ck_objective :: string
  ck_diff :: string
  ck_evidence :: "string list"
  ck_status :: candidate_status
  ck_active_sha256 :: string

record 'c evolution_lab =
  el_traces :: "raw_trace list"
  el_wiki :: "'c evolution_wiki"
  el_candidates :: "(string, candidate_skill) btree"
  el_active_skill :: string

definition wiki_id :: "(string \<Rightarrow> string) \<Rightarrow> nat \<Rightarrow> string \<Rightarrow> string" where
  "wiki_id H head pattern = ''wiki-'' @ show_nat head @ ''-'' @ take 8 (H pattern)"

definition consolidate :: "(string \<Rightarrow> string) \<Rightarrow> string \<Rightarrow> string list \<Rightarrow> 'c \<Rightarrow> 'c evolution_wiki \<Rightarrow> 'c wiki_entry \<times> 'c evolution_wiki" where
  "consolidate H pattern prov confidence w =
     (let head = ew_head w + 1;
          entry = \<lparr>we_id = wiki_id H head pattern, we_pattern = pattern, we_provenance = prov, we_confidence = confidence, we_revision = head\<rparr>
      in (entry, \<lparr>ew_head = head, ew_entries = bt_insert (we_id entry) entry (ew_entries w)\<rparr>))"

text \<open>Two readings of the clock, one for the name and one for the time of the trace.\<close>

definition record_trace ::
  "(string \<Rightarrow> string) \<Rightarrow> (int \<Rightarrow> string) \<Rightarrow> trace_outcome \<Rightarrow> string \<Rightarrow> int \<Rightarrow> int \<Rightarrow> 'c evolution_lab \<Rightarrow> string \<times> 'c evolution_lab" where
  "record_trace H show_int outcome txt now1 now2 lab =
     (let i = ''trace-'' @ take 12 (H (txt @ show_int now1))
      in (i, lab\<lparr>el_traces := el_traces lab @ [\<lparr>rt_id = i, rt_outcome = outcome, rt_text = txt, rt_ts = now2\<rparr>]\<rparr>))"

text \<open>\<open>str::matches\<close> counts occurrences from the left that do not overlap.\<close>

function count_matches :: "string \<Rightarrow> string \<Rightarrow> nat" where
  "count_matches p [] = 0"
| "count_matches p (c # cs) =
     (if p \<noteq> [] \<and> prefix p (c # cs) then 1 + count_matches p (drop (length p) (c # cs)) else count_matches p cs)"
  by pat_completeness auto
termination
  by (relation "measure (\<lambda>(p, s). length s)") auto

definition candidate_id :: "(string \<Rightarrow> string) \<Rightarrow> string \<Rightarrow> string" where
  "candidate_id H diff = ''cand-'' @ take 12 (H diff)"

definition propose ::
  "(string \<Rightarrow> string) \<Rightarrow> string \<Rightarrow> string \<Rightarrow> string list \<Rightarrow> string \<Rightarrow> 'c evolution_lab \<Rightarrow> (unit, string) result \<times> 'c evolution_lab" where
  "propose H objective diff evidence active lab =
     (if count_matches ''<<CHANGE>>'' diff > 1 \<or> evidence = [] then (Inl (), lab)
      else (Inr (candidate_id H diff),
            lab\<lparr>el_candidates := bt_insert (candidate_id H diff)
                  \<lparr>ck_id = candidate_id H diff, ck_objective = objective, ck_diff = diff, ck_evidence = evidence, ck_status = Cand_Proposed, ck_active_sha256 = H active\<rparr>
                  (el_candidates lab)\<rparr>))"

definition gate_candidate :: "string \<Rightarrow> bool \<Rightarrow> 'c evolution_lab \<Rightarrow> (string, candidate_status) result \<times> 'c evolution_lab" where
  "gate_candidate i gates_pass lab =
     (case bt_get i (el_candidates lab) of
        None \<Rightarrow> (Inl (''unknown candidate '' @ i), lab)
      | Some _ \<Rightarrow>
          (let st = (if gates_pass then Cand_Validated else Cand_Rejected)
           in (Inr st, lab\<lparr>el_candidates := bt_update i (\<lambda>c. c\<lparr>ck_status := st\<rparr>) (el_candidates lab)\<rparr>)))"

definition delete_candidate :: "string \<Rightarrow> 'c evolution_lab \<Rightarrow> (string, unit) result \<times> 'c evolution_lab" where
  "delete_candidate i lab =
     (case bt_get i (el_candidates lab) of
        None \<Rightarrow> (Inl (''unknown candidate '' @ i), lab)
      | Some _ \<Rightarrow> (Inr (), lab\<lparr>el_candidates := bt_remove i (el_candidates lab)\<rparr>))"

section \<open>The registry after a failure\<close>

lemma load_all:
  "\<forall>e \<in> set good. parse (fst e) (snd e) = Inr (f e) \<Longrightarrow>
     load_skills parse (good @ rest) n reg = load_skills parse rest (n + length good) (fold (\<lambda>e. bt_insert (dk_name (f e)) (f e)) good reg)"
proof (induction good arbitrary: n reg)
  case (Cons e es)
  then show ?case by (cases e) simp
qed simp

text \<open>A refresh that meets a bad manifest fails with it, but leaves the skills before it in the registry, and only those: the
  registry is partial.\<close>

lemma failed_refresh_is_partial:
  assumes "\<forall>e \<in> set good. parse_skill_manifest H lossy (fst e) (snd e) = Inr (f e)" and "parse_skill_manifest H lossy p b = Inl err"
  shows "refresh_registry H lossy (Inr (good @ (p, b) # rest)) reg = (Inl err, fold (\<lambda>e. bt_insert (dk_name (f e)) (f e)) good [])"
  using load_all [OF assms(1), of "(p, b) # rest" 0 "[]"] assms(2) by (simp add: refresh_registry_def)

text \<open>A capsule never has more authority than was asked for nor than the ceiling, has the smaller of the two, and is refused exactly
  when administration is asked for.\<close>

lemma capsule_narrows:
  "(case build_capsule name req ceil of
      Inr c \<Rightarrow> req \<noteq> Req_Admin \<and> sc_effective c =
        (if req = Req_ReadOnly \<or> ceil = Ceil_ReadOnly then Ceil_ReadOnly else if req = Req_Write \<or> ceil = Ceil_Write then Ceil_Write else Ceil_External)
    | Inl e \<Rightarrow> req = Req_Admin)"
  by (cases req; cases ceil) (simp_all add: build_capsule_def)

section \<open>Winners\<close>

lemma add_layer_get:
  "bt_sorted m \<Longrightarrow> bt_sorted (add_layer_to l m) \<and> bt_get k (add_layer_to l m) =
     (if k = to_lowercase (li_subject l) then Some ((case bt_get k m of Some g \<Rightarrow> g | None \<Rightarrow> []) @ [l]) else bt_get k m)"
  by (simp add: add_layer_to_def Let_def)

lemma group_layers:
  "bt_sorted (fold add_layer_to ls []) \<and> bt_get k (fold add_layer_to ls []) =
     (let g = filter (\<lambda>l. to_lowercase (li_subject l) = k) ls in if g = [] then None else Some g)"
proof (induction ls rule: rev_induct)
  case (snoc l ls)
  then show ?case using add_layer_get [of "fold add_layer_to ls []" l k] by (auto simp: Let_def)
qed simp

text \<open>Every subject with an instruction that has not expired has exactly one winner; no instruction on the subject has a
  scope before the winner's, and the others on the subject are its conflicts.\<close>

lemma layers_have_one_winner:
  "\<exists>ks. distinct ks \<and> set ks = (\<lambda>l. to_lowercase (li_subject l)) ` {l \<in> set layers. live_layer now l} \<and>
     list_all2 (\<lambda>k r. \<exists>s. mset s = mset (filter (\<lambda>l. live_layer now l \<and> to_lowercase (li_subject l) = k) layers) \<and>
         s = rv_winner r # tl s \<and> rv_conflicts r = map (\<lambda>l. (li_scope l, li_text l)) (tl s) \<and>
         (\<forall>l \<in> set s. scope_rank (li_scope (rv_winner r)) \<le> scope_rank (li_scope l)))
       ks (resolve_layers layers now)"
proof -
  let ?ls = "filter (live_layer now) layers" and ?m = "fold add_layer_to (filter (live_layer now) layers) []"
  have m: "bt_sorted ?m" "\<And>k. bt_get k ?m = (let g = filter (\<lambda>l. to_lowercase (li_subject l) = k) ?ls in if g = [] then None else Some g)"
    using group_layers by blast+
  have d: "distinct (map fst ?m)" using m(1) by (simp add: bt_sorted_def strict_sorted_iff)
  have entry: "g = filter (\<lambda>l. live_layer now l \<and> to_lowercase (li_subject l) = k) layers \<and> g \<noteq> []" if "(k, g) \<in> set ?m" for k g
  proof -
    have "bt_get k ?m = Some g" using that d by (simp add: bt_get_def map_of_eq_Some_iff)
    then show ?thesis using m(2) [of k] by (auto simp: Let_def conj_commute split: if_splits)
  qed
  have "\<exists>s. mset s = mset (filter (\<lambda>l. live_layer now l \<and> to_lowercase (li_subject l) = k) layers) \<and> s = rv_winner (resolve_group g) # tl s
      \<and> rv_conflicts (resolve_group g) = map (\<lambda>l. (li_scope l, li_text l)) (tl s)
      \<and> (\<forall>l \<in> set s. scope_rank (li_scope (rv_winner (resolve_group g))) \<le> scope_rank (li_scope l))" if "(k, g) \<in> set ?m" for k g
  proof -
    let ?s = "sort_key (\<lambda>l. scope_rank (li_scope l)) g"
    have ne: "?s \<noteq> []" using entry [OF that] by (metis mset_sort mset_zero_iff)
    then obtain w rest where s: "?s = w # rest" by (cases ?s) auto
    have "sorted (map (\<lambda>l. scope_rank (li_scope l)) ?s)" by simp
    then have "\<forall>l \<in> set ?s. scope_rank (li_scope w) \<le> scope_rank (li_scope l)" unfolding s by auto
    moreover have "mset ?s = mset (filter (\<lambda>l. live_layer now l \<and> to_lowercase (li_subject l) = k) layers)" using entry [OF that] by simp
    ultimately show ?thesis using s by (intro exI [of _ ?s]) (simp add: resolve_group_def)
  qed
  then have "list_all2 (\<lambda>k r. \<exists>s. mset s = mset (filter (\<lambda>l. live_layer now l \<and> to_lowercase (li_subject l) = k) layers) \<and>
         s = rv_winner r # tl s \<and> rv_conflicts r = map (\<lambda>l. (li_scope l, li_text l)) (tl s) \<and>
         (\<forall>l \<in> set s. scope_rank (li_scope (rv_winner r)) \<le> scope_rank (li_scope l))) (map fst ?m) (resolve_layers layers now)"
    unfolding resolve_layers_def list_all2_map1 list_all2_map2 by (intro list.rel_refl_strong) auto
  moreover have "set (map fst ?m) = (\<lambda>l. to_lowercase (li_subject l)) ` {l \<in> set layers. live_layer now l}"
  proof -
    have "k \<in> set (map fst ?m) \<longleftrightarrow> bt_get k ?m \<noteq> None" for k by (auto simp: bt_get_def map_of_eq_None_iff image_iff)
    moreover have "bt_get k ?m \<noteq> None \<longleftrightarrow> k \<in> (\<lambda>l. to_lowercase (li_subject l)) ` {l \<in> set layers. live_layer now l}" for k
      unfolding m(2) [of k] Let_def by (auto simp: filter_empty_conv image_iff split: if_splits)
    ultimately show ?thesis by blast
  qed
  ultimately show ?thesis using d by blast
qed

section \<open>The lab\<close>

definition wiki_ok :: "'c evolution_wiki \<Rightarrow> bool" where
  "wiki_ok w \<longleftrightarrow> bt_sorted (ew_entries w) \<and> (\<forall>(k, e) \<in> set (ew_entries w). \<exists>n \<le> ew_head w. \<exists>r. k = ''wiki-'' @ show_nat n @ ''-'' @ r)"

lemma digits_dash: "takeWhile is_digit (show_nat n @ CHR ''-'' # r) = show_nat n"
proof -
  have "\<not> is_digit CHR ''-''" by (simp add: is_digit_def)
  then show ?thesis using show_nat_digits [of _ n] by (simp add: takeWhile_append2)
qed

text \<open>Consolidating never overwrites: every entry of the wiki stays, the new one is added under a new name, and the wiki stays one of
  which this holds.\<close>

lemma consolidation_never_overwrites:
  assumes "wiki_ok w" and "consolidate H pattern prov confidence w = (e, w')"
  shows "wiki_ok w' \<and> bt_get (we_id e) (ew_entries w) = None \<and> (\<forall>k. bt_get k (ew_entries w') = (if k = we_id e then Some e else bt_get k (ew_entries w)))"
proof -
  have e: "we_id e = wiki_id H (ew_head w + 1) pattern" "w' = \<lparr>ew_head = ew_head w + 1, ew_entries = bt_insert (we_id e) e (ew_entries w)\<rparr>"
    using assms(2) by (auto simp: consolidate_def Let_def)
  have s: "bt_sorted (ew_entries w)" using assms(1) by (simp add: wiki_ok_def)
  have "we_id e \<noteq> k" if "(k, x) \<in> set (ew_entries w)" for k x
  proof
    assume k: "we_id e = k"
    obtain n r where n: "n \<le> ew_head w" "k = ''wiki-'' @ show_nat n @ ''-'' @ r" using assms(1) \<open>(k, x) \<in> set (ew_entries w)\<close> by (auto simp: wiki_ok_def)
    then have "show_nat (ew_head w + 1) @ CHR ''-'' # take 8 (H pattern) = show_nat n @ CHR ''-'' # r" using k e(1) by (simp add: wiki_id_def)
    then have "show_nat (ew_head w + 1) = show_nat n" using digits_dash by metis
    then show False using n(1) by simp
  qed
  then have none: "bt_get (we_id e) (ew_entries w) = None" by (fastforce simp: bt_get_def map_of_eq_None_iff)
  have "\<exists>n \<le> ew_head w + 1. \<exists>r. k = ''wiki-'' @ show_nat n @ ''-'' @ r" if kx: "(k, x) \<in> set (bt_insert (we_id e) e (ew_entries w))" for k x
  proof (cases "k = we_id e")
    case True
    then show ?thesis using e(1) by (auto simp: wiki_id_def)
  next
    case False
    then have "(k, x) \<in> set (ew_entries w)" using kx set_bt_insert [of "we_id e" e "ew_entries w"] by auto
    then obtain n r where "n \<le> ew_head w" "k = ''wiki-'' @ show_nat n @ ''-'' @ r" using assms(1) by (auto simp: wiki_ok_def)
    then show ?thesis by (intro exI [of _ n]) auto
  qed
  then have "wiki_ok w'" using s e(2) unfolding wiki_ok_def by auto
  then show ?thesis using none s e(2) by simp
qed

lemma consolidation_never_overwrites_witness:
  "bt_get (we_id (fst (consolidate (\<lambda>s. s) ''p'' [] (0 :: nat) \<lparr>ew_head = 0, ew_entries = []\<rparr>))) (ew_entries \<lparr>ew_head = 0, ew_entries = [] :: (string, nat wiki_entry) btree\<rparr>) = None"
proof -
  let ?w = "\<lparr>ew_head = 0, ew_entries = [] :: (string, nat wiki_entry) btree\<rparr>"
  have "wiki_ok ?w" by (simp add: wiki_ok_def)
  then show ?thesis using consolidation_never_overwrites [of ?w "\<lambda>s. s" "''p''" "[]" 0 "fst (consolidate (\<lambda>s. s) ''p'' [] 0 ?w)" "snd (consolidate (\<lambda>s. s) ''p'' [] 0 ?w)"] by simp
qed

text \<open>Nothing the lab does changes the active skill, and apart from consolidation nothing changes the wiki.\<close>

lemma lab_keeps_active_skill:
  "el_active_skill (snd (propose H o1 d ev a lab)) = el_active_skill lab \<and> el_wiki (snd (propose H o1 d ev a lab)) = el_wiki lab \<and>
   el_active_skill (snd (gate_candidate i g lab)) = el_active_skill lab \<and> el_wiki (snd (gate_candidate i g lab)) = el_wiki lab \<and>
   el_active_skill (snd (delete_candidate i lab)) = el_active_skill lab \<and> el_traces (snd (delete_candidate i lab)) = el_traces lab \<and>
   el_wiki (snd (delete_candidate i lab)) = el_wiki lab \<and> el_active_skill (snd (record_trace H sh oc txt n1 n2 lab)) = el_active_skill lab"
  by (simp add: propose_def gate_candidate_def delete_candidate_def record_trace_def Let_def split: option.split)

text \<open>Proposing a rejected change again erases its rejection: the name of a candidate is made from the change alone.\<close>

lemma reproposal_erases_rejection:
  assumes "bt_sorted (el_candidates lab)" and "ev \<noteq> []" and "count_matches ''<<CHANGE>>'' d \<le> 1"
  shows "\<exists>c. bt_get (candidate_id H d) (el_candidates (snd (propose H o1 d ev a (snd (gate_candidate (candidate_id H d) False lab))))) = Some c \<and> ck_status c = Cand_Proposed"
  using assms by (auto simp: propose_def gate_candidate_def Let_def split: option.split)

lemma reproposal_erases_rejection_witness:
  "\<exists>c. bt_get (candidate_id (\<lambda>s. s) ''d'') (el_candidates (snd (propose (\<lambda>s. s) [] ''d'' [''e''] [] (snd (gate_candidate (candidate_id (\<lambda>s. s) ''d'') False
     (\<lparr>el_traces = [], el_wiki = \<lparr>ew_head = 0, ew_entries = []\<rparr>, el_candidates = [], el_active_skill = []\<rparr> :: nat evolution_lab)))))) = Some c \<and> ck_status c = Cand_Proposed"
  by (rule reproposal_erases_rejection) simp_all

end
