(* ===== verification/Browser_Session.thy ===== *)
theory Browser_Session
  imports Rust_Text Ordered_Map
begin

text \<open>
  Browser automation, \<^verbatim>\<open>crates/browser\<close> but its protocol client: the session with its controller lease and watchdog, the semantic
  state of a page with its deltas, the ladder of targets and the graph of states (\<^verbatim>\<open>lib.rs\<close>), the boundary for peers, action
  channels and the session shared with a person (\<^verbatim>\<open>session_control.rs\<close>), and preemption by human activity, typed failures and the
  clipboard guard (\<^verbatim>\<open>computer_safety.rs\<close>). SHA-256 is a parameter, the \<open>Debug\<close> text of a peer is left to one as well.
\<close>

section \<open>Session, lease and watchdog\<close>

record session_identity =
  si_session_id :: string
  si_process_path :: string
  si_pid :: nat
  si_profile_dir :: string

record controller_lease =
  cn_session_id :: string
  cn_controller_id :: string
  cn_epoch :: nat

datatype browser_lease_error = HeldByOther string

record watchdog =
  wd_max_action_ms :: nat
  wd_stopped :: bool
  wd_stop_reason :: "string option"

definition watchdog_new :: "nat \<Rightarrow> watchdog" where
  "watchdog_new max_action_ms = \<lparr>wd_max_action_ms = max_action_ms, wd_stopped = False, wd_stop_reason = None\<rparr>"

definition emergency_stop :: "string \<Rightarrow> watchdog \<Rightarrow> watchdog" where
  "emergency_stop reason w = w\<lparr>wd_stopped := True, wd_stop_reason := Some reason\<rparr>"

definition watchdog_check :: "nat \<Rightarrow> watchdog \<Rightarrow> (string, unit) result \<times> watchdog" where
  "watchdog_check elapsed_ms w =
     (if wd_stopped w then (Inl (''watchdog engaged: '' @ (case wd_stop_reason w of Some r \<Rightarrow> r | None \<Rightarrow> ''unknown'')), w)
      else if elapsed_ms > wd_max_action_ms w
        then (Inl (''watchdog engaged: action exceeded '' @ show_nat (wd_max_action_ms w) @ ''ms bound''), emergency_stop ''action exceeded watchdog bound'' w)
      else (Inr (), w))"

record browser_session =
  bs_identity :: session_identity
  bs_lease :: "controller_lease option"
  bs_watchdog :: watchdog

definition session_resolve :: "string \<Rightarrow> string \<Rightarrow> nat \<Rightarrow> string \<Rightarrow> nat \<Rightarrow> browser_session" where
  "session_resolve session_id process_path pid profile_dir watchdog_ms =
     \<lparr>bs_identity = \<lparr>si_session_id = session_id, si_process_path = process_path, si_pid = pid, si_profile_dir = profile_dir\<rparr>,
      bs_lease = None, bs_watchdog = watchdog_new watchdog_ms\<rparr>"

definition acquire_lease :: "string \<Rightarrow> browser_session \<Rightarrow> (browser_lease_error, controller_lease) result \<times> browser_session" where
  "acquire_lease controller s =
     (case bs_lease s of
        Some l \<Rightarrow> (Inl (HeldByOther (cn_controller_id l)), s)
      | None \<Rightarrow>
          (let l = \<lparr>cn_session_id = si_session_id (bs_identity s), cn_controller_id = controller, cn_epoch = 1\<rparr>
           in (Inr l, s\<lparr>bs_lease := Some l\<rparr>)))"

definition ensure_controller :: "controller_lease \<Rightarrow> browser_session \<Rightarrow> (string, unit) result" where
  "ensure_controller lease s =
     (case bs_lease s of
        Some current \<Rightarrow> if cn_controller_id current = cn_controller_id lease then Inr ()
                         else Inl (''lease conflict: held by '' @ debug_str (cn_controller_id current))
      | None \<Rightarrow> Inl ''no controller lease acquired'')"

text \<open>An action is what it returns; the last component says whether it was performed.\<close>

definition execute_action :: "controller_lease \<Rightarrow> nat \<Rightarrow> string \<Rightarrow> browser_session \<Rightarrow> (string, string) result \<times> browser_session \<times> bool" where
  "execute_action controller elapsed_ms action s =
     (case ensure_controller controller s of
        Inl e \<Rightarrow> (Inl e, s, False)
      | Inr _ \<Rightarrow> (case watchdog_check elapsed_ms (bs_watchdog s) of
          (Inl e, w) \<Rightarrow> (Inl e, s\<lparr>bs_watchdog := w\<rparr>, False)
        | (Inr _, w) \<Rightarrow> (Inr action, s\<lparr>bs_watchdog := w\<rparr>, True)))"

section \<open>Pages\<close>

record semantic_element =
  se_ref :: string
  se_role :: string
  se_name :: string
  se_value :: "string option"
  se_clickable :: bool

record page_state =
  pg_url :: string
  pg_title :: string
  pg_fingerprint :: string
  pg_elements :: "semantic_element list"

definition from_elements :: "(string \<Rightarrow> string) \<Rightarrow> string \<Rightarrow> string \<Rightarrow> semantic_element list \<Rightarrow> page_state" where
  "from_elements H url title elements =
     (let es = sort_key se_ref elements
      in \<lparr>pg_url = url, pg_title = title, pg_fingerprint = H (concat (map (\<lambda>e. se_ref e @ [CHR 0x00]) es)), pg_elements = es\<rparr>)"

definition sorted_refs :: "page_state \<Rightarrow> string list" where
  "sorted_refs p = remdups_adj (sort (map se_ref (pg_elements p)))"

definition page_delta :: "page_state \<Rightarrow> page_state \<Rightarrow> string list \<times> string list" where
  "page_delta now before =
     (filter (\<lambda>r. r \<notin> set (sorted_refs before)) (sorted_refs now), filter (\<lambda>r. r \<notin> set (sorted_refs now)) (sorted_refs before))"

datatype ladder_tier = Tier_Deterministic | Tier_Accessibility | Tier_Visual

definition resolve_target :: "string option \<Rightarrow> semantic_element option \<Rightarrow> (string, ladder_tier \<times> string) result" where
  "resolve_target deterministic semantic =
     (case deterministic of
        Some t \<Rightarrow> Inr (Tier_Deterministic, t)
      | None \<Rightarrow> (case semantic of
          Some e \<Rightarrow> Inr (Tier_Accessibility, se_ref e)
        | None \<Rightarrow> Inl ''visual escalation required: no deterministic or semantic match''))"

record page_action_graph =
  gp_states :: "(string, page_state) btree"
  gp_transitions :: "(string \<times> string \<times> string) list"

definition record_page :: "page_state \<Rightarrow> page_action_graph \<Rightarrow> string \<times> page_action_graph" where
  "record_page p g = (pg_fingerprint p, g\<lparr>gp_states := bt_insert (pg_fingerprint p) p (gp_states g)\<rparr>)"

definition record_transition :: "string \<Rightarrow> string \<Rightarrow> string \<Rightarrow> page_action_graph \<Rightarrow> page_action_graph" where
  "record_transition a action b g = g\<lparr>gp_transitions := gp_transitions g @ [(a, action, b)]\<rparr>"

section \<open>Peers, channels and the shared session\<close>

record peer_attachment =
  pa_peer_id :: string
  pa_token :: string

record peer_boundary =
  pb_session_token :: string
  pb_attached :: "string list"

definition boundary_new :: "(string \<Rightarrow> string) \<Rightarrow> string \<Rightarrow> peer_boundary" where
  "boundary_new H session_id = \<lparr>pb_session_token = H (''peer-boundary:'' @ session_id), pb_attached = []\<rparr>"

definition attach :: "(peer_attachment \<Rightarrow> string) \<Rightarrow> peer_attachment \<Rightarrow> peer_boundary \<Rightarrow> (string, unit) result \<times> peer_boundary" where
  "attach refusal peer b =
     (if pa_token peer \<noteq> pb_session_token b then (Inl (refusal peer), b)
      else (Inr (), b\<lparr>pb_attached := pb_attached b @ [pa_peer_id peer]\<rparr>))"

definition needs_visual_escalation :: "string \<Rightarrow> bool" where
  "needs_visual_escalation kind = (kind \<in> {''canvas'', ''image'', ''video''})"

record vision_escalation =
  vi_region :: string
  vi_reason :: string
  vi_digest :: string

definition targeted_visual_capture :: "(string \<Rightarrow> string) \<Rightarrow> string \<Rightarrow> string \<Rightarrow> (string, vision_escalation) result" where
  "targeted_visual_capture H region bytes =
     (if \<not> needs_visual_escalation region
        then Inl (''region '' @ debug_str region @ '' is structurally representable '' @ [CHR 0xE2, CHR 0x80, CHR 0x94] @ '' visual capture refused'')
      else Inr \<lparr>vi_region = region, vi_reason = ''canvas/image content not expressible in structural state'', vi_digest = H bytes\<rparr>)"

datatype action_channel = Chan_NativeSiteTool | Chan_DerivedSemantic | Chan_Primitive | Chan_Vision

record channel_inputs =
  ci_native_available :: bool
  ci_native_trusted :: bool
  ci_semantic_resolvable :: bool

definition select_channel :: "channel_inputs \<Rightarrow> action_channel" where
  "select_channel i =
     (if ci_native_available i \<and> ci_native_trusted i then Chan_NativeSiteTool
      else if ci_semantic_resolvable i then Chan_DerivedSemantic
      else Chan_Primitive)"

record shared_session =
  sn_viewers :: "(string, string) btree"
  sn_controller :: "string option"
  sn_takeover_by :: "string option"
  sn_restarts :: nat

definition observe_session :: "string \<Rightarrow> string \<Rightarrow> shared_session \<Rightarrow> shared_session" where
  "observe_session viewer mode s = s\<lparr>sn_viewers := bt_insert viewer mode (sn_viewers s)\<rparr>"

definition human_takeover :: "string \<Rightarrow> shared_session \<Rightarrow> shared_session" where
  "human_takeover user s = s\<lparr>sn_takeover_by := Some user, sn_controller := None\<rparr>"

definition reacquire :: "string \<Rightarrow> shared_session \<Rightarrow> shared_session" where
  "reacquire controller s = s\<lparr>sn_controller := Some controller, sn_takeover_by := None\<rparr>"

definition automation_active :: "shared_session \<Rightarrow> bool" where
  "automation_active s = (sn_controller s \<noteq> None \<and> sn_takeover_by s = None)"

section \<open>Preemption and the clipboard\<close>

record fallback_action =
  fa_modality :: string
  fa_reason :: string
  fa_target :: string
  fa_verified :: bool
  fa_digest :: string

definition verify_fallback :: "fallback_action \<Rightarrow> (string, unit) result" where
  "verify_fallback a =
     (if \<not> fa_verified a \<or> fa_digest a = []
        then Inl (''raw-input fallback rejected: post-state check missing '' @ [CHR 0xE2, CHR 0x80, CHR 0x94] @ '' re-verify before completion'')
      else Inr ())"

datatype preemption_state = Preempt_Active | Preempt_Parked string int

record preemption_manager =
  pm_cooldown_ms :: int
  pm_state :: preemption_state
  pm_last_human_ms :: int

definition preemption_new :: "int \<Rightarrow> preemption_manager" where
  "preemption_new cooldown = \<lparr>pm_cooldown_ms = cooldown, pm_state = Preempt_Active, pm_last_human_ms = 0\<rparr>"

definition human_activity :: "int \<Rightarrow> string \<Rightarrow> preemption_manager \<Rightarrow> preemption_manager" where
  "human_activity at device m =
     m\<lparr>pm_last_human_ms := at, pm_state := Preempt_Parked (''real '' @ device @ '' activity detected'') (at + pm_cooldown_ms m)\<rparr>"

text \<open>The error is the number of milliseconds left.\<close>

definition try_reacquire :: "int \<Rightarrow> preemption_manager \<Rightarrow> (int, unit) result \<times> preemption_manager" where
  "try_reacquire at m =
     (case pm_state m of
        Preempt_Parked _ until \<Rightarrow> if at < until then (Inl (until - at), m) else (Inr (), m\<lparr>pm_state := Preempt_Active\<rparr>)
      | Preempt_Active \<Rightarrow> (Inr (), m\<lparr>pm_state := Preempt_Active\<rparr>))"

definition preemption_is_active :: "preemption_manager \<Rightarrow> bool" where
  "preemption_is_active m = (pm_state m = Preempt_Active)"

datatype computer_use_failure =
    TargetStale | TargetOccluded | WindowUnverifiable | AccessibilityUnavailable | HumanActive | ModalBlocking | TargetNotEditable
  | ActionUnsafe | PermissionRequired

fun failure_code :: "computer_use_failure \<Rightarrow> string" where
  "failure_code TargetStale = ''TARGET_STALE''"
| "failure_code TargetOccluded = ''TARGET_OCCLUDED''"
| "failure_code WindowUnverifiable = ''WINDOW_UNVERIFIABLE''"
| "failure_code AccessibilityUnavailable = ''ACCESSIBILITY_UNAVAILABLE''"
| "failure_code HumanActive = ''HUMAN_ACTIVE''"
| "failure_code ModalBlocking = ''MODAL_BLOCKING''"
| "failure_code TargetNotEditable = ''TARGET_NOT_EDITABLE''"
| "failure_code ActionUnsafe = ''ACTION_UNSAFE''"
| "failure_code PermissionRequired = ''PERMISSION_REQUIRED''"

fun diagnose_failure :: "computer_use_failure \<Rightarrow> computer_use_failure \<times> string" where
  "diagnose_failure TargetStale = (TargetStale, ''re-extract semantic state and re-resolve the target'')"
| "diagnose_failure TargetOccluded = (TargetOccluded, ''raise or close the occluding window, then re-resolve'')"
| "diagnose_failure WindowUnverifiable = (WindowUnverifiable, ''resolve the exact process identity before retrying'')"
| "diagnose_failure AccessibilityUnavailable = (AccessibilityUnavailable, ''restart the AX bridge or fall back to the targeted visual ladder'')"
| "diagnose_failure HumanActive = (HumanActive, ''yield to the human and wait out the cooldown'')"
| "diagnose_failure ModalBlocking = (ModalBlocking, ''dismiss or navigate the modal dialog first'')"
| "diagnose_failure TargetNotEditable = (TargetNotEditable, ''select an editable target or use the appropriate tool'')"
| "diagnose_failure ActionUnsafe = (ActionUnsafe, ''replan: the action is flagged unsafe by policy'')"
| "diagnose_failure PermissionRequired = (PermissionRequired, ''request the permission grant from the operator'')"

record safe_typing_result =
  tp_typed_via :: string
  tp_secret_digest :: string
  tp_clipboard_restored :: bool

definition safe_type_secret :: "(string \<Rightarrow> string) \<Rightarrow> bool \<Rightarrow> string \<Rightarrow> (string, safe_typing_result) result" where
  "safe_type_secret H editable secret =
     (if \<not> editable then Inl ''destination not verified editable''
      else Inr \<lparr>tp_typed_via = ''reversible typing (no clipboard use)'', tp_secret_digest = H secret, tp_clipboard_restored = True\<rparr>)"

definition stash_clipboard :: "string \<Rightarrow> string \<Rightarrow> (string, string) btree \<Rightarrow> (string, string) btree" where
  "stash_clipboard destination content m = bt_insert destination content m"

definition restore_clipboard :: "string \<Rightarrow> (string, string) btree \<Rightarrow> string option" where
  "restore_clipboard destination m = bt_get destination m"

section \<open>Who acts in a session\<close>

datatype session_op = Op_Acquire string | Op_Execute controller_lease nat string | Op_Stop string

fun session_step :: "browser_session \<Rightarrow> session_op \<Rightarrow> browser_session" where
  "session_step s (Op_Acquire c) = snd (acquire_lease c s)"
| "session_step s (Op_Execute l t a) = fst (snd (execute_action l t a s))"
| "session_step s (Op_Stop r) = s\<lparr>bs_watchdog := emergency_stop r (bs_watchdog s)\<rparr>"

definition session_run :: "session_op list \<Rightarrow> browser_session \<Rightarrow> browser_session" where
  "session_run ops s = foldl session_step s ops"

interpretation stopped: machine session_step "\<lambda>s :: browser_session. wd_stopped (bs_watchdog s)"
proof
  fix s :: browser_session and x
  assume "wd_stopped (bs_watchdog s)"
  then show "wd_stopped (bs_watchdog (session_step s x))"
    by (cases x) (auto simp: acquire_lease_def execute_action_def emergency_stop_def watchdog_check_def Let_def split: option.split sum.split)
qed

lemma step_keeps_lease: "bs_lease s = Some l \<Longrightarrow> bs_lease (session_step s x) = Some l"
  by (cases x) (auto simp: acquire_lease_def execute_action_def Let_def split: option.split sum.split prod.split)

lemma run_keeps_lease: "bs_lease s = Some l \<Longrightarrow> bs_lease (session_run ops s) = Some l"
  unfolding session_run_def by (induction ops arbitrary: s) (auto simp: step_keeps_lease)

text \<open>Once a controller has the lease of a session, whatever happens afterwards an action is performed only in its name, and no other
  controller ever gets the lease.\<close>

lemma only_the_holder_acts:
  assumes "bs_lease s = Some l"
  shows "(snd (snd (execute_action c t a (session_run ops s))) \<longrightarrow> cn_controller_id c = cn_controller_id l) \<and>
    fst (acquire_lease d (session_run ops s)) = Inl (HeldByOther (cn_controller_id l))"
  using run_keeps_lease [OF assms, of ops]
  by (auto simp: execute_action_def ensure_controller_def acquire_lease_def split: option.splits sum.splits if_splits)

lemma only_the_holder_acts_witness:
  "fst (acquire_lease ''d'' (session_run [Op_Stop ''r''] (snd (acquire_lease ''c'' (session_resolve ''s'' ''/b'' 1 ''/p'' 10))))) = Inl (HeldByOther ''c'')"
proof -
  have "bs_lease (snd (acquire_lease ''c'' (session_resolve ''s'' ''/b'' 1 ''/p'' 10))) = Some \<lparr>cn_session_id = ''s'', cn_controller_id = ''c'', cn_epoch = 1\<rparr>"
    by (simp add: acquire_lease_def session_resolve_def Let_def)
  from only_the_holder_acts [OF this, of undefined 0 "[]" "[Op_Stop ''r'']" "''d''"] show ?thesis by simp
qed

text \<open>A stopped watchdog stays stopped: no action is performed any more, whoever asks and whatever happens in between.\<close>

lemma watchdog_is_latched:
  assumes "wd_stopped (bs_watchdog s)"
  shows "\<not> snd (snd (execute_action c t a (session_run ops s)))"
proof -
  have "wd_stopped (bs_watchdog (session_run ops s))" unfolding session_run_def by (rule stopped.run_inv [OF assms])
  then show ?thesis by (simp add: execute_action_def watchdog_check_def split: sum.split)
qed

lemma watchdog_is_latched_witness:
  "\<not> snd (snd (execute_action \<lparr>cn_session_id = ''s'', cn_controller_id = ''c'', cn_epoch = 1\<rparr> 0 ''a''
     (session_run [Op_Acquire ''c''] (session_step (session_resolve ''s'' ''/b'' 1 ''/p'' 10) (Op_Stop ''r'')))))"
  by (rule watchdog_is_latched) (simp add: emergency_stop_def)

text \<open>Neither the session nor the epoch of a lease is looked at: any lease that names the holder acts in its place.\<close>

lemma forged_lease_acts:
  assumes "bs_lease s = Some l" and "cn_controller_id c = cn_controller_id l" and "\<not> wd_stopped (bs_watchdog s)" and "t \<le> wd_max_action_ms (bs_watchdog s)"
  shows "fst (execute_action c t a s) = Inr a \<and> snd (snd (execute_action c t a s))"
  using assms by (simp add: execute_action_def ensure_controller_def watchdog_check_def)

lemma forged_lease_acts_witness:
  "fst (execute_action \<lparr>cn_session_id = ''other'', cn_controller_id = ''c'', cn_epoch = 99\<rparr> 0 ''a''
     (snd (acquire_lease ''c'' (session_resolve ''s'' ''/b'' 1 ''/p'' 10)))) = Inr ''a''"
  using forged_lease_acts [of "snd (acquire_lease ''c'' (session_resolve ''s'' ''/b'' 1 ''/p'' 10))" "\<lparr>cn_session_id = ''s'', cn_controller_id = ''c'', cn_epoch = 1\<rparr>"
      "\<lparr>cn_session_id = ''other'', cn_controller_id = ''c'', cn_epoch = 99\<rparr>" 0 "''a''"]
  by (simp add: acquire_lease_def session_resolve_def watchdog_new_def Let_def)

section \<open>Deltas and fingerprints\<close>

lemma sorted_refs_set [simp]: "set (sorted_refs p) = se_ref ` set (pg_elements p)"
  by (simp add: sorted_refs_def)

lemma sorted_refs_strict: "sorted_wrt (<) (sorted_refs p)"
proof -
  have "sorted xs \<Longrightarrow> sorted_wrt (<) (remdups_adj xs)" for xs :: "string list"
    by (induction xs rule: remdups_adj.induct) (auto simp: order.strict_iff_order)
  then show ?thesis by (simp add: sorted_refs_def)
qed

text \<open>A delta leads from the one state to the other: taking away what was removed and adding what was added gives exactly the elements of
  the new state; both lists are in order and without duplicates.\<close>

lemma delta_leads_to_new_state:
  "(se_ref ` set (pg_elements before) - set (snd (page_delta now before))) \<union> set (fst (page_delta now before)) = se_ref ` set (pg_elements now) \<and>
   sorted_wrt (<) (fst (page_delta now before)) \<and> sorted_wrt (<) (snd (page_delta now before))"
  using sorted_refs_strict [of now] sorted_refs_strict [of before] by (auto simp: page_delta_def intro: sorted_wrt_filter)

text \<open>The fingerprint of a page sees only the references of its elements: a page at another address with other texts replaces the
  recorded one.\<close>

lemma fingerprint_confuses_pages:
  assumes "map se_ref (sort_key se_ref es) = map se_ref (sort_key se_ref es')" and "bt_sorted (gp_states g)"
  shows "bt_get (pg_fingerprint (from_elements H u1 t1 es)) (gp_states (snd (record_page (from_elements H u2 t2 es') (snd (record_page (from_elements H u1 t1 es) g)))))
    = Some (from_elements H u2 t2 es')"
proof -
  have "map (\<lambda>e. se_ref e @ [CHR 0x00]) (sort_key se_ref es) = map (\<lambda>e. se_ref e @ [CHR 0x00]) (sort_key se_ref es')"
    using arg_cong [OF assms(1), of "map (\<lambda>r. r @ [CHR 0x00])"] by (simp add: comp_def)
  then have "pg_fingerprint (from_elements H u1 t1 es) = pg_fingerprint (from_elements H u2 t2 es')" by (simp add: from_elements_def Let_def)
  then show ?thesis using assms(2) by (simp add: record_page_def)
qed

lemma fingerprint_confuses_pages_witness:
  "bt_get (pg_fingerprint (from_elements (\<lambda>s. s) ''u1'' ''t'' [])) (gp_states (snd (record_page (from_elements (\<lambda>s. s) ''u2'' ''t'' [])
     (snd (record_page (from_elements (\<lambda>s. s) ''u1'' ''t'' []) \<lparr>gp_states = [], gp_transitions = []\<rparr>))))) = Some (from_elements (\<lambda>s. s) ''u2'' ''t'' [])"
  by (rule fingerprint_confuses_pages) simp_all

section \<open>Peers and people\<close>

text \<open>The token of a session is made from its name alone, so whoever knows the name attaches.\<close>

lemma session_name_is_the_token:
  "fst (attach refusal \<lparr>pa_peer_id = p, pa_token = H (''peer-boundary:'' @ session)\<rparr> (boundary_new H session)) = Inr ()"
  by (simp add: attach_def boundary_new_def)

text \<open>After a person took over automation is inactive, but any controller makes it active again without the person having yielded.\<close>

lemma takeover_is_not_held:
  "\<not> automation_active (human_takeover u s) \<and> automation_active (reacquire c (human_takeover u s)) \<and> sn_restarts (reacquire c (human_takeover u s)) = sn_restarts s"
  by (simp add: automation_active_def human_takeover_def reacquire_def)

text \<open>After human activity automation is parked, and it is reacquired exactly when the cooldown has elapsed.\<close>

lemma cooldown_is_enforced:
  "\<not> preemption_is_active (human_activity at d m) \<and>
   (fst (try_reacquire t (human_activity at d m)) = Inr () \<longleftrightarrow> at + pm_cooldown_ms m \<le> t) \<and>
   (preemption_is_active (snd (try_reacquire t (human_activity at d m))) \<longleftrightarrow> at + pm_cooldown_ms m \<le> t)"
  by (auto simp: preemption_is_active_def human_activity_def try_reacquire_def)

end
