(* ===== verification/Mcp_Client.thy ===== *)
theory Mcp_Client
  imports Policy_Kernel
begin

text \<open>
  The client of external tool servers, \<^verbatim>\<open>crates/mcp/src/lib.rs\<close>: JSON-RPC over the pipes of a subprocess, the handshake, the list of
  tools, calls, and the pool that spawns a server on its first use. The JSON codec is a parameter, and so is what a process
  does: the outcome of each write, and the lines it will have written, read until the end of the stream.
\<close>

section \<open>The wire\<close>

record mcp_codec =
  mk_ser :: "json \<Rightarrow> string"
  mk_de :: "string \<Rightarrow> json option"

datatype mcp_error = McpSpawn string | McpIo string | McpProtocol string | McpClosed

record mcp_tool =
  mt_name :: string
  mt_description :: string
  mt_raw_schema :: json

record mcp_client =
  mc_sent :: "string list"
  mc_writes :: "(string, unit) result list"
  mc_incoming :: "(string, string) result list"
  mc_next_id :: int
  mc_server_name :: string
  mc_server_version :: string

definition jget :: "string \<Rightarrow> json \<Rightarrow> json option" where
  "jget k v = (case v of JObject m \<Rightarrow> map_of m k | _ \<Rightarrow> None)"

definition jstr :: "json \<Rightarrow> string option" where
  "jstr v = (case v of JString s \<Rightarrow> Some s | _ \<Rightarrow> None)"

definition as_i64 :: "json \<Rightarrow> int option" where
  "as_i64 v = (case v of JNumber s \<Rightarrow> parse_i64 s | _ \<Rightarrow> None)"

definition str_or :: "string \<Rightarrow> json option \<Rightarrow> string" where
  "str_or d v = (case Option.bind v jstr of Some s \<Rightarrow> s | None \<Rightarrow> d)"

text \<open>Writes after those foreseen succeed.\<close>

definition mcp_send :: "mcp_codec \<Rightarrow> json \<Rightarrow> mcp_client \<Rightarrow> (mcp_error, unit) result \<times> mcp_client" where
  "mcp_send K body c =
     (case mc_writes c of
        Inl e # ws \<Rightarrow> (Inl (McpIo e), c\<lparr>mc_writes := ws\<rparr>)
      | Inr _ # ws \<Rightarrow> (Inr (), c\<lparr>mc_writes := ws, mc_sent := mc_sent c @ [mk_ser K body @ [CHR 0x0A]]\<rparr>)
      | [] \<Rightarrow> (Inr (), c\<lparr>mc_sent := mc_sent c @ [mk_ser K body @ [CHR 0x0A]]\<rparr>))"

definition answers :: "int \<Rightarrow> json \<Rightarrow> bool" where
  "answers i msg = (jget ''method'' msg = None \<and> Option.bind (jget ''id'' msg) as_i64 = Some i)"

fun read_response :: "mcp_codec \<Rightarrow> int \<Rightarrow> (string, string) result list \<Rightarrow> (mcp_error, json) result \<times> (string, string) result list" where
  "read_response K i [] = (Inl McpClosed, [])"
| "read_response K i (Inl e # rest) = (Inl (McpIo e), rest)"
| "read_response K i (Inr line # rest) =
     (case mk_de K (str_trim line) of
        None \<Rightarrow> read_response K i rest
      | Some msg \<Rightarrow>
          if \<not> answers i msg then read_response K i rest
          else (case jget ''error'' msg of
              Some err \<Rightarrow> (Inl (McpProtocol (str_or ''server error'' (jget ''message'' err))), rest)
            | None \<Rightarrow> (Inr msg, rest)))"

text \<open>A request: the next number is taken, the body is sent, the answer is read.\<close>

definition request :: "mcp_codec \<Rightarrow> (json \<Rightarrow> json) \<Rightarrow> mcp_client \<Rightarrow> (mcp_error, json) result \<times> mcp_client" where
  "request K body c =
     (let i = mc_next_id c
      in case mcp_send K (body (JNumber (if i < 0 then CHR ''-'' # show_nat (nat (- i)) else show_nat (nat i)))) (c\<lparr>mc_next_id := i + 1\<rparr>) of
           (Inl e, c1) \<Rightarrow> (Inl e, c1)
         | (Inr _, c1) \<Rightarrow> (case read_response K i (mc_incoming c1) of (r, rest) \<Rightarrow> (r, c1\<lparr>mc_incoming := rest\<rparr>)))"

section \<open>Operations\<close>

definition initialize_body :: "json \<Rightarrow> json" where
  "initialize_body i =
     JObject [(''id'', i), (''jsonrpc'', JString ''2.0''), (''method'', JString ''initialize''),
       (''params'', JObject [(''capabilities'', JObject []),
          (''clientInfo'', JObject [(''name'', JString ''modbit-core''), (''version'', JString ''0.1.0'')]),
          (''protocolVersion'', JString ''2024-11-05'')])]"

definition initialize :: "mcp_codec \<Rightarrow> mcp_client \<Rightarrow> (mcp_error, unit) result \<times> mcp_client" where
  "initialize K c =
     (case request K initialize_body c of
        (Inl e, c1) \<Rightarrow> (Inl e, c1)
      | (Inr msg, c1) \<Rightarrow>
          mcp_send K (JObject [(''jsonrpc'', JString ''2.0''), (''method'', JString ''notifications/initialized'')])
            (case Option.bind (jget ''result'' msg) (jget ''serverInfo'') of
               Some info \<Rightarrow> c1\<lparr>mc_server_version := str_or [] (jget ''version'' info)\<rparr>
             | None \<Rightarrow> c1))"

definition mcp_list_tools :: "mcp_codec \<Rightarrow> mcp_client \<Rightarrow> (mcp_error, mcp_tool list) result \<times> mcp_client" where
  "mcp_list_tools K c =
     (case request K (\<lambda>i. JObject [(''id'', i), (''jsonrpc'', JString ''2.0''), (''method'', JString ''tools/list''), (''params'', JObject [])]) c of
        (Inl e, c1) \<Rightarrow> (Inl e, c1)
      | (Inr msg, c1) \<Rightarrow>
          (Inr (case Option.bind (jget ''result'' msg) (jget ''tools'') of
              Some (JArray ts) \<Rightarrow>
                map (\<lambda>t. \<lparr>mt_name = str_or [] (jget ''name'' t), mt_description = str_or [] (jget ''description'' t),
                          mt_raw_schema = (case jget ''inputSchema'' t of Some s \<Rightarrow> s | None \<Rightarrow> JNull)\<rparr>) ts
            | _ \<Rightarrow> []), c1))"

definition text_block :: "json \<Rightarrow> string option" where
  "text_block item = (if Option.bind (jget ''type'' item) jstr = Some ''text'' then Option.bind (jget ''text'' item) jstr else None)"

definition call_tool :: "mcp_codec \<Rightarrow> string \<Rightarrow> json \<Rightarrow> mcp_client \<Rightarrow> (mcp_error, string) result \<times> mcp_client" where
  "call_tool K tool arguments c =
     (case request K (\<lambda>i. JObject [(''id'', i), (''jsonrpc'', JString ''2.0''), (''method'', JString ''tools/call''),
                        (''params'', JObject [(''arguments'', arguments), (''name'', JString tool)])]) c of
        (Inl e, c1) \<Rightarrow> (Inl e, c1)
      | (Inr msg, c1) \<Rightarrow>
          (case jget ''error'' msg of
             Some err \<Rightarrow> (Inl (McpProtocol (str_or ''tools/call failed'' (jget ''message'' err))), c1)
           | None \<Rightarrow>
               (Inr (case Option.bind (jget ''result'' msg) (jget ''content'') of
                   Some (JArray items) \<Rightarrow> str_join [CHR 0x0A] (List.map_filter text_block items)
                 | _ \<Rightarrow> []), c1)))"

section \<open>The pool\<close>

record external_server =
  es_name :: string
  es_command :: string
  es_args :: "string list"

text \<open>The machine: what starting a program with arguments gives, an error or what its pipes will do.\<close>

type_synonym spawner = "string \<Rightarrow> string list \<Rightarrow> (string, (string, unit) result list \<times> (string, string) result list) result"

definition mcp_spawn :: "mcp_codec \<Rightarrow> spawner \<Rightarrow> string \<Rightarrow> string list \<Rightarrow> string \<Rightarrow> (mcp_error, mcp_client) result" where
  "mcp_spawn K start command args name =
     (case split_whitespace command of
        [] \<Rightarrow> Inl (McpSpawn ''empty command'')
      | program # parts \<Rightarrow>
          (case start program (parts @ args) of
             Inl e \<Rightarrow> Inl (McpSpawn (program @ '': '' @ e))
           | Inr (writes, incoming) \<Rightarrow>
               (case initialize K \<lparr>mc_sent = [], mc_writes = writes, mc_incoming = incoming, mc_next_id = 1, mc_server_name = name, mc_server_version = []\<rparr> of
                  (Inl e, _) \<Rightarrow> Inl e
                | (Inr _, c) \<Rightarrow> Inr c)))"

record mcp_pool =
  mp_servers :: "(string, external_server) btree"
  mp_clients :: "mcp_client list"

definition pool_new :: "(string, external_server) btree \<Rightarrow> mcp_pool" where
  "pool_new servers = \<lparr>mp_servers = servers, mp_clients = []\<rparr>"

definition server_names :: "mcp_pool \<Rightarrow> string list" where
  "server_names p = map fst (mp_servers p)"

fun named_client :: "string \<Rightarrow> mcp_client list \<Rightarrow> mcp_client option" where
  "named_client name cs = find (\<lambda>c. mc_server_name c = name) cs"

definition pool_client :: "mcp_codec \<Rightarrow> spawner \<Rightarrow> string \<Rightarrow> mcp_pool \<Rightarrow> (mcp_error, mcp_client) result \<times> mcp_pool" where
  "pool_client K start name p =
     (case named_client name (mp_clients p) of
        Some c \<Rightarrow> (Inr c, p)
      | None \<Rightarrow>
          (case bt_get name (mp_servers p) of
             None \<Rightarrow> (Inl (McpSpawn (''unknown mcp server '' @ debug_str name)), p)
           | Some spec \<Rightarrow>
               (case mcp_spawn K start (es_command spec) (es_args spec) name of
                  Inl e \<Rightarrow> (Inl e, p)
                | Inr c \<Rightarrow> (case named_client name (mp_clients p @ [c]) of
                    Some c' \<Rightarrow> (Inr c', p\<lparr>mp_clients := mp_clients p @ [c]\<rparr>)
                  | None \<Rightarrow> (Inl McpClosed, p\<lparr>mp_clients := mp_clients p @ [c]\<rparr>)))))"

text \<open>An operation on the client of a server, which is a reference into the pool.\<close>

fun put_client :: "mcp_client \<Rightarrow> mcp_client list \<Rightarrow> mcp_client list" where
  "put_client c [] = []"
| "put_client c (x # xs) = (if mc_server_name x = mc_server_name c then c # xs else x # put_client c xs)"

definition with_client ::
  "mcp_codec \<Rightarrow> spawner \<Rightarrow> string \<Rightarrow> (mcp_client \<Rightarrow> (mcp_error, 'a) result \<times> mcp_client) \<Rightarrow> mcp_pool \<Rightarrow> (mcp_error, 'a) result \<times> mcp_pool" where
  "with_client K start name f p =
     (case pool_client K start name p of
        (Inl e, p1) \<Rightarrow> (Inl e, p1)
      | (Inr c, p1) \<Rightarrow> (case f c of (r, c') \<Rightarrow> (r, p1\<lparr>mp_clients := put_client c' (mp_clients p1)\<rparr>)))"

fun list_all_from :: "mcp_codec \<Rightarrow> spawner \<Rightarrow> string list \<Rightarrow> mcp_pool \<Rightarrow> (string \<times> (mcp_error, mcp_tool list) result) list \<times> mcp_pool" where
  "list_all_from K start [] p = ([], p)"
| "list_all_from K start (name # names) p =
     (case with_client K start name (mcp_list_tools K) p of
        (r, p1) \<Rightarrow> (case list_all_from K start names p1 of (rs, p2) \<Rightarrow> ((name, r) # rs, p2)))"

definition pool_list_all :: "mcp_codec \<Rightarrow> spawner \<Rightarrow> mcp_pool \<Rightarrow> (string \<times> (mcp_error, mcp_tool list) result) list \<times> mcp_pool" where
  "pool_list_all K start p = list_all_from K start (server_names p) p"

section \<open>Answers\<close>

text \<open>What can precede an answer: lines that are no JSON, notifications, and answers to other requests.\<close>

definition skipped :: "mcp_codec \<Rightarrow> int \<Rightarrow> (string, string) result \<Rightarrow> bool" where
  "skipped K i x \<longleftrightarrow> (\<exists>line. x = Inr line \<and> (case mk_de K (str_trim line) of None \<Rightarrow> True | Some msg \<Rightarrow> \<not> answers i msg))"

lemma read_skips: "list_all (skipped K i) pre \<Longrightarrow> read_response K i (pre @ rest) = read_response K i rest"
proof (induction pre)
  case (Cons x pre)
  have "skipped K i x" using Cons.prems by simp
  then obtain line where x: "x = Inr line" "case mk_de K (str_trim line) of None \<Rightarrow> True | Some msg \<Rightarrow> \<not> answers i msg" unfolding skipped_def by blast
  have "read_response K i (x # pre @ rest) = read_response K i (pre @ rest)" using x by (cases "mk_de K (str_trim line)") simp_all
  also have "\<dots> = read_response K i rest" by (rule Cons.IH) (use Cons.prems in simp)
  finally show ?case unfolding append_Cons .
qed simp

text \<open>The answer to a request is the first line that carries its number and is no notification, whatever comes before it; an error in it
  is reported, and what follows it is left for the next request.\<close>

lemma answer_is_found:
  assumes "list_all (skipped K i) pre" and "mk_de K (str_trim line) = Some msg" and "answers i msg"
  shows "read_response K i (pre @ Inr line # rest) =
    (case jget ''error'' msg of Some err \<Rightarrow> Inl (McpProtocol (str_or ''server error'' (jget ''message'' err))) | None \<Rightarrow> Inr msg, rest)"
  using read_skips [OF assms(1), of "Inr line # rest"] assms(2,3) by (simp split: option.split)

lemma answer_is_found_witness:
  "read_response \<lparr>mk_ser = (\<lambda>_. []), mk_de = (\<lambda>s. if s = ''m'' then Some (JObject [(''id'', JNumber ''1'')]) else None)\<rparr> 1 [Inr ''noise'', Inr ''m'']
     = (Inr (JObject [(''id'', JNumber ''1'')]), [])"
proof -
  let ?K = "\<lparr>mk_ser = (\<lambda>_. []), mk_de = (\<lambda>s. if s = ''m'' then Some (JObject [(''id'', JNumber ''1'')]) else None)\<rparr>"
  have p: "parse_i64 ''1'' = Some 1" by (simp add: parse_i64_def is_digit_def digit_val_def)
  have t: "str_trim ''m'' = ''m''" "str_trim ''noise'' = ''noise''" by code_simp+
  have "list_all (skipped ?K 1) [Inr ''noise'']" using t by (auto simp: skipped_def)
  moreover have "mk_de ?K (str_trim ''m'') = Some (JObject [(''id'', JNumber ''1'')])" using t by simp
  moreover have "answers 1 (JObject [(''id'', JNumber ''1'')])" using p by (simp add: answers_def jget_def as_i64_def)
  ultimately show ?thesis using answer_is_found [of ?K 1 "[Inr ''noise'']" "''m''" "JObject [(''id'', JNumber ''1'')]" "[]"] by (simp add: jget_def)
qed

text \<open>An answer whose error is null counts as a failure, although it carries a result.\<close>

lemma null_error_fails:
  assumes "mk_de K (str_trim line) = Some msg" and "answers i msg" and "jget ''error'' msg = Some JNull"
  shows "fst (read_response K i (Inr line # rest)) = Inl (McpProtocol ''server error'')"
  using assms by (simp add: str_or_def jget_def)

section \<open>A server that ended\<close>

lemma dead_request: "mc_incoming c = [] \<Longrightarrow> mc_writes c = [] \<Longrightarrow> \<exists>c'. request K body c = (Inl McpClosed, c') \<and> mc_incoming c' = [] \<and> mc_writes c' = [] \<and> mc_server_name c' = mc_server_name c"
  by (simp add: request_def mcp_send_def Let_def)

lemma dead_call: "mc_incoming c = [] \<Longrightarrow> mc_writes c = [] \<Longrightarrow> \<exists>c'. call_tool K tool args c = (Inl McpClosed, c') \<and> mc_incoming c' = [] \<and> mc_writes c' = [] \<and> mc_server_name c' = mc_server_name c"
  using dead_request [of c K "\<lambda>i. JObject [(''id'', i), (''jsonrpc'', JString ''2.0''), (''method'', JString ''tools/call''),
      (''params'', JObject [(''arguments'', args), (''name'', JString tool)])]"] by (auto simp: call_tool_def)

lemma put_client_find:
  "find (\<lambda>c. mc_server_name c = mc_server_name d) cs \<noteq> None \<Longrightarrow> find (\<lambda>c. mc_server_name c = mc_server_name d) (put_client d cs) = Some d"
  by (induction cs) (auto split: if_splits)

fun call_often :: "mcp_codec \<Rightarrow> spawner \<Rightarrow> string \<Rightarrow> (string \<times> json) list \<Rightarrow> mcp_pool \<Rightarrow> (mcp_error, string) result list" where
  "call_often K start name [] p = []"
| "call_often K start name ((tool, args) # calls) p =
     (case with_client K start name (call_tool K tool args) p of (r, p1) \<Rightarrow> r # call_often K start name calls p1)"

text \<open>Once a server has ended, the pool never starts it again: every later call of its tools fails, however often it is tried.\<close>

lemma ended_server_stays_dead:
  assumes "named_client name (mp_clients p) = Some c" and "mc_incoming c = []" and "mc_writes c = []"
  shows "call_often K start name calls p = replicate (length calls) (Inl McpClosed)"
  using assms
proof (induction calls arbitrary: p c)
  case (Cons x calls)
  obtain tool args where x: "x = (tool, args)" by (cases x)
  have n: "mc_server_name c = name" using Cons.prems(1) by (auto simp: find_Some_iff)
  obtain c' where c': "call_tool K tool args c = (Inl McpClosed, c')" "mc_incoming c' = []" "mc_writes c' = []" "mc_server_name c' = mc_server_name c"
    using dead_call [OF Cons.prems(2,3)] by blast
  let ?p = "p\<lparr>mp_clients := put_client c' (mp_clients p)\<rparr>"
  have w: "with_client K start name (call_tool K tool args) p = (Inl McpClosed, ?p)"
    using Cons.prems(1) c'(1) by (simp add: with_client_def pool_client_def)
  have "named_client name (mp_clients ?p) = Some c'" using put_client_find [of c' "mp_clients p"] Cons.prems(1) c'(4) n by simp
  then show ?case using Cons.IH [of ?p c'] c'(2,3) w x by simp
qed simp

lemma ended_server_stays_dead_witness:
  "call_often \<lparr>mk_ser = (\<lambda>_. []), mk_de = (\<lambda>_. None)\<rparr> (\<lambda>_ _. Inl []) ''s'' [(''t'', JNull), (''t'', JNull)]
     \<lparr>mp_servers = [], mp_clients = [\<lparr>mc_sent = [], mc_writes = [], mc_incoming = [], mc_next_id = 2, mc_server_name = ''s'', mc_server_version = []\<rparr>]\<rparr>
   = [Inl McpClosed, Inl McpClosed]"
  using ended_server_stays_dead [of "''s''" "\<lparr>mp_servers = [], mp_clients = [\<lparr>mc_sent = [], mc_writes = [], mc_incoming = [], mc_next_id = 2, mc_server_name = ''s'', mc_server_version = []\<rparr>]\<rparr>"
      "\<lparr>mc_sent = [], mc_writes = [], mc_incoming = [], mc_next_id = 2, mc_server_name = ''s'', mc_server_version = []\<rparr>"
      "\<lparr>mk_ser = (\<lambda>_. []), mk_de = (\<lambda>_. None)\<rparr>" "\<lambda>_ _. Inl []" "[(''t'', JNull), (''t'', JNull)]"]
  by (simp add: numeral_2_eq_2)

end
