(* ===== verification/Engineering_Memory.thy ===== *)
theory Engineering_Memory
  imports Rust_Text Ordered_Map
begin

text \<open>
  The hub of external tools, the resolution of server configurations and the engineering memory
  (\<^verbatim>\<open>crates/checkpoint/src/mcp_memory.rs\<close>), and the importers, plugins and transport pool
  (\<^verbatim>\<open>crates/checkpoint/src/importers_plugins.rs\<close>). The SHA-256 digest is a parameter. The 64-bit counters, which
  grow by one with each call, are natural numbers. The chain of supersessions is followed by a loop without a bound: it is a
  partial function that is proved to return in every memory that the operations can reach.
\<close>

section \<open>The hub of external tools\<close>

record hub_tool =
  ht_server :: string
  ht_name :: string
  ht_schema :: string

datatype hub_call_status = Hub_Running | Hub_Completed | Hub_Cancelled

record hub_call =
  hc_call_id :: string
  hc_task_id :: string
  hc_turn :: nat
  hc_tool :: string
  hc_arguments :: string
  hc_status :: hub_call_status

datatype hub_error = Hub_UnknownTool string | Hub_UnknownCall string | Hub_AlreadyCancelled string

fun show_hub_error :: "hub_error \<Rightarrow> string" where
  "show_hub_error (Hub_UnknownTool t) = ''unknown MCP tool '' @ debug_str t"
| "show_hub_error (Hub_UnknownCall c) = ''unknown MCP call '' @ debug_str c"
| "show_hub_error (Hub_AlreadyCancelled c) = ''MCP call '' @ debug_str c @ '' already cancelled''"

record mcp_hub =
  hb_tools :: "(string, hub_tool) btree"
  hb_calls :: "(string, hub_call) btree"
  hb_counter :: nat

definition hub_new :: mcp_hub where
  "hub_new = \<lparr>hb_tools = [], hb_calls = [], hb_counter = 0\<rparr>"

definition hub_list :: "mcp_hub \<Rightarrow> hub_tool list" where
  "hub_list h = bt_values (hb_tools h)"

definition hub_register :: "hub_tool \<Rightarrow> mcp_hub \<Rightarrow> mcp_hub" where
  "hub_register t h = h\<lparr>hb_tools := bt_insert (ht_server t @ ''/'' @ ht_name t) t (hb_tools h)\<rparr>"

definition hub_call_start :: "string \<Rightarrow> nat \<Rightarrow> string \<Rightarrow> string \<Rightarrow> string \<Rightarrow> mcp_hub \<Rightarrow> (hub_error, hub_call) result \<times> mcp_hub" where
  "hub_call_start task turn server tool arguments h =
     (if bt_get (server @ ''/'' @ tool) (hb_tools h) = None then (Inl (Hub_UnknownTool tool), h)
      else let n = hb_counter h + 1;
               i = ''mcp-call-'' @ show_nat n;
               c = \<lparr>hc_call_id = i, hc_task_id = task, hc_turn = turn, hc_tool = tool, hc_arguments = arguments, hc_status = Hub_Running\<rparr>
           in (Inr c, h\<lparr>hb_calls := bt_insert i c (hb_calls h), hb_counter := n\<rparr>))"

definition set_call_status :: "string \<Rightarrow> hub_call_status \<Rightarrow> mcp_hub \<Rightarrow> mcp_hub" where
  "set_call_status i st h = h\<lparr>hb_calls := bt_update i (\<lambda>c. c\<lparr>hc_status := st\<rparr>) (hb_calls h)\<rparr>"

definition hub_cancel :: "string \<Rightarrow> mcp_hub \<Rightarrow> (hub_error, unit) result \<times> mcp_hub" where
  "hub_cancel i h =
     (case bt_get i (hb_calls h) of
        None \<Rightarrow> (Inl (Hub_UnknownCall i), h)
      | Some c \<Rightarrow> if hc_status c = Hub_Cancelled then (Inl (Hub_AlreadyCancelled i), h) else (Inr (), set_call_status i Hub_Cancelled h))"

definition hub_complete :: "string \<Rightarrow> mcp_hub \<Rightarrow> (hub_error, unit) result \<times> mcp_hub" where
  "hub_complete i h =
     (case bt_get i (hb_calls h) of
        None \<Rightarrow> (Inl (Hub_UnknownCall i), h)
      | Some c \<Rightarrow> (Inr (), set_call_status i Hub_Completed h))"

definition calls_for_task :: "string \<Rightarrow> mcp_hub \<Rightarrow> hub_call list" where
  "calls_for_task task h = filter (\<lambda>c. hc_task_id c = task) (bt_values (hb_calls h))"

section \<open>Configurations of servers\<close>

datatype config_scope = Scope_Project | Scope_User

record server_config =
  sc_server :: string
  sc_scope :: config_scope
  sc_command :: string
  sc_credential_ref :: "string option"

fun config_rank :: "config_scope \<Rightarrow> nat" where
  "config_rank Scope_Project = 0"
| "config_rank Scope_User = 1"

definition resolve_server_configs :: "server_config list \<Rightarrow> (string, server_config) btree" where
  "resolve_server_configs cs = foldl (\<lambda>m c. bt_insert (sc_server c) c m) [] (sort_key (\<lambda>c. config_rank (sc_scope c)) cs)"

definition credential_for_prompt :: "server_config \<Rightarrow> string option" where
  "credential_for_prompt c = sc_credential_ref c"

section \<open>The engineering memory\<close>

record memory_fact =
  mf_fact_id :: string
  mf_text :: string
  mf_scope :: string
  mf_provenance :: string
  mf_ttl_expires_ms :: "int option"
  mf_superseded_by :: "string option"
  mf_deleted :: bool

datatype memory_error = Mem_NotValidated | Mem_Expired string | Mem_AlreadySuperseded string

fun show_memory_error :: "memory_error \<Rightarrow> string" where
  "show_memory_error Mem_NotValidated = ''fact is not validated '' @ map char_of [226 :: nat, 128, 148] @ '' cannot promote''"
| "show_memory_error (Mem_Expired i) = ''fact '' @ i @ '' expired (TTL)''"
| "show_memory_error (Mem_AlreadySuperseded i) = ''fact '' @ i @ '' already superseded''"

record engineering_memory =
  em_facts :: "(string, memory_fact) btree"
  em_counter :: nat

definition memory_new :: engineering_memory where
  "memory_new = \<lparr>em_facts = [], em_counter = 0\<rparr>"

definition fact_name :: "nat \<Rightarrow> string" where
  "fact_name n = ''fact-'' @ show_nat n"

definition promote_validated ::
  "string \<Rightarrow> string \<Rightarrow> string \<Rightarrow> int option \<Rightarrow> engineering_memory \<Rightarrow> (memory_error, string) result \<times> engineering_memory" where
  "promote_validated body scope provenance ttl m =
     (if provenance = [] then (Inl Mem_NotValidated, m)
      else let n = em_counter m + 1; i = fact_name n
           in (Inr i, m\<lparr>em_counter := n, em_facts := bt_insert i
                 \<lparr>mf_fact_id = i, mf_text = body, mf_scope = scope, mf_provenance = provenance, mf_ttl_expires_ms = ttl,
                  mf_superseded_by = None, mf_deleted = False\<rparr> (em_facts m)\<rparr>))"

definition supersede ::
  "string \<Rightarrow> string \<Rightarrow> string \<Rightarrow> string \<Rightarrow> engineering_memory \<Rightarrow> (memory_error, string) result \<times> engineering_memory" where
  "supersede old_id new_text new_scope provenance m =
     (case bt_get old_id (em_facts m) of
        None \<Rightarrow> (Inl (Mem_AlreadySuperseded old_id), m)
      | Some old \<Rightarrow>
          if mf_superseded_by old \<noteq> None \<or> mf_deleted old then (Inl (Mem_AlreadySuperseded old_id), m)
          else (case promote_validated new_text new_scope provenance None m of
                  (Inl e, m1) \<Rightarrow> (Inl e, m1)
                | (Inr new_id, m1) \<Rightarrow>
                    (Inr new_id, m1\<lparr>em_facts := bt_update old_id (\<lambda>f. f\<lparr>mf_superseded_by := Some new_id\<rparr>) (em_facts m1)\<rparr>)))"

definition delete_fact :: "string \<Rightarrow> engineering_memory \<Rightarrow> (memory_error, unit) result \<times> engineering_memory" where
  "delete_fact i m =
     (case bt_get i (em_facts m) of
        None \<Rightarrow> (Inl (Mem_AlreadySuperseded i), m)
      | Some _ \<Rightarrow> (Inr (), m\<lparr>em_facts := bt_update i (\<lambda>f. f\<lparr>mf_deleted := True\<rparr>) (em_facts m)\<rparr>))"

definition fact_is_live :: "int \<Rightarrow> memory_fact \<Rightarrow> bool" where
  "fact_is_live now f \<longleftrightarrow> \<not> mf_deleted f \<and> mf_superseded_by f = None \<and> (case mf_ttl_expires_ms f of None \<Rightarrow> True | Some t \<Rightarrow> t > now)"

definition live_facts :: "int \<Rightarrow> engineering_memory \<Rightarrow> memory_fact list" where
  "live_facts now m = filter (fact_is_live now) (bt_values (em_facts m))"

partial_function (option) chain_loop :: "(string, memory_fact) btree \<Rightarrow> string list \<Rightarrow> string \<Rightarrow> string list option" where
  "chain_loop facts chain current =
     (case Option.bind (bt_get current facts) mf_superseded_by of
        None \<Rightarrow> Some chain
      | Some next \<Rightarrow> chain_loop facts (chain @ [next]) next)"

definition supersession_chain :: "engineering_memory \<Rightarrow> string \<Rightarrow> string list option" where
  "supersession_chain m i = chain_loop (em_facts m) [i] i"

section \<open>Importers\<close>

record migrated_item =
  mg_name :: string
  mg_kind :: string
  mg_disposition :: string

record migration_report =
  mr_items :: "migrated_item list"
  mr_quarantined_until_trusted :: "string list"

definition import_item :: "migration_report \<Rightarrow> string \<times> string \<times> string \<Rightarrow> migration_report" where
  "import_item r item =
     (case item of (name, kind, content) \<Rightarrow>
        if kind \<in> {''executable-script'', ''binary''} \<or> str_contains content ''eval(''
        then \<lparr>mr_items = mr_items r @ [\<lparr>mg_name = name, mg_kind = kind, mg_disposition = ''quarantined''\<rparr>],
              mr_quarantined_until_trusted = mr_quarantined_until_trusted r @ [name]\<rparr>
        else r\<lparr>mr_items := mr_items r @ [\<lparr>mg_name = name, mg_kind = kind, mg_disposition = ''mapped''\<rparr>]\<rparr>)"

definition import_from_agent :: "(string \<times> string \<times> string) list \<Rightarrow> migration_report" where
  "import_from_agent items = foldl import_item \<lparr>mr_items = [], mr_quarantined_until_trusted = []\<rparr> items"

definition import_compatibility_fixture :: "(string \<times> string) list \<Rightarrow> (string \<times> string) list" where
  "import_compatibility_fixture items =
     map (\<lambda>(name, kind). (if kind \<in> {''instruction-manifest'', ''command'', ''skill'', ''agent'', ''mcp-resource''} then ''mapped'' else ''skipped'', name)) items"

section \<open>Plugins\<close>

record plugin =
  pn_plugin_id :: string
  pn_commands :: "string list"
  pn_tools :: "string list"
  pn_hooks :: "string list"
  pn_providers :: "string list"
  pn_healthy :: bool

record extension_system =
  es_plugins :: "(string, plugin) btree"
  es_core_run_state_corruptions :: nat

definition register_plugin :: "plugin \<Rightarrow> extension_system \<Rightarrow> extension_system" where
  "register_plugin p s = s\<lparr>es_plugins := bt_insert (pn_plugin_id p) p (es_plugins s)\<rparr>"

definition plugin_provides :: "string \<Rightarrow> plugin \<Rightarrow> bool" where
  "plugin_provides capability p \<longleftrightarrow> capability \<in> set (pn_commands p) \<or> capability \<in> set (pn_tools p)
     \<or> capability \<in> set (pn_hooks p) \<or> capability \<in> set (pn_providers p)"

definition dispatch_capability :: "string \<Rightarrow> extension_system \<Rightarrow> string list \<times> extension_system" where
  "dispatch_capability capability s =
     (map pn_plugin_id (filter (\<lambda>p. plugin_provides capability p \<and> pn_healthy p) (bt_values (es_plugins s))), s)"

section \<open>The transport pool\<close>

record mcp_transport =
  tr_pool_key :: string
  tr_tenant :: string
  tr_healthy :: bool
  tr_shared_by :: "string list"

type_synonym transport_pool = "(string, mcp_transport) btree"

definition config_fingerprint :: "(string \<Rightarrow> string) \<Rightarrow> string \<Rightarrow> string list \<Rightarrow> string" where
  "config_fingerprint H command args = H (str_join '' '' (split_whitespace (command @ '' '' @ str_join '' '' args)))"

definition share_with :: "string \<Rightarrow> mcp_transport \<Rightarrow> mcp_transport" where
  "share_with session t = (if session \<in> set (tr_shared_by t) then t else t\<lparr>tr_shared_by := tr_shared_by t @ [session]\<rparr>)"

definition acquire_transport :: "string \<Rightarrow> string \<Rightarrow> string \<Rightarrow> transport_pool \<Rightarrow> mcp_transport \<times> transport_pool" where
  "acquire_transport session tenant fingerprint p =
     (let key = tenant @ '':'' @ fingerprint;
          t = share_with session (case bt_get key p of Some t \<Rightarrow> t
                | None \<Rightarrow> \<lparr>tr_pool_key = key, tr_tenant = tenant, tr_healthy = True, tr_shared_by = []\<rparr>)
      in (t, bt_insert key t p))"

section \<open>The memory over runs\<close>

datatype memory_op = Mo_Promote string string string "int option" | Mo_Supersede string string string string | Mo_Delete string

fun memory_step :: "engineering_memory \<Rightarrow> memory_op \<Rightarrow> engineering_memory" where
  "memory_step m (Mo_Promote body scope provenance ttl) = snd (promote_validated body scope provenance ttl m)"
| "memory_step m (Mo_Supersede i body scope provenance) = snd (supersede i body scope provenance m)"
| "memory_step m (Mo_Delete i) = snd (delete_fact i m)"

definition memory_run :: "memory_op list \<Rightarrow> engineering_memory" where
  "memory_run ops = foldl memory_step memory_new ops"

text \<open>Every fact has a numbered name and a provenance, and is superseded only by a fact with a larger number.\<close>

definition superseded_later :: "engineering_memory \<Rightarrow> nat \<Rightarrow> memory_fact \<Rightarrow> bool" where
  "superseded_later m n f \<longleftrightarrow> (\<forall>s. mf_superseded_by f = Some s \<longrightarrow>
     (\<exists>k. n < k \<and> k \<le> em_counter m \<and> s = fact_name k \<and> bt_get s (em_facts m) \<noteq> None))"

definition fact_ok :: "engineering_memory \<Rightarrow> string \<Rightarrow> memory_fact \<Rightarrow> bool" where
  "fact_ok m i f \<longleftrightarrow> mf_fact_id f = i \<and> mf_provenance f \<noteq> [] \<and>
     (\<exists>n. n \<le> em_counter m \<and> i = fact_name n \<and> superseded_later m n f)"

definition memory_ok :: "engineering_memory \<Rightarrow> bool" where
  "memory_ok m \<longleftrightarrow> bt_sorted (em_facts m) \<and> (\<forall>i f. bt_get i (em_facts m) = Some f \<longrightarrow> fact_ok m i f)"

lemma fact_name_inject [simp]: "fact_name m = fact_name n \<longleftrightarrow> m = n"
  by (simp add: fact_name_def)

lemma memory_okD:
  assumes "memory_ok m" and "bt_get i (em_facts m) = Some f"
  shows "fact_ok m i f"
  using assms by (simp add: memory_ok_def)

lemma fact_ok_mono:
  assumes "fact_ok m i f" and "em_counter m \<le> em_counter m'" and "\<And>j. bt_get j (em_facts m) \<noteq> None \<Longrightarrow> bt_get j (em_facts m') \<noteq> None"
  shows "fact_ok m' i f"
  using assms unfolding fact_ok_def superseded_later_def by (meson le_trans)

lemma fresh_fact:
  assumes "memory_ok m"
  shows "bt_get (fact_name (Suc (em_counter m))) (em_facts m) = None"
proof (rule ccontr)
  assume "\<not> ?thesis"
  then obtain f where "bt_get (fact_name (Suc (em_counter m))) (em_facts m) = Some f" by auto
  from memory_okD [OF assms this] show False by (auto simp: fact_ok_def)
qed

lemma promote_ok [invs]:
  assumes "memory_ok m"
  shows "memory_ok (snd (promote_validated body scope provenance ttl m))"
proof (cases "provenance = []")
  case False
  let ?m = "snd (promote_validated body scope provenance ttl m)"
  have s: "bt_sorted (em_facts m)" using assms by (simp add: memory_ok_def)
  have c: "em_counter m \<le> em_counter ?m" using False by (simp add: promote_validated_def Let_def)
  have k: "bt_get j (em_facts m) \<noteq> None \<Longrightarrow> bt_get j (em_facts ?m) \<noteq> None" for j
    using False s by (simp add: promote_validated_def Let_def)
  have "fact_ok ?m i f" if g: "bt_get i (em_facts ?m) = Some f" for i f
  proof (cases "i = fact_name (Suc (em_counter m))")
    case True
    then show ?thesis using g False s by (auto simp: promote_validated_def Let_def fact_ok_def superseded_later_def)
  next
    case n: False
    then have "bt_get i (em_facts m) = Some f" using g False s by (simp add: promote_validated_def Let_def)
    then show ?thesis using fact_ok_mono [OF memory_okD [OF assms] c k] by blast
  qed
  moreover have "bt_sorted (em_facts ?m)" using False s by (simp add: promote_validated_def Let_def)
  ultimately show ?thesis by (simp add: memory_ok_def)
qed (simp add: promote_validated_def assms)

lemma update_fact_ok:
  assumes "memory_ok m" and "\<And>f. fact_ok m i f \<Longrightarrow> bt_get i (em_facts m) = Some f \<Longrightarrow> fact_ok m i (g f)"
  shows "memory_ok (m\<lparr>em_facts := bt_update i g (em_facts m)\<rparr>)" (is "memory_ok ?m")
proof -
  have keep: "fact_ok ?m j f" if "fact_ok m j f" for j f
    by (rule fact_ok_mono [OF that]) auto
  have "fact_ok ?m j f" if h: "bt_get j (em_facts ?m) = Some f" for j f
  proof (cases "j = i")
    case True
    then obtain f0 where "bt_get i (em_facts m) = Some f0" "f = g f0" using h by auto
    then show ?thesis using assms(2) memory_okD [OF assms(1)] keep True by blast
  next
    case False
    then show ?thesis using h memory_okD [OF assms(1)] keep by simp
  qed
  then show ?thesis using assms(1) by (simp add: memory_ok_def)
qed

lemma supersede_ok [invs]:
  assumes "memory_ok m"
  shows "memory_ok (snd (supersede i body scope provenance m))"
proof (cases "bt_get i (em_facts m)")
  case (Some old)
  let ?n = "Suc (em_counter m)"
  define m1 where "m1 = snd (promote_validated body scope provenance None m)"
  have p: "promote_validated body scope provenance None m = (if provenance = [] then Inl Mem_NotValidated else Inr (fact_name ?n), m1)"
    and m1: "provenance = [] \<Longrightarrow> m1 = m" by (simp_all add: m1_def promote_validated_def Let_def)
  have ok: "memory_ok m1" using promote_ok [OF assms, of body scope provenance None] p by simp
  have s: "bt_sorted (em_facts m)" using assms by (simp add: memory_ok_def)
  have new: "provenance \<noteq> [] \<Longrightarrow> em_counter m1 = ?n \<and> bt_get (fact_name ?n) (em_facts m1) \<noteq> None \<and> bt_get i (em_facts m1) = Some old"
    using p s Some fresh_fact [OF assms] by (auto simp: promote_validated_def Let_def)
  have "memory_ok (m1\<lparr>em_facts := bt_update i (\<lambda>f. f\<lparr>mf_superseded_by := Some (fact_name ?n)\<rparr>) (em_facts m1)\<rparr>)" if np: "provenance \<noteq> []"
  proof (rule update_fact_ok [OF ok])
    fix f
    assume f: "fact_ok m1 i f"
    obtain k where k: "k \<le> em_counter m" "i = fact_name k" using memory_okD [OF assms Some] by (auto simp: fact_ok_def)
    then show "fact_ok m1 i (f\<lparr>mf_superseded_by := Some (fact_name ?n)\<rparr>)"
      using f new [OF np] by (auto simp: fact_ok_def superseded_later_def)
  qed
  then show ?thesis using Some p m1 assms by (simp add: supersede_def split: sum.split)
qed (simp add: supersede_def assms)

lemma delete_ok [invs]: "memory_ok m \<Longrightarrow> memory_ok (snd (delete_fact i m))"
  unfolding delete_fact_def by (auto intro!: update_fact_ok simp: fact_ok_def superseded_later_def split: option.split)

interpretation memory: machine memory_step memory_ok
proof
  fix m x
  assume "memory_ok m"
  then show "memory_ok (memory_step m x)" by (cases x) (simp_all add: invs)
qed

lemma memory_run_ok: "memory_ok (memory_run ops)"
  unfolding memory_run_def by (rule memory.run_inv) (simp add: memory_new_def memory_ok_def)

section \<open>Chains of supersessions\<close>

abbreviation superseded_to :: "engineering_memory \<Rightarrow> string \<Rightarrow> string \<Rightarrow> bool" where
  "superseded_to m a b \<equiv> \<exists>f. bt_get a (em_facts m) = Some f \<and> mf_superseded_by f = Some b"

lemma chain_loop_returns:
  assumes "memory_ok m"
  shows "\<exists>rest. chain_loop (em_facts m) chain i = Some (chain @ rest) \<and> successively (superseded_to m) (i # rest) \<and>
    \<not> (\<exists>b. superseded_to m (last (i # rest)) b)"
proof (cases "\<exists>n. i = fact_name n")
  case True
  then obtain n where "i = fact_name n" by blast
  then show ?thesis
  proof (induction "em_counter m - n" arbitrary: n i chain rule: less_induct)
    case less
    show ?case
    proof (cases "Option.bind (bt_get i (em_facts m)) mf_superseded_by")
      case None
      then have "chain_loop (em_facts m) chain i = Some (chain @ [])" by (simp add: chain_loop.simps)
      then show ?thesis using None by (intro exI [of _ "[]"]) auto
    next
      case (Some s)
      then obtain f where f: "bt_get i (em_facts m) = Some f" "mf_superseded_by f = Some s" by (auto simp: bind_eq_Some_conv)
      obtain k where k: "n < k" "k \<le> em_counter m" "s = fact_name k"
        using memory_okD [OF assms f(1)] f(2) less.prems by (auto simp: fact_ok_def superseded_later_def)
      have "em_counter m - k < em_counter m - n" using k by simp
      from less.hyps [OF this k(3), of "chain @ [s]"] obtain rest where
        r: "chain_loop (em_facts m) (chain @ [s]) s = Some ((chain @ [s]) @ rest)" "successively (superseded_to m) (s # rest)"
          "\<not> (\<exists>b. superseded_to m (last (s # rest)) b)" by blast
      have "chain_loop (em_facts m) chain i = Some (chain @ s # rest)" using r(1) Some by (subst chain_loop.simps) simp
      then show ?thesis using r(2,3) f by (intro exI [of _ "s # rest"]) simp
    qed
  qed
next
  case False
  have "bt_get i (em_facts m) = None"
    using memory_okD [OF assms] False by (cases "bt_get i (em_facts m)") (auto simp: fact_ok_def)
  then show ?thesis by (intro exI [of _ "[]"]) (simp add: chain_loop.simps)
qed

lemma successively_butlast: "successively P xs \<Longrightarrow> a \<in> set (butlast xs) \<Longrightarrow> \<exists>b. P a b"
  by (induction xs rule: induct_list012) auto

text \<open>C34: whatever was promoted, superseded and deleted, the chain of a fact is found: the search ends, the chain starts with the fact, each
  member is superseded by the next and the last by none; at any time only the last can be live.\<close>
theorem supersession_chain_returns:
  "\<exists>chain. supersession_chain (memory_run ops) i = Some chain \<and> chain \<noteq> [] \<and> hd chain = i \<and>
     successively (superseded_to (memory_run ops)) chain \<and> \<not> (\<exists>b. superseded_to (memory_run ops) (last chain) b) \<and>
     (\<forall>f \<in> set (live_facts now (memory_run ops)). mf_fact_id f \<in> set chain \<longrightarrow> mf_fact_id f = last chain)"
proof -
  let ?m = "memory_run ops"
  obtain rest where r: "chain_loop (em_facts ?m) [i] i = Some ([i] @ rest)" "successively (superseded_to ?m) (i # rest)"
    "\<not> (\<exists>b. superseded_to ?m (last (i # rest)) b)" using chain_loop_returns [OF memory_run_ok, of ops "[i]" i] by blast
  have "mf_fact_id f = last (i # rest)" if f: "f \<in> set (live_facts now ?m)" and m: "mf_fact_id f \<in> set (i # rest)" for f
  proof (rule ccontr)
    assume "mf_fact_id f \<noteq> last (i # rest)"
    moreover have "mf_fact_id f \<in> set (butlast (i # rest)) \<or> mf_fact_id f = last (i # rest)"
      using m append_butlast_last_id [of "i # rest"] by (metis Un_iff empty_iff list.distinct(1) set_ConsD set_append set_empty)
    ultimately obtain g b where g: "bt_get (mf_fact_id f) (em_facts ?m) = Some g" "mf_superseded_by g = Some b"
      using successively_butlast [OF r(2)] by blast
    have "bt_sorted (em_facts ?m)" using memory_run_ok by (simp add: memory_ok_def)
    then obtain j where j: "bt_get j (em_facts ?m) = Some f" using f bt_values_get by (fastforce simp: live_facts_def)
    then have "mf_fact_id f = j" using memory_okD [OF memory_run_ok] by (auto simp: fact_ok_def)
    then show False using g j f by (simp add: live_facts_def fact_is_live_def)
  qed
  then show ?thesis using r by (intro exI [of _ "i # rest"]) (auto simp: supersession_chain_def)
qed

theorem supersession_chain_returns_witness:
  "\<exists>chain. supersession_chain (memory_run [Mo_Promote ''a'' ''team'' ''p'' None, Mo_Supersede ''fact-1'' ''b'' ''team'' ''q'']) ''fact-1'' = Some chain \<and>
     hd chain = ''fact-1''"
  using supersession_chain_returns [of "[Mo_Promote ''a'' ''team'' ''p'' None, Mo_Supersede ''fact-1'' ''b'' ''team'' ''q'']" "''fact-1''" 0] by blast

section \<open>Calls of the hub stay on record\<close>

datatype hub_op = Ho_Register hub_tool | Ho_Call string nat string string string | Ho_Cancel string | Ho_Complete string

fun hub_step :: "mcp_hub \<Rightarrow> hub_op \<Rightarrow> mcp_hub" where
  "hub_step h (Ho_Register t) = hub_register t h"
| "hub_step h (Ho_Call task turn server tool arguments) = snd (hub_call_start task turn server tool arguments h)"
| "hub_step h (Ho_Cancel i) = snd (hub_cancel i h)"
| "hub_step h (Ho_Complete i) = snd (hub_complete i h)"

definition hub_run :: "hub_op list \<Rightarrow> mcp_hub \<Rightarrow> mcp_hub" where
  "hub_run ops h = foldl hub_step h ops"

definition hub_ok :: "mcp_hub \<Rightarrow> bool" where
  "hub_ok h \<longleftrightarrow> bt_sorted (hb_calls h) \<and> (\<forall>i c. bt_get i (hb_calls h) = Some c \<longrightarrow> (\<exists>n \<le> hb_counter h. i = ''mcp-call-'' @ show_nat n))"

text \<open>A call keeps everything but its status.\<close>

definition on_record :: "hub_call \<Rightarrow> mcp_hub \<Rightarrow> bool" where
  "on_record c h \<longleftrightarrow> hub_ok h \<and> (\<exists>st. bt_get (hc_call_id c) (hb_calls h) = Some (c\<lparr>hc_status := st\<rparr>))"

lemma fresh_call: "hub_ok h \<Longrightarrow> bt_get (''mcp-call-'' @ show_nat (Suc (hb_counter h))) (hb_calls h) = None"
  by (rule ccontr) (fastforce simp: hub_ok_def)

lemma call_start_ok [invs]: "hub_ok h \<Longrightarrow> hub_ok (snd (hub_call_start task turn server tool arguments h))"
  by (auto simp: hub_ok_def hub_call_start_def Let_def)

lemma set_status_ok [invs]: "hub_ok h \<Longrightarrow> hub_ok (set_call_status i st h)"
  by (auto simp: hub_ok_def set_call_status_def)

lemma hub_step_ok [invs]: "hub_ok h \<Longrightarrow> hub_ok (hub_step h x)"
  by (cases x) (auto simp: invs hub_cancel_def hub_complete_def hub_register_def hub_ok_def [of "h\<lparr>hb_tools := _\<rparr>"] hub_ok_def [of h] split: option.split)

lemma set_status_record: "on_record c h \<Longrightarrow> on_record c (set_call_status i st h)"
  by (auto simp: on_record_def invs) (auto simp: set_call_status_def)

lemma call_start_record:
  assumes "on_record c h"
  shows "on_record c (snd (hub_call_start task turn server tool arguments h))"
proof -
  have "hub_ok h" using assms by (simp add: on_record_def)
  then have "bt_sorted (hb_calls h)" "hc_call_id c \<noteq> ''mcp-call-'' @ show_nat (Suc (hb_counter h))"
    using fresh_call assms by (auto simp: hub_ok_def on_record_def)
  then show ?thesis using assms call_start_ok [OF \<open>hub_ok h\<close>] by (auto simp: on_record_def hub_call_start_def Let_def)
qed

interpretation recorded: machine hub_step "on_record c" for c
proof
  fix h x
  assume r: "on_record c h"
  then have "hub_ok (hub_step h x)" by (simp add: on_record_def hub_step_ok)
  moreover from r this have "on_record c (hub_register t h)" if "x = Ho_Register t" for t
    using that by (simp add: on_record_def hub_register_def)
  ultimately show "on_record c (hub_step h x)" using r
    by (cases x) (simp_all add: call_start_record set_status_record hub_cancel_def hub_complete_def split: option.split)
qed

lemma hub_run_ok: "hub_ok (hub_run ops hub_new)"
proof -
  have "hub_ok h \<Longrightarrow> hub_ok (hub_run ops h)" for h unfolding hub_run_def by (induction ops arbitrary: h) (auto simp: hub_step_ok)
  then show ?thesis by (simp add: hub_new_def hub_ok_def)
qed

text \<open>A call that the hub started stays in the record of its task whatever happens later: only its status changes, and no later call
  takes its name.\<close>

lemma started_call_stays_on_record:
  assumes "fst (hub_call_start task turn server tool arguments (hub_run ops hub_new)) = Inr c"
  shows "\<exists>st. c\<lparr>hc_status := st\<rparr> \<in> set (calls_for_task task (hub_run later (snd (hub_call_start task turn server tool arguments (hub_run ops hub_new)))))"
proof -
  let ?h = "snd (hub_call_start task turn server tool arguments (hub_run ops hub_new))"
  have ok: "hub_ok ?h" by (simp add: call_start_ok hub_run_ok)
  have "bt_get (hc_call_id c) (hb_calls ?h) = Some c \<and> hc_task_id c = task"
    using assms hub_run_ok [of ops] by (auto simp: hub_call_start_def Let_def hub_ok_def split: if_splits)
  then have t: "hc_task_id c = task" and "on_record c ?h" using ok by (auto simp: on_record_def intro: exI [of _ "hc_status c"])
  then have "on_record c (hub_run later ?h)" unfolding hub_run_def by (intro recorded.run_inv)
  then obtain st where "bt_get (hc_call_id c) (hb_calls (hub_run later ?h)) = Some (c\<lparr>hc_status := st\<rparr>)" "bt_sorted (hb_calls (hub_run later ?h))"
    by (auto simp: on_record_def hub_ok_def)
  then show ?thesis using t bt_values_get by (fastforce simp: calls_for_task_def)
qed

lemma started_call_stays_on_record_witness:
  "\<exists>st. \<lparr>hc_call_id = ''mcp-call-1'', hc_task_id = ''t'', hc_turn = 3, hc_tool = ''f'', hc_arguments = [], hc_status = st\<rparr>
     \<in> set (calls_for_task ''t'' (hub_run [Ho_Cancel ''mcp-call-1''] (snd (hub_call_start ''t'' 3 ''s'' ''f'' []
         (hub_run [Ho_Register \<lparr>ht_server = ''s'', ht_name = ''f'', ht_schema = []\<rparr>] hub_new)))))"
proof -
  have n: "show_nat (Suc 0) = ''1''" by code_simp
  have "fst (hub_call_start ''t'' 3 ''s'' ''f'' [] (hub_run [Ho_Register \<lparr>ht_server = ''s'', ht_name = ''f'', ht_schema = []\<rparr>] hub_new))
      = Inr \<lparr>hc_call_id = ''mcp-call-1'', hc_task_id = ''t'', hc_turn = 3, hc_tool = ''f'', hc_arguments = [], hc_status = Hub_Running\<rparr>"
    by (simp add: hub_call_start_def hub_run_def hub_new_def hub_register_def Let_def bt_get_def n)
  from started_call_stays_on_record [OF this, of "[Ho_Cancel ''mcp-call-1'']"] show ?thesis by simp
qed

text \<open>The status of a call is not final: a cancelled call can complete, and a completed one can be cancelled without an error.\<close>

lemma call_status_is_not_final:
  assumes "bt_get i (hb_calls h) = Some c"
  shows "fst (hub_cancel i (snd (hub_complete i h))) = Inr ()" and "fst (hub_complete i (snd (hub_cancel i h))) = Inr ()"
  using assms by (auto simp: hub_cancel_def hub_complete_def set_call_status_def)

section \<open>The configuration that wins\<close>

lemma configs_get:
  "bt_sorted (foldl (\<lambda>m c. bt_insert (sc_server c) c m) [] cs) \<and>
   bt_get s (foldl (\<lambda>m c. bt_insert (sc_server c) c m) [] cs) =
     (let xs = filter (\<lambda>c. sc_server c = s) cs in if xs = [] then None else Some (last xs))"
  by (induction cs rule: rev_induct) (auto simp: Let_def)

lemma insort_project: "sc_scope c = Scope_Project \<Longrightarrow> insort_key (\<lambda>c. config_rank (sc_scope c)) c xs = c # xs"
  by (cases xs) simp_all

lemma insort_user:
  fixes c :: server_config
  shows "sc_scope c = Scope_User \<Longrightarrow> insort_key (\<lambda>c. config_rank (sc_scope c)) c (filter (\<lambda>c. sc_scope c = Scope_Project) xs @ filter (\<lambda>c. sc_scope c = Scope_User) ys)
     = filter (\<lambda>c. sc_scope c = Scope_Project) xs @ c # filter (\<lambda>c. sc_scope c = Scope_User) ys"
proof (induction xs)
  case Nil
  have "insort_key (\<lambda>c. config_rank (sc_scope c)) c zs = c # zs" if "\<forall>z \<in> set zs. sc_scope z = Scope_User" for zs :: "server_config list"
    using that Nil by (cases zs) simp_all
  then show ?case by simp
qed simp

lemma config_order:
  fixes cs :: "server_config list"
  shows "sort_key (\<lambda>c. config_rank (sc_scope c)) cs = filter (\<lambda>c. sc_scope c = Scope_Project) cs @ filter (\<lambda>c. sc_scope c = Scope_User) cs"
proof (induction cs)
  case (Cons c cs)
  then show ?case by (cases "sc_scope c") (simp_all add: insort_project insort_user)
qed simp

text \<open>For each server the last configuration of the user is taken, and only where the user has none the last one of the project.\<close>

lemma user_config_wins:
  "bt_get s (resolve_server_configs cs) =
     (let own = \<lambda>scope. filter (\<lambda>c. sc_server c = s \<and> sc_scope c = scope) cs
      in if own Scope_User \<noteq> [] then Some (last (own Scope_User))
         else if own Scope_Project \<noteq> [] then Some (last (own Scope_Project)) else None)"
proof -
  have "filter (\<lambda>c. sc_server c = s) (filter (\<lambda>c. sc_scope c = sco) cs) = filter (\<lambda>c. sc_server c = s \<and> sc_scope c = sco) cs" for sco
    by (simp add: conj_comms)
  then show ?thesis
    unfolding resolve_server_configs_def config_order configs_get [THEN conjunct2] Let_def filter_append by (simp only: last_append append_is_Nil_conv split: if_split) simp
qed

section \<open>Imports and plugins\<close>

definition needs_trust :: "string \<times> string \<times> string \<Rightarrow> bool" where
  "needs_trust item \<longleftrightarrow> fst (snd item) \<in> {''executable-script'', ''binary''} \<or> str_contains (snd (snd item)) ''eval(''"

text \<open>An import reports every item once and in order, and quarantines exactly the executable ones.\<close>

lemma import_quarantines_exactly:
  "mr_quarantined_until_trusted (import_from_agent items) = map fst (filter needs_trust items) \<and>
   mr_items (import_from_agent items) =
     map (\<lambda>item. \<lparr>mg_name = fst item, mg_kind = fst (snd item), mg_disposition = if needs_trust item then ''quarantined'' else ''mapped''\<rparr>) items"
  unfolding import_from_agent_def by (induction items rule: rev_induct) (auto simp: import_item_def needs_trust_def split: prod.split)

section \<open>The pool keeps tenants apart\<close>

definition pool_run :: "(string \<times> string \<times> string) list \<Rightarrow> transport_pool" where
  "pool_run acqs = foldl (\<lambda>p (session, tenant, fingerprint). snd (acquire_transport session tenant fingerprint p)) [] acqs"

definition pool_of :: "(string \<times> string \<times> string) list \<Rightarrow> transport_pool \<Rightarrow> bool" where
  "pool_of acqs p \<longleftrightarrow> bt_sorted p \<and> (\<forall>k t. bt_get k p = Some t \<longrightarrow>
     (\<exists>f. CHR '':'' \<notin> set f \<and> k = tr_tenant t @ '':'' @ f \<and> (\<forall>s \<in> set (tr_shared_by t). (s, tr_tenant t, f) \<in> set acqs)))"

lemma acquire_keeps_pool:
  assumes "pool_of acqs p" and "CHR '':'' \<notin> set f"
  shows "pool_of (acqs @ [(s, u, f)]) (snd (acquire_transport s u f p))"
proof -
  let ?k = "u @ '':'' @ f"
  let ?t = "fst (acquire_transport s u f p)"
  have st: "bt_sorted p" using assms(1) by (simp add: pool_of_def)
  have old: "tr_tenant t = u \<and> (\<forall>x \<in> set (tr_shared_by t). (x, u, f) \<in> set acqs)" if "bt_get ?k p = Some t" for t
  proof -
    obtain g where g: "CHR '':'' \<notin> set g" "?k = tr_tenant t @ '':'' @ g" "\<forall>x \<in> set (tr_shared_by t). (x, tr_tenant t, g) \<in> set acqs"
      using assms(1) \<open>bt_get ?k p = Some t\<close> unfolding pool_of_def by blast
    then show ?thesis using colon_split [OF g(2) assms(2) g(1)] by simp
  qed
  then have new: "tr_tenant ?t = u \<and> (\<forall>x \<in> set (tr_shared_by ?t). (x, u, f) \<in> set (acqs @ [(s, u, f)]))"
    by (auto simp: acquire_transport_def Let_def share_with_def split: option.splits if_splits)
  have "bt_get k (snd (acquire_transport s u f p)) = (if k = ?k then Some ?t else bt_get k p)" for k
    using st by (simp add: acquire_transport_def Let_def)
  moreover have "bt_sorted (snd (acquire_transport s u f p))" using st by (simp add: acquire_transport_def Let_def)
  ultimately show ?thesis using assms new unfolding pool_of_def by (auto 0 4 split: if_splits)
qed

text \<open>Sessions share a transport only with the tenant and the fingerprint they asked for, as long as fingerprints have no colon, which
  hexadecimal digests do not.\<close>

lemma transports_stay_with_tenant:
  assumes "\<forall>(s, u, f) \<in> set acqs. CHR '':'' \<notin> set f"
    and "bt_get k (pool_run acqs) = Some t" and "s \<in> set (tr_shared_by t)"
  shows "\<exists>f. k = tr_tenant t @ '':'' @ f \<and> (s, tr_tenant t, f) \<in> set acqs"
proof -
  have "pool_of acqs (pool_run acqs)"
    using assms(1)
  proof (induction acqs rule: rev_induct)
    case (snoc x acqs)
    obtain a b c where x: "x = (a, b, c)" by (cases x)
    then show ?case using snoc acquire_keeps_pool [of acqs "pool_run acqs" c a b] by (simp add: pool_run_def)
  qed (simp add: pool_run_def pool_of_def)
  then show ?thesis using assms(2,3) unfolding pool_of_def by blast
qed

lemma transports_stay_with_tenant_witness:
  "\<exists>f. ''a:x'' = ''a'' @ '':'' @ f \<and> (''s2'', ''a'', f) \<in> set [(''s1'', ''a'', ''x''), (''s2'', ''a'', ''x''), (''s3'', ''b'', ''x'')]"
proof -
  have "bt_get ''a:x'' (pool_run [(''s1'', ''a'', ''x''), (''s2'', ''a'', ''x''), (''s3'', ''b'', ''x'')])
      = Some \<lparr>tr_pool_key = ''a:x'', tr_tenant = ''a'', tr_healthy = True, tr_shared_by = [''s1'', ''s2'']\<rparr>"
    by (simp add: pool_run_def acquire_transport_def Let_def share_with_def bt_get_def)
  from transports_stay_with_tenant [OF _ this, of "''s2''"] show ?thesis by simp
qed

text \<open>A transport that broke is handed out again: its health is not looked at.\<close>

lemma broken_transport_is_reused:
  assumes "bt_get (tenant @ '':'' @ fingerprint) p = Some t" and "\<not> tr_healthy t"
  shows "\<not> tr_healthy (fst (acquire_transport session tenant fingerprint p))"
  using assms by (simp add: acquire_transport_def Let_def share_with_def)

text \<open>The fingerprint forgets where arguments end: a server with one argument that has a blank shares the transport of a server with two.\<close>

lemma argument_boundaries_are_lost: "config_fingerprint H command [a @ '' '' @ b] = config_fingerprint H command [a, b]"
  by (simp add: config_fingerprint_def)

end
