(* ===== verification/Receipt_Chain.thy ===== *)
theory Receipt_Chain
  imports Rust_Text Ordered_Map
begin

text \<open>
  The hardening batch of the checkpoint crate (\<^verbatim>\<open>crates/checkpoint/src/security_hardening.rs\<close>): schemas without secrets, the gates of an
  installation, trust cards, the chain of receipts and the broker of handles; and the procedural runtime
  (\<^verbatim>\<open>crates/procedural-runtime/src/lib.rs\<close> and \<^verbatim>\<open>composition.rs\<close>). The digest is a parameter; it is 64 characters long in the code, so that the
  slices of it are never out of range. The 64-bit counter of the runtime grows by one with each effect and is a natural number. What a
  policy decides is a parameter as it is in the code.
\<close>

section \<open>Schemas and installations\<close>

record tool_schema_entry =
  ts_tool :: string
  ts_parameters :: "(string \<times> string) list"
  ts_required_secrets :: "string list"

definition suspicious_names :: "string list" where
  "suspicious_names = [''api_key'', ''apikey'', ''api-key'', ''token'', ''secret'', ''password'']"

definition secret_like :: "string \<Rightarrow> bool" where
  "secret_like param \<longleftrightarrow> list_ex (str_contains (to_lowercase param)) suspicious_names"

definition inspect_schema :: "tool_schema_entry \<Rightarrow> (string, unit) result" where
  "inspect_schema s =
     (case find (\<lambda>p. secret_like (fst p)) (ts_parameters s) of
        None \<Rightarrow> Inr ()
      | Some (param, _) \<Rightarrow> Inl (''schema for '' @ debug_str (ts_tool s) @ '' exposes secret-like parameter '' @ debug_str param @ '' ''
          @ map char_of [226 :: nat, 128, 148] @ '' secrets resolve via the broker''))"

record proposed_mcp_install =
  pi_server :: string
  pi_command :: string
  pi_trust_acknowledged :: bool
  pi_credential_gate_passed :: bool

definition authorize_mcp_install :: "proposed_mcp_install \<Rightarrow> (string, unit) result" where
  "authorize_mcp_install p =
     (if \<not> pi_trust_acknowledged p then Inl (''server '' @ debug_str (pi_server p) @ '' cannot execute: trust gate not acknowledged'')
      else if \<not> pi_credential_gate_passed p then Inl (''server '' @ debug_str (pi_server p) @ '' cannot execute: credential gate not passed'')
      else Inr ())"

record marketplace_extension =
  mk_name :: string
  mk_publisher :: string
  mk_source_url :: string
  mk_signature_valid :: bool
  mk_publisher_trusted :: bool
  mk_requested_capabilities :: "string list"

record trust_card =
  td_publisher :: string
  td_source_url :: string
  td_signature_valid :: bool
  td_capabilities :: "string list"
  td_quarantined :: bool

definition surface_trust :: "marketplace_extension \<Rightarrow> trust_card" where
  "surface_trust e = \<lparr>td_publisher = mk_publisher e, td_source_url = mk_source_url e, td_signature_valid = mk_signature_valid e,
     td_capabilities = mk_requested_capabilities e, td_quarantined = (\<not> mk_signature_valid e \<or> \<not> mk_publisher_trusted e)\<rparr>"

section \<open>The chain of receipts\<close>

record chain_receipt =
  rc_receipt_id :: string
  rc_prev_receipt_hash :: string
  rc_approval_digest :: string
  rc_capability_digest :: string
  rc_call_digest :: string
  rc_result_digest :: string
  rc_chain_hash :: string

definition chain_link_hash :: "(string \<Rightarrow> string) \<Rightarrow> string \<Rightarrow> string \<Rightarrow> string \<Rightarrow> string \<Rightarrow> string \<Rightarrow> string" where
  "chain_link_hash H prev approval capability call res = H (prev @ approval @ capability @ call @ res)"

definition chain_head :: "chain_receipt list \<Rightarrow> string" where
  "chain_head rs = (if rs = [] then ''GENESIS'' else rc_chain_hash (last rs))"

definition append_receipt ::
  "(string \<Rightarrow> string) \<Rightarrow> string \<Rightarrow> string \<Rightarrow> string \<Rightarrow> string \<Rightarrow> chain_receipt list \<Rightarrow> chain_receipt \<times> chain_receipt list" where
  "append_receipt H approval capability call res rs =
     (let prev = chain_head rs;
          h = chain_link_hash H prev approval capability call res;
          r = \<lparr>rc_receipt_id = ''receipt-'' @ take 12 h, rc_prev_receipt_hash = prev, rc_approval_digest = approval,
               rc_capability_digest = capability, rc_call_digest = call, rc_result_digest = res, rc_chain_hash = h\<rparr>
      in (r, rs @ [r]))"

fun verify_receipts :: "(string \<Rightarrow> string) \<Rightarrow> string \<Rightarrow> nat \<Rightarrow> chain_receipt list \<Rightarrow> (string, unit) result" where
  "verify_receipts H prev index [] = Inr ()"
| "verify_receipts H prev index (r # rs) =
     (if rc_prev_receipt_hash r \<noteq> prev
      then Inl (''chain broken at receipt '' @ show_nat index @ '': link hash mismatch (tamper/delete/reorder)'')
      else if chain_link_hash H prev (rc_approval_digest r) (rc_capability_digest r) (rc_call_digest r) (rc_result_digest r) \<noteq> rc_chain_hash r
      then Inl (''chain broken at receipt '' @ show_nat index @ '': content hash mismatch'')
      else verify_receipts H (rc_chain_hash r) (index + 1) rs)"

definition verify_chain :: "(string \<Rightarrow> string) \<Rightarrow> chain_receipt list \<Rightarrow> (string, unit) result" where
  "verify_chain H rs = verify_receipts H ''GENESIS'' 0 rs"

section \<open>The broker of handles\<close>

record secret_handle =
  sh_handle_id :: string
  sh_scope :: string
  sh_expires_ms :: int

type_synonym secret_broker = "(string, secret_handle \<times> string) btree"

datatype handle_error = Handle_Expired string | Handle_Unknown string | Handle_ScopeMismatch string string

fun show_handle_error :: "handle_error \<Rightarrow> string" where
  "show_handle_error (Handle_Expired i) = ''handle '' @ i @ '' expired''"
| "show_handle_error (Handle_Unknown i) = ''unknown handle '' @ debug_str i"
| "show_handle_error (Handle_ScopeMismatch i scope) = ''handle '' @ i @ '' scope does not cover '' @ debug_str scope"

definition issue_handle :: "(string \<Rightarrow> string) \<Rightarrow> string \<Rightarrow> string \<Rightarrow> int \<Rightarrow> secret_broker \<Rightarrow> secret_handle \<times> secret_broker" where
  "issue_handle H scope secret expires b =
     (let i = ''handle-'' @ take 16 (H secret);
          h = \<lparr>sh_handle_id = i, sh_scope = scope, sh_expires_ms = expires\<rparr>
      in (h, bt_insert i (h, secret) b))"

definition resolve_handle :: "secret_broker \<Rightarrow> secret_handle \<Rightarrow> string \<Rightarrow> (handle_error, string) result" where
  "resolve_handle b h required_scope =
     (case bt_get (sh_handle_id h) b of
        None \<Rightarrow> Inl (Handle_Unknown (sh_handle_id h))
      | Some (stored, secret) \<Rightarrow>
          if sh_expires_ms stored \<le> 0 then Inl (Handle_Expired (sh_handle_id h))
          else if \<not> str_contains (sh_scope stored) required_scope then Inl (Handle_ScopeMismatch (sh_handle_id h) required_scope)
          else Inr secret)"

section \<open>The procedural runtime\<close>

datatype primitive = Prim_Exec "string list" | Prim_Wait string | Prim_RequestUserInput string string

datatype primitive_outcome =
    ExecStarted string | ExecFinished string int | InputNeeded string | InputAnswered string string

datatype primitive_error = Prim_PolicyDenied string | Prim_UnknownExec string | Prim_NeedsInput string

fun show_primitive_error :: "primitive_error \<Rightarrow> string" where
  "show_primitive_error (Prim_PolicyDenied reason) = ''policy denied: '' @ reason"
| "show_primitive_error (Prim_UnknownExec i) = ''unknown exec '' @ debug_str i"
| "show_primitive_error (Prim_NeedsInput q) = ''NEEDS_INPUT('' @ q @ '')''"

record proc_effect =
  pe_primitive :: primitive
  pe_policy_checked :: bool
  pe_policy_allowed :: bool
  pe_evidence_note :: string

record procedural_runtime =
  pr_policy :: "string list \<Rightarrow> bool"
  pr_evidence :: "(string, proc_effect) btree"
  pr_exec_ids :: "(string, int) btree"
  pr_counter :: nat

definition procedural_new :: "(string list \<Rightarrow> bool) \<Rightarrow> procedural_runtime" where
  "procedural_new policy = \<lparr>pr_policy = policy, pr_evidence = [], pr_exec_ids = [], pr_counter = 0\<rparr>"

definition record_proc_effect :: "primitive \<Rightarrow> bool \<Rightarrow> string \<Rightarrow> procedural_runtime \<Rightarrow> procedural_runtime" where
  "record_proc_effect prim allowed note r =
     r\<lparr>pr_counter := pr_counter r + 1,
       pr_evidence := bt_insert (''effect-'' @ show_nat (pr_counter r + 1))
         \<lparr>pe_primitive = prim, pe_policy_checked = True, pe_policy_allowed = allowed, pe_evidence_note = note\<rparr> (pr_evidence r)\<rparr>"

definition proc_exec :: "string list \<Rightarrow> procedural_runtime \<Rightarrow> (primitive_error, primitive_outcome) result \<times> procedural_runtime" where
  "proc_exec argv r =
     (let allowed = pr_policy r argv;
          r1 = record_proc_effect (Prim_Exec argv) allowed (''exec '' @ debug_str (str_join '' '' argv)) r
      in if \<not> allowed
         then (Inl (Prim_PolicyDenied (''no grant covers '' @ debug_str (case argv of [] \<Rightarrow> [] | a # _ \<Rightarrow> a))), r1)
         else let i = ''exec-'' @ show_nat (pr_counter r1)
              in (Inr (ExecStarted i), r1\<lparr>pr_exec_ids := bt_insert i 0 (pr_exec_ids r1)\<rparr>))"

definition show_exit :: "int \<Rightarrow> string" where
  "show_exit c = (if c < 0 then ''-'' @ show_nat (nat (- c)) else show_nat (nat c))"

definition proc_wait :: "string \<Rightarrow> int \<Rightarrow> procedural_runtime \<Rightarrow> (primitive_error, primitive_outcome) result \<times> procedural_runtime" where
  "proc_wait i code r =
     (if bt_get i (pr_exec_ids r) = None then (Inl (Prim_UnknownExec i), r)
      else (Inr (ExecFinished i code),
            record_proc_effect (Prim_Wait i) True (''exec '' @ i @ '' finished with '' @ show_exit code)
              (r\<lparr>pr_exec_ids := bt_insert i code (pr_exec_ids r)\<rparr>)))"

definition request_user_input ::
  "string \<Rightarrow> string \<Rightarrow> string option \<Rightarrow> procedural_runtime \<Rightarrow> (primitive_error, primitive_outcome) result \<times> procedural_runtime" where
  "request_user_input q question answer r =
     (case answer of
        Some a \<Rightarrow> (Inr (InputAnswered q a), record_proc_effect (Prim_RequestUserInput q question) True ''user answered'' r)
      | None \<Rightarrow> (Inl (Prim_NeedsInput q), record_proc_effect (Prim_RequestUserInput q question) True ''headless: surfaced NEEDS_INPUT'' r))"

definition proc_evidence :: "procedural_runtime \<Rightarrow> proc_effect list" where
  "proc_evidence r = bt_values (pr_evidence r)"

section \<open>New namespaces and composed calls\<close>

record build_buy_refusal =
  bb_namespace :: string
  bb_reason :: string

definition show_build_buy_refusal :: "build_buy_refusal \<Rightarrow> string" where
  "show_build_buy_refusal e = ''new tool namespace '' @ debug_str (bb_namespace e) @ '' refused: '' @ bb_reason e @ '' ''
     @ map char_of [226 :: nat, 128, 148] @ '' prefer skill instructions over existing canonical tools''"

definition canonical_namespaces :: "string list" where
  "canonical_namespaces = [''fs.'', ''git.'', ''shell.'', ''test.'', ''search.'', ''web.'', ''media.'', ''browser.'']"

definition lint_new_tool_namespace :: "string \<Rightarrow> string \<Rightarrow> (build_buy_refusal, unit) result" where
  "lint_new_tool_namespace namespace justification =
     (let refuse = \<lambda>reason. Inl \<lparr>bb_namespace = namespace, bb_reason = reason\<rparr>
      in if str_trim namespace = [] then refuse ''empty namespace''
         else if list_ex (starts_with namespace) canonical_namespaces
         then refuse (''overlaps an existing canonical namespace '' @ map char_of [226 :: nat, 128, 148] @ '' extend it or write a skill'')
         else if \<not> list_ex (str_contains (to_lowercase justification)) [''effector'', ''auth'', ''streaming'']
         then refuse ''justification must name a precise new effector/auth/streaming need''
         else Inr ())"

record script_tool_call =
  st_tool :: string
  st_arguments :: string

record composition_limits =
  cl_max_tool_calls :: nat
  cl_max_output_bytes :: nat
  cl_timeout_ms :: nat

definition composition_limits_default :: composition_limits where
  "composition_limits_default = \<lparr>cl_max_tool_calls = 16, cl_max_output_bytes = 256 * 1024, cl_timeout_ms = 30000\<rparr>"

datatype composition_error = UnauthorizedTool string | LimitExceeded string

fun show_composition_error :: "composition_error \<Rightarrow> string" where
  "show_composition_error (UnauthorizedTool tool) = ''script attempted unauthorized tool '' @ debug_str tool @ '' ''
     @ map char_of [226 :: nat, 128, 148] @ '' denied by kernel''"
| "show_composition_error (LimitExceeded limit) = ''composition limit exceeded: '' @ limit"

definition call_text :: "script_tool_call \<Rightarrow> string" where
  "call_text s = st_tool s @ ''('' @ st_arguments s @ '')''"

fun run_steps :: "(string, string) btree \<Rightarrow> nat \<Rightarrow> string list \<Rightarrow> nat \<Rightarrow> script_tool_call list \<Rightarrow> (composition_error, string list) result" where
  "run_steps auth max_bytes outputs output_bytes [] = Inr outputs"
| "run_steps auth max_bytes outputs output_bytes (s # steps) =
     (if bt_get (st_tool s) auth = None then Inl (UnauthorizedTool (st_tool s))
      else if output_bytes + length (call_text s) > max_bytes then Inl (LimitExceeded ''max_output_bytes'')
      else run_steps auth max_bytes (outputs @ [call_text s]) (output_bytes + length (call_text s)) steps)"

definition execute_composition :: "script_tool_call list \<Rightarrow> (string, string) btree \<Rightarrow> composition_limits \<Rightarrow> (composition_error, string list) result" where
  "execute_composition steps auth limits =
     (if length steps > cl_max_tool_calls limits then Inl (LimitExceeded ''max_tool_calls'')
      else run_steps auth (cl_max_output_bytes limits) [] 0 steps)"

section \<open>What the chain binds\<close>

definition receipt_payload :: "chain_receipt \<Rightarrow> string" where
  "receipt_payload r = rc_prev_receipt_hash r @ rc_approval_digest r @ rc_capability_digest r @ rc_call_digest r @ rc_result_digest r"

definition chain_run :: "(string \<Rightarrow> string) \<Rightarrow> (string \<times> string \<times> string \<times> string) list \<Rightarrow> chain_receipt list" where
  "chain_run H ds = foldl (\<lambda>rs (a, c, k, r). snd (append_receipt H a c k r rs)) [] ds"

text \<open>A chain is verified exactly when every receipt carries the hash before it and its own.\<close>

definition receipt_linked :: "(string \<Rightarrow> string) \<Rightarrow> string \<Rightarrow> chain_receipt \<Rightarrow> bool" where
  "receipt_linked H prev r \<longleftrightarrow> rc_prev_receipt_hash r = prev \<and> rc_chain_hash r = H (receipt_payload r)"

lemma verify_Cons [simp]: "verify_receipts H prev n (r # rs) = Inr () \<longleftrightarrow> receipt_linked H prev r \<and> verify_receipts H (rc_chain_hash r) (n + 1) rs = Inr ()"
  by (auto simp: receipt_linked_def receipt_payload_def chain_link_hash_def)

lemma verify_index: "verify_receipts H prev n rs = Inr () \<longleftrightarrow> verify_receipts H prev k rs = Inr ()"
  by (induction rs arbitrary: prev n k) (simp_all only: verify_Cons verify_receipts.simps(1), metis)

lemma verify_append:
  "verify_receipts H prev n (rs @ ss) = Inr () \<longleftrightarrow>
     verify_receipts H prev n rs = Inr () \<and> verify_receipts H (if rs = [] then prev else rc_chain_hash (last rs)) n ss = Inr ()"
proof (induction rs arbitrary: prev n)
  case (Cons r rs)
  have "verify_receipts H p (n + 1) ss = Inr () \<longleftrightarrow> verify_receipts H p n ss = Inr ()" for p by (rule verify_index)
  then show ?case using Cons.IH [of "rc_chain_hash r" "n + 1"] by (cases rs) (simp_all only: append_Cons verify_Cons append_Nil last.simps list.distinct if_False simp_thms verify_receipts.simps(1) if_True conj_assoc)
qed simp

lemma verify_chain_append: "verify_chain H (rs @ ss) = Inr () \<longleftrightarrow> verify_chain H rs = Inr () \<and> verify_receipts H (chain_head rs) 0 ss = Inr ()"
  unfolding verify_chain_def chain_head_def verify_append by simp

text \<open>Every chain that was built by appending verifies.\<close>

lemma appended_chain_verifies: "verify_chain H (chain_run H ds) = Inr ()"
proof (induction ds rule: rev_induct)
  case (snoc d ds)
  obtain a c k r where d: "d = (a, c, k, r)" by (cases d)
  have "chain_run H (ds @ [d]) = snd (append_receipt H a c k r (chain_run H ds))" using d by (simp add: chain_run_def)
  then show ?case using snoc by (simp add: append_receipt_def Let_def verify_chain_append receipt_linked_def receipt_payload_def chain_link_hash_def del: verify_receipts.simps(2))
qed (simp add: chain_run_def verify_chain_def)

lemma verify_snoc:
  "verify_chain H (rs @ [r]) = Inr () \<longleftrightarrow> verify_chain H rs = Inr () \<and> rc_prev_receipt_hash r = chain_head rs \<and> rc_chain_hash r = H (receipt_payload r)"
  by (simp add: verify_chain_append receipt_linked_def del: verify_receipts.simps(2))

lemma head_length:
  assumes "\<forall>x. length (H x) = n" and "verify_chain H rs = Inr ()"
  shows "length (chain_head rs) = (if rs = [] then 7 else n)"
  using assms by (cases rs rule: rev_cases) (simp_all add: chain_head_def verify_snoc)

text \<open>Two verified chains of the same length that end with the same hash agree in every link and in the text that every receipt binds, or
  two different texts have the same digest. Digests have a fixed length.\<close>

lemma chain_head_binds_history:
  assumes "\<forall>x. length (H x) = n" and "verify_chain H rs = Inr ()" and "verify_chain H ss = Inr ()" and "length rs = length ss"
    and "chain_head rs = chain_head ss"
  shows "map (\<lambda>r. (rc_chain_hash r, receipt_payload r)) rs = map (\<lambda>r. (rc_chain_hash r, receipt_payload r)) ss \<or> (\<exists>x y. x \<noteq> y \<and> H x = H y)"
  using assms(4,2,3,5)
proof (induction rs arbitrary: ss rule: rev_induct)
  case (snoc r rs)
  obtain s ss' where ss: "ss = ss' @ [s]" using snoc.prems(1) by (cases ss rule: rev_cases) auto
  have v: "verify_chain H rs = Inr ()" "verify_chain H ss' = Inr ()" "rc_prev_receipt_hash r = chain_head rs" "rc_prev_receipt_hash s = chain_head ss'"
    "rc_chain_hash r = H (receipt_payload r)" "rc_chain_hash s = H (receipt_payload s)" "rc_chain_hash r = rc_chain_hash s" "length rs = length ss'"
    using snoc.prems ss by (auto simp: verify_snoc chain_head_def)
  show ?case
  proof (cases "receipt_payload r = receipt_payload s")
    case True
    have "rs = [] \<longleftrightarrow> ss' = []" using v(8) by auto
    then have "length (chain_head rs) = length (chain_head ss')" using head_length [OF assms(1)] v(1,2) by simp
    then have "chain_head rs = chain_head ss'" using True v(3,4) by (simp add: receipt_payload_def append_eq_append_conv)
    then show ?thesis using snoc.IH [OF v(8,1,2)] True v(7) ss by auto
  qed (use v(5-7) in metis)
qed simp

lemma chain_head_binds_history_witness:
  "let rs = chain_run (\<lambda>_. ''h'') [(''a'', ''c'', ''k'', ''r'')] in verify_chain (\<lambda>_. ''h'') rs = Inr () \<and>
     (map (\<lambda>r. (rc_chain_hash r, receipt_payload r)) rs = map (\<lambda>r. (rc_chain_hash r, receipt_payload r)) rs \<or> (\<exists>x y. x \<noteq> y \<and> (\<lambda>_. ''h'') (x :: string) = (\<lambda>_. ''h'') (y :: string)))"
  unfolding Let_def
  using chain_head_binds_history [of "\<lambda>_. ''h''" 1, OF _ appended_chain_verifies appended_chain_verifies, of "[(''a'', ''c'', ''k'', ''r'')]" "[(''a'', ''c'', ''k'', ''r'')]"]
    appended_chain_verifies [of "\<lambda>_. ''h''" "[(''a'', ''c'', ''k'', ''r'')]"] by simp

text \<open>Leaving out the newest receipts is not noticed: every beginning of a verified chain is verified.\<close>

lemma truncated_chain_verifies: "verify_chain H (rs @ ss) = Inr () \<Longrightarrow> verify_chain H rs = Inr ()"
  by (simp add: verify_chain_append)

text \<open>Text can be moved from one digest of a receipt to the next without being noticed, since the digests are hashed without a separator.\<close>

lemma moved_boundary_verifies:
  assumes "verify_chain H (rs @ r # ss) = Inr ()" and "rc_approval_digest r = a @ b"
  shows "verify_chain H (rs @ r\<lparr>rc_approval_digest := a, rc_capability_digest := b @ rc_capability_digest r\<rparr> # ss) = Inr ()"
proof -
  have "receipt_linked H p (r\<lparr>rc_approval_digest := a, rc_capability_digest := b @ rc_capability_digest r\<rparr>) = receipt_linked H p r" for p
    using assms(2) by (simp add: receipt_linked_def receipt_payload_def)
  then show ?thesis using assms(1) by (simp add: verify_chain_append del: verify_receipts.simps(2))
qed

section \<open>Handles\<close>

text \<open>A secret leaves the broker exactly for the identifier of a stored handle whose expiry is positive and whose scope contains the one asked
  for; what the presented handle says of its scope and expiry does not matter, and neither does the time.\<close>

lemma secret_leaves_exactly:
  "resolve_handle b h scope = Inr secret \<longleftrightarrow>
     (\<exists>stored. bt_get (sh_handle_id h) b = Some (stored, secret) \<and> 0 < sh_expires_ms stored \<and> str_contains (sh_scope stored) scope)"
  by (auto simp: resolve_handle_def split: option.split)

text \<open>Issuing a secret again replaces the scope under which it was issued before: the old handle opens the new scope and no longer its own.\<close>

lemma reissue_replaces_scope:
  assumes "bt_sorted b" and "h1 = fst (issue_handle H scope1 secret e1 b)" and "b2 = snd (issue_handle H scope2 secret e2 (snd (issue_handle H scope1 secret e1 b)))"
    and "0 < e2"
  shows "resolve_handle b2 h1 scope2 = Inr secret" and "\<not> str_contains scope2 scope1 \<Longrightarrow> \<not> is_ok (resolve_handle b2 h1 scope1)"
  using assms by (auto simp: issue_handle_def Let_def resolve_handle_def str_contains_def)

section \<open>Effects of the procedural runtime\<close>

datatype proc_op = Po_Exec "string list" | Po_Wait string int | Po_Input string string "string option"

fun proc_step :: "procedural_runtime \<Rightarrow> proc_op \<Rightarrow> procedural_runtime" where
  "proc_step r (Po_Exec argv) = snd (proc_exec argv r)"
| "proc_step r (Po_Wait i code) = snd (proc_wait i code r)"
| "proc_step r (Po_Input q question answer) = snd (request_user_input q question answer r)"

definition proc_run :: "(string list \<Rightarrow> bool) \<Rightarrow> proc_op list \<Rightarrow> procedural_runtime" where
  "proc_run policy ops = foldl proc_step (procedural_new policy) ops"

definition effect_name :: "nat \<Rightarrow> string" where
  "effect_name n = ''effect-'' @ show_nat n"

definition exec_name :: "nat \<Rightarrow> string" where
  "exec_name n = ''exec-'' @ show_nat n"

lemma names_inject [simp]: "effect_name m = effect_name n \<longleftrightarrow> m = n" "exec_name m = exec_name n \<longleftrightarrow> m = n"
  by (simp_all add: effect_name_def exec_name_def)

text \<open>Evidence is numbered without gaps, and every command that was started has its entry, in which the policy allowed it.\<close>

definition started_by :: "(string list \<Rightarrow> bool) \<Rightarrow> procedural_runtime \<Rightarrow> string \<Rightarrow> bool" where
  "started_by policy r i \<longleftrightarrow> (\<exists>n argv e. i = exec_name n \<and> bt_get (effect_name n) (pr_evidence r) = Some e \<and>
     pe_primitive e = Prim_Exec argv \<and> pe_policy_allowed e \<and> policy argv)"

definition proc_ok :: "(string list \<Rightarrow> bool) \<Rightarrow> procedural_runtime \<Rightarrow> bool" where
  "proc_ok policy r \<longleftrightarrow> pr_policy r = policy \<and> bt_sorted (pr_evidence r) \<and> bt_sorted (pr_exec_ids r) \<and>
     (\<forall>i. bt_get i (pr_evidence r) \<noteq> None \<longleftrightarrow> (\<exists>n. 1 \<le> n \<and> n \<le> pr_counter r \<and> i = effect_name n)) \<and>
     (\<forall>i e. bt_get i (pr_evidence r) = Some e \<longrightarrow> pe_policy_checked e) \<and>
     (\<forall>i. bt_get i (pr_exec_ids r) \<noteq> None \<longrightarrow> started_by policy r i)"

lemma fresh_effect: "proc_ok policy r \<Longrightarrow> bt_get (effect_name (Suc (pr_counter r))) (pr_evidence r) = None"
  unfolding proc_ok_def by (metis Suc_n_not_le_n names_inject(1))

lemma record_effect_fields [simp]:
  "pr_policy (record_proc_effect p a t r) = pr_policy r" "pr_exec_ids (record_proc_effect p a t r) = pr_exec_ids r"
  "pr_counter (record_proc_effect p a t r) = Suc (pr_counter r)"
  by (simp_all add: record_proc_effect_def)

lemma record_effect_get:
  "proc_ok policy r \<Longrightarrow> bt_get i (pr_evidence (record_proc_effect p a t r)) =
     (if i = effect_name (Suc (pr_counter r)) then Some \<lparr>pe_primitive = p, pe_policy_checked = True, pe_policy_allowed = a, pe_evidence_note = t\<rparr>
      else bt_get i (pr_evidence r))"
  by (simp add: record_proc_effect_def effect_name_def proc_ok_def)

lemma record_effect_ok [invs]:
  assumes "proc_ok policy r"
  shows "proc_ok policy (record_proc_effect p a t r)"
proof -
  note g = record_effect_get [OF assms]
  have "bt_sorted (pr_evidence (record_proc_effect p a t r))" using assms by (simp add: record_proc_effect_def proc_ok_def)
  moreover have "started_by policy (record_proc_effect p a t r) i" if "started_by policy r i" for i
    using that fresh_effect [OF assms] unfolding started_by_def g by (metis option.distinct(1))
  moreover have "bt_get i (pr_evidence (record_proc_effect p a t r)) \<noteq> None \<longleftrightarrow> (\<exists>n. 1 \<le> n \<and> n \<le> Suc (pr_counter r) \<and> i = effect_name n)" for i
    using assms unfolding g proc_ok_def by (metis One_nat_def Suc_leI le_Suc_eq option.distinct(1) zero_less_Suc)
  ultimately show ?thesis using assms unfolding proc_ok_def record_effect_fields by (simp add: g)
qed

lemma set_exec_ok:
  "proc_ok policy r \<Longrightarrow> started_by policy r i \<Longrightarrow> proc_ok policy (r\<lparr>pr_exec_ids := bt_insert i code (pr_exec_ids r)\<rparr>)"
  by (auto simp: proc_ok_def started_by_def)

lemma exec_ok [invs]:
  assumes "proc_ok policy r"
  shows "proc_ok policy (snd (proc_exec argv r))"
proof -
  let ?r = "record_proc_effect (Prim_Exec argv) (pr_policy r argv) (''exec '' @ debug_str (str_join '' '' argv)) r"
  have "proc_ok policy ?r" by (rule record_effect_ok [OF assms])
  moreover have "started_by policy ?r (exec_name (pr_counter ?r))" if "pr_policy r argv"
    using that assms unfolding started_by_def record_effect_get [OF assms] by (auto simp: proc_ok_def)
  ultimately show ?thesis using set_exec_ok [of policy ?r "exec_name (pr_counter ?r)" 0]
    by (auto simp: proc_exec_def Let_def exec_name_def)
qed

lemma wait_ok [invs]: "proc_ok policy r \<Longrightarrow> proc_ok policy (snd (proc_wait i code r))"
  unfolding proc_wait_def by (auto intro!: record_effect_ok set_exec_ok) (auto simp: proc_ok_def)

interpretation procedural: machine proc_step "proc_ok policy" for policy
proof
  fix r x
  assume "proc_ok policy r"
  then show "proc_ok policy (proc_step r x)"
    by (cases x) (auto simp: invs request_user_input_def split: option.split)
qed

lemma proc_run_ok: "proc_ok policy (proc_run policy ops)"
  unfolding proc_run_def by (rule procedural.run_inv) (simp add: procedural_new_def proc_ok_def)

text \<open>Whatever a script does, every command that was started was allowed by the policy and has an entry in the evidence that says so; the
  entries are numbered without gaps, and each says that the policy was asked.\<close>

lemma only_allowed_commands_start:
  "(bt_get i (pr_exec_ids (proc_run policy ops)) \<noteq> None \<longrightarrow> started_by policy (proc_run policy ops) i) \<and>
   (\<forall>j. bt_get j (pr_evidence (proc_run policy ops)) \<noteq> None \<longleftrightarrow> (\<exists>n. 1 \<le> n \<and> n \<le> pr_counter (proc_run policy ops) \<and> j = effect_name n)) \<and>
   (\<forall>e \<in> set (proc_evidence (proc_run policy ops)). pe_policy_checked e)"
proof -
  have ok: "proc_ok policy (proc_run policy ops)" by (rule proc_run_ok)
  then have "\<forall>e \<in> set (proc_evidence (proc_run policy ops)). pe_policy_checked e"
    unfolding proc_evidence_def proc_ok_def by (metis bt_values_get)
  then show ?thesis using ok unfolding proc_ok_def by blast
qed

lemma only_allowed_commands_start_witness:
  "started_by (\<lambda>argv. argv = [''ls'']) (proc_run (\<lambda>argv. argv = [''ls'']) [Po_Exec [''ls'']]) ''exec-1''"
proof -
  have "show_nat (Suc 0) = ''1''" by code_simp
  then have "bt_get ''exec-1'' (pr_exec_ids (proc_run (\<lambda>argv. argv = [''ls'']) [Po_Exec [''ls'']])) \<noteq> None"
    by (simp add: proc_run_def procedural_new_def proc_exec_def Let_def record_proc_effect_def bt_get_def)
  then show ?thesis using only_allowed_commands_start [of "''exec-1''" "\<lambda>argv. argv = [''ls'']" "[Po_Exec [''ls'']]"] by blast
qed

text \<open>The evidence is not in the order of the effects once there are ten: the tenth is listed second.\<close>

lemma evidence_is_out_of_order:
  "map pe_primitive (proc_evidence (proc_run (\<lambda>_. False) (map (\<lambda>n. Po_Exec [show_nat n]) [1, 2, 3, 4, 5, 6, 7, 8, 9, 10]))) ! 1 = Prim_Exec [''10'']"
  by code_simp

section \<open>Composed calls\<close>

lemma run_steps_exactly:
  "output_bytes = sum_list (map length outputs) \<Longrightarrow> output_bytes \<le> max_bytes \<Longrightarrow> run_steps auth max_bytes outputs output_bytes steps = Inr outs \<longleftrightarrow>
     (\<forall>s \<in> set steps. bt_get (st_tool s) auth \<noteq> None) \<and> sum_list (map length outs) \<le> max_bytes \<and> outs = outputs @ map call_text steps"
proof (induction steps arbitrary: outputs output_bytes)
  case (Cons s steps)
  have "length (call_text s) + output_bytes \<le> max_bytes" if "sum_list (map length outs) \<le> max_bytes" "outs = outputs @ map call_text (s # steps)"
    using that Cons.prems(1) by simp
  then show ?case using Cons.IH [of "output_bytes + length (call_text s)" "outputs @ [call_text s]"] Cons.prems by auto
qed auto

text \<open>A composition succeeds exactly when it has no more calls than the limit, the kernel authorised every tool and the outputs together
  fit; then there is one output for each call, in order.\<close>

lemma composition_runs_exactly:
  "execute_composition steps auth limits = Inr outs \<longleftrightarrow>
     length steps \<le> cl_max_tool_calls limits \<and> (\<forall>s \<in> set steps. bt_get (st_tool s) auth \<noteq> None) \<and>
     sum_list (map length outs) \<le> cl_max_output_bytes limits \<and> outs = map call_text steps"
  using run_steps_exactly [of 0 "[]" "cl_max_output_bytes limits" auth steps outs] by (auto simp: execute_composition_def)

text \<open>A blank before the name lets a namespace pass that overlaps a canonical one, and any word that contains the letters of a keyword
  justifies it.\<close>

lemma lint_is_evaded: "lint_new_tool_namespace '' fs.read'' ''the author wants it'' = Inr ()"
  by code_simp

end
