(* ===== verification/Git_Snapshot.thy ===== *)
theory Git_Snapshot
  imports Git_Repo Workspace_Files
begin

text \<open>
  Snapshots of a dirty work tree as temporary commits (\<^verbatim>\<open>crates/git/src/snapshot.rs\<close>) and the handoff of such a snapshot to another
  machine (\<^verbatim>\<open>crates/checkpoint/src/cloud_attach.rs\<close>). Git is the parameter of \<open>Git_Repo\<close>; the files that the code itself touches are a
  second one. The digest of a transfer is a parameter. Names that git prints for trees and commits are hexadecimal, so that the first
  eight characters of one are its first eight bytes.
\<close>

section \<open>Snapshots\<close>

record 'g work_files =
  wf_is_file :: "string \<Rightarrow> 'g \<Rightarrow> bool"
  wf_remove :: "string \<Rightarrow> 'g \<Rightarrow> (string, unit) result \<times> 'g"
  wf_write :: "string \<Rightarrow> string \<Rightarrow> 'g \<Rightarrow> (string, unit) result \<times> 'g"

definition SNAPSHOT_NAMESPACE :: string where
  "SNAPSHOT_NAMESPACE = ''refs/modbit/snapshot/''"

record snapshot_provenance =
  sp_task_id :: string
  sp_machine_id :: string
  sp_origin :: string
  sp_created_at_ms :: int

definition provenance_new :: "int \<Rightarrow> string \<Rightarrow> string \<Rightarrow> string \<Rightarrow> snapshot_provenance" where
  "provenance_new now task machine_id origin = \<lparr>sp_task_id = task, sp_machine_id = machine_id, sp_origin = origin, sp_created_at_ms = now\<rparr>"

record snapshot_handle =
  sn_ref_name :: string
  sn_commit :: string
  sn_tree :: string
  sn_base_commit :: string
  sn_provenance :: snapshot_provenance

text \<open>One character of the source gives one character of the result, so the continuation bytes of a character give none.\<close>

definition safe_char :: "char \<Rightarrow> bool" where
  "safe_char c \<longleftrightarrow> (let n = (of_char c :: nat) in 48 \<le> n \<and> n \<le> 57 \<or> 65 \<le> n \<and> n \<le> 90 \<or> 97 \<le> n \<and> n \<le> 122) \<or> c = CHR ''-'' \<or> c = CHR ''_''"

definition sanitize_id :: "string \<Rightarrow> string" where
  "sanitize_id raw =
     (let cleaned = concat (map (\<lambda>c. if is_continuation c then [] else if safe_char c then [c] else ''-'') raw)
      in if cleaned = [] then ''task'' else cleaned)"

definition require_snapshot_ref :: "string \<Rightarrow> string \<Rightarrow> (git_error, unit) result" where
  "require_snapshot_ref operation ref_name =
     (if \<not> starts_with ref_name SNAPSHOT_NAMESPACE \<or> str_contains (drop (length SNAPSHOT_NAMESPACE) ref_name) ''//'' \<or> str_contains ref_name ''..''
      then Inl (Git_Failed operation (''ref '' @ ref_name @ '' outside the modbit snapshot namespace''))
      else Inr ())"

definition act_lift :: "('e, 'a) result \<Rightarrow> ('s, 'e, 'a) act" where
  "act_lift r s = (r, s)"

definition show_ms :: "int \<Rightarrow> string" where
  "show_ms n = (if n < 0 then ''-'' @ show_nat (nat (- n)) else show_nat (nat n))"

definition create_snapshot :: "'g git_env \<Rightarrow> git_repo \<Rightarrow> snapshot_provenance \<Rightarrow> ('g, git_error, snapshot_handle) act" where
  "create_snapshot G repo p =
     act_then (git_head G repo) (\<lambda>base_commit.
     act_then (git_text G repo ''write-tree'' []) (\<lambda>orig_index_tree.
     act_then (git G repo ''add'' [''-A'']) (\<lambda>_.
     act_then (git_text G repo ''write-tree'' []) (\<lambda>dirty_tree.
     act_then (git G repo ''read-tree'' [orig_index_tree]) (\<lambda>_.
     act_then (git_text G repo ''rev-parse'' [''HEAD^{tree}'']) (\<lambda>head_tree.
       if dirty_tree = head_tree then act_fail (Git_Failed ''create_snapshot'' ''nothing to snapshot'')
       else let ref_name = SNAPSHOT_NAMESPACE @ sanitize_id (sp_task_id p) @ ''-'' @ take 8 dirty_tree;
                message = ''modbit snapshot: task='' @ sp_task_id p @ '' machine='' @ sp_machine_id p @ '' origin='' @ sp_origin p
                  @ '' at='' @ show_ms (sp_created_at_ms p)
            in act_then (git_text G repo ''commit-tree'' [dirty_tree, ''-p'', base_commit, ''-m'', message]) (\<lambda>commit.
               act_then (git G repo ''update-ref'' [ref_name, commit]) (\<lambda>_.
               act_return \<lparr>sn_ref_name = ref_name, sn_commit = commit, sn_tree = dirty_tree, sn_base_commit = base_commit,
                 sn_provenance = p\<rparr>))))))))"

definition fetch_snapshot :: "'g git_env \<Rightarrow> git_repo \<Rightarrow> string \<Rightarrow> snapshot_handle \<Rightarrow> ('g, git_error, unit) act" where
  "fetch_snapshot G repo from_repo h =
     act_then (act_lift (require_snapshot_ref ''fetch_snapshot'' (sn_ref_name h))) (\<lambda>_.
     git_unit G repo ''fetch'' [from_repo, sn_ref_name h @ '':'' @ sn_ref_name h])"

text \<open>Files that the snapshot deleted: the first that cannot be removed ends the loop.\<close>

fun remove_deleted :: "'g work_files \<Rightarrow> git_repo \<Rightarrow> string list \<Rightarrow> ('g, git_error, unit) act" where
  "remove_deleted F repo [] = act_return ()"
| "remove_deleted F repo (path # paths) =
     (\<lambda>g. let p = gr_root repo @ ''/'' @ path
          in if wf_is_file F p g then act_then (act_err Git_Io (wf_remove F p)) (\<lambda>_. remove_deleted F repo paths) g
             else remove_deleted F repo paths g)"

definition restore_snapshot :: "'g git_env \<Rightarrow> 'g work_files \<Rightarrow> git_repo \<Rightarrow> snapshot_handle \<Rightarrow> ('g, git_error, unit) act" where
  "restore_snapshot G F repo h =
     act_then (act_lift (require_snapshot_ref ''restore_snapshot'' (sn_ref_name h))) (\<lambda>_.
     act_then (git G repo ''read-tree'' [sn_commit h]) (\<lambda>_.
     act_then (git G repo ''checkout-index'' [''-a'', ''-f'']) (\<lambda>_.
     act_then (git_text G repo ''diff-tree'' [''-r'', ''--name-only'', ''--diff-filter=D'', ''HEAD'', sn_commit h]) (\<lambda>deleted.
     remove_deleted F repo (filter (\<lambda>l. l \<noteq> []) (str_lines deleted))))))"

definition verify_snapshot :: "'g git_env \<Rightarrow> git_repo \<Rightarrow> snapshot_handle \<Rightarrow> ('g, git_error, bool) act" where
  "verify_snapshot G repo h =
     act_then (git G repo ''add'' [''-A'']) (\<lambda>_.
     act_then (git_text G repo ''write-tree'' []) (\<lambda>actual.
     (\<lambda>g. (Inr (actual = sn_tree h), snd (git G repo ''reset'' [''-q'', ''--mixed'', ''HEAD''] g)))))"

definition export_snapshot_bundle :: "'g git_env \<Rightarrow> git_repo \<Rightarrow> snapshot_handle \<Rightarrow> ('g, git_error, string) act" where
  "export_snapshot_bundle G repo h =
     act_then (act_lift (require_snapshot_ref ''export_snapshot_bundle'' (sn_ref_name h))) (\<lambda>_.
     act_then (git G repo ''bundle'' [''create'', ''-'', sn_ref_name h]) (\<lambda>out.
       if po_stdout out = [] then act_fail (Git_Failed ''export_snapshot_bundle'' ''git bundle produced no bytes'')
       else act_return (po_stdout out)))"

definition import_snapshot_bundle ::
  "'g git_env \<Rightarrow> 'g work_files \<Rightarrow> nat \<Rightarrow> git_repo \<Rightarrow> snapshot_handle \<Rightarrow> string \<Rightarrow> ('g, git_error, unit) act" where
  "import_snapshot_bundle G F pid repo h bytes =
     act_then (act_lift (require_snapshot_ref ''import_snapshot_bundle'' (sn_ref_name h))) (\<lambda>_.
       let tmp = gr_root repo @ ''/.git/modbit-import-bundle-'' @ show_nat pid
       in act_then (act_err Git_Io (wf_write F tmp bytes)) (\<lambda>_.
          (\<lambda>g. case git G repo ''fetch'' [tmp, sn_ref_name h @ '':'' @ sn_ref_name h] g of
                 (r, g1) \<Rightarrow> (map_sum id (\<lambda>_. ()) r, snd (wf_remove F tmp g1)))))"

definition cleanup_snapshot :: "'g git_env \<Rightarrow> git_repo \<Rightarrow> snapshot_handle \<Rightarrow> ('g, git_error, unit) act" where
  "cleanup_snapshot G repo h =
     act_then (act_lift (require_snapshot_ref ''cleanup_snapshot'' (sn_ref_name h))) (\<lambda>_.
     act_then (git G repo ''update-ref'' [''-d'', sn_ref_name h]) (\<lambda>_.
     (\<lambda>g. case git G repo ''rev-parse'' [''--verify'', sn_ref_name h @ ''^{commit}''] g of
            (Inr _, g1) \<Rightarrow> (Inl (Git_Failed ''cleanup_snapshot'' (''ref '' @ sn_ref_name h @ '' still present after delete'')), g1)
          | (Inl _, g1) \<Rightarrow> (Inr (), g1))))"

fun delete_refs :: "'g git_env \<Rightarrow> git_repo \<Rightarrow> string list \<Rightarrow> ('g, git_error, unit) act" where
  "delete_refs G repo [] = act_return ()"
| "delete_refs G repo (r # rs) = act_then (git G repo ''update-ref'' [''-d'', r]) (\<lambda>_. delete_refs G repo rs)"

definition cleanup_all_snapshots :: "'g git_env \<Rightarrow> git_repo \<Rightarrow> ('g, git_error, nat) act" where
  "cleanup_all_snapshots G repo =
     act_then (git_text G repo ''for-each-ref'' [''--format=%(refname)'', SNAPSHOT_NAMESPACE]) (\<lambda>out.
       let refs = filter (\<lambda>l. starts_with l SNAPSHOT_NAMESPACE) (str_lines out)
       in act_map (\<lambda>_. length refs) (delete_refs G repo refs))"

section \<open>The handoff\<close>

record checkpoint_handoff_bundle =
  ch_env :: environment_handoff_bundle
  ch_snapshot :: snapshot_handle
  ch_snapshot_bundle_bytes :: string
  ch_bundle_sha256 :: string

record attach_error =
  ax_stage :: string
  ax_reason :: string

definition show_attach_error :: "attach_error \<Rightarrow> string" where
  "show_attach_error e = ''checkpoint attach failed at '' @ ax_stage e @ '': '' @ ax_reason e"

definition stage_err :: "string \<Rightarrow> string \<Rightarrow> attach_error" where
  "stage_err stage reason = \<lparr>ax_stage = stage, ax_reason = reason\<rparr>"

definition at_stage :: "string \<Rightarrow> ('g, git_error, 'a) act \<Rightarrow> ('g, attach_error, 'a) act" where
  "at_stage stage = act_err (\<lambda>e. stage_err stage (show_git_error e))"

definition export_checkpoint_bundle ::
  "(string \<Rightarrow> string) \<Rightarrow> 'g git_env \<Rightarrow> git_repo \<Rightarrow> snapshot_provenance \<Rightarrow> string \<Rightarrow> string \<Rightarrow> string list \<Rightarrow> string list
     \<Rightarrow> ('g, attach_error, checkpoint_handoff_bundle) act" where
  "export_checkpoint_bundle H G local p objective summary evidence_refs requirements =
     act_then (at_stage ''snapshot'' (create_snapshot G local p)) (\<lambda>h.
     act_then (at_stage ''bundle'' (export_snapshot_bundle G local h)) (\<lambda>bytes.
     act_return \<lparr>ch_env = \<lparr>hb_task_id = sp_task_id p, hb_objective = objective,
         hb_git_delta = ''snapshot '' @ sn_commit h @ '' (base '' @ sn_base_commit h @ '')'', hb_context_summary = summary,
         hb_evidence_refs = evidence_refs, hb_runtime_requirements = requirements\<rparr>,
       ch_snapshot = h, ch_snapshot_bundle_bytes = bytes, ch_bundle_sha256 = H bytes\<rparr>))"

record attach_receipt =
  ar_task_id :: string
  ar_restored_commit :: string
  ar_restored_tree :: string
  ar_exact_reconstruction :: bool

definition check_bundle :: "(string \<Rightarrow> string) \<Rightarrow> checkpoint_handoff_bundle \<Rightarrow> string \<Rightarrow> (attach_error, unit) result" where
  "check_bundle H b task =
     and_then (map_err (stage_err ''validate'') (validate_handoff (ch_env b))) (\<lambda>_.
       if hb_task_id (ch_env b) \<noteq> task
       then Inl (stage_err ''provenance'' (''bundle belongs to task '' @ debug_str (hb_task_id (ch_env b)) @ ''; refusing attach as '' @ debug_str task))
       else let got = H (ch_snapshot_bundle_bytes b)
            in if got \<noteq> ch_bundle_sha256 b
               then Inl (stage_err ''transfer'' (''bundle digest mismatch: expected '' @ ch_bundle_sha256 b @ '', got '' @ got))
               else Inr ())"

definition attach_checkpoint_bundle ::
  "(string \<Rightarrow> string) \<Rightarrow> 'g git_env \<Rightarrow> 'g work_files \<Rightarrow> nat \<Rightarrow> git_repo \<Rightarrow> checkpoint_handoff_bundle \<Rightarrow> string
     \<Rightarrow> ('g, attach_error, attach_receipt) act" where
  "attach_checkpoint_bundle H G F pid cloud b task =
     act_then (act_lift (check_bundle H b task)) (\<lambda>_.
     act_then (at_stage ''import'' (import_snapshot_bundle G F pid cloud (ch_snapshot b) (ch_snapshot_bundle_bytes b))) (\<lambda>_.
     act_then (at_stage ''restore'' (restore_snapshot G F cloud (ch_snapshot b))) (\<lambda>_.
     act_then (at_stage ''verify'' (verify_snapshot G cloud (ch_snapshot b))) (\<lambda>exact.
       if \<not> exact then act_fail (stage_err ''verify'' (''restored tree does not reproduce snapshot tree '' @ sn_tree (ch_snapshot b)))
       else act_return \<lparr>ar_task_id = task, ar_restored_commit = sn_commit (ch_snapshot b), ar_restored_tree = sn_tree (ch_snapshot b),
         ar_exact_reconstruction = True\<rparr>))))"

section \<open>Only refs of the snapshot namespace are deleted\<close>

text \<open>Git with a log of the command lines it was given.\<close>

definition logged :: "'g git_env \<Rightarrow> ('g \<times> string list list) git_env" where
  "logged G = \<lparr>ge_run = (\<lambda>args (g, log). case ge_run G args g of (r, g1) \<Rightarrow> (r, (g1, log @ [args]))),
     ge_apply = (\<lambda>args txt (g, log). case ge_apply G args txt g of (r, g1) \<Rightarrow> (r, (g1, log @ [args])))\<rparr>"

text \<open>A command line that deletes a ref names one below the namespace.\<close>

definition deletes_own_ref :: "string list \<Rightarrow> bool" where
  "deletes_own_ref args \<longleftrightarrow> (args ! 2 = ''update-ref'' \<and> args ! 3 = ''-d'' \<longrightarrow> starts_with (args ! 4) SNAPSHOT_NAMESPACE)"

definition log_safe :: "'g \<times> string list list \<Rightarrow> bool" where
  "log_safe s \<longleftrightarrow> list_all deletes_own_ref (snd s)"

lemma git_logged:
  assumes "deletes_own_ref (''-C'' # gr_root repo # operation # args)"
  shows "ensures log_safe (git (logged G) repo operation args) (\<lambda>_. True)"
  using assms by (auto simp: ensures_def git_def logged_def log_safe_def Let_def split: prod.splits sum.splits)

lemma git_logged_other: "operation \<noteq> ''update-ref'' \<Longrightarrow> ensures log_safe (git (logged G) repo operation args) (\<lambda>_. True)"
  by (rule git_logged) (simp add: deletes_own_ref_def)

lemma git_text_logged: "operation \<noteq> ''update-ref'' \<Longrightarrow> ensures log_safe (git_text (logged G) repo operation args) (\<lambda>_. True)"
  unfolding git_text_def act_map_def by (rule ensures_then [OF git_logged_other]) auto

lemma require_ensures: "ensures P (act_lift (require_snapshot_ref operation r)) (\<lambda>_. starts_with r SNAPSHOT_NAMESPACE)"
  by (auto simp: ensures_def act_lift_def require_snapshot_ref_def)

lemma delete_refs_logged:
  "list_all (\<lambda>r. starts_with r SNAPSHOT_NAMESPACE) rs \<Longrightarrow> ensures log_safe (delete_refs (logged G) repo rs) (\<lambda>_. True)"
proof (induction rs)
  case (Cons r rs)
  have "ensures log_safe (git (logged G) repo ''update-ref'' [''-d'', r]) (\<lambda>_. True)"
    using Cons.prems by (intro git_logged) (simp add: deletes_own_ref_def)
  then show ?case using Cons by (auto intro: ensures_then)
qed auto

lemma cleanup_one_logged: "ensures log_safe (cleanup_snapshot (logged G) repo h) (\<lambda>_. True)"
proof -
  let ?check = "\<lambda>g. case git (logged G) repo ''rev-parse'' [''--verify'', sn_ref_name h @ ''^{commit}''] g of
    (Inr _, g1) \<Rightarrow> (Inl (Git_Failed ''cleanup_snapshot'' (''ref '' @ sn_ref_name h @ '' still present after delete'')), g1) | (Inl _, g1) \<Rightarrow> (Inr (), g1)"
  have g: "ensures log_safe (git (logged G) repo ''rev-parse'' [''--verify'', sn_ref_name h @ ''^{commit}'']) (\<lambda>_. True)"
    by (rule git_logged_other) simp
  have e: "snd (?check s) = snd (git (logged G) repo ''rev-parse'' [''--verify'', sn_ref_name h @ ''^{commit}''] s)" for s
    by (cases "git (logged G) repo ''rev-parse'' [''--verify'', sn_ref_name h @ ''^{commit}''] s") (simp split: sum.split)
  have "log_safe (snd (?check s))" if "log_safe s" for s unfolding e using g that unfolding ensures_def by blast
  then have "ensures log_safe ?check (\<lambda>_. True)" by (simp add: ensures_def)
  moreover have "ensures log_safe (git (logged G) repo ''update-ref'' [''-d'', sn_ref_name h]) (\<lambda>_. True)"
    if "starts_with (sn_ref_name h) SNAPSHOT_NAMESPACE" using that by (intro git_logged) (simp add: deletes_own_ref_def)
  ultimately show ?thesis unfolding cleanup_snapshot_def by (intro ensures_then [OF require_ensures] ensures_then) auto
qed

lemma cleanup_all_logged: "ensures log_safe (cleanup_all_snapshots (logged G) repo) (\<lambda>_. True)"
proof -
  have "ensures log_safe (delete_refs (logged G) repo (filter (\<lambda>l. starts_with l SNAPSHOT_NAMESPACE) xs)) (\<lambda>_. True)" for xs
    by (rule delete_refs_logged) (simp add: list_all_iff)
  then show ?thesis unfolding cleanup_all_snapshots_def act_map_def Let_def by (intro ensures_then [OF git_text_logged] ensures_then [where R = "\<lambda>_. True"]) auto
qed

text \<open>Whatever handle it is given and whatever git prints, cleaning up asks git to delete only refs below \<open>refs/modbit/snapshot/\<close>.\<close>

lemma cleanup_deletes_own_refs_only:
  "list_all deletes_own_ref (snd (snd (cleanup_snapshot (logged G) repo h (g, [])))) \<and>
   list_all deletes_own_ref (snd (snd (cleanup_all_snapshots (logged G) repo (g, []))))"
  using cleanup_one_logged [of G repo h] cleanup_all_logged [of G repo] unfolding ensures_def log_safe_def by fastforce

section \<open>Handles that are accepted\<close>

definition ref_char :: "char \<Rightarrow> bool" where
  "ref_char c \<longleftrightarrow> c \<noteq> CHR ''/'' \<and> c \<noteq> CHR ''.''"

lemma safe_ref_char: "safe_char c \<Longrightarrow> ref_char c"
  by (auto simp: safe_char_def ref_char_def Let_def)

lemma sanitize_id_safe: "list_all ref_char (sanitize_id raw)"
  by (auto simp: sanitize_id_def Let_def list_all_iff ref_char_def dest!: safe_ref_char split: if_splits)

lemma ensures_trivial: "ensures (\<lambda>_. True) m (\<lambda>_. True)"
  by (simp add: ensures_def)

lemma ensures_result: "ensures (\<lambda>_. True) m R \<Longrightarrow> fst (m s) = Inr x \<Longrightarrow> R x"
  by (simp add: ensures_def)

lemma create_snapshot_names:
  "ensures (\<lambda>_. True) (create_snapshot G repo p)
     (\<lambda>h. sn_ref_name h = SNAPSHOT_NAMESPACE @ sanitize_id (sp_task_id p) @ ''-'' @ take 8 (sn_tree h) \<and> sn_provenance h = p)"
  unfolding create_snapshot_def Let_def
  by (intro ensures_then [OF ensures_trivial] ensures_if ensures_fail ensures_return) simp

lemma no_sublist: "c \<in> set p \<Longrightarrow> c \<notin> set s \<Longrightarrow> \<not> sublist p s"
  by (auto simp: sublist_def)

text \<open>The handle of every snapshot that was created is accepted by the operations that take one, as trees are hexadecimal; and the
  task is part of its name.\<close>

lemma created_snapshot_is_accepted:
  assumes "fst (create_snapshot G repo p g) = Inr h" and "list_all ref_char (sn_tree h)"
  shows "require_snapshot_ref operation (sn_ref_name h) = Inr () \<and>
    starts_with (sn_ref_name h) (SNAPSHOT_NAMESPACE @ sanitize_id (sp_task_id p) @ ''-'') \<and> sn_provenance h = p"
proof -
  let ?tail = "sanitize_id (sp_task_id p) @ ''-'' @ take 8 (sn_tree h)"
  have h: "sn_ref_name h = SNAPSHOT_NAMESPACE @ ?tail" "sn_provenance h = p"
    using ensures_result [OF create_snapshot_names assms(1)] by blast+
  have "list_all ref_char (take 8 (sn_tree h))" using assms(2) by (metis append_take_drop_id list_all_append)
  then have t: "list_all ref_char ?tail" by (simp add: sanitize_id_safe ref_char_def)
  then have "\<not> sublist ''//'' ?tail" by (intro no_sublist [of "CHR ''/''"]) (auto simp: list_all_iff ref_char_def)
  moreover have "\<not> sublist ''..'' (SNAPSHOT_NAMESPACE @ ?tail)"
    using t by (intro no_sublist [of "CHR ''.''"]) (auto simp: list_all_iff ref_char_def SNAPSHOT_NAMESPACE_def)
  ultimately show ?thesis using h by (simp add: require_snapshot_ref_def str_contains_def starts_with_def)
qed

section \<open>What an attach guarantees\<close>

lemma check_bundle_ok: "check_bundle H b task = Inr () \<longleftrightarrow> task \<noteq> [] \<and> hb_task_id (ch_env b) = task \<and> H (ch_snapshot_bundle_bytes b) = ch_bundle_sha256 b"
  by (auto simp: check_bundle_def validate_handoff_def Let_def)

text \<open>A bundle that is for another task, or whose bytes do not have the digest it names, is refused before git and the files are touched.\<close>

lemma bad_bundle_touches_nothing:
  assumes "hb_task_id (ch_env b) \<noteq> task \<or> task = [] \<or> H (ch_snapshot_bundle_bytes b) \<noteq> ch_bundle_sha256 b"
  shows "\<exists>e. attach_checkpoint_bundle H G F pid cloud b task g = (Inl e, g)"
proof -
  have "check_bundle H b task \<noteq> Inr ()" using assms check_bundle_ok by blast
  then obtain e where "check_bundle H b task = Inl e" by (cases "check_bundle H b task") auto
  then show ?thesis by (simp add: attach_checkpoint_bundle_def act_then_def act_lift_def)
qed

lemma bad_bundle_touches_nothing_witness:
  "\<exists>e. attach_checkpoint_bundle (\<lambda>_. ''d'') \<lparr>ge_run = (\<lambda>_ g. (Inl [], g + 1)), ge_apply = (\<lambda>_ _ g. (Spawn_Failed [], g + 1))\<rparr>
     \<lparr>wf_is_file = (\<lambda>_ _. False), wf_remove = (\<lambda>_ g. (Inr (), g + 1)), wf_write = (\<lambda>_ _ g. (Inr (), g + 1))\<rparr> 1 \<lparr>gr_root = ''/r''\<rparr>
     \<lparr>ch_env = \<lparr>hb_task_id = ''a'', hb_objective = [], hb_git_delta = [], hb_context_summary = [], hb_evidence_refs = [], hb_runtime_requirements = []\<rparr>,
      ch_snapshot = \<lparr>sn_ref_name = [], sn_commit = [], sn_tree = [], sn_base_commit = [],
        sn_provenance = \<lparr>sp_task_id = ''a'', sp_machine_id = [], sp_origin = [], sp_created_at_ms = 0\<rparr>\<rparr>,
      ch_snapshot_bundle_bytes = [], ch_bundle_sha256 = ''d''\<rparr> ''b'' (0 :: nat) = (Inl e, 0)"
  by (rule bad_bundle_touches_nothing) simp

text \<open>An attach that succeeds was for the task of the bundle with intact bytes, and its last look at the work tree, after everything was
  staged, gave exactly the tree of the snapshot.\<close>

lemma attached_bundle_is_exact:
  assumes "attach_checkpoint_bundle H G F pid cloud b task g = (Inr r, g')"
  shows "task \<noteq> [] \<and> hb_task_id (ch_env b) = task \<and> H (ch_snapshot_bundle_bytes b) = ch_bundle_sha256 b \<and>
    ar_restored_tree r = sn_tree (ch_snapshot b) \<and>
    (\<exists>g1 g2 g3 out. fst (git G cloud ''add'' [''-A''] g1) = Inr out \<and> snd (git G cloud ''add'' [''-A''] g1) = g2 \<and>
       git_text G cloud ''write-tree'' [] g2 = (Inr (ar_restored_tree r), g3))"
proof -
  obtain g1 where c: "check_bundle H b task = Inr ()" and v': "verify_snapshot G cloud (ch_snapshot b) g1 = (Inr True, g')"
    and r: "ar_restored_tree r = sn_tree (ch_snapshot b)"
    using assms unfolding attach_checkpoint_bundle_def
    by (auto simp: act_then_cases act_lift_def at_stage_def act_err_def act_fail_def act_return_def split: if_splits prod.splits)
  obtain out g2 actual g3 where a: "git G cloud ''add'' [''-A''] g1 = (Inr out, g2)" and w: "git_text G cloud ''write-tree'' [] g2 = (Inr actual, g3)"
    and e: "Inr (actual = sn_tree (ch_snapshot b)) = (Inr True :: (git_error, bool) result)"
    using v' unfolding verify_snapshot_def act_then_cases by blast
  have "git_text G cloud ''write-tree'' [] g2 = (Inr (ar_restored_tree r), g3)" using w e r by simp
  then have "\<exists>g1 g2 g3 out. fst (git G cloud ''add'' [''-A''] g1) = Inr out \<and> snd (git G cloud ''add'' [''-A''] g1) = g2 \<and>
      git_text G cloud ''write-tree'' [] g2 = (Inr (ar_restored_tree r), g3)" using a by (metis fst_conv snd_conv)
  then show ?thesis using c r check_bundle_ok by blast
qed

text \<open>Neither the base of a snapshot nor its provenance matters to an attach: a snapshot of another task, or one on a base that the
  worker does not have, is attached all the same.\<close>

lemma base_and_provenance_are_not_checked:
  "attach_checkpoint_bundle H G F pid cloud (b\<lparr>ch_snapshot := (ch_snapshot b)\<lparr>sn_base_commit := x, sn_provenance := p\<rparr>\<rparr>) task
     = attach_checkpoint_bundle H G F pid cloud b task"
proof -
  let ?b = "b\<lparr>ch_snapshot := (ch_snapshot b)\<lparr>sn_base_commit := x, sn_provenance := p\<rparr>\<rparr>"
  have "check_bundle H ?b task = check_bundle H b task" by (simp add: check_bundle_def Let_def)
  moreover have "import_snapshot_bundle G F pid cloud (ch_snapshot ?b) = import_snapshot_bundle G F pid cloud (ch_snapshot b)"
    by (simp add: import_snapshot_bundle_def fun_eq_iff)
  moreover have "restore_snapshot G F cloud (ch_snapshot ?b) = restore_snapshot G F cloud (ch_snapshot b)" by (simp add: restore_snapshot_def)
  moreover have "verify_snapshot G cloud (ch_snapshot ?b) = verify_snapshot G cloud (ch_snapshot b)" by (simp add: verify_snapshot_def)
  ultimately show ?thesis unfolding attach_checkpoint_bundle_def by (simp cong: if_cong)
qed

end
