(* ===== verification/Agent_Runtime.thy ===== *)
theory Agent_Runtime
  imports Rust_Text Ordered_Map "HOL-Library.Word"
begin

text \<open>
  Profiles, plans, delegation and background work of agents: \<^verbatim>\<open>agent_profiles_plans.rs\<close>, \<^verbatim>\<open>agent_runtime_batch2.rs\<close>,
  \<^verbatim>\<open>agent_runtime_batch3.rs\<close> and \<^verbatim>\<open>agent_runtime_final.rs\<close> of \<^verbatim>\<open>crates/core-runtime/src\<close>. The digest and the JSON codec are parameters. Depths and
  capacities are words of 32 bits, whose addition wraps as it does in a release build. A slice of a text off a character boundary is a panic, the
  result \<^term>\<open>None\<close>.
\<close>

section \<open>Profiles, plan mode, plan versions and tasks\<close>

record agent_profile =
  ap_name :: string
  ap_requested_tools :: "string list"
  ap_model :: string

definition compile_effective_tools :: "agent_profile \<Rightarrow> string list \<Rightarrow> string list" where
  "compile_effective_tools p allowed = filter (\<lambda>t. t \<in> set allowed) (ap_requested_tools p)"

datatype run_mode = Mode_Normal | Mode_Plan

datatype mode_gate_error = WriteDeniedInPlanMode

fun show_mode_gate_error :: "mode_gate_error \<Rightarrow> string" where
  "show_mode_gate_error WriteDeniedInPlanMode = ''write denied: plan mode is mutation-disabled''"

definition check_mutation_allowed :: "run_mode \<Rightarrow> bool \<Rightarrow> (mode_gate_error, unit) result" where
  "check_mutation_allowed mode is_mutation = (if mode = Mode_Plan \<and> is_mutation then Inl WriteDeniedInPlanMode else Inr ())"

record plan_version =
  pv_version_id :: string
  pv_plan_graph_json :: string
  pv_annotations :: "string list"

type_synonym plan_store = "(string, plan_version) btree"

definition save_plan :: "(string \<Rightarrow> string) \<Rightarrow> string \<Rightarrow> plan_store \<Rightarrow> string \<times> plan_store" where
  "save_plan H json s =
     (let i = ''plan-'' @ take 12 (H json)
      in (i, bt_insert i \<lparr>pv_version_id = i, pv_plan_graph_json = json, pv_annotations = []\<rparr> s))"

definition get_plan :: "string \<Rightarrow> plan_store \<Rightarrow> plan_version option" where
  "get_plan i s = bt_get i s"

definition annotate_plan :: "string \<Rightarrow> string \<Rightarrow> plan_store \<Rightarrow> (string, unit) result \<times> plan_store" where
  "annotate_plan i note s =
     (case bt_get i s of
        None \<Rightarrow> (Inl (''unknown plan version '' @ i), s)
      | Some _ \<Rightarrow> (Inr (), bt_update i (\<lambda>v. v\<lparr>pv_annotations := pv_annotations v @ [note]\<rparr>) s))"

record todo_task =
  tt_task_id :: string
  tt_title :: string
  tt_status :: string
  tt_attempts :: "string list"
  tt_evidence :: "string list"

type_synonym todo_graph = "(string, todo_task) btree"

definition todo_add :: "todo_task \<Rightarrow> todo_graph \<Rightarrow> todo_graph" where
  "todo_add t g = bt_insert (tt_task_id t) t g"

definition todo_set_status :: "string \<Rightarrow> string \<Rightarrow> todo_graph \<Rightarrow> (string, unit) result \<times> todo_graph" where
  "todo_set_status i status g =
     (case bt_get i g of
        None \<Rightarrow> (Inl (''unknown task '' @ i), g)
      | Some _ \<Rightarrow> (Inr (), bt_update i (\<lambda>t. t\<lparr>tt_status := status,
           tt_attempts := tt_attempts t @ [''status '' @ map char_of [226 :: nat, 134, 146] @ '' '' @ status]\<rparr>) g))"

definition todo_add_evidence :: "string \<Rightarrow> string \<Rightarrow> todo_graph \<Rightarrow> (string, unit) result \<times> todo_graph" where
  "todo_add_evidence i evidence g =
     (case bt_get i g of
        None \<Rightarrow> (Inl (''unknown task '' @ i), g)
      | Some _ \<Rightarrow> (Inr (), bt_update i (\<lambda>t. t\<lparr>tt_evidence := tt_evidence t @ [evidence]\<rparr>) g))"

record detached_worker =
  dr_run_id :: string
  dr_lease_epoch :: nat
  dr_last_heartbeat_ms :: int
  dr_checkpoint_cursor :: nat
  dr_can_expand_privileges :: bool

definition detached_new :: "string \<Rightarrow> nat \<Rightarrow> int \<Rightarrow> detached_worker" where
  "detached_new i epoch now = \<lparr>dr_run_id = i, dr_lease_epoch = epoch, dr_last_heartbeat_ms = now, dr_checkpoint_cursor = 0, dr_can_expand_privileges = False\<rparr>"

definition reconnect_run :: "detached_worker \<Rightarrow> nat \<Rightarrow> (string, unit) result" where
  "reconnect_run r epoch =
     (if epoch \<noteq> dr_lease_epoch r
      then Inl (''lease epoch mismatch: client '' @ show_nat epoch @ '' vs run '' @ show_nat (dr_lease_epoch r))
      else if dr_can_expand_privileges r then Inl ''detached runs can never expand privileges''
      else Inr ())"

section \<open>Attempts, admission, plan graphs, stalls and child prompts\<close>

record agent_attempt =
  aa_attempt_id :: string
  aa_parent_agent :: string
  aa_prior_status :: string
  aa_new_prompt :: string
  aa_prior_evidence :: "string list"

definition resume_terminal_child ::
  "(string \<Rightarrow> string) \<Rightarrow> string \<Rightarrow> string list \<Rightarrow> string \<Rightarrow> string \<Rightarrow> bool \<Rightarrow> (string, agent_attempt) result" where
  "resume_terminal_child H prior_status prior_evidence agent new_prompt allow_continue =
     (if prior_status \<notin> {''completed'', ''cancelled'', ''failed''}
      then Inl (''agent '' @ agent @ '' is '' @ debug_str prior_status @ '', not terminal'')
      else if \<not> allow_continue then Inl (''policy forbids continuing agent '' @ agent)
      else Inr \<lparr>aa_attempt_id = agent @ ''-attempt-'' @ take 8 (H new_prompt), aa_parent_agent = agent, aa_prior_status = prior_status,
                aa_new_prompt = new_prompt, aa_prior_evidence = prior_evidence\<rparr>)"

datatype delegation_error = DepthExceeded "32 word" "32 word" | CapacityExhausted "32 word" "32 word"

fun show_delegation_error :: "delegation_error \<Rightarrow> string" where
  "show_delegation_error (DepthExceeded depth max_depth) =
     ''delegation depth '' @ show_nat (unat depth) @ '' exceeds the explicit max '' @ show_nat (unat max_depth)"
| "show_delegation_error (CapacityExhausted active capacity) =
     ''subagent capacity exhausted: '' @ show_nat (unat active) @ '' active, capacity '' @ show_nat (unat capacity)"

record delegation_admission =
  da_max_depth :: "32 word"
  da_capacity :: "32 word"
  da_active :: "(string, 32 word) btree"

definition delegation_new :: "32 word \<Rightarrow> 32 word \<Rightarrow> delegation_admission" where
  "delegation_new max_depth capacity = \<lparr>da_max_depth = max_depth, da_capacity = capacity, da_active = []\<rparr>"

definition admit_child :: "string \<Rightarrow> 32 word \<Rightarrow> delegation_admission \<Rightarrow> (delegation_error, 32 word) result \<times> delegation_admission" where
  "admit_child agent parent_depth d =
     (let depth = parent_depth + 1; active = of_nat (length (da_active d))
      in if depth > da_max_depth d then (Inl (DepthExceeded depth (da_max_depth d)), d)
         else if active \<ge> da_capacity d then (Inl (CapacityExhausted active (da_capacity d)), d)
         else (Inr depth, d\<lparr>da_active := bt_insert agent depth (da_active d)\<rparr>))"

definition finish_child :: "string \<Rightarrow> delegation_admission \<Rightarrow> delegation_admission" where
  "finish_child agent d = d\<lparr>da_active := bt_remove agent (da_active d)\<rparr>"

datatype plan_status = Plan_Pending | Plan_InProgress | Plan_Done | Plan_Blocked

record plan_node =
  nd_node_id :: string
  nd_title :: string
  nd_status :: plan_status
  nd_owner :: "string option"
  nd_depends_on :: "string list"
  nd_evidence :: "string list"
  nd_blockers :: "string list"

type_synonym plan_graph = "(string, plan_node) btree"

definition plan_add :: "plan_node \<Rightarrow> plan_graph \<Rightarrow> plan_graph" where
  "plan_add n g = bt_insert (nd_node_id n) n g"

definition plan_set_status :: "string \<Rightarrow> plan_status \<Rightarrow> plan_graph \<Rightarrow> (string, unit) result \<times> plan_graph" where
  "plan_set_status i status g =
     (case bt_get i g of
        None \<Rightarrow> (Inl (''unknown plan node '' @ i), g)
      | Some _ \<Rightarrow> (Inr (), bt_update i (\<lambda>n. n\<lparr>nd_status := status\<rparr>) g))"

definition dependency_done :: "plan_graph \<Rightarrow> string \<Rightarrow> bool" where
  "dependency_done g d = (case bt_get d g of Some n \<Rightarrow> nd_status n = Plan_Done | None \<Rightarrow> False)"

definition node_ready :: "plan_graph \<Rightarrow> plan_node \<Rightarrow> bool" where
  "node_ready g n \<longleftrightarrow> nd_status n = Plan_Pending \<and> list_all (dependency_done g) (nd_depends_on n) \<and> nd_blockers n = []"

definition ready_nodes :: "plan_graph \<Rightarrow> string list" where
  "ready_nodes g = map nd_node_id (filter (node_ready g) (bt_values g))"

definition plan_digest :: "(string \<Rightarrow> string) \<Rightarrow> (plan_graph \<Rightarrow> (string, string) result) \<Rightarrow> plan_graph \<Rightarrow> string" where
  "plan_digest H ser g = H (case ser g of Inr t \<Rightarrow> t | Inl _ \<Rightarrow> [])"

record stall_watchdog =
  sw_threshold :: nat
  sw_repeats :: nat
  sw_last_signature :: "string option"

record stall_verdict =
  sv_stalled :: bool
  sv_repeats :: nat
  sv_signature :: string
  sv_blocker_evidence :: string

definition stall_new :: "nat \<Rightarrow> stall_watchdog" where
  "stall_new threshold = \<lparr>sw_threshold = threshold, sw_repeats = 0, sw_last_signature = None\<rparr>"

definition observe_activity :: "string \<Rightarrow> bool \<Rightarrow> stall_watchdog \<Rightarrow> stall_verdict \<times> stall_watchdog" where
  "observe_activity signature new_results w =
     (if new_results
      then (\<lparr>sv_stalled = False, sv_repeats = 0, sv_signature = signature, sv_blocker_evidence = []\<rparr>,
            w\<lparr>sw_repeats := 0, sw_last_signature := Some signature\<rparr>)
      else let w1 = (if sw_last_signature w = Some signature then w\<lparr>sw_repeats := sw_repeats w + 1\<rparr>
                     else w\<lparr>sw_repeats := 1, sw_last_signature := Some signature\<rparr>);
               stalled = (sw_repeats w1 \<ge> sw_threshold w1)
           in (\<lparr>sv_stalled = stalled, sv_repeats = sw_repeats w1, sv_signature = signature,
                sv_blocker_evidence = (if stalled then ''no progress: identical activity signature '' @ debug_str signature @ '' repeated ''
                  @ show_nat (sw_repeats w1) @ '' times without new results'' else [])\<rparr>, w1))"

definition build_child_prompt :: "string \<Rightarrow> string list \<Rightarrow> string list \<Rightarrow> string list \<Rightarrow> string list \<Rightarrow> (string, string) result" where
  "build_child_prompt task memory secrets transcript context =
     (if list_ex (str_contains task) secrets then Inl ''delegated task leaks a parent secret''
      else let prompt = ''task: '' @ task @ [CHR 0x0A] @ concat (map (\<lambda>c. ''context: '' @ c @ [CHR 0x0A]) context)
           in if list_ex (str_contains prompt) memory \<or> transcript \<noteq> [] \<and> str_contains prompt (hd transcript)
              then Inl ''child prompt leaked parent-only material''
              else Inr prompt)"

section \<open>Failures for repair, specialised children and imported profiles\<close>

record bounded_failure =
  bf_excerpt :: string
  bf_raw_sha256 :: string
  bf_raw_len :: nat

record command_result =
  cr_exec_id :: string
  cr_exit_code :: int
  cr_raw_output :: string
  cr_bounded_failure :: "bounded_failure option"

definition feed_failure_for_repair :: "(string \<Rightarrow> string) \<Rightarrow> string \<Rightarrow> int \<Rightarrow> string \<Rightarrow> command_result option" where
  "feed_failure_for_repair H i code raw =
     (if code \<noteq> 0
      then let tail_start = length raw - 2000
           in if \<not> char_boundary raw tail_start then None
              else Some \<lparr>cr_exec_id = i, cr_exit_code = code, cr_raw_output = raw,
                     cr_bounded_failure = Some \<lparr>bf_excerpt = dropWhile (\<lambda>c. c \<noteq> CHR 0x0A) (drop tail_start raw),
                       bf_raw_sha256 = H raw, bf_raw_len = length raw\<rparr>\<rparr>
      else Some \<lparr>cr_exec_id = i, cr_exit_code = code, cr_raw_output = raw, cr_bounded_failure = None\<rparr>)"

record agent_profile_spec =
  as_kind :: string
  as_tools :: "string list"
  as_model :: string
  as_domain_context :: "string list"

record specialized_child =
  sl_agent_id :: string
  sl_kind :: string
  sl_model :: string
  sl_allowed_tools :: "string list"
  sl_state :: "(string, string) btree"

definition launch_specialized :: "string \<Rightarrow> agent_profile_spec \<Rightarrow> specialized_child" where
  "launch_specialized agent p = \<lparr>sl_agent_id = agent, sl_kind = as_kind p, sl_model = as_model p, sl_allowed_tools = as_tools p, sl_state = []\<rparr>"

record follow_up =
  fu_parent_agent_id :: string
  fu_prior_output_sha256 :: string
  fu_instruction :: string

definition send_follow_up :: "(string \<Rightarrow> string) \<Rightarrow> string \<Rightarrow> string \<Rightarrow> string \<Rightarrow> follow_up" where
  "send_follow_up H parent prior_output instruction =
     \<lparr>fu_parent_agent_id = parent, fu_prior_output_sha256 = H prior_output, fu_instruction = instruction\<rparr>"

record imported_profile =
  im_name :: string
  im_tools :: "string list"
  im_model :: string

datatype import_outcome = Profile_Imported imported_profile | Profile_Narrowed imported_profile "string list"

definition import_profile :: "string \<Rightarrow> string list \<Rightarrow> string \<Rightarrow> string list \<Rightarrow> (string, import_outcome) result" where
  "import_profile name tools model allowlist =
     (if str_trim name = [] then Inl ''profile name must not be empty''
      else let safe = filter (\<lambda>t. t \<in> set allowlist) tools; removed = filter (\<lambda>t. t \<notin> set allowlist) tools
           in if safe = []
              then Inl (''profile '' @ debug_str name @ '' declares no safe tools '' @ map char_of [226 :: nat, 128, 148] @ '' rejected'')
              else let p = \<lparr>im_name = name, im_tools = safe, im_model = model\<rparr>
                   in Inr (if removed = [] then Profile_Imported p else Profile_Narrowed p removed))"

section \<open>Envelopes, ownership, restart and handles\<close>

datatype subagent_kind = Kind_Coder | Kind_Explorer | Kind_Planner

record result_envelope =
  re_agent_id :: string
  re_kind :: subagent_kind
  re_findings :: "string list"
  re_write_paths :: "string list"

fun envelope_refusal :: "subagent_kind \<Rightarrow> string \<Rightarrow> string list \<Rightarrow> bool \<Rightarrow> string option" where
  "envelope_refusal Kind_Explorer agent paths attached = (if paths \<noteq> [] then Some (''explorer child '' @ agent @ '' cannot mutate'') else None)"
| "envelope_refusal Kind_Coder agent paths attached =
     (if paths \<noteq> [] \<and> \<not> attached then Some (''coder child '' @ agent @ '' mutation requires worktree + capability'') else None)"
| "envelope_refusal Kind_Planner agent paths attached = (if paths \<noteq> [] then Some (''planner child '' @ agent @ '' cannot mutate'') else None)"

definition check_envelope :: "subagent_kind \<Rightarrow> string \<Rightarrow> string list \<Rightarrow> string list \<Rightarrow> bool \<Rightarrow> (string, result_envelope) result" where
  "check_envelope kind agent findings paths attached =
     (case envelope_refusal kind agent paths attached of
        Some e \<Rightarrow> Inl e
      | None \<Rightarrow> Inr \<lparr>re_agent_id = agent, re_kind = kind, re_findings = findings, re_write_paths = paths\<rparr>)"

datatype profile_spawn_policy = MaySpawn | LeafProfile

fun may_spawn :: "profile_spawn_policy \<Rightarrow> nat \<Rightarrow> (string, unit) result" where
  "may_spawn LeafProfile depth = Inl ''leaf profile cannot spawn nested agents''"
| "may_spawn MaySpawn depth = (if depth = 0 then Inl ''depth 0 spawn request is invalid'' else Inr ())"

record child_agent_state =
  ag_agent_id :: string
  ag_cursor :: nat
  ag_scratch :: "(string, string) btree"

definition agent_state_new :: "string \<Rightarrow> child_agent_state" where
  "agent_state_new agent = \<lparr>ag_agent_id = agent, ag_cursor = 0, ag_scratch = []\<rparr>"

definition state_digest :: "(string \<Rightarrow> string) \<Rightarrow> (child_agent_state \<Rightarrow> (string, string) result) \<Rightarrow> child_agent_state \<Rightarrow> string" where
  "state_digest H ser s = H (case ser s of Inr t \<Rightarrow> t | Inl _ \<Rightarrow> [])"

text \<open>What the JSON library reads: the value of a line or its error, and the text under the key \<open>agent_id\<close>, if there is one.\<close>

record 'v restart_codec =
  lc_parse :: "string \<Rightarrow> (string, 'v) result"
  lc_agent_id :: "'v \<Rightarrow> string option"
  lc_utf8_error :: "string \<Rightarrow> string"

fun restore_lines :: "'v restart_codec \<Rightarrow> (string, 'v) btree \<Rightarrow> string list \<Rightarrow> (string, (string, 'v) btree) result" where
  "restore_lines K restored [] = Inr restored"
| "restore_lines K restored (l # ls) =
     (case lc_parse K l of
        Inl e \<Rightarrow> Inl (''corrupt journal line: '' @ e)
      | Inr v \<Rightarrow> restore_lines K (bt_insert ((case lc_agent_id K v of Some a \<Rightarrow> a | None \<Rightarrow> ''?'') @ '':'' @ show_nat (length restored)) v restored) ls)"

definition kill_and_restart :: "'v restart_codec \<Rightarrow> string \<Rightarrow> (string, (string, 'v) btree) result" where
  "kill_and_restart K bytes =
     (if \<not> valid_utf8 bytes then Inl (''journal not utf8: '' @ lc_utf8_error K bytes)
      else restore_lines K [] (filter (\<lambda>l. l \<noteq> []) (str_lines bytes)))"

fun validate_profile :: "string list \<Rightarrow> string list \<Rightarrow> (string, unit) result" where
  "validate_profile [] known = Inr ()"
| "validate_profile (cap # caps) known =
     (if cap \<notin> set known then Inl (''unknown capability '' @ debug_str cap)
      else if str_contains cap ''bypass'' \<or> str_contains cap ''admin'' then Inl (''unsafe capability expansion attempt: '' @ debug_str cap)
      else validate_profile caps known)"

record ownership_policy =
  ow_primary :: "string option"
  ow_delegates :: "string list"

definition ensure_primary :: "string \<Rightarrow> ownership_policy \<Rightarrow> (string, unit) result \<times> ownership_policy" where
  "ensure_primary agent o' =
     (case ow_primary o' of
        Some existing \<Rightarrow> (Inl (''primary already exists: '' @ existing @ '' '' @ map char_of [226 :: nat, 128, 148] @ '' refusing duplicate primary '' @ agent), o')
      | None \<Rightarrow> (Inr (), o'\<lparr>ow_primary := Some agent\<rparr>))"

definition delegate_work :: "string \<Rightarrow> string \<Rightarrow> ownership_policy \<Rightarrow> (string, unit) result \<times> ownership_policy" where
  "delegate_work agent work o' =
     (if ow_primary o' = None then (Inl ''no primary agent owns this task'', o')
      else (Inr (), o'\<lparr>ow_delegates := ow_delegates o' @ [agent @ '': '' @ work]\<rparr>))"

definition is_swarm :: "ownership_policy \<Rightarrow> bool" where
  "is_swarm o' \<longleftrightarrow> length (ow_delegates o') > 3"

record agent_identity =
  ai_agent_id :: string
  ai_lineage_root :: string
  ai_model :: string

definition switch_model :: "agent_identity \<Rightarrow> string \<Rightarrow> (string, agent_identity) result" where
  "switch_model i new_model =
     (if str_trim new_model = [] then Inl ''model must not be empty''
      else Inr \<lparr>ai_agent_id = ai_agent_id i, ai_lineage_root = ai_lineage_root i, ai_model = new_model\<rparr>)"

record background_task_handle =
  bh_handle_id :: string
  bh_task :: string
  bh_checkpoint_cursor :: nat
  bh_status :: string

definition checkpoint_handle :: "background_task_handle \<Rightarrow> nat \<Rightarrow> background_task_handle" where
  "checkpoint_handle h cursor = h\<lparr>bh_checkpoint_cursor := cursor, bh_status := ''running''\<rparr>"

section \<open>Stalls\<close>

definition observe_all :: "nat \<Rightarrow> (string \<times> bool) list \<Rightarrow> stall_watchdog" where
  "observe_all threshold obs = foldl (\<lambda>w (s, n). snd (observe_activity s n w)) (stall_new threshold) obs"

definition trailing_repeats :: "(string \<times> bool) list \<Rightarrow> nat" where
  "trailing_repeats obs = length (takeWhile (\<lambda>(t, m). t = fst (last obs) \<and> \<not> m) (rev obs))"

lemma observed_stalls:
  "sw_threshold (observe_all threshold obs) = threshold \<and> sw_repeats (observe_all threshold obs) = trailing_repeats obs \<and>
   sw_last_signature (observe_all threshold obs) = (if obs = [] then None else Some (fst (last obs)))"
proof (induction obs rule: rev_induct)
  case Nil
  show ?case by (simp add: observe_all_def stall_new_def trailing_repeats_def)
next
  case (snoc x obs)
  obtain s n where x: "x = (s, n)" by (cases x)
  have run: "observe_all threshold (obs @ [x]) = snd (observe_activity s n (observe_all threshold obs))"
    using x by (simp add: observe_all_def)
  have "trailing_repeats (obs @ [(s, n)]) = (if n then 0 else if obs \<noteq> [] \<and> fst (last obs) = s then trailing_repeats obs + 1 else 1)"
    by (cases obs rule: rev_cases) (auto simp: trailing_repeats_def)
  then show ?case unfolding run using snoc x by (auto simp: observe_activity_def Let_def)
qed

text \<open>The watchdog counts exactly the latest observations in a row that have the present signature and no new results, and reports a stall
  when there are as many as its threshold.\<close>

lemma stall_counts_trailing_repeats:
  "sv_repeats (fst (observe_activity s n (observe_all threshold obs))) = trailing_repeats (obs @ [(s, n)]) \<and>
   (sv_stalled (fst (observe_activity s n (observe_all threshold obs))) \<longleftrightarrow> \<not> n \<and> threshold \<le> trailing_repeats (obs @ [(s, n)]))"
proof -
  have "observe_all threshold (obs @ [(s, n)]) = snd (observe_activity s n (observe_all threshold obs))" by (simp add: observe_all_def)
  moreover have "sv_repeats (fst (observe_activity s n w)) = sw_repeats (snd (observe_activity s n w)) \<and>
      (sv_stalled (fst (observe_activity s n w)) \<longleftrightarrow> \<not> n \<and> sw_threshold (snd (observe_activity s n w)) \<le> sw_repeats (snd (observe_activity s n w)))" for w
    by (simp add: observe_activity_def Let_def)
  ultimately show ?thesis using observed_stalls [of threshold "obs @ [(s, n)]"] by metis
qed

section \<open>Delegation\<close>

datatype delegation_op = Dl_Admit string "32 word" | Dl_Finish string

fun delegation_step :: "delegation_admission \<Rightarrow> delegation_op \<Rightarrow> delegation_admission" where
  "delegation_step d (Dl_Admit agent parent_depth) = snd (admit_child agent parent_depth d)"
| "delegation_step d (Dl_Finish agent) = finish_child agent d"

definition delegation_ok :: "32 word \<Rightarrow> 32 word \<Rightarrow> delegation_admission \<Rightarrow> bool" where
  "delegation_ok m c d \<longleftrightarrow> da_max_depth d = m \<and> da_capacity d = c \<and> length (da_active d) \<le> unat c \<and> (\<forall>e \<in> set (da_active d). snd e \<le> m)"

lemma length_bt_insert_le: "length (bt_insert k v m) \<le> Suc (length m)"
  by (induction k v m rule: bt_insert.induct) auto

lemma admit_child_ok [invs]:
  assumes "delegation_ok m c d"
  shows "delegation_ok m c (snd (admit_child agent p d))"
proof (cases "p + 1 > m \<or> of_nat (length (da_active d)) \<ge> c")
  case False
  have "length (da_active d) \<le> unat c" using assms by (simp add: delegation_ok_def)
  also have "unat c < 2 ^ 32" using unsigned_less [of c] by simp
  finally have "unat (of_nat (length (da_active d)) :: 32 word) = length (da_active d)" by (simp add: unat_of_nat take_bit_nat_eq_self)
  then have "length (da_active d) < unat c" using False by (metis linorder_not_le word_less_nat_alt)
  then have "length (bt_insert agent (p + 1) (da_active d)) \<le> unat c" using length_bt_insert_le [of agent "p + 1" "da_active d"] by simp
  then show ?thesis using assms False set_bt_insert [of agent "p + 1" "da_active d"]
    by (auto simp: delegation_ok_def admit_child_def Let_def)
qed (use assms in \<open>auto simp: delegation_ok_def admit_child_def Let_def\<close>)

lemma finish_ok [invs]: "delegation_ok m c d \<Longrightarrow> delegation_ok m c (finish_child agent d)"
  by (auto simp: delegation_ok_def finish_child_def bt_remove_def intro: le_trans [OF length_filter_le])

interpretation delegations: machine delegation_step "delegation_ok m c" for m c
proof
  fix d x
  assume "delegation_ok m c d"
  then show "delegation_ok m c (delegation_step d x)" by (cases x) (simp_all add: invs)
qed

text \<open>Whatever is admitted and finished, there are never more active children than the capacity, and none is recorded deeper than the
  maximum.\<close>

lemma delegation_stays_bounded:
  "length (da_active (foldl delegation_step (delegation_new m c) ops)) \<le> unat c \<and>
   (\<forall>e \<in> set (da_active (foldl delegation_step (delegation_new m c) ops)). snd e \<le> m)"
  using delegations.run_inv [of m c "delegation_new m c" ops] by (simp add: delegation_ok_def delegation_new_def)

text \<open>The depth is computed in 32 bits: below the largest depth a child is admitted at depth zero, whatever the maximum is.\<close>

lemma wrapped_depth_is_admitted:
  assumes "0 < c"
  shows "fst (admit_child agent (- 1) (delegation_new m c)) = Inr 0"
  using assms by (simp add: admit_child_def delegation_new_def Let_def)

section \<open>Plans\<close>

datatype plan_op = Pn_Add plan_node | Pn_Status string plan_status

fun plan_target :: "plan_op \<Rightarrow> string" where
  "plan_target (Pn_Add n) = nd_node_id n"
| "plan_target (Pn_Status i st) = i"

fun plan_step :: "plan_graph \<Rightarrow> plan_op \<Rightarrow> plan_graph" where
  "plan_step g (Pn_Add n) = plan_add n g"
| "plan_step g (Pn_Status i st) = snd (plan_set_status i st g)"

text \<open>Every node of the set waits for a node of the set.\<close>

definition plan_stuck :: "string set \<Rightarrow> plan_graph \<Rightarrow> bool" where
  "plan_stuck S g \<longleftrightarrow> bt_sorted g \<and> (\<forall>i n. bt_get i g = Some n \<longrightarrow> nd_node_id n = i) \<and>
     (\<forall>i \<in> S. \<exists>n. bt_get i g = Some n \<and> nd_status n \<noteq> Plan_Done \<and> set (nd_depends_on n) \<inter> S \<noteq> {})"

lemma plan_step_stuck: "plan_stuck S g \<Longrightarrow> plan_target x \<notin> S \<Longrightarrow> plan_stuck S (plan_step g x)"
proof (cases x)
  case (Pn_Add n)
  assume "plan_stuck S g" and "plan_target x \<notin> S"
  then show ?thesis unfolding Pn_Add plan_step.simps plan_target.simps plan_stuck_def plan_add_def by auto
next
  case (Pn_Status i st)
  assume s: "plan_stuck S g" and t: "plan_target x \<notin> S"
  show ?thesis
  proof (cases "bt_get i g")
    case (Some n)
    let ?g = "bt_update i (\<lambda>n. n\<lparr>nd_status := st\<rparr>) g"
    have same: "bt_get j ?g = bt_get j g" if "j \<in> S" for j using t that Pn_Status by auto
    have "\<forall>j n. bt_get j ?g = Some n \<longrightarrow> nd_node_id n = j" using s by (auto simp: plan_stuck_def)
    moreover have "\<forall>j \<in> S. \<exists>n. bt_get j ?g = Some n \<and> nd_status n \<noteq> Plan_Done \<and> set (nd_depends_on n) \<inter> S \<noteq> {}"
      using s same unfolding plan_stuck_def by metis
    moreover have "bt_sorted ?g" using s by (simp add: plan_stuck_def)
    moreover have "plan_step g x = ?g" using Some Pn_Status by (simp add: plan_set_status_def)
    ultimately show ?thesis unfolding plan_stuck_def by simp
  qed (use s Pn_Status in \<open>simp add: plan_set_status_def\<close>)
qed

lemma stuck_not_ready:
  assumes "plan_stuck S g" and "i \<in> S"
  shows "i \<notin> set (ready_nodes g)"
proof
  assume "i \<in> set (ready_nodes g)"
  then obtain n where n: "n \<in> set (bt_values g)" "node_ready g n" "nd_node_id n = i" by (auto simp: ready_nodes_def)
  then have g: "bt_get i g = Some n" using assms(1) bt_values_get [of g n] by (auto simp: plan_stuck_def)
  then obtain d where d: "d \<in> set (nd_depends_on n)" "d \<in> S" using assms unfolding plan_stuck_def by fastforce
  then have "\<not> dependency_done g d" using assms(1) by (auto simp: plan_stuck_def dependency_done_def)
  then show False using d(1) n(2) by (auto simp: node_ready_def list_all_iff)
qed

text \<open>Nodes that wait for one another are never ready, whatever is added or set elsewhere: a plan with a cycle is accepted and its nodes are
  never offered.\<close>

lemma cyclic_plan_is_never_ready:
  assumes "plan_stuck S g" and "\<forall>x \<in> set ops. plan_target x \<notin> S"
  shows "S \<inter> set (ready_nodes (foldl plan_step g ops)) = {}"
proof -
  have "plan_stuck S (foldl plan_step g ops)" using assms by (induction ops arbitrary: g) (simp_all add: plan_step_stuck)
  then show ?thesis using stuck_not_ready by blast
qed

text \<open>Saving a plan again erases the annotations of the version.\<close>

lemma resave_erases_annotations:
  assumes "bt_sorted s"
  shows "get_plan (fst (save_plan H json s)) (snd (save_plan H json (snd (annotate_plan (fst (save_plan H json s)) note (snd (save_plan H json s))))))
    = get_plan (fst (save_plan H json s)) (snd (save_plan H json s))"
  using assms by (simp add: save_plan_def annotate_plan_def get_plan_def Let_def)

section \<open>Prompts and failures\<close>

text \<open>A prompt for a child has no text of the parent's memory and not the first entry of its transcript, and its task has no secret.\<close>

lemma child_prompt_hides_memory:
  assumes "build_child_prompt task memory secrets transcript context = Inr p"
  shows "(\<forall>m \<in> set memory. \<not> str_contains p m) \<and> (transcript \<noteq> [] \<longrightarrow> \<not> str_contains p (hd transcript)) \<and> (\<forall>s \<in> set secrets. \<not> str_contains task s)"
  using assms by (auto simp: build_child_prompt_def Let_def list_ex_iff split: if_splits)

text \<open>Secrets are looked for in the task only: one in the context reaches the child.\<close>

lemma context_leaks_secret:
  assumes "\<not> list_ex (str_contains task) secrets" and "c \<in> set context" and "str_contains c secret"
  shows "\<exists>p. build_child_prompt task [] secrets [] context = Inr p \<and> str_contains p secret"
proof -
  let ?f = "\<lambda>c. ''context: '' @ c @ [CHR 0x0A]"
  obtain a b where ab: "context = a @ c # b" using assms(2) by (meson split_list)
  obtain x y where xy: "c = x @ secret @ y" using assms(3) by (auto simp: str_contains_def sublist_def)
  have "''task: '' @ task @ [CHR 0x0A] @ concat (map ?f context)
      = (''task: '' @ task @ [CHR 0x0A] @ concat (map ?f a) @ ''context: '' @ x) @ secret @ y @ [CHR 0x0A] @ concat (map ?f b)"
    unfolding ab xy by simp
  then have "str_contains (''task: '' @ task @ [CHR 0x0A] @ concat (map ?f context)) secret" unfolding str_contains_def by (metis sublist_appendI)
  then show ?thesis using assms(1) by (simp add: build_child_prompt_def Let_def)
qed

lemma feed_failure_excerpt:
  assumes "feed_failure_for_repair H i code raw = Some r" and "cr_bounded_failure r = Some b"
  shows "bf_excerpt b = dropWhile (\<lambda>c. c \<noteq> CHR 0x0A) (drop (length raw - 2000) raw)" and "cr_raw_output r = raw"
  using assms by (auto simp: feed_failure_for_repair_def Let_def split: if_splits)

text \<open>The evidence of a failure is an end of the output with at most 2000 bytes that starts with a line break, or is empty; the whole output is kept.\<close>

lemma failure_evidence_is_bounded:
  assumes "feed_failure_for_repair H i code raw = Some r" and "cr_bounded_failure r = Some b"
  shows "length (bf_excerpt b) \<le> 2000 \<and> suffix (bf_excerpt b) raw \<and> (bf_excerpt b = [] \<or> hd (bf_excerpt b) = CHR 0x0A) \<and> cr_raw_output r = raw"
proof -
  let ?t = "drop (length raw - 2000) raw"
  note b = feed_failure_excerpt [OF assms]
  have "suffix (dropWhile (\<lambda>c. c \<noteq> CHR 0x0A) ?t) raw" using suffix_dropWhile suffix_drop suffix_order.trans by blast
  moreover have "length (dropWhile (\<lambda>c. c \<noteq> CHR 0x0A) ?t) \<le> length ?t" by (rule length_dropWhile_le)
  moreover have "dropWhile (\<lambda>c. c \<noteq> CHR 0x0A) ?t = [] \<or> hd (dropWhile (\<lambda>c. c \<noteq> CHR 0x0A) ?t) = CHR 0x0A"
    using hd_dropWhile [of "\<lambda>c. c \<noteq> CHR 0x0A" ?t] by blast
  ultimately show ?thesis using b by simp
qed

text \<open>A failure whose output is one line, however short, gives the model no evidence.\<close>

lemma one_line_failure_has_no_evidence:
  assumes "CHR 0x0A \<notin> set raw" and "feed_failure_for_repair H i code raw = Some r" and "cr_bounded_failure r = Some b"
  shows "bf_excerpt b = []"
proof -
  have "CHR 0x0A \<notin> set (drop (length raw - 2000) raw)" using assms(1) by (meson in_set_dropD)
  then have "dropWhile (\<lambda>c. c \<noteq> CHR 0x0A) (drop (length raw - 2000) raw) = []"
    unfolding dropWhile_eq_Nil_conv by blast
  then show ?thesis using feed_failure_excerpt [OF assms(2,3)] by simp
qed

section \<open>Envelopes, capabilities and ownership\<close>

text \<open>A result is accepted exactly when it writes nothing, or comes from a coder with a worktree and the capability.\<close>

lemma envelope_accepted_exactly: "is_ok (check_envelope kind agent findings paths attached) \<longleftrightarrow> paths = [] \<or> kind = Kind_Coder \<and> attached"
  by (cases kind) (simp_all add: check_envelope_def)

text \<open>A profile is valid exactly when every capability it asks for is known and names neither a bypass nor an administrator.\<close>

lemma profile_valid_exactly:
  "validate_profile caps known = Inr () \<longleftrightarrow> (\<forall>c \<in> set caps. c \<in> set known \<and> \<not> str_contains c ''bypass'' \<and> \<not> str_contains c ''admin'')"
  by (induction caps) auto

datatype ownership_op = Ow_Primary string | Ow_Delegate string string

fun ownership_step :: "ownership_policy \<Rightarrow> ownership_op \<Rightarrow> ownership_policy" where
  "ownership_step p (Ow_Primary agent) = snd (ensure_primary agent p)"
| "ownership_step p (Ow_Delegate agent work) = snd (delegate_work agent work p)"

interpretation owned: machine ownership_step "\<lambda>p :: ownership_policy. ow_primary p = Some agent" for agent
proof
  fix p :: ownership_policy and x
  assume "ow_primary p = Some agent"
  then show "ow_primary (ownership_step p x) = Some agent" by (cases x) (simp_all add: ensure_primary_def delegate_work_def)
qed

text \<open>The primary agent of a task never changes, and every later claim is refused.\<close>

lemma primary_is_final:
  assumes "ow_primary p = Some agent"
  shows "ow_primary (foldl ownership_step p ops) = Some agent \<and> \<not> is_ok (fst (ensure_primary other (foldl ownership_step p ops)))"
  using owned.run_inv [OF assms, of ops] by (simp add: ensure_primary_def)

section \<open>Restart\<close>

lemma length_bt_insert_fresh: "k \<notin> fst ` set m \<Longrightarrow> length (bt_insert k v m) = Suc (length m) \<and> set (bt_insert k v m) = insert (k, v) (set m)"
  by (induction k v m rule: bt_insert.induct) auto

definition journal_keys :: "(string, 'v) btree \<Rightarrow> bool" where
  "journal_keys m \<longleftrightarrow> (\<forall>k \<in> fst ` set m. \<exists>a n. k = a @ '':'' @ show_nat n \<and> n < length m)"

lemma journal_key_fresh:
  assumes "journal_keys m"
  shows "a @ '':'' @ show_nat (length m) \<notin> fst ` set m"
proof
  assume "a @ '':'' @ show_nat (length m) \<in> fst ` set m"
  then obtain b n where "a @ '':'' @ show_nat (length m) = b @ '':'' @ show_nat n" "n < length m"
    using assms unfolding journal_keys_def by blast
  moreover have "CHR '':'' \<notin> set (show_nat k)" for k using show_nat_digits [of "CHR '':''" k] by (auto simp: is_digit_def)
  ultimately show False using colon_split [of a "show_nat (length m)" b "show_nat n"] by simp
qed

lemma restore_lines_all:
  "journal_keys m \<Longrightarrow> restore_lines K m ls = Inr m' \<Longrightarrow>
     length m' = length m + length ls \<and> snd ` set m' = snd ` set m \<union> {v. \<exists>l \<in> set ls. lc_parse K l = Inr v}"
proof (induction ls arbitrary: m)
  case (Cons l ls)
  obtain v where v: "lc_parse K l = Inr v" using Cons.prems(2) by (cases "lc_parse K l") auto
  define k where "k = (case lc_agent_id K v of Some a \<Rightarrow> a | None \<Rightarrow> ''?'') @ '':'' @ show_nat (length m)"
  have f: "length (bt_insert k v m) = Suc (length m)" "set (bt_insert k v m) = insert (k, v) (set m)"
    using length_bt_insert_fresh [OF journal_key_fresh [OF Cons.prems(1)]] by (simp_all add: k_def)
  have "journal_keys (bt_insert k v m)"
    unfolding journal_keys_def
  proof
    fix j
    assume "j \<in> fst ` set (bt_insert k v m)"
    then consider "j = k" | "j \<in> fst ` set m" using f(2) by auto
    then show "\<exists>a n. j = a @ '':'' @ show_nat n \<and> n < length (bt_insert k v m)"
    proof cases
      case 1
      have "length m < length (bt_insert k v m)" using f(1) by simp
      then show ?thesis using 1 k_def by blast
    next
      case 2
      then show ?thesis using Cons.prems(1) f(1) unfolding journal_keys_def by (metis less_SucI)
    qed
  qed
  moreover have "restore_lines K (bt_insert k v m) ls = Inr m'" using Cons.prems(2) v by (simp add: k_def)
  ultimately have "length m' = length (bt_insert k v m) + length ls \<and> snd ` set m' = snd ` set (bt_insert k v m) \<union> {v. \<exists>l \<in> set ls. lc_parse K l = Inr v}"
    by (rule Cons.IH)
  moreover have "{w. \<exists>x \<in> set (l # ls). lc_parse K x = Inr w} = insert v {w. \<exists>x \<in> set ls. lc_parse K x = Inr w}" using v by auto
  ultimately show ?case using f by simp
qed simp

text \<open>A restart that succeeds has one entry for every line of the journal that is not empty, and no line overwrites another.\<close>

lemma restart_keeps_every_line:
  assumes "kill_and_restart K bytes = Inr m"
  shows "length m = length (filter (\<lambda>l. l \<noteq> []) (str_lines bytes)) \<and>
    snd ` set m = {v. \<exists>l \<in> set (str_lines bytes). l \<noteq> [] \<and> lc_parse K l = Inr v}"
proof -
  have "restore_lines K [] (filter (\<lambda>l. l \<noteq> []) (str_lines bytes)) = Inr m"
    using assms by (simp add: kill_and_restart_def split: if_splits)
  from restore_lines_all [OF _ this] show ?thesis by (auto simp: journal_keys_def)
qed

end
