(* ===== verification/Release_Hardening.thy ===== *)
theory Release_Hardening
  imports Credential_Broker Verification_Gates Ordered_Map "HOL-Library.Word"
begin

text \<open>
  The release batch of the verification crate (\<^verbatim>\<open>crates/verification/src/release_hardening.rs\<close>) and the evidence of browser runs
  (\<^verbatim>\<open>browser_evidence.rs\<close>). Token counts are words of 64 bits and times words of 128 bits, whose arithmetic wraps as it does in a release build. The
  digest, the JSON writer and the clock are parameters.
\<close>

section \<open>Errors for the user and the model\<close>

record canonical_error =
  ce_error_id :: string
  ce_internal_message :: string
  ce_secrets :: "string list"

record user_error =
  ue_error_id :: string
  ue_message :: string

record model_error =
  me_error_id :: string
  me_message :: string
  me_repair_hints :: "string list"

text \<open>\<open>str::replace\<close> also for the empty pattern, which occurs before every character and at the end.\<close>

definition replace_all :: "string \<Rightarrow> string \<Rightarrow> string \<Rightarrow> string" where
  "replace_all p r s = (if p = [] then concat (map (\<lambda>c. if is_continuation c then [c] else r @ [c]) s) @ r else str_replace p r s)"

definition redact_text :: "string \<Rightarrow> string list \<Rightarrow> string" where
  "redact_text txt secrets = foldl (\<lambda>out s. replace_all s ''[REDACTED]'' out) txt secrets"

definition render_error :: "canonical_error \<Rightarrow> user_error \<times> model_error" where
  "render_error e =
     (\<lparr>ue_error_id = ce_error_id e, ue_message = redact_text (ce_internal_message e) (ce_secrets e)\<rparr>,
      \<lparr>me_error_id = ce_error_id e, me_message = redact_text (ce_internal_message e) (ce_secrets e), me_repair_hints = [''check file permissions'']\<rparr>)"

section \<open>The ladder of events\<close>

record slo_ladder =
  sd_request_ms :: "128 word option"
  sd_prewarm_ms :: "128 word option"
  sd_sandbox_requested_ms :: "128 word option"
  sd_sandbox_ready_ms :: "128 word option"
  sd_first_token_ms :: "128 word option"

definition slo_record :: "string \<Rightarrow> 128 word \<Rightarrow> slo_ladder \<Rightarrow> slo_ladder" where
  "slo_record stage at l =
     (if stage = ''request'' then l\<lparr>sd_request_ms := Some at\<rparr>
      else if stage = ''prewarm'' then l\<lparr>sd_prewarm_ms := Some at\<rparr>
      else if stage = ''sandbox_requested'' then l\<lparr>sd_sandbox_requested_ms := Some at\<rparr>
      else if stage = ''sandbox_ready'' then l\<lparr>sd_sandbox_ready_ms := Some at\<rparr>
      else if stage = ''first_token'' then l\<lparr>sd_first_token_ms := Some at\<rparr>
      else l)"

definition slo_complete :: "slo_ladder \<Rightarrow> bool" where
  "slo_complete l \<longleftrightarrow> sd_request_ms l \<noteq> None \<and> sd_prewarm_ms l \<noteq> None \<and> sd_sandbox_requested_ms l \<noteq> None \<and> sd_sandbox_ready_ms l \<noteq> None
     \<and> sd_first_token_ms l \<noteq> None"

definition cold_latency_ms :: "slo_ladder \<Rightarrow> 128 word option" where
  "cold_latency_ms l = Option.bind (sd_first_token_ms l) (\<lambda>t. Option.bind (sd_request_ms l) (\<lambda>r. Some (t - r)))"

definition warm_latency_ms :: "slo_ladder \<Rightarrow> 128 word option" where
  "warm_latency_ms l = Option.bind (sd_first_token_ms l) (\<lambda>t. Option.bind (sd_sandbox_ready_ms l) (\<lambda>r. Some (t - r)))"

section \<open>Usage\<close>

record usage_event =
  us_run_id :: string
  us_step_id :: string
  us_provider :: string
  us_input_tokens :: "64 word"
  us_output_tokens :: "64 word"
  us_cost_units :: "64 word"

definition usage_record :: "usage_event \<Rightarrow> usage_event list \<Rightarrow> usage_event list" where
  "usage_record e es = es @ [e]"

definition reconcile :: "64 word \<Rightarrow> 64 word \<Rightarrow> usage_event list \<Rightarrow> bool" where
  "reconcile invoice tolerance es =
     (let ledger = sum_list (map (\<lambda>e. us_input_tokens e + us_output_tokens e) es)
      in if invoice = 0 then ledger = 0
         else let diff = (if ledger \<ge> invoice then ledger - invoice else invoice - ledger)
              in (diff * 10000) div invoice \<le> tolerance)"

section \<open>Contracts, exports, levels and candidates\<close>

record surface_contract =
  su_core :: bool
  su_policy :: bool
  su_evidence :: bool
  su_ui_only_tools :: "string list"

definition surface_contracts :: "bool \<Rightarrow> surface_contract" where
  "surface_contracts headless = \<lparr>su_core = True, su_policy = True, su_evidence = True,
     su_ui_only_tools = (if headless then [] else [''ui.takeover'', ''ui.notify''])\<rparr>"

definition masked :: "(string \<Rightarrow> string) \<Rightarrow> string \<Rightarrow> string" where
  "masked H cred = ''[redacted:'' @ take 12 (H cred) @ '']''"

definition export_meta :: "(string \<Rightarrow> string) \<Rightarrow> string list \<Rightarrow> string list \<Rightarrow> (string, string) btree" where
  "export_meta H facts credentials =
     foldl (\<lambda>m (i, c). bt_insert (''credential-'' @ show_nat i) (masked H c) m)
       (foldl (\<lambda>m (i, f). bt_insert (''fact-'' @ show_nat i) f m) [] (zip [0..<length facts] facts))
       (zip [0..<length credentials] credentials)"

definition export_diagnostics ::
  "(string \<Rightarrow> string) \<Rightarrow> ((string, string) btree \<Rightarrow> (string, string) result) \<Rightarrow> string list \<Rightarrow> string list
     \<Rightarrow> (string, string \<times> (string, string) btree) result" where
  "export_diagnostics H ser facts credentials =
     (let meta = export_meta H facts credentials in and_then (ser meta) (\<lambda>bundle. Inr (bundle, meta)))"

record qualification_levels =
  ql_component_passed :: bool
  ql_integration_passed :: bool
  ql_real_api_passed :: "bool option"

definition qualification_complete :: "qualification_levels \<Rightarrow> bool" where
  "qualification_complete l \<longleftrightarrow> ql_component_passed l \<and> ql_integration_passed l \<and> ql_real_api_passed l = Some True"

record harness_candidate =
  hn_generation :: nat
  hn_profile :: "(string, string) btree"
  hn_shadow :: bool

definition generate_shadow :: "string list \<Rightarrow> harness_candidate" where
  "generate_shadow tags = \<lparr>hn_generation = 1,
     hn_profile = bt_insert ''mode'' ''shadow'' (bt_insert ''conditioned_on'' (str_join '','' tags) []), hn_shadow = True\<rparr>"

definition bounded_repair :: "nat \<Rightarrow> (string, harness_candidate \<times> string) result" where
  "bounded_repair attempt =
     (if attempt = 1 \<or> attempt = 2 then Inr ((generate_shadow [''repair''])\<lparr>hn_generation := attempt\<rparr>, ''candidate'')
      else Inr (\<lparr>hn_generation = 0, hn_profile = [(''source'', ''static-known-good'')], hn_shadow = True\<rparr>, ''static-known-good''))"

section \<open>Evidence of browser runs\<close>

record verification_claim =
  vc_claim_id :: string
  vc_gate :: string

record browser_evidence =
  be_artifact_id :: string
  be_workspace_revision :: nat
  be_run_id :: string
  be_step_id :: string
  be_claim :: verification_claim
  be_url :: string
  be_artifact_sha256 :: string
  be_byte_length :: nat
  be_ts_ms :: int

datatype browser_evidence_error = Unbound string | DigestMismatch

fun show_browser_evidence_error :: "browser_evidence_error \<Rightarrow> string" where
  "show_browser_evidence_error (Unbound field) = ''browser artifact is not admissible: missing '' @ field"
| "show_browser_evidence_error DigestMismatch = ''artifact digest does not match captured bytes''"

definition normalize_browser_artifact ::
  "(string \<Rightarrow> string) \<Rightarrow> int \<Rightarrow> string \<Rightarrow> nat \<Rightarrow> string \<Rightarrow> string \<Rightarrow> verification_claim \<Rightarrow> string \<Rightarrow> string
     \<Rightarrow> (browser_evidence_error, browser_evidence) result" where
  "normalize_browser_artifact H now artifact revision run step claim url bytes =
     (if revision = 0 then Inl (Unbound ''workspace revision'')
      else if run = [] \<or> step = [] then Inl (Unbound ''run/step binding'')
      else if vc_claim_id claim = [] \<or> vc_gate claim = [] then Inl (Unbound ''verification claim'')
      else if url = [] then Inl (Unbound ''capture url'')
      else Inr \<lparr>be_artifact_id = artifact, be_workspace_revision = revision, be_run_id = run, be_step_id = step, be_claim = claim, be_url = url,
                be_artifact_sha256 = H bytes, be_byte_length = length bytes, be_ts_ms = now\<rparr>)"

definition evidence_link :: "browser_evidence \<Rightarrow> string" where
  "evidence_link e = ''artifact '' @ be_artifact_id e @ '' (sha256:'' @ take 12 (be_artifact_sha256 e) @ '') rev '' @ show_nat (be_workspace_revision e)
     @ '' run '' @ be_run_id e @ ''/step '' @ be_step_id e @ '' proves claim '' @ vc_claim_id (be_claim e) @ '' [gate '' @ vc_gate (be_claim e) @ '']''"

definition evidence_item_new :: "int \<Rightarrow> string \<Rightarrow> string \<Rightarrow> string \<Rightarrow> evidence_kind \<Rightarrow> string \<Rightarrow> string \<Rightarrow> evidence_item" where
  "evidence_item_new now tenant run step kind summary detail =
     \<lparr>ev_tenant = tenant, ev_run = run, ev_step = step, ev_kind = kind, ev_summary = summary, ev_detail = detail, ev_ts = now\<rparr>"

definition to_index_item :: "int \<Rightarrow> string \<Rightarrow> browser_evidence \<Rightarrow> evidence_item" where
  "to_index_item now tenant e = evidence_item_new now tenant (be_run_id e) (be_step_id e) EvCheckpoint (evidence_link e)
     (''url='' @ be_url e @ '' bytes='' @ show_nat (be_byte_length e))"

section \<open>Both channels hide secrets\<close>

lemma replace_all_keeps:
  assumes "set v \<inter> set ''[REDACTED]'' = {}" and "v \<noteq> []" and "\<not> sublist v s" and "w \<noteq> []"
  shows "\<not> sublist v (replace_all w ''[REDACTED]'' s)"
  using sublist_replaced [of v w "''[REDACTED]''" s] assms by (auto simp: replace_all_def)

lemma redact_text_keeps:
  assumes "set v \<inter> set ''[REDACTED]'' = {}" and "v \<noteq> []"
  shows "\<not> sublist v s \<Longrightarrow> [] \<notin> set ws \<Longrightarrow> \<not> sublist v (redact_text s ws)"
  unfolding redact_text_def
proof (induction ws arbitrary: s)
  case (Cons w ws)
  then have "w \<noteq> []" by auto
  then show ?case using Cons replace_all_keeps [OF assms, of s w] by simp
qed simp

text \<open>Neither the message for the user nor the one for the model has a known secret that shares no character with the marker, as long as no
  secret of the list is empty; both carry the identity of the error.\<close>

lemma both_channels_hide_secrets:
  assumes "v \<in> set (ce_secrets e)" and "[] \<notin> set (ce_secrets e)" and "set v \<inter> set ''[REDACTED]'' = {}"
  shows "\<not> str_contains (ue_message (fst (render_error e))) v \<and> \<not> str_contains (me_message (snd (render_error e))) v \<and>
    ue_error_id (fst (render_error e)) = me_error_id (snd (render_error e))"
proof -
  have ne: "v \<noteq> []" using assms(1,2) by blast
  obtain a b where ab: "ce_secrets e = a @ v # b" using assms(1) by (meson split_list)
  have "redact_text (ce_internal_message e) (ce_secrets e) = redact_text (replace_all v ''[REDACTED]'' (redact_text (ce_internal_message e) a)) b"
    unfolding ab redact_text_def by simp
  moreover have "\<not> sublist v (replace_all v ''[REDACTED]'' (redact_text (ce_internal_message e) a))"
    using replaced_is_gone [of v "''[REDACTED]''"] assms(3) ne by (simp add: replace_all_def)
  ultimately have "\<not> sublist v (redact_text (ce_internal_message e) (ce_secrets e))"
    using redact_text_keeps [OF assms(3) ne] assms(2) ab by simp
  then show ?thesis by (simp add: render_error_def str_contains_def)
qed

lemma both_channels_hide_secrets_witness:
  "\<not> str_contains (ue_message (fst (render_error \<lparr>ce_error_id = ''e'', ce_internal_message = ''key zyx'', ce_secrets = [''zyx'']\<rparr>))) ''zyx''"
  using both_channels_hide_secrets [of "''zyx''" "\<lparr>ce_error_id = ''e'', ce_internal_message = ''key zyx'', ce_secrets = [''zyx'']\<rparr>"] by simp

section \<open>Reconciliation\<close>

definition ledger_total :: "usage_event list \<Rightarrow> nat" where
  "ledger_total es = sum_list (map (\<lambda>e. unat (us_input_tokens e) + unat (us_output_tokens e)) es)"

definition token_gap :: "nat \<Rightarrow> nat \<Rightarrow> nat" where
  "token_gap a b = (a - b) + (b - a)"

lemma ledger_word: "sum_list (map (\<lambda>e. us_input_tokens e + us_output_tokens e) es) = of_nat (ledger_total es)"
  by (induction es) (simp_all add: ledger_total_def)

text \<open>As long as nothing overflows, a ledger is reconciled with an invoice exactly when the difference in basis points, rounded down, is
  within the tolerance.\<close>

lemma reconciled_exactly:
  assumes "ledger_total es < 2 ^ 64" and "invoice \<noteq> 0"
    and "token_gap (ledger_total es) (unat invoice) * 10000 < 2 ^ 64"
  shows "reconcile invoice tolerance es \<longleftrightarrow> token_gap (ledger_total es) (unat invoice) * 10000 div unat invoice \<le> unat tolerance"
proof -
  let ?l = "of_nat (ledger_total es) :: 64 word"
  let ?d = "if ?l \<ge> invoice then ?l - invoice else invoice - ?l"
  have l: "unat ?l = ledger_total es" using assms(1) by (simp add: unat_of_nat take_bit_nat_eq_self)
  have d: "unat ?d = token_gap (ledger_total es) (unat invoice)"
  proof (cases "invoice \<le> ?l")
    case True
    then have "unat invoice \<le> ledger_total es" using l by (simp add: word_le_nat_alt)
    then show ?thesis using True l by (simp add: unat_sub token_gap_def)
  next
    case False
    then have "ledger_total es < unat invoice" using l by (simp add: word_le_nat_alt)
    moreover have "?l \<le> invoice" using False by simp
    ultimately show ?thesis using False l by (simp add: unat_sub token_gap_def)
  qed
  have "unat (?d * 10000) = unat ?d * 10000" using assms(3) d by (subst unat_word_ariths) simp
  then have "unat (?d * 10000 div invoice) = token_gap (ledger_total es) (unat invoice) * 10000 div unat invoice"
    using d by (simp add: unat_div)
  then show ?thesis using assms(2) unfolding reconcile_def Let_def ledger_word by (simp add: word_le_nat_alt)
qed

lemma reconciled_exactly_witness:
  "reconcile 1000 5 [\<lparr>us_run_id = ''r'', us_step_id = ''s'', us_provider = ''p'', us_input_tokens = 900, us_output_tokens = 100, us_cost_units = 1\<rparr>]"
  using reconciled_exactly [of "[\<lparr>us_run_id = ''r'', us_step_id = ''s'', us_provider = ''p'', us_input_tokens = 900, us_output_tokens = 100, us_cost_units = 1\<rparr>]" 1000 5]
  by (simp add: ledger_total_def token_gap_def)

text \<open>The difference is multiplied in 64 bits: an empty ledger is reconciled with an invoice over two to the sixtieth tokens.\<close>

lemma huge_invoice_is_reconciled: "reconcile (2 ^ 60) 0 []"
  by (simp add: reconcile_def Let_def)

text \<open>A first token that was recorded before its request gives a latency of more than a hundred bits instead of an error.\<close>

lemma latency_wraps:
  "cold_latency_ms (slo_record ''first_token'' 1 (slo_record ''request'' 2 l)) = Some (- 1)"
  by (simp add: cold_latency_ms_def slo_record_def)

section \<open>Repairs and admissible evidence\<close>

text \<open>A repair never fails: only the first two attempts give a candidate, every other attempt the static profile, which is marked as a shadow too.\<close>

lemma repair_is_bounded:
  "\<exists>c source. bounded_repair attempt = Inr (c, source) \<and> hn_shadow c \<and> hn_generation c \<le> 2 \<and>
     (source = ''candidate'' \<longleftrightarrow> attempt \<in> {1, 2}) \<and> (source = ''candidate'' \<longrightarrow> hn_generation c = attempt)"
  by (auto simp: bounded_repair_def generate_shadow_def)

text \<open>An artifact is admissible exactly when it is bound to a revision, a run and step, a claim with a gate and an address; its digest is that of
  the bytes, and it enters the index under its own run and step.\<close>

lemma artifact_admissible_exactly:
  "(\<exists>e. normalize_browser_artifact H now artifact revision run step claim url bytes = Inr e) \<longleftrightarrow>
     revision \<noteq> 0 \<and> run \<noteq> [] \<and> step \<noteq> [] \<and> vc_claim_id claim \<noteq> [] \<and> vc_gate claim \<noteq> [] \<and> url \<noteq> []"
  by (simp add: normalize_browser_artifact_def)

end
