(* ===== verification/Spec2Isabelle.thy ===== *)
theory Spec2Isabelle
  imports Automation_Engine Agent_Fleet Fleet_Admission Effect_Ledger Checkpoints Hook_Bus Policy_Kernel Policy_Rules Compaction Merge_Transaction Protocol_State Workspace_Properties Run_Plane Handshake_Properties Sandbox_Gateway Object_Store Model_Transport Model_Routing Credential_Broker Exec_Properties Task_Index Context_Graph Context_Pack Verification_Gates Skill_Registry Browser_Session Mcp_Client Engineering_Memory Receipt_Chain Git_Snapshot Agent_Runtime Release_Hardening
begin

text \<open>
  A verification development for the agent runtime under \<^verbatim>\<open>src/\<close> (a Rust workspace of crates and applications).

  \<^bold>\<open>The program.\<close> A core runtime executes tasks for coding agents. Everything durable goes through an event
  store: commands are planned against the folded history of a task, events are appended in gapless streams,
  projections are kept beside them, and leases fence writers that were superseded. Around the store stand the
  automation engine, the fleet of agents with its admission control, the policy kernel with approvals and mediation, the
  ledger of protected effects, checkpoints, the compaction of conversations, the tool runtime, the git wrapper with merge
  transactions, and journals that let each of them survive a crash. The agent loop itself asks a model provider through
  the gateway, has its tool calls decided by the kernel, answers them from the registry, and reports every
  step to the scheduler, which writes it into the store. Effects outside the core run in a sandbox guest, which is spoken
  to in frames over a local stream that both sides have authenticated.

  \<^bold>\<open>Conventions.\<close> A \<open>Result\<close> is a sum with \<^term>\<open>Inl\<close> for the error; a struct is a record and an enum a datatype, with
  short prefixes on fields and suffixes on constructors that would clash; a \<open>BTreeMap\<close> is a list of entries
  sorted by key (\<open>Ordered_Map\<close>); a string is the list of its bytes, white space and letter case are those of ASCII.
  Identifiers are text. Counters of 64 bits that only grow are natural numbers; the places where a wrap-around
  can happen are modelled at their width (\<open>Cron\<close>). The clock, fresh identifiers, SHA-256, JSON codecs, the git
  process, directory listings and the outcomes of file writes are arguments of the definitions that use them, and what the
  code relies on is a hypothesis of the theorem. Panics are values (\<open>None\<close> or an error of their own).

  \<^bold>\<open>Theories.\<close>
  \<^item> \<open>Prelude\<close>, \<open>Rust_Text\<close>, \<open>Ordered_Map\<close>: results, the string functions of the standard library, UTF-8 validity,
    ordered maps, and the locales that the components interpret: \<open>machine\<close> (an invariant kept by every run),
    \<open>fenced_machine\<close> (a counter no operation lowers), \<open>append_only\<close> (a log that only grows), \<open>keyed_map\<close> (lookup
    after insertion and replay of a journal).
  \<^item> \<open>Domain_Events\<close>, \<open>Task_Machine\<close>, \<open>Domain_Commands\<close>: \<^verbatim>\<open>crates/domain\<close>. The task machine against an inductive
    life cycle; review before completion; verification before the end of a turn.
  \<^item> \<open>Event_Database\<close>, \<open>Event_Store\<close>, \<open>Command_Processor\<close>, \<open>Store_Properties\<close>, \<open>Command_Properties\<close>,
    \<open>Projection_Properties\<close>, \<open>Store_Registries\<close>: \<^verbatim>\<open>crates/event-store\<close>. Tables with their constraints, append and load, leases,
    the idempotent command processor, projections and rebuild, write scopes, approvals and automations.
  \<^item> \<open>Cron\<close>, \<open>Automation_Engine\<close>: \<^verbatim>\<open>core-runtime/src/automation.rs\<close>. Civil dates, cron fields with their wrap-around, the
    tick that fires a cron automation at most once per minute.
  \<^item> \<open>Agent_Fleet\<close>, \<open>Fleet_Admission\<close>: \<^verbatim>\<open>agent_fleet.rs\<close>, \<^verbatim>\<open>fleet_admission.rs\<close>, \<^verbatim>\<open>delegation.rs\<close> and the reminder
    engine. Idempotent spawns, replay of the journal, transactional admission, path claims.
  \<^item> \<open>Policy_Kernel\<close>, \<open>Policy_Rules\<close>: \<^verbatim>\<open>crates/policy\<close>. What the kernel allows, approvals, votes, the layered rules.
  \<^item> \<open>Effect_Ledger\<close>: \<^verbatim>\<open>crates/effects\<close>. The hash chain binds its history; the file with lost writes.
  \<^item> \<open>Checkpoints\<close>, \<open>Hook_Bus\<close>: \<^verbatim>\<open>crates/checkpoint\<close>. Epoch fencing, session leases, baseline and deltas, cursors; hooks
    and failure diagnostics.
  \<^item> \<open>Compaction\<close>: \<^verbatim>\<open>crates/compaction\<close> and the loop of \<^verbatim>\<open>one_agent.rs\<close> that applies a plan.
  \<^item> \<open>Git_Repo\<close>, \<open>Merge_Transaction\<close>: \<^verbatim>\<open>crates/git/src/lib.rs\<close>, and the merge transactions, session lineage and edit
    gate of \<^verbatim>\<open>crates/workspace\<close>. Reading of git's output, the transaction file under failing writes.
  \<^item> \<open>Fallible\<close>, \<open>File_System\<close>, \<open>Workspace_Files\<close>, \<open>Change_Engine\<close>, \<open>Workspace_Properties\<close>: fallible sequences on a
    state, a file system with links and failing calls, and over them the file service, review, handoff and change engine of
    \<^verbatim>\<open>crates/workspace\<close>. Containment in the root, replacement on the current revision, the match ladder.
  \<^item> \<open>Protocol_State\<close>: \<^verbatim>\<open>crates/protocol-state\<close>. The journal under torn writes.
  \<^item> \<open>Tool_Schema\<close>, \<open>Tool_Pipeline\<close>: \<^verbatim>\<open>crates/tools\<close>. Typed arguments, surfaces, the registry, the staged pipeline, paged outputs.
  \<^item> \<open>Provider_Gateway\<close>: \<^verbatim>\<open>crates/providers\<close>. Request bodies, stream parsers, the assembler that joins fragments of calls.
  \<^item> \<open>One_Agent\<close>, \<open>Agent_Properties\<close>: \<^verbatim>\<open>one_agent.rs\<close> and the prompt compiler. The loop as recursion over the turns
    left, over an environment of model, tools and gate; it ends, its requests are well formed for the
    providers, and its background worker is not observable.
  \<^item> \<open>Run_Controls\<close>, \<open>Run_Plane\<close>: \<^verbatim>\<open>scheduler.rs\<close>. Stop, pause and steering signals, grants of a mode, the durable approval
    gate, the observer that writes the run into the store, resuming and settling a run.
  \<^item> \<open>Frame_Protocol\<close>, \<open>Handshake_Properties\<close>: \<^verbatim>\<open>protocol/src/transport.rs\<close>. Length-prefixed frames over a stream that cuts and
    fails, the proof of the boot secret on both sides, the serving loop.
  \<^item> \<open>Guest_Executor\<close>, \<open>Guest_Properties\<close>, \<open>Link_Laws\<close>: \<^verbatim>\<open>protocol/src/guest.rs\<close>, \<^verbatim>\<open>sandbox/src/guest.rs\<close> and
    \<^verbatim>\<open>terminal/src/pty.rs\<close>. The gate of a sandbox guest, its path containment, the idempotency cache, processes that are
    fenced by generations while other threads act between their polls.
  \<^item> \<open>Sandbox_Gateway\<close>: the rest of \<^verbatim>\<open>crates/sandbox\<close> but its substrates. Policies, tenants, negotiation, the guest client and the
    reconciliation of lost writes.
  \<^item> \<open>Object_Store\<close>: \<^verbatim>\<open>event-store/src/object_store.rs\<close>. The contract of a backend as a locale, the SQLite table
    as an interpretation of it, and files with sidecars.
  \<^item> \<open>Model_Transport\<close>, \<open>Model_Routing\<close>: the transport, routing and envelope of \<^verbatim>\<open>crates/providers\<close>. Attempts, retries and their
    backoff over a script of network outcomes, the choice of a model, the resolution of a dispatch.
  \<^item> \<open>Credential_Broker\<close>: \<^verbatim>\<open>crates/secrets\<close>. Leases on secrets, what lets a value leave, revocation, redaction.
  \<^item> \<open>Exec_Broker\<close>, \<open>Exec_Properties\<close>: \<^verbatim>\<open>crates/terminal\<close>. Runs with their status files and logs beside the processes of the
    machine, the replayed tail, the contract of a command, layered environments.
  \<^item> \<open>Merkle_Index\<close>, \<open>Dependency_Graph\<close>, \<open>Context_Graph\<close>, \<open>Task_Index\<close>: \<^verbatim>\<open>crates/retrieval\<close>. The digest tree of a repository
    with its update against a rebuild, imports between files with their impact as distance in the graph, routes between
    files, and the index of a task whose refresh is compared with a build.
  \<^item> \<open>Context_Pack\<close>: \<^verbatim>\<open>crates/context\<close>. Packing under a budget with recoverable handles, provenance and sources of a prompt, the
    transcript whose log survives compaction, the cache ledger, the breakdown of a window.
  \<^item> \<open>Verification_Gates\<close>: \<^verbatim>\<open>crates/verification\<close>. Plans of gates that return as long as time advances, the verifier behind a gate,
    attribution of diagnostics, evidence that stays with its tenant.
  \<^item> \<open>Skill_Registry\<close>: \<^verbatim>\<open>crates/skills\<close>. Manifests and the registry, capsules that narrow authority, layers with one winner for each
    subject, the stores of the evolution lab.
  \<^item> \<open>Browser_Session\<close>: \<^verbatim>\<open>crates/browser\<close>. One controller for each session, a watchdog that latches, page deltas that lead to the new
    state, shared control and the cooldown after human activity.
  \<^item> \<open>Mcp_Client\<close>: \<^verbatim>\<open>crates/mcp\<close>. Requests that find their answer among other lines, and the pool of servers.
  \<^item> \<open>Engineering_Memory\<close>: \<^verbatim>\<open>checkpoint/mcp_memory.rs\<close>, \<^verbatim>\<open>importers_plugins.rs\<close>. The hub whose calls stay on record, the configuration that
    wins, facts whose chains of supersessions are always found, importers, and a pool that keeps tenants apart.
  \<^item> \<open>Receipt_Chain\<close>: \<^verbatim>\<open>checkpoint/security_hardening.rs\<close>, \<^verbatim>\<open>crates/procedural-runtime\<close>. What a chain of receipts binds and what it does not, handles,
    and scripts that start only what the policy allows.
  \<^item> \<open>Git_Snapshot\<close>: \<^verbatim>\<open>git/snapshot.rs\<close>, \<^verbatim>\<open>checkpoint/cloud_attach.rs\<close>. Snapshots that delete only their own refs, and a handoff that is exact or
    refused.
  \<^item> \<open>Agent_Runtime\<close>: \<^verbatim>\<open>core-runtime/agent_profiles_plans.rs\<close>, \<^verbatim>\<open>agent_runtime_*.rs\<close>. Bounded delegation, plans and what is ready in them, stalls as the
    repeats at the end of the observations, prompts of children, and a restart that keeps every line.
  \<^item> \<open>Release_Hardening\<close>: \<^verbatim>\<open>verification/release_hardening.rs\<close>, \<^verbatim>\<open>browser_evidence.rs\<close>. Two channels of errors without secrets, reconciliation in 64 bits,
    bounded repairs and admissible evidence.

  \<^bold>\<open>What the theorems show.\<close> For each component its invariant over arbitrary runs, what its operations return on
  every branch that matters to a caller, the journals read back after a restart, and refinements of the detailed code
  by a specification (the life cycle, the folded history, the calendar, cron's own reading of a minute, the diff git printed).
  Where the code does not do what it means to, a theorem exhibits it: these are the properties of kind error and
  liveness, among them a guest that skips its gate for a newer generation and a search for a route that never returns; that an
  approval opens its tool for good is part of the theorem on what approvals open.

  \<^bold>\<open>Loops and fuel.\<close> Loops are structural recursion or recursion with a measure (UTF-8 characters, JSON values, the blocks of a
  conversation, the turns a run has left); the reader of pages is a partial function that is proved to return for every positive page
  size, and the walk back along a route is one that is proved to return when no file depends on the start and not to return when the
  start lies on a cycle shorter than the way to the target; so are the polling of a gate, which returns as long as time advances, and the chain of supersessions, which always ends. No definition uses fuel.

  \<^bold>\<open>Not modelled.\<close> The threads, tool handlers and context pack of the scheduler, the surface and the daemon are asynchronous
  orchestration over processes and sockets. The sandbox substrates, the signed HTTP backend of the object store, the browser protocol client,
  observability and the applications are I/O. The patch gate decides on a floating-point ratio, and so does the fused query of the
  task index. The repositories and the index store add no decision to the tables modelled. Of retrieval the lexical
  index and the parsing of sources are calls of third-party engines. The benchmarks and metrics of
  contexts and the prices of models are computed in floating point.
\<close>

end
